(* ===== verification/Prelude.thy ===== *)
theory Prelude
  imports Main "HOL-Library.AList" "HOL-Library.Multiset" "HOL-Library.Word"
begin

text \<open>Shared vocabulary of the development: Go integers, the decimal conversions of the
  packages strconv and fmt, Go maps as association lists with distinct keys, and the list
  lemmas the component theories use. A Go map is iterated in an unspecified order: an
  operation that ranges over a map takes a function that reorders the entries, and its
  theorems hold for every such function.\<close>

named_theorems store_defs \<open>definitions of the store operations\<close>
named_theorems pool_simps \<open>rewrite rules of the key pools\<close>

section \<open>Integers\<close>

text \<open>An int64 value is an int in the range [-2^63, 2^63); arithmetic wraps.\<close>

definition i64 :: "int \<Rightarrow> int" where
  "i64 x = (x + 9223372036854775808) mod 18446744073709551616 - 9223372036854775808"

definition in_i64 :: "int \<Rightarrow> bool" where
  "in_i64 x \<longleftrightarrow> -9223372036854775808 \<le> x \<and> x < 9223372036854775808"

lemma i64_id [simp]: "in_i64 x \<Longrightarrow> i64 x = x"
  by (simp add: i64_def in_i64_def)

lemma in_i64_small [simp]: "in_i64 0" "in_i64 1"
  by (simp_all add: in_i64_def)

lemma in_i64_i64 [simp]: "in_i64 (i64 x)"
  by (simp add: i64_def in_i64_def)

lemma i64_add_left: "i64 (i64 x + y) = i64 (x + y)"
  by (simp add: i64_def mod_simps algebra_simps)

lemma i64_shift [simp]: "i64 (x + 18446744073709551616 * k) = i64 x"
proof -
  have "x + 18446744073709551616 * k + 9223372036854775808 =
      (x + 9223372036854775808) + 18446744073709551616 * k" by simp
  then show ?thesis unfolding i64_def by (simp only: mod_mult_self2)
qed

lemma i64_mult_left: "i64 (i64 x * m + y) = i64 (x * m + y)"
proof -
  define k where "k = - ((x + 9223372036854775808) div 18446744073709551616)"
  have "i64 x = x + 18446744073709551616 * k"
    unfolding i64_def k_def by (simp add: minus_mult_div_eq_mod [symmetric])
  then have "i64 x * m + y = (x * m + y) + 18446744073709551616 * (k * m)"
    by (simp add: algebra_simps)
  then show ?thesis by (simp only: i64_shift)
qed

text \<open>Integer division of Go truncates towards zero.\<close>

definition tdiv :: "int \<Rightarrow> int \<Rightarrow> int" where
  "tdiv a b = (if (a < 0) = (b < 0) then \<bar>a\<bar> div \<bar>b\<bar> else - (\<bar>a\<bar> div \<bar>b\<bar>))"

section \<open>Decimal text\<close>

datatype num_error = SyntaxError | RangeError

definition digit_char :: "nat \<Rightarrow> char" where
  "digit_char d = char_of (48 + d)"

definition is_digit :: "char \<Rightarrow> bool" where
  "is_digit c \<longleftrightarrow> 48 \<le> (of_char c :: nat) \<and> (of_char c :: nat) \<le> 57"

definition digit_val :: "char \<Rightarrow> nat" where
  "digit_val c = of_char c - 48"

fun show_nat :: "nat \<Rightarrow> string" where
  "show_nat n = (if n < 10 then [digit_char n] else show_nat (n div 10) @ [digit_char (n mod 10)])"

declare show_nat.simps [simp del]

definition show_int :: "int \<Rightarrow> string" where
  "show_int i = (if i < 0 then CHR ''-'' # show_nat (nat (- i)) else show_nat (nat i))"

text \<open>The loop of strconv.ParseUint in base 10 and bit size 64: a character that is not a
  digit is a syntax error, a value above the maximum a range error that returns the maximum.\<close>

fun parse_digits :: "nat \<Rightarrow> string \<Rightarrow> nat \<times> num_error option" where
  "parse_digits n [] = (n, None)"
| "parse_digits n (c # cs) =
    (if \<not> is_digit c then (0, Some SyntaxError)
     else if n * 10 + digit_val c > 18446744073709551615
       then (18446744073709551615, Some RangeError)
     else parse_digits (n * 10 + digit_val c) cs)"

definition ParseUint :: "string \<Rightarrow> nat \<times> num_error option" where
  "ParseUint s = (if s = [] then (0, Some SyntaxError) else parse_digits 0 s)"

definition strip_sign :: "string \<Rightarrow> bool \<times> string" where
  "strip_sign s =
    (case s of [] \<Rightarrow> (False, [])
     | c # cs \<Rightarrow> if c = CHR ''+'' then (False, cs)
                else if c = CHR ''-'' then (True, cs) else (False, s))"

definition ParseInt :: "string \<Rightarrow> int \<times> num_error option" where
  "ParseInt s =
    (if s = [] then (0, Some SyntaxError)
     else case strip_sign s of (neg, ds) \<Rightarrow>
       (case ParseUint ds of (un, err) \<Rightarrow>
         if err = Some SyntaxError then (0, err)
         else if \<not> neg \<and> un \<ge> 9223372036854775808
           then (9223372036854775807, Some RangeError)
         else if neg \<and> un > 9223372036854775808
           then (-9223372036854775808, Some RangeError)
         else (if neg then - int un else int un, None)))"

lemma digit_char_props [simp]:
  assumes "d < 10"
  shows "is_digit (digit_char d)" "digit_val (digit_char d) = d"
    "digit_char d \<noteq> CHR ''-''" "digit_char d \<noteq> CHR ''+''" "digit_char d \<noteq> CHR '':''"
proof -
  have o: "(of_char (digit_char d) :: nat) = 48 + d"
    using assms by (simp add: digit_char_def)
  show "is_digit (digit_char d)" "digit_val (digit_char d) = d"
    using o assms by (simp_all add: is_digit_def digit_val_def)
  have ne: "digit_char d \<noteq> c" if "(of_char c :: nat) \<notin> {48..57}" for c
    using o that assms by auto
  show "digit_char d \<noteq> CHR ''-''" "digit_char d \<noteq> CHR ''+''" "digit_char d \<noteq> CHR '':''"
    by (rule ne; simp)+
qed

lemma show_nat_ne [simp]: "show_nat n \<noteq> []"
  by (subst show_nat.simps) simp

lemma show_nat_ne' [simp]: "[] \<noteq> show_nat n"
  using show_nat_ne [of n] by metis

lemma show_nat_digits: "c \<in> set (show_nat n) \<Longrightarrow> is_digit c"
proof (induction n rule: show_nat.induct)
  case (1 n)
  then show ?case
    by (subst (asm) (2) show_nat.simps) (auto split: if_splits)
qed

lemma parse_digits_snoc:
  assumes "snd (parse_digits a xs) = None" and "is_digit c"
    and "fst (parse_digits a xs) * 10 + digit_val c \<le> 18446744073709551615"
  shows "parse_digits a (xs @ [c]) = (fst (parse_digits a xs) * 10 + digit_val c, None)"
  using assms by (induction a xs rule: parse_digits.induct) (auto split: if_splits)

lemma parse_digits_range:
  "parse_digits n s = (v, Some RangeError) \<Longrightarrow> v = 18446744073709551615"
  by (induction n s rule: parse_digits.induct) (auto split: if_splits)

lemma ParseUint_range: "ParseUint s = (v, Some RangeError) \<Longrightarrow> v = 18446744073709551615"
  by (auto simp: ParseUint_def parse_digits_range split: if_splits)

lemma parse_digits_show:
  "n \<le> 18446744073709551615 \<Longrightarrow> parse_digits 0 (show_nat n) = (n, None)"
proof (induction n rule: show_nat.induct)
  case (1 n)
  show ?case
  proof (cases "n < 10")
    case True
    then show ?thesis by (subst show_nat.simps) simp
  next
    case False
    then have ih: "parse_digits 0 (show_nat (n div 10)) = (n div 10, None)"
      using 1 by simp
    have "parse_digits 0 (show_nat (n div 10) @ [digit_char (n mod 10)]) =
      (n div 10 * 10 + n mod 10, None)"
      using parse_digits_snoc [of 0 "show_nat (n div 10)" "digit_char (n mod 10)"] ih 1(2)
      by simp
    then show ?thesis using False by (subst show_nat.simps) simp
  qed
qed

lemma ParseUint_show [simp]:
  "n \<le> 18446744073709551615 \<Longrightarrow> ParseUint (show_nat n) = (n, None)"
  by (simp add: ParseUint_def parse_digits_show)

lemma show_nat_hd:
  obtains c cs where "show_nat n = c # cs" "is_digit c" "c \<noteq> CHR ''-''" "c \<noteq> CHR ''+''"
proof -
  obtain c cs where s: "show_nat n = c # cs" by (cases "show_nat n") auto
  have d: "is_digit c" using show_nat_digits [of c n] s by simp
  have "c \<noteq> CHR ''-''" "c \<noteq> CHR ''+''" using d by (auto simp: is_digit_def)
  then show ?thesis using that s d by blast
qed

lemma ParseInt_show [simp]:
  assumes "in_i64 i"
  shows "ParseInt (show_int i) = (i, None)"
proof (cases "i < 0")
  case True
  then show ?thesis
    using assms by (simp add: ParseInt_def show_int_def strip_sign_def in_i64_def)
next
  case False
  obtain c cs where s: "show_nat (nat i) = c # cs" "c \<noteq> CHR ''-''" "c \<noteq> CHR ''+''"
    by (rule show_nat_hd)
  have "ParseUint (c # cs) = (nat i, None)"
    using ParseUint_show [of "nat i"] False assms s by (simp add: in_i64_def)
  then show ?thesis
    using False assms s by (simp add: ParseInt_def show_int_def strip_sign_def in_i64_def)
qed

lemma show_nat_inj: "show_nat a = show_nat b \<Longrightarrow> a = b"
proof (induction a arbitrary: b rule: show_nat.induct)
  case (1 a)
  have dinj: "digit_char x = digit_char y \<Longrightarrow> x < 10 \<Longrightarrow> y < 10 \<Longrightarrow> x = y" for x y
    using digit_char_props(2) by metis
  show ?case
  proof (cases "a < 10")
    case True
    with 1(2) have "b < 10"
      by (subst (asm) show_nat.simps, subst (asm) (2) show_nat.simps) (auto split: if_splits)
    with True 1(2) show ?thesis
      by (subst (asm) show_nat.simps, subst (asm) (2) show_nat.simps) (auto intro: dinj)
  next
    case False
    with 1(2) have b: "\<not> b < 10"
      by (subst (asm) show_nat.simps, subst (asm) (2) show_nat.simps) (auto split: if_splits)
    have e: "show_nat (a div 10) = show_nat (b div 10)" "a mod 10 = b mod 10"
      using 1(2) False b
      by (subst (asm) show_nat.simps, subst (asm) (2) show_nat.simps, auto intro: dinj)+
    from 1(1) [OF False e(1)] e(2) show ?thesis by (metis div_mult_mod_eq)
  qed
qed

section \<open>Dynamic values\<close>

text \<open>The values the program hands to the store as \<^verbatim>\<open>any\<close>, and fmt.Sprint on them.\<close>

datatype goany = AStr string | AInt int | AUint nat | ABool bool | ANil

fun Sprint :: "goany \<Rightarrow> string" where
  "Sprint (AStr s) = s"
| "Sprint (AInt i) = show_int i"
| "Sprint (AUint n) = show_nat n"
| "Sprint (ABool b) = (if b then ''true'' else ''false'')"
| "Sprint ANil = ''<nil>''"

section \<open>Go maps\<close>

type_synonym ('k, 'v) gomap = "('k \<times> 'v) list"

abbreviation gget :: "('k, 'v) gomap \<Rightarrow> 'k \<Rightarrow> 'v option" where
  "gget m k \<equiv> map_of m k"

abbreviation gput :: "'k \<Rightarrow> 'v \<Rightarrow> ('k, 'v) gomap \<Rightarrow> ('k, 'v) gomap" where
  "gput k v m \<equiv> AList.update k v m"

abbreviation gdel :: "'k \<Rightarrow> ('k, 'v) gomap \<Rightarrow> ('k, 'v) gomap" where
  "gdel k m \<equiv> AList.delete k m"

definition gomap_ok :: "('k, 'v) gomap \<Rightarrow> bool" where
  "gomap_ok m \<longleftrightarrow> distinct (map fst m)"

text \<open>An iteration order of the runtime: any rearrangement of the entries.\<close>

definition iter_order :: "('a list \<Rightarrow> 'a list) \<Rightarrow> bool" where
  "iter_order ord \<longleftrightarrow> (\<forall>xs. mset (ord xs) = mset xs)"

lemma iter_order_set: "iter_order ord \<Longrightarrow> set (ord xs) = set xs"
  unfolding iter_order_def by (metis set_mset_mset)

lemma iter_order_length: "iter_order ord \<Longrightarrow> length (ord xs) = length xs"
  unfolding iter_order_def by (metis size_mset)

lemma iter_order_distinct: "iter_order ord \<Longrightarrow> distinct (ord xs) = distinct xs"
  unfolding iter_order_def by (metis mset_eq_imp_distinct_iff)

lemma iter_order_id [simp]: "iter_order id" "iter_order (\<lambda>x. x)" "iter_order rev"
  by (auto simp: iter_order_def)

lemma gomap_ok_Nil [simp]: "gomap_ok []"
  by (simp add: gomap_ok_def)

lemma gomap_ok_single [simp]: "gomap_ok [e]"
  by (simp add: gomap_ok_def)

lemma gomap_ok_gput [simp]: "gomap_ok m \<Longrightarrow> gomap_ok (gput k v m)"
  by (simp add: gomap_ok_def distinct_update)

lemma gomap_ok_gdel [simp]: "gomap_ok m \<Longrightarrow> gomap_ok (gdel k m)"
  by (simp add: gomap_ok_def distinct_delete)

lemma gomap_ok_filter [simp]: "gomap_ok m \<Longrightarrow> gomap_ok (filter P m)"
  by (simp add: gomap_ok_def distinct_map_filter)

lemma gget_gput [simp]: "gget (gput k v m) k' = (if k' = k then Some v else gget m k')"
  by (simp add: update_conv')

lemma gget_gdel [simp]: "gget (gdel k m) k' = (if k' = k then None else gget m k')"
  by (simp add: delete_conv')

lemma in_set_gput: "e \<in> set (gput k v m) \<Longrightarrow> e = (k, v) \<or> e \<in> set m"
  by (induction m) (auto split: if_splits)

lemma in_set_gdel: "e \<in> set (gdel k m) \<Longrightarrow> e \<in> set m"
  by (induction m) (auto split: if_splits)

lemma gget_in_set: "gomap_ok m \<Longrightarrow> gget m k = Some v \<longleftrightarrow> (k, v) \<in> set m"
  by (simp add: gomap_ok_def)

lemma gget_filter_key:
  "gget (filter (\<lambda>e. P (fst e)) m) k = (if P k then gget m k else None)"
  by (induction m) auto

lemma iter_order_map_of:
  assumes "iter_order ord" "gomap_ok m"
  shows "gomap_ok (ord m)" "map_of (ord m) = map_of m"
proof -
  have ms: "mset (ord m) = mset m" using assms(1) by (simp add: iter_order_def)
  then have "mset (map fst (ord m)) = mset (map fst m)" by simp
  then show ok: "gomap_ok (ord m)"
    using assms(2) mset_eq_imp_distinct_iff unfolding gomap_ok_def by blast
  show "map_of (ord m) = map_of m"
    using ok assms(2) mset_eq_setD [OF ms] by (simp add: gomap_ok_def map_of_inject_set)
qed

section \<open>Lists\<close>

lemma removeAll_distinct_cons:
  "distinct xs \<Longrightarrow> distinct (x # removeAll x xs)"
  by (simp add: distinct_removeAll)

lemma filter_ne_removeAll: "filter (\<lambda>x. x \<noteq> a) xs = removeAll a xs"
  by (induction xs) auto

lemma mset_rot_last: "xs \<noteq> [] \<Longrightarrow> mset (last xs # butlast xs) = mset xs"
  by (metis append_butlast_last_id mset.simps(2) mset_append add_mset_add_single mset.simps(1))

lemma distinct_rot_last: "xs \<noteq> [] \<Longrightarrow> distinct (last xs # butlast xs) = distinct xs"
  using mset_rot_last mset_eq_imp_distinct_iff by blast

lemma set_rot_last: "xs \<noteq> [] \<Longrightarrow> set (last xs # butlast xs) = set xs"
  using mset_rot_last mset_eq_setD by blast

end
