(* ===== verification/StoreSpec.thy ===== *)
theory StoreSpec
  imports Prelude
begin

text \<open>What the interface Store of src/internal/store/store.go promises: an abstract store maps
  a key to a mathematical value, and each operation has a specification on it. The locale
  \<^verbatim>\<open>store_impl\<close> states that an implementation refines these specifications; the lemmas about
  queues, hashes and sorted sets that the key pools rely on are proved in it once.\<close>

section \<open>Abstract stores\<close>

datatype store_err =
    ErrNotFound
  | ErrTypeMismatch string
  | ErrLRemCount
  | ErrNotInteger
  | PanicMakeSlice
  | PanicIndex
  | PanicNilMap

type_synonym 'a sres = "store_err + 'a"

type_synonym 'a iter = "'a list \<Rightarrow> 'a list"

datatype aval =
    VItem string int
  | VHash "string \<Rightarrow> string option"
  | VList "string list"
  | VSet "string set"
  | VZSet "string \<Rightarrow> int option"

type_synonym astore = "string \<Rightarrow> aval option"

definition spec_Delete :: "string \<Rightarrow> astore \<Rightarrow> astore" where
  "spec_Delete key A = A(key := None)"

definition hash_upd :: "(string \<times> goany) list \<Rightarrow> (string \<Rightarrow> string option) \<Rightarrow> string \<Rightarrow> string option" where
  "hash_upd vals h = fold (\<lambda>(f, v) h. h(f \<mapsto> Sprint v)) vals h"

definition spec_HSet :: "string \<Rightarrow> (string \<times> goany) list \<Rightarrow> astore \<Rightarrow> astore \<times> unit sres" where
  "spec_HSet key vals A =
    (case A key of
       None \<Rightarrow> (A(key \<mapsto> VHash (hash_upd vals Map.empty)), Inr ())
     | Some (VHash h) \<Rightarrow> (A(key \<mapsto> VHash (hash_upd vals h)), Inr ())
     | Some _ \<Rightarrow> (A, Inl (ErrTypeMismatch key)))"

definition spec_HGetAll :: "string \<Rightarrow> astore \<Rightarrow> (string \<Rightarrow> string option) sres" where
  "spec_HGetAll key A =
    (case A key of
       None \<Rightarrow> Inr Map.empty
     | Some (VHash h) \<Rightarrow> Inr h
     | Some _ \<Rightarrow> Inl (ErrTypeMismatch key))"

definition spec_LPush :: "string \<Rightarrow> goany list \<Rightarrow> astore \<Rightarrow> astore \<times> unit sres" where
  "spec_LPush key vals A =
    (case A key of
       None \<Rightarrow> (A(key \<mapsto> VList (map Sprint vals)), Inr ())
     | Some (VList l) \<Rightarrow> (A(key \<mapsto> VList (map Sprint vals @ l)), Inr ())
     | Some _ \<Rightarrow> (A, Inl (ErrTypeMismatch key)))"

definition spec_LRem :: "string \<Rightarrow> int \<Rightarrow> goany \<Rightarrow> astore \<Rightarrow> astore \<times> unit sres" where
  "spec_LRem key cnt v A =
    (case A key of
       None \<Rightarrow> (A, Inr ())
     | Some (VList l) \<Rightarrow>
         if cnt \<noteq> 0 then (A, Inl ErrLRemCount)
         else (A(key \<mapsto> VList (removeAll (Sprint v) l)), Inr ())
     | Some _ \<Rightarrow> (A, Inl (ErrTypeMismatch key)))"

definition spec_Rotate :: "string \<Rightarrow> astore \<Rightarrow> astore \<times> string sres" where
  "spec_Rotate key A =
    (case A key of
       None \<Rightarrow> (A, Inl ErrNotFound)
     | Some (VList l) \<Rightarrow>
         if l = [] then (A, Inl ErrNotFound)
         else (A(key \<mapsto> VList (last l # butlast l)), Inr (last l))
     | Some _ \<Rightarrow> (A, Inl (ErrTypeMismatch key)))"

definition spec_SAdd :: "string \<Rightarrow> goany list \<Rightarrow> astore \<Rightarrow> astore \<times> unit sres" where
  "spec_SAdd key ms A =
    (case A key of
       None \<Rightarrow> (A(key \<mapsto> VSet (Sprint ` set ms)), Inr ())
     | Some (VSet S) \<Rightarrow> (A(key \<mapsto> VSet (S \<union> Sprint ` set ms)), Inr ())
     | Some _ \<Rightarrow> (A, Inl (ErrTypeMismatch key)))"

definition spec_SRem :: "string \<Rightarrow> goany list \<Rightarrow> astore \<Rightarrow> astore \<times> unit sres" where
  "spec_SRem key ms A =
    (case A key of
       None \<Rightarrow> (A, Inr ())
     | Some (VSet S) \<Rightarrow> (A(key \<mapsto> VSet (S - Sprint ` set ms)), Inr ())
     | Some _ \<Rightarrow> (A, Inl (ErrTypeMismatch key)))"

definition spec_SMembers :: "string \<Rightarrow> astore \<Rightarrow> string set sres" where
  "spec_SMembers key A =
    (case A key of
       None \<Rightarrow> Inr {}
     | Some (VSet S) \<Rightarrow> Inr S
     | Some _ \<Rightarrow> Inl (ErrTypeMismatch key))"

definition zset_upd :: "(goany \<times> int) list \<Rightarrow> (string \<Rightarrow> int option) \<Rightarrow> string \<Rightarrow> int option" where
  "zset_upd ms z = fold (\<lambda>(m, sc) z. z(Sprint m \<mapsto> sc)) ms z"

definition spec_ZAdd :: "string \<Rightarrow> (goany \<times> int) list \<Rightarrow> astore \<Rightarrow> astore \<times> unit sres" where
  "spec_ZAdd key ms A =
    (case A key of
       None \<Rightarrow> (A(key \<mapsto> VZSet (zset_upd ms Map.empty)), Inr ())
     | Some (VZSet z) \<Rightarrow> (A(key \<mapsto> VZSet (zset_upd ms z)), Inr ())
     | Some _ \<Rightarrow> (A, Inl (ErrTypeMismatch key)))"

definition spec_ZRem :: "string \<Rightarrow> goany list \<Rightarrow> astore \<Rightarrow> astore \<times> unit sres" where
  "spec_ZRem key ms A =
    (case A key of
       None \<Rightarrow> (A, Inr ())
     | Some (VZSet z) \<Rightarrow> (A(key \<mapsto> VZSet (z |` (- (Sprint ` set ms)))), Inr ())
     | Some _ \<Rightarrow> (A, Inl (ErrTypeMismatch key)))"

text \<open>A range query returns the members whose score is in the range, without repetition, in
  an order of non-decreasing scores; members of equal score may come in any order.\<close>

definition range_result :: "(string \<Rightarrow> int option) \<Rightarrow> int \<Rightarrow> int \<Rightarrow> string list \<Rightarrow> bool" where
  "range_result z lo hi xs \<longleftrightarrow>
     distinct xs \<and> set xs = {m. \<exists>sc. z m = Some sc \<and> lo \<le> sc \<and> sc \<le> hi} \<and>
     sorted (map (\<lambda>m. the (z m)) xs)"

definition spec_ZRangeByScore :: "string \<Rightarrow> int \<Rightarrow> int \<Rightarrow> astore \<Rightarrow> string list sres \<Rightarrow> bool" where
  "spec_ZRangeByScore key lo hi A r =
    (case A key of
       None \<Rightarrow> r = Inr []
     | Some (VZSet z) \<Rightarrow> (case r of Inl _ \<Rightarrow> False | Inr xs \<Rightarrow> range_result z lo hi xs)
     | Some _ \<Rightarrow> r = Inl (ErrTypeMismatch key))"

definition spec_ZCard :: "string \<Rightarrow> astore \<Rightarrow> int sres" where
  "spec_ZCard key A =
    (case A key of
       None \<Rightarrow> Inr 0
     | Some (VZSet z) \<Rightarrow> Inr (int (card (dom z)))
     | Some _ \<Rightarrow> Inl (ErrTypeMismatch key))"

text \<open>A client's calls as data, with the results in a normal form that hides the iteration
  order: a hash as a function, the members of a set or of a range as a set.\<close>

datatype sop =
    DoDelete string
  | DoHSet string "(string \<times> goany) list"
  | DoHGetAll string
  | DoLPush string "goany list"
  | DoLRem string int goany
  | DoRotate string
  | DoSAdd string "goany list"
  | DoSRem string "goany list"
  | DoSMembers string
  | DoZAdd string "(goany \<times> int) list"
  | DoZRem string "goany list"
  | DoZRange string int int
  | DoZCard string

datatype sout =
    OUnit "unit sres"
  | OStr "string sres"
  | OHash "(string \<Rightarrow> string option) sres"
  | OMembers "string set sres"
  | OInt "int sres"

definition spec_range_set :: "string \<Rightarrow> int \<Rightarrow> int \<Rightarrow> astore \<Rightarrow> string set sres" where
  "spec_range_set key lo hi A =
    (case A key of
       None \<Rightarrow> Inr {}
     | Some (VZSet z) \<Rightarrow> Inr {m. \<exists>sc. z m = Some sc \<and> lo \<le> sc \<and> sc \<le> hi}
     | Some _ \<Rightarrow> Inl (ErrTypeMismatch key))"

fun spec_step :: "sop \<Rightarrow> astore \<Rightarrow> astore \<times> sout" where
  "spec_step (DoDelete k) A = (spec_Delete k A, OUnit (Inr ()))"
| "spec_step (DoHSet k vs) A = map_prod id OUnit (spec_HSet k vs A)"
| "spec_step (DoHGetAll k) A = (A, OHash (spec_HGetAll k A))"
| "spec_step (DoLPush k vs) A = map_prod id OUnit (spec_LPush k vs A)"
| "spec_step (DoLRem k c v) A = map_prod id OUnit (spec_LRem k c v A)"
| "spec_step (DoRotate k) A = map_prod id OStr (spec_Rotate k A)"
| "spec_step (DoSAdd k ms) A = map_prod id OUnit (spec_SAdd k ms A)"
| "spec_step (DoSRem k ms) A = map_prod id OUnit (spec_SRem k ms A)"
| "spec_step (DoSMembers k) A = (A, OMembers (spec_SMembers k A))"
| "spec_step (DoZAdd k ms) A = map_prod id OUnit (spec_ZAdd k ms A)"
| "spec_step (DoZRem k ms) A = map_prod id OUnit (spec_ZRem k ms A)"
| "spec_step (DoZRange k lo hi) A = (A, OMembers (spec_range_set k lo hi A))"
| "spec_step (DoZCard k) A = (A, OInt (spec_ZCard k A))"

text \<open>Running a list of calls with a given step function.\<close>

fun run_ops :: "('op \<Rightarrow> 's \<Rightarrow> 's \<times> 'r) \<Rightarrow> 'op list \<Rightarrow> 's \<Rightarrow> 's \<times> 'r list" where
  "run_ops f [] s = (s, [])"
| "run_ops f (c # cs) s =
    (case f c s of (s', r) \<Rightarrow> case run_ops f cs s' of (s'', rs) \<Rightarrow> (s'', r # rs))"

lemma run_ops_sim:
  assumes step: "\<And>c s. I s \<Longrightarrow> I (fst (f c s)) \<and> g c (h s) = (h (fst (f c s)), snd (f c s))"
  shows "I s \<Longrightarrow> I (fst (run_ops f cs s)) \<and>
    run_ops g cs (h s) = (h (fst (run_ops f cs s)), snd (run_ops f cs s))"
proof (induction cs arbitrary: s)
  case Nil
  then show ?case by simp
next
  case (Cons c cs)
  obtain s' r where f: "f c s = (s', r)" by fastforce
  have g: "I s'" "g c (h s) = (h s', r)" using step [OF Cons.prems, of c] f by simp_all
  show ?case
    using Cons.IH [OF g(1)] f g by (cases "run_ops f cs s'") simp
qed

lemma range_set_of_result:
  "spec_ZRangeByScore k lo hi A r \<Longrightarrow> map_sum id set r = spec_range_set k lo hi A"
  by (auto simp: spec_ZRangeByScore_def spec_range_set_def range_result_def
      split: option.splits aval.splits sum.splits)

section \<open>The contract\<close>

locale store_impl =
  fixes abs :: "'s \<Rightarrow> astore"
    and inv :: "'s \<Rightarrow> bool"
    and Delete :: "string \<Rightarrow> 's \<Rightarrow> 's \<times> unit sres"
    and HSet :: "string \<Rightarrow> (string \<times> goany) list \<Rightarrow> 's \<Rightarrow> 's \<times> unit sres"
    and HGetAll :: "string \<Rightarrow> 's \<Rightarrow> 's \<times> (string, string) gomap sres"
    and LPush :: "string \<Rightarrow> goany list \<Rightarrow> 's \<Rightarrow> 's \<times> unit sres"
    and LRem :: "string \<Rightarrow> int \<Rightarrow> goany \<Rightarrow> 's \<Rightarrow> 's \<times> unit sres"
    and Rotate :: "string \<Rightarrow> 's \<Rightarrow> 's \<times> string sres"
    and SAdd :: "string \<Rightarrow> goany list \<Rightarrow> 's \<Rightarrow> 's \<times> unit sres"
    and SRem :: "string \<Rightarrow> goany list \<Rightarrow> 's \<Rightarrow> 's \<times> unit sres"
    and SMembers :: "string iter \<Rightarrow> string \<Rightarrow> 's \<Rightarrow> 's \<times> string list sres"
    and ZAdd :: "string \<Rightarrow> (goany \<times> int) list \<Rightarrow> 's \<Rightarrow> 's \<times> unit sres"
    and ZRem :: "string \<Rightarrow> goany list \<Rightarrow> 's \<Rightarrow> 's \<times> unit sres"
    and ZRangeByScore :: "(string \<times> int) iter \<Rightarrow> string \<Rightarrow> int \<Rightarrow> int \<Rightarrow> 's \<Rightarrow> 's \<times> string list sres"
    and ZCard :: "string \<Rightarrow> 's \<Rightarrow> 's \<times> int sres"
  assumes sim_Delete: "inv s \<Longrightarrow> Delete k s = (s', r) \<Longrightarrow>
      inv s' \<and> r = Inr () \<and> abs s' = spec_Delete k (abs s)"
    and sim_HSet: "inv s \<Longrightarrow> HSet k vs s = (s', r) \<Longrightarrow>
      inv s' \<and> spec_HSet k vs (abs s) = (abs s', r)"
    and sim_HGetAll: "inv s \<Longrightarrow> HGetAll k s = (s', hm) \<Longrightarrow>
      inv s' \<and> abs s' = abs s \<and> map_sum id map_of hm = spec_HGetAll k (abs s)"
    and sim_LPush: "inv s \<Longrightarrow> LPush k xs s = (s', r) \<Longrightarrow>
      inv s' \<and> spec_LPush k xs (abs s) = (abs s', r)"
    and sim_LRem: "inv s \<Longrightarrow> LRem k c v s = (s', r) \<Longrightarrow>
      inv s' \<and> spec_LRem k c v (abs s) = (abs s', r)"
    and sim_Rotate: "inv s \<Longrightarrow> Rotate k s = (s', t) \<Longrightarrow>
      inv s' \<and> spec_Rotate k (abs s) = (abs s', t)"
    and sim_SAdd: "inv s \<Longrightarrow> SAdd k xs s = (s', r) \<Longrightarrow>
      inv s' \<and> spec_SAdd k xs (abs s) = (abs s', r)"
    and sim_SRem: "inv s \<Longrightarrow> SRem k xs s = (s', r) \<Longrightarrow>
      inv s' \<and> spec_SRem k xs (abs s) = (abs s', r)"
    and sim_SMembers: "inv s \<Longrightarrow> iter_order so \<Longrightarrow> SMembers so k s = (s', ms) \<Longrightarrow>
      inv s' \<and> abs s' = abs s \<and> map_sum id set ms = spec_SMembers k (abs s)"
    and sim_ZAdd: "inv s \<Longrightarrow> ZAdd k zs s = (s', r) \<Longrightarrow>
      inv s' \<and> spec_ZAdd k zs (abs s) = (abs s', r)"
    and sim_ZRem: "inv s \<Longrightarrow> ZRem k xs s = (s', r) \<Longrightarrow>
      inv s' \<and> spec_ZRem k xs (abs s) = (abs s', r)"
    and sim_ZRange: "inv s \<Longrightarrow> iter_order zo \<Longrightarrow> ZRangeByScore zo k lo hi s = (s', ms) \<Longrightarrow>
      inv s' \<and> abs s' = abs s \<and> spec_ZRangeByScore k lo hi (abs s) ms"
    and sim_ZCard: "inv s \<Longrightarrow> ZCard k s = (s', n) \<Longrightarrow>
      inv s' \<and> abs s' = abs s \<and> n = spec_ZCard k (abs s)"
begin

definition items :: "'s \<Rightarrow> string \<Rightarrow> string list" where
  "items s k = (case abs s k of Some (VList l) \<Rightarrow> l | _ \<Rightarrow> [])"

definition is_queue :: "'s \<Rightarrow> string \<Rightarrow> bool" where
  "is_queue s k \<longleftrightarrow> (case abs s k of None \<Rightarrow> True | Some (VList _) \<Rightarrow> True | _ \<Rightarrow> False)"

definition fields :: "'s \<Rightarrow> string \<Rightarrow> string \<Rightarrow> string option" where
  "fields s k = (case abs s k of Some (VHash h) \<Rightarrow> h | _ \<Rightarrow> Map.empty)"

definition scores :: "'s \<Rightarrow> string \<Rightarrow> string \<Rightarrow> int option" where
  "scores s k = (case abs s k of Some (VZSet z) \<Rightarrow> z | _ \<Rightarrow> Map.empty)"

definition is_hash :: "'s \<Rightarrow> string \<Rightarrow> bool" where
  "is_hash s k \<longleftrightarrow> (case abs s k of None \<Rightarrow> True | Some (VHash _) \<Rightarrow> True | _ \<Rightarrow> False)"

definition is_zset :: "'s \<Rightarrow> string \<Rightarrow> bool" where
  "is_zset s k \<longleftrightarrow> (case abs s k of None \<Rightarrow> True | Some (VZSet _) \<Rightarrow> True | _ \<Rightarrow> False)"

lemma Delete_key:
  assumes "inv s"
  shows "\<exists>s'. Delete k s = (s', Inr ()) \<and> inv s' \<and> abs s' k = None \<and>
    (\<forall>k'. k' \<noteq> k \<longrightarrow> abs s' k' = abs s k')"
proof -
  obtain s' r where L: "Delete k s = (s', r)" by fastforce
  show ?thesis using sim_Delete [OF assms L] L by (auto simp: spec_Delete_def)
qed

lemma HSet_hash:
  assumes "inv s" "is_hash s k"
  shows "\<exists>s'. HSet k vs s = (s', Inr ()) \<and> inv s' \<and> fields s' k = hash_upd vs (fields s k) \<and>
    is_hash s' k \<and> (\<forall>k'. k' \<noteq> k \<longrightarrow> abs s' k' = abs s k')"
proof -
  obtain s' r where L: "HSet k vs s = (s', r)" by fastforce
  show ?thesis
    using sim_HSet [OF assms(1) L] assms(2) L
    by (auto simp: spec_HSet_def fields_def is_hash_def dest!: sym [where t = "abs s'"] split: option.splits aval.splits)
qed

lemma HGetAll_hash:
  assumes "inv s" "is_hash s k"
  shows "\<exists>s' h. HGetAll k s = (s', Inr h) \<and> inv s' \<and> abs s' = abs s \<and> map_of h = fields s k"
proof -
  obtain s' r where L: "HGetAll k s = (s', r)" by fastforce
  show ?thesis
    using sim_HGetAll [OF assms(1) L] assms(2) L
    by (cases r) (auto simp: spec_HGetAll_def fields_def is_hash_def split: option.splits aval.splits)
qed

lemma ZAdd_zset:
  assumes "inv s" "is_zset s k"
  shows "\<exists>s'. ZAdd k zs s = (s', Inr ()) \<and> inv s' \<and> scores s' k = zset_upd zs (scores s k) \<and>
    is_zset s' k \<and> (\<forall>k'. k' \<noteq> k \<longrightarrow> abs s' k' = abs s k')"
proof -
  obtain s' r where L: "ZAdd k zs s = (s', r)" by fastforce
  show ?thesis
    using sim_ZAdd [OF assms(1) L] assms(2) L
    by (auto simp: spec_ZAdd_def scores_def is_zset_def dest!: sym [where t = "abs s'"] split: option.splits aval.splits)
qed

lemma ZRem_zset:
  assumes "inv s" "is_zset s k"
  shows "\<exists>s'. ZRem k xs s = (s', Inr ()) \<and> inv s' \<and>
    scores s' k = scores s k |` (- (Sprint ` set xs)) \<and>
    is_zset s' k \<and> (\<forall>k'. k' \<noteq> k \<longrightarrow> abs s' k' = abs s k')"
proof -
  obtain s' r where L: "ZRem k xs s = (s', r)" by fastforce
  show ?thesis
    using sim_ZRem [OF assms(1) L] assms(2) L
    by (auto simp: spec_ZRem_def scores_def is_zset_def dest!: sym [where t = "abs s'"] split: option.splits aval.splits)
qed

lemma LPush_queue:
  assumes "inv s" "is_queue s k"
  shows "\<exists>s'. LPush k xs s = (s', Inr ()) \<and> inv s' \<and> items s' k = map Sprint xs @ items s k \<and>
    is_queue s' k \<and> (\<forall>k'. k' \<noteq> k \<longrightarrow> abs s' k' = abs s k')"
proof -
  obtain s' r where L: "LPush k xs s = (s', r)" by fastforce
  show ?thesis
    using sim_LPush [OF assms(1) L] assms(2) L
    by (auto simp: spec_LPush_def items_def is_queue_def dest!: sym [where t = "abs s'"] split: option.splits aval.splits)
qed

lemma LRem_queue:
  assumes "inv s" "is_queue s k"
  shows "\<exists>s'. LRem k 0 v s = (s', Inr ()) \<and> inv s' \<and> items s' k = removeAll (Sprint v) (items s k) \<and>
    is_queue s' k \<and> (\<forall>k'. k' \<noteq> k \<longrightarrow> abs s' k' = abs s k')"
proof -
  obtain s' r where L: "LRem k 0 v s = (s', r)" by fastforce
  show ?thesis
    using sim_LRem [OF assms(1) L] assms(2) L
    by (auto simp: spec_LRem_def items_def is_queue_def dest!: sym [where t = "abs s'"] split: option.splits aval.splits)
qed

lemma Rotate_queue:
  assumes "inv s" "is_queue s k" "items s k \<noteq> []"
  shows "\<exists>s'. Rotate k s = (s', Inr (last (items s k))) \<and> inv s' \<and>
    items s' k = last (items s k) # butlast (items s k) \<and>
    is_queue s' k \<and> (\<forall>k'. k' \<noteq> k \<longrightarrow> abs s' k' = abs s k')"
proof -
  obtain s' r where L: "Rotate k s = (s', r)" by fastforce
  show ?thesis
    using sim_Rotate [OF assms(1) L] assms(2,3) L
    by (auto simp: spec_Rotate_def items_def is_queue_def dest!: sym [where t = "abs s'"] split: option.splits aval.splits)
qed

text \<open>Rotating as often as the queue is long returns every item once and restores it.\<close>

lemma Rotate_list:
  assumes "inv s" "abs s k = Some (VList (xs @ [x]))"
  shows "\<exists>s'. Rotate k s = (s', Inr x) \<and> inv s' \<and> abs s' = (abs s)(k \<mapsto> VList (x # xs))"
proof -
  obtain s' r where L: "Rotate k s = (s', r)" by fastforce
  show ?thesis
    using sim_Rotate [OF assms(1) L] assms(2) L by (auto simp: spec_Rotate_def)
qed

lemma rotations_suffix:
  "inv s \<Longrightarrow> abs s k = Some (VList (ys @ zs)) \<Longrightarrow>
   \<exists>s'. run_ops (\<lambda>_::unit. Rotate k) (replicate (length zs) ()) s = (s', map Inr (rev zs)) \<and>
     inv s' \<and> abs s' k = Some (VList (zs @ ys))"
proof (induction zs arbitrary: s ys rule: rev_induct)
  case Nil
  then show ?case by simp
next
  case (snoc z zs)
  obtain s' where r: "Rotate k s = (s', Inr z)" and p: "inv s'"
    and i: "abs s' k = Some (VList ((z # ys) @ zs))"
    using Rotate_list [of s k "ys @ zs" z] snoc.prems by auto
  from snoc.IH [OF p i] r show ?case by auto
qed

lemma rotations_cycle:
  assumes "inv s" "abs s k = Some (VList l)"
  shows "\<exists>s'. run_ops (\<lambda>_::unit. Rotate k) (replicate (length l) ()) s = (s', map Inr (rev l)) \<and>
     inv s' \<and> abs s' k = Some (VList l)"
  using rotations_suffix [OF assms(1), of k "[]" l] assms(2) by simp

text \<open>One call of the implementation with its normal-form result.\<close>

fun impl_step :: "string iter \<Rightarrow> (string \<times> int) iter \<Rightarrow> sop \<Rightarrow> 's \<Rightarrow> 's \<times> sout" where
  "impl_step so zo (DoDelete k) s = map_prod id OUnit (Delete k s)"
| "impl_step so zo (DoHSet k vs) s = map_prod id OUnit (HSet k vs s)"
| "impl_step so zo (DoHGetAll k) s = map_prod id (OHash \<circ> map_sum id map_of) (HGetAll k s)"
| "impl_step so zo (DoLPush k vs) s = map_prod id OUnit (LPush k vs s)"
| "impl_step so zo (DoLRem k c v) s = map_prod id OUnit (LRem k c v s)"
| "impl_step so zo (DoRotate k) s = map_prod id OStr (Rotate k s)"
| "impl_step so zo (DoSAdd k ms) s = map_prod id OUnit (SAdd k ms s)"
| "impl_step so zo (DoSRem k ms) s = map_prod id OUnit (SRem k ms s)"
| "impl_step so zo (DoSMembers k) s = map_prod id (OMembers \<circ> map_sum id set) (SMembers so k s)"
| "impl_step so zo (DoZAdd k ms) s = map_prod id OUnit (ZAdd k ms s)"
| "impl_step so zo (DoZRem k ms) s = map_prod id OUnit (ZRem k ms s)"
| "impl_step so zo (DoZRange k lo hi) s =
    map_prod id (OMembers \<circ> map_sum id set) (ZRangeByScore zo k lo hi s)"
| "impl_step so zo (DoZCard k) s = map_prod id OInt (ZCard k s)"

lemma impl_step_sim:
  assumes "inv s" "iter_order so" "iter_order zo"
  shows "inv (fst (impl_step so zo c s)) \<and>
    spec_step c (abs s) = (abs (fst (impl_step so zo c s)), snd (impl_step so zo c s))"
proof (cases c)
  case (DoDelete k)
  obtain s' r where e: "Delete k s = (s', r)" by fastforce
  show ?thesis using sim_Delete [OF assms(1) e] e DoDelete by simp
next
  case (DoHSet k vs)
  obtain s' r where e: "HSet k vs s = (s', r)" by fastforce
  show ?thesis using sim_HSet [OF assms(1) e] e DoHSet by simp
next
  case (DoHGetAll k)
  obtain s' r where e: "HGetAll k s = (s', r)" by fastforce
  show ?thesis using sim_HGetAll [OF assms(1) e] e DoHGetAll by simp
next
  case (DoLPush k vs)
  obtain s' r where e: "LPush k vs s = (s', r)" by fastforce
  show ?thesis using sim_LPush [OF assms(1) e] e DoLPush by simp
next
  case (DoLRem k c v)
  obtain s' r where e: "LRem k c v s = (s', r)" by fastforce
  show ?thesis using sim_LRem [OF assms(1) e] e DoLRem by simp
next
  case (DoRotate k)
  obtain s' r where e: "Rotate k s = (s', r)" by fastforce
  show ?thesis using sim_Rotate [OF assms(1) e] e DoRotate by simp
next
  case (DoSAdd k vs)
  obtain s' r where e: "SAdd k vs s = (s', r)" by fastforce
  show ?thesis using sim_SAdd [OF assms(1) e] e DoSAdd by simp
next
  case (DoSRem k vs)
  obtain s' r where e: "SRem k vs s = (s', r)" by fastforce
  show ?thesis using sim_SRem [OF assms(1) e] e DoSRem by simp
next
  case (DoSMembers k)
  obtain s' r where e: "SMembers so k s = (s', r)" by fastforce
  show ?thesis using sim_SMembers [OF assms(1,2) e] e DoSMembers by simp
next
  case (DoZAdd k vs)
  obtain s' r where e: "ZAdd k vs s = (s', r)" by fastforce
  show ?thesis using sim_ZAdd [OF assms(1) e] e DoZAdd by simp
next
  case (DoZRem k vs)
  obtain s' r where e: "ZRem k vs s = (s', r)" by fastforce
  show ?thesis using sim_ZRem [OF assms(1) e] e DoZRem by simp
next
  case (DoZRange k lo hi)
  obtain s' r where e: "ZRangeByScore zo k lo hi s = (s', r)" by fastforce
  show ?thesis using sim_ZRange [OF assms(1,3) e] e DoZRange
      by (auto dest: range_set_of_result)
next
  case (DoZCard k)
  obtain s' r where e: "ZCard k s = (s', r)" by fastforce
  show ?thesis using sim_ZCard [OF assms(1) e] e DoZCard by simp
qed

lemma impl_run_sim:
  assumes "iter_order so" "iter_order zo" "inv s"
  shows "inv (fst (run_ops (impl_step so zo) cs s)) \<and>
    run_ops spec_step cs (abs s) =
      (abs (fst (run_ops (impl_step so zo) cs s)), snd (run_ops (impl_step so zo) cs s))"
  by (rule run_ops_sim [where I = inv and h = abs and f = "impl_step so zo"])
    (use impl_step_sim assms in auto)

end

end
