(* ===== verification/MemStore.thy ===== *)
theory MemStore
  imports StoreSpec
begin

text \<open>The in-memory store of src/internal/store/memory.go. A store maps a key to a value of one
  of five dynamic types; an operation on a value of another type fails with a type mismatch
  and leaves the store unchanged. Time is an argument (Unix nanoseconds). Scores of sorted
  sets are ints: the program only stores Unix seconds, which float64 holds exactly.
  An operation returns the new store and its result, an error or a value.\<close>

section \<open>State\<close>

record memoryStoreItem =
  item_value :: string
  expiresAt :: int

record zset =
  members :: "(string, int) gomap"
  sorted_m :: "(string \<times> int) list"
  dirty :: bool

datatype store_val =
    ItemV memoryStoreItem
  | HashV "(string, string) gomap"
  | ListV "string list"
  | SetV "(string, unit) gomap"
  | ZSetV zset

type_synonym mstore = "string \<Rightarrow> store_val option"

definition NewMemoryStore :: mstore where
  "NewMemoryStore = (\<lambda>_. None)"

section \<open>Plain values\<close>

definition expiry :: "int \<Rightarrow> int \<Rightarrow> int" where
  "expiry now ttl = (if ttl > 0 then i64 (now + ttl) else 0)"

definition expired :: "int \<Rightarrow> memoryStoreItem \<Rightarrow> bool" where
  "expired now it \<longleftrightarrow> expiresAt it > 0 \<and> now > expiresAt it"

definition mem_Set :: "int \<Rightarrow> string \<Rightarrow> string \<Rightarrow> int \<Rightarrow> mstore \<Rightarrow> mstore \<times> unit sres" where
  "mem_Set now key v ttl s =
    (s(key \<mapsto> ItemV \<lparr>item_value = v, expiresAt = expiry now ttl\<rparr>), Inr ())"

definition mem_Get :: "int \<Rightarrow> string \<Rightarrow> mstore \<Rightarrow> mstore \<times> string sres" where
  "mem_Get now key s =
    (case s key of
       None \<Rightarrow> (s, Inl ErrNotFound)
     | Some (ItemV it) \<Rightarrow>
         if expired now it then (s(key := None), Inl ErrNotFound) else (s, Inr (item_value it))
     | Some _ \<Rightarrow> (s, Inl (ErrTypeMismatch key)))"

definition mem_Delete :: "string \<Rightarrow> mstore \<Rightarrow> mstore \<times> unit sres" where
  "mem_Delete key s = (s(key := None), Inr ())"

definition mem_Del :: "string list \<Rightarrow> mstore \<Rightarrow> mstore \<times> unit sres" where
  "mem_Del ks s = (fold (\<lambda>k s. s(k := None)) ks s, Inr ())"

definition mem_Exists :: "int \<Rightarrow> string \<Rightarrow> mstore \<Rightarrow> mstore \<times> bool sres" where
  "mem_Exists now key s =
    (case s key of
       None \<Rightarrow> (s, Inr False)
     | Some (ItemV it) \<Rightarrow>
         if expired now it then (s(key := None), Inr False) else (s, Inr True)
     | Some _ \<Rightarrow> (s, Inr True))"

definition mem_SetNX :: "int \<Rightarrow> string \<Rightarrow> string \<Rightarrow> int \<Rightarrow> mstore \<Rightarrow> mstore \<times> bool sres" where
  "mem_SetNX now key v ttl s =
    (let put = (s(key \<mapsto> ItemV \<lparr>item_value = v, expiresAt = expiry now ttl\<rparr>), Inr True) in
     case s key of
       None \<Rightarrow> put
     | Some (ItemV it) \<Rightarrow>
         if expiresAt it = 0 \<or> now < expiresAt it then (s, Inr False) else put
     | Some _ \<Rightarrow> (s, Inr False))"

section \<open>Hashes\<close>

definition hash_put :: "(string \<times> goany) list \<Rightarrow> (string, string) gomap \<Rightarrow> (string, string) gomap" where
  "hash_put vals h = fold (\<lambda>(f, v) h. gput f (Sprint v) h) vals h"

definition mem_HSet :: "string \<Rightarrow> (string, goany) gomap \<Rightarrow> mstore \<Rightarrow> mstore \<times> unit sres" where
  "mem_HSet key vals s =
    (case s key of
       None \<Rightarrow> (s(key \<mapsto> HashV (hash_put vals [])), Inr ())
     | Some (HashV h) \<Rightarrow> (s(key \<mapsto> HashV (hash_put vals h)), Inr ())
     | Some _ \<Rightarrow> (s, Inl (ErrTypeMismatch key)))"

definition mem_HGetAll :: "string \<Rightarrow> mstore \<Rightarrow> mstore \<times> (string, string) gomap sres" where
  "mem_HGetAll key s =
    (case s key of
       None \<Rightarrow> (s, Inr [])
     | Some (HashV h) \<Rightarrow> (s, Inr h)
     | Some _ \<Rightarrow> (s, Inl (ErrTypeMismatch key)))"

text \<open>The error of ParseInt is dropped: text that is not a number counts as 0, a number out
  of range as the nearest int64. A missing field reads as the empty string.\<close>

definition field_text :: "(string, string) gomap \<Rightarrow> string \<Rightarrow> string" where
  "field_text h f = (case gget h f of None \<Rightarrow> [] | Some t \<Rightarrow> t)"

definition mem_HIncrBy :: "string \<Rightarrow> string \<Rightarrow> int \<Rightarrow> mstore \<Rightarrow> mstore \<times> int sres" where
  "mem_HIncrBy key field incr s =
    (let upd = (\<lambda>h. let newVal = i64 (fst (ParseInt (field_text h field)) + incr)
                   in (s(key \<mapsto> HashV (gput field (show_int newVal) h)), Inr newVal)) in
     case s key of
       None \<Rightarrow> upd []
     | Some (HashV h) \<Rightarrow> upd h
     | Some _ \<Rightarrow> (s, Inl (ErrTypeMismatch key)))"

section \<open>Lists\<close>

definition mem_LPush :: "string \<Rightarrow> goany list \<Rightarrow> mstore \<Rightarrow> mstore \<times> unit sres" where
  "mem_LPush key vals s =
    (case s key of
       None \<Rightarrow> (s(key \<mapsto> ListV (map Sprint vals)), Inr ())
     | Some (ListV l) \<Rightarrow> (s(key \<mapsto> ListV (map Sprint vals @ l)), Inr ())
     | Some _ \<Rightarrow> (s, Inl (ErrTypeMismatch key)))"

definition mem_LRem :: "string \<Rightarrow> int \<Rightarrow> goany \<Rightarrow> mstore \<Rightarrow> mstore \<times> unit sres" where
  "mem_LRem key cnt v s =
    (case s key of
       None \<Rightarrow> (s, Inr ())
     | Some (ListV l) \<Rightarrow>
         if cnt \<noteq> 0 then (s, Inl ErrLRemCount)
         else (s(key \<mapsto> ListV (filter (\<lambda>x. x \<noteq> Sprint v) l)), Inr ())
     | Some _ \<Rightarrow> (s, Inl (ErrTypeMismatch key)))"

definition mem_Rotate :: "string \<Rightarrow> mstore \<Rightarrow> mstore \<times> string sres" where
  "mem_Rotate key s =
    (case s key of
       None \<Rightarrow> (s, Inl ErrNotFound)
     | Some (ListV l) \<Rightarrow>
         if l = [] then (s, Inl ErrNotFound)
         else (s(key \<mapsto> ListV (last l # butlast l)), Inr (last l))
     | Some _ \<Rightarrow> (s, Inl (ErrTypeMismatch key)))"

section \<open>Sets\<close>

definition set_put :: "goany list \<Rightarrow> (string, unit) gomap \<Rightarrow> (string, unit) gomap" where
  "set_put ms S = fold (\<lambda>m S. gput (Sprint m) () S) ms S"

definition set_del :: "goany list \<Rightarrow> (string, unit) gomap \<Rightarrow> (string, unit) gomap" where
  "set_del ms S = fold (\<lambda>m S. gdel (Sprint m) S) ms S"

definition mem_SAdd :: "string \<Rightarrow> goany list \<Rightarrow> mstore \<Rightarrow> mstore \<times> unit sres" where
  "mem_SAdd key ms s =
    (case s key of
       None \<Rightarrow> (s(key \<mapsto> SetV (set_put ms [])), Inr ())
     | Some (SetV S) \<Rightarrow> (s(key \<mapsto> SetV (set_put ms S)), Inr ())
     | Some _ \<Rightarrow> (s, Inl (ErrTypeMismatch key)))"

definition mem_SRem :: "string \<Rightarrow> goany list \<Rightarrow> mstore \<Rightarrow> mstore \<times> unit sres" where
  "mem_SRem key ms s =
    (case s key of
       None \<Rightarrow> (s, Inr ())
     | Some (SetV S) \<Rightarrow> (s(key \<mapsto> SetV (set_del ms S)), Inr ())
     | Some _ \<Rightarrow> (s, Inl (ErrTypeMismatch key)))"

text \<open>SMembers and SPopN range over the set: \<^verbatim>\<open>ord\<close> is the runtime's iteration order.\<close>

definition mem_SMembers ::
  "string iter \<Rightarrow> string \<Rightarrow> mstore \<Rightarrow> mstore \<times> string list sres" where
  "mem_SMembers ord key s =
    (case s key of
       None \<Rightarrow> (s, Inr [])
     | Some (SetV S) \<Rightarrow> (s, Inr (ord (map fst S)))
     | Some _ \<Rightarrow> (s, Inl (ErrTypeMismatch key)))"

fun pop_loop :: "int \<Rightarrow> string list \<Rightarrow> string list \<Rightarrow> (string, unit) gomap \<Rightarrow>
    string list \<times> (string, unit) gomap" where
  "pop_loop cnt [] popped S = (popped, S)"
| "pop_loop cnt (m # ms) popped S =
    (if int (length popped) \<ge> cnt then (popped, S)
     else pop_loop cnt ms (popped @ [m]) (gdel m S))"

text \<open>A negative count makes the allocation of the result slice panic.\<close>

definition mem_SPopN ::
  "string iter \<Rightarrow> string \<Rightarrow> int \<Rightarrow> mstore \<Rightarrow> mstore \<times> string list sres" where
  "mem_SPopN ord key cnt s =
    (case s key of
       None \<Rightarrow> (s, Inr [])
     | Some (SetV S) \<Rightarrow>
         (let n = (if cnt > int (length S) then int (length S) else cnt);
              (popped, S') = pop_loop n (ord (map fst S)) [] S
          in if n < 0 then (s, Inl PanicMakeSlice) else (s(key \<mapsto> SetV S'), Inr popped))
     | Some _ \<Rightarrow> (s, Inl (ErrTypeMismatch key)))"

section \<open>Sorted sets\<close>

definition empty_zset :: zset where
  "empty_zset = \<lparr>members = [], sorted_m = [], dirty = False\<rparr>"

definition zset_put :: "goany \<Rightarrow> int \<Rightarrow> zset \<Rightarrow> zset" where
  "zset_put m score z =
    (let k = Sprint m; old = gget (members z) k in
     z\<lparr>members := gput k score (members z),
       dirty := dirty z \<or> old = None \<or> old \<noteq> Some score\<rparr>)"

definition mem_ZAdd :: "string \<Rightarrow> (goany \<times> int) list \<Rightarrow> mstore \<Rightarrow> mstore \<times> unit sres" where
  "mem_ZAdd key ms s =
    (let upd = (\<lambda>z. (s(key \<mapsto> ZSetV (fold (\<lambda>(m, sc) z. zset_put m sc z) ms z)), Inr ())) in
     case s key of
       None \<Rightarrow> upd empty_zset
     | Some (ZSetV z) \<Rightarrow> upd z
     | Some _ \<Rightarrow> (s, Inl (ErrTypeMismatch key)))"

definition zset_del :: "goany \<Rightarrow> zset \<Rightarrow> zset" where
  "zset_del m z =
    (if gget (members z) (Sprint m) = None then z
     else z\<lparr>members := gdel (Sprint m) (members z), dirty := True\<rparr>)"

definition mem_ZRem :: "string \<Rightarrow> goany list \<Rightarrow> mstore \<Rightarrow> mstore \<times> unit sres" where
  "mem_ZRem key ms s =
    (case s key of
       None \<Rightarrow> (s, Inr ())
     | Some (ZSetV z) \<Rightarrow> (s(key \<mapsto> ZSetV (fold zset_del ms z)), Inr ())
     | Some _ \<Rightarrow> (s, Inl (ErrTypeMismatch key)))"

text \<open>ensureSorted rebuilds the cached slice when the set is dirty: the entries in iteration
  order, then sort.Slice by score. sort.Slice is not stable; since the iteration order is
  arbitrary, a stable sort of an arbitrary order gives every result it can give.\<close>

definition mem_ensureSorted :: "(string \<times> int) iter \<Rightarrow> zset \<Rightarrow> zset" where
  "mem_ensureSorted ord z =
    (if \<not> dirty z then z
     else z\<lparr>sorted_m := sort_key snd (ord (members z)), dirty := False\<rparr>)"

definition in_range :: "int \<Rightarrow> int \<Rightarrow> string \<times> int \<Rightarrow> bool" where
  "in_range lo hi e \<longleftrightarrow> lo \<le> snd e \<and> snd e \<le> hi"

definition mem_ZRangeByScore ::
  "(string \<times> int) iter \<Rightarrow> string \<Rightarrow> int \<Rightarrow> int \<Rightarrow> mstore \<Rightarrow> mstore \<times> string list sres" where
  "mem_ZRangeByScore ord key lo hi s =
    (case s key of
       None \<Rightarrow> (s, Inr [])
     | Some (ZSetV z) \<Rightarrow>
         (let z' = mem_ensureSorted ord z in
          (s(key \<mapsto> ZSetV z'), Inr (map fst (filter (in_range lo hi) (sorted_m z')))))
     | Some _ \<Rightarrow> (s, Inl (ErrTypeMismatch key)))"

definition mem_ZRemRangeByScore ::
  "string \<Rightarrow> int \<Rightarrow> int \<Rightarrow> mstore \<Rightarrow> mstore \<times> int sres" where
  "mem_ZRemRangeByScore key lo hi s =
    (case s key of
       None \<Rightarrow> (s, Inr 0)
     | Some (ZSetV z) \<Rightarrow>
         (let removed = int (length (filter (in_range lo hi) (members z)));
              ms = filter (\<lambda>e. \<not> in_range lo hi e) (members z) in
          (s(key \<mapsto> ZSetV (z\<lparr>members := ms, dirty := dirty z \<or> removed > 0\<rparr>)), Inr removed))
     | Some _ \<Rightarrow> (s, Inl (ErrTypeMismatch key)))"

definition mem_ZCard :: "string \<Rightarrow> mstore \<Rightarrow> mstore \<times> int sres" where
  "mem_ZCard key s =
    (case s key of
       None \<Rightarrow> (s, Inr 0)
     | Some (ZSetV z) \<Rightarrow> (s, Inr (int (length (members z))))
     | Some _ \<Rightarrow> (s, Inl (ErrTypeMismatch key)))"

section \<open>Well-formed stores and their abstraction\<close>

fun abs_val :: "store_val \<Rightarrow> aval" where
  "abs_val (ItemV it) = VItem (item_value it) (expiresAt it)"
| "abs_val (HashV h) = VHash (map_of h)"
| "abs_val (ListV l) = VList l"
| "abs_val (SetV S) = VSet (fst ` set S)"
| "abs_val (ZSetV z) = VZSet (map_of (members z))"

definition mem_abs :: "mstore \<Rightarrow> astore" where
  "mem_abs s = (\<lambda>k. map_option abs_val (s k))"

text \<open>The cached slice of a clean sorted set is a sorting of its members.\<close>

definition zset_ok :: "zset \<Rightarrow> bool" where
  "zset_ok z \<longleftrightarrow> gomap_ok (members z) \<and>
     (\<not> dirty z \<longrightarrow> mset (sorted_m z) = mset (members z) \<and> sorted (map snd (sorted_m z)))"

fun val_ok :: "store_val \<Rightarrow> bool" where
  "val_ok (HashV h) = gomap_ok h"
| "val_ok (SetV S) = gomap_ok S"
| "val_ok (ZSetV z) = zset_ok z"
| "val_ok _ = True"

definition mem_inv :: "mstore \<Rightarrow> bool" where
  "mem_inv s \<longleftrightarrow> (\<forall>k v. s k = Some v \<longrightarrow> val_ok v)"

lemma mem_inv_upd [simp]: "mem_inv s \<Longrightarrow> val_ok v \<Longrightarrow> mem_inv (s(k \<mapsto> v))"
  by (auto simp: mem_inv_def)

lemma mem_inv_del [simp]: "mem_inv s \<Longrightarrow> mem_inv (s(k := None))"
  by (auto simp: mem_inv_def)

lemma mem_inv_val: "mem_inv s \<Longrightarrow> s k = Some v \<Longrightarrow> val_ok v"
  by (auto simp: mem_inv_def)

lemma mem_inv_at:
  "mem_inv s \<Longrightarrow> s k = Some (HashV h) \<Longrightarrow> gomap_ok h"
  "mem_inv s \<Longrightarrow> s k = Some (SetV S) \<Longrightarrow> gomap_ok S"
  "mem_inv s \<Longrightarrow> s k = Some (ZSetV z) \<Longrightarrow> zset_ok z"
  by (metis mem_inv_val val_ok.simps)+

lemma mem_abs_upd [simp]: "mem_abs (s(k \<mapsto> v)) = (mem_abs s)(k \<mapsto> abs_val v)"
  by (auto simp: mem_abs_def)

lemma mem_abs_del [simp]: "mem_abs (s(k := None)) = (mem_abs s)(k := None)"
  by (auto simp: mem_abs_def)

lemma mem_abs_at [simp]:
  "s k = None \<Longrightarrow> mem_abs s k = None"
  "s k = Some v \<Longrightarrow> mem_abs s k = Some (abs_val v)"
  by (auto simp: mem_abs_def)

lemma gget_gput_fun: "map_of (gput k v m) = (map_of m)(k \<mapsto> v)"
  by (auto simp: fun_eq_iff)

lemma hash_put_ok [simp]: "gomap_ok h \<Longrightarrow> gomap_ok (hash_put vals h)"
  unfolding hash_put_def by (induction vals arbitrary: h) (auto split: prod.splits)

lemma map_of_hash_put [simp]: "map_of (hash_put vals h) = hash_upd vals (map_of h)"
  unfolding hash_put_def hash_upd_def
  by (induction vals arbitrary: h) (auto simp: gget_gput_fun split: prod.splits)

lemma fst_set_gput: "fst ` set (gput k v m) = insert k (fst ` set m)"
  by (simp add: dom_update)

lemma fst_set_gdel: "fst ` set (gdel k m) = fst ` set m - {k}"
  by (induction m) auto

lemma set_put_ok [simp]: "gomap_ok S \<Longrightarrow> gomap_ok (set_put ms S)"
  unfolding set_put_def by (induction ms arbitrary: S) auto

lemma set_put_set [simp]: "fst ` set (set_put ms S) = fst ` set S \<union> Sprint ` set ms"
  unfolding set_put_def by (induction ms arbitrary: S) (auto simp: fst_set_gput)

lemma set_del_ok [simp]: "gomap_ok S \<Longrightarrow> gomap_ok (set_del ms S)"
  unfolding set_del_def by (induction ms arbitrary: S) auto

lemma set_del_set [simp]: "fst ` set (set_del ms S) = fst ` set S - Sprint ` set ms"
  unfolding set_del_def by (induction ms arbitrary: S) (auto simp: fst_set_gdel)

lemma empty_zset_ok [simp]: "zset_ok empty_zset"
  by (simp add: zset_ok_def empty_zset_def)

lemma members_empty_zset [simp]: "members empty_zset = []"
  by (simp add: empty_zset_def)

lemma gput_same: "gget m k = Some v \<Longrightarrow> gput k v m = m"
  by (induction m) auto

lemma zset_put_ok [simp]: "zset_ok z \<Longrightarrow> zset_ok (zset_put m sc z)"
  by (auto simp: zset_ok_def zset_put_def Let_def gput_same)

lemma zset_put_members [simp]:
  "map_of (members (zset_put m sc z)) = (map_of (members z))(Sprint m \<mapsto> sc)"
  by (simp add: zset_put_def Let_def gget_gput_fun)

lemma zset_puts_ok [simp]: "zset_ok z \<Longrightarrow> zset_ok (fold (\<lambda>(m, sc). zset_put m sc) ms z)"
  by (induction ms arbitrary: z) (auto split: prod.splits)

lemma zset_puts_members [simp]:
  "map_of (members (fold (\<lambda>(m, sc). zset_put m sc) ms z)) = zset_upd ms (map_of (members z))"
  unfolding zset_upd_def by (induction ms arbitrary: z) (auto split: prod.splits)

lemma zset_dels_ok [simp]: "zset_ok z \<Longrightarrow> zset_ok (fold zset_del ms z)"
  by (induction ms arbitrary: z) (auto simp: zset_ok_def zset_del_def)

lemma zset_del_members [simp]:
  "map_of (members (zset_del m z)) = map_of (members z) |` (- {Sprint m})"
  by (auto simp: zset_del_def fun_eq_iff restrict_map_def)

lemma zset_dels_members [simp]:
  "map_of (members (fold zset_del ms z)) = map_of (members z) |` (- (Sprint ` set ms))"
  by (induction ms arbitrary: z) (auto simp: fun_eq_iff restrict_map_def)

lemma ensureSorted_members [simp]: "members (mem_ensureSorted ord z) = members z"
  by (simp add: mem_ensureSorted_def)

lemma ensureSorted_clean [simp]: "\<not> dirty (mem_ensureSorted ord z)"
  by (simp add: mem_ensureSorted_def)

lemma ensureSorted_ok [simp]:
  "iter_order ord \<Longrightarrow> zset_ok z \<Longrightarrow> zset_ok (mem_ensureSorted ord z)"
  by (simp add: zset_ok_def mem_ensureSorted_def iter_order_def)

text \<open>Filtering the cached slice of a clean set answers a range query.\<close>

lemma range_of_sorted:
  assumes "zset_ok z" "\<not> dirty z"
  shows "range_result (map_of (members z)) lo hi (map fst (filter (in_range lo hi) (sorted_m z)))"
proof -
  let ?xs = "filter (in_range lo hi) (sorted_m z)"
  have ok: "gomap_ok (members z)" and ms: "mset (sorted_m z) = mset (members z)"
    and so: "sorted (map snd (sorted_m z))"
    using assms by (auto simp: zset_ok_def)
  have set_eq: "set (sorted_m z) = set (members z)" using ms mset_eq_setD by blast
  have "mset (map fst (sorted_m z)) = mset (map fst (members z))" using ms by simp
  then have d: "distinct (map fst (sorted_m z))"
    using ok mset_eq_imp_distinct_iff unfolding gomap_ok_def by blast
  have sc: "the (gget (members z) (fst e)) = snd e" if "e \<in> set ?xs" for e
  proof -
    have "e \<in> set (members z)" using that set_eq by simp
    then show ?thesis using ok by (metis gget_in_set option.sel prod.collapse)
  qed
  have "sorted (map snd ?xs)" using so by (simp add: sorted_filter)
  moreover have "map (\<lambda>m. the (gget (members z) m)) (map fst ?xs) = map snd ?xs"
    using sc by simp
  ultimately have "sorted (map (\<lambda>m. the (gget (members z) m)) (map fst ?xs))" by (simp only:)
  moreover have "set (map fst ?xs) = {m. \<exists>s. gget (members z) m = Some s \<and> lo \<le> s \<and> s \<le> hi}"
    using ok set_eq by (force simp: gget_in_set in_range_def image_iff)
  ultimately show ?thesis
    using d by (simp add: range_result_def distinct_map_filter)
qed

section \<open>Refinement of the specification\<close>

lemma mem_sim_HSet: "mem_inv s \<Longrightarrow> mem_HSet k vs s = (s', r) \<Longrightarrow>
    mem_inv s' \<and> spec_HSet k vs (mem_abs s) = (mem_abs s', r)"
  using mem_inv_at [of s k] by (auto simp: mem_HSet_def spec_HSet_def split: option.splits store_val.splits)

lemma mem_sim_HGetAll: "mem_inv s \<Longrightarrow> mem_HGetAll k s = (s', hm) \<Longrightarrow>
    mem_inv s' \<and> mem_abs s' = mem_abs s \<and> map_sum id map_of hm = spec_HGetAll k (mem_abs s)"
  by (auto simp: mem_HGetAll_def spec_HGetAll_def split: option.splits store_val.splits)

lemma mem_sim_LPush: "mem_inv s \<Longrightarrow> mem_LPush k xs s = (s', r) \<Longrightarrow>
    mem_inv s' \<and> spec_LPush k xs (mem_abs s) = (mem_abs s', r)"
  by (auto simp: mem_LPush_def spec_LPush_def split: option.splits store_val.splits)

lemma mem_sim_LRem: "mem_inv s \<Longrightarrow> mem_LRem k c v s = (s', r) \<Longrightarrow>
    mem_inv s' \<and> spec_LRem k c v (mem_abs s) = (mem_abs s', r)"
  by (auto simp: mem_LRem_def spec_LRem_def filter_ne_removeAll
      split: option.splits store_val.splits if_splits)

lemma mem_sim_Rotate: "mem_inv s \<Longrightarrow> mem_Rotate k s = (s', t) \<Longrightarrow>
    mem_inv s' \<and> spec_Rotate k (mem_abs s) = (mem_abs s', t)"
  by (auto simp: mem_Rotate_def spec_Rotate_def split: option.splits store_val.splits if_splits)

lemma mem_sim_SAdd: "mem_inv s \<Longrightarrow> mem_SAdd k xs s = (s', r) \<Longrightarrow>
    mem_inv s' \<and> spec_SAdd k xs (mem_abs s) = (mem_abs s', r)"
  using mem_inv_at [of s k] by (auto simp: mem_SAdd_def spec_SAdd_def split: option.splits store_val.splits)

lemma mem_sim_SRem: "mem_inv s \<Longrightarrow> mem_SRem k xs s = (s', r) \<Longrightarrow>
    mem_inv s' \<and> spec_SRem k xs (mem_abs s) = (mem_abs s', r)"
  using mem_inv_at [of s k] by (auto simp: mem_SRem_def spec_SRem_def split: option.splits store_val.splits)

lemma mem_sim_SMembers: "mem_inv s \<Longrightarrow> iter_order so \<Longrightarrow> mem_SMembers so k s = (s', ms) \<Longrightarrow>
    mem_inv s' \<and> mem_abs s' = mem_abs s \<and> map_sum id set ms = spec_SMembers k (mem_abs s)"
  by (auto simp: mem_SMembers_def spec_SMembers_def iter_order_set
      split: option.splits store_val.splits)

lemma mem_sim_ZAdd: "mem_inv s \<Longrightarrow> mem_ZAdd k zs s = (s', r) \<Longrightarrow>
    mem_inv s' \<and> spec_ZAdd k zs (mem_abs s) = (mem_abs s', r)"
  using mem_inv_at [of s k] by (auto simp: mem_ZAdd_def spec_ZAdd_def Let_def split: option.splits store_val.splits)

lemma mem_sim_ZRem: "mem_inv s \<Longrightarrow> mem_ZRem k xs s = (s', r) \<Longrightarrow>
    mem_inv s' \<and> spec_ZRem k xs (mem_abs s) = (mem_abs s', r)"
  using mem_inv_at [of s k] by (auto simp: mem_ZRem_def spec_ZRem_def split: option.splits store_val.splits)

lemma mem_sim_ZRange:
  assumes "mem_inv s" "iter_order zo" "mem_ZRangeByScore zo k lo hi s = (s', ms)"
  shows "mem_inv s' \<and> mem_abs s' = mem_abs s \<and> spec_ZRangeByScore k lo hi (mem_abs s) ms"
proof (cases "\<exists>z. s k = Some (ZSetV z)")
  case True
  then obtain z where z: "s k = Some (ZSetV z)" by blast
  let ?z = "mem_ensureSorted zo z"
  have ok: "zset_ok ?z" using assms(1,2) mem_inv_val [OF assms(1) z] by simp
  have e: "s' = s(k \<mapsto> ZSetV ?z)" "ms = Inr (map fst (filter (in_range lo hi) (sorted_m ?z)))"
    using assms(3) z by (auto simp: mem_ZRangeByScore_def Let_def)
  show ?thesis
    using assms(1) ok e z range_of_sorted [OF ok, of lo hi]
    by (auto simp: spec_ZRangeByScore_def mem_abs_def)
next
  case False
  then show ?thesis
    using assms by (auto simp: mem_ZRangeByScore_def spec_ZRangeByScore_def
        split: option.splits store_val.splits)
qed

lemma card_dom_gomap: "gomap_ok m \<Longrightarrow> card (dom (map_of m)) = length m"
  by (simp add: gomap_ok_def dom_map_of_conv_image_fst distinct_card flip: set_map)

lemma mem_sim_ZCard: "mem_inv s \<Longrightarrow> mem_ZCard k s = (s', n) \<Longrightarrow>
    mem_inv s' \<and> mem_abs s' = mem_abs s \<and> n = spec_ZCard k (mem_abs s)"
  using mem_inv_at [of s k] by (auto simp: mem_ZCard_def spec_ZCard_def zset_ok_def card_dom_gomap
      split: option.splits store_val.splits)

interpretation mem: store_impl mem_abs mem_inv mem_Delete mem_HSet mem_HGetAll mem_LPush mem_LRem
  mem_Rotate mem_SAdd mem_SRem mem_SMembers mem_ZAdd mem_ZRem mem_ZRangeByScore mem_ZCard
proof
  show "mem_inv s \<Longrightarrow> mem_Delete k s = (s', r) \<Longrightarrow>
      mem_inv s' \<and> r = Inr () \<and> mem_abs s' = spec_Delete k (mem_abs s)" for k s s' r
    by (auto simp: mem_Delete_def spec_Delete_def)
qed (fact mem_sim_HSet mem_sim_HGetAll mem_sim_LPush mem_sim_LRem mem_sim_Rotate mem_sim_SAdd
    mem_sim_SRem mem_sim_SMembers mem_sim_ZAdd mem_sim_ZRem mem_sim_ZRange mem_sim_ZCard)+

section \<open>The store as a machine\<close>

fun mem_step :: "string iter \<Rightarrow> (string \<times> int) iter \<Rightarrow> sop \<Rightarrow> mstore \<Rightarrow> mstore \<times> sout" where
  "mem_step so zo (DoDelete k) s = map_prod id OUnit (mem_Delete k s)"
| "mem_step so zo (DoHSet k vs) s = map_prod id OUnit (mem_HSet k vs s)"
| "mem_step so zo (DoHGetAll k) s = map_prod id (OHash \<circ> map_sum id map_of) (mem_HGetAll k s)"
| "mem_step so zo (DoLPush k vs) s = map_prod id OUnit (mem_LPush k vs s)"
| "mem_step so zo (DoLRem k c v) s = map_prod id OUnit (mem_LRem k c v s)"
| "mem_step so zo (DoRotate k) s = map_prod id OStr (mem_Rotate k s)"
| "mem_step so zo (DoSAdd k ms) s = map_prod id OUnit (mem_SAdd k ms s)"
| "mem_step so zo (DoSRem k ms) s = map_prod id OUnit (mem_SRem k ms s)"
| "mem_step so zo (DoSMembers k) s =
    map_prod id (OMembers \<circ> map_sum id set) (mem_SMembers so k s)"
| "mem_step so zo (DoZAdd k ms) s = map_prod id OUnit (mem_ZAdd k ms s)"
| "mem_step so zo (DoZRem k ms) s = map_prod id OUnit (mem_ZRem k ms s)"
| "mem_step so zo (DoZRange k lo hi) s =
    map_prod id (OMembers \<circ> map_sum id set) (mem_ZRangeByScore zo k lo hi s)"
| "mem_step so zo (DoZCard k) s = map_prod id OInt (mem_ZCard k s)"

lemma mem_step_eq: "mem.impl_step = mem_step"
proof (intro ext)
  show "mem.impl_step so zo c s = mem_step so zo c s" for so zo c s
    by (cases c) simp_all
qed

lemma mem_inv_new [simp]: "mem_inv NewMemoryStore"
  by (simp add: mem_inv_def NewMemoryStore_def)

lemma mem_abs_new [simp]: "mem_abs NewMemoryStore = Map.empty"
  by (simp add: mem_abs_def NewMemoryStore_def)

lemma mem_run_sim:
  assumes "iter_order so" "iter_order zo" "mem_inv s"
  shows "mem_inv (fst (run_ops (mem_step so zo) cs s)) \<and>
    run_ops spec_step cs (mem_abs s) =
      (mem_abs (fst (run_ops (mem_step so zo) cs s)), snd (run_ops (mem_step so zo) cs s))"
  using mem.impl_run_sim [OF assms] unfolding mem_step_eq .

text \<open>C1: A new MemoryStore answers every sequence of calls on hashes, lists, sets and sorted
  sets as the abstract store does, whatever order the runtime iterates its maps in, and every
  value it holds afterwards is well-formed (map keys distinct, the cached slice of a clean
  sorted set sorted and complete).\<close>

theorem mem_refines_spec:
  assumes "iter_order so" "iter_order zo"
    and "run_ops (mem_step so zo) cs NewMemoryStore = (s, outs)"
  shows "run_ops spec_step cs Map.empty = (mem_abs s, outs) \<and> mem_inv s"
  using mem_run_sim [OF assms(1,2) mem_inv_new, of cs] assms(3) by simp

theorem mem_refines_spec_witness:
  "snd (run_ops spec_step [DoLPush ''q'' [AStr ''1'', AStr ''2''], DoRotate ''q'', DoRotate ''r''] Map.empty)
    = [OUnit (Inr ()), OStr (Inr ''2''), OStr (Inl ErrNotFound)]"
proof -
  let ?cs = "[DoLPush ''q'' [AStr ''1'', AStr ''2''], DoRotate ''q'', DoRotate ''r'']"
  have "snd (run_ops (mem_step id id) ?cs NewMemoryStore) =
      [OUnit (Inr ()), OStr (Inr ''2''), OStr (Inl ErrNotFound)]"
    by (simp add: mem_LPush_def mem_Rotate_def NewMemoryStore_def)
  then show ?thesis
    using mem_refines_spec [OF iter_order_id(1) iter_order_id(1) prod.collapse [symmetric], of ?cs]
    by simp
qed

text \<open>Rotating a list as many times as it has elements returns every element exactly once,
  from the tail to the head, and leaves the list as it was: selection is round robin and loses
  no element.\<close>

lemma mem_rotate_round_robin:
  assumes "mem_inv s" "mem_abs s k = Some (VList l)"
    and "run_ops (\<lambda>_::unit. mem_Rotate k) (replicate (length l) ()) s = (s', outs)"
  shows "outs = map Inr (rev l) \<and> mem_abs s' k = Some (VList l)"
  using mem.rotations_cycle [OF assms(1,2)] assms(3) by simp

lemma mem_rotate_round_robin_demo:
  "\<exists>s outs. outs = [Inr ''b'', Inr ''a''] \<and> mem_abs s ''k'' = Some (VList [''a'', ''b''])"
proof -
  let ?s = "[''k'' \<mapsto> ListV [''a'', ''b'']]"
  have "mem_inv ?s" by (simp add: mem_inv_def)
  then show ?thesis
    using mem_rotate_round_robin [of ?s "''k''" "[''a'', ''b'']", OF _ _ prod.collapse [symmetric]]
    by (auto simp: mem_abs_def)
qed

text \<open>A value set with a positive time to live is returned until its expiry instant, that
  instant included, and from the next nanosecond on reads as missing and is removed.\<close>

lemma mem_ttl_window:
  assumes "0 < ttl" "0 \<le> now" "in_i64 (now + ttl)"
    and "mem_Set now k v ttl s = (s1, r)"
  shows "mem_Get t k s1 =
    (if t \<le> now + ttl then (s1, Inr v) else (s1(k := None), Inl ErrNotFound))"
  using assms by (auto simp: mem_Set_def mem_Get_def expired_def expiry_def)

lemma mem_ttl_window_demo:
  "mem_Get 106 ''k'' (fst (mem_Set 100 ''k'' ''v'' 5 NewMemoryStore)) =
    ((fst (mem_Set 100 ''k'' ''v'' 5 NewMemoryStore))(''k'' := None), Inl ErrNotFound)"
  using mem_ttl_window [where ttl = 5 and now = 100 and t = 106 and k = "''k''" and v = "''v''"
      and s = NewMemoryStore, OF _ _ _ prod.collapse [symmetric]]
  by (simp add: in_i64_def)

text \<open>SetNX is a lock with a lease: after it succeeds at time now, every attempt before
  now + ttl fails and changes nothing, and the first attempt at or after now + ttl succeeds,
  provided the key is not written in between.\<close>

lemma mem_setnx_lease:
  assumes "0 < ttl" "0 \<le> now" "in_i64 (now + ttl)"
    and "mem_SetNX now k v ttl s = (s1, Inr True)"
  shows "if t < now + ttl then mem_SetNX t k w ttl' s1 = (s1, Inr False)
    else \<exists>s2. mem_SetNX t k w ttl' s1 = (s2, Inr True) \<and>
      s2 k = Some (ItemV \<lparr>item_value = w, expiresAt = expiry t ttl'\<rparr>)"
proof -
  have "s1 k = Some (ItemV \<lparr>item_value = v, expiresAt = now + ttl\<rparr>)"
    using assms by (auto simp: mem_SetNX_def expiry_def Let_def
        split: option.splits store_val.splits if_splits)
  then show ?thesis using assms(1,2) by (auto simp: mem_SetNX_def Let_def)
qed

lemma mem_setnx_lease_demo:
  "mem_SetNX 103 ''lock'' ''b'' 5 (fst (mem_SetNX 100 ''lock'' ''a'' 5 NewMemoryStore)) =
    (fst (mem_SetNX 100 ''lock'' ''a'' 5 NewMemoryStore), Inr False)"
proof -
  have "mem_SetNX 100 ''lock'' ''a'' 5 NewMemoryStore =
      (fst (mem_SetNX 100 ''lock'' ''a'' 5 NewMemoryStore), Inr True)"
    by (simp add: mem_SetNX_def NewMemoryStore_def)
  from mem_setnx_lease [OF _ _ _ this, of 103 "''b''" 5] show ?thesis
    by (simp add: in_i64_def)
qed

lemma pop_loop_spec:
  "int (length popped) \<le> cnt \<Longrightarrow>
   pop_loop cnt ms popped S =
     (popped @ take (nat cnt - length popped) ms,
      fold gdel (take (nat cnt - length popped) ms) S)"
proof (induction cnt ms popped S rule: pop_loop.induct)
  case (1 cnt popped S)
  then show ?case by simp
next
  case (2 cnt m ms popped S)
  show ?case
  proof (cases "cnt \<le> int (length popped)")
    case True
    then show ?thesis using 2(2) by simp
  next
    case False
    then have "nat cnt - length popped = Suc (nat cnt - length (popped @ [m]))" by simp
    then show ?thesis using 2(1) False by simp
  qed
qed

lemma fold_gdel_keys: "fst ` set (fold gdel ms S) = fst ` set S - set ms"
  by (induction ms arbitrary: S) (auto simp: fst_set_gdel)

text \<open>SPopN with a count of at least 0 returns min(count, size) distinct members of the set,
  removes exactly those, and leaves every other key alone.\<close>

lemma mem_spopn_exact:
  assumes "iter_order ord" "mem_inv s" "s k = Some (SetV S)" "0 \<le> cnt"
    and "mem_SPopN ord k cnt s = (s', r)"
  shows "\<exists>xs S'. r = Inr xs \<and> s' = s(k \<mapsto> SetV S') \<and> distinct xs \<and>
    int (length xs) = min cnt (int (length S)) \<and> set xs \<subseteq> fst ` set S \<and>
    fst ` set S' = fst ` set S - set xs"
proof -
  let ?n = "min cnt (int (length S))"
  let ?xs = "take (nat ?n) (ord (map fst S))"
  have d: "distinct (ord (map fst S))"
    using mem_inv_at(2) [OF assms(2,3)] by (simp add: iter_order_distinct [OF assms(1)] gomap_ok_def)
  have e: "r = Inr ?xs" "s' = s(k \<mapsto> SetV (fold gdel ?xs S))"
    using assms(3-5) by (auto simp: mem_SPopN_def pop_loop_spec Let_def min_def split: if_splits)
  have "set ?xs \<subseteq> fst ` set S"
    using set_take_subset iter_order_set [OF assms(1)] by fastforce
  moreover have "int (length ?xs) = ?n"
    using assms(4) by (simp add: iter_order_length [OF assms(1)])
  ultimately show ?thesis
    using e d by (intro exI [of _ ?xs] exI [of _ "fold gdel ?xs S"]) (simp add: fold_gdel_keys)
qed

lemma pop_loop_ok: "gomap_ok S \<Longrightarrow> gomap_ok (snd (pop_loop n ms popped S))"
  by (induction n ms popped S rule: pop_loop.induct) auto

lemma mem_sim_SPopN:
  assumes "mem_inv s" "mem_SPopN ord k cnt s = (s', r)"
  shows "mem_inv s'"
proof (cases "\<exists>S. s k = Some (SetV S)")
  case True
  then obtain S where S: "s k = Some (SetV S)" by blast
  then have "gomap_ok S" using mem_inv_at(2) [OF assms(1)] by blast
  then show ?thesis
    using assms S pop_loop_ok by (auto simp: mem_SPopN_def Let_def case_prod_beta split: if_splits)
next
  case False
  then have "s' = s" using assms(2) by (auto simp: mem_SPopN_def split: option.splits store_val.splits)
  then show ?thesis using assms(1) by simp
qed

end
