(* ===== verification/ShardedStore.thy ===== *)
theory ShardedStore
  imports MemStore
begin

text \<open>The sharded store of src/internal/keypool/sharded_memory.go: a power-of-two number of
  shards, a key living in the shard its FNV-1a hash selects. The values have the same five
  types as in the plain store. A closed shard has a nil map, on which a write panics; an index
  outside the slice of shards panics too. Each operation is the shard-level function under
  \<^verbatim>\<open>with_shard\<close>, which is the method with its shard lock held.\<close>

section \<open>State and routing\<close>

record ShardedStoreConfig =
  ShardCount :: int
  LockTimeout :: int
  GCInterval :: int
  MaxMemoryUsage :: int
  EnableMetrics :: bool
  CacheSize :: int

record memoryShard =
  sdata :: "(string, store_val) gomap option"
  readCount :: int
  writeCount :: int
  memoryUsage :: int
  lastGC :: int

record sstore =
  shards :: "memoryShard list"
  shardMask :: "32 word"
  sconfig :: ShardedStoreConfig

definition DefaultShardedStoreConfig :: ShardedStoreConfig where
  "DefaultShardedStoreConfig = \<lparr>ShardCount = 16, LockTimeout = 1000000000,
     GCInterval = 600000000000, MaxMemoryUsage = 104857600, EnableMetrics = True, CacheSize = 1000\<rparr>"

text \<open>FNV-1a, 32 bits: for each byte, xor it into the hash and multiply by the prime.\<close>

definition fnv32a :: "string \<Rightarrow> 32 word" where
  "fnv32a key = foldl (\<lambda>h c. Bit_Operations.xor h (of_nat (of_char c)) * 16777619) 2166136261 key"

definition shard_index :: "32 word \<Rightarrow> string \<Rightarrow> nat" where
  "shard_index msk key = unat (Bit_Operations.and (fnv32a key) msk)"

definition new_shard :: "int \<Rightarrow> memoryShard" where
  "new_shard now = \<lparr>sdata = Some [], readCount = 0, writeCount = 0, memoryUsage = 0, lastGC = now\<rparr>"

definition pow2_test :: "int \<Rightarrow> bool" where
  "pow2_test n \<longleftrightarrow> Bit_Operations.and n (n - 1) = 0"

definition NewShardedMemoryStore :: "int \<Rightarrow> ShardedStoreConfig option \<Rightarrow> string + sstore" where
  "NewShardedMemoryStore now config =
    (let c = (case config of None \<Rightarrow> DefaultShardedStoreConfig | Some c \<Rightarrow> c) in
     if ShardCount c \<le> 0 \<or> \<not> pow2_test (ShardCount c)
     then Inl ''shard count must be a power of 2''
     else Inr \<lparr>shards = replicate (nat (ShardCount c)) (new_shard now),
               shardMask = word_of_int (ShardCount c - 1), sconfig = c\<rparr>)"

definition with_shard ::
  "string \<Rightarrow> (memoryShard \<Rightarrow> memoryShard \<times> 'a sres) \<Rightarrow> sstore \<Rightarrow> sstore \<times> 'a sres" where
  "with_shard key f s =
    (let i = shard_index (shardMask s) key in
     if i < length (shards s)
     then (case f (shards s ! i) of (sh, r) \<Rightarrow> (s\<lparr>shards := (shards s)[i := sh]\<rparr>, r))
     else (s, Inl PanicIndex))"

definition slook :: "memoryShard \<Rightarrow> string \<Rightarrow> store_val option" where
  "slook sh key = (case sdata sh of None \<Rightarrow> None | Some m \<Rightarrow> gget m key)"

definition wcount :: "ShardedStoreConfig \<Rightarrow> memoryShard \<Rightarrow> memoryShard" where
  "wcount c sh = (if EnableMetrics c then sh\<lparr>writeCount := i64 (writeCount sh + 1)\<rparr> else sh)"

definition rcount :: "ShardedStoreConfig \<Rightarrow> memoryShard \<Rightarrow> memoryShard" where
  "rcount c sh = (if EnableMetrics c then sh\<lparr>readCount := i64 (readCount sh + 1)\<rparr> else sh)"

definition sput :: "(memoryShard \<Rightarrow> memoryShard) \<Rightarrow> string \<Rightarrow> store_val \<Rightarrow> 'a sres \<Rightarrow>
    memoryShard \<Rightarrow> memoryShard \<times> 'a sres" where
  "sput after key v r sh =
    (case sdata sh of
       None \<Rightarrow> (sh, Inl PanicNilMap)
     | Some m \<Rightarrow> (after (sh\<lparr>sdata := Some (gput key v m)\<rparr>), r))"

definition sdel :: "string \<Rightarrow> memoryShard \<Rightarrow> memoryShard" where
  "sdel key sh = sh\<lparr>sdata := map_option (gdel key) (sdata sh)\<rparr>"

section \<open>Plain values\<close>

definition sh_Set :: "int \<Rightarrow> string \<Rightarrow> string \<Rightarrow> int \<Rightarrow> sstore \<Rightarrow> sstore \<times> unit sres" where
  "sh_Set now key v ttl s = with_shard key
    (sput (wcount (sconfig s)) key (ItemV \<lparr>item_value = v, expiresAt = expiry now ttl\<rparr>) (Inr ())) s"

definition sh_Get :: "int \<Rightarrow> string \<Rightarrow> sstore \<Rightarrow> sstore \<times> string sres" where
  "sh_Get now key s = with_shard key (\<lambda>sh.
    case slook sh key of
      None \<Rightarrow> (sh, Inl ErrNotFound)
    | Some (ItemV it) \<Rightarrow>
        if expired now it then (sdel key sh, Inl ErrNotFound)
        else (rcount (sconfig s) sh, Inr (item_value it))
    | Some _ \<Rightarrow> (sh, Inl (ErrTypeMismatch key))) s"

definition sh_Delete :: "string \<Rightarrow> sstore \<Rightarrow> sstore \<times> unit sres" where
  "sh_Delete key s = with_shard key (\<lambda>sh. (sdel key sh, Inr ())) s"

text \<open>Del groups the keys by shard and deletes each group in a goroutine; deletions of
  different keys commute, so the sequential order of the argument list stands for all.\<close>

definition sh_Del :: "string list \<Rightarrow> sstore \<Rightarrow> sstore" where
  "sh_Del ks s = fold (\<lambda>k s. fst (sh_Delete k s)) ks s"

definition sh_Exists :: "int \<Rightarrow> string \<Rightarrow> sstore \<Rightarrow> sstore \<times> bool sres" where
  "sh_Exists now key s = with_shard key (\<lambda>sh.
    case slook sh key of
      None \<Rightarrow> (sh, Inr False)
    | Some (ItemV it) \<Rightarrow> if expired now it then (sdel key sh, Inr False) else (sh, Inr True)
    | Some _ \<Rightarrow> (sh, Inr True)) s"

definition sh_SetNX :: "int \<Rightarrow> string \<Rightarrow> string \<Rightarrow> int \<Rightarrow> sstore \<Rightarrow> sstore \<times> bool sres" where
  "sh_SetNX now key v ttl s = with_shard key (\<lambda>sh.
    let put = sput id key (ItemV \<lparr>item_value = v, expiresAt = expiry now ttl\<rparr>) (Inr True) sh in
    case slook sh key of
      None \<Rightarrow> put
    | Some (ItemV it) \<Rightarrow>
        if expiresAt it = 0 \<or> now < expiresAt it then (sh, Inr False) else put
    | Some _ \<Rightarrow> (sh, Inr False)) s"

section \<open>Hashes\<close>

definition sh_HSet :: "string \<Rightarrow> (string \<times> goany) list \<Rightarrow> sstore \<Rightarrow> sstore \<times> unit sres" where
  "sh_HSet key vals s = with_shard key (\<lambda>sh.
    case slook sh key of
      None \<Rightarrow> sput (wcount (sconfig s)) key (HashV (hash_put vals [])) (Inr ()) sh
    | Some (HashV h) \<Rightarrow> sput (wcount (sconfig s)) key (HashV (hash_put vals h)) (Inr ()) sh
    | Some _ \<Rightarrow> (sh, Inl (ErrTypeMismatch key))) s"

definition sh_HGetAll :: "string \<Rightarrow> sstore \<Rightarrow> sstore \<times> (string, string) gomap sres" where
  "sh_HGetAll key s = with_shard key (\<lambda>sh.
    case slook sh key of
      None \<Rightarrow> (sh, Inr [])
    | Some (HashV h) \<Rightarrow> (rcount (sconfig s) sh, Inr h)
    | Some _ \<Rightarrow> (sh, Inl (ErrTypeMismatch key))) s"

text \<open>parseInt64 accumulates with wrap-around and accepts a lone sign.\<close>

fun p64_loop :: "int \<Rightarrow> string \<Rightarrow> int option" where
  "p64_loop acc [] = Some acc"
| "p64_loop acc (c # cs) =
    (if \<not> is_digit c then None else p64_loop (i64 (i64 (acc * 10) + int (digit_val c))) cs)"

definition parseInt64 :: "string \<Rightarrow> int option" where
  "parseInt64 s =
    (if s = [] then None
     else let (neg, ds) = strip_sign s in
          map_option (\<lambda>r. i64 (r * (if neg then -1 else 1))) (p64_loop 0 ds))"

text \<open>A missing field counts as 0; a field that is not an integer is an error. The hash itself
  is created before the field is read.\<close>

definition sh_HIncrBy :: "string \<Rightarrow> string \<Rightarrow> int \<Rightarrow> sstore \<Rightarrow> sstore \<times> int sres" where
  "sh_HIncrBy key field incr s = with_shard key (\<lambda>sh.
    let upd = (\<lambda>h. case (case gget h field of None \<Rightarrow> Some 0 | Some t \<Rightarrow> parseInt64 t) of
          None \<Rightarrow> (sh, Inl ErrNotInteger)
        | Some cur \<Rightarrow> let newValue = i64 (cur + incr) in
            sput (wcount (sconfig s)) key (HashV (gput field (show_int newValue) h)) (Inr newValue) sh) in
    case slook sh key of
      None \<Rightarrow> upd []
    | Some (HashV h) \<Rightarrow> upd h
    | Some _ \<Rightarrow> (sh, Inl (ErrTypeMismatch key))) s"

section \<open>Lists\<close>

definition sh_LPush :: "string \<Rightarrow> goany list \<Rightarrow> sstore \<Rightarrow> sstore \<times> unit sres" where
  "sh_LPush key vals s = with_shard key (\<lambda>sh.
    case slook sh key of
      None \<Rightarrow> sput (wcount (sconfig s)) key (ListV (map Sprint vals)) (Inr ()) sh
    | Some (ListV l) \<Rightarrow> sput (wcount (sconfig s)) key (ListV (map Sprint vals @ l)) (Inr ()) sh
    | Some _ \<Rightarrow> (sh, Inl (ErrTypeMismatch key))) s"

definition sh_LRem :: "string \<Rightarrow> int \<Rightarrow> goany \<Rightarrow> sstore \<Rightarrow> sstore \<times> unit sres" where
  "sh_LRem key cnt v s = with_shard key (\<lambda>sh.
    case slook sh key of
      None \<Rightarrow> (sh, Inr ())
    | Some (ListV l) \<Rightarrow>
        if cnt \<noteq> 0 then (sh, Inl ErrLRemCount)
        else sput (wcount (sconfig s)) key (ListV (filter (\<lambda>x. x \<noteq> Sprint v) l)) (Inr ()) sh
    | Some _ \<Rightarrow> (sh, Inl (ErrTypeMismatch key))) s"

definition sh_Rotate :: "string \<Rightarrow> sstore \<Rightarrow> sstore \<times> string sres" where
  "sh_Rotate key s = with_shard key (\<lambda>sh.
    case slook sh key of
      None \<Rightarrow> (sh, Inl ErrNotFound)
    | Some (ListV l) \<Rightarrow>
        if l = [] then (sh, Inl ErrNotFound)
        else sput (wcount (sconfig s)) key (ListV (last l # butlast l)) (Inr (last l)) sh
    | Some _ \<Rightarrow> (sh, Inl (ErrTypeMismatch key))) s"

text \<open>The index arithmetic LRange and ZRange share: negative indexes count from the end, the
  window is clipped to the slice.\<close>

definition clip_range :: "int \<Rightarrow> int \<Rightarrow> int \<Rightarrow> int \<times> int" where
  "clip_range len start stop =
    (let start1 = (if start < 0 then len + start else start);
         stop1 = (if stop < 0 then len + stop else stop) in
     (if start1 < 0 then 0 else start1, if stop1 \<ge> len then len - 1 else stop1))"

definition slice_of :: "'a list \<Rightarrow> int \<Rightarrow> int \<Rightarrow> 'a list" where
  "slice_of xs a b = (if a > b then [] else take (nat (b - a + 1)) (drop (nat a) xs))"

definition sh_LRange :: "string \<Rightarrow> int \<Rightarrow> int \<Rightarrow> sstore \<Rightarrow> sstore \<times> string list sres" where
  "sh_LRange key start stop s = with_shard key (\<lambda>sh.
    case slook sh key of
      None \<Rightarrow> (sh, Inr [])
    | Some (ListV l) \<Rightarrow>
        if l = [] then (sh, Inr [])
        else (case clip_range (int (length l)) start stop of (a, b) \<Rightarrow>
          if a > b then (sh, Inr []) else (rcount (sconfig s) sh, Inr (slice_of l a b)))
    | Some _ \<Rightarrow> (sh, Inl (ErrTypeMismatch key))) s"

definition sh_LLen :: "string \<Rightarrow> sstore \<Rightarrow> sstore \<times> int sres" where
  "sh_LLen key s = with_shard key (\<lambda>sh.
    case slook sh key of
      None \<Rightarrow> (sh, Inr 0)
    | Some (ListV l) \<Rightarrow> (rcount (sconfig s) sh, Inr (int (length l)))
    | Some _ \<Rightarrow> (sh, Inl (ErrTypeMismatch key))) s"

section \<open>Sets\<close>

definition sh_SAdd :: "string \<Rightarrow> goany list \<Rightarrow> sstore \<Rightarrow> sstore \<times> unit sres" where
  "sh_SAdd key ms s = with_shard key (\<lambda>sh.
    case slook sh key of
      None \<Rightarrow> sput (wcount (sconfig s)) key (SetV (set_put ms [])) (Inr ()) sh
    | Some (SetV S) \<Rightarrow> sput (wcount (sconfig s)) key (SetV (set_put ms S)) (Inr ()) sh
    | Some _ \<Rightarrow> (sh, Inl (ErrTypeMismatch key))) s"

definition sh_SRem :: "string \<Rightarrow> goany list \<Rightarrow> sstore \<Rightarrow> sstore \<times> unit sres" where
  "sh_SRem key ms s = with_shard key (\<lambda>sh.
    case slook sh key of
      None \<Rightarrow> (sh, Inr ())
    | Some (SetV S) \<Rightarrow> sput (wcount (sconfig s)) key (SetV (set_del ms S)) (Inr ()) sh
    | Some _ \<Rightarrow> (sh, Inl (ErrTypeMismatch key))) s"

definition sh_SMembers :: "string iter \<Rightarrow> string \<Rightarrow> sstore \<Rightarrow> sstore \<times> string list sres" where
  "sh_SMembers ord key s = with_shard key (\<lambda>sh.
    case slook sh key of
      None \<Rightarrow> (sh, Inr [])
    | Some (SetV S) \<Rightarrow> (rcount (sconfig s) sh, Inr (ord (map fst S)))
    | Some _ \<Rightarrow> (sh, Inl (ErrTypeMismatch key))) s"

definition sh_SPopN :: "string iter \<Rightarrow> string \<Rightarrow> int \<Rightarrow> sstore \<Rightarrow> sstore \<times> string list sres" where
  "sh_SPopN ord key cnt s = with_shard key (\<lambda>sh.
    case slook sh key of
      None \<Rightarrow> (sh, Inr [])
    | Some (SetV S) \<Rightarrow>
        (let n = (if cnt > int (length S) then int (length S) else cnt);
             (popped, S') = pop_loop n (ord (map fst S)) [] S
         in if n < 0 then (sh, Inl PanicMakeSlice)
            else sput (wcount (sconfig s)) key (SetV S') (Inr popped) sh)
    | Some _ \<Rightarrow> (sh, Inl (ErrTypeMismatch key))) s"

section \<open>Sorted sets\<close>

definition sh_ZAdd :: "string \<Rightarrow> (goany \<times> int) list \<Rightarrow> sstore \<Rightarrow> sstore \<times> unit sres" where
  "sh_ZAdd key ms s = with_shard key (\<lambda>sh.
    let upd = (\<lambda>z. sput (wcount (sconfig s)) key
                     (ZSetV (fold (\<lambda>(m, sc) z. zset_put m sc z) ms z)) (Inr ()) sh) in
    case slook sh key of
      None \<Rightarrow> upd empty_zset
    | Some (ZSetV z) \<Rightarrow> upd z
    | Some _ \<Rightarrow> (sh, Inl (ErrTypeMismatch key))) s"

definition sh_ZRem :: "string \<Rightarrow> goany list \<Rightarrow> sstore \<Rightarrow> sstore \<times> unit sres" where
  "sh_ZRem key ms s = with_shard key (\<lambda>sh.
    case slook sh key of
      None \<Rightarrow> (sh, Inr ())
    | Some (ZSetV z) \<Rightarrow> sput (wcount (sconfig s)) key (ZSetV (fold zset_del ms z)) (Inr ()) sh
    | Some _ \<Rightarrow> (sh, Inl (ErrTypeMismatch key))) s"

text \<open>The exchange sort of ensureSorted, with its two index loops.\<close>

function exch_inner :: "nat \<Rightarrow> nat \<Rightarrow> ('a \<times> int) list \<Rightarrow> ('a \<times> int) list" where
  "exch_inner i j xs =
    (if j < length xs
     then exch_inner i (Suc j)
       (if snd (xs ! i) > snd (xs ! j) then xs[i := xs ! j, j := xs ! i] else xs)
     else xs)"
  by pat_completeness auto
termination
  by (relation "measure (\<lambda>(i, j, xs). length xs - j)") auto

declare exch_inner.simps [simp del]

lemma exch_inner_length [simp]: "length (exch_inner i j xs) = length xs"
  by (induction i j xs rule: exch_inner.induct) (subst exch_inner.simps, simp)

function exch_outer :: "nat \<Rightarrow> ('a \<times> int) list \<Rightarrow> ('a \<times> int) list" where
  "exch_outer i xs =
    (if int i < int (length xs) - 1 then exch_outer (Suc i) (exch_inner i (Suc i) xs) else xs)"
  by pat_completeness auto
termination
  by (relation "measure (\<lambda>(i, xs). length xs - i)") auto

declare exch_outer.simps [simp del]

definition sh_ensureSorted :: "(string \<times> int) iter \<Rightarrow> zset \<Rightarrow> zset" where
  "sh_ensureSorted ord z =
    (if \<not> dirty z then z
     else z\<lparr>sorted_m := exch_outer 0 (ord (members z)), dirty := False\<rparr>)"

text \<open>ZRange sorts the set in place under the read lock only.\<close>

definition sh_ZRange ::
  "(string \<times> int) iter \<Rightarrow> string \<Rightarrow> int \<Rightarrow> int \<Rightarrow> sstore \<Rightarrow> sstore \<times> string list sres" where
  "sh_ZRange ord key start stop s = with_shard key (\<lambda>sh.
    case slook sh key of
      None \<Rightarrow> (sh, Inr [])
    | Some (ZSetV z) \<Rightarrow>
        (let z' = sh_ensureSorted ord z; xs = map fst (sorted_m z') in
         if xs = [] then sput id key (ZSetV z') (Inr []) sh
         else (case clip_range (int (length xs)) start stop of (a, b) \<Rightarrow>
           if a > b then sput id key (ZSetV z') (Inr []) sh
           else sput (rcount (sconfig s)) key (ZSetV z') (Inr (slice_of xs a b)) sh))
    | Some _ \<Rightarrow> (sh, Inl (ErrTypeMismatch key))) s"

definition sh_ZRangeByScore ::
  "(string \<times> int) iter \<Rightarrow> string \<Rightarrow> int \<Rightarrow> int \<Rightarrow> sstore \<Rightarrow> sstore \<times> string list sres" where
  "sh_ZRangeByScore ord key lo hi s = with_shard key (\<lambda>sh.
    case slook sh key of
      None \<Rightarrow> (sh, Inr [])
    | Some (ZSetV z) \<Rightarrow>
        (let z' = sh_ensureSorted ord z in
         sput (rcount (sconfig s)) key (ZSetV z')
           (Inr (map fst (filter (in_range lo hi) (sorted_m z')))) sh)
    | Some _ \<Rightarrow> (sh, Inl (ErrTypeMismatch key))) s"

definition sh_ZRemRangeByScore :: "string \<Rightarrow> int \<Rightarrow> int \<Rightarrow> sstore \<Rightarrow> sstore \<times> int sres" where
  "sh_ZRemRangeByScore key lo hi s = with_shard key (\<lambda>sh.
    case slook sh key of
      None \<Rightarrow> (sh, Inr 0)
    | Some (ZSetV z) \<Rightarrow>
        (let removed = int (length (filter (in_range lo hi) (members z)));
             ms = filter (\<lambda>e. \<not> in_range lo hi e) (members z) in
         sput (wcount (sconfig s)) key
           (ZSetV (z\<lparr>members := ms, dirty := dirty z \<or> removed > 0\<rparr>)) (Inr removed) sh)
    | Some _ \<Rightarrow> (sh, Inl (ErrTypeMismatch key))) s"

definition sh_ZCard :: "string \<Rightarrow> sstore \<Rightarrow> sstore \<times> int sres" where
  "sh_ZCard key s = with_shard key (\<lambda>sh.
    case slook sh key of
      None \<Rightarrow> (sh, Inr 0)
    | Some (ZSetV z) \<Rightarrow> (rcount (sconfig s) sh, Inr (int (length (members z))))
    | Some _ \<Rightarrow> (sh, Inl (ErrTypeMismatch key))) s"

text \<open>Close drops the map of every shard.\<close>

definition sh_Close :: "sstore \<Rightarrow> sstore" where
  "sh_Close s = s\<lparr>shards := map (\<lambda>sh. sh\<lparr>sdata := None\<rparr>) (shards s)\<rparr>"

section \<open>The flat view\<close>

definition flat :: "sstore \<Rightarrow> mstore" where
  "flat s key =
    (let i = shard_index (shardMask s) key in
     if i < length (shards s) then slook (shards s ! i) key else None)"

definition shard_ok :: "32 word \<Rightarrow> nat \<Rightarrow> memoryShard \<Rightarrow> bool" where
  "shard_ok msk i sh \<longleftrightarrow> (\<exists>m. sdata sh = Some m \<and> gomap_ok m \<and>
     (\<forall>(k, v) \<in> set m. shard_index msk k = i \<and> val_ok v))"

text \<open>The mask is the number of shards less one, every shard is open, its keys are the
  ones routed to it, and its values are well-formed.\<close>

definition mask_ok :: "sstore \<Rightarrow> bool" where
  "mask_ok s \<longleftrightarrow> shards s \<noteq> [] \<and> shardMask s = word_of_int (int (length (shards s)) - 1)"

definition sh_inv :: "sstore \<Rightarrow> bool" where
  "sh_inv s \<longleftrightarrow> mask_ok s \<and>
     (\<forall>i < length (shards s). shard_ok (shardMask s) i (shards s ! i))"

definition sh_abs :: "sstore \<Rightarrow> astore" where
  "sh_abs s = mem_abs (flat s)"

definition cur :: "sstore \<Rightarrow> string \<Rightarrow> memoryShard" where
  "cur s key = shards s ! shard_index (shardMask s) key"

definition set_cur :: "sstore \<Rightarrow> string \<Rightarrow> memoryShard \<Rightarrow> sstore" where
  "set_cur s key sh = s\<lparr>shards := (shards s)[shard_index (shardMask s) key := sh]\<rparr>"

definition put_cur :: "(memoryShard \<Rightarrow> memoryShard) \<Rightarrow> string \<Rightarrow> store_val \<Rightarrow> sstore \<Rightarrow> sstore" where
  "put_cur after key v s =
    set_cur s key (after ((cur s key)\<lparr>sdata := map_option (gput key v) (sdata (cur s key))\<rparr>))"

definition keeps_data :: "(memoryShard \<Rightarrow> memoryShard) \<Rightarrow> bool" where
  "keeps_data f \<longleftrightarrow> (\<forall>sh. sdata (f sh) = sdata sh)"

lemma keeps_data_counts [simp]:
  "keeps_data (wcount c)" "keeps_data (rcount c)" "keeps_data id" "keeps_data (\<lambda>x. x)"
  by (simp_all add: keeps_data_def wcount_def rcount_def)

lemma shard_index_le: "shard_index msk key \<le> unat msk"
  unfolding shard_index_def by (metis word_and_le1 word_le_nat_alt)

lemma unat_of_int_le: "0 \<le> n \<Longrightarrow> int (unat (word_of_int n :: 32 word)) \<le> n"
  by (simp add: unsigned_of_int take_bit_eq_mod zmod_le_nonneg_dividend)

lemma mask_index_lt:
  assumes "0 < n"
  shows "shard_index (word_of_int (n - 1)) key < nat n"
proof -
  have "int (unat (word_of_int (n - 1) :: 32 word)) \<le> n - 1"
    using assms by (intro unat_of_int_le) simp
  then have "unat (word_of_int (n - 1) :: 32 word) < nat n"
    by (simp only: zless_nat_eq_int_zless)
  then show ?thesis using shard_index_le le_less_trans by blast
qed

lemma shard_index_lt: "sh_inv s \<Longrightarrow> shard_index (shardMask s) key < length (shards s)"
  using mask_index_lt [of "int (length (shards s))" key] by (simp add: sh_inv_def mask_ok_def)

lemma mask_ok_set_cur [simp]: "mask_ok (set_cur s key sh) = mask_ok s"
  by (simp add: mask_ok_def set_cur_def)

lemma set_cur_sel [simp]:
  "shardMask (set_cur s key sh) = shardMask s" "length (shards (set_cur s key sh)) = length (shards s)"
  by (simp_all add: set_cur_def)

lemma shards_set_cur: "i < length (shards s) \<Longrightarrow>
    shards (set_cur s key sh) ! i = (if i = shard_index (shardMask s) key then sh else shards s ! i)"
  by (auto simp: set_cur_def nth_list_update)

lemma cur_ok: "sh_inv s \<Longrightarrow> shard_ok (shardMask s) (shard_index (shardMask s) key) (cur s key)"
  using shard_index_lt [of s key] by (simp add: sh_inv_def cur_def)

lemma with_shard_eq:
  "sh_inv s \<Longrightarrow> with_shard key f s = map_prod (set_cur s key) id (f (cur s key))"
  using shard_index_lt [of s key]
  by (simp add: with_shard_def set_cur_def cur_def Let_def split: prod.splits)

lemma with_shard_length: "length (shards (fst (with_shard key f s))) = length (shards s)"
  by (simp add: with_shard_def Let_def split: prod.split)

lemma slook_cur: "sh_inv s \<Longrightarrow> slook (cur s key) key = flat s key"
  using shard_index_lt [of s key] by (simp add: flat_def cur_def)

lemma set_cur_inv:
  assumes "sh_inv s" "shard_ok (shardMask s) (shard_index (shardMask s) key) sh"
  shows "sh_inv (set_cur s key sh)"
  using assms by (auto simp: sh_inv_def shards_set_cur)

lemma flat_set_cur:
  assumes "sh_inv s" "\<And>k. k \<noteq> key \<Longrightarrow> slook sh k = slook (cur s key) k"
  shows "flat (set_cur s key sh) = (flat s)(key := slook sh key)"
proof
  fix k
  show "flat (set_cur s key sh) k = ((flat s)(key := slook sh key)) k"
    using shard_index_lt [OF assms(1), of key] shard_index_lt [OF assms(1), of k] assms(2) [of k]
    by (auto simp: flat_def set_cur_def cur_def nth_list_update Let_def)
qed

lemma shard_ok_gput:
  "shard_ok msk i sh \<Longrightarrow> keeps_data f \<Longrightarrow> shard_index msk key = i \<Longrightarrow> val_ok v \<Longrightarrow>
   shard_ok msk i (f (sh\<lparr>sdata := map_option (gput key v) (sdata sh)\<rparr>))"
  by (auto simp: shard_ok_def keeps_data_def dest!: in_set_gput)

lemma put_cur_inv:
  "sh_inv s \<Longrightarrow> keeps_data f \<Longrightarrow> val_ok v \<Longrightarrow> sh_inv (put_cur f key v s)"
  unfolding put_cur_def by (rule set_cur_inv) (auto intro: shard_ok_gput cur_ok)

lemma flat_put_cur:
  assumes "sh_inv s" "keeps_data f"
  shows "flat (put_cur f key v s) = (flat s)(key \<mapsto> v)"
  using cur_ok [OF assms(1), of key] assms(2) unfolding put_cur_def
  by (subst flat_set_cur [OF assms(1)]) (auto simp: slook_def keeps_data_def shard_ok_def)

lemma keep_cur_inv: "sh_inv s \<Longrightarrow> keeps_data f \<Longrightarrow> sh_inv (set_cur s key (f (cur s key)))"
  using cur_ok [of s key] by (intro set_cur_inv) (auto simp: shard_ok_def keeps_data_def)

lemma flat_keep_cur:
  assumes "sh_inv s" "keeps_data f"
  shows "flat (set_cur s key (f (cur s key))) = flat s"
proof -
  have "slook (f (cur s key)) = slook (cur s key)"
    using assms(2) by (auto simp: slook_def keeps_data_def fun_eq_iff)
  then show ?thesis
    using assms by (subst flat_set_cur) (auto simp: slook_cur)
qed

lemma sdel_cur_inv: "sh_inv s \<Longrightarrow> sh_inv (set_cur s key (sdel key (cur s key)))"
  using cur_ok [of s key]
  by (intro set_cur_inv) (auto simp: shard_ok_def sdel_def dest!: in_set_gdel)

lemma flat_sdel_cur: "sh_inv s \<Longrightarrow> flat (set_cur s key (sdel key (cur s key))) = (flat s)(key := None)"
  using cur_ok [of s key] by (subst flat_set_cur) (auto simp: slook_def sdel_def shard_ok_def)

lemma sput_cur:
  "sh_inv s \<Longrightarrow> map_prod (set_cur s key) id (sput f key v r (cur s key)) = (put_cur f key v s, r)"
  using cur_ok [of s key] by (auto simp: sput_def put_cur_def shard_ok_def)

lemmas keep_same [simp] = keep_cur_inv [where f = "\<lambda>x. x"] flat_keep_cur [where f = "\<lambda>x. x"]

lemmas shard_simps = with_shard_eq slook_cur sput_cur put_cur_inv flat_put_cur keep_cur_inv
  flat_keep_cur sdel_cur_inv flat_sdel_cur

lemma flat_mem_inv: "sh_inv s \<Longrightarrow> mem_inv (flat s)"
  unfolding mem_inv_def
proof (intro allI impI)
  fix k v
  assume s: "sh_inv s" and e: "flat s k = Some v"
  obtain m where m: "sdata (cur s k) = Some m" "\<forall>(k, v) \<in> set m. val_ok v"
    using cur_ok [OF s, of k] by (auto simp: shard_ok_def)
  have "gget m k = Some v" using e m(1) slook_cur [OF s, of k] by (simp add: slook_def)
  then show "val_ok v" using m(2) map_of_SomeD by fastforce
qed

lemmas flat_at = mem_inv_at [OF flat_mem_inv]

section \<open>Each operation acts on the flat view as the plain store does\<close>

lemma flat_Set: "sh_inv s \<Longrightarrow> sh_Set now k v ttl s = (s', r) \<Longrightarrow>
    sh_inv s' \<and> mem_Set now k v ttl (flat s) = (flat s', r)"
  by (auto simp: sh_Set_def mem_Set_def shard_simps)

lemma flat_Get: "sh_inv s \<Longrightarrow> sh_Get now k s = (s', t) \<Longrightarrow>
    sh_inv s' \<and> mem_Get now k (flat s) = (flat s', t)"
  by (auto simp: sh_Get_def mem_Get_def shard_simps split: option.splits store_val.splits if_splits)

lemma flat_Delete: "sh_inv s \<Longrightarrow> sh_Delete k s = (s', r) \<Longrightarrow>
    sh_inv s' \<and> mem_Delete k (flat s) = (flat s', r)"
  by (auto simp: sh_Delete_def mem_Delete_def shard_simps)

lemma flat_SetNX: "sh_inv s \<Longrightarrow> sh_SetNX now k v ttl s = (s', b) \<Longrightarrow>
    sh_inv s' \<and> mem_SetNX now k v ttl (flat s) = (flat s', b)"
  by (auto simp: sh_SetNX_def mem_SetNX_def Let_def shard_simps
      split: option.splits store_val.splits if_splits)

lemma flat_HSet: "sh_inv s \<Longrightarrow> sh_HSet k vs s = (s', r) \<Longrightarrow>
    sh_inv s' \<and> mem_HSet k vs (flat s) = (flat s', r)"
  using flat_at [of s k]
  by (auto simp: sh_HSet_def mem_HSet_def shard_simps split: option.splits store_val.splits)

lemma flat_HGetAll: "sh_inv s \<Longrightarrow> sh_HGetAll k s = (s', hm) \<Longrightarrow>
    sh_inv s' \<and> mem_HGetAll k (flat s) = (flat s', hm)"
  by (auto simp: sh_HGetAll_def mem_HGetAll_def shard_simps split: option.splits store_val.splits)

lemma flat_LPush: "sh_inv s \<Longrightarrow> sh_LPush k xs s = (s', r) \<Longrightarrow>
    sh_inv s' \<and> mem_LPush k xs (flat s) = (flat s', r)"
  by (auto simp: sh_LPush_def mem_LPush_def shard_simps split: option.splits store_val.splits)

lemma flat_LRem: "sh_inv s \<Longrightarrow> sh_LRem k c v s = (s', r) \<Longrightarrow>
    sh_inv s' \<and> mem_LRem k c v (flat s) = (flat s', r)"
  by (auto simp: sh_LRem_def mem_LRem_def shard_simps
      split: option.splits store_val.splits if_splits)

lemma flat_Rotate: "sh_inv s \<Longrightarrow> sh_Rotate k s = (s', t) \<Longrightarrow>
    sh_inv s' \<and> mem_Rotate k (flat s) = (flat s', t)"
  by (auto simp: sh_Rotate_def mem_Rotate_def shard_simps
      split: option.splits store_val.splits if_splits)

lemma flat_SAdd: "sh_inv s \<Longrightarrow> sh_SAdd k xs s = (s', r) \<Longrightarrow>
    sh_inv s' \<and> mem_SAdd k xs (flat s) = (flat s', r)"
  using flat_at [of s k]
  by (auto simp: sh_SAdd_def mem_SAdd_def shard_simps split: option.splits store_val.splits)

lemma flat_SRem: "sh_inv s \<Longrightarrow> sh_SRem k xs s = (s', r) \<Longrightarrow>
    sh_inv s' \<and> mem_SRem k xs (flat s) = (flat s', r)"
  using flat_at [of s k]
  by (auto simp: sh_SRem_def mem_SRem_def shard_simps split: option.splits store_val.splits)

lemma flat_SMembers: "sh_inv s \<Longrightarrow> sh_SMembers so k s = (s', ms) \<Longrightarrow>
    sh_inv s' \<and> mem_SMembers so k (flat s) = (flat s', ms)"
  by (auto simp: sh_SMembers_def mem_SMembers_def shard_simps
      split: option.splits store_val.splits)

lemma flat_ZAdd: "sh_inv s \<Longrightarrow> sh_ZAdd k zs s = (s', r) \<Longrightarrow>
    sh_inv s' \<and> mem_ZAdd k zs (flat s) = (flat s', r)"
  using flat_at [of s k]
  by (auto simp: sh_ZAdd_def mem_ZAdd_def Let_def shard_simps split: option.splits store_val.splits)

lemma flat_ZRem: "sh_inv s \<Longrightarrow> sh_ZRem k xs s = (s', r) \<Longrightarrow>
    sh_inv s' \<and> mem_ZRem k xs (flat s) = (flat s', r)"
  using flat_at [of s k]
  by (auto simp: sh_ZRem_def mem_ZRem_def shard_simps split: option.splits store_val.splits)

lemma flat_ZCard: "sh_inv s \<Longrightarrow> sh_ZCard k s = (s', n) \<Longrightarrow>
    sh_inv s' \<and> mem_ZCard k (flat s) = (flat s', n)"
  by (auto simp: sh_ZCard_def mem_ZCard_def shard_simps split: option.splits store_val.splits)

section \<open>The exchange sort\<close>

text \<open>A functional reading of the two loops: one pass carries the least element seen so far to
  the front of the rest.\<close>

fun exch_pass :: "'a \<times> int \<Rightarrow> ('a \<times> int) list \<Rightarrow> ('a \<times> int) \<times> ('a \<times> int) list" where
  "exch_pass x [] = (x, [])"
| "exch_pass x (y # ys) =
    (if snd x > snd y then (case exch_pass y ys of (m, r) \<Rightarrow> (m, x # r))
     else (case exch_pass x ys of (m, r) \<Rightarrow> (m, y # r)))"

lemma exch_pass_props:
  "exch_pass x xs = (m, r) \<Longrightarrow>
   add_mset m (mset r) = add_mset x (mset xs) \<and> length r = length xs \<and>
   (\<forall>y \<in> insert x (set xs). snd m \<le> snd y)"
  by (induction x xs arbitrary: m r rule: exch_pass.induct)
    (fastforce split: if_splits prod.splits)+

function exch_sort :: "('a \<times> int) list \<Rightarrow> ('a \<times> int) list" where
  "exch_sort [] = []"
| "exch_sort (x # xs) = (case exch_pass x xs of (m, r) \<Rightarrow> m # exch_sort r)"
  by pat_completeness auto
termination
  by (relation "measure length") (auto dest: exch_pass_props [OF sym])

lemma exch_sort_correct: "mset (exch_sort xs) = mset xs \<and> sorted (map snd (exch_sort xs))"
proof (induction xs rule: exch_sort.induct)
  case 1
  then show ?case by simp
next
  case (2 x xs)
  obtain m r where p: "exch_pass x xs = (m, r)" by fastforce
  have ih: "mset (exch_sort r) = mset r" "sorted (map snd (exch_sort r))"
    using 2 [OF p [symmetric]] by auto
  note props = exch_pass_props [OF p]
  have "snd m \<le> snd y" if "y \<in> set (exch_sort r)" for y
  proof -
    have "insert m (set r) = set_mset (add_mset m (mset r))" by simp
    also have "\<dots> = insert x (set xs)" by (simp only: conjunct1 [OF props]) simp
    finally show ?thesis using that mset_eq_setD [OF ih(1)] props by auto
  qed
  then show ?case using ih props p by auto
qed

lemma exch_inner_pass:
  "exch_inner (length pre) (Suc (length pre + length mid)) (pre @ x # mid @ rest) =
   (case exch_pass x rest of (m, r) \<Rightarrow> pre @ m # mid @ r)"
proof (induction rest arbitrary: x mid)
  case Nil
  then show ?case by (subst exch_inner.simps) simp
next
  case (Cons y ys)
  let ?j = "Suc (length pre + length mid)"
  let ?xs = "pre @ x # mid @ y # ys"
  have at: "?xs ! length pre = x" "?xs ! ?j = y" "?j < length ?xs"
    by (simp_all add: nth_append)
  have swap: "?xs[length pre := y, ?j := x] = pre @ y # (mid @ [x]) @ ys"
    by (simp add: list_update_append)
  show ?case
    using Cons.IH [of "mid @ [x]" y] Cons.IH [of "mid @ [y]" x] at swap
    by (subst exch_inner.simps) (simp split: prod.splits)
qed

lemma exch_outer_sort: "exch_outer (length pre) (pre @ xs) = pre @ exch_sort xs"
proof (induction xs arbitrary: pre rule: exch_sort.induct)
  case 1
  then show ?case by (subst exch_outer.simps) simp
next
  case (2 x xs)
  obtain m r where p: "exch_pass x xs = (m, r)" by fastforce
  show ?case
  proof (cases xs)
    case Nil
    then show ?thesis by (subst exch_outer.simps) simp
  next
    case (Cons y ys)
    have "exch_inner (length pre) (Suc (length pre)) (pre @ x # xs) = (pre @ [m]) @ r"
      using exch_inner_pass [of pre "[]" x xs] p by simp
    then show ?thesis
      using 2 [OF p [symmetric], of "pre @ [m]"] p Cons
      by (subst exch_outer.simps) simp
  qed
qed

lemma exch_outer_correct:
  "mset (exch_outer 0 xs) = mset xs \<and> sorted (map snd (exch_outer 0 xs))"
  using exch_outer_sort [of "[]" xs] exch_sort_correct [of xs] by simp

lemma sh_ensureSorted_ok:
  "iter_order ord \<Longrightarrow> zset_ok z \<Longrightarrow> zset_ok (sh_ensureSorted ord z) \<and>
   \<not> dirty (sh_ensureSorted ord z) \<and> members (sh_ensureSorted ord z) = members z"
  using exch_outer_correct [of "ord (members z)"]
  by (simp add: zset_ok_def sh_ensureSorted_def iter_order_def)

section \<open>Refinement of the specification\<close>

lemma sh_sim_ZRange:
  assumes "sh_inv s" "iter_order zo" "sh_ZRangeByScore zo k lo hi s = (s', ms)"
  shows "sh_inv s' \<and> sh_abs s' = sh_abs s \<and> spec_ZRangeByScore k lo hi (sh_abs s) ms"
proof (cases "\<exists>z. flat s k = Some (ZSetV z)")
  case True
  then obtain z where z: "flat s k = Some (ZSetV z)" by blast
  let ?z = "sh_ensureSorted zo z"
  have ok: "zset_ok ?z" "\<not> dirty ?z" "members ?z = members z"
    using sh_ensureSorted_ok [OF assms(2)] flat_at(3) [OF assms(1) z] by simp_all
  have e: "s' = put_cur (rcount (sconfig s)) k (ZSetV ?z) s"
    "ms = Inr (map fst (filter (in_range lo hi) (sorted_m ?z)))"
    using assms(1,3) z by (auto simp: sh_ZRangeByScore_def shard_simps Let_def)
  have "mem_abs (flat s') = mem_abs (flat s)"
    using assms(1) e(1) z ok(3) by (auto simp: flat_put_cur mem_abs_def)
  then show ?thesis
    using assms(1) ok e z range_of_sorted [OF ok(1,2), of lo hi]
    by (simp add: sh_abs_def put_cur_inv spec_ZRangeByScore_def)
next
  case False
  then show ?thesis
    using assms by (auto simp: sh_ZRangeByScore_def spec_ZRangeByScore_def sh_abs_def shard_simps
        split: option.splits store_val.splits)
qed

interpretation sharded: store_impl sh_abs sh_inv sh_Delete sh_HSet sh_HGetAll sh_LPush sh_LRem
  sh_Rotate sh_SAdd sh_SRem sh_SMembers sh_ZAdd sh_ZRem sh_ZRangeByScore sh_ZCard
proof
  fix s s' :: sstore and k c v vs xs zs and r :: "unit sres" and hm ms n so zo lo hi
    and t :: "string sres"
  assume inv: "sh_inv s"
  note m = flat_mem_inv [OF inv]
  show "sh_Delete k s = (s', r) \<Longrightarrow> sh_inv s' \<and> r = Inr () \<and> sh_abs s' = spec_Delete k (sh_abs s)"
    using flat_Delete [OF inv] mem.sim_Delete [OF m] by (metis sh_abs_def)
  show "sh_HSet k vs s = (s', r) \<Longrightarrow> sh_inv s' \<and> spec_HSet k vs (sh_abs s) = (sh_abs s', r)"
    using flat_HSet [OF inv] mem_sim_HSet [OF m] by (metis sh_abs_def)
  show "sh_HGetAll k s = (s', hm) \<Longrightarrow> sh_inv s' \<and> sh_abs s' = sh_abs s \<and>
      map_sum id map_of hm = spec_HGetAll k (sh_abs s)"
    using flat_HGetAll [OF inv] mem_sim_HGetAll [OF m] by (metis sh_abs_def)
  show "sh_LPush k xs s = (s', r) \<Longrightarrow> sh_inv s' \<and> spec_LPush k xs (sh_abs s) = (sh_abs s', r)"
    using flat_LPush [OF inv] mem_sim_LPush [OF m] by (metis sh_abs_def)
  show "sh_LRem k c v s = (s', r) \<Longrightarrow> sh_inv s' \<and> spec_LRem k c v (sh_abs s) = (sh_abs s', r)"
    using flat_LRem [OF inv] mem_sim_LRem [OF m] by (metis sh_abs_def)
  show "sh_Rotate k s = (s', t) \<Longrightarrow> sh_inv s' \<and> spec_Rotate k (sh_abs s) = (sh_abs s', t)"
    using flat_Rotate [OF inv] mem_sim_Rotate [OF m] by (metis sh_abs_def)
  show "sh_SAdd k xs s = (s', r) \<Longrightarrow> sh_inv s' \<and> spec_SAdd k xs (sh_abs s) = (sh_abs s', r)"
    using flat_SAdd [OF inv] mem_sim_SAdd [OF m] by (metis sh_abs_def)
  show "sh_SRem k xs s = (s', r) \<Longrightarrow> sh_inv s' \<and> spec_SRem k xs (sh_abs s) = (sh_abs s', r)"
    using flat_SRem [OF inv] mem_sim_SRem [OF m] by (metis sh_abs_def)
  show "iter_order so \<Longrightarrow> sh_SMembers so k s = (s', ms) \<Longrightarrow> sh_inv s' \<and> sh_abs s' = sh_abs s \<and>
      map_sum id set ms = spec_SMembers k (sh_abs s)"
    using flat_SMembers [OF inv] mem_sim_SMembers [OF m] by (metis sh_abs_def)
  show "sh_ZAdd k zs s = (s', r) \<Longrightarrow> sh_inv s' \<and> spec_ZAdd k zs (sh_abs s) = (sh_abs s', r)"
    using flat_ZAdd [OF inv] mem_sim_ZAdd [OF m] by (metis sh_abs_def)
  show "sh_ZRem k xs s = (s', r) \<Longrightarrow> sh_inv s' \<and> spec_ZRem k xs (sh_abs s) = (sh_abs s', r)"
    using flat_ZRem [OF inv] mem_sim_ZRem [OF m] by (metis sh_abs_def)
  show "iter_order zo \<Longrightarrow> sh_ZRangeByScore zo k lo hi s = (s', ms) \<Longrightarrow>
      sh_inv s' \<and> sh_abs s' = sh_abs s \<and> spec_ZRangeByScore k lo hi (sh_abs s) ms"
    using sh_sim_ZRange [OF inv] by blast
  show "sh_ZCard k s = (s', n) \<Longrightarrow> sh_inv s' \<and> sh_abs s' = sh_abs s \<and> n = spec_ZCard k (sh_abs s)"
    using flat_ZCard [OF inv] mem_sim_ZCard [OF m] by (metis sh_abs_def)
qed

section \<open>The sharded store as a machine\<close>

fun sh_step :: "string iter \<Rightarrow> (string \<times> int) iter \<Rightarrow> sop \<Rightarrow> sstore \<Rightarrow> sstore \<times> sout" where
  "sh_step so zo (DoDelete k) s = map_prod id OUnit (sh_Delete k s)"
| "sh_step so zo (DoHSet k vs) s = map_prod id OUnit (sh_HSet k vs s)"
| "sh_step so zo (DoHGetAll k) s = map_prod id (OHash \<circ> map_sum id map_of) (sh_HGetAll k s)"
| "sh_step so zo (DoLPush k vs) s = map_prod id OUnit (sh_LPush k vs s)"
| "sh_step so zo (DoLRem k c v) s = map_prod id OUnit (sh_LRem k c v s)"
| "sh_step so zo (DoRotate k) s = map_prod id OStr (sh_Rotate k s)"
| "sh_step so zo (DoSAdd k ms) s = map_prod id OUnit (sh_SAdd k ms s)"
| "sh_step so zo (DoSRem k ms) s = map_prod id OUnit (sh_SRem k ms s)"
| "sh_step so zo (DoSMembers k) s =
    map_prod id (OMembers \<circ> map_sum id set) (sh_SMembers so k s)"
| "sh_step so zo (DoZAdd k ms) s = map_prod id OUnit (sh_ZAdd k ms s)"
| "sh_step so zo (DoZRem k ms) s = map_prod id OUnit (sh_ZRem k ms s)"
| "sh_step so zo (DoZRange k lo hi) s =
    map_prod id (OMembers \<circ> map_sum id set) (sh_ZRangeByScore zo k lo hi s)"
| "sh_step so zo (DoZCard k) s = map_prod id OInt (sh_ZCard k s)"

lemma sh_step_eq: "sharded.impl_step = sh_step"
proof (intro ext)
  show "sharded.impl_step so zo c s = sh_step so zo c s" for so zo c s
    by (cases c) simp_all
qed

lemma sh_run_sim:
  assumes "iter_order so" "iter_order zo" "sh_inv s"
  shows "sh_inv (fst (run_ops (sh_step so zo) cs s)) \<and>
    run_ops spec_step cs (sh_abs s) =
      (sh_abs (fst (run_ops (sh_step so zo) cs s)), snd (run_ops (sh_step so zo) cs s))"
  using sharded.impl_run_sim [OF assms] unfolding sh_step_eq .

lemma fresh_inv:
  assumes "0 < n"
  shows "sh_inv \<lparr>shards = replicate (nat n) (new_shard now),
    shardMask = word_of_int (n - 1), sconfig = c\<rparr>"
  using assms by (simp add: sh_inv_def mask_ok_def shard_ok_def new_shard_def)

lemma NewSharded_ok:
  assumes "NewShardedMemoryStore now c = Inr s"
  shows "sh_inv s \<and> sh_abs s = Map.empty"
proof -
  obtain n cc where n: "0 < n" and s: "s = \<lparr>shards = replicate (nat n) (new_shard now),
      shardMask = word_of_int (n - 1), sconfig = cc\<rparr>"
    using assms unfolding NewShardedMemoryStore_def Let_def
    by (metis (no_types, lifting) Inl_Inr_False Inr_inject linorder_not_le)
  have i: "sh_inv s" unfolding s by (rule fresh_inv [OF n])
  have "slook sh k = None" if "sh \<in> set (shards s)" for sh k
    using that s by (auto simp: slook_def new_shard_def)
  then have "flat s = Map.empty"
    using shard_index_lt [OF i] by (auto simp: flat_def Let_def)
  then show ?thesis using i by (simp add: sh_abs_def mem_abs_def)
qed



text \<open>The hand-written exchange sort behind the sorted-set queries of the sharded store
  returns a permutation of its input ordered by non-decreasing score.\<close>

lemma sharded_exchange_sort:
  "mset (exch_outer 0 xs) = mset xs \<and> sorted (map snd (exch_outer 0 xs))"
  by (rule exch_outer_correct)

lemma slice_nth:
  "0 \<le> a \<Longrightarrow> b < int (length xs) \<Longrightarrow>
   slice_of xs a b = map ((!) xs) [nat a..<nat (b + 1)]"
  by (rule nth_equalityI) (auto simp: slice_of_def simp del: upt_Suc)

lemma filter_window:
  "filter (\<lambda>i. a \<le> int i \<and> int i \<le> b) [0..<n] = [nat a..<min n (nat (b + 1))]"
  by (induction n) (auto simp: min_def intro!: arg_cong [where f = "upt _"])

definition window :: "int \<Rightarrow> int \<Rightarrow> 'a list \<Rightarrow> 'a list" where
  "window start stop l =
    (let n = int (length l);
         a = (if start < 0 then n + start else start); b = (if stop < 0 then n + stop else stop) in
     map ((!) l) (filter (\<lambda>i. a \<le> int i \<and> int i \<le> b) [0..<length l]))"

lemma window_clip:
  assumes "clip_range (int (length l)) start stop = (a, b)"
  shows "window start stop l = (if l = [] \<or> a > b then [] else slice_of l a b)"
proof (cases "l = [] \<or> a > b")
  case True
  then show ?thesis
    using assms by (auto simp: window_def filter_window clip_range_def Let_def split: if_splits)
next
  case False
  let ?a = "if start < 0 then int (length l) + start else start"
  let ?b = "if stop < 0 then int (length l) + stop else stop"
  have "0 \<le> a" "b < int (length l)" "nat a = nat ?a" "nat (b + 1) = min (length l) (nat (?b + 1))"
    using False assms by (auto simp: clip_range_def Let_def split: if_splits)
  then show ?thesis
    using False slice_nth [of a b l] by (simp add: window_def filter_window Let_def)
qed

text \<open>LRange is total and within bounds: on a list it never fails, it changes nothing but the
  read counter, and it returns exactly the elements whose index lies in the requested window,
  negative indexes counting from the end.\<close>

lemma sharded_lrange_window:
  assumes "sh_inv s" "flat s key = Some (ListV l)"
  shows "snd (sh_LRange key start stop s) = Inr (window start stop l) \<and>
    flat (fst (sh_LRange key start stop s)) = flat s"
proof -
  obtain a b where c: "clip_range (int (length l)) start stop = (a, b)" by fastforce
  show ?thesis
    using assms c window_clip [OF c]
    by (auto simp: sh_LRange_def shard_simps)
qed

lemma sharded_lrange_window_demo:
  "\<exists>s. snd (sh_LRange ''q'' (-2) 5 s) = Inr (window (-2) 5 [''a'', ''b'', ''c''])"
proof -
  let ?c = "\<lparr>ShardCount = 1, LockTimeout = 1, GCInterval = 1, MaxMemoryUsage = 1,
    EnableMetrics = True, CacheSize = 1\<rparr>"
  let ?s0 = "\<lparr>shards = replicate (nat 1) (new_shard 0), shardMask = word_of_int (1 - 1), sconfig = ?c\<rparr>"
  have i: "sh_inv ?s0" by (rule fresh_inv) simp
  obtain s r where s: "sh_LPush ''q'' [AStr ''a'', AStr ''b'', AStr ''c''] ?s0 = (s, r)" by fastforce
  have "flat ?s0 = Map.empty"
    by (auto simp: flat_def fun_eq_iff new_shard_def slook_def Let_def)
  then have "sh_inv s" "flat s ''q'' = Some (ListV [''a'', ''b'', ''c''])"
    using flat_LPush [OF i s] by (auto simp: mem_LPush_def dest!: sym [where t = "flat s"])
  from sharded_lrange_window [OF this] show ?thesis by blast
qed

lemma p64_loop_digits:
  "\<lbrakk>snd (parse_digits n cs) = None; fst (parse_digits n cs) \<le> 9223372036854775808\<rbrakk> \<Longrightarrow>
   p64_loop (i64 (int n)) cs = Some (i64 (int (fst (parse_digits n cs))))"
proof (induction n cs rule: parse_digits.induct)
  case (1 n)
  then show ?case by simp
next
  case (2 n c cs)
  have "i64 (i64 (i64 (int n) * 10) + int (digit_val c)) = i64 (int (n * 10 + digit_val c))"
    using i64_mult_left [of "int n" 10 0] i64_add_left [of "int n * 10" "int (digit_val c)"] by simp
  then show ?case using 2 by (auto split: if_splits)
qed

lemma parseInt64_of_ParseInt:
  assumes "ParseInt s = (v, None)"
  shows "parseInt64 s = Some v"
proof -
  obtain neg ds where sp: "strip_sign s = (neg, ds)" by fastforce
  obtain un err where pu: "ParseUint ds = (un, err)" by fastforce
  have "err = Some RangeError \<Longrightarrow> un = 18446744073709551615"
    using ParseUint_range pu by simp
  then have ne: "s \<noteq> []" and e: "err = None"
    and b: "\<not> neg \<longrightarrow> un < 9223372036854775808" "neg \<longrightarrow> un \<le> 9223372036854775808"
    and v: "v = (if neg then - int un else int un)"
    using assms sp pu by (cases err; cases "the err"; auto simp: ParseInt_def split: if_splits)+
  have pd: "parse_digits 0 ds = (un, None)"
    using pu e by (auto simp: ParseUint_def split: if_splits)
  have "p64_loop 0 ds = Some (i64 (int un))"
    using p64_loop_digits [of 0 ds] pd b by (cases neg) (simp_all add: i64_def)
  moreover have "i64 (i64 (int un) * (if neg then - 1 else 1)) = v"
  proof (cases neg)
    case True
    then show ?thesis
      using i64_mult_left [of "int un" "-1" 0] v b by (simp add: in_i64_def)
  next
    case False
    then show ?thesis using v b by (simp add: in_i64_def)
  qed
  ultimately show ?thesis using ne sp by (simp add: parseInt64_def)
qed

text \<open>The hand-written integer parser agrees with strconv.ParseInt wherever the latter
  succeeds on text that has a digit, so a counter field written by the store, or any decimal
  int64, reads back as itself.\<close>

lemma parseInt64_agrees:
  assumes "ParseInt s = (v, None)"
  shows "parseInt64 s = Some v \<and> (in_i64 i \<longrightarrow> parseInt64 (show_int i) = Some i)"
  using parseInt64_of_ParseInt [OF assms] parseInt64_of_ParseInt [OF ParseInt_show] by simp

lemma parseInt64_agrees_demo:
  "parseInt64 ''-42'' = Some (-42)"
proof -
  have "ParseInt ''-42'' = (-42, None)"
    by (simp add: ParseInt_def strip_sign_def ParseUint_def is_digit_def digit_val_def)
  from parseInt64_agrees [OF this] show ?thesis by blast
qed

text \<open>A lone sign, which ParseInt rejects, counts as 0, and a value out of range wraps.\<close>

lemma parseInt64_quirks:
  "parseInt64 ''-'' = Some 0" "fst (ParseInt ''-'') = 0" "snd (ParseInt ''-'') = Some SyntaxError"
  "parseInt64 ''9223372036854775808'' = Some (-9223372036854775808)"
  by (simp_all add: parseInt64_def ParseInt_def strip_sign_def ParseUint_def is_digit_def
      digit_val_def i64_def)

fun totals :: "int \<Rightarrow> int list \<Rightarrow> int list" where
  "totals c [] = []"
| "totals c (d # ds) = i64 (c + d) # totals (i64 (c + d)) ds"

definition counter :: "string \<Rightarrow> string \<Rightarrow> mstore \<Rightarrow> int \<Rightarrow> bool" where
  "counter key field s c \<longleftrightarrow>
     (case s key of
        None \<Rightarrow> c = 0
      | Some (HashV h) \<Rightarrow> (case gget h field of None \<Rightarrow> c = 0 | Some t \<Rightarrow> t = show_int c)
      | Some _ \<Rightarrow> False)"

lemma ParseInt_empty [simp]: "ParseInt [] = (0, Some SyntaxError)"
  by (simp add: ParseInt_def)

lemma mem_HIncrBy_counter:
  assumes "in_i64 c" "counter key field s c" "mem_HIncrBy key field d s = (s', r)"
  shows "r = Inr (i64 (c + d)) \<and> counter key field s' (i64 (c + d))"
  using assms
  by (auto simp: mem_HIncrBy_def counter_def field_text_def Let_def
      split: option.splits store_val.splits)

lemma flat_HIncrBy:
  assumes "sh_inv s" "in_i64 c" "counter key field (flat s) c"
    and "sh_HIncrBy key field d s = (s', r)"
  shows "sh_inv s' \<and> mem_HIncrBy key field d (flat s) = (flat s', r)"
proof -
  have p: "parseInt64 (show_int c) = Some c"
    using parseInt64_of_ParseInt [OF ParseInt_show] assms(2) by simp
  show ?thesis
    using assms p flat_at [of s key]
    by (auto simp: sh_HIncrBy_def mem_HIncrBy_def field_text_def counter_def Let_def shard_simps
        split: option.splits store_val.splits)
qed

lemma sh_HIncrBy_counter:
  assumes "sh_inv s" "in_i64 c" "counter key field (flat s) c"
  shows "\<exists>s'. sh_HIncrBy key field d s = (s', Inr (i64 (c + d))) \<and> sh_inv s' \<and>
    counter key field (flat s') (i64 (c + d))"
proof -
  obtain s' r where e: "sh_HIncrBy key field d s = (s', r)" by fastforce
  show ?thesis
    using flat_HIncrBy [OF assms e] mem_HIncrBy_counter [OF assms(2,3)] e by metis
qed

lemma mem_totals:
  "in_i64 c \<Longrightarrow> counter key field s c \<Longrightarrow>
   snd (run_ops (mem_HIncrBy key field) ds s) = map Inr (totals c ds)"
proof (induction ds arbitrary: c s)
  case (Cons d ds)
  obtain s' where "mem_HIncrBy key field d s = (s', Inr (i64 (c + d)))"
    "counter key field s' (i64 (c + d))"
    using mem_HIncrBy_counter [OF Cons.prems] by (metis prod.collapse)
  then show ?case using Cons.IH [of "i64 (c + d)" s'] by (auto split: prod.splits)
qed simp

lemma sh_totals:
  "sh_inv s \<Longrightarrow> in_i64 c \<Longrightarrow> counter key field (flat s) c \<Longrightarrow>
   snd (run_ops (sh_HIncrBy key field) ds s) = map Inr (totals c ds)"
proof (induction ds arbitrary: c s)
  case (Cons d ds)
  from sh_HIncrBy_counter [OF Cons.prems, of d]
  obtain s' where "sh_HIncrBy key field d s = (s', Inr (i64 (c + d)))" "sh_inv s'"
    "counter key field (flat s') (i64 (c + d))" by blast
  then show ?case using Cons.IH [of s' "i64 (c + d)"] by (auto split: prod.splits)
qed simp

text \<open>A counter that starts missing or holds a decimal int64 counts exactly: after any list
  of HIncrBy calls the sharded store and the plain store return the same running totals, each
  the wrapped int64 sum so far.\<close>

lemma counters_agree:
  assumes "sh_inv s" "in_i64 c" "counter key field (flat s) c" "counter key field m c"
  shows "snd (run_ops (sh_HIncrBy key field) ds s) = map Inr (totals c ds) \<and>
    snd (run_ops (mem_HIncrBy key field) ds m) = map Inr (totals c ds)"
  using sh_totals [OF assms(1-3)] mem_totals [OF assms(2,4)] by simp

lemma counters_agree_demo:
  "\<exists>s. snd (run_ops (sh_HIncrBy ''key:1'' ''n'') [2, 3] s) = [Inr 2, Inr 5] \<and>
     snd (run_ops (mem_HIncrBy ''key:1'' ''n'') [2, 3] NewMemoryStore) = [Inr 2, Inr 5]"
proof -
  let ?s = "\<lparr>shards = replicate (nat 4) (new_shard 0), shardMask = word_of_int (4 - 1),
    sconfig = DefaultShardedStoreConfig\<rparr>"
  have i: "sh_inv ?s" by (rule fresh_inv) simp
  have e: "flat ?s k = None" for k
    by (auto simp: flat_def new_shard_def slook_def Let_def)
  have "counter ''key:1'' ''n'' (flat ?s) 0"
    unfolding counter_def e by simp
  moreover have "counter ''key:1'' ''n'' NewMemoryStore 0"
    by (simp add: counter_def NewMemoryStore_def)
  ultimately have "snd (run_ops (sh_HIncrBy ''key:1'' ''n'') [2, 3] ?s) = map Inr (totals 0 [2, 3]) \<and>
     snd (run_ops (mem_HIncrBy ''key:1'' ''n'') [2, 3] NewMemoryStore) = map Inr (totals 0 [2, 3])"
    by (intro counters_agree [OF i]) (simp_all add: in_i64_def)
  moreover have "map Inr (totals 0 [2, 3]) = [Inr 2, Inr 5]" by (simp add: i64_def)
  ultimately show ?thesis by metis
qed

end
