(* ===== verification/ShardedAdmin.thy ===== *)
theory ShardedAdmin
  imports ShardedStore
begin

text \<open>Configuration, resharding, garbage collection and metrics of the sharded store
  (src/internal/keypool/sharded_memory.go).\<close>

section \<open>Configuration\<close>

definition validateConfig :: "ShardedStoreConfig \<Rightarrow> string option" where
  "validateConfig c =
    (if ShardCount c \<le> 0 \<or> ShardCount c > 1024 then Some ''invalid shard count''
     else if CacheSize c \<le> 0 then Some ''invalid cache size''
     else if MaxMemoryUsage c \<le> 0 then Some ''invalid max memory usage''
     else if \<not> pow2_test (ShardCount c) then Some ''shard count must be a power of 2''
     else None)"

section \<open>Resharding\<close>

text \<open>All entries of all shards are collected into one map, then distributed over fresh shards
  by the new mask; \<^verbatim>\<open>ord\<close> orders the iterations over the maps.\<close>

type_synonym entry = "string \<times> store_val"

definition shard_entries :: "entry iter \<Rightarrow> memoryShard \<Rightarrow> entry list" where
  "shard_entries ord sh = (case sdata sh of None \<Rightarrow> [] | Some m \<Rightarrow> ord m)"

definition collect_all :: "entry iter \<Rightarrow> memoryShard list \<Rightarrow> (string, store_val) gomap" where
  "collect_all ord shs =
    fold (\<lambda>sh acc. fold (\<lambda>(k, v) acc. gput k v acc) (shard_entries ord sh) acc) shs []"

definition place :: "32 word \<Rightarrow> entry \<Rightarrow> memoryShard list \<Rightarrow> memoryShard list" where
  "place msk e shs =
    (let i = shard_index msk (fst e) in
     shs[i := (shs ! i)\<lparr>sdata := map_option (gput (fst e) (snd e)) (sdata (shs ! i))\<rparr>])"

definition reshardData :: "entry iter \<Rightarrow> int \<Rightarrow> int \<Rightarrow> sstore \<Rightarrow> sstore" where
  "reshardData ord now n s =
    (let allData = collect_all ord (shards s);
         fresh = replicate (nat n) (new_shard now);
         newMask = word_of_int (n - 1)
     in s\<lparr>shards := fold (place newMask) (ord allData) fresh\<rparr>)"

definition Reconfigure ::
  "entry iter \<Rightarrow> int \<Rightarrow> ShardedStoreConfig option \<Rightarrow> sstore \<Rightarrow> sstore \<times> string option" where
  "Reconfigure ord now newConfig s =
    (case newConfig of
       None \<Rightarrow> (s, Some ''config cannot be nil'')
     | Some c \<Rightarrow>
         (case validateConfig c of
            Some e \<Rightarrow> (s, Some e)
          | None \<Rightarrow>
              (let s1 = (if ShardCount c \<noteq> int (length (shards s))
                         then reshardData ord now (ShardCount c) s else s)
               in (s1\<lparr>sconfig := c, shardMask := word_of_int (ShardCount c - 1)\<rparr>, None))))"

section \<open>Garbage collection and metrics\<close>

definition dead_at :: "int \<Rightarrow> store_val \<Rightarrow> bool" where
  "dead_at now v = (case v of ItemV it \<Rightarrow> expired now it | _ \<Rightarrow> False)"

definition gc_shard :: "int \<Rightarrow> memoryShard \<Rightarrow> memoryShard" where
  "gc_shard now sh =
    sh\<lparr>sdata := map_option (filter (\<lambda>e. \<not> dead_at now (snd e))) (sdata sh), lastGC := now\<rparr>"

definition performGC :: "int \<Rightarrow> sstore \<Rightarrow> sstore" where
  "performGC now s =
    s\<lparr>shards := map (\<lambda>sh. if now - lastGC sh < GCInterval (sconfig s) then sh else gc_shard now sh)
                  (shards s)\<rparr>"

record sharded_metrics =
  total_reads :: int
  total_writes :: int
  total_memory :: int
  shard_count :: int
  avg_reads :: int
  avg_writes :: int

definition GetMetrics :: "sstore \<Rightarrow> sharded_metrics option" where
  "GetMetrics s =
    (if \<not> EnableMetrics (sconfig s) then None
     else let r = foldl (\<lambda>a sh. i64 (a + readCount sh)) 0 (shards s);
              w = foldl (\<lambda>a sh. i64 (a + writeCount sh)) 0 (shards s);
              m = foldl (\<lambda>a sh. i64 (a + memoryUsage sh)) 0 (shards s);
              n = int (length (shards s))
          in Some \<lparr>total_reads = r, total_writes = w, total_memory = m, shard_count = n,
                   avg_reads = tdiv r n, avg_writes = tdiv w n\<rparr>)"

section \<open>Powers of two\<close>

lemma bit_top:
  assumes "(2::int) ^ t \<le> n" "n < 2 ^ Suc t"
  shows "bit n t"
proof -
  have "n div 2 ^ t = 1"
    using assms by (intro int_div_pos_eq [where r = "n - 2 ^ t"]) auto
  then show ?thesis by (simp add: bit_iff_odd)
qed

lemma pow2_test_iff:
  assumes "0 < n"
  shows "pow2_test n \<longleftrightarrow> (\<exists>k. n = 2 ^ k)"
proof
  assume "\<exists>k. n = 2 ^ k"
  then obtain k where k: "n = 2 ^ k" by blast
  have "n - 1 = mask k" using k by (simp add: mask_eq_exp_minus_1)
  then show "pow2_test n"
    using k by (simp add: pow2_test_def flip: take_bit_eq_mask)
next
  assume p: "pow2_test n"
  obtain t where t: "(2::int) ^ t \<le> n" "n < 2 ^ Suc t"
  proof -
    have "1 \<le> nat n" using assms by simp
    then obtain t where "2 ^ t \<le> nat n" "nat n < 2 ^ (t + 1)"
      using ex_power_ivl1 [of 2 "nat n"] by blast
    then have "int (2 ^ t) \<le> n" "n < int (2 ^ (t + 1))"
      using assms by (simp_all only: le_nat_iff nat_less_iff less_imp_le)
    then show ?thesis by (intro that [of t]) simp_all
  qed
  show "\<exists>k. n = 2 ^ k"
  proof (rule ccontr)
    assume "\<nexists>k. n = 2 ^ k"
    then have "2 ^ t \<le> n - 1" "n - 1 < 2 ^ Suc t" using t by (metis add_le_cancel_right diff_add_cancel less_le zless_imp_add1_zle, linarith)
    then have "bit (n - 1) t" "bit n t" using bit_top t by blast+
    then have "bit (Bit_Operations.and n (n - 1)) t" by (simp add: bit_and_iff)
    then show False using p by (simp add: pow2_test_def)
  qed
qed

section \<open>Resharding keeps the contents\<close>

lemma gget_fold_gput:
  "gomap_ok es \<Longrightarrow> gget (fold (\<lambda>(k, v) acc. gput k v acc) es acc) k =
    (case map_of es k of Some v \<Rightarrow> Some v | None \<Rightarrow> gget acc k)"
proof (induction es arbitrary: acc)
  case (Cons e es)
  obtain k' v where e: "e = (k', v)" by fastforce
  have "map_of es k' = None" "gomap_ok es"
    using Cons.prems e by (auto simp: gomap_ok_def map_of_eq_None_iff)
  then show ?case using Cons.IH e by (auto split: option.split)
qed simp

lemma gomap_ok_fold_gput:
  "gomap_ok acc \<Longrightarrow> gomap_ok (fold (\<lambda>(k, v) acc. gput k v acc) es acc)"
  by (induction es arbitrary: acc) auto

definition all_open :: "memoryShard list \<Rightarrow> bool" where
  "all_open shs \<longleftrightarrow> (\<forall>sh \<in> set shs. \<exists>m. sdata sh = Some m \<and> gomap_ok m)"

lemma collect_fold:
  assumes "iter_order ord"
  shows "all_open shs \<Longrightarrow>
    gget (fold (\<lambda>sh acc. fold (\<lambda>(k, v) acc. gput k v acc) (shard_entries ord sh) acc) shs acc) k =
    fold (\<lambda>sh r. case slook sh k of Some v \<Rightarrow> Some v | None \<Rightarrow> r) shs (gget acc k)"
proof (induction shs arbitrary: acc)
  case (Cons sh shs)
  obtain m where m: "sdata sh = Some m" "gomap_ok m" using Cons.prems by (auto simp: all_open_def)
  have e: "shard_entries ord sh = ord m" "map_of (ord m) = map_of m" "gomap_ok (ord m)"
    using m iter_order_map_of [OF assms] by (auto simp: shard_entries_def)
  show ?case
    using Cons m e by (simp add: gget_fold_gput slook_def all_open_def)
qed simp

lemma gomap_ok_collect: "gomap_ok (collect_all ord shs)"
proof -
  have "gomap_ok acc \<Longrightarrow> gomap_ok
      (fold (\<lambda>sh acc. fold (\<lambda>(k, v) acc. gput k v acc) (shard_entries ord sh) acc) shs acc)" for acc
    by (induction shs arbitrary: acc) (auto intro: gomap_ok_fold_gput)
  then show ?thesis by (simp add: collect_all_def)
qed

lemma fold_only_at:
  assumes "j < length xs" "\<And>i. i < length xs \<Longrightarrow> i \<noteq> j \<Longrightarrow> f (xs ! i) = None"
  shows "fold (\<lambda>x r. case f x of Some v \<Rightarrow> Some v | None \<Rightarrow> r) xs None = f (xs ! j)"
proof -
  let ?F = "\<lambda>x r. case f x of Some v \<Rightarrow> Some v | None \<Rightarrow> r"
  have skip: "(\<forall>x \<in> set ys. f x = None) \<Longrightarrow> fold ?F ys r = r" for ys r
    by (induction ys arbitrary: r) auto
  have "fold ?F (take j xs) None = None"
    using assms by (intro skip) (auto simp: in_set_conv_nth)
  moreover have "fold ?F (drop (Suc j) xs) r = r" for r
    using assms by (intro skip) (auto simp: in_set_conv_nth)
  moreover have "fold ?F xs None = fold ?F (take j xs @ xs ! j # drop (Suc j) xs) None"
    using id_take_nth_drop [OF assms(1)] by (rule arg_cong)
  ultimately show ?thesis by (simp split: option.split)
qed

lemma sh_inv_shard:
  assumes "sh_inv s" "i < length (shards s)"
  obtains m where "sdata (shards s ! i) = Some m" "gomap_ok m"
    "\<And>k v. (k, v) \<in> set m \<Longrightarrow> shard_index (shardMask s) k = i \<and> val_ok v"
  using assms unfolding sh_inv_def shard_ok_def by fastforce

lemma gget_collect:
  assumes "iter_order ord" "sh_inv s"
  shows "gget (collect_all ord (shards s)) k = flat s k"
proof -
  let ?j = "shard_index (shardMask s) k"
  have op: "all_open (shards s)"
    unfolding all_open_def
  proof
    fix sh assume "sh \<in> set (shards s)"
    then obtain i where "i < length (shards s)" "sh = shards s ! i" by (auto simp: in_set_conv_nth)
    then show "\<exists>m. sdata sh = Some m \<and> gomap_ok m" using sh_inv_shard [OF assms(2)] by metis
  qed
  have other: "slook (shards s ! i) k = None" if "i < length (shards s)" "i \<noteq> ?j" for i
  proof -
    note lt = that(1)
    obtain m where "sdata (shards s ! i) = Some m" "gomap_ok m"
      "\<And>k v. (k, v) \<in> set m \<Longrightarrow> shard_index (shardMask s) k = i \<and> val_ok v"
      by (rule sh_inv_shard [OF assms(2) lt]) (rule that)
    then show ?thesis using that(2) by (auto simp: slook_def map_of_eq_None_iff)
  qed
  have "gget (collect_all ord (shards s)) k = slook (shards s ! ?j) k"
    unfolding collect_all_def collect_fold [OF assms(1) op]
    using fold_only_at [of ?j "shards s" "\<lambda>sh. slook sh k"] shard_index_lt [OF assms(2)] other
    by simp
  then show ?thesis using shard_index_lt [OF assms(2)] by (simp add: flat_def)
qed

text \<open>Distributing entries: each shard keeps only keys routed to it.\<close>

definition placed :: "32 word \<Rightarrow> memoryShard list \<Rightarrow> bool" where
  "placed msk shs \<longleftrightarrow> (\<forall>i < length shs. shard_ok msk i (shs ! i))"

lemma place_length [simp]: "length (place msk e shs) = length shs"
  by (simp add: place_def Let_def)

lemma place_placed:
  assumes "placed msk shs" "val_ok v"
  shows "placed msk (place msk (k, v) shs)"
proof -
  have "shard_ok msk i (place msk (k, v) shs ! i)" if "i < length shs" for i
    using assms that shard_ok_gput [where f = "\<lambda>x. x" and key = k and v = v and msk = msk]
    by (cases "i = shard_index msk k") (simp_all add: placed_def place_def Let_def)
  then show ?thesis by (simp add: placed_def)
qed

lemma place_slook:
  assumes "placed msk shs" "shard_index msk k < length shs"
  shows "slook (place msk (k, v) shs ! i) k' =
    (if k' = k \<and> i = shard_index msk k then Some v else slook (shs ! i) k')"
proof -
  obtain m where "sdata (shs ! shard_index msk k) = Some m"
    using assms by (auto simp: placed_def shard_ok_def)
  then show ?thesis
    using assms(2) by (cases "i = shard_index msk k") (auto simp: place_def Let_def slook_def)
qed

lemma fold_place:
  "placed msk shs \<Longrightarrow> \<forall>k. shard_index msk k < length shs \<Longrightarrow> \<forall>(k, v) \<in> set es. val_ok v \<Longrightarrow>
   placed msk (fold (place msk) es shs) \<and> length (fold (place msk) es shs) = length shs \<and>
   (gomap_ok es \<longrightarrow> slook (fold (place msk) es shs ! shard_index msk k) k =
     (case map_of es k of Some v \<Rightarrow> Some v | None \<Rightarrow> slook (shs ! shard_index msk k) k))"
proof (induction es arbitrary: shs)
  case (Cons e es)
  obtain k' v where e: "e = (k', v)" by fastforce
  have p: "placed msk (place msk e shs)" using Cons.prems e by (auto intro: place_placed)
  have tl: "gomap_ok (e # es) \<Longrightarrow> gomap_ok es \<and> map_of es k' = None"
    using e by (auto simp: gomap_ok_def map_of_eq_None_iff)
  show ?case
    using Cons.IH [OF p] Cons.prems e tl place_slook [of msk shs k' v "shard_index msk k" k]
    by (auto simp del: map_of_eq_Some_iff Some_eq_map_of_iff split: option.splits)
qed simp

lemma reshard_ok:
  assumes "iter_order ord" "sh_inv s" "0 < n"
  shows "sh_inv ((reshardData ord now n s)\<lparr>sconfig := c, shardMask := word_of_int (n - 1)\<rparr>) \<and>
    flat ((reshardData ord now n s)\<lparr>sconfig := c, shardMask := word_of_int (n - 1)\<rparr>) = flat s"
proof -
  let ?msk = "word_of_int (n - 1) :: 32 word"
  let ?all = "collect_all ord (shards s)"
  let ?fresh = "replicate (nat n) (new_shard now)"
  let ?shs = "fold (place ?msk) (ord ?all) ?fresh"
  have all: "gomap_ok (ord ?all)" "map_of (ord ?all) = flat s"
    using iter_order_map_of [OF assms(1) gomap_ok_collect] gget_collect [OF assms(1,2)]
    by (auto simp: fun_eq_iff)
  have vals: "\<forall>(k, v) \<in> set (ord ?all). val_ok v"
    using all mem_inv_val [OF flat_mem_inv [OF assms(2)]] gget_in_set by fastforce
  have lt: "shard_index ?msk k < nat n" for k using mask_index_lt [OF assms(3)] .
  have fresh: "placed ?msk ?fresh" by (auto simp: placed_def shard_ok_def new_shard_def)
  have f: "placed ?msk ?shs \<and> length ?shs = nat n \<and> slook (?shs ! shard_index ?msk k) k =
      (case flat s k of Some v \<Rightarrow> Some v | None \<Rightarrow> slook (?fresh ! shard_index ?msk k) k)" for k
    using fold_place [OF fresh _ vals, of k] all lt by simp
  have "slook (?shs ! shard_index ?msk k) k = flat s k" for k
    using f [of k] lt [of k] by (simp add: new_shard_def slook_def split: option.splits)
  then show ?thesis
    using f lt assms(3)
    by (auto simp: reshardData_def Let_def sh_inv_def mask_ok_def placed_def flat_def fun_eq_iff)
qed

text \<open>Reconfiguring the sharded store to any valid configuration, more or fewer shards
  included, keeps every key with its value and the routing invariant, whatever order the maps
  are iterated in; an invalid configuration changes nothing.\<close>

lemma reconfigure_keeps_contents:
  assumes "iter_order ord" "sh_inv s" "Reconfigure ord now cfg s = (s', err)"
  shows "sh_inv s' \<and> flat s' = flat s \<and> (err \<noteq> None \<longrightarrow> s' = s)"
proof (cases "cfg = None \<or> validateConfig (the cfg) \<noteq> None")
  case True
  then show ?thesis using assms by (auto simp: Reconfigure_def split: option.splits)
next
  case False
  then obtain c where c: "cfg = Some c" "validateConfig c = None" by auto
  then have n: "0 < ShardCount c" by (auto simp: validateConfig_def split: if_splits)
  show ?thesis
  proof (cases "ShardCount c = int (length (shards s))")
    case True
    then have "shardMask s = word_of_int (ShardCount c - 1)"
      using assms(2) by (simp add: sh_inv_def mask_ok_def)
    then show ?thesis
      using assms c True by (auto simp: Reconfigure_def Let_def sh_inv_def mask_ok_def flat_def fun_eq_iff)
  next
    case False
    then show ?thesis
      using reshard_ok [OF assms(1,2) n, where now = now and c = c] assms(3) c by (auto simp: Reconfigure_def Let_def)
  qed
qed

lemma reconfigure_keeps_contents_demo:
  "\<exists>s s'. Reconfigure rev 5 (Some (DefaultShardedStoreConfig\<lparr>ShardCount := 8\<rparr>)) s = (s', None) \<and>
     flat s' ''q'' = Some (ListV [''a''])"
proof -
  let ?c = "DefaultShardedStoreConfig\<lparr>ShardCount := 8\<rparr>"
  let ?s0 = "\<lparr>shards = replicate (nat 1) (new_shard 0), shardMask = word_of_int (1 - 1), sconfig = ?c\<rparr>"
  have i: "sh_inv ?s0" by (rule fresh_inv) simp
  obtain s r where s: "sh_LPush ''q'' [AStr ''a''] ?s0 = (s, r)" by fastforce
  have "flat ?s0 = Map.empty"
    by (auto simp: flat_def fun_eq_iff new_shard_def slook_def Let_def)
  then have s1: "sh_inv s" "flat s ''q'' = Some (ListV [''a''])"
    using flat_LPush [OF i s] by (auto simp: mem_LPush_def dest!: sym [where t = "flat s"])
  obtain s' err where r: "Reconfigure rev 5 (Some ?c) s = (s', err)" by fastforce
  have v: "validateConfig ?c = None"
    by (simp add: validateConfig_def DefaultShardedStoreConfig_def pow2_test_def)
  have "sh_inv s' \<and> flat s' = flat s"
    using reconfigure_keeps_contents [OF iter_order_id(3) s1(1) r] by blast
  moreover have "err = None" using r v by (simp add: Reconfigure_def Let_def)
  ultimately show ?thesis using s1(2) r by metis
qed

text \<open>validateConfig accepts exactly the configurations whose shard count is a power of two
  from 1 to 1024 and whose cache size and memory limit are positive.\<close>

lemma validateConfig_accepts:
  "validateConfig c = None \<longleftrightarrow>
     (\<exists>k \<le> 10. ShardCount c = 2 ^ k) \<and> 0 < CacheSize c \<and> 0 < MaxMemoryUsage c"
proof -
  have "(0 < n \<and> n \<le> 1024 \<and> pow2_test n) \<longleftrightarrow> (\<exists>k \<le> 10. n = 2 ^ k)" for n :: int
  proof
    assume a: "0 < n \<and> n \<le> 1024 \<and> pow2_test n"
    then obtain k where k: "n = 2 ^ k" using pow2_test_iff by blast
    then have "(2::int) ^ k \<le> 2 ^ 10" using a by simp
    then have "k \<le> 10" by (simp only: power_increasing_iff)
    then show "\<exists>k \<le> 10. n = 2 ^ k" using k by blast
  next
    assume "\<exists>k \<le> 10. n = 2 ^ k"
    then obtain k :: nat where k: "k \<le> 10" "n = 2 ^ k" by blast
    then have "n \<le> 2 ^ 10" by (simp only: power_increasing_iff)
    then show "0 < n \<and> n \<le> 1024 \<and> pow2_test n" using k pow2_test_iff [of n] by auto
  qed
  from this [of "ShardCount c"] show ?thesis
    by (auto simp: validateConfig_def)
qed

lemma gc_inv:
  assumes "sh_inv s"
  shows "sh_inv (performGC now s)"
proof -
  have "shard_ok (shardMask s) i (gc_shard now sh)" if "shard_ok (shardMask s) i sh" for i sh
    using that by (auto simp: shard_ok_def gc_shard_def)
  then show ?thesis
    using assms by (auto simp: sh_inv_def mask_ok_def performGC_def)
qed

lemma flat_gc:
  assumes "sh_inv s"
  shows "flat (performGC now s) k = flat s k \<or>
    (\<exists>it. flat s k = Some (ItemV it) \<and> expired now it \<and> flat (performGC now s) k = None)"
proof -
  let ?i = "shard_index (shardMask s) k"
  have lt: "?i < length (shards s)" by (rule shard_index_lt [OF assms])
  obtain m where m: "sdata (shards s ! ?i) = Some m" "gomap_ok m"
    using sh_inv_shard [OF assms lt] by metis
  let ?g = "filter (\<lambda>e. \<not> dead_at now (snd e)) m"
  have f: "gget ?g k =
      (case gget m k of Some v \<Rightarrow> if dead_at now v then None else Some v | None \<Rightarrow> None)"
    using m(2) by (induction m) (auto simp: gomap_ok_def map_of_eq_None_iff split: option.splits)
  have "flat s k = gget m k" using lt m(1) by (simp add: flat_def slook_def)
  moreover have "flat (performGC now s) k = gget m k \<or> flat (performGC now s) k = gget ?g k"
    using lt m(1) by (auto simp: performGC_def flat_def slook_def gc_shard_def Let_def)
  ultimately show ?thesis
    using f by (cases "gget m k") (auto simp: dead_at_def split: store_val.splits if_splits)
qed

text \<open>Garbage collection is invisible: whatever performGC removes had already expired, so a
  Get at the time of the collection or later returns the same result with and without it, and
  every value that is not an expired plain value survives.\<close>

lemma gc_invisible:
  assumes "sh_inv s" "now \<le> t"
  shows "sh_inv (performGC now s) \<and>
    snd (sh_Get t k (performGC now s)) = snd (sh_Get t k s) \<and>
    (\<forall>v. flat s k = Some v \<and> \<not> dead_at now v \<longrightarrow> flat (performGC now s) k = Some v)"
proof -
  have get: "snd (sh_Get t k s) = snd (mem_Get t k (flat s))" if "sh_inv s" for s
    using flat_Get [OF that, of t k] by (metis prod.collapse snd_conv)
  have "snd (mem_Get t k (flat (performGC now s))) = snd (mem_Get t k (flat s))"
    using flat_gc [OF assms(1), of now k] assms(2)
    by (cases "flat s k") (auto simp: mem_Get_def expired_def split: store_val.split)
  moreover have "\<forall>v. flat s k = Some v \<and> \<not> dead_at now v \<longrightarrow> flat (performGC now s) k = Some v"
    using flat_gc [OF assms(1), of now k] by (auto simp: dead_at_def)
  ultimately show ?thesis using get gc_inv [OF assms(1)] assms(1) by simp
qed

lemma gc_invisible_demo:
  "\<exists>s. sh_inv (performGC 10 s) \<and> snd (sh_Get 20 ''k'' (performGC 10 s)) = snd (sh_Get 20 ''k'' s)"
proof -
  have "sh_inv \<lparr>shards = replicate (nat 2) (new_shard 0), shardMask = word_of_int (2 - 1),
      sconfig = DefaultShardedStoreConfig\<rparr>" by (rule fresh_inv) simp
  from gc_invisible [OF this, of 10 20 "''k''"] show ?thesis by auto
qed

end
