(* ===== verification/KeyProvider.thy ===== *)
theory KeyProvider
  imports MemStore
begin

text \<open>The key provider of src/internal/keypool/provider.go over the in-memory store: the rows of
  the table api_keys, the hash of every key and one list of active keys per group. Database
  failures are an argument: each attempt of a transaction has an environment that says which
  statement fails, the commit included. A failed transaction restores the table, but not the
  store. Times are Unix seconds. The columns of APIKey the provider does not read are left out.\<close>

section \<open>Rows, keys of the store, state\<close>

definition KeyStatusActive :: string where "KeyStatusActive = ''active''"
definition KeyStatusInvalid :: string where "KeyStatusInvalid = ''invalid''"
definition KeyStatusRateLimited :: string where "KeyStatusRateLimited = ''rate_limited''"

record APIKey =
  ID :: nat
  KeyValue :: string
  GroupID :: nat
  Status :: string
  FailureCount :: int
  RateLimitCount :: int
  Last429At :: "int option"
  RateLimitResetAt :: "int option"
  CreatedAt :: int

definition active_list :: "nat \<Rightarrow> string" where
  "active_list gid = ''group:'' @ show_nat gid @ '':active_keys''"

definition key_hash :: "nat \<Rightarrow> string" where
  "key_hash kid = ''key:'' @ show_nat kid"

datatype db_err = DbLocked | DbOther

datatype kp_err =
    KStore store_err
  | KNoActiveKeys
  | KParse
  | KDb db_err
  | KRecordNotFound
  | KDuplicate

record tx_env =
  first_err :: "db_err option"
  update_err :: "db_err option"
  commit_err :: "db_err option"

definition tx_ok :: tx_env where
  "tx_ok = \<lparr>first_err = None, update_err = None, commit_err = None\<rparr>"

record kp =
  kstore :: mstore
  kdb :: "APIKey list"
  next_id :: nat

type_synonym action = "kp \<Rightarrow> kp \<times> kp_err option"

section \<open>Sequencing and transactions\<close>

text \<open>Statements run in order until the first error.\<close>

fun run_all :: "action list \<Rightarrow> action" where
  "run_all [] p = (p, None)"
| "run_all (a # as) p = (case a p of (p', Some e) \<Rightarrow> (p', Some e) | (p', None) \<Rightarrow> run_all as p')"

definition in_store :: "(mstore \<Rightarrow> mstore \<times> 'a sres) \<Rightarrow> action" where
  "in_store f p =
    (case f (kstore p) of
       (s, Inl e) \<Rightarrow> (p\<lparr>kstore := s\<rparr>, Some (KStore e))
     | (s, Inr _) \<Rightarrow> (p\<lparr>kstore := s\<rparr>, None))"

text \<open>A store call whose error is only logged.\<close>

definition in_store_logged :: "(mstore \<Rightarrow> mstore \<times> 'a sres) \<Rightarrow> action" where
  "in_store_logged f p = (p\<lparr>kstore := fst (f (kstore p))\<rparr>, None)"

definition in_db :: "db_err option \<Rightarrow> (APIKey list \<Rightarrow> APIKey list) \<Rightarrow> action" where
  "in_db err f p =
    (case err of Some e \<Rightarrow> (p, Some (KDb e)) | None \<Rightarrow> (p\<lparr>kdb := f (kdb p)\<rparr>, None))"

text \<open>db.Transaction: the table is restored when the body or the commit fails.\<close>

definition transaction :: "tx_env \<Rightarrow> action \<Rightarrow> action" where
  "transaction env body p =
    (case body p of
       (p', Some e) \<Rightarrow> (p'\<lparr>kdb := kdb p, next_id := next_id p\<rparr>, Some e)
     | (p', None) \<Rightarrow>
         (case commit_err env of
            Some e \<Rightarrow> (p'\<lparr>kdb := kdb p, next_id := next_id p\<rparr>, Some (KDb e))
          | None \<Rightarrow> (p', None)))"

text \<open>executeTransactionWithRetry: at most three attempts, a further one only after a locked
  database. The environment of attempt \<^verbatim>\<open>i\<close> is \<^verbatim>\<open>envs i\<close>.\<close>

fun retry_from :: "nat \<Rightarrow> nat \<Rightarrow> (nat \<Rightarrow> tx_env) \<Rightarrow> (tx_env \<Rightarrow> action) \<Rightarrow> kp_err option \<Rightarrow> action" where
  "retry_from 0 i envs body err p = (p, err)"
| "retry_from (Suc n) i envs body err p =
    (case transaction (envs i) (body (envs i)) p of
       (p', None) \<Rightarrow> (p', None)
     | (p', Some e) \<Rightarrow>
         if e = KDb DbLocked then retry_from n (Suc i) envs body (Some e) p' else (p', Some e))"

definition executeTransactionWithRetry :: "(nat \<Rightarrow> tx_env) \<Rightarrow> (tx_env \<Rightarrow> action) \<Rightarrow> action" where
  "executeTransactionWithRetry envs body = retry_from 3 0 envs body None"

definition db_find :: "nat \<Rightarrow> APIKey list \<Rightarrow> APIKey option" where
  "db_find kid rows = find (\<lambda>k. ID k = kid) rows"

definition db_update :: "nat \<Rightarrow> (APIKey \<Rightarrow> APIKey) \<Rightarrow> APIKey list \<Rightarrow> APIKey list" where
  "db_update kid f rows = map (\<lambda>k. if ID k = kid then f k else k) rows"

text \<open>First under FOR UPDATE: the statement may fail, the row may be missing.\<close>

definition lock_row :: "tx_env \<Rightarrow> nat \<Rightarrow> (APIKey \<Rightarrow> action) \<Rightarrow> action" where
  "lock_row env kid cont p =
    (case first_err env of
       Some e \<Rightarrow> (p, Some (KDb e))
     | None \<Rightarrow> (case db_find kid (kdb p) of None \<Rightarrow> (p, Some KRecordNotFound) | Some k \<Rightarrow> cont k p))"

section \<open>Selection\<close>

definition opt_time :: "(string, string) gomap \<Rightarrow> string \<Rightarrow> int option" where
  "opt_time h f =
    (let t = field_text h f in
     if t = [] then None else (case ParseInt t of (v, None) \<Rightarrow> Some v | (_, Some _) \<Rightarrow> None))"

definition key_of_hash :: "nat \<Rightarrow> nat \<Rightarrow> (string, string) gomap \<Rightarrow> APIKey" where
  "key_of_hash kid gid h =
    \<lparr>ID = kid, KeyValue = field_text h ''key_string'', GroupID = gid,
     Status = field_text h ''status'',
     FailureCount = fst (ParseInt (field_text h ''failure_count'')),
     RateLimitCount = fst (ParseInt (field_text h ''rate_limit_count'')),
     Last429At = opt_time h ''last_429_at'',
     RateLimitResetAt = opt_time h ''rate_limit_reset_at'',
     CreatedAt = fst (ParseInt (field_text h ''created_at''))\<rparr>"

definition SelectKey :: "nat \<Rightarrow> kp \<Rightarrow> kp \<times> (kp_err + APIKey)" where
  "SelectKey gid p =
    (case mem_Rotate (active_list gid) (kstore p) of
       (s, Inl ErrNotFound) \<Rightarrow> (p\<lparr>kstore := s\<rparr>, Inl KNoActiveKeys)
     | (s, Inl e) \<Rightarrow> (p\<lparr>kstore := s\<rparr>, Inl (KStore e))
     | (s, Inr t) \<Rightarrow>
         (case ParseUint t of
            (_, Some _) \<Rightarrow> (p\<lparr>kstore := s\<rparr>, Inl KParse)
          | (kid, None) \<Rightarrow>
              (case mem_HGetAll (key_hash kid) s of
                 (s', Inl e) \<Rightarrow> (p\<lparr>kstore := s'\<rparr>, Inl (KStore e))
               | (s', Inr h) \<Rightarrow> (p\<lparr>kstore := s'\<rparr>, Inr (key_of_hash kid gid h)))))"

section \<open>Status updates\<close>

text \<open>The transaction of each handler: the row update and the store calls that follow it.\<close>

definition success_row :: "bool \<Rightarrow> APIKey \<Rightarrow> APIKey" where
  "success_row isActive k =
    k\<lparr>FailureCount := 0, Status := (if isActive then Status k else KeyStatusActive)\<rparr>"

definition success_store :: "bool \<Rightarrow> nat \<Rightarrow> nat \<Rightarrow> action list" where
  "success_store isActive kid gid =
    in_store (mem_HSet (key_hash kid)
      ((''failure_count'', AInt 0) # (if isActive then [] else [(''status'', AStr KeyStatusActive)])))
    # (if isActive then []
       else [in_store (mem_LRem (active_list gid) 0 (AUint kid)),
             in_store (mem_LPush (active_list gid) [AUint kid])])"

definition handleSuccess :: "(nat \<Rightarrow> tx_env) \<Rightarrow> nat \<Rightarrow> nat \<Rightarrow> action" where
  "handleSuccess envs kid gid p =
    (case mem_HGetAll (key_hash kid) (kstore p) of
       (_, Inl e) \<Rightarrow> (p, Some (KStore e))
     | (_, Inr h) \<Rightarrow>
         let failureCount = fst (ParseInt (field_text h ''failure_count''));
             isActive = (field_text h ''status'' = KeyStatusActive) in
         if failureCount = 0 \<and> isActive then (p, None)
         else executeTransactionWithRetry envs (\<lambda>env. lock_row env kid (\<lambda>key. run_all
           (in_db (update_err env) (db_update kid (success_row isActive))
            # success_store isActive kid gid))) p)"

definition failure_row :: "int \<Rightarrow> bool \<Rightarrow> APIKey \<Rightarrow> APIKey" where
  "failure_row newFailureCount shouldBlacklist k =
    k\<lparr>FailureCount := newFailureCount,
      Status := (if shouldBlacklist then KeyStatusInvalid else Status k)\<rparr>"

definition failure_store :: "bool \<Rightarrow> nat \<Rightarrow> nat \<Rightarrow> action list" where
  "failure_store shouldBlacklist kid gid =
    in_store (mem_HIncrBy (key_hash kid) ''failure_count'' 1)
    # (if shouldBlacklist
       then [in_store (mem_LRem (active_list gid) 0 (AUint kid)),
             in_store (mem_HSet (key_hash kid) [(''status'', AStr KeyStatusInvalid)])]
       else [])"

definition handleFailure :: "(nat \<Rightarrow> tx_env) \<Rightarrow> int \<Rightarrow> nat \<Rightarrow> nat \<Rightarrow> action" where
  "handleFailure envs blacklistThreshold kid gid p =
    (case mem_HGetAll (key_hash kid) (kstore p) of
       (_, Inl e) \<Rightarrow> (p, Some (KStore e))
     | (_, Inr h) \<Rightarrow>
         if field_text h ''status'' = KeyStatusInvalid then (p, None)
         else
         let failureCount = fst (ParseInt (field_text h ''failure_count''));
             newFailureCount = i64 (failureCount + 1);
             shouldBlacklist = (blacklistThreshold > 0 \<and> newFailureCount \<ge> blacklistThreshold) in
         executeTransactionWithRetry envs (\<lambda>env. lock_row env kid (\<lambda>key. run_all
           (in_db (update_err env) (db_update kid (failure_row newFailureCount shouldBlacklist))
            # failure_store shouldBlacklist kid gid))) p)"

definition rate_limit_row :: "int \<Rightarrow> int option \<Rightarrow> APIKey \<Rightarrow> APIKey \<Rightarrow> APIKey" where
  "rate_limit_row now resetAt key k =
    k\<lparr>RateLimitCount := i64 (RateLimitCount key + 1), Last429At := Some now,
      Status := KeyStatusRateLimited,
      RateLimitResetAt := (case resetAt of None \<Rightarrow> RateLimitResetAt k | Some t \<Rightarrow> Some t)\<rparr>"

text \<open>Updates has written the columns of the map into the key, the new count included; the store gets the
  count after that plus one.\<close>

definition rate_limit_store :: "int \<Rightarrow> int option \<Rightarrow> nat \<Rightarrow> nat \<Rightarrow> APIKey \<Rightarrow> action list" where
  "rate_limit_store now resetAt kid gid key =
    [in_store (mem_HSet (key_hash kid)
       ([(''status'', AStr KeyStatusRateLimited),
         (''rate_limit_count'', AInt (i64 (RateLimitCount (rate_limit_row now resetAt key key) + 1))),
         (''last_429_at'', AInt now)] @
        (case resetAt of None \<Rightarrow> [] | Some t \<Rightarrow> [(''rate_limit_reset_at'', AInt t)]))),
     in_store_logged (mem_LRem (active_list gid) 0 (AUint kid))]"

definition handleRateLimit ::
  "(nat \<Rightarrow> tx_env) \<Rightarrow> int \<Rightarrow> int option \<Rightarrow> nat \<Rightarrow> nat \<Rightarrow> action" where
  "handleRateLimit envs now resetAt kid gid p =
    (case mem_HGetAll (key_hash kid) (kstore p) of
       (_, Inl e) \<Rightarrow> (p, Some (KStore e))
     | (_, Inr h) \<Rightarrow>
         if field_text h ''status'' = KeyStatusInvalid then (p, None)
         else executeTransactionWithRetry envs (\<lambda>env. lock_row env kid (\<lambda>key. run_all
           (in_db (update_err env) (db_update kid (rate_limit_row now resetAt key))
            # rate_limit_store now resetAt kid gid key))) p)"

text \<open>UpdateStatus and UpdateStatusWithRateLimit start a goroutine that runs one handler; the
  goroutine is the step that runs it to its end.\<close>

datatype status_update =
    Succeeded nat nat
  | Failed int nat nat
  | RateLimited int "int option" nat nat

fun run_update :: "(nat \<Rightarrow> tx_env) \<Rightarrow> status_update \<Rightarrow> action" where
  "run_update envs (Succeeded kid gid) = handleSuccess envs kid gid"
| "run_update envs (Failed threshold kid gid) = handleFailure envs threshold kid gid"
| "run_update envs (RateLimited now resetAt kid gid) = handleRateLimit envs now resetAt kid gid"

section \<open>Bulk operations\<close>

definition apiKeyToMap :: "APIKey \<Rightarrow> (string \<times> goany) list" where
  "apiKeyToMap key =
    [(''id'', AStr (show_nat (ID key))), (''key_string'', AStr (KeyValue key)),
     (''status'', AStr (Status key)), (''failure_count'', AInt (FailureCount key)),
     (''rate_limit_count'', AInt (RateLimitCount key)), (''group_id'', AUint (GroupID key)),
     (''created_at'', AInt (CreatedAt key))] @
    (case Last429At key of None \<Rightarrow> [] | Some t \<Rightarrow> [(''last_429_at'', AInt t)]) @
    (case RateLimitResetAt key of None \<Rightarrow> [] | Some t \<Rightarrow> [(''rate_limit_reset_at'', AInt t)])"

definition addKeyToStore :: "APIKey \<Rightarrow> action" where
  "addKeyToStore key = run_all
    ([in_store (mem_HSet (key_hash (ID key)) (apiKeyToMap key))] @
     (if Status key = KeyStatusActive
      then [in_store (mem_LRem (active_list (GroupID key)) 0 (AUint (ID key))),
            in_store (mem_LPush (active_list (GroupID key)) [AUint (ID key)])]
      else []))"

definition removeKeyFromStore :: "nat \<Rightarrow> nat \<Rightarrow> action" where
  "removeKeyFromStore kid gid = run_all
    [in_store_logged (mem_LRem (active_list gid) 0 (AUint kid)),
     in_store (mem_Delete (key_hash kid))]"

definition pluckIDs :: "APIKey list \<Rightarrow> nat list" where
  "pluckIDs keys = map ID keys"

text \<open>Create numbers the rows and rejects a key value its group already has.\<close>

fun number_from :: "nat \<Rightarrow> APIKey list \<Rightarrow> APIKey list" where
  "number_from n [] = []"
| "number_from n (k # ks) = k\<lparr>ID := n\<rparr> # number_from (Suc n) ks"

definition unique_values :: "APIKey list \<Rightarrow> bool" where
  "unique_values rows = distinct (map (\<lambda>k. (GroupID k, KeyValue k)) rows)"

definition AddKeys :: "tx_env \<Rightarrow> APIKey list \<Rightarrow> action" where
  "AddKeys env keys p =
    (if keys = [] then (p, None)
     else transaction env (\<lambda>p.
       let new = number_from (next_id p) keys in
       case update_err env of
         Some e \<Rightarrow> (p, Some (KDb e))
       | None \<Rightarrow>
           if \<not> unique_values (kdb p @ new) then (p, Some KDuplicate)
           else run_all (map addKeyToStore new)
                  (p\<lparr>kdb := kdb p @ new, next_id := next_id p + length new\<rparr>)) p)"

text \<open>The shape the bulk operations share: find rows, stop if there are none, change the table,
  then bring the store in line row by row. The count is that of the changed rows; it is
  returned even when the transaction fails afterwards.\<close>

definition bulk :: "tx_env \<Rightarrow> (APIKey \<Rightarrow> bool) \<Rightarrow> (nat list \<Rightarrow> APIKey list \<Rightarrow> APIKey list) \<Rightarrow>
    (APIKey \<Rightarrow> action) \<Rightarrow> kp \<Rightarrow> kp \<times> nat \<times> kp_err option" where
  "bulk env P change per_row p =
    (let found = filter P (kdb p);
         n = (if first_err env = None \<and> update_err env = None then length found else 0);
         body = (\<lambda>p. case first_err env of
                   Some e \<Rightarrow> (p, Some (KDb e))
                 | None \<Rightarrow>
                     if found = [] then (p, None)
                     else run_all (in_db (update_err env) (change (pluckIDs found))
                                   # map per_row found) p)
     in case transaction env body p of (p', err) \<Rightarrow> (p', n, err))"

definition delete_ids :: "nat list \<Rightarrow> APIKey list \<Rightarrow> APIKey list" where
  "delete_ids ids rows = filter (\<lambda>k. ID k \<notin> set ids) rows"

definition restored :: "APIKey \<Rightarrow> APIKey" where
  "restored k = k\<lparr>Status := KeyStatusActive, FailureCount := 0\<rparr>"

definition restore_ids :: "nat list \<Rightarrow> APIKey list \<Rightarrow> APIKey list" where
  "restore_ids ids rows = map (\<lambda>k. if ID k \<in> set ids then restored k else k) rows"

definition RemoveKeys :: "tx_env \<Rightarrow> nat \<Rightarrow> string list \<Rightarrow> kp \<Rightarrow> kp \<times> nat \<times> kp_err option" where
  "RemoveKeys env gid vals p =
    (if vals = [] then (p, 0, None)
     else bulk env (\<lambda>k. GroupID k = gid \<and> KeyValue k \<in> set vals) delete_ids
            (\<lambda>k. removeKeyFromStore (ID k) (GroupID k)) p)"

definition RestoreKeys :: "tx_env \<Rightarrow> nat \<Rightarrow> kp \<Rightarrow> kp \<times> nat \<times> kp_err option" where
  "RestoreKeys env gid p =
    bulk env (\<lambda>k. GroupID k = gid \<and> Status k = KeyStatusInvalid) restore_ids
      (\<lambda>k. addKeyToStore (restored k)) p"

definition RestoreMultipleKeys ::
  "tx_env \<Rightarrow> nat \<Rightarrow> string list \<Rightarrow> kp \<Rightarrow> kp \<times> nat \<times> kp_err option" where
  "RestoreMultipleKeys env gid vals p =
    (if vals = [] then (p, 0, None)
     else bulk env (\<lambda>k. GroupID k = gid \<and> KeyValue k \<in> set vals \<and> Status k = KeyStatusInvalid)
            restore_ids (\<lambda>k. addKeyToStore (restored k)) p)"

definition removeKeysByStatus ::
  "tx_env \<Rightarrow> nat \<Rightarrow> string list \<Rightarrow> kp \<Rightarrow> kp \<times> nat \<times> kp_err option" where
  "removeKeysByStatus env gid status p =
    bulk env (\<lambda>k. GroupID k = gid \<and> (status = [] \<or> Status k \<in> set status)) delete_ids
      (\<lambda>k. removeKeyFromStore (ID k) (GroupID k)) p"

definition RemoveInvalidKeys :: "tx_env \<Rightarrow> nat \<Rightarrow> kp \<Rightarrow> kp \<times> nat \<times> kp_err option" where
  "RemoveInvalidKeys env gid = removeKeysByStatus env gid [KeyStatusInvalid]"

definition RemoveAllKeys :: "tx_env \<Rightarrow> nat \<Rightarrow> kp \<Rightarrow> kp \<times> nat \<times> kp_err option" where
  "RemoveAllKeys env gid = removeKeysByStatus env gid []"

definition RemoveKeysFromStore :: "nat \<Rightarrow> nat list \<Rightarrow> action" where
  "RemoveKeysFromStore gid kids p =
    (if kids = [] then (p, None)
     else run_all (in_store (mem_Delete (active_list gid)) #
                   map (\<lambda>kid. in_store_logged (mem_Delete (key_hash kid))) kids) p)"

section \<open>Recovery of rate-limited keys\<close>

definition recoverSingleKey :: "(nat \<Rightarrow> tx_env) \<Rightarrow> APIKey \<Rightarrow> action" where
  "recoverSingleKey envs key = executeTransactionWithRetry envs (\<lambda>env. run_all
    [in_db (update_err env) (db_update (ID key)
       (\<lambda>k. k\<lparr>Status := KeyStatusActive, RateLimitResetAt := None\<rparr>)),
     in_store (mem_HSet (key_hash (ID key)) [(''status'', AStr KeyStatusActive)]),
     in_store (mem_LPush (active_list (GroupID key)) [AUint (ID key)])])"

definition recoverable :: "int \<Rightarrow> APIKey \<Rightarrow> bool" where
  "recoverable now k \<longleftrightarrow> Status k = KeyStatusRateLimited \<and>
     (case RateLimitResetAt k of None \<Rightarrow> True | Some t \<Rightarrow> t \<le> now)"

text \<open>The error of one key is logged; \<^verbatim>\<open>envs j\<close> holds the environments for the j-th key.\<close>

fun recover_each :: "nat \<Rightarrow> (nat \<Rightarrow> nat \<Rightarrow> tx_env) \<Rightarrow> APIKey list \<Rightarrow> kp \<Rightarrow> kp" where
  "recover_each j envs [] p = p"
| "recover_each j envs (k # ks) p =
    recover_each (Suc j) envs ks (fst (recoverSingleKey (envs j) k p))"

definition RecoverRateLimitedKeys ::
  "(nat \<Rightarrow> nat \<Rightarrow> tx_env) \<Rightarrow> db_err option \<Rightarrow> int \<Rightarrow> action" where
  "RecoverRateLimitedKeys envs find_err now p =
    (case find_err of
       Some e \<Rightarrow> (p, Some (KDb e))
     | None \<Rightarrow> (recover_each 0 envs (filter (recoverable now) (kdb p)) p, None))"

section \<open>Loading\<close>

definition init_flag :: string where
  "init_flag = ''initialization:db_keys_loaded''"

text \<open>The rows are read in batches of 1000; the batches follow one another, so the loop runs
  over all rows. Active ids are grouped by group id in the order read; \<^verbatim>\<open>ord\<close> is the
  iteration order of that map.\<close>

definition load_hashes :: "APIKey list \<Rightarrow> kp \<Rightarrow> kp" where
  "load_hashes rows p =
    fold (\<lambda>k p. fst (in_store_logged (mem_HSet (key_hash (ID k)) (apiKeyToMap k)) p)) rows p"

definition group_active :: "APIKey list \<Rightarrow> (nat, nat list) gomap" where
  "group_active rows =
    fold (\<lambda>k m. if Status k = KeyStatusActive
                then gput (GroupID k) ((case gget m (GroupID k) of None \<Rightarrow> [] | Some l \<Rightarrow> l) @ [ID k]) m
                else m) rows []"

definition load_list :: "nat \<times> nat list \<Rightarrow> kp \<Rightarrow> kp" where
  "load_list e p =
    (if snd e = [] then p
     else fst (in_store_logged (mem_LPush (active_list (fst e)) (map AUint (snd e)))
            (fst (in_store_logged (mem_Delete (active_list (fst e))) p))))"

definition LoadKeysFromDB ::
  "(nat \<times> nat list) iter \<Rightarrow> db_err option \<Rightarrow> int \<Rightarrow> action" where
  "LoadKeysFromDB ord find_err now p =
    (case mem_Exists now init_flag (kstore p) of
       (s, Inl e) \<Rightarrow> (p\<lparr>kstore := s\<rparr>, Some (KStore e))
     | (s, Inr True) \<Rightarrow> (p\<lparr>kstore := s\<rparr>, None)
     | (s, Inr False) \<Rightarrow>
         (case find_err of
            Some e \<Rightarrow> (p\<lparr>kstore := s\<rparr>, Some (KDb e))
          | None \<Rightarrow>
              let p1 = load_hashes (kdb p) (p\<lparr>kstore := s\<rparr>);
                  p2 = fold load_list (ord (group_active (kdb p))) p1
              in in_store_logged (mem_Set now init_flag ''1'' 0) p2))"

end
