(* ===== verification/PoolBase.thy ===== *)
theory PoolBase
  imports KeyProvider ShardedStore
begin

text \<open>What the two layered pools (src/internal/keypool/memory_pool.go and redis_pool.go) share: the
  pool types and configurations, the errors, the database they read, and the sequencing of
  calls. A call of a pool is an action: from a state to a state and an error or a value. The
  n-th database call of a history fails as the list \<^verbatim>\<open>lfaults\<close> says.\<close>

section \<open>Data\<close>

datatype PoolType =
    PoolTypeValidation
  | PoolTypeReady
  | PoolTypeActive
  | PoolTypeCooling
  | PoolTypeOther string

fun pool_text :: "PoolType \<Rightarrow> string" where
  "pool_text PoolTypeValidation = ''validation''"
| "pool_text PoolTypeReady = ''ready''"
| "pool_text PoolTypeActive = ''active''"
| "pool_text PoolTypeCooling = ''cooling''"
| "pool_text (PoolTypeOther t) = t"

record PoolConfig =
  cfgGroupID :: nat
  MinActiveKeys :: int
  MaxActiveKeys :: int
  MinReadyKeys :: int
  MaxReadyKeys :: int
  RefillBatchSize :: int
  DefaultCoolingTime :: int
  MaxCoolingTime :: int

definition DefaultPoolConfig :: "nat \<Rightarrow> PoolConfig" where
  "DefaultPoolConfig gid = \<lparr>cfgGroupID = gid, MinActiveKeys = 5, MaxActiveKeys = 50,
     MinReadyKeys = 10, MaxReadyKeys = 100, RefillBatchSize = 10,
     DefaultCoolingTime = 60000000000, MaxCoolingTime = 86400000000000\<rparr>"

text \<open>A row with the further columns the pool reads.\<close>

record PoolKey = APIKey +
  RequestCount :: int
  LastUsedAt :: "int option"
  UpdatedAt :: int

datatype PoolErrorType =
    ErrorTypeValidation | ErrorTypeConfiguration | ErrorTypeStorage | ErrorTypeTimeout | ErrorTypeRateLimit
  | ErrorTypeCapacity | ErrorTypeInternal

datatype lp_err =
    StoreErr store_err
  | GoErr string
  | DbErr db_err
  | RecordNotFound
  | PoolError PoolErrorType string "lp_err option"

definition ErrPoolEmpty :: lp_err where
  "ErrPoolEmpty = PoolError ErrorTypeCapacity ''POOL_EMPTY'' None"

text \<open>A value of Go's type interface{}: nil, a value of a type the code does not accept, or a
  value of the type it asserts.\<close>

datatype 'a iface = NilValue | OtherType | Dynamic 'a

record RedisPoolConfig =
  KeyPrefix :: string

definition DefaultRedisPoolConfig :: RedisPoolConfig where
  "DefaultRedisPoolConfig = \<lparr>KeyPrefix = ''layered_pool:''\<rparr>"

record MemoryPoolConfig =
  mpShardCount :: int
  EnableSharding :: bool
  mpLockTimeout :: int
  mpGCInterval :: int
  mpMaxMemoryUsage :: int

definition DefaultMemoryPoolConfig :: MemoryPoolConfig where
  "DefaultMemoryPoolConfig = \<lparr>mpShardCount = 16, EnableSharding = True, mpLockTimeout = 1000000000,
     mpGCInterval = 600000000000, mpMaxMemoryUsage = 104857600\<rparr>"

text \<open>A database is given by its keys and its groups.\<close>

record 's FactoryConfig =
  fcRedisConfig :: "RedisPoolConfig option"
  fcMemoryConfig :: "MemoryPoolConfig option"
  fcStore :: "'s iface"
  fcDB :: "(PoolKey list \<times> nat list) iface"
  fcSettingsManager :: "unit iface"

section \<open>State and sequencing\<close>

record pool_db =
  ldb :: "PoolKey list"
  lgroups :: "nat list"
  lfaults :: "db_err option list"
  groupConfigs :: "(nat, PoolConfig) gomap"

type_synonym ('p, 'a) act = "'p \<Rightarrow> 'p \<times> (lp_err + 'a)"

definition ret :: "'a \<Rightarrow> ('p, 'a) act" where
  "ret x p = (p, Inr x)"

definition fail :: "lp_err \<Rightarrow> ('p, 'a) act" where
  "fail e p = (p, Inl e)"

definition bindE :: "('p, 'a) act \<Rightarrow> ('a \<Rightarrow> ('p, 'b) act) \<Rightarrow> ('p, 'b) act" where
  "bindE m f p = (case m p of (p', Inl e) \<Rightarrow> (p', Inl e) | (p', Inr x) \<Rightarrow> f x p')"

text \<open>NewPoolErrorWithCause around an error, and a call whose error is only logged.\<close>

definition wrap :: "PoolErrorType \<Rightarrow> string \<Rightarrow> ('p, 'a) act \<Rightarrow> ('p, 'a) act" where
  "wrap ty code m p =
    (case m p of (p', Inl e) \<Rightarrow> (p', Inl (PoolError ty code (Some e))) | (p', Inr x) \<Rightarrow> (p', Inr x))"

definition logged :: "('p, 'a) act \<Rightarrow> ('p, unit) act" where
  "logged m p = (fst (m p), Inr ())"

text \<open>A call whose error the code looks at.\<close>

definition catching :: "('p, 'a) act \<Rightarrow> (lp_err + 'a \<Rightarrow> ('p, 'b) act) \<Rightarrow> ('p, 'b) act" where
  "catching m f p = (case m p of (p', r) \<Rightarrow> f r p')"

definition on_db :: "('z pool_db_scheme \<Rightarrow> lp_err + 'a) \<Rightarrow> ('z pool_db_scheme, 'a) act" where
  "on_db q p =
    (case lfaults p of
       [] \<Rightarrow> (p, q p)
     | None # fs \<Rightarrow> (p\<lparr>lfaults := fs\<rparr>, q p)
     | Some e # fs \<Rightarrow> (p\<lparr>lfaults := fs\<rparr>, Inl (DbErr e)))"

fun for_each :: "('a \<Rightarrow> ('p, unit) act) \<Rightarrow> 'a list \<Rightarrow> ('p, unit) act" where
  "for_each f [] = ret ()"
| "for_each f (x # xs) = bindE (f x) (\<lambda>_. for_each f xs)"

definition find_keys :: "nat \<Rightarrow> nat list \<Rightarrow> ('z pool_db_scheme, PoolKey list) act" where
  "find_keys gid kids = on_db (\<lambda>p. Inr (filter (\<lambda>k. ID k \<in> set kids \<and> GroupID k = gid) (ldb p)))"

definition first_key :: "nat \<Rightarrow> ('z pool_db_scheme, PoolKey) act" where
  "first_key kid = on_db (\<lambda>p.
    case find (\<lambda>k. ID k = kid) (ldb p) of None \<Rightarrow> Inl RecordNotFound | Some k \<Rightarrow> Inr k)"

text \<open>The EffectiveConfig of a group has the tag \<^verbatim>\<open>gorm:"-"\<close>, so on a row that First loads it is
  the zero value; the result of loading a group is its blacklist threshold.\<close>

definition first_group :: "nat \<Rightarrow> ('z pool_db_scheme, int) act" where
  "first_group gid = on_db (\<lambda>p. if gid \<in> set (lgroups p) then Inr 0 else Inl RecordNotFound)"

definition lp_getGroupConfig :: "nat \<Rightarrow> 'z pool_db_scheme \<Rightarrow> 'z pool_db_scheme \<times> PoolConfig" where
  "lp_getGroupConfig gid p =
    (case gget (groupConfigs p) gid of
       Some c \<Rightarrow> (p, c)
     | None \<Rightarrow> (p\<lparr>groupConfigs := gput gid (DefaultPoolConfig gid) (groupConfigs p)\<rparr>,
               DefaultPoolConfig gid))"

definition lp_UpdateConfig :: "nat \<Rightarrow> PoolConfig option \<Rightarrow> ('z pool_db_scheme, unit) act" where
  "lp_UpdateConfig gid config p =
    (case config of
       None \<Rightarrow> (p, Inl (PoolError ErrorTypeConfiguration ''NIL_CONFIG'' None))
     | Some c \<Rightarrow> (p\<lparr>groupConfigs := gput gid (c\<lparr>cfgGroupID := gid\<rparr>) (groupConfigs p)\<rparr>, Inr ()))"

definition all_pools :: "PoolType list" where
  "all_pools = [PoolTypeValidation, PoolTypeReady, PoolTypeActive, PoolTypeCooling]"

definition unix :: "int \<Rightarrow> int" where
  "unix t = t div 1000000000"

text \<open>The instant time.Unix gives for a number of seconds, the zero time, and an optional time of
  the details of a key.\<close>

definition unix_time :: "int \<Rightarrow> int" where
  "unix_time t = t * 1000000000"

definition zero_time :: int where
  "zero_time = unix_time (-62135596800)"

definition details_time :: "(string, string) gomap \<Rightarrow> string \<Rightarrow> int option" where
  "details_time details f = map_option unix_time (opt_time details f)"

definition incrementRateLimitCount :: "(string, string) gomap \<Rightarrow> int" where
  "incrementRateLimitCount details =
     i64 (fst (ParseInt (field_text details ''rate_limit_count'')) + 1)"

definition reset_time :: "int \<Rightarrow> int \<Rightarrow> int option \<Rightarrow> int" where
  "reset_time now retryAfter resetAtOpt =
     (case resetAtOpt of None \<Rightarrow> now + retryAfter | Some t \<Rightarrow> t)"

definition parse_ids :: "string list \<Rightarrow> nat list" where
  "parse_ids xs = map (fst \<circ> ParseUint) (filter (\<lambda>m. snd (ParseUint m) = None) xs)"

section \<open>Batch operations\<close>

datatype BatchOpType = BatchOpAddKeys | BatchOpRemoveKeys | BatchOpMoveKeys | BatchOpSyncKeys
  | BatchOpOther string

text \<open>The metadata of a batch is a value of type interface{}; the code asserts a map from key ids
  to reset times.\<close>

record BatchOperation =
  boType :: BatchOpType
  boGroupID :: nat
  boKeyIDs :: "nat list"
  FromPool :: PoolType
  ToPool :: PoolType
  boMetadata :: "(nat, int) gomap iface"

section \<open>Names of pools\<close>

abbreviation list_pool :: "PoolType \<Rightarrow> bool" where
  "list_pool t \<equiv> t = PoolTypeReady \<or> t = PoolTypeActive"

lemma digits_colon:
  "\<forall>c \<in> set xs. is_digit c \<Longrightarrow> \<forall>c \<in> set ys. is_digit c \<Longrightarrow>
   xs @ CHR '':'' # us = ys @ CHR '':'' # vs \<Longrightarrow> xs = ys \<and> us = vs"
proof (induction xs arbitrary: ys)
  case Nil
  then show ?case by (cases ys) (auto simp: is_digit_def)
next
  case (Cons x xs)
  then show ?case by (cases ys) (auto simp: is_digit_def)
qed

definition known :: "PoolType \<Rightarrow> bool" where
  "known t \<longleftrightarrow> t \<in> set all_pools"

lemma known_simps [simp]: "known PoolTypeValidation" "known PoolTypeReady" "known PoolTypeActive"
  "known PoolTypeCooling" "\<not> known (PoolTypeOther x)"
  by (simp_all add: known_def all_pools_def)

lemma pool_text_inj: "known t \<Longrightarrow> known t' \<Longrightarrow> pool_text t = pool_text t' \<Longrightarrow> t = t'"
  by (cases t; cases t') simp_all

text \<open>The text of an id reads back as no other id.\<close>

lemma parse_digits_value:
  "parse_digits a xs = (v, None) \<Longrightarrow> v = foldl (\<lambda>a c. a * 10 + digit_val c) a xs"
  by (induction a xs rule: parse_digits.induct) (auto split: if_splits)

lemma digits_value: "foldl (\<lambda>a c. a * 10 + digit_val c) 0 (show_nat n) = n"
proof (induction n rule: show_nat.induct)
  case (1 n)
  then show ?case by (subst show_nat.simps) simp
qed

lemma ParseUint_show_eq: "ParseUint (show_nat j) = (k, None) \<Longrightarrow> j = k"
  using parse_digits_value [of 0 "show_nat j" k] digits_value [of j]
  by (simp add: ParseUint_def split: if_splits)

end
