(* ===== verification/LayeredPool.thy ===== *)
theory LayeredPool
  imports PoolBase
begin

text \<open>The layered key pool of src/internal/keypool/memory_pool.go over the sharded store: per
  group a validation pool (a set), a ready and an active pool (lists) and a cooling pool (a
  sorted set scored by the reset time), and one hash of details per key. Times are nanoseconds,
  a score is in seconds. The n-th database call of a history fails as the list \<^verbatim>\<open>lfaults\<close> says.
  Metrics, events and logs only observe and are left out.\<close>

section \<open>The local cache\<close>

record localKeyCache =
  ccache :: "(nat, PoolKey \<times> int) gomap"
  cmaxSize :: int
  cttl :: int

definition cache_Set :: "int \<Rightarrow> nat \<Rightarrow> PoolKey \<Rightarrow> localKeyCache \<Rightarrow> localKeyCache" where
  "cache_Set now kid key c = c\<lparr>ccache := gput kid (key, now + cttl c) (ccache c)\<rparr>"

definition cache_Get :: "int \<Rightarrow> nat \<Rightarrow> localKeyCache \<Rightarrow> localKeyCache \<times> PoolKey option" where
  "cache_Get now kid c =
    (case gget (ccache c) kid of
       None \<Rightarrow> (c, None)
     | Some (key, et) \<Rightarrow>
         if now > et then (c\<lparr>ccache := gdel kid (ccache c)\<rparr>, None) else (c, Some key))"

definition cache_Remove :: "nat \<Rightarrow> localKeyCache \<Rightarrow> localKeyCache" where
  "cache_Remove kid c = c\<lparr>ccache := gdel kid (ccache c)\<rparr>"

definition cache_cleanupExpired :: "int \<Rightarrow> localKeyCache \<Rightarrow> localKeyCache" where
  "cache_cleanupExpired now c =
     c\<lparr>ccache := filter (\<lambda>(kid, key, et). \<not> now > et) (ccache c)\<rparr>"

text \<open>The two loops of UpdateConfig that collect the keys to remove, each over the map in an
  order of its own: expired entries first, then any others, until there are enough.\<close>

fun collect_expired :: "int \<Rightarrow> int \<Rightarrow> (nat \<times> PoolKey \<times> int) list \<Rightarrow> nat list \<Rightarrow> nat list" where
  "collect_expired now need [] acc = acc"
| "collect_expired now need ((kid, key, et) # es) acc =
    (if int (length acc) \<ge> need then acc
     else collect_expired now need es (if now > et then acc @ [kid] else acc))"

fun collect_any :: "int \<Rightarrow> nat list \<Rightarrow> nat list \<Rightarrow> nat list" where
  "collect_any need [] acc = acc"
| "collect_any need (kid # ks) acc =
    (if int (length acc) \<ge> need then acc
     else collect_any need ks (if kid \<in> set acc then acc else acc @ [kid]))"

definition cache_UpdateConfig :: "(nat \<times> PoolKey \<times> int) iter \<Rightarrow> nat iter \<Rightarrow> int \<Rightarrow>
    (int \<times> int) option \<Rightarrow> localKeyCache \<Rightarrow> string + localKeyCache" where
  "cache_UpdateConfig eo ko now config c =
    (case config of
       None \<Rightarrow> Inl ''config cannot be nil''
     | Some (maxSize, ttl) \<Rightarrow>
         (let c1 = c\<lparr>cmaxSize := maxSize, cttl := ttl\<rparr>;
              need = int (length (ccache c1)) - cmaxSize c1 in
          if need > 0
          then (let k1 = collect_expired now need (eo (ccache c1)) [];
                    k2 = (if int (length k1) < need
                          then collect_any need (ko (map fst (ccache c1))) k1 else k1)
                in Inr (c1\<lparr>ccache := fold gdel k2 (ccache c1)\<rparr>))
          else Inr c1))"

section \<open>State\<close>

record lp = pool_db +
  lstore :: sstore
  localCache :: "localKeyCache option"

type_synonym 'a lact = "(lp, 'a) act"

definition on_store :: "(sstore \<Rightarrow> sstore \<times> 'a sres) \<Rightarrow> 'a lact" where
  "on_store f p = (case f (lstore p) of (s, r) \<Rightarrow> (p\<lparr>lstore := s\<rparr>, map_sum StoreErr id r))"

definition on_cache :: "(localKeyCache \<Rightarrow> localKeyCache) \<Rightarrow> unit lact" where
  "on_cache f p = (p\<lparr>localCache := map_option f (localCache p)\<rparr>, Inr ())"

section \<open>Names, details and configuration\<close>

definition getRedisKey :: "nat \<Rightarrow> PoolType \<Rightarrow> string" where
  "getRedisKey gid t = ''memory_pool:group:'' @ show_nat gid @ '':'' @ pool_text t"

definition getKeyDetailsKey :: "nat \<Rightarrow> string" where
  "getKeyDetailsKey kid = ''memory_pool:key:'' @ show_nat kid"

definition getKeyDetails :: "nat \<Rightarrow> (string, string) gomap lact" where
  "getKeyDetails kid = on_store (sh_HGetAll (getKeyDetailsKey kid))"

definition setKeyDetails :: "nat \<Rightarrow> (string \<times> goany) list \<Rightarrow> unit lact" where
  "setKeyDetails kid details = on_store (sh_HSet (getKeyDetailsKey kid) details)"

text \<open>The prologue of the operations that take a key: its details, then its group.\<close>

definition with_group :: "nat \<Rightarrow> ((string, string) gomap \<Rightarrow> nat \<Rightarrow> 'a lact) \<Rightarrow> 'a lact" where
  "with_group kid cont =
    bindE (wrap ErrorTypeStorage ''KEY_DETAILS_FAILED'' (getKeyDetails kid)) (\<lambda>details.
      case gget details ''group_id'' of
        None \<Rightarrow> fail (PoolError ErrorTypeValidation ''MISSING_GROUP_ID'' None)
      | Some t \<Rightarrow>
          (case ParseUint t of
             (_, Some _) \<Rightarrow> fail (PoolError ErrorTypeInternal ''INVALID_GROUP_ID'' None)
           | (gid, None) \<Rightarrow> cont details gid))"

text \<open>A time is stored as text by fmt.Sprint, in a format the model takes as an argument.\<close>

definition syncKeyDetailsToRedis :: "(int \<Rightarrow> string) \<Rightarrow> nat \<Rightarrow> nat \<Rightarrow> unit lact" where
  "syncKeyDetailsToRedis tf kid gid =
    bindE (first_key kid) (\<lambda>key. setKeyDetails kid
      [(''id'', AUint (ID key)), (''group_id'', AUint (GroupID key)),
       (''key_value'', AStr (KeyValue key)), (''status'', AStr (Status key)),
       (''created_at'', AStr (tf (CreatedAt key))), (''updated_at'', AStr (tf (UpdatedAt key)))])"

definition buildAPIKeyFromDetails :: "nat \<Rightarrow> nat \<Rightarrow> (string, string) gomap \<Rightarrow> PoolKey lact" where
  "buildAPIKeyFromDetails kid gid details =
    (case gget details ''key_value'' of
       None \<Rightarrow> fail (PoolError ErrorTypeValidation ''MISSING_KEY_VALUE'' None)
     | Some keyValue \<Rightarrow> ret
         \<lparr>ID = kid, KeyValue = keyValue, GroupID = gid,
          Status = (if field_text details ''status'' = [] then KeyStatusActive
                    else field_text details ''status''),
          FailureCount = fst (ParseInt (field_text details ''failure_count'')),
          RateLimitCount = fst (ParseInt (field_text details ''rate_limit_count'')),
          Last429At = details_time details ''last_429_at'',
          RateLimitResetAt = details_time details ''rate_limit_reset_at'',
          CreatedAt = unix_time (fst (ParseInt (field_text details ''created_at''))),
          RequestCount = fst (ParseInt (field_text details ''request_count'')),
          LastUsedAt = details_time details ''last_used_at'',
          UpdatedAt = zero_time\<rparr>)"

section \<open>Adding to and removing from a pool\<close>

definition lp_push :: "nat \<Rightarrow> PoolType \<Rightarrow> nat \<Rightarrow> unit lact" where
  "lp_push gid t kid = on_store (sh_LPush (getRedisKey gid t) [AUint kid])"

definition lp_rem :: "nat \<Rightarrow> PoolType \<Rightarrow> nat \<Rightarrow> unit lact" where
  "lp_rem gid t kid = on_store (sh_LRem (getRedisKey gid t) 0 (AUint kid))"

definition addToListPool :: "(int \<Rightarrow> string) \<Rightarrow> nat \<Rightarrow> PoolType \<Rightarrow> nat list \<Rightarrow> unit lact" where
  "addToListPool tf gid t kids =
    (if kids = [] then ret ()
     else bindE (for_each (\<lambda>kid. wrap ErrorTypeStorage ''LPUSH_FAILED'' (lp_push gid t kid)) kids)
       (\<lambda>_. for_each (\<lambda>kid. logged (syncKeyDetailsToRedis tf kid gid)) kids))"

definition addToReadyPool :: "(int \<Rightarrow> string) \<Rightarrow> nat \<Rightarrow> nat list \<Rightarrow> unit lact" where
  "addToReadyPool tf gid kids = addToListPool tf gid PoolTypeReady kids"

definition addToActivePool :: "(int \<Rightarrow> string) \<Rightarrow> nat \<Rightarrow> nat list \<Rightarrow> unit lact" where
  "addToActivePool tf gid kids = addToListPool tf gid PoolTypeActive kids"

definition addToValidationPool :: "nat \<Rightarrow> nat list \<Rightarrow> unit lact" where
  "addToValidationPool gid kids =
    (if kids = [] then ret ()
     else on_store (sh_SAdd (getRedisKey gid PoolTypeValidation) (map AUint kids)))"

definition addToCoolingPool :: "nat \<Rightarrow> nat \<Rightarrow> int \<Rightarrow> unit lact" where
  "addToCoolingPool gid kid resetAt =
    on_store (sh_ZAdd (getRedisKey gid PoolTypeCooling) [(AUint kid, unix resetAt)])"

definition addKeysToPool :: "(int \<Rightarrow> string) \<Rightarrow> nat \<Rightarrow> nat list \<Rightarrow> PoolType \<Rightarrow> unit lact" where
  "addKeysToPool tf gid kids t =
    (if kids = [] then ret ()
     else bindE (wrap ErrorTypeStorage ''DB_QUERY_FAILED'' (find_keys gid kids)) (\<lambda>keys.
       if keys = [] then fail (PoolError ErrorTypeValidation ''NO_KEYS_FOUND'' None)
       else let validKeyIDs = map ID (filter (\<lambda>k. Status k = KeyStatusActive \<or>
                                                 Status k = KeyStatusRateLimited) keys) in
       if validKeyIDs = [] then fail (PoolError ErrorTypeValidation ''NO_VALID_KEYS'' None)
       else (case t of
           PoolTypeValidation \<Rightarrow> addToValidationPool gid validKeyIDs
         | PoolTypeReady \<Rightarrow> addToReadyPool tf gid validKeyIDs
         | PoolTypeActive \<Rightarrow> addToActivePool tf gid validKeyIDs
         | PoolTypeCooling \<Rightarrow> fail (PoolError ErrorTypeValidation ''INVALID_POOL_TYPE'' None)
         | PoolTypeOther _ \<Rightarrow> fail (PoolError ErrorTypeValidation ''UNKNOWN_POOL_TYPE'' None))))"

definition lp_AddKeys :: "(int \<Rightarrow> string) \<Rightarrow> nat \<Rightarrow> nat list \<Rightarrow> unit lact" where
  "lp_AddKeys tf gid kids =
    (if kids = [] then ret () else addKeysToPool tf gid kids PoolTypeValidation)"

definition removeFromListPool :: "nat \<Rightarrow> PoolType \<Rightarrow> nat list \<Rightarrow> unit lact" where
  "removeFromListPool gid t kids = for_each (lp_rem gid t) kids"

definition removeFromValidationPool :: "nat \<Rightarrow> nat list \<Rightarrow> unit lact" where
  "removeFromValidationPool gid kids =
    on_store (sh_SRem (getRedisKey gid PoolTypeValidation) (map AUint kids))"

definition removeFromCoolingPool :: "nat \<Rightarrow> nat list \<Rightarrow> unit lact" where
  "removeFromCoolingPool gid kids =
    on_store (sh_ZRem (getRedisKey gid PoolTypeCooling) (map AUint kids))"

definition removeKeysFromPool :: "nat \<Rightarrow> nat list \<Rightarrow> PoolType \<Rightarrow> unit lact" where
  "removeKeysFromPool gid kids t =
    (if kids = [] then ret ()
     else (case t of
         PoolTypeValidation \<Rightarrow> removeFromValidationPool gid kids
       | PoolTypeReady \<Rightarrow> removeFromListPool gid PoolTypeReady kids
       | PoolTypeActive \<Rightarrow> removeFromListPool gid PoolTypeActive kids
       | PoolTypeCooling \<Rightarrow> removeFromCoolingPool gid kids
       | PoolTypeOther _ \<Rightarrow> fail (PoolError ErrorTypeValidation ''UNKNOWN_POOL_TYPE'' None)))"

definition lp_RemoveKeys :: "nat \<Rightarrow> nat list \<Rightarrow> unit lact" where
  "lp_RemoveKeys gid kids =
    (if kids = [] then ret ()
     else bindE (for_each (\<lambda>t. logged (removeKeysFromPool gid kids t)) all_pools)
       (\<lambda>_. for_each (\<lambda>kid. bindE (logged (on_store (sh_Delete (getKeyDetailsKey kid))))
                              (\<lambda>_. on_cache (cache_Remove kid))) kids))"

section \<open>Refill and selection\<close>

definition getPoolSize :: "string iter \<Rightarrow> nat \<Rightarrow> PoolType \<Rightarrow> int lact" where
  "getPoolSize so gid t =
    (case t of
       PoolTypeValidation \<Rightarrow>
         bindE (on_store (sh_SMembers so (getRedisKey gid t))) (\<lambda>ms. ret (int (length ms)))
     | PoolTypeReady \<Rightarrow> on_store (sh_LLen (getRedisKey gid t))
     | PoolTypeActive \<Rightarrow> on_store (sh_LLen (getRedisKey gid t))
     | PoolTypeCooling \<Rightarrow> on_store (sh_ZCard (getRedisKey gid t))
     | PoolTypeOther _ \<Rightarrow> fail (PoolError ErrorTypeValidation ''UNKNOWN_POOL_TYPE'' None))"

fun moveToActivePool :: "nat \<Rightarrow> nat \<Rightarrow> nat list lact" where
  "moveToActivePool gid 0 p = (p, Inr [])"
| "moveToActivePool gid (Suc n) p =
    (case on_store (sh_Rotate (getRedisKey gid PoolTypeReady)) p of
       (p1, Inl e) \<Rightarrow> if e = StoreErr ErrNotFound then (p1, Inr []) else (p1, Inl e)
     | (p1, Inr t) \<Rightarrow>
         (case ParseUint t of
            (_, Some _) \<Rightarrow> moveToActivePool gid n p1
          | (kid, None) \<Rightarrow>
              bindE (lp_push gid PoolTypeActive kid) (\<lambda>_.
                bindE (moveToActivePool gid n) (\<lambda>moved. ret (kid # moved))) p1))"

definition lp_RefillPools :: "string iter \<Rightarrow> nat \<Rightarrow> unit lact" where
  "lp_RefillPools so gid p =
    (case lp_getGroupConfig gid p of (p0, config) \<Rightarrow>
      bindE (wrap ErrorTypeStorage ''GET_ACTIVE_COUNT_FAILED'' (getPoolSize so gid PoolTypeActive))
        (\<lambda>activeCount.
          let needRefill = MinActiveKeys config - activeCount in
          if needRefill \<le> 0 then ret ()
          else let n = (if needRefill > RefillBatchSize config then RefillBatchSize config
                        else needRefill) in
               bindE (wrap ErrorTypeStorage ''MOVE_TO_ACTIVE_FAILED'' (moveToActivePool gid (nat n)))
                 (\<lambda>_. ret ())) p0)"

text \<open>getCachedKey always returns nil, so every selection goes to the active pool.\<close>

definition select_after_rotate :: "int \<Rightarrow> nat \<Rightarrow> string \<Rightarrow> PoolKey lact" where
  "select_after_rotate now gid t =
    (case ParseUint t of
       (_, Some _) \<Rightarrow> fail (PoolError ErrorTypeInternal ''INVALID_KEY_ID'' None)
     | (kid, None) \<Rightarrow>
         bindE (wrap ErrorTypeStorage ''KEY_DETAILS_FAILED'' (getKeyDetails kid)) (\<lambda>details.
         bindE (buildAPIKeyFromDetails kid gid details) (\<lambda>apiKey.
         bindE (on_cache (cache_Set now kid apiKey)) (\<lambda>_. ret apiKey))))"

definition lp_SelectKey :: "string iter \<Rightarrow> int \<Rightarrow> nat \<Rightarrow> PoolKey lact" where
  "lp_SelectKey so now gid p =
    (case on_store (sh_Rotate (getRedisKey gid PoolTypeActive)) p of
       (p1, Inr t) \<Rightarrow> select_after_rotate now gid t p1
     | (p1, Inl e) \<Rightarrow>
         if e = StoreErr ErrNotFound
         then bindE (wrap ErrorTypeCapacity ''REFILL_FAILED'' (lp_RefillPools so gid)) (\<lambda>_ p2.
           case on_store (sh_Rotate (getRedisKey gid PoolTypeActive)) p2 of
             (p3, Inr t) \<Rightarrow> select_after_rotate now gid t p3
           | (p3, Inl e) \<Rightarrow>
               if e = StoreErr ErrNotFound then (p3, Inl ErrPoolEmpty)
               else (p3, Inl (PoolError ErrorTypeStorage ''SELECT_FAILED'' (Some e)))) p1
         else (p1, Inl (PoolError ErrorTypeStorage ''SELECT_FAILED'' (Some e))))"

section \<open>Returning, rate limits, recovery\<close>

definition updateKeyStats :: "int \<Rightarrow> nat \<Rightarrow> bool \<Rightarrow> unit lact" where
  "updateKeyStats now kid success = logged (bindE (getKeyDetails kid) (\<lambda>details.
     setKeyDetails kid
       ([(''request_count'', AInt (i64 (fst (ParseInt (field_text details ''request_count'')) + 1))),
         (''last_used_at'', AInt (unix now))] @
        (if success then [(''failure_count'', AInt 0)] else []))))"

definition handleKeyFailure :: "nat \<Rightarrow> nat \<Rightarrow> unit lact" where
  "handleKeyFailure kid gid =
    bindE (getKeyDetails kid) (\<lambda>details.
    let newFailureCount = i64 (fst (ParseInt (field_text details ''failure_count'')) + 1) in
    bindE (wrap ErrorTypeStorage ''GROUP_NOT_FOUND'' (first_group gid)) (\<lambda>blacklistThreshold.
    let blacklist = (blacklistThreshold > 0 \<and> newFailureCount \<ge> blacklistThreshold) in
    bindE (if blacklist then logged (lp_rem gid PoolTypeActive kid)
           else wrap ErrorTypeStorage ''RETURN_FAILED'' (lp_push gid PoolTypeActive kid)) (\<lambda>_.
    wrap ErrorTypeStorage ''UPDATE_DETAILS_FAILED'' (setKeyDetails kid
      ((''failure_count'', AInt newFailureCount) #
       (if blacklist then [(''status'', AStr KeyStatusInvalid)] else []))))))"

definition lp_ReturnKey :: "int \<Rightarrow> nat \<Rightarrow> bool \<Rightarrow> unit lact" where
  "lp_ReturnKey now kid success = with_group kid (\<lambda>details gid.
    if success
    then bindE (wrap ErrorTypeStorage ''RETURN_FAILED'' (lp_push gid PoolTypeActive kid))
           (\<lambda>_. updateKeyStats now kid True)
    else handleKeyFailure kid gid)"

definition lp_HandleRateLimit :: "int \<Rightarrow> nat \<Rightarrow> int \<Rightarrow> int option \<Rightarrow> unit lact" where
  "lp_HandleRateLimit now kid retryAfter resetAtOpt = with_group kid (\<lambda>details gid.
    let resetAt = reset_time now retryAfter resetAtOpt in
    bindE (logged (lp_rem gid PoolTypeActive kid)) (\<lambda>_.
    bindE (wrap ErrorTypeStorage ''COOLING_FAILED'' (addToCoolingPool gid kid resetAt)) (\<lambda>_.
    bindE (wrap ErrorTypeStorage ''UPDATE_DETAILS_FAILED'' (setKeyDetails kid
      [(''status'', AStr KeyStatusRateLimited),
       (''rate_limit_count'', AInt (incrementRateLimitCount details)),
       (''last_429_at'', AInt (unix now)), (''rate_limit_reset_at'', AInt (unix resetAt))])) (\<lambda>_.
    on_cache (cache_Remove kid)))))"

definition executeAtomicMove ::
  "(int \<Rightarrow> string) \<Rightarrow> nat \<Rightarrow> nat \<Rightarrow> PoolType \<Rightarrow> PoolType \<Rightarrow> unit lact" where
  "executeAtomicMove tf kid gid fromPool toPool =
    bindE (wrap ErrorTypeStorage ''REMOVE_FROM_SOURCE_FAILED'' (removeKeysFromPool gid [kid] fromPool))
      (\<lambda>_ p. case addKeysToPool tf gid [kid] toPool p of
         (p1, Inr _) \<Rightarrow> (p1, Inr ())
       | (p1, Inl e) \<Rightarrow>
           (fst (logged (addKeysToPool tf gid [kid] fromPool) p1),
            Inl (PoolError ErrorTypeStorage ''ADD_TO_TARGET_FAILED'' (Some e))))"

definition lp_MoveKey :: "(int \<Rightarrow> string) \<Rightarrow> nat \<Rightarrow> PoolType \<Rightarrow> PoolType \<Rightarrow> unit lact" where
  "lp_MoveKey tf kid fromPool toPool = with_group kid (\<lambda>details gid.
    if fromPool = toPool then fail (PoolError ErrorTypeValidation ''SAME_POOL'' None)
    else executeAtomicMove tf kid gid fromPool toPool)"

definition getExpiredFromCoolingPool ::
  "(string \<times> int) iter \<Rightarrow> int \<Rightarrow> nat \<Rightarrow> nat list lact" where
  "getExpiredFromCoolingPool zo now gid =
    bindE (on_store (sh_ZRangeByScore zo (getRedisKey gid PoolTypeCooling) 0 (unix now)))
      (\<lambda>ms. ret (map (fst \<circ> ParseUint) (filter (\<lambda>m. snd (ParseUint m) = None) ms)))"

definition recoverSingleCooledKey :: "(int \<Rightarrow> string) \<Rightarrow> nat \<Rightarrow> nat \<Rightarrow> unit lact" where
  "recoverSingleCooledKey tf gid kid =
    bindE (removeFromCoolingPool gid [kid]) (\<lambda>_.
    bindE (setKeyDetails kid [(''status'', AStr KeyStatusActive), (''rate_limit_reset_at'', ANil)])
      (\<lambda>_. addToReadyPool tf gid [kid]))"

fun recover_cooled :: "(int \<Rightarrow> string) \<Rightarrow> nat \<Rightarrow> nat list \<Rightarrow> lp \<Rightarrow> lp \<times> int" where
  "recover_cooled tf gid [] p = (p, 0)"
| "recover_cooled tf gid (kid # kids) p =
    (case recoverSingleCooledKey tf gid kid p of
       (p1, Inl _) \<Rightarrow> recover_cooled tf gid kids p1
     | (p1, Inr _) \<Rightarrow> (case recover_cooled tf gid kids p1 of (p2, n) \<Rightarrow> (p2, n + 1)))"

definition lp_RecoverCooledKeys ::
  "(int \<Rightarrow> string) \<Rightarrow> (string \<times> int) iter \<Rightarrow> int \<Rightarrow> nat \<Rightarrow> int lact" where
  "lp_RecoverCooledKeys tf zo now gid =
    bindE (wrap ErrorTypeStorage ''GET_EXPIRED_KEYS_FAILED'' (getExpiredFromCoolingPool zo now gid))
      (\<lambda>expiredKeys p. case recover_cooled tf gid expiredKeys p of (p', n) \<Rightarrow> (p', Inr n))"

section \<open>Validation, statistics, maintenance\<close>

text \<open>The validator is a component the pool is given: a function from the keys to pairs of a key
  id and a verdict.\<close>

definition lp_ValidateKeys ::
  "(PoolKey list \<Rightarrow> (nat \<times> bool) list) option \<Rightarrow> nat \<Rightarrow> nat list \<Rightarrow> unit lact" where
  "lp_ValidateKeys validator gid kids =
    (case validator of
       None \<Rightarrow> fail (PoolError ErrorTypeConfiguration ''NO_VALIDATOR'' None)
     | Some ValidateBatch \<Rightarrow>
         bindE (wrap ErrorTypeStorage ''GROUP_NOT_FOUND'' (first_group gid)) (\<lambda>_.
         bindE (wrap ErrorTypeStorage ''KEYS_NOT_FOUND'' (find_keys gid kids)) (\<lambda>keys.
         let invalidKeys = map fst (filter (\<lambda>r. \<not> snd r) (ValidateBatch keys)) in
         if invalidKeys = [] then ret () else logged (lp_RemoveKeys gid invalidKeys))))"

fun pool_counts :: "string iter \<Rightarrow> nat \<Rightarrow> PoolType list \<Rightarrow> lp \<Rightarrow> lp \<times> (PoolType \<times> int) list" where
  "pool_counts so gid [] p = (p, [])"
| "pool_counts so gid (t # ts) p =
    (case getPoolSize so gid t p of
       (p1, Inl _) \<Rightarrow> pool_counts so gid ts p1
     | (p1, Inr n) \<Rightarrow> (case pool_counts so gid ts p1 of (p2, cs) \<Rightarrow> (p2, (t, n) # cs)))"

definition lp_GetPoolStats :: "string iter \<Rightarrow> nat \<Rightarrow> lp \<Rightarrow> lp \<times> (PoolType \<times> int) list \<times> int" where
  "lp_GetPoolStats so gid p =
    (case pool_counts so gid all_pools p of (p', cs) \<Rightarrow> (p', cs, sum_list (map snd cs)))"

definition performMaintenance ::
  "(int \<Rightarrow> string) \<Rightarrow> string iter \<Rightarrow> (string \<times> int) iter \<Rightarrow> int \<Rightarrow> unit lact" where
  "performMaintenance tf so zo now =
    logged (bindE (on_db (\<lambda>p. Inr (lgroups p))) (\<lambda>groups.
      for_each (\<lambda>gid. bindE (logged (lp_RecoverCooledKeys tf zo now gid))
                       (\<lambda>_. logged (lp_RefillPools so gid))) groups))"

text \<open>A new pool is empty; the shard settings come from the memory configuration, and the cache
  exists when sharding is enabled.\<close>

definition NewMemoryLayeredPool :: "int \<Rightarrow> 's FactoryConfig \<Rightarrow> db_err option list \<Rightarrow> lp_err + lp" where
  "NewMemoryLayeredPool now fc faults =
    (let configuration = (\<lambda>code. PoolError ErrorTypeConfiguration code None) in
     case fcDB fc of
       NilValue \<Rightarrow> Inl (configuration ''MISSING_DB'')
     | OtherType \<Rightarrow> Inl (configuration ''INVALID_DB'')
     | Dynamic (rows, groups) \<Rightarrow>
    (case fcSettingsManager fc of
       NilValue \<Rightarrow> Inl (configuration ''INVALID_SETTINGS_MANAGER'')
     | OtherType \<Rightarrow> Inl (configuration ''INVALID_SETTINGS_MANAGER'')
     | Dynamic _ \<Rightarrow>
    (let m = (case fcMemoryConfig fc of None \<Rightarrow> DefaultMemoryPoolConfig | Some m \<Rightarrow> m) in
     case NewShardedMemoryStore now (Some \<lparr>ShardCount = mpShardCount m, LockTimeout = mpLockTimeout m,
            GCInterval = mpGCInterval m, MaxMemoryUsage = mpMaxMemoryUsage m, EnableMetrics = True,
            CacheSize = 1000\<rparr>) of
       Inl e \<Rightarrow> Inl (PoolError ErrorTypeConfiguration ''SHARDED_STORE_FAILED'' (Some (GoErr e)))
     | Inr s \<Rightarrow> Inr \<lparr>ldb = rows, lgroups = groups, lfaults = faults, groupConfigs = [], lstore = s,
         localCache = (if EnableSharding m
           then Some \<lparr>ccache = [], cmaxSize = mpShardCount m * 100, cttl = 300000000000\<rparr>
           else None)\<rparr>)))"

end
