(* ===== verification/LayeredView.thy ===== *)
theory LayeredView
  imports LayeredPool
begin

text \<open>The pools of the layered key pool as mathematical values, and the effect of every store
  call the pool makes on them. The store names are injective, so the pools of one group never
  share an entry with those of another, nor with the details of a key.\<close>

section \<open>Names\<close>

lemma getRedisKey_inj:
  assumes "known t" "known t'"
  shows "getRedisKey g t = getRedisKey g' t' \<longleftrightarrow> g = g' \<and> t = t'"
proof
  assume "getRedisKey g t = getRedisKey g' t'"
  then have "show_nat g @ CHR '':'' # pool_text t = show_nat g' @ CHR '':'' # pool_text t'"
    by (simp add: getRedisKey_def)
  then have "show_nat g = show_nat g'" "pool_text t = pool_text t'"
    using digits_colon [of "show_nat g" "show_nat g'"] show_nat_digits by blast+
  then show "g = g' \<and> t = t'" using show_nat_inj pool_text_inj assms by blast
qed simp

lemma getKeyDetailsKey_inj [simp]: "getKeyDetailsKey k = getKeyDetailsKey k' \<longleftrightarrow> k = k'"
  using show_nat_inj by (auto simp: getKeyDetailsKey_def)

lemma name_disjoint [simp]: "getRedisKey g t \<noteq> getKeyDetailsKey k" "getKeyDetailsKey k \<noteq> getRedisKey g t"
  by (simp_all add: getRedisKey_def getKeyDetailsKey_def)

section \<open>Pools as values\<close>

record pools =
  vals :: "nat \<Rightarrow> string set"
  lists :: "nat \<times> PoolType \<Rightarrow> string list"
  cools :: "nat \<Rightarrow> string \<Rightarrow> int option"
  infos :: "nat \<Rightarrow> string \<Rightarrow> string option"

abbreviation ready :: "'z pools_scheme \<Rightarrow> nat \<Rightarrow> string list" where
  "ready v g \<equiv> lists v (g, PoolTypeReady)"

abbreviation active :: "'z pools_scheme \<Rightarrow> nat \<Rightarrow> string list" where
  "active v g \<equiv> lists v (g, PoolTypeActive)"

definition as_set :: "aval option \<Rightarrow> string set" where
  "as_set x = (case x of Some (VSet S) \<Rightarrow> S | _ \<Rightarrow> {})"

definition as_list :: "aval option \<Rightarrow> string list" where
  "as_list x = (case x of Some (VList l) \<Rightarrow> l | _ \<Rightarrow> [])"

definition as_zset :: "aval option \<Rightarrow> string \<Rightarrow> int option" where
  "as_zset x = (case x of Some (VZSet z) \<Rightarrow> z | _ \<Rightarrow> Map.empty)"

definition as_hash :: "aval option \<Rightarrow> string \<Rightarrow> string option" where
  "as_hash x = (case x of Some (VHash h) \<Rightarrow> h | _ \<Rightarrow> Map.empty)"

definition aview :: "astore \<Rightarrow> pools" where
  "aview A = \<lparr>vals = (\<lambda>g. as_set (A (getRedisKey g PoolTypeValidation))),
     lists = (\<lambda>(g, t). if list_pool t then as_list (A (getRedisKey g t)) else []),
     cools = (\<lambda>g. as_zset (A (getRedisKey g PoolTypeCooling))),
     infos = (\<lambda>k. as_hash (A (getKeyDetailsKey k)))\<rparr>"

definition atyped :: "astore \<Rightarrow> bool" where
  "atyped A \<longleftrightarrow>
    (\<forall>g. A (getRedisKey g PoolTypeValidation) \<in> insert None (Some ` range VSet)) \<and>
    (\<forall>g t. list_pool t \<longrightarrow> A (getRedisKey g t) \<in> insert None (Some ` range VList)) \<and>
    (\<forall>g. A (getRedisKey g PoolTypeCooling) \<in> insert None (Some ` range VZSet)) \<and>
    (\<forall>k. A (getKeyDetailsKey k) \<in> insert None (Some ` range VHash))"

lemma atyped_cases:
  assumes "atyped A"
  shows "A (getRedisKey g PoolTypeValidation) = None \<or>
      (\<exists>S. A (getRedisKey g PoolTypeValidation) = Some (VSet S))"
    "list_pool t \<Longrightarrow> A (getRedisKey g t) = None \<or> (\<exists>l. A (getRedisKey g t) = Some (VList l))"
    "A (getRedisKey g PoolTypeCooling) = None \<or>
      (\<exists>z. A (getRedisKey g PoolTypeCooling) = Some (VZSet z))"
    "A (getKeyDetailsKey k) = None \<or> (\<exists>h. A (getKeyDetailsKey k) = Some (VHash h))"
  using assms unfolding atyped_def image_iff insert_iff by (metis rangeE)+

lemma as_values [simp]: "as_set (Some (VSet S)) = S" "as_list (Some (VList l)) = l"
  "as_zset (Some (VZSet z)) = z" "as_hash (Some (VHash h)) = h" "as_hash None = Map.empty"
  "as_list None = []"
  by (simp_all add: as_set_def as_list_def as_zset_def as_hash_def)

lemma aview_val: "aview (A(getRedisKey g PoolTypeValidation \<mapsto> VSet S)) =
    (aview A)\<lparr>vals := (vals (aview A))(g := S)\<rparr>"
  by (simp add: aview_def getRedisKey_inj fun_eq_iff)

lemma aview_cool: "aview (A(getRedisKey g PoolTypeCooling \<mapsto> VZSet z)) =
    (aview A)\<lparr>cools := (cools (aview A))(g := z)\<rparr>"
  by (simp add: aview_def getRedisKey_inj fun_eq_iff)

lemma aview_info: "aview (A(getKeyDetailsKey k \<mapsto> VHash h)) =
    (aview A)\<lparr>infos := (infos (aview A))(k := h)\<rparr>"
  by (simp add: aview_def fun_eq_iff)

lemma aview_no_info: "aview (A(getKeyDetailsKey k := None)) =
    (aview A)\<lparr>infos := (infos (aview A))(k := Map.empty)\<rparr>"
  by (simp add: aview_def fun_eq_iff)

lemma aview_list: "list_pool t \<Longrightarrow> aview (A(getRedisKey g t \<mapsto> VList l)) =
    (aview A)\<lparr>lists := (lists (aview A))((g, t) := l)\<rparr>"
  by (elim disjE) (simp_all add: aview_def getRedisKey_inj fun_eq_iff)

lemmas aview_upd = aview_val aview_list aview_cool aview_info aview_no_info

lemma atyped_upd:
  assumes "atyped A"
  shows "atyped (A(getRedisKey g PoolTypeValidation \<mapsto> VSet S))"
    "list_pool t \<Longrightarrow> atyped (A(getRedisKey g t \<mapsto> VList l))"
    "atyped (A(getRedisKey g PoolTypeCooling \<mapsto> VZSet z))"
    "atyped (A(getKeyDetailsKey k \<mapsto> VHash h))"
    "atyped (A(getKeyDetailsKey k := None))"
  using assms by (auto simp: atyped_def getRedisKey_inj)

section \<open>The store calls\<close>

definition store_ok :: "sstore \<Rightarrow> bool" where
  "store_ok s \<longleftrightarrow> sh_inv s \<and> atyped (sh_abs s)"

definition sview :: "sstore \<Rightarrow> pools" where
  "sview s = aview (sh_abs s)"

lemma view_push:
  assumes "store_ok s" "list_pool t"
  shows "\<exists>s'. sh_LPush (getRedisKey g t) xs s = (s', Inr ()) \<and> store_ok s' \<and>
    sview s' = (sview s)\<lparr>lists := (lists (sview s))((g, t) := map Sprint xs @ lists (sview s) (g, t))\<rparr>"
proof -
  obtain s' r where e: "sh_LPush (getRedisKey g t) xs s = (s', r)" by fastforce
  have A: "sh_inv s" "atyped (sh_abs s)" using assms(1) by (simp_all add: store_ok_def)
  have l: "lists (sview s) (g, t) = as_list (sh_abs s (getRedisKey g t))"
    using assms(2) by (auto simp: sview_def aview_def)
  have "r = Inr () \<and> sh_abs s' = (sh_abs s)(getRedisKey g t \<mapsto>
      VList (map Sprint xs @ lists (sview s) (g, t)))"
    using sharded.sim_LPush [OF A(1) e] atyped_cases(2) [OF A(2) assms(2), of g] l
    by (auto simp: spec_LPush_def as_list_def)
  then show ?thesis
    using sharded.sim_LPush [OF A(1) e] e atyped_upd(2) [OF A(2) assms(2)] aview_upd(2) [OF assms(2)]
    by (simp add: store_ok_def sview_def)
qed

lemma view_rem:
  assumes "store_ok s" "list_pool t"
  shows "\<exists>s'. sh_LRem (getRedisKey g t) 0 v s = (s', Inr ()) \<and> store_ok s' \<and>
    sview s' = (sview s)\<lparr>lists := (lists (sview s))((g, t) :=
      removeAll (Sprint v) (lists (sview s) (g, t)))\<rparr>"
proof -
  obtain s' r where e: "sh_LRem (getRedisKey g t) 0 v s = (s', r)" by fastforce
  have A: "sh_inv s" "atyped (sh_abs s)" using assms(1) by (simp_all add: store_ok_def)
  have l: "lists (sview s) (g, t) = as_list (sh_abs s (getRedisKey g t))"
    using assms(2) by (auto simp: sview_def aview_def)
  show ?thesis
  proof (cases "sh_abs s (getRedisKey g t)")
    case None
    then have "r = Inr () \<and> sh_abs s' = sh_abs s"
      using sharded.sim_LRem [OF A(1) e] by (simp add: spec_LRem_def)
    then show ?thesis
      using sharded.sim_LRem [OF A(1) e] e A(2) l None
      by (simp add: store_ok_def sview_def as_list_def fun_upd_idem)
  next
    case (Some a)
    then have "r = Inr () \<and> sh_abs s' = (sh_abs s)(getRedisKey g t \<mapsto>
        VList (removeAll (Sprint v) (lists (sview s) (g, t))))"
      using sharded.sim_LRem [OF A(1) e] atyped_cases(2) [OF A(2) assms(2), of g] l
      by (auto simp: spec_LRem_def as_list_def)
    then show ?thesis
      using sharded.sim_LRem [OF A(1) e] e atyped_upd(2) [OF A(2) assms(2)] aview_upd(2) [OF assms(2)]
      by (simp add: store_ok_def sview_def)
  qed
qed

lemma view_rotate:
  assumes "store_ok s" "list_pool t"
  shows "(lists (sview s) (g, t) = [] \<longrightarrow> (\<exists>s'. sh_Rotate (getRedisKey g t) s = (s', Inl ErrNotFound) \<and>
      store_ok s' \<and> sview s' = sview s)) \<and>
    (lists (sview s) (g, t) \<noteq> [] \<longrightarrow> (\<exists>s'. sh_Rotate (getRedisKey g t) s =
        (s', Inr (last (lists (sview s) (g, t)))) \<and> store_ok s' \<and>
      sview s' = (sview s)\<lparr>lists := (lists (sview s))((g, t) :=
        last (lists (sview s) (g, t)) # butlast (lists (sview s) (g, t)))\<rparr>))"
proof -
  obtain s' r where e: "sh_Rotate (getRedisKey g t) s = (s', r)" by fastforce
  have A: "sh_inv s" "atyped (sh_abs s)" using assms(1) by (simp_all add: store_ok_def)
  have l: "lists (sview s) (g, t) = as_list (sh_abs s (getRedisKey g t))"
    using assms(2) by (auto simp: sview_def aview_def)
  show ?thesis
  proof (cases "lists (sview s) (g, t) = []")
    case True
    then have "r = Inl ErrNotFound \<and> sh_abs s' = sh_abs s"
      using sharded.sim_Rotate [OF A(1) e] atyped_cases(2) [OF A(2) assms(2), of g] l
      by (auto simp: spec_Rotate_def as_list_def)
    then show ?thesis
      using sharded.sim_Rotate [OF A(1) e] e A True by (simp add: store_ok_def sview_def)
  next
    case False
    then have "r = Inr (last (lists (sview s) (g, t))) \<and> sh_abs s' = (sh_abs s)(getRedisKey g t \<mapsto>
        VList (last (lists (sview s) (g, t)) # butlast (lists (sview s) (g, t))))"
      using sharded.sim_Rotate [OF A(1) e] atyped_cases(2) [OF A(2) assms(2), of g] l
      by (auto simp: spec_Rotate_def as_list_def)
    then show ?thesis
      using sharded.sim_Rotate [OF A(1) e] e atyped_upd(2) [OF A(2) assms(2)]
        aview_upd(2) [OF assms(2)] False
      by (simp add: store_ok_def sview_def)
  qed
qed

lemma view_len:
  assumes "store_ok s" "list_pool t"
  shows "\<exists>s'. sh_LLen (getRedisKey g t) s = (s', Inr (int (length (lists (sview s) (g, t))))) \<and>
    store_ok s' \<and> sview s' = sview s"
proof -
  obtain s' r where e: "sh_LLen (getRedisKey g t) s = (s', r)" by fastforce
  have A: "sh_inv s" "atyped (sh_abs s)" using assms(1) by (simp_all add: store_ok_def)
  have l: "lists (sview s) (g, t) = as_list (sh_abs s (getRedisKey g t))"
    using assms(2) by (auto simp: sview_def aview_def)
  have "flat s (getRedisKey g t) = None \<or> (\<exists>l. flat s (getRedisKey g t) = Some (ListV l))"
    using atyped_cases(2) [OF A(2) assms(2), of g]
    by (cases "flat s (getRedisKey g t)"; cases "the (flat s (getRedisKey g t))")
      (auto simp: sh_abs_def mem_abs_def)
  moreover have "sh_inv s' \<and> flat s' = flat s" and "r = Inr (int (length (lists (sview s) (g, t))))"
    using A(1) calculation e l
    by (auto simp: sh_LLen_def shard_simps sh_abs_def mem_abs_def)
  ultimately show ?thesis using e A(2) by (simp add: store_ok_def sview_def sh_abs_def)
qed

lemma view_sadd:
  assumes "store_ok s"
  shows "\<exists>s'. sh_SAdd (getRedisKey g PoolTypeValidation) xs s = (s', Inr ()) \<and> store_ok s' \<and>
    sview s' = (sview s)\<lparr>vals := (vals (sview s))(g := vals (sview s) g \<union> Sprint ` set xs)\<rparr>"
proof -
  obtain s' r where e: "sh_SAdd (getRedisKey g PoolTypeValidation) xs s = (s', r)" by fastforce
  have A: "sh_inv s" "atyped (sh_abs s)" using assms(1) by (simp_all add: store_ok_def)
  have "r = Inr () \<and> sh_abs s' = (sh_abs s)(getRedisKey g PoolTypeValidation \<mapsto>
      VSet (vals (sview s) g \<union> Sprint ` set xs))"
    using sharded.sim_SAdd [OF A(1) e] atyped_cases(1) [OF A(2), of g]
    by (auto simp: spec_SAdd_def sview_def aview_def as_set_def)
  then show ?thesis
    using sharded.sim_SAdd [OF A(1) e] e atyped_upd(1) [OF A(2)]
    by (simp add: store_ok_def sview_def aview_val)
qed

lemma view_srem:
  assumes "store_ok s"
  shows "\<exists>s'. sh_SRem (getRedisKey g PoolTypeValidation) xs s = (s', Inr ()) \<and> store_ok s' \<and>
    sview s' = (sview s)\<lparr>vals := (vals (sview s))(g := vals (sview s) g - Sprint ` set xs)\<rparr>"
proof -
  let ?k = "getRedisKey g PoolTypeValidation"
  obtain s' r where e: "sh_SRem ?k xs s = (s', r)" by fastforce
  have A: "sh_inv s" "atyped (sh_abs s)" using assms(1) by (simp_all add: store_ok_def)
  note sim = sharded.sim_SRem [OF A(1) e]
  show ?thesis
  proof (cases "sh_abs s ?k")
    case None
    then have "vals (sview s) g = {}" by (simp add: sview_def aview_def as_set_def)
    then show ?thesis
      using None sim e A by (simp add: spec_SRem_def store_ok_def sview_def fun_upd_idem)
  next
    case (Some a)
    then have "r = Inr () \<and> sh_abs s' = (sh_abs s)(?k \<mapsto> VSet (vals (sview s) g - Sprint ` set xs))"
      using sim atyped_cases(1) [OF A(2), of g]
      by (auto simp: spec_SRem_def sview_def aview_def)
    then show ?thesis
      using sim e atyped_upd(1) [OF A(2)] by (simp add: store_ok_def sview_def aview_val)
  qed
qed

lemma view_smembers:
  assumes "store_ok s" "iter_order so"
  shows "\<exists>s' ms. sh_SMembers so (getRedisKey g PoolTypeValidation) s = (s', Inr ms) \<and> store_ok s' \<and>
    sview s' = sview s \<and> set ms = vals (sview s) g \<and> distinct ms"
proof -
  let ?k = "getRedisKey g PoolTypeValidation"
  obtain s' r where e: "sh_SMembers so ?k s = (s', r)" by fastforce
  have A: "sh_inv s" "atyped (sh_abs s)" using assms(1) by (simp_all add: store_ok_def)
  note sim = sharded.sim_SMembers [OF A(1) assms(2) e]
  obtain ms where ms: "r = Inr ms" "set ms = vals (sview s) g"
    using sim atyped_cases(1) [OF A(2), of g]
    by (cases r) (auto simp: spec_SMembers_def sview_def aview_def as_set_def)
  have "distinct ms"
    using e ms(1) A(1) flat_at(2) [OF A(1), of ?k] assms(2)
    by (auto simp: sh_SMembers_def shard_simps gomap_ok_def iter_order_distinct
        split: option.splits store_val.splits)
  then show ?thesis using sim e ms A by (simp add: store_ok_def sview_def)
qed

lemma view_zadd:
  assumes "store_ok s"
  shows "\<exists>s'. sh_ZAdd (getRedisKey g PoolTypeCooling) zs s = (s', Inr ()) \<and> store_ok s' \<and>
    sview s' = (sview s)\<lparr>cools := (cools (sview s))(g := zset_upd zs (cools (sview s) g))\<rparr>"
proof -
  obtain s' r where e: "sh_ZAdd (getRedisKey g PoolTypeCooling) zs s = (s', r)" by fastforce
  have A: "sh_inv s" "atyped (sh_abs s)" using assms(1) by (simp_all add: store_ok_def)
  have "r = Inr () \<and> sh_abs s' = (sh_abs s)(getRedisKey g PoolTypeCooling \<mapsto>
      VZSet (zset_upd zs (cools (sview s) g)))"
    using sharded.sim_ZAdd [OF A(1) e] atyped_cases(3) [OF A(2), of g]
    by (auto simp: spec_ZAdd_def sview_def aview_def as_zset_def)
  then show ?thesis
    using sharded.sim_ZAdd [OF A(1) e] e atyped_upd(3) [OF A(2)]
    by (simp add: store_ok_def sview_def aview_cool)
qed

lemma view_zrem:
  assumes "store_ok s"
  shows "\<exists>s'. sh_ZRem (getRedisKey g PoolTypeCooling) xs s = (s', Inr ()) \<and> store_ok s' \<and>
    sview s' = (sview s)\<lparr>cools := (cools (sview s))(g := cools (sview s) g |` (- (Sprint ` set xs)))\<rparr>"
proof -
  let ?k = "getRedisKey g PoolTypeCooling"
  obtain s' r where e: "sh_ZRem ?k xs s = (s', r)" by fastforce
  have A: "sh_inv s" "atyped (sh_abs s)" using assms(1) by (simp_all add: store_ok_def)
  note sim = sharded.sim_ZRem [OF A(1) e]
  show ?thesis
  proof (cases "sh_abs s ?k")
    case None
    then have "cools (sview s) g = Map.empty" by (simp add: sview_def aview_def as_zset_def)
    then show ?thesis
      using None sim e A by (simp add: spec_ZRem_def store_ok_def sview_def fun_upd_idem)
  next
    case (Some a)
    then have "r = Inr () \<and>
        sh_abs s' = (sh_abs s)(?k \<mapsto> VZSet (cools (sview s) g |` (- (Sprint ` set xs))))"
      using sim atyped_cases(3) [OF A(2), of g]
      by (auto simp: spec_ZRem_def sview_def aview_def)
    then show ?thesis
      using sim e atyped_upd(3) [OF A(2)] by (simp add: store_ok_def sview_def aview_cool)
  qed
qed

lemma view_zrange:
  assumes "store_ok s" "iter_order zo"
  shows "\<exists>s' ms. sh_ZRangeByScore zo (getRedisKey g PoolTypeCooling) lo hi s = (s', Inr ms) \<and>
    store_ok s' \<and> sview s' = sview s \<and> range_result (cools (sview s) g) lo hi ms"
proof -
  let ?k = "getRedisKey g PoolTypeCooling"
  obtain s' r where e: "sh_ZRangeByScore zo ?k lo hi s = (s', r)" by fastforce
  have A: "sh_inv s" "atyped (sh_abs s)" using assms(1) by (simp_all add: store_ok_def)
  note sim = sharded.sim_ZRange [OF A(1) assms(2) e]
  obtain ms where "r = Inr ms" "range_result (cools (sview s) g) lo hi ms"
    using sim atyped_cases(3) [OF A(2), of g]
    by (cases r) (auto simp: spec_ZRangeByScore_def sview_def aview_def as_zset_def range_result_def)
  then show ?thesis using sim e A by (simp add: store_ok_def sview_def)
qed

lemma view_zcard:
  assumes "store_ok s"
  shows "\<exists>s'. sh_ZCard (getRedisKey g PoolTypeCooling) s =
    (s', Inr (int (card (dom (cools (sview s) g))))) \<and> store_ok s' \<and> sview s' = sview s"
proof -
  obtain s' r where e: "sh_ZCard (getRedisKey g PoolTypeCooling) s = (s', r)" by fastforce
  have A: "sh_inv s" "atyped (sh_abs s)" using assms(1) by (simp_all add: store_ok_def)
  show ?thesis
    using sharded.sim_ZCard [OF A(1) e] e A atyped_cases(3) [OF A(2), of g]
    by (auto simp: spec_ZCard_def store_ok_def sview_def aview_def as_zset_def)
qed

lemma view_hset:
  assumes "store_ok s"
  shows "\<exists>s'. sh_HSet (getKeyDetailsKey k) vs s = (s', Inr ()) \<and> store_ok s' \<and>
    sview s' = (sview s)\<lparr>infos := (infos (sview s))(k := hash_upd vs (infos (sview s) k))\<rparr>"
proof -
  obtain s' r where e: "sh_HSet (getKeyDetailsKey k) vs s = (s', r)" by fastforce
  have A: "sh_inv s" "atyped (sh_abs s)" using assms(1) by (simp_all add: store_ok_def)
  have "r = Inr () \<and> sh_abs s' = (sh_abs s)(getKeyDetailsKey k \<mapsto>
      VHash (hash_upd vs (infos (sview s) k)))"
    using sharded.sim_HSet [OF A(1) e] atyped_cases(4) [OF A(2), of k]
    by (auto simp: spec_HSet_def sview_def aview_def as_hash_def)
  then show ?thesis
    using sharded.sim_HSet [OF A(1) e] e atyped_upd(4) [OF A(2)]
    by (simp add: store_ok_def sview_def aview_info)
qed

lemma view_hgetall:
  assumes "store_ok s"
  shows "\<exists>s' h. sh_HGetAll (getKeyDetailsKey k) s = (s', Inr h) \<and> store_ok s' \<and>
    sview s' = sview s \<and> gget h = infos (sview s) k"
proof -
  obtain s' r where e: "sh_HGetAll (getKeyDetailsKey k) s = (s', r)" by fastforce
  have A: "sh_inv s" "atyped (sh_abs s)" using assms(1) by (simp_all add: store_ok_def)
  show ?thesis
    using sharded.sim_HGetAll [OF A(1) e] e A atyped_cases(4) [OF A(2), of k]
    by (cases r) (auto simp: spec_HGetAll_def store_ok_def sview_def aview_def as_hash_def)
qed

lemma view_delete:
  assumes "store_ok s"
  shows "\<exists>s'. sh_Delete (getKeyDetailsKey k) s = (s', Inr ()) \<and> store_ok s' \<and>
    sview s' = (sview s)\<lparr>infos := (infos (sview s))(k := Map.empty)\<rparr>"
proof -
  obtain s' r where e: "sh_Delete (getKeyDetailsKey k) s = (s', r)" by fastforce
  have A: "sh_inv s" "atyped (sh_abs s)" using assms(1) by (simp_all add: store_ok_def)
  show ?thesis
    using sharded.sim_Delete [OF A(1) e] e atyped_upd(5) [OF A(2)]
    by (simp add: store_ok_def sview_def spec_Delete_def aview_no_info)
qed

end
