(* ===== verification/PoolLogic.thy ===== *)
theory PoolLogic
  imports PoolBase
begin

text \<open>A small program logic for the actions of a layered pool, proved once for both: \<^verbatim>\<open>sat m p Q\<close>
  says that running \<^verbatim>\<open>m\<close> in a good state \<^verbatim>\<open>p\<close> leaves a good state within the frame of \<^verbatim>\<open>p\<close> (the
  same database and configuration), and that \<^verbatim>\<open>Q\<close> holds of the result and of the view of the
  pools. A pool supplies its states, their good ones, their view and the frame.\<close>

section \<open>The frame of a call\<close>

definition cfg :: "'z pool_db_scheme \<Rightarrow> nat \<Rightarrow> PoolConfig" where
  "cfg p gid = (case gget (groupConfigs p) gid of Some c \<Rightarrow> c | None \<Rightarrow> DefaultPoolConfig gid)"

definition frame :: "'z pool_db_scheme \<Rightarrow> 'z pool_db_scheme \<Rightarrow> bool" where
  "frame p p' \<longleftrightarrow> ldb p' = ldb p \<and> lgroups p' = lgroups p \<and> cfg p' = cfg p \<and>
     (lfaults p = [] \<longrightarrow> lfaults p' = [])"

lemma frame_refl [simp]: "frame p p"
  by (simp add: frame_def)

lemma frame_trans: "frame p q \<Longrightarrow> frame q r \<Longrightarrow> frame p r"
  by (auto simp: frame_def)

section \<open>The judgment\<close>

locale pool_logic =
  fixes good_state :: "'p \<Rightarrow> bool"
    and view_of :: "'p \<Rightarrow> 'v"
    and framed :: "'p \<Rightarrow> 'p \<Rightarrow> bool"
  assumes framed_refl: "framed p p"
    and framed_trans: "framed p q \<Longrightarrow> framed q r \<Longrightarrow> framed p r"
begin

definition sat :: "('p, 'a) act \<Rightarrow> 'p \<Rightarrow> (lp_err + 'a \<Rightarrow> 'v \<Rightarrow> bool) \<Rightarrow> bool" where
  "sat m p Q \<longleftrightarrow> (case m p of (p', r) \<Rightarrow> good_state p' \<and> framed p p' \<and> Q r (view_of p'))"

lemma intro_rule: "m p = (p', r) \<Longrightarrow> good_state p' \<Longrightarrow> framed p p' \<Longrightarrow> Q r (view_of p') \<Longrightarrow> sat m p Q"
  by (simp add: sat_def)

lemma dest_rule: "sat m p Q \<Longrightarrow> \<exists>p' r. m p = (p', r) \<and> good_state p' \<and> framed p p' \<and> Q r (view_of p')"
  by (cases "m p") (auto simp: sat_def)

lemma weaken_rule: "sat m p Q \<Longrightarrow> (\<And>r v. Q r v \<Longrightarrow> R r v) \<Longrightarrow> sat m p R"
  by (auto simp: sat_def split: prod.splits)

lemma frame_rule: "framed p q \<Longrightarrow> sat m q Q \<Longrightarrow> m q = m p \<Longrightarrow> sat m p Q"
  by (auto simp: sat_def split: prod.splits intro: framed_trans)

lemma ret_rule [simp]: "sat (ret x) p Q \<longleftrightarrow> good_state p \<and> Q (Inr x) (view_of p)"
  by (simp add: sat_def ret_def framed_refl)

lemma fail_rule [simp]: "sat (fail e) p Q \<longleftrightarrow> good_state p \<and> Q (Inl e) (view_of p)"
  by (simp add: sat_def fail_def framed_refl)

lemma bind_rule:
  assumes "sat m p R"
    and "\<And>p' x. good_state p' \<Longrightarrow> framed p p' \<Longrightarrow> R (Inr x) (view_of p') \<Longrightarrow> sat (f x) p' Q"
    and "\<And>e v. R (Inl e) v \<Longrightarrow> Q (Inl e) v"
  shows "sat (bindE m f) p Q"
proof -
  obtain p1 r where m: "m p = (p1, r)" "good_state p1" "framed p p1" "R r (view_of p1)"
    using dest_rule [OF assms(1)] by blast
  show ?thesis
  proof (cases r)
    case (Inl e)
    then show ?thesis using m assms(3) by (simp add: sat_def bindE_def)
  next
    case (Inr x)
    obtain p2 r2 where f: "f x p1 = (p2, r2)" "good_state p2" "framed p1 p2" "Q r2 (view_of p2)"
      using dest_rule [OF assms(2) [OF m(2,3)]] m(4) Inr by blast
    then show ?thesis using m Inr framed_trans by (auto simp: sat_def bindE_def)
  qed
qed

text \<open>A call that cannot fail, and whose value and effect are known.\<close>

lemma bind_det_rule:
  assumes "sat m p (\<lambda>r v. (\<exists>x. r = Inr x \<and> P x) \<and> v = w)"
    and "\<And>p' x. good_state p' \<Longrightarrow> framed p p' \<Longrightarrow> view_of p' = w \<Longrightarrow> P x \<Longrightarrow> sat (f x) p' Q"
  shows "sat (bindE m f) p Q"
  by (rule bind_rule [OF assms(1)]) (use assms(2) in auto)

lemma wrap_rule:
  assumes "sat m p R" "\<And>x v. R (Inr x) v \<Longrightarrow> Q (Inr x) v"
    "\<And>e v. R (Inl e) v \<Longrightarrow> Q (Inl (PoolError ty code (Some e))) v"
  shows "sat (wrap ty code m) p Q"
  using dest_rule [OF assms(1)] assms(2,3) unfolding sat_def wrap_def
  by (auto split: sum.splits)

lemma wrap_ok_rule:
  "sat m p (\<lambda>r v. (\<exists>x. r = Inr x \<and> P x) \<and> v = w) \<Longrightarrow>
   sat (wrap ty code m) p (\<lambda>r v. (\<exists>x. r = Inr x \<and> P x) \<and> v = w)"
  by (erule wrap_rule) auto

lemma logged_rule:
  assumes "sat m p (\<lambda>r v. Q v)"
  shows "sat (logged m) p (\<lambda>r v. r = Inr () \<and> Q v)"
  using dest_rule [OF assms] by (auto simp: sat_def logged_def)

lemma catch_rule:
  assumes "sat m p R"
    and "\<And>p' r. good_state p' \<Longrightarrow> framed p p' \<Longrightarrow> R r (view_of p') \<Longrightarrow> sat (f r) p' Q"
  shows "sat (catching m f) p Q"
proof -
  obtain p1 r where m: "m p = (p1, r)" "good_state p1" "framed p p1" "R r (view_of p1)"
    using dest_rule [OF assms(1)] by blast
  show ?thesis
    using assms(2) [OF m(2,3,4)] m(1,3) framed_trans
    by (auto simp: sat_def catching_def split: prod.splits)
qed

text \<open>The form of the rules of the calls that always succeed.\<close>

definition always :: "('p, 'a) act \<Rightarrow> 'p \<Rightarrow> ('a \<Rightarrow> bool) \<Rightarrow> 'v \<Rightarrow> bool" where
  "always m p P w \<longleftrightarrow> sat m p (\<lambda>r v. (\<exists>x. r = Inr x \<and> P x) \<and> v = w)"

lemma always_intro: "m p = (p', Inr x) \<Longrightarrow> P x \<Longrightarrow> good_state p' \<Longrightarrow> framed p p' \<Longrightarrow> view_of p' = w \<Longrightarrow>
    always m p P w"
  by (auto simp: always_def sat_def)

lemma always_bind_rule:
  "always m p P w \<Longrightarrow>
   (\<And>p' x. good_state p' \<Longrightarrow> framed p p' \<Longrightarrow> view_of p' = w \<Longrightarrow> P x \<Longrightarrow> sat (f x) p' Q) \<Longrightarrow>
   sat (bindE m f) p Q"
  unfolding always_def by (rule bind_det_rule)

lemma always_seq_rule:
  "always m p P w \<Longrightarrow>
   (\<And>p' x. good_state p' \<Longrightarrow> framed p p' \<Longrightarrow> view_of p' = w \<Longrightarrow> P x \<Longrightarrow> always (f x) p' Q w') \<Longrightarrow>
   always (bindE m f) p Q w'"
  using always_bind_rule unfolding always_def by blast

lemma always_wrap_rule: "always m p P w \<Longrightarrow> always (wrap ty code m) p P w"
  unfolding always_def by (rule wrap_ok_rule)

lemma always_logged_rule: "always m p P w \<Longrightarrow> always (logged m) p (\<lambda>_. True) w"
  unfolding always_def
  by (rule weaken_rule [OF logged_rule [where Q = "\<lambda>v. v = w"]]) (auto elim: weaken_rule)

lemma always_ret_rule: "good_state p \<Longrightarrow> P x \<Longrightarrow> w = view_of p \<Longrightarrow> always (ret x) p P w"
  by (simp add: always_def)

lemma always_dest: "always m p P w \<Longrightarrow>
    \<exists>p' x. m p = (p', Inr x) \<and> P x \<and> good_state p' \<and> framed p p' \<and> view_of p' = w"
  unfolding always_def by (drule dest_rule) auto

lemma always_weaken_rule: "always m p P w \<Longrightarrow> (\<And>x. P x \<Longrightarrow> P' x) \<Longrightarrow> w = w' \<Longrightarrow> always m p P' w'"
  unfolding always_def by (erule weaken_rule) auto

text \<open>A loop of calls that always succeed applies their effects one after the other.\<close>

lemma for_each_rule:
  assumes "\<And>x q. good_state q \<Longrightarrow> framed p q \<Longrightarrow> x \<in> set xs \<Longrightarrow> always (f x) q (\<lambda>_. True) (g x (view_of q))"
  shows "good_state p \<Longrightarrow> always (for_each f xs) p (\<lambda>_. True) (fold g xs (view_of p))"
  using assms
proof (induction xs arbitrary: p)
  case Nil
  then show ?case by (simp add: always_ret_rule)
next
  case (Cons x xs)
  have one: "always (f x) p (\<lambda>_. True) (g x (view_of p))"
    using Cons.prems framed_refl by simp
  show ?case
    unfolding for_each.simps
    by (rule always_seq_rule [OF one], drule Cons.IH)
      (use Cons.prems(2) framed_trans in \<open>auto intro: always_weaken_rule\<close>)
qed

text \<open>An action maintains a property of the view, whatever it returns; a value it returns has the
  property \<^verbatim>\<open>R\<close>.\<close>

definition maint :: "('v \<Rightarrow> bool) \<Rightarrow> ('p, 'a) act \<Rightarrow> ('a \<Rightarrow> bool) \<Rightarrow> bool" where
  "maint I m R \<longleftrightarrow> (\<forall>p. good_state p \<longrightarrow> I (view_of p) \<longrightarrow>
     sat m p (\<lambda>r v. I v \<and> (\<forall>x. r = Inr x \<longrightarrow> R x)))"

lemma maintI: "(\<And>p. good_state p \<Longrightarrow> I (view_of p) \<Longrightarrow>
    sat m p (\<lambda>r v. I v \<and> (\<forall>x. r = Inr x \<longrightarrow> R x))) \<Longrightarrow> maint I m R"
  by (simp add: maint_def)

lemma maintD: "maint I m R \<Longrightarrow> good_state p \<Longrightarrow> I (view_of p) \<Longrightarrow>
    sat m p (\<lambda>r v. I v \<and> (\<forall>x. r = Inr x \<longrightarrow> R x))"
  by (simp add: maint_def)

lemma maint_dest: "maint I m R \<Longrightarrow> good_state p \<Longrightarrow> I (view_of p) \<Longrightarrow>
    \<exists>p' r. m p = (p', r) \<and> good_state p' \<and> I (view_of p') \<and> (\<forall>x. r = Inr x \<longrightarrow> R x)"
  by (drule (2) maintD, drule dest_rule) blast

lemma maint_always:
  assumes "\<And>p. good_state p \<Longrightarrow> I (view_of p) \<Longrightarrow> \<exists>P w. always m p P w \<and> I w \<and> (\<forall>x. P x \<longrightarrow> R x)"
  shows "maint I m R"
proof (rule maintI)
  fix p
  assume "good_state p" "I (view_of p)"
  then obtain P w where "always m p P w" "I w" "\<forall>x. P x \<longrightarrow> R x" using assms by blast
  then show "sat m p (\<lambda>r v. I v \<and> (\<forall>x. r = Inr x \<longrightarrow> R x))"
    unfolding always_def by (elim weaken_rule) auto
qed

lemma maint_ret: "R x \<Longrightarrow> maint I (ret x) R"
  by (rule maintI) simp

lemma maint_fail: "maint I (fail e) R"
  by (rule maintI) simp

lemma maint_bind:
  assumes "maint I m R" "\<And>x. R x \<Longrightarrow> maint I (f x) Q"
  shows "maint I (bindE m f) Q"
proof (rule maintI)
  fix p
  assume "good_state p" "I (view_of p)"
  then have "sat m p (\<lambda>r v. I v \<and> (\<forall>x. r = Inr x \<longrightarrow> R x))" using assms(1) by (simp add: maint_def)
  then show "sat (bindE m f) p (\<lambda>r v. I v \<and> (\<forall>x. r = Inr x \<longrightarrow> Q x))"
    by (rule bind_rule) (use assms(2) in \<open>auto simp: maint_def\<close>)
qed

lemma maint_catch:
  assumes "maint I m R" "\<And>r. (\<And>x. r = Inr x \<Longrightarrow> R x) \<Longrightarrow> maint I (f r) Q"
  shows "maint I (catching m f) Q"
proof (rule maintI)
  fix p
  assume "good_state p" "I (view_of p)"
  then have "sat m p (\<lambda>r v. I v \<and> (\<forall>x. r = Inr x \<longrightarrow> R x))" using assms(1) by (simp add: maint_def)
  then show "sat (catching m f) p (\<lambda>r v. I v \<and> (\<forall>x. r = Inr x \<longrightarrow> Q x))"
    by (rule catch_rule) (use assms(2) in \<open>simp add: maint_def\<close>)
qed

lemma maint_wrap: "maint I m R \<Longrightarrow> maint I (wrap ty code m) R"
  by (rule maintI, drule (2) maintD, erule wrap_rule) auto

lemma maint_weaken: "maint I m R \<Longrightarrow> (\<And>x. R x \<Longrightarrow> R' x) \<Longrightarrow> maint I m R'"
  by (rule maintI, drule (2) maintD, erule weaken_rule) auto

lemma maint_logged: "maint I m R \<Longrightarrow> R' () \<Longrightarrow> maint I (logged m) R'"
  by (rule maintI, drule (2) maintD, rule weaken_rule [OF logged_rule [where Q = I]])
    (auto elim: weaken_rule)

lemma maint_for_each: "(\<And>x. x \<in> set xs \<Longrightarrow> maint I (f x) (\<lambda>_. True)) \<Longrightarrow> maint I (for_each f xs) (\<lambda>_. True)"
  by (induction xs) (auto intro!: maint_ret maint_bind)

lemma maint_cong: "(\<And>p. good_state p \<Longrightarrow> m p = m' p) \<Longrightarrow> maint I m' R \<Longrightarrow> maint I m R"
  by (simp add: maint_def sat_def)

lemma maint_let: "maint I (f x) R \<Longrightarrow> maint I (Let x f) R"
  by simp

lemmas maint_rules = maint_ret maint_fail maint_wrap maint_let

end

section \<open>Calls of the database and of the configuration\<close>

locale pool_db_logic = pool_logic good_state view_of frame
  for good_state :: "'z pool_db_scheme \<Rightarrow> bool" and view_of :: "'z pool_db_scheme \<Rightarrow> 'v" +
  assumes good_faults: "good_state (p\<lparr>lfaults := fs\<rparr>) = good_state p"
    and view_faults: "view_of (p\<lparr>lfaults := fs\<rparr>) = view_of p"
    and good_configs: "good_state (p\<lparr>groupConfigs := cs\<rparr>) = good_state p"
    and view_configs: "view_of (p\<lparr>groupConfigs := cs\<rparr>) = view_of p"
begin

lemma db_rule:
  assumes "good_state p" "R (q p)" "\<And>fs. R (q (p\<lparr>lfaults := fs\<rparr>))"
    "\<And>e. lfaults p \<noteq> [] \<Longrightarrow> R (Inl (DbErr e))"
  shows "sat (on_db q) p (\<lambda>r v. v = view_of p \<and> R r)"
  using assms
  by (auto simp: sat_def on_db_def frame_def cfg_def fun_eq_iff good_faults view_faults
      split: list.splits option.splits)

lemma find_keys_rule:
  assumes "good_state p"
  shows "sat (find_keys g ks) p (\<lambda>r v. v = view_of p \<and>
    (r = Inr (filter (\<lambda>k. ID k \<in> set ks \<and> GroupID k = g) (ldb p)) \<or>
     (lfaults p \<noteq> [] \<and> (\<exists>e. r = Inl (DbErr e)))))"
  unfolding find_keys_def by (rule db_rule [OF assms]) auto

lemma first_key_rule:
  assumes "good_state p"
  shows "sat (first_key k) p (\<lambda>r v. v = view_of p \<and>
    (r = (case find (\<lambda>x. ID x = k) (ldb p) of None \<Rightarrow> Inl RecordNotFound | Some x \<Rightarrow> Inr x) \<or>
     (lfaults p \<noteq> [] \<and> (\<exists>e. r = Inl (DbErr e)))))"
  unfolding first_key_def by (rule db_rule [OF assms]) auto

lemma first_group_rule:
  assumes "good_state p"
  shows "sat (first_group g) p (\<lambda>r v. v = view_of p \<and>
    (r = (if g \<in> set (lgroups p) then Inr 0 else Inl RecordNotFound) \<or>
     (lfaults p \<noteq> [] \<and> (\<exists>e. r = Inl (DbErr e)))))"
  unfolding first_group_def by (rule db_rule [OF assms]) auto

lemma maint_db: "(\<And>p x. q p = Inr x \<Longrightarrow> R x) \<Longrightarrow> maint I (on_db q) R"
  by (rule maintI, rule weaken_rule, rule db_rule [where R = "\<lambda>r. \<forall>x. r = Inr x \<longrightarrow> R x"]) auto

lemma config_rule: "lp_getGroupConfig g p = (p0, c) \<Longrightarrow>
    c = cfg p g \<and> good_state p0 = good_state p \<and> view_of p0 = view_of p \<and> frame p p0"
  by (auto simp: lp_getGroupConfig_def cfg_def frame_def fun_eq_iff good_configs view_configs
      split: option.splits if_splits)

end

end
