(* ===== verification/LayeredRules.thy ===== *)
theory LayeredRules
  imports LayeredView PoolLogic
begin

text \<open>The pool logic for the memory pool, with one rule per operation: \<^verbatim>\<open>sat m p Q\<close> says that
  running \<^verbatim>\<open>m\<close> in a good state \<^verbatim>\<open>p\<close> leaves a good state with the same database and
  configuration, and that \<^verbatim>\<open>Q\<close> holds of the result and the pools.\<close>

section \<open>The logic of the memory pool\<close>

abbreviation lp_ok :: "lp \<Rightarrow> bool" where
  "lp_ok p \<equiv> store_ok (lstore p)"

abbreviation view :: "lp \<Rightarrow> pools" where
  "view p \<equiv> sview (lstore p)"

lemma frame_lstore [simp]: "frame p (p\<lparr>lstore := s\<rparr>)" "frame p (p\<lparr>localCache := c\<rparr>)"
  by (simp_all add: frame_def cfg_def fun_eq_iff)

interpretation lp: pool_db_logic lp_ok view
  by unfold_locales (auto intro: frame_trans)

abbreviation sat :: "'a lact \<Rightarrow> lp \<Rightarrow> (lp_err + 'a \<Rightarrow> pools \<Rightarrow> bool) \<Rightarrow> bool" where
  "sat \<equiv> lp.sat"

abbreviation always :: "'a lact \<Rightarrow> lp \<Rightarrow> ('a \<Rightarrow> bool) \<Rightarrow> pools \<Rightarrow> bool" where
  "always \<equiv> lp.always"

lemmas sat_def = lp.sat_def
lemmas always_def = lp.always_def
lemmas satI = lp.intro_rule
lemmas satD = lp.dest_rule
lemmas sat_weaken = lp.weaken_rule
lemmas sat_frame = lp.frame_rule
lemmas sat_ret = lp.ret_rule
lemmas sat_fail = lp.fail_rule
lemmas sat_bind = lp.bind_rule
lemmas sat_bind_det = lp.bind_det_rule
lemmas sat_wrap = lp.wrap_rule
lemmas sat_logged = lp.logged_rule
lemmas always_bind = lp.always_bind_rule
lemmas always_bind_always = lp.always_seq_rule
lemmas always_wrap = lp.always_wrap_rule
lemmas always_logged = lp.always_logged_rule
lemmas always_ret = lp.always_ret_rule
lemmas always_D = lp.always_dest
lemmas always_weaken = lp.always_weaken_rule

lemma on_store_always:
  assumes "\<exists>s' x. f (lstore p) = (s', Inr x) \<and> store_ok s' \<and> sview s' = w \<and> P x"
  shows "always (on_store f) p P w"
  using assms by (auto simp: always_def sat_def on_store_def)

section \<open>Store calls\<close>

definition put_list :: "'z pools_scheme \<Rightarrow> nat \<Rightarrow> PoolType \<Rightarrow> string list \<Rightarrow> 'z pools_scheme" where
  "put_list v g t l = v\<lparr>lists := (lists v)((g, t) := l)\<rparr>"

lemma put_list_simps [simp]:
  "lists (put_list v g t l) (g', t') = (if g' = g \<and> t' = t then l else lists v (g', t'))"
  "vals (put_list v g t l) = vals v" "cools (put_list v g t l) = cools v"
  "infos (put_list v g t l) = infos v"
  "put_list v g t (lists v (g, t)) = v" "put_list (put_list v g t l) g t l' = put_list v g t l'"
  by (simp_all add: put_list_def)

lemma push_rule: "lp_ok p \<Longrightarrow> list_pool t \<Longrightarrow>
    always (lp_push g t k) p (\<lambda>_. True) (put_list (view p) g t (show_nat k # lists (view p) (g, t)))"
  unfolding lp_push_def put_list_def
  using view_push [of "lstore p" t g "[AUint k]"] by (intro on_store_always) fastforce

lemma rem_rule: "lp_ok p \<Longrightarrow> list_pool t \<Longrightarrow>
    always (lp_rem g t k) p (\<lambda>_. True)
      (put_list (view p) g t (removeAll (show_nat k) (lists (view p) (g, t))))"
  unfolding lp_rem_def put_list_def
  using view_rem [of "lstore p" t g "AUint k"] by (intro on_store_always) fastforce

lemma details_rule: "lp_ok p \<Longrightarrow>
    always (getKeyDetails k) p (\<lambda>h. gget h = infos (view p) k) (view p)"
  unfolding getKeyDetails_def
  using view_hgetall [of "lstore p" k] by (intro on_store_always) fastforce

lemma set_details_rule: "lp_ok p \<Longrightarrow>
    always (setKeyDetails k vs) p (\<lambda>_. True)
      ((view p)\<lparr>infos := (infos (view p))(k := hash_upd vs (infos (view p) k))\<rparr>)"
  unfolding setKeyDetails_def
  using view_hset [of "lstore p" k vs] by (intro on_store_always) fastforce

lemma cool_rule: "lp_ok p \<Longrightarrow>
    always (addToCoolingPool g k resetAt) p (\<lambda>_. True)
      ((view p)\<lparr>cools := (cools (view p))(g := (cools (view p) g)(show_nat k \<mapsto> unix resetAt))\<rparr>)"
  unfolding addToCoolingPool_def
  using view_zadd [of "lstore p" g "[(AUint k, unix resetAt)]"]
  by (intro on_store_always) (fastforce simp: zset_upd_def)

lemma remove_validation_rule: "lp_ok p \<Longrightarrow>
    always (removeFromValidationPool g ks) p (\<lambda>_. True)
      ((view p)\<lparr>vals := (vals (view p))(g := vals (view p) g - show_nat ` set ks)\<rparr>)"
  unfolding removeFromValidationPool_def
  using view_srem [of "lstore p" g "map AUint ks"]
  by (intro on_store_always) (fastforce simp: image_image)

lemma remove_cooling_rule: "lp_ok p \<Longrightarrow>
    always (removeFromCoolingPool g ks) p (\<lambda>_. True)
      ((view p)\<lparr>cools := (cools (view p))(g := cools (view p) g |` (- (show_nat ` set ks)))\<rparr>)"
  unfolding removeFromCoolingPool_def
  using view_zrem [of "lstore p" g "map AUint ks"]
  by (intro on_store_always) (fastforce simp: image_image)

lemma add_validation_rule: "lp_ok p \<Longrightarrow>
    always (addToValidationPool g ks) p (\<lambda>_. True)
      ((view p)\<lparr>vals := (vals (view p))(g := vals (view p) g \<union> show_nat ` set ks)\<rparr>)"
proof (cases "ks = []")
  case True
  then show "lp_ok p \<Longrightarrow> ?thesis"
    by (simp add: addToValidationPool_def always_def fun_upd_idem)
next
  case False
  then show "lp_ok p \<Longrightarrow> ?thesis"
    unfolding addToValidationPool_def
    using view_sadd [of "lstore p" g "map AUint ks"]
    by (simp only: if_False, intro on_store_always) (fastforce simp: image_image)
qed

lemma delete_details_rule: "lp_ok p \<Longrightarrow>
    always (on_store (sh_Delete (getKeyDetailsKey k))) p (\<lambda>_. True)
      ((view p)\<lparr>infos := (infos (view p))(k := Map.empty)\<rparr>)"
  using view_delete [of "lstore p" k] by (intro on_store_always) fastforce

lemma cache_rule: "lp_ok p \<Longrightarrow> always (on_cache f) p (\<lambda>_. True) (view p)"
  by (simp add: always_def sat_def on_cache_def)

definition pool_size :: "pools \<Rightarrow> nat \<Rightarrow> PoolType \<Rightarrow> nat" where
  "pool_size v g t =
    (case t of
       PoolTypeValidation \<Rightarrow> card (vals v g)
     | PoolTypeCooling \<Rightarrow> card (dom (cools v g))
     | _ \<Rightarrow> length (lists v (g, t)))"

lemma size_rule:
  assumes "lp_ok p" "iter_order so" "known t"
  shows "always (getPoolSize so g t) p (\<lambda>n. n = int (pool_size (view p) g t)) (view p)"
proof (cases t)
  case PoolTypeValidation
  have "always (on_store (sh_SMembers so (getRedisKey g t))) p
      (\<lambda>ms. set ms = vals (view p) g \<and> distinct ms) (view p)"
    using view_smembers [OF assms(1,2), of g] PoolTypeValidation
    by (intro on_store_always) fastforce
  then show ?thesis
    using PoolTypeValidation unfolding getPoolSize_def
    by (auto intro!: always_bind_always always_ret simp: pool_size_def distinct_card [symmetric])
qed (use assms view_len [of "lstore p" t g] view_zcard [of "lstore p" g]
     in \<open>auto simp: getPoolSize_def pool_size_def intro!: on_store_always\<close>)

end
