(* ===== verification/LayeredProps.thy ===== *)
theory LayeredProps
  imports LayeredRules
begin

text \<open>The effect of every operation of the layered pool on its pools, the invariant of its
  reachable states, and the properties of selection, return, rate limiting, moves and
  recovery.\<close>

section \<open>Adding and removing\<close>

abbreviation ids :: "nat list \<Rightarrow> string list" where
  "ids ks \<equiv> map show_nat ks"

lemma pushes_rule: "lp_ok p \<Longrightarrow> list_pool t \<Longrightarrow>
    always (for_each (\<lambda>k. wrap ty c (lp_push g t k)) ks) p (\<lambda>_. True)
      (put_list (view p) g t (rev (ids ks) @ lists (view p) (g, t)))"
proof (induction ks arbitrary: p)
  case Nil
  then show ?case by (auto intro: always_ret)
next
  case (Cons k ks)
  show ?case
    unfolding for_each.simps
    by (rule always_bind_always [OF always_wrap [OF push_rule [OF Cons.prems]]],
        rule always_weaken [OF Cons.IH]) (use Cons.prems in auto)
qed

lemma removes_rule: "lp_ok p \<Longrightarrow> list_pool t \<Longrightarrow>
    always (removeFromListPool g t ks) p (\<lambda>_. True)
      (put_list (view p) g t (filter (\<lambda>x. x \<notin> set (ids ks)) (lists (view p) (g, t))))"
  unfolding removeFromListPool_def
proof (induction ks arbitrary: p)
  case Nil
  then show ?case by (auto intro: always_ret)
next
  case (Cons k ks)
  have f: "filter (\<lambda>x. x \<notin> set (ids ks)) (removeAll y l) = filter (\<lambda>x. x \<notin> insert y (set (ids ks))) l"
    for y l by (induction l) auto
  show ?case
    unfolding for_each.simps
    by (rule always_bind_always [OF rem_rule [OF Cons.prems]],
        rule always_weaken [OF Cons.IH]) (use Cons.prems f in simp_all)
qed

fun pool_without :: "nat list \<Rightarrow> nat \<Rightarrow> PoolType \<Rightarrow> pools \<Rightarrow> pools" where
  "pool_without ks g PoolTypeValidation v = v\<lparr>vals := (vals v)(g := vals v g - set (ids ks))\<rparr>"
| "pool_without ks g PoolTypeReady v =
     put_list v g PoolTypeReady (filter (\<lambda>x. x \<notin> set (ids ks)) (ready v g))"
| "pool_without ks g PoolTypeActive v =
     put_list v g PoolTypeActive (filter (\<lambda>x. x \<notin> set (ids ks)) (active v g))"
| "pool_without ks g PoolTypeCooling v =
     v\<lparr>cools := (cools v)(g := cools v g |` (- set (ids ks)))\<rparr>"
| "pool_without ks g (PoolTypeOther _) v = v"

lemma pool_without_Nil [simp]: "pool_without [] g t v = v"
  by (cases t) (simp_all add: fun_upd_idem restrict_map_def)

lemma remove_rule:
  assumes "lp_ok p" "known t"
  shows "always (removeKeysFromPool g ks t) p (\<lambda>_. True) (pool_without ks g t (view p))"
proof (cases "ks = []")
  case True
  then show ?thesis using assms(1) by (simp add: removeKeysFromPool_def always_ret)
next
  case False
  then show ?thesis
    using assms(2) remove_validation_rule [OF assms(1), of g ks] remove_cooling_rule [OF assms(1), of g ks]
      removes_rule [OF assms(1), of _ g ks]
    by (cases t) (simp_all add: removeKeysFromPool_def)
qed

definition only_infos :: "nat set \<Rightarrow> 'z pools_scheme \<Rightarrow> 'z pools_scheme \<Rightarrow> bool" where
  "only_infos K v v' \<longleftrightarrow> (\<exists>f. v' = v\<lparr>infos := f\<rparr> \<and> (\<forall>k. k \<notin> K \<longrightarrow> f k = infos v k))"

lemma only_infos_refl [simp]: "only_infos K v v"
  by (auto simp: only_infos_def intro: exI [of _ "infos v"])

lemma only_infos_trans: "only_infos K u v \<Longrightarrow> only_infos K v w \<Longrightarrow> only_infos K u w"
  by (auto simp: only_infos_def)

lemma only_infos_mono: "only_infos K u v \<Longrightarrow> K \<subseteq> L \<Longrightarrow> only_infos L u v"
  by (auto simp: only_infos_def)

lemma only_infos_set [simp]:
  "only_infos K v (v\<lparr>infos := f\<rparr>) \<longleftrightarrow> (\<forall>k. k \<notin> K \<longrightarrow> f k = infos v k)"
proof
  assume "only_infos K v (v\<lparr>infos := f\<rparr>)"
  then obtain f' where "v\<lparr>infos := f\<rparr> = v\<lparr>infos := f'\<rparr>" "\<forall>k. k \<notin> K \<longrightarrow> f' k = infos v k"
    by (auto simp: only_infos_def)
  then show "\<forall>k. k \<notin> K \<longrightarrow> f k = infos v k" by (metis pools.select_convs(4) pools.surjective pools.update_convs(4))
qed (auto simp: only_infos_def)

lemma only_infos_pools: "only_infos K u v \<Longrightarrow> vals v = vals u \<and> lists v = lists u \<and> cools v = cools u"
  by (auto simp: only_infos_def)

lemma sync_rule:
  assumes "lp_ok p"
  shows "sat (logged (syncKeyDetailsToRedis tf k g)) p (\<lambda>r v. r = Inr () \<and> only_infos {k} (view p) v)"
  unfolding syncKeyDetailsToRedis_def
  by (rule sat_logged, rule sat_bind [OF lp.first_key_rule [OF assms]])
    (auto intro: sat_weaken [OF set_details_rule [unfolded always_def]])

lemma syncs_rule: "lp_ok p \<Longrightarrow>
    sat (for_each (\<lambda>k. logged (syncKeyDetailsToRedis tf k g)) ks) p
      (\<lambda>r v. r = Inr () \<and> only_infos (set ks) (view p) v)"
proof (induction ks arbitrary: p)
  case Nil
  then show ?case by simp
next
  case (Cons k ks)
  show ?case
    unfolding for_each.simps
    by (rule sat_bind [OF sync_rule [OF Cons.prems]], rule sat_weaken [OF Cons.IH])
      (auto intro: only_infos_trans only_infos_mono)
qed

lemma add_list_rule:
  assumes "lp_ok p" "list_pool t"
  shows "sat (addToListPool tf g t ks) p (\<lambda>r v. r = Inr () \<and>
    only_infos (set ks) (put_list (view p) g t (rev (ids ks) @ lists (view p) (g, t))) v)"
proof (cases "ks = []")
  case True
  then show ?thesis using assms by (simp add: addToListPool_def)
next
  case False
  then show ?thesis
    unfolding addToListPool_def
    by (simp, intro always_bind [OF pushes_rule [OF assms]])
      (auto intro: sat_weaken [OF syncs_rule])
qed

fun pool_with :: "nat list \<Rightarrow> nat \<Rightarrow> PoolType \<Rightarrow> 'z pools_scheme \<Rightarrow> 'z pools_scheme" where
  "pool_with ks g PoolTypeValidation v = v\<lparr>vals := (vals v)(g := vals v g \<union> set (ids ks))\<rparr>"
| "pool_with ks g PoolTypeReady v = put_list v g PoolTypeReady (rev (ids ks) @ ready v g)"
| "pool_with ks g PoolTypeActive v = put_list v g PoolTypeActive (rev (ids ks) @ active v g)"
| "pool_with ks g _ v = v"

definition addable :: "PoolType \<Rightarrow> bool" where
  "addable t \<longleftrightarrow> t \<in> {PoolTypeValidation, PoolTypeReady, PoolTypeActive}"

definition pool_rows :: "'z pool_db_scheme \<Rightarrow> nat \<Rightarrow> nat list \<Rightarrow> nat list" where
  "pool_rows p g ks = map ID (filter (\<lambda>k. Status k = KeyStatusActive \<or> Status k = KeyStatusRateLimited)
     (filter (\<lambda>k. ID k \<in> set ks \<and> GroupID k = g) (ldb p)))"

lemma pool_rows_frame: "frame p p' \<Longrightarrow> pool_rows p' g ks = pool_rows p g ks"
  by (simp add: pool_rows_def frame_def)

lemma pool_rows_subset: "set (pool_rows p g ks) \<subseteq> set ks"
  by (auto simp: pool_rows_def)

text \<open>Adding keys either fails and changes nothing, which happens only for a database failure, a
  pool that cannot be added to or no usable row, or puts exactly the usable rows in the pool.\<close>

definition add_result :: "lp \<Rightarrow> nat \<Rightarrow> nat list \<Rightarrow> PoolType \<Rightarrow> lp_err + unit \<Rightarrow> pools \<Rightarrow> bool" where
  "add_result p g ks t r v \<longleftrightarrow>
     (\<exists>e. r = Inl e \<and> v = view p \<and> (lfaults p = [] \<longrightarrow> \<not> addable t \<or> pool_rows p g ks = [])) \<or>
     (r = Inr () \<and> (ks = [] \<or> addable t \<and> pool_rows p g ks \<noteq> []) \<and>
      only_infos (set ks) (pool_with (pool_rows p g ks) g t (view p)) v)"

lemma dispatch_rule:
  assumes "lp_ok p"
  shows "sat (case t of
       PoolTypeValidation \<Rightarrow> addToValidationPool g ys
     | PoolTypeReady \<Rightarrow> addToReadyPool tf g ys
     | PoolTypeActive \<Rightarrow> addToActivePool tf g ys
     | PoolTypeCooling \<Rightarrow> fail e1
     | PoolTypeOther _ \<Rightarrow> fail e2) p
     (\<lambda>r v. (\<exists>e. r = Inl e \<and> v = view p \<and> \<not> addable t) \<or>
        (r = Inr () \<and> addable t \<and> only_infos (set ys) (pool_with ys g t (view p)) v))"
proof (cases t)
  case PoolTypeValidation
  then show ?thesis
    using add_validation_rule [OF assms, of g ys]
    by (auto simp: always_def addable_def elim!: sat_weaken)
qed (use assms add_list_rule [OF assms, of _ tf g ys] in \<open>auto simp: addable_def
    addToReadyPool_def addToActivePool_def elim!: sat_weaken\<close>)

lemma find_rule:
  assumes "lp_ok p"
  shows "sat (wrap ty c (find_keys g ks)) p (\<lambda>r v. v = view p \<and>
    (r = Inr (filter (\<lambda>k. ID k \<in> set ks \<and> GroupID k = g) (ldb p)) \<or> (lfaults p \<noteq> [] \<and> (\<exists>e. r = Inl e))))"
  by (rule sat_wrap [OF lp.find_keys_rule [OF assms]]) auto

lemma add_rule:
  assumes "lp_ok p"
  shows "sat (addKeysToPool tf g ks t) p (add_result p g ks t)"
proof (cases "ks = []")
  case True
  then have "pool_with (pool_rows p g ks) g t (view p) = view p"
    using put_list_simps(5) [of "view p" g] by (cases t) (simp_all add: pool_rows_def fun_upd_idem)
  then show ?thesis using True assms by (simp add: addKeysToPool_def add_result_def)
next
  case False
  show ?thesis
    unfolding addKeysToPool_def if_not_P [OF False]
  proof (rule sat_bind [OF find_rule [OF assms]])
    fix p' keys
    assume p': "lp_ok p'" "frame p p'" and x: "view p' = view p \<and>
      (Inr keys = Inr (filter (\<lambda>k. ID k \<in> set ks \<and> GroupID k = g) (ldb p)) \<or>
       (lfaults p \<noteq> [] \<and> (\<exists>e. Inr keys = Inl e)))"
    define ys where "ys = map ID (filter (\<lambda>k. Status k = KeyStatusActive \<or>
                                           Status k = KeyStatusRateLimited) keys)"
    have ys: "ys = pool_rows p g ks" "keys = [] \<Longrightarrow> ys = []"
      using x by (simp_all add: ys_def pool_rows_def)
    show "sat (if keys = [] then fail (PoolError ErrorTypeValidation ''NO_KEYS_FOUND'' None)
       else let validKeyIDs = map ID (filter (\<lambda>k. Status k = KeyStatusActive \<or>
                                                 Status k = KeyStatusRateLimited) keys) in
       if validKeyIDs = [] then fail (PoolError ErrorTypeValidation ''NO_VALID_KEYS'' None)
       else (case t of
           PoolTypeValidation \<Rightarrow> addToValidationPool g validKeyIDs
         | PoolTypeReady \<Rightarrow> addToReadyPool tf g validKeyIDs
         | PoolTypeActive \<Rightarrow> addToActivePool tf g validKeyIDs
         | PoolTypeCooling \<Rightarrow> fail (PoolError ErrorTypeValidation ''INVALID_POOL_TYPE'' None)
         | PoolTypeOther _ \<Rightarrow> fail (PoolError ErrorTypeValidation ''UNKNOWN_POOL_TYPE'' None)))
       p' (add_result p g ks t)"
      using x p'(1) ys pool_rows_subset [of p g ks]
      unfolding ys_def [symmetric] Let_def
      by (auto simp: add_result_def False intro: only_infos_mono
          intro!: sat_weaken [OF dispatch_rule [OF p'(1)]])
  qed (auto simp: add_result_def)
qed

section \<open>Refill and selection\<close>

definition id_texts :: "string set" where
  "id_texts = show_nat ` {..18446744073709551615}"

lemma id_textsE:
  assumes "x \<in> id_texts"
  obtains k where "x = show_nat k" "k \<le> 18446744073709551615" "ParseUint x = (k, None)"
  using assms by (auto simp: id_texts_def)

definition rot :: "string list \<Rightarrow> string list" where
  "rot l = last l # butlast l"

lemma rot_props: "l \<noteq> [] \<Longrightarrow> set (rot l) = set l" "l \<noteq> [] \<Longrightarrow> mset (rot l) = mset l"
  "rot l \<noteq> []"
  unfolding rot_def by (rule set_rot_last, assumption, rule mset_rot_last, assumption, simp)

text \<open>What n turns of the refill loop do to the two lists: each copies the last entry of the
  ready list to the head of the active one and only rotates the ready list.\<close>

fun refill_lists :: "nat \<Rightarrow> string list \<Rightarrow> string list \<Rightarrow> string list \<times> string list" where
  "refill_lists 0 r a = (r, a)"
| "refill_lists (Suc n) r a = (if r = [] then (r, a) else refill_lists n (rot r) (last r # a))"

abbreviation put_lists :: "'z pools_scheme \<Rightarrow> nat \<Rightarrow> string list \<times> string list \<Rightarrow> 'z pools_scheme" where
  "put_lists v g ra \<equiv> put_list (put_list v g PoolTypeReady (fst ra)) g PoolTypeActive (snd ra)"

lemma put_list_swap: "put_list (put_list (put_list v g PoolTypeReady l) g PoolTypeActive l')
    g PoolTypeReady l'' = put_list (put_list v g PoolTypeReady l'') g PoolTypeActive l'"
  by (simp add: put_list_def fun_eq_iff)

lemma put_lists_same: "ready v g = l \<Longrightarrow> active v g = l' \<Longrightarrow> put_lists v g (l, l') = v"
  by (auto simp: put_list_def fun_upd_idem)

lemma rotate_ready_cases:
  assumes "lp_ok p"
  shows "(ready (view p) g = [] \<longrightarrow> (\<exists>s. on_store (sh_Rotate (getRedisKey g PoolTypeReady)) p =
      (p\<lparr>lstore := s\<rparr>, Inl (StoreErr ErrNotFound)) \<and> store_ok s \<and> sview s = view p)) \<and>
    (ready (view p) g \<noteq> [] \<longrightarrow> (\<exists>s. on_store (sh_Rotate (getRedisKey g PoolTypeReady)) p =
      (p\<lparr>lstore := s\<rparr>, Inr (last (ready (view p) g))) \<and> store_ok s \<and>
      sview s = put_list (view p) g PoolTypeReady (rot (ready (view p) g))))"
  using view_rotate [OF assms, of PoolTypeReady g]
  by (auto simp: on_store_def put_list_def rot_def)

lemma move_rule: "lp_ok p \<Longrightarrow> set (ready (view p) g) \<subseteq> id_texts \<Longrightarrow>
    always (moveToActivePool g n) p (\<lambda>_. True)
      (put_lists (view p) g (refill_lists n (ready (view p) g) (active (view p) g)))"
proof (induction n arbitrary: p)
  case 0
  then show ?case by (simp add: always_def sat_def put_lists_same)
next
  case (Suc n)
  show ?case
  proof (cases "ready (view p) g = []")
    case True
    then show ?thesis
      using rotate_ready_cases [OF Suc.prems(1), of g] put_lists_same [of "view p" g]
      by (auto simp: always_def sat_def)
  next
    case False
    let ?r = "ready (view p) g"
    obtain s where s: "on_store (sh_Rotate (getRedisKey g PoolTypeReady)) p =
        (p\<lparr>lstore := s\<rparr>, Inr (last ?r))" "store_ok s"
      "sview s = put_list (view p) g PoolTypeReady (rot ?r)"
      using rotate_ready_cases [OF Suc.prems(1), of g] False by blast
    obtain k where k: "last ?r = show_nat k" "ParseUint (last ?r) = (k, None)"
      using id_textsE [of "last ?r"] Suc.prems(2) False last_in_set by blast
    let ?p = "p\<lparr>lstore := s\<rparr>"
    have "always (bindE (lp_push g PoolTypeActive k) (\<lambda>_.
        bindE (moveToActivePool g n) (\<lambda>moved. ret (k # moved)))) ?p (\<lambda>_. True)
      (put_lists (view p) g (refill_lists n (rot ?r) (last ?r # active (view p) g)))"
    proof (rule always_bind_always [OF push_rule])
      fix p' x
      assume p': "lp_ok p'" "view p' = put_list (view ?p) g PoolTypeActive
        (show_nat k # lists (view ?p) (g, PoolTypeActive))"
      have "always (moveToActivePool g n) p' (\<lambda>_. True)
          (put_lists (view p) g (refill_lists n (rot ?r) (last ?r # active (view p) g)))"
        by (rule always_weaken [OF Suc.IH [OF p'(1)]])
          (use p'(2) s(3) k Suc.prems(2) False rot_props(1) in \<open>auto simp: put_list_swap\<close>)
      then show "always (bindE (moveToActivePool g n) (\<lambda>moved. ret (k # moved))) p' (\<lambda>_. True)
          (put_lists (view p) g (refill_lists n (rot ?r) (last ?r # active (view p) g)))"
        by (rule always_bind_always) (simp add: always_ret)
    qed (use s in auto)
    then show ?thesis
      using s(1) k False unfolding always_def sat_def
      by (auto simp: frame_def cfg_def split: prod.splits)
  qed
qed

definition refill_count :: "PoolConfig \<Rightarrow> nat \<Rightarrow> nat" where
  "refill_count c n = nat (min (MinActiveKeys c - int n) (RefillBatchSize c))"

definition refilled :: "PoolConfig \<Rightarrow> nat \<Rightarrow> pools \<Rightarrow> pools" where
  "refilled c g v = put_lists v g
     (refill_lists (refill_count c (length (active v g))) (ready v g) (active v g))"

lemma refill_rule:
  assumes "lp_ok p" "set (ready (view p) g) \<subseteq> id_texts" "iter_order so"
  shows "always (lp_RefillPools so g) p (\<lambda>_. True) (refilled (cfg p g) g (view p))"
proof -
  obtain p0 c where g: "lp_getGroupConfig g p = (p0, c)" by fastforce
  note c = lp.config_rule [OF g]
  let ?n = "length (active (view p) g)"
  have "always (bindE (wrap ErrorTypeStorage ''GET_ACTIVE_COUNT_FAILED'' (getPoolSize so g PoolTypeActive))
        (\<lambda>activeCount.
          let needRefill = MinActiveKeys c - activeCount in
          if needRefill \<le> 0 then ret ()
          else let n = (if needRefill > RefillBatchSize c then RefillBatchSize c
                        else needRefill) in
               bindE (wrap ErrorTypeStorage ''MOVE_TO_ACTIVE_FAILED'' (moveToActivePool g (nat n)))
                 (\<lambda>_. ret ()))) p0 (\<lambda>_. True) (refilled c g (view p))"
  proof (rule always_bind_always [OF always_wrap [OF size_rule]])
    fix p' x
    assume p': "lp_ok p'" "view p' = view p0" and x: "x = int (pool_size (view p0) g PoolTypeActive)"
    then have v: "view p' = view p" "x = int ?n" using c by (simp_all add: pool_size_def)
    show "always (let needRefill = MinActiveKeys c - x in
          if needRefill \<le> 0 then ret ()
          else let n = (if needRefill > RefillBatchSize c then RefillBatchSize c
                        else needRefill) in
               bindE (wrap ErrorTypeStorage ''MOVE_TO_ACTIVE_FAILED'' (moveToActivePool g (nat n)))
                 (\<lambda>_. ret ())) p' (\<lambda>_. True) (refilled c g (view p))"
    proof (cases "MinActiveKeys c - x \<le> 0")
      case True
      then have "refill_count c ?n = 0" using v by (simp add: refill_count_def)
      then show ?thesis
        using True p'(1) v by (auto intro!: always_ret simp: refilled_def put_lists_same)
    next
      case False
      have n: "nat (if MinActiveKeys c - x > RefillBatchSize c then RefillBatchSize c
          else MinActiveKeys c - x) = refill_count c ?n"
        using v by (auto simp: refill_count_def min_def)
      have m: "always (moveToActivePool g (refill_count c ?n)) p' (\<lambda>_. True) (refilled c g (view p))"
        by (rule always_weaken [OF move_rule [OF p'(1)]]) (use assms(2) v in \<open>auto simp: refilled_def\<close>)
      show ?thesis
        using False unfolding Let_def if_not_P [OF False] n
        by (intro always_bind_always [OF always_wrap [OF m]] always_ret) auto
    qed
  qed (use c assms in auto)
  then show ?thesis
    using g c unfolding always_def sat_def lp_RefillPools_def
    by (auto split: prod.splits intro: frame_trans)
qed

lemma refill_suffix:
  "refill_lists (length ys) (xs @ ys) a = (ys @ xs, ys @ a)"
proof (induction ys arbitrary: xs a rule: rev_induct)
  case (snoc y ys)
  then show ?case using snoc.IH [of "y # xs" "y # a"] by (simp add: rot_def butlast_append)
qed simp

lemma last_in: "l \<noteq> [] \<Longrightarrow> last l \<in> set l"
  by simp

lemma refill_lists_props:
  "mset (fst (refill_lists n r a)) = mset r"
  "length (snd (refill_lists n r a)) = length a + (if r = [] then 0 else n)"
  "set (snd (refill_lists n r a)) \<subseteq> set r \<union> set a"
  "set a \<subseteq> set (snd (refill_lists n r a))"
  by (induction n r a rule: refill_lists.induct) (auto simp: rot_props dest: last_in)

lemma refill_lists_Nil [simp]: "refill_lists n [] a = ([], a)"
  by (cases n) simp_all

lemma refill_lists_add:
  "refill_lists (n + m) r a = (case refill_lists n r a of (r', a') \<Rightarrow> refill_lists m r' a')"
  by (induction n r a rule: refill_lists.induct) auto

lemma refill_lists_all:
  assumes "length r \<le> n"
  shows "set r \<subseteq> set (snd (refill_lists n r a))"
proof -
  obtain m where "n = length r + m" using assms le_Suc_ex by blast
  then show ?thesis
    using refill_suffix [of r "[]" a] refill_lists_props(4) [of "r @ a" m r]
    by (simp add: refill_lists_add)
qed

text \<open>Refilling the active pool copies: it never fails on a good state, pushes as many entries
  as the configuration asks for, and leaves the ready pool with exactly the keys it had. A key
  that was "moved" is therefore in both pools, and with fewer ready keys than wanted the same
  key enters the active pool several times.\<close>

lemma refill_copies_ready_keys:
  assumes "lp_ok p" "set (ready (view p) g) \<subseteq> id_texts" "iter_order so"
  defines "n \<equiv> refill_count (cfg p g) (length (active (view p) g))"
  shows "\<exists>p'. lp_RefillPools so g p = (p', Inr ()) \<and> lp_ok p' \<and>
    mset (ready (view p') g) = mset (ready (view p) g) \<and>
    length (active (view p') g) = length (active (view p) g) + (if ready (view p) g = [] then 0 else n) \<and>
    (n \<le> length (ready (view p) g) \<longrightarrow> active (view p') g =
      drop (length (ready (view p) g) - n) (ready (view p) g) @ active (view p) g) \<and>
    vals (view p') = vals (view p) \<and> cools (view p') = cools (view p) \<and> infos (view p') = infos (view p)"
proof -
  let ?r = "ready (view p) g" and ?a = "active (view p) g"
  obtain p' where p': "lp_RefillPools so g p = (p', Inr ())" "lp_ok p'"
      "view p' = put_lists (view p) g (refill_lists n ?r ?a)"
    using always_D [OF refill_rule [OF assms(1-3)]] by (auto simp: refilled_def n_def)
  have "n \<le> length ?r \<Longrightarrow> refill_lists n ?r ?a =
      (drop (length ?r - n) ?r @ take (length ?r - n) ?r, drop (length ?r - n) ?r @ ?a)"
    using refill_suffix [of "drop (length ?r - n) ?r" "take (length ?r - n) ?r" ?a] by simp
  then show ?thesis using p' refill_lists_props(1,2) [of n ?r ?a] by simp
qed

section \<open>Selection\<close>

definition before_select :: "lp \<Rightarrow> nat \<Rightarrow> pools" where
  "before_select p g = (if active (view p) g = [] then refilled (cfg p g) g (view p) else view p)"

lemma rotate_active_cases:
  assumes "lp_ok p"
  shows "(active (view p) g = [] \<longrightarrow> (\<exists>s. on_store (sh_Rotate (getRedisKey g PoolTypeActive)) p =
      (p\<lparr>lstore := s\<rparr>, Inl (StoreErr ErrNotFound)) \<and> store_ok s \<and> sview s = view p)) \<and>
    (active (view p) g \<noteq> [] \<longrightarrow> (\<exists>s. on_store (sh_Rotate (getRedisKey g PoolTypeActive)) p =
      (p\<lparr>lstore := s\<rparr>, Inr (last (active (view p) g))) \<and> store_ok s \<and>
      sview s = put_list (view p) g PoolTypeActive (rot (active (view p) g))))"
  using view_rotate [OF assms, of PoolTypeActive g]
  by (auto simp: on_store_def put_list_def rot_def)

definition selected :: "'z pools_scheme \<Rightarrow> nat \<Rightarrow> lp_err + PoolKey \<Rightarrow> bool" where
  "selected v g r \<longleftrightarrow> (\<exists>k. last (active v g) = show_nat k \<and>
     (case infos v k ''key_value'' of
        None \<Rightarrow> r = Inl (PoolError ErrorTypeValidation ''MISSING_KEY_VALUE'' None)
      | Some kv \<Rightarrow> (\<exists>key. r = Inr key \<and> ID key = k \<and> GroupID key = g \<and> KeyValue key = kv)))"

lemma build_rule:
  assumes "lp_ok p" "gget h = infos (view p) k"
  shows "sat (buildAPIKeyFromDetails k g h) p (\<lambda>r v. v = view p \<and>
    (case infos v k ''key_value'' of
        None \<Rightarrow> r = Inl (PoolError ErrorTypeValidation ''MISSING_KEY_VALUE'' None)
      | Some kv \<Rightarrow> (\<exists>key. r = Inr key \<and> ID key = k \<and> GroupID key = g \<and> KeyValue key = kv)))"
  using assms by (auto simp: buildAPIKeyFromDetails_def split: option.splits)

lemma select_after_rule:
  assumes "lp_ok p" "t = show_nat k" "k \<le> 18446744073709551615"
  shows "sat (select_after_rotate now g t) p (\<lambda>r v. v = view p \<and>
    (case infos v k ''key_value'' of
        None \<Rightarrow> r = Inl (PoolError ErrorTypeValidation ''MISSING_KEY_VALUE'' None)
      | Some kv \<Rightarrow> (\<exists>key. r = Inr key \<and> ID key = k \<and> GroupID key = g \<and> KeyValue key = kv)))"
    (is "sat _ _ ?Q")
proof -
  have "sat (bindE (wrap ErrorTypeStorage ''KEY_DETAILS_FAILED'' (getKeyDetails k)) (\<lambda>details.
      bindE (buildAPIKeyFromDetails k g details) (\<lambda>apiKey.
      bindE (on_cache (cache_Set now k apiKey)) (\<lambda>_. ret apiKey)))) p ?Q"
  proof (rule always_bind [OF always_wrap [OF details_rule [OF assms(1)]]])
    fix p' h
    assume p': "lp_ok p'" "view p' = view p" "gget h = infos (view p) k"
    show "sat (bindE (buildAPIKeyFromDetails k g h) (\<lambda>apiKey.
        bindE (on_cache (cache_Set now k apiKey)) (\<lambda>_. ret apiKey))) p' ?Q"
    proof (rule sat_bind [OF build_rule])
      show "lp_ok p'" "gget h = infos (view p') k" using p' by simp_all
    qed (use p' in \<open>auto intro!: always_bind [OF cache_rule] split: option.splits\<close>)
  qed
  then show ?thesis using assms by (simp add: select_after_rotate_def)
qed

lemma sat_at:
  assumes "sat m q Q" "frame p q" "m' p = m q"
  shows "sat m' p Q"
  using assms by (auto simp: sat_def split: prod.splits intro: frame_trans)

lemma select_rule:
  assumes "lp_ok p" "set (ready (view p) g) \<subseteq> id_texts" "set (active (view p) g) \<subseteq> id_texts"
    and "iter_order so"
  defines "v \<equiv> before_select p g"
  shows "sat (lp_SelectKey so now g) p (\<lambda>r v'.
    if active v g = [] then r = Inl ErrPoolEmpty \<and> v' = v
    else v' = put_list v g PoolTypeActive (rot (active v g)) \<and> selected v g r)"
proof -
  let ?W = "\<lambda>w. put_list w g PoolTypeActive (rot (active w g))"
  have take: "sat (select_after_rotate now g (last (active w g))) (q\<lparr>lstore := s\<rparr>)
      (\<lambda>r v'. v' = ?W w \<and> selected w g r)"
    if "store_ok s" "sview s = ?W w" "active w g \<noteq> []" "set (active w g) \<subseteq> id_texts" for q s w
  proof -
    note l = subsetD [OF that(4) last_in [OF that(3)]]
    obtain k where k: "last (active w g) = show_nat k" "k \<le> 18446744073709551615"
      using l by (rule id_textsE)
    show ?thesis
      by (rule sat_weaken [OF select_after_rule [OF _ k]])
        (use that k in \<open>simp_all add: selected_def exI [of _ k]\<close>)
  qed
  show ?thesis
  proof (cases "active (view p) g = []")
    case False
    obtain s where s: "on_store (sh_Rotate (getRedisKey g PoolTypeActive)) p =
        (p\<lparr>lstore := s\<rparr>, Inr (last (active (view p) g)))" "store_ok s" "sview s = ?W (view p)"
      using rotate_active_cases [OF assms(1), of g] False by blast
    show ?thesis
      by (rule sat_weaken [OF sat_at [OF take [of s "view p" p]]])
        (use s False assms(3) in \<open>auto simp: lp_SelectKey_def v_def before_select_def\<close>)
  next
    case True
    obtain s where s: "on_store (sh_Rotate (getRedisKey g PoolTypeActive)) p =
        (p\<lparr>lstore := s\<rparr>, Inl (StoreErr ErrNotFound))" "store_ok s" "sview s = view p"
      using rotate_active_cases [OF assms(1), of g] True by blast
    let ?p = "p\<lparr>lstore := s\<rparr>"
    let ?k = "\<lambda>_ p2. case on_store (sh_Rotate (getRedisKey g PoolTypeActive)) p2 of
             (p3, Inr t) \<Rightarrow> select_after_rotate now g t p3
           | (p3, Inl e) \<Rightarrow>
               if e = StoreErr ErrNotFound then (p3, Inl ErrPoolEmpty)
               else (p3, Inl (PoolError ErrorTypeStorage ''SELECT_FAILED'' (Some e)))"
    have v: "v = refilled (cfg p g) g (view p)" "cfg ?p = cfg p"
      using True by (auto simp: v_def before_select_def cfg_def fun_eq_iff)
    have va: "set (active v g) \<subseteq> id_texts"
      using refill_lists_props(3) [of _ "ready (view p) g" "active (view p) g"] assms(2,3)
      by (fastforce simp: v(1) refilled_def)
    have ref: "always (lp_RefillPools so g) ?p (\<lambda>_. True) v"
      by (rule always_weaken [OF refill_rule]) (use s v assms(2,4) in auto)
    have "sat (bindE (wrap ErrorTypeCapacity ''REFILL_FAILED'' (lp_RefillPools so g)) ?k) ?p
      (\<lambda>r v'. if active v g = [] then r = Inl ErrPoolEmpty \<and> v' = v else v' = ?W v \<and> selected v g r)"
    proof (rule always_bind [OF always_wrap [OF ref]])
      fix p2
      assume p2: "lp_ok p2" "view p2 = v"
      show "sat (?k ()) p2 (\<lambda>r v'. if active v g = [] then r = Inl ErrPoolEmpty \<and> v' = v
          else v' = ?W v \<and> selected v g r)"
      proof (cases "active v g = []")
        case True
        then show ?thesis
          using rotate_active_cases [OF p2(1), of g] p2 by (auto simp: sat_def)
      next
        case False
        then obtain s2 where s2: "on_store (sh_Rotate (getRedisKey g PoolTypeActive)) p2 =
            (p2\<lparr>lstore := s2\<rparr>, Inr (last (active v g)))" "store_ok s2" "sview s2 = ?W v"
          using rotate_active_cases [OF p2(1), of g] p2(2) by blast
        show ?thesis
          by (rule sat_weaken [OF sat_at [OF take [of s2 v p2]]]) (use s2 False va in auto)
      qed
    qed
    then show ?thesis
      by (rule sat_at) (use s in \<open>auto simp: lp_SelectKey_def\<close>)
  qed
qed

text \<open>Selection is round robin over the active pool after an eventual refill: the key whose id
  is the last entry is rotated to the head and returned with its stored value; the only failures
  of a good state are an empty pool after the refill and a key without details.\<close>

lemma layered_select:
  assumes "lp_ok p" "set (ready (view p) g) \<subseteq> id_texts" "set (active (view p) g) \<subseteq> id_texts"
    and "iter_order so"
  defines "v \<equiv> before_select p g"
  shows "\<exists>p' r. lp_SelectKey so now g p = (p', r) \<and> lp_ok p' \<and>
    (if active v g = [] then r = Inl ErrPoolEmpty \<and> view p' = v
     else view p' = put_list v g PoolTypeActive (rot (active v g)) \<and> selected v g r)"
  using satD [OF select_rule [OF assms(1-4), of now]] unfolding v_def by blast

section \<open>Returning a key\<close>

definition in_group :: "'z pools_scheme \<Rightarrow> nat \<Rightarrow> nat \<Rightarrow> bool" where
  "in_group v k g \<longleftrightarrow> (\<exists>t. infos v k ''group_id'' = Some t \<and> ParseUint t = (g, None))"

lemma with_group_rule:
  assumes "lp_ok p" "in_group (view p) k g"
    and "\<And>p' h. lp_ok p' \<Longrightarrow> frame p p' \<Longrightarrow> view p' = view p \<Longrightarrow> gget h = infos (view p) k \<Longrightarrow>
      sat (cont h g) p' Q"
  shows "sat (with_group k cont) p Q"
  unfolding with_group_def
proof (rule always_bind [OF always_wrap [OF details_rule [OF assms(1)]]])
  fix p' h
  assume p': "lp_ok p'" "frame p p'" "view p' = view p" and h: "gget h = infos (view p) k"
  show "sat (case gget h ''group_id'' of
        None \<Rightarrow> fail (PoolError ErrorTypeValidation ''MISSING_GROUP_ID'' None)
      | Some t \<Rightarrow>
          (case ParseUint t of
             (_, Some _) \<Rightarrow> fail (PoolError ErrorTypeInternal ''INVALID_GROUP_ID'' None)
           | (gid, None) \<Rightarrow> cont h gid)) p' Q"
    using assms(2,3) p' h by (auto simp: in_group_def)
qed

lemma hash_upd_apply:
  "hash_upd vs h f = (case map_of (rev vs) f of None \<Rightarrow> h f | Some v \<Rightarrow> Some (Sprint v))"
  unfolding hash_upd_def by (induction vs arbitrary: h) (auto simp: map_add_def split: option.splits)

lemma stats_rule:
  assumes "lp_ok p"
  shows "sat (updateKeyStats now k b) p (\<lambda>r v. r = Inr () \<and>
    (only_infos {k} (view p) v \<and> infos v k ''status'' = infos (view p) k ''status''))"
  unfolding updateKeyStats_def
  by (rule sat_logged, rule always_bind [OF details_rule [OF assms]])
    (auto intro!: sat_weaken [OF set_details_rule [unfolded always_def]] simp: hash_upd_apply)

lemma failure_rule:
  assumes "lp_ok p" "lfaults p = []" "g \<in> set (lgroups p)"
  shows "sat (handleKeyFailure k g) p (\<lambda>r v. r = Inr () \<and> only_infos {k}
    (put_list (view p) g PoolTypeActive (show_nat k # active (view p) g)) v \<and>
    infos v k ''status'' = infos (view p) k ''status'')"
  unfolding handleKeyFailure_def
proof (rule always_bind [OF details_rule [OF assms(1)]], unfold Let_def,
    rule sat_bind [OF sat_wrap [where R = "\<lambda>r v. v = view p \<and> r = Inr 0" and
        Q = "\<lambda>r v. v = view p \<and> r = Inr 0"]])
  fix p' h
  assume p': "lp_ok p'" "frame p p'" "view p' = view p"
  show "sat (first_group g) p' (\<lambda>r v. v = view p \<and> r = Inr 0)"
    using p' assms(2,3) by (intro sat_weaken [OF lp.first_group_rule]) (auto simp: frame_def)
  fix q and thr :: int
  assume q: "lp_ok q" "view q = view p \<and> Inr thr = Inr 0"
  let ?n = "i64 (fst (ParseInt (field_text h ''failure_count'')) + 1)"
  show "sat (bindE
      (if thr > 0 \<and> ?n \<ge> thr then logged (lp_rem g PoolTypeActive k)
       else wrap ErrorTypeStorage ''RETURN_FAILED'' (lp_push g PoolTypeActive k))
      (\<lambda>_. wrap ErrorTypeStorage ''UPDATE_DETAILS_FAILED'' (setKeyDetails k
        ((''failure_count'', AInt ?n) #
         (if thr > 0 \<and> ?n \<ge> thr then [(''status'', AStr KeyStatusInvalid)] else []))))) q
    (\<lambda>r v. r = Inr () \<and> only_infos {k} (put_list (view p) g PoolTypeActive (show_nat k # active (view p) g)) v \<and>
      infos v k ''status'' = infos (view p) k ''status'')"
    using q
    by (auto intro!: always_bind [OF always_wrap [OF push_rule]]
        sat_weaken [OF always_wrap [OF set_details_rule, unfolded always_def]] simp: hash_upd_apply)
qed auto

text \<open>A returned key is pushed on the active pool, whether it succeeded or failed: the pool
  grows by one entry each time although selection did not remove the key. The threshold read
  from a loaded group is 0, so no number of failures blacklists a key here.\<close>

lemma return_grows_active_pool:
  assumes "lp_ok p" "in_group (view p) k g" "lfaults p = []" "g \<in> set (lgroups p)"
  shows "\<exists>p'. lp_ReturnKey now k success p = (p', Inr ()) \<and> lp_ok p' \<and>
    active (view p') g = show_nat k # active (view p) g \<and>
    ready (view p') g = ready (view p) g \<and>
    infos (view p') k ''status'' = infos (view p) k ''status''"
proof -
  have "sat (lp_ReturnKey now k success) p (\<lambda>r v. r = Inr () \<and>
    only_infos {k} (put_list (view p) g PoolTypeActive (show_nat k # active (view p) g)) v \<and>
    infos v k ''status'' = infos (view p) k ''status'')"
    unfolding lp_ReturnKey_def
  proof (rule with_group_rule [OF assms(1,2)])
    fix p' h
    assume p': "lp_ok p'" "frame p p'" "view p' = view p"
    show "sat (if success
      then bindE (wrap ErrorTypeStorage ''RETURN_FAILED'' (lp_push g PoolTypeActive k))
             (\<lambda>_. updateKeyStats now k True)
      else handleKeyFailure k g) p' (\<lambda>r v. r = Inr () \<and>
        only_infos {k} (put_list (view p) g PoolTypeActive (show_nat k # active (view p) g)) v \<and>
        infos v k ''status'' = infos (view p) k ''status'')"
      using p' failure_rule [OF p'(1)] assms(3,4)
      by (auto intro!: always_bind [OF always_wrap [OF push_rule]] sat_weaken [OF stats_rule]
          simp: frame_def)
  qed
  then show ?thesis by (drule_tac satD) (auto dest: only_infos_pools)
qed

section \<open>Rate limits and recovery\<close>

lemma rate_limit_rule:
  assumes "lp_ok p" "in_group (view p) k g"
  shows "sat (lp_HandleRateLimit now k retryAfter resetOpt) p (\<lambda>r v. r = Inr () \<and>
    active v g = removeAll (show_nat k) (active (view p) g) \<and>
    cools v g = (cools (view p) g)(show_nat k \<mapsto> unix (reset_time now retryAfter resetOpt)) \<and>
    infos v k ''status'' = Some KeyStatusRateLimited \<and>
    ready v g = ready (view p) g \<and> vals v = vals (view p))"
  unfolding lp_HandleRateLimit_def
  by (rule with_group_rule [OF assms(1,2)], unfold Let_def,
        rule always_bind [OF always_logged [OF rem_rule]], assumption, simp,
        rule always_bind [OF always_wrap [OF cool_rule]], assumption,
        rule always_bind [OF always_wrap [OF set_details_rule]], assumption,
        rule sat_weaken [OF cache_rule [unfolded always_def]], assumption)
      (simp add: hash_upd_apply)

text \<open>C10: A rate-limited key leaves the active pool entirely, enters the cooling pool with its
  reset time as score and is marked; the ready pool, from which refills copy, is not touched.\<close>

theorem rate_limit_cools_key:
  assumes "lp_ok p" "in_group (view p) k g"
  shows "\<exists>p'. lp_HandleRateLimit now k retryAfter resetOpt p = (p', Inr ()) \<and> lp_ok p' \<and> frame p p' \<and>
    active (view p') g = removeAll (show_nat k) (active (view p) g) \<and>
    cools (view p') g = (cools (view p) g)(show_nat k \<mapsto> unix (reset_time now retryAfter resetOpt)) \<and>
    infos (view p') k ''status'' = Some KeyStatusRateLimited \<and>
    ready (view p') g = ready (view p) g \<and> vals (view p') = vals (view p)"
  using satD [OF rate_limit_rule [OF assms, of now retryAfter resetOpt]] by auto

text \<open>A key that is still in the ready pool when it is rate limited is put back in the active
  pool by the next refill that goes round the ready pool, while it is in the cooling pool.\<close>

lemma rate_limited_key_reactivated:
  assumes "lp_ok p" "in_group (view p) k g" "set (ready (view p) g) \<subseteq> id_texts" "iter_order so"
    and "show_nat k \<in> set (ready (view p) g)"
    and "length (ready (view p) g) \<le> refill_count (cfg p g) (length (removeAll (show_nat k) (active (view p) g)))"
  shows "\<exists>p1 p2. lp_HandleRateLimit now k retryAfter resetOpt p = (p1, Inr ()) \<and>
    show_nat k \<notin> set (active (view p1) g) \<and>
    lp_RefillPools so g p1 = (p2, Inr ()) \<and> show_nat k \<in> set (active (view p2) g) \<and>
    cools (view p2) g (show_nat k) \<noteq> None"
proof -
  obtain p1 where p1: "lp_HandleRateLimit now k retryAfter resetOpt p = (p1, Inr ())" "lp_ok p1"
      "frame p p1" "active (view p1) g = removeAll (show_nat k) (active (view p) g)"
      "cools (view p1) g (show_nat k) \<noteq> None" "ready (view p1) g = ready (view p) g"
    using satD [OF rate_limit_rule [OF assms(1,2), of now retryAfter resetOpt]] by auto
  have c: "cfg p1 g = cfg p g" using p1(3) by (simp add: frame_def)
  obtain p2 where p2: "lp_RefillPools so g p1 = (p2, Inr ())"
      "view p2 = refilled (cfg p1 g) g (view p1)"
    using always_D [OF refill_rule [OF p1(2) _ assms(4), of g]] assms(3) p1(6) by auto
  have "show_nat k \<in> set (active (view p2) g)"
    using assms(5,6) p1(4,6) c refill_lists_all unfolding p2(2) refilled_def by fastforce
  then show ?thesis using p1 p2 by (intro exI [of _ p1] exI [of _ p2]) (simp add: refilled_def)
qed

lemma expired_rule:
  assumes "lp_ok p" "iter_order zo" "dom (cools (view p) g) \<subseteq> id_texts"
  shows "always (getExpiredFromCoolingPool zo now g) p
    (\<lambda>ks. range_result (cools (view p) g) 0 (unix now) (ids ks)) (view p)"
proof -
  have st: "always (on_store (sh_ZRangeByScore zo (getRedisKey g PoolTypeCooling) 0 (unix now))) p
      (range_result (cools (view p) g) 0 (unix now)) (view p)"
    using view_zrange [OF assms(1,2), of g] by (intro on_store_always) fastforce
  have "ids (map (fst \<circ> ParseUint) (filter (\<lambda>m. snd (ParseUint m) = None) ms)) = ms"
    if "range_result (cools (view p) g) 0 (unix now) ms" for ms
  proof -
    have "set ms \<subseteq> id_texts" using that assms(3) by (auto simp: range_result_def)
    then show ?thesis
    proof (induction ms)
      case (Cons m ms)
      then obtain k where "m = show_nat k" "ParseUint m = (k, None)" by (auto elim: id_textsE)
      then show ?case using Cons by simp
    qed simp
  qed
  then show ?thesis
    unfolding getExpiredFromCoolingPool_def
    by (intro always_bind_always [OF st] always_ret) simp_all
qed

abbreviation uncooled :: "pools \<Rightarrow> nat \<Rightarrow> nat list \<Rightarrow> pools" where
  "uncooled v g ks \<equiv> put_list (v\<lparr>cools := (cools v)(g := cools v g |` (- set (ids ks)))\<rparr>) g PoolTypeReady
     (rev (ids ks) @ ready v g)"

lemma put_list_cools: "(put_list v g t l)\<lparr>cools := c\<rparr> = put_list (v\<lparr>cools := c\<rparr>) g t l"
  "(put_list v g t l)\<lparr>infos := i\<rparr> = put_list (v\<lparr>infos := i\<rparr>) g t l"
  by (simp_all add: put_list_def)

lemma recover_one_rule:
  assumes "lp_ok p"
  shows "sat (recoverSingleCooledKey tf g k) p (\<lambda>r v. r = Inr () \<and> (\<exists>f. v = (uncooled (view p) g [k])\<lparr>infos := f\<rparr>))"
  unfolding recoverSingleCooledKey_def addToReadyPool_def
  by (rule always_bind [OF remove_cooling_rule [OF assms]],
      rule always_bind [OF set_details_rule], assumption,
      rule sat_weaken [OF add_list_rule], assumption, simp)
    (auto simp: only_infos_def put_list_def)

lemma recover_all_rule: "lp_ok p \<Longrightarrow> \<exists>p'. recover_cooled tf g ks p = (p', int (length ks)) \<and>
    lp_ok p' \<and> frame p p' \<and> (\<exists>f. view p' = (uncooled (view p) g ks)\<lparr>infos := f\<rparr>)"
proof (induction ks arbitrary: p)
  case Nil
  have "view p = (uncooled (view p) g [])\<lparr>infos := infos (view p)\<rparr>"
    using put_list_simps(5) [of "view p" g PoolTypeReady]
    by (simp add: fun_upd_idem restrict_map_def put_list_def)
  then show ?case using Nil by (auto intro: exI [of _ "infos (view p)"])
next
  case (Cons k ks)
  obtain p1 f where p1: "recoverSingleCooledKey tf g k p = (p1, Inr ())" "lp_ok p1" "frame p p1"
    "view p1 = (uncooled (view p) g [k])\<lparr>infos := f\<rparr>"
    using satD [OF recover_one_rule [OF Cons.prems]] by blast
  obtain p2 f2 where p2: "recover_cooled tf g ks p1 = (p2, int (length ks))" "lp_ok p2" "frame p1 p2"
    "view p2 = (uncooled (view p1) g ks)\<lparr>infos := f2\<rparr>"
    using Cons.IH [OF p1(2)] by blast
  have "cools (view p) g |` (- set (ids [k])) |` (- set (ids ks)) = cools (view p) g |` (- set (ids (k # ks)))"
    by (auto simp: restrict_map_def)
  then have "view p2 = (uncooled (view p) g (k # ks))\<lparr>infos := f2\<rparr>"
    unfolding p2(4) p1(4) by (simp add: put_list_def)
  moreover have "recover_cooled tf g (k # ks) p = (p2, int (length (k # ks)))"
    using p1(1) p2(1) by simp
  ultimately show ?case using p2(2) frame_trans [OF p1(3) p2(3)] by blast
qed

text \<open>C9: Recovery takes out of the cooling pool exactly the keys whose reset time has come, each
  once, and puts each of them in the ready pool; it reports how many, and every other pool and
  every other cooling key is as before.\<close>

theorem recovery_exact:
  assumes "lp_ok p" "iter_order zo" "dom (cools (view p) g) \<subseteq> id_texts"
  shows "\<exists>p' ms. lp_RecoverCooledKeys tf zo now g p = (p', Inr (int (length ms))) \<and> lp_ok p' \<and>
    distinct ms \<and> set ms = {m. \<exists>sc. cools (view p) g m = Some sc \<and> 0 \<le> sc \<and> sc \<le> unix now} \<and>
    cools (view p') g = cools (view p) g |` (- set ms) \<and>
    ready (view p') g = rev ms @ ready (view p) g \<and>
    active (view p') = active (view p) \<and> vals (view p') = vals (view p)"
proof -
  have e: "always (wrap ErrorTypeStorage ''GET_EXPIRED_KEYS_FAILED'' (getExpiredFromCoolingPool zo now g)) p
    (\<lambda>ks. range_result (cools (view p) g) 0 (unix now) (ids ks)) (view p)"
    by (rule always_wrap [OF expired_rule [OF assms]])
  from always_D [OF e] obtain p1 ks where p1: "wrap ErrorTypeStorage ''GET_EXPIRED_KEYS_FAILED''
      (getExpiredFromCoolingPool zo now g) p = (p1, Inr ks)" "lp_ok p1" "view p1 = view p"
      "range_result (cools (view p) g) 0 (unix now) (ids ks)" by blast
  obtain p2 f where p2: "recover_cooled tf g ks p1 = (p2, int (length ks))" "lp_ok p2"
    "view p2 = (uncooled (view p1) g ks)\<lparr>infos := f\<rparr>"
    using recover_all_rule [OF p1(2)] by blast
  have "lp_RecoverCooledKeys tf zo now g p = (p2, Inr (int (length (ids ks))))"
    using p1(1) p2(1) by (simp add: lp_RecoverCooledKeys_def bindE_def)
  then show ?thesis
    using p1(3,4) p2(2,3) by (intro exI [of _ p2] exI [of _ "ids ks"])
      (auto simp: range_result_def fun_eq_iff)
qed

section \<open>Moves\<close>

definition moved :: "lp \<Rightarrow> nat \<Rightarrow> nat \<Rightarrow> PoolType \<Rightarrow> PoolType \<Rightarrow> lp_err + unit \<Rightarrow> pools \<Rightarrow> bool" where
  "moved p k g src to r v \<longleftrightarrow>
    (let w = pool_without [k] g src (view p); ks = pool_rows p g [k] in
      (r = Inr () \<and> addable to \<and> ks \<noteq> [] \<and> only_infos {k} (pool_with ks g to w) v) \<or>
      ((\<exists>e. r = Inl e) \<and> (lfaults p = [] \<longrightarrow> \<not> addable to \<or> ks = []) \<and>
       (v = w \<or> (addable src \<and> ks \<noteq> [] \<and> only_infos {k} (pool_with ks g src w) v)) \<and>
       (lfaults p = [] \<and> addable src \<and> ks \<noteq> [] \<longrightarrow> only_infos {k} (pool_with ks g src w) v)))"

lemma add_result_cases:
  assumes "lp_ok p"
  obtains (added) p' where "addKeysToPool tf g [k] t p = (p', Inr ())" "lp_ok p'" "frame p p'"
      "addable t" "pool_rows p g [k] \<noteq> []" "only_infos {k} (pool_with (pool_rows p g [k]) g t (view p)) (view p')"
    | (failed) p' e where "addKeysToPool tf g [k] t p = (p', Inl e)" "lp_ok p'" "frame p p'"
      "view p' = view p" "lfaults p = [] \<longrightarrow> \<not> addable t \<or> pool_rows p g [k] = []"
  using satD [OF add_rule [OF assms, of tf g "[k]" t]] unfolding add_result_def by fastforce

lemma move_key_rule:
  assumes "lp_ok p" "in_group (view p) k g" "known src" "src \<noteq> to"
  shows "sat (lp_MoveKey tf k src to) p (moved p k g src to)"
proof -
  let ?w = "pool_without [k] g src (view p)" and ?ks = "pool_rows p g [k]"
  have exec: "sat (executeAtomicMove tf k g src to) p0 (moved p k g src to)"
    if p0: "lp_ok p0" "frame p p0" "view p0 = view p" for p0
    unfolding executeAtomicMove_def
  proof (rule always_bind [OF always_wrap [OF remove_rule [OF p0(1) assms(3)]]])
    fix p1
    assume p1: "lp_ok p1" "frame p0 p1" "view p1 = pool_without [k] g src (view p0)"
    note f1 = frame_trans [OF p0(2) p1(2)] and v1 = p1(3) [unfolded p0(3)]
    have flt: "lfaults p = [] \<Longrightarrow> lfaults p1 = []" using f1 by (simp add: frame_def)
    show "sat (\<lambda>p. case addKeysToPool tf g [k] to p of
         (p1, Inr _) \<Rightarrow> (p1, Inr ())
       | (p1, Inl e) \<Rightarrow>
           (fst (logged (addKeysToPool tf g [k] src) p1),
            Inl (PoolError ErrorTypeStorage ''ADD_TO_TARGET_FAILED'' (Some e)))) p1 (moved p k g src to)"
      using p1(1)
    proof (cases rule: add_result_cases [where tf = tf and g = g and k = k and t = to])
      case (added p2)
      then show ?thesis
        using v1 by (simp add: sat_def moved_def pool_rows_frame [OF f1])
    next
      case (failed p2 e)
      note f2 = frame_trans [OF f1 failed(3)]
      have flt2: "lfaults p = [] \<Longrightarrow> lfaults p2 = []" using f2 by (simp add: frame_def)
      show ?thesis
        using failed(2)
      proof (cases rule: add_result_cases [where tf = tf and g = g and k = k and t = src])
        case (added p3)
        then show ?thesis
          using failed v1 flt frame_trans [OF failed(3)]
          by (simp add: sat_def moved_def logged_def pool_rows_frame [OF f1] pool_rows_frame [OF f2])
      next
        case l: (failed p3 e')
        then show ?thesis
          using failed v1 flt flt2 frame_trans [OF failed(3)]
          by (auto simp: sat_def moved_def Let_def logged_def pool_rows_frame [OF f1] pool_rows_frame [OF f2])
      qed
    qed
  qed
  show ?thesis
    unfolding lp_MoveKey_def
    by (rule with_group_rule [OF assms(1,2)]) (use exec assms(4) in auto)
qed

text \<open>A move reaches the target or fails. After a success the key is out of its source and at
  the head of the target. A failed move leaves the key out of its source, or put back at the head
  of it; with a working database it is put back whenever the source can be added to.\<close>

lemma move_outcome:
  assumes "lp_ok p" "in_group (view p) k g" "known src" "src \<noteq> to"
  shows "\<exists>p' r. lp_MoveKey tf k src to p = (p', r) \<and> lp_ok p' \<and> moved p k g src to r (view p')"
  using satD [OF move_key_rule [OF assms]] by blast

text \<open>A move out of the cooling pool that fails has lost the key: it is no longer in the
  cooling pool, and neither the rollback nor anything else puts it in a pool.\<close>

lemma failed_move_from_cooling_loses_key:
  assumes "lp_ok p" "in_group (view p) k g" "to \<noteq> PoolTypeCooling"
    and "lp_MoveKey tf k PoolTypeCooling to p = (p', Inl e)"
  shows "cools (view p') g = cools (view p) g |` (- {show_nat k}) \<and>
    lists (view p') = lists (view p) \<and> vals (view p') = vals (view p)"
proof -
  have "moved p k g PoolTypeCooling to (Inl e) (view p')"
    using satD [OF move_key_rule [OF assms(1,2), of PoolTypeCooling to tf]] assms(3,4) by auto
  then show ?thesis by (simp add: moved_def addable_def Let_def)
qed

section \<open>Statistics and the local cache\<close>

text \<open>The statistics of a group are the four pool sizes and their sum, and reading them
  changes no pool.\<close>

lemma pool_stats_exact:
  assumes "lp_ok p" "iter_order so"
  shows "\<exists>p'. lp_GetPoolStats so g p =
      (p', map (\<lambda>t. (t, int (pool_size (view p) g t))) all_pools,
       \<Sum>t\<leftarrow>all_pools. int (pool_size (view p) g t)) \<and> view p' = view p"
proof -
  have "\<exists>p'. pool_counts so g ts q = (p', map (\<lambda>t. (t, int (pool_size (view q) g t))) ts) \<and>
      lp_ok p' \<and> view p' = view q" if "lp_ok q" "set ts \<subseteq> set all_pools" for q ts
    using that
  proof (induction ts arbitrary: q)
    case (Cons t ts)
    then obtain q1 where "getPoolSize so g t q = (q1, Inr (int (pool_size (view q) g t)))"
        "lp_ok q1" "view q1 = view q"
      using always_D [OF size_rule [OF _ assms(2), of q t g]] by (auto simp: known_def)
    then show ?case using Cons.IH [of q1] Cons.prems by auto
  qed simp
  from this [OF assms(1) subset_refl] show ?thesis
    by (auto simp: lp_GetPoolStats_def o_def)
qed

end
