(* ===== verification/LayeredReach.thy ===== *)
theory LayeredReach
  imports LayeredProps
begin

text \<open>The bound of the local cache, the reachable states of the layered pool with the invariant
  that every entry of a pool is the decimal text of an id, and the concrete inputs of the
  properties of LayeredProps.\<close>

section \<open>The local cache keeps its bound\<close>

abbreviation stale :: "int \<Rightarrow> nat \<times> PoolKey \<times> int \<Rightarrow> bool" where
  "stale now e \<equiv> now > snd (snd e)"

lemma collect_expired_take:
  "int (length acc) \<le> need \<Longrightarrow> collect_expired now need es acc =
   acc @ take (nat need - length acc) (map fst (filter (stale now) es))"
proof (induction now need es acc rule: collect_expired.induct)
  case (2 now need kid key et es acc)
  show ?case
  proof (cases "int (length acc) \<ge> need")
    case True
    then show ?thesis by simp
  next
    case False
    then show ?thesis using 2 by (cases "now > et") (auto simp: Suc_diff_le take_Cons')
  qed
qed simp

lemma collect_any_take:
  "int (length acc) \<le> need \<Longrightarrow> distinct ks \<Longrightarrow> collect_any need ks acc =
   acc @ take (nat need - length acc) (filter (\<lambda>k. k \<notin> set acc) ks)"
proof (induction need ks acc rule: collect_any.induct)
  case (2 need kid ks acc)
  show ?case
  proof (cases "int (length acc) \<ge> need")
    case True
    then show ?thesis by simp
  next
    case False
    have f: "filter (\<lambda>k. k \<noteq> kid \<and> k \<notin> set acc) ks = filter (\<lambda>k. k \<notin> set acc) ks"
      using 2(3) by (intro filter_cong) auto
    show ?thesis
      using 2 False f by (cases "kid \<in> set acc") (auto simp: Suc_diff_le take_Cons')
  qed
qed simp

lemma fold_gdel: "fold gdel ks m = filter (\<lambda>e. fst e \<notin> set ks) m"
proof (induction ks arbitrary: m)
  case (Cons k ks)
  then show ?case by (auto simp: AList.delete_eq filter_filter case_prod_beta intro!: filter_cong)
qed simp

lemma length_filter_notin:
  assumes "distinct xs" "distinct ks" "set ks \<subseteq> set xs"
  shows "length (filter (\<lambda>k. k \<notin> set ks) xs) = length xs - length ks"
proof -
  have "set (filter (\<lambda>k. k \<in> set ks) xs) = set ks" using assms(3) by auto
  then have "length (filter (\<lambda>k. k \<in> set ks) xs) = length ks"
    using assms(1,2) by (metis distinct_card distinct_filter)
  then show ?thesis using sum_length_filter_compl [of "\<lambda>k. k \<in> set ks" xs] by simp
qed

text \<open>Shrinking the local cache leaves exactly the entries that fit (none for a negative
  bound), and an entry that has not expired is dropped only when no expired one is kept, whatever
  the iteration orders of the map.\<close>

lemma cache_resize_exact:
  assumes "gomap_ok (ccache c)" "iter_order eo" "iter_order ko"
  shows "\<exists>c'. cache_UpdateConfig eo ko now (Some (maxSize, ttl)) c = Inr c' \<and>
    length (ccache c') = min (length (ccache c)) (nat maxSize) \<and>
    set (ccache c') \<subseteq> set (ccache c) \<and>
    ((\<exists>e \<in> set (ccache c) - set (ccache c'). \<not> stale now e) \<longrightarrow>
     (\<forall>e \<in> set (ccache c'). \<not> stale now e))"
proof -
  let ?m = "ccache c"
  let ?need = "int (length ?m) - maxSize"
  show ?thesis
  proof (cases "?need > 0")
    case False
    then show ?thesis by (simp add: cache_UpdateConfig_def Let_def min_def) linarith
  next
    case True
    let ?ex = "map fst (filter (stale now) (eo ?m))"
    define k1 where "k1 = take (nat ?need) ?ex"
    define k2 where "k2 = (if int (length k1) < ?need
      then k1 @ take (nat ?need - length k1) (filter (\<lambda>k. k \<notin> set k1) (ko (map fst ?m))) else k1)"
    have dk: "distinct (map fst ?m)" using assms(1) by (simp add: gomap_ok_def)
    have ex: "set ?ex = fst ` {e \<in> set ?m. stale now e}"
      using iter_order_set [OF assms(2)] by auto
    have "distinct (map fst (eo ?m))"
      using iter_order_map_of(1) [OF assms(2,1)] by (simp add: gomap_ok_def)
    then have d1: "distinct k1" unfolding k1_def by (intro distinct_take distinct_map_filter)
    have dko: "distinct (ko (map fst ?m))" and sko: "set (ko (map fst ?m)) = fst ` set ?m"
      using dk iter_order_distinct [OF assms(3)] iter_order_set [OF assms(3)] by auto
    have s1: "set k1 \<subseteq> fst ` {e \<in> set ?m. stale now e}"
      unfolding k1_def using ex set_take_subset by fastforce
    have d2: "distinct k2"
      unfolding k2_def using d1 dko by (auto dest: in_set_takeD)
    have s2: "set k2 \<subseteq> fst ` set ?m"
      unfolding k2_def using s1 sko by (auto dest: in_set_takeD)
    have e: "cache_UpdateConfig eo ko now (Some (maxSize, ttl)) c =
        Inr (c\<lparr>cmaxSize := maxSize, cttl := ttl, ccache := filter (\<lambda>e. fst e \<notin> set k2) ?m\<rparr>)"
      using True dko by (simp add: cache_UpdateConfig_def Let_def fold_gdel collect_expired_take
          collect_any_take k1_def k2_def)
    have c1: "length k1 \<le> length ?m"
      using s1 d1 card_mono [of "fst ` set ?m" "set k1"] card_image_le [of "set ?m" fst]
        card_length [of ?m] by (fastforce simp: distinct_card)
    have "length (filter (\<lambda>k. k \<notin> set k1) (ko (map fst ?m))) = length ?m - length k1"
      using length_filter_notin [OF dko d1] s1 sko iter_order_length [OF assms(3), of "map fst ?m"]
      by auto
    moreover have "length k1 \<le> nat ?need" unfolding k1_def by simp
    ultimately have len: "length k2 = min (nat ?need) (length ?m)"
      using c1 unfolding k2_def by (auto simp: min_def)
    have k1_all: "length k1 < nat ?need \<Longrightarrow> k1 = ?ex"
      unfolding k1_def by simp
    let ?kept = "filter (\<lambda>e. fst e \<notin> set k2) ?m"
    have "length ?kept = length (filter (\<lambda>k. k \<notin> set k2) (map fst ?m))"
      by (simp add: filter_map o_def)
    also have "\<dots> = length ?m - length k2"
      using length_filter_notin [OF dk d2] s2 by simp
    finally have size: "length ?kept = min (length ?m) (nat maxSize)"
      using len True by (simp add: min_def) linarith
    have "\<not> stale now e'" if "e \<in> set ?m - set ?kept" "\<not> stale now e" "e' \<in> set ?kept" for e e'
    proof
      assume st: "stale now e'"
      have i: "inj_on fst (set ?m)" using dk by (simp add: distinct_map)
      have "fst e \<in> set k2" "e \<in> set ?m" using that(1) by auto
      moreover have "fst e \<notin> set k1" using s1 i that(2) calculation(2) by (auto dest: inj_onD)
      ultimately have "length k1 < nat ?need" unfolding k2_def by (auto split: if_splits)
      then have "fst e' \<in> set k1" using k1_all ex st that(3) by auto
      then have "fst e' \<in> set k2" unfolding k2_def by simp
      then show False using that(3) by simp
    qed
    then show ?thesis unfolding e using size by fastforce
  qed
qed

section \<open>Reachable states\<close>

definition pools_wf :: "pools \<Rightarrow> bool" where
  "pools_wf v \<longleftrightarrow> (\<forall>g. vals v g \<subseteq> id_texts \<and> set (ready v g) \<subseteq> id_texts \<and>
     set (active v g) \<subseteq> id_texts \<and> dom (cools v g) \<subseteq> id_texts)"

definition good :: "lp \<Rightarrow> bool" where
  "good p \<longleftrightarrow> lp_ok p \<and> pools_wf (view p)"

definition keeps :: "(lp \<Rightarrow> lp \<times> 'r) \<Rightarrow> bool" where
  "keeps m \<longleftrightarrow> (\<forall>p. good p \<longrightarrow> good (fst (m p)))"

definition is_uint :: "nat \<Rightarrow> bool" where
  "is_uint k \<longleftrightarrow> k \<le> 18446744073709551615"

lemma uint_text [simp]: "is_uint k \<Longrightarrow> show_nat k \<in> id_texts"
  by (auto simp: is_uint_def id_texts_def)

lemma keeps_sat: "(\<And>p. good p \<Longrightarrow> sat m p (\<lambda>r v. pools_wf v)) \<Longrightarrow> keeps m"
  unfolding keeps_def good_def by (fastforce dest!: satD)

lemma keeps_always: "(\<And>p. good p \<Longrightarrow> \<exists>P w. always m p P w \<and> pools_wf w) \<Longrightarrow> keeps m"
  by (rule keeps_sat) (fastforce simp: always_def elim: sat_weaken)

lemma keeps_ret [simp]: "keeps (ret x)" "keeps (fail e)"
  by (simp_all add: keeps_def ret_def fail_def)

lemma keeps_bind: "keeps m \<Longrightarrow> (\<And>x. keeps (f x)) \<Longrightarrow> keeps (bindE m f)"
  unfolding keeps_def bindE_def by (fastforce split: prod.splits sum.splits)

lemma keeps_wrap: "keeps m \<Longrightarrow> keeps (wrap ty c m)"
  unfolding keeps_def wrap_def by (fastforce split: prod.splits sum.splits)

lemma keeps_logged: "keeps m \<Longrightarrow> keeps (logged m)"
  by (simp add: keeps_def logged_def)

lemma keeps_for_each: "(\<And>x. x \<in> set xs \<Longrightarrow> keeps (f x)) \<Longrightarrow> keeps (for_each f xs)"
  by (induction xs) (auto intro: keeps_bind)

lemma keeps_cache: "keeps (on_cache f)"
  by (simp add: keeps_def on_cache_def good_def)

lemma keeps_db: "keeps (on_db q)"
  by (auto simp: keeps_def on_db_def good_def split: list.splits option.splits)

lemma pools_wf_infos [simp]: "pools_wf (v\<lparr>infos := f\<rparr>) = pools_wf v"
  by (simp add: pools_wf_def)

lemma only_infos_wf: "only_infos K v v' \<Longrightarrow> pools_wf v \<Longrightarrow> pools_wf v'"
  by (auto simp: only_infos_def)

lemma pools_wf_put_list: "pools_wf v \<Longrightarrow> set l \<subseteq> id_texts \<Longrightarrow> pools_wf (put_list v g t l)"
  by (simp add: pools_wf_def)

lemma pools_wf_at: "pools_wf v \<Longrightarrow> list_pool t \<Longrightarrow> set (lists v (g, t)) \<subseteq> id_texts"
  "pools_wf v \<Longrightarrow> dom (cools v g) \<subseteq> id_texts" "pools_wf v \<Longrightarrow> vals v g \<subseteq> id_texts"
  by (auto simp: pools_wf_def)

lemma pools_wf_in:
  "pools_wf v \<Longrightarrow> x \<in> set (ready v g) \<Longrightarrow> x \<in> id_texts"
  "pools_wf v \<Longrightarrow> x \<in> set (active v g) \<Longrightarrow> x \<in> id_texts"
  by (auto simp: pools_wf_def)

lemma keeps_push: "list_pool t \<Longrightarrow> is_uint k \<Longrightarrow> keeps (lp_push g t k)"
  by (rule keeps_always, intro exI conjI, rule push_rule)
    (auto simp: good_def intro!: pools_wf_put_list intro: pools_wf_in)

lemma keeps_rem: "list_pool t \<Longrightarrow> keeps (lp_rem g t k)"
  by (rule keeps_always, intro exI conjI, rule rem_rule)
    (auto simp: good_def intro!: pools_wf_put_list intro: pools_wf_in)

lemma keeps_details: "keeps (getKeyDetails k)" "keeps (setKeyDetails k vs)"
  "keeps (on_store (sh_Delete (getKeyDetailsKey k)))"
  by (rule keeps_always, intro exI conjI, rule details_rule set_details_rule delete_details_rule;
      simp add: good_def)+

lemma keeps_cool: "is_uint k \<Longrightarrow> keeps (addToCoolingPool g k t)"
  by (rule keeps_always, intro exI conjI, rule cool_rule) (auto simp: good_def pools_wf_def)

lemma pools_wf_without: "pools_wf v \<Longrightarrow> pools_wf (pool_without ks g t v)"
  by (cases t) (auto simp: pools_wf_def)

lemma pools_wf_with: "pools_wf v \<Longrightarrow> \<forall>k \<in> set ks. is_uint k \<Longrightarrow> pools_wf (pool_with ks g t v)"
  by (cases t) (auto simp: pools_wf_def)

lemma keeps_remove: "keeps (removeKeysFromPool g ks t)"
proof (cases "known t")
  case True
  then show ?thesis
    by (intro keeps_always exI conjI, rule_tac remove_rule) (auto simp: good_def pools_wf_without)
next
  case False
  then obtain x where "t = PoolTypeOther x" by (cases t) auto
  then show ?thesis by (simp add: removeKeysFromPool_def)
qed

lemma keeps_add:
  assumes "\<forall>k \<in> set ks. is_uint k"
  shows "keeps (addKeysToPool tf g ks t)"
proof (rule keeps_sat)
  fix p assume p: "good p"
  have u: "\<forall>k \<in> set (pool_rows p g ks). is_uint k" using assms pool_rows_subset by blast
  show "sat (addKeysToPool tf g ks t) p (\<lambda>r v. pools_wf v)"
    by (rule sat_weaken [OF add_rule])
      (use p u in \<open>auto simp: good_def add_result_def intro: only_infos_wf pools_wf_with\<close>)
qed

lemma keeps_size: "iter_order so \<Longrightarrow> keeps (getPoolSize so g t)"
proof (cases "known t")
  case True
  then show "iter_order so \<Longrightarrow> ?thesis"
    by (intro keeps_always exI conjI, rule_tac size_rule) (auto simp: good_def)
next
  case False
  then obtain x where "t = PoolTypeOther x" by (cases t) auto
  then show ?thesis by (simp add: getPoolSize_def)
qed

lemma keeps_with_group:
  assumes "\<And>h g. keeps (cont h g)"
  shows "keeps (with_group k cont)"
  unfolding with_group_def
  by (intro keeps_bind keeps_wrap keeps_details) (auto split: option.splits prod.splits intro: assms)

lemmas keeps_rules = keeps_ret keeps_bind keeps_wrap keeps_logged keeps_for_each keeps_cache keeps_db
  keeps_push keeps_rem keeps_details keeps_cool keeps_remove keeps_add keeps_size keeps_with_group

lemma keeps_AddKeys: "\<forall>k \<in> set ks. is_uint k \<Longrightarrow> keeps (lp_AddKeys tf g ks)"
  by (simp add: lp_AddKeys_def keeps_add)

lemma keeps_RemoveKeys: "keeps (lp_RemoveKeys g ks)"
  unfolding lp_RemoveKeys_def by (auto intro!: keeps_rules)

lemma keeps_RefillPools:
  assumes "iter_order so"
  shows "keeps (lp_RefillPools so g)"
proof (intro keeps_always exI conjI, rule refill_rule)
  fix p assume p: "good p"
  show "lp_ok p" "set (ready (view p) g) \<subseteq> id_texts"
    using p by (auto simp: good_def pools_wf_def)
  show "pools_wf (refilled (cfg p g) g (view p))"
  proof -
    let ?l = "refill_lists (refill_count (cfg p g) (length (active (view p) g)))
      (ready (view p) g) (active (view p) g)"
    have wf: "pools_wf (view p)" using p by (simp add: good_def)
    have r: "set (fst ?l) \<subseteq> id_texts"
      using wf by (simp only: mset_eq_setD [OF refill_lists_props(1)]) (auto intro: pools_wf_in)
    have "set (snd ?l) \<subseteq> id_texts"
      using refill_lists_props(3) wf by (blast intro: pools_wf_in)
    then show ?thesis
      unfolding refilled_def by (intro pools_wf_put_list wf r)
  qed
qed (rule assms)

lemma keeps_SelectKey:
  assumes "iter_order so"
  shows "keeps (lp_SelectKey so now g)"
  unfolding keeps_def
proof (intro allI impI)
  fix p assume p: "good p"
  have "good (fst (lp_RefillPools so g p))"
    using keeps_RefillPools [OF assms] p by (simp add: keeps_def)
  then have "pools_wf (before_select p g)"
    using p always_D [OF refill_rule [OF _ _ assms, of p g]]
    by (fastforce simp: before_select_def good_def pools_wf_def)
  note b = this
  have "pools_wf (put_list (before_select p g) g PoolTypeActive (rot (active (before_select p g) g)))"
    if "active (before_select p g) g \<noteq> []"
    using that b rot_props(1) by (intro pools_wf_put_list) (auto intro: pools_wf_in)
  moreover have "set (ready (view p) g) \<subseteq> id_texts" "set (active (view p) g) \<subseteq> id_texts"
    using p by (auto simp: good_def intro: pools_wf_in)
  ultimately show "good (fst (lp_SelectKey so now g p))"
    using satD [OF select_rule [of p g so now]] p assms b unfolding good_def
    by (metis fst_conv)
qed

lemma keeps_ReturnKey: "is_uint k \<Longrightarrow> keeps (lp_ReturnKey now k success)"
  unfolding lp_ReturnKey_def updateKeyStats_def handleKeyFailure_def first_group_def Let_def
  by (auto intro!: keeps_rules)

lemma keeps_HandleRateLimit: "is_uint k \<Longrightarrow> keeps (lp_HandleRateLimit now k retryAfter resetOpt)"
  unfolding lp_HandleRateLimit_def Let_def by (auto intro!: keeps_rules)

lemma keeps_rollback:
  assumes "keeps f" "keeps h"
  shows "keeps (\<lambda>p. case f p of (p1, Inr _) \<Rightarrow> (p1, Inr ()) | (p1, Inl e) \<Rightarrow> (fst (logged h p1), Inl (E e)))"
  using assms unfolding keeps_def logged_def by (fastforce split: prod.splits sum.splits)

lemma keeps_MoveKey: "is_uint k \<Longrightarrow> keeps (lp_MoveKey tf k src to)"
  unfolding lp_MoveKey_def executeAtomicMove_def
  by (auto intro!: keeps_with_group keeps_bind keeps_wrap keeps_remove keeps_rollback keeps_add)

lemma keeps_RecoverCooledKeys:
  assumes "iter_order zo"
  shows "keeps (lp_RecoverCooledKeys tf zo now g)"
  unfolding keeps_def
proof (intro allI impI)
  fix p assume p: "good p"
  then have d: "dom (cools (view p) g) \<subseteq> id_texts" by (auto simp: good_def pools_wf_def)
  have e: "always (wrap ErrorTypeStorage ''GET_EXPIRED_KEYS_FAILED'' (getExpiredFromCoolingPool zo now g)) p
    (\<lambda>ks. range_result (cools (view p) g) 0 (unix now) (ids ks)) (view p)"
    using p by (intro always_wrap expired_rule assms d) (simp add: good_def)
  from always_D [OF e] obtain p1 ks where p1: "wrap ErrorTypeStorage ''GET_EXPIRED_KEYS_FAILED''
      (getExpiredFromCoolingPool zo now g) p = (p1, Inr ks)" "lp_ok p1" "view p1 = view p"
      "range_result (cools (view p) g) 0 (unix now) (ids ks)" by blast
  obtain p2 f where p2: "recover_cooled tf g ks p1 = (p2, int (length ks))" "lp_ok p2"
    "view p2 = (uncooled (view p1) g ks)\<lparr>infos := f\<rparr>"
    using recover_all_rule [OF p1(2)] by blast
  have "set (ids ks) \<subseteq> id_texts" using p1(4) d by (auto simp: range_result_def)
  moreover have "pools_wf (pool_without ks g PoolTypeCooling (view p))"
    using p by (intro pools_wf_without) (simp add: good_def)
  ultimately have "pools_wf (view p2)"
    using p unfolding p2(3) p1(3) pools_wf_infos good_def
    by (intro pools_wf_put_list) (auto intro: pools_wf_in)
  then show "good (fst (lp_RecoverCooledKeys tf zo now g p))"
    using p1(1) p2 by (simp add: lp_RecoverCooledKeys_def bindE_def good_def)
qed

lemma keeps_performMaintenance:
  "iter_order so \<Longrightarrow> iter_order zo \<Longrightarrow> keeps (performMaintenance tf so zo now)"
  unfolding performMaintenance_def
  by (intro keeps_rules keeps_RecoverCooledKeys keeps_RefillPools)

lemma keeps_ValidateKeys: "keeps (lp_ValidateKeys validator g ks)"
  unfolding lp_ValidateKeys_def first_group_def find_keys_def Let_def
  by (auto intro!: keeps_rules keeps_RemoveKeys split: option.split)

lemma keeps_counts: "iter_order so \<Longrightarrow> keeps (pool_counts so g ts)"
proof (induction ts)
  case (Cons t ts)
  then show ?case
    using keeps_size [of so g t] unfolding keeps_def by (fastforce split: prod.splits sum.splits)
qed (simp add: keeps_def)

lemma keeps_GetPoolStats: "iter_order so \<Longrightarrow> keeps (lp_GetPoolStats so g)"
  using keeps_counts [of so g all_pools]
  unfolding keeps_def lp_GetPoolStats_def by (fastforce split: prod.splits)

lemma keeps_UpdateConfig: "keeps (lp_UpdateConfig g c)"
  by (auto simp: keeps_def lp_UpdateConfig_def good_def split: option.splits)

text \<open>One call of the pool by a client, or one turn of its maintenance loop. Ids are the uint
  values of the program; iteration orders, times, the validator and the pending database
  failures are arbitrary.\<close>

inductive lp_step :: "(int \<Rightarrow> string) \<Rightarrow> lp \<Rightarrow> lp \<Rightarrow> bool" for tf where
  "\<forall>k \<in> set ks. is_uint k \<Longrightarrow> lp_step tf p (fst (lp_AddKeys tf g ks p))"
| "lp_step tf p (fst (lp_RemoveKeys g ks p))"
| "iter_order so \<Longrightarrow> lp_step tf p (fst (lp_SelectKey so now g p))"
| "is_uint k \<Longrightarrow> lp_step tf p (fst (lp_ReturnKey now k success p))"
| "is_uint k \<Longrightarrow> lp_step tf p (fst (lp_HandleRateLimit now k retryAfter resetOpt p))"
| "is_uint k \<Longrightarrow> lp_step tf p (fst (lp_MoveKey tf k src to p))"
| "iter_order so \<Longrightarrow> lp_step tf p (fst (lp_RefillPools so g p))"
| "iter_order zo \<Longrightarrow> lp_step tf p (fst (lp_RecoverCooledKeys tf zo now g p))"
| "lp_step tf p (fst (lp_ValidateKeys validator g ks p))"
| "iter_order so \<Longrightarrow> lp_step tf p (fst (lp_GetPoolStats so g p))"
| "iter_order so \<Longrightarrow> iter_order zo \<Longrightarrow> lp_step tf p (fst (performMaintenance tf so zo now p))"
| "lp_step tf p (fst (lp_UpdateConfig g c p))"
| "lp_step tf p (p\<lparr>lfaults := faults\<rparr>)"

inductive_cases lp_stepE: "lp_step tf p p'"

lemmas keeps_steps = keeps_AddKeys keeps_RemoveKeys keeps_SelectKey keeps_ReturnKey
  keeps_HandleRateLimit keeps_MoveKey keeps_RefillPools keeps_RecoverCooledKeys keeps_ValidateKeys
  keeps_GetPoolStats keeps_performMaintenance keeps_UpdateConfig

lemma keepsD: "keeps m \<Longrightarrow> good p \<Longrightarrow> good (fst (m p))"
  by (simp add: keeps_def)

lemma good_faults [simp]: "good (p\<lparr>lfaults := faults\<rparr>) = good p"
  by (simp add: good_def)

lemma step_good: "lp_step tf p p' \<Longrightarrow> good p \<Longrightarrow> good p'"
  by (erule lp_stepE; simp; rule keepsD [rotated], assumption, rule keeps_steps; assumption?)

inductive lp_reach :: "(int \<Rightarrow> string) \<Rightarrow> lp \<Rightarrow> lp \<Rightarrow> bool" for tf p where
  reach_refl: "lp_reach tf p p"
| reach_step: "lp_reach tf p q \<Longrightarrow> lp_step tf q r \<Longrightarrow> lp_reach tf p r"

lemma reach_good: "lp_reach tf p q \<Longrightarrow> good p \<Longrightarrow> good q"
  by (induction rule: lp_reach.induct) (auto intro: step_good)

lemma new_pool_good:
  assumes "NewMemoryLayeredPool now fc faults = Inr p"
  shows "good p \<and> view p = \<lparr>vals = \<lambda>_. {}, lists = \<lambda>_. [], cools = \<lambda>_. Map.empty, infos = \<lambda>_. Map.empty\<rparr>"
proof -
  obtain c s where s: "NewShardedMemoryStore now (Some c) = Inr s" "lstore p = s"
    using assms by (auto simp: NewMemoryLayeredPool_def Let_def split: sum.splits iface.splits)
  have "sh_inv s" "sh_abs s = Map.empty" using NewSharded_ok [OF s(1)] by simp_all
  then show ?thesis
    using s(2) by (auto simp: good_def store_ok_def sview_def atyped_def aview_def as_set_def
        as_zset_def pools_wf_def fun_eq_iff)
qed

text \<open>C8: In every state a new pool can reach, through any sequence of calls, maintenance turns
  and database failures, the store is well-formed, every pool has its own type, and every entry
  of a pool is the decimal text of an id. A selection then fails only because the pool is empty
  or the key has no details; no call ever meets a type mismatch or an unreadable id.\<close>

theorem reachable_pools_well_formed:
  assumes "NewMemoryLayeredPool t0 fc faults = Inr p0"
    and "lp_reach tf p0 p" "iter_order so"
  shows "sh_inv (lstore p) \<and> pools_wf (view p) \<and>
    (\<forall>e. snd (lp_SelectKey so now g p) = Inl e \<longrightarrow>
      e \<in> {ErrPoolEmpty, PoolError ErrorTypeValidation ''MISSING_KEY_VALUE'' None})"
proof -
  have g: "good p" using reach_good [OF assms(2)] new_pool_good [OF assms(1)] by simp
  then have "set (ready (view p) g) \<subseteq> id_texts" "set (active (view p) g) \<subseteq> id_texts"
    by (auto simp: good_def intro: pools_wf_in)
  from satD [OF select_rule [OF _ this assms(3), of now]] show ?thesis
    using g by (auto simp: good_def store_ok_def selected_def split: if_splits option.splits)
qed

end
