(* ===== verification/LayeredListing.thy ===== *)
theory LayeredListing
  imports LayeredReach
begin

text \<open>The listings of the layered pool and the status of a key that is inferred from them
  (ListKeys and GetKeyStatus of src/internal/keypool/memory_pool.go), with the proof that a listing
  is exact and that the inferred status is right in every state.\<close>

section \<open>Operations\<close>

definition listValidationKeys :: "string iter \<Rightarrow> nat \<Rightarrow> nat list lact" where
  "listValidationKeys so gid = bindE (wrap ErrorTypeStorage ''SMEMBERS_FAILED''
     (on_store (sh_SMembers so (getRedisKey gid PoolTypeValidation)))) (\<lambda>ms. ret (parse_ids ms))"

definition listReadyKeys :: "nat \<Rightarrow> nat list lact" where
  "listReadyKeys gid = bindE (wrap ErrorTypeStorage ''LRANGE_FAILED''
     (on_store (sh_LRange (getRedisKey gid PoolTypeReady) 0 (-1)))) (\<lambda>ms. ret (parse_ids ms))"

definition listActiveKeys :: "nat \<Rightarrow> nat list lact" where
  "listActiveKeys gid = bindE (wrap ErrorTypeStorage ''LRANGE_FAILED''
     (on_store (sh_LRange (getRedisKey gid PoolTypeActive) 0 (-1)))) (\<lambda>ms. ret (parse_ids ms))"

definition listCoolingKeys :: "(string \<times> int) iter \<Rightarrow> nat \<Rightarrow> nat list lact" where
  "listCoolingKeys zo gid = bindE (wrap ErrorTypeStorage ''ZRANGE_FAILED''
     (on_store (sh_ZRange zo (getRedisKey gid PoolTypeCooling) 0 (-1)))) (\<lambda>ms. ret (parse_ids ms))"

definition lp_ListKeys ::
  "string iter \<Rightarrow> (string \<times> int) iter \<Rightarrow> nat \<Rightarrow> PoolType \<Rightarrow> nat list lact" where
  "lp_ListKeys so zo gid t =
    (case t of
       PoolTypeValidation \<Rightarrow> listValidationKeys so gid
     | PoolTypeReady \<Rightarrow> listReadyKeys gid
     | PoolTypeActive \<Rightarrow> listActiveKeys gid
     | PoolTypeCooling \<Rightarrow> listCoolingKeys zo gid
     | PoolTypeOther _ \<Rightarrow> fail (PoolError ErrorTypeValidation ''UNKNOWN_POOL_TYPE'' None))"

definition status_of_pool :: "PoolType \<Rightarrow> string" where
  "status_of_pool t = (if t = PoolTypeCooling then KeyStatusRateLimited else KeyStatusActive)"

text \<open>The scan over the pools: a listing that fails is skipped.\<close>

fun scan_pools :: "string iter \<Rightarrow> (string \<times> int) iter \<Rightarrow> nat \<Rightarrow> nat \<Rightarrow> PoolType list \<Rightarrow> string lact" where
  "scan_pools so zo kid gid [] = ret KeyStatusInvalid"
| "scan_pools so zo kid gid (t # ts) = (\<lambda>p.
    case lp_ListKeys so zo gid t p of
      (p1, Inl _) \<Rightarrow> scan_pools so zo kid gid ts p1
    | (p1, Inr keys) \<Rightarrow>
        if kid \<in> set keys then (p1, Inr (status_of_pool t)) else scan_pools so zo kid gid ts p1)"

definition lp_GetKeyStatus :: "string iter \<Rightarrow> (string \<times> int) iter \<Rightarrow> nat \<Rightarrow> string lact" where
  "lp_GetKeyStatus so zo kid =
    bindE (wrap ErrorTypeStorage ''KEY_DETAILS_FAILED'' (getKeyDetails kid)) (\<lambda>details.
      case gget details ''status'' of
        Some statusStr \<Rightarrow> ret statusStr
      | None \<Rightarrow>
          (case gget details ''group_id'' of
             None \<Rightarrow> fail (PoolError ErrorTypeValidation ''MISSING_GROUP_ID'' None)
           | Some t \<Rightarrow>
               (case ParseUint t of
                  (_, Some _) \<Rightarrow> fail (PoolError ErrorTypeInternal ''INVALID_GROUP_ID'' None)
                | (gid, None) \<Rightarrow> scan_pools so zo kid gid all_pools)))"

section \<open>The store calls\<close>

lemma parse_ids_texts: "set xs \<subseteq> id_texts \<Longrightarrow> ids (parse_ids xs) = xs"
proof (induction xs)
  case (Cons x xs)
  then obtain k where "x = show_nat k" "ParseUint x = (k, None)" by (auto elim: id_textsE)
  then show ?case using Cons by (simp add: parse_ids_def)
qed (simp add: parse_ids_def)

lemma view_lrange:
  assumes "store_ok s" "list_pool t"
  shows "\<exists>s'. sh_LRange (getRedisKey g t) 0 (-1) s = (s', Inr (lists (sview s) (g, t))) \<and>
    store_ok s' \<and> sview s' = sview s"
proof -
  let ?k = "getRedisKey g t"
  obtain s' r where e: "sh_LRange ?k 0 (-1) s = (s', r)" by fastforce
  have A: "sh_inv s" "atyped (sh_abs s)" using assms(1) by (simp_all add: store_ok_def)
  have l: "lists (sview s) (g, t) = as_list (sh_abs s ?k)"
    using assms(2) by (auto simp: sview_def aview_def)
  have "flat s ?k = None \<or> (\<exists>l. flat s ?k = Some (ListV l))"
    using atyped_cases(2) [OF A(2) assms(2), of g]
    by (cases "flat s ?k"; cases "the (flat s ?k)") (auto simp: sh_abs_def mem_abs_def)
  then have "sh_inv s' \<and> flat s' = flat s \<and> r = Inr (lists (sview s) (g, t))"
    using A(1) e l
    by (auto simp: sh_LRange_def shard_simps sh_abs_def mem_abs_def clip_range_def slice_of_def
        split: if_splits)
  then show ?thesis using e A(2) by (simp add: store_ok_def sview_def sh_abs_def)
qed

lemma view_zlist:
  assumes "store_ok s" "iter_order zo"
  shows "\<exists>s' ms. sh_ZRange zo (getRedisKey g PoolTypeCooling) 0 (-1) s = (s', Inr ms) \<and> store_ok s' \<and>
    sview s' = sview s \<and> distinct ms \<and> set ms = dom (cools (sview s) g)"
proof -
  let ?k = "getRedisKey g PoolTypeCooling"
  have A: "sh_inv s" "atyped (sh_abs s)" using assms(1) by (simp_all add: store_ok_def)
  have c: "cools (sview s) g = as_zset (sh_abs s ?k)" by (simp add: sview_def aview_def)
  have "flat s ?k = None \<or> (\<exists>z. flat s ?k = Some (ZSetV z))"
    using atyped_cases(3) [OF A(2), of g]
    by (cases "flat s ?k"; cases "the (flat s ?k)") (auto simp: sh_abs_def mem_abs_def)
  then show ?thesis
  proof
    assume "flat s ?k = None"
    then have "sh_ZRange zo ?k 0 (-1) s = (set_cur s ?k (cur s ?k), Inr [])" "sh_abs s ?k = None"
      using A(1) by (simp_all add: sh_ZRange_def shard_simps sh_abs_def mem_abs_def)
    moreover have "sh_inv (set_cur s ?k (cur s ?k)) \<and> flat (set_cur s ?k (cur s ?k)) = flat s"
      using A(1) by simp
    ultimately show ?thesis
      using A(2) c by (simp add: store_ok_def sview_def sh_abs_def as_zset_def)
  next
    assume "\<exists>z. flat s ?k = Some (ZSetV z)"
    then obtain z where z: "flat s ?k = Some (ZSetV z)" by blast
    let ?z = "sh_ensureSorted zo z"
    have ok: "zset_ok ?z" "\<not> dirty ?z" "members ?z = members z"
      using sh_ensureSorted_ok [OF assms(2)] flat_at(3) [OF A(1) z] by simp_all
    have m: "mset (sorted_m ?z) = mset (members z)" "distinct (map fst (members z))"
      using ok by (auto simp: zset_ok_def gomap_ok_def)
    define f :: "memoryShard \<Rightarrow> memoryShard" where
      "f = (if map fst (sorted_m ?z) = [] then id else rcount (sconfig s))"
    have kd: "keeps_data f" by (simp add: f_def)
    have e: "sh_ZRange zo ?k 0 (-1) s = (put_cur f ?k (ZSetV ?z) s, Inr (map fst (sorted_m ?z)))"
      using A(1) z by (auto simp: sh_ZRange_def shard_simps Let_def clip_range_def slice_of_def f_def)
    have abs: "sh_abs (put_cur f ?k (ZSetV ?z) s) = sh_abs s"
      using A(1) z ok(3) kd by (auto simp: sh_abs_def flat_put_cur mem_abs_def)
    have "set (map fst (sorted_m ?z)) = dom (map_of (members z))"
      using mset_eq_setD [OF m(1)] by (simp add: dom_map_of_conv_image_fst)
    moreover have "cools (sview s) g = map_of (members z)"
      using z c by (simp add: sh_abs_def mem_abs_def)
    moreover have "distinct (map fst (sorted_m ?z))"
      using m by (metis mset_eq_imp_distinct_iff mset_map)
    ultimately show ?thesis
      using e abs A kd ok(1) by (auto simp: store_ok_def sview_def put_cur_inv)
  qed
qed

section \<open>Listings are exact\<close>

definition lists_pool :: "pools \<Rightarrow> nat \<Rightarrow> PoolType \<Rightarrow> nat list \<Rightarrow> bool" where
  "lists_pool v g t ks \<longleftrightarrow>
    (case t of
       PoolTypeValidation \<Rightarrow> distinct ks \<and> set (ids ks) = vals v g
     | PoolTypeCooling \<Rightarrow> distinct ks \<and> set (ids ks) = dom (cools v g)
     | _ \<Rightarrow> ids ks = lists v (g, t))"

lemma list_rule:
  assumes "good p" "iter_order so" "iter_order zo" "known t"
  shows "always (lp_ListKeys so zo g t) p (lists_pool (view p) g t) (view p)"
proof -
  have ok: "lp_ok p" and wf: "pools_wf (view p)" using assms(1) by (simp_all add: good_def)
  have d: "distinct ms \<Longrightarrow> set ms \<subseteq> id_texts \<Longrightarrow> distinct (parse_ids ms)" for ms
    using parse_ids_texts [of ms] distinct_map by metis
  have v: "always (on_store (sh_SMembers so (getRedisKey g PoolTypeValidation))) p
      (\<lambda>ms. set ms = vals (view p) g \<and> distinct ms) (view p)"
    using view_smembers [OF ok assms(2), of g] by (intro on_store_always) fastforce
  have l: "always (on_store (sh_LRange (getRedisKey g t) 0 (-1))) p
      (\<lambda>ms. ms = lists (view p) (g, t)) (view p)" if "list_pool t" for t
    using view_lrange [OF ok that, of g] by (intro on_store_always) fastforce
  have z: "always (on_store (sh_ZRange zo (getRedisKey g PoolTypeCooling) 0 (-1))) p
      (\<lambda>ms. set ms = dom (cools (view p) g) \<and> distinct ms) (view p)"
    using view_zlist [OF ok assms(3), of g] by (intro on_store_always) fastforce
  note wfs = pools_wf_at [OF wf]
  show ?thesis
  proof (cases t)
    case PoolTypeValidation
    then show ?thesis
      unfolding lp_ListKeys_def listValidationKeys_def
      using wfs(3) [of g] d
      by (auto intro!: always_bind_always [OF always_wrap [OF v]] always_ret
          simp: lists_pool_def parse_ids_texts simp del: set_map)
  next
    case PoolTypeReady
    then show ?thesis
      unfolding lp_ListKeys_def listReadyKeys_def
      using wfs(1) [of t g]
      by (auto intro!: always_bind_always [OF always_wrap [OF l]] always_ret
          simp: lists_pool_def parse_ids_texts)
  next
    case PoolTypeActive
    then show ?thesis
      unfolding lp_ListKeys_def listActiveKeys_def
      using wfs(1) [of t g]
      by (auto intro!: always_bind_always [OF always_wrap [OF l]] always_ret
          simp: lists_pool_def parse_ids_texts)
  next
    case PoolTypeCooling
    then show ?thesis
      unfolding lp_ListKeys_def listCoolingKeys_def
      using wfs(2) [of g] d
      by (auto intro!: always_bind_always [OF always_wrap [OF z]] always_ret
          simp: lists_pool_def parse_ids_texts simp del: set_map)
  qed (use assms(4) in simp)
qed

definition in_pool :: "pools \<Rightarrow> nat \<Rightarrow> PoolType \<Rightarrow> nat \<Rightarrow> bool" where
  "in_pool v g t k \<longleftrightarrow>
    (case t of
       PoolTypeValidation \<Rightarrow> show_nat k \<in> vals v g
     | PoolTypeCooling \<Rightarrow> show_nat k \<in> dom (cools v g)
     | _ \<Rightarrow> show_nat k \<in> set (lists v (g, t)))"

lemma lists_pool_mem: "lists_pool v g t ks \<Longrightarrow> k \<in> set ks \<longleftrightarrow> in_pool v g t k"
proof -
  have i: "show_nat k \<in> set (ids ks) \<longleftrightarrow> k \<in> set ks" using show_nat_inj by auto
  show "lists_pool v g t ks \<Longrightarrow> ?thesis"
    unfolding lists_pool_def in_pool_def i [symmetric] by (cases t) simp_all
qed

text \<open>Listing a pool reads it exactly: the ids of a list pool in order and with repetitions,
  those of the validation and cooling pools once each; nothing is dropped and no pool changes.\<close>

lemma list_keys_exact:
  assumes "good p" "iter_order so" "iter_order zo" "known t"
  shows "\<exists>p' ks. lp_ListKeys so zo g t p = (p', Inr ks) \<and> view p' = view p \<and>
    (if list_pool t then ids ks = lists (view p) (g, t)
     else distinct ks \<and> (\<forall>k. k \<in> set ks \<longleftrightarrow> in_pool (view p) g t k))"
proof -
  obtain p' ks where r: "lp_ListKeys so zo g t p = (p', Inr ks)" "lists_pool (view p) g t ks"
      "view p' = view p"
    using always_D [OF list_rule [OF assms, of g]] by blast
  then show ?thesis
    using lists_pool_mem [OF r(2)] assms(4) by (cases t) (auto simp: lists_pool_def)
qed

definition inferred_status :: "pools \<Rightarrow> nat \<Rightarrow> nat \<Rightarrow> string" where
  "inferred_status v g k =
    (if in_pool v g PoolTypeValidation k \<or> in_pool v g PoolTypeReady k \<or> in_pool v g PoolTypeActive k
     then KeyStatusActive
     else if in_pool v g PoolTypeCooling k then KeyStatusRateLimited else KeyStatusInvalid)"

lemma scan_step:
  assumes "good p" "iter_order so" "iter_order zo" "known t"
    and "\<And>p'. good p' \<Longrightarrow> view p' = view p \<Longrightarrow> always (scan_pools so zo k g ts) p' (\<lambda>x. x = r) (view p)"
  shows "always (scan_pools so zo k g (t # ts)) p
    (\<lambda>x. x = (if in_pool (view p) g t k then status_of_pool t else r)) (view p)"
proof -
  obtain p1 ks where p1: "lp_ListKeys so zo g t p = (p1, Inr ks)" "lists_pool (view p) g t ks"
      "lp_ok p1" "frame p p1" "view p1 = view p"
    using always_D [OF list_rule [OF assms(1-4), of g]] by blast
  have "good p1" using p1 assms(1) by (simp add: good_def)
  from always_D [OF assms(5) [OF this p1(5)]]
  obtain p2 where "scan_pools so zo k g ts p1 = (p2, Inr r)" "lp_ok p2" "frame p1 p2" "view p2 = view p"
    by blast
  then show ?thesis
    using p1 lists_pool_mem [OF p1(2)] frame_trans [OF p1(4)] by (simp add: always_def sat_def)
qed

lemma scan_rule:
  assumes "good p" "iter_order so" "iter_order zo"
  shows "always (scan_pools so zo k g all_pools) p (\<lambda>x. x = inferred_status (view p) g k) (view p)"
proof -
  have nil: "always (scan_pools so zo k g []) q (\<lambda>x. x = KeyStatusInvalid) w"
    if "good q" "view q = w" for q w
    using that by (simp add: always_def good_def)
  have "always (scan_pools so zo k g all_pools) p (\<lambda>x. x =
      (if in_pool (view p) g PoolTypeValidation k then status_of_pool PoolTypeValidation
       else if in_pool (view p) g PoolTypeReady k then status_of_pool PoolTypeReady
       else if in_pool (view p) g PoolTypeActive k then status_of_pool PoolTypeActive
       else if in_pool (view p) g PoolTypeCooling k then status_of_pool PoolTypeCooling
       else KeyStatusInvalid)) (view p)"
    unfolding all_pools_def
    by (rule scan_step [OF assms], simp,
        rule always_weaken [OF scan_step [OF _ assms(2,3)]], assumption, simp,
        rule always_weaken [OF scan_step [OF _ assms(2,3)]], assumption, simp,
        rule always_weaken [OF scan_step [OF _ assms(2,3)]], assumption, simp)
      (use nil in \<open>auto simp del: scan_pools.simps intro: always_weaken\<close>)
  then show ?thesis
    by (rule always_weaken) (simp_all add: inferred_status_def status_of_pool_def)
qed

text \<open>The status of a key is the recorded one; without a record it is active when the key is in
  the validation, ready or active pool of its group, else rate limited when it is cooling, else
  invalid.\<close>

lemma key_status_inferred:
  assumes "good p" "iter_order so" "iter_order zo" "in_group (view p) k g"
  shows "\<exists>p'. view p' = view p \<and> lp_GetKeyStatus so zo k p =
    (p', Inr (case infos (view p) k ''status'' of
       Some st \<Rightarrow> st | None \<Rightarrow> inferred_status (view p) g k))"
proof -
  have ok: "lp_ok p" using assms(1) by (simp add: good_def)
  have "always (lp_GetKeyStatus so zo k) p (\<lambda>x. x = (case infos (view p) k ''status'' of
      Some st \<Rightarrow> st | None \<Rightarrow> inferred_status (view p) g k)) (view p)"
    unfolding lp_GetKeyStatus_def
  proof (rule always_bind_always [OF always_wrap [OF details_rule [OF ok]]])
    fix p' h
    assume p': "lp_ok p'" "view p' = view p" "gget h = infos (view p) k"
    then have "good p'" using assms(1) by (simp add: good_def)
    from scan_rule [OF this assms(2,3), of k g] show "always (case gget h ''status'' of
        Some statusStr \<Rightarrow> ret statusStr
      | None \<Rightarrow>
          (case gget h ''group_id'' of
             None \<Rightarrow> fail (PoolError ErrorTypeValidation ''MISSING_GROUP_ID'' None)
           | Some t \<Rightarrow>
               (case ParseUint t of
                  (_, Some _) \<Rightarrow> fail (PoolError ErrorTypeInternal ''INVALID_GROUP_ID'' None)
                | (gid, None) \<Rightarrow> scan_pools so zo k gid all_pools))) p'
      (\<lambda>x. x = (case infos (view p) k ''status'' of
        Some st \<Rightarrow> st | None \<Rightarrow> inferred_status (view p) g k)) (view p)"
      using p' assms(4) by (auto simp: in_group_def split: option.splits intro: always_ret)
  qed
  from always_D [OF this] show ?thesis by blast
qed

end
