(* ===== verification/MemoryBatch.thy ===== *)
theory MemoryBatch
  imports LayeredListing
begin

text \<open>The batch processor of the memory pool (src/internal/keypool/memory_batch_ops.go). It groups
  the keys of an operation by shard and handles the groups in goroutines of their own. A
  goroutine is a list of atomic calls that ends at its first error; a schedule says whose call
  comes next, and when it is used up the goroutines that are left finish one after the other,
  so every interleaving is given by a schedule. The queues between the callers and the workers
  carry operations and results and are left out.\<close>

section \<open>Goroutines\<close>

text \<open>The state after all goroutines have ended, and their errors in the order they were sent.\<close>

fun finish :: "('p, unit) act list list \<Rightarrow> 'p \<Rightarrow> 'p \<times> lp_err list" where
  "finish [] p = (p, [])"
| "finish ([] # ts) p = finish ts p"
| "finish ((m # ms) # ts) p =
    (case m p of
       (p1, Inl e) \<Rightarrow> (case finish ts p1 of (p2, es) \<Rightarrow> (p2, e # es))
     | (p1, Inr _) \<Rightarrow> finish (ms # ts) p1)"

fun goroutines :: "nat list \<Rightarrow> ('p, unit) act list list \<Rightarrow> 'p \<Rightarrow> 'p \<times> lp_err list" where
  "goroutines [] ts p = finish ts p"
| "goroutines (i # sched) ts p =
    (if i < length ts
     then (case ts ! i of
             [] \<Rightarrow> goroutines sched ts p
           | m # ms \<Rightarrow>
               (case m p of
                  (p1, Inl e) \<Rightarrow> (case goroutines sched (ts[i := []]) p1 of (p2, es) \<Rightarrow> (p2, e # es))
                | (p1, Inr _) \<Rightarrow> goroutines sched (ts[i := ms]) p1))
     else goroutines sched ts p)"

definition join :: "nat list \<Rightarrow> ('p, unit) act list list \<Rightarrow> ('p, unit) act" where
  "join sched ts p = (case goroutines sched ts p of
     (p', []) \<Rightarrow> (p', Inr ()) | (p', e # es) \<Rightarrow> (p', Inl e))"

section \<open>The processor\<close>

text \<open>Go's remainder of the id as an int.\<close>

definition getShardIndex :: "int \<Rightarrow> nat \<Rightarrow> int" where
  "getShardIndex shardCount kid =
    (let x = i64 (int kid) in if x < 0 then - ((- x) mod shardCount) else x mod shardCount)"

definition shard_append :: "int \<Rightarrow> 'a \<Rightarrow> (int, 'a list) gomap \<Rightarrow> (int, 'a list) gomap" where
  "shard_append i x m = gput i ((case gget m i of None \<Rightarrow> [] | Some xs \<Rightarrow> xs) @ [x]) m"

definition groupKeysByShards :: "int \<Rightarrow> nat list \<Rightarrow> (int, nat list) gomap" where
  "groupKeysByShards n kids = fold (\<lambda>kid. shard_append (getShardIndex n kid) kid) kids []"

text \<open>The calls one goroutine makes for its keys.\<close>

definition addKeysToShard :: "nat \<Rightarrow> PoolType \<Rightarrow> nat list \<Rightarrow> unit lact list" where
  "addKeysToShard gid t kids =
    (case t of
       PoolTypeValidation \<Rightarrow> [on_store (sh_SAdd (getRedisKey gid t) (map AUint kids))]
     | PoolTypeReady \<Rightarrow> map (lp_push gid t) kids
     | PoolTypeActive \<Rightarrow> map (lp_push gid t) kids
     | PoolTypeCooling \<Rightarrow> [fail (PoolError ErrorTypeValidation ''INVALID_POOL_TYPE'' None)]
     | PoolTypeOther _ \<Rightarrow> [fail (PoolError ErrorTypeValidation ''UNKNOWN_POOL_TYPE'' None)])"

definition removeKeysFromShard :: "nat \<Rightarrow> nat list \<Rightarrow> unit lact list" where
  "removeKeysFromShard gid kids =
    [logged (on_store (sh_SRem (getRedisKey gid PoolTypeValidation) (map AUint kids)))] @
    map (\<lambda>kid. logged (lp_rem gid PoolTypeReady kid)) kids @
    map (\<lambda>kid. logged (lp_rem gid PoolTypeActive kid)) kids @
    [logged (on_store (sh_ZRem (getRedisKey gid PoolTypeCooling) (map AUint kids)))] @
    concat (map (\<lambda>kid. [logged (on_store (sh_Delete (getKeyDetailsKey kid))),
                        on_cache (cache_Remove kid)]) kids)"

definition batch_removeKeysFromPool :: "nat \<Rightarrow> PoolType \<Rightarrow> nat list \<Rightarrow> unit lact list" where
  "batch_removeKeysFromPool gid t kids =
    (case t of
       PoolTypeValidation \<Rightarrow> [on_store (sh_SRem (getRedisKey gid t) (map AUint kids))]
     | PoolTypeReady \<Rightarrow> map (lp_rem gid t) kids
     | PoolTypeActive \<Rightarrow> map (lp_rem gid t) kids
     | PoolTypeCooling \<Rightarrow> [on_store (sh_ZRem (getRedisKey gid t) (map AUint kids))]
     | PoolTypeOther _ \<Rightarrow> [fail (PoolError ErrorTypeValidation ''UNKNOWN_POOL_TYPE'' None)])"

text \<open>A call for the target whose failure makes the goroutine add its keys back to the source and
  end with the error; the rollback counts as one call.\<close>

definition or_rollback :: "unit lact \<Rightarrow> unit lact list \<Rightarrow> unit lact" where
  "or_rollback m back = catching m (\<lambda>r. case r of
     Inr _ \<Rightarrow> ret ()
   | Inl e \<Rightarrow> bindE (logged (for_each id back)) (\<lambda>_. fail e))"

definition moveKeysInShard :: "nat \<Rightarrow> PoolType \<Rightarrow> PoolType \<Rightarrow> nat list \<Rightarrow> unit lact list" where
  "moveKeysInShard gid src dst kids =
    batch_removeKeysFromPool gid src kids @
    map (\<lambda>m. or_rollback m (addKeysToShard gid src kids)) (addKeysToShard gid dst kids)"

definition syncKeysInShard :: "(int \<Rightarrow> string) \<Rightarrow> PoolKey list \<Rightarrow> unit lact list" where
  "syncKeysInShard tf keys = map (\<lambda>key. logged (syncKeyDetailsToRedis tf (ID key) (GroupID key))) keys"

text \<open>The shards in the order their goroutines are started.\<close>

definition processBatch :: "(int \<times> nat list) iter \<Rightarrow> nat list \<Rightarrow> int \<Rightarrow> (nat list \<Rightarrow> unit lact list) \<Rightarrow>
    nat list \<Rightarrow> unit lact" where
  "processBatch mo sched n work kids =
    (if kids = [] then ret ()
     else join sched (map (\<lambda>(shard, ks). work ks) (mo (groupKeysByShards n kids))))"

definition processBatchSyncKeys :: "(int \<Rightarrow> string) \<Rightarrow> (int \<times> PoolKey list) iter \<Rightarrow> nat list \<Rightarrow> int \<Rightarrow>
    nat \<Rightarrow> nat list \<Rightarrow> unit lact" where
  "processBatchSyncKeys tf mo sched n gid kids =
    (if kids = [] then ret ()
     else bindE (wrap ErrorTypeStorage ''DB_QUERY_FAILED'' (find_keys gid kids)) (\<lambda>keys.
       join sched (map (\<lambda>(shard, ks). syncKeysInShard tf ks)
         (mo (fold (\<lambda>k. shard_append (getShardIndex n (ID k)) k) keys [])))))"

definition processOperation :: "(int \<Rightarrow> string) \<Rightarrow> (int \<times> nat list) iter \<Rightarrow> (int \<times> PoolKey list) iter \<Rightarrow>
    nat list \<Rightarrow> int \<Rightarrow> BatchOperation \<Rightarrow> unit lact" where
  "processOperation tf mo ko sched n op =
    (let gid = boGroupID op; kids = boKeyIDs op in
     case boType op of
       BatchOpAddKeys \<Rightarrow> processBatch mo sched n (addKeysToShard gid (ToPool op)) kids
     | BatchOpRemoveKeys \<Rightarrow> processBatch mo sched n (removeKeysFromShard gid) kids
     | BatchOpMoveKeys \<Rightarrow>
         if FromPool op = ToPool op then ret ()
         else processBatch mo sched n (moveKeysInShard gid (FromPool op) (ToPool op)) kids
     | BatchOpSyncKeys \<Rightarrow> processBatchSyncKeys tf ko sched n gid kids
     | BatchOpOther _ \<Rightarrow> fail (PoolError ErrorTypeValidation ''UNKNOWN_BATCH_OP'' None))"

section \<open>Every schedule has the same effect\<close>

context pool_logic
begin

text \<open>Calls whose effects on what is observed commute have the effect of running them in any order.\<close>

lemma finish_fold:
  fixes act :: "'d \<Rightarrow> ('p, unit) act" and look :: "'v \<Rightarrow> 'w"
  assumes step: "\<And>d p. d \<in> D \<Longrightarrow> good_state p \<Longrightarrow>
      \<exists>w. always (act d) p (\<lambda>_. True) w \<and> look w = eff d (look (view_of p))"
  shows "set (concat dss) \<subseteq> D \<Longrightarrow> good_state p \<Longrightarrow>
    \<exists>p'. finish (map (map act) dss) p = (p', []) \<and> good_state p' \<and> framed p p' \<and>
      look (view_of p') = fold eff (concat dss) (look (view_of p))"
proof (induction dss arbitrary: p)
  case Nil
  then show ?case by (simp add: framed_refl)
next
  case (Cons ds dss)
  have rest: "\<And>p. good_state p \<Longrightarrow> \<exists>p'. finish (map (map act) dss) p = (p', []) \<and> good_state p' \<and>
      framed p p' \<and> look (view_of p') = fold eff (concat dss) (look (view_of p))"
    using Cons.IH Cons.prems(1) by simp
  have "set ds \<subseteq> D" using Cons.prems(1) by simp
  then show ?case
    using Cons.prems(2)
  proof (induction ds arbitrary: p)
    case Nil
    then show ?case using rest by simp
  next
    case (Cons d ds)
    then obtain w where w: "always (act d) p (\<lambda>_. True) w" "look w = eff d (look (view_of p))"
      using step [of d p] by auto
    obtain p1 where p1: "act d p = (p1, Inr ())" "good_state p1" "framed p p1" "view_of p1 = w"
      using always_dest [OF w(1)] by auto
    obtain p2 where p2: "finish (map (map act) (ds # dss)) p1 = (p2, [])" "good_state p2" "framed p1 p2"
        "look (view_of p2) = fold eff (concat (ds # dss)) (look (view_of p1))"
      using Cons.IH [OF _ p1(2)] Cons.prems(1) by auto
    show ?case using p1 p2 w(2) framed_trans [OF p1(3) p2(3)] by simp
  qed
qed

lemma goroutines_fold:
  fixes act :: "'d \<Rightarrow> ('p, unit) act" and look :: "'v \<Rightarrow> 'w"
  assumes step: "\<And>d p. d \<in> D \<Longrightarrow> good_state p \<Longrightarrow>
      \<exists>w. always (act d) p (\<lambda>_. True) w \<and> look w = eff d (look (view_of p))"
    and comm: "\<And>d d'. d \<in> D \<Longrightarrow> d' \<in> D \<Longrightarrow> eff d \<circ> eff d' = eff d' \<circ> eff d"
  shows "set (concat dss) \<subseteq> D \<Longrightarrow> good_state p \<Longrightarrow>
    \<exists>p'. goroutines sched (map (map act) dss) p = (p', []) \<and> good_state p' \<and> framed p p' \<and>
      look (view_of p') = fold eff (concat dss) (look (view_of p))"
proof (induction sched arbitrary: dss p)
  case Nil
  then show ?case using finish_fold [OF step] by simp
next
  case (Cons i sched)
  show ?case
  proof (cases "i < length dss \<and> dss ! i \<noteq> []")
    case False
    then have "goroutines (i # sched) (map (map act) dss) p = goroutines sched (map (map act) dss) p"
      by auto
    then show ?thesis using Cons by simp
  next
    case True
    then obtain d ds where d: "i < length dss" "dss ! i = d # ds" by (cases "dss ! i") auto
    have split: "dss = take i dss @ (d # ds) # drop (Suc i) dss"
      using id_take_nth_drop [OF d(1)] d(2) by simp
    have upd: "dss[i := ds] = take i dss @ ds # drop (Suc i) dss"
      using d(1) by (simp add: upd_conv_take_nth_drop)
    have ms: "mset (concat dss) = mset (d # concat (dss[i := ds]))"
      unfolding upd by (subst split) simp
    have in_D: "d \<in> D" "set (concat (dss[i := ds])) \<subseteq> D"
      using Cons.prems(1) mset_eq_setD [OF ms] by auto
    obtain w where w: "always (act d) p (\<lambda>_. True) w" "look w = eff d (look (view_of p))"
      using step [OF in_D(1) Cons.prems(2)] by blast
    obtain p1 where p1: "act d p = (p1, Inr ())" "good_state p1" "framed p p1" "view_of p1 = w"
      using always_dest [OF w(1)] by auto
    obtain p2 where p2: "goroutines sched (map (map act) (dss[i := ds])) p1 = (p2, [])" "good_state p2"
        "framed p1 p2" "look (view_of p2) = fold eff (concat (dss[i := ds])) (look (view_of p1))"
      using Cons.IH [OF in_D(2) p1(2)] by blast
    have "fold eff (concat dss) = fold eff (d # concat (dss[i := ds]))"
      using comm Cons.prems(1) by (intro fold_multiset_equiv [OF _ ms]) blast
    then show ?thesis
      using p1 p2 d w(2) framed_trans [OF p1(3) p2(3)] by (simp add: map_update)
  qed
qed

end

lemma join_Inr: "goroutines sched ts p = (p', []) \<Longrightarrow> join sched ts p = (p', Inr ())"
  by (simp add: join_def)

text \<open>Grouping by shard keeps every key once.\<close>

lemma shard_append_mset: "mset (concat (map snd (shard_append i x m))) = add_mset x (mset (concat (map snd m)))"
  unfolding shard_append_def by (induction m) (auto split: option.splits)

lemma group_mset:
  assumes "iter_order mo"
  shows "mset (concat (map snd (mo (groupKeysByShards n kids)))) = mset kids"
proof -
  have "mset (concat (map snd (fold (\<lambda>kid. shard_append (getShardIndex n kid) kid) kids m))) =
      mset (concat (map snd m)) + mset kids" for m
    by (induction kids arbitrary: m) (simp_all add: shard_append_mset)
  from this [of "[]"] have g: "mset (concat (map snd (groupKeysByShards n kids))) = mset kids"
    by (simp add: groupKeysByShards_def)
  have "mset (mo (groupKeysByShards n kids)) = mset (groupKeysByShards n kids)"
    using assms by (simp add: iter_order_def)
  then have "mset (map mset (map snd (mo (groupKeysByShards n kids)))) =
      mset (map mset (map snd (groupKeysByShards n kids)))" by simp
  then show ?thesis using g by (simp add: mset_concat flip: sum_mset_sum_list mset_map)
qed

lemma shard_threads: "map (\<lambda>(shard, ks). map f ks) xs = map (map f) (map snd xs)"
  by (induction xs) auto

section \<open>Moving a batch\<close>

datatype mv_call = MvRem nat | MvPush "nat list" nat

fun mv_act :: "nat \<Rightarrow> PoolType \<Rightarrow> PoolType \<Rightarrow> mv_call \<Rightarrow> unit lact" where
  "mv_act g src dst (MvRem k) = lp_rem g src k"
| "mv_act g src dst (MvPush ks k) = or_rollback (lp_push g dst k) (addKeysToShard g src ks)"

fun mv_eff :: "mv_call \<Rightarrow> 'r \<times> string list \<times> string multiset \<Rightarrow> 'r \<times> string list \<times> string multiset" where
  "mv_eff (MvRem k) (r, l, M) = (r, removeAll (show_nat k) l, M)"
| "mv_eff (MvPush ks k) (r, l, M) = (r, l, add_mset (show_nat k) M)"

definition mv_calls :: "nat list \<Rightarrow> mv_call list" where
  "mv_calls ks = map MvRem ks @ map (MvPush ks) ks"

lemma removeAll_commute: "removeAll x (removeAll y xs) = removeAll y (removeAll x xs)"
  by (induction xs) auto

lemma mv_eff_commute: "mv_eff d \<circ> mv_eff d' = mv_eff d' \<circ> mv_eff d"
  by (cases d; cases d') (auto simp: fun_eq_iff removeAll_commute)

lemma fold_mv_eff: "fold mv_eff cs (r, l, M) =
    (r, filter (\<lambda>x. \<forall>k. x = show_nat k \<longrightarrow> MvRem k \<notin> set cs) l,
     mset (ids (concat (map (\<lambda>c. case c of MvPush ks k \<Rightarrow> [k] | MvRem _ \<Rightarrow> []) cs))) + M)"
proof (induction cs arbitrary: l M)
  case Nil
  then show ?case by simp
next
  case (Cons c cs)
  show ?case
    by (cases c) (auto simp: Cons removeAll_filter_not_eq intro!: filter_cong)
qed

lemma mv_step:
  fixes g :: nat
  assumes "lp_ok p" "list_pool src" "list_pool dst" "src \<noteq> dst"
  defines "look \<equiv> \<lambda>v. (put_list (put_list v g src []) g dst [], lists v (g, src), mset (lists v (g, dst)))"
  shows "\<exists>w. always (mv_act g src dst d) p (\<lambda>_. True) w \<and> look w = mv_eff d (look (view p))"
proof (cases d)
  case (MvRem k)
  show ?thesis
    using rem_rule [OF assms(1,2), of g k] assms(4)
    unfolding MvRem mv_act.simps look_def by (intro exI conjI) auto
next
  case (MvPush ks k)
  have "always (or_rollback (lp_push g dst k) (addKeysToShard g src ks)) p (\<lambda>_. True)
      (put_list (view p) g dst (show_nat k # lists (view p) (g, dst)))"
    unfolding or_rollback_def always_def
    by (rule lp.catch_rule [OF push_rule [OF assms(1,3), unfolded always_def]]) auto
  then show ?thesis
    using assms(2,3,4) unfolding MvPush mv_act.simps look_def by (intro exI conjI) (auto simp: put_list_def)
qed

lemma mv_threads: "list_pool src \<Longrightarrow> list_pool dst \<Longrightarrow>
    moveKeysInShard g src dst ks = map (mv_act g src dst) (mv_calls ks)"
  by (auto simp: moveKeysInShard_def batch_removeKeysFromPool_def addKeysToShard_def mv_calls_def)

lemma mv_calls_props:
  "MvRem k \<in> set (concat (map mv_calls kss)) \<longleftrightarrow> k \<in> set (concat kss)"
  "concat (map (\<lambda>c. case c of MvPush ks k \<Rightarrow> [k] | MvRem _ \<Rightarrow> []) (mv_calls ks)) = ks"
  by (auto simp: mv_calls_def comp_def)

lemma mv_pushes: "concat (map (\<lambda>c. case c of MvPush ks k \<Rightarrow> [k] | MvRem _ \<Rightarrow> []) (concat (map mv_calls kss))) = concat kss"
  by (induction kss) (simp_all add: mv_calls_props(2))

text \<open>C26: Moving a batch of keys between two list pools has the same outcome whatever the order of
  the shards and however their goroutines interleave: every occurrence of the keys has left the
  source, each key is once more in the target, and no other pool has changed. The table is not
  asked whether the keys belong to the group.\<close>

theorem batch_move_any_schedule:
  assumes "lp_ok p" "iter_order mo" "boType op = BatchOpMoveKeys"
    and "FromPool op = src" "ToPool op = dst" "list_pool src" "list_pool dst" "src \<noteq> dst"
  defines "g \<equiv> boGroupID op"
  shows "\<exists>p'. processOperation tf mo ko sched n op p = (p', Inr ()) \<and> lp_ok p' \<and> frame p p' \<and>
    lists (view p') (g, src) = filter (\<lambda>x. x \<notin> set (ids (boKeyIDs op))) (lists (view p) (g, src)) \<and>
    mset (lists (view p') (g, dst)) = mset (ids (boKeyIDs op)) + mset (lists (view p) (g, dst)) \<and>
    put_list (put_list (view p') g src []) g dst [] = put_list (put_list (view p) g src []) g dst []"
proof (cases "boKeyIDs op = []")
  case True
  then show ?thesis using assms by (simp add: processOperation_def processBatch_def ret_def)
next
  case False
  let ?kss = "map snd (mo (groupKeysByShards n (boKeyIDs op)))"
  let ?look = "\<lambda>v. (put_list (put_list v g src []) g dst [], lists v (g, src), mset (lists v (g, dst)))"
  have ms: "mset (concat ?kss) = mset (boKeyIDs op)" using group_mset [OF assms(2)] .
  have "\<exists>p'. goroutines sched (map (map (mv_act g src dst)) (map mv_calls ?kss)) p = (p', []) \<and> lp_ok p' \<and>
      frame p p' \<and> ?look (view p') = fold mv_eff (concat (map mv_calls ?kss)) (?look (view p))"
    using mv_step [OF _ assms(6-8)] mv_eff_commute
    by (intro lp.goroutines_fold [where D = UNIV and look = ?look]) (use assms(1) in auto)
  then obtain p' where p': "goroutines sched (map (map (mv_act g src dst)) (map mv_calls ?kss)) p = (p', [])"
      "lp_ok p'" "frame p p'"
      "?look (view p') = fold mv_eff (concat (map mv_calls ?kss)) (?look (view p))" by blast
  have th: "map (\<lambda>(shard, ks). moveKeysInShard g src dst ks) (mo (groupKeysByShards n (boKeyIDs op))) =
      map (map (mv_act g src dst)) (map mv_calls ?kss)"
    using mv_threads [OF assms(6,7)] by auto
  have in_ids: "(\<forall>k. x = show_nat k \<longrightarrow> k \<notin> set (boKeyIDs op)) \<longleftrightarrow> x \<notin> set (ids (boKeyIDs op))" for x
    by auto
  have "processOperation tf mo ko sched n op p =
      join sched (map (\<lambda>(shard, ks). moveKeysInShard g src dst ks) (mo (groupKeysByShards n (boKeyIDs op)))) p"
    using False assms(3-5,8) by (simp add: processOperation_def processBatch_def g_def)
  then have run: "processOperation tf mo ko sched n op p = (p', Inr ())"
    unfolding th using join_Inr [OF p'(1)] by simp
  have look: "?look (view p') = (put_list (put_list (view p) g src []) g dst [],
      filter (\<lambda>x. x \<notin> set (ids (boKeyIDs op))) (lists (view p) (g, src)),
      mset (ids (boKeyIDs op)) + mset (lists (view p) (g, dst)))"
    unfolding p'(4) fold_mv_eff mv_calls_props(1) mv_pushes mset_eq_setD [OF ms] in_ids
    by (simp only: ms mset_map prod.case)
  show ?thesis using p'(2,3) run look by simp
qed

section \<open>Removing a batch\<close>

datatype rm_call = RmVal "nat list" | RmList PoolType nat | RmCool "nat list" | RmInfo nat | RmCache nat

fun rm_act :: "nat \<Rightarrow> rm_call \<Rightarrow> unit lact" where
  "rm_act g (RmVal ks) = logged (on_store (sh_SRem (getRedisKey g PoolTypeValidation) (map AUint ks)))"
| "rm_act g (RmList t k) = logged (lp_rem g t k)"
| "rm_act g (RmCool ks) = logged (on_store (sh_ZRem (getRedisKey g PoolTypeCooling) (map AUint ks)))"
| "rm_act g (RmInfo k) = logged (on_store (sh_Delete (getKeyDetailsKey k)))"
| "rm_act g (RmCache k) = on_cache (cache_Remove k)"

fun rm_eff :: "nat \<Rightarrow> rm_call \<Rightarrow> pools \<Rightarrow> pools" where
  "rm_eff g (RmVal ks) v = v\<lparr>vals := (vals v)(g := vals v g - set (ids ks))\<rparr>"
| "rm_eff g (RmList t k) v = put_list v g t (removeAll (show_nat k) (lists v (g, t)))"
| "rm_eff g (RmCool ks) v = v\<lparr>cools := (cools v)(g := cools v g |` (- set (ids ks)))\<rparr>"
| "rm_eff g (RmInfo k) v = v\<lparr>infos := (infos v)(k := Map.empty)\<rparr>"
| "rm_eff g (RmCache k) v = v"

definition rm_calls :: "nat list \<Rightarrow> rm_call list" where
  "rm_calls ks = [RmVal ks] @ map (RmList PoolTypeReady) ks @ map (RmList PoolTypeActive) ks @ [RmCool ks] @
     concat (map (\<lambda>k. [RmInfo k, RmCache k]) ks)"

definition rm_ok :: "rm_call \<Rightarrow> bool" where
  "rm_ok c \<longleftrightarrow> (case c of RmList t k \<Rightarrow> list_pool t | _ \<Rightarrow> True)"

lemma rm_threads: "removeKeysFromShard g ks = map (rm_act g) (rm_calls ks)"
  by (simp add: removeKeysFromShard_def rm_calls_def map_concat comp_def)

lemma rm_members:
  "RmVal js \<in> set (concat (map rm_calls kss)) \<longleftrightarrow> js \<in> set kss"
  "RmCool js \<in> set (concat (map rm_calls kss)) \<longleftrightarrow> js \<in> set kss"
  by (auto simp: rm_calls_def)

lemma ids_union: "{x. \<exists>js. js \<in> set kss \<and> x \<in> set (ids js)} = show_nat ` set (concat kss)"
  by auto

lemma rm_calls_ok: "c \<in> set (rm_calls ks) \<Longrightarrow> rm_ok c"
  by (auto simp: rm_calls_def rm_ok_def)

lemma rm_eff_commute: "rm_eff g d \<circ> rm_eff g d' = rm_eff g d' \<circ> rm_eff g d"
proof -
  have "rm_eff g d (rm_eff g d' v) = rm_eff g d' (rm_eff g d v)" for v
    by (cases d; cases d')
      (auto simp: put_list_def fun_eq_iff removeAll_commute Diff_eq Int_ac restrict_map_def)
  then show ?thesis by (auto simp: fun_eq_iff)
qed

lemma rm_step: "rm_ok c \<Longrightarrow> lp_ok p \<Longrightarrow> \<exists>w. always (rm_act g c) p (\<lambda>_. True) w \<and> w = rm_eff g c (view p)"
proof (cases c)
  case (RmVal ks)
  assume p: "lp_ok p"
  show ?thesis
    using always_logged [OF remove_validation_rule [OF p, of g ks]] unfolding RmVal removeFromValidationPool_def
    by (intro exI conjI) simp_all
next
  case (RmList t k)
  assume p: "lp_ok p" and "rm_ok c"
  then have t: "list_pool t" using RmList by (simp add: rm_ok_def)
  show ?thesis
    using always_logged [OF rem_rule [OF p t, of g k]] unfolding RmList by (intro exI conjI) simp_all
next
  case (RmCool ks)
  assume p: "lp_ok p"
  show ?thesis
    using always_logged [OF remove_cooling_rule [OF p, of g ks]] unfolding RmCool removeFromCoolingPool_def
    by (intro exI conjI) simp_all
next
  case (RmInfo k)
  assume p: "lp_ok p"
  show ?thesis
    using always_logged [OF delete_details_rule [OF p, of k]] unfolding RmInfo by (intro exI conjI) simp_all
next
  case (RmCache k)
  assume p: "lp_ok p"
  show ?thesis
    using cache_rule [OF p, of "cache_Remove k"] unfolding RmCache by (intro exI conjI) simp_all
qed

lemma fold_rm_eff:
  fixes v :: pools and g :: nat
  assumes "\<forall>c \<in> set cs. rm_ok c"
  defines "w \<equiv> fold (rm_eff g) cs v"
  shows "vals w = (vals v)(g := vals v g - {x. \<exists>ks. RmVal ks \<in> set cs \<and> x \<in> set (ids ks)})"
    "lists w = (\<lambda>(g', t). if g' = g then filter (\<lambda>x. \<forall>k. x = show_nat k \<longrightarrow> RmList t k \<notin> set cs) (lists v (g', t))
       else lists v (g', t))"
    "cools w = (cools v)(g := cools v g |` (- {x. \<exists>ks. RmCool ks \<in> set cs \<and> x \<in> set (ids ks)}))"
    "infos w = (\<lambda>k. if RmInfo k \<in> set cs then Map.empty else infos v k)"
  unfolding w_def using assms(1)
proof (induction cs arbitrary: v)
  case Nil
  {
    case 1 then show ?case by simp
  next
    case 2 then show ?case by (auto simp: fun_eq_iff)
  next
    case 3 then show ?case by simp
  next
    case 4 then show ?case by simp
  }
next
  case (Cons c cs)
  {
    case 1
    then show ?case using Cons.IH(1) by (cases c) (auto simp: fun_eq_iff)
  next
    case 2
    then show ?case using Cons.IH(2)
      by (cases c) (auto simp: fun_eq_iff removeAll_filter_not_eq put_list_def intro!: filter_cong)
  next
    case 3
    then show ?case using Cons.IH(3) by (cases c) (auto simp: fun_eq_iff restrict_map_def)
  next
    case 4
    then show ?case using Cons.IH(4) by (cases c) (auto simp: fun_eq_iff)
  }
qed

text \<open>Removing a batch of keys takes every occurrence of each of them out of all four pools of the
  group and deletes their details, whatever the order of the shards and however their
  goroutines interleave; the other keys, groups and details are as before.\<close>

lemma batch_remove_any_schedule:
  assumes "lp_ok p" "iter_order mo" "boType op = BatchOpRemoveKeys"
  defines "g \<equiv> boGroupID op" and "ks \<equiv> boKeyIDs op"
  shows "\<exists>p'. processOperation tf mo ko sched n op p = (p', Inr ()) \<and> lp_ok p' \<and> frame p p' \<and>
    view p' = \<lparr>vals = (vals (view p))(g := vals (view p) g - set (ids ks)),
      lists = (\<lambda>(g', t). if g' = g \<and> list_pool t then filter (\<lambda>x. x \<notin> set (ids ks)) (lists (view p) (g', t))
         else lists (view p) (g', t)),
      cools = (cools (view p))(g := cools (view p) g |` (- set (ids ks))),
      infos = (\<lambda>k. if k \<in> set ks then Map.empty else infos (view p) k)\<rparr>"
proof (cases "ks = []")
  case True
  have "processOperation tf mo ko sched n op p = (p, Inr ())"
    using True assms(3) by (simp add: processOperation_def processBatch_def ret_def ks_def)
  then show ?thesis
    using assms(1) True by (intro exI [of _ p]) (auto simp: restrict_map_def intro!: pools.equality)
next
  case False
  let ?kss = "map snd (mo (groupKeysByShards n ks))"
  let ?cs = "concat (map rm_calls ?kss)"
  have ks: "set (concat ?kss) = set ks" using mset_eq_setD [OF group_mset [OF assms(2), of n ks]] .
  have "\<exists>p'. goroutines sched (map (map (rm_act g)) (map rm_calls ?kss)) p = (p', []) \<and> lp_ok p' \<and>
      frame p p' \<and> id (view p') = fold (rm_eff g) ?cs (id (view p))"
    using rm_step rm_eff_commute rm_calls_ok
    by (intro lp.goroutines_fold [where D = "Collect rm_ok" and look = id]) (use assms(1) in auto)
  then obtain p' where p': "goroutines sched (map (map (rm_act g)) (map rm_calls ?kss)) p = (p', [])"
      "lp_ok p'" "frame p p'" "view p' = fold (rm_eff g) ?cs (view p)" by auto
  have th: "map (\<lambda>(shard, ks). removeKeysFromShard g ks) (mo (groupKeysByShards n ks)) =
      map (map (rm_act g)) (map rm_calls ?kss)"
    by (auto simp: rm_threads)
  have "processOperation tf mo ko sched n op p =
      join sched (map (\<lambda>(shard, ks). removeKeysFromShard g ks) (mo (groupKeysByShards n ks))) p"
    using False assms(3) by (simp add: processOperation_def processBatch_def g_def ks_def)
  then have run: "processOperation tf mo ko sched n op p = (p', Inr ())"
    unfolding th using join_Inr [OF p'(1)] by simp
  have ok: "\<forall>c \<in> set ?cs. rm_ok c" using rm_calls_ok by auto
  have mem: "RmList t k \<in> set ?cs \<longleftrightarrow> list_pool t \<and> k \<in> set ks" "RmInfo k \<in> set ?cs \<longleftrightarrow> k \<in> set ks" for t k
    unfolding ks [symmetric] by (auto simp: rm_calls_def)
  have vs: "{x. \<exists>js. RmVal js \<in> set ?cs \<and> x \<in> set (ids js)} = set (ids ks)"
    "{x. \<exists>js. RmCool js \<in> set ?cs \<and> x \<in> set (ids js)} = set (ids ks)"
    unfolding rm_members ids_union ks by simp_all
  show ?thesis
    using p'(2,3) run fold_rm_eff [OF ok, of g "view p"]
    unfolding p'(4) vs mem
    by (intro exI [of _ p']) (auto simp: p'(4) fun_eq_iff intro!: pools.equality filter_cong)
qed

end
