(* ===== verification/LayeredWitness.thy ===== *)
theory LayeredWitness
  imports LayeredListing
begin

text \<open>A concrete pool, built by calls of the model from an empty one, and the properties of the
  layered pool applied to it: group 2 has the key 7 in its ready and active pools, and the key 9
  in its cooling pool until second 5.\<close>

definition demo_row :: PoolKey where
  "demo_row = \<lparr>ID = 7, KeyValue = ''sk'', GroupID = 2, Status = KeyStatusActive, FailureCount = 0,
     RateLimitCount = 0, Last429At = None, RateLimitResetAt = None, CreatedAt = 0,
     RequestCount = 0, LastUsedAt = None, UpdatedAt = 0\<rparr>"

definition demo_factory :: "unit FactoryConfig" where
  "demo_factory = \<lparr>fcRedisConfig = None, fcMemoryConfig = None, fcStore = NilValue,
     fcDB = Dynamic ([demo_row], [2]), fcSettingsManager = Dynamic ()\<rparr>"

lemma demo_new: "\<exists>p. NewMemoryLayeredPool 0 demo_factory [] = Inr p \<and> good p \<and>
    ldb p = [demo_row] \<and> lgroups p = [2] \<and> lfaults p = [] \<and> cfg p = DefaultPoolConfig \<and>
    view p = \<lparr>vals = \<lambda>_. {}, lists = \<lambda>_. [], cools = \<lambda>_. Map.empty, infos = \<lambda>_. Map.empty\<rparr>"
proof -
  obtain p where p: "NewMemoryLayeredPool 0 demo_factory [] = Inr p"
      "ldb p = [demo_row]" "lgroups p = [2]" "lfaults p = []" "groupConfigs p = []"
    by (auto simp: NewMemoryLayeredPool_def demo_factory_def Let_def NewShardedMemoryStore_def
        DefaultMemoryPoolConfig_def pow2_test_def)
  then show ?thesis using new_pool_good [OF p(1)] by (auto simp: cfg_def fun_eq_iff)
qed

lemma texts [simp]: "show_nat 7 = ''7''" "show_nat 9 = ''9''" "show_nat 2 = ''2''"
  by code_simp+

lemma demo_texts: "{''7''} \<subseteq> id_texts" "{''9''} \<subseteq> id_texts"
  using imageI [of 7 "{..18446744073709551615}" show_nat] imageI [of 9 "{..18446744073709551615}" show_nat]
  by (simp_all add: id_texts_def)

definition demo_ok :: "lp \<Rightarrow> bool" where
  "demo_ok p \<longleftrightarrow> lp_ok p \<and> pools_wf (view p) \<and> ldb p = [demo_row] \<and> lgroups p = [2] \<and> lfaults p = [] \<and>
     cfg p = DefaultPoolConfig \<and>
     ready (view p) 2 = [''7''] \<and> active (view p) 2 = [''7''] \<and> cools (view p) 2 = [''9'' \<mapsto> 5] \<and>
     vals (view p) 2 = {} \<and> infos (view p) 7 = [''group_id'' \<mapsto> ''2'', ''key_value'' \<mapsto> ''sk''] \<and>
     infos (view p) 9 = [''group_id'' \<mapsto> ''2'']"

lemma demo_exists: "\<exists>p. demo_ok p"
proof -
  obtain p where p: "good p" "ldb p = [demo_row]" "lgroups p = [2]" "lfaults p = []"
    "cfg p = DefaultPoolConfig"
    "view p = \<lparr>vals = \<lambda>_. {}, lists = \<lambda>_. [], cools = \<lambda>_. Map.empty, infos = \<lambda>_. Map.empty\<rparr>"
    using demo_new by blast
  have ok: "lp_ok p" using p(1) by (simp add: good_def)
  let ?vs = "[(''group_id'', AUint 2), (''key_value'', AStr ''sk'')]"
  obtain p1 where p1: "lp_ok p1" "frame p p1"
      "view p1 = (view p)\<lparr>infos := (infos (view p))(7 := hash_upd ?vs (infos (view p) 7))\<rparr>"
    using always_D [OF set_details_rule [OF ok, of 7 ?vs]] by blast
  obtain q1 where q1: "lp_ok q1" "frame p1 q1" "view q1 = (view p1)\<lparr>infos := (infos (view p1))(9 :=
      hash_upd [(''group_id'', AUint 2)] (infos (view p1) 9))\<rparr>"
    using always_D [OF set_details_rule [OF p1(1), of 9 "[(''group_id'', AUint 2)]"]] by blast
  obtain p2 where p2: "lp_ok p2" "frame q1 p2" "view p2 = put_list (view q1) 2 PoolTypeReady
      (show_nat 7 # ready (view q1) 2)"
    using always_D [OF push_rule [OF q1(1), of PoolTypeReady 2 7]] by blast
  obtain p3 where p3: "lp_ok p3" "frame p2 p3" "view p3 = put_list (view p2) 2 PoolTypeActive
      (show_nat 7 # active (view p2) 2)"
    using always_D [OF push_rule [OF p2(1), of PoolTypeActive 2 7]] by blast
  obtain p4 where p4: "lp_ok p4" "frame p3 p4" "view p4 = (view p3)\<lparr>cools := (cools (view p3))(2 :=
      (cools (view p3) 2)(show_nat 9 \<mapsto> unix 5000000000))\<rparr>"
    using always_D [OF cool_rule [OF p3(1), of 2 9 5000000000]] by blast
  have "frame p p4" using p1(2) q1(2) p2(2) p3(2) p4(2) frame_trans by blast
  moreover have "pools_wf (view p4)"
    using demo_texts unfolding p4(3) p3(3) p2(3) q1(3) p1(3) p(6) by (simp add: pools_wf_def)
  ultimately have "demo_ok p4"
    using p p1(3) q1(3) p2(3) p3(3) p4(1,3) by (simp add: demo_ok_def frame_def hash_upd_def unix_def)
  then show ?thesis by blast
qed

lemma demo_in_group: "demo_ok p \<Longrightarrow> in_group (view p) 7 2" "demo_ok p \<Longrightarrow> in_group (view p) 9 2"
  using ParseUint_show [of 2] by (auto simp: demo_ok_def in_group_def)

lemma refill_copies_ready_keys_demo:
  "\<exists>p p'. demo_ok p \<and> lp_RefillPools id 2 p = (p', Inr ()) \<and>
     mset (ready (view p') 2) = {#''7''#} \<and> length (active (view p') 2) = 5"
proof -
  obtain p where p: "demo_ok p" using demo_exists by blast
  have "lp_ok p" "set (ready (view p) 2) \<subseteq> id_texts" "iter_order id"
    using p demo_texts by (simp_all add: demo_ok_def)
  from refill_copies_ready_keys [OF this] show ?thesis
    using p by (auto simp: demo_ok_def refill_count_def DefaultPoolConfig_def)
qed

lemma layered_select_demo:
  "\<exists>p p' key. demo_ok p \<and> lp_SelectKey id 0 2 p = (p', Inr key) \<and> ID key = 7 \<and> KeyValue key = ''sk''"
proof -
  obtain p where p: "demo_ok p" using demo_exists by blast
  have "lp_ok p" "set (ready (view p) 2) \<subseteq> id_texts" "set (active (view p) 2) \<subseteq> id_texts" "iter_order id"
    using p demo_texts by (simp_all add: demo_ok_def)
  from layered_select [OF this, of 0] obtain p' r where r: "lp_SelectKey id 0 2 p = (p', r)"
      "if active (before_select p 2) 2 = [] then r = Inl ErrPoolEmpty \<and> view p' = before_select p 2
       else view p' = put_list (before_select p 2) 2 PoolTypeActive
              (rot (active (before_select p 2) 2)) \<and> selected (before_select p 2) 2 r"
    by blast
  have b: "before_select p 2 = view p" "active (view p) 2 = [''7'']"
    using p by (simp_all add: before_select_def demo_ok_def)
  obtain k where k: "''7'' = show_nat k" and sel: "case infos (view p) k ''key_value'' of
        None \<Rightarrow> r = Inl (PoolError ErrorTypeValidation ''MISSING_KEY_VALUE'' None)
      | Some kv \<Rightarrow> (\<exists>key. r = Inr key \<and> ID key = k \<and> GroupID key = 2 \<and> KeyValue key = kv)"
    using r(2) b by (auto simp: selected_def)
  have "k = 7" using k show_nat_inj [of 7 k] by simp
  then show ?thesis using sel p r(1) by (auto simp: demo_ok_def)
qed

lemma return_grows_active_pool_demo:
  "\<exists>p p'. demo_ok p \<and> lp_ReturnKey 0 7 True p = (p', Inr ()) \<and> active (view p') 2 = [''7'', ''7'']"
proof -
  obtain p where p: "demo_ok p" using demo_exists by blast
  have "lp_ok p" "lfaults p = []" "2 \<in> set (lgroups p)" using p by (simp_all add: demo_ok_def)
  from return_grows_active_pool [OF this(1) demo_in_group(1) [OF p] this(2,3), of 0 True] show ?thesis
    using p by (auto simp: demo_ok_def)
qed

theorem rate_limit_cools_key_witness:
  "\<exists>p p'. demo_ok p \<and> lp_HandleRateLimit 0 7 60000000000 None p = (p', Inr ()) \<and>
     active (view p') 2 = [] \<and> cools (view p') 2 ''7'' = Some 60"
proof -
  obtain p where p: "demo_ok p" using demo_exists by blast
  have "lp_ok p" using p by (simp add: demo_ok_def)
  from rate_limit_cools_key [OF this demo_in_group(1) [OF p], of 0 60000000000 None] show ?thesis
    using p by (auto simp: demo_ok_def unix_def reset_time_def)
qed

lemma rate_limited_key_reactivated_demo:
  "\<exists>p p1 p2. demo_ok p \<and> lp_HandleRateLimit 0 7 60000000000 None p = (p1, Inr ()) \<and>
     ''7'' \<notin> set (active (view p1) 2) \<and> lp_RefillPools id 2 p1 = (p2, Inr ()) \<and>
     ''7'' \<in> set (active (view p2) 2)"
proof -
  obtain p where p: "demo_ok p" using demo_exists by blast
  have "lp_ok p" "set (ready (view p) 2) \<subseteq> id_texts" "iter_order id"
    "show_nat 7 \<in> set (ready (view p) 2)"
    "length (ready (view p) 2) \<le> refill_count (cfg p 2) (length (removeAll (show_nat 7) (active (view p) 2)))"
    using p demo_texts by (simp_all add: demo_ok_def refill_count_def DefaultPoolConfig_def)
  from rate_limited_key_reactivated [OF this(1) demo_in_group(1) [OF p] this(2-5), of 0 60000000000 None]
  show ?thesis using p by auto
qed

theorem recovery_exact_witness:
  "\<exists>p p'. demo_ok p \<and> lp_RecoverCooledKeys (\<lambda>_. []) id 5000000000 2 p = (p', Inr 1) \<and>
     cools (view p') 2 = Map.empty \<and> ready (view p') 2 = [''9'', ''7'']"
proof -
  obtain p where p: "demo_ok p" using demo_exists by blast
  have "lp_ok p" "iter_order id" "dom (cools (view p) 2) \<subseteq> id_texts"
    using p demo_texts by (simp_all add: demo_ok_def)
  from recovery_exact [OF this, of "\<lambda>_. []" 5000000000] obtain p' ms where
    r: "lp_RecoverCooledKeys (\<lambda>_. []) id 5000000000 2 p = (p', Inr (int (length ms)))" "distinct ms"
      "set ms = {m. \<exists>sc. cools (view p) 2 m = Some sc \<and> 0 \<le> sc \<and> sc \<le> unix 5000000000}"
      "cools (view p') 2 = cools (view p) 2 |` (- set ms)" "ready (view p') 2 = rev ms @ ready (view p) 2"
    by blast
  have c: "cools (view p) 2 = [''9'' \<mapsto> 5]" "ready (view p) 2 = [''7'']"
    using p by (simp_all add: demo_ok_def)
  have "set ms = {''9''}" unfolding r(3) c(1) by (auto simp: unix_def split: if_splits)
  moreover from this have "length ms = 1" using r(2) distinct_card [of ms] by simp
  ultimately have m: "ms = [''9'']" by (cases ms) auto
  have "cools (view p') 2 = Map.empty" unfolding r(4) c m by (simp add: restrict_map_def fun_eq_iff)
  moreover have "ready (view p') 2 = [''9'', ''7'']" unfolding r(5) c m by simp
  ultimately show ?thesis using r(1) m p by fastforce
qed

lemma move_outcome_demo:
  "\<exists>p p' r. demo_ok p \<and> lp_MoveKey (\<lambda>_. []) 7 PoolTypeActive PoolTypeCooling p = (p', r) \<and>
     moved p 7 2 PoolTypeActive PoolTypeCooling r (view p')"
proof -
  obtain p where p: "demo_ok p" using demo_exists by blast
  have "lp_ok p" using p by (simp add: demo_ok_def)
  from move_outcome [OF this demo_in_group(1) [OF p], of PoolTypeActive PoolTypeCooling "\<lambda>_. []"]
  show ?thesis using p by auto
qed

lemma failed_move_from_cooling_loses_key_demo:
  "\<exists>p p' e. demo_ok p \<and> cools (view p) 2 ''9'' = Some 5 \<and>
     lp_MoveKey (\<lambda>_. []) 9 PoolTypeCooling PoolTypeActive p = (p', Inl e) \<and>
     cools (view p') 2 ''9'' = None \<and> lists (view p') = lists (view p)"
proof -
  obtain p where p: "demo_ok p" using demo_exists by blast
  have ok: "lp_ok p" using p by (simp add: demo_ok_def)
  have rows: "pool_rows p 2 [9] = []" using p by (simp add: pool_rows_def demo_ok_def demo_row_def)
  obtain p' r where m: "lp_MoveKey (\<lambda>_. []) 9 PoolTypeCooling PoolTypeActive p = (p', r)"
      "moved p 9 2 PoolTypeCooling PoolTypeActive r (view p')"
    using satD [OF move_key_rule [OF ok demo_in_group(2) [OF p], of PoolTypeCooling PoolTypeActive "\<lambda>_. []"]] by auto
  then obtain e where "r = Inl e" using rows by (auto simp: moved_def Let_def)
  then have "lp_MoveKey (\<lambda>_. []) 9 PoolTypeCooling PoolTypeActive p = (p', Inl e)" using m by simp
  from failed_move_from_cooling_loses_key [OF ok demo_in_group(2) [OF p] _ this] this show ?thesis
    using p by (intro exI [of _ p] exI [of _ p'] exI [of _ e]) (simp add: demo_ok_def)
qed

lemma cache_resize_exact_demo:
  "\<exists>c'. cache_UpdateConfig id rev 10 (Some (1, 5))
      \<lparr>ccache = [(1, demo_row, 3), (2, demo_row, 20)], cmaxSize = 2, cttl = 5\<rparr> = Inr c' \<and>
     length (ccache c') = 1"
proof -
  let ?c = "\<lparr>ccache = [(1, demo_row, 3), (2, demo_row, 20)], cmaxSize = 2, cttl = 5\<rparr>"
  have "gomap_ok (ccache ?c)" by (simp add: gomap_ok_def)
  from cache_resize_exact [OF this iter_order_id(1,3), of 10 1 5] show ?thesis by auto
qed

theorem reachable_pools_well_formed_witness:
  "\<exists>p0 p. NewMemoryLayeredPool 0 demo_factory [] = Inr p0 \<and>
     lp_step (\<lambda>_. []) p0 p \<and> p = fst (lp_AddKeys (\<lambda>_. []) 2 [7] p0) \<and> pools_wf (view p)"
proof -
  obtain p0 where p0: "NewMemoryLayeredPool 0 demo_factory [] = Inr p0"
    using demo_new by blast
  have s: "lp_step (\<lambda>_. []) p0 (fst (lp_AddKeys (\<lambda>_. []) 2 [7] p0))"
    by (rule lp_step.intros(1)) (simp add: is_uint_def)
  show ?thesis
    using reachable_pools_well_formed [OF p0 reach_step [OF reach_refl s] iter_order_id(1)] p0 s by blast
qed

lemma list_keys_exact_demo:
  "\<exists>p p'. demo_ok p \<and> lp_ListKeys id id 2 PoolTypeActive p = (p', Inr [7])"
proof -
  obtain p where p: "demo_ok p" using demo_exists by blast
  then have "good p" by (simp add: demo_ok_def good_def)
  from list_keys_exact [OF this iter_order_id(1) iter_order_id(1), of PoolTypeActive 2] p
  obtain p' ks where "lp_ListKeys id id 2 PoolTypeActive p = (p', Inr ks)" "ids ks = [''7'']"
    by (auto simp: demo_ok_def)
  moreover from this(2) obtain k where "ks = [k]" "show_nat k = show_nat 7" by (cases ks) auto
  moreover from this(2) have "k = 7" by (rule show_nat_inj)
  ultimately show ?thesis using p by blast
qed

lemma key_status_inferred_demo:
  "\<exists>p p'. demo_ok p \<and> lp_GetKeyStatus id id 9 p = (p', Inr KeyStatusRateLimited)"
proof -
  obtain p where p: "demo_ok p" using demo_exists by blast
  then have "good p" by (simp add: demo_ok_def good_def)
  from key_status_inferred [OF this iter_order_id(1) iter_order_id(1) demo_in_group(2) [OF p]]
  show ?thesis using p by (auto simp: demo_ok_def inferred_status_def in_pool_def)
qed

end
