(* ===== verification/BatchWitness.thy ===== *)
theory BatchWitness
  imports MemoryBatch LayeredWitness
begin

text \<open>The batch properties at the demonstration pool: group 2 with the key 7 in its ready and active
  pools and the key 9 cooling, two goroutines, and a schedule that interleaves them.\<close>

definition demo_batch :: "BatchOpType \<Rightarrow> PoolType \<Rightarrow> PoolType \<Rightarrow> BatchOperation" where
  "demo_batch t src dst = \<lparr>boType = t, boGroupID = 2, boKeyIDs = [7, 9], FromPool = src, ToPool = dst,
     boMetadata = NilValue\<rparr>"

theorem batch_move_any_schedule_witness:
  "\<exists>p p'. demo_ok p \<and>
     processOperation (\<lambda>_. []) id id [1, 0, 1] 4 (demo_batch BatchOpMoveKeys PoolTypeReady PoolTypeActive) p =
       (p', Inr ()) \<and>
     ready (view p') 2 = [] \<and> mset (active (view p') 2) = {#''7'', ''7'', ''9''#}"
proof -
  obtain p where p: "demo_ok p" using demo_exists by blast
  have "lp_ok p" using p by (simp add: demo_ok_def)
  from batch_move_any_schedule [OF this iter_order_id(1), of "demo_batch BatchOpMoveKeys PoolTypeReady PoolTypeActive"
      PoolTypeReady PoolTypeActive "\<lambda>_. []" id "[1, 0, 1]" 4]
  show ?thesis using p by (auto simp: demo_ok_def demo_batch_def)
qed

lemma batch_remove_any_schedule_demo:
  "\<exists>p p'. demo_ok p \<and>
     processOperation (\<lambda>_. []) id id [1, 0, 1] 4 (demo_batch BatchOpRemoveKeys PoolTypeReady PoolTypeReady) p =
       (p', Inr ()) \<and>
     ready (view p') 2 = [] \<and> active (view p') 2 = [] \<and> cools (view p') 2 = Map.empty \<and>
     infos (view p') 7 = Map.empty"
proof -
  obtain p where p: "demo_ok p" using demo_exists by blast
  have "lp_ok p" using p by (simp add: demo_ok_def)
  from batch_remove_any_schedule [OF this iter_order_id(1), of "demo_batch BatchOpRemoveKeys PoolTypeReady PoolTypeReady"
      "\<lambda>_. []" id "[1, 0, 1]" 4]
  show ?thesis using p by (auto simp: demo_ok_def demo_batch_def)
qed

end
