(* ===== verification/RedisPool.thy ===== *)
theory RedisPool
  imports PoolBase
begin

text \<open>The layered key pool of src/internal/keypool/redis_pool.go and redis_pool_helpers.go. It calls
  its store through the interface Store (src/internal/store/store.go), so the store is a record
  of functions on a state of any type: the in-memory store is one, a Redis server another. The
  pool itself keeps nothing but the configuration of its groups. Metrics, events and logs only
  observe and are left out.\<close>

section \<open>The store the pool is given\<close>

text \<open>A command of a pipeline, and the methods of the interface that the pool calls. A store that
  also implements RedisPipeliner has a way to execute a list of commands.\<close>

datatype pipe_cmd =
    PipeLPush string "goany list"
  | PipeLRem string int goany
  | PipeSAdd string "goany list"
  | PipeSRem string "goany list"
  | PipeZAdd string "(goany \<times> int) list"

record 's Store =
  StSet :: "string \<Rightarrow> string \<Rightarrow> int \<Rightarrow> 's \<Rightarrow> 's \<times> unit sres"
  StDelete :: "string \<Rightarrow> 's \<Rightarrow> 's \<times> unit sres"
  StHSet :: "string \<Rightarrow> (string \<times> goany) list \<Rightarrow> 's \<Rightarrow> 's \<times> unit sres"
  StHGetAll :: "string \<Rightarrow> 's \<Rightarrow> 's \<times> (string, string) gomap sres"
  StLPush :: "string \<Rightarrow> goany list \<Rightarrow> 's \<Rightarrow> 's \<times> unit sres"
  StLRem :: "string \<Rightarrow> int \<Rightarrow> goany \<Rightarrow> 's \<Rightarrow> 's \<times> unit sres"
  StRotate :: "string \<Rightarrow> 's \<Rightarrow> 's \<times> string sres"
  StSAdd :: "string \<Rightarrow> goany list \<Rightarrow> 's \<Rightarrow> 's \<times> unit sres"
  StSRem :: "string \<Rightarrow> goany list \<Rightarrow> 's \<Rightarrow> 's \<times> unit sres"
  StSMembers :: "string \<Rightarrow> 's \<Rightarrow> 's \<times> string list sres"
  StZAdd :: "string \<Rightarrow> (goany \<times> int) list \<Rightarrow> 's \<Rightarrow> 's \<times> unit sres"
  StZCard :: "string \<Rightarrow> 's \<Rightarrow> 's \<times> int sres"
  StPipeline :: "(pipe_cmd list \<Rightarrow> 's \<Rightarrow> 's \<times> unit sres) option"

section \<open>State\<close>

text \<open>The validator is a component the pool may be given: from the group and the key to whether
  ValidateKey returned no error.\<close>

record 's RedisLayeredPool =
  rpStore :: "'s Store"
  rpConfig :: RedisPoolConfig
  rpValidator :: "(nat \<Rightarrow> PoolKey \<Rightarrow> bool) option"

record 's rp = pool_db +
  rstore :: 's

type_synonym ('s, 'a) ract = "('s rp, 'a) act"

definition on_rstore :: "('s \<Rightarrow> 's \<times> 'a sres) \<Rightarrow> ('s, 'a) ract" where
  "on_rstore f p = (case f (rstore p) of (s, r) \<Rightarrow> (p\<lparr>rstore := s\<rparr>, map_sum StoreErr id r))"

definition NewRedisLayeredPool :: "'s Store FactoryConfig \<Rightarrow> 's \<Rightarrow> (nat \<Rightarrow> PoolKey \<Rightarrow> bool) option \<Rightarrow>
    db_err option list \<Rightarrow> lp_err + 's RedisLayeredPool \<times> 's rp" where
  "NewRedisLayeredPool fc s0 validator faults =
    (let configuration = (\<lambda>code. Inl (PoolError ErrorTypeConfiguration code None)) in
     case fcStore fc of
       NilValue \<Rightarrow> configuration ''MISSING_STORE''
     | OtherType \<Rightarrow> configuration ''INVALID_STORE''
     | Dynamic S \<Rightarrow>
    (case fcDB fc of
       NilValue \<Rightarrow> configuration ''INVALID_DB''
     | OtherType \<Rightarrow> configuration ''INVALID_DB''
     | Dynamic (rows, groups) \<Rightarrow>
    (case fcSettingsManager fc of
       NilValue \<Rightarrow> configuration ''INVALID_SETTINGS_MANAGER''
     | OtherType \<Rightarrow> configuration ''INVALID_SETTINGS_MANAGER''
     | Dynamic _ \<Rightarrow>
         Inr (\<lparr>rpStore = S, rpConfig = (case fcRedisConfig fc of None \<Rightarrow> DefaultRedisPoolConfig
                                      | Some c \<Rightarrow> c), rpValidator = validator\<rparr>,
              \<lparr>ldb = rows, lgroups = groups, lfaults = faults, groupConfigs = [], rstore = s0\<rparr>))))"

section \<open>Names and details\<close>

definition rp_getRedisKey :: "'s RedisLayeredPool \<Rightarrow> nat \<Rightarrow> PoolType \<Rightarrow> string" where
  "rp_getRedisKey P gid t =
     KeyPrefix (rpConfig P) @ ''group:'' @ show_nat gid @ '':'' @ pool_text t"

definition rp_getKeyDetailsKey :: "'s RedisLayeredPool \<Rightarrow> nat \<Rightarrow> string" where
  "rp_getKeyDetailsKey P kid = KeyPrefix (rpConfig P) @ ''key:'' @ show_nat kid"

definition rp_getStatsKey :: "'s RedisLayeredPool \<Rightarrow> nat \<Rightarrow> string" where
  "rp_getStatsKey P gid = KeyPrefix (rpConfig P) @ ''stats:'' @ show_nat gid"

text \<open>The entry of one cooling key.\<close>

definition cooling_entry :: "'s RedisLayeredPool \<Rightarrow> nat \<Rightarrow> nat \<Rightarrow> string" where
  "cooling_entry P gid kid = rp_getRedisKey P gid PoolTypeCooling @ '':'' @ show_nat kid"

definition rp_setKeyDetails :: "'s RedisLayeredPool \<Rightarrow> nat \<Rightarrow> (string \<times> goany) list \<Rightarrow> ('s, unit) ract" where
  "rp_setKeyDetails P kid details = on_rstore (StHSet (rpStore P) (rp_getKeyDetailsKey P kid) details)"

definition rp_getKeyDetails :: "'s RedisLayeredPool \<Rightarrow> nat \<Rightarrow> ('s, (string, string) gomap) ract" where
  "rp_getKeyDetails P kid = on_rstore (StHGetAll (rpStore P) (rp_getKeyDetailsKey P kid))"

definition updatePoolStats :: "'s RedisLayeredPool \<Rightarrow> nat \<Rightarrow> (string \<times> goany) list \<Rightarrow> ('s, unit) ract" where
  "updatePoolStats P gid stats = on_rstore (StHSet (rpStore P) (rp_getStatsKey P gid) stats)"

definition getPoolStatsFromRedis :: "'s RedisLayeredPool \<Rightarrow> nat \<Rightarrow> ('s, (string, string) gomap) ract" where
  "getPoolStatsFromRedis P gid = on_rstore (StHGetAll (rpStore P) (rp_getStatsKey P gid))"

definition rp_with_group ::
  "'s RedisLayeredPool \<Rightarrow> nat \<Rightarrow> ((string, string) gomap \<Rightarrow> nat \<Rightarrow> ('s, 'a) ract) \<Rightarrow> ('s, 'a) ract" where
  "rp_with_group P kid cont =
    bindE (wrap ErrorTypeStorage ''KEY_DETAILS_FAILED'' (rp_getKeyDetails P kid)) (\<lambda>details.
      case gget details ''group_id'' of
        None \<Rightarrow> fail (PoolError ErrorTypeValidation ''MISSING_GROUP_ID'' None)
      | Some t \<Rightarrow>
          (case ParseUint t of
             (_, Some e) \<Rightarrow> fail (PoolError ErrorTypeInternal ''INVALID_GROUP_ID'' None)
           | (gid, None) \<Rightarrow> cont details gid))"

definition rp_buildAPIKeyFromDetails ::
  "nat \<Rightarrow> nat \<Rightarrow> (string, string) gomap \<Rightarrow> ('s, PoolKey) ract" where
  "rp_buildAPIKeyFromDetails kid gid details =
    (case gget details ''key_value'' of
       None \<Rightarrow> fail (PoolError ErrorTypeValidation ''MISSING_KEY_VALUE'' None)
     | Some keyValue \<Rightarrow> ret
         \<lparr>ID = kid, KeyValue = keyValue, GroupID = gid,
          Status = (if field_text details ''status'' = [] then KeyStatusActive
                    else field_text details ''status''),
          FailureCount = fst (ParseInt (field_text details ''failure_count'')),
          RateLimitCount = fst (ParseInt (field_text details ''rate_limit_count'')),
          Last429At = details_time details ''last_429_at'',
          RateLimitResetAt = details_time details ''rate_limit_reset_at'',
          CreatedAt = (case details_time details ''created_at'' of None \<Rightarrow> zero_time | Some t \<Rightarrow> t),
          RequestCount = fst (ParseInt (field_text details ''request_count'')),
          LastUsedAt = details_time details ''last_used_at'',
          UpdatedAt = zero_time\<rparr>)"

text \<open>The times a row carries are stored in seconds.\<close>

definition syncKeyDetails :: "'s RedisLayeredPool \<Rightarrow> nat \<Rightarrow> nat \<Rightarrow> ('s, unit) ract" where
  "syncKeyDetails P kid gid = bindE (first_key kid) (\<lambda>key. rp_setKeyDetails P kid
     ([(''id'', AUint kid), (''key_value'', AStr (KeyValue key)), (''group_id'', AUint gid),
       (''status'', AStr (Status key)), (''request_count'', AInt (RequestCount key)),
       (''failure_count'', AInt (FailureCount key)), (''rate_limit_count'', AInt (RateLimitCount key)),
       (''created_at'', AInt (unix (CreatedAt key)))] @
      (case LastUsedAt key of None \<Rightarrow> [] | Some t \<Rightarrow> [(''last_used_at'', AInt (unix t))]) @
      (case Last429At key of None \<Rightarrow> [] | Some t \<Rightarrow> [(''last_429_at'', AInt (unix t))]) @
      (case RateLimitResetAt key of None \<Rightarrow> []
       | Some t \<Rightarrow> [(''rate_limit_reset_at'', AInt (unix t))])))"

section \<open>Adding to and removing from a pool\<close>

definition rp_push :: "'s RedisLayeredPool \<Rightarrow> nat \<Rightarrow> PoolType \<Rightarrow> nat \<Rightarrow> ('s, unit) ract" where
  "rp_push P gid t kid = on_rstore (StLPush (rpStore P) (rp_getRedisKey P gid t) [AUint kid])"

definition rp_rem :: "'s RedisLayeredPool \<Rightarrow> nat \<Rightarrow> PoolType \<Rightarrow> nat \<Rightarrow> ('s, unit) ract" where
  "rp_rem P gid t kid = on_rstore (StLRem (rpStore P) (rp_getRedisKey P gid t) 0 (AUint kid))"

definition rp_addToValidationPool :: "'s RedisLayeredPool \<Rightarrow> nat \<Rightarrow> nat list \<Rightarrow> ('s, unit) ract" where
  "rp_addToValidationPool P gid kids =
    (if kids = [] then ret ()
     else on_rstore (StSAdd (rpStore P) (rp_getRedisKey P gid PoolTypeValidation) (map AUint kids)))"

text \<open>The removal from the validation pool is a comment in the code, on both branches.\<close>

definition rp_moveToReadyPool :: "'s RedisLayeredPool \<Rightarrow> nat \<Rightarrow> nat list \<Rightarrow> ('s, unit) ract" where
  "rp_moveToReadyPool P gid kids =
    (if kids = [] then ret ()
     else case StPipeline (rpStore P) of
       Some exec \<Rightarrow> on_rstore (exec
         (map (\<lambda>kid. PipeLPush (rp_getRedisKey P gid PoolTypeReady) [AUint kid]) kids))
     | None \<Rightarrow> for_each (rp_push P gid PoolTypeReady) kids)"

fun rp_moveToActivePool :: "'s RedisLayeredPool \<Rightarrow> nat \<Rightarrow> nat \<Rightarrow> ('s, nat list) ract" where
  "rp_moveToActivePool P gid 0 = ret []"
| "rp_moveToActivePool P gid (Suc n) =
    catching (on_rstore (StRotate (rpStore P) (rp_getRedisKey P gid PoolTypeReady))) (\<lambda>r.
      case r of
        Inl e \<Rightarrow> if e = StoreErr ErrNotFound then ret [] else fail e
      | Inr t \<Rightarrow>
          (case ParseUint t of
             (_, Some _) \<Rightarrow> rp_moveToActivePool P gid n
           | (kid, None) \<Rightarrow>
               bindE (rp_push P gid PoolTypeActive kid) (\<lambda>_.
               bindE (rp_moveToActivePool P gid n) (\<lambda>moved. ret (kid # moved)))))"

definition rp_addToCoolingPool :: "'s RedisLayeredPool \<Rightarrow> nat \<Rightarrow> nat \<Rightarrow> int \<Rightarrow> ('s, unit) ract" where
  "rp_addToCoolingPool P gid kid resetAt =
    on_rstore (StSet (rpStore P) (cooling_entry P gid kid) (show_int (unix resetAt)) 0)"

text \<open>The query for the expired keys is a comment in the code; the result is always empty.\<close>

definition rp_getExpiredFromCoolingPool :: "'s RedisLayeredPool \<Rightarrow> nat \<Rightarrow> ('s, nat list) ract" where
  "rp_getExpiredFromCoolingPool P gid = ret []"

definition rp_removeFromCoolingPool :: "'s RedisLayeredPool \<Rightarrow> nat \<Rightarrow> nat list \<Rightarrow> ('s, unit) ract" where
  "rp_removeFromCoolingPool P gid kids =
    for_each (\<lambda>kid. on_rstore (StDelete (rpStore P) (cooling_entry P gid kid))) kids"

definition rp_addToListPool ::
  "'s RedisLayeredPool \<Rightarrow> nat \<Rightarrow> PoolType \<Rightarrow> nat list \<Rightarrow> ('s, unit) ract" where
  "rp_addToListPool P gid t kids =
    (if kids = [] then ret ()
     else bindE (for_each (\<lambda>kid. wrap ErrorTypeStorage ''LPUSH_FAILED'' (rp_push P gid t kid)) kids)
       (\<lambda>_. for_each (\<lambda>kid. logged (syncKeyDetails P kid gid)) kids))"

definition rp_addToReadyPool :: "'s RedisLayeredPool \<Rightarrow> nat \<Rightarrow> nat list \<Rightarrow> ('s, unit) ract" where
  "rp_addToReadyPool P gid kids = rp_addToListPool P gid PoolTypeReady kids"

definition rp_addToActivePool :: "'s RedisLayeredPool \<Rightarrow> nat \<Rightarrow> nat list \<Rightarrow> ('s, unit) ract" where
  "rp_addToActivePool P gid kids = rp_addToListPool P gid PoolTypeActive kids"

definition usable_status :: "PoolKey \<Rightarrow> bool" where
  "usable_status k \<longleftrightarrow> Status k = KeyStatusActive \<or> Status k = KeyStatusRateLimited"

definition rp_addKeysToPool ::
  "'s RedisLayeredPool \<Rightarrow> nat \<Rightarrow> nat list \<Rightarrow> PoolType \<Rightarrow> ('s, unit) ract" where
  "rp_addKeysToPool P gid kids t =
    (if kids = [] then ret ()
     else bindE (wrap ErrorTypeStorage ''DB_QUERY_FAILED'' (find_keys gid kids)) (\<lambda>keys.
       if keys = [] then fail (PoolError ErrorTypeValidation ''NO_KEYS_FOUND'' None)
       else let validKeyIDs = map ID (filter usable_status keys) in
       if validKeyIDs = [] then fail (PoolError ErrorTypeValidation ''NO_VALID_KEYS'' None)
       else (case t of
           PoolTypeValidation \<Rightarrow> rp_addToValidationPool P gid validKeyIDs
         | PoolTypeReady \<Rightarrow> rp_addToReadyPool P gid validKeyIDs
         | PoolTypeActive \<Rightarrow> rp_addToActivePool P gid validKeyIDs
         | PoolTypeCooling \<Rightarrow> fail (PoolError ErrorTypeValidation ''INVALID_POOL_TYPE'' None)
         | PoolTypeOther _ \<Rightarrow> fail (PoolError ErrorTypeValidation ''UNKNOWN_POOL_TYPE'' None))))"

definition rp_AddKeys :: "'s RedisLayeredPool \<Rightarrow> nat \<Rightarrow> nat list \<Rightarrow> ('s, unit) ract" where
  "rp_AddKeys P gid kids =
    (if kids = [] then ret () else rp_addKeysToPool P gid kids PoolTypeValidation)"

definition rp_removeFromValidationPool ::
  "'s RedisLayeredPool \<Rightarrow> nat \<Rightarrow> nat list \<Rightarrow> ('s, unit) ract" where
  "rp_removeFromValidationPool P gid kids =
    on_rstore (StSRem (rpStore P) (rp_getRedisKey P gid PoolTypeValidation) (map AUint kids))"

definition rp_removeFromReadyPool :: "'s RedisLayeredPool \<Rightarrow> nat \<Rightarrow> nat list \<Rightarrow> ('s, unit) ract" where
  "rp_removeFromReadyPool P gid kids =
    for_each (\<lambda>kid. wrap ErrorTypeStorage ''LREM_FAILED'' (rp_rem P gid PoolTypeReady kid)) kids"

definition rp_removeFromActivePool :: "'s RedisLayeredPool \<Rightarrow> nat \<Rightarrow> nat list \<Rightarrow> ('s, unit) ract" where
  "rp_removeFromActivePool P gid kids =
    for_each (\<lambda>kid. wrap ErrorTypeStorage ''LREM_FAILED'' (rp_rem P gid PoolTypeActive kid)) kids"

definition rp_removeKeysFromPool ::
  "'s RedisLayeredPool \<Rightarrow> nat \<Rightarrow> nat list \<Rightarrow> PoolType \<Rightarrow> ('s, unit) ract" where
  "rp_removeKeysFromPool P gid kids t =
    (if kids = [] then ret ()
     else (case t of
         PoolTypeValidation \<Rightarrow> rp_removeFromValidationPool P gid kids
       | PoolTypeReady \<Rightarrow> rp_removeFromReadyPool P gid kids
       | PoolTypeActive \<Rightarrow> rp_removeFromActivePool P gid kids
       | PoolTypeCooling \<Rightarrow> rp_removeFromCoolingPool P gid kids
       | PoolTypeOther _ \<Rightarrow> fail (PoolError ErrorTypeValidation ''UNKNOWN_POOL_TYPE'' None)))"

definition rp_RemoveKeys :: "'s RedisLayeredPool \<Rightarrow> nat \<Rightarrow> nat list \<Rightarrow> ('s, unit) ract" where
  "rp_RemoveKeys P gid kids =
    (if kids = [] then ret ()
     else bindE (for_each (\<lambda>t. logged (rp_removeKeysFromPool P gid kids t)) all_pools)
       (\<lambda>_. for_each (\<lambda>kid. logged (on_rstore (StDelete (rpStore P) (rp_getKeyDetailsKey P kid)))) kids))"

section \<open>Listing and refill\<close>

definition rp_listValidationKeys :: "'s RedisLayeredPool \<Rightarrow> nat \<Rightarrow> ('s, nat list) ract" where
  "rp_listValidationKeys P gid = bindE (wrap ErrorTypeStorage ''SMEMBERS_FAILED''
     (on_rstore (StSMembers (rpStore P) (rp_getRedisKey P gid PoolTypeValidation))))
       (\<lambda>ms. ret (parse_ids ms))"

text \<open>The listings of the other pools are not implemented.\<close>

definition rp_ListKeys :: "'s RedisLayeredPool \<Rightarrow> nat \<Rightarrow> PoolType \<Rightarrow> ('s, nat list) ract" where
  "rp_ListKeys P gid t =
    (case t of
       PoolTypeValidation \<Rightarrow> rp_listValidationKeys P gid
     | PoolTypeReady \<Rightarrow> ret []
     | PoolTypeActive \<Rightarrow> ret []
     | PoolTypeCooling \<Rightarrow> ret []
     | PoolTypeOther _ \<Rightarrow> fail (PoolError ErrorTypeValidation ''UNKNOWN_POOL_TYPE'' None))"

text \<open>The size of a list pool is not implemented either, and counts as 0.\<close>

definition rp_getPoolSize :: "'s RedisLayeredPool \<Rightarrow> nat \<Rightarrow> PoolType \<Rightarrow> ('s, int) ract" where
  "rp_getPoolSize P gid t =
    (case t of
       PoolTypeValidation \<Rightarrow> bindE (on_rstore (StSMembers (rpStore P) (rp_getRedisKey P gid t)))
         (\<lambda>ms. ret (int (length ms)))
     | PoolTypeReady \<Rightarrow> ret 0
     | PoolTypeActive \<Rightarrow> ret 0
     | PoolTypeCooling \<Rightarrow> on_rstore (StZCard (rpStore P) (rp_getRedisKey P gid t))
     | PoolTypeOther _ \<Rightarrow> fail (PoolError ErrorTypeValidation ''UNKNOWN_POOL_TYPE'' None))"

text \<open>One key of the validation pool: whether it goes on to the ready pool.\<close>

definition check_candidate :: "'s RedisLayeredPool \<Rightarrow> nat \<Rightarrow> nat \<Rightarrow> ('s, bool) ract" where
  "check_candidate P gid kid =
    (case rpValidator P of
       None \<Rightarrow> ret True
     | Some ValidateKey \<Rightarrow>
         catching (bindE (rp_getKeyDetails P kid) (\<lambda>details.
                   bindE (rp_buildAPIKeyFromDetails kid gid details) (\<lambda>apiKey.
                   bindE (first_group gid) (\<lambda>_. ret apiKey)))) (\<lambda>r.
           case r of
             Inl _ \<Rightarrow> ret False
           | Inr apiKey \<Rightarrow>
               if ValidateKey gid apiKey then ret True
               else bindE (logged (rp_removeFromValidationPool P gid [kid])) (\<lambda>_. ret False)))"

fun check_candidates :: "'s RedisLayeredPool \<Rightarrow> nat \<Rightarrow> nat list \<Rightarrow> ('s, nat list) ract" where
  "check_candidates P gid [] = ret []"
| "check_candidates P gid (kid # kids) =
    bindE (check_candidate P gid kid) (\<lambda>ok.
    bindE (check_candidates P gid kids) (\<lambda>validated.
      ret (if ok then kid # validated else validated)))"

definition refillReadyFromValidation :: "'s RedisLayeredPool \<Rightarrow> nat \<Rightarrow> int \<Rightarrow> ('s, unit) ract" where
  "refillReadyFromValidation P gid cnt =
    bindE (rp_listValidationKeys P gid) (\<lambda>validationKeys.
      if validationKeys = [] then ret ()
      else bindE (check_candidates P gid (take (nat cnt) validationKeys)) (\<lambda>validatedKeys.
        if validatedKeys = [] then ret () else rp_moveToReadyPool P gid validatedKeys))"

text \<open>The rows of the group that may serve, at most twice as many as needed.\<close>

definition available_keys :: "nat \<Rightarrow> int \<Rightarrow> ('z pool_db_scheme, PoolKey list) act" where
  "available_keys gid cnt = on_db (\<lambda>p. Inr (take (nat (cnt * 2))
     (filter (\<lambda>k. GroupID k = gid \<and> usable_status k) (ldb p))))"

definition isKeyInAnyPool :: "'s RedisLayeredPool \<Rightarrow> nat \<Rightarrow> ('s, bool) ract" where
  "isKeyInAnyPool P kid = catching (rp_getKeyDetails P kid) (\<lambda>r. ret (\<not> isl r))"

fun usable_keys :: "'s RedisLayeredPool \<Rightarrow> int \<Rightarrow> int \<Rightarrow> PoolKey list \<Rightarrow> nat list \<Rightarrow> ('s, nat list) ract" where
  "usable_keys P now cnt [] acc = ret acc"
| "usable_keys P now cnt (k # ks) acc =
    bindE (isKeyInAnyPool P (ID k)) (\<lambda>present.
      if present then usable_keys P now cnt ks acc
      else if Status k = KeyStatusRateLimited \<and>
              (case RateLimitResetAt k of None \<Rightarrow> False | Some t \<Rightarrow> now < t)
      then usable_keys P now cnt ks acc
      else if int (length (acc @ [ID k])) \<ge> cnt then ret (acc @ [ID k])
      else usable_keys P now cnt ks (acc @ [ID k]))"

definition refillFromDatabase :: "'s RedisLayeredPool \<Rightarrow> int \<Rightarrow> nat \<Rightarrow> int \<Rightarrow> ('s, unit) ract" where
  "refillFromDatabase P now gid cnt =
    bindE (wrap ErrorTypeStorage ''DB_QUERY_FAILED'' (available_keys gid cnt)) (\<lambda>availableKeys.
      if availableKeys = [] then ret ()
      else bindE (usable_keys P now cnt availableKeys []) (\<lambda>usableKeys.
        if usableKeys = [] then ret () else rp_addToValidationPool P gid usableKeys))"

definition refill_ready :: "'s RedisLayeredPool \<Rightarrow> int \<Rightarrow> nat \<Rightarrow> PoolConfig \<Rightarrow> ('s, unit) ract" where
  "refill_ready P now gid config =
    bindE (wrap ErrorTypeStorage ''GET_READY_COUNT_FAILED'' (rp_getPoolSize P gid PoolTypeReady))
      (\<lambda>readyCount.
        let needReadyRefill = MinReadyKeys config - readyCount in
        if needReadyRefill > 0
        then bindE (logged (refillReadyFromValidation P gid needReadyRefill))
               (\<lambda>_. logged (refillFromDatabase P now gid needReadyRefill))
        else ret ())"

definition rp_RefillPools :: "'s RedisLayeredPool \<Rightarrow> int \<Rightarrow> nat \<Rightarrow> ('s, unit) ract" where
  "rp_RefillPools P now gid p =
    (case lp_getGroupConfig gid p of (p0, config) \<Rightarrow>
      bindE (wrap ErrorTypeStorage ''GET_ACTIVE_COUNT_FAILED'' (rp_getPoolSize P gid PoolTypeActive))
        (\<lambda>activeCount.
          let needRefill = MinActiveKeys config - activeCount in
          if needRefill \<le> 0 then ret ()
          else let n = (if needRefill > RefillBatchSize config then RefillBatchSize config
                        else needRefill) in
               bindE (wrap ErrorTypeStorage ''MOVE_TO_ACTIVE_FAILED'' (rp_moveToActivePool P gid (nat n)))
                 (\<lambda>_. refill_ready P now gid config)) p0)"

section \<open>Selection, return, rate limits\<close>

definition rp_select_after_rotate :: "'s RedisLayeredPool \<Rightarrow> nat \<Rightarrow> string \<Rightarrow> ('s, PoolKey) ract" where
  "rp_select_after_rotate P gid t =
    (case ParseUint t of
       (_, Some _) \<Rightarrow> fail (PoolError ErrorTypeInternal ''INVALID_KEY_ID'' None)
     | (kid, None) \<Rightarrow>
         bindE (wrap ErrorTypeStorage ''KEY_DETAILS_FAILED'' (rp_getKeyDetails P kid)) (\<lambda>details.
         rp_buildAPIKeyFromDetails kid gid details))"

definition rp_SelectKey :: "'s RedisLayeredPool \<Rightarrow> int \<Rightarrow> nat \<Rightarrow> ('s, PoolKey) ract" where
  "rp_SelectKey P now gid p =
    (case lp_getGroupConfig gid p of (p0, _) \<Rightarrow>
      catching (on_rstore (StRotate (rpStore P) (rp_getRedisKey P gid PoolTypeActive))) (\<lambda>r.
        case r of
          Inr t \<Rightarrow> rp_select_after_rotate P gid t
        | Inl e \<Rightarrow>
            if e = StoreErr ErrNotFound
            then bindE (wrap ErrorTypeCapacity ''REFILL_FAILED'' (rp_RefillPools P now gid)) (\<lambda>_.
              catching (on_rstore (StRotate (rpStore P) (rp_getRedisKey P gid PoolTypeActive))) (\<lambda>r.
                case r of
                  Inr t \<Rightarrow> rp_select_after_rotate P gid t
                | Inl e \<Rightarrow>
                    if e = StoreErr ErrNotFound then fail ErrPoolEmpty
                    else fail (PoolError ErrorTypeStorage ''SELECT_FAILED'' (Some e))))
            else fail (PoolError ErrorTypeStorage ''SELECT_FAILED'' (Some e))) p0)"

definition rp_updateKeyStats :: "'s RedisLayeredPool \<Rightarrow> int \<Rightarrow> nat \<Rightarrow> bool \<Rightarrow> ('s, unit) ract" where
  "rp_updateKeyStats P now kid success = logged (bindE (rp_getKeyDetails P kid) (\<lambda>details.
     rp_setKeyDetails P kid
       ([(''request_count'', AInt (i64 (fst (ParseInt (field_text details ''request_count'')) + 1))),
         (''last_used_at'', AInt (unix now))] @
        (if success then [(''failure_count'', AInt 0)] else []))))"

definition rp_handleKeyFailure :: "'s RedisLayeredPool \<Rightarrow> nat \<Rightarrow> nat \<Rightarrow> ('s, unit) ract" where
  "rp_handleKeyFailure P kid gid =
    bindE (rp_getKeyDetails P kid) (\<lambda>details.
    let newFailureCount = i64 (fst (ParseInt (field_text details ''failure_count'')) + 1) in
    bindE (wrap ErrorTypeStorage ''GROUP_NOT_FOUND'' (first_group gid)) (\<lambda>blacklistThreshold.
    let blacklist = (blacklistThreshold > 0 \<and> newFailureCount \<ge> blacklistThreshold) in
    bindE (if blacklist then logged (rp_rem P gid PoolTypeActive kid)
           else wrap ErrorTypeStorage ''RETURN_FAILED'' (rp_push P gid PoolTypeActive kid)) (\<lambda>_.
    wrap ErrorTypeStorage ''UPDATE_DETAILS_FAILED'' (rp_setKeyDetails P kid
      ((''failure_count'', AInt newFailureCount) #
       (if blacklist then [(''status'', AStr KeyStatusInvalid)] else []))))))"

definition rp_ReturnKey :: "'s RedisLayeredPool \<Rightarrow> int \<Rightarrow> nat \<Rightarrow> bool \<Rightarrow> ('s, unit) ract" where
  "rp_ReturnKey P now kid success = rp_with_group P kid (\<lambda>details gid.
    if success
    then bindE (wrap ErrorTypeStorage ''RETURN_FAILED'' (rp_push P gid PoolTypeActive kid))
           (\<lambda>_. rp_updateKeyStats P now kid True)
    else rp_handleKeyFailure P kid gid)"

definition rp_HandleRateLimit ::
  "'s RedisLayeredPool \<Rightarrow> int \<Rightarrow> nat \<Rightarrow> int \<Rightarrow> int option \<Rightarrow> ('s, unit) ract" where
  "rp_HandleRateLimit P now kid retryAfter resetAtOpt = rp_with_group P kid (\<lambda>details gid.
    let resetAt = reset_time now retryAfter resetAtOpt in
    bindE (logged (rp_rem P gid PoolTypeActive kid)) (\<lambda>_.
    bindE (wrap ErrorTypeStorage ''COOLING_FAILED'' (rp_addToCoolingPool P gid kid resetAt)) (\<lambda>_.
    wrap ErrorTypeStorage ''UPDATE_DETAILS_FAILED'' (rp_setKeyDetails P kid
      [(''status'', AStr KeyStatusRateLimited),
       (''rate_limit_count'', AInt (incrementRateLimitCount details)),
       (''last_429_at'', AInt (unix now)), (''rate_limit_reset_at'', AInt (unix resetAt))]))))"

section \<open>Moving and recovery\<close>

definition rp_executeAtomicMove ::
  "'s RedisLayeredPool \<Rightarrow> nat \<Rightarrow> nat \<Rightarrow> PoolType \<Rightarrow> PoolType \<Rightarrow> ('s, unit) ract" where
  "rp_executeAtomicMove P kid gid fromPool toPool =
    bindE (wrap ErrorTypeStorage ''REMOVE_FROM_SOURCE_FAILED''
             (rp_removeKeysFromPool P gid [kid] fromPool)) (\<lambda>_.
    catching (rp_addKeysToPool P gid [kid] toPool) (\<lambda>r.
      case r of
        Inr _ \<Rightarrow> ret ()
      | Inl e \<Rightarrow> bindE (logged (rp_addKeysToPool P gid [kid] fromPool)) (\<lambda>_.
          fail (PoolError ErrorTypeStorage ''ADD_TO_TARGET_FAILED'' (Some e)))))"

definition moveCoolingKey ::
  "'s RedisLayeredPool \<Rightarrow> nat \<Rightarrow> nat \<Rightarrow> PoolType \<Rightarrow> PoolType \<Rightarrow> ('s, unit) ract" where
  "moveCoolingKey P kid gid fromPool toPool =
    (if fromPool = PoolTypeCooling
     then bindE (wrap ErrorTypeStorage ''REMOVE_FROM_COOLING_FAILED'' (rp_removeFromCoolingPool P gid [kid])) (\<lambda>_.
          bindE (wrap ErrorTypeStorage ''UPDATE_KEY_STATUS_FAILED'' (rp_setKeyDetails P kid
                   [(''status'', AStr KeyStatusActive), (''rate_limit_reset_at'', ANil)])) (\<lambda>_.
          rp_addKeysToPool P gid [kid] toPool))
     else if toPool = PoolTypeCooling
     then fail (PoolError ErrorTypeValidation ''INVALID_COOLING_MOVE'' None)
     else fail (PoolError ErrorTypeValidation ''INVALID_POOL_COMBINATION'' None))"

definition rp_MoveKey :: "'s RedisLayeredPool \<Rightarrow> nat \<Rightarrow> PoolType \<Rightarrow> PoolType \<Rightarrow> ('s, unit) ract" where
  "rp_MoveKey P kid fromPool toPool = rp_with_group P kid (\<lambda>details gid.
    if fromPool = toPool then fail (PoolError ErrorTypeValidation ''SAME_POOL'' None)
    else if fromPool = PoolTypeCooling \<or> toPool = PoolTypeCooling
    then moveCoolingKey P kid gid fromPool toPool
    else rp_executeAtomicMove P kid gid fromPool toPool)"

definition rp_recoverSingleCooledKey :: "'s RedisLayeredPool \<Rightarrow> nat \<Rightarrow> nat \<Rightarrow> ('s, unit) ract" where
  "rp_recoverSingleCooledKey P gid kid =
    bindE (rp_removeFromCoolingPool P gid [kid]) (\<lambda>_.
    bindE (rp_setKeyDetails P kid [(''status'', AStr KeyStatusActive), (''rate_limit_reset_at'', ANil)])
      (\<lambda>_. rp_addToReadyPool P gid [kid]))"

fun rp_recover_cooled :: "'s RedisLayeredPool \<Rightarrow> nat \<Rightarrow> nat list \<Rightarrow> ('s, int) ract" where
  "rp_recover_cooled P gid [] = ret 0"
| "rp_recover_cooled P gid (kid # kids) =
    catching (rp_recoverSingleCooledKey P gid kid) (\<lambda>r.
    bindE (rp_recover_cooled P gid kids) (\<lambda>n. ret (if isl r then n else n + 1)))"

definition rp_RecoverCooledKeys :: "'s RedisLayeredPool \<Rightarrow> nat \<Rightarrow> ('s, int) ract" where
  "rp_RecoverCooledKeys P gid =
    bindE (wrap ErrorTypeStorage ''GET_EXPIRED_KEYS_FAILED'' (rp_getExpiredFromCoolingPool P gid))
      (\<lambda>expiredKeys. if expiredKeys = [] then ret 0 else rp_recover_cooled P gid expiredKeys)"

section \<open>Status, validation, statistics, maintenance\<close>

datatype pool_key_status = Pending | Validated | InUse | Cooling | Failed

definition key_status_of :: "string \<Rightarrow> pool_key_status" where
  "key_status_of st =
    (if st = KeyStatusActive then InUse else if st = KeyStatusRateLimited then Cooling
     else if st = KeyStatusInvalid then Failed else Pending)"

definition rp_GetKeyStatus :: "'s RedisLayeredPool \<Rightarrow> nat \<Rightarrow> ('s, pool_key_status) ract" where
  "rp_GetKeyStatus P kid = catching (rp_getKeyDetails P kid) (\<lambda>r.
    case r of
      Inl e \<Rightarrow> if e = StoreErr ErrNotFound then ret Failed
               else fail (PoolError ErrorTypeStorage ''GET_KEY_DETAILS_FAILED'' (Some e))
    | Inr details \<Rightarrow> ret (key_status_of (field_text details ''status'')))"

fun validate_loop :: "'s RedisLayeredPool \<Rightarrow> (nat \<Rightarrow> PoolKey \<Rightarrow> bool) \<Rightarrow> nat \<Rightarrow> nat list \<Rightarrow>
    nat list \<Rightarrow> nat list \<Rightarrow> ('s, nat list \<times> nat list) ract" where
  "validate_loop P ValidateKey gid [] validated failed = ret (validated, failed)"
| "validate_loop P ValidateKey gid (kid # kids) validated failed =
    catching (bindE (rp_getKeyDetails P kid) (\<lambda>details. rp_buildAPIKeyFromDetails kid gid details)) (\<lambda>r.
      case r of
        Inl _ \<Rightarrow> validate_loop P ValidateKey gid kids validated (failed @ [kid])
      | Inr apiKey \<Rightarrow>
          if ValidateKey gid apiKey then validate_loop P ValidateKey gid kids (validated @ [kid]) failed
          else validate_loop P ValidateKey gid kids validated (failed @ [kid]))"

definition rp_ValidateKeys :: "'s RedisLayeredPool \<Rightarrow> nat \<Rightarrow> nat list \<Rightarrow> ('s, unit) ract" where
  "rp_ValidateKeys P gid kids =
    (case rpValidator P of
       None \<Rightarrow> fail (PoolError ErrorTypeConfiguration ''NO_VALIDATOR'' None)
     | Some ValidateKey \<Rightarrow>
         bindE (wrap ErrorTypeStorage ''GROUP_NOT_FOUND'' (first_group gid)) (\<lambda>_.
         bindE (validate_loop P ValidateKey gid kids [] []) (\<lambda>(validatedKeys, failedKeys).
         bindE (if validatedKeys = [] then ret () else rp_moveToReadyPool P gid validatedKeys) (\<lambda>_.
         if failedKeys = [] then ret ()
         else logged (rp_removeFromValidationPool P gid failedKeys)))))"

fun rp_pool_counts :: "'s RedisLayeredPool \<Rightarrow> nat \<Rightarrow> PoolType list \<Rightarrow> ('s, (PoolType \<times> int) list) ract" where
  "rp_pool_counts P gid [] = ret []"
| "rp_pool_counts P gid (t # ts) = catching (rp_getPoolSize P gid t) (\<lambda>r.
    case r of
      Inl _ \<Rightarrow> rp_pool_counts P gid ts
    | Inr n \<Rightarrow> bindE (rp_pool_counts P gid ts) (\<lambda>cs. ret ((t, n) # cs)))"

text \<open>One row of the grouped query for each status of the table; a later row replaces an earlier
  one of the same pool status.\<close>

definition status_rows :: "nat \<Rightarrow> PoolKey list \<Rightarrow> (string \<times> int) list" where
  "status_rows gid rows =
    (let sts = map Status (filter (\<lambda>k. GroupID k = gid) rows) in
     map (\<lambda>st. (st, int (count_list sts st))) (remdups sts))"

definition collectKeyStatusStats :: "nat \<Rightarrow> ('z pool_db_scheme, (pool_key_status, int) gomap) act" where
  "collectKeyStatusStats gid = bindE (on_db (\<lambda>p. Inr (status_rows gid (ldb p))))
     (\<lambda>rows. ret (fold (\<lambda>(st, n) m. gput (key_status_of st) n m) rows []))"

record PoolStats =
  psTotalKeys :: int
  psPoolCounts :: "(PoolType \<times> int) list"
  psStatusCounts :: "(pool_key_status, int) gomap"

fun status_text :: "pool_key_status \<Rightarrow> string" where
  "status_text Pending = ''pending''"
| "status_text Validated = ''validated''"
| "status_text InUse = ''in_use''"
| "status_text Cooling = ''cooling''"
| "status_text Failed = ''failed''"

text \<open>The fields of the metrics component, when there is one, are an argument.\<close>

definition updatePoolStatsInRedis ::
  "'s RedisLayeredPool \<Rightarrow> (string \<times> goany) list \<Rightarrow> int \<Rightarrow> nat \<Rightarrow> PoolStats \<Rightarrow> ('s, unit) ract" where
  "updatePoolStatsInRedis P perf now gid stats = updatePoolStats P gid
     ([(''total_keys'', AInt (psTotalKeys stats)), (''last_updated'', AInt (unix now))] @
      map (\<lambda>(t, n). (''pool_'' @ pool_text t, AInt n)) (psPoolCounts stats) @
      map (\<lambda>(st, n). (''status_'' @ status_text st, AInt n)) (psStatusCounts stats) @ perf)"

definition rp_GetPoolStats ::
  "'s RedisLayeredPool \<Rightarrow> (string \<times> goany) list \<Rightarrow> int \<Rightarrow> nat \<Rightarrow> ('s, PoolStats) ract" where
  "rp_GetPoolStats P perf now gid =
    bindE (rp_pool_counts P gid all_pools) (\<lambda>cs.
    catching (collectKeyStatusStats gid) (\<lambda>r.
    let stats = \<lparr>psTotalKeys = sum_list (map snd cs), psPoolCounts = cs,
                 psStatusCounts = (case r of Inl _ \<Rightarrow> [] | Inr m \<Rightarrow> m)\<rparr> in
    bindE (logged (updatePoolStatsInRedis P perf now gid stats)) (\<lambda>_. ret stats)))"

definition rp_performMaintenance :: "'s RedisLayeredPool \<Rightarrow> int \<Rightarrow> ('s, unit) ract" where
  "rp_performMaintenance P now =
    logged (bindE (on_db (\<lambda>p. Inr (lgroups p))) (\<lambda>groups.
      for_each (\<lambda>gid. bindE (logged (rp_RecoverCooledKeys P gid))
                       (\<lambda>_. logged (rp_RefillPools P now gid))) groups))"

end
