(* ===== verification/PoolStore.thy ===== *)
theory PoolStore
  imports RedisPool
begin

text \<open>What the layered pool of src/internal/keypool/redis_pool.go relies on in its store, as the
  locale \<^verbatim>\<open>pool_store\<close>: the documented effect of the commands it calls on a server that
  answers, for keys of the right type. A command on a missing key behaves as on an empty value,
  and a value that becomes empty may or may not keep its key, which is where a Redis server and
  the in-memory stores differ. Both in-memory stores satisfy the contract.\<close>

section \<open>The contract\<close>

definition list_of :: "aval option \<Rightarrow> string list option" where
  "list_of x = (case x of None \<Rightarrow> Some [] | Some (VList l) \<Rightarrow> Some l | _ \<Rightarrow> None)"

definition set_of :: "aval option \<Rightarrow> string set option" where
  "set_of x = (case x of None \<Rightarrow> Some {} | Some (VSet S) \<Rightarrow> Some S | _ \<Rightarrow> None)"

definition hash_of :: "aval option \<Rightarrow> (string \<Rightarrow> string option) option" where
  "hash_of x = (case x of None \<Rightarrow> Some Map.empty | Some (VHash h) \<Rightarrow> Some h | _ \<Rightarrow> None)"

definition zset_of :: "aval option \<Rightarrow> (string \<Rightarrow> int option) option" where
  "zset_of x = (case x of None \<Rightarrow> Some Map.empty | Some (VZSet z) \<Rightarrow> Some z | _ \<Rightarrow> None)"

definition only_at :: "string \<Rightarrow> astore \<Rightarrow> astore \<Rightarrow> bool" where
  "only_at k A A' \<longleftrightarrow> (\<forall>k'. k' \<noteq> k \<longrightarrow> A' k' = A k')"

definition hash_put_by :: "(goany \<Rightarrow> string) \<Rightarrow> (string \<times> goany) list \<Rightarrow> (string \<Rightarrow> string option) \<Rightarrow>
    string \<Rightarrow> string option" where
  "hash_put_by text_of vs h = fold (\<lambda>(f, v) h. h(f \<mapsto> text_of v)) vs h"

text \<open>A pipeline runs its commands one after the other; its error is that of the first command
  that failed.\<close>

fun run_cmd :: "'s Store \<Rightarrow> pipe_cmd \<Rightarrow> 's \<Rightarrow> 's \<times> unit sres" where
  "run_cmd S (PipeLPush k vs) = StLPush S k vs"
| "run_cmd S (PipeLRem k c v) = StLRem S k c v"
| "run_cmd S (PipeSAdd k vs) = StSAdd S k vs"
| "run_cmd S (PipeSRem k vs) = StSRem S k vs"
| "run_cmd S (PipeZAdd k zs) = StZAdd S k zs"

fun run_pipe :: "'s Store \<Rightarrow> pipe_cmd list \<Rightarrow> 's \<Rightarrow> 's \<times> unit sres" where
  "run_pipe S [] s = (s, Inr ())"
| "run_pipe S (c # cs) s =
    (case run_cmd S c s of (s1, r) \<Rightarrow>
      case run_pipe S cs s1 of (s2, r') \<Rightarrow> (s2, case r of Inl e \<Rightarrow> Inl e | Inr _ \<Rightarrow> r'))"

locale pool_store =
  fixes S :: "'s Store"
    and inv :: "'s \<Rightarrow> bool"
    and obs :: "'s \<Rightarrow> astore"
    and text_of :: "goany \<Rightarrow> string"
  assumes text_uint: "text_of (AUint n) = show_nat n"
    and text_int: "text_of (AInt i) = show_int i"
    and text_str: "text_of (AStr t) = t"
    and text_nil: "snd (ParseInt (text_of ANil)) \<noteq> None"
    and lpush: "inv s \<Longrightarrow> list_of (obs s k) = Some l \<Longrightarrow> \<exists>s'. StLPush S k [x] s = (s', Inr ()) \<and>
      inv s' \<and> list_of (obs s' k) = Some (text_of x # l) \<and> only_at k (obs s) (obs s')"
    and lrem: "inv s \<Longrightarrow> list_of (obs s k) = Some l \<Longrightarrow> \<exists>s'. StLRem S k 0 x s = (s', Inr ()) \<and>
      inv s' \<and> list_of (obs s' k) = Some (removeAll (text_of x) l) \<and> only_at k (obs s) (obs s')"
    and rotate: "inv s \<Longrightarrow> list_of (obs s k) = Some (l @ [t]) \<Longrightarrow> \<exists>s'. StRotate S k s = (s', Inr t) \<and>
      inv s' \<and> list_of (obs s' k) = Some (t # l) \<and> only_at k (obs s) (obs s')"
    and rotate_empty: "inv s \<Longrightarrow> list_of (obs s k) = Some [] \<Longrightarrow>
      \<exists>s'. StRotate S k s = (s', Inl ErrNotFound) \<and> inv s' \<and> obs s' = obs s"
    and hset: "inv s \<Longrightarrow> hash_of (obs s k) = Some h \<Longrightarrow> \<exists>s'. StHSet S k vs s = (s', Inr ()) \<and>
      inv s' \<and> hash_of (obs s' k) = Some (hash_put_by text_of vs h) \<and> only_at k (obs s) (obs s')"
    and hgetall: "inv s \<Longrightarrow> hash_of (obs s k) = Some h \<Longrightarrow>
      \<exists>s' m. StHGetAll S k s = (s', Inr m) \<and> inv s' \<and> obs s' = obs s \<and> gget m = h"
    and sadd: "inv s \<Longrightarrow> set_of (obs s k) = Some X \<Longrightarrow> \<exists>s'. StSAdd S k xs s = (s', Inr ()) \<and>
      inv s' \<and> set_of (obs s' k) = Some (X \<union> text_of ` set xs) \<and> only_at k (obs s) (obs s')"
    and srem: "inv s \<Longrightarrow> set_of (obs s k) = Some X \<Longrightarrow> \<exists>s'. StSRem S k xs s = (s', Inr ()) \<and>
      inv s' \<and> set_of (obs s' k) = Some (X - text_of ` set xs) \<and> only_at k (obs s) (obs s')"
    and smembers: "inv s \<Longrightarrow> set_of (obs s k) = Some X \<Longrightarrow> \<exists>s' ms. StSMembers S k s = (s', Inr ms) \<and>
      inv s' \<and> obs s' = obs s \<and> set ms = X"
    and zcard: "inv s \<Longrightarrow> zset_of (obs s k) = Some z \<Longrightarrow>
      \<exists>s'. StZCard S k s = (s', Inr (int (card (dom z)))) \<and> inv s' \<and> obs s' = obs s"
    and set_plain: "inv s \<Longrightarrow> \<exists>s'. StSet S k v 0 s = (s', Inr ()) \<and>
      inv s' \<and> obs s' k = Some (VItem v 0) \<and> only_at k (obs s) (obs s')"
    and delete: "inv s \<Longrightarrow> \<exists>s'. StDelete S k s = (s', Inr ()) \<and>
      inv s' \<and> obs s' k = None \<and> only_at k (obs s) (obs s')"
    and pipeline: "StPipeline S = Some exec \<Longrightarrow> exec = run_pipe S"

section \<open>The in-memory stores satisfy it\<close>

lemma hash_put_by_Sprint: "hash_put_by Sprint = hash_upd"
  by (simp add: hash_put_by_def hash_upd_def fun_eq_iff)

lemma kinds:
  "list_of x = Some l \<Longrightarrow> (x = None \<and> l = []) \<or> x = Some (VList l)"
  "set_of x = Some X \<Longrightarrow> (x = None \<and> X = {}) \<or> x = Some (VSet X)"
  "hash_of x = Some h \<Longrightarrow> (x = None \<and> h = Map.empty) \<or> x = Some (VHash h)"
  "zset_of x = Some z \<Longrightarrow> (x = None \<and> z = Map.empty) \<or> x = Some (VZSet z)"
  by (auto simp: list_of_def set_of_def hash_of_def zset_of_def split: option.splits aval.splits)

lemma kind_values [simp]:
  "list_of None = Some []" "list_of (Some (VList l)) = Some l"
  "set_of None = Some {}" "set_of (Some (VSet X)) = Some X"
  "hash_of None = Some Map.empty" "hash_of (Some (VHash h)) = Some h"
  "zset_of None = Some Map.empty" "zset_of (Some (VZSet z)) = Some z"
  by (simp_all add: list_of_def set_of_def hash_of_def zset_of_def)

lemma only_at_upd [simp]: "only_at k A (A(k := v))" "only_at k A A"
  by (simp_all add: only_at_def)

lemma nil_not_int: "ParseInt ''<nil>'' = (0, Some SyntaxError)"
  by code_simp

context store_impl
begin

lemma contract:
  assumes Set: "\<And>k v s. inv s \<Longrightarrow>
      \<exists>s'. Set k v 0 s = (s', Inr ()) \<and> inv s' \<and> abs s' = (abs s)(k \<mapsto> VItem v 0)"
    and so: "iter_order so"
  shows "pool_store \<lparr>StSet = Set, StDelete = Delete, StHSet = HSet, StHGetAll = HGetAll,
    StLPush = LPush, StLRem = LRem, StRotate = Rotate, StSAdd = SAdd, StSRem = SRem,
    StSMembers = SMembers so, StZAdd = ZAdd, StZCard = ZCard, StPipeline = None\<rparr> inv abs Sprint"
proof (unfold_locales, simp_all)
  fix s k
  assume i: "inv s"
  show "\<exists>s'. LPush k [x] s = (s', Inr ()) \<and> inv s' \<and> list_of (abs s' k) = Some (Sprint x # l) \<and>
      only_at k (abs s) (abs s')" if "list_of (abs s k) = Some l" for l x
  proof (cases "LPush k [x] s")
    case (Pair s' r)
    then show ?thesis
      using sim_LPush [OF i Pair] kinds(1) [OF that] by (auto simp: spec_LPush_def dest!: sym [where t = "abs s'"])
  qed
  show "\<exists>s'. LRem k 0 x s = (s', Inr ()) \<and> inv s' \<and>
      list_of (abs s' k) = Some (removeAll (Sprint x) l) \<and> only_at k (abs s) (abs s')"
    if "list_of (abs s k) = Some l" for l x
  proof (cases "LRem k 0 x s")
    case (Pair s' r)
    then show ?thesis
      using sim_LRem [OF i Pair] kinds(1) [OF that] by (auto simp: spec_LRem_def dest!: sym [where t = "abs s'"])
  qed
  show "\<exists>s'. Rotate k s = (s', Inr t) \<and> inv s' \<and> list_of (abs s' k) = Some (t # l) \<and>
      only_at k (abs s) (abs s')" if "list_of (abs s k) = Some (l @ [t])" for l t
    using Rotate_list [OF i, of k l t] kinds(1) [OF that] by auto
  show "\<exists>s'. Rotate k s = (s', Inl ErrNotFound) \<and> inv s' \<and> abs s' = abs s"
    if "list_of (abs s k) = Some []"
  proof (cases "Rotate k s")
    case (Pair s' r)
    then show ?thesis
      using sim_Rotate [OF i Pair] kinds(1) [OF that] by (auto simp: spec_Rotate_def dest!: sym [where t = "abs s'"])
  qed
  show "\<exists>s'. HSet k vs s = (s', Inr ()) \<and> inv s' \<and>
      hash_of (abs s' k) = Some (hash_put_by Sprint vs h) \<and> only_at k (abs s) (abs s')"
    if "hash_of (abs s k) = Some h" for h vs
  proof (cases "HSet k vs s")
    case (Pair s' r)
    then show ?thesis
      using sim_HSet [OF i Pair] kinds(3) [OF that] by (auto simp: spec_HSet_def hash_put_by_Sprint dest!: sym [where t = "abs s'"])
  qed
  show "\<exists>s' m. HGetAll k s = (s', Inr m) \<and> inv s' \<and> abs s' = abs s \<and> gget m = h"
    if "hash_of (abs s k) = Some h" for h
  proof (cases "HGetAll k s")
    case (Pair s' r)
    then show ?thesis
      using sim_HGetAll [OF i Pair] kinds(3) [OF that]
      by (cases r) (auto simp: spec_HGetAll_def)
  qed
  show "\<exists>s'. SAdd k xs s = (s', Inr ()) \<and> inv s' \<and> set_of (abs s' k) = Some (X \<union> Sprint ` set xs) \<and>
      only_at k (abs s) (abs s')" if "set_of (abs s k) = Some X" for X xs
  proof (cases "SAdd k xs s")
    case (Pair s' r)
    then show ?thesis
      using sim_SAdd [OF i Pair] kinds(2) [OF that] by (auto simp: spec_SAdd_def dest!: sym [where t = "abs s'"])
  qed
  show "\<exists>s'. SRem k xs s = (s', Inr ()) \<and> inv s' \<and> set_of (abs s' k) = Some (X - Sprint ` set xs) \<and>
      only_at k (abs s) (abs s')" if "set_of (abs s k) = Some X" for X xs
  proof (cases "SRem k xs s")
    case (Pair s' r)
    then show ?thesis
      using sim_SRem [OF i Pair] kinds(2) [OF that] by (auto simp: spec_SRem_def dest!: sym [where t = "abs s'"])
  qed
  show "\<exists>s' ms. SMembers so k s = (s', Inr ms) \<and> inv s' \<and> abs s' = abs s \<and> set ms = X"
    if "set_of (abs s k) = Some X" for X
  proof (cases "SMembers so k s")
    case (Pair s' r)
    then show ?thesis
      using sim_SMembers [OF i so Pair] kinds(2) [OF that]
      by (cases r) (auto simp: spec_SMembers_def)
  qed
  show "\<exists>s'. ZCard k s = (s', Inr (int (card (dom z)))) \<and> inv s' \<and> abs s' = abs s"
    if "zset_of (abs s k) = Some z" for z
  proof (cases "ZCard k s")
    case (Pair s' r)
    then show ?thesis
      using sim_ZCard [OF i Pair] kinds(4) [OF that] by (auto simp: spec_ZCard_def)
  qed
  show "\<exists>s'. Set k v 0 s = (s', Inr ()) \<and> inv s' \<and> abs s' k = Some (VItem v 0) \<and>
      only_at k (abs s) (abs s')" for v
    using Set [OF i, of k v] by auto
  show "\<exists>s'. Delete k s = (s', Inr ()) \<and> inv s' \<and> abs s' k = None \<and> only_at k (abs s) (abs s')"
    using Delete_key [OF i, of k] by (auto simp: only_at_def)
qed (simp add: nil_not_int)

end

definition mem_ops :: "string iter \<Rightarrow> int \<Rightarrow> mstore Store" where
  "mem_ops so now = \<lparr>StSet = mem_Set now, StDelete = mem_Delete, StHSet = mem_HSet,
     StHGetAll = mem_HGetAll, StLPush = mem_LPush, StLRem = mem_LRem, StRotate = mem_Rotate,
     StSAdd = mem_SAdd, StSRem = mem_SRem, StSMembers = mem_SMembers so, StZAdd = mem_ZAdd,
     StZCard = mem_ZCard, StPipeline = None\<rparr>"

definition sharded_ops :: "string iter \<Rightarrow> int \<Rightarrow> sstore Store" where
  "sharded_ops so now = \<lparr>StSet = sh_Set now, StDelete = sh_Delete, StHSet = sh_HSet,
     StHGetAll = sh_HGetAll, StLPush = sh_LPush, StLRem = sh_LRem, StRotate = sh_Rotate,
     StSAdd = sh_SAdd, StSRem = sh_SRem, StSMembers = sh_SMembers so, StZAdd = sh_ZAdd,
     StZCard = sh_ZCard, StPipeline = None\<rparr>"

lemma mem_Set_plain: "mem_inv s \<Longrightarrow> \<exists>s'. mem_Set now k v 0 s = (s', Inr ()) \<and> mem_inv s' \<and>
    mem_abs s' = (mem_abs s)(k \<mapsto> VItem v 0)"
  by (simp add: mem_Set_def expiry_def)

lemma sh_Set_plain: "sh_inv s \<Longrightarrow> \<exists>s'. sh_Set now k v 0 s = (s', Inr ()) \<and> sh_inv s' \<and>
    sh_abs s' = (sh_abs s)(k \<mapsto> VItem v 0)"
  using flat_Set [of s now k v 0] mem_Set_plain [OF flat_mem_inv, of s now k v]
  by (cases "sh_Set now k v 0 s") (auto simp: sh_abs_def)

lemma mem_ops_contract: "iter_order so \<Longrightarrow> pool_store (mem_ops so now) mem_inv mem_abs Sprint"
  unfolding mem_ops_def by (rule mem.contract, rule mem_Set_plain)

lemma sharded_ops_contract: "iter_order so \<Longrightarrow> pool_store (sharded_ops so now) sh_inv sh_abs Sprint"
  unfolding sharded_ops_def by (rule sharded.contract, rule sh_Set_plain)

interpretation mem_pool: pool_store "mem_ops id now" mem_inv mem_abs Sprint for now
  by (rule mem_ops_contract) simp

interpretation sharded_pool: pool_store "sharded_ops id now" sh_inv sh_abs Sprint for now
  by (rule sharded_ops_contract) simp

end
