(* ===== verification/RedisRules.thy ===== *)
theory RedisRules
  imports PoolStore LayeredProps
begin

text \<open>The pools of the layered pool over an interface store as mathematical values, and one rule
  of the pool logic for each of its store calls, for any store that keeps the contract
  \<^verbatim>\<open>pool_store\<close>.\<close>

section \<open>Names\<close>

lemma rp_key_inj: "known t \<Longrightarrow> known t' \<Longrightarrow>
    rp_getRedisKey P g t = rp_getRedisKey P g' t' \<longleftrightarrow> g = g' \<and> t = t'"
  using getRedisKey_inj [of t t' g g'] by (simp add: rp_getRedisKey_def getRedisKey_def)

lemma rp_details_inj [simp]: "rp_getKeyDetailsKey P k = rp_getKeyDetailsKey P k' \<longleftrightarrow> k = k'"
  using show_nat_inj by (auto simp: rp_getKeyDetailsKey_def)

lemma cooling_entry_inj [simp]: "cooling_entry P g k = cooling_entry P g' k' \<longleftrightarrow> g = g' \<and> k = k'"
proof
  assume "cooling_entry P g k = cooling_entry P g' k'"
  then have e: "show_nat g @ CHR '':'' # ''cooling:'' @ show_nat k =
      show_nat g' @ CHR '':'' # ''cooling:'' @ show_nat k'"
    by (simp add: cooling_entry_def rp_getRedisKey_def)
  have "show_nat g = show_nat g'" "show_nat k = show_nat k'"
    using digits_colon [OF _ _ e] show_nat_digits by auto
  then show "g = g' \<and> k = k'" using show_nat_inj by blast
qed simp

lemma cooling_entry_key: "known t \<Longrightarrow> cooling_entry P g k \<noteq> rp_getRedisKey P g' t"
proof
  assume t: "known t" and "cooling_entry P g k = rp_getRedisKey P g' t"
  then have e: "show_nat g @ CHR '':'' # ''cooling:'' @ show_nat k =
      show_nat g' @ CHR '':'' # pool_text t"
    by (simp add: cooling_entry_def rp_getRedisKey_def)
  have "''cooling:'' @ show_nat k = pool_text t"
    using digits_colon [OF _ _ e] show_nat_digits by blast
  then show False using t by (cases t) auto
qed

lemma rp_names [simp]:
  "rp_getRedisKey P g t \<noteq> rp_getKeyDetailsKey P k" "rp_getKeyDetailsKey P k \<noteq> rp_getRedisKey P g t"
  "rp_getRedisKey P g t \<noteq> rp_getStatsKey P g'" "rp_getStatsKey P g' \<noteq> rp_getRedisKey P g t"
  "rp_getKeyDetailsKey P k \<noteq> rp_getStatsKey P g" "rp_getStatsKey P g \<noteq> rp_getKeyDetailsKey P k"
  "cooling_entry P g k \<noteq> rp_getKeyDetailsKey P k'" "rp_getKeyDetailsKey P k' \<noteq> cooling_entry P g k"
  "cooling_entry P g k \<noteq> rp_getStatsKey P g'" "rp_getStatsKey P g' \<noteq> cooling_entry P g k"
  by (simp_all add: rp_getRedisKey_def rp_getKeyDetailsKey_def rp_getStatsKey_def cooling_entry_def)

lemmas rp_names_known = rp_key_inj cooling_entry_key cooling_entry_key [THEN not_sym]

section \<open>The pools\<close>

text \<open>Beside the four pools, the entry that holds the reset time of a cooling key.\<close>

record rpools = pools +
  cooling_at :: "nat \<times> nat \<Rightarrow> aval option"

definition rp_aview :: "'s RedisLayeredPool \<Rightarrow> astore \<Rightarrow> rpools" where
  "rp_aview P A = \<lparr>vals = (\<lambda>g. the (set_of (A (rp_getRedisKey P g PoolTypeValidation)))),
     lists = (\<lambda>(g, t). if list_pool t then the (list_of (A (rp_getRedisKey P g t))) else []),
     cools = (\<lambda>g. the (zset_of (A (rp_getRedisKey P g PoolTypeCooling)))),
     infos = (\<lambda>k. the (hash_of (A (rp_getKeyDetailsKey P k)))),
     cooling_at = (\<lambda>(g, k). A (cooling_entry P g k))\<rparr>"

definition rp_typed :: "'s RedisLayeredPool \<Rightarrow> astore \<Rightarrow> bool" where
  "rp_typed P A \<longleftrightarrow>
     (\<forall>g. set_of (A (rp_getRedisKey P g PoolTypeValidation)) \<noteq> None) \<and>
     (\<forall>g t. list_pool t \<longrightarrow> list_of (A (rp_getRedisKey P g t)) \<noteq> None) \<and>
     (\<forall>g. zset_of (A (rp_getRedisKey P g PoolTypeCooling)) \<noteq> None) \<and>
     (\<forall>k. hash_of (A (rp_getKeyDetailsKey P k)) \<noteq> None) \<and>
     (\<forall>g. hash_of (A (rp_getStatsKey P g)) \<noteq> None)"

lemma rp_typed_at:
  assumes "rp_typed P A"
  shows "set_of (A (rp_getRedisKey P g PoolTypeValidation)) = Some (vals (rp_aview P A) g)"
    "list_pool t \<Longrightarrow> list_of (A (rp_getRedisKey P g t)) = Some (lists (rp_aview P A) (g, t))"
    "zset_of (A (rp_getRedisKey P g PoolTypeCooling)) = Some (cools (rp_aview P A) g)"
    "hash_of (A (rp_getKeyDetailsKey P k)) = Some (infos (rp_aview P A) k)"
    "\<exists>h. hash_of (A (rp_getStatsKey P g)) = Some h"
  using assms unfolding rp_typed_def rp_aview_def by auto

lemma rp_view_eqI:
  assumes "vals v = vals w" "lists v = lists w" "cools v = cools w" "infos v = infos w"
    "cooling_at v = cooling_at (w :: rpools)"
  shows "v = w"
  using assms by simp

text \<open>The effect of a call that changes one entry.\<close>

lemma only_atE:
  assumes "only_at k A A'"
  obtains x where "A' = A(k := x)" "A' k = x"
proof -
  have "A' = A(k := A' k)" using assms by (auto simp: only_at_def)
  then show thesis using that by blast
qed

lemma rp_upd_list:
  assumes "rp_typed P A" "list_pool t" "only_at (rp_getRedisKey P g t) A A'"
    "list_of (A' (rp_getRedisKey P g t)) = Some l"
  shows "rp_typed P A' \<and> rp_aview P A' = put_list (rp_aview P A) g t l"
proof -
  obtain x where "A' = A(rp_getRedisKey P g t := x)" "list_of x = Some l"
    using assms(3,4) by (auto elim: only_atE)
  then show ?thesis
    using assms(1,2) unfolding rp_typed_def
    by (intro conjI rp_view_eqI) (auto simp: rp_aview_def put_list_def fun_eq_iff rp_names_known)
qed

lemma rp_upd_vals:
  assumes "rp_typed P A" "only_at (rp_getRedisKey P g PoolTypeValidation) A A'"
    "set_of (A' (rp_getRedisKey P g PoolTypeValidation)) = Some X"
  shows "rp_typed P A' \<and> rp_aview P A' = (rp_aview P A)\<lparr>vals := (vals (rp_aview P A))(g := X)\<rparr>"
proof -
  obtain x where "A' = A(rp_getRedisKey P g PoolTypeValidation := x)" "set_of x = Some X"
    using assms(2,3) by (auto elim: only_atE)
  then show ?thesis
    using assms(1) unfolding rp_typed_def
    by (intro conjI rp_view_eqI) (auto simp: rp_aview_def fun_eq_iff rp_names_known)
qed

lemma rp_upd_info:
  assumes "rp_typed P A" "only_at (rp_getKeyDetailsKey P k) A A'"
    "hash_of (A' (rp_getKeyDetailsKey P k)) = Some h"
  shows "rp_typed P A' \<and> rp_aview P A' = (rp_aview P A)\<lparr>infos := (infos (rp_aview P A))(k := h)\<rparr>"
proof -
  obtain x where "A' = A(rp_getKeyDetailsKey P k := x)" "hash_of x = Some h"
    using assms(2,3) by (auto elim: only_atE)
  then show ?thesis
    using assms(1) unfolding rp_typed_def
    by (intro conjI rp_view_eqI) (auto simp: rp_aview_def fun_eq_iff rp_names_known)
qed

lemma rp_upd_stats:
  assumes "rp_typed P A" "only_at (rp_getStatsKey P g) A A'"
    "hash_of (A' (rp_getStatsKey P g)) = Some h"
  shows "rp_typed P A' \<and> rp_aview P A' = rp_aview P A"
proof -
  obtain x where "A' = A(rp_getStatsKey P g := x)" "hash_of x = Some h"
    using assms(2,3) by (auto elim: only_atE)
  then show ?thesis
    using assms(1) unfolding rp_typed_def
    by (intro conjI rp_view_eqI) (auto simp: rp_aview_def fun_eq_iff rp_names_known)
qed

lemma rp_upd_cooling:
  assumes "rp_typed P A" "only_at (cooling_entry P g k) A A'" "A' (cooling_entry P g k) = x"
  shows "rp_typed P A' \<and> rp_aview P A' =
    (rp_aview P A)\<lparr>cooling_at := (cooling_at (rp_aview P A))((g, k) := x)\<rparr>"
proof -
  obtain y where "A' = A(cooling_entry P g k := y)" "y = x"
    using assms(2,3) by (auto elim: only_atE)
  then show ?thesis
    using assms(1) unfolding rp_typed_def
    by (intro conjI rp_view_eqI) (auto simp: rp_aview_def fun_eq_iff rp_names_known)
qed

section \<open>The rules\<close>

locale redis_pool = pool_store "rpStore P" inv obs text_of
  for P :: "'s RedisLayeredPool" and inv :: "'s \<Rightarrow> bool" and obs :: "'s \<Rightarrow> astore"
    and text_of :: "goany \<Rightarrow> string"
begin

abbreviation rview :: "'s rp \<Rightarrow> rpools" where
  "rview p \<equiv> rp_aview P (obs (rstore p))"

abbreviation rgood :: "'s rp \<Rightarrow> bool" where
  "rgood p \<equiv> inv (rstore p) \<and> rp_typed P (obs (rstore p))"

end

sublocale redis_pool < rp: pool_db_logic rgood rview
  by unfold_locales (auto intro: frame_trans)

context redis_pool
begin

lemma frame_rstore [simp]: "frame p (p\<lparr>rstore := s\<rparr>)"
  by (simp add: frame_def cfg_def fun_eq_iff)

lemma rstore_rule:
  assumes "\<exists>s' x. f (rstore p) = (s', Inr x) \<and> inv s' \<and> rp_typed P (obs s') \<and> rp_aview P (obs s') = w \<and> Q x"
  shows "rp.always (on_rstore f) p Q w"
  using assms by (auto simp: rp.always_def rp.sat_def on_rstore_def)

lemma push_always: "rgood p \<Longrightarrow> list_pool t \<Longrightarrow>
    rp.always (rp_push P g t k) p (\<lambda>_. True)
      (put_list (rview p) g t (show_nat k # lists (rview p) (g, t)))"
  unfolding rp_push_def
  using lpush [of "rstore p" "rp_getRedisKey P g t" _ "AUint k"] rp_typed_at(2) [of P _ t g]
  by (intro rstore_rule) (fastforce simp: text_uint dest: rp_upd_list)

lemma rem_always: "rgood p \<Longrightarrow> list_pool t \<Longrightarrow>
    rp.always (rp_rem P g t k) p (\<lambda>_. True)
      (put_list (rview p) g t (removeAll (show_nat k) (lists (rview p) (g, t))))"
  unfolding rp_rem_def
  using lrem [of "rstore p" "rp_getRedisKey P g t" _ "AUint k"] rp_typed_at(2) [of P _ t g]
  by (intro rstore_rule) (fastforce simp: text_uint dest: rp_upd_list)

lemma details_always: "rgood p \<Longrightarrow>
    rp.always (rp_getKeyDetails P k) p (\<lambda>h. gget h = infos (rview p) k) (rview p)"
  unfolding rp_getKeyDetails_def
  using hgetall [of "rstore p" "rp_getKeyDetailsKey P k"] rp_typed_at(4) [of P _ k]
  by (intro rstore_rule) fastforce

lemma set_details_always: "rgood p \<Longrightarrow>
    rp.always (rp_setKeyDetails P k vs) p (\<lambda>_. True)
      ((rview p)\<lparr>infos := (infos (rview p))(k := hash_put_by text_of vs (infos (rview p) k))\<rparr>)"
  unfolding rp_setKeyDetails_def
  using hset [of "rstore p" "rp_getKeyDetailsKey P k" _ vs] rp_typed_at(4) [of P _ k]
  by (intro rstore_rule) (fastforce dest: rp_upd_info)

lemma stats_always: "rgood p \<Longrightarrow> rp.always (updatePoolStats P g vs) p (\<lambda>_. True) (rview p)"
  unfolding updatePoolStats_def
  using hset [of "rstore p" "rp_getStatsKey P g" _ vs] rp_typed_at(5) [of P "obs (rstore p)" g]
  by (intro rstore_rule) (fastforce dest: rp_upd_stats)

lemma add_validation_always: "rgood p \<Longrightarrow>
    rp.always (rp_addToValidationPool P g ks) p (\<lambda>_. True)
      ((rview p)\<lparr>vals := (vals (rview p))(g := vals (rview p) g \<union> show_nat ` set ks)\<rparr>)"
proof (cases "ks = []")
  case True
  then show "rgood p \<Longrightarrow> ?thesis"
    by (simp add: rp_addToValidationPool_def rp.always_ret_rule fun_upd_idem)
next
  case False
  assume g: "rgood p"
  have "text_of ` set (map AUint ks) = show_nat ` set ks" by (simp add: image_image text_uint)
  then show ?thesis
    using g sadd [of "rstore p" "rp_getRedisKey P g PoolTypeValidation" _ "map AUint ks"]
      rp_typed_at(1) [of P _ g]
    unfolding rp_addToValidationPool_def if_not_P [OF False]
    by (intro rstore_rule) (fastforce dest: rp_upd_vals)
qed

lemma remove_validation_always: "rgood p \<Longrightarrow>
    rp.always (rp_removeFromValidationPool P g ks) p (\<lambda>_. True)
      ((rview p)\<lparr>vals := (vals (rview p))(g := vals (rview p) g - show_nat ` set ks)\<rparr>)"
proof -
  assume g: "rgood p"
  have "text_of ` set (map AUint ks) = show_nat ` set ks" by (simp add: image_image text_uint)
  then show ?thesis
    using g srem [of "rstore p" "rp_getRedisKey P g PoolTypeValidation" _ "map AUint ks"]
      rp_typed_at(1) [of P _ g]
    unfolding rp_removeFromValidationPool_def by (intro rstore_rule) (fastforce dest: rp_upd_vals)
qed

lemma members_always: "rgood p \<Longrightarrow>
    rp.always (on_rstore (StSMembers (rpStore P) (rp_getRedisKey P g PoolTypeValidation))) p
      (\<lambda>ms. set ms = vals (rview p) g) (rview p)"
  using smembers [of "rstore p" "rp_getRedisKey P g PoolTypeValidation"] rp_typed_at(1) [of P _ g]
  by (intro rstore_rule) fastforce

lemma zcard_always: "rgood p \<Longrightarrow>
    rp.always (on_rstore (StZCard (rpStore P) (rp_getRedisKey P g PoolTypeCooling))) p
      (\<lambda>n. n = int (card (dom (cools (rview p) g)))) (rview p)"
  using zcard [of "rstore p" "rp_getRedisKey P g PoolTypeCooling"] rp_typed_at(3) [of P _ g]
  by (intro rstore_rule) fastforce

lemma cool_always: "rgood p \<Longrightarrow>
    rp.always (rp_addToCoolingPool P g k t) p (\<lambda>_. True)
      ((rview p)\<lparr>cooling_at := (cooling_at (rview p))((g, k) := Some (VItem (show_int (unix t)) 0))\<rparr>)"
  unfolding rp_addToCoolingPool_def
  using set_plain [of "rstore p" "cooling_entry P g k"]
  by (intro rstore_rule) (fastforce dest: rp_upd_cooling)

lemma uncool_always: "rgood p \<Longrightarrow>
    rp.always (on_rstore (StDelete (rpStore P) (cooling_entry P g k))) p (\<lambda>_. True)
      ((rview p)\<lparr>cooling_at := (cooling_at (rview p))((g, k) := None)\<rparr>)"
  using delete [of "rstore p" "cooling_entry P g k"]
  by (intro rstore_rule) (fastforce dest: rp_upd_cooling)

lemma delete_details_always: "rgood p \<Longrightarrow>
    rp.always (on_rstore (StDelete (rpStore P) (rp_getKeyDetailsKey P k))) p (\<lambda>_. True)
      ((rview p)\<lparr>infos := (infos (rview p))(k := Map.empty)\<rparr>)"
  using delete [of "rstore p" "rp_getKeyDetailsKey P k"]
  by (intro rstore_rule) (fastforce dest: rp_upd_info)

end

end
