(* ===== verification/RedisProps.thy ===== *)
theory RedisProps
  imports RedisRules
begin

text \<open>The operations of the layered pool over an interface store: selection, refill, and where a
  rate-limited key goes. A key that is in no pool stays in none, whatever is called for other
  keys, and this is the fate of every rate-limited key.\<close>

section \<open>A key in no pool\<close>

definition absent :: "nat \<Rightarrow> 'z pools_scheme \<Rightarrow> bool" where
  "absent k v \<longleftrightarrow> (\<forall>g. \<forall>x \<in> vals v g \<union> set (ready v g) \<union> set (active v g). ParseUint x \<noteq> (k, None))"

lemma absent_put: "absent k v \<Longrightarrow> (\<And>x. x \<in> set l \<Longrightarrow> ParseUint x \<noteq> (k, None)) \<Longrightarrow>
    absent k (put_list v g t l)"
  by (auto simp: absent_def)

lemma absent_vals: "absent k v \<Longrightarrow> (\<And>x. x \<in> X \<Longrightarrow> ParseUint x \<noteq> (k, None)) \<Longrightarrow>
    absent k (v\<lparr>vals := (vals v)(g := X)\<rparr>)"
  by (auto simp: absent_def)

lemma absent_other [simp]: "absent k (v\<lparr>infos := f\<rparr>) = absent k v"
  "absent k (v\<lparr>cooling_at := c\<rparr>) = absent k (v :: rpools)"
  by (simp_all add: absent_def)

lemma absentD:
  assumes "absent k v"
  shows "x \<in> vals v g \<Longrightarrow> ParseUint x \<noteq> (k, None)" "x \<in> set (ready v g) \<Longrightarrow> ParseUint x \<noteq> (k, None)"
    "x \<in> set (active v g) \<Longrightarrow> ParseUint x \<noteq> (k, None)"
    "list_pool t \<Longrightarrow> x \<in> set (lists v (g, t)) \<Longrightarrow> ParseUint x \<noteq> (k, None)"
  using assms by (auto simp: absent_def)

lemma parse_ids_absent: "(\<And>x. x \<in> set xs \<Longrightarrow> ParseUint x \<noteq> (k, None)) \<Longrightarrow> k \<notin> set (parse_ids xs)"
  by (auto simp: parse_ids_def) (metis prod.collapse)

lemma other_text: "j \<noteq> k \<Longrightarrow> ParseUint (show_nat j) \<noteq> (k, None)"
  using ParseUint_show_eq by blast

context redis_pool
begin

abbreviation spares :: "nat \<Rightarrow> ('s, 'a) ract \<Rightarrow> ('a \<Rightarrow> bool) \<Rightarrow> bool" where
  "spares k m R \<equiv> rp.maint (absent k) m R"

lemma rotate_rule:
  fixes g :: nat
  assumes "rgood p" "list_pool t"
  defines "l \<equiv> lists (rview p) (g, t)"
  shows "rp.sat (on_rstore (StRotate (rpStore P) (rp_getRedisKey P g t))) p (\<lambda>r v.
    if l = [] then r = Inl (StoreErr ErrNotFound) \<and> v = rview p
    else r = Inr (last l) \<and> v = put_list (rview p) g t (rot l))"
proof (cases "l = []")
  case True
  then have "list_of (obs (rstore p) (rp_getRedisKey P g t)) = Some []"
    using rp_typed_at(2) [of P "obs (rstore p)" t g] assms by simp
  from rotate_empty [OF _ this] assms(1) obtain s' where
    "StRotate (rpStore P) (rp_getRedisKey P g t) (rstore p) = (s', Inl ErrNotFound)"
    "inv s'" "obs s' = obs (rstore p)" by blast
  then show ?thesis
    using True assms(1) by (simp add: rp.sat_def on_rstore_def)
next
  case False
  then have "list_of (obs (rstore p) (rp_getRedisKey P g t)) = Some (butlast l @ [last l])"
    using rp_typed_at(2) [of P "obs (rstore p)" t g] assms by simp
  from rotate [OF _ this] assms(1) obtain s' where s:
    "StRotate (rpStore P) (rp_getRedisKey P g t) (rstore p) = (s', Inr (last l))" "inv s'"
    "list_of (obs s' (rp_getRedisKey P g t)) = Some (rot l)"
    "only_at (rp_getRedisKey P g t) (obs (rstore p)) (obs s')" by (auto simp: rot_def)
  then show ?thesis
    using False assms(1) rp_upd_list [OF _ assms(2) s(4,3)]
    by (simp add: rp.sat_def on_rstore_def)
qed

lemma spares_push: "list_pool t \<Longrightarrow> j \<noteq> k \<Longrightarrow> spares k (rp_push P g t j) (\<lambda>_. True)"
  by (rule rp.maint_always, intro exI conjI, rule push_always)
    (auto intro!: absent_put dest: absentD(4) simp: other_text)

lemma spares_rem: "list_pool t \<Longrightarrow> spares k (rp_rem P g t j) (\<lambda>_. True)"
  by (rule rp.maint_always, intro exI conjI, rule rem_always)
    (auto intro!: absent_put dest: absentD(4))

lemma spares_rotate: "list_pool t \<Longrightarrow>
    spares k (on_rstore (StRotate (rpStore P) (rp_getRedisKey P g t))) (\<lambda>x. ParseUint x \<noteq> (k, None))"
proof (rule rp.maintI)
  fix p
  assume t: "list_pool t" and p: "rgood p" "absent k (rview p)"
  let ?l = "lists (rview p) (g, t)"
  have l: "ParseUint x \<noteq> (k, None)" if "x \<in> set ?l" for x
    using absentD(4) [OF p(2) t that] .
  show "rp.sat (on_rstore (StRotate (rpStore P) (rp_getRedisKey P g t))) p
      (\<lambda>r v. absent k v \<and> (\<forall>x. r = Inr x \<longrightarrow> ParseUint x \<noteq> (k, None)))"
    by (rule rp.weaken_rule [OF rotate_rule [OF p(1) t]])
      (use l p(2) rot_props(1) in \<open>auto intro!: absent_put split: if_splits\<close>)
qed

lemma spares_details: "spares k (rp_getKeyDetails P j) (\<lambda>_. True)"
  by (rule rp.maint_always, intro exI conjI, rule details_always) auto

lemma spares_set_details: "spares k (rp_setKeyDetails P j vs) (\<lambda>_. True)"
  by (rule rp.maint_always, intro exI conjI, rule set_details_always) auto

lemma spares_stats: "spares k (updatePoolStats P g vs) (\<lambda>_. True)"
  by (rule rp.maint_always, intro exI conjI, rule stats_always) auto

lemma spares_add_validation: "k \<notin> set ks \<Longrightarrow> spares k (rp_addToValidationPool P g ks) (\<lambda>_. True)"
  by (rule rp.maint_always, intro exI conjI, rule add_validation_always)
    (auto intro!: absent_vals dest: absentD(1) simp: other_text dest!: ParseUint_show_eq)

lemma spares_remove_validation: "spares k (rp_removeFromValidationPool P g ks) (\<lambda>_. True)"
  by (rule rp.maint_always, intro exI conjI, rule remove_validation_always)
    (auto intro!: absent_vals dest: absentD(1))

lemma spares_members: "spares k (on_rstore (StSMembers (rpStore P) (rp_getRedisKey P g PoolTypeValidation)))
    (\<lambda>ms. k \<notin> set (parse_ids ms))"
  by (rule rp.maint_always, intro exI conjI, rule members_always)
    (auto dest: absentD(1) intro!: parse_ids_absent)

lemma spares_zcard: "spares k (on_rstore (StZCard (rpStore P) (rp_getRedisKey P g PoolTypeCooling))) (\<lambda>_. True)"
  by (rule rp.maint_always, intro exI conjI, rule zcard_always) auto

lemma spares_cool: "spares k (rp_addToCoolingPool P g j t) (\<lambda>_. True)"
  by (rule rp.maint_always, intro exI conjI, rule cool_always) auto

lemma spares_uncool: "spares k (on_rstore (StDelete (rpStore P) (cooling_entry P g j))) (\<lambda>_. True)"
  by (rule rp.maint_always, intro exI conjI, rule uncool_always) auto

lemma spares_delete_details:
  "spares k (on_rstore (StDelete (rpStore P) (rp_getKeyDetailsKey P j))) (\<lambda>_. True)"
  by (rule rp.maint_always, intro exI conjI, rule delete_details_always) auto

lemmas spares_calls = spares_push spares_rem spares_details spares_set_details spares_stats
  spares_add_validation spares_remove_validation spares_zcard spares_cool spares_uncool
  spares_delete_details

text \<open>The pipeline of pushes does what the pushes do one by one.\<close>

lemma pipe_pushes: "rgood p \<Longrightarrow> list_pool t \<Longrightarrow>
    on_rstore (run_pipe (rpStore P) (map (\<lambda>j. PipeLPush (rp_getRedisKey P g t) [AUint j]) ks)) p =
    for_each (rp_push P g t) ks p"
proof (induction ks arbitrary: p)
  case Nil
  then show ?case by (simp add: on_rstore_def ret_def)
next
  case (Cons j ks)
  obtain p1 where p1: "rp_push P g t j p = (p1, Inr ())" "rgood p1"
    using rp.always_dest [OF push_always [OF Cons.prems, of g j]] by auto
  obtain s1 where s1: "StLPush (rpStore P) (rp_getRedisKey P g t) [AUint j] (rstore p) = (s1, Inr ())"
      "p1 = p\<lparr>rstore := s1\<rparr>"
    using p1(1) by (cases "StLPush (rpStore P) (rp_getRedisKey P g t) [AUint j] (rstore p)";
        cases "snd (StLPush (rpStore P) (rp_getRedisKey P g t) [AUint j] (rstore p))")
      (auto simp: rp_push_def on_rstore_def)
  show ?case
    using Cons.IH [OF p1(2) Cons.prems(2)] p1(1) s1
    by (simp add: bindE_def on_rstore_def split: prod.splits)
qed

lemma move_ready_eq: "rgood p \<Longrightarrow>
    rp_moveToReadyPool P g ks p = for_each (rp_push P g PoolTypeReady) ks p"
  using pipe_pushes [of p PoolTypeReady g ks] pipeline
  by (cases "StPipeline (rpStore P)") (auto simp: rp_moveToReadyPool_def)

lemma spares_move_ready: "k \<notin> set ks \<Longrightarrow> spares k (rp_moveToReadyPool P g ks) (\<lambda>_. True)"
  by (rule rp.maint_cong [OF move_ready_eq], assumption, rule rp.maint_for_each, rule spares_push) auto

lemma spares_move_active: "spares k (rp_moveToActivePool P g n) (\<lambda>_. True)"
proof (induction n)
  case 0
  then show ?case by (simp add: rp.maint_ret)
next
  case (Suc n)
  show ?case
    unfolding rp_moveToActivePool.simps
  proof (rule rp.maint_catch [OF spares_rotate], simp)
    fix r :: "lp_err + string"
    assume r: "\<And>x. r = Inr x \<Longrightarrow> ParseUint x \<noteq> (k, None)"
    show "spares k (case r of Inl e \<Rightarrow> if e = StoreErr ErrNotFound then ret [] else fail e
        | Inr t \<Rightarrow> (case ParseUint t of (_, Some _) \<Rightarrow> rp_moveToActivePool P g n
           | (kid, None) \<Rightarrow> bindE (rp_push P g PoolTypeActive kid) (\<lambda>_.
               bindE (rp_moveToActivePool P g n) (\<lambda>moved. ret (kid # moved))))) (\<lambda>_. True)"
      using r Suc.IH
      by (auto intro!: rp.maint_rules rp.maint_bind [OF spares_push] rp.maint_bind [OF Suc.IH]
          split: sum.splits prod.splits option.splits)
  qed
qed

lemma spares_sync: "spares k (syncKeyDetails P j g) (\<lambda>_. True)"
  unfolding syncKeyDetails_def first_key_def
  by (rule rp.maint_bind [OF rp.maint_db], rule TrueI, rule spares_set_details)

lemma spares_add_list: "list_pool t \<Longrightarrow> k \<notin> set ks \<Longrightarrow> spares k (rp_addToListPool P g t ks) (\<lambda>_. True)"
  unfolding rp_addToListPool_def
  by (auto intro!: rp.maint_ret rp.maint_bind [OF rp.maint_for_each] rp.maint_for_each
      rp.maint_wrap rp.maint_logged spares_push spares_sync)

lemma spares_add: "k \<notin> set ks \<Longrightarrow> spares k (rp_addKeysToPool P g ks t) (\<lambda>_. True)"
proof -
  assume k: "k \<notin> set ks"
  have *: "k \<notin> set (map ID (filter usable_status keys))" if "ID ` set keys \<subseteq> set ks" for keys
    using that k by auto
  show ?thesis
    unfolding rp_addKeysToPool_def find_keys_def Let_def
    by (auto intro!: rp.maint_ret rp.maint_fail rp.maint_bind [OF rp.maint_wrap [OF rp.maint_db [where
          R = "\<lambda>keys. ID ` set keys \<subseteq> set ks"]]] spares_add_validation spares_add_list *
        simp del: set_map simp: rp_addToReadyPool_def rp_addToActivePool_def split: PoolType.splits)
qed

lemma spares_remove: "spares k (rp_removeKeysFromPool P g ks t) (\<lambda>_. True)"
  by (auto intro!: rp.maint_rules rp.maint_for_each spares_rem spares_uncool spares_remove_validation
      simp: rp_removeKeysFromPool_def rp_removeFromReadyPool_def rp_removeFromActivePool_def
        rp_removeFromCoolingPool_def split: PoolType.splits)

lemma spares_build: "spares k (rp_buildAPIKeyFromDetails j g h) (\<lambda>key. ID key = j)"
  by (auto intro!: rp.maint_rules simp: rp_buildAPIKeyFromDetails_def split: option.splits)

lemma spares_candidate: "spares k (check_candidate P g j) (\<lambda>_. True)"
proof (cases "rpValidator P")
  case None
  then show ?thesis by (simp add: check_candidate_def rp.maint_ret)
next
  case (Some v)
  have first: "spares k (bindE (rp_getKeyDetails P j) (\<lambda>details.
      bindE (rp_buildAPIKeyFromDetails j g details) (\<lambda>apiKey.
      bindE (first_group g) (\<lambda>_. ret apiKey)))) (\<lambda>_. True)"
    unfolding first_group_def
    by (auto intro!: rp.maint_bind [OF spares_details] rp.maint_bind [OF spares_build]
        rp.maint_bind [OF rp.maint_db [where R = "\<lambda>_. True"]] rp.maint_ret)
  show ?thesis
    unfolding check_candidate_def Some option.case
    by (rule rp.maint_catch [OF first])
      (auto intro!: rp.maint_rules rp.maint_bind [OF rp.maint_logged [OF spares_remove_validation]]
        split: sum.splits)
qed

lemma spares_candidates: "k \<notin> set ks \<Longrightarrow> spares k (check_candidates P g ks) (\<lambda>ys. k \<notin> set ys)"
proof (induction ks)
  case Nil
  then show ?case by (simp add: rp.maint_ret)
next
  case (Cons j ks)
  then show ?case
    by (auto intro!: rp.maint_bind [OF spares_candidate] rp.maint_bind [OF Cons.IH] rp.maint_ret
        split: if_splits)
qed

lemma spares_list: "spares k (rp_listValidationKeys P g) (\<lambda>ks. k \<notin> set ks)"
  unfolding rp_listValidationKeys_def
  by (rule rp.maint_bind [OF rp.maint_wrap [OF spares_members]]) (simp add: rp.maint_ret)

lemma spares_refill_validation: "spares k (refillReadyFromValidation P g n) (\<lambda>_. True)"
  unfolding refillReadyFromValidation_def
  by (auto intro!: rp.maint_bind [OF spares_list] rp.maint_bind [OF spares_candidates] rp.maint_ret
      spares_move_ready dest: in_set_takeD)

text \<open>The details of a key can always be read, so every key counts as present.\<close>

lemma present_always: "rgood p \<Longrightarrow> rp.always (isKeyInAnyPool P j) p (\<lambda>b. b) (rview p)"
  unfolding isKeyInAnyPool_def rp.always_def
  by (rule rp.catch_rule [OF details_always [unfolded rp.always_def]]) auto

lemma usable_none: "rgood p \<Longrightarrow> rp.always (usable_keys P now cnt ks acc) p (\<lambda>ys. ys = acc) (rview p)"
proof (induction ks arbitrary: p)
  case Nil
  then show ?case by (simp add: rp.always_ret_rule)
next
  case (Cons x ks)
  show ?case
    unfolding usable_keys.simps
  proof (rule rp.always_seq_rule [OF present_always [OF Cons.prems]])
    fix q b
    assume q: "rgood q" "rview q = rview p" and b: "b"
    show "rp.always (if b then usable_keys P now cnt ks acc
        else if Status x = KeyStatusRateLimited \<and>
                (case RateLimitResetAt x of None \<Rightarrow> False | Some t \<Rightarrow> now < t)
        then usable_keys P now cnt ks acc
        else if int (length (acc @ [ID x])) \<ge> cnt then ret (acc @ [ID x])
        else usable_keys P now cnt ks (acc @ [ID x])) q (\<lambda>ys. ys = acc) (rview p)"
      using Cons.IH [OF q(1)] q(2) b by simp
  qed
qed

lemma database_refill_rule: "rgood p \<Longrightarrow>
    rp.sat (refillFromDatabase P now g cnt) p (\<lambda>r v. v = rview p \<and> (lfaults p = [] \<longrightarrow> r = Inr ()))"
proof -
  assume p: "rgood p"
  have db: "rp.sat (available_keys g cnt) p (\<lambda>r v. v = rview p \<and> (lfaults p = [] \<longrightarrow> \<not> isl r))"
    unfolding available_keys_def by (rule rp.db_rule [OF p]) auto
  show ?thesis
    unfolding refillFromDatabase_def
  proof (rule rp.bind_rule [OF rp.wrap_rule [OF db, where
        Q = "\<lambda>r v. v = rview p \<and> (lfaults p = [] \<longrightarrow> \<not> isl r)"]])
    fix q and ks :: "PoolKey list"
    assume q: "rgood q" "frame p q" "rview q = rview p \<and> (lfaults p = [] \<longrightarrow> \<not> isl (Inr ks :: lp_err + PoolKey list))"
    show "rp.sat (if ks = [] then ret ()
        else bindE (usable_keys P now cnt ks []) (\<lambda>usableKeys.
          if usableKeys = [] then ret () else rp_addToValidationPool P g usableKeys)) q
        (\<lambda>r v. v = rview p \<and> (lfaults p = [] \<longrightarrow> r = Inr ()))"
      using q by (auto intro!: rp.always_bind_rule [OF usable_none])
  qed auto
qed

lemma spares_refill_database: "spares k (refillFromDatabase P now g cnt) (\<lambda>_. True)"
  by (rule rp.maintI, rule rp.weaken_rule [OF database_refill_rule]) auto

lemma spares_size: "spares k (rp_getPoolSize P g t) (\<lambda>_. True)"
  by (auto intro!: rp.maint_rules rp.maint_bind [OF spares_members] spares_zcard
      simp: rp_getPoolSize_def split: PoolType.splits)

lemma maint_config:
  assumes "\<And>c. spares k (f c) R"
  shows "spares k (\<lambda>p. case lp_getGroupConfig g p of (p0, c) \<Rightarrow> f c p0) R"
proof (rule rp.maintI)
  fix p
  assume p: "rgood p" "absent k (rview p)"
  obtain p0 c where g: "lp_getGroupConfig g p = (p0, c)" by fastforce
  note c = rp.config_rule [OF g]
  have "rp.sat (f c) p0 (\<lambda>r v. absent k v \<and> (\<forall>x. r = Inr x \<longrightarrow> R x))"
    using p c assms by (simp add: rp.maint_def)
  then show "rp.sat (\<lambda>p. case lp_getGroupConfig g p of (p0, c) \<Rightarrow> f c p0) p
      (\<lambda>r v. absent k v \<and> (\<forall>x. r = Inr x \<longrightarrow> R x))"
    using g c frame_trans by (auto simp: rp.sat_def split: prod.splits)
qed

lemma spares_refill: "spares k (rp_RefillPools P now g) (\<lambda>_. True)"
  unfolding rp_RefillPools_def [abs_def] refill_ready_def Let_def
  by (rule maint_config)
    (auto intro!: rp.maint_bind [OF rp.maint_wrap [OF spares_size]] rp.maint_ret
      rp.maint_bind [OF rp.maint_wrap [OF spares_move_active]]
      rp.maint_bind [OF rp.maint_logged [OF spares_refill_validation]]
      rp.maint_logged [OF spares_refill_database])

text \<open>A selection never returns an absent key.\<close>

lemma spares_select_after: "ParseUint t \<noteq> (k, None) \<Longrightarrow>
    spares k (rp_select_after_rotate P g t) (\<lambda>key. ID key \<noteq> k)"
  unfolding rp_select_after_rotate_def
  by (auto intro!: rp.maint_fail rp.maint_bind [OF rp.maint_wrap [OF spares_details]]
      rp.maint_weaken [OF spares_build] split: prod.splits option.splits)

lemma spares_select: "spares k (rp_SelectKey P now g) (\<lambda>key. ID key \<noteq> k)"
proof -
  have again: "spares k (catching (on_rstore (StRotate (rpStore P) (rp_getRedisKey P g PoolTypeActive))) (\<lambda>r.
      case r of Inr t \<Rightarrow> rp_select_after_rotate P g t
      | Inl e \<Rightarrow> if e = StoreErr ErrNotFound then fail ErrPoolEmpty
               else fail (PoolError ErrorTypeStorage ''SELECT_FAILED'' (Some e)))) (\<lambda>key. ID key \<noteq> k)"
    by (rule rp.maint_catch [OF spares_rotate])
      (auto intro!: rp.maint_fail spares_select_after split: sum.splits)
  show ?thesis
    unfolding rp_SelectKey_def [abs_def]
    by (rule maint_config, rule rp.maint_catch [OF spares_rotate])
      (auto intro!: rp.maint_fail spares_select_after again
        rp.maint_bind [OF rp.maint_wrap [OF spares_refill]] split: sum.splits)
qed

lemma spares_with_group: "(\<And>h g. spares k (f h g) R) \<Longrightarrow> spares k (rp_with_group P j f) R"
  unfolding rp_with_group_def
  by (rule rp.maint_bind [OF rp.maint_wrap [OF spares_details]])
    (auto intro!: rp.maint_fail split: option.splits prod.splits)

lemma spares_update_stats: "spares k (rp_updateKeyStats P now j b) (\<lambda>_. True)"
  unfolding rp_updateKeyStats_def
  by (rule rp.maint_logged [OF rp.maint_bind [OF spares_details spares_set_details]]) simp

lemma spares_group: "spares k (wrap ty c (first_group g)) (\<lambda>_. True)"
  unfolding first_group_def by (rule rp.maint_wrap [OF rp.maint_db]) simp

lemma spares_failure: "j \<noteq> k \<Longrightarrow> spares k (rp_handleKeyFailure P j g) (\<lambda>_. True)"
  unfolding rp_handleKeyFailure_def Let_def
  by (rule rp.maint_bind [OF spares_details], rule rp.maint_bind [OF spares_group],
      rule rp.maint_bind [where R = "\<lambda>_. True"])
    (auto intro!: rp.maint_logged [OF spares_rem] rp.maint_wrap [OF spares_push]
      rp.maint_wrap [OF spares_set_details])

lemma spares_return: "j \<noteq> k \<Longrightarrow> spares k (rp_ReturnKey P now j b) (\<lambda>_. True)"
  unfolding rp_ReturnKey_def
  by (auto intro!: spares_with_group rp.maint_bind [OF rp.maint_wrap [OF spares_push]]
      spares_update_stats spares_failure)

lemma spares_rate_limit: "spares k (rp_HandleRateLimit P now j after at) (\<lambda>_. True)"
  unfolding rp_HandleRateLimit_def Let_def
  by (auto intro!: spares_with_group rp.maint_bind [OF rp.maint_logged [OF spares_rem]]
      rp.maint_bind [OF rp.maint_wrap [OF spares_cool]] rp.maint_wrap [OF spares_set_details])

lemma spares_uncool_all: "spares k (rp_removeFromCoolingPool P g js) (\<lambda>_. True)"
  unfolding rp_removeFromCoolingPool_def by (rule rp.maint_for_each [OF spares_uncool])

lemma spares_move: "j \<noteq> k \<Longrightarrow> spares k (rp_MoveKey P j src to) (\<lambda>_. True)"
  unfolding rp_MoveKey_def moveCoolingKey_def rp_executeAtomicMove_def
  by (auto intro!: spares_with_group rp.maint_fail rp.maint_ret spares_add
      rp.maint_bind [OF rp.maint_wrap [OF spares_uncool_all]]
      rp.maint_bind [OF rp.maint_wrap [OF spares_set_details]]
      rp.maint_bind [OF rp.maint_wrap [OF spares_remove]] rp.maint_catch [OF spares_add]
      rp.maint_bind [OF rp.maint_logged [OF spares_add]] split: sum.splits)

lemma spares_remove_all: "spares k (rp_RemoveKeys P g js) (\<lambda>_. True)"
  unfolding rp_RemoveKeys_def
  by (auto intro!: rp.maint_ret rp.maint_bind [OF rp.maint_for_each] rp.maint_for_each
      rp.maint_logged [OF spares_remove] rp.maint_logged [OF spares_delete_details])

lemma spares_recover: "spares k (rp_RecoverCooledKeys P g) (\<lambda>_. True)"
  unfolding rp_RecoverCooledKeys_def rp_getExpiredFromCoolingPool_def
  by (rule rp.maint_bind [OF rp.maint_wrap [OF rp.maint_ret [where R = "\<lambda>ks. ks = []"]]])
    (simp_all add: rp.maint_ret)

lemma spares_validate_loop:
  "k \<notin> set js \<Longrightarrow> k \<notin> set ok \<Longrightarrow>
   spares k (validate_loop P v g js ok bad) (\<lambda>(ys, zs). k \<notin> set ys)"
proof (induction js arbitrary: ok bad)
  case Nil
  then show ?case by (simp add: rp.maint_ret)
next
  case (Cons j js)
  show ?case
    unfolding validate_loop.simps
    by (rule rp.maint_catch [OF rp.maint_bind [OF spares_details spares_build]])
      (use Cons in \<open>auto split: sum.splits\<close>)
qed

lemma spares_validate: "k \<notin> set js \<Longrightarrow> spares k (rp_ValidateKeys P g js) (\<lambda>_. True)"
proof (cases "rpValidator P")
  case None
  then show ?thesis by (simp add: rp_ValidateKeys_def rp.maint_fail)
next
  case (Some v)
  assume k: "k \<notin> set js"
  show ?thesis
    unfolding rp_ValidateKeys_def Some option.case
  proof (rule rp.maint_bind [OF spares_group], rule rp.maint_bind [OF spares_validate_loop])
    show "k \<notin> set js" "k \<notin> set []" using k by simp_all
    fix x :: "nat list \<times> nat list"
    assume "case x of (ys, zs) \<Rightarrow> k \<notin> set ys"
    then show "spares k (case x of (validatedKeys, failedKeys) \<Rightarrow>
        bindE (if validatedKeys = [] then ret () else rp_moveToReadyPool P g validatedKeys) (\<lambda>_.
          if failedKeys = [] then ret ()
          else logged (rp_removeFromValidationPool P g failedKeys))) (\<lambda>_. True)"
      by (cases x) (auto intro!: rp.maint_bind [where R = "\<lambda>_. True"] rp.maint_ret spares_move_ready
          rp.maint_logged [OF spares_remove_validation])
  qed
qed

lemma spares_counts: "spares k (rp_pool_counts P g ts) (\<lambda>_. True)"
proof (induction ts)
  case Nil
  then show ?case by (simp add: rp.maint_ret)
next
  case (Cons t ts)
  then show ?case
    by (auto intro!: rp.maint_catch [OF spares_size] rp.maint_bind [OF Cons] rp.maint_ret
        split: sum.splits)
qed

lemma spares_pool_stats: "spares k (rp_GetPoolStats P perf now g) (\<lambda>_. True)"
  unfolding rp_GetPoolStats_def collectKeyStatusStats_def updatePoolStatsInRedis_def Let_def
  by (rule rp.maint_bind [OF spares_counts],
      rule rp.maint_catch [OF rp.maint_bind [OF rp.maint_db [where R = "\<lambda>_. True"]
        rp.maint_ret [where R = "\<lambda>_. True"]]])
    (auto intro!: rp.maint_bind [OF rp.maint_logged [OF spares_stats]] rp.maint_ret)

lemma spares_maintenance: "spares k (rp_performMaintenance P now) (\<lambda>_. True)"
  unfolding rp_performMaintenance_def
  by (rule rp.maint_logged [OF rp.maint_bind [OF rp.maint_db [where R = "\<lambda>_. True"]]])
    (auto intro!: rp.maint_for_each rp.maint_bind [OF rp.maint_logged [OF spares_recover]]
      rp.maint_logged [OF spares_refill])

lemma spares_AddKeys: "k \<notin> set js \<Longrightarrow> spares k (rp_AddKeys P g js) (\<lambda>_. True)"
  by (auto simp: rp_AddKeys_def intro!: rp.maint_ret spares_add)

end

section \<open>The fate of a rate-limited key\<close>

text \<open>One call of the pool, or one turn of its maintenance, that does not name the key \<^verbatim>\<open>k\<close> as one
  to add, move, return or validate; a rate limit may concern any key.\<close>

inductive rp_step :: "'s RedisLayeredPool \<Rightarrow> nat \<Rightarrow> 's rp \<Rightarrow> 's rp \<Rightarrow> bool" for P k where
  "k \<notin> set js \<Longrightarrow> rp_step P k p (fst (rp_AddKeys P g js p))"
| "rp_step P k p (fst (rp_RemoveKeys P g js p))"
| "rp_step P k p (fst (rp_SelectKey P now g p))"
| "j \<noteq> k \<Longrightarrow> rp_step P k p (fst (rp_ReturnKey P now j success p))"
| "rp_step P k p (fst (rp_HandleRateLimit P now j retryAfter resetOpt p))"
| "j \<noteq> k \<Longrightarrow> rp_step P k p (fst (rp_MoveKey P j src to p))"
| "rp_step P k p (fst (rp_RefillPools P now g p))"
| "rp_step P k p (fst (rp_RecoverCooledKeys P g p))"
| "k \<notin> set js \<Longrightarrow> rp_step P k p (fst (rp_ValidateKeys P g js p))"
| "rp_step P k p (fst (rp_GetPoolStats P perf now g p))"
| "rp_step P k p (fst (rp_performMaintenance P now p))"
| "rp_step P k p (fst (lp_UpdateConfig g c p))"
| "rp_step P k p (p\<lparr>lfaults := faults\<rparr>)"

inductive_cases rp_stepE: "rp_step P k p q"

inductive rp_reach :: "'s RedisLayeredPool \<Rightarrow> nat \<Rightarrow> 's rp \<Rightarrow> 's rp \<Rightarrow> bool" for P k p where
  rp_reach_refl: "rp_reach P k p p"
| rp_reach_step: "rp_reach P k p q \<Longrightarrow> rp_step P k q r \<Longrightarrow> rp_reach P k p r"

context redis_pool
begin

lemma keepsI: "spares k m R \<Longrightarrow> rgood p \<and> absent k (rview p) \<Longrightarrow>
    rgood (fst (m p)) \<and> absent k (rview (fst (m p)))"
  using rp.maint_dest [of "absent k" m R p] by auto

lemmas spares_step = spares_AddKeys spares_remove_all spares_select spares_return spares_rate_limit
  spares_move spares_refill spares_recover spares_validate spares_pool_stats spares_maintenance

lemma config_kept: "rgood p \<and> absent k (rview p) \<Longrightarrow>
    rgood (fst (lp_UpdateConfig g c p)) \<and> absent k (rview (fst (lp_UpdateConfig g c p)))"
  by (simp add: lp_UpdateConfig_def split: option.splits)

lemma faults_kept: "rgood p \<and> absent k (rview p) \<Longrightarrow>
    rgood (p\<lparr>lfaults := fs\<rparr>) \<and> absent k (rview (p\<lparr>lfaults := fs\<rparr>))"
  by simp

lemmas kept_steps = spares_step [THEN keepsI] config_kept faults_kept

lemma step_absent: "rp_step P k p q \<Longrightarrow> rgood p \<and> absent k (rview p) \<Longrightarrow> rgood q \<and> absent k (rview q)"
  by (erule rp_stepE; hypsubst; (rule kept_steps; assumption))

lemma reach_absent: "rp_reach P k p q \<Longrightarrow> rgood p \<and> absent k (rview p) \<Longrightarrow> rgood q \<and> absent k (rview q)"
  by (induction rule: rp_reach.induct) (assumption, erule step_absent, blast)

lemma hash_put_by_apply: "hash_put_by text_of vs h f =
    (case map_of (rev vs) f of None \<Rightarrow> h f | Some v \<Rightarrow> Some (text_of v))"
  unfolding hash_put_by_def by (induction vs arbitrary: h) (auto simp: map_add_def split: option.splits)

lemma with_group_sat:
  assumes "rgood p" "in_group (rview p) k g"
    and "\<And>p' h. rgood p' \<Longrightarrow> frame p p' \<Longrightarrow> rview p' = rview p \<Longrightarrow> gget h = infos (rview p) k \<Longrightarrow>
      rp.sat (cont h g) p' Q"
  shows "rp.sat (rp_with_group P k cont) p Q"
  unfolding rp_with_group_def
proof (rule rp.always_bind_rule [OF rp.always_wrap_rule [OF details_always [OF assms(1)]]])
  fix p' h
  assume p': "rgood p'" "frame p p'" "rview p' = rview p" and h: "gget h = infos (rview p) k"
  show "rp.sat (case gget h ''group_id'' of
        None \<Rightarrow> fail (PoolError ErrorTypeValidation ''MISSING_GROUP_ID'' None)
      | Some t \<Rightarrow>
          (case ParseUint t of
             (_, Some _) \<Rightarrow> fail (PoolError ErrorTypeInternal ''INVALID_GROUP_ID'' None)
           | (gid, None) \<Rightarrow> cont h gid)) p' Q"
    using assms(2) assms(3) [OF p' h] h by (auto simp: in_group_def)
qed

lemma rate_limit_sat:
  assumes "rgood p" "in_group (rview p) k g"
  shows "rp.sat (rp_HandleRateLimit P now k retryAfter resetOpt) p (\<lambda>r v. r = Inr () \<and>
    lists v = (lists (rview p))((g, PoolTypeActive) := removeAll (show_nat k) (active (rview p) g)) \<and>
    vals v = vals (rview p) \<and>
    cooling_at v (g, k) = Some (VItem (show_int (unix (reset_time now retryAfter resetOpt))) 0) \<and>
    infos v k ''status'' = Some KeyStatusRateLimited)"
  unfolding rp_HandleRateLimit_def
  by (rule with_group_sat [OF assms], unfold Let_def,
      rule rp.always_bind_rule [OF rp.always_logged_rule [OF rem_always]], assumption, simp,
      rule rp.always_bind_rule [OF rp.always_wrap_rule [OF cool_always]], assumption,
      rule rp.weaken_rule [OF rp.always_wrap_rule [OF set_details_always, unfolded rp.always_def]], assumption)
    (auto simp: hash_put_by_apply text_str put_list_def)

lemma rate_limited_view:
  assumes "rgood p" "in_group (rview p) k g"
  shows "\<exists>p1. rp_HandleRateLimit P now k retryAfter resetOpt p = (p1, Inr ()) \<and>
    rgood p1 \<and>
    cooling_at (rview p1) (g, k) = Some (VItem (show_int (unix (reset_time now retryAfter resetOpt))) 0) \<and>
    infos (rview p1) k ''status'' = Some KeyStatusRateLimited \<and>
    lists (rview p1) = (lists (rview p))((g, PoolTypeActive) := removeAll (show_nat k) (active (rview p) g)) \<and>
    vals (rview p1) = vals (rview p)"
  using rp.dest_rule [OF rate_limit_sat [OF assms(1,2), of now retryAfter resetOpt]] by auto

lemma select_absent: "rgood p \<Longrightarrow> absent k (rview p) \<Longrightarrow> snd (rp_SelectKey P now g p) = Inr key \<Longrightarrow> ID key \<noteq> k"
  using rp.maint_dest [OF spares_select, of p k now g] by auto

lemma recover_nothing: "rp_RecoverCooledKeys P g p = (p, Inr 0)"
  by (simp add: rp_RecoverCooledKeys_def rp_getExpiredFromCoolingPool_def bindE_def wrap_def ret_def)

end

text \<open>C25: Over any store that keeps the contract, rate limiting a key whose details name its group
  succeeds: it removes every entry of the key from the active pool of that group, leaves every
  other list and every validation set as it was, and writes down when the limit ends. That time is
  never used: after any sequence of calls that do not add, move, return or validate this very key,
  however much time passes, recovery recovers nothing. So the only thing that can make a selection
  return the key again is a copy of it that the call left in another pool, in a ready list or a
  validation set of any group or in the active pool of another group; with no such copy no
  selection returns it.\<close>

theorem redis_rate_limit_is_forever:
  assumes "redis_pool P ok obs text_of" "ok (rstore p)" "rp_typed P (obs (rstore p))"
    and "in_group (rp_aview P (obs (rstore p))) k g"
  shows "\<exists>p1. rp_HandleRateLimit P now k retryAfter resetOpt p = (p1, Inr ()) \<and>
    cooling_at (rp_aview P (obs (rstore p1))) (g, k) =
      Some (VItem (show_int (unix (reset_time now retryAfter resetOpt))) 0) \<and>
    lists (rp_aview P (obs (rstore p1))) = (lists (rp_aview P (obs (rstore p))))
      ((g, PoolTypeActive) := removeAll (show_nat k) (active (rp_aview P (obs (rstore p))) g)) \<and>
    vals (rp_aview P (obs (rstore p1))) = vals (rp_aview P (obs (rstore p))) \<and>
    (\<forall>q g' later. rp_reach P k p1 q \<longrightarrow>
       snd (rp_RecoverCooledKeys P g' q) = Inr 0 \<and>
       (\<forall>key. snd (rp_SelectKey P later g' q) = Inr key \<and> ID key = k \<longrightarrow>
          \<not> absent k (rp_aview P (obs (rstore p1)))))"
proof -
  note rp = redis_pool.rate_limited_view redis_pool.reach_absent redis_pool.select_absent
  obtain p1 where p1: "rp_HandleRateLimit P now k retryAfter resetOpt p = (p1, Inr ())"
    "ok (rstore p1) \<and> rp_typed P (obs (rstore p1))"
    "cooling_at (rp_aview P (obs (rstore p1))) (g, k) =
      Some (VItem (show_int (unix (reset_time now retryAfter resetOpt))) 0)"
    "lists (rp_aview P (obs (rstore p1))) = (lists (rp_aview P (obs (rstore p))))
      ((g, PoolTypeActive) := removeAll (show_nat k) (active (rp_aview P (obs (rstore p))) g))"
    "vals (rp_aview P (obs (rstore p1))) = vals (rp_aview P (obs (rstore p)))"
    using rp(1) [OF assms(1) conjI [OF assms(2,3)] assms(4), of now retryAfter resetOpt] by blast
  have "\<not> absent k (rp_aview P (obs (rstore p1)))"
    if "rp_reach P k p1 q" "snd (rp_SelectKey P later g' q) = Inr key" "ID key = k" for q g' later key
    using rp(2) [OF assms(1) that(1) conjI [OF p1(2)]] rp(3) [OF assms(1) _ _ that(2)] that(3) by blast
  moreover have "snd (rp_RecoverCooledKeys P g' q) = Inr 0" for q g'
    using redis_pool.recover_nothing [OF assms(1), of g' q] by simp
  ultimately show ?thesis using p1(1,3-5) by blast
qed

end
