(* ===== verification/RedisServe.thy ===== *)
theory RedisServe
  imports RedisProps
begin

text \<open>What the layered pool over an interface store serves: selection goes round the active pool, a
  key that is added is selected with the data of its row, and a refill copies keys without
  regard to how many are there.\<close>

text \<open>The result of building a key from its details depends on nothing else.\<close>

definition built :: "'s rp \<Rightarrow> nat \<Rightarrow> nat \<Rightarrow> (string \<Rightarrow> string option) \<Rightarrow> lp_err + PoolKey \<Rightarrow> bool" where
  "built q k g info r \<longleftrightarrow> (\<exists>h. gget h = info \<and> rp_buildAPIKeyFromDetails k g h q = (q, r))"

lemma built_cases: "built q k g info r \<Longrightarrow> (case info ''key_value'' of
      None \<Rightarrow> r = Inl (PoolError ErrorTypeValidation ''MISSING_KEY_VALUE'' None)
    | Some kv \<Rightarrow> (\<exists>key. r = Inr key \<and> ID key = k \<and> GroupID key = g \<and> KeyValue key = kv))"
  by (auto simp: built_def rp_buildAPIKeyFromDetails_def ret_def fail_def split: option.splits)

lemma build_pure: "\<exists>r. \<forall>p. rp_buildAPIKeyFromDetails k g h p = (p, r)"
  by (cases "gget h ''key_value''") (auto simp: rp_buildAPIKeyFromDetails_def ret_def fail_def)

definition shrunk :: "nat \<Rightarrow> rpools \<Rightarrow> rpools \<Rightarrow> bool" where
  "shrunk g v w \<longleftrightarrow> (\<exists>X. w = v\<lparr>vals := (vals v)(g := vals v g - X)\<rparr>)"

lemma shrunk_refl [simp]: "shrunk g v v"
  unfolding shrunk_def by (rule exI [of _ "{}"]) simp

lemma shrunk_trans:
  assumes "shrunk g u v" "shrunk g v w"
  shows "shrunk g u w"
proof -
  obtain X Y where "v = u\<lparr>vals := (vals u)(g := vals u g - X)\<rparr>" "w = v\<lparr>vals := (vals v)(g := vals v g - Y)\<rparr>"
    using assms by (auto simp: shrunk_def)
  moreover have "vals u g - X - Y = vals u g - (X \<union> Y)" by blast
  ultimately have "w = u\<lparr>vals := (vals u)(g := vals u g - (X \<union> Y))\<rparr>" by simp
  then show ?thesis unfolding shrunk_def by blast
qed

text \<open>The details the store keeps of a row, and the row they give back.\<close>

definition to_seconds :: "int \<Rightarrow> int" where
  "to_seconds t = unix_time (unix t)"

definition stored_key :: "PoolKey \<Rightarrow> PoolKey" where
  "stored_key row = row\<lparr>Last429At := map_option to_seconds (Last429At row),
     RateLimitResetAt := map_option to_seconds (RateLimitResetAt row),
     CreatedAt := to_seconds (CreatedAt row), LastUsedAt := map_option to_seconds (LastUsedAt row),
     UpdatedAt := zero_time\<rparr>"

definition storable_row :: "PoolKey \<Rightarrow> bool" where
  "storable_row row \<longleftrightarrow> Status row \<noteq> [] \<and> in_i64 (FailureCount row) \<and> in_i64 (RateLimitCount row) \<and>
     in_i64 (RequestCount row) \<and> in_i64 (unix (CreatedAt row)) \<and>
     pred_option (in_i64 \<circ> unix) (Last429At row) \<and> pred_option (in_i64 \<circ> unix) (RateLimitResetAt row) \<and>
     pred_option (in_i64 \<circ> unix) (LastUsedAt row)"

definition detail_fields :: "nat \<Rightarrow> nat \<Rightarrow> PoolKey \<Rightarrow> (string \<times> goany) list" where
  "detail_fields kid gid key =
     [(''id'', AUint kid), (''key_value'', AStr (KeyValue key)), (''group_id'', AUint gid),
       (''status'', AStr (Status key)), (''request_count'', AInt (RequestCount key)),
       (''failure_count'', AInt (FailureCount key)), (''rate_limit_count'', AInt (RateLimitCount key)),
       (''created_at'', AInt (unix (CreatedAt key)))] @
      (case LastUsedAt key of None \<Rightarrow> [] | Some t \<Rightarrow> [(''last_used_at'', AInt (unix t))]) @
      (case Last429At key of None \<Rightarrow> [] | Some t \<Rightarrow> [(''last_429_at'', AInt (unix t))]) @
      (case RateLimitResetAt key of None \<Rightarrow> []
       | Some t \<Rightarrow> [(''rate_limit_reset_at'', AInt (unix t))])"

context redis_pool
begin

section \<open>Selection\<close>

lemma build_sat:
  fixes p q :: "'s rp"
  assumes "rgood p" "gget h = infos (rview p) k"
  shows "rp.sat (rp_buildAPIKeyFromDetails k g h) p (\<lambda>r v. v = rview p \<and> built q k g (infos (rview p) k) r)"
proof -
  obtain r where r: "\<And>p :: 's rp. rp_buildAPIKeyFromDetails k g h p = (p, r)" using build_pure by blast
  then have "built q k g (infos (rview p) k) r" unfolding built_def assms(2) [symmetric] by blast
  then show ?thesis using assms(1) r [of p] by (simp add: rp.sat_def)
qed

lemma select_after_sat:
  fixes p q :: "'s rp"
  assumes "rgood p" "t \<in> id_texts"
  shows "rp.sat (rp_select_after_rotate P g t) p (\<lambda>r v. v = rview p \<and>
    (\<exists>k. t = show_nat k \<and> built q k g (infos (rview p) k) r))"
proof -
  obtain k where k: "t = show_nat k" "ParseUint t = (k, None)" using assms(2) by (rule id_textsE)
  show ?thesis
    unfolding rp_select_after_rotate_def k(2) prod.case option.case
    by (rule rp.always_bind_rule [OF rp.always_wrap_rule [OF details_always [OF assms(1)]]],
        rule rp.weaken_rule [OF build_sat [where q = q]])
      (auto simp: k(1))
qed

lemma select_sat:
  fixes p b :: "'s rp"
  assumes "rgood p" "active (rview p) g \<noteq> []" "set (active (rview p) g) \<subseteq> id_texts"
  shows "rp.sat (rp_SelectKey P now g) p (\<lambda>r v.
    v = put_list (rview p) g PoolTypeActive (rot (active (rview p) g)) \<and>
    (\<exists>k. last (active (rview p) g) = show_nat k \<and> built b k g (infos (rview p) k) r))"
proof -
  obtain p0 c where g: "lp_getGroupConfig g p = (p0, c)" by fastforce
  note c = rp.config_rule [OF g]
  have p0: "rgood p0" "rview p0 = rview p" "frame p p0" using c assms(1) by simp_all
  let ?l = "active (rview p) g"
  let ?w = "put_list (rview p) g PoolTypeActive (rot ?l)"
  let ?f = "\<lambda>r. case r of Inr t \<Rightarrow> rp_select_after_rotate P g t
        | Inl e \<Rightarrow>
            if e = StoreErr ErrNotFound
            then bindE (wrap ErrorTypeCapacity ''REFILL_FAILED'' (rp_RefillPools P now g)) (\<lambda>_.
              catching (on_rstore (StRotate (rpStore P) (rp_getRedisKey P g PoolTypeActive))) (\<lambda>r.
                case r of
                  Inr t \<Rightarrow> rp_select_after_rotate P g t
                | Inl e \<Rightarrow>
                    if e = StoreErr ErrNotFound then fail ErrPoolEmpty
                    else fail (PoolError ErrorTypeStorage ''SELECT_FAILED'' (Some e))))
            else fail (PoolError ErrorTypeStorage ''SELECT_FAILED'' (Some e))"
  have last: "last ?l \<in> id_texts" using assms(2,3) last_in_set by blast
  have "rp.sat (catching (on_rstore (StRotate (rpStore P) (rp_getRedisKey P g PoolTypeActive))) ?f) p0
      (\<lambda>r v. v = ?w \<and> (\<exists>k. last ?l = show_nat k \<and> built b k g (infos (rview p) k) r))"
  proof (rule rp.catch_rule [OF rotate_rule [OF p0(1)]])
    fix q r
    assume q: "rgood q"
      and "if lists (rview p0) (g, PoolTypeActive) = []
         then r = Inl (StoreErr ErrNotFound) \<and> rview q = rview p0
         else r = Inr (last (lists (rview p0) (g, PoolTypeActive))) \<and>
              rview q = put_list (rview p0) g PoolTypeActive (rot (lists (rview p0) (g, PoolTypeActive)))"
    then have r: "r = Inr (last ?l)" "rview q = ?w" using assms(2) p0(2) by simp_all
    show "rp.sat (?f r) q (\<lambda>r v. v = ?w \<and> (\<exists>k. last ?l = show_nat k \<and> built b k g (infos (rview p) k) r))"
      unfolding r(1) sum.case
      by (rule rp.weaken_rule [OF select_after_sat [OF q last, where q = b]]) (auto simp: r(2))
  qed simp
  then show ?thesis
    unfolding rp_SelectKey_def [abs_def] using g p0(3) frame_trans
    by (auto simp: rp.sat_def split: prod.splits)
qed

lemma select_rotates:
  assumes "rgood p" "active (rview p) g \<noteq> []" "set (active (rview p) g) \<subseteq> id_texts"
  shows "\<exists>p' r. rp_SelectKey P now g p = (p', r) \<and> rgood p' \<and>
    rview p' = put_list (rview p) g PoolTypeActive (rot (active (rview p) g)) \<and> selected (rview p) g r"
  using rp.dest_rule [OF select_sat [OF assms, where b = p]]
  by (fastforce simp: selected_def dest: built_cases)

text \<open>As many selections as the pool has entries return every entry once and restore the pool.\<close>

lemma selects_suffix:
  assumes "list_all (\<lambda>k. k \<le> 18446744073709551615) (ys @ zs)"
    and "\<And>k. k \<in> set zs \<Longrightarrow> infos (rview p) k ''key_value'' \<noteq> None"
    and "rgood p" "active (rview p) g = ids (ys @ zs)"
  shows "\<exists>p' keys. run_ops (\<lambda>_::unit. rp_SelectKey P now g) (replicate (length zs) ()) p = (p', map Inr keys) \<and>
    rgood p' \<and> map ID keys = rev zs \<and> rview p' = put_list (rview p) g PoolTypeActive (ids (zs @ ys)) \<and>
    list_all (\<lambda>key. infos (rview p) (ID key) ''key_value'' = Some (KeyValue key) \<and> GroupID key = g) keys"
  using assms
proof (induction zs arbitrary: p ys rule: rev_induct)
  case Nil
  have "put_list (rview p) g PoolTypeActive (ids ys) = rview p"
    using Nil.prems(4) put_list_simps(5) [of "rview p" g PoolTypeActive] by simp
  then show ?case using Nil.prems by simp
next
  case (snoc z zs)
  let ?l = "active (rview p) g"
  have l: "?l \<noteq> []" "set ?l \<subseteq> id_texts" "last ?l = show_nat z" "rot ?l = ids ((z # ys) @ zs)"
    using snoc.prems(1,4) by (auto simp: list_all_iff id_texts_def rot_def butlast_append)
  obtain p1 r where p1: "rp_SelectKey P now g p = (p1, r)" "rgood p1"
      "rview p1 = put_list (rview p) g PoolTypeActive (rot ?l)" "selected (rview p) g r"
    using select_rotates [OF snoc.prems(3) l(1,2)] by blast
  obtain key where key: "r = Inr key" "ID key = z" "GroupID key = g"
      "infos (rview p) z ''key_value'' = Some (KeyValue key)"
    using p1(4) l(3) snoc.prems(2) [of z] show_nat_inj
    by (fastforce simp: selected_def split: option.splits)
  obtain p2 keys where p2: "run_ops (\<lambda>_::unit. rp_SelectKey P now g) (replicate (length zs) ()) p1 = (p2, map Inr keys)"
      "rgood p2" "map ID keys = rev zs"
      "rview p2 = put_list (rview p1) g PoolTypeActive (ids (zs @ z # ys))"
      "list_all (\<lambda>key. infos (rview p1) (ID key) ''key_value'' = Some (KeyValue key) \<and> GroupID key = g) keys"
    using snoc.IH [of "z # ys" p1] snoc.prems(1,2) p1(2,3) l(4) by (auto simp: list_all_iff)
  show ?case
    by (rule exI [of _ p2], rule exI [of _ "key # keys"]) (use p1 p2 key l(4) in simp)
qed

section \<open>Refill\<close>

lemma candidate_sat:
  assumes "rgood p"
  shows "rp.sat (check_candidate P g j) p (\<lambda>r v. (\<exists>b. r = Inr b) \<and> shrunk g (rview p) v)"
proof (cases "rpValidator P")
  case None
  then show ?thesis using assms by (auto simp: check_candidate_def intro: exI [of _ True])
next
  case (Some ValidateKey)
  have read: "rp.sat (bindE (rp_getKeyDetails P j) (\<lambda>details.
      bindE (rp_buildAPIKeyFromDetails j g details) (\<lambda>apiKey.
      bindE (first_group g) (\<lambda>_. ret apiKey)))) p (\<lambda>r v. v = rview p)"
  proof (rule rp.always_bind_rule [OF details_always [OF assms]])
    fix q h
    assume q: "rgood q" "rview q = rview p" "gget h = infos (rview p) j"
    show "rp.sat (bindE (rp_buildAPIKeyFromDetails j g h) (\<lambda>apiKey.
        bindE (first_group g) (\<lambda>_. ret apiKey))) q (\<lambda>r v. v = rview p)"
      by (rule rp.bind_rule [OF build_sat [where q = q]], rule q(1), simp add: q)
        (auto simp: q intro!: rp.bind_rule [OF rp.first_group_rule])
  qed
  show ?thesis
    unfolding check_candidate_def Some option.case
  proof (rule rp.catch_rule [OF read])
    fix q and r :: "lp_err + PoolKey"
    assume q: "rgood q" "rview q = rview p"
    have rm: "rp.sat (bindE (logged (rp_removeFromValidationPool P g [j])) (\<lambda>_. ret False)) q
        (\<lambda>r v. (\<exists>b. r = Inr b) \<and> shrunk g (rview p) v)"
      by (rule rp.always_bind_rule [OF rp.always_logged_rule [OF remove_validation_always [OF q(1)]]])
        (auto simp: q(2) shrunk_def)
    show "rp.sat (case r of Inl _ \<Rightarrow> ret False
        | Inr apiKey \<Rightarrow> if ValidateKey g apiKey then ret True
            else bindE (logged (rp_removeFromValidationPool P g [j])) (\<lambda>_. ret False)) q
        (\<lambda>r v. (\<exists>b. r = Inr b) \<and> shrunk g (rview p) v)"
      using q rm by (cases r) auto
  qed
qed

lemma candidates_sat: "rgood p \<Longrightarrow>
    rp.sat (check_candidates P g js) p (\<lambda>r v. (\<exists>ys. r = Inr ys) \<and> shrunk g (rview p) v)"
proof (induction js arbitrary: p)
  case Nil
  then show ?case by simp
next
  case (Cons j js)
  show ?case
    unfolding check_candidates.simps
  proof (rule rp.bind_rule [OF candidate_sat [OF Cons.prems]])
    fix q b
    assume q: "rgood q" "(\<exists>b'. Inr b = (Inr b' :: lp_err + bool)) \<and> shrunk g (rview p) (rview q)"
    show "rp.sat (bindE (check_candidates P g js) (\<lambda>validated. ret (if b then j # validated else validated))) q
        (\<lambda>r v. (\<exists>ys. r = Inr ys) \<and> shrunk g (rview p) v)"
      by (rule rp.bind_rule [OF Cons.IH [OF q(1)]]) (use q(2) in \<open>auto intro: shrunk_trans\<close>)
  qed auto
qed

lemma pushes_always: "rgood p \<Longrightarrow> list_pool t \<Longrightarrow> rp.always (for_each (rp_push P g t) js) p (\<lambda>_. True)
    (put_list (rview p) g t (rev (ids js) @ lists (rview p) (g, t)))"
proof (induction js arbitrary: p)
  case Nil
  then show ?case using put_list_simps(5) [of "rview p" g t] by (simp add: rp.always_ret_rule)
next
  case (Cons j js)
  show ?case
    unfolding for_each.simps
    by (rule rp.always_seq_rule [OF push_always [OF Cons.prems]], rule rp.always_weaken_rule [OF Cons.IH])
      (use Cons.prems in auto)
qed

text \<open>The active pool is out of reach of what refills the ready pool.\<close>

abbreviation active_kept :: "nat \<Rightarrow> rpools \<Rightarrow> rpools \<Rightarrow> bool" where
  "active_kept g v w \<equiv> active w g = active v g"

lemma refill_validation_sat:
  assumes "rgood p"
  shows "rp.sat (logged (refillReadyFromValidation P g n)) p (\<lambda>r v. r = Inr () \<and> active_kept g (rview p) v)"
proof (rule rp.logged_rule)
  have ls: "rp.always (rp_listValidationKeys P g) p (\<lambda>_. True) (rview p)"
    unfolding rp_listValidationKeys_def
    by (rule rp.always_seq_rule [OF rp.always_wrap_rule [OF members_always [OF assms]]])
      (simp add: rp.always_ret_rule)
  have mv: "rp.sat (rp_moveToReadyPool P g ys) q (\<lambda>r v. active_kept g (rview p) v)"
    if "rgood q" "active_kept g (rview p) (rview q)" for q ys
  proof -
    have "rp.sat (for_each (rp_push P g PoolTypeReady) ys) q (\<lambda>r v. active_kept g (rview p) v)"
      using pushes_always [OF that(1), of PoolTypeReady g ys] that(2)
      unfolding rp.always_def by (auto elim!: rp.weaken_rule)
    then show ?thesis by (simp add: rp.sat_def move_ready_eq [OF that(1)])
  qed
  show "rp.sat (refillReadyFromValidation P g n) p (\<lambda>r v. active_kept g (rview p) v)"
    unfolding refillReadyFromValidation_def
  proof (rule rp.always_bind_rule [OF ls])
    fix q ks
    assume q: "rgood q" "rview q = rview p"
    show "rp.sat (if ks = [] then ret ()
        else bindE (check_candidates P g (take (nat n) ks)) (\<lambda>validatedKeys.
          if validatedKeys = [] then ret () else rp_moveToReadyPool P g validatedKeys)) q
        (\<lambda>r v. active_kept g (rview p) v)"
      using q by (auto intro!: rp.bind_rule [OF candidates_sat] mv simp: shrunk_def)
  qed
qed

lemma refill_ready_sat:
  assumes "rgood p"
  shows "rp.sat (refill_ready P now g c) p (\<lambda>r v. r = Inr () \<and> active_kept g (rview p) v)"
proof -
  have size: "rp.always (rp_getPoolSize P g PoolTypeReady) p (\<lambda>n. n = 0) (rview p)"
    using assms by (simp add: rp_getPoolSize_def rp.always_ret_rule)
  show ?thesis
    unfolding refill_ready_def Let_def
  proof (rule rp.always_bind_rule [OF rp.always_wrap_rule [OF size]])
    fix q and n :: int
    assume q: "rgood q" "rview q = rview p" and "n = 0"
    have db: "rp.sat (logged (refillFromDatabase P now g m)) q1
        (\<lambda>r v. r = Inr () \<and> active_kept g (rview p) v)"
      if "rgood q1" "active_kept g (rview p) (rview q1)" for q1 m
      using that by (auto intro!: rp.logged_rule rp.weaken_rule [OF database_refill_rule])
    show "rp.sat (if MinReadyKeys c - n > 0
        then bindE (logged (refillReadyFromValidation P g (MinReadyKeys c - n)))
               (\<lambda>_. logged (refillFromDatabase P now g (MinReadyKeys c - n)))
        else ret ()) q (\<lambda>r v. r = Inr () \<and> active_kept g (rview p) v)"
      using q by (auto intro!: rp.bind_rule [OF refill_validation_sat] db)
  qed
qed

lemma move_active_always: "rgood p \<Longrightarrow> set (ready (rview p) g) \<subseteq> id_texts \<Longrightarrow>
    rp.always (rp_moveToActivePool P g n) p (\<lambda>_. True)
      (put_lists (rview p) g (refill_lists n (ready (rview p) g) (active (rview p) g)))"
proof (induction n arbitrary: p)
  case 0
  then show ?case by (simp add: rp.always_ret_rule put_lists_same)
next
  case (Suc n)
  let ?r = "ready (rview p) g" and ?a = "active (rview p) g"
  show ?case
    unfolding rp_moveToActivePool.simps rp.always_def
  proof (rule rp.catch_rule [OF rotate_rule [OF Suc.prems(1)]])
    fix q and r :: "lp_err + string"
    assume q: "rgood q" "if lists (rview p) (g, PoolTypeReady) = []
        then r = Inl (StoreErr ErrNotFound) \<and> rview q = rview p
        else r = Inr (last (lists (rview p) (g, PoolTypeReady))) \<and>
             rview q = put_list (rview p) g PoolTypeReady (rot (lists (rview p) (g, PoolTypeReady)))"
    let ?Q = "\<lambda>r v. (\<exists>x. r = Inr x \<and> True) \<and> v = put_lists (rview p) g (refill_lists (Suc n) ?r ?a)"
    show "rp.sat (case r of Inl e \<Rightarrow> if e = StoreErr ErrNotFound then ret [] else fail e
        | Inr t \<Rightarrow> (case ParseUint t of (_, Some _) \<Rightarrow> rp_moveToActivePool P g n
           | (kid, None) \<Rightarrow> bindE (rp_push P g PoolTypeActive kid) (\<lambda>_.
               bindE (rp_moveToActivePool P g n) (\<lambda>moved. ret (kid # moved))))) q ?Q"
    proof (cases "?r = []")
      case True
      then show ?thesis using q put_lists_same [of "rview p" g "[]" ?a] by simp
    next
      case False
      have l: "last ?r \<in> id_texts" using Suc.prems(2) False last_in_set by blast
      obtain k where k: "last ?r = show_nat k" "ParseUint (last ?r) = (k, None)"
        using l by (rule id_textsE)
      have r: "r = Inr (last ?r)" "rview q = put_list (rview p) g PoolTypeReady (rot ?r)"
        using q(2) False by simp_all
      have "rp.sat (bindE (rp_push P g PoolTypeActive k) (\<lambda>_.
          bindE (rp_moveToActivePool P g n) (\<lambda>moved. ret (k # moved)))) q ?Q"
      proof (rule rp.always_bind_rule [OF push_always [OF q(1)]], simp)
        fix q2
        assume q2: "rgood q2" "rview q2 = put_list (rview q) g PoolTypeActive
          (show_nat k # lists (rview q) (g, PoolTypeActive))"
        have "rp.always (rp_moveToActivePool P g n) q2 (\<lambda>_. True)
            (put_lists (rview p) g (refill_lists (Suc n) ?r ?a))"
          by (rule rp.always_weaken_rule [OF Suc.IH [OF q2(1)]])
            (use q2(2) r(2) k Suc.prems(2) False rot_props(1) in \<open>auto simp: put_list_swap\<close>)
        then show "rp.sat (bindE (rp_moveToActivePool P g n) (\<lambda>moved. ret (k # moved))) q2 ?Q"
          by (rule rp.always_bind_rule) simp
      qed
      then show ?thesis using r(1) k(2) by simp
    qed
  qed simp
qed

lemma refill_sat:
  assumes "rgood p" "set (ready (rview p) g) \<subseteq> id_texts"
  shows "rp.sat (rp_RefillPools P now g) p (\<lambda>r v. r = Inr () \<and>
    active v g = snd (refill_lists (refill_count (cfg p g) 0) (ready (rview p) g) (active (rview p) g)))"
    (is "rp.sat _ _ ?Q")
proof -
  obtain p0 c where g: "lp_getGroupConfig g p = (p0, c)" by fastforce
  note c = rp.config_rule [OF g]
  have p0: "rgood p0" "rview p0 = rview p" "frame p p0" using c assms(1) by simp_all
  have size: "rp.always (rp_getPoolSize P g PoolTypeActive) p0 (\<lambda>n. n = 0) (rview p)"
    using p0 by (simp add: rp_getPoolSize_def rp.always_ret_rule)
  have "rp.sat (bindE (wrap ErrorTypeStorage ''GET_ACTIVE_COUNT_FAILED'' (rp_getPoolSize P g PoolTypeActive))
        (\<lambda>activeCount.
          let needRefill = MinActiveKeys c - activeCount in
          if needRefill \<le> 0 then ret ()
          else let n = (if needRefill > RefillBatchSize c then RefillBatchSize c else needRefill) in
               bindE (wrap ErrorTypeStorage ''MOVE_TO_ACTIVE_FAILED'' (rp_moveToActivePool P g (nat n)))
                 (\<lambda>_. refill_ready P now g c))) p0 ?Q"
  proof (rule rp.always_bind_rule [OF rp.always_wrap_rule [OF size]])
    fix q and n :: int
    assume q: "rgood q" "rview q = rview p" and n: "n = 0"
    show "rp.sat (let needRefill = MinActiveKeys c - n in
          if needRefill \<le> 0 then ret ()
          else let n = (if needRefill > RefillBatchSize c then RefillBatchSize c else needRefill) in
               bindE (wrap ErrorTypeStorage ''MOVE_TO_ACTIVE_FAILED'' (rp_moveToActivePool P g (nat n)))
                 (\<lambda>_. refill_ready P now g c)) q ?Q"
    proof (cases "MinActiveKeys c \<le> 0")
      case True
      then show ?thesis using q n c by (simp add: refill_count_def)
    next
      case False
      have cnt: "nat (if MinActiveKeys c > RefillBatchSize c then RefillBatchSize c else MinActiveKeys c) =
          refill_count (cfg p g) 0"
        using c by (simp add: refill_count_def min_def)
      have "rp.sat (bindE (wrap ErrorTypeStorage ''MOVE_TO_ACTIVE_FAILED''
          (rp_moveToActivePool P g (refill_count (cfg p g) 0))) (\<lambda>_. refill_ready P now g c)) q ?Q"
        by (rule rp.always_bind_rule [OF rp.always_wrap_rule [OF move_active_always [OF q(1)]]],
            use assms(2) q(2) in simp, rule rp.weaken_rule [OF refill_ready_sat]) (use q in auto)
      then show ?thesis using False n cnt by (simp add: Let_def)
    qed
  qed
  then show ?thesis
    unfolding rp_RefillPools_def [abs_def] using g p0(3) frame_trans
    by (auto simp: rp.sat_def split: prod.splits)
qed

section \<open>A key that is added is served\<close>

lemma detail_values:
  assumes "gget h = hash_put_by text_of (detail_fields k g row) Map.empty"
  shows "gget h ''key_value'' = Some (KeyValue row)" "field_text h ''status'' = Status row"
    "field_text h ''request_count'' = show_int (RequestCount row)"
    "field_text h ''failure_count'' = show_int (FailureCount row)"
    "field_text h ''rate_limit_count'' = show_int (RateLimitCount row)"
    "field_text h ''created_at'' = show_int (unix (CreatedAt row))"
    "field_text h ''last_used_at'' = (case LastUsedAt row of None \<Rightarrow> [] | Some t \<Rightarrow> show_int (unix t))"
    "field_text h ''last_429_at'' = (case Last429At row of None \<Rightarrow> [] | Some t \<Rightarrow> show_int (unix t))"
    "field_text h ''rate_limit_reset_at'' =
      (case RateLimitResetAt row of None \<Rightarrow> [] | Some t \<Rightarrow> show_int (unix t))"
  unfolding field_text_def assms hash_put_by_apply detail_fields_def
  by (auto simp: text_uint text_int text_str split: option.splits)

lemma show_int_ne [simp]: "show_int i \<noteq> []"
  by (simp add: show_int_def)

lemma built_row:
  fixes q :: "'s rp"
  assumes "built q k g (hash_put_by text_of (detail_fields k g row) Map.empty) r"
    and "storable_row row" "ID row = k" "GroupID row = g"
  shows "r = Inr (stored_key row)"
proof -
  obtain h where h: "gget h = hash_put_by text_of (detail_fields k g row) Map.empty"
      "rp_buildAPIKeyFromDetails k g h q = (q, r)"
    using assms(1) by (auto simp: built_def)
  note v = detail_values [OF h(1)]
  have t: "details_time h f = map_option to_seconds x"
    if "field_text h f = (case x of None \<Rightarrow> [] | Some t \<Rightarrow> show_int (unix t))" "pred_option (in_i64 \<circ> unix) x" for f x
    using that by (cases x) (simp_all add: details_time_def opt_time_def to_seconds_def Let_def)
  have c: "details_time h ''created_at'' = Some (to_seconds (CreatedAt row))"
    using t [of "''created_at''" "Some (CreatedAt row)"] v(6) assms(2) by (simp add: storable_row_def)
  have "rp_buildAPIKeyFromDetails k g h = (ret (stored_key row) :: ('s, PoolKey) ract)"
    using assms(2,3,4) v(1-5) c t [OF v(7)] t [OF v(8)] t [OF v(9)]
    by (cases row) (simp add: rp_buildAPIKeyFromDetails_def stored_key_def storable_row_def)
  then show ?thesis using h(2) by (simp add: ret_def)
qed

lemma sync_sat:
  assumes "rgood p" "lfaults p = []" "find (\<lambda>x. ID x = k) (ldb p) = Some row"
  shows "rp.sat (logged (syncKeyDetails P k g)) p (\<lambda>r v. r = Inr () \<and> v = (rview p)\<lparr>infos :=
    (infos (rview p))(k := hash_put_by text_of (detail_fields k g row) (infos (rview p) k))\<rparr>)"
  unfolding syncKeyDetails_def detail_fields_def [symmetric]
proof (rule rp.logged_rule, rule rp.bind_rule [OF rp.first_key_rule [OF assms(1)]])
  fix q x
  assume q: "rgood q" and x: "rview q = rview p \<and>
    (Inr x = (case find (\<lambda>x. ID x = k) (ldb p) of None \<Rightarrow> Inl RecordNotFound | Some x \<Rightarrow> Inr x) \<or>
     lfaults p \<noteq> [] \<and> (\<exists>e. Inr x = Inl (DbErr e)))"
  then have "x = row" using assms(2,3) by simp
  then show "rp.sat (rp_setKeyDetails P k (detail_fields k g x)) q (\<lambda>r v. v = (rview p)\<lparr>infos :=
    (infos (rview p))(k := hash_put_by text_of (detail_fields k g row) (infos (rview p) k))\<rparr>)"
    using set_details_always [OF q, of k "detail_fields k g row"] x
    unfolding rp.always_def by (auto elim: rp.weaken_rule)
qed (use assms in auto)

lemma find_filter: "filter Q xs = [x] \<Longrightarrow> find Q xs = Some x"
  by (induction xs) (auto split: if_splits)

lemma added_key_served:
  assumes "rgood p" "lfaults p = []" "filter (\<lambda>x. ID x = k) (ldb p) = [row]"
    and "GroupID row = g" "usable_status row" "storable_row row" "k \<le> 18446744073709551615"
    and "active (rview p) g = []" "infos (rview p) k = Map.empty"
  shows "\<exists>p1 p2. rp_addKeysToPool P g [k] PoolTypeActive p = (p1, Inr ()) \<and>
    rp_SelectKey P now g p1 = (p2, Inr (stored_key row))"
proof -
  let ?info = "hash_put_by text_of (detail_fields k g row) Map.empty"
  let ?Q = "\<lambda>r v. r = Inr () \<and> active v g = [show_nat k] \<and> infos v k = ?info"
  have "row \<in> set (filter (\<lambda>x. ID x = k) (ldb p))" unfolding assms(3) by simp
  then have row: "ID row = k" by simp
  have fk: "filter (\<lambda>x. ID x \<in> set [k] \<and> GroupID x = g) (ldb p) = [row]"
  proof -
    have "filter (\<lambda>x. ID x \<in> set [k] \<and> GroupID x = g) (ldb p) =
        filter (\<lambda>x. GroupID x = g) (filter (\<lambda>x. ID x = k) (ldb p))" by (simp add: conj_commute)
    then show ?thesis using assms(3,4) by simp
  qed
  have add: "rp.sat (rp_addToActivePool P g [k]) q ?Q" if "rgood q" "rview q = rview p" "frame p q" for q
  proof -
    have "rp.sat (bindE (wrap ErrorTypeStorage ''LPUSH_FAILED'' (rp_push P g PoolTypeActive k)) (\<lambda>_.
        logged (syncKeyDetails P k g))) q ?Q"
    proof (rule rp.always_bind_rule [OF rp.always_wrap_rule [OF push_always [OF that(1)]]], simp)
      fix q1
      assume q1: "rgood q1" "frame q q1" "rview q1 = put_list (rview q) g PoolTypeActive
        (show_nat k # lists (rview q) (g, PoolTypeActive))"
      have "lfaults q1 = []" "find (\<lambda>x. ID x = k) (ldb q1) = Some row"
        using find_filter [OF assms(3)] assms(2) that(3) q1(2) by (simp_all add: frame_def)
      then show "rp.sat (logged (syncKeyDetails P k g)) q1 ?Q"
        by (rule rp.weaken_rule [OF sync_sat [OF q1(1)]]) (use q1(3) that(2) assms(8,9) in simp)
    qed
    then show ?thesis
      by (simp add: rp_addToActivePool_def rp_addToListPool_def bindE_def ret_def rp.sat_def
          split: prod.splits sum.splits)
  qed
  have "rp.sat (rp_addKeysToPool P g [k] PoolTypeActive) p ?Q"
    unfolding rp_addKeysToPool_def
    by (simp, rule rp.bind_rule [OF rp.wrap_rule [OF rp.find_keys_rule [OF assms(1)], where
          Q = "\<lambda>r v. v = rview p \<and> r = Inr [row]"]])
      (use fk assms(2,5) row add in \<open>auto simp: Let_def\<close>)
  then obtain p1 where p1: "rp_addKeysToPool P g [k] PoolTypeActive p = (p1, Inr ())" "rgood p1"
      "active (rview p1) g = [show_nat k]" "infos (rview p1) k = ?info"
    using rp.dest_rule by blast
  have a: "active (rview p1) g \<noteq> []" "set (active (rview p1) g) \<subseteq> id_texts"
    using p1(3) assms(7) by (auto simp: id_texts_def)
  obtain p2 r j where p2: "rp_SelectKey P now g p1 = (p2, r)" "last (active (rview p1) g) = show_nat j"
      "built p1 j g (infos (rview p1) j) r"
    using rp.dest_rule [OF select_sat [OF p1(2) a, of now p1]] by blast
  have "j = k" using p2(2) p1(3) show_nat_inj by auto
  then have "r = Inr (stored_key row)"
    using built_row [OF _ assms(6) row assms(4)] p2(3) p1(4) by simp
  then show ?thesis using p1(1) p2(1) by blast
qed

end

end
