(* ===== verification/RedisWitness.thy ===== *)
theory RedisWitness
  imports RedisServe
begin

text \<open>The properties of the layered pool over an interface store, and a concrete pool over the
  in-memory store to which they apply.\<close>

section \<open>Properties\<close>

text \<open>Selection goes round the active pool, over any store that keeps the contract: as many
  selections as the pool has entries return the key of every entry once, oldest first, each with
  the value stored for it, and leave all pools as they were.\<close>

lemma redis_select_round_robin:
  assumes "redis_pool P ok obs text_of" "ok (rstore p)" "rp_typed P (obs (rstore p))"
    and "active (rp_aview P (obs (rstore p))) g = ids ks" "list_all (\<lambda>k. k \<le> 18446744073709551615) ks"
    and "\<And>k. k \<in> set ks \<Longrightarrow> infos (rp_aview P (obs (rstore p))) k ''key_value'' \<noteq> None"
  shows "\<exists>p' keys. run_ops (\<lambda>_::unit. rp_SelectKey P now g) (replicate (length ks) ()) p = (p', map Inr keys) \<and>
    map ID keys = rev ks \<and>
    map (\<lambda>key. Some (KeyValue key)) keys =
      map (\<lambda>key. infos (rp_aview P (obs (rstore p))) (ID key) ''key_value'') keys \<and>
    rp_aview P (obs (rstore p')) = rp_aview P (obs (rstore p))"
proof -
  let ?v = "rp_aview P (obs (rstore p))"
  obtain p' keys where r: "run_ops (\<lambda>_::unit. rp_SelectKey P now g) (replicate (length ks) ()) p =
        (p', map Inr keys)" "map ID keys = rev ks"
      "rp_aview P (obs (rstore p')) = put_list ?v g PoolTypeActive (ids ks)"
      "list_all (\<lambda>key. infos ?v (ID key) ''key_value'' = Some (KeyValue key) \<and> GroupID key = g) keys"
    using redis_pool.selects_suffix [OF assms(1), of "[]" ks p g now] assms(2-6) by auto
  have "put_list ?v g PoolTypeActive (ids ks) = ?v"
    using put_list_simps(5) [of ?v g PoolTypeActive] assms(4) by simp
  then show ?thesis using r by (auto simp: list_all_iff)
qed

text \<open>A refill does not look at how many keys are active: every call pushes as many entries into
  the active pool as the configuration allows, unless the ready pool is empty, and fails in no
  case, a database failure included. Repeated maintenance makes the pool grow without bound.\<close>

lemma redis_refill_ignores_size:
  assumes "redis_pool P ok obs text_of" "ok (rstore p)" "rp_typed P (obs (rstore p))"
    and "set (ready (rp_aview P (obs (rstore p))) g) \<subseteq> id_texts"
  shows "\<exists>p'. rp_RefillPools P now g p = (p', Inr ()) \<and>
    length (active (rp_aview P (obs (rstore p'))) g) =
      length (active (rp_aview P (obs (rstore p))) g) +
      (if ready (rp_aview P (obs (rstore p))) g = [] then 0
       else nat (min (MinActiveKeys (cfg p g)) (RefillBatchSize (cfg p g))))"
  using pool_logic.dest_rule [OF _ redis_pool.refill_sat [OF assms(1) conjI [OF assms(2,3)] assms(4), of now]]
  by (fastforce simp: refill_lists_props(2) refill_count_def pool_logic_def intro: frame_trans)

text \<open>A usable row that is added to the active pool of its group, when the pool is empty and the
  key has no details yet, is what the next selection returns, every column included, with its
  times cut to the second.\<close>

lemma redis_added_key_served:
  assumes "redis_pool P ok obs text_of" "ok (rstore p)" "rp_typed P (obs (rstore p))"
    and "lfaults p = []" "filter (\<lambda>x. ID x = k) (ldb p) = [row]"
    and "GroupID row = g" "usable_status row" "storable_row row" "k \<le> 18446744073709551615"
    and "active (rp_aview P (obs (rstore p))) g = []" "infos (rp_aview P (obs (rstore p))) k = Map.empty"
  shows "\<exists>p1 p2. rp_addKeysToPool P g [k] PoolTypeActive p = (p1, Inr ()) \<and>
    rp_SelectKey P now g p1 = (p2, Inr (stored_key row))"
  by (rule redis_pool.added_key_served [OF assms(1) conjI [OF assms(2,3)] assms(4-11)])

section \<open>A pool over the in-memory store\<close>

definition demo_redis :: "mstore RedisLayeredPool" where
  "demo_redis = \<lparr>rpStore = mem_ops id 0, rpConfig = DefaultRedisPoolConfig, rpValidator = None\<rparr>"

interpretation redis_demo_pool: redis_pool demo_redis mem_inv mem_abs Sprint
  unfolding redis_pool_def demo_redis_def using mem_ops_contract [OF iter_order_id(1)] by simp

definition redis_start :: "mstore rp" where
  "redis_start = \<lparr>ldb = [\<lparr>ID = 7, KeyValue = ''sk'', GroupID = 2, Status = KeyStatusActive, FailureCount = 0,
     RateLimitCount = 0, Last429At = None, RateLimitResetAt = None, CreatedAt = 0,
     RequestCount = 0, LastUsedAt = None, UpdatedAt = 0\<rparr>], lgroups = [2], lfaults = [], groupConfigs = [],
     rstore = NewMemoryStore\<rparr>"

lemma redis_start_good: "mem_inv (rstore redis_start)" "rp_typed demo_redis (mem_abs (rstore redis_start))"
  "rp_aview demo_redis (mem_abs (rstore redis_start)) = \<lparr>vals = \<lambda>_. {}, lists = \<lambda>_. [],
     cools = \<lambda>_. Map.empty, infos = \<lambda>_. Map.empty, cooling_at = \<lambda>_. None\<rparr>"
  by (auto simp: redis_start_def NewMemoryStore_def mem_inv_def rp_typed_def mem_abs_def rp_aview_def fun_eq_iff)

lemma redis_added_key_served_demo:
  "\<exists>p1 p2 key. rp_addKeysToPool demo_redis 2 [7] PoolTypeActive redis_start = (p1, Inr ()) \<and>
    rp_SelectKey demo_redis 0 2 p1 = (p2, Inr key) \<and> KeyValue key = ''sk''"
  using redis_added_key_served [OF redis_demo_pool.redis_pool_axioms redis_start_good(1,2), of 7 _ 2]
    redis_start_good(3)
  by (fastforce simp: redis_start_def usable_status_def storable_row_def stored_key_def in_i64_def unix_def
      KeyStatusActive_def)

text \<open>A state with the key 7 in the active pool of group 2 and the key 9 in its ready pool.\<close>

definition redis_demo :: "mstore rp \<Rightarrow> bool" where
  "redis_demo p \<longleftrightarrow> mem_inv (rstore p) \<and> rp_typed demo_redis (mem_abs (rstore p)) \<and>
     cfg p = DefaultPoolConfig \<and>
     active (rp_aview demo_redis (mem_abs (rstore p))) 2 = ids [7] \<and>
     ready (rp_aview demo_redis (mem_abs (rstore p))) 2 = ids [9] \<and>
     infos (rp_aview demo_redis (mem_abs (rstore p))) 7 = [''group_id'' \<mapsto> ''2'', ''key_value'' \<mapsto> ''sk''] \<and>
     absent 7 (put_list (rp_aview demo_redis (mem_abs (rstore p))) 2 PoolTypeActive [])"

lemma redis_texts [simp]: "show_nat 7 = ''7''" "show_nat 9 = ''9''" "show_nat 2 = ''2''"
  by code_simp+

lemma redis_ids [simp]: "ParseUint ''9'' = (9, None)" "ParseUint ''2'' = (2, None)"
  using ParseUint_show [of 9] ParseUint_show [of 2] by simp_all

lemma redis_demo_exists: "\<exists>p. redis_demo p"
proof -
  let ?vs = "[(''group_id'', AUint 2), (''key_value'', AStr ''sk'')]"
  have p0: "mem_inv (rstore redis_start) \<and> rp_typed demo_redis (mem_abs (rstore redis_start))"
    using redis_start_good(1,2) by simp
  obtain p1 where p1: "redis_demo_pool.rgood p1" "frame redis_start p1" "redis_demo_pool.rview p1 = (redis_demo_pool.rview redis_start)\<lparr>infos :=
      (infos (redis_demo_pool.rview redis_start))(7 := hash_put_by Sprint ?vs (infos (redis_demo_pool.rview redis_start) 7))\<rparr>"
    using redis_demo_pool.rp.always_dest [OF redis_demo_pool.set_details_always [OF p0, of 7 ?vs]] by blast
  obtain p2 where p2: "redis_demo_pool.rgood p2" "frame p1 p2" "redis_demo_pool.rview p2 = put_list (redis_demo_pool.rview p1) 2 PoolTypeActive
      (show_nat 7 # active (redis_demo_pool.rview p1) 2)"
    using redis_demo_pool.rp.always_dest [OF redis_demo_pool.push_always [OF p1(1), of PoolTypeActive 2 7]] by blast
  obtain p3 where p3: "redis_demo_pool.rgood p3" "frame p2 p3" "redis_demo_pool.rview p3 = put_list (redis_demo_pool.rview p2) 2 PoolTypeReady
      (show_nat 9 # ready (redis_demo_pool.rview p2) 2)"
    using redis_demo_pool.rp.always_dest [OF redis_demo_pool.push_always [OF p2(1), of PoolTypeReady 2 9]] by blast
  have "cfg redis_start = DefaultPoolConfig" by (simp add: cfg_def redis_start_def fun_eq_iff)
  then have "cfg p3 = DefaultPoolConfig" using p1(2) p2(2) p3(2) by (simp add: frame_def)
  then have "redis_demo p3"
    using p3(1)
    by (simp add: redis_demo_def p3(3) p2(3) p1(3) redis_start_good(3) absent_def put_list_def
        hash_put_by_def)
  then show ?thesis by blast
qed

lemma redis_select_round_robin_demo:
  "\<exists>p p' key. run_ops (\<lambda>_::unit. rp_SelectKey demo_redis 0 2) [()] p = (p', [Inr key]) \<and>
    ID key = 7 \<and> KeyValue key = ''sk''"
proof -
  obtain p where p: "redis_demo p" using redis_demo_exists by blast
  show ?thesis
    using redis_select_round_robin [OF redis_demo_pool.redis_pool_axioms, of p 2 "[7]" 0] p
    by (fastforce simp: redis_demo_def)
qed

lemma redis_refill_ignores_size_demo:
  "\<exists>p p'. active (rp_aview demo_redis (mem_abs (rstore p))) 2 = [''7''] \<and>
    rp_RefillPools demo_redis 0 2 p = (p', Inr ()) \<and>
    length (active (rp_aview demo_redis (mem_abs (rstore p'))) 2) = 6"
proof -
  obtain p where p: "redis_demo p" using redis_demo_exists by blast
  have "''9'' \<in> id_texts" using imageI [of 9 "{..18446744073709551615}" show_nat] by (simp add: id_texts_def)
  then show ?thesis
    using redis_refill_ignores_size [OF redis_demo_pool.redis_pool_axioms, of p 2 0] p
    by (fastforce simp: redis_demo_def DefaultPoolConfig_def)
qed

text \<open>A copy in the ready pool comes back: the next refill pushes it into the active pool, whatever
  its details say, because only the details of a candidate from the validation set or the database
  are looked at.\<close>

lemma redis_copy_reactivated:
  assumes "redis_pool P ok obs text_of" "ok (rstore p)" "rp_typed P (obs (rstore p))"
    and "ready (rp_aview P (obs (rstore p))) g = ids [k]" "k \<le> 18446744073709551615"
    and "0 < MinActiveKeys (cfg p g)" "0 < RefillBatchSize (cfg p g)"
  shows "\<exists>p'. rp_RefillPools P now g p = (p', Inr ()) \<and>
    show_nat k \<in> set (active (rp_aview P (obs (rstore p'))) g)"
proof -
  let ?v = "rp_aview P (obs (rstore p))"
  have k: "set (ready ?v g) \<subseteq> id_texts" using assms(4,5) by (auto simp: id_texts_def)
  obtain n where n: "refill_count (cfg p g) 0 = Suc n"
    using assms(6,7) by (cases "refill_count (cfg p g) 0") (auto simp: refill_count_def)
  have "show_nat k \<in> set (snd (refill_lists (Suc n) (ready ?v g) (active ?v g)))"
    using assms(4) subsetD [OF refill_lists_props(4)] by simp
  then show ?thesis
    using pool_logic.dest_rule [OF _ redis_pool.refill_sat [OF assms(1) conjI [OF assms(2,3)] k, of now]] n
    by (fastforce simp: pool_logic_def intro: frame_trans)
qed

theorem redis_rate_limit_is_forever_witness:
  "\<exists>p p1 q. active (rp_aview demo_redis (mem_abs (rstore p))) 2 = [''7''] \<and>
    rp_HandleRateLimit demo_redis 0 7 1000000000 None p = (p1, Inr ()) \<and>
    active (rp_aview demo_redis (mem_abs (rstore p1))) 2 = [] \<and>
    rp_reach demo_redis 7 p1 q \<and> q = fst (rp_performMaintenance demo_redis 5000000000 p1) \<and>
    map_sum id ID (snd (rp_SelectKey demo_redis 6000000000 2 q)) \<noteq> Inr 7"
proof -
  obtain p where p: "redis_demo p" using redis_demo_exists by blast
  have g: "in_group (rp_aview demo_redis (mem_abs (rstore p))) 7 2"
    using p by (simp add: redis_demo_def in_group_def)
  have a: "active (rp_aview demo_redis (mem_abs (rstore p))) 2 = [''7'']"
    using p by (simp add: redis_demo_def)
  obtain p1 where p1: "rp_HandleRateLimit demo_redis 0 7 1000000000 None p = (p1, Inr ())"
    "lists (rp_aview demo_redis (mem_abs (rstore p1))) =
      (lists (rp_aview demo_redis (mem_abs (rstore p))))((2, PoolTypeActive) := [])"
    "vals (rp_aview demo_redis (mem_abs (rstore p1))) = vals (rp_aview demo_redis (mem_abs (rstore p)))"
    "\<forall>q g' later. rp_reach demo_redis 7 p1 q \<longrightarrow> snd (rp_RecoverCooledKeys demo_redis g' q) = Inr 0 \<and>
      (\<forall>key. snd (rp_SelectKey demo_redis later g' q) = Inr key \<and> ID key = 7 \<longrightarrow>
        \<not> absent 7 (rp_aview demo_redis (mem_abs (rstore p1))))"
    using redis_rate_limit_is_forever [OF redis_demo_pool.redis_pool_axioms _ _ g, of 0 1000000000 None] p
    by (auto simp: redis_demo_def)
  let ?q = "fst (rp_performMaintenance demo_redis 5000000000 p1)"
  have r: "rp_reach demo_redis 7 p1 ?q"
    by (rule rp_reach_step [OF rp_reach_refl]) (rule rp_step.intros)
  have "absent 7 (rp_aview demo_redis (mem_abs (rstore p1)))"
    using p p1(2,3) by (simp add: redis_demo_def absent_def put_list_def)
  then have "map_sum id ID (snd (rp_SelectKey demo_redis 6000000000 2 ?q)) \<noteq> Inr 7"
    using p1(4) r by (cases "snd (rp_SelectKey demo_redis 6000000000 2 ?q)") auto
  then show ?thesis using a p1(1,2) r by fastforce
qed

end
