(* ===== verification/RedisBatch.thy ===== *)
theory RedisBatch
  imports RedisWitness
begin

text \<open>The batches of the Redis pool (src/internal/keypool/redis_batch_ops.go). On a store that
  pipelines, the commands of all operations are collected first, then executed, and the details of
  the keys are handled after that; on another store the operations are executed one by one.\<close>

section \<open>The commands of an operation\<close>

definition set_members :: "nat list \<Rightarrow> goany list" where
  "set_members kids = map AUint kids"

definition addAddKeysOperationToPipeline ::
  "'s RedisLayeredPool \<Rightarrow> BatchOperation \<Rightarrow> lp_err + pipe_cmd list" where
  "addAddKeysOperationToPipeline P op =
    (let kids = boKeyIDs op; gid = boGroupID op in
     if kids = [] then Inr []
     else let poolType = (if ToPool op = PoolTypeOther [] then PoolTypeValidation else ToPool op) in
     case poolType of
       PoolTypeValidation \<Rightarrow> Inr [PipeSAdd (rp_getRedisKey P gid PoolTypeValidation) (set_members kids)]
     | PoolTypeReady \<Rightarrow> Inr (map (\<lambda>k. PipeLPush (rp_getRedisKey P gid PoolTypeReady) [AUint k]) kids)
     | PoolTypeActive \<Rightarrow> Inr (map (\<lambda>k. PipeLPush (rp_getRedisKey P gid PoolTypeActive) [AUint k]) kids)
     | PoolTypeCooling \<Rightarrow> Inl (PoolError ErrorTypeValidation ''INVALID_POOL_TYPE'' None)
     | PoolTypeOther _ \<Rightarrow> Inr [])"

definition addRemoveKeysOperationToPipeline ::
  "'s RedisLayeredPool \<Rightarrow> BatchOperation \<Rightarrow> pipe_cmd list" where
  "addRemoveKeysOperationToPipeline P op =
    (let kids = boKeyIDs op; gid = boGroupID op in
     if kids = [] then []
     else [PipeSRem (rp_getRedisKey P gid PoolTypeValidation) (set_members kids)] @
       map (\<lambda>k. PipeLRem (rp_getRedisKey P gid PoolTypeReady) 0 (AUint k)) kids @
       map (\<lambda>k. PipeLRem (rp_getRedisKey P gid PoolTypeActive) 0 (AUint k)) kids)"

definition addMoveKeysOperationToPipeline ::
  "'s RedisLayeredPool \<Rightarrow> BatchOperation \<Rightarrow> pipe_cmd list" where
  "addMoveKeysOperationToPipeline P op =
    (let kids = boKeyIDs op; gid = boGroupID op in
     if kids = [] \<or> FromPool op = ToPool op then []
     else
       (case FromPool op of
          PoolTypeValidation \<Rightarrow> [PipeSRem (rp_getRedisKey P gid PoolTypeValidation) (set_members kids)]
        | PoolTypeReady \<Rightarrow> map (\<lambda>k. PipeLRem (rp_getRedisKey P gid PoolTypeReady) 0 (AUint k)) kids
        | PoolTypeActive \<Rightarrow> map (\<lambda>k. PipeLRem (rp_getRedisKey P gid PoolTypeActive) 0 (AUint k)) kids
        | _ \<Rightarrow> []) @
       (case ToPool op of
          PoolTypeValidation \<Rightarrow> [PipeSAdd (rp_getRedisKey P gid PoolTypeValidation) (set_members kids)]
        | PoolTypeReady \<Rightarrow> map (\<lambda>k. PipeLPush (rp_getRedisKey P gid PoolTypeReady) [AUint k]) kids
        | PoolTypeActive \<Rightarrow> map (\<lambda>k. PipeLPush (rp_getRedisKey P gid PoolTypeActive) [AUint k]) kids
        | PoolTypeCooling \<Rightarrow>
            (case boMetadata op of
               Dynamic coolData \<Rightarrow> concat (map (\<lambda>k. case gget coolData k of
                   None \<Rightarrow> []
                 | Some resetAt \<Rightarrow> [PipeZAdd (rp_getRedisKey P gid PoolTypeCooling) [(AUint k, unix resetAt)]]) kids)
             | _ \<Rightarrow> [])
        | PoolTypeOther _ \<Rightarrow> []))"

definition addOperationToPipeline ::
  "'s RedisLayeredPool \<Rightarrow> BatchOperation \<Rightarrow> lp_err + pipe_cmd list" where
  "addOperationToPipeline P op =
    (case boType op of
       BatchOpAddKeys \<Rightarrow> addAddKeysOperationToPipeline P op
     | BatchOpRemoveKeys \<Rightarrow> Inr (addRemoveKeysOperationToPipeline P op)
     | BatchOpMoveKeys \<Rightarrow> Inr (addMoveKeysOperationToPipeline P op)
     | BatchOpSyncKeys \<Rightarrow> Inr []
     | BatchOpOther _ \<Rightarrow> Inl (PoolError ErrorTypeValidation ''UNKNOWN_BATCH_OP'' None))"

fun collect_cmds :: "'s RedisLayeredPool \<Rightarrow> BatchOperation list \<Rightarrow> lp_err + pipe_cmd list" where
  "collect_cmds P [] = Inr []"
| "collect_cmds P (op # ops) =
    (case addOperationToPipeline P op of
       Inl e \<Rightarrow> Inl (PoolError ErrorTypeInternal ''PIPELINE_BUILD_FAILED'' (Some e))
     | Inr cs \<Rightarrow> (case collect_cmds P ops of Inl e \<Rightarrow> Inl e | Inr cs' \<Rightarrow> Inr (cs @ cs')))"

section \<open>Execution\<close>

definition syncKeysFromDatabase :: "'s RedisLayeredPool \<Rightarrow> nat \<Rightarrow> nat list \<Rightarrow> ('s, unit) ract" where
  "syncKeysFromDatabase P gid kids =
    (if kids = [] then ret ()
     else bindE (wrap ErrorTypeStorage ''DB_QUERY_FAILED'' (find_keys gid kids)) (\<lambda>keys.
       for_each (\<lambda>key. logged (syncKeyDetails P (ID key) (GroupID key))) keys))"

definition post_process :: "'s RedisLayeredPool \<Rightarrow> BatchOperation \<Rightarrow> ('s, unit) ract" where
  "post_process P op =
    (case boType op of
       BatchOpRemoveKeys \<Rightarrow>
         for_each (\<lambda>k. logged (on_rstore (StDelete (rpStore P) (rp_getKeyDetailsKey P k)))) (boKeyIDs op)
     | BatchOpSyncKeys \<Rightarrow> logged (syncKeysFromDatabase P (boGroupID op) (boKeyIDs op))
     | _ \<Rightarrow> ret ())"

definition postProcessBatchOperations :: "'s RedisLayeredPool \<Rightarrow> BatchOperation list \<Rightarrow> ('s, unit) ract" where
  "postProcessBatchOperations P ops = for_each (post_process P) ops"

definition executeBatchWithPipeline ::
  "'s RedisLayeredPool \<Rightarrow> (pipe_cmd list \<Rightarrow> 's \<Rightarrow> 's \<times> unit sres) \<Rightarrow> BatchOperation list \<Rightarrow> ('s, unit) ract" where
  "executeBatchWithPipeline P exec ops =
    (case collect_cmds P ops of
       Inl e \<Rightarrow> fail e
     | Inr cs \<Rightarrow> bindE (wrap ErrorTypeStorage ''PIPELINE_EXEC_FAILED'' (on_rstore (exec cs)))
         (\<lambda>_. postProcessBatchOperations P ops))"

definition executeSingleOperation :: "'s RedisLayeredPool \<Rightarrow> BatchOperation \<Rightarrow> ('s, unit) ract" where
  "executeSingleOperation P op =
    (case boType op of
       BatchOpAddKeys \<Rightarrow> rp_addKeysToPool P (boGroupID op) (boKeyIDs op) (ToPool op)
     | BatchOpRemoveKeys \<Rightarrow> rp_RemoveKeys P (boGroupID op) (boKeyIDs op)
     | BatchOpMoveKeys \<Rightarrow> for_each (\<lambda>k. rp_MoveKey P k (FromPool op) (ToPool op)) (boKeyIDs op)
     | BatchOpSyncKeys \<Rightarrow> syncKeysFromDatabase P (boGroupID op) (boKeyIDs op)
     | BatchOpOther _ \<Rightarrow> fail (PoolError ErrorTypeValidation ''UNKNOWN_BATCH_OP'' None))"

definition executeBatchSequentially :: "'s RedisLayeredPool \<Rightarrow> BatchOperation list \<Rightarrow> ('s, unit) ract" where
  "executeBatchSequentially P ops =
    for_each (\<lambda>op. wrap ErrorTypeStorage ''SEQUENTIAL_EXEC_FAILED'' (executeSingleOperation P op)) ops"

definition ExecuteBatchOperations :: "'s RedisLayeredPool \<Rightarrow> BatchOperation list \<Rightarrow> ('s, unit) ract" where
  "ExecuteBatchOperations P ops =
    (if ops = [] then ret ()
     else case StPipeline (rpStore P) of
       None \<Rightarrow> executeBatchSequentially P ops
     | Some exec \<Rightarrow> executeBatchWithPipeline P exec ops)"

definition batch_op :: "BatchOpType \<Rightarrow> nat \<Rightarrow> nat list \<Rightarrow> PoolType \<Rightarrow> PoolType \<Rightarrow> BatchOperation" where
  "batch_op t gid kids src dst = \<lparr>boType = t, boGroupID = gid, boKeyIDs = kids, FromPool = src, ToPool = dst,
     boMetadata = NilValue\<rparr>"

definition BatchAddKeys :: "'s RedisLayeredPool \<Rightarrow> nat \<Rightarrow> nat list \<Rightarrow> PoolType \<Rightarrow> ('s, unit) ract" where
  "BatchAddKeys P gid kids t =
    (if kids = [] then ret ()
     else ExecuteBatchOperations P
       [batch_op BatchOpAddKeys gid kids (PoolTypeOther []) t,
        batch_op BatchOpSyncKeys gid kids (PoolTypeOther []) (PoolTypeOther [])])"

definition BatchMoveKeys :: "'s RedisLayeredPool \<Rightarrow> nat \<Rightarrow> nat list \<Rightarrow> PoolType \<Rightarrow> PoolType \<Rightarrow> ('s, unit) ract" where
  "BatchMoveKeys P gid kids src dst =
    (if kids = [] \<or> src = dst then ret ()
     else ExecuteBatchOperations P [batch_op BatchOpMoveKeys gid kids src dst])"

section \<open>What a batch does to the pools\<close>

fun take_from :: "nat \<Rightarrow> nat list \<Rightarrow> PoolType \<Rightarrow> rpools \<Rightarrow> rpools" where
  "take_from g ks PoolTypeValidation v = v\<lparr>vals := (vals v)(g := vals v g - set (ids ks))\<rparr>"
| "take_from g ks PoolTypeReady v =
     put_list v g PoolTypeReady (filter (\<lambda>x. x \<notin> set (ids ks)) (lists v (g, PoolTypeReady)))"
| "take_from g ks PoolTypeActive v =
     put_list v g PoolTypeActive (filter (\<lambda>x. x \<notin> set (ids ks)) (lists v (g, PoolTypeActive)))"
| "take_from g ks _ v = v"

fun give_to :: "nat \<Rightarrow> nat list \<Rightarrow> PoolType \<Rightarrow> rpools \<Rightarrow> rpools" where
  "give_to g ks PoolTypeValidation v = v\<lparr>vals := (vals v)(g := vals v g \<union> set (ids ks))\<rparr>"
| "give_to g ks PoolTypeReady v = put_list v g PoolTypeReady (rev (ids ks) @ lists v (g, PoolTypeReady))"
| "give_to g ks PoolTypeActive v = put_list v g PoolTypeActive (rev (ids ks) @ lists v (g, PoolTypeActive))"
| "give_to g ks _ v = v"

text \<open>The effect of an operation on the pools, and on the details.\<close>

definition pool_eff :: "BatchOperation \<Rightarrow> rpools \<Rightarrow> rpools" where
  "pool_eff op v =
    (let g = boGroupID op; ks = boKeyIDs op in
     case boType op of
       BatchOpAddKeys \<Rightarrow> give_to g ks (if ToPool op = PoolTypeOther [] then PoolTypeValidation else ToPool op) v
     | BatchOpRemoveKeys \<Rightarrow> take_from g ks PoolTypeActive (take_from g ks PoolTypeReady
         (take_from g ks PoolTypeValidation v))
     | BatchOpMoveKeys \<Rightarrow>
         if FromPool op = ToPool op then v else give_to g ks (ToPool op) (take_from g ks (FromPool op) v)
     | _ \<Rightarrow> v)"

definition info_eff :: "(goany \<Rightarrow> string) \<Rightarrow> PoolKey list \<Rightarrow> BatchOperation \<Rightarrow> rpools \<Rightarrow> rpools" where
  "info_eff text_of rows op v =
    (case boType op of
       BatchOpRemoveKeys \<Rightarrow> v\<lparr>infos := (\<lambda>k. if k \<in> set (boKeyIDs op) then Map.empty else infos v k)\<rparr>
     | BatchOpSyncKeys \<Rightarrow> fold (\<lambda>row v. v\<lparr>infos := (infos v)(ID row :=
           hash_put_by text_of (detail_fields (ID row) (GroupID row) row) (infos v (ID row)))\<rparr>)
         (filter (\<lambda>row. ID row \<in> set (boKeyIDs op) \<and> GroupID row = boGroupID op) rows) v
     | _ \<Rightarrow> v)"

definition pool_op :: "BatchOperation \<Rightarrow> bool" where
  "pool_op op \<longleftrightarrow> ToPool op \<noteq> PoolTypeCooling \<and> (case boType op of BatchOpOther _ \<Rightarrow> False | _ \<Rightarrow> True)"

section \<open>The pipeline\<close>

datatype pool_cmd = CPush PoolType nat | CRem PoolType nat | CAdd "nat list" | CSub "nat list"

fun cmd_of :: "'s RedisLayeredPool \<Rightarrow> nat \<times> pool_cmd \<Rightarrow> pipe_cmd" where
  "cmd_of P (g, CPush t k) = PipeLPush (rp_getRedisKey P g t) [AUint k]"
| "cmd_of P (g, CRem t k) = PipeLRem (rp_getRedisKey P g t) 0 (AUint k)"
| "cmd_of P (g, CAdd ks) = PipeSAdd (rp_getRedisKey P g PoolTypeValidation) (set_members ks)"
| "cmd_of P (g, CSub ks) = PipeSRem (rp_getRedisKey P g PoolTypeValidation) (set_members ks)"

fun cmd_eff :: "nat \<times> pool_cmd \<Rightarrow> rpools \<Rightarrow> rpools" where
  "cmd_eff (g, CPush t k) v = put_list v g t (show_nat k # lists v (g, t))"
| "cmd_eff (g, CRem t k) v = put_list v g t (removeAll (show_nat k) (lists v (g, t)))"
| "cmd_eff (g, CAdd ks) v = v\<lparr>vals := (vals v)(g := vals v g \<union> set (ids ks))\<rparr>"
| "cmd_eff (g, CSub ks) v = v\<lparr>vals := (vals v)(g := vals v g - set (ids ks))\<rparr>"

fun cmd_ok :: "nat \<times> pool_cmd \<Rightarrow> bool" where
  "cmd_ok (g, CPush t k) \<longleftrightarrow> list_pool t"
| "cmd_ok (g, CRem t k) \<longleftrightarrow> list_pool t"
| "cmd_ok (g, CAdd ks) \<longleftrightarrow> ks \<noteq> []"
| "cmd_ok (g, CSub ks) \<longleftrightarrow> True"

fun take_calls :: "nat list \<Rightarrow> PoolType \<Rightarrow> pool_cmd list" where
  "take_calls ks PoolTypeValidation = [CSub ks]"
| "take_calls ks PoolTypeReady = map (CRem PoolTypeReady) ks"
| "take_calls ks PoolTypeActive = map (CRem PoolTypeActive) ks"
| "take_calls ks _ = []"

fun give_calls :: "nat list \<Rightarrow> PoolType \<Rightarrow> pool_cmd list" where
  "give_calls ks PoolTypeValidation = [CAdd ks]"
| "give_calls ks PoolTypeReady = map (CPush PoolTypeReady) ks"
| "give_calls ks PoolTypeActive = map (CPush PoolTypeActive) ks"
| "give_calls ks _ = []"

definition op_calls :: "BatchOperation \<Rightarrow> pool_cmd list" where
  "op_calls op = (let ks = boKeyIDs op in
     if ks = [] then [] else
     case boType op of
       BatchOpAddKeys \<Rightarrow> give_calls ks (if ToPool op = PoolTypeOther [] then PoolTypeValidation else ToPool op)
     | BatchOpRemoveKeys \<Rightarrow> take_calls ks PoolTypeValidation @ take_calls ks PoolTypeReady @ take_calls ks PoolTypeActive
     | BatchOpMoveKeys \<Rightarrow>
         if FromPool op = ToPool op then [] else take_calls ks (FromPool op) @ give_calls ks (ToPool op)
     | _ \<Rightarrow> [])"

lemma cmds_of_op: "pool_op op \<Longrightarrow>
    addOperationToPipeline P op = Inr (map (\<lambda>c. cmd_of P (boGroupID op, c)) (op_calls op))"
  by (cases "boType op"; cases "ToPool op"; cases "FromPool op")
    (simp_all add: pool_op_def op_calls_def addOperationToPipeline_def addAddKeysOperationToPipeline_def
      addRemoveKeysOperationToPipeline_def addMoveKeysOperationToPipeline_def Let_def comp_def)

lemma collected: "list_all pool_op ops \<Longrightarrow>
    collect_cmds P ops = Inr (map (cmd_of P) (concat (map (\<lambda>op. map (Pair (boGroupID op)) (op_calls op)) ops)))"
  by (induction ops) (simp_all add: cmds_of_op comp_def)

lemma op_calls_ok: "c \<in> set (op_calls op) \<Longrightarrow> cmd_ok (g, c)"
proof -
  have "c \<in> set (take_calls ks t) \<Longrightarrow> cmd_ok (g, c)" "ks \<noteq> [] \<Longrightarrow> c \<in> set (give_calls ks t) \<Longrightarrow> cmd_ok (g, c)" for ks t
    by (cases t; auto)+
  then show "c \<in> set (op_calls op) \<Longrightarrow> cmd_ok (g, c)"
    by (auto simp: op_calls_def Let_def simp del: take_calls.simps split: BatchOpType.splits if_splits)
qed

lemma take_give_none: "take_from g [] t v = v" "give_to g [] t v = v"
  using put_list_simps(5) [of v g] by (cases t; simp add: fun_upd_idem)+

lemma fold_rem: "list_pool t \<Longrightarrow> fold cmd_eff (map (Pair g) (map (CRem t) ks)) v =
    put_list v g t (filter (\<lambda>x. x \<notin> set (ids ks)) (lists v (g, t)))"
proof (induction ks arbitrary: v)
  case Nil
  then show ?case using put_list_simps(5) [of v g t] by simp
next
  case (Cons k ks)
  then show ?case by (simp add: filter_ne_removeAll [symmetric] conj_commute)
qed

lemma fold_push: "list_pool t \<Longrightarrow>
    fold cmd_eff (map (Pair g) (map (CPush t) ks)) v = put_list v g t (rev (ids ks) @ lists v (g, t))"
proof (induction ks arbitrary: v)
  case Nil
  then show ?case using put_list_simps(5) [of v g t] by simp
next
  case (Cons k ks)
  then show ?case by simp
qed

lemma fold_calls:
  "fold cmd_eff (map (Pair g) (take_calls ks t)) v = take_from g ks t v"
  "fold cmd_eff (map (Pair g) (give_calls ks t)) v = give_to g ks t v"
  by (cases t; simp add: fold_rem fold_push del: map_map)+

lemma fold_op: "fold cmd_eff (map (Pair (boGroupID op)) (op_calls op)) v = pool_eff op v"
  by (cases "boKeyIDs op = []"; cases "boType op")
    (simp_all add: op_calls_def pool_eff_def Let_def take_give_none fold_calls del: take_calls.simps)

lemma find_row: "distinct (map ID rows) \<Longrightarrow> row \<in> set rows \<Longrightarrow> find (\<lambda>x. ID x = ID row) rows = Some row"
  by (induction rows) (auto simp: image_iff)

context redis_pool
begin

lemma cmd_always:
  assumes "rgood p" "cmd_ok d"
  shows "rp.always (on_rstore (run_cmd (rpStore P) (cmd_of P d))) p (\<lambda>_. True) (cmd_eff d (rview p))"
proof -
  obtain g c where d: "d = (g, c)" by fastforce
  show ?thesis
  proof (cases c)
    case (CPush t k)
    then show ?thesis using push_always [OF assms(1), of t g k] assms(2) by (simp add: d rp_push_def)
  next
    case (CRem t k)
    then show ?thesis using rem_always [OF assms(1), of t g k] assms(2) by (simp add: d rp_rem_def)
  next
    case (CAdd ks)
    then show ?thesis using add_validation_always [OF assms(1), of g ks] assms(2)
      by (simp add: d rp_addToValidationPool_def set_members_def)
  next
    case (CSub ks)
    then show ?thesis using remove_validation_always [OF assms(1), of g ks]
      by (simp add: d rp_removeFromValidationPool_def set_members_def)
  qed
qed

lemma pipe_always: "rgood p \<Longrightarrow> list_all cmd_ok ds \<Longrightarrow>
    rp.always (on_rstore (run_pipe (rpStore P) (map (cmd_of P) ds))) p (\<lambda>_. True) (fold cmd_eff ds (rview p))"
proof (induction ds arbitrary: p)
  case Nil
  then show ?case by (intro rstore_rule) simp
next
  case (Cons d ds)
  from rp.always_dest [OF cmd_always [OF Cons.prems(1), of d]] Cons.prems(2) obtain p1 where
    p1: "on_rstore (run_cmd (rpStore P) (cmd_of P d)) p = (p1, Inr ())" "rgood p1" "frame p p1"
      "rview p1 = cmd_eff d (rview p)" by auto
  from rp.always_dest [OF Cons.IH [OF p1(2)]] Cons.prems(2) obtain p2 where
    p2: "on_rstore (run_pipe (rpStore P) (map (cmd_of P) ds)) p1 = (p2, Inr ())" "rgood p2" "frame p1 p2"
      "rview p2 = fold cmd_eff ds (rview p1)" by auto
  obtain s1 r where run: "run_cmd (rpStore P) (cmd_of P d) (rstore p) = (s1, r)" by fastforce
  then have s1: "r = Inr ()" "p1 = p\<lparr>rstore := s1\<rparr>" using p1(1) by (cases r; simp add: on_rstore_def)+
  have "on_rstore (run_pipe (rpStore P) (map (cmd_of P) (d # ds))) p = (p2, Inr ())"
    using run s1 p2(1) by (auto simp: on_rstore_def split: prod.splits)
  moreover have "frame p p2" using p1(3) p2(3) by (rule frame_trans)
  ultimately show ?case using p2(2,4) p1(4) by (elim rp.always_intro) simp_all
qed

lemma sync_row:
  assumes "rgood p" "lfaults p = []" "distinct (map ID (ldb p))" "row \<in> set (ldb p)"
  shows "rp.always (logged (syncKeyDetails P (ID row) (GroupID row))) p (\<lambda>_. True) ((rview p)\<lparr>infos :=
    (infos (rview p))(ID row := hash_put_by text_of (detail_fields (ID row) (GroupID row) row) (infos (rview p) (ID row)))\<rparr>)"
proof -
  have "find (\<lambda>x. ID x = ID row) (ldb p) = Some row"
    using find_row [OF assms(3,4)] .
  from sync_sat [OF assms(1,2) this, of "GroupID row"] show ?thesis
    unfolding rp.always_def by (auto elim: rp.weaken_rule)
qed

lemma post_always:
  assumes "rgood p" "lfaults p = []" "distinct (map ID (ldb p))"
  shows "rp.always (post_process P op) p (\<lambda>_. True) (info_eff text_of (ldb p) op (rview p))"
proof (cases "boType op")
  case BatchOpRemoveKeys
  let ?g = "\<lambda>k v. v\<lparr>infos := (infos v)(k := Map.empty)\<rparr>"
  have "fold ?g ks v = v\<lparr>infos := (\<lambda>k. if k \<in> set ks then Map.empty else infos v k)\<rparr>" for ks and v :: rpools
    by (induction ks arbitrary: v) (auto simp: fun_eq_iff)
  moreover have "rp.always (for_each (\<lambda>k. logged (on_rstore (StDelete (rpStore P) (rp_getKeyDetailsKey P k))))
      (boKeyIDs op)) p (\<lambda>_. True) (fold ?g (boKeyIDs op) (rview p))"
    by (rule rp.for_each_rule [OF _ assms(1)]) (rule rp.always_logged_rule [OF delete_details_always])
  ultimately show ?thesis using BatchOpRemoveKeys by (simp add: post_process_def info_eff_def)
next
  case BatchOpSyncKeys
  let ?rows = "filter (\<lambda>row. ID row \<in> set (boKeyIDs op) \<and> GroupID row = boGroupID op) (ldb p)"
  let ?g = "\<lambda>row v. v\<lparr>infos := (infos v)(ID row :=
      hash_put_by text_of (detail_fields (ID row) (GroupID row) row) (infos v (ID row)))\<rparr>"
  show ?thesis
  proof (cases "boKeyIDs op = []")
    case True
    then show ?thesis using BatchOpSyncKeys assms(1)
      by (simp add: post_process_def info_eff_def syncKeysFromDatabase_def rp.always_def rp.sat_def logged_def ret_def)
  next
    case False
    have "rp.always (bindE (wrap ErrorTypeStorage ''DB_QUERY_FAILED'' (find_keys (boGroupID op) (boKeyIDs op)))
       (\<lambda>keys. for_each (\<lambda>key. logged (syncKeyDetails P (ID key) (GroupID key))) keys)) p (\<lambda>_. True)
       (fold ?g ?rows (rview p))"
    proof (rule rp.always_seq_rule [where P = "\<lambda>ks. ks = ?rows"])
      show "rp.always (wrap ErrorTypeStorage ''DB_QUERY_FAILED'' (find_keys (boGroupID op) (boKeyIDs op))) p
          (\<lambda>ks. ks = ?rows) (rview p)"
        unfolding rp.always_def
        by (rule rp.wrap_rule [OF rp.find_keys_rule [OF assms(1)]]) (use assms(2) in auto)
    next
      fix p' x assume x: "rgood p'" "frame p p'" "rview p' = rview p" "x = ?rows"
      have "rp.always (for_each (\<lambda>key. logged (syncKeyDetails P (ID key) (GroupID key))) ?rows) p' (\<lambda>_. True)
          (fold ?g ?rows (rview p'))"
      proof (rule rp.for_each_rule [OF _ x(1)])
        fix row q assume q: "rgood q" "frame p' q" "row \<in> set ?rows"
        then have f: "lfaults q = []" "ldb q = ldb p" using x(2) assms(2) by (simp_all add: frame_def)
        have "row \<in> set (ldb p)" using q(3) by simp
        then show "rp.always (logged (syncKeyDetails P (ID row) (GroupID row))) q (\<lambda>_. True) (?g row (rview q))"
          by (rule sync_row [OF q(1) f(1), unfolded f(2), OF assms(3)])
      qed
      then show "rp.always (for_each (\<lambda>key. logged (syncKeyDetails P (ID key) (GroupID key))) x) p' (\<lambda>_. True)
          (fold ?g ?rows (rview p))" using x by simp
    qed
    from rp.always_logged_rule [OF this] show ?thesis
      using False BatchOpSyncKeys by (simp add: post_process_def info_eff_def syncKeysFromDatabase_def)
  qed
qed (use assms(1) in \<open>simp_all add: post_process_def info_eff_def rp.always_ret_rule\<close>)

lemma batch_always:
  assumes "rgood p" "lfaults p = []" "distinct (map ID (ldb p))" "list_all pool_op ops" "StPipeline (rpStore P) = Some exec"
  shows "rp.always (ExecuteBatchOperations P ops) p (\<lambda>_. True)
    (fold (info_eff text_of (ldb p)) ops (fold pool_eff ops (rview p)))"
proof (cases "ops = []")
  case True
  then show ?thesis using assms(1) by (simp add: ExecuteBatchOperations_def rp.always_ret_rule)
next
  case False
  let ?ds = "concat (map (\<lambda>op. map (Pair (boGroupID op)) (op_calls op)) ops)"
  have ok: "list_all cmd_ok ?ds" by (auto simp: list_all_iff op_calls_ok)
  have eff: "fold cmd_eff ?ds v = fold pool_eff ops v" for v
    by (induction ops arbitrary: v) (simp_all add: fold_op)
  have post: "rp.always (postProcessBatchOperations P ops) q (\<lambda>_. True) (fold (info_eff text_of (ldb p)) ops (rview q))"
    if "rgood q" "frame p q" for q
    unfolding postProcessBatchOperations_def
  proof (rule rp.for_each_rule [OF _ that(1)])
    fix op q' assume q': "rgood q'" "frame q q'"
    then have "lfaults q' = []" "ldb q' = ldb p" using that(2) assms(2) by (simp_all add: frame_def)
    then show "rp.always (post_process P op) q' (\<lambda>_. True) (info_eff text_of (ldb p) op (rview q'))"
      using post_always [OF q'(1)] assms(3) by simp
  qed
  have run: "ExecuteBatchOperations P ops = bindE (wrap ErrorTypeStorage ''PIPELINE_EXEC_FAILED''
      (on_rstore (run_pipe (rpStore P) (map (cmd_of P) ?ds)))) (\<lambda>_. postProcessBatchOperations P ops)"
    using False assms(5) pipeline [OF assms(5)] collected [OF assms(4), of P]
    by (simp add: ExecuteBatchOperations_def executeBatchWithPipeline_def)
  show ?thesis
    unfolding run
  proof (rule rp.always_seq_rule [OF rp.always_wrap_rule [OF pipe_always [OF assms(1) ok]]])
    fix p' x assume "rgood p'" "frame p p'" "rview p' = fold cmd_eff ?ds (rview p)"
    then show "rp.always (postProcessBatchOperations P ops) p' (\<lambda>_. True)
        (fold (info_eff text_of (ldb p)) ops (fold pool_eff ops (rview p)))"
      using post [of p'] by (simp only: eff)
  qed
qed

end

lemma effects_commute: "info_eff text_of rows op (pool_eff op' v) = pool_eff op' (info_eff text_of rows op v)"
proof -
  have take: "take_from g ks t (v\<lparr>infos := i\<rparr>) = (take_from g ks t v)\<lparr>infos := i\<rparr>" for g ks t v and i
    by (cases t) (simp_all add: put_list_def)
  have give: "give_to g ks t (v\<lparr>infos := i\<rparr>) = (give_to g ks t v)\<lparr>infos := i\<rparr>" for g ks t v and i
    by (cases t) (simp_all add: put_list_def)
  have eff: "pool_eff op' (v\<lparr>infos := i\<rparr>) = (pool_eff op' v)\<lparr>infos := i\<rparr>" for v and i
    by (simp add: pool_eff_def take give Let_def split: BatchOpType.split)
  have same: "infos (pool_eff op' v) = infos v" for v
    using arg_cong [OF eff [where v = v and i = "infos v"], of infos] by simp
  have sync: "fold (\<lambda>row v. v\<lparr>infos := (infos v)(ID row := f row (infos v (ID row)))\<rparr>) rs (pool_eff op' v) =
      pool_eff op' (fold (\<lambda>row v. v\<lparr>infos := (infos v)(ID row := f row (infos v (ID row)))\<rparr>) rs v)" for f rs
    by (induction rs arbitrary: v) (simp_all add: eff [symmetric] same)
  show ?thesis
  proof (cases "boType op")
    case BatchOpRemoveKeys
    then show ?thesis unfolding info_eff_def same by (simp add: eff)
  next
    case BatchOpSyncKeys
    then show ?thesis
      using sync [of "\<lambda>row. hash_put_by text_of (detail_fields (ID row) (GroupID row) row)"]
      by (simp add: info_eff_def)
  qed (simp_all add: info_eff_def)
qed

lemma fold_interleave:
  assumes "\<And>x y v. f x (g y v) = g y (f x v)"
  shows "fold f xs (fold g xs v) = fold (\<lambda>x v. f x (g x v)) xs v"
proof (induction xs arbitrary: v)
  case (Cons x xs)
  have "f x (fold g ys w) = fold g ys (f x w)" for ys w
    by (induction ys arbitrary: w) (simp_all add: assms)
  then show ?case using Cons by simp
qed simp

text \<open>C28: On a store that pipelines, a batch of operations none of which moves keys to the cooling pool
  succeeds; what it does to the pools and to the details of the keys is what its operations do one
  after the other, in their order: the commands of all of them take effect, then the details of
  removed keys are deleted and those of synchronised keys written from the rows of the group.\<close>

theorem redis_batch_effect:
  assumes "redis_pool P ok obs text_of" "ok (rstore p)" "rp_typed P (obs (rstore p))"
    and "StPipeline (rpStore P) = Some exec" "list_all pool_op ops"
    and "lfaults p = []" "distinct (map ID (ldb p))"
  shows "\<exists>p'. ExecuteBatchOperations P ops p = (p', Inr ()) \<and> frame p p' \<and>
    rp_aview P (obs (rstore p')) = fold (\<lambda>op v. info_eff text_of (ldb p) op (pool_eff op v)) ops
      (rp_aview P (obs (rstore p)))"
  using pool_logic.always_dest [OF _ redis_pool.batch_always [OF assms(1) conjI [OF assms(2,3)] assms(6,7,5,4)]]
  unfolding fold_interleave [of "info_eff text_of (ldb p)" pool_eff, OF effects_commute]
  by (fastforce simp: pool_logic_def intro: frame_trans)

section \<open>A store that pipelines\<close>

lemma run_pipe_store: "run_pipe (S\<lparr>StPipeline := e\<rparr>) = run_pipe S"
proof (rule ext)
  fix cs
  have "run_cmd (S\<lparr>StPipeline := e\<rparr>) c = run_cmd S c" for c by (cases c) simp_all
  then show "run_pipe (S\<lparr>StPipeline := e\<rparr>) cs = run_pipe S cs" by (induction cs) (simp_all add: fun_eq_iff)
qed

lemma with_pipeline:
  assumes "pool_store S ok obs text_of"
  shows "pool_store (S\<lparr>StPipeline := Some (run_pipe S)\<rparr>) ok obs text_of"
  using assms unfolding pool_store_def run_pipe_store by simp

definition demo_piped :: "mstore RedisLayeredPool" where
  "demo_piped = demo_redis\<lparr>rpStore := (rpStore demo_redis)\<lparr>StPipeline := Some (run_pipe (rpStore demo_redis))\<rparr>\<rparr>"

interpretation redis_piped: redis_pool demo_piped mem_inv mem_abs Sprint
  unfolding redis_pool_def demo_piped_def
  using with_pipeline [OF redis_demo_pool.pool_store_axioms] by simp

lemma demo_piped_names:
  "rp_getRedisKey demo_piped = rp_getRedisKey demo_redis" "rp_getKeyDetailsKey demo_piped = rp_getKeyDetailsKey demo_redis"
  "rp_getStatsKey demo_piped = rp_getStatsKey demo_redis" "cooling_entry demo_piped = cooling_entry demo_redis"
  by (simp_all add: fun_eq_iff rp_getRedisKey_def rp_getKeyDetailsKey_def rp_getStatsKey_def cooling_entry_def
      demo_piped_def)

lemma demo_piped_view: "rp_aview demo_piped = rp_aview demo_redis" "rp_typed demo_piped = rp_typed demo_redis"
  by (simp_all add: fun_eq_iff rp_aview_def rp_typed_def demo_piped_names)

definition demo_batch_ops :: "BatchOperation list" where
  "demo_batch_ops = [batch_op BatchOpAddKeys 2 [7, 9] (PoolTypeOther []) PoolTypeReady,
     batch_op BatchOpMoveKeys 2 [7] PoolTypeReady PoolTypeActive,
     batch_op BatchOpSyncKeys 2 [7, 9] (PoolTypeOther []) (PoolTypeOther [])]"

lemma demo_batch_eff:
  "fold (\<lambda>op v. info_eff Sprint (ldb redis_start) op (pool_eff op v)) demo_batch_ops
     (redis_demo_pool.rview redis_start) = v \<Longrightarrow>
   active v 2 = [''7''] \<and> ready v 2 = [''9''] \<and> infos v 7 ''key_value'' = Some ''sk'' \<and> infos v 9 = Map.empty"
  unfolding redis_start_good(3)
  by (auto simp: demo_batch_ops_def batch_op_def pool_eff_def info_eff_def redis_start_def
      put_list_def hash_put_by_def detail_fields_def)

theorem redis_batch_effect_witness:
  "\<exists>p'. ExecuteBatchOperations demo_piped demo_batch_ops redis_start = (p', Inr ()) \<and>
    active (rp_aview demo_piped (mem_abs (rstore p'))) 2 = [''7''] \<and>
    ready (rp_aview demo_piped (mem_abs (rstore p'))) 2 = [''9''] \<and>
    infos (rp_aview demo_piped (mem_abs (rstore p'))) 7 ''key_value'' = Some ''sk''"
proof -
  have g: "mem_inv (rstore redis_start)" "rp_typed demo_piped (mem_abs (rstore redis_start))"
    using redis_start_good(1,2) by (simp_all add: demo_piped_view)
  have s: "StPipeline (rpStore demo_piped) = Some (run_pipe (rpStore demo_redis))" by (simp add: demo_piped_def)
  have ops: "list_all pool_op demo_batch_ops" by (simp add: demo_batch_ops_def pool_op_def batch_op_def)
  have r: "lfaults redis_start = []" "distinct (map ID (ldb redis_start))" by (simp_all add: redis_start_def)
  from redis_batch_effect [OF redis_piped.redis_pool_axioms g s ops r] obtain p' where
    "ExecuteBatchOperations demo_piped demo_batch_ops redis_start = (p', Inr ())"
    "redis_demo_pool.rview p' = fold (\<lambda>op v. info_eff Sprint (ldb redis_start) op (pool_eff op v)) demo_batch_ops
      (redis_demo_pool.rview redis_start)" unfolding demo_piped_view by blast
  then show ?thesis using demo_batch_eff [OF sym] unfolding demo_piped_view by blast
qed

end
