(* ===== verification/ProviderInv.thy ===== *)
theory ProviderInv
  imports KeyProvider
begin

text \<open>Correctness of the key provider. The state is abstracted to a view: per group the list of
  active ids, per key the fields of its hash, and the table. Every action acts on the view as a
  function; the handlers are compositions of such functions. The central invariant says the
  store agrees with the table: a group's list holds exactly its active keys, each once.\<close>

section \<open>Names do not collide\<close>

lemma active_list_inj [simp]: "active_list a = active_list b \<longleftrightarrow> a = b"
  by (auto simp: active_list_def dest: show_nat_inj)

lemma key_hash_inj [simp]: "key_hash a = key_hash b \<longleftrightarrow> a = b"
  by (auto simp: key_hash_def dest: show_nat_inj)

lemma list_hash_distinct [simp]: "active_list a \<noteq> key_hash b" "key_hash b \<noteq> active_list a"
  by (simp_all add: active_list_def key_hash_def)

lemma show_nat_eq [simp]: "show_nat a = show_nat b \<longleftrightarrow> a = b"
  using show_nat_inj by blast

section \<open>Views\<close>

record kview =
  vlists :: "nat \<Rightarrow> string list"
  vhashes :: "nat \<Rightarrow> string \<Rightarrow> string option"
  vdb :: "APIKey list"
  vnext :: nat

definition view :: "kp \<Rightarrow> kview" where
  "view p = \<lparr>vlists = (\<lambda>g. mem.items (kstore p) (active_list g)),
     vhashes = (\<lambda>i. mem.fields (kstore p) (key_hash i)), vdb = kdb p, vnext = next_id p\<rparr>"

definition kp_ok :: "kp \<Rightarrow> bool" where
  "kp_ok p \<longleftrightarrow> mem_inv (kstore p) \<and> (\<forall>g. mem.is_queue (kstore p) (active_list g)) \<and>
     (\<forall>i. mem.is_hash (kstore p) (key_hash i))"

lemma kp_ok_parts:
  assumes "kp_ok p"
  shows "mem_inv (kstore p)" "mem.is_queue (kstore p) (active_list g)"
    "mem.is_hash (kstore p) (key_hash i)"
  using assms by (auto simp: kp_ok_def)

lemma kp_ok_db [simp]: "kp_ok (p\<lparr>kdb := d\<rparr>) = kp_ok p" "kp_ok (p\<lparr>next_id := n\<rparr>) = kp_ok p"
  by (simp_all add: kp_ok_def)

lemma view_db [simp]:
  "view (p\<lparr>kdb := d\<rparr>) = (view p)\<lparr>vdb := d\<rparr>" "view (p\<lparr>next_id := n\<rparr>) = (view p)\<lparr>vnext := n\<rparr>"
  by (simp_all add: view_def)

lemma view_sel [simp]: "vdb (view p) = kdb p" "vnext (view p) = next_id p"
  by (simp_all add: view_def)

lemma view_eq_db: "view q = w \<Longrightarrow> kdb q = vdb w \<and> next_id q = vnext w"
  by (metis view_sel)

lemma mem_frame:
  assumes "mem_abs s' k = mem_abs s k"
  shows "mem.items s' k = mem.items s k" "mem.fields s' k = mem.fields s k"
    "mem.is_queue s' k = mem.is_queue s k" "mem.is_hash s' k = mem.is_hash s k"
  using assms by (simp_all add: mem.items_def mem.fields_def mem.is_queue_def mem.is_hash_def)

text \<open>A change of the store that leaves the lists and hashes of the keys alone.\<close>

lemma kp_frame:
  assumes "kp_ok p" "mem_inv s" "\<And>g. mem_abs s (active_list g) = mem_abs (kstore p) (active_list g)"
    and "\<And>i. mem_abs s (key_hash i) = mem_abs (kstore p) (key_hash i)"
  shows "kp_ok (p\<lparr>kstore := s\<rparr>)" "view (p\<lparr>kstore := s\<rparr>) = view p"
  using assms(1,2) by (simp_all add: kp_ok_def view_def mem_frame [OF assms(3)] mem_frame [OF assms(4)])

definition on_list :: "nat \<Rightarrow> (string list \<Rightarrow> string list) \<Rightarrow> kview \<Rightarrow> kview" where
  "on_list g f v = v\<lparr>vlists := (vlists v)(g := f (vlists v g))\<rparr>"

definition on_hash :: "nat \<Rightarrow> ((string \<Rightarrow> string option) \<Rightarrow> string \<Rightarrow> string option) \<Rightarrow> kview \<Rightarrow> kview" where
  "on_hash i f v = v\<lparr>vhashes := (vhashes v)(i := f (vhashes v i))\<rparr>"

lemma view_list_change:
  assumes "kp_ok p" "mem_inv s" "mem.is_queue s (active_list g)"
    and "mem.items s (active_list g) = f (mem.items (kstore p) (active_list g))"
    and "\<And>k. k \<noteq> active_list g \<Longrightarrow> mem_abs s k = mem_abs (kstore p) k"
  shows "kp_ok (p\<lparr>kstore := s\<rparr>) \<and> view (p\<lparr>kstore := s\<rparr>) = on_list g f (view p)"
proof -
  have "mem.is_queue s (active_list g')" for g'
    using assms by (cases "g' = g") (simp_all add: mem_frame(3) [OF assms(5)] kp_ok_parts)
  moreover have "mem.is_hash s (key_hash i)" for i
    using assms(1) by (simp add: mem_frame(4) [OF assms(5)] kp_ok_parts)
  moreover have "mem.items s (active_list g') =
      (if g' = g then f (mem.items (kstore p) (active_list g)) else mem.items (kstore p) (active_list g'))" for g'
    using assms(4) by (simp add: mem_frame(1) [OF assms(5)])
  moreover have "mem.fields s (key_hash i) = mem.fields (kstore p) (key_hash i)" for i
    by (simp add: mem_frame(2) [OF assms(5)])
  ultimately show ?thesis
    using assms(2) by (auto simp: kp_ok_def view_def on_list_def fun_eq_iff)
qed

lemma view_hash_change:
  assumes "kp_ok p" "mem_inv s" "mem.is_hash s (key_hash i)"
    and "mem.fields s (key_hash i) = f (mem.fields (kstore p) (key_hash i))"
    and "\<And>k. k \<noteq> key_hash i \<Longrightarrow> mem_abs s k = mem_abs (kstore p) k"
  shows "kp_ok (p\<lparr>kstore := s\<rparr>) \<and> view (p\<lparr>kstore := s\<rparr>) = on_hash i f (view p)"
proof -
  have "mem.is_hash s (key_hash j)" for j
    using assms by (cases "j = i") (simp_all add: mem_frame(4) [OF assms(5)] kp_ok_parts)
  moreover have "mem.is_queue s (active_list g)" for g
    using assms(1) by (simp add: mem_frame(3) [OF assms(5)] kp_ok_parts)
  moreover have "mem.fields s (key_hash j) =
      (if j = i then f (mem.fields (kstore p) (key_hash i)) else mem.fields (kstore p) (key_hash j))" for j
    using assms(4) by (simp add: mem_frame(2) [OF assms(5)])
  moreover have "mem.items s (active_list g) = mem.items (kstore p) (active_list g)" for g
    by (simp add: mem_frame(1) [OF assms(5)])
  ultimately show ?thesis
    using assms(2) by (auto simp: kp_ok_def view_def on_hash_def fun_eq_iff)
qed

section \<open>Actions as functions on views\<close>

text \<open>An action that succeeds on every well-formed state and acts on the view as a function.\<close>

definition does :: "action \<Rightarrow> (kview \<Rightarrow> kview) \<Rightarrow> bool" where
  "does a f \<longleftrightarrow> (\<forall>p. kp_ok p \<longrightarrow> (\<exists>p'. a p = (p', None) \<and> kp_ok p' \<and> view p' = f (view p)))"

lemma does_Nil: "does (run_all []) (\<lambda>v. v)"
  by (simp add: does_def)

lemma does_Cons: "does a f \<Longrightarrow> does (run_all as) g \<Longrightarrow> does (run_all (a # as)) (\<lambda>v. g (f v))"
  unfolding does_def by fastforce

lemma does_HSet: "does (in_store (mem_HSet (key_hash i) vs)) (on_hash i (hash_upd vs))"
  unfolding does_def
proof (intro allI impI)
  fix p assume w: "kp_ok p"
  obtain s where s: "mem_HSet (key_hash i) vs (kstore p) = (s, Inr ())" "mem_inv s"
    "mem.fields s (key_hash i) = hash_upd vs (mem.fields (kstore p) (key_hash i))"
    "mem.is_hash s (key_hash i)" "\<And>k. k \<noteq> key_hash i \<Longrightarrow> mem_abs s k = mem_abs (kstore p) k"
    using mem.HSet_hash [OF kp_ok_parts(1,3) [OF w]] by blast
  then show "\<exists>p'. in_store (mem_HSet (key_hash i) vs) p = (p', None) \<and> kp_ok p' \<and>
      view p' = on_hash i (hash_upd vs) (view p)"
    using view_hash_change [OF w s(2,4), where f = "hash_upd vs"] s by (simp add: in_store_def)
qed

lemma does_LRem:
  "does (in_store (mem_LRem (active_list g) 0 (AUint i))) (on_list g (removeAll (show_nat i)))"
  unfolding does_def
proof (intro allI impI)
  fix p assume w: "kp_ok p"
  obtain s where s: "mem_LRem (active_list g) 0 (AUint i) (kstore p) = (s, Inr ())" "mem_inv s"
    "mem.items s (active_list g) = removeAll (show_nat i) (mem.items (kstore p) (active_list g))"
    "mem.is_queue s (active_list g)" "\<And>k. k \<noteq> active_list g \<Longrightarrow> mem_abs s k = mem_abs (kstore p) k"
    using mem.LRem_queue [OF kp_ok_parts(1,2) [OF w], of g "AUint i"] by auto
  then show "\<exists>p'. in_store (mem_LRem (active_list g) 0 (AUint i)) p = (p', None) \<and> kp_ok p' \<and>
      view p' = on_list g (removeAll (show_nat i)) (view p)"
    using view_list_change [OF w s(2,4), where f = "removeAll (show_nat i)"] s by (simp add: in_store_def)
qed

lemma logged_of_store:
  assumes "does (in_store f) g"
  shows "does (in_store_logged f) g"
  unfolding does_def
proof (intro allI impI)
  fix p assume "kp_ok p"
  then obtain p' where p': "in_store f p = (p', None)" "kp_ok p'" "view p' = g (view p)"
    using assms by (auto simp: does_def)
  then have "in_store_logged f p = (p', None)"
    by (cases "f (kstore p)"; cases "snd (f (kstore p))")
      (auto simp: in_store_def in_store_logged_def)
  then show "\<exists>p'. in_store_logged f p = (p', None) \<and> kp_ok p' \<and> view p' = g (view p)"
    using p' by blast
qed

lemma does_LPush:
  "does (in_store (mem_LPush (active_list g) xs)) (on_list g (\<lambda>l. map Sprint xs @ l))"
  unfolding does_def
proof (intro allI impI)
  fix p assume w: "kp_ok p"
  obtain s where s: "mem_LPush (active_list g) xs (kstore p) = (s, Inr ())" "mem_inv s"
    "mem.items s (active_list g) = map Sprint xs @ mem.items (kstore p) (active_list g)"
    "mem.is_queue s (active_list g)" "\<And>k. k \<noteq> active_list g \<Longrightarrow> mem_abs s k = mem_abs (kstore p) k"
    using mem.LPush_queue [OF kp_ok_parts(1,2) [OF w]] by blast
  then show "\<exists>p'. in_store (mem_LPush (active_list g) xs) p = (p', None) \<and> kp_ok p' \<and>
      view p' = on_list g (\<lambda>l. map Sprint xs @ l) (view p)"
    using view_list_change [OF w s(2,4), where f = "\<lambda>l. map Sprint xs @ l"] by (simp add: in_store_def)
qed

lemma does_LPush1:
  "does (in_store (mem_LPush (active_list g) [AUint i])) (on_list g (\<lambda>l. show_nat i # l))"
  using does_LPush [of g "[AUint i]"] by simp

lemma does_Delete_hash: "does (in_store (mem_Delete (key_hash i))) (on_hash i (\<lambda>_. Map.empty))"
  unfolding does_def
proof (intro allI impI)
  fix p assume w: "kp_ok p"
  obtain s where s: "mem_Delete (key_hash i) (kstore p) = (s, Inr ())" "mem_inv s"
    "mem_abs s (key_hash i) = None" "\<And>k. k \<noteq> key_hash i \<Longrightarrow> mem_abs s k = mem_abs (kstore p) k"
    using mem.Delete_key [OF kp_ok_parts(1) [OF w]] by blast
  then have "mem.fields s (key_hash i) = Map.empty" "mem.is_hash s (key_hash i)"
    by (simp_all add: mem.fields_def mem.is_hash_def)
  then show "\<exists>p'. in_store (mem_Delete (key_hash i)) p = (p', None) \<and> kp_ok p' \<and>
      view p' = on_hash i (\<lambda>_. Map.empty) (view p)"
    using view_hash_change [OF w s(2), where f = "\<lambda>_. Map.empty"] s by (simp add: in_store_def)
qed

lemma does_Delete_list: "does (in_store (mem_Delete (active_list g))) (on_list g (\<lambda>_. []))"
  unfolding does_def
proof (intro allI impI)
  fix p assume w: "kp_ok p"
  obtain s where s: "mem_Delete (active_list g) (kstore p) = (s, Inr ())" "mem_inv s"
    "mem_abs s (active_list g) = None" "\<And>k. k \<noteq> active_list g \<Longrightarrow> mem_abs s k = mem_abs (kstore p) k"
    using mem.Delete_key [OF kp_ok_parts(1) [OF w]] by blast
  then have "mem.items s (active_list g) = []" "mem.is_queue s (active_list g)"
    by (simp_all add: mem.items_def mem.is_queue_def)
  then show "\<exists>p'. in_store (mem_Delete (active_list g)) p = (p', None) \<and> kp_ok p' \<and>
      view p' = on_list g (\<lambda>_. []) (view p)"
    using view_list_change [OF w s(2), where f = "\<lambda>_. []"] s by (simp add: in_store_def)
qed

definition text_of :: "(string \<Rightarrow> string option) \<Rightarrow> string \<Rightarrow> string" where
  "text_of h f = (case h f of None \<Rightarrow> [] | Some t \<Rightarrow> t)"

lemma does_HIncrBy:
  "does (in_store (mem_HIncrBy (key_hash i) f d))
    (on_hash i (\<lambda>h. h(f \<mapsto> show_int (i64 (fst (ParseInt (text_of h f)) + d)))))"
  unfolding does_def
proof (intro allI impI)
  fix p assume w: "kp_ok p"
  note q = kp_ok_parts [OF w]
  let ?k = "key_hash i"
  let ?h = "mem.fields (kstore p) ?k"
  let ?new = "?h(f \<mapsto> show_int (i64 (fst (ParseInt (text_of ?h f)) + d)))"
  obtain m where m: "gomap_ok m" "map_of m = ?h"
    "kstore p ?k = None \<and> m = [] \<or> kstore p ?k = Some (HashV m)"
    using q(1) q(3) [of i] mem_inv_at(1) [OF q(1), of ?k]
    by (cases "kstore p ?k"; cases "the (kstore p ?k)") (auto simp: mem.is_hash_def mem.fields_def)
  let ?m = "gput f (show_int (i64 (fst (ParseInt (field_text m f)) + d))) m"
  let ?s = "(kstore p)(?k \<mapsto> HashV ?m)"
  have r: "mem_HIncrBy ?k f d (kstore p) = (?s, Inr (i64 (fst (ParseInt (field_text m f)) + d)))"
    using m(3) by (auto simp: mem_HIncrBy_def Let_def)
  have "field_text m f = text_of ?h f" using m(2) by (simp add: field_text_def text_of_def)
  then have n: "map_of ?m = ?new" using m(2) by (simp add: gget_gput_fun)
  have "mem_inv ?s" using q(1) m(1) by simp
  moreover have "mem.is_hash ?s ?k" "mem.fields ?s ?k = ?new"
    using n by (simp_all add: mem.is_hash_def mem.fields_def)
  ultimately show "\<exists>p'. in_store (mem_HIncrBy ?k f d) p = (p', None) \<and> kp_ok p' \<and> view p' =
      on_hash i (\<lambda>h. h(f \<mapsto> show_int (i64 (fst (ParseInt (text_of h f)) + d)))) (view p)"
    using view_hash_change [OF w, of ?s i "\<lambda>h. h(f \<mapsto> show_int (i64 (fst (ParseInt (text_of h f)) + d)))"] r
    by (simp add: in_store_def)
qed

lemma does_in_db: "does (in_db None f) (\<lambda>v. v\<lparr>vdb := f (vdb v)\<rparr>)"
  by (simp add: does_def in_db_def)

lemmas does_intros = does_Nil does_Cons does_HSet does_LRem does_LPush does_Delete_hash
  does_Delete_list does_HIncrBy does_in_db logged_of_store

section \<open>Transactions without a failing commit\<close>

text \<open>When no commit fails, a handler's transaction either changes nothing and reports an error,
  or has its full effect: the row is found and both the table and the store are updated.\<close>

definition commits :: "(nat \<Rightarrow> tx_env) \<Rightarrow> bool" where
  "commits envs \<longleftrightarrow> (\<forall>i. commit_err (envs i) = None)"

lemma kp_restore [simp]: "p\<lparr>kdb := kdb p, next_id := next_id p\<rparr> = p"
  by simp

lemma retry_from_spec:
  assumes c: "commits envs"
    and body: "\<And>env. commit_err env = None \<Longrightarrow>
      (\<exists>e. body env p = (p, Some e)) \<or> (\<exists>q. body env p = (q, None) \<and> P q)"
  shows "n > 0 \<or> err \<noteq> None \<Longrightarrow> retry_from n i envs body err p = (p', r) \<Longrightarrow>
    (p' = p \<and> r \<noteq> None) \<or> (r = None \<and> P p')"
proof (induction n arbitrary: i err)
  case 0
  then show ?case by simp
next
  case (Suc n)
  have ci: "commit_err (envs i) = None" using c by (simp add: commits_def)
  from body [OF ci] show ?case
  proof
    assume "\<exists>e. body (envs i) p = (p, Some e)"
    then obtain e where e: "transaction (envs i) (body (envs i)) p = (p, Some e)"
      by (auto simp: transaction_def)
    show ?thesis using Suc.IH [of "Some e" "Suc i"] Suc.prems(2) e by (auto split: if_splits)
  next
    assume "\<exists>q. body (envs i) p = (q, None) \<and> P q"
    then obtain q where "transaction (envs i) (body (envs i)) p = (q, None)" "P q"
      using ci by (auto simp: transaction_def)
    then show ?thesis using Suc.prems(2) by auto
  qed
qed

lemma locked_tx:
  assumes "commits envs" "kp_ok p"
    and "\<And>key. does (run_all (rest key)) (R key)"
    and "executeTransactionWithRetry envs (\<lambda>env. lock_row env kid (\<lambda>key.
           run_all (in_db (update_err env) (D key) # rest key))) p = (p', r)"
  shows "(p' = p \<and> r \<noteq> None) \<or>
    (r = None \<and> kp_ok p' \<and> (\<exists>key. db_find kid (kdb p) = Some key \<and>
       view p' = R key ((view p)\<lparr>vdb := D key (kdb p)\<rparr>)))"
proof -
  let ?P = "\<lambda>q. kp_ok q \<and> (\<exists>key. db_find kid (kdb p) = Some key \<and>
       view q = R key ((view p)\<lparr>vdb := D key (kdb p)\<rparr>))"
  have b: "(\<exists>e. lock_row env kid (\<lambda>key. run_all (in_db (update_err env) (D key) # rest key)) p = (p, Some e)) \<or>
      (\<exists>q. lock_row env kid (\<lambda>key. run_all (in_db (update_err env) (D key) # rest key)) p = (q, None) \<and> ?P q)" for env
  proof (cases "first_err env = None \<and> update_err env = None \<and> db_find kid (kdb p) \<noteq> None")
    case False
    then show ?thesis by (auto simp: lock_row_def in_db_def split: option.splits)
  next
    case True
    then obtain key where k: "db_find kid (kdb p) = Some key" by auto
    have "does (run_all (in_db None (D key) # rest key)) (\<lambda>v. R key (v\<lparr>vdb := D key (vdb v)\<rparr>))"
      by (rule does_Cons [OF does_in_db assms(3)])
    then obtain q where "run_all (in_db None (D key) # rest key) p = (q, None)" "kp_ok q"
      "view q = R key ((view p)\<lparr>vdb := D key (kdb p)\<rparr>)"
      using assms(2) unfolding does_def by (metis view_sel(1))
    then show ?thesis using True k by (auto simp: lock_row_def)
  qed
  let ?body = "\<lambda>env. lock_row env kid (\<lambda>key. run_all (in_db (update_err env) (D key) # rest key))"
  show ?thesis
    using retry_from_spec [where envs = envs and P = ?P and body = ?body and p = p and n = 3 and i = 0
        and err = None and p' = p' and r = r] assms(1,4) b
    by (simp add: executeTransactionWithRetry_def)
qed

lemma read_hash:
  assumes "kp_ok p"
  shows "\<exists>h. mem_HGetAll (key_hash i) (kstore p) = (kstore p, Inr h) \<and>
    (\<forall>f. field_text h f = text_of (vhashes (view p) i) f)"
proof -
  obtain s h where "mem_HGetAll (key_hash i) (kstore p) = (s, Inr h)"
    "map_of h = mem.fields (kstore p) (key_hash i)"
    using mem.HGetAll_hash [OF kp_ok_parts(1,3) [OF assms]] by blast
  then show ?thesis
    by (auto simp: mem_HGetAll_def field_text_def text_of_def view_def
        split: option.splits store_val.splits)
qed

section \<open>The store agrees with the table\<close>

definition active_ids :: "APIKey list \<Rightarrow> nat \<Rightarrow> nat set" where
  "active_ids rows g = ID ` {k \<in> set rows. GroupID k = g \<and> Status k = KeyStatusActive}"

definition row_synced :: "(nat \<Rightarrow> string \<Rightarrow> string option) \<Rightarrow> APIKey \<Rightarrow> bool" where
  "row_synced hs k \<longleftrightarrow> ID k \<le> 18446744073709551615 \<and> in_i64 (FailureCount k) \<and>
     hs (ID k) ''status'' = Some (Status k) \<and>
     hs (ID k) ''failure_count'' = Some (show_int (FailureCount k)) \<and>
     hs (ID k) ''key_string'' = Some (KeyValue k)"

definition list_synced :: "kview \<Rightarrow> nat \<Rightarrow> bool" where
  "list_synced v g \<longleftrightarrow> distinct (vlists v g) \<and> set (vlists v g) = show_nat ` active_ids (vdb v) g"

definition synced :: "kview \<Rightarrow> bool" where
  "synced v \<longleftrightarrow> distinct (map ID (vdb v)) \<and>
     (\<forall>k \<in> set (vdb v). row_synced (vhashes v) k \<and> ID k < vnext v) \<and> (\<forall>g. list_synced v g)"

lemma synced_parts:
  assumes "synced v"
  shows "distinct (map ID (vdb v))" "k \<in> set (vdb v) \<Longrightarrow> row_synced (vhashes v) k"
    "k \<in> set (vdb v) \<Longrightarrow> ID k < vnext v"
    "distinct (vlists v g)" "set (vlists v g) = show_nat ` active_ids (vdb v) g"
  using assms by (auto simp: synced_def list_synced_def)

lemma same_id:
  "distinct (map ID rows) \<Longrightarrow> a \<in> set rows \<Longrightarrow> b \<in> set rows \<Longrightarrow> ID a = ID b \<Longrightarrow> a = b"
  by (metis distinct_map inj_onD)

lemma db_find_Some: "db_find kid rows = Some k \<Longrightarrow> k \<in> set rows \<and> ID k = kid"
  by (auto simp: db_find_def find_Some_iff)

lemma active_ids_update:
  assumes "distinct (map ID rows)" "k \<in> set rows" "ID (f k) = ID k" "GroupID (f k) = GroupID k"
  shows "active_ids (db_update (ID k) f rows) g =
    (if g = GroupID k then (active_ids rows g - {ID k}) \<union>
       (if Status (f k) = KeyStatusActive then {ID k} else {})
     else active_ids rows g)"
proof -
  have "set (db_update (ID k) f rows) = (\<lambda>r. if r = k then f k else r) ` set rows"
    using same_id [OF assms(1) _ assms(2)] unfolding db_update_def set_map
    by (intro image_cong) auto
  then have s: "set (db_update (ID k) f rows) = insert (f k) (set rows - {k})"
    using assms(2) by auto
  show ?thesis
    using same_id [OF assms(1) _ assms(2)] assms(3,4)
    unfolding active_ids_def s by (auto simp: image_iff split: if_splits; metis)
qed

lemma synced_row_change:
  assumes "synced v" "k \<in> set (vdb v)"
    and "ID (f k) = ID k" "GroupID (f k) = GroupID k" "row_synced (\<lambda>_. h) (f k)"
    and "distinct l" "set l = (set (vlists v (GroupID k)) - {show_nat (ID k)}) \<union>
           (if Status (f k) = KeyStatusActive then {show_nat (ID k)} else {})"
  shows "synced (v\<lparr>vdb := db_update (ID k) f (vdb v), vhashes := (vhashes v)(ID k := h),
    vlists := (vlists v)(GroupID k := l)\<rparr>)"
proof -
  let ?rows = "db_update (ID k) f (vdb v)"
  note p = synced_parts [OF assms(1)]
  have ids: "map ID ?rows = map ID (vdb v)"
    using same_id [OF p(1) _ assms(2)] assms(3) by (auto simp: db_update_def)
  have rows: "row_synced ((vhashes v)(ID k := h)) r \<and> ID r < vnext v" if "r \<in> set ?rows" for r
  proof -
    from that obtain r0 where r0: "r0 \<in> set (vdb v)" "r = (if ID r0 = ID k then f r0 else r0)"
      by (auto simp: db_update_def)
    show ?thesis
      using r0 same_id [OF p(1) r0(1) assms(2)] p(2,3) [OF r0(1)] assms(3,5)
      by (auto simp: row_synced_def)
  qed
  have "list_synced (v\<lparr>vdb := ?rows, vhashes := (vhashes v)(ID k := h),
      vlists := (vlists v)(GroupID k := l)\<rparr>) g" for g
    using assms(6,7) p(4,5) [of g] active_ids_update [where f = f and g = g, OF p(1) assms(2,3,4)]
    by (auto simp: list_synced_def)
  then show ?thesis using ids p(1) rows by (simp add: synced_def)
qed

section \<open>Every operation keeps the store in agreement\<close>

lemma hash_upd_Nil [simp]: "hash_upd [] h = h"
  by (simp add: hash_upd_def)

lemma hash_upd_Cons [simp]: "hash_upd ((f, x) # vs) h = hash_upd vs (h(f \<mapsto> Sprint x))"
  by (simp add: hash_upd_def)

definition ok :: "kp \<Rightarrow> bool" where
  "ok p \<longleftrightarrow> kp_ok p \<and> synced (view p)"

text \<open>The group an update names is the group of the key, if the key still exists.\<close>

definition right_group :: "nat \<Rightarrow> nat \<Rightarrow> kp \<Rightarrow> bool" where
  "right_group kid gid p \<longleftrightarrow> (\<forall>k \<in> set (kdb p). ID k = kid \<longrightarrow> GroupID k = gid)"

lemma synced_text:
  assumes "synced v" "k \<in> set (vdb v)"
  shows "text_of (vhashes v (ID k)) ''status'' = Status k"
    "ParseInt (text_of (vhashes v (ID k)) ''failure_count'') = (FailureCount k, None)"
  using synced_parts(2) [OF assms] by (simp_all add: row_synced_def text_of_def)

lemma on_list_sel [simp]:
  "vlists (on_list g f v) = (vlists v)(g := f (vlists v g))" "vhashes (on_list g f v) = vhashes v"
  "vdb (on_list g f v) = vdb v" "vnext (on_list g f v) = vnext v"
  by (simp_all add: on_list_def)

lemma on_hash_sel [simp]:
  "vhashes (on_hash i f v) = (vhashes v)(i := f (vhashes v i))" "vlists (on_hash i f v) = vlists v"
  "vdb (on_hash i f v) = vdb v" "vnext (on_hash i f v) = vnext v"
  by (simp_all add: on_hash_def)

lemma kview_eqI:
  "vlists v = vlists w \<Longrightarrow> vhashes v = vhashes w \<Longrightarrow> vdb v = vdb w \<Longrightarrow> vnext v = vnext w \<Longrightarrow> v = (w :: kview)"
  by (cases v; cases w) simp

text \<open>The general step: the view after a handler differs from the one before in one row, that
  row's hash and its group's list.\<close>

lemma synced_after:
  assumes "synced v" "k \<in> set (vdb v)" "v' = w"
    and "vdb w = db_update (ID k) f (vdb v)" "vnext w = vnext v"
    and "vhashes w = (vhashes v)(ID k := h)" "vlists w = (vlists v)(GroupID k := l)"
    and "ID (f k) = ID k" "GroupID (f k) = GroupID k" "row_synced (\<lambda>_. h) (f k)"
    and "distinct l" "set l = (set (vlists v (GroupID k)) - {show_nat (ID k)}) \<union>
           (if Status (f k) = KeyStatusActive then {show_nat (ID k)} else {})"
  shows "synced v'"
proof -
  have "w = v\<lparr>vdb := db_update (ID k) f (vdb v), vhashes := (vhashes v)(ID k := h),
      vlists := (vlists v)(GroupID k := l)\<rparr>"
    using assms(4-7) by (intro kview_eqI) simp_all
  then show ?thesis
    using synced_row_change [where f = f and h = h and l = l, OF assms(1,2,8-12)] assms(3) by simp
qed

lemmas does_success_active = does_Cons [OF does_HSet does_Nil]
lemmas does_success_inactive =
  does_Cons [OF does_HSet does_Cons [OF does_LRem does_Cons [OF does_LPush1 does_Nil]]]
lemmas does_failure_keep = does_Cons [OF does_HIncrBy does_Nil]
lemmas does_failure_blacklist =
  does_Cons [OF does_HIncrBy does_Cons [OF does_LRem does_Cons [OF does_HSet does_Nil]]]
lemmas does_rate_limit =
  does_Cons [OF does_HSet does_Cons [OF logged_of_store [OF does_LRem] does_Nil]]

lemma in_list_iff:
  assumes "synced v" "k \<in> set (vdb v)"
  shows "show_nat (ID k) \<in> set (vlists v (GroupID k)) \<longleftrightarrow> Status k = KeyStatusActive"
proof -
  have "ID k \<in> active_ids (vdb v) (GroupID k) \<longleftrightarrow> Status k = KeyStatusActive"
    using same_id [OF synced_parts(1) [OF assms(1)] assms(2)] assms(2)
    by (auto simp: active_ids_def image_iff)
  then show ?thesis using synced_parts(5) [OF assms(1)] by (auto simp: image_iff)
qed

lemma handleSuccess_ok:
  assumes "ok p" "commits envs" "right_group kid gid p" "handleSuccess envs kid gid p = (p', r)"
  shows "ok p'"
proof -
  have kp: "kp_ok p" and sy: "synced (view p)" using assms(1) by (auto simp: ok_def)
  obtain h where h: "mem_HGetAll (key_hash kid) (kstore p) = (kstore p, Inr h)"
    "\<And>f. field_text h f = text_of (vhashes (view p) kid) f" using read_hash [OF kp] by blast
  define act where "act = (field_text h ''status'' = KeyStatusActive)"
  define R where "R = (if act then (\<lambda>v. on_hash kid (hash_upd [(''failure_count'', AInt 0)]) v)
    else (\<lambda>v. on_list gid (\<lambda>l. show_nat kid # l) (on_list gid (removeAll (show_nat kid))
      (on_hash kid (hash_upd [(''failure_count'', AInt 0), (''status'', AStr KeyStatusActive)]) v))))"
  have d: "does (run_all (success_store act kid gid)) R" for key :: APIKey
    unfolding success_store_def R_def using does_success_active does_success_inactive by simp
  show ?thesis
  proof (cases "fst (ParseInt (field_text h ''failure_count'')) = 0 \<and> act")
    case True
    then show ?thesis using assms(1,4) h(1) by (simp add: handleSuccess_def Let_def act_def)
  next
    case False
    have e: "executeTransactionWithRetry envs (\<lambda>env. lock_row env kid (\<lambda>key. run_all
        (in_db (update_err env) (db_update kid (success_row act)) # success_store act kid gid))) p = (p', r)"
      using assms(4) h(1) False by (auto simp: handleSuccess_def Let_def act_def split: if_splits)
    from locked_tx [OF assms(2) kp d e] show ?thesis
    proof
      assume "p' = p \<and> r \<noteq> None" then show ?thesis using assms(1) by simp
    next
      assume "r = None \<and> kp_ok p' \<and> (\<exists>key. db_find kid (kdb p) = Some key \<and>
        view p' = R ((view p)\<lparr>vdb := db_update kid (success_row act) (kdb p)\<rparr>))"
      then obtain k where k: "k \<in> set (vdb (view p))" "ID k = kid" "kp_ok p'"
        and v: "view p' = R ((view p)\<lparr>vdb := db_update kid (success_row act) (kdb p)\<rparr>)"
        using db_find_Some by fastforce
      have g: "GroupID k = gid" using assms(3) k by (auto simp: right_group_def)
      have st: "act \<longleftrightarrow> Status k = KeyStatusActive"
        using synced_text(1) [OF sy k(1)] h k(2) by (simp add: act_def)
      note rs = synced_parts(2) [OF sy k(1)]
      note li = in_list_iff [OF sy k(1)] synced_parts(4) [OF sy, of gid]
      have "synced (view p')"
        by (rule synced_after [OF sy k(1) v, where f = "success_row act"
              and h = "(vhashes (view p) kid)(''failure_count'' \<mapsto> show_int 0, ''status'' \<mapsto> KeyStatusActive)"
              and l = "if act then vlists (view p) gid else show_nat kid # removeAll (show_nat kid) (vlists (view p) gid)"])
          (use rs li st k g in \<open>auto simp: R_def success_row_def row_synced_def fun_eq_iff\<close>)
      then show ?thesis using k(3) by (simp add: ok_def)
    qed
  qed
qed

lemma handleFailure_ok:
  assumes "ok p" "commits envs" "right_group kid gid p" "handleFailure envs threshold kid gid p = (p', r)"
  shows "ok p'"
proof -
  have kp: "kp_ok p" and sy: "synced (view p)" using assms(1) by (auto simp: ok_def)
  obtain h where h: "mem_HGetAll (key_hash kid) (kstore p) = (kstore p, Inr h)"
    "\<And>f. field_text h f = text_of (vhashes (view p) kid) f" using read_hash [OF kp] by blast
  define n where "n = i64 (fst (ParseInt (field_text h ''failure_count'')) + 1)"
  define bl where "bl = (threshold > 0 \<and> n \<ge> threshold)"
  define R where "R = (if bl then (\<lambda>v. on_hash kid (hash_upd [(''status'', AStr KeyStatusInvalid)])
      (on_list gid (removeAll (show_nat kid)) (on_hash kid (\<lambda>h. h(''failure_count'' \<mapsto>
        show_int (i64 (fst (ParseInt (text_of h ''failure_count'')) + 1)))) v)))
    else (\<lambda>v. on_hash kid (\<lambda>h. h(''failure_count'' \<mapsto>
        show_int (i64 (fst (ParseInt (text_of h ''failure_count'')) + 1)))) v))"
  have d: "does (run_all (failure_store bl kid gid)) R" for key :: APIKey
    unfolding failure_store_def R_def using does_failure_keep does_failure_blacklist by simp
  show ?thesis
  proof (cases "field_text h ''status'' = KeyStatusInvalid")
    case True
    then show ?thesis using assms(1,4) h(1) by (simp add: handleFailure_def Let_def)
  next
    case False
    have e: "executeTransactionWithRetry envs (\<lambda>env. lock_row env kid (\<lambda>key. run_all
        (in_db (update_err env) (db_update kid (failure_row n bl)) # failure_store bl kid gid))) p = (p', r)"
      using assms(4) h(1) False by (simp add: handleFailure_def Let_def n_def bl_def)
    from locked_tx [OF assms(2) kp d e] show ?thesis
    proof
      assume "p' = p \<and> r \<noteq> None" then show ?thesis using assms(1) by simp
    next
      assume "r = None \<and> kp_ok p' \<and> (\<exists>key. db_find kid (kdb p) = Some key \<and>
        view p' = R ((view p)\<lparr>vdb := db_update kid (failure_row n bl) (kdb p)\<rparr>))"
      then obtain k where k: "k \<in> set (vdb (view p))" "ID k = kid" "kp_ok p'"
        and v: "view p' = R ((view p)\<lparr>vdb := db_update kid (failure_row n bl) (kdb p)\<rparr>)"
        using db_find_Some by fastforce
      have g: "GroupID k = gid" using assms(3) k by (auto simp: right_group_def)
      have n: "i64 (fst (ParseInt (text_of (vhashes (view p) kid) ''failure_count'')) + 1) = n"
        using h(2) by (simp add: n_def)
      note rs = synced_parts(2) [OF sy k(1)]
      note li = in_list_iff [OF sy k(1)] synced_parts(4) [OF sy, of gid]
      have "synced (view p')"
        by (rule synced_after [OF sy k(1) v, where f = "failure_row n bl"
              and h = "(vhashes (view p) kid)(''failure_count'' \<mapsto> show_int n,
                ''status'' \<mapsto> (if bl then KeyStatusInvalid else Status k))"
              and l = "if bl then removeAll (show_nat kid) (vlists (view p) gid) else vlists (view p) gid"])
          (use rs li n k g in \<open>auto simp: R_def failure_row_def row_synced_def fun_eq_iff n_def
             KeyStatusActive_def KeyStatusInvalid_def distinct_removeAll\<close>)
      then show ?thesis using k(3) by (simp add: ok_def)
    qed
  qed
qed

lemma hash_upd_append [simp]: "hash_upd (xs @ ys) h = hash_upd ys (hash_upd xs h)"
  by (simp add: hash_upd_def)

lemma handleRateLimit_ok:
  assumes "ok p" "commits envs" "right_group kid gid p" "handleRateLimit envs now rst kid gid p = (p', r)"
  shows "ok p'"
proof -
  have kp: "kp_ok p" and sy: "synced (view p)" using assms(1) by (auto simp: ok_def)
  obtain h where h: "mem_HGetAll (key_hash kid) (kstore p) = (kstore p, Inr h)"
    using read_hash [OF kp] by blast
  let ?vs = "\<lambda>key::APIKey. [(''status'', AStr KeyStatusRateLimited),
         (''rate_limit_count'', AInt (i64 (RateLimitCount (rate_limit_row now rst key key) + 1))), (''last_429_at'', AInt now)] @
        (case rst of None \<Rightarrow> [] | Some t \<Rightarrow> [(''rate_limit_reset_at'', AInt t)])"
  define R where "R = (\<lambda>key v. on_list gid (removeAll (show_nat kid)) (on_hash kid (hash_upd (?vs key)) v))"
  have d: "does (run_all (rate_limit_store now rst kid gid key)) (R key)" for key
    unfolding rate_limit_store_def R_def by (rule does_rate_limit)
  show ?thesis
  proof (cases "field_text h ''status'' = KeyStatusInvalid")
    case True
    then show ?thesis using assms(1,4) h(1) by (simp add: handleRateLimit_def)
  next
    case False
    have e: "executeTransactionWithRetry envs (\<lambda>env. lock_row env kid (\<lambda>key. run_all
        (in_db (update_err env) (db_update kid (rate_limit_row now rst key))
          # rate_limit_store now rst kid gid key))) p = (p', r)"
      using assms(4) h(1) False by (simp add: handleRateLimit_def)
    from locked_tx [OF assms(2) kp d e] show ?thesis
    proof
      assume "p' = p \<and> r \<noteq> None" then show ?thesis using assms(1) by simp
    next
      assume "r = None \<and> kp_ok p' \<and> (\<exists>key. db_find kid (kdb p) = Some key \<and>
        view p' = R key ((view p)\<lparr>vdb := db_update kid (rate_limit_row now rst key) (kdb p)\<rparr>))"
      then obtain k where k: "k \<in> set (vdb (view p))" "ID k = kid" "kp_ok p'"
        and v: "view p' = R k ((view p)\<lparr>vdb := db_update kid (rate_limit_row now rst k) (kdb p)\<rparr>)"
        using db_find_Some by fastforce
      have g: "GroupID k = gid" using assms(3) k by (auto simp: right_group_def)
      note rs = synced_parts(2) [OF sy k(1)]
      note li = in_list_iff [OF sy k(1)] synced_parts(4) [OF sy, of gid]
      have "synced (view p')"
        by (rule synced_after [OF sy k(1) v, where f = "rate_limit_row now rst k"
              and h = "hash_upd (?vs k) (vhashes (view p) kid)"
              and l = "removeAll (show_nat kid) (vlists (view p) gid)"])
          (use rs li k g in \<open>auto simp: R_def rate_limit_row_def row_synced_def fun_eq_iff
             KeyStatusActive_def KeyStatusRateLimited_def distinct_removeAll split: option.splits\<close>)
      then show ?thesis using k(3) by (simp add: ok_def)
    qed
  qed
qed

section \<open>Selection\<close>

lemma synced_list_change:
  assumes "synced v" "distinct l" "set l = set (vlists v g)"
  shows "synced (on_list g (\<lambda>_. l) v)"
proof -
  have "list_synced (on_list g (\<lambda>_. l) v) g'" for g'
    using assms(2,3) synced_parts(4,5) [OF assms(1), of g'] by (auto simp: list_synced_def)
  then show ?thesis using assms(1) by (simp add: synced_def)
qed

lemma select_step:
  assumes "ok p" "vlists (view p) gid = l @ [t]"
  shows "\<exists>p' a k. SelectKey gid p = (p', Inr a) \<and> ok p' \<and> kdb p' = kdb p \<and> next_id p' = next_id p \<and>
    vlists (view p') = (vlists (view p))(gid := t # l) \<and> show_nat (ID a) = t \<and>
    k \<in> set (kdb p) \<and> ID k = ID a \<and> GroupID k = gid \<and> Status k = KeyStatusActive \<and>
    KeyValue a = KeyValue k \<and> FailureCount a = FailureCount k \<and> GroupID a = gid \<and>
    Status a = KeyStatusActive"
proof -
  have kp: "kp_ok p" and sy: "synced (view p)" using assms(1) by (auto simp: ok_def)
  have it: "mem.items (kstore p) (active_list gid) = l @ [t]" using assms(2) by (simp add: view_def)
  obtain s where s: "mem_Rotate (active_list gid) (kstore p) = (s, Inr t)" "mem_inv s"
    "mem.items s (active_list gid) = t # l" "mem.is_queue s (active_list gid)"
    "\<And>k. k \<noteq> active_list gid \<Longrightarrow> mem_abs s k = mem_abs (kstore p) k"
    using mem.Rotate_queue [OF kp_ok_parts(1,2) [OF kp], of gid] it by auto
  let ?p1 = "p\<lparr>kstore := s\<rparr>"
  have p1: "kp_ok ?p1" "view ?p1 = on_list gid (\<lambda>_. t # l) (view p)"
    using view_list_change [OF kp s(2,4), where f = "\<lambda>_. t # l"] s by simp_all
  have "t \<in> show_nat ` active_ids (kdb p) gid"
    using synced_parts(5) [OF sy, of gid] assms(2) by auto
  then obtain k where k: "k \<in> set (kdb p)" "GroupID k = gid" "Status k = KeyStatusActive" "t = show_nat (ID k)"
    by (auto simp: active_ids_def)
  have rs: "row_synced (vhashes (view p)) k" using synced_parts(2) [OF sy] k(1) by simp
  obtain h where h: "mem_HGetAll (key_hash (ID k)) s = (s, Inr h)"
    "\<And>f. field_text h f = text_of (vhashes (view p) (ID k)) f"
    using read_hash [OF p1(1), of "ID k"] p1(2) by auto
  have sel: "SelectKey gid p = (?p1, Inr (key_of_hash (ID k) gid h))"
    using s(1) k(4) rs h(1) by (simp add: SelectKey_def row_synced_def)
  have "distinct (l @ [t])" using synced_parts(4) [OF sy, of gid] assms(2) by simp
  then have "synced (view ?p1)"
    unfolding p1(2) using assms(2) by (intro synced_list_change [OF sy]) auto
  then have "ok ?p1" using p1(1) by (simp add: ok_def)
  moreover have "vlists (view ?p1) = (vlists (view p))(gid := t # l)" by (simp add: p1(2))
  ultimately show ?thesis
    using sel k rs h(2) by (intro exI [of _ ?p1] exI [of _ "key_of_hash (ID k) gid h"] exI [of _ k])
      (simp add: key_of_hash_def text_of_def row_synced_def)
qed

lemma select_none:
  assumes "ok p" "vlists (view p) gid = []"
  shows "SelectKey gid p = (p, Inl KNoActiveKeys)"
proof -
  have "mem.is_queue (kstore p) (active_list gid)" "mem.items (kstore p) (active_list gid) = []"
    using assms kp_ok_parts(2) by (auto simp: ok_def view_def)
  then have "mem_Rotate (active_list gid) (kstore p) = (kstore p, Inl ErrNotFound)"
    by (auto simp: mem_Rotate_def mem.is_queue_def mem.items_def split: option.splits store_val.splits)
  then show ?thesis by (simp add: SelectKey_def)
qed

text \<open>C3: While the store agrees with the table, SelectKey returns a key of the requested group
  that is active in the table, with the value and failure count the table has, and it reports
  that there is no key only when the group has no active key; the table is not changed and the
  agreement is kept.\<close>

theorem select_returns_active:
  assumes "ok p" "SelectKey gid p = (p', r)"
  shows "ok p' \<and> kdb p' = kdb p \<and>
    (case r of
       Inr a \<Rightarrow> GroupID a = gid \<and> Status a = KeyStatusActive \<and>
         (\<exists>k \<in> set (kdb p). ID k = ID a \<and> GroupID k = gid \<and> Status k = KeyStatusActive \<and>
            KeyValue a = KeyValue k \<and> FailureCount a = FailureCount k)
     | Inl e \<Rightarrow> e = KNoActiveKeys \<and> active_ids (kdb p) gid = {})"
proof (cases "vlists (view p) gid" rule: rev_cases)
  case Nil
  then show ?thesis
    using select_none [OF assms(1) Nil] assms synced_parts(5) [of "view p" gid] by (auto simp: ok_def)
next
  case (snoc l t)
  from select_step [OF assms(1) snoc] obtain p1 a k where
    "SelectKey gid p = (p1, Inr a)" "ok p1" "kdb p1 = kdb p" "k \<in> set (kdb p)" "ID k = ID a"
    "GroupID k = gid" "Status k = KeyStatusActive" "KeyValue a = KeyValue k"
    "FailureCount a = FailureCount k" "GroupID a = gid" "Status a = KeyStatusActive" by blast
  then show ?thesis using assms(2) by auto
qed

fun select_many :: "nat \<Rightarrow> nat \<Rightarrow> kp \<Rightarrow> kp \<times> (kp_err + APIKey) list" where
  "select_many 0 gid p = (p, [])"
| "select_many (Suc n) gid p =
    (case SelectKey gid p of (p', r) \<Rightarrow> case select_many n gid p' of (q, rs) \<Rightarrow> (q, r # rs))"

lemma select_many_suffix:
  "ok p \<Longrightarrow> vlists (view p) gid = l @ ts \<Longrightarrow>
   \<exists>p' ks. select_many (length ts) gid p = (p', map Inr ks) \<and> ok p' \<and>
     map (\<lambda>a. show_nat (ID a)) ks = rev ts"
proof (induction ts arbitrary: l p rule: rev_induct)
  case Nil
  then show ?case by simp
next
  case (snoc t ts)
  obtain p1 a where 1: "SelectKey gid p = (p1, Inr a)" "ok p1" "show_nat (ID a) = t"
    "vlists (view p1) gid = (t # l) @ ts"
    using select_step [of p gid "l @ ts" t] snoc.prems by auto
  obtain p' ks where "select_many (length ts) gid p1 = (p', map Inr ks)" "ok p'"
    "map (\<lambda>a. show_nat (ID a)) ks = rev ts" using snoc.IH [OF 1(2,4)] by blast
  then show ?case using 1 by (intro exI [of _ p'] exI [of _ "a # ks"]) simp
qed

lemma select_round:
  assumes "ok p" "select_many (card (active_ids (kdb p) gid)) gid p = (p', rs)"
  shows "\<exists>ks. rs = map Inr ks \<and> distinct (map ID ks) \<and> set (map ID ks) = active_ids (kdb p) gid"
proof -
  let ?l = "vlists (view p) gid"
  have d: "distinct ?l" "set ?l = show_nat ` active_ids (kdb p) gid"
    using assms(1) synced_parts(4,5) [of "view p" gid] by (auto simp: ok_def)
  have "card (active_ids (kdb p) gid) = length ?l"
    using d by (metis card_image distinct_card inj_onI show_nat_eq)
  then obtain ks where ks: "rs = map Inr ks" "map (\<lambda>a. show_nat (ID a)) ks = rev ?l"
    using select_many_suffix [OF assms(1), of gid "[]" ?l] assms(2) by auto
  have m: "map show_nat (map ID ks) = rev ?l" using ks(2) by (simp add: comp_def)
  have "distinct (map ID ks)" using m d(1) by (metis distinct_map distinct_rev)
  moreover have "show_nat ` set (map ID ks) = show_nat ` active_ids (kdb p) gid"
    using m d(2) by (metis set_map set_rev)
  then have "set (map ID ks) = active_ids (kdb p) gid" by (auto simp: inj_image_eq_iff inj_def)
  ultimately show ?thesis using ks(1) by blast
qed

lemma select_many_active:
  "ok p \<Longrightarrow> select_many n gid p = (q, rs) \<Longrightarrow> Inr a \<in> set rs \<Longrightarrow> ID a \<in> active_ids (kdb p) gid"
proof (induction n arbitrary: p rs)
  case (Suc n)
  obtain p1 r where r: "SelectKey gid p = (p1, r)" by fastforce
  obtain rs1 where m: "select_many n gid p1 = (q, rs1)" "rs = r # rs1"
    using Suc.prems(2) r by (auto split: prod.splits)
  show ?case
  proof (cases "vlists (view p) gid" rule: rev_cases)
    case Nil
    then have "p1 = p" "r = Inl KNoActiveKeys" using select_none [OF Suc.prems(1)] r by auto
    then show ?thesis using Suc.IH [OF Suc.prems(1)] m Suc.prems(3) by auto
  next
    case (snoc l t)
    from select_step [OF Suc.prems(1) snoc] obtain a1 k where s: "r = Inr a1" "ok p1" "kdb p1 = kdb p"
      "k \<in> set (kdb p)" "ID k = ID a1" "GroupID k = gid" "Status k = KeyStatusActive"
      using r by auto
    have "ID a1 \<in> active_ids (kdb p) gid" using s(4-7) unfolding active_ids_def by (intro image_eqI [of _ ID k]) auto
    then show ?thesis using Suc.IH [OF s(2) m(1)] s(1,3) m(2) Suc.prems(3) by auto
  qed
qed simp

text \<open>Some number of selections one after another returns the key.\<close>

definition selectable :: "nat \<Rightarrow> nat \<Rightarrow> kp \<Rightarrow> bool" where
  "selectable kid gid p \<longleftrightarrow> (\<exists>n a. Inr a \<in> set (snd (select_many n gid p)) \<and> ID a = kid)"

lemma selectable_iff:
  assumes "ok p"
  shows "selectable kid gid p \<longleftrightarrow> kid \<in> active_ids (kdb p) gid"
proof
  assume "kid \<in> active_ids (kdb p) gid"
  moreover obtain ks where ks: "snd (select_many (card (active_ids (kdb p) gid)) gid p) = map Inr ks"
    "set (map ID ks) = active_ids (kdb p) gid" using select_round [OF assms prod.collapse [symmetric]] by blast
  ultimately have "kid \<in> ID ` set ks" by simp
  then obtain a where "a \<in> set ks" "ID a = kid" by blast
  then have "Inr a \<in> set (snd (select_many (card (active_ids (kdb p) gid)) gid p))" using ks(1) by simp
  then show "selectable kid gid p" unfolding selectable_def using \<open>ID a = kid\<close> by blast
qed (use select_many_active [OF assms prod.collapse [symmetric]] in \<open>auto simp: selectable_def\<close>)

text \<open>C4: Selection is fair: as many calls as the group has active keys return every active key
  of the group exactly once.\<close>

theorem selection_fair:
  assumes "ok p" "select_many (card (active_ids (kdb p) gid)) gid p = (p', rs)"
  shows "\<exists>ks. rs = map Inr ks \<and> distinct (map ID ks) \<and> set (map ID ks) = active_ids (kdb p) gid"
  using select_round [OF assms] .

section \<open>Bulk operations\<close>

lemma does_run_all_map:
  assumes "\<And>k. does (a k) (F k)"
  shows "does (run_all (map a ks)) (fold F ks)"
proof (induction ks)
  case Nil
  then show ?case by (simp add: does_def)
next
  case (Cons k ks)
  have "(\<lambda>v. fold F ks (F k v)) = fold F (k # ks)" by (simp add: fun_eq_iff)
  then show ?case using does_Cons [OF assms [of k] Cons.IH] by (simp only: list.map)
qed

definition add_effect :: "APIKey \<Rightarrow> kview \<Rightarrow> kview" where
  "add_effect k v =
    (let v1 = on_hash (ID k) (hash_upd (apiKeyToMap k)) v in
     if Status k = KeyStatusActive
     then on_list (GroupID k) (\<lambda>l. show_nat (ID k) # removeAll (show_nat (ID k)) l) v1 else v1)"

definition rem_effect :: "APIKey \<Rightarrow> kview \<Rightarrow> kview" where
  "rem_effect k v = on_hash (ID k) (\<lambda>_. Map.empty) (on_list (GroupID k) (removeAll (show_nat (ID k))) v)"

lemma on_list_twice: "on_list g f (on_list g h v) = on_list g (\<lambda>l. f (h l)) v"
  by (simp add: on_list_def)

lemma does_addKeyToStore: "does (addKeyToStore k) (add_effect k)"
proof (cases "Status k = KeyStatusActive")
  case True
  have "add_effect k = (\<lambda>v. on_list (GroupID k) (\<lambda>l. show_nat (ID k) # l)
      (on_list (GroupID k) (removeAll (show_nat (ID k))) (on_hash (ID k) (hash_upd (apiKeyToMap k)) v)))"
    using True by (simp add: add_effect_def on_list_twice fun_eq_iff)
  then show ?thesis
    unfolding addKeyToStore_def using True does_success_inactive by simp
next
  case False
  then show ?thesis
    unfolding addKeyToStore_def add_effect_def using does_success_active by simp
qed

lemma does_removeKeyFromStore: "does (removeKeyFromStore (ID k) (GroupID k)) (rem_effect k)"
  unfolding removeKeyFromStore_def rem_effect_def
  by (rule does_Cons [OF logged_of_store [OF does_LRem] does_Cons [OF does_Delete_hash does_Nil]])

lemma add_effect_sel [simp]:
  "vdb (add_effect k v) = vdb v" "vnext (add_effect k v) = vnext v"
  "vhashes (add_effect k v) = (vhashes v)(ID k := hash_upd (apiKeyToMap k) (vhashes v (ID k)))"
  "vlists (add_effect k v) = (if Status k = KeyStatusActive then (vlists v)(GroupID k :=
     show_nat (ID k) # removeAll (show_nat (ID k)) (vlists v (GroupID k))) else vlists v)"
  by (simp_all add: add_effect_def Let_def)

lemma rem_effect_sel [simp]:
  "vdb (rem_effect k v) = vdb v" "vnext (rem_effect k v) = vnext v"
  "vhashes (rem_effect k v) = (vhashes v)(ID k := Map.empty)"
  "vlists (rem_effect k v) = (vlists v)(GroupID k := removeAll (show_nat (ID k)) (vlists v (GroupID k)))"
  by (simp_all add: rem_effect_def)

lemma fold_add_db [simp]:
  "vdb (fold add_effect ks v) = vdb v" "vnext (fold add_effect ks v) = vnext v"
  by (induction ks arbitrary: v) simp_all

lemma fold_rem_db [simp]:
  "vdb (fold rem_effect ks v) = vdb v" "vnext (fold rem_effect ks v) = vnext v"
  by (induction ks arbitrary: v) simp_all

lemma active_ids_Cons: "active_ids (k # ks) g =
    (if GroupID k = g \<and> Status k = KeyStatusActive then {ID k} else {}) \<union> active_ids ks g"
  by (auto simp: active_ids_def)

lemma fold_add_lists:
  "(distinct (vlists v g) \<longrightarrow> distinct (vlists (fold add_effect ks v) g)) \<and>
   set (vlists (fold add_effect ks v) g) = set (vlists v g) \<union> show_nat ` active_ids ks g"
proof (induction ks arbitrary: v)
  case Nil
  then show ?case by (simp add: active_ids_def)
next
  case (Cons k ks)
  show ?case using Cons.IH [of "add_effect k v"] by (auto simp: active_ids_Cons distinct_removeAll)
qed

lemma fold_rem_lists:
  "(distinct (vlists v g) \<longrightarrow> distinct (vlists (fold rem_effect ks v) g)) \<and>
   set (vlists (fold rem_effect ks v) g) = set (vlists v g) - show_nat ` ID ` {k \<in> set ks. GroupID k = g}"
proof (induction ks arbitrary: v)
  case Nil
  then show ?case by simp
next
  case (Cons k ks)
  show ?case using Cons.IH [of "rem_effect k v"] by (auto simp: distinct_removeAll)
qed

lemma fold_add_other: "i \<notin> ID ` set ks \<Longrightarrow> vhashes (fold add_effect ks v) i = vhashes v i"
  by (induction ks arbitrary: v) auto

lemma fold_rem_other: "i \<notin> ID ` set ks \<Longrightarrow> vhashes (fold rem_effect ks v) i = vhashes v i"
  by (induction ks arbitrary: v) auto

lemma does_add_all: "does (run_all (map addKeyToStore ks)) (fold add_effect ks)"
  by (rule does_run_all_map) (rule does_addKeyToStore)

definition storable :: "APIKey \<Rightarrow> bool" where
  "storable k \<longleftrightarrow> ID k \<le> 18446744073709551615 \<and> in_i64 (FailureCount k)"

lemma apiKeyToMap_synced:
  "storable k \<Longrightarrow> hs (ID k) = hash_upd (apiKeyToMap k) h \<Longrightarrow> row_synced hs k"
  by (auto simp: row_synced_def storable_def apiKeyToMap_def split: option.split)

lemma fold_add_synced:
  "distinct (map ID ks) \<Longrightarrow> k \<in> set ks \<Longrightarrow> storable k \<Longrightarrow>
   row_synced (vhashes (fold add_effect ks v)) k"
proof (induction ks arbitrary: v)
  case (Cons k' ks)
  show ?case
  proof (cases "k = k'")
    case True
    then have "ID k \<notin> ID ` set ks" using Cons.prems(1) by auto
    then show ?thesis
      using True Cons.prems(3) fold_add_other [of "ID k" ks "add_effect k' v"]
      by (intro apiKeyToMap_synced [where h = "vhashes v (ID k)"]) auto
  next
    case False
    then show ?thesis using Cons by simp
  qed
qed simp

text \<open>A bulk operation whose commit does not fail changes nothing or has its full effect.\<close>

lemma bulk_spec:
  assumes "kp_ok p" "commit_err env = None" "\<And>k. does (a k) (F k)"
    and "bulk env P change a p = (p', n, r)"
  shows "(p' = p \<and> (r = None \<longrightarrow> filter P (kdb p) = [])) \<or> (r = None \<and> kp_ok p' \<and>
     n = length (filter P (kdb p)) \<and> view p' = fold F (filter P (kdb p))
       ((view p)\<lparr>vdb := change (pluckIDs (filter P (kdb p))) (kdb p)\<rparr>))"
proof (cases "first_err env = None \<and> update_err env = None \<and> filter P (kdb p) \<noteq> []")
  case False
  then show ?thesis
    using assms(2,4)
    by (cases "first_err env"; cases "filter P (kdb p) = []"; cases "update_err env")
      (auto simp: bulk_def transaction_def in_db_def Let_def)
next
  case True
  let ?found = "filter P (kdb p)"
  have "does (run_all (in_db None (change (pluckIDs ?found)) # map a ?found))
      (\<lambda>v. fold F ?found (v\<lparr>vdb := change (pluckIDs ?found) (vdb v)\<rparr>))"
    by (rule does_Cons [OF does_in_db does_run_all_map [OF assms(3)]])
  then obtain q where "run_all (in_db None (change (pluckIDs ?found)) # map a ?found) p = (q, None)"
    "kp_ok q" "view q = fold F ?found ((view p)\<lparr>vdb := change (pluckIDs ?found) (kdb p)\<rparr>)"
    using assms(1) unfolding does_def by (metis view_sel(1))
  then show ?thesis
    using assms(2,4) True by (auto simp: bulk_def transaction_def Let_def)
qed

lemma synced_rows: "synced v \<Longrightarrow> k \<in> set (vdb v) \<Longrightarrow> storable k"
  using synced_parts(2) by (auto simp: row_synced_def storable_def)

lemma distinct_filter_ids: "distinct (map ID rows) \<Longrightarrow> distinct (map ID (filter P rows))"
  by (rule distinct_map_filter)

lemma bulk_delete_synced:
  assumes "synced v" "found = filter P (vdb v)"
  shows "synced (fold rem_effect found (v\<lparr>vdb := delete_ids (pluckIDs found) (vdb v)\<rparr>))"
proof -
  note p = synced_parts [OF assms(1)]
  let ?v = "v\<lparr>vdb := delete_ids (pluckIDs found) (vdb v)\<rparr>"
  let ?w = "fold rem_effect found ?v"
  have ids: "ID k \<in> ID ` set found \<longleftrightarrow> P k" if "k \<in> set (vdb v)" for k
    using same_id [OF p(1) that] that assms(2) by auto
  have rows: "set (delete_ids (pluckIDs found) (vdb v)) = {k \<in> set (vdb v). \<not> P k}"
    using ids by (auto simp: delete_ids_def pluckIDs_def)
  have inj: "inj_on ID (set (vdb v))" using p(1) by (simp add: distinct_map)
  have "active_ids (delete_ids (pluckIDs found) (vdb v)) g =
      active_ids (vdb v) g - ID ` {k \<in> set found. GroupID k = g}" for g
  proof -
    let ?A = "{k \<in> set (vdb v). GroupID k = g \<and> Status k = KeyStatusActive}"
    let ?B = "{k \<in> set found. GroupID k = g}"
    have "{k \<in> {k \<in> set (vdb v). \<not> P k}. GroupID k = g \<and> Status k = KeyStatusActive} = ?A - ?B"
      using assms(2) by auto
    moreover have "ID ` (?A - ?B) = ID ` ?A - ID ` ?B"
      by (rule inj_on_image_set_diff [OF inj]) (use assms(2) in auto)
    ultimately show ?thesis by (simp add: active_ids_def rows)
  qed
  then have "list_synced ?w g" for g
    using fold_rem_lists [of ?v g found] p(4,5) [of g] by (auto simp: list_synced_def)
  moreover have "row_synced (vhashes ?w) k \<and> ID k < vnext ?w" if "k \<in> set (vdb ?w)" for k
  proof -
    have k: "k \<in> set (vdb v)" "\<not> P k" using that rows by auto
    then have "ID k \<notin> ID ` set found" using ids by blast
    then have "vhashes ?w (ID k) = vhashes v (ID k)"
      using fold_rem_other [of "ID k" found ?v] by simp
    then show ?thesis using p(2,3) [OF k(1)] by (simp add: row_synced_def)
  qed
  moreover have "distinct (map ID (vdb ?w))"
    using p(1) by (simp add: delete_ids_def distinct_filter_ids)
  ultimately show ?thesis by (simp add: synced_def)
qed

lemma restored_sel [simp]: "ID (restored k) = ID k" "GroupID (restored k) = GroupID k"
  "Status (restored k) = KeyStatusActive" "KeyValue (restored k) = KeyValue k" "FailureCount (restored k) = 0"
  by (simp_all add: restored_def)

lemma fold_map_restored: "fold (\<lambda>k. add_effect (restored k)) ks v = fold add_effect (map restored ks) v"
  by (induction ks arbitrary: v) simp_all

lemma bulk_restore_synced:
  assumes "synced v" "found = filter P (vdb v)"
  shows "synced (fold (\<lambda>k. add_effect (restored k)) found (v\<lparr>vdb := restore_ids (pluckIDs found) (vdb v)\<rparr>))"
proof -
  note p = synced_parts [OF assms(1)]
  let ?v = "v\<lparr>vdb := restore_ids (pluckIDs found) (vdb v)\<rparr>"
  let ?w = "fold add_effect (map restored found) ?v"
  have ids: "ID k \<in> ID ` set found \<longleftrightarrow> P k" if "k \<in> set (vdb v)" for k
    using same_id [OF p(1) that] that assms(2) by auto
  have rows: "set (restore_ids (pluckIDs found) (vdb v)) = (\<lambda>k. if P k then restored k else k) ` set (vdb v)"
    using ids unfolding restore_ids_def pluckIDs_def set_map by (intro image_cong) auto
  have d: "distinct (map ID (map restored found))"
    using p(1) assms(2) by (simp add: comp_def distinct_filter_ids)
  let ?f = "\<lambda>k. if P k then restored k else k"
  have f: "ID (?f k) = ID k" "GroupID (?f k) = GroupID k"
    "Status (?f k) = KeyStatusActive \<longleftrightarrow> P k \<or> Status k = KeyStatusActive" for k
    by simp_all
  have "active_ids (restore_ids (pluckIDs found) (vdb v)) g =
      (\<lambda>k. ID (?f k)) ` {k \<in> set (vdb v). GroupID (?f k) = g \<and> Status (?f k) = KeyStatusActive}" for g
    unfolding active_ids_def rows by blast
  then have "active_ids (restore_ids (pluckIDs found) (vdb v)) g =
      ID ` {k \<in> set (vdb v). GroupID k = g \<and> (P k \<or> Status k = KeyStatusActive)}" for g
    unfolding f .
  moreover have "active_ids (map restored found) g = ID ` {k \<in> set (vdb v). GroupID k = g \<and> P k}" for g
    unfolding active_ids_def using assms(2) by (force simp: image_iff)
  ultimately have "active_ids (restore_ids (pluckIDs found) (vdb v)) g =
      active_ids (vdb v) g \<union> active_ids (map restored found) g" for g
    unfolding active_ids_def [of "vdb v"] by auto
  then have "list_synced ?w g" for g
    using fold_add_lists [of ?v g "map restored found"] p(4,5) [of g] by (auto simp: list_synced_def)
  moreover have "row_synced (vhashes ?w) r \<and> ID r < vnext ?w" if r: "r \<in> set (vdb ?w)" for r
  proof -
    obtain k where k: "k \<in> set (vdb v)" "r = (if P k then restored k else k)" using r rows by auto
    show ?thesis
    proof (cases "P k")
      case True
      then have "restored k \<in> set (map restored found)" "storable (restored k)"
        using k(1) assms(2) synced_rows [OF assms(1) k(1)] by (auto simp: storable_def)
      from fold_add_synced [OF d this] show ?thesis using True k p(3) [OF k(1)] by simp
    next
      case False
      then have "ID k \<notin> ID ` set (map restored found)" using ids [OF k(1)] by (auto simp: image_image)
      then have "vhashes ?w (ID k) = vhashes v (ID k)"
        using fold_add_other [of "ID k" "map restored found" ?v] by simp
      then show ?thesis using p(2,3) [OF k(1)] k(2) False by (simp add: row_synced_def)
    qed
  qed
  moreover have "map ID (vdb ?w) = map ID (vdb v)" by (simp add: restore_ids_def)
  ultimately show ?thesis using p(1) by (simp add: synced_def fold_map_restored)
qed

lemma bulk_remove_ok:
  assumes "ok p" "commit_err env = None"
    and "bulk env P delete_ids (\<lambda>k. removeKeyFromStore (ID k) (GroupID k)) p = (p', n, r)"
  shows "ok p'"
  using bulk_spec [OF _ assms(2) does_removeKeyFromStore assms(3)] assms(1)
    bulk_delete_synced [of "view p" _ P] by (auto simp: ok_def)

lemma bulk_restore_ok:
  assumes "ok p" "commit_err env = None"
    and "bulk env P restore_ids (\<lambda>k. addKeyToStore (restored k)) p = (p', n, r)"
  shows "ok p'"
  using bulk_spec [OF _ assms(2) does_addKeyToStore assms(3)] assms(1)
    bulk_restore_synced [of "view p" _ P] by (auto simp: ok_def)

lemmas bulk_ops_ok = bulk_remove_ok bulk_restore_ok

lemma RemoveKeys_ok: "ok p \<Longrightarrow> commit_err env = None \<Longrightarrow> RemoveKeys env g vs p = (p', n, r) \<Longrightarrow> ok p'"
  by (auto simp: RemoveKeys_def split: if_splits intro: bulk_ops_ok)

lemma RestoreKeys_ok: "ok p \<Longrightarrow> commit_err env = None \<Longrightarrow> RestoreKeys env g p = (p', n, r) \<Longrightarrow> ok p'"
  unfolding RestoreKeys_def by (rule bulk_ops_ok)

lemma RestoreMultipleKeys_ok:
  "ok p \<Longrightarrow> commit_err env = None \<Longrightarrow> RestoreMultipleKeys env g vs p = (p', n, r) \<Longrightarrow> ok p'"
  by (auto simp: RestoreMultipleKeys_def split: if_splits intro: bulk_ops_ok)

lemma removeKeysByStatus_ok:
  "ok p \<Longrightarrow> commit_err env = None \<Longrightarrow> removeKeysByStatus env g st p = (p', n, r) \<Longrightarrow> ok p'"
  unfolding removeKeysByStatus_def by (rule bulk_ops_ok)

lemma number_from_ids: "map ID (number_from n ks) = [n..<n + length ks]"
  by (induction n ks rule: number_from.induct) (simp_all add: upt_rec)

lemma number_from_rows: "k \<in> set (number_from n ks) \<Longrightarrow> \<exists>k0 \<in> set ks. FailureCount k = FailureCount k0"
  by (induction n ks rule: number_from.induct) auto

lemma AddKeys_ok:
  assumes "ok p" "commit_err env = None" "AddKeys env keys p = (p', r)"
    and "\<forall>k \<in> set keys. in_i64 (FailureCount k)" "next_id p + length keys \<le> 18446744073709551616"
  shows "ok p'"
proof -
  let ?new = "number_from (next_id p) keys"
  have kp: "kp_ok p" and sy: "synced (view p)" using assms(1) by (auto simp: ok_def)
  note q = synced_parts [OF sy]
  show ?thesis
  proof (cases "keys = [] \<or> update_err env \<noteq> None \<or> \<not> unique_values (kdb p @ ?new)")
    case True
    then show ?thesis
      using assms(1-3)
      by (cases "keys = []"; cases "update_err env") (auto simp: AddKeys_def transaction_def Let_def)
  next
    case False
    let ?p1 = "p\<lparr>kdb := kdb p @ ?new, next_id := next_id p + length ?new\<rparr>"
    have k1: "kp_ok ?p1" using kp by simp
    obtain z where z: "run_all (map addKeyToStore ?new) ?p1 = (z, None)" "kp_ok z"
      "view z = fold add_effect ?new (view ?p1)"
      using does_add_all [of ?new] k1 unfolding does_def by blast
    have pz: "p' = z" using assms(2,3) False z(1) by (simp add: AddKeys_def transaction_def Let_def)
    have len: "length ?new = length keys" using number_from_ids [of "next_id p" keys] by (metis length_map length_upt add_diff_cancel_left')
    have ids: "ID k \<in> {next_id p..<next_id p + length keys}" if "k \<in> set ?new" for k
      using that number_from_ids [of "next_id p" keys] by (metis image_eqI set_map set_upt)
    have d: "distinct (map ID ?new)" by (simp add: number_from_ids)
    have fc: "in_i64 (FailureCount k)" if "k \<in> set ?new" for k
      using number_from_rows [OF that] assms(4) by auto
    have lists: "list_synced (fold add_effect ?new (view ?p1)) g" for g
      using fold_add_lists [of "view ?p1" g ?new] q(4,5) [of g]
      by (auto simp: list_synced_def active_ids_def)
    moreover have "row_synced (vhashes (fold add_effect ?new (view ?p1))) k" if "k \<in> set (kdb p @ ?new)" for k
    proof (cases "k \<in> set ?new")
      case True
      then have "storable k" using ids [OF True] fc [OF True] assms(5) by (auto simp: storable_def)
      then show ?thesis using fold_add_synced [OF d True] by blast
    next
      case False
      then have k: "k \<in> set (vdb (view p))" using that by simp
      then have "ID k \<notin> ID ` set ?new" using q(3) [OF k] ids by fastforce
      then have "vhashes (fold add_effect ?new (view ?p1)) (ID k) = vhashes (view p) (ID k)"
        using fold_add_other [of "ID k" ?new "view ?p1"] by (simp add: view_def)
      then show ?thesis using q(2) [OF k] by (simp add: row_synced_def)
    qed
    moreover have "distinct (map ID (kdb p @ ?new))" using q(1,3) d ids by fastforce
    ultimately have "synced (view z)"
      using z(3) ids q(3) len by (fastforce simp: synced_def)
    then show ?thesis using z(2) pz by (simp add: ok_def)
  qed
qed

section \<open>Recovery and group deletion\<close>

lemma recover_one:
  assumes "ok p" "commits envs" "k \<in> set (kdb p)" "Status k = KeyStatusRateLimited"
    and "recoverSingleKey envs k p = (p', r)"
  shows "ok p' \<and> (\<forall>k' \<in> set (kdb p). ID k' \<noteq> ID k \<longrightarrow> k' \<in> set (kdb p')) \<and>
    (r = None \<longrightarrow> ID k \<in> active_ids (kdb p') (GroupID k))"
proof -
  have kp: "kp_ok p" and sy: "synced (view p)" using assms(1) by (auto simp: ok_def)
  let ?f = "\<lambda>k. k\<lparr>Status := KeyStatusActive, RateLimitResetAt := None\<rparr>"
  let ?rest = "[in_store (mem_HSet (key_hash (ID k)) [(''status'', AStr KeyStatusActive)]),
     in_store (mem_LPush (active_list (GroupID k)) [AUint (ID k)])]"
  let ?R = "\<lambda>v. on_list (GroupID k) (\<lambda>l. show_nat (ID k) # l)
     (on_hash (ID k) (hash_upd [(''status'', AStr KeyStatusActive)]) v)"
  let ?P = "\<lambda>q. kp_ok q \<and> view q = ?R ((view p)\<lparr>vdb := db_update (ID k) ?f (kdb p)\<rparr>)"
  have d: "does (run_all ?rest) ?R"
    by (rule does_Cons [OF does_HSet does_Cons [OF does_LPush1 does_Nil]])
  have b: "(\<exists>e. run_all (in_db (update_err env) (db_update (ID k) ?f) # ?rest) p = (p, Some e)) \<or>
      (\<exists>q. run_all (in_db (update_err env) (db_update (ID k) ?f) # ?rest) p = (q, None) \<and> ?P q)" for env
  proof (cases "update_err env")
    case None
    have "does (run_all (in_db None (db_update (ID k) ?f) # ?rest)) (\<lambda>v. ?R (v\<lparr>vdb := db_update (ID k) ?f (vdb v)\<rparr>))"
      by (rule does_Cons [OF does_in_db d])
    then show ?thesis using kp None unfolding does_def by (metis view_sel(1))
  next
    case (Some e)
    then show ?thesis by (simp add: in_db_def)
  qed
  let ?body = "\<lambda>env. run_all (in_db (update_err env) (db_update (ID k) ?f) # ?rest)"
  have "retry_from 3 0 envs ?body None p = (p', r)"
    using assms(5) unfolding recoverSingleKey_def executeTransactionWithRetry_def .
  then have "(p' = p \<and> r \<noteq> None) \<or> (r = None \<and> ?P p')"
    by (intro retry_from_spec [where envs = envs and P = ?P and p = p and n = 3 and i = 0
        and err = None and body = ?body, OF assms(2) b]) simp_all
  then show ?thesis
  proof
    assume "p' = p \<and> r \<noteq> None" then show ?thesis using assms(1) by auto
  next
    assume q: "r = None \<and> ?P p'"
    have k: "k \<in> set (vdb (view p))" using assms(3) by simp
    note rs = synced_parts(2) [OF sy k]
    note li = in_list_iff [OF sy k] synced_parts(4) [OF sy, of "GroupID k"]
    have "synced (view p')"
      by (rule synced_after [OF sy k, where f = ?f and v' = "view p'"
            and w = "?R ((view p)\<lparr>vdb := db_update (ID k) ?f (kdb p)\<rparr>)"
            and h = "(vhashes (view p) (ID k))(''status'' \<mapsto> KeyStatusActive)"
            and l = "show_nat (ID k) # vlists (view p) (GroupID k)"])
        (use rs li q assms(4) in \<open>auto simp: row_synced_def KeyStatusActive_def KeyStatusRateLimited_def\<close>)
    moreover have db: "kdb p' = db_update (ID k) ?f (kdb p)"
      using view_eq_db [of p'] q by fastforce
    moreover have "\<forall>k' \<in> set (kdb p). ID k' \<noteq> ID k \<longrightarrow> k' \<in> set (db_update (ID k) ?f (kdb p))"
      by (force simp: db_update_def)
    moreover have "ID k \<in> active_ids (db_update (ID k) ?f (kdb p)) (GroupID k)"
      using active_ids_update [where f = ?f and k = k and rows = "kdb p" and g = "GroupID k"]
        synced_parts(1) [OF sy] assms(3) by simp
    ultimately show ?thesis using q by (simp add: ok_def)
  qed
qed

lemma recover_each_ok:
  "ok p \<Longrightarrow> \<forall>j. commits (envs j) \<Longrightarrow> distinct (map ID ks) \<Longrightarrow> set ks \<subseteq> set (kdb p) \<Longrightarrow>
   \<forall>k \<in> set ks. Status k = KeyStatusRateLimited \<Longrightarrow> ok (recover_each j envs ks p)"
proof (induction ks arbitrary: j p)
  case (Cons k ks)
  obtain p' r where r: "recoverSingleKey (envs j) k p = (p', r)" by fastforce
  have s: "ok p'" "\<forall>k' \<in> set (kdb p). ID k' \<noteq> ID k \<longrightarrow> k' \<in> set (kdb p')"
    using recover_one [OF Cons.prems(1) _ _ _ r] Cons.prems by auto
  have "ok (recover_each (Suc j) envs ks p')"
  proof (rule Cons.IH [OF s(1) Cons.prems(2)])
    show "set ks \<subseteq> set (kdb p')"
    proof
      fix x assume x: "x \<in> set ks"
      moreover have "ID k \<notin> ID ` set ks" using Cons.prems(3) by simp
      ultimately have "ID x \<noteq> ID k" by (metis imageI)
      then show "x \<in> set (kdb p')" using s(2) x Cons.prems(4) by auto
    qed
  qed (use Cons.prems in auto)
  then show ?case using r by simp
qed simp

lemma ok_distinct: "ok p \<Longrightarrow> distinct (map ID (kdb p))"
  using synced_parts(1) [of "view p"] by (simp add: ok_def)

lemma RecoverRateLimitedKeys_ok:
  assumes "ok p" "\<forall>j. commits (envs j)" "RecoverRateLimitedKeys envs ferr now p = (p', r)"
  shows "ok p'"
proof (cases ferr)
  case None
  have "ok (recover_each 0 envs (filter (recoverable now) (kdb p)) p)"
    using assms(1,2) distinct_filter_ids [OF ok_distinct [OF assms(1)]]
    by (intro recover_each_ok) (auto simp: recoverable_def)
  then show ?thesis using assms(3) None by (simp add: RecoverRateLimitedKeys_def)
qed (use assms in \<open>auto simp: RecoverRateLimitedKeys_def\<close>)

text \<open>Deleting a group: its rows go first, then RemoveKeysFromStore cleans the store.\<close>

definition delete_group :: "nat \<Rightarrow> kp \<Rightarrow> kp" where
  "delete_group gid p =
    fst (RemoveKeysFromStore gid (pluckIDs (filter (\<lambda>k. GroupID k = gid) (kdb p)))
           (p\<lparr>kdb := filter (\<lambda>k. GroupID k \<noteq> gid) (kdb p)\<rparr>))"

lemma does_delete_hashes:
  "does (run_all (map (\<lambda>kid. in_store_logged (mem_Delete (key_hash kid))) kids))
     (fold (\<lambda>i. on_hash i (\<lambda>_. Map.empty)) kids)"
  by (rule does_run_all_map) (rule logged_of_store [OF does_Delete_hash])

lemma fold_clear_hashes:
  "vhashes (fold (\<lambda>i. on_hash i (\<lambda>_. Map.empty)) kids v) i = (if i \<in> set kids then Map.empty else vhashes v i)"
  "vlists (fold (\<lambda>i. on_hash i (\<lambda>_. Map.empty)) kids v) = vlists v"
  "vdb (fold (\<lambda>i. on_hash i (\<lambda>_. Map.empty)) kids v) = vdb v"
  "vnext (fold (\<lambda>i. on_hash i (\<lambda>_. Map.empty)) kids v) = vnext v"
  by (induction kids arbitrary: v) auto

lemma delete_group_ok:
  assumes "ok p"
  shows "ok (delete_group gid p)"
proof -
  let ?kids = "pluckIDs (filter (\<lambda>k. GroupID k = gid) (kdb p))"
  let ?p1 = "p\<lparr>kdb := filter (\<lambda>k. GroupID k \<noteq> gid) (kdb p)\<rparr>"
  have kp: "kp_ok ?p1" and sy: "synced (view p)" using assms by (auto simp: ok_def)
  note q = synced_parts [OF sy]
  have act: "active_ids (filter (\<lambda>k. GroupID k \<noteq> gid) (kdb p)) g =
      (if g = gid then {} else active_ids (kdb p) g)" for g
    by (auto simp: active_ids_def image_iff)
  show ?thesis
  proof (cases "?kids = []")
    case True
    then have "filter (\<lambda>k. GroupID k \<noteq> gid) (kdb p) = kdb p"
      by (auto simp: pluckIDs_def filter_id_conv filter_empty_conv)
    then show ?thesis using assms True by (simp add: delete_group_def RemoveKeysFromStore_def)
  next
    case False
    let ?R = "\<lambda>v. fold (\<lambda>i. on_hash i (\<lambda>_. Map.empty)) ?kids (on_list gid (\<lambda>_. []) v)"
    have "does (run_all (in_store (mem_Delete (active_list gid)) #
        map (\<lambda>kid. in_store_logged (mem_Delete (key_hash kid))) ?kids)) ?R"
      by (rule does_Cons [OF does_Delete_list does_delete_hashes])
    then obtain z where z: "RemoveKeysFromStore gid ?kids ?p1 = (z, None)" "kp_ok z" "view z = ?R (view ?p1)"
      using kp False unfolding does_def RemoveKeysFromStore_def by fastforce
    have "list_synced (view z) g" for g
      using q(4,5) [of g] act [of g] by (auto simp: z(3) list_synced_def fold_clear_hashes)
    moreover have "row_synced (vhashes (view z)) k \<and> ID k < vnext (view z)" if "k \<in> set (vdb (view z))" for k
    proof -
      have k: "k \<in> set (vdb (view p))" "GroupID k \<noteq> gid" using that by (auto simp: z(3) fold_clear_hashes)
      have "ID k \<notin> set ?kids" using same_id [OF q(1) k(1)] k(2) by (auto simp: pluckIDs_def)
      then show ?thesis using q(2,3) [OF k(1)] by (simp add: z(3) fold_clear_hashes row_synced_def)
    qed
    moreover have "distinct (map ID (vdb (view z)))"
      using q(1) by (simp add: z(3) fold_clear_hashes distinct_filter_ids)
    ultimately show ?thesis using z by (simp add: delete_group_def ok_def synced_def)
  qed
qed

end
