(* ===== verification/ProviderProps.thy ===== *)
theory ProviderProps
  imports ProviderInv
begin

text \<open>The properties of the key provider that rest on the agreement of store and table: the
  initial load establishes it, every operation keeps it, the blacklist threshold and the rate
  limit take a key out of selection, and a failing commit can break it.\<close>

section \<open>The initial load\<close>

lemma does_load_list:
  assumes "snd e \<noteq> []"
  shows "kp_ok p \<Longrightarrow> kp_ok (load_list e p) \<and>
    view (load_list e p) = on_list (fst e) (\<lambda>_. map show_nat (snd e)) (view p)"
proof -
  assume kp: "kp_ok p"
  obtain p1 where 1: "in_store_logged (mem_Delete (active_list (fst e))) p = (p1, None)" "kp_ok p1"
    "view p1 = on_list (fst e) (\<lambda>_. []) (view p)"
    using logged_of_store [OF does_Delete_list] kp unfolding does_def by blast
  obtain p2 where 2: "in_store_logged (mem_LPush (active_list (fst e)) (map AUint (snd e))) p1 = (p2, None)"
    "kp_ok p2" "view p2 = on_list (fst e) (\<lambda>l. map Sprint (map AUint (snd e)) @ l) (view p1)"
    using logged_of_store [OF does_LPush] 1(2) unfolding does_def by blast
  have "map Sprint (map AUint (snd e)) = map show_nat (snd e)" by simp
  then have "view p2 = on_list (fst e) (\<lambda>_. map show_nat (snd e)) (view p)"
    unfolding 2(3) 1(3) on_list_twice by (simp only: append_Nil2)
  then show ?thesis using 1(1) 2(1,2) assms by (simp add: load_list_def)
qed

lemma fold_load_list:
  "kp_ok p \<Longrightarrow> gomap_ok es \<Longrightarrow> \<forall>e \<in> set es. snd e \<noteq> [] \<Longrightarrow>
   kp_ok (fold load_list es p) \<and> vhashes (view (fold load_list es p)) = vhashes (view p) \<and>
   vdb (view (fold load_list es p)) = vdb (view p) \<and> vnext (view (fold load_list es p)) = vnext (view p) \<and>
   (\<forall>g. vlists (view (fold load_list es p)) g =
      (case gget es g of Some l \<Rightarrow> map show_nat l | None \<Rightarrow> vlists (view p) g))"
proof (induction es arbitrary: p)
  case (Cons e es)
  obtain g0 l0 where e: "e = (g0, l0)" by fastforce
  have n: "map_of es g0 = None" "gomap_ok es"
    using Cons.prems(2) e by (auto simp: gomap_ok_def map_of_eq_None_iff)
  show ?case
    using Cons.IH [of "load_list e p"] does_load_list [of e p] Cons.prems(1,3) n e
      view_eq_db [of "load_list e p"]
    by (auto split: option.split)
qed simp

lemma group_active_snoc: "group_active (rows @ [k]) =
   (if Status k = KeyStatusActive
    then gput (GroupID k) ((case gget (group_active rows) (GroupID k) of None \<Rightarrow> [] | Some l \<Rightarrow> l) @ [ID k])
           (group_active rows)
    else group_active rows)"
  by (simp add: group_active_def)

definition active_rows :: "APIKey list \<Rightarrow> nat \<Rightarrow> nat list" where
  "active_rows rows g = map ID (filter (\<lambda>k. GroupID k = g \<and> Status k = KeyStatusActive) rows)"

lemma group_active_spec:
  "gomap_ok (group_active rows) \<and>
   (\<forall>g. gget (group_active rows) g = (if active_rows rows g = [] then None else Some (active_rows rows g)))"
proof (induction rows rule: rev_induct)
  case Nil
  then show ?case by (simp add: group_active_def active_rows_def)
next
  case (snoc k rows)
  then show ?case by (auto simp: group_active_snoc active_rows_def)
qed

lemma load_hashes_spec:
  "kp_ok p \<Longrightarrow> kp_ok (load_hashes ks p) \<and> vlists (view (load_hashes ks p)) = vlists (view p) \<and>
   vdb (view (load_hashes ks p)) = vdb (view p) \<and> vnext (view (load_hashes ks p)) = vnext (view p) \<and>
   (\<forall>i. i \<notin> ID ` set ks \<longrightarrow> vhashes (view (load_hashes ks p)) i = vhashes (view p) i) \<and>
   (distinct (map ID ks) \<longrightarrow> (\<forall>k \<in> set ks. storable k \<longrightarrow> row_synced (vhashes (view (load_hashes ks p))) k))"
proof (induction ks arbitrary: p)
  case Nil
  then show ?case by (simp add: load_hashes_def)
next
  case (Cons k ks)
  obtain p1 where 1: "in_store_logged (mem_HSet (key_hash (ID k)) (apiKeyToMap k)) p = (p1, None)"
    "kp_ok p1" "view p1 = on_hash (ID k) (hash_upd (apiKeyToMap k)) (view p)"
    using logged_of_store [OF does_HSet] Cons.prems unfolding does_def by blast
  have l: "load_hashes (k # ks) p = load_hashes ks p1" using 1(1) by (simp add: load_hashes_def)
  note ih = Cons.IH [OF 1(2)]
  have "storable k \<Longrightarrow> ID k \<notin> ID ` set ks \<Longrightarrow> row_synced (vhashes (view (load_hashes ks p1))) k"
    by (rule apiKeyToMap_synced [where h = "vhashes (view p) (ID k)"]) (use ih 1(3) in auto)
  then show ?case using ih 1(3) l by auto
qed

lemma init_flag_distinct [simp]: "active_list g \<noteq> init_flag" "key_hash i \<noteq> init_flag"
  by (simp_all add: active_list_def key_hash_def init_flag_def)

lemma load_ok:
  assumes "iter_order ord" "kstore p = NewMemoryStore" "distinct (map ID (kdb p))"
    and "\<forall>k \<in> set (kdb p). storable k \<and> ID k < next_id p"
    and "LoadKeysFromDB ord None now p = (p', r)"
  shows "ok p' \<and> r = None \<and> kdb p' = kdb p"
proof -
  let ?p1 = "load_hashes (kdb p) p"
  let ?es = "ord (group_active (kdb p))"
  let ?p2 = "fold load_list ?es ?p1"
  have kp: "kp_ok p" "vlists (view p) = (\<lambda>_. [])"
    using assms(2) by (simp_all add: kp_ok_def view_def mem.is_queue_def mem.is_hash_def mem.items_def)
  note 1 = load_hashes_spec [OF kp(1), of "kdb p"]
  have es: "gomap_ok ?es" "\<And>g. gget ?es g = (if active_rows (kdb p) g = [] then None else Some (active_rows (kdb p) g))"
    using iter_order_map_of [OF assms(1)] group_active_spec [of "kdb p"] by auto
  have ne: "\<forall>e \<in> set ?es. snd e \<noteq> []"
    using es by (metis gget_in_set option.sel option.simps(3) prod.collapse)
  note 2 = fold_load_list [OF _ es(1) ne, of ?p1]
  have lists: "vlists (view ?p2) g = map show_nat (active_rows (kdb p) g)" for g
    using 1 2 kp(2) es(2) [of g] by (auto simp: active_rows_def)
  have db2: "kdb ?p2 = kdb p" "next_id ?p2 = next_id p" using 1 2 by simp_all
  have "list_synced (view ?p2) g" for g
  proof -
    have "distinct (active_rows (kdb p) g)"
      using assms(3) by (simp add: active_rows_def distinct_filter_ids)
    moreover have "set (active_rows (kdb p) g) = active_ids (kdb p) g"
      by (auto simp: active_rows_def active_ids_def)
    ultimately show ?thesis
      unfolding list_synced_def lists view_sel db2 by (simp add: distinct_map inj_on_def)
  qed
  then have s2: "kp_ok ?p2" "synced (view ?p2)" "kdb ?p2 = kdb p"
    using 1 2 db2 assms(3,4) by (auto simp: synced_def)
  let ?p3 = "?p2\<lparr>kstore := fst (mem_Set now init_flag ''1'' 0 (kstore ?p2))\<rparr>"
  have fr: "mem_abs (kstore ?p3) k = mem_abs (kstore ?p2) k" if "k \<noteq> init_flag" for k
    using that by (simp add: mem_Set_def)
  have "kp_ok ?p3" "view ?p3 = view ?p2"
    using s2(1) mem_frame [OF fr] by (auto simp: kp_ok_def view_def mem_Set_def)
  moreover have "mem_Exists now init_flag (kstore p) = (kstore p, Inr False)"
    using assms(2) by (simp add: mem_Exists_def NewMemoryStore_def)
  then have "p' = ?p3" "r = None"
    using assms(5) by (auto simp: LoadKeysFromDB_def in_store_logged_def Let_def)
  ultimately show ?thesis using s2 by (simp add: ok_def)
qed

text \<open>Loading the table into a fresh store makes the store agree with the table: every key
  has its hash, and each group's list holds exactly the group's active keys, in whatever order
  the groups are visited.\<close>

lemma load_establishes_agreement:
  assumes "iter_order ord" "kstore p = NewMemoryStore" "distinct (map ID (kdb p))"
    and "\<forall>k \<in> set (kdb p). storable k \<and> ID k < next_id p"
    and "LoadKeysFromDB ord None now p = (p', r)"
  shows "ok p' \<and> r = None \<and> kdb p' = kdb p"
  by (rule load_ok [OF assms])

text \<open>A small table: two keys of group 1, one of them active.\<close>

definition demo_key :: "nat \<Rightarrow> string \<Rightarrow> APIKey" where
  "demo_key i st = \<lparr>ID = i, KeyValue = ''sk-'' @ show_nat i, GroupID = 1, Status = st, FailureCount = 0,
     RateLimitCount = 0, Last429At = None, RateLimitResetAt = None, CreatedAt = 0\<rparr>"

definition demo :: kp where
  "demo = \<lparr>kstore = NewMemoryStore,
     kdb = [demo_key 1 KeyStatusActive, demo_key 2 KeyStatusRateLimited], next_id = 3\<rparr>"

lemma demo_facts:
  "kstore demo = NewMemoryStore" "distinct (map ID (kdb demo))"
  "\<forall>k \<in> set (kdb demo). storable k \<and> ID k < next_id demo"
  by (simp_all add: demo_def demo_key_def storable_def)

definition demo_loaded :: kp where
  "demo_loaded = fst (LoadKeysFromDB id None 0 demo)"

lemma demo_loaded_ok: "ok demo_loaded" "kdb demo_loaded = kdb demo"
  using load_ok [OF iter_order_id(1) demo_facts prod.collapse [symmetric]]
  unfolding demo_loaded_def by blast+

lemma load_establishes_agreement_demo:
  "ok demo_loaded \<and> kdb demo_loaded = kdb demo"
  using load_establishes_agreement [OF iter_order_id(1) demo_facts prod.collapse [symmetric]]
  unfolding demo_loaded_def by blast

theorem select_returns_active_witness:
  "ok (fst (SelectKey 1 demo_loaded)) \<and> kdb (fst (SelectKey 1 demo_loaded)) = kdb demo"
  using select_returns_active [OF demo_loaded_ok(1) prod.collapse [symmetric], of 1] demo_loaded_ok(2)
  by simp

theorem selection_fair_witness:
  "\<exists>ks. snd (select_many 1 1 demo_loaded) = map Inr ks \<and> set (map ID ks) = {1}"
proof -
  have a: "active_ids (kdb demo_loaded) 1 = {1}"
    by (simp add: demo_loaded_ok(2) demo_def demo_key_def active_ids_Cons KeyStatusActive_def
        KeyStatusRateLimited_def) (simp add: active_ids_def)
  then have "card (active_ids (kdb demo_loaded) 1) = 1" by simp
  then show ?thesis
    using selection_fair [OF demo_loaded_ok(1) prod.collapse [symmetric], of 1] a by fastforce
qed

section \<open>Reachable states\<close>

text \<open>One step of the provider: a call of its interface, or a status-update goroutine, run to its
  end. No commit of a transaction fails; any other statement may. A status update names the
  group of its key; added keys have an int64 failure count and ids that fit a uint64.\<close>

inductive kp_step :: "kp \<Rightarrow> kp \<Rightarrow> bool" where
  select: "SelectKey gid p = (p', r) \<Longrightarrow> kp_step p p'"
| success: "commits envs \<Longrightarrow> right_group kid gid p \<Longrightarrow>
    run_update envs (Succeeded kid gid) p = (p', r1) \<Longrightarrow> kp_step p p'"
| failure: "commits envs \<Longrightarrow> right_group kid gid p \<Longrightarrow>
    run_update envs (Failed th kid gid) p = (p', r1) \<Longrightarrow> kp_step p p'"
| rate_limit: "commits envs \<Longrightarrow> right_group kid gid p \<Longrightarrow>
    run_update envs (RateLimited now rst kid gid) p = (p', r1) \<Longrightarrow> kp_step p p'"
| add: "commit_err env = None \<Longrightarrow> \<forall>k \<in> set keys. in_i64 (FailureCount k) \<Longrightarrow>
    next_id p + length keys \<le> 18446744073709551616 \<Longrightarrow>
    AddKeys env keys p = (p', r1) \<Longrightarrow> kp_step p p'"
| remove: "commit_err env = None \<Longrightarrow> RemoveKeys env gid vals p = (p', n, r1) \<Longrightarrow> kp_step p p'"
| restore: "commit_err env = None \<Longrightarrow> RestoreKeys env gid p = (p', n, r1) \<Longrightarrow> kp_step p p'"
| restore_some: "commit_err env = None \<Longrightarrow> RestoreMultipleKeys env gid vals p = (p', n, r1) \<Longrightarrow>
    kp_step p p'"
| remove_status: "commit_err env = None \<Longrightarrow> removeKeysByStatus env gid sts p = (p', n, r1) \<Longrightarrow>
    kp_step p p'"
| recover: "\<forall>j. commits (envss j) \<Longrightarrow> RecoverRateLimitedKeys envss ferr now p = (p', r1) \<Longrightarrow>
    kp_step p p'"
| drop_group: "kp_step p (delete_group gid p)"

inductive_cases kp_stepE: "kp_step p p'"

lemma kp_step_ok: "kp_step p p' \<Longrightarrow> ok p \<Longrightarrow> ok p'"
proof (induction rule: kp_step.induct)
  case (select gid p p' r)
  then show ?case
    by (cases "vlists (view p) gid" rule: rev_cases)
      (use select_none [of p gid] select_step [of p gid] in fastforce)+
next
  case (success envs kid gid p p' r1)
  then show ?case by (auto intro: handleSuccess_ok)
next
  case (failure envs kid gid p th p' r1)
  then show ?case by (auto intro: handleFailure_ok)
next
  case (rate_limit envs kid gid p now rst p' r1)
  then show ?case by (auto intro: handleRateLimit_ok)
next
  case (add env keys p p' r1)
  then show ?case by (auto intro: AddKeys_ok)
next
  case (remove env gid vals p p' n r1)
  then show ?case by (auto intro: RemoveKeys_ok)
next
  case (restore env gid p p' n r1)
  then show ?case by (auto intro: RestoreKeys_ok)
next
  case (restore_some env gid vals p p' n r1)
  then show ?case by (auto intro: RestoreMultipleKeys_ok)
next
  case (remove_status env gid sts p p' n r1)
  then show ?case by (auto intro: removeKeysByStatus_ok)
next
  case (recover envss ferr now p p' r1)
  then show ?case by (auto intro: RecoverRateLimitedKeys_ok)
next
  case (drop_group p gid)
  then show ?case by (rule delete_group_ok)
qed

text \<open>C5: The central invariant. From a state in which the store agrees with the table, every
  sequence of selections, status updates, imports, deletions, restorations and recoveries in
  which no commit fails leads to a state in which it still does: in every group the list of
  active keys holds exactly the keys active in the table, each once, and the hash of every key
  has its status, value and failure count.\<close>

theorem provider_agreement:
  assumes "ok p" "kp_step\<^sup>*\<^sup>* p p'"
  shows "kp_ok p' \<and>
    (\<forall>g. distinct (vlists (view p') g) \<and> set (vlists (view p') g) = show_nat ` active_ids (kdb p') g) \<and>
    (\<forall>k \<in> set (kdb p'). row_synced (vhashes (view p')) k)"
proof -
  have "ok p'"
    using assms(2,1) by (induction rule: rtranclp_induct) (auto intro: kp_step_ok)
  then show ?thesis using synced_parts [of "view p'"] by (auto simp: ok_def)
qed

theorem provider_agreement_witness:
  "kp_step demo_loaded (fst (SelectKey 1 demo_loaded)) \<and>
     set (vlists (view (fst (SelectKey 1 demo_loaded))) 1) =
       show_nat ` active_ids (kdb (fst (SelectKey 1 demo_loaded))) 1"
proof -
  have st: "kp_step demo_loaded (fst (SelectKey 1 demo_loaded))"
    by (rule kp_step.select [OF prod.collapse [symmetric]])
  then have "kp_step\<^sup>*\<^sup>* demo_loaded (fst (SelectKey 1 demo_loaded))" by blast
  from provider_agreement [OF demo_loaded_ok(1) this] st show ?thesis by blast
qed

section \<open>What the updates do\<close>

lemma tx_ok_sel [simp]: "first_err tx_ok = None" "update_err tx_ok = None" "commit_err tx_ok = None"
  by (simp_all add: tx_ok_def)

lemma locked_tx_ok:
  assumes "kp_ok p" "db_find kid (kdb p) = Some key" "\<And>key. does (run_all (rest key)) (R key)"
    and "executeTransactionWithRetry (\<lambda>_. tx_ok) (\<lambda>env. lock_row env kid (\<lambda>key.
           run_all (in_db (update_err env) (D key) # rest key))) p = (p', r)"
  shows "r = None \<and> kp_ok p' \<and> view p' = R key ((view p)\<lparr>vdb := D key (kdb p)\<rparr>)"
proof -
  have "does (run_all (in_db None (D key) # rest key)) (\<lambda>v. R key (v\<lparr>vdb := D key (vdb v)\<rparr>))"
    by (rule does_Cons [OF does_in_db assms(3)])
  then obtain q where q: "run_all (in_db None (D key) # rest key) p = (q, None)" "kp_ok q"
    "view q = R key ((view p)\<lparr>vdb := D key (kdb p)\<rparr>)"
    using assms(1) unfolding does_def by (metis view_sel(1))
  have "lock_row tx_ok kid (\<lambda>key. run_all (in_db (update_err tx_ok) (D key) # rest key)) p = (q, None)"
    using assms(2) q(1) by (simp add: lock_row_def)
  then have "retry_from 3 0 (\<lambda>_. tx_ok) (\<lambda>env. lock_row env kid (\<lambda>key.
      run_all (in_db (update_err env) (D key) # rest key))) None p = (q, None)"
    by (simp add: numeral_3_eq_3 transaction_def)
  then show ?thesis using assms(4) q by (simp add: executeTransactionWithRetry_def)
qed

lemma db_find_row: "distinct (map ID rows) \<Longrightarrow> k \<in> set rows \<Longrightarrow> db_find (ID k) rows = Some k"
  by (induction rows) (auto simp: db_find_def)

lemma in_db_update: "k \<in> set rows \<Longrightarrow> f k \<in> set (db_update (ID k) f rows)"
  by (force simp: db_update_def)

text \<open>C6: A failed request on a key that is not blacklisted counts one failure, in the table and
  in the store, and blacklists the key exactly when the threshold is positive and the new count
  has reached it; a blacklisted key leaves its group's list, so it is not selected again.\<close>

theorem failure_counts_and_blacklists:
  assumes "ok p" "k \<in> set (kdb p)" "Status k \<noteq> KeyStatusInvalid"
    and "handleFailure (\<lambda>_. tx_ok) threshold (ID k) (GroupID k) p = (p', r)"
  shows "r = None \<and> ok p' \<and>
    (let n = i64 (FailureCount k + 1); bl = (0 < threshold \<and> threshold \<le> n) in
     k\<lparr>FailureCount := n, Status := (if bl then KeyStatusInvalid else Status k)\<rparr> \<in> set (kdb p') \<and>
     vhashes (view p') (ID k) ''failure_count'' = Some (show_int n) \<and>
     (bl \<longrightarrow> ID k \<notin> active_ids (kdb p') (GroupID k) \<and>
       show_nat (ID k) \<notin> set (vlists (view p') (GroupID k))))"
proof -
  have kp: "kp_ok p" and sy: "synced (view p)" using assms(1) by (auto simp: ok_def)
  have kv: "k \<in> set (vdb (view p))" using assms(2) by simp
  have rg: "right_group (ID k) (GroupID k) p"
    using same_id [OF ok_distinct [OF assms(1)] _ assms(2)] by (auto simp: right_group_def)
  have okp: "ok p'"
    by (rule handleFailure_ok [OF assms(1) _ rg assms(4)]) (simp add: commits_def)
  obtain h where h: "mem_HGetAll (key_hash (ID k)) (kstore p) = (kstore p, Inr h)"
    "\<And>f. field_text h f = text_of (vhashes (view p) (ID k)) f" using read_hash [OF kp] by blast
  define n where "n = i64 (FailureCount k + 1)"
  define bl where "bl = (0 < threshold \<and> threshold \<le> n)"
  have ht: "field_text h ''status'' = Status k"
    "i64 (fst (ParseInt (field_text h ''failure_count'')) + 1) = n"
    using synced_text [OF sy kv] h(2) by (simp_all add: n_def)
  have d: "does (run_all (failure_store bl (ID k) (GroupID k))) (\<lambda>v. if bl
      then on_hash (ID k) (hash_upd [(''status'', AStr KeyStatusInvalid)])
        (on_list (GroupID k) (removeAll (show_nat (ID k))) (on_hash (ID k) (\<lambda>h. h(''failure_count'' \<mapsto>
          show_int (i64 (fst (ParseInt (text_of h ''failure_count'')) + 1)))) v))
      else on_hash (ID k) (\<lambda>h. h(''failure_count'' \<mapsto>
          show_int (i64 (fst (ParseInt (text_of h ''failure_count'')) + 1)))) v)" for key :: APIKey
    unfolding failure_store_def using does_failure_keep does_failure_blacklist by simp
  have e: "executeTransactionWithRetry (\<lambda>_. tx_ok) (\<lambda>env. lock_row env (ID k) (\<lambda>key. run_all
      (in_db (update_err env) (db_update (ID k) (failure_row n bl)) # failure_store bl (ID k) (GroupID k)))) p = (p', r)"
    using assms(3,4) h(1) ht by (simp add: handleFailure_def Let_def bl_def)
  note res = locked_tx_ok [OF kp db_find_row [OF ok_distinct [OF assms(1)] assms(2)] d e]
  have db: "kdb p' = db_update (ID k) (failure_row n bl) (kdb p)"
    using view_eq_db [of p'] res by (auto split: if_splits)
  have fc: "vhashes (view p') (ID k) ''failure_count'' = Some (show_int n)"
    using res ht(2) h(2) by (auto split: if_splits)
  have "ID k \<notin> active_ids (kdb p') (GroupID k)" if "bl"
    using active_ids_update [where f = "failure_row n bl" and rows = "kdb p" and k = k and g = "GroupID k"]
      ok_distinct [OF assms(1)] assms(2) that
    by (simp add: db failure_row_def KeyStatusActive_def KeyStatusInvalid_def)
  moreover have "set (vlists (view p') (GroupID k)) = show_nat ` active_ids (kdb p') (GroupID k)"
    using okp synced_parts(5) [of "view p'"] by (simp add: ok_def)
  ultimately show ?thesis
    using res okp fc in_db_update [OF assms(2), of "failure_row n bl"]
    by (auto simp: Let_def db failure_row_def n_def [symmetric] bl_def [symmetric])
qed

theorem failure_counts_and_blacklists_witness:
  "\<exists>p'. handleFailure (\<lambda>_. tx_ok) 1 1 1 demo_loaded = (p', None) \<and>
     show_nat 1 \<notin> set (vlists (view p') 1)"
proof -
  let ?k = "demo_key 1 KeyStatusActive"
  have k: "?k \<in> set (kdb demo_loaded)" "Status ?k \<noteq> KeyStatusInvalid" "ID ?k = 1" "GroupID ?k = 1"
    "FailureCount ?k = 0"
    by (simp_all add: demo_loaded_ok(2) demo_def demo_key_def KeyStatusActive_def KeyStatusInvalid_def)
  obtain p' r where e: "handleFailure (\<lambda>_. tx_ok) 1 (ID ?k) (GroupID ?k) demo_loaded = (p', r)" by fastforce
  from failure_counts_and_blacklists [OF demo_loaded_ok(1) k(1,2) e] show ?thesis
    using e k(3-5) by (auto simp: Let_def)
qed

section \<open>Rate limits and recovery\<close>

lemma does_recover:
  "does (run_all [in_db None (db_update (ID k) (\<lambda>k. k\<lparr>Status := KeyStatusActive, RateLimitResetAt := None\<rparr>)),
      in_store (mem_HSet (key_hash (ID k)) [(''status'', AStr KeyStatusActive)]),
      in_store (mem_LPush (active_list (GroupID k)) [AUint (ID k)])])
    (\<lambda>v. on_list (GroupID k) (\<lambda>l. show_nat (ID k) # l)
      (on_hash (ID k) (hash_upd [(''status'', AStr KeyStatusActive)])
        (v\<lparr>vdb := db_update (ID k) (\<lambda>k. k\<lparr>Status := KeyStatusActive, RateLimitResetAt := None\<rparr>) (vdb v)\<rparr>)))"
  by (rule does_Cons [OF does_in_db does_Cons [OF does_HSet does_Cons [OF does_LPush1 does_Nil]]])

lemma recover_tx_ok:
  assumes "kp_ok p"
  shows "snd (recoverSingleKey (\<lambda>_. tx_ok) k p) = None"
proof -
  obtain q where "run_all [in_db None (db_update (ID k) (\<lambda>k. k\<lparr>Status := KeyStatusActive, RateLimitResetAt := None\<rparr>)),
      in_store (mem_HSet (key_hash (ID k)) [(''status'', AStr KeyStatusActive)]),
      in_store (mem_LPush (active_list (GroupID k)) [AUint (ID k)])] p = (q, None)"
    using does_recover [of k] assms unfolding does_def by blast
  then show ?thesis
    by (simp only: recoverSingleKey_def executeTransactionWithRetry_def numeral_3_eq_3 retry_from.simps
        transaction_def tx_ok_sel prod.case option.case snd_conv)
qed

lemma active_idsI: "k \<in> set rows \<Longrightarrow> Status k = KeyStatusActive \<Longrightarrow> ID k \<in> active_ids rows (GroupID k)"
  by (auto simp: active_ids_def)

lemma not_activeI:
  "distinct (map ID rows) \<Longrightarrow> k \<in> set rows \<Longrightarrow> Status k \<noteq> KeyStatusActive \<Longrightarrow> ID k \<notin> active_ids rows g"
  using same_id by (fastforce simp: active_ids_def)

lemma recover_each_tx_ok:
  "ok p \<Longrightarrow> distinct (map ID ks) \<Longrightarrow> set ks \<subseteq> set (kdb p) \<Longrightarrow>
   \<forall>k \<in> set ks. Status k = KeyStatusRateLimited \<Longrightarrow>
   (\<forall>k \<in> set (kdb p). ID k \<notin> ID ` set ks \<longrightarrow> k \<in> set (kdb (recover_each j (\<lambda>_ _. tx_ok) ks p))) \<and>
   (\<forall>k \<in> set ks. ID k \<in> active_ids (kdb (recover_each j (\<lambda>_ _. tx_ok) ks p)) (GroupID k))"
proof (induction ks arbitrary: j p)
  case (Cons k ks)
  obtain p' r where r: "recoverSingleKey (\<lambda>_. tx_ok) k p = (p', r)" by fastforce
  have rn: "r = None" using recover_tx_ok [of p k] Cons.prems(1) r by (simp add: ok_def)
  have s: "ok p'" "\<forall>k' \<in> set (kdb p). ID k' \<noteq> ID k \<longrightarrow> k' \<in> set (kdb p')"
    "ID k \<in> active_ids (kdb p') (GroupID k)"
    using recover_one [OF Cons.prems(1) _ _ _ r] Cons.prems rn by (auto simp: commits_def)
  have nk: "ID k \<notin> ID ` set ks" using Cons.prems(2) by simp
  have sub: "set ks \<subseteq> set (kdb p')"
  proof
    fix x assume x: "x \<in> set ks"
    then have "ID x \<noteq> ID k" using nk by (metis imageI)
    then show "x \<in> set (kdb p')" using s(2) x Cons.prems(3) by auto
  qed
  have ih: "\<forall>k \<in> set (kdb p'). ID k \<notin> ID ` set ks \<longrightarrow> k \<in> set (kdb (recover_each (Suc j) (\<lambda>_ _. tx_ok) ks p'))"
    "\<forall>k \<in> set ks. ID k \<in> active_ids (kdb (recover_each (Suc j) (\<lambda>_ _. tx_ok) ks p')) (GroupID k)"
    using Cons.IH [OF s(1) _ sub, of "Suc j"] Cons.prems(2,4) by auto
  obtain k' where k': "k' \<in> set (kdb p')" "ID k' = ID k" "GroupID k' = GroupID k" "Status k' = KeyStatusActive"
    using s(3) by (auto simp: active_ids_def)
  have "k' \<in> set (kdb (recover_each (Suc j) (\<lambda>_ _. tx_ok) ks p'))" using ih(1) k' nk by simp
  then have "ID k \<in> active_ids (kdb (recover_each (Suc j) (\<lambda>_ _. tx_ok) ks p')) (GroupID k)"
    using active_idsI [OF _ k'(4)] k'(2,3) by simp
  then show ?case using ih s(2) r by auto
qed simp

lemma rate_limit_effect:
  assumes "ok p" "k \<in> set (kdb p)" "Status k \<noteq> KeyStatusInvalid"
    and "handleRateLimit (\<lambda>_. tx_ok) now rst (ID k) (GroupID k) p = (p', r)"
  shows "r = None \<and> ok p' \<and> kdb p' = db_update (ID k) (rate_limit_row now rst k) (kdb p)"
proof -
  have kp: "kp_ok p" and sy: "synced (view p)" using assms(1) by (auto simp: ok_def)
  have kv: "k \<in> set (vdb (view p))" using assms(2) by simp
  have rg: "right_group (ID k) (GroupID k) p"
    using same_id [OF ok_distinct [OF assms(1)] _ assms(2)] by (auto simp: right_group_def)
  have okp: "ok p'"
    by (rule handleRateLimit_ok [OF assms(1) _ rg assms(4)]) (simp add: commits_def)
  obtain h where h: "mem_HGetAll (key_hash (ID k)) (kstore p) = (kstore p, Inr h)"
    "\<And>f. field_text h f = text_of (vhashes (view p) (ID k)) f" using read_hash [OF kp] by blast
  have ht: "field_text h ''status'' = Status k" using synced_text [OF sy kv] h(2) by simp
  let ?vs = "\<lambda>key::APIKey. [(''status'', AStr KeyStatusRateLimited),
      (''rate_limit_count'', AInt (i64 (RateLimitCount (rate_limit_row now rst key key) + 1))), (''last_429_at'', AInt now)] @
      (case rst of None \<Rightarrow> [] | Some t \<Rightarrow> [(''rate_limit_reset_at'', AInt t)])"
  define R where "R = (\<lambda>key v. on_list (GroupID k) (removeAll (show_nat (ID k)))
      (on_hash (ID k) (hash_upd (?vs key)) v))"
  have R: "does (run_all (rate_limit_store now rst (ID k) (GroupID k) key)) (R key)"
    "vdb (R key v) = vdb v" for key v
    unfolding rate_limit_store_def R_def by (rule does_rate_limit) simp
  have e: "executeTransactionWithRetry (\<lambda>_. tx_ok) (\<lambda>env. lock_row env (ID k) (\<lambda>key. run_all
      (in_db (update_err env) (db_update (ID k) (rate_limit_row now rst key))
        # rate_limit_store now rst (ID k) (GroupID k) key))) p = (p', r)"
    using assms(3,4) h(1) ht by (simp add: handleRateLimit_def)
  note res = locked_tx_ok [OF kp db_find_row [OF ok_distinct [OF assms(1)] assms(2)] R(1) e]
  then show ?thesis using view_eq_db [of p'] okp R(2) by auto
qed

text \<open>C7: A rate-limited key with a reset time leaves selection at once: no sequence of selections returns it.
  After a recovery pass a sequence of selections returns it exactly when the reset time has come, as the table says,
  and the store agrees with the table throughout. No statement fails here.\<close>

theorem rate_limit_until_reset:
  assumes "ok p" "k \<in> set (kdb p)" "Status k \<noteq> KeyStatusInvalid"
    and "handleRateLimit (\<lambda>_. tx_ok) now (Some t) (ID k) (GroupID k) p = (p1, r1)"
    and "RecoverRateLimitedKeys (\<lambda>_ _. tx_ok) None now' p1 = (p2, r2)"
  shows "\<not> selectable (ID k) (GroupID k) p1 \<and> (selectable (ID k) (GroupID k) p2 \<longleftrightarrow> t \<le> now') \<and>
    ok p1 \<and> ok p2 \<and> ID k \<notin> active_ids (kdb p1) (GroupID k) \<and>
    (ID k \<in> active_ids (kdb p2) (GroupID k) \<longleftrightarrow> t \<le> now')"
proof -
  let ?f = "rate_limit_row now (Some t) k"
  let ?k = "?f k"
  have e: "ok p1" "kdb p1 = db_update (ID k) ?f (kdb p)"
    using rate_limit_effect [OF assms(1-4)] by auto
  have f: "ID ?k = ID k" "GroupID ?k = GroupID k" "Status ?k = KeyStatusRateLimited" "RateLimitResetAt ?k = Some t"
    by (simp_all add: rate_limit_row_def)
  have ne: "KeyStatusRateLimited \<noteq> KeyStatusActive"
    by (simp add: KeyStatusActive_def KeyStatusRateLimited_def)
  have 1: "ID k \<notin> active_ids (kdb p1) (GroupID k)"
    using active_ids_update [where f = ?f and rows = "kdb p" and k = k and g = "GroupID k"]
      ok_distinct [OF assms(1)] assms(2) f ne by (simp add: e(2))
  have k1: "?k \<in> set (kdb p1)" using in_db_update [OF assms(2)] e(2) by simp
  let ?ks = "filter (recoverable now') (kdb p1)"
  have p2: "p2 = recover_each 0 (\<lambda>_ _. tx_ok) ?ks p1"
    using assms(5) by (simp add: RecoverRateLimitedKeys_def)
  have d: "distinct (map ID ?ks)" by (rule distinct_filter_ids [OF ok_distinct [OF e(1)]])
  have o2: "ok p2"
    unfolding p2 by (rule recover_each_ok [OF e(1) _ d]) (auto simp: recoverable_def commits_def)
  have ks: "set ?ks \<subseteq> set (kdb p1)" "\<forall>k \<in> set ?ks. Status k = KeyStatusRateLimited"
    by (auto simp: recoverable_def)
  note rec = conjunct1 [OF recover_each_tx_ok [OF e(1) d ks, of 0, folded p2]]
    conjunct2 [OF recover_each_tx_ok [OF e(1) d ks, of 0, folded p2]]
  note sel = selectable_iff [OF e(1)] selectable_iff [OF o2]
  show ?thesis
  proof (cases "t \<le> now'")
    case True
    then have "?k \<in> set ?ks" using k1 f by (simp add: recoverable_def)
    then have "ID ?k \<in> active_ids (kdb p2) (GroupID ?k)"
      using rec(2) by blast
    then show ?thesis using 1 True f e(1) o2 by (simp add: sel)
  next
    case False
    then have "\<not> recoverable now' ?k" using f by (simp add: recoverable_def)
    then have "ID ?k \<notin> ID ` set ?ks"
      using same_id [OF ok_distinct [OF e(1)] _ k1] by auto
    then have "?k \<in> set (kdb p2)" using rec(1) k1 by blast
    then have "ID k \<notin> active_ids (kdb p2) (GroupID k)"
      using not_activeI [OF ok_distinct [OF o2]] f ne by metis
    then show ?thesis using 1 False e(1) o2 by (simp add: sel)
  qed
qed

theorem rate_limit_until_reset_witness:
  "\<exists>p1. snd (handleRateLimit (\<lambda>_. tx_ok) 100 (Some 160) 1 1 demo_loaded) = None \<and>
     \<not> selectable 1 1 (fst (handleRateLimit (\<lambda>_. tx_ok) 100 (Some 160) 1 1 demo_loaded))"
proof -
  let ?k = "demo_key 1 KeyStatusActive"
  have k: "?k \<in> set (kdb demo_loaded)" "Status ?k \<noteq> KeyStatusInvalid" "ID ?k = 1" "GroupID ?k = 1"
    by (simp_all add: demo_loaded_ok(2) demo_def demo_key_def KeyStatusActive_def KeyStatusInvalid_def)
  show ?thesis
    using rate_limit_until_reset [OF demo_loaded_ok(1) k(1,2) prod.collapse [symmetric]
        prod.collapse [symmetric], of 100 160] k(3,4)
      rate_limit_effect [OF demo_loaded_ok(1) k(1,2) prod.collapse [symmetric], of 100 "Some 160"]
    by simp
qed

section \<open>Retries\<close>

lemma retry_from_locked:
  "(\<forall>i' \<in> {i..<i + m}. transaction (envs i') (body (envs i')) p = (p, Some (KDb DbLocked))) \<Longrightarrow>
   m \<le> n \<Longrightarrow>
   retry_from n i envs body err p =
     retry_from (n - m) (i + m) envs body (if m = 0 then err else Some (KDb DbLocked)) p"
proof (induction m arbitrary: n i err)
  case (Suc m)
  then obtain n' where n: "n = Suc n'" by (cases n) auto
  have "transaction (envs i) (body (envs i)) p = (p, Some (KDb DbLocked))" using Suc.prems(1) by simp
  then show ?case using Suc.IH [of "Suc i" n' "Some (KDb DbLocked)"] Suc.prems n by simp
qed simp

text \<open>A transaction is attempted at most three times, and again only after a locked
  database: if the first \<^verbatim>\<open>j\<close> attempts leave the state as it was and report a locked database,
  then the outcome is that of attempt \<^verbatim>\<open>j\<close> for \<^verbatim>\<open>j < 3\<close>, unless it is locked as well, and the
  error of the third attempt for \<^verbatim>\<open>j \<ge> 3\<close>.\<close>

lemma retry_outcome:
  assumes "\<forall>i < j. transaction (envs i) (body (envs i)) p = (p, Some (KDb DbLocked))"
  shows "(3 \<le> j \<longrightarrow> executeTransactionWithRetry envs body p = (p, Some (KDb DbLocked))) \<and>
    (j < 3 \<and> transaction (envs j) (body (envs j)) p = (q, r) \<and> r \<noteq> Some (KDb DbLocked) \<longrightarrow>
       executeTransactionWithRetry envs body p = (q, r))"
proof -
  have "retry_from 3 0 envs body None p =
      retry_from (3 - min j 3) (min j 3) envs body (if min j 3 = 0 then None else Some (KDb DbLocked)) p"
    using retry_from_locked [of 0 "min j 3" envs body p 3 None] assms by auto
  moreover have "j < 3 \<Longrightarrow> 3 - j = Suc (2 - j)" by simp
  ultimately show ?thesis
    by (auto simp: executeTransactionWithRetry_def min_def split: option.splits)
qed

lemma retry_outcome_demo:
  "executeTransactionWithRetry (\<lambda>i. if i < 2 then tx_ok\<lparr>first_err := Some DbLocked\<rparr> else tx_ok)
     (\<lambda>env. lock_row env 9 (\<lambda>k p. (p, None))) demo = (demo, Some KRecordNotFound)"
proof -
  let ?envs = "\<lambda>i::nat. if i < 2 then tx_ok\<lparr>first_err := Some DbLocked\<rparr> else tx_ok"
  let ?body = "\<lambda>env. lock_row env 9 (\<lambda>k p. (p, None))"
  have "\<forall>i < 2. transaction (?envs i) (?body (?envs i)) demo = (demo, Some (KDb DbLocked))"
    by (simp add: transaction_def lock_row_def)
  moreover have "transaction (?envs 2) (?body (?envs 2)) demo = (demo, Some KRecordNotFound)"
    by (simp add: transaction_def lock_row_def tx_ok_def db_find_def demo_def demo_key_def)
  ultimately show ?thesis
    using retry_outcome [where envs = ?envs and body = ?body and j = 2 and p = demo] by auto
qed

definition commit_locked_once :: "nat \<Rightarrow> tx_env" where
  "commit_locked_once i = (if i = 0 then tx_ok\<lparr>commit_err := Some DbLocked\<rparr> else tx_ok)"

text \<open>The store is not part of the transaction. When the commit of a recovery finds the
  database locked and the retry succeeds, the call reports success but has pushed the key twice:
  the group's list then holds it two times, and the key is selected twice per round.\<close>

lemma recovery_commit_locked_duplicates:
  assumes "kp_ok p" "recoverSingleKey commit_locked_once k p = (p', r)"
  shows "r = None \<and> vlists (view p') (GroupID k) =
    show_nat (ID k) # show_nat (ID k) # vlists (view p) (GroupID k)"
proof -
  let ?acts = "[in_db None (db_update (ID k) (\<lambda>k. k\<lparr>Status := KeyStatusActive, RateLimitResetAt := None\<rparr>)),
      in_store (mem_HSet (key_hash (ID k)) [(''status'', AStr KeyStatusActive)]),
      in_store (mem_LPush (active_list (GroupID k)) [AUint (ID k)])]"
  let ?body = "\<lambda>env. run_all [in_db (update_err env) (db_update (ID k)
         (\<lambda>k. k\<lparr>Status := KeyStatusActive, RateLimitResetAt := None\<rparr>)),
      in_store (mem_HSet (key_hash (ID k)) [(''status'', AStr KeyStatusActive)]),
      in_store (mem_LPush (active_list (GroupID k)) [AUint (ID k)])]"
  have run: "\<exists>q. run_all ?acts p = (q, None) \<and> kp_ok q \<and>
      vlists (view q) (GroupID k) = show_nat (ID k) # vlists (view p) (GroupID k)" if "kp_ok p" for p
    using does_recover [of k] that unfolding does_def by fastforce
  obtain q where q: "run_all ?acts p = (q, None)" "kp_ok q"
    "vlists (view q) (GroupID k) = show_nat (ID k) # vlists (view p) (GroupID k)" using run [OF assms(1)] by blast
  let ?p1 = "q\<lparr>kdb := kdb p, next_id := next_id p\<rparr>"
  have e0: "update_err (commit_locked_once 0) = None" "commit_err (commit_locked_once 0) = Some DbLocked"
    "update_err (commit_locked_once (Suc 0)) = None" "commit_err (commit_locked_once (Suc 0)) = None"
    by (simp_all add: commit_locked_once_def)
  have 1: "transaction (commit_locked_once 0) (?body (commit_locked_once 0)) p = (?p1, Some (KDb DbLocked))"
    unfolding e0(1) transaction_def q(1) by (simp add: e0)
  obtain z where z: "run_all ?acts ?p1 = (z, None)"
    "vlists (view z) (GroupID k) = show_nat (ID k) # vlists (view ?p1) (GroupID k)"
    using run [of ?p1] q(2) by auto
  have 2: "transaction (commit_locked_once (Suc 0)) (?body (commit_locked_once (Suc 0))) ?p1 = (z, None)"
    unfolding e0(3) transaction_def z(1) by (simp add: e0)
  have "executeTransactionWithRetry commit_locked_once ?body p = (z, None)"
    by (simp only: executeTransactionWithRetry_def numeral_3_eq_3 retry_from.simps 1 2 prod.case
        option.case simp_thms if_True)
  then have "recoverSingleKey commit_locked_once k p = (z, None)"
    by (simp only: recoverSingleKey_def)
  then show ?thesis using assms(2) z(2) q(3) by simp
qed

lemma recovery_commit_locked_duplicates_demo:
  "vlists (view (fst (recoverSingleKey commit_locked_once (demo_key 2 KeyStatusRateLimited) demo))) 1 =
     [show_nat 2, show_nat 2]"
proof -
  have "kp_ok demo" "vlists (view demo) 1 = []"
    by (simp_all add: demo_def kp_ok_def view_def NewMemoryStore_def mem_inv_def mem.is_queue_def
        mem.is_hash_def mem.items_def mem_abs_def)
  then show ?thesis
    using recovery_commit_locked_duplicates [OF _ prod.collapse [symmetric], of demo "demo_key 2 KeyStatusRateLimited"]
    by (simp add: demo_key_def)
qed

end
