(* ===== verification/Updates.thy ===== *)
theory Updates
  imports ProviderProps
begin

text \<open>What a status update leaves alone, whatever statement fails: the identity of every row, and the
  rows of all other keys.\<close>

section \<open>A part of the table that a call keeps\<close>

definition idents :: "kp \<Rightarrow> (nat \<times> nat \<times> string) list" where
  "idents p = map (\<lambda>k. (ID k, GroupID k, KeyValue k)) (kdb p)"

definition keeps_part :: "(APIKey list \<Rightarrow> 'b) \<Rightarrow> action \<Rightarrow> bool" where
  "keeps_part f a \<longleftrightarrow> (\<forall>p. f (kdb (fst (a p))) = f (kdb p))"

lemma keeps_store:
  "keeps_part f (in_store g)" "keeps_part f (in_store_logged g)"
  by (auto simp: keeps_part_def in_store_def in_store_logged_def split: prod.splits sum.splits)

lemma keeps_update:
  assumes "\<And>rows. f (db_update kid g rows) = f rows"
  shows "keeps_part f (in_db err (db_update kid g))"
  using assms by (auto simp: keeps_part_def in_db_def split: option.splits)

lemma keeps_run_all: "\<forall>a \<in> set as. keeps_part f a \<Longrightarrow> keeps_part f (run_all as)"
proof (induction as)
  case (Cons a as)
  then have "keeps_part f a" "keeps_part f (run_all as)" by auto
  then show ?case
    by (auto simp: keeps_part_def split: prod.splits option.splits) (metis fst_conv)+
qed (simp add: keeps_part_def)

lemma keeps_lock: "(\<And>k. keeps_part f (cont k)) \<Longrightarrow> keeps_part f (lock_row env kid cont)"
  by (auto simp: keeps_part_def lock_row_def split: option.splits)

lemma keeps_transaction:
  assumes "keeps_part f a"
  shows "keeps_part f (transaction env a)"
  unfolding keeps_part_def
proof
  fix p
  obtain q r where q: "a p = (q, r)" by (cases "a p")
  then have "f (kdb q) = f (kdb p)" using assms by (metis fst_conv keeps_part_def)
  then show "f (kdb (fst (transaction env a p))) = f (kdb p)"
    by (cases r; cases "commit_err env") (simp_all add: transaction_def q)
qed

lemma keeps_retry: "(\<And>env. keeps_part f (a env)) \<Longrightarrow> keeps_part f (retry_from n i envs a e)"
proof (induction n arbitrary: i e)
  case (Suc n)
  have "keeps_part f (transaction (envs i) (a (envs i)))" using Suc.prems keeps_transaction by blast
  moreover have "keeps_part f (retry_from n (Suc i) envs a e')" for e' using Suc by blast
  ultimately show ?case
    by (auto simp: keeps_part_def split: prod.splits option.splits) (metis fst_conv)+
qed (simp add: keeps_part_def)

fun updated_key :: "status_update \<Rightarrow> nat" where
  "updated_key (Succeeded kid gid) = kid"
| "updated_key (Failed th kid gid) = kid"
| "updated_key (RateLimited now rst kid gid) = kid"

text \<open>A change of one row that keeps its identity.\<close>

definition same_row :: "(APIKey \<Rightarrow> APIKey) \<Rightarrow> bool" where
  "same_row g \<longleftrightarrow> (\<forall>k. ID (g k) = ID k \<and> GroupID (g k) = GroupID k \<and> KeyValue (g k) = KeyValue k)"

lemma same_rows: "same_row (success_row a)" "same_row (failure_row n a)" "same_row (rate_limit_row t rst key)"
  by (simp_all add: same_row_def success_row_def failure_row_def rate_limit_row_def)

lemma keeps_status_update:
  assumes upd: "\<And>g rows. same_row g \<Longrightarrow> f (db_update (updated_key u) g rows) = f rows"
  shows "keeps_part f (run_update envs u)"
proof -
  have tx: "keeps_part f (executeTransactionWithRetry envs (\<lambda>env. lock_row env (updated_key u) (\<lambda>key.
      run_all (in_db (update_err env) (db_update (updated_key u) (g key)) # rest key))))"
    if "\<And>key. same_row (g key)" "\<And>key. \<forall>a \<in> set (rest key). keeps_part f a" for g rest
    unfolding executeTransactionWithRetry_def
    using that keeps_update [of f "updated_key u"] upd by (intro keeps_retry keeps_lock keeps_run_all) auto
  have stores: "\<forall>a \<in> set (success_store x kid gid). keeps_part f a"
    "\<forall>a \<in> set (failure_store x kid gid). keeps_part f a"
    "\<forall>a \<in> set (rate_limit_store t rst kid gid key). keeps_part f a" for x kid gid t rst key
    by (auto simp: success_store_def failure_store_def rate_limit_store_def keeps_store)
  show ?thesis
  proof (cases u)
    case (Succeeded kid gid)
    then show ?thesis
      using tx [of "\<lambda>key. success_row x" "\<lambda>key. success_store x kid gid" for x] same_rows stores
      by (auto simp: keeps_part_def handleSuccess_def Let_def split: prod.splits sum.splits)
  next
    case (Failed th kid gid)
    then show ?thesis
      using tx [of "\<lambda>key. failure_row n x" "\<lambda>key. failure_store x kid gid" for n x] same_rows stores
      by (auto simp: keeps_part_def handleFailure_def Let_def split: prod.splits sum.splits)
  next
    case (RateLimited now rst kid gid)
    then show ?thesis
      using tx [of "\<lambda>key. rate_limit_row now rst key" "\<lambda>key. rate_limit_store now rst kid gid key"]
        same_rows stores
      by (auto simp: keeps_part_def handleRateLimit_def Let_def split: prod.splits sum.splits)
  qed
qed

lemma update_idents: "idents (fst (run_update envs u p)) = idents p"
proof -
  have "keeps_part (map (\<lambda>k. (ID k, GroupID k, KeyValue k))) (run_update envs u)"
    by (rule keeps_status_update) (auto simp: same_row_def db_update_def)
  then show ?thesis by (simp add: keeps_part_def idents_def)
qed

lemma update_other_rows:
  "filter (\<lambda>k. ID k \<noteq> updated_key u) (kdb (fst (run_update envs u p))) = filter (\<lambda>k. ID k \<noteq> updated_key u) (kdb p)"
proof -
  have "keeps_part (filter (\<lambda>k. ID k \<noteq> updated_key u)) (run_update envs u)"
  proof (rule keeps_status_update)
    fix g rows assume "same_row g"
    then show "filter (\<lambda>k. ID k \<noteq> updated_key u) (db_update (updated_key u) g rows) =
        filter (\<lambda>k. ID k \<noteq> updated_key u) rows"
      by (induction rows) (auto simp: same_row_def db_update_def)
  qed
  then show ?thesis by (simp add: keeps_part_def)
qed

section \<open>Updates and the agreement of store and table\<close>

text \<open>An update names the group of its key.\<close>

fun names_group :: "(nat \<times> nat \<times> string) list \<Rightarrow> status_update \<Rightarrow> bool" where
  "names_group rows (Succeeded kid gid) = (\<forall>(i, g, v) \<in> set rows. i = kid \<longrightarrow> g = gid)"
| "names_group rows (Failed th kid gid) = (\<forall>(i, g, v) \<in> set rows. i = kid \<longrightarrow> g = gid)"
| "names_group rows (RateLimited now rst kid gid) = (\<forall>(i, g, v) \<in> set rows. i = kid \<longrightarrow> g = gid)"

lemma right_group_idents:
  "right_group kid gid p \<longleftrightarrow> (\<forall>(i, g, v) \<in> set (idents p). i = kid \<longrightarrow> g = gid)"
  by (auto simp: right_group_def idents_def)

lemma run_update_ok:
  assumes "ok p" "commits envs" "names_group (idents p) u"
  shows "ok (fst (run_update envs u p))" "idents (fst (run_update envs u p)) = idents p"
proof -
  show "idents (fst (run_update envs u p)) = idents p"
    by (rule update_idents)
  show "ok (fst (run_update envs u p))"
  proof (cases u)
    case (Succeeded kid gid)
    then show ?thesis
      using assms handleSuccess_ok [OF assms(1,2) _ prod.collapse [symmetric], of kid gid]
      by (simp add: right_group_idents)
  next
    case (Failed th kid gid)
    then show ?thesis
      using assms handleFailure_ok [OF assms(1,2) _ prod.collapse [symmetric], of kid gid]
      by (simp add: right_group_idents)
  next
    case (RateLimited now rst kid gid)
    then show ?thesis
      using assms handleRateLimit_ok [OF assms(1,2) _ prod.collapse [symmetric], of kid gid]
      by (simp add: right_group_idents)
  qed
qed

end
