(* ===== verification/GoText.thy ===== *)
theory GoText
  imports Prelude
begin

text \<open>The functions of Go's package strings and of src/internal/utils/string_utils.go that the
  components share. Text is a list of bytes in UTF-8; lower-casing and trimming are those of
  ASCII.\<close>

section \<open>Text\<close>

definition lower_char :: "char \<Rightarrow> char" where
  "lower_char c = (let n = (of_char c :: nat) in
     if 65 \<le> n \<and> n \<le> 90 then char_of (n + 32) else c)"

definition ToLower :: "string \<Rightarrow> string" where
  "ToLower s = map lower_char s"

fun has_prefix :: "string \<Rightarrow> string \<Rightarrow> bool" where
  "has_prefix [] s = True"
| "has_prefix (p # ps) [] = False"
| "has_prefix (p # ps) (c # cs) = (p = c \<and> has_prefix ps cs)"

fun Contains :: "string \<Rightarrow> string \<Rightarrow> bool" where
  "Contains [] sub = (sub = [])"
| "Contains (c # cs) sub = (has_prefix sub (c # cs) \<or> Contains cs sub)"

definition contains_any :: "string list \<Rightarrow> string \<Rightarrow> bool" where
  "contains_any subs s = list_ex (Contains s) subs"

definition is_space :: "char \<Rightarrow> bool" where
  "is_space c \<longleftrightarrow> (of_char c :: nat) \<in> {9, 10, 12, 13, 32}"

definition TrimSpace :: "string \<Rightarrow> string" where
  "TrimSpace s = (let ws = (\<lambda>c. is_space c \<or> (of_char c :: nat) = 11) in
     rev (dropWhile ws (rev (dropWhile ws s))))"

section \<open>Prefixes, suffixes and lengths\<close>

definition TrimPrefix :: "string \<Rightarrow> string \<Rightarrow> string" where
  "TrimPrefix s p = (if has_prefix p s then drop (length p) s else s)"

definition TrimRight :: "string \<Rightarrow> char \<Rightarrow> string" where
  "TrimRight s c = rev (dropWhile (\<lambda>x. x = c) (rev s))"

definition TruncateString :: "string \<Rightarrow> nat \<Rightarrow> string" where
  "TruncateString s maxLength = (if length s > maxLength then take maxLength s else s)"

section \<open>Splitting\<close>

fun split_on :: "char \<Rightarrow> string \<Rightarrow> string list" where
  "split_on c [] = [[]]"
| "split_on c (x # xs) =
    (if x = c then [] # split_on c xs
     else (case split_on c xs of [] \<Rightarrow> [[x]] | w # ws \<Rightarrow> (x # w) # ws))"

definition SplitAndTrim :: "string \<Rightarrow> char \<Rightarrow> string list" where
  "SplitAndTrim s sep =
    (if s = [] then [] else filter (\<lambda>t. t \<noteq> []) (map TrimSpace (split_on sep s)))"

definition StringToSet :: "string \<Rightarrow> char \<Rightarrow> string set" where
  "StringToSet s sep = set (SplitAndTrim s sep)"

section \<open>Lemmas\<close>

lemma has_prefix_iff: "has_prefix p s \<longleftrightarrow> take (length p) s = p"
  by (induction p s rule: has_prefix.induct) auto

lemma has_prefix_append [simp]: "has_prefix p (p @ s)"
  by (simp add: has_prefix_iff)

lemma TrimPrefix_append [simp]: "TrimPrefix (p @ s) p = s"
  by (simp add: TrimPrefix_def)

lemma Contains_iff: "Contains s sub \<longleftrightarrow> (\<exists>a b. s = a @ sub @ b)"
proof (induction s)
  case Nil
  then show ?case by auto
next
  case (Cons c cs)
  have "has_prefix sub (c # cs) \<longleftrightarrow> (\<exists>b. c # cs = sub @ b)"
    unfolding has_prefix_iff by (metis append_eq_conv_conj append_take_drop_id)
  then show ?case
    using Cons.IH by (auto simp: Cons_eq_append_conv)
qed

lemma Contains_mono: "Contains s sub \<Longrightarrow> Contains (a @ s @ b) sub"
  unfolding Contains_iff by (metis append.assoc)

lemma digits_no_space: "is_digit c \<Longrightarrow> \<not> is_space c \<and> (of_char c :: nat) \<noteq> 11"
  by (auto simp: is_digit_def is_space_def)

lemma TrimSpace_show: "TrimSpace (show_nat n) = show_nat n"
proof -
  have d: "dropWhile P xs = xs" if "\<forall>x \<in> set xs. \<not> P x" for P and xs :: string
    using that by (cases xs) auto
  have "\<forall>c \<in> set (show_nat n). \<not> (is_space c \<or> (of_char c :: nat) = 11)"
    using show_nat_digits digits_no_space by blast
  then show ?thesis unfolding TrimSpace_def Let_def by (simp add: d)
qed

end
