(* ===== verification/Settings.thy ===== *)
theory Settings
  imports GoText StoreSpec
begin

text \<open>Configuration: the struct SystemSettings with its tags (src/internal/types/types.go), the
  group overrides (src/internal/models/types.go), the settings manager
  (src/internal/config/system_settings.go, src/internal/utils/config_utils.go) and the cleaning of
  a group's overrides (src/internal/handler/group_handler.go). The code walks the fields by
  reflection; here the fields are a datatype, and the accessors of a field and its tags are
  functions of it. A number of a JSON document is an int when it is integral and an int64, or
  the text of a fraction; larger numbers, which Go converts in a way that depends on the machine,
  are left out.\<close>

section \<open>Structs and tags\<close>

record SystemSettings =
  AppUrl :: string
  RequestLogRetentionDays :: int
  RequestLogWriteIntervalMinutes :: int
  ProxyKeys :: string
  RequestTimeout :: int
  ConnectTimeout :: int
  IdleConnTimeout :: int
  ResponseHeaderTimeout :: int
  MaxIdleConns :: int
  MaxIdleConnsPerHost :: int
  ProxyURL :: string
  MaxRetries :: int
  BlacklistThreshold :: int
  KeyValidationIntervalMinutes :: int
  KeyValidationConcurrency :: int
  KeyValidationTimeoutSeconds :: int
  ProxyKeysMap :: "string set"

datatype setting =
    F_AppUrl
  | F_RequestLogRetentionDays
  | F_RequestLogWriteIntervalMinutes
  | F_ProxyKeys
  | F_RequestTimeout
  | F_ConnectTimeout
  | F_IdleConnTimeout
  | F_ResponseHeaderTimeout
  | F_MaxIdleConns
  | F_MaxIdleConnsPerHost
  | F_ProxyURL
  | F_MaxRetries
  | F_BlacklistThreshold
  | F_KeyValidationIntervalMinutes
  | F_KeyValidationConcurrency
  | F_KeyValidationTimeoutSeconds
  | F_ProxyKeysMap

definition all_fields :: "setting list" where
  "all_fields =
  [F_AppUrl, F_RequestLogRetentionDays, F_RequestLogWriteIntervalMinutes, 
   F_ProxyKeys, F_RequestTimeout, F_ConnectTimeout, 
   F_IdleConnTimeout, F_ResponseHeaderTimeout, F_MaxIdleConns, 
   F_MaxIdleConnsPerHost, F_ProxyURL, F_MaxRetries, 
   F_BlacklistThreshold, F_KeyValidationIntervalMinutes, F_KeyValidationConcurrency, 
   F_KeyValidationTimeoutSeconds, F_ProxyKeysMap]"

datatype field_kind = KInt | KString | KMap

fun kind_of :: "setting \<Rightarrow> field_kind" where
  "kind_of F_AppUrl = KString"
| "kind_of F_ProxyKeys = KString"
| "kind_of F_ProxyURL = KString"
| "kind_of F_ProxyKeysMap = KMap"
| "kind_of _ = KInt"

fun json_tag :: "setting \<Rightarrow> string" where
  "json_tag F_AppUrl = ''app_url''"
| "json_tag F_RequestLogRetentionDays = ''request_log_retention_days''"
| "json_tag F_RequestLogWriteIntervalMinutes = ''request_log_write_interval_minutes''"
| "json_tag F_ProxyKeys = ''proxy_keys''"
| "json_tag F_RequestTimeout = ''request_timeout''"
| "json_tag F_ConnectTimeout = ''connect_timeout''"
| "json_tag F_IdleConnTimeout = ''idle_conn_timeout''"
| "json_tag F_ResponseHeaderTimeout = ''response_header_timeout''"
| "json_tag F_MaxIdleConns = ''max_idle_conns''"
| "json_tag F_MaxIdleConnsPerHost = ''max_idle_conns_per_host''"
| "json_tag F_ProxyURL = ''proxy_url''"
| "json_tag F_MaxRetries = ''max_retries''"
| "json_tag F_BlacklistThreshold = ''blacklist_threshold''"
| "json_tag F_KeyValidationIntervalMinutes = ''key_validation_interval_minutes''"
| "json_tag F_KeyValidationConcurrency = ''key_validation_concurrency''"
| "json_tag F_KeyValidationTimeoutSeconds = ''key_validation_timeout_seconds''"
| "json_tag F_ProxyKeysMap = ''-''"

fun default_tag :: "setting \<Rightarrow> string" where
  "default_tag F_AppUrl = ''http://localhost:3001''"
| "default_tag F_RequestLogRetentionDays = ''7''"
| "default_tag F_RequestLogWriteIntervalMinutes = ''1''"
| "default_tag F_RequestTimeout = ''600''"
| "default_tag F_ConnectTimeout = ''15''"
| "default_tag F_IdleConnTimeout = ''120''"
| "default_tag F_ResponseHeaderTimeout = ''600''"
| "default_tag F_MaxIdleConns = ''100''"
| "default_tag F_MaxIdleConnsPerHost = ''50''"
| "default_tag F_MaxRetries = ''3''"
| "default_tag F_BlacklistThreshold = ''3''"
| "default_tag F_KeyValidationIntervalMinutes = ''60''"
| "default_tag F_KeyValidationConcurrency = ''10''"
| "default_tag F_KeyValidationTimeoutSeconds = ''20''"
| "default_tag _ = []"

text \<open>The validate tag, split at its commas.\<close>

fun validate_rules :: "setting \<Rightarrow> string list" where
  "validate_rules F_AppUrl = [''required'']"
| "validate_rules F_RequestLogRetentionDays = [''required'', ''min=0'']"
| "validate_rules F_RequestLogWriteIntervalMinutes = [''required'', ''min=0'']"
| "validate_rules F_ProxyKeys = [''required'']"
| "validate_rules F_ProxyURL = [[]]"
| "validate_rules F_MaxRetries = [''required'', ''min=0'']"
| "validate_rules F_BlacklistThreshold = [''required'', ''min=0'']"
| "validate_rules F_ProxyKeysMap = [[]]"
| "validate_rules _ = [''required'', ''min=1'']"

fun get_int :: "setting \<Rightarrow> SystemSettings \<Rightarrow> int" where
  "get_int F_RequestLogRetentionDays s = RequestLogRetentionDays s"
| "get_int F_RequestLogWriteIntervalMinutes s = RequestLogWriteIntervalMinutes s"
| "get_int F_RequestTimeout s = RequestTimeout s"
| "get_int F_ConnectTimeout s = ConnectTimeout s"
| "get_int F_IdleConnTimeout s = IdleConnTimeout s"
| "get_int F_ResponseHeaderTimeout s = ResponseHeaderTimeout s"
| "get_int F_MaxIdleConns s = MaxIdleConns s"
| "get_int F_MaxIdleConnsPerHost s = MaxIdleConnsPerHost s"
| "get_int F_MaxRetries s = MaxRetries s"
| "get_int F_BlacklistThreshold s = BlacklistThreshold s"
| "get_int F_KeyValidationIntervalMinutes s = KeyValidationIntervalMinutes s"
| "get_int F_KeyValidationConcurrency s = KeyValidationConcurrency s"
| "get_int F_KeyValidationTimeoutSeconds s = KeyValidationTimeoutSeconds s"
| "get_int _ s = 0"

fun put_int :: "setting \<Rightarrow> int \<Rightarrow> SystemSettings \<Rightarrow> SystemSettings" where
  "put_int F_RequestLogRetentionDays v s = s\<lparr>RequestLogRetentionDays := v\<rparr>"
| "put_int F_RequestLogWriteIntervalMinutes v s = s\<lparr>RequestLogWriteIntervalMinutes := v\<rparr>"
| "put_int F_RequestTimeout v s = s\<lparr>RequestTimeout := v\<rparr>"
| "put_int F_ConnectTimeout v s = s\<lparr>ConnectTimeout := v\<rparr>"
| "put_int F_IdleConnTimeout v s = s\<lparr>IdleConnTimeout := v\<rparr>"
| "put_int F_ResponseHeaderTimeout v s = s\<lparr>ResponseHeaderTimeout := v\<rparr>"
| "put_int F_MaxIdleConns v s = s\<lparr>MaxIdleConns := v\<rparr>"
| "put_int F_MaxIdleConnsPerHost v s = s\<lparr>MaxIdleConnsPerHost := v\<rparr>"
| "put_int F_MaxRetries v s = s\<lparr>MaxRetries := v\<rparr>"
| "put_int F_BlacklistThreshold v s = s\<lparr>BlacklistThreshold := v\<rparr>"
| "put_int F_KeyValidationIntervalMinutes v s = s\<lparr>KeyValidationIntervalMinutes := v\<rparr>"
| "put_int F_KeyValidationConcurrency v s = s\<lparr>KeyValidationConcurrency := v\<rparr>"
| "put_int F_KeyValidationTimeoutSeconds v s = s\<lparr>KeyValidationTimeoutSeconds := v\<rparr>"
| "put_int _ v s = s"

fun get_str :: "setting \<Rightarrow> SystemSettings \<Rightarrow> string" where
  "get_str F_AppUrl s = AppUrl s"
| "get_str F_ProxyKeys s = ProxyKeys s"
| "get_str F_ProxyURL s = ProxyURL s"
| "get_str _ s = []"

fun put_str :: "setting \<Rightarrow> string \<Rightarrow> SystemSettings \<Rightarrow> SystemSettings" where
  "put_str F_AppUrl v s = s\<lparr>AppUrl := v\<rparr>"
| "put_str F_ProxyKeys v s = s\<lparr>ProxyKeys := v\<rparr>"
| "put_str F_ProxyURL v s = s\<lparr>ProxyURL := v\<rparr>"
| "put_str _ v s = s"

definition zero_settings :: SystemSettings where
  "zero_settings =
    \<lparr>AppUrl = [], RequestLogRetentionDays = 0, RequestLogWriteIntervalMinutes = 0,
     ProxyKeys = [], RequestTimeout = 0, ConnectTimeout = 0,
     IdleConnTimeout = 0, ResponseHeaderTimeout = 0, MaxIdleConns = 0,
     MaxIdleConnsPerHost = 0, ProxyURL = [], MaxRetries = 0,
     BlacklistThreshold = 0, KeyValidationIntervalMinutes = 0, KeyValidationConcurrency = 0,
     KeyValidationTimeoutSeconds = 0, ProxyKeysMap = {}\<rparr>"

definition field_of_tag :: "string \<Rightarrow> setting option" where
  "field_of_tag t = find (\<lambda>f. json_tag f = t) all_fields"

section \<open>Defaults and loading\<close>

text \<open>SetFieldFromString with its error logged, as both callers do.\<close>

definition SetFieldFromString :: "setting \<Rightarrow> string \<Rightarrow> SystemSettings \<Rightarrow> SystemSettings" where
  "SetFieldFromString f v s =
    (case kind_of f of
       KInt \<Rightarrow> (case ParseInt v of (i, None) \<Rightarrow> put_int f i s | (_, Some _) \<Rightarrow> s)
     | KString \<Rightarrow> put_str f v s
     | KMap \<Rightarrow> s)"

definition DefaultSystemSettings :: SystemSettings where
  "DefaultSystemSettings =
    fold (\<lambda>f s. if default_tag f = [] then s else SetFieldFromString f (default_tag f) s)
      all_fields zero_settings"

definition load_row :: "string \<times> string \<Rightarrow> SystemSettings \<Rightarrow> SystemSettings" where
  "load_row e s =
    (case field_of_tag (fst e) of None \<Rightarrow> s | Some f \<Rightarrow> SetFieldFromString f (snd e) s)"

text \<open>The loader reads the rows into a map and ranges over it in the order \<^verbatim>\<open>ord\<close>.\<close>

definition settingsLoader ::
  "(string \<times> string) iter \<Rightarrow> (string \<times> string) list \<Rightarrow> SystemSettings" where
  "settingsLoader ord rows =
    (let settingsMap = fold (\<lambda>(k, v) m. gput k v m) rows [];
         settings = fold load_row (ord settingsMap) DefaultSystemSettings
     in settings\<lparr>ProxyKeysMap := StringToSet (ProxyKeys settings) CHR '','' \<rparr>)"

section \<open>Validation and update\<close>

text \<open>The dynamic values of a decoded JSON object.\<close>

datatype jsonv = JNull | JBool bool | JNum int | JFrac string | JStr string | JOther

datatype cfg_err =
    InvalidKey string
  | WrongType string
  | NotInteger string
  | BelowMin string int
  | Required string
  | UnsupportedType string
  | UnknownField string
  | Unmarshal string
  | DbFailed

definition min_violated :: "string list \<Rightarrow> int \<Rightarrow> bool" where
  "min_violated rules i =
    list_ex (\<lambda>r. has_prefix ''min='' (TrimSpace r) \<and>
      i < fst (ParseInt (TrimPrefix (TrimSpace r) ''min=''))) rules"

definition required_violated :: "string list \<Rightarrow> string \<Rightarrow> bool" where
  "required_violated rules s =
    list_ex (\<lambda>r. TrimSpace r = ''required'' \<and> s = []) rules"

text \<open>A number that does not fit an int64 differs from its conversion.\<close>

definition validate_setting :: "string \<times> jsonv \<Rightarrow> cfg_err option" where
  "validate_setting e =
    (case e of (key, v) \<Rightarrow>
     (case field_of_tag key of
        None \<Rightarrow> Some (InvalidKey key)
      | Some f \<Rightarrow>
          (case kind_of f of
             KInt \<Rightarrow>
               (case v of
                  JNum i \<Rightarrow> if \<not> in_i64 i then Some (NotInteger key)
                     else if min_violated (validate_rules f) i then Some (BelowMin key i) else None
                | JFrac _ \<Rightarrow> Some (NotInteger key)
                | _ \<Rightarrow> Some (WrongType key))
           | KString \<Rightarrow>
               (case v of
                  JStr s \<Rightarrow> if required_violated (validate_rules f) s then Some (Required key) else None
                | _ \<Rightarrow> Some (WrongType key))
           | KMap \<Rightarrow> Some (UnsupportedType key))))"

fun first_error :: "('a \<Rightarrow> cfg_err option) \<Rightarrow> 'a list \<Rightarrow> cfg_err option" where
  "first_error check [] = None"
| "first_error check (x # xs) =
    (case check x of Some e \<Rightarrow> Some e | None \<Rightarrow> first_error check xs)"

definition ValidateSettings :: "(string \<times> jsonv) list \<Rightarrow> cfg_err option" where
  "ValidateSettings settingsMap = first_error validate_setting settingsMap"

text \<open>The text of a value under the verb v. A number is a float64: from a million up it is printed with an
  exponent of at least two digits and its shortest digits, which for a whole number below 2^53 are its digits without the zeros at the
  end.\<close>

definition float_text :: "int \<Rightarrow> string" where
  "float_text i =
    (let digits = show_nat (nat \<bar>i\<bar>); sign = (if i < 0 then ''-'' else []) in
     if \<bar>i\<bar> < 1000000 then sign @ digits
     else
     let mantissa = rev (dropWhile (\<lambda>c. c = CHR ''0'') (rev digits)); e = length digits - 1 in
       sign @ take 1 mantissa @ (if length mantissa \<le> 1 then [] else CHR ''.'' # tl mantissa) @
         ''e+'' @ (if e < 10 then ''0'' else []) @ show_nat e)"

fun sprint_v :: "jsonv \<Rightarrow> string" where
  "sprint_v JNull = ''<nil>''"
| "sprint_v (JBool b) = (if b then ''true'' else ''false'')"
| "sprint_v (JNum i) = float_text i"
| "sprint_v (JFrac t) = t"
| "sprint_v (JStr s) = s"
| "sprint_v JOther = []"

text \<open>UpdateSettings upserts one row per entry; the reload that Invalidate triggers is a later
  call of the loader. \<^verbatim>\<open>ord\<close> is the order in which the map is ranged over.\<close>

definition UpdateSettings ::
  "(string \<times> jsonv) iter \<Rightarrow> bool \<Rightarrow> (string, jsonv) gomap \<Rightarrow> (string, string) gomap \<Rightarrow>
   (string, string) gomap \<times> cfg_err option" where
  "UpdateSettings ord db_fails settingsMap rows =
    (case ValidateSettings (ord settingsMap) of
       Some e \<Rightarrow> (rows, Some e)
     | None \<Rightarrow>
         if settingsMap \<noteq> [] \<and> db_fails then (rows, Some DbFailed)
         else (fold (\<lambda>(k, v) m. gput k (sprint_v v) m) (ord settingsMap) rows, None))"

section \<open>Group overrides\<close>

record GroupConfig =
  gRequestTimeout :: "int option"
  gIdleConnTimeout :: "int option"
  gConnectTimeout :: "int option"
  gMaxIdleConns :: "int option"
  gMaxIdleConnsPerHost :: "int option"
  gResponseHeaderTimeout :: "int option"
  gProxyURL :: "string option"
  gMaxRetries :: "int option"
  gBlacklistThreshold :: "int option"
  gKeyValidationIntervalMinutes :: "int option"
  gKeyValidationConcurrency :: "int option"
  gKeyValidationTimeoutSeconds :: "int option"

definition group_fields :: "setting list" where
  "group_fields =
  [F_RequestTimeout, F_IdleConnTimeout, F_ConnectTimeout, 
   F_MaxIdleConns, F_MaxIdleConnsPerHost, F_ResponseHeaderTimeout, 
   F_ProxyURL, F_MaxRetries, F_BlacklistThreshold, 
   F_KeyValidationIntervalMinutes, F_KeyValidationConcurrency, F_KeyValidationTimeoutSeconds]"

fun gc_int :: "setting \<Rightarrow> GroupConfig \<Rightarrow> int option" where
  "gc_int F_RequestTimeout c = gRequestTimeout c"
| "gc_int F_IdleConnTimeout c = gIdleConnTimeout c"
| "gc_int F_ConnectTimeout c = gConnectTimeout c"
| "gc_int F_MaxIdleConns c = gMaxIdleConns c"
| "gc_int F_MaxIdleConnsPerHost c = gMaxIdleConnsPerHost c"
| "gc_int F_ResponseHeaderTimeout c = gResponseHeaderTimeout c"
| "gc_int F_MaxRetries c = gMaxRetries c"
| "gc_int F_BlacklistThreshold c = gBlacklistThreshold c"
| "gc_int F_KeyValidationIntervalMinutes c = gKeyValidationIntervalMinutes c"
| "gc_int F_KeyValidationConcurrency c = gKeyValidationConcurrency c"
| "gc_int F_KeyValidationTimeoutSeconds c = gKeyValidationTimeoutSeconds c"
| "gc_int _ c = None"

fun gc_str :: "setting \<Rightarrow> GroupConfig \<Rightarrow> string option" where
  "gc_str F_ProxyURL c = gProxyURL c"
| "gc_str _ c = None"

fun gc_put_int :: "setting \<Rightarrow> int option \<Rightarrow> GroupConfig \<Rightarrow> GroupConfig" where
  "gc_put_int F_RequestTimeout v c = c\<lparr>gRequestTimeout := v\<rparr>"
| "gc_put_int F_IdleConnTimeout v c = c\<lparr>gIdleConnTimeout := v\<rparr>"
| "gc_put_int F_ConnectTimeout v c = c\<lparr>gConnectTimeout := v\<rparr>"
| "gc_put_int F_MaxIdleConns v c = c\<lparr>gMaxIdleConns := v\<rparr>"
| "gc_put_int F_MaxIdleConnsPerHost v c = c\<lparr>gMaxIdleConnsPerHost := v\<rparr>"
| "gc_put_int F_ResponseHeaderTimeout v c = c\<lparr>gResponseHeaderTimeout := v\<rparr>"
| "gc_put_int F_MaxRetries v c = c\<lparr>gMaxRetries := v\<rparr>"
| "gc_put_int F_BlacklistThreshold v c = c\<lparr>gBlacklistThreshold := v\<rparr>"
| "gc_put_int F_KeyValidationIntervalMinutes v c = c\<lparr>gKeyValidationIntervalMinutes := v\<rparr>"
| "gc_put_int F_KeyValidationConcurrency v c = c\<lparr>gKeyValidationConcurrency := v\<rparr>"
| "gc_put_int F_KeyValidationTimeoutSeconds v c = c\<lparr>gKeyValidationTimeoutSeconds := v\<rparr>"
| "gc_put_int _ v c = c"

fun gc_put_str :: "setting \<Rightarrow> string option \<Rightarrow> GroupConfig \<Rightarrow> GroupConfig" where
  "gc_put_str F_ProxyURL v c = c\<lparr>gProxyURL := v\<rparr>"
| "gc_put_str _ v c = c"

definition empty_gc :: GroupConfig where
  "empty_gc =
    \<lparr>gRequestTimeout = None, gIdleConnTimeout = None, gConnectTimeout = None,
     gMaxIdleConns = None, gMaxIdleConnsPerHost = None, gResponseHeaderTimeout = None,
     gProxyURL = None, gMaxRetries = None, gBlacklistThreshold = None,
     gKeyValidationIntervalMinutes = None, gKeyValidationConcurrency = None, gKeyValidationTimeoutSeconds = None\<rparr>"
text \<open>json.Unmarshal into the struct: a member without a field is skipped, null clears the
  pointer, a value of the wrong type is an error.\<close>

fun unmarshal_gc :: "(string \<times> jsonv) list \<Rightarrow> GroupConfig \<Rightarrow> GroupConfig option" where
  "unmarshal_gc [] c = Some c"
| "unmarshal_gc ((key, v) # ms) c =
    (case find (\<lambda>f. json_tag f = key) group_fields of
       None \<Rightarrow> unmarshal_gc ms c
     | Some f \<Rightarrow>
         (case (kind_of f, v) of
            (KInt, JNum i) \<Rightarrow> unmarshal_gc ms (gc_put_int f (Some i) c)
          | (KInt, JNull) \<Rightarrow> unmarshal_gc ms (gc_put_int f None c)
          | (KString, JStr s) \<Rightarrow> unmarshal_gc ms (gc_put_str f (Some s) c)
          | (KString, JNull) \<Rightarrow> unmarshal_gc ms (gc_put_str f None c)
          | _ \<Rightarrow> None))"

definition apply_override :: "GroupConfig \<Rightarrow> setting \<Rightarrow> SystemSettings \<Rightarrow> SystemSettings" where
  "apply_override c f s =
    (case kind_of f of
       KInt \<Rightarrow> (case gc_int f c of None \<Rightarrow> s | Some i \<Rightarrow> put_int f i s)
     | KString \<Rightarrow> (case gc_str f c of None \<Rightarrow> s | Some t \<Rightarrow> put_str f t s)
     | KMap \<Rightarrow> s)"

definition GetEffectiveConfig ::
  "SystemSettings \<Rightarrow> (string, jsonv) gomap option \<Rightarrow> SystemSettings" where
  "GetEffectiveConfig settings groupConfigJSON =
    (case groupConfigJSON of
       None \<Rightarrow> settings
     | Some m \<Rightarrow>
         (case unmarshal_gc m empty_gc of
            None \<Rightarrow> settings
          | Some c \<Rightarrow> fold (apply_override c) group_fields settings))"

text \<open>Values of the wrong type are skipped here, not rejected.\<close>

definition validate_override :: "string \<times> jsonv \<Rightarrow> cfg_err option" where
  "validate_override e =
    (case e of (key, v) \<Rightarrow>
     if v = JNull then None
     else
     (case field_of_tag key of
        None \<Rightarrow> Some (InvalidKey key)
      | Some f \<Rightarrow>
          (case kind_of f of
             KInt \<Rightarrow>
               (case v of
                  JNum i \<Rightarrow> if \<not> in_i64 i then Some (NotInteger key)
                     else if min_violated (validate_rules f) i then Some (BelowMin key i) else None
                | JFrac _ \<Rightarrow> Some (NotInteger key)
                | _ \<Rightarrow> None)
           | KString \<Rightarrow>
               (case v of
                  JStr s \<Rightarrow> if required_violated (validate_rules f) s then Some (Required key) else None
                | _ \<Rightarrow> None)
           | KMap \<Rightarrow> None)))"

definition ValidateGroupConfigOverrides :: "(string \<times> jsonv) list \<Rightarrow> cfg_err option" where
  "ValidateGroupConfigOverrides configMap = first_error validate_override configMap"

definition marshal_field :: "GroupConfig \<Rightarrow> setting \<Rightarrow> (string \<times> jsonv) list" where
  "marshal_field c f =
    (case kind_of f of
       KInt \<Rightarrow> (case gc_int f c of None \<Rightarrow> [] | Some i \<Rightarrow> [(json_tag f, JNum i)])
     | KString \<Rightarrow> (case gc_str f c of None \<Rightarrow> [] | Some t \<Rightarrow> [(json_tag f, JStr t)])
     | KMap \<Rightarrow> [])"

definition unknown_field :: "string \<times> jsonv \<Rightarrow> cfg_err option" where
  "unknown_field e =
    (if fst e \<in> set (map json_tag group_fields) then None else Some (UnknownField (fst e)))"

definition validateAndCleanConfig ::
  "(string \<times> jsonv) iter \<Rightarrow> (string, jsonv) gomap option \<Rightarrow>
   cfg_err + (string, jsonv) gomap option" where
  "validateAndCleanConfig ord configMap =
    (case configMap of
       None \<Rightarrow> Inr None
     | Some m \<Rightarrow>
         (case first_error unknown_field (ord m) of
            Some e \<Rightarrow> Inl e
          | None \<Rightarrow>
              (case ValidateGroupConfigOverrides (ord m) of
                 Some e \<Rightarrow> Inl e
               | None \<Rightarrow>
                   (case unmarshal_gc m empty_gc of
                      None \<Rightarrow> Inl (Unmarshal [])
                    | Some c \<Rightarrow> Inr (Some (concat (map (marshal_field c) group_fields)))))))"

section \<open>Fields\<close>

lemma all_fields_complete: "f \<in> set all_fields"
  by (cases f) (simp_all add: all_fields_def)

lemma json_tag_inj: "json_tag f = json_tag g \<longleftrightarrow> f = g"
  by (cases f; cases g; simp)

lemma find_tag: "x \<in> set xs \<Longrightarrow> find (\<lambda>f. json_tag f = json_tag x) xs = Some x"
  by (induction xs) (auto simp: json_tag_inj)

lemma find_tag_Some: "find (\<lambda>f. json_tag f = t) xs = Some f \<Longrightarrow> json_tag f = t \<and> f \<in> set xs"
  by (induction xs) (auto split: if_splits)

lemma field_of_tag_Some: "field_of_tag t = Some f \<longleftrightarrow> json_tag f = t"
  using find_tag [OF all_fields_complete] find_tag_Some unfolding field_of_tag_def by blast

lemma field_of_json_tag [simp]: "field_of_tag (json_tag f) = Some f"
  by (simp add: field_of_tag_Some)

lemma field_of_tag_None: "field_of_tag t = None \<Longrightarrow> json_tag f \<noteq> t"
  by auto

text \<open>The value of a field, as the JSON value that stands for it.\<close>

definition field_value :: "setting \<Rightarrow> SystemSettings \<Rightarrow> jsonv" where
  "field_value f s =
    (case kind_of f of KInt \<Rightarrow> JNum (get_int f s) | KString \<Rightarrow> JStr (get_str f s) | KMap \<Rightarrow> JOther)"

lemma get_put_int: "get_int f (put_int g v s) = (if f = g \<and> kind_of g = KInt then v else get_int f s)"
  by (cases f; cases g; simp)

lemma get_put_str: "get_str f (put_str g v s) = (if f = g \<and> kind_of g = KString then v else get_str f s)"
  by (cases f; cases g; simp)

lemma get_int_put_str [simp]: "get_int f (put_str g v s) = get_int f s"
  by (cases g; cases f; simp)

lemma get_str_put_int [simp]: "get_str f (put_int g v s) = get_str f s"
  by (cases f; cases g; simp)

lemma field_value_put_int:
  "kind_of g = KInt \<Longrightarrow>
   field_value f (put_int g v s) = (if f = g then JNum v else field_value f s)"
  by (auto simp: field_value_def get_put_int split: field_kind.splits)

lemma field_value_put_str:
  "kind_of g = KString \<Longrightarrow>
   field_value f (put_str g v s) = (if f = g then JStr v else field_value f s)"
  by (auto simp: field_value_def get_put_str split: field_kind.splits)

lemma field_value_map [simp]: "field_value f (s\<lparr>ProxyKeysMap := x\<rparr>) = field_value f s"
  by (cases f) (simp_all add: field_value_def)

definition text_value :: "setting \<Rightarrow> string \<Rightarrow> jsonv \<Rightarrow> jsonv" where
  "text_value f t old =
    (case kind_of f of
       KInt \<Rightarrow> (case ParseInt t of (i, None) \<Rightarrow> JNum i | _ \<Rightarrow> old)
     | KString \<Rightarrow> JStr t
     | KMap \<Rightarrow> old)"

lemma field_value_set:
  "field_value f (SetFieldFromString g t s) =
    (if f = g then text_value g t (field_value g s) else field_value f s)"
  by (auto simp: SetFieldFromString_def text_value_def field_value_put_int field_value_put_str
      split: field_kind.splits prod.splits option.splits)

lemma field_value_load:
  "gomap_ok m \<Longrightarrow> field_value f (fold load_row m s) =
    (case map_of m (json_tag f) of
       None \<Rightarrow> field_value f s
     | Some t \<Rightarrow> text_value f t (field_value f s))"
proof (induction m arbitrary: s)
  case (Cons e m)
  obtain k t where e: "e = (k, t)" by (cases e)
  have m: "gomap_ok m" "k \<notin> fst ` set m" using Cons.prems e by (auto simp: gomap_ok_def)
  show ?case
  proof (cases "json_tag f = k")
    case True
    then have "map_of m (json_tag f) = None" using m(2) by (simp add: map_of_eq_None_iff)
    then show ?thesis
      using Cons.IH [OF m(1)] e True by (auto simp: load_row_def field_value_set)
  next
    case False
    then have "field_value f (load_row e s) = field_value f s"
      using e by (auto simp: load_row_def field_value_set field_of_tag_Some split: option.splits)
    then show ?thesis using Cons.IH [OF m(1)] e False by (auto split: option.splits)
  qed
qed simp

section \<open>An accepted update is what the next load reads\<close>

lemma map_of_fold_gput:
  "map_of (fold (\<lambda>(k, v) m. gput k (h v) m) xs m) =
    map_of m ++ map_of (rev (map (\<lambda>(k, v). (k, h v)) xs))"
proof (induction xs arbitrary: m)
  case (Cons x xs)
  obtain k v where "x = (k, v)" by (cases x)
  then show ?case
    using Cons.IH by (auto simp: map_add_def fun_eq_iff split: option.splits)
qed simp

lemma gomap_ok_fold_gput_map:
  "gomap_ok m \<Longrightarrow> gomap_ok (fold (\<lambda>(k, v) m. gput k (h v) m) xs m)"
  by (induction xs arbitrary: m) (auto split: prod.splits)

lemma map_of_rev: "gomap_ok m \<Longrightarrow> map_of (rev m) = map_of m"
  by (rule iter_order_map_of) simp_all

lemma loader_field:
  assumes "iter_order ord" "gomap_ok rows"
  shows "field_value f (settingsLoader ord rows) =
    (case map_of rows (json_tag f) of
       None \<Rightarrow> field_value f DefaultSystemSettings
     | Some t \<Rightarrow> text_value f t (field_value f DefaultSystemSettings))"
proof -
  let ?m = "fold (\<lambda>(k, v) m. gput k v m) rows []"
  have ok: "gomap_ok ?m" using gomap_ok_fold_gput_map [of "[]" id rows] by simp
  have "map_of ?m = map_of rows"
    using map_of_fold_gput [of id rows "[]"] map_of_rev [OF assms(2)]
    by (simp add: case_prod_beta)
  then have "map_of (ord ?m) = map_of rows" "gomap_ok (ord ?m)"
    using iter_order_map_of [OF assms(1) ok] by simp_all
  then show ?thesis by (simp add: settingsLoader_def Let_def field_value_load)
qed

lemma first_error_None: "first_error check xs = None \<longleftrightarrow> (\<forall>x \<in> set xs. check x = None)"
  by (induction check xs rule: first_error.induct) (auto split: option.splits)

lemma parse_digits_junk: "c \<in> set s \<Longrightarrow> \<not> is_digit c \<Longrightarrow> snd (parse_digits n s) \<noteq> None"
  by (induction n s rule: parse_digits.induct) auto

lemma ParseUint_junk: "c \<in> set s \<Longrightarrow> \<not> is_digit c \<Longrightarrow> snd (ParseUint s) \<noteq> None"
  using parse_digits_junk [of c s 0] by (auto simp: ParseUint_def)

lemma ParseInt_junk:
  assumes "c \<in> set (snd (strip_sign s))" "\<not> is_digit c"
  shows "snd (ParseInt s) \<noteq> None"
proof -
  obtain neg ds where d: "strip_sign s = (neg, ds)" by fastforce
  obtain un err where p: "ParseUint ds = (un, err)" by fastforce
  have "err \<noteq> None" using ParseUint_junk [of c ds] assms d p by simp
  then consider "err = Some SyntaxError" | "err = Some RangeError" "un = 18446744073709551615"
    using ParseUint_range [of ds un] p by (cases err) (auto intro: num_error.exhaust)
  then show ?thesis by cases (auto simp: ParseInt_def d p)
qed

definition prints_exponent :: "jsonv \<Rightarrow> bool" where
  "prints_exponent v = (case v of JNum i \<Rightarrow> 1000000 \<le> \<bar>i\<bar> | _ \<Rightarrow> False)"

lemma float_text_small: "\<bar>i\<bar> < 1000000 \<Longrightarrow> ParseInt (float_text i) = (i, None)"
proof -
  assume i: "\<bar>i\<bar> < 1000000"
  then have "float_text i = show_int i" by (simp add: float_text_def show_int_def Let_def)
  moreover have "in_i64 i" using i by (auto simp: in_i64_def)
  ultimately show ?thesis by simp
qed

lemma strip_sign_keeps: "c \<in> set s \<Longrightarrow> c \<noteq> CHR ''+'' \<Longrightarrow> c \<noteq> CHR ''-'' \<Longrightarrow> c \<in> set (snd (strip_sign s))"
  by (cases s) (auto simp: strip_sign_def)

lemma float_text_large:
  assumes "1000000 \<le> \<bar>i\<bar>"
  shows "snd (ParseInt (float_text i)) \<noteq> None"
proof (rule ParseInt_junk [of "CHR ''e''"])
  show "CHR ''e'' \<in> set (snd (strip_sign (float_text i)))"
    using assms by (intro strip_sign_keeps) (simp_all add: float_text_def Let_def)
qed (simp add: is_digit_def)

lemma validated_text:
  "validate_setting (json_tag f, v) = None \<Longrightarrow>
   text_value f (sprint_v v) old = (if prints_exponent v then old else v)"
  using float_text_small float_text_large
  by (fastforce simp: validate_setting_def text_value_def prints_exponent_def
      split: field_kind.splits jsonv.splits if_splits option.splits prod.splits)

text \<open>C12: What the next load reads after an update of the settings that validation accepts, whatever order the
  runtime visits its maps in: every text and every number below a million is read back as it was, of the type and
  above the minimum its tag asks for; a number of a million or more is stored with an exponent, which the load does
  not read, so its field gets the default value; every other field keeps the value it had.\<close>

theorem settings_update_roundtrip:
  assumes "iter_order o1" "iter_order o2" "gomap_ok m" "gomap_ok rows"
    and "UpdateSettings o1 False m rows = (rows', None)"
  shows "field_value f (settingsLoader o2 rows') =
    (case map_of m (json_tag f) of
       None \<Rightarrow> field_value f (settingsLoader o2 rows)
     | Some v \<Rightarrow> if prints_exponent v then field_value f DefaultSystemSettings else v)"
proof -
  let ?new = "map (\<lambda>(k, v). (k, sprint_v v)) (o1 m)"
  have ok: "gomap_ok (o1 m)" "map_of (o1 m) = map_of m"
    using iter_order_map_of [OF assms(1,3)] .
  have valid: "ValidateSettings (o1 m) = None"
    and rows': "rows' = fold (\<lambda>(k, v) m. gput k (sprint_v v) m) (o1 m) rows"
    using assms(5) by (auto simp: UpdateSettings_def split: option.splits)
  have okn: "gomap_ok ?new" using ok(1) by (simp add: gomap_ok_def comp_def case_prod_beta)
  have "map_of ?new = (\<lambda>k. map_option sprint_v (map_of m k))"
    using map_of_map [of sprint_v "o1 m"] ok(2) by (auto simp: fun_eq_iff)
  then have at: "map_of rows' (json_tag f) =
      (case map_of m (json_tag f) of None \<Rightarrow> map_of rows (json_tag f) | Some v \<Rightarrow> Some (sprint_v v))"
    unfolding rows' map_of_fold_gput map_of_rev [OF okn] by (auto simp: map_add_def split: option.splits)
  have "text_value f (sprint_v v) old = (if prints_exponent v then old else v)"
    if "map_of m (json_tag f) = Some v" for v old
  proof (rule validated_text)
    have "(json_tag f, v) \<in> set m" using that by (rule map_of_SomeD)
    then show "validate_setting (json_tag f, v) = None"
      using valid iter_order_set [OF assms(1)]
      by (auto simp: ValidateSettings_def first_error_None)
  qed
  moreover have "gomap_ok rows'" unfolding rows' by (rule gomap_ok_fold_gput_map [OF assms(4)])
  ultimately show ?thesis
    using at loader_field [OF assms(2,4), of f] loader_field [OF assms(2), of rows' f]
    by (auto split: option.splits)
qed

lemma max_retries_rule: "min_violated [''required'', ''min=0''] i \<longleftrightarrow> i < 0"
proof -
  have "char_of (48 :: nat) = CHR ''0''" by code_simp
  with ParseInt_show [of 0]   have "ParseInt ''0'' = (0, None)"
    by (simp add: show_int_def show_nat.simps digit_char_def in_i64_def)
  then show ?thesis
    by (simp add: min_violated_def TrimSpace_def TrimPrefix_def is_space_def Let_def)
qed

lemma max_retries_field: "field_of_tag ''max_retries'' = Some F_MaxRetries"
  by (simp add: field_of_tag_Some)

theorem settings_update_roundtrip_witness:
  "field_value F_MaxRetries (settingsLoader id
     (fst (UpdateSettings id False [(''max_retries'', JNum 7)] [(''max_retries'', ''2'')]))) = JNum 7"
proof -
  have "UpdateSettings id False [(''max_retries'', JNum 7)] [(''max_retries'', ''2'')] =
      (fst (UpdateSettings id False [(''max_retries'', JNum 7)] [(''max_retries'', ''2'')]), None)"
    by (simp add: UpdateSettings_def ValidateSettings_def validate_setting_def max_retries_rule
        max_retries_field in_i64_def)
  from settings_update_roundtrip [OF _ _ _ _ this, of id F_MaxRetries] show ?thesis
    by (simp add: prints_exponent_def)
qed

section \<open>Accepted overrides take effect\<close>

definition gc_value :: "setting \<Rightarrow> GroupConfig \<Rightarrow> jsonv option" where
  "gc_value f c =
    (case kind_of f of
       KInt \<Rightarrow> map_option JNum (gc_int f c)
     | KString \<Rightarrow> map_option JStr (gc_str f c)
     | KMap \<Rightarrow> None)"

lemma gc_get_put:
  "g \<in> set group_fields \<Longrightarrow> kind_of g = KInt \<Longrightarrow>
   gc_int f (gc_put_int g v c) = (if f = g then v else gc_int f c)"
  by (cases g; cases f; simp add: group_fields_def)

lemma gc_get_put_str:
  "g \<in> set group_fields \<Longrightarrow> kind_of g = KString \<Longrightarrow>
   gc_str f (gc_put_str g w c) = (if f = g then w else gc_str f c)"
  by (cases g; cases f; simp add: group_fields_def)

lemma gc_get_put_other [simp]:
  "gc_str f (gc_put_int g v c) = gc_str f c" "gc_int f (gc_put_str g w c) = gc_int f c"
  by (cases g; cases f; simp)+

lemma gc_value_put:
  "g \<in> set group_fields \<Longrightarrow> kind_of g = KInt \<Longrightarrow>
   gc_value f (gc_put_int g v c) = (if f = g then map_option JNum v else gc_value f c)"
  "g \<in> set group_fields \<Longrightarrow> kind_of g = KString \<Longrightarrow>
   gc_value f (gc_put_str g w c) = (if f = g then map_option JStr w else gc_value f c)"
  by (auto simp: gc_value_def gc_get_put gc_get_put_str split: field_kind.splits)

lemma gc_value_empty [simp]: "gc_value f empty_gc = None"
  by (cases f) (simp_all add: gc_value_def empty_gc_def)

text \<open>A member has the type of its field, null included.\<close>

definition well_typed :: "setting \<Rightarrow> jsonv \<Rightarrow> bool" where
  "well_typed f v \<longleftrightarrow> v = JNull \<or> kind_of f = KInt \<and> (\<exists>i. v = JNum i) \<or>
     kind_of f = KString \<and> (\<exists>s. v = JStr s)"

definition non_null :: "jsonv \<Rightarrow> jsonv option" where
  "non_null v = (if v = JNull then None else Some v)"

lemma unmarshal_step:
  assumes "f \<in> set group_fields" "kind_of f \<noteq> KMap"
  shows "unmarshal_gc ((json_tag f, v) # ms) c =
    (if well_typed f v then unmarshal_gc ms
       (if kind_of f = KInt then gc_put_int f (case v of JNum i \<Rightarrow> Some i | _ \<Rightarrow> None) c
        else gc_put_str f (case v of JStr s \<Rightarrow> Some s | _ \<Rightarrow> None) c)
     else None)"
  using assms(2)
  by (auto simp: find_tag [OF assms(1)] well_typed_def split: field_kind.splits jsonv.splits)

lemma group_not_map: "f \<in> set group_fields \<Longrightarrow> kind_of f \<noteq> KMap"
  by (auto simp: group_fields_def)

lemma unmarshal_value:
  assumes "unmarshal_gc ms c = Some c'" "gomap_ok ms" "f \<in> set group_fields"
  shows "gc_value f c' =
      (case map_of ms (json_tag f) of None \<Rightarrow> gc_value f c | Some v \<Rightarrow> non_null v) \<and>
    (\<forall>v. map_of ms (json_tag f) = Some v \<longrightarrow> well_typed f v)"
  using assms(1,2)
proof (induction ms arbitrary: c)
  case (Cons e ms)
  obtain key v where e: "e = (key, v)" by (cases e)
  have ok: "gomap_ok ms" and fresh: "map_of ms key = None"
    using Cons.prems(2) e by (auto simp: gomap_ok_def map_of_eq_None_iff)
  show ?case
  proof (cases "find (\<lambda>f. json_tag f = key) group_fields")
    case None
    then have "json_tag f \<noteq> key" using assms(3) by (auto simp: find_None_iff)
    moreover have "unmarshal_gc ms c = Some c'" using Cons.prems(1) e None by simp
    ultimately show ?thesis using Cons.IH ok e by auto
  next
    case (Some g)
    then have g: "key = json_tag g" "g \<in> set group_fields" using find_tag_Some by blast+
    let ?c = "if kind_of g = KInt then gc_put_int g (case v of JNum i \<Rightarrow> Some i | _ \<Rightarrow> None) c
        else gc_put_str g (case v of JStr s \<Rightarrow> Some s | _ \<Rightarrow> None) c"
    have t: "well_typed g v" and r: "unmarshal_gc ms ?c = Some c'"
      using Cons.prems(1) unmarshal_step [OF g(2) group_not_map [OF g(2)]] e g(1)
      by (auto split: if_splits)
    have "gc_value f ?c = (if f = g then non_null v else gc_value f c)"
      using t g(2) group_not_map [OF g(2)] gc_value_put [OF g(2)]
      by (cases "kind_of g") (auto simp: well_typed_def non_null_def)
    then show ?thesis
      using Cons.IH [OF r ok] e g(1) t fresh by (cases "f = g") (auto simp: json_tag_inj split: option.splits)
  qed
qed simp

lemma marshal_field_value:
  "marshal_field c f = (case gc_value f c of None \<Rightarrow> [] | Some v \<Rightarrow> [(json_tag f, v)])"
  by (auto simp: marshal_field_def gc_value_def split: field_kind.splits option.splits)

lemma gc_value_typed: "gc_value f c = Some v \<Longrightarrow> well_typed f v \<and> v \<noteq> JNull"
  by (auto simp: gc_value_def well_typed_def split: field_kind.splits)

lemma marshal_map_of:
  "distinct fs \<Longrightarrow> map_of (concat (map (marshal_field c) fs)) (json_tag f) =
    (if f \<in> set fs then gc_value f c else None)"
  by (induction fs) (auto simp: marshal_field_value map_add_def json_tag_inj split: option.splits)

lemma marshal_fst: "fst ` set (concat (map (marshal_field c) fs)) \<subseteq> json_tag ` set fs"
  by (induction fs) (auto simp: marshal_field_value split: option.splits)

lemma marshal_ok: "distinct fs \<Longrightarrow> gomap_ok (concat (map (marshal_field c) fs))"
proof (induction fs)
  case (Cons f fs)
  have "json_tag f \<notin> fst ` set (concat (map (marshal_field c) fs))"
    using Cons.prems by (auto dest!: subsetD [OF marshal_fst] simp: json_tag_inj simp del: set_concat)
  then show ?case
    using Cons by (cases "gc_value f c") (simp_all add: gomap_ok_def marshal_field_value)
qed simp

lemma unmarshal_succeeds:
  "\<forall>e \<in> set ms. \<exists>f v. f \<in> set group_fields \<and> e = (json_tag f, v) \<and> well_typed f v \<Longrightarrow>
   \<exists>c'. unmarshal_gc ms c = Some c'"
proof (induction ms arbitrary: c)
  case (Cons e ms)
  then obtain f v where "f \<in> set group_fields" "e = (json_tag f, v)" "well_typed f v" by auto
  then show ?case using Cons unmarshal_step [OF _ group_not_map] by simp
qed simp

lemma field_value_override:
  "field_value f (apply_override c g s) =
    (if f = g then (case gc_value g c of None \<Rightarrow> field_value f s | Some v \<Rightarrow> v) else field_value f s)"
  by (auto simp: apply_override_def gc_value_def field_value_put_int field_value_put_str
      split: field_kind.splits option.splits)

lemma field_value_overrides:
  "distinct fs \<Longrightarrow> field_value f (fold (apply_override c) fs s) =
    (case (if f \<in> set fs then gc_value f c else None) of
       None \<Rightarrow> field_value f s | Some v \<Rightarrow> v)"
  by (induction fs arbitrary: s) (auto simp: field_value_override split: option.splits)

lemma distinct_group_fields: "distinct group_fields"
  by (simp add: group_fields_def)

lemma effective_of_marshalled:
  "field_value f (GetEffectiveConfig s (Some (concat (map (marshal_field c) group_fields)))) =
    (case (if f \<in> set group_fields then gc_value f c else None) of
       None \<Rightarrow> field_value f s | Some v \<Rightarrow> v)"
proof -
  let ?ms = "concat (map (marshal_field c) group_fields)"
  have "\<exists>f v. f \<in> set group_fields \<and> e = (json_tag f, v) \<and> well_typed f v" if "e \<in> set ?ms" for e
    using that gc_value_typed by (fastforce simp: marshal_field_value split: option.splits)
  then obtain c' where c': "unmarshal_gc ?ms empty_gc = Some c'"
    using unmarshal_succeeds by blast
  have "gc_value f c' = gc_value f c" if "f \<in> set group_fields"
    using unmarshal_value [OF c' marshal_ok [OF distinct_group_fields] that]
      marshal_map_of [OF distinct_group_fields] gc_value_typed that
    by (auto simp: non_null_def split: option.splits)
  then show ?thesis
    by (simp add: GetEffectiveConfig_def c' field_value_overrides [OF distinct_group_fields])
qed

text \<open>C13: When the configuration of a group is accepted, every override in it takes effect: the
  effective configuration has the given value for each field that has one, and the value of the
  system settings for each other field, a null included; and no effective value of an overridden
  field is below the minimum of its tag.\<close>

theorem accepted_overrides_take_effect:
  assumes "iter_order ord" "gomap_ok m"
    and "validateAndCleanConfig ord (Some m) = Inr cleaned"
  shows "field_value f (GetEffectiveConfig s cleaned) =
      (case map_of m (json_tag f) of
         None \<Rightarrow> field_value f s
       | Some v \<Rightarrow> if v = JNull then field_value f s else v) \<and>
    \<not> (\<exists>i. map_of m (json_tag f) = Some (JNum i) \<and> min_violated (validate_rules f) i)"
proof -
  obtain c where known: "first_error unknown_field (ord m) = None"
    and valid: "ValidateGroupConfigOverrides (ord m) = None"
    and c: "unmarshal_gc m empty_gc = Some c"
    and cl: "cleaned = Some (concat (map (marshal_field c) group_fields))"
    using assms(3) by (auto simp: validateAndCleanConfig_def split: option.splits)
  have sets: "set (ord m) = set m" using iter_order_set [OF assms(1)] .
  have in_group: "f \<in> set group_fields" if "map_of m (json_tag f) = Some v" for v
    using map_of_SomeD [OF that] known sets
    by (force simp: first_error_None unknown_field_def json_tag_inj split: if_splits)
  have "gc_value f c = (case map_of m (json_tag f) of None \<Rightarrow> None | Some v \<Rightarrow> non_null v)"
    if "f \<in> set group_fields"
    using unmarshal_value [OF c assms(2) that] by (simp split: option.splits)
  then have "field_value f (GetEffectiveConfig s cleaned) =
      (case map_of m (json_tag f) of
         None \<Rightarrow> field_value f s
       | Some v \<Rightarrow> if v = JNull then field_value f s else v)"
    unfolding cl effective_of_marshalled
    using in_group by (auto simp: non_null_def split: option.splits)
  moreover have "\<not> min_violated (validate_rules f) i" if "map_of m (json_tag f) = Some (JNum i)" for i
  proof -
    have "validate_override (json_tag f, JNum i) = None"
      using map_of_SomeD [OF that] valid sets
      by (auto simp: ValidateGroupConfigOverrides_def first_error_None)
    moreover have "kind_of f = KInt"
      using unmarshal_value [OF c assms(2) in_group [OF that]] that by (auto simp: well_typed_def)
    ultimately show ?thesis by (auto simp: validate_override_def split: if_splits)
  qed
  ultimately show ?thesis by blast
qed

theorem accepted_overrides_take_effect_witness:
  "field_value F_MaxRetries (GetEffectiveConfig DefaultSystemSettings
     (Some [(''max_retries'', JNum 0)])) = JNum 0"
proof -
  have "validateAndCleanConfig id (Some [(''max_retries'', JNum 0), (''proxy_url'', JNull)]) =
      Inr (Some [(''max_retries'', JNum 0)])"
    by (simp add: validateAndCleanConfig_def unknown_field_def ValidateGroupConfigOverrides_def
        validate_override_def max_retries_rule max_retries_field marshal_field_def group_fields_def
        empty_gc_def)
  from accepted_overrides_take_effect [OF _ _ this, of F_MaxRetries DefaultSystemSettings]
  show ?thesis by (simp add: gomap_ok_def)
qed

end
