(* ===== verification/Channel.thy ===== *)
theory Channel
  imports Settings
begin

text \<open>Channels: the smooth weighted round robin over the upstreams of a group and the URL of a
  request (src/internal/channel/base_channel.go), the construction of a channel from a group and
  the cache of channels (src/internal/channel/factory.go). The HTTP client of a channel is the
  configuration it is made from. Decoding the JSON of the upstreams and parsing a URL are the
  parameters \<^verbatim>\<open>decode\<close> and \<^verbatim>\<open>parse\<close>; a URL is its part before the path, its path
  and its query, so that rendering it is left out. Weights and counters are int64.\<close>

section \<open>State\<close>

record url =
  u_base :: string
  u_path :: string
  u_query :: string

record UpstreamInfo =
  URL :: url
  Weight :: int
  CurrentWeight :: int

record http_config =
  hConnectTimeout :: int
  hRequestTimeout :: int
  hIdleConnTimeout :: int
  hMaxIdleConns :: int
  hMaxIdleConnsPerHost :: int
  hResponseHeaderTimeout :: int
  hDisableCompression :: bool
  hWriteBufferSize :: int
  hReadBufferSize :: int
  hForceAttemptHTTP2 :: bool
  hTLSHandshakeTimeout :: int
  hExpectContinueTimeout :: int
  hProxyURL :: string

record BaseChannel =
  cName :: string
  Upstreams :: "UpstreamInfo list"
  HTTPClient :: http_config
  StreamClient :: http_config
  TestModel :: string
  ValidationEndpoint :: string
  channelType :: string
  groupUpstreams :: string
  effectiveConfig :: SystemSettings

text \<open>The fields of a group the channels and the proxy read.\<close>

record Group =
  gID :: nat
  gName :: string
  gChannelType :: string
  gUpstreams :: string
  gTestModel :: string
  gValidationEndpoint :: string
  EffectiveConfig :: SystemSettings

section \<open>Choice of an upstream\<close>

text \<open>The loop keeps the total, the new weights and the best upstream so far: its index and its
  new current weight.\<close>

fun weigh :: "nat \<Rightarrow> UpstreamInfo list \<Rightarrow> int \<Rightarrow> (nat \<times> int) option \<Rightarrow>
    UpstreamInfo list \<times> int \<times> (nat \<times> int) option" where
  "weigh i [] sum_w best = ([], sum_w, best)"
| "weigh i (up # ups) sum_w best =
    (let sum_w1 = i64 (sum_w + Weight up);
         cw = i64 (CurrentWeight up + Weight up);
         best' = (case best of
                    None \<Rightarrow> Some (i, cw)
                  | Some (_, w) \<Rightarrow> if cw > w then Some (i, cw) else best);
         (ups', t, b) = weigh (Suc i) ups sum_w1 best'
     in (up\<lparr>CurrentWeight := cw\<rparr> # ups', t, b))"

definition getUpstreamURL :: "UpstreamInfo list \<Rightarrow> UpstreamInfo list \<times> url option" where
  "getUpstreamURL ups =
    (case ups of
       [] \<Rightarrow> (ups, None)
     | [up] \<Rightarrow> (ups, Some (URL up))
     | _ \<Rightarrow>
         (case weigh 0 ups 0 None of
            (ups', sum_w, None) \<Rightarrow> (ups', Some (URL (hd ups')))
          | (ups', sum_w, Some (b, _)) \<Rightarrow>
              (ups'[b := (ups' ! b)\<lparr>CurrentWeight := i64 (CurrentWeight (ups' ! b) - sum_w)\<rparr>],
               Some (URL (ups' ! b)))))"

definition BuildUpstreamURL ::
  "url \<Rightarrow> string \<Rightarrow> BaseChannel \<Rightarrow> BaseChannel \<times> url option" where
  "BuildUpstreamURL originalURL group_name ch =
    (case getUpstreamURL (Upstreams ch) of
       (ups, None) \<Rightarrow> (ch\<lparr>Upstreams := ups\<rparr>, None)
     | (ups, Some base) \<Rightarrow>
         (ch\<lparr>Upstreams := ups\<rparr>,
          Some (base\<lparr>u_path := TrimRight (u_path base) CHR ''/'' @
                      TrimPrefix (u_path originalURL) (''/proxy/'' @ group_name),
                    u_query := u_query originalURL\<rparr>)))"

definition IsConfigStale :: "Group \<Rightarrow> BaseChannel \<Rightarrow> bool" where
  "IsConfigStale grp ch =
    (if channelType ch \<noteq> gChannelType grp then True
     else if TestModel ch \<noteq> gTestModel grp then True
     else if ValidationEndpoint ch \<noteq> gValidationEndpoint grp then True
     else if groupUpstreams ch \<noteq> gUpstreams grp then True
     else if effectiveConfig ch \<noteq> EffectiveConfig grp then True
     else False)"

section \<open>Construction and cache\<close>

datatype ch_err = BadUpstreams | NoUpstream | BadURL string | UnsupportedChannel string

fun upstream_infos :: "(string \<Rightarrow> url option) \<Rightarrow> (string \<times> int) list \<Rightarrow> ch_err + UpstreamInfo list" where
  "upstream_infos parse [] = Inr []"
| "upstream_infos parse ((u, w) # defs) =
    (case parse u of
       None \<Rightarrow> Inl (BadURL u)
     | Some url \<Rightarrow>
         (case upstream_infos parse defs of
            Inl e \<Rightarrow> Inl e
          | Inr ups \<Rightarrow>
              Inr (\<lparr>URL = url, Weight = (if w \<le> 0 then 1 else w), CurrentWeight = 0\<rparr> # ups)))"

definition client_config :: "SystemSettings \<Rightarrow> http_config" where
  "client_config s =
    \<lparr>hConnectTimeout = i64 (ConnectTimeout s * 1000000000),
     hRequestTimeout = i64 (RequestTimeout s * 1000000000),
     hIdleConnTimeout = i64 (IdleConnTimeout s * 1000000000),
     hMaxIdleConns = MaxIdleConns s, hMaxIdleConnsPerHost = MaxIdleConnsPerHost s,
     hResponseHeaderTimeout = i64 (ResponseHeaderTimeout s * 1000000000),
     hDisableCompression = False, hWriteBufferSize = 32768, hReadBufferSize = 32768,
     hForceAttemptHTTP2 = True, hTLSHandshakeTimeout = 15000000000,
     hExpectContinueTimeout = 1000000000, hProxyURL = ProxyURL s\<rparr>"

definition stream_config :: "SystemSettings \<Rightarrow> http_config" where
  "stream_config s = (client_config s)
    \<lparr>hRequestTimeout := 0, hDisableCompression := True, hWriteBufferSize := 0, hReadBufferSize := 0,
     hMaxIdleConns := max (i64 (MaxIdleConns s * 2)) 50,
     hMaxIdleConnsPerHost := max (i64 (MaxIdleConnsPerHost s * 2)) 20\<rparr>"

definition newBaseChannel ::
  "(string \<Rightarrow> (string \<times> int) list option) \<Rightarrow> (string \<Rightarrow> url option) \<Rightarrow> string \<Rightarrow> Group \<Rightarrow>
   ch_err + BaseChannel" where
  "newBaseChannel decode parse name grp =
    (case decode (gUpstreams grp) of
       None \<Rightarrow> Inl BadUpstreams
     | Some defs \<Rightarrow>
         if defs = [] then Inl NoUpstream
         else
         (case upstream_infos parse defs of
            Inl e \<Rightarrow> Inl e
          | Inr ups \<Rightarrow>
              Inr \<lparr>cName = name, Upstreams = ups,
                   HTTPClient = client_config (EffectiveConfig grp),
                   StreamClient = stream_config (EffectiveConfig grp),
                   TestModel = gTestModel grp, ValidationEndpoint = gValidationEndpoint grp,
                   channelType = gChannelType grp, groupUpstreams = gUpstreams grp,
                   effectiveConfig = EffectiveConfig grp\<rparr>))"

text \<open>The registry: each constructor passes its own name on.\<close>

definition channelRegistry :: "string list" where
  "channelRegistry = [''openai'', ''gemini'', ''anthropic'']"

type_synonym factory = "nat \<Rightarrow> BaseChannel option"

definition GetChannel ::
  "(string \<Rightarrow> (string \<times> int) list option) \<Rightarrow> (string \<Rightarrow> url option) \<Rightarrow> Group \<Rightarrow> factory \<Rightarrow>
   factory \<times> (ch_err + BaseChannel)" where
  "GetChannel decode parse grp cache =
    (let create =
       (if gChannelType grp \<notin> set channelRegistry
        then (cache, Inl (UnsupportedChannel (gChannelType grp)))
        else (case newBaseChannel decode parse (gChannelType grp) grp of
                Inl e \<Rightarrow> (cache, Inl e)
              | Inr ch \<Rightarrow> (cache(gID grp \<mapsto> ch), Inr ch)))
     in case cache (gID grp) of
          Some ch \<Rightarrow> if \<not> IsConfigStale grp ch then (cache, Inr ch) else create
        | None \<Rightarrow> create)"

section \<open>The round robin is fair\<close>

text \<open>The arithmetic of one round without wrap-around: the weights are added, the best index is
  the first of the largest.\<close>

definition total_weight :: "UpstreamInfo list \<Rightarrow> int" where
  "total_weight ups = sum_list (map Weight ups)"

definition bumped :: "UpstreamInfo \<Rightarrow> int" where
  "bumped up = CurrentWeight up + Weight up"

lemma weigh_exact:
  assumes "\<forall>up \<in> set ups. 0 \<le> Weight up \<and> in_i64 (bumped up)"
    and "0 \<le> sum_w" "in_i64 (sum_w + total_weight ups)"
  shows "\<exists>b. weigh i ups sum_w best =
    (map (\<lambda>up. up\<lparr>CurrentWeight := bumped up\<rparr>) ups, sum_w + total_weight ups, b) \<and>
    (ups \<noteq> [] \<or> best \<noteq> None \<longrightarrow>
      (\<exists>j w. b = Some (j, w) \<and> (\<forall>up \<in> set ups. bumped up \<le> w) \<and>
        (case best of None \<Rightarrow> True | Some (_, w0) \<Rightarrow> w0 \<le> w) \<and>
        (best = Some (j, w) \<or> i \<le> j \<and> j < i + length ups \<and> bumped (ups ! (j - i)) = w)))"
  using assms
proof (induction ups arbitrary: i sum_w best)
  case Nil
  then show ?case by (auto simp: total_weight_def split: option.splits)
next
  case (Cons up ups)
  have nn: "0 \<le> total_weight ups"
    using Cons.prems(1) by (auto simp: total_weight_def intro!: sum_list_nonneg)
  have t: "i64 (sum_w + Weight up) = sum_w + Weight up"
    using Cons.prems nn by (intro i64_id) (auto simp: in_i64_def total_weight_def)
  have c: "i64 (CurrentWeight up + Weight up) = bumped up"
    using Cons.prems(1) by (simp add: bumped_def)
  let ?best = "case best of None \<Rightarrow> Some (i, bumped up)
    | Some (_, w) \<Rightarrow> if bumped up > w then Some (i, bumped up) else best"
  have ne: "?best \<noteq> None" by (auto split: option.splits)
  obtain b where b: "weigh (Suc i) ups (sum_w + Weight up) ?best =
      (map (\<lambda>up. up\<lparr>CurrentWeight := bumped up\<rparr>) ups, sum_w + Weight up + total_weight ups, b)"
    and p: "\<exists>j w. b = Some (j, w) \<and> (\<forall>up \<in> set ups. bumped up \<le> w) \<and>
        (case ?best of None \<Rightarrow> True | Some (_, w0) \<Rightarrow> w0 \<le> w) \<and>
        (?best = Some (j, w) \<or> Suc i \<le> j \<and> j < Suc i + length ups \<and> bumped (ups ! (j - Suc i)) = w)"
    using Cons.IH [of "sum_w + Weight up" "Suc i" ?best] Cons.prems ne
    by (simp add: total_weight_def add.assoc) blast
  have "\<exists>j w. b = Some (j, w) \<and> (\<forall>u \<in> set (up # ups). bumped u \<le> w) \<and>
        (case best of None \<Rightarrow> True | Some (_, w0) \<Rightarrow> w0 \<le> w) \<and>
        (best = Some (j, w) \<or> i \<le> j \<and> j < i + length (up # ups) \<and> bumped ((up # ups) ! (j - i)) = w)"
    using p by (fastforce simp: nth_Cons' split: option.splits prod.splits if_splits)
  then show ?case using b by (simp add: t c total_weight_def)
qed

text \<open>The invariant of the rounds for a total weight \<^verbatim>\<open>W\<close>: the current weights add up to 0 and
  none is as low as minus \<^verbatim>\<open>W\<close>.\<close>

definition balanced :: "int \<Rightarrow> UpstreamInfo list \<Rightarrow> bool" where
  "balanced W ups \<longleftrightarrow> 2 \<le> length ups \<and> 0 < W \<and> int (length ups) * W < 9223372036854775808 \<and>
     (\<forall>i < length ups. 0 \<le> Weight (ups ! i) \<and> - W < CurrentWeight (ups ! i)) \<and>
     (\<Sum>i < length ups. Weight (ups ! i)) = W \<and> (\<Sum>i < length ups. CurrentWeight (ups ! i)) = 0"

lemma total_weight_sum: "total_weight ups = (\<Sum>i < length ups. Weight (ups ! i))"
  by (simp add: total_weight_def sum_list_sum_nth atLeast0LessThan)

lemma balanced_range:
  assumes "balanced W ups" "i < length ups"
  shows "in_i64 (bumped (ups ! i))" "in_i64 (bumped (ups ! i) - W)"
proof -
  let ?n = "length ups"
  let ?I = "{..<?n} - {i}"
  have b: "\<And>j. j < ?n \<Longrightarrow> - W < CurrentWeight (ups ! j)" "0 < W" "int ?n * W < 9223372036854775808"
    and w: "0 \<le> Weight (ups ! i)" "(\<Sum>j < ?n. Weight (ups ! j)) = W"
    and z: "(\<Sum>j < ?n. CurrentWeight (ups ! j)) = 0"
    and nn: "\<And>j. j < ?n \<Longrightarrow> 0 \<le> Weight (ups ! j)"
    using assms by (auto simp: balanced_def)
  have "Weight (ups ! i) \<le> (\<Sum>j < ?n. Weight (ups ! j))"
    by (rule member_le_sum) (use assms(2) nn in auto)
  then have wi: "Weight (ups ! i) \<le> W" using w(2) by simp
  have "(\<Sum>j \<in> ?I. - W) \<le> (\<Sum>j \<in> ?I. CurrentWeight (ups ! j))"
    by (rule sum_mono) (use b(1) in \<open>auto simp: less_imp_le\<close>)
  moreover have "(\<Sum>j < ?n. CurrentWeight (ups ! j)) =
      CurrentWeight (ups ! i) + (\<Sum>j \<in> ?I. CurrentWeight (ups ! j))"
    using assms(2) by (simp add: sum.remove)
  moreover have "card ?I = ?n - 1" using assms(2) by simp
  moreover have "int (?n - 1) = int ?n - 1" using assms(2) by simp
  ultimately have "CurrentWeight (ups ! i) \<le> (int ?n - 1) * W" using z by simp
  then have "bumped (ups ! i) \<le> int ?n * W" using wi by (simp add: bumped_def algebra_simps)
  moreover have "- W < bumped (ups ! i)" using b(1) [OF assms(2)] w(1) by (simp add: bumped_def)
  moreover have "2 * W \<le> int ?n * W"
    using assms(1) b(2) by (intro mult_right_mono) (auto simp: balanced_def)
  then have "2 * W < 9223372036854775808" using le_less_trans [OF _ b(3)] by simp
  ultimately show "in_i64 (bumped (ups ! i))" "in_i64 (bumped (ups ! i) - W)"
    using b(2,3) by (simp_all add: in_i64_def)
qed

text \<open>What a round does to upstream \<^verbatim>\<open>i\<close> when \<^verbatim>\<open>j\<close> is chosen.\<close>

definition after_round :: "int \<Rightarrow> nat \<Rightarrow> nat \<Rightarrow> UpstreamInfo \<Rightarrow> UpstreamInfo" where
  "after_round W j i up = up\<lparr>CurrentWeight := bumped up - (if i = j then W else 0)\<rparr>"

lemma getUpstreamURL_many:
  "2 \<le> length ups \<Longrightarrow> getUpstreamURL ups =
    (case weigh 0 ups 0 None of
       (ups', sum_w, None) \<Rightarrow> (ups', Some (URL (hd ups')))
     | (ups', sum_w, Some (b, _)) \<Rightarrow>
         (ups'[b := (ups' ! b)\<lparr>CurrentWeight := i64 (CurrentWeight (ups' ! b) - sum_w)\<rparr>],
          Some (URL (ups' ! b))))"
  by (cases ups rule: remdups_adj.cases) (simp_all add: getUpstreamURL_def del: weigh.simps)

lemma round_exact:
  assumes "balanced W ups"
  obtains j ups' where "j < length ups" "getUpstreamURL ups = (ups', Some (URL (ups ! j)))"
    "length ups' = length ups" "\<And>i. i < length ups \<Longrightarrow> ups' ! i = after_round W j i (ups ! i)"
    "balanced W ups'"
proof -
  let ?n = "length ups"
  let ?m = "map (\<lambda>up. up\<lparr>CurrentWeight := bumped up\<rparr>) ups"
  have W: "0 < W" "2 \<le> ?n" "total_weight ups = W" "int ?n * W < 9223372036854775808"
    using assms by (auto simp: balanced_def total_weight_sum)
  have "1 * W \<le> int ?n * W" using W(1,2) by (intro mult_right_mono) auto
  then have "W < 9223372036854775808" using le_less_trans [OF _ W(4)] by simp
  then have "in_i64 W" using W(1) by (simp add: in_i64_def)
  moreover have "\<forall>up \<in> set ups. 0 \<le> Weight up \<and> in_i64 (bumped up)"
    using balanced_range(1) [OF assms] assms by (auto simp: balanced_def in_set_conv_nth)
  ultimately obtain j w where wg: "weigh 0 ups 0 None = (?m, W, Some (j, w))"
    and mx: "\<forall>up \<in> set ups. bumped up \<le> w" and j: "j < ?n" "bumped (ups ! j) = w"
    using weigh_exact [of ups 0 0 None] W by fastforce
  have "(\<Sum>i < ?n. bumped (ups ! i)) = W"
    using assms by (simp add: bumped_def sum.distrib balanced_def)
  moreover have "(\<Sum>i < ?n. bumped (ups ! i)) \<le> (\<Sum>i < ?n. w)"
    by (rule sum_mono) (use mx in auto)
  ultimately have "0 < int ?n * w" using W(1) by simp
  then have pos: "0 < w" by (simp add: zero_less_mult_iff)
  let ?r = "?m[j := (?m ! j)\<lparr>CurrentWeight := i64 (CurrentWeight (?m ! j) - W)\<rparr>]"
  have g: "getUpstreamURL ups = (?r, Some (URL (ups ! j)))"
    using getUpstreamURL_many [OF W(2)] wg j(1) by simp
  have cw: "i64 (bumped (ups ! j) - W) = bumped (ups ! j) - W"
    by (rule i64_id) (rule balanced_range(2) [OF assms j(1)])
  have at: "?r ! i = after_round W j i (ups ! i)" if "i < ?n" for i
    using that j(1) cw by (auto simp: after_round_def nth_list_update)
  have "(\<Sum>i < ?n. CurrentWeight (?r ! i)) = (\<Sum>i < ?n. bumped (ups ! i) - (if i = j then W else 0))"
    by (rule sum.cong) (use at in \<open>auto simp: after_round_def\<close>)
  also have "... = W - W"
    using \<open>(\<Sum>i < ?n. bumped (ups ! i)) = W\<close> j(1) by (simp add: sum_subtractf sum.delta)
  finally have z: "(\<Sum>i < ?n. CurrentWeight (?r ! i)) = 0" by simp
  have sw: "(\<Sum>i < ?n. Weight (?r ! i)) = (\<Sum>i < ?n. Weight (ups ! i))"
    by (rule sum.cong) (use at in \<open>auto simp: after_round_def\<close>)
  have "- W < CurrentWeight (?r ! i)" "0 \<le> Weight (?r ! i)" if "i < ?n" for i
    using at [OF that] assms that pos j(2)
    by (auto simp: after_round_def balanced_def bumped_def intro: add_strict_increasing2)
  then have "balanced W ?r"
    using assms z sw by (simp add: balanced_def)
  then show thesis using that [OF j(1) g _ at] by simp
qed

definition urls_of :: "UpstreamInfo list \<Rightarrow> nat list \<Rightarrow> url option list" where
  "urls_of ups js = map (\<lambda>j. Some (URL (ups ! j))) js"

lemma rounds:
  assumes "balanced W ups"
    and "run_ops (\<lambda>_::unit. getUpstreamURL) (replicate n ()) ups = (ups', outs)"
  shows "\<exists>js. length js = n \<and> set js \<subseteq> {..<length ups} \<and> outs = urls_of ups js \<and>
    length ups' = length ups \<and> balanced W ups' \<and>
    (\<forall>i < length ups. ups' ! i = (ups ! i)\<lparr>CurrentWeight :=
      CurrentWeight (ups ! i) + int n * Weight (ups ! i) - W * int (count_list js i)\<rparr>)"
  using assms
proof (induction n arbitrary: ups outs)
  case 0
  then show ?case by (auto simp: urls_of_def)
next
  case (Suc n)
  obtain j u where j: "j < length ups" "getUpstreamURL ups = (u, Some (URL (ups ! j)))"
    "length u = length ups" "\<And>i. i < length ups \<Longrightarrow> u ! i = after_round W j i (ups ! i)" "balanced W u"
    by (rule round_exact [OF Suc.prems(1)]) (rule that)
  obtain outs' where r: "run_ops (\<lambda>_::unit. getUpstreamURL) (replicate n ()) u = (ups', outs')"
    and o: "outs = Some (URL (ups ! j)) # outs'"
    using Suc.prems(2) j(2) by (auto split: prod.splits)
  obtain js where js: "length js = n" "set js \<subseteq> {..<length u}" "outs' = urls_of u js"
    "length ups' = length u" "balanced W ups'"
    "\<And>i. i < length u \<Longrightarrow> ups' ! i = (u ! i)\<lparr>CurrentWeight :=
      CurrentWeight (u ! i) + int n * Weight (u ! i) - W * int (count_list js i)\<rparr>"
    using Suc.IH [OF j(5) r] by blast
  have "urls_of u js = urls_of ups js"
    using js(2) j(3,4) by (auto simp: urls_of_def after_round_def)
  moreover have "ups' ! i = (ups ! i)\<lparr>CurrentWeight :=
      CurrentWeight (ups ! i) + int (Suc n) * Weight (ups ! i) - W * int (count_list (j # js) i)\<rparr>"
    if "i < length ups" for i
    using js(6) [of i] j(3,4) that by (simp add: after_round_def bumped_def algebra_simps)
  ultimately show ?case
    using j js o by (intro exI [of _ "j # js"]) (auto simp: urls_of_def)
qed

lemma counts_are_weights:
  fixes n :: nat
  assumes "\<And>i. i < n \<Longrightarrow> int (count_list js i) \<le> w i" "set js \<subseteq> {..<n}"
    and "(\<Sum>i < n. w i) = int (length js)" "i < n"
  shows "int (count_list js i) = w i"
proof (rule ccontr)
  assume "int (count_list js i) \<noteq> w i"
  then have "int (count_list js i) < w i" using assms(1) [OF assms(4)] by simp
  then have "(\<Sum>i < n. int (count_list js i)) < (\<Sum>i < n. w i)"
    using assms(1,4) by (intro sum_strict_mono_ex1) auto
  moreover have "(\<Sum>i < n. int (count_list js i)) = int (length js)"
    using sum_count_set [OF assms(2)] by (simp flip: of_nat_sum)
  ultimately show False using assms(3) by simp
qed

lemma upstream_infos_new:
  "upstream_infos parse defs = Inr ups \<Longrightarrow>
   length ups = length defs \<and> (\<forall>up \<in> set ups. 1 \<le> Weight up \<and> CurrentWeight up = 0)"
  by (induction parse defs arbitrary: ups rule: upstream_infos.induct)
    (auto split: option.splits sum.splits)

lemma newBaseChannel_new:
  assumes "newBaseChannel decode parse name grp = Inr ch"
  shows "Upstreams ch \<noteq> []" "\<And>up. up \<in> set (Upstreams ch) \<Longrightarrow> 1 \<le> Weight up \<and> CurrentWeight up = 0"
    "\<not> IsConfigStale grp ch"
  using assms upstream_infos_new [of parse]
  by (fastforce simp: newBaseChannel_def IsConfigStale_def split: option.splits sum.splits if_splits)+

lemma GetChannel_fresh:
  assumes "GetChannel decode parse grp cache = (cache', Inr ch)"
  shows "cache' (gID grp) = Some ch" "\<not> IsConfigStale grp ch"
    "GetChannel decode parse grp cache' = (cache', Inr ch)"
proof -
  show a: "cache' (gID grp) = Some ch" and b: "\<not> IsConfigStale grp ch"
    using assms newBaseChannel_new(3)
    by (auto simp: GetChannel_def Let_def split: option.splits sum.splits if_splits)
  show "GetChannel decode parse grp cache' = (cache', Inr ch)"
    using a b by (simp add: GetChannel_def)
qed

text \<open>C14: Smooth weighted round robin: from a new channel with at least two upstreams, as many
  choices as the weights add up to choose every upstream exactly as often as its weight says, and
  end in the state they began in. Requests are thus shared exactly in proportion, round after
  round, as long as the number of upstreams times the total weight fits an int64.\<close>

theorem upstreams_weighted_fair:
  assumes "newBaseChannel decode parse name grp = Inr ch" "ups = Upstreams ch"
    and "2 \<le> length ups" "W = total_weight ups" "int (length ups) * W < 9223372036854775808"
    and "run_ops (\<lambda>_::unit. getUpstreamURL) (replicate (nat W) ()) ups = (ups', outs)"
  shows "ups' = ups \<and> (\<exists>js. outs = urls_of ups js \<and> length js = nat W \<and>
    (\<forall>i < length ups. int (count_list js i) = Weight (ups ! i)))"
proof -
  have new: "1 \<le> Weight (ups ! i)" "CurrentWeight (ups ! i) = 0" if "i < length ups" for i
    using newBaseChannel_new(2) [OF assms(1)] assms(2) that by auto
  have "(\<Sum>i < length ups. 1) \<le> (\<Sum>i < length ups. Weight (ups ! i))"
    by (rule sum_mono) (use new in auto)
  then have W: "0 < W" using assms(3,4) by (simp add: total_weight_sum)
  have b: "balanced W ups"
    using assms(3-5) W new by (force simp: balanced_def total_weight_sum)
  from rounds [OF b assms(6)] obtain js where
    js: "length js = nat W" "set js \<subseteq> {..<length ups}" "outs = urls_of ups js"
      "length ups' = length ups" "balanced W ups'"
    and at: "\<And>i. i < length ups \<Longrightarrow> ups' ! i = (ups ! i)\<lparr>CurrentWeight :=
      CurrentWeight (ups ! i) + W * Weight (ups ! i) - W * int (count_list js i)\<rparr>"
    using W by auto
  have le: "int (count_list js i) \<le> Weight (ups ! i)" if "i < length ups" for i
  proof -
    have "- W < W * Weight (ups ! i) - W * int (count_list js i)"
      using js(4,5) at [OF that] new [OF that] that by (auto simp: balanced_def)
    then have "0 < W * (Weight (ups ! i) - int (count_list js i) + 1)" by (simp add: algebra_simps)
    then show ?thesis using W by (simp add: zero_less_mult_iff)
  qed
  have "(\<Sum>i < length ups. Weight (ups ! i)) = int (length js)"
    using js(1) assms(4) W by (simp add: total_weight_sum)
  then have eq: "int (count_list js i) = Weight (ups ! i)" if "i < length ups" for i
    using counts_are_weights [OF le js(2)] that by blast
  have "ups' = ups"
    using js(4) at eq new by (intro nth_equalityI) auto
  then show ?thesis using js eq by blast
qed

text \<open>A group of the OpenAI type with two upstreams, of weights 2 and 1.\<close>

definition demo_group :: Group where
  "demo_group = \<lparr>gID = 2, gName = ''g'', gChannelType = ''openai'', gUpstreams = ''u'',
     gTestModel = ''m'', gValidationEndpoint = [], EffectiveConfig = zero_settings\<lparr>MaxRetries := 1\<rparr>\<rparr>"

definition demo_decode :: "string \<Rightarrow> (string \<times> int) list option" where
  "demo_decode s = (if s = ''u'' then Some [(''a'', 2), (''b'', 0)] else None)"

definition demo_parse :: "string \<Rightarrow> url option" where
  "demo_parse s = Some \<lparr>u_base = s, u_path = ''/'', u_query = []\<rparr>"

definition demo_channel :: BaseChannel where
  "demo_channel = \<lparr>cName = ''openai'',
     Upstreams = [\<lparr>URL = the (demo_parse ''a''), Weight = 2, CurrentWeight = 0\<rparr>,
                  \<lparr>URL = the (demo_parse ''b''), Weight = 1, CurrentWeight = 0\<rparr>],
     HTTPClient = client_config (EffectiveConfig demo_group),
     StreamClient = stream_config (EffectiveConfig demo_group),
     TestModel = ''m'', ValidationEndpoint = [], channelType = ''openai'', groupUpstreams = ''u'',
     effectiveConfig = EffectiveConfig demo_group\<rparr>"

lemma demo_channel_new: "newBaseChannel demo_decode demo_parse ''openai'' demo_group = Inr demo_channel"
  by (simp add: newBaseChannel_def demo_decode_def demo_parse_def demo_channel_def demo_group_def)

theorem upstreams_weighted_fair_witness:
  "fst (run_ops (\<lambda>_::unit. getUpstreamURL) [(), (), ()] (Upstreams demo_channel)) =
    Upstreams demo_channel"
  using upstreams_weighted_fair [OF demo_channel_new refl _ refl _ prod.collapse [symmetric]]
  by (simp add: total_weight_def numeral_3_eq_3 demo_channel_def)

end
