(* ===== verification/RequestLog.thy ===== *)
theory RequestLog
  imports MemStore Settings
begin

text \<open>The request log service of src/internal/services/request_log_service.go: a request is
  recorded in the store and later written to the database in batches, together with the request
  counts of the keys and the hourly statistics of the groups. Database failures are an argument:
  batch \<^verbatim>\<open>i\<close> of a flush has an environment that says which statement of its transaction
  fails. JSON encoding and decoding of a log are the parameters \<^verbatim>\<open>enc\<close> and
  \<^verbatim>\<open>dec\<close>. Times are Unix nanoseconds; the counters stay far below 2^63 and are ints.\<close>

section \<open>State\<close>

record RequestLog =
  lID :: string
  lTimestamp :: int
  lGroupID :: nat
  lGroupName :: string
  lKeyValue :: string
  lModel :: string
  lIsSuccess :: bool
  lSourceIP :: string
  lStatusCode :: int
  lRequestPath :: string
  lDuration :: int
  lErrorMessage :: string
  lUserAgent :: string
  lRetries :: int
  lUpstreamAddr :: string
  lIsStream :: bool

text \<open>The columns of api_keys this service writes, and the three tables. The hourly table has a
  unique index on time and group.\<close>

record key_stat =
  ksKeyValue :: string
  ksGroupID :: nat
  ksRequestCount :: int
  ksLastUsedAt :: "int option"

record log_db =
  request_logs :: "RequestLog list"
  key_stats :: "key_stat list"
  hourly_stats :: "(int \<times> nat, int \<times> int) gomap"

record log_env =
  create_fails :: bool
  stats_fail :: bool
  hourly_fails :: bool
  commit_fails :: bool
  quoted_sql :: "key_stat list \<Rightarrow> key_stat list option"

datatype log_err =
    InsertFailed
  | StatsFailed
  | HourlyFailed
  | CommitFailed
  | MarshalFailed
  | LogStore store_err

record rls =
  rlstore :: mstore
  rldb :: log_db

definition RequestLogCachePrefix :: string where
  "RequestLogCachePrefix = ''request_log:''"

definition PendingLogKeysSet :: string where
  "PendingLogKeysSet = ''pending_log_keys''"

definition DefaultLogFlushBatchSize :: int where
  "DefaultLogFlushBatchSize = 200"

definition minute :: int where
  "minute = 60000000000"

definition hour :: int where
  "hour = 3600000000000"

section \<open>Writing a batch\<close>

definition count_key :: "RequestLog \<Rightarrow> (string, int) gomap \<Rightarrow> (string, int) gomap" where
  "count_key l m =
    (if lIsSuccess l \<and> lKeyValue l \<noteq> []
     then gput (lKeyValue l) ((case gget m (lKeyValue l) of None \<Rightarrow> 0 | Some n \<Rightarrow> n) + 1) m
     else m)"

definition keyStats :: "RequestLog list \<Rightarrow> (string, int) gomap" where
  "keyStats logs = fold count_key logs []"

text \<open>The statement is built by writing the key values between quotes. For values without quote
  and backslash it adds the counts to every row with such a key value, in whatever group; for
  others its meaning is that of the text that results, the parameter \<^verbatim>\<open>quoted_sql\<close>.\<close>

definition plain_text :: "string \<Rightarrow> bool" where
  "plain_text s \<longleftrightarrow> CHR 0x27 \<notin> set s \<and> CHR 0x5C \<notin> set s"

definition add_counts :: "int \<Rightarrow> (string, int) gomap \<Rightarrow> key_stat list \<Rightarrow> key_stat list" where
  "add_counts now stats rows =
    map (\<lambda>r. case gget stats (ksKeyValue r) of
               None \<Rightarrow> r
             | Some n \<Rightarrow> r\<lparr>ksRequestCount := ksRequestCount r + n, ksLastUsedAt := Some now\<rparr>) rows"

definition update_stats ::
  "log_env \<Rightarrow> int \<Rightarrow> (string, int) gomap \<Rightarrow> key_stat list \<Rightarrow> key_stat list option" where
  "update_stats env now stats rows =
    (if stats = [] then Some rows
     else if stats_fail env then None
     else if \<forall>e \<in> set stats. plain_text (fst e) then Some (add_counts now stats rows)
     else quoted_sql env rows)"

definition hour_key :: "RequestLog \<Rightarrow> int \<times> nat" where
  "hour_key l = (lTimestamp l - lTimestamp l mod hour, lGroupID l)"

definition count_hour ::
  "RequestLog \<Rightarrow> (int \<times> nat, int \<times> int) gomap \<Rightarrow> (int \<times> nat, int \<times> int) gomap" where
  "count_hour l m =
    (let (s, f) = (case gget m (hour_key l) of None \<Rightarrow> (0, 0) | Some c \<Rightarrow> c)
     in gput (hour_key l) (if lIsSuccess l then (s + 1, f) else (s, f + 1)) m)"

definition hourlyStats :: "RequestLog list \<Rightarrow> (int \<times> nat, int \<times> int) gomap" where
  "hourlyStats logs = fold count_hour logs []"

definition upsert_hour :: "(int \<times> nat) \<times> int \<times> int \<Rightarrow>
    (int \<times> nat, int \<times> int) gomap \<Rightarrow> (int \<times> nat, int \<times> int) gomap" where
  "upsert_hour e m =
    (case e of (k, s, f) \<Rightarrow>
      (case gget m k of
         None \<Rightarrow> gput k (s, f) m
       | Some (s0, f0) \<Rightarrow> gput k (s0 + s, f0 + f) m))"

text \<open>The primary key of request_logs is the id. \<^verbatim>\<open>ord\<close> is the order in which the map of
  hours is ranged over.\<close>

definition writeLogsToDB ::
  "((int \<times> nat) \<times> int \<times> int) iter \<Rightarrow> log_env \<Rightarrow> int \<Rightarrow> RequestLog list \<Rightarrow> log_db \<Rightarrow>
   log_db \<times> log_err option" where
  "writeLogsToDB ord env now logs db =
    (if logs = [] then (db, None)
     else if create_fails env \<or> \<not> distinct (map lID (request_logs db @ logs))
     then (db, Some InsertFailed)
     else
     (case update_stats env now (keyStats logs) (key_stats db) of
        None \<Rightarrow> (db, Some StatsFailed)
      | Some rows \<Rightarrow>
          if hourly_fails env then (db, Some HourlyFailed)
          else if commit_fails env then (db, Some CommitFailed)
          else (db\<lparr>request_logs := request_logs db @ logs, key_stats := rows,
                   hourly_stats := fold upsert_hour (ord (hourlyStats logs)) (hourly_stats db)\<rparr>, None)))"

section \<open>Recording\<close>

definition Record ::
  "(RequestLog \<Rightarrow> string option) \<Rightarrow> ((int \<times> nat) \<times> int \<times> int) iter \<Rightarrow> log_env \<Rightarrow> int \<Rightarrow> string \<Rightarrow> int \<Rightarrow>
   RequestLog \<Rightarrow> rls \<Rightarrow> rls \<times> log_err option" where
  "Record enc ord env intervalMinutes uuid now log0 st =
    (let log = log0\<lparr>lID := uuid, lTimestamp := now\<rparr> in
     if intervalMinutes = 0
     then (case writeLogsToDB ord env now [log] (rldb st) of (db, e) \<Rightarrow> (st\<lparr>rldb := db\<rparr>, e))
     else
     (let cacheKey = RequestLogCachePrefix @ lID log in
      case enc log of
        None \<Rightarrow> (st, Some MarshalFailed)
      | Some bytes \<Rightarrow>
          (case mem_Set now cacheKey bytes (i64 (i64 (intervalMinutes * 5) * minute)) (rlstore st) of
             (s, Inl e) \<Rightarrow> (st\<lparr>rlstore := s\<rparr>, Some (LogStore e))
           | (s, Inr _) \<Rightarrow>
               (case mem_SAdd PendingLogKeysSet [AStr cacheKey] s of
                  (s', Inl e) \<Rightarrow> (st\<lparr>rlstore := s'\<rparr>, Some (LogStore e))
                | (s', Inr _) \<Rightarrow> (st\<lparr>rlstore := s'\<rparr>, None)))))"

section \<open>Flushing\<close>

text \<open>The bodies of a batch: a key whose body is missing or does not decode is skipped.\<close>

fun read_logs :: "(string \<Rightarrow> RequestLog option) \<Rightarrow> int \<Rightarrow> string list \<Rightarrow> mstore \<Rightarrow>
    mstore \<times> RequestLog list \<times> string list" where
  "read_logs dec now [] s = (s, [], [])"
| "read_logs dec now (k # ks) s =
    (case mem_Get now k s of
       (s', Inl _) \<Rightarrow> read_logs dec now ks s'
     | (s', Inr bytes) \<Rightarrow>
         (case dec bytes of
            None \<Rightarrow> read_logs dec now ks s'
          | Some l \<Rightarrow>
              (case read_logs dec now ks s' of
                 (s'', logs, processed) \<Rightarrow> (s'', l # logs, k # processed))))"

text \<open>The loop, with fuel; it returns None only when the fuel runs out.\<close>

fun flush_loop :: "nat \<Rightarrow> string iter \<Rightarrow> ((int \<times> nat) \<times> int \<times> int) iter \<Rightarrow> (nat \<Rightarrow> log_env) \<Rightarrow>
    (string \<Rightarrow> RequestLog option) \<Rightarrow> int \<Rightarrow> nat \<Rightarrow> rls \<Rightarrow> rls option" where
  "flush_loop 0 so ord envs dec now i st = None"
| "flush_loop (Suc n) so ord envs dec now i st =
    (case mem_SPopN so PendingLogKeysSet DefaultLogFlushBatchSize (rlstore st) of
       (s, Inl _) \<Rightarrow> Some (st\<lparr>rlstore := s\<rparr>)
     | (s, Inr keys) \<Rightarrow>
         if keys = [] then Some (st\<lparr>rlstore := s\<rparr>)
         else
         (case read_logs dec now keys s of
            (s1, logs, processed) \<Rightarrow>
              if logs = [] then flush_loop n so ord envs dec now (Suc i) (st\<lparr>rlstore := s1\<rparr>)
              else
              (case writeLogsToDB ord (envs i) now logs (rldb st) of
                 (db, Some _) \<Rightarrow>
                   Some \<lparr>rlstore = fst (mem_SAdd PendingLogKeysSet (map AStr keys) s1), rldb = db\<rparr>
               | (db, None) \<Rightarrow>
                   flush_loop n so ord envs dec now (Suc i)
                     \<lparr>rlstore = fst (mem_Del processed s1), rldb = db\<rparr>)))"

definition pend_keys :: "mstore \<Rightarrow> string list" where
  "pend_keys s = (case s PendingLogKeysSet of Some (SetV S) \<Rightarrow> map fst S | _ \<Rightarrow> [])"

text \<open>Every iteration that goes on has taken a key out of the set, so one more iteration than
  there are keys is enough fuel.\<close>

definition flush :: "int \<Rightarrow> string iter \<Rightarrow> ((int \<times> nat) \<times> int \<times> int) iter \<Rightarrow> (nat \<Rightarrow> log_env) \<Rightarrow>
    (string \<Rightarrow> RequestLog option) \<Rightarrow> int \<Rightarrow> rls \<Rightarrow> rls option" where
  "flush intervalMinutes so ord envs dec now st =
    (if intervalMinutes = 0 then Some st
     else flush_loop (Suc (length (pend_keys (rlstore st)))) so ord envs dec now 0 st)"

section \<open>Pending logs\<close>

definition body :: "(string \<Rightarrow> RequestLog option) \<Rightarrow> int \<Rightarrow> mstore \<Rightarrow> string \<Rightarrow> RequestLog option" where
  "body dec now s k =
    (case s k of
       Some (ItemV it) \<Rightarrow> if expired now it then None else dec (item_value it)
     | _ \<Rightarrow> None)"

definition pending_logs :: "(string \<Rightarrow> RequestLog option) \<Rightarrow> int \<Rightarrow> mstore \<Rightarrow> RequestLog multiset" where
  "pending_logs dec now s = mset (List.map_filter (body dec now s) (pend_keys s))"

text \<open>All the logs the service holds: those in the table and those waiting.\<close>

definition held_logs :: "(string \<Rightarrow> RequestLog option) \<Rightarrow> int \<Rightarrow> rls \<Rightarrow> RequestLog multiset" where
  "held_logs dec now st = mset (request_logs (rldb st)) + pending_logs dec now (rlstore st)"

definition rl_inv :: "mstore \<Rightarrow> bool" where
  "rl_inv s \<longleftrightarrow> mem_inv s \<and> PendingLogKeysSet \<notin> set (pend_keys s) \<and>
     (s PendingLogKeysSet = None \<or> (\<exists>S. s PendingLogKeysSet = Some (SetV S)))"

lemma body_upd_pending [simp]:
  "k \<noteq> PendingLogKeysSet \<Longrightarrow> body dec now (s(PendingLogKeysSet \<mapsto> v)) k = body dec now s k"
  by (simp add: body_def)

lemma pend_ne: "rl_inv s \<Longrightarrow> k \<in> set (pend_keys s) \<Longrightarrow> k \<noteq> PendingLogKeysSet"
  by (auto simp: rl_inv_def)

lemma read_logs_spec:
  "read_logs dec now ks s = (s', logs, processed) \<Longrightarrow> rl_inv s \<Longrightarrow>
   logs = List.map_filter (body dec now s) ks \<and>
   processed = filter (\<lambda>k. body dec now s k \<noteq> None) ks \<and>
   body dec now s' = body dec now s \<and> pend_keys s' = pend_keys s \<and> rl_inv s'"
proof (induction ks arbitrary: s s' logs processed)
  case Nil
  then show ?case by (simp add: map_filter_simps)
next
  case (Cons k ks)
  note prems = Cons.prems
  show ?case
  proof (cases "\<exists>it. s k = Some (ItemV it)")
    case False
    then have "mem_Get now k s = (s, Inl (if s k = None then ErrNotFound else ErrTypeMismatch k))"
      "body dec now s k = None"
      by (auto simp: mem_Get_def body_def split: option.splits store_val.splits)
    then show ?thesis using Cons.IH [of s] prems by (simp add: map_filter_simps split: if_splits)
  next
    case True
    then obtain it where it: "s k = Some (ItemV it)" by blast
    show ?thesis
    proof (cases "expired now it")
      case True
      define t where "t = s(k := None)"
      have g: "mem_Get now k s = (t, Inl ErrNotFound)" using it True by (simp add: mem_Get_def t_def)
      have b: "body dec now t = body dec now s" using it True by (auto simp: body_def fun_eq_iff t_def)
      have "k \<noteq> PendingLogKeysSet" using prems(2) it by (auto simp: rl_inv_def)
      then have "pend_keys t = pend_keys s" "rl_inv t"
        using prems(2) by (auto simp: pend_keys_def rl_inv_def t_def)
      moreover have "body dec now s k = None" using it True by (simp add: body_def)
      ultimately show ?thesis
        using Cons.IH [of t] prems(1) g b by (simp add: map_filter_simps)
    next
      case False
      then have g: "mem_Get now k s = (s, Inr (item_value it))" and b: "body dec now s k = dec (item_value it)"
        using it by (simp_all add: mem_Get_def body_def)
      then show ?thesis
        using Cons.IH [of s] prems
        by (cases "dec (item_value it)") (auto simp: map_filter_simps split: prod.splits)
    qed
  qed
qed

lemma map_filter_cong:
  "(\<And>k. k \<in> set ks \<Longrightarrow> f k = g k) \<Longrightarrow> List.map_filter f ks = List.map_filter g ks"
  by (induction ks) (auto simp: map_filter_simps split: option.splits)

lemma mset_map_filter: "mset xs = mset ys \<Longrightarrow> mset (List.map_filter f xs) = mset (List.map_filter f ys)"
  by (simp add: List.map_filter_def)

lemma map_filter_append: "List.map_filter f (xs @ ys) = List.map_filter f xs @ List.map_filter f ys"
  by (simp add: List.map_filter_def)

text \<open>Taking a batch: the popped keys and the remaining ones are the pending ones.\<close>

lemma pop_batch:
  assumes "rl_inv s" "iter_order so"
  obtains keys s1 where
    "mem_SPopN so PendingLogKeysSet DefaultLogFlushBatchSize s = (s1, Inr keys)"
    "mset (pend_keys s) = mset keys + mset (pend_keys s1)" "rl_inv s1"
    "\<And>k. k \<in> set (pend_keys s) \<Longrightarrow> body dec now s1 k = body dec now s k"
    "keys = [] \<Longrightarrow> pend_keys s = []"
proof (cases "s PendingLogKeysSet")
  case None
  then show thesis
    using that [of s "[]"] assms(1) by (auto simp: mem_SPopN_def pend_keys_def)
next
  case (Some v)
  then obtain S where S: "s PendingLogKeysSet = Some (SetV S)" using assms(1) by (auto simp: rl_inv_def)
  have inv: "mem_inv s" using assms(1) by (simp add: rl_inv_def)
  obtain s1 r where pop: "mem_SPopN so PendingLogKeysSet DefaultLogFlushBatchSize s = (s1, r)"
    by (cases "mem_SPopN so PendingLogKeysSet DefaultLogFlushBatchSize s")
  obtain xs S' where x: "r = Inr xs" "s1 = s(PendingLogKeysSet \<mapsto> SetV S')" "distinct xs"
    "int (length xs) = min DefaultLogFlushBatchSize (int (length S))" "set xs \<subseteq> fst ` set S"
    "fst ` set S' = fst ` set S - set xs"
    using mem_spopn_exact [OF assms(2) inv S _ pop] by (auto simp: DefaultLogFlushBatchSize_def)
  have inv1: "mem_inv s1"
    using mem_sim_SPopN [OF inv] pop x by simp
  have d: "distinct (map fst S)" "distinct (map fst S')"
    using mem_inv_at(2) [OF inv S] mem_inv_at(2) [OF inv1, of PendingLogKeysSet S'] x(2)
    by (simp_all add: gomap_ok_def)
  have p: "pend_keys s = map fst S" "pend_keys s1 = map fst S'" using S x(2) by (simp_all add: pend_keys_def)
  have "mset (map fst S) = mset (xs @ map fst S')"
    using d x(3,5,6) by (intro set_eq_iff_mset_eq_distinct [THEN iffD1]) (auto simp flip: set_map)
  moreover have "keys = [] \<Longrightarrow> xs = keys \<Longrightarrow> pend_keys s = []" for keys
    using x(4) p by (auto simp: DefaultLogFlushBatchSize_def min_def split: if_splits)
  moreover have "rl_inv s1" using assms(1) inv1 x p by (auto simp: rl_inv_def)
  moreover have "body dec now s1 k = body dec now s k" if "k \<in> set (pend_keys s)" for k
    using pend_ne [OF assms(1) that] x(2) by simp
  ultimately show thesis using that [of s1 xs] pop x(1) p by simp
qed

lemma pend_keys_distinct: "rl_inv s \<Longrightarrow> distinct (pend_keys s)"
  by (auto simp: rl_inv_def pend_keys_def gomap_ok_def dest: mem_inv_at(2))

text \<open>Deleting bodies leaves the set and the other bodies alone.\<close>

lemma del_bodies:
  "PendingLogKeysSet \<notin> set ks \<Longrightarrow> rl_inv s \<Longrightarrow>
   rl_inv (fst (mem_Del ks s)) \<and> pend_keys (fst (mem_Del ks s)) = pend_keys s \<and>
   (\<forall>k. k \<notin> set ks \<longrightarrow> body dec now (fst (mem_Del ks s)) k = body dec now s k)"
proof (induction ks arbitrary: s)
  case (Cons k ks)
  define t where "t = s(k := None)"
  have "rl_inv t" "pend_keys t = pend_keys s" "\<And>k'. k' \<noteq> k \<Longrightarrow> body dec now t k' = body dec now s k'"
    using Cons.prems by (auto simp: rl_inv_def pend_keys_def t_def body_def)
  moreover have "fst (mem_Del (k # ks) s) = fst (mem_Del ks t)" by (simp add: mem_Del_def t_def)
  ultimately show ?case using Cons.IH [of t] Cons.prems(1) by auto
qed (simp add: mem_Del_def)

text \<open>Putting a batch back.\<close>

lemma readd_batch:
  assumes "rl_inv s" "distinct (keys @ pend_keys s)" "PendingLogKeysSet \<notin> set keys"
  shows "rl_inv (fst (mem_SAdd PendingLogKeysSet (map AStr keys) s)) \<and>
    mset (pend_keys (fst (mem_SAdd PendingLogKeysSet (map AStr keys) s))) =
      mset keys + mset (pend_keys s) \<and>
    (\<forall>k. k \<noteq> PendingLogKeysSet \<longrightarrow>
      body dec now (fst (mem_SAdd PendingLogKeysSet (map AStr keys) s)) k = body dec now s k)"
proof -
  obtain S where S: "pend_keys s = map fst S" "gomap_ok S" and
    e: "fst (mem_SAdd PendingLogKeysSet (map AStr keys) s) =
      s(PendingLogKeysSet \<mapsto> SetV (set_put (map AStr keys) S))"
    using assms(1) mem_inv_at(2) [of s PendingLogKeysSet]
    by (auto simp: rl_inv_def pend_keys_def mem_SAdd_def)
  have ok: "gomap_ok (set_put (map AStr keys) S)" using S(2) by simp
  have im: "fst ` set (set_put (map AStr keys) S) = fst ` set S \<union> set keys"
    by (simp add: image_image)
  have "mset (map fst (set_put (map AStr keys) S)) = mset (keys @ map fst S)"
    using assms(2) S(1) ok im
    by (intro set_eq_iff_mset_eq_distinct [THEN iffD1]) (auto simp: gomap_ok_def simp flip: set_map)
  then have ms: "mset (map fst (set_put (map AStr keys) S)) = mset keys + mset (map fst S)" by simp
  have "PendingLogKeysSet \<notin> fst ` set S"
    using pend_ne [OF assms(1)] S(1) by (metis list.set_map)
  then have "PendingLogKeysSet \<notin> set (map fst (set_put (map AStr keys) S))"
    using assms(3) im by (simp add: image_iff)
  then show ?thesis
    using assms(1) S ok ms unfolding e by (auto simp: rl_inv_def pend_keys_def)
qed

lemma write_spec:
  "writeLogsToDB ord env now logs db = (db', e) \<Longrightarrow>
   (e = None \<longrightarrow> request_logs db' = request_logs db @ logs) \<and> (e \<noteq> None \<longrightarrow> db' = db)"
  by (auto simp: writeLogsToDB_def split: if_splits option.splits)

definition env_works :: "log_env \<Rightarrow> bool" where
  "env_works env \<longleftrightarrow>
     \<not> create_fails env \<and> \<not> stats_fail env \<and> \<not> hourly_fails env \<and> \<not> commit_fails env"

text \<open>The logs held can all be written: their ids differ, their key values need no quoting.\<close>

definition writable :: "RequestLog multiset \<Rightarrow> bool" where
  "writable M \<longleftrightarrow> (\<forall>x. count (image_mset lID M) x \<le> 1) \<and> (\<forall>l \<in># M. plain_text (lKeyValue l))"

lemma keyStats_keys: "fst ` set (keyStats logs) \<subseteq> lKeyValue ` set logs"
proof -
  have "fst ` set (fold count_key logs m) \<subseteq> fst ` set m \<union> lKeyValue ` set logs" for m
  proof (induction logs arbitrary: m)
    case (Cons l logs)
    have "fst ` set (count_key l m) \<subseteq> insert (lKeyValue l) (fst ` set m)"
      by (auto simp: count_key_def dest!: in_set_gput)
    then have "fst ` set (count_key l m) \<union> lKeyValue ` set logs \<subseteq>
        fst ` set m \<union> lKeyValue ` set (l # logs)" by auto
    then show ?case using subset_trans [OF Cons.IH [of "count_key l m"]] by simp
  qed simp
  from this [of "[]"] show ?thesis by (simp add: keyStats_def)
qed

lemma count_le_distinct: "(\<And>x. count (mset xs) x \<le> 1) \<Longrightarrow> distinct xs"
proof (induction xs)
  case (Cons a xs)
  have "count (mset xs) a = 0" using Cons.prems [of a] by simp
  moreover have "count (mset xs) x \<le> 1" for x
    by (rule le_trans [OF _ Cons.prems [of x]]) simp
  ultimately show ?case using Cons.IH by (simp add: count_eq_zero_iff)
qed simp

lemma write_works:
  assumes "env_works env" "writable M" "mset (request_logs db @ logs) \<subseteq># M"
  shows "snd (writeLogsToDB ord env now logs db) = None"
proof -
  have "image_mset lID (mset (request_logs db @ logs)) \<subseteq># image_mset lID M"
    using assms(3) by (rule image_mset_subseteq_mono)
  then have "count (mset (map lID (request_logs db @ logs))) x \<le> 1" for x
    using assms(2) mset_subset_eq_count [of "mset (map lID (request_logs db @ logs))" "image_mset lID M" x]
    by (auto simp: writable_def intro: order_trans)
  then have "distinct (map lID (request_logs db @ logs))"
    by (rule count_le_distinct)
  moreover have "plain_text (fst e)" if "e \<in> set (keyStats logs)" for e
  proof -
    have "fst e \<in> lKeyValue ` set logs" using keyStats_keys [of logs] that by blast
    then obtain l where l: "l \<in> set logs" "fst e = lKeyValue l" by blast
    have "l \<in># M" using mset_subset_eqD [OF assms(3)] l(1) by simp
    then show ?thesis using assms(2) l(2) by (simp add: writable_def)
  qed
  ultimately show ?thesis
    using assms(1) by (simp add: writeLogsToDB_def env_works_def update_stats_def)
qed

lemma flush_loop_conserves:
  assumes "iter_order so"
  shows "rl_inv (rlstore st) \<Longrightarrow> length (pend_keys (rlstore st)) < n \<Longrightarrow>
    \<exists>st'. flush_loop n so ord envs dec now i st = Some st' \<and> rl_inv (rlstore st') \<and>
      held_logs dec now st' = held_logs dec now st \<and>
      ((\<forall>j. env_works (envs j)) \<longrightarrow> writable (held_logs dec now st) \<longrightarrow> pend_keys (rlstore st') = [])"
proof (induction n arbitrary: i st)
  case (Suc n)
  let ?s = "rlstore st"
  obtain keys s1 where pop: "mem_SPopN so PendingLogKeysSet DefaultLogFlushBatchSize ?s = (s1, Inr keys)"
    and ms: "mset (pend_keys ?s) = mset keys + mset (pend_keys s1)" and inv1: "rl_inv s1"
    and b1: "\<And>k. k \<in> set (pend_keys ?s) \<Longrightarrow> body dec now s1 k = body dec now ?s k"
    and e: "keys = [] \<Longrightarrow> pend_keys ?s = []"
    by (rule pop_batch [OF Suc.prems(1) assms, where dec = dec and now = now]) (rule that)
  show ?case
  proof (cases "keys = []")
    case True
    then show ?thesis
      using pop e ms inv1 by (simp add: held_logs_def pending_logs_def map_filter_simps)
  next
    case False
    obtain s2 logs processed where rd: "read_logs dec now keys s1 = (s2, logs, processed)"
      by (metis prod_cases3)
    note r = read_logs_spec [OF rd inv1]
    have d: "distinct (keys @ pend_keys s1)"
      using ms pend_keys_distinct [OF Suc.prems(1)] mset_eq_imp_distinct_iff mset_append by metis
    have sub: "set keys \<union> set (pend_keys s1) = set (pend_keys ?s)"
      using ms by (metis set_mset_mset set_mset_union)
    have np: "PendingLogKeysSet \<notin> set keys" using sub Suc.prems(1) by (auto simp: rl_inv_def)
    have pl: "pending_logs dec now ?s = mset logs + pending_logs dec now s2"
    proof -
      have "List.map_filter (body dec now ?s) (keys @ pend_keys s1) =
          List.map_filter (body dec now s1) (keys @ pend_keys s1)"
        by (rule map_filter_cong) (use b1 sub in auto)
      then show ?thesis
        using r ms mset_map_filter [of "pend_keys ?s" "keys @ pend_keys s1" "body dec now ?s"]
        by (simp add: pending_logs_def map_filter_append)
    qed
    have short: "length (pend_keys s2) < n"
    proof -
      have "length (pend_keys ?s) = length keys + length (pend_keys s1)"
        using arg_cong [OF ms, of size] by simp
      then show ?thesis using Suc.prems(2) False r by (cases keys) auto
    qed
    show ?thesis
    proof (cases "logs = []")
      case True
      let ?t = "st\<lparr>rlstore := s2\<rparr>"
      have "held_logs dec now ?t = held_logs dec now st" using pl True by (simp add: held_logs_def)
      then show ?thesis
        using Suc.IH [of ?t "Suc i"] short r pop False rd True by simp
    next
      case logs: False
      obtain db w where wr: "writeLogsToDB ord (envs i) now logs (rldb st) = (db, w)"
        by (cases "writeLogsToDB ord (envs i) now logs (rldb st)")
      show ?thesis
      proof (cases w)
        case None
        let ?t = "\<lparr>rlstore = fst (mem_Del processed s2), rldb = db\<rparr>"
        have "PendingLogKeysSet \<notin> set processed" "set processed \<subseteq> set keys" using r np by auto
        note dl = del_bodies [OF this(1), of s2 dec now]
        have "pending_logs dec now (fst (mem_Del processed s2)) = pending_logs dec now s2"
        proof -
          have "List.map_filter (body dec now (fst (mem_Del processed s2))) (pend_keys s2) =
              List.map_filter (body dec now s2) (pend_keys s2)"
            by (rule map_filter_cong) (use dl r d \<open>set processed \<subseteq> set keys\<close> in auto)
          then show ?thesis using dl r by (simp add: pending_logs_def)
        qed
        then have h: "held_logs dec now ?t = held_logs dec now st"
          using pl write_spec [OF wr] None by (simp add: held_logs_def)
        show ?thesis
          using Suc.IH [of ?t "Suc i"] short r dl pop False rd logs wr None h by simp
      next
        case (Some x)
        let ?t = "\<lparr>rlstore = fst (mem_SAdd PendingLogKeysSet (map AStr keys) s2), rldb = db\<rparr>"
        have "distinct (keys @ pend_keys s2)" using d r by simp
        note ra = readd_batch [OF _ this np, where dec = dec and now = now]
        have "pending_logs dec now (rlstore ?t) = mset logs + pending_logs dec now s2"
        proof -
          have "mset (List.map_filter (body dec now (rlstore ?t)) (pend_keys (rlstore ?t))) =
              mset (List.map_filter (body dec now (rlstore ?t)) (keys @ pend_keys s2))"
            using ra r by (intro mset_map_filter) simp
          also have "List.map_filter (body dec now (rlstore ?t)) (keys @ pend_keys s2) =
              List.map_filter (body dec now s2) (keys @ pend_keys s2)"
          proof (rule map_filter_cong)
            fix k assume "k \<in> set (keys @ pend_keys s2)"
            then have "k \<noteq> PendingLogKeysSet" using np pend_ne [OF inv1] r by auto
            then show "body dec now (rlstore ?t) k = body dec now s2 k" using ra r by simp
          qed
          finally show ?thesis using r by (simp add: pending_logs_def map_filter_append)
        qed
        then have "held_logs dec now ?t = held_logs dec now st"
          using pl write_spec [OF wr] Some by (simp add: held_logs_def)
        moreover have "\<not> (env_works (envs i) \<and> writable (held_logs dec now st))"
        proof
          assume a: "env_works (envs i) \<and> writable (held_logs dec now st)"
          have "mset (request_logs (rldb st) @ logs) \<subseteq># held_logs dec now st"
            using pl by (simp add: held_logs_def)
          then have "w = None" using write_works a wr by (metis snd_conv)
          then show False using Some by simp
        qed
        ultimately show ?thesis
          using pop False rd logs wr Some ra r by auto
      qed
    qed
  qed
qed simp

text \<open>C15: A flush always comes to an end and loses nothing: whatever statements fail in whatever
  batch, the logs in the table and the readable logs still waiting are together the ones there
  were before. When no statement fails, no log is left waiting, provided the ids differ and the
  key values need no quoting.\<close>

theorem flush_conserves:
  assumes "rl_inv (rlstore st)" "iter_order so" "intervalMinutes \<noteq> 0"
  shows "\<exists>st'. flush intervalMinutes so ord envs dec now st = Some st' \<and>
    held_logs dec now st' = held_logs dec now st \<and>
    ((\<forall>j. env_works (envs j)) \<and> writable (held_logs dec now st) \<longrightarrow>
      pend_keys (rlstore st') = [] \<and> mset (request_logs (rldb st')) = held_logs dec now st)"
proof -
  obtain st' where fl: "flush intervalMinutes so ord envs dec now st = Some st'"
    "held_logs dec now st' = held_logs dec now st"
    "(\<forall>j. env_works (envs j)) \<longrightarrow> writable (held_logs dec now st) \<longrightarrow> pend_keys (rlstore st') = []"
    using flush_loop_conserves [OF assms(2,1), where n = "Suc (length (pend_keys (rlstore st)))"
        and ord = ord and envs = envs and dec = dec and now = now and i = 0, OF lessI] assms(3)
    unfolding flush_def if_not_P [OF assms(3)] by blast
  have "mset (request_logs (rldb st')) = held_logs dec now st'" if "pend_keys (rlstore st') = []"
    using that by (simp add: held_logs_def pending_logs_def map_filter_simps)
  then show ?thesis using fl by auto
qed

text \<open>One log waits, and the commit of its batch fails.\<close>

definition demo_log :: RequestLog where
  "demo_log = \<lparr>lID = ''1'', lTimestamp = 0, lGroupID = 2, lGroupName = ''g'', lKeyValue = ''k'',
     lModel = ''m'', lIsSuccess = True, lSourceIP = [], lStatusCode = 200, lRequestPath = ''/'',
     lDuration = 1, lErrorMessage = [], lUserAgent = [], lRetries = 1, lUpstreamAddr = [],
     lIsStream = False\<rparr>"

definition demo_dec :: "string \<Rightarrow> RequestLog option" where
  "demo_dec b = (if b = ''b'' then Some demo_log else None)"

definition demo_env :: "bool \<Rightarrow> log_env" where
  "demo_env c = \<lparr>create_fails = False, stats_fail = False, hourly_fails = False, commit_fails = c,
     quoted_sql = (\<lambda>_. None)\<rparr>"

definition demo_db :: log_db where
  "demo_db = \<lparr>request_logs = [], key_stats = [\<lparr>ksKeyValue = ''k'', ksGroupID = 2,
     ksRequestCount = 5, ksLastUsedAt = None\<rparr>], hourly_stats = []\<rparr>"

definition demo_rls :: rls where
  "demo_rls = \<lparr>rlstore = [PendingLogKeysSet \<mapsto> SetV [(''request_log:1'', ())],
     ''request_log:1'' \<mapsto> ItemV \<lparr>item_value = ''b'', expiresAt = 50\<rparr>], rldb = demo_db\<rparr>"

theorem flush_conserves_witness:
  "\<exists>st'. flush 1 id id (\<lambda>_. demo_env True) demo_dec 10 demo_rls = Some st' \<and>
    held_logs demo_dec 10 st' = {#demo_log#}"
proof -
  have ne: "''request_log:1'' \<noteq> PendingLogKeysSet" by (simp add: PendingLogKeysSet_def)
  have p: "pend_keys (rlstore demo_rls) = [''request_log:1'']"
    using ne by (simp add: pend_keys_def demo_rls_def)
  have "rl_inv (rlstore demo_rls)"
    using p ne by (auto simp: rl_inv_def mem_inv_def demo_rls_def)
  moreover have "held_logs demo_dec 10 demo_rls = {#demo_log#}"
    by (simp add: held_logs_def pending_logs_def p map_filter_simps body_def)
      (simp add: demo_rls_def demo_db_def expired_def demo_dec_def)
  ultimately show ?thesis
    using flush_conserves [of demo_rls id 1 id "\<lambda>_. demo_env True" demo_dec 10] by auto
qed

section \<open>Counts\<close>

definition successes :: "string \<Rightarrow> RequestLog list \<Rightarrow> int" where
  "successes v logs = int (length (filter (\<lambda>l. lIsSuccess l \<and> lKeyValue l = v) logs))"

definition or_zero :: "int option \<Rightarrow> int" where
  "or_zero c = (case c of None \<Rightarrow> 0 | Some n \<Rightarrow> n)"

lemma keyStats_count:
  "gget (keyStats logs) v = (if v = [] \<or> successes v logs = 0 then None else Some (successes v logs))"
proof -
  have "gget (fold count_key logs m) v =
      (if v = [] \<or> successes v logs = 0 then gget m v else Some (or_zero (gget m v) + successes v logs))"
    for m
  proof (induction logs arbitrary: m)
    case (Cons l logs)
    have n: "0 \<le> successes v logs" by (simp add: successes_def)
    have "gget (count_key l m) v =
        (if lIsSuccess l \<and> lKeyValue l = v \<and> v \<noteq> [] then Some (or_zero (gget m v) + 1) else gget m v)"
      by (auto simp: count_key_def or_zero_def split: option.splits)
    moreover have "successes v (l # logs) =
        successes v logs + (if lIsSuccess l \<and> lKeyValue l = v then 1 else 0)"
      by (simp add: successes_def)
    ultimately show ?case using Cons.IH [of "count_key l m"] n by (auto simp: or_zero_def)
  qed (simp add: successes_def)
  from this [of "[]"] show ?thesis by (simp add: keyStats_def or_zero_def)
qed

definition in_hour :: "bool \<Rightarrow> int \<times> nat \<Rightarrow> RequestLog list \<Rightarrow> int" where
  "in_hour ok k logs = int (length (filter (\<lambda>l. lIsSuccess l = ok \<and> hour_key l = k) logs))"

definition hour_count :: "(int \<times> nat, int \<times> int) gomap \<Rightarrow> int \<times> nat \<Rightarrow> int \<times> int" where
  "hour_count m k = (case gget m k of None \<Rightarrow> (0, 0) | Some c \<Rightarrow> c)"

definition plus2 :: "int \<times> int \<Rightarrow> int \<times> int \<Rightarrow> int \<times> int" where
  "plus2 a b = (fst a + fst b, snd a + snd b)"

lemma hourlyStats_count: "hour_count (hourlyStats logs) k = (in_hour True k logs, in_hour False k logs)"
proof -
  have "hour_count (fold count_hour logs m) k =
      plus2 (hour_count m k) (in_hour True k logs, in_hour False k logs)" for m
  proof (induction logs arbitrary: m)
    case (Cons l logs)
    have "hour_count (count_hour l m) k = plus2 (hour_count m k)
        (if hour_key l = k then if lIsSuccess l then (1, 0) else (0, 1) else (0, 0))"
      by (auto simp: hour_count_def count_hour_def plus2_def split: prod.splits option.splits)
    then show ?case using Cons.IH [of "count_hour l m"] by (auto simp: plus2_def in_hour_def)
  qed (simp add: plus2_def in_hour_def)
  from this [of "[]"] show ?thesis by (simp add: hourlyStats_def hour_count_def plus2_def)
qed

lemma upserts_count:
  "gomap_ok H \<Longrightarrow> hour_count (fold upsert_hour H m) k = plus2 (hour_count m k) (hour_count H k)"
proof (induction H arbitrary: m)
  case (Cons e H)
  obtain k' c where e: "e = (k', c)" by (cases e)
  have H: "gomap_ok H" "gget H k' = None"
    using Cons.prems e by (auto simp: gomap_ok_def map_of_eq_None_iff)
  have "hour_count (upsert_hour e m) k = plus2 (hour_count m k) (if k = k' then c else (0, 0))"
    using e by (auto simp: hour_count_def upsert_hour_def plus2_def split: prod.splits option.splits)
  then show ?case using Cons.IH [OF H(1)] e H(2) by (auto simp: plus2_def hour_count_def)
qed (simp add: plus2_def hour_count_def)

lemma hourlyStats_ok: "gomap_ok (hourlyStats logs)"
proof -
  have "gomap_ok m \<Longrightarrow> gomap_ok (fold count_hour logs m)" for m
    by (induction logs arbitrary: m) (auto simp: count_hour_def split: prod.splits)
  from this [of "[]"] show ?thesis by (simp add: hourlyStats_def)
qed

text \<open>A batch that is written is counted exactly: every row of api_keys with the key value of a
  successful log, in whatever group, gains the number of such logs and the time of the write, the
  other rows stay, and every hour and group gains its numbers of successes and failures.\<close>

lemma written_batch_counted:
  assumes "writeLogsToDB ord env now logs db = (db', None)" "iter_order ord"
    and "\<forall>l \<in> set logs. plain_text (lKeyValue l)"
  shows "request_logs db' = request_logs db @ logs \<and>
    key_stats db' = map (\<lambda>r. if ksKeyValue r = [] \<or> successes (ksKeyValue r) logs = 0 then r
      else r\<lparr>ksRequestCount := ksRequestCount r + successes (ksKeyValue r) logs,
             ksLastUsedAt := Some now\<rparr>) (key_stats db) \<and>
    (\<forall>k. hour_count (hourly_stats db') k =
      plus2 (hour_count (hourly_stats db) k) (in_hour True k logs, in_hour False k logs))"
proof (cases "logs = []")
  case True
  then show ?thesis
    using assms(1) by (simp add: writeLogsToDB_def successes_def in_hour_def plus2_def)
next
  case False
  have pt: "\<forall>e \<in> set (keyStats logs). plain_text (fst e)"
    using assms(3) keyStats_keys [of logs] by fastforce
  obtain rows where rows: "update_stats env now (keyStats logs) (key_stats db) = Some rows"
    and db': "db' = db\<lparr>request_logs := request_logs db @ logs, key_stats := rows,
        hourly_stats := fold upsert_hour (ord (hourlyStats logs)) (hourly_stats db)\<rparr>"
    using assms(1) False by (auto simp: writeLogsToDB_def split: if_splits option.splits)
  have "rows = add_counts now (keyStats logs) (key_stats db)"
    using rows pt by (auto simp: update_stats_def add_counts_def split: if_splits)
  then have "rows = map (\<lambda>r. if ksKeyValue r = [] \<or> successes (ksKeyValue r) logs = 0 then r
      else r\<lparr>ksRequestCount := ksRequestCount r + successes (ksKeyValue r) logs,
             ksLastUsedAt := Some now\<rparr>) (key_stats db)"
    by (simp add: add_counts_def keyStats_count)
  moreover have "hour_count (fold upsert_hour (ord (hourlyStats logs)) m) k =
      plus2 (hour_count m k) (in_hour True k logs, in_hour False k logs)" for m k
    using upserts_count [OF iter_order_map_of(1) [OF assms(2) hourlyStats_ok]]
      iter_order_map_of(2) [OF assms(2) hourlyStats_ok] hourlyStats_count [of logs k]
    by (simp add: hour_count_def)
  ultimately show ?thesis using db' by simp
qed

lemma written_batch_counted_demo:
  "key_stats (fst (writeLogsToDB id (demo_env False) 9 [demo_log] demo_db)) =
    [\<lparr>ksKeyValue = ''k'', ksGroupID = 2, ksRequestCount = 6, ksLastUsedAt = Some 9\<rparr>]"
proof -
  have "writeLogsToDB id (demo_env False) 9 [demo_log] demo_db =
      (fst (writeLogsToDB id (demo_env False) 9 [demo_log] demo_db), None)"
    by (simp add: writeLogsToDB_def update_stats_def keyStats_def count_key_def plain_text_def
        demo_env_def demo_log_def demo_db_def)
  from written_batch_counted [OF this] show ?thesis
    by (simp add: plain_text_def demo_log_def successes_def demo_db_def)
qed

section \<open>Recording adds exactly the log\<close>

lemma record_held:
  assumes "rl_inv (rlstore st)" "Record enc ord env intervalMinutes uuid now log0 st = (st', None)"
    and "log = log0\<lparr>lID := uuid, lTimestamp := now\<rparr>" "intervalMinutes \<noteq> 0"
    and "\<And>b. enc log = Some b \<Longrightarrow> dec b = Some log"
    and "RequestLogCachePrefix @ uuid \<notin> set (pend_keys (rlstore st))"
    and "\<not> expired t \<lparr>item_value = [], expiresAt = expiry now (i64 (i64 (intervalMinutes * 5) * minute))\<rparr>"
  shows "rl_inv (rlstore st') \<and> held_logs dec t st' = add_mset log (held_logs dec t st)"
proof -
  let ?k = "RequestLogCachePrefix @ uuid"
  let ?s = "rlstore st"
  let ?ttl = "i64 (i64 (intervalMinutes * 5) * minute)"
  have ne: "?k \<noteq> PendingLogKeysSet" by (simp add: RequestLogCachePrefix_def PendingLogKeysSet_def)
  obtain b where b: "enc log = Some b"
    using assms(2-4) by (auto simp: Record_def Let_def split: option.splits)
  define s1 where "s1 = ?s(?k \<mapsto> ItemV \<lparr>item_value = b, expiresAt = expiry now ?ttl\<rparr>)"
  obtain S where S: "pend_keys ?s = map fst S" "gomap_ok S" and
    a: "mem_SAdd PendingLogKeysSet [AStr ?k] s1 = (s1(PendingLogKeysSet \<mapsto> SetV (gput ?k () S)), Inr ())"
    using assms(1) ne mem_inv_at(2) [of ?s PendingLogKeysSet]
    by (auto simp: rl_inv_def pend_keys_def mem_SAdd_def s1_def set_put_def)
  have st': "st' = st\<lparr>rlstore := s1(PendingLogKeysSet \<mapsto> SetV (gput ?k () S))\<rparr>"
    using assms(2-4) b a by (simp add: Record_def Let_def mem_Set_def s1_def)
  have fresh: "gget S ?k = None"
    using assms(6) S(1) by (simp add: map_of_eq_None_iff)
  have "gput ?k () S = S @ [(?k, ())]" if "gget S ?k = None" for S :: "(string, unit) gomap"
    using that by (induction S) (auto split: if_splits)
  then have p: "pend_keys (rlstore st') = pend_keys ?s @ [?k]"
    using fresh S(1) st' by (simp add: pend_keys_def)
  have inv: "rl_inv (rlstore st')"
    using assms(1) S ne p st' by (auto simp: rl_inv_def s1_def)
  have "body dec t (rlstore st') ?k = Some log"
    using ne st' assms(5) [OF b] assms(7) by (simp add: body_def s1_def expired_def)
  moreover have "List.map_filter (body dec t (rlstore st')) (pend_keys ?s) =
      List.map_filter (body dec t ?s) (pend_keys ?s)"
  proof (rule map_filter_cong)
    fix k assume "k \<in> set (pend_keys ?s)"
    then have "k \<noteq> ?k" "k \<noteq> PendingLogKeysSet" using assms(6) pend_ne [OF assms(1)] by auto
    then show "body dec t (rlstore st') k = body dec t ?s k" using st' by (simp add: body_def s1_def)
  qed
  ultimately have "pending_logs dec t (rlstore st') = add_mset log (pending_logs dec t ?s)"
    by (simp add: pending_logs_def p map_filter_append map_filter_simps)
  then show ?thesis using inv st' by (simp add: held_logs_def)
qed

end
