(* ===== verification/RateLimit.thy ===== *)
theory RateLimit
  imports GoText
begin

text \<open>Recognition of rate-limit errors and of their retry time: src/internal/errors/rate_limit.go.
  Text is a list of bytes in UTF-8. Lower-casing and trimming are those of ASCII; letters with case
  outside ASCII are left as they are (no keyword contains one; the one character outside ASCII that
  Go lowers to a letter of a keyword, the Kelvin sign, is not modelled). Durations are int64 nanoseconds
  with wrap-around. The date format of a Retry-After header is the parameter \<^verbatim>\<open>until\<close>:
  http.ParseTime followed by time.Until.\<close>

section \<open>Recognition\<close>

definition rateLimitKeywords :: "string list" where
  "rateLimitKeywords =
  [''rate limit'', ''rate_limit'', ''rate-limit'', ''ratelimit'', ''too many requests'',
   ''quota exceeded'', ''quota_exceeded'', ''quota-exceeded'', ''quotaexceeded'',
   ''requests per minute'', ''requests per day'', ''requests per hour'',
   ''requests per second'', ''rpm exceeded'', ''rph exceeded'', ''rpd exceeded'',
   ''rps exceeded'', ''daily limit'', ''monthly limit'', ''hourly limit'', ''usage limit'',
   ''api limit'', ''throttled'', ''throttling'', ''rate limiting'', ''rate-limiting'',
   ''ratelimiting'', ''limited'', ''exceeded'', ''overload'', ''busy'', ''openai rate limit'',
   ''anthropic rate limit'', ''google quota'', ''azure rate limit'', ''aws throttling'',
   ''cloudflare rate limit'', ''error_code_429'', ''error_429'', ''http_429'', ''status_429'',
   [CHR 0xE8, CHR 0xAF, CHR 0xB7, CHR 0xE6, CHR 0xB1, CHR 0x82, CHR 0xE8, CHR 0xBF, CHR 0x87, CHR 0xE4, CHR 0xBA, CHR 0x8E, CHR 0xE9, CHR 0xA2, CHR 0x91, CHR 0xE7, CHR 0xB9, CHR 0x81],
   [CHR 0xE8, CHR 0xAE, CHR 0xBF, CHR 0xE9, CHR 0x97, CHR 0xAE, CHR 0xE9, CHR 0xA2, CHR 0x91, CHR 0xE7, CHR 0x8E, CHR 0x87, CHR 0xE9, CHR 0x99, CHR 0x90, CHR 0xE5, CHR 0x88, CHR 0xB6],
   [CHR 0xE9, CHR 0x85, CHR 0x8D, CHR 0xE9, CHR 0xA2, CHR 0x9D, CHR 0xE5, CHR 0xB7, CHR 0xB2, CHR 0xE7, CHR 0x94, CHR 0xA8, CHR 0xE5, CHR 0xAE, CHR 0x8C],
   [CHR 0xE8, CHR 0xAF, CHR 0xB7, CHR 0xE6, CHR 0xB1, CHR 0x82, CHR 0xE6, CHR 0xAC, CHR 0xA1, CHR 0xE6, CHR 0x95, CHR 0xB0, CHR 0xE8, CHR 0xB6, CHR 0x85, CHR 0xE9, CHR 0x99, CHR 0x90],
   [CHR 0xE6, CHR 0xB5, CHR 0x81, CHR 0xE9, CHR 0x87, CHR 0x8F, CHR 0xE9, CHR 0x99, CHR 0x90, CHR 0xE5, CHR 0x88, CHR 0xB6],
   [CHR 0xE9, CHR 0xA2, CHR 0x91, CHR 0xE7, CHR 0x8E, CHR 0x87, CHR 0xE9, CHR 0x99, CHR 0x90, CHR 0xE5, CHR 0x88, CHR 0xB6]]"

definition jsonKeywords :: "string list" where
  "jsonKeywords =
  [''\"error_code\":\"429\"'', ''\"error_code\":429'', ''\"status_code\":\"429\"'',
   ''\"status_code\":429'', ''\"error\":\"rate_limit\"'', ''\"error\":\"rate limit\"'',
   ''\"error\":\"too_many_requests\"'', ''\"error\":\"quota_exceeded\"'',
   ''\"type\":\"rate_limit_error\"'', ''\"code\":\"rate_limit\"'', ''\"code\":\"429\"'',
   ''\"message\":\"rate limit\"'', ''\"message\":\"too many requests\"'',
   ''\"message\":\"quota exceeded\"'']"

definition isJSONRateLimitError :: "string \<Rightarrow> bool" where
  "isJSONRateLimitError errorMessage = contains_any jsonKeywords (ToLower errorMessage)"

definition IsRateLimitError :: "int \<Rightarrow> string \<Rightarrow> bool" where
  "IsRateLimitError statusCode errorMessage =
    (statusCode = 429 \<or> contains_any rateLimitKeywords (ToLower errorMessage) \<or>
     isJSONRateLimitError errorMessage)"

section \<open>The table of known phrases\<close>

definition second :: int where
  "second = 1000000000"

definition phrase_table :: "(string list \<times> int) list" where
  "phrase_table =
  [([''try again in 30 seconds'', ''wait 30 seconds'', ''30 seconds'', ''30s''], 30 * second),
   ([''try again in 60 seconds'', ''wait 60 seconds'', ''60 seconds'', ''60s''], 60 * second),
   ([''try again in 1 minute'', ''wait 1 minute'', ''1 minute'', ''1m''], 60 * second),
   ([''try again in 2 minutes'', ''wait 2 minutes'', ''2 minutes'', ''2m''], 120 * second),
   ([''try again in 3 minutes'', ''wait 3 minutes'', ''3 minutes'', ''3m''], 180 * second),
   ([''try again in 5 minutes'', ''wait 5 minutes'', ''5 minutes'', ''5m''], 300 * second),
   ([''try again in 10 minutes'', ''wait 10 minutes'', ''10 minutes'', ''10m''], 600 * second),
   ([''try again in 15 minutes'', ''wait 15 minutes'', ''15 minutes'', ''15m''], 900 * second),
   ([''try again in 20 minutes'', ''wait 20 minutes'', ''20 minutes'', ''20m''], 1200 * second),
   ([''try again in 30 minutes'', ''wait 30 minutes'', ''30 minutes'', ''30m''], 1800 * second),
   ([''try again in 1 hour'', ''wait 1 hour'', ''1 hour'', ''1h''], 3600 * second),
   ([''try again in 2 hours'', ''wait 2 hours'', ''2 hours'', ''2h''], 7200 * second),
   ([''try again in 3 hours'', ''wait 3 hours'', ''3 hours'', ''3h''], 10800 * second),
   ([''try again in 6 hours'', ''wait 6 hours'', ''6 hours'', ''6h''], 21600 * second),
   ([''try again in 12 hours'', ''wait 12 hours'', ''12 hours'', ''12h''], 43200 * second),
   ([''daily limit'', ''24 hours'', ''tomorrow'', ''next day'', ''1 day'', ''24h''], 86400 * second),
   ([''try again tomorrow'', ''wait until tomorrow'', ''reset tomorrow''], 86400 * second),
   ([''monthly limit'', ''next month'', ''30 days''], 2592000 * second),
   ([''openai rate limit'', ''please try again later''], 60 * second),
   ([''anthropic rate limit''], 60 * second),
   ([''google quota exceeded''], 3600 * second),
   ([''azure throttling''], 60 * second),
   ([[CHR 0xE8, CHR 0xAF, CHR 0xB7, CHR 0xE7, CHR 0xA8, CHR 0x8D, CHR 0xE5, CHR 0x90, CHR 0x8E, CHR 0xE9, CHR 0x87, CHR 0x8D, CHR 0xE8, CHR 0xAF, CHR 0x95], [CHR 0xE8, CHR 0xAF, CHR 0xB7, CHR 0xE7, CHR 0xAD, CHR 0x89, CHR 0xE5, CHR 0xBE, CHR 0x85, CHR 0x31, CHR 0xE5, CHR 0x88, CHR 0x86, CHR 0xE9, CHR 0x92, CHR 0x9F], [CHR 0x31, CHR 0xE5, CHR 0x88, CHR 0x86, CHR 0xE9, CHR 0x92, CHR 0x9F, CHR 0xE5, CHR 0x90, CHR 0x8E, CHR 0xE9, CHR 0x87, CHR 0x8D, CHR 0xE8, CHR 0xAF, CHR 0x95]], 60 * second),
   ([[CHR 0xE8, CHR 0xAF, CHR 0xB7, CHR 0xE7, CHR 0xAD, CHR 0x89, CHR 0xE5, CHR 0xBE, CHR 0x85, CHR 0x35, CHR 0xE5, CHR 0x88, CHR 0x86, CHR 0xE9, CHR 0x92, CHR 0x9F], [CHR 0x35, CHR 0xE5, CHR 0x88, CHR 0x86, CHR 0xE9, CHR 0x92, CHR 0x9F, CHR 0xE5, CHR 0x90, CHR 0x8E, CHR 0xE9, CHR 0x87, CHR 0x8D, CHR 0xE8, CHR 0xAF, CHR 0x95]], 300 * second),
   ([[CHR 0xE8, CHR 0xAF, CHR 0xB7, CHR 0xE7, CHR 0xAD, CHR 0x89, CHR 0xE5, CHR 0xBE, CHR 0x85, CHR 0x31, CHR 0xE5, CHR 0xB0, CHR 0x8F, CHR 0xE6, CHR 0x97, CHR 0xB6], [CHR 0x31, CHR 0xE5, CHR 0xB0, CHR 0x8F, CHR 0xE6, CHR 0x97, CHR 0xB6, CHR 0xE5, CHR 0x90, CHR 0x8E, CHR 0xE9, CHR 0x87, CHR 0x8D, CHR 0xE8, CHR 0xAF, CHR 0x95]], 3600 * second),
   ([[CHR 0xE6, CHR 0x98, CHR 0x8E, CHR 0xE5, CHR 0xA4, CHR 0xA9, CHR 0xE9, CHR 0x87, CHR 0x8D, CHR 0xE8, CHR 0xAF, CHR 0x95], [CHR 0x32, CHR 0x34, CHR 0xE5, CHR 0xB0, CHR 0x8F, CHR 0xE6, CHR 0x97, CHR 0xB6, CHR 0xE5, CHR 0x90, CHR 0x8E, CHR 0xE9, CHR 0x87, CHR 0x8D, CHR 0xE8, CHR 0xAF, CHR 0x95]], 86400 * second)]"

fun lookup_phrase :: "(string list \<times> int) list \<Rightarrow> string \<Rightarrow> int option" where
  "lookup_phrase [] s = None"
| "lookup_phrase ((keywords, duration) # ps) s =
    (if contains_any keywords s then Some duration else lookup_phrase ps s)"

section \<open>Numbers with a unit\<close>

text \<open>A pattern of parseTimeFromMessage: words separated by white space, a number, optional white
  space, one of the units, which ends at a word boundary when the flag is set. The number takes
  all the digits there are, because a unit does not start with a digit.\<close>

record time_pattern =
  tp_words :: "string list"
  tp_units :: "string list"
  tp_boundary :: bool
  tp_unit :: int
  tp_multiplier :: int

definition is_word_char :: "char \<Rightarrow> bool" where
  "is_word_char c \<longleftrightarrow> is_digit c \<or> c = CHR ''_'' \<or>
     (65 \<le> (of_char c :: nat) \<and> (of_char c :: nat) \<le> 90) \<or>
     (97 \<le> (of_char c :: nat) \<and> (of_char c :: nat) \<le> 122)"

definition ends_word :: "string \<Rightarrow> bool" where
  "ends_word s \<longleftrightarrow> (case s of [] \<Rightarrow> True | c # _ \<Rightarrow> \<not> is_word_char c)"

fun match_words :: "string list \<Rightarrow> string \<Rightarrow> string option" where
  "match_words [] s = Some s"
| "match_words (w # ws) s =
    (if has_prefix w s
     then (case drop (length w) s of
             [] \<Rightarrow> None
           | c # cs \<Rightarrow> if is_space c then match_words ws (dropWhile is_space cs) else None)
     else None)"

definition match_unit :: "time_pattern \<Rightarrow> string \<Rightarrow> bool" where
  "match_unit p s = list_ex (\<lambda>u. has_prefix u s \<and>
     (tp_boundary p \<longrightarrow> ends_word (drop (length u) s))) (tp_units p)"

definition match_at :: "time_pattern \<Rightarrow> string \<Rightarrow> string option" where
  "match_at p s =
    (case match_words (tp_words p) s of
       None \<Rightarrow> None
     | Some r \<Rightarrow>
         let ds = takeWhile is_digit r in
         if ds \<noteq> [] \<and> match_unit p (dropWhile is_space (dropWhile is_digit r)) then Some ds else None)"

fun find_match :: "time_pattern \<Rightarrow> string \<Rightarrow> string option" where
  "find_match p [] = None"
| "find_match p (c # cs) =
    (case match_at p (c # cs) of Some ds \<Rightarrow> Some ds | None \<Rightarrow> find_match p cs)"

definition unit_patterns :: "string list \<Rightarrow> time_pattern list" where
  "unit_patterns ws =
    [\<lparr>tp_words = ws, tp_units = [''seconds'', ''second'', ''secs'', ''sec'', ''s''],
      tp_boundary = True, tp_unit = second, tp_multiplier = 1\<rparr>,
     \<lparr>tp_words = ws, tp_units = [''minutes'', ''minute'', ''mins'', ''min'', ''m''],
      tp_boundary = True, tp_unit = 60 * second, tp_multiplier = 1\<rparr>,
     \<lparr>tp_words = ws, tp_units = [''hours'', ''hour'', ''hrs'', ''hr'', ''h''],
      tp_boundary = True, tp_unit = 3600 * second, tp_multiplier = 1\<rparr>]"

definition time_patterns :: "time_pattern list" where
  "time_patterns = unit_patterns [] @
    [\<lparr>tp_words = [], tp_units = [''days'', ''day'', ''d''],
      tp_boundary = True, tp_unit = 3600 * second, tp_multiplier = 24\<rparr>,
     \<lparr>tp_words = [], tp_units = [''weeks'', ''week'', ''w''],
      tp_boundary = True, tp_unit = 3600 * second, tp_multiplier = 168\<rparr>] @
    unit_patterns [''wait''] @ unit_patterns [''try'', ''again'', ''in''] @
    unit_patterns [''retry'', ''after''] @
    [\<lparr>tp_words = [], tp_units = [[CHR 0xE7, CHR 0xA7, CHR 0x92]],
      tp_boundary = False, tp_unit = second, tp_multiplier = 1\<rparr>,
     \<lparr>tp_words = [], tp_units = [[CHR 0xE5, CHR 0x88, CHR 0x86, CHR 0xE9, CHR 0x92, CHR 0x9F]],
      tp_boundary = False, tp_unit = 60 * second, tp_multiplier = 1\<rparr>,
     \<lparr>tp_words = [], tp_units = [[CHR 0xE5, CHR 0xB0, CHR 0x8F, CHR 0xE6, CHR 0x97, CHR 0xB6]],
      tp_boundary = False, tp_unit = 3600 * second, tp_multiplier = 1\<rparr>,
     \<lparr>tp_words = [], tp_units = [[CHR 0xE5, CHR 0xA4, CHR 0xA9]],
      tp_boundary = False, tp_unit = 3600 * second, tp_multiplier = 24\<rparr>]"

definition max_retry :: int where
  "max_retry = 604800 * second"

fun parse_patterns :: "time_pattern list \<Rightarrow> string \<Rightarrow> int" where
  "parse_patterns [] s = 0"
| "parse_patterns (p # ps) s =
    (case find_match p s of
       None \<Rightarrow> parse_patterns ps s
     | Some ds \<Rightarrow>
         (case ParseInt ds of
            (_, Some _) \<Rightarrow> parse_patterns ps s
          | (num, None) \<Rightarrow>
              let duration = i64 (i64 (num * tp_multiplier p) * tp_unit p) in
              if duration > max_retry then max_retry else duration))"

definition parseTimeFromMessage :: "string \<Rightarrow> int" where
  "parseTimeFromMessage message = parse_patterns time_patterns message"

section \<open>The retry time\<close>

definition parseRetryAfterFromMessage :: "string \<Rightarrow> int" where
  "parseRetryAfterFromMessage message =
    (if message = [] then 0
     else let messageLower = ToLower message in
       (case lookup_phrase phrase_table messageLower of
          Some duration \<Rightarrow> duration
        | None \<Rightarrow>
            let duration = parseTimeFromMessage messageLower in
            if duration > 0 then duration else 0))"

definition parseRetryAfterHeader :: "(string \<Rightarrow> int option) \<Rightarrow> string \<Rightarrow> int" where
  "parseRetryAfterHeader until header0 =
    (let header = TrimSpace header0 in
     if header = [] then 0
     else (case ParseInt header of
         (seconds, None) \<Rightarrow>
           if seconds > 0 then i64 (seconds * second)
           else (case until header of Some d \<Rightarrow> if d > 0 then d else 0 | None \<Rightarrow> 0)
       | (_, Some _) \<Rightarrow>
           (case until header of Some d \<Rightarrow> if d > 0 then d else 0 | None \<Rightarrow> 0)))"

definition ParseRetryAfter :: "(string \<Rightarrow> int option) \<Rightarrow> string \<Rightarrow> string \<Rightarrow> int" where
  "ParseRetryAfter until retryAfterHeader errorMessage =
    (let h = (if retryAfterHeader \<noteq> [] then parseRetryAfterHeader until retryAfterHeader else 0) in
     if h > 0 then h
     else let m = parseRetryAfterFromMessage errorMessage in
       if m > 0 then m else 60 * second)"

record RateLimitError =
  rlMessage :: string
  RetryAfter :: int
  ResetAt :: "int option"

definition CreateRateLimitError ::
  "(string \<Rightarrow> int option) \<Rightarrow> int \<Rightarrow> string \<Rightarrow> string \<Rightarrow> RateLimitError" where
  "CreateRateLimitError until now errorMessage retryAfterHeader =
    (let retryAfter = ParseRetryAfter until retryAfterHeader errorMessage in
     \<lparr>rlMessage = errorMessage, RetryAfter = retryAfter,
      ResetAt = (if retryAfter > 0 then Some (now + retryAfter) else None)\<rparr>)"

definition IsExpired :: "int \<Rightarrow> RateLimitError \<Rightarrow> bool" where
  "IsExpired now e = (case ResetAt e of None \<Rightarrow> False | Some t \<Rightarrow> now > t)"

section \<open>Properties\<close>

lemma Contains_trans: "Contains s t \<Longrightarrow> Contains t u \<Longrightarrow> Contains s u"
  unfolding Contains_iff by (metis append.assoc)

text \<open>A phrase is dead when one of the keywords before it is a part of each of its own.\<close>

fun dead :: "string list \<Rightarrow> string list \<Rightarrow> bool" where
  "dead before keywords = list_all (\<lambda>k. list_ex (Contains k) before) keywords"

lemma lookup_dead:
  assumes "dead (concat (map fst ps)) ks"
  shows "lookup_phrase (ps @ (ks, d) # qs) s = lookup_phrase (ps @ qs) s"
proof -
  have "lookup_phrase (ps @ rest) s = (if contains_any (concat (map fst ps)) s
      then lookup_phrase ps s else lookup_phrase rest s)" for rest
    by (induction ps s rule: lookup_phrase.induct) (auto simp: contains_any_def)
  moreover have "contains_any ks s \<Longrightarrow> contains_any (concat (map fst ps)) s"
    using assms Contains_trans unfolding contains_any_def
    by (fastforce simp: list_all_iff list_ex_iff)
  ultimately show ?thesis by auto
qed

lemma lookup_range: "lookup_phrase ps s = Some d \<Longrightarrow> d \<in> snd ` set ps"
  by (induction ps s rule: lookup_phrase.induct) (auto split: if_splits)

definition without_dead :: "(string list \<times> int) list" where
  "without_dead = take 7 phrase_table @ take 6 (drop 8 phrase_table) @ drop 15 phrase_table"

lemma table_split:
  "phrase_table = take 7 phrase_table @ (fst (phrase_table ! 7), 900 * second) # drop 8 phrase_table"
  "take 7 phrase_table @ drop 8 phrase_table =
     (take 7 phrase_table @ take 6 (drop 8 phrase_table)) @
     (fst (phrase_table ! 14), 43200 * second) # drop 15 phrase_table"
  by (simp_all add: phrase_table_def)

lemma table_dead:
  "dead (concat (map fst (take 7 phrase_table))) (fst (phrase_table ! 7))"
  "dead (concat (map fst (take 7 phrase_table @ take 6 (drop 8 phrase_table)))) (fst (phrase_table ! 14))"
  by code_simp+

text \<open>Two entries of the table of phrases are dead: because matching is by substring and in
  order, a message about 15 minutes is read as 5 minutes and one about 12 hours as 2 hours; no
  message is ever given 15 minutes or 12 hours by the table.\<close>

lemma dead_phrases:
  "lookup_phrase phrase_table s \<noteq> Some (900 * second) \<and>
   lookup_phrase phrase_table s \<noteq> Some (43200 * second) \<and>
   parseRetryAfterFromMessage ''Try again in 15 minutes'' = 300 * second \<and>
   parseRetryAfterFromMessage ''Try again in 12 hours'' = 7200 * second"
proof -
  have "lookup_phrase phrase_table s = lookup_phrase without_dead s"
    using lookup_dead [OF table_dead(1), of "900 * second" "drop 8 phrase_table" s]
      lookup_dead [OF table_dead(2), of "43200 * second" "drop 15 phrase_table" s]
    unfolding without_dead_def table_split [symmetric] append.assoc [symmetric] by metis
  moreover have "900 * second \<notin> snd ` set without_dead" "43200 * second \<notin> snd ` set without_dead"
    by (simp_all add: without_dead_def phrase_table_def second_def)
  moreover have "parseRetryAfterFromMessage ''Try again in 15 minutes'' = 300 * second"
    "parseRetryAfterFromMessage ''Try again in 12 hours'' = 7200 * second"
    by code_simp+
  ultimately show ?thesis using lookup_range by metis
qed

lemma phrase_bound: "lookup_phrase phrase_table s = Some d \<Longrightarrow> 0 < d \<and> d \<le> 2592000 * second"
  by (drule lookup_range) (auto simp: phrase_table_def second_def)

lemma parse_patterns_bound: "parse_patterns ps s \<le> max_retry"
  by (induction ps s rule: parse_patterns.induct)
    (auto simp: Let_def max_retry_def second_def split: option.splits prod.splits)

text \<open>The retry time is always positive, at most 30 days when the message decides it, and a
  created error expires strictly after it was created.\<close>

lemma retry_after_bounds:
  "0 < ParseRetryAfter until header message \<and>
   (header = [] \<longrightarrow> ParseRetryAfter until header message \<le> 2592000 * second) \<and>
   \<not> IsExpired now (CreateRateLimitError until now message header)"
proof -
  have "parseRetryAfterFromMessage message \<le> 2592000 * second"
    using phrase_bound parse_patterns_bound [of time_patterns "ToLower message"]
    by (auto simp: parseRetryAfterFromMessage_def parseTimeFromMessage_def Let_def max_retry_def
        second_def split: option.splits) fastforce?
  moreover have pos: "0 < ParseRetryAfter until header message"
    by (simp add: ParseRetryAfter_def Let_def second_def)
  ultimately show ?thesis
    by (auto simp: ParseRetryAfter_def CreateRateLimitError_def IsExpired_def Let_def second_def)
qed

lemma ParseInt_header:
  "0 < n \<Longrightarrow> n \<le> 9223372036854775807 \<Longrightarrow>
   parseRetryAfterHeader until (show_nat n) = i64 (int n * second)"
  using ParseInt_show [of "int n"]
  by (simp add: show_int_def in_i64_def parseRetryAfterHeader_def TrimSpace_show Let_def)

text \<open>C11: A Retry-After header written as a number of seconds is honoured exactly, for every number
  whose nanoseconds fit an int64, whatever the message says.\<close>

theorem retry_after_header_roundtrip:
  assumes "0 < n" "n \<le> 9223372036"
  shows "ParseRetryAfter until (show_nat n) message = int n * second"
proof -
  have "i64 (int n * second) = int n * second"
    using assms by (intro i64_id) (simp add: in_i64_def second_def)
  then show ?thesis
    using ParseInt_header [of n until] assms by (simp add: ParseRetryAfter_def Let_def second_def)
qed

theorem retry_after_header_roundtrip_witness:
  "ParseRetryAfter (\<lambda>_. None) (show_nat 90) ''Try again in 1 hour'' = 90 * second"
  using retry_after_header_roundtrip [of 90 "\<lambda>_. None" "''Try again in 1 hour''"] by simp

text \<open>One second more and the product wraps to a negative number, and the default applies.\<close>

lemma retry_after_header_wraps:
  "ParseRetryAfter until (show_nat 9223372037) [] = 60 * second"
proof -
  have "parseRetryAfterHeader until (show_nat 9223372037) \<le> 0"
    by (subst ParseInt_header) (simp_all add: i64_def second_def)
  moreover have "parseRetryAfterFromMessage [] = 0" by (simp add: parseRetryAfterFromMessage_def)
  ultimately show ?thesis by (simp add: ParseRetryAfter_def Let_def)
qed

end
