(* ===== verification/Proxy.thy ===== *)
theory Proxy
  imports Updates Channel RequestLog RateLimit
begin

text \<open>The proxy of src/internal/proxy/server.go: a request of a client is sent upstream with a key
  of its group and sent again with another key while the upstream fails. The components meet here:
  the key provider, the channel, rate-limit recognition and the request log, over one store.
  What lies outside the repository is the environment \<^verbatim>\<open>world\<close>: what each attempt gets
  back, how the clock stands, which of the started goroutines end between two attempts, and the
  library functions on JSON, gzip and URLs. The active provider is the KeyProvider.\<close>

section \<open>Requests, answers, state\<close>

record http_request =
  rq_method :: string
  rq_url :: url
  rq_headers :: "(string, string) gomap"
  rq_body :: string

record client_request =
  cr_method :: string
  cr_url :: url
  cr_headers :: "(string, string) gomap"
  cr_ip :: string
  cr_agent :: string
  cr_stream_param :: string

record upstream_response =
  up_status :: int
  up_body :: "string option"
  up_encoding :: string
  up_retry_after :: string

datatype do_result = DoError string | Response upstream_response

record HeaderRule =
  hr_key :: string
  hr_value :: string
  hr_action :: string

record RetryError =
  reStatusCode :: int
  reErrorMessage :: string
  reParsedErrorMessage :: string
  reKeyValue :: string
  reAttempt :: int
  reUpstreamAddr :: string

text \<open>The answer to the client: the decoded upstream error, an error of the proxy, or the
  response of the upstream, which is copied.\<close>

datatype client_response =
    AnswerJSON int string
  | AnswerError int string string
  | AnswerUpstream int

record world =
  w_result :: "nat \<Rightarrow> do_result"
  w_ends :: "nat \<Rightarrow> nat list"
  w_tx :: "status_update \<Rightarrow> nat \<Rightarrow> tx_env"
  w_clock :: "nat \<Rightarrow> int"
  w_until :: "string \<Rightarrow> int option"
  w_gunzip :: "string \<Rightarrow> string option"
  w_message :: "nat \<Rightarrow> string \<Rightarrow> string option"
  w_is_json :: "string \<Rightarrow> bool"
  w_bad_url :: "url \<Rightarrow> bool"
  w_render :: "url \<Rightarrow> string"
  w_query :: "string \<Rightarrow> (string, string list) gomap"
  w_encode_query :: "(string, string list) gomap \<Rightarrow> string"
  w_canonical :: "string \<Rightarrow> string"
  w_replace :: "string \<Rightarrow> string \<Rightarrow> string \<Rightarrow> string"
  w_error_text :: "kp_err \<Rightarrow> string"
  w_json_model :: "string \<Rightarrow> string option"
  w_json_stream :: "string \<Rightarrow> bool option"
  w_encode_log :: "RequestLog \<Rightarrow> string option"
  w_log_env :: log_env
  w_log_minutes :: int
  w_uuid :: string

text \<open>\<^verbatim>\<open>sent\<close>, \<^verbatim>\<open>started\<close>, \<^verbatim>\<open>events\<close> and \<^verbatim>\<open>answer\<close> are what the outside sees:
  the requests sent upstream with the key of each, the goroutines started, the calls of the
  rate-limit monitor, and the answer. \<^verbatim>\<open>running\<close> are the started goroutines that have
  not run yet.\<close>

record proxy =
  provider :: kp
  chan :: BaseChannel
  logdb :: log_db
  sent :: "(APIKey \<times> http_request) list"
  started :: "status_update list"
  running :: "status_update list"
  events :: "(nat \<times> nat \<times> RateLimitError) list"
  answer :: "client_response option"

section \<open>Errors\<close>

definition ignorableErrorSubstrings :: "string list" where
  "ignorableErrorSubstrings =
  [''context canceled'', ''connection reset by peer'', ''broken pipe'',
   ''use of closed network connection'', ''request canceled'']"

definition IsIgnorableError :: "string \<Rightarrow> bool" where
  "IsIgnorableError errStr = contains_any ignorableErrorSubstrings errStr"

definition maxErrorBodyLength :: nat where
  "maxErrorBodyLength = 2048"

text \<open>The four shapes are tried in turn; \<^verbatim>\<open>w_message\<close> i decodes shape i.\<close>

fun first_message :: "(nat \<Rightarrow> string \<Rightarrow> string option) \<Rightarrow> nat list \<Rightarrow> string \<Rightarrow> string option" where
  "first_message msg [] b = None"
| "first_message msg (i # is) b =
    (case msg i b of
       Some m \<Rightarrow> if TrimSpace m \<noteq> [] then Some (TrimSpace m) else first_message msg is b
     | None \<Rightarrow> first_message msg is b)"

definition ParseUpstreamError :: "(nat \<Rightarrow> string \<Rightarrow> string option) \<Rightarrow> string \<Rightarrow> string" where
  "ParseUpstreamError msg b =
    (case first_message msg [0, 1, 2, 3] b of
       Some m \<Rightarrow> TruncateString m maxErrorBodyLength
     | None \<Rightarrow> TruncateString b maxErrorBodyLength)"

definition handleGzipCompression :: "(string \<Rightarrow> string option) \<Rightarrow> string \<Rightarrow> string \<Rightarrow> string" where
  "handleGzipCompression gunzip encoding b =
    (if encoding = ''gzip'' then (case gunzip b of Some d \<Rightarrow> d | None \<Rightarrow> b) else b)"

section \<open>Header rules and the channel's part of the request\<close>

definition h_del :: "string \<Rightarrow> http_request \<Rightarrow> http_request" where
  "h_del k r = r\<lparr>rq_headers := gdel k (rq_headers r)\<rparr>"

definition h_set :: "string \<Rightarrow> string \<Rightarrow> http_request \<Rightarrow> http_request" where
  "h_set k v r = r\<lparr>rq_headers := gput k v (rq_headers r)\<rparr>"

text \<open>The variables are replaced one after the other in the order \<^verbatim>\<open>ord\<close> of the map.\<close>

definition ResolveHeaderVariables ::
  "world \<Rightarrow> (string \<times> string) iter \<Rightarrow> int \<Rightarrow> string \<Rightarrow> string \<Rightarrow> string \<Rightarrow> string \<Rightarrow> string" where
  "ResolveHeaderVariables w ord now ip group_name key_value v =
    fold (\<lambda>(variable, replacement) r. w_replace w r variable replacement)
      (ord [(''${CLIENT_IP}'', ip), (''${TIMESTAMP_MS}'', show_int (now div 1000000)),
            (''${TIMESTAMP_S}'', show_int (now div second)), (''${GROUP_NAME}'', group_name),
            (''${API_KEY}'', key_value)]) v"

definition ApplyHeaderRule ::
  "world \<Rightarrow> (string \<times> string) iter \<Rightarrow> int \<Rightarrow> string \<Rightarrow> string \<Rightarrow> string \<Rightarrow> HeaderRule \<Rightarrow>
   http_request \<Rightarrow> http_request" where
  "ApplyHeaderRule w ord now ip group_name key_value rule r =
    (let canonicalKey = w_canonical w (hr_key rule) in
     if hr_action rule = ''remove'' then h_del canonicalKey r
     else if hr_action rule = ''set''
     then h_set canonicalKey
            (ResolveHeaderVariables w ord now ip group_name key_value (hr_value rule)) r
     else r)"

text \<open>The three channel types differ in how they send the key, recognise a streaming request and
  find the model.\<close>

text \<open>The query of a URL is a map of value lists (url.Values); Del and Set are calls on that map.\<close>

definition query_Del :: "string \<Rightarrow> (string, string list) gomap \<Rightarrow> (string, string list) gomap" where
  "query_Del k q = gdel k q"

definition query_Set :: "string \<Rightarrow> string \<Rightarrow> (string, string list) gomap \<Rightarrow> (string, string list) gomap" where
  "query_Set k v q = gput k [v] q"

definition on_query ::
  "world \<Rightarrow> ((string, string list) gomap \<Rightarrow> (string, string list) gomap) \<Rightarrow> http_request \<Rightarrow> http_request" where
  "on_query w f r =
    r\<lparr>rq_url := (rq_url r)\<lparr>u_query := w_encode_query w (f (w_query w (u_query (rq_url r))))\<rparr>\<rparr>"

definition OpenAI_ModifyRequest :: "string \<Rightarrow> http_request \<Rightarrow> http_request" where
  "OpenAI_ModifyRequest key_value r = h_set ''Authorization'' (''Bearer '' @ key_value) r"

definition Anthropic_ModifyRequest :: "string \<Rightarrow> http_request \<Rightarrow> http_request" where
  "Anthropic_ModifyRequest key_value r =
    h_set ''Anthropic-Version'' ''2023-06-01'' (h_set ''X-Api-Key'' key_value r)"

definition Gemini_ModifyRequest :: "world \<Rightarrow> string \<Rightarrow> http_request \<Rightarrow> http_request" where
  "Gemini_ModifyRequest w key_value r =
    (if Contains (u_path (rq_url r)) ''v1beta/openai''
     then h_set ''Authorization'' (''Bearer '' @ key_value) r
     else on_query w (query_Set ''key'' key_value) r)"

definition ModifyRequest :: "world \<Rightarrow> string \<Rightarrow> string \<Rightarrow> http_request \<Rightarrow> http_request" where
  "ModifyRequest w channel_name key_value r =
    (if channel_name = ''openai'' then OpenAI_ModifyRequest key_value r
     else if channel_name = ''anthropic'' then Anthropic_ModifyRequest key_value r
     else Gemini_ModifyRequest w key_value r)"

definition OpenAI_IsStreamRequest :: "world \<Rightarrow> client_request \<Rightarrow> string \<Rightarrow> bool" where
  "OpenAI_IsStreamRequest w c b =
    (if (case gget (cr_headers c) ''Accept'' of
           None \<Rightarrow> False | Some a \<Rightarrow> Contains a ''text/event-stream'') then True
     else if cr_stream_param c = ''true'' then True
     else (case w_json_stream w b of Some s \<Rightarrow> s | None \<Rightarrow> False))"

definition Anthropic_IsStreamRequest :: "world \<Rightarrow> client_request \<Rightarrow> string \<Rightarrow> bool" where
  "Anthropic_IsStreamRequest w c b =
    (if (case gget (cr_headers c) ''Accept'' of
           None \<Rightarrow> False | Some a \<Rightarrow> Contains a ''text/event-stream'') then True
     else if cr_stream_param c = ''true'' then True
     else (case w_json_stream w b of Some s \<Rightarrow> s | None \<Rightarrow> False))"

definition Gemini_IsStreamRequest :: "world \<Rightarrow> client_request \<Rightarrow> string \<Rightarrow> bool" where
  "Gemini_IsStreamRequest w c b =
    (if has_prefix (rev '':streamGenerateContent'') (rev (u_path (cr_url c))) then True
     else if (case gget (cr_headers c) ''Accept'' of
                None \<Rightarrow> False | Some a \<Rightarrow> Contains a ''text/event-stream'') then True
     else if cr_stream_param c = ''true'' then True
     else (case w_json_stream w b of Some s \<Rightarrow> s | None \<Rightarrow> False))"

definition IsStreamRequest :: "world \<Rightarrow> string \<Rightarrow> client_request \<Rightarrow> string \<Rightarrow> bool" where
  "IsStreamRequest w channel_name c b =
    (if channel_name = ''openai'' then OpenAI_IsStreamRequest w c b
     else if channel_name = ''anthropic'' then Anthropic_IsStreamRequest w c b
     else Gemini_IsStreamRequest w c b)"

definition OpenAI_ExtractModel :: "world \<Rightarrow> string \<Rightarrow> string" where
  "OpenAI_ExtractModel w b = (case w_json_model w b of Some m \<Rightarrow> m | None \<Rightarrow> [])"

definition Anthropic_ExtractModel :: "world \<Rightarrow> string \<Rightarrow> string" where
  "Anthropic_ExtractModel w b = (case w_json_model w b of Some m \<Rightarrow> m | None \<Rightarrow> [])"

fun model_in_path :: "string list \<Rightarrow> string option" where
  "model_in_path (p # q # ps) =
    (if p = ''models'' then Some (hd (split_on CHR '':'' q)) else model_in_path (q # ps))"
| "model_in_path _ = None"

definition Gemini_ExtractModel :: "world \<Rightarrow> client_request \<Rightarrow> string \<Rightarrow> string" where
  "Gemini_ExtractModel w c b =
    (case model_in_path (split_on CHR ''/'' (u_path (cr_url c))) of
       Some m \<Rightarrow> m
     | None \<Rightarrow>
         (case w_json_model w b of
            Some m \<Rightarrow> if m \<noteq> [] then TrimPrefix m ''models/'' else []
          | None \<Rightarrow> []))"

definition ExtractModel :: "world \<Rightarrow> string \<Rightarrow> client_request \<Rightarrow> string \<Rightarrow> string" where
  "ExtractModel w channel_name c b =
    (if channel_name = ''openai'' then OpenAI_ExtractModel w b
     else if channel_name = ''anthropic'' then Anthropic_ExtractModel w b
     else Gemini_ExtractModel w c b)"

section \<open>The request log entry\<close>

definition logRequest ::
  "world \<Rightarrow> client_request \<Rightarrow> Group \<Rightarrow> APIKey option \<Rightarrow> int \<Rightarrow> nat \<Rightarrow> int \<Rightarrow> int \<Rightarrow> string option \<Rightarrow>
   bool \<Rightarrow> string \<Rightarrow> string \<Rightarrow> proxy \<Rightarrow> proxy" where
  "logRequest w c grp apiKey startTime i statusCode retries finalError isStream upstreamAddr b p =
    (let entry = \<lparr>lID = [], lTimestamp = 0, lGroupID = gID grp, lGroupName = gName grp,
           lKeyValue = (case apiKey of None \<Rightarrow> [] | Some k \<Rightarrow> KeyValue k),
           lModel = ExtractModel w (cName (chan p)) c b,
           lIsSuccess = (finalError = None \<and> statusCode < 400), lSourceIP = cr_ip c,
           lStatusCode = statusCode,
           lRequestPath = TruncateString (w_render w (cr_url c)) 500,
           lDuration = (w_clock w i - startTime) div 1000000,
           lErrorMessage = (case finalError of None \<Rightarrow> [] | Some e \<Rightarrow> e),
           lUserAgent = cr_agent c, lRetries = retries,
           lUpstreamAddr = TruncateString upstreamAddr 500, lIsStream = isStream\<rparr>;
         st = fst (Record (w_encode_log w) id (w_log_env w) (w_log_minutes w) (w_uuid w)
                (w_clock w i) entry \<lparr>rlstore = kstore (provider p), rldb = logdb p\<rparr>)
     in p\<lparr>provider := (provider p)\<lparr>kstore := rlstore st\<rparr>, logdb := rldb st\<rparr>)"

section \<open>One attempt\<close>

text \<open>The goroutines that end before an attempt, by their positions among the running ones.\<close>

fun run_goroutines :: "world \<Rightarrow> nat list \<Rightarrow> proxy \<Rightarrow> proxy" where
  "run_goroutines w [] p = p"
| "run_goroutines w (j # js) p =
    (if j < length (running p)
     then run_goroutines w js
       (p\<lparr>provider := fst (run_update (w_tx w (running p ! j)) (running p ! j) (provider p)),
          running := take j (running p) @ drop (Suc j) (running p)\<rparr>)
     else run_goroutines w js p)"

definition go :: "status_update \<Rightarrow> proxy \<Rightarrow> proxy" where
  "go u p = p\<lparr>started := started p @ [u], running := running p @ [u]\<rparr>"

definition respond :: "client_response \<Rightarrow> proxy \<Rightarrow> proxy" where
  "respond r p = p\<lparr>answer := Some r\<rparr>"

text \<open>The upstream request: the client's headers without its credentials, then the header rules,
  then what the channel adds.\<close>

definition upstream_request ::
  "world \<Rightarrow> (string \<times> string) iter \<Rightarrow> nat \<Rightarrow> client_request \<Rightarrow> Group \<Rightarrow> HeaderRule list \<Rightarrow> string \<Rightarrow>
   bool \<Rightarrow> url \<Rightarrow> string \<Rightarrow> APIKey \<Rightarrow> http_request" where
  "upstream_request w ord i c grp rules b isStream upstreamURL channel_name key =
    (let r0 = \<lparr>rq_method = cr_method c, rq_url = upstreamURL, rq_headers = cr_headers c, rq_body = b\<rparr>;
         r1 = h_del ''X-Goog-Api-Key'' (h_del ''X-Api-Key'' (h_del ''Authorization'' r0));
         r2 = on_query w (query_Del ''key'') r1;
         r3 = fold (ApplyHeaderRule w ord (w_clock w i) (cr_ip c) (gName grp) (KeyValue key)) rules r2;
         r4 = ModifyRequest w channel_name (KeyValue key) r3
     in if isStream then h_set ''X-Accel-Buffering'' ''no'' r4 else r4)"

text \<open>The status, the message and the header a failed attempt is judged by.\<close>

definition failure_of :: "world \<Rightarrow> do_result \<Rightarrow> int \<times> string \<times> string \<times> string" where
  "failure_of w res =
    (case res of
       DoError e \<Rightarrow> (500, e, [], [])
     | Response r \<Rightarrow>
         (let errorBody = handleGzipCompression (w_gunzip w) (up_encoding r)
                (case up_body r of Some b \<Rightarrow> b | None \<Rightarrow> ''Failed to read error body'')
          in (up_status r, errorBody, ParseUpstreamError (w_message w) errorBody, up_retry_after r)))"

definition report_failure ::
  "world \<Rightarrow> nat \<Rightarrow> Group \<Rightarrow> APIKey \<Rightarrow> int \<Rightarrow> string \<Rightarrow> string \<Rightarrow> proxy \<Rightarrow> proxy" where
  "report_failure w i grp key statusCode errorMessage retryAfterHeader p =
    (if IsRateLimitError statusCode errorMessage
     then let e = CreateRateLimitError (w_until w) (w_clock w i) errorMessage retryAfterHeader in
       go (RateLimited (w_clock w i div second) (map_option (\<lambda>t. t div second) (ResetAt e))
             (ID key) (gID grp))
         (p\<lparr>events := events p @ [(ID key, gID grp, e)]\<rparr>)
     else go (Failed (BlacklistThreshold (EffectiveConfig grp)) (ID key) (gID grp)) p)"

datatype attempt_result = Finished proxy | Again proxy RetryError

definition failed :: "do_result \<Rightarrow> bool" where
  "failed res =
    (case res of DoError e \<Rightarrow> True | Response r \<Rightarrow> up_status r \<ge> 400 \<and> up_status r \<noteq> 404)"

definition attempt ::
  "world \<Rightarrow> (string \<times> string) iter \<Rightarrow> client_request \<Rightarrow> Group \<Rightarrow> HeaderRule list \<Rightarrow> string \<Rightarrow> bool \<Rightarrow>
   int \<Rightarrow> nat \<Rightarrow> proxy \<Rightarrow> attempt_result" where
  "attempt w ord c grp rules b isStream startTime i p0 =
    (let p = run_goroutines w (w_ends w i) p0 in
     case SelectKey (gID grp) (provider p) of
       (kp, Inl e) \<Rightarrow>
         Finished (logRequest w c grp None startTime i 503 (int i) (Some (w_error_text w e))
           isStream [] b (respond (AnswerError 503 ''NO_KEYS_AVAILABLE'' (w_error_text w e))
             (p\<lparr>provider := kp\<rparr>)))
     | (kp, Inr key) \<Rightarrow>
         (case BuildUpstreamURL (cr_url c) (gName grp) (chan p) of
            (ch, None) \<Rightarrow>
              Finished (respond (AnswerError 500 ''INTERNAL_SERVER_ERROR''
                  (''Failed to build upstream URL: no upstream URL configured for channel '' @ cName ch))
                (p\<lparr>provider := kp, chan := ch\<rparr>))
          | (ch, Some upstreamURL) \<Rightarrow>
              let p1 = p\<lparr>provider := kp, chan := ch\<rparr> in
              if w_bad_url w upstreamURL
              then Finished (respond (AnswerError 500 ''INTERNAL_SERVER_ERROR''
                     ''An unexpected error occurred'') p1)
              else
              let req = upstream_request w ord i c grp rules b isStream upstreamURL (cName ch) key;
                  p2 = p1\<lparr>sent := sent p1 @ [(key, req)]\<rparr>;
                  addr = w_render w upstreamURL
              in
              if failed (w_result w i)
              then (case w_result w i of
                      DoError e \<Rightarrow>
                        if IsIgnorableError e
                        then Finished (logRequest w c grp (Some key) startTime i 499 (int i + 1)
                               (Some e) isStream addr b p2)
                        else Again (report_failure w i grp key 500 e [] p2)
                               \<lparr>reStatusCode = 500, reErrorMessage = e, reParsedErrorMessage = [],
                                reKeyValue = KeyValue key, reAttempt = int i + 1, reUpstreamAddr = addr\<rparr>
                    | Response r \<Rightarrow>
                        (case failure_of w (Response r) of
                           (statusCode, errorMessage, parsedError, retryAfterHeader) \<Rightarrow>
                             Again (report_failure w i grp key statusCode errorMessage retryAfterHeader p2)
                               \<lparr>reStatusCode = statusCode, reErrorMessage = errorMessage,
                                reParsedErrorMessage = parsedError, reKeyValue = KeyValue key,
                                reAttempt = int i + 1, reUpstreamAddr = addr\<rparr>))
              else (case w_result w i of
                      Response r \<Rightarrow>
                        Finished (respond (AnswerUpstream (up_status r))
                          (logRequest w c grp (Some key) startTime i (up_status r) (int i + 1) None
                             isStream addr b p2))
                    | DoError e \<Rightarrow> Finished p2)))"

text \<open>The key the last log entry names: only its value is known.\<close>

definition key_named :: "string \<Rightarrow> APIKey" where
  "key_named v = \<lparr>ID = 0, KeyValue = v, GroupID = 0, Status = [], FailureCount = 0,
     RateLimitCount = 0, Last429At = None, RateLimitResetAt = None, CreatedAt = 0\<rparr>"

definition give_up ::
  "world \<Rightarrow> client_request \<Rightarrow> Group \<Rightarrow> string \<Rightarrow> bool \<Rightarrow> int \<Rightarrow> nat \<Rightarrow> RetryError list \<Rightarrow> proxy \<Rightarrow> proxy" where
  "give_up w c grp b isStream startTime i retryErrors p =
    (if retryErrors \<noteq> []
     then let lastError = last retryErrors;
              logMessage = (if reParsedErrorMessage lastError = [] then reErrorMessage lastError
                            else reParsedErrorMessage lastError)
          in logRequest w c grp (Some (key_named (reKeyValue lastError))) startTime i
               (reStatusCode lastError) (int i) (Some logMessage) isStream (reUpstreamAddr lastError) b
               (respond (if w_is_json w (reErrorMessage lastError)
                         then AnswerJSON (reStatusCode lastError) (reErrorMessage lastError)
                         else AnswerError (reStatusCode lastError) ''UPSTREAM_ERROR''
                                (reErrorMessage lastError)) p)
     else logRequest w c grp None startTime i 503 (int i)
            (Some ''Request failed after maximum retries'') isStream [] b
            (respond (AnswerError 502 ''MAX_RETRIES_EXCEEDED'' ''Request failed after maximum retries'') p))"

function executeRequestWithRetry ::
  "world \<Rightarrow> (string \<times> string) iter \<Rightarrow> client_request \<Rightarrow> Group \<Rightarrow> HeaderRule list \<Rightarrow> string \<Rightarrow> bool \<Rightarrow>
   int \<Rightarrow> nat \<Rightarrow> RetryError list \<Rightarrow> proxy \<Rightarrow> proxy" where
  "executeRequestWithRetry w ord c grp rules b isStream startTime i retryErrors p =
    (if int i > MaxRetries (EffectiveConfig grp)
     then give_up w c grp b isStream startTime i retryErrors p
     else (case attempt w ord c grp rules b isStream startTime i p of
             Finished p' \<Rightarrow> p'
           | Again p' e \<Rightarrow>
               executeRequestWithRetry w ord c grp rules b isStream startTime (Suc i)
                 (retryErrors @ [e]) p'))"
  by pat_completeness auto
termination
  by (relation "measure (\<lambda>(w, ord, c, grp, rules, b, s, t, i, es, p).
        nat (MaxRetries (EffectiveConfig grp) + 1 - int i))") auto

declare executeRequestWithRetry.simps [simp del]

section \<open>The handler\<close>

definition applyParamOverrides ::
  "(string \<Rightarrow> (string, 'j) gomap option) \<Rightarrow> ((string, 'j) gomap \<Rightarrow> string option) \<Rightarrow>
   (string, 'j) gomap \<Rightarrow> string \<Rightarrow> string option" where
  "applyParamOverrides decode_object encode_object overrides b =
    (if overrides = [] \<or> b = [] then Some b
     else (case decode_object b of
             None \<Rightarrow> Some b
           | Some obj \<Rightarrow> encode_object (fold (\<lambda>(k, v) m. gput k v m) overrides obj)))"

text \<open>\<^verbatim>\<open>body\<close> is what reading the client's body gives, \<^verbatim>\<open>override\<close> the overrides of
  the group applied to it, \<^verbatim>\<open>rules\<close> its header rules.\<close>

definition HandleProxy ::
  "(string \<Rightarrow> (string \<times> int) list option) \<Rightarrow> (string \<Rightarrow> url option) \<Rightarrow> (ch_err \<Rightarrow> string) \<Rightarrow>
   (Group \<Rightarrow> string \<Rightarrow> string option) \<Rightarrow> (Group \<Rightarrow> HeaderRule list) \<Rightarrow>
   world \<Rightarrow> (string \<times> string) iter \<Rightarrow> (string \<Rightarrow> Group option) \<Rightarrow> string \<Rightarrow> string option \<Rightarrow>
   client_request \<Rightarrow> int \<Rightarrow> factory \<times> proxy \<Rightarrow> factory \<times> proxy" where
  "HandleProxy decode parse ch_text override rules w ord groups groupName read c startTime fp =
    (case fp of (cache, p) \<Rightarrow>
     (case groups groupName of
        None \<Rightarrow> (cache, respond (AnswerError 404 ''NOT_FOUND'' ''Resource not found'') p)
      | Some grp \<Rightarrow>
          (case GetChannel decode parse grp cache of
             (cache', Inl e) \<Rightarrow>
               (cache', respond (AnswerError 500 ''INTERNAL_SERVER_ERROR''
                  (''Failed to get channel for group '' @ [CHR 0x27] @ groupName @ [CHR 0x27] @ '': ''
                   @ ch_text e)) p)
           | (cache', Inr ch) \<Rightarrow>
               (case read of
                  None \<Rightarrow>
                    (cache', respond (AnswerError 400 ''BAD_REQUEST'' ''Failed to read request body'') p)
                | Some b \<Rightarrow>
                    (case override grp b of
                       None \<Rightarrow>
                         (cache', respond (AnswerError 500 ''INTERNAL_SERVER_ERROR''
                            ''Failed to apply parameter overrides'') p)
                     | Some b' \<Rightarrow>
                         let p' = executeRequestWithRetry w ord c grp (rules grp) b'
                                    (IsStreamRequest w (cName ch) c b) startTime 0 [] (p\<lparr>chan := ch\<rparr>)
                         in (cache'(gID grp \<mapsto> chan p'), p'))))))"

end
