(* ===== verification/ProxyProps.thy ===== *)
theory ProxyProps
  imports Proxy
begin

text \<open>Properties of the proxy: which parts of the state each step touches, how often a request is
  sent and what follows a failure, what the client is answered, that only keys active at the
  moment of their selection are used, and that the client's credentials go no further.\<close>

section \<open>Frames\<close>

lemma logRequest_sel [simp]:
  "sent (logRequest w c grp k t i st n e s a b p) = sent p"
  "started (logRequest w c grp k t i st n e s a b p) = started p"
  "running (logRequest w c grp k t i st n e s a b p) = running p"
  "events (logRequest w c grp k t i st n e s a b p) = events p"
  "answer (logRequest w c grp k t i st n e s a b p) = answer p"
  "chan (logRequest w c grp k t i st n e s a b p) = chan p"
  "kdb (provider (logRequest w c grp k t i st n e s a b p)) = kdb (provider p)"
  by (simp_all add: logRequest_def Let_def)

lemma respond_sel [simp]:
  "sent (respond r p) = sent p" "started (respond r p) = started p"
  "running (respond r p) = running p" "provider (respond r p) = provider p"
  "chan (respond r p) = chan p" "answer (respond r p) = Some r" "logdb (respond r p) = logdb p"
  by (simp_all add: respond_def)

lemma go_sel [simp]:
  "sent (go u p) = sent p" "started (go u p) = started p @ [u]"
  "running (go u p) = running p @ [u]" "provider (go u p) = provider p"
  "answer (go u p) = answer p" "chan (go u p) = chan p"
  by (simp_all add: go_def)

lemma run_goroutines_sel [simp]:
  "sent (run_goroutines w js p) = sent p" "started (run_goroutines w js p) = started p"
  "answer (run_goroutines w js p) = answer p" "chan (run_goroutines w js p) = chan p"
  by (induction w js p rule: run_goroutines.induct) simp_all

section \<open>How often a request is sent\<close>

text \<open>A failure that is answered by another attempt: every error of the transport that does not
  come from the client, and every status from 400 on except 404.\<close>

definition retryable :: "do_result \<Rightarrow> bool" where
  "retryable res \<longleftrightarrow> failed res \<and> (\<forall>e. res = DoError e \<longrightarrow> \<not> IsIgnorableError e)"

text \<open>The one update a failed attempt starts.\<close>

definition update_for :: "world \<Rightarrow> Group \<Rightarrow> nat \<Rightarrow> APIKey \<Rightarrow> status_update" where
  "update_for w grp i key =
    (case failure_of w (w_result w i) of (statusCode, errorMessage, _, retryAfterHeader) \<Rightarrow>
       if IsRateLimitError statusCode errorMessage
       then RateLimited (w_clock w i div second)
              (map_option (\<lambda>t. t div second) (ResetAt (CreateRateLimitError (w_until w) (w_clock w i)
                 errorMessage retryAfterHeader))) (ID key) (gID grp)
       else Failed (BlacklistThreshold (EffectiveConfig grp)) (ID key) (gID grp))"

lemma report_failure_sel [simp]:
  "sent (report_failure w i grp key st m ra p) = sent p"
  "provider (report_failure w i grp key st m ra p) = provider p"
  "answer (report_failure w i grp key st m ra p) = answer p"
  "chan (report_failure w i grp key st m ra p) = chan p"
  by (simp_all add: report_failure_def Let_def)

lemma report_failure_started:
  assumes "failure_of w (w_result w i) = (st, m, pe, ra)"
  shows "started (report_failure w i grp key st m ra p) = started p @ [update_for w grp i key]"
    "running (report_failure w i grp key st m ra p) = running p @ [update_for w grp i key]"
  using assms by (simp_all add: report_failure_def update_for_def Let_def)

lemma failure_of_error [simp]: "failure_of w (DoError e) = (500, e, [], [])"
  by (simp add: failure_of_def)

text \<open>What one attempt can do. The channel is irrelevant to it.\<close>

lemma attempt_cases:
  assumes "attempt w ord c grp rules b s t i p = r"
  obtains
    (unsent) p' where "r = Finished p'" "sent p' = sent p" "started p' = started p"
  | (ended) p' key req where "r = Finished p'" "sent p' = sent p @ [(key, req)]"
      "started p' = started p" "\<not> retryable (w_result w i)"
      "\<And>u. w_result w i = Response u \<Longrightarrow> answer p' = Some (AnswerUpstream (up_status u))"
  | (again) p' e key req where "r = Again p' e" "sent p' = sent p @ [(key, req)]"
      "started p' = started p @ [update_for w grp i key]" "retryable (w_result w i)"
      "(reStatusCode e, reErrorMessage e) =
         (case failure_of w (w_result w i) of (st, m, _, _) \<Rightarrow> (st, m))"
proof -
  let ?q = "run_goroutines w (w_ends w i) p"
  obtain kp sel where sel: "SelectKey (gID grp) (provider ?q) = (kp, sel)"
    by (cases "SelectKey (gID grp) (provider ?q)")
  show thesis
  proof (cases sel)
    case (Inl e)
    then have "\<exists>p'. r = Finished p' \<and> sent p' = sent p \<and> started p' = started p"
      using assms sel by (auto simp: attempt_def Let_def)
    then show thesis using unsent by blast
  next
    case (Inr key)
    obtain ch u where u: "BuildUpstreamURL (cr_url c) (gName grp) (chan p) = (ch, u)"
      by (cases "BuildUpstreamURL (cr_url c) (gName grp) (chan p)")
    show thesis
    proof (cases "\<exists>url. u = Some url \<and> \<not> w_bad_url w url")
      case False
      then have "\<exists>p'. r = Finished p' \<and> sent p' = sent p \<and> started p' = started p"
        using assms sel Inr u by (auto simp: attempt_def Let_def split: option.splits)
      then show thesis using unsent by blast
    next
      case True
      then obtain url where url: "u = Some url" "\<not> w_bad_url w url" by blast
      let ?req = "upstream_request w ord i c grp rules b s url (cName ch) key"
      show thesis
      proof (cases "w_result w i")
        case (DoError e)
        show thesis
        proof (cases "IsIgnorableError e")
          case True
          then have "\<exists>p'. r = Finished p' \<and> sent p' = sent p @ [(key, ?req)] \<and> started p' = started p \<and>
            \<not> retryable (w_result w i) \<and>
            (\<forall>u. w_result w i = Response u \<longrightarrow> answer p' = Some (AnswerUpstream (up_status u)))"
            using assms sel Inr u url DoError by (auto simp: attempt_def Let_def failed_def retryable_def)
          then show thesis using ended by blast
        next
          case False
          then have "\<exists>p' e. r = Again p' e \<and> sent p' = sent p @ [(key, ?req)] \<and>
            started p' = started p @ [update_for w grp i key] \<and> retryable (w_result w i) \<and>
            (reStatusCode e, reErrorMessage e) =
              (case failure_of w (w_result w i) of (st, m, _, _) \<Rightarrow> (st, m))"
            using assms sel Inr u url DoError report_failure_started [of w i 500 e "[]" "[]"]
            by (auto simp: attempt_def Let_def failed_def retryable_def)
          then show thesis using again by blast
        qed
      next
        case (Response up)
        show thesis
        proof (cases "failed (w_result w i)")
          case True
          obtain st m pe ra where f: "failure_of w (Response up) = (st, m, pe, ra)"
            by (metis prod_cases4)
          have "\<exists>p' e. r = Again p' e \<and> sent p' = sent p @ [(key, ?req)] \<and>
            started p' = started p @ [update_for w grp i key] \<and> retryable (w_result w i) \<and>
            (reStatusCode e, reErrorMessage e) =
              (case failure_of w (w_result w i) of (st, m, _, _) \<Rightarrow> (st, m))"
            using assms sel Inr u url True Response f report_failure_started [of w i st m pe ra]
            by (auto simp: attempt_def Let_def retryable_def)
          then show thesis using again by blast
        next
          case False
          then have "\<exists>p'. r = Finished p' \<and> sent p' = sent p @ [(key, ?req)] \<and> started p' = started p \<and>
            \<not> retryable (w_result w i) \<and>
            (\<forall>u. w_result w i = Response u \<longrightarrow> answer p' = Some (AnswerUpstream (up_status u)))"
            using assms sel Inr u url Response by (auto simp: attempt_def Let_def retryable_def)
          then show thesis using ended by blast
        qed
      qed
    qed
  qed
qed

lemma give_up_sel [simp]:
  "sent (give_up w c grp b s t i es p) = sent p" "started (give_up w c grp b s t i es p) = started p"
  by (simp_all add: give_up_def Let_def)

text \<open>The run of the loop from attempt \<^verbatim>\<open>i\<close> on: the requests it sends, all but the last
  answered by a failure, and the updates started for exactly the failed ones.\<close>

definition run_shape :: "world \<Rightarrow> Group \<Rightarrow> nat \<Rightarrow> (APIKey \<times> http_request) list \<Rightarrow> status_update list \<Rightarrow> bool" where
  "run_shape w grp i reqs ups \<longleftrightarrow>
     (reqs \<noteq> [] \<longrightarrow> int (i + length reqs) \<le> MaxRetries (EffectiveConfig grp) + 1) \<and>
     (\<forall>j. Suc j < length reqs \<longrightarrow> retryable (w_result w (i + j))) \<and>
     ups = map (\<lambda>j. update_for w grp (i + j) (fst (reqs ! j)))
             (filter (\<lambda>j. retryable (w_result w (i + j))) [0..<length reqs])"

lemma run_shape_Nil [simp]: "run_shape w grp i [] []"
  by (simp add: run_shape_def)

lemma run_shape_one:
  "\<not> retryable (w_result w i) \<Longrightarrow> int i \<le> MaxRetries (EffectiveConfig grp) \<Longrightarrow> run_shape w grp i [r] []"
  by (simp add: run_shape_def)

lemma upt_Suc_map: "[0..<Suc n] = 0 # map Suc [0..<n]"
  by (simp add: map_Suc_upt upt_conv_Cons del: upt_Suc)

lemma run_shape_Cons:
  assumes "retryable (w_result w i)" "int i \<le> MaxRetries (EffectiveConfig grp)"
    and "run_shape w grp (Suc i) reqs ups"
  shows "run_shape w grp i (r # reqs) (update_for w grp i (fst r) # ups)"
proof -
  have "retryable (w_result w (i + j))" if "Suc j < length (r # reqs)" for j
    using that assms(1,3) by (cases j) (auto simp: run_shape_def)
  moreover have "filter (\<lambda>j. retryable (w_result w (i + j))) [0..<length (r # reqs)] =
      0 # map Suc (filter (\<lambda>j. retryable (w_result w (Suc i + j))) [0..<length reqs])"
    using assms(1) by (simp add: upt_Suc_map filter_map comp_def del: upt_Suc)
  ultimately show ?thesis
    using assms(2,3) by (cases reqs) (auto simp: run_shape_def)
qed

text \<open>What the client is answered at the end of a run: the response of the last request when that
  succeeded, the last failure when the attempts are used up.\<close>

definition answered :: "world \<Rightarrow> Group \<Rightarrow> nat \<Rightarrow> (APIKey \<times> http_request) list \<Rightarrow> proxy \<Rightarrow> bool" where
  "answered w grp i reqs p \<longleftrightarrow> (reqs \<noteq> [] \<longrightarrow>
     (let n = i + length reqs - 1 in
      (\<forall>u. w_result w n = Response u \<and> \<not> failed (w_result w n) \<longrightarrow>
         answer p = Some (AnswerUpstream (up_status u))) \<and>
      (retryable (w_result w n) \<and> int n = MaxRetries (EffectiveConfig grp) \<longrightarrow>
         (case failure_of w (w_result w n) of (st, m, _, _) \<Rightarrow>
            answer p = Some (if w_is_json w m then AnswerJSON st m else AnswerError st ''UPSTREAM_ERROR'' m)))))"

lemma loop_shape:
  "\<exists>reqs ups. sent (executeRequestWithRetry w ord c grp rules b s t i es p) = sent p @ reqs \<and>
     started (executeRequestWithRetry w ord c grp rules b s t i es p) = started p @ ups \<and>
     run_shape w grp i reqs ups \<and>
     answered w grp i reqs (executeRequestWithRetry w ord c grp rules b s t i es p) \<and>
     (reqs = [] \<and> int i > MaxRetries (EffectiveConfig grp) \<and> es \<noteq> [] \<longrightarrow>
       answer (executeRequestWithRetry w ord c grp rules b s t i es p) =
         Some (if w_is_json w (reErrorMessage (last es))
               then AnswerJSON (reStatusCode (last es)) (reErrorMessage (last es))
               else AnswerError (reStatusCode (last es)) ''UPSTREAM_ERROR'' (reErrorMessage (last es))))"
proof (induction w ord c grp rules b s t i es p rule: executeRequestWithRetry.induct)
  case (1 w ord c grp rules b s t i es p)
  note unfold = executeRequestWithRetry.simps [of w ord c grp rules b s t i es p]
  show ?case
  proof (cases "int i > MaxRetries (EffectiveConfig grp)")
    case True
    have "answer (give_up w c grp b s t i es p) =
         Some (if w_is_json w (reErrorMessage (last es))
               then AnswerJSON (reStatusCode (last es)) (reErrorMessage (last es))
               else AnswerError (reStatusCode (last es)) ''UPSTREAM_ERROR'' (reErrorMessage (last es)))"
      if "es \<noteq> []" using that by (simp add: give_up_def Let_def)
    then show ?thesis
      using True by (simp add: unfold answered_def)
  next
    case False
    show ?thesis
    proof (rule attempt_cases [of w ord c grp rules b s t i p, OF refl])
      fix p' assume "attempt w ord c grp rules b s t i p = Finished p'" "sent p' = sent p" "started p' = started p"
      then show ?thesis using False
        by (intro exI [of _ "[]"]) (simp add: unfold answered_def)
    next
      fix p' key req
      assume "attempt w ord c grp rules b s t i p = Finished p'" "sent p' = sent p @ [(key, req)]"
        "started p' = started p" "\<not> retryable (w_result w i)"
        "\<And>u. w_result w i = Response u \<Longrightarrow> answer p' = Some (AnswerUpstream (up_status u))"
      then show ?thesis using False
        by (intro exI [of _ "[(key, req)]"] exI [of _ "[]"]) (simp add: unfold answered_def run_shape_one)
    next
      fix p' e key req
      assume a: "attempt w ord c grp rules b s t i p = Again p' e" "sent p' = sent p @ [(key, req)]"
        "started p' = started p @ [update_for w grp i key]" "retryable (w_result w i)"
        "(reStatusCode e, reErrorMessage e) =
           (case failure_of w (w_result w i) of (st, m, _, _) \<Rightarrow> (st, m))"
      let ?q = "executeRequestWithRetry w ord c grp rules b s t (Suc i) (es @ [e]) p'"
      have eq: "executeRequestWithRetry w ord c grp rules b s t i es p = ?q"
        using False a(1) by (simp add: unfold)
      obtain reqs ups where ih: "sent ?q = sent p' @ reqs" "started ?q = started p' @ ups"
        "run_shape w grp (Suc i) reqs ups" "answered w grp (Suc i) reqs ?q"
        "reqs = [] \<and> int (Suc i) > MaxRetries (EffectiveConfig grp) \<longrightarrow> answer ?q =
           Some (if w_is_json w (reErrorMessage e) then AnswerJSON (reStatusCode e) (reErrorMessage e)
                 else AnswerError (reStatusCode e) ''UPSTREAM_ERROR'' (reErrorMessage e))"
        using "1.IH" [OF False a(1)] by auto
      have "run_shape w grp i ((key, req) # reqs) (update_for w grp i key # ups)"
        using run_shape_Cons [OF a(4) _ ih(3), of "(key, req)"] False by simp
      moreover have "answered w grp i ((key, req) # reqs) ?q"
      proof (cases "reqs = []")
        case True
        then show ?thesis
          using ih(5) a(4,5) by (auto simp: answered_def retryable_def split: prod.splits)
      next
        case False
        then show ?thesis using ih(4) by (simp add: answered_def)
      qed
      ultimately show ?thesis
        unfolding eq using ih(1,2) a(2,3)
        by (intro exI [of _ "(key, req) # reqs"] exI [of _ "update_for w grp i key # ups"]) simp
    qed
  qed
qed

text \<open>C16: A request is sent at most once more than the configured number of retries. It is sent
  again only after a failure that is to be retried, which a 404 and a client that has gone are not.
  Each failed attempt starts exactly one update of the key it used, a rate-limit update when the
  failure is recognised as one, and no other attempt starts any. The client gets the response of
  the upstream when the last attempt succeeds, and the last failure, with its status and message,
  when all the attempts have failed.\<close>

theorem proxy_retries:
  assumes "p' = executeRequestWithRetry w ord c grp rules b s t 0 [] p"
  shows "\<exists>reqs. sent p' = sent p @ reqs \<and>
    int (length reqs) \<le> max 0 (MaxRetries (EffectiveConfig grp) + 1) \<and>
    (\<forall>j. Suc j < length reqs \<longrightarrow> retryable (w_result w j)) \<and>
    started p' = started p @ map (\<lambda>j. update_for w grp j (fst (reqs ! j)))
      (filter (\<lambda>j. retryable (w_result w j)) [0..<length reqs]) \<and>
    answered w grp 0 reqs p'"
proof -
  obtain reqs ups where "sent p' = sent p @ reqs" "started p' = started p @ ups"
    "run_shape w grp 0 reqs ups" "answered w grp 0 reqs p'"
    using loop_shape [of w ord c grp rules b s t 0 "[]" p] assms by blast
  then show ?thesis by (intro exI [of _ reqs]) (auto simp: run_shape_def)
qed

section \<open>The agreement of store and table\<close>

text \<open>The log service writes keys of its own, so the view of the provider stays.\<close>

lemma log_keys_apart [simp]:
  "RequestLogCachePrefix @ x \<noteq> active_list g" "RequestLogCachePrefix @ x \<noteq> key_hash i"
  "PendingLogKeysSet \<noteq> active_list g" "PendingLogKeysSet \<noteq> key_hash i"
  by (simp_all add: RequestLogCachePrefix_def PendingLogKeysSet_def active_list_def key_hash_def)

lemma Record_writes:
  obtains "rlstore (fst (Record enc ord env m u now l st)) = rlstore st"
  | it xs where "rlstore (fst (Record enc ord env m u now l st)) =
      fst (mem_SAdd PendingLogKeysSet xs ((rlstore st)(RequestLogCachePrefix @ u \<mapsto> ItemV it)))"
proof (cases "m = 0 \<or> enc (l\<lparr>lID := u, lTimestamp := now\<rparr>) = None")
  case True
  then have "rlstore (fst (Record enc ord env m u now l st)) = rlstore st"
    by (auto simp: Record_def Let_def split: prod.splits)
  then show thesis using that(1) by blast
next
  case False
  then obtain b where "enc (l\<lparr>lID := u, lTimestamp := now\<rparr>) = Some b" "m \<noteq> 0" by auto
  then have "rlstore (fst (Record enc ord env m u now l st)) =
      fst (mem_SAdd PendingLogKeysSet [AStr (RequestLogCachePrefix @ u)]
        ((rlstore st)(RequestLogCachePrefix @ u \<mapsto> ItemV \<lparr>item_value = b,
           expiresAt = expiry now (i64 (i64 (m * 5) * minute))\<rparr>)))"
    by (auto simp: Record_def Let_def mem_Set_def split: prod.splits sum.splits)
  then show thesis using that(2) by blast
qed

lemma SAdd_frame:
  "q \<noteq> k \<Longrightarrow> fst (mem_SAdd k xs s) q = s q" "mem_inv s \<Longrightarrow> mem_inv (fst (mem_SAdd k xs s))"
  using mem_sim_SAdd [of s k xs]
  by (auto simp: mem_SAdd_def split: option.splits store_val.splits)

lemma Record_store:
  assumes "mem_inv (rlstore st)"
  shows "mem_inv (rlstore (fst (Record enc ord env m u now l st)))"
    "mem_abs (rlstore (fst (Record enc ord env m u now l st))) (active_list g) =
      mem_abs (rlstore st) (active_list g)"
    "mem_abs (rlstore (fst (Record enc ord env m u now l st))) (key_hash i) =
      mem_abs (rlstore st) (key_hash i)"
  by (cases rule: Record_writes [of enc ord env m u now l st];
      use assms SAdd_frame(2) in \<open>simp add: mem_abs_def SAdd_frame(1) log_keys_apart [symmetric]\<close>)+

lemma logRequest_ok:
  assumes "ok (provider p)"
  shows "ok (provider (logRequest w c grp k t i st n e s a b p))"
proof -
  let ?p = "provider p" and ?q = "provider (logRequest w c grp k t i st n e s a b p)"
  have inv: "mem_inv (kstore ?p)" using assms by (simp add: ok_def kp_ok_def)
  let ?st = "\<lparr>rlstore = kstore ?p, rldb = logdb p\<rparr>"
  obtain entry where entry: "?q = ?p\<lparr>kstore := rlstore (fst (Record (w_encode_log w) id (w_log_env w)
      (w_log_minutes w) (w_uuid w) (w_clock w i) entry ?st))\<rparr>"
    by (simp add: logRequest_def Let_def)
  define s' where "s' = rlstore (fst (Record (w_encode_log w) id (w_log_env w)
      (w_log_minutes w) (w_uuid w) (w_clock w i) entry ?st))"
  have q: "?q = ?p\<lparr>kstore := s'\<rparr>" "mem_inv s'"
    "\<And>g. mem_abs s' (active_list g) = mem_abs (kstore ?p) (active_list g)"
    "\<And>i. mem_abs s' (key_hash i) = mem_abs (kstore ?p) (key_hash i)"
    using Record_store [of ?st] inv entry by (simp_all add: s'_def)
  then show ?thesis using kp_frame [of ?p, OF _ q(2-4)] assms by (simp add: ok_def)
qed

section \<open>Only active keys of the group are used\<close>

definition serving :: "(nat \<times> nat \<times> string) list \<Rightarrow> proxy \<Rightarrow> bool" where
  "serving rows p \<longleftrightarrow> ok (provider p) \<and> idents (provider p) = rows \<and>
     (\<forall>u \<in> set (running p). names_group rows u)"

lemma run_goroutines_serving:
  assumes "\<And>u. commits (w_tx w u)"
  shows "serving rows p \<Longrightarrow> serving rows (run_goroutines w js p)"
proof (induction js arbitrary: p)
  case (Cons j js)
  show ?case
  proof (cases "j < length (running p)")
    case True
    let ?u = "running p ! j"
    let ?p = "p\<lparr>provider := fst (run_update (w_tx w ?u) ?u (provider p)),
        running := take j (running p) @ drop (Suc j) (running p)\<rparr>"
    have "names_group (idents (provider p)) ?u" using Cons.prems True by (simp add: serving_def)
    then have "serving rows ?p"
      using Cons.prems run_update_ok [of "provider p" "w_tx w ?u" ?u, OF _ assms]
      by (auto simp: serving_def dest: in_set_takeD in_set_dropD)
    then show ?thesis using Cons.IH True by simp
  next
    case False
    then show ?thesis using Cons by simp
  qed
qed simp

definition good_key :: "nat \<Rightarrow> (nat \<times> nat \<times> string) list \<Rightarrow> APIKey \<Rightarrow> bool" where
  "good_key gid rows key \<longleftrightarrow> Status key = KeyStatusActive \<and> GroupID key = gid \<and>
     (ID key, gid, KeyValue key) \<in> set rows"

lemma select_good:
  assumes "ok p" "SelectKey gid p = (p', r)"
  shows "ok p'" "idents p' = idents p" "r = Inr key \<Longrightarrow> good_key gid (idents p) key"
proof -
  have "ok p' \<and> idents p' = idents p \<and> (r = Inr key \<longrightarrow> good_key gid (idents p) key)"
  proof (cases "vlists (view p) gid" rule: rev_cases)
    case Nil
    then show ?thesis using select_none [OF assms(1) Nil] assms by auto
  next
    case (snoc l t)
    from select_step [OF assms(1) snoc] obtain q a k where
      q: "SelectKey gid p = (q, Inr a)" "ok q" "kdb q = kdb p" "k \<in> set (kdb p)" "ID k = ID a"
        "GroupID k = gid" "KeyValue a = KeyValue k" "GroupID a = gid" "Status a = KeyStatusActive"
      by blast
    have "(ID k, GroupID k, KeyValue k) \<in> set (idents p)" using q(4) by (simp add: idents_def)
    then show ?thesis using q assms(2) by (auto simp: idents_def good_key_def)
  qed
  then show "ok p'" "idents p' = idents p" "r = Inr key \<Longrightarrow> good_key gid (idents p) key" by auto
qed

lemma idents_inj:
  assumes "ok p" "(i, g, v) \<in> set (idents p)" "(i, g', v') \<in> set (idents p)"
  shows "g = g'"
proof -
  have "distinct (map ID (kdb p))" by (rule ok_distinct [OF assms(1)])
  then show ?thesis using assms(2,3) same_id by (fastforce simp: idents_def)
qed

lemma good_key_names:
  assumes "ok p" "good_key gid (idents p) key"
  shows "names_group (idents p) (Failed th (ID key) gid)"
    "names_group (idents p) (RateLimited now rst (ID key) gid)"
  using assms idents_inj [OF assms(1)] by (fastforce simp: good_key_def)+

lemma serving_log: "serving rows p \<Longrightarrow> serving rows (logRequest w c grp k t i st n e s a b p)"
  using logRequest_ok [of p] by (simp add: serving_def idents_def)

lemma serving_report:
  assumes "serving rows p" "good_key (gID grp) rows key"
  shows "serving rows (report_failure w i grp key st m ra p)"
  using assms good_key_names [of "provider p" "gID grp" key]
  by (auto simp: serving_def report_failure_def Let_def go_def)

lemma serving_upd [simp]:
  "serving rows (p\<lparr>sent := x\<rparr>) = serving rows p" "serving rows (p\<lparr>chan := ch\<rparr>) = serving rows p"
  "serving rows (respond r p) = serving rows p"
  by (simp_all add: serving_def)

lemma attempt_serving:
  assumes "serving rows p" "\<And>u. commits (w_tx w u)"
  shows "case attempt w ord c grp rules b s t i p of
      Finished p' \<Rightarrow> serving rows p' | Again p' e \<Rightarrow> serving rows p'"
    and "\<And>p' key req. (case attempt w ord c grp rules b s t i p of Finished q \<Rightarrow> q | Again q e \<Rightarrow> q) = p' \<Longrightarrow>
      sent p' = sent p @ [(key, req)] \<Longrightarrow> good_key (gID grp) rows key"
proof -
  let ?q = "run_goroutines w (w_ends w i) p"
  have q: "serving rows ?q" using run_goroutines_serving assms by blast
  obtain kp r where sel: "SelectKey (gID grp) (provider ?q) = (kp, r)"
    by (cases "SelectKey (gID grp) (provider ?q)")
  have kp: "serving rows (?q\<lparr>provider := kp\<rparr>)" and good: "\<And>key. r = Inr key \<Longrightarrow> good_key (gID grp) rows key"
    using q select_good [OF _ sel] by (auto simp: serving_def)
  have "(case attempt w ord c grp rules b s t i p of
      Finished p' \<Rightarrow> serving rows p' | Again p' e \<Rightarrow> serving rows p') \<and>
    (\<forall>key req. sent (case attempt w ord c grp rules b s t i p of Finished q \<Rightarrow> q | Again q e \<Rightarrow> q) =
      sent p @ [(key, req)] \<longrightarrow> good_key (gID grp) rows key)"
  proof (cases r)
    case (Inl e)
    then show ?thesis using sel kp by (simp add: attempt_def Let_def serving_log)
  next
    case (Inr key)
    then show ?thesis
      using sel kp good [OF Inr]
      by (simp add: attempt_def Let_def serving_log serving_report del: run_goroutines_sel(4)
          split: prod.splits option.splits do_result.splits)
  qed
  then show "case attempt w ord c grp rules b s t i p of
      Finished p' \<Rightarrow> serving rows p' | Again p' e \<Rightarrow> serving rows p'"
    and "\<And>p' key req. (case attempt w ord c grp rules b s t i p of Finished q \<Rightarrow> q | Again q e \<Rightarrow> q) = p' \<Longrightarrow>
      sent p' = sent p @ [(key, req)] \<Longrightarrow> good_key (gID grp) rows key" by auto
qed

text \<open>An invariant of the attempts and of giving up is one of the whole run.\<close>

fun result_of :: "attempt_result \<Rightarrow> proxy" where
  "result_of (Finished p) = p"
| "result_of (Again p e) = p"

lemma loop_invariant:
  assumes "\<And>i p. I p \<Longrightarrow> I (result_of (attempt w ord c grp rules b s t i p))"
    and "\<And>i es p. I p \<Longrightarrow> I (give_up w c grp b s t i es p)"
  shows "I p \<Longrightarrow> I (executeRequestWithRetry w ord c grp rules b s t i es p)"
proof (induction "nat (MaxRetries (EffectiveConfig grp) + 1 - int i)" arbitrary: i es p rule: less_induct)
  case less
  note unfold = executeRequestWithRetry.simps [of w ord c grp rules b s t i es p]
  show ?case
  proof (cases "int i > MaxRetries (EffectiveConfig grp)")
    case True
    then show ?thesis using assms(2) less.prems by (simp add: unfold)
  next
    case False
    show ?thesis
    proof (cases "attempt w ord c grp rules b s t i p")
      case (Finished q)
      then show ?thesis using assms(1) [OF less.prems, of i] False by (simp add: unfold)
    next
      case (Again q e)
      have "I q" using assms(1) [OF less.prems, of i] Again by simp
      then show ?thesis using less.hyps [of "Suc i" q "es @ [e]"] False Again by (simp add: unfold)
    qed
  qed
qed

text \<open>The requests sent since \<^verbatim>\<open>old\<close> all have a property.\<close>

definition sent_since :: "(APIKey \<times> http_request) list \<Rightarrow> (APIKey \<times> http_request \<Rightarrow> bool) \<Rightarrow> proxy \<Rightarrow> bool" where
  "sent_since old Q p \<longleftrightarrow> (\<exists>reqs. sent p = old @ reqs \<and> (\<forall>x \<in> set reqs. Q x))"

lemma sent_since_attempt:
  assumes "sent_since old Q p"
    and "\<And>key req. sent (result_of (attempt w ord c grp rules b s t i p)) = sent p @ [(key, req)] \<Longrightarrow> Q (key, req)"
  shows "sent_since old Q (result_of (attempt w ord c grp rules b s t i p))"
proof -
  obtain reqs where r: "sent p = old @ reqs" "\<forall>x \<in> set reqs. Q x" using assms(1) by (auto simp: sent_since_def)
  show ?thesis
  proof (rule attempt_cases [of w ord c grp rules b s t i p, OF refl])
    fix p' assume "attempt w ord c grp rules b s t i p = Finished p'" "sent p' = sent p"
    then show ?thesis using r by (auto simp: sent_since_def)
  next
    fix p' key req
    assume a: "attempt w ord c grp rules b s t i p = Finished p'" "sent p' = sent p @ [(key, req)]"
    then have "Q (key, req)" using assms(2) by simp
    then show ?thesis using r a by (auto simp: sent_since_def)
  next
    fix p' e key req
    assume a: "attempt w ord c grp rules b s t i p = Again p' e" "sent p' = sent p @ [(key, req)]"
    then have "Q (key, req)" using assms(2) by simp
    then show ?thesis using r a by (auto simp: sent_since_def)
  qed
qed

lemma give_up_serving: "serving rows p \<Longrightarrow> serving rows (give_up w c grp b s t i es p)"
  by (simp add: give_up_def Let_def serving_log)

text \<open>C17: While commits succeed, handling a request keeps the store in agreement with the table,
  whichever of the started updates run between the attempts, and every request it sends is made
  with a key that was active when it was selected, that belongs to the group and has the value of
  its row.\<close>

theorem proxy_uses_active_keys:
  assumes "ok (provider p)" "\<forall>u. commits (w_tx w u)"
    and "\<forall>u \<in> set (running p). names_group (idents (provider p)) u"
    and "p' = executeRequestWithRetry w ord c grp rules b s t 0 [] p"
  shows "ok (provider p') \<and> (\<exists>reqs. sent p' = sent p @ reqs \<and> (\<forall>(key, req) \<in> set reqs.
    Status key = KeyStatusActive \<and> GroupID key = gID grp \<and>
    (\<exists>k \<in> set (kdb (provider p)). ID k = ID key \<and> GroupID k = gID grp \<and> KeyValue k = KeyValue key)))"
proof -
  let ?rows = "idents (provider p)"
  let ?Q = "\<lambda>x. good_key (gID grp) ?rows (fst x)"
  let ?I = "\<lambda>q. serving ?rows q \<and> sent_since (sent p) ?Q q"
  have com: "\<And>u. commits (w_tx w u)" using assms(2) by blast
  have step: "?I (result_of (attempt w ord c grp rules b s t i q))" if "?I q" for i q
  proof
    note a = attempt_serving [OF conjunct1 [OF that] com, of ord c grp rules b s t i]
    show "serving ?rows (result_of (attempt w ord c grp rules b s t i q))"
      using a(1) by (cases "attempt w ord c grp rules b s t i q") simp_all
    have "good_key (gID grp) ?rows key"
      if "sent (result_of (attempt w ord c grp rules b s t i q)) = sent q @ [(key, req)]" for key req
      using a(2) [OF refl, of key req] that by (cases "attempt w ord c grp rules b s t i q") simp_all
    then show "sent_since (sent p) ?Q (result_of (attempt w ord c grp rules b s t i q))"
      using that by (intro sent_since_attempt) auto
  qed
  have "?I p" using assms(1,3) by (simp add: serving_def sent_since_def)
  moreover have "?I (give_up w c grp b s t i es q)" if "?I q" for i es q
    using that by (simp add: give_up_serving sent_since_def)
  ultimately have "?I p'"
    unfolding assms(4) by (intro loop_invariant [where I = ?I] step) auto
  moreover have "\<exists>k \<in> set (kdb (provider p)). ID k = ID key \<and> GroupID k = gID grp \<and> KeyValue k = KeyValue key"
    if "good_key (gID grp) ?rows key" for key
    using that by (auto simp: good_key_def idents_def)
  ultimately show ?thesis by (fastforce simp: serving_def sent_since_def good_key_def)
qed

section \<open>Credentials\<close>

text \<open>The documented behaviour of url.Values: a parsed query has each name once, with at least one
  value, and an encoded one is parsed back.\<close>

definition query_ok :: "(string, string list) gomap \<Rightarrow> bool" where
  "query_ok q \<longleftrightarrow> gomap_ok q \<and> [] \<notin> snd ` set q"

definition query_codec :: "world \<Rightarrow> bool" where
  "query_codec w \<longleftrightarrow> (\<forall>t. query_ok (w_query w t)) \<and>
     (\<forall>q. query_ok q \<longrightarrow> gget (w_query w (w_encode_query w q)) = gget q)"

text \<open>What a channel sends of the selected key: in the headers that can hold a key, and in the
  query parameter that can.\<close>

definition credential_header :: "string \<Rightarrow> string \<Rightarrow> string \<Rightarrow> string \<Rightarrow> string option" where
  "credential_header channel_name path key_value h =
    (if channel_name = ''openai'' then (if h = ''Authorization'' then Some (''Bearer '' @ key_value) else None)
     else if channel_name = ''anthropic'' then (if h = ''X-Api-Key'' then Some key_value else None)
     else if Contains path ''v1beta/openai'' \<and> h = ''Authorization'' then Some (''Bearer '' @ key_value) else None)"

definition credential_param :: "string \<Rightarrow> string \<Rightarrow> string \<Rightarrow> string list option" where
  "credential_param channel_name path key_value =
    (if channel_name \<noteq> ''openai'' \<and> channel_name \<noteq> ''anthropic'' \<and> \<not> Contains path ''v1beta/openai''
     then Some [key_value] else None)"

definition credential_headers :: "string list" where
  "credential_headers = [''Authorization'', ''X-Api-Key'', ''X-Goog-Api-Key'']"

lemma query_ok_changes [simp]: "query_ok q \<Longrightarrow> query_ok (query_Del k q)" "query_ok q \<Longrightarrow> query_ok (query_Set k v q)"
  by (auto simp: query_ok_def query_Del_def query_Set_def dest!: in_set_gdel in_set_gput)

lemma on_query_read:
  assumes "query_codec w" "\<And>q. query_ok q \<Longrightarrow> query_ok (f q)"
  shows "gget (w_query w (u_query (rq_url (on_query w f r)))) = gget (f (w_query w (u_query (rq_url r))))"
  using assms by (simp add: query_codec_def on_query_def)

lemma on_query_sel [simp]:
  "rq_headers (on_query w f r) = rq_headers r" "u_path (rq_url (on_query w f r)) = u_path (rq_url r)"
  by (simp_all add: on_query_def)

lemma rules_headers:
  assumes "\<forall>r \<in> set rules. w_canonical w (hr_key r) \<noteq> h"
  shows "gget (rq_headers (fold (ApplyHeaderRule w ord now ip gn kv) rules r)) h = gget (rq_headers r) h"
  using assms
  by (induction rules arbitrary: r) (auto simp: ApplyHeaderRule_def Let_def h_del_def h_set_def)

lemma rules_url: "rq_url (fold (ApplyHeaderRule w ord now ip gn kv) rules r) = rq_url r"
  by (induction rules arbitrary: r) (auto simp: ApplyHeaderRule_def Let_def h_del_def h_set_def)

lemma h_set_sel [simp]: "rq_url (h_set k v r) = rq_url r" "rq_headers (h_set k v r) = gput k v (rq_headers r)"
  by (simp_all add: h_set_def)

lemma ModifyRequest_path [simp]: "u_path (rq_url (ModifyRequest w cn kv r)) = u_path (rq_url r)"
  by (auto simp: ModifyRequest_def OpenAI_ModifyRequest_def Anthropic_ModifyRequest_def Gemini_ModifyRequest_def)

lemma ModifyRequest_header:
  assumes "gget (rq_headers r) h = None" "h \<in> set credential_headers"
  shows "gget (rq_headers (ModifyRequest w cn kv r)) h = credential_header cn (u_path (rq_url r)) kv h"
  using assms
  by (auto simp: ModifyRequest_def OpenAI_ModifyRequest_def Anthropic_ModifyRequest_def
      Gemini_ModifyRequest_def credential_header_def credential_headers_def)

lemma ModifyRequest_query:
  assumes "query_codec w" "gget (w_query w (u_query (rq_url r))) ''key'' = None"
  shows "gget (w_query w (u_query (rq_url (ModifyRequest w cn kv r)))) n =
    (if n = ''key'' then credential_param cn (u_path (rq_url r)) kv
     else gget (w_query w (u_query (rq_url r))) n)"
  using assms(2) on_query_read [of w "query_Set ''key'' kv" r, OF assms(1) query_ok_changes(2)]
  by (auto simp: ModifyRequest_def OpenAI_ModifyRequest_def Anthropic_ModifyRequest_def
      Gemini_ModifyRequest_def credential_param_def query_Set_def)

lemma request_credentials:
  assumes "query_codec w" "\<forall>r \<in> set rules. w_canonical w (hr_key r) \<notin> set credential_headers"
    and "req = upstream_request w ord i c grp rules b s url cn key"
  shows "h \<in> set credential_headers \<Longrightarrow>
      gget (rq_headers req) h = credential_header cn (u_path (rq_url req)) (KeyValue key) h"
    "gget (w_query w (u_query (rq_url req))) n =
      (if n = ''key'' then credential_param cn (u_path (rq_url req)) (KeyValue key)
       else gget (w_query w (u_query url)) n)"
proof -
  define r2 where "r2 = on_query w (query_Del ''key'') \<lparr>rq_method = cr_method c, rq_url = url,
      rq_headers = gdel ''X-Goog-Api-Key'' (gdel ''X-Api-Key'' (gdel ''Authorization'' (cr_headers c))),
      rq_body = b\<rparr>"
  define r3 where "r3 = fold (ApplyHeaderRule w ord (w_clock w i) (cr_ip c) (gName grp) (KeyValue key)) rules r2"
  have req: "req = (if s then h_set ''X-Accel-Buffering'' ''no'' (ModifyRequest w cn (KeyValue key) r3)
       else ModifyRequest w cn (KeyValue key) r3)"
    by (simp add: assms(3) upstream_request_def Let_def r3_def r2_def h_del_def)
  have url: "rq_url r3 = rq_url r2" by (simp add: r3_def rules_url)
  then have path: "u_path (rq_url r3) = u_path (rq_url req)" by (simp add: req)
  show "gget (rq_headers req) h = credential_header cn (u_path (rq_url req)) (KeyValue key) h"
    if h: "h \<in> set credential_headers"
  proof -
    have ne: "\<forall>r \<in> set rules. w_canonical w (hr_key r) \<noteq> h" using assms(2) h by auto
    have "gget (rq_headers r2) h = None" using h by (auto simp: r2_def credential_headers_def)
    then have "gget (rq_headers r3) h = None" unfolding r3_def rules_headers [OF ne] .
    note m = ModifyRequest_header [OF this h, of w cn "KeyValue key", unfolded path]
    have "h \<noteq> ''X-Accel-Buffering''" using h by (auto simp: credential_headers_def)
    then show ?thesis using m by (simp add: req)
  qed
  have q2: "gget (w_query w (u_query (rq_url r3))) n = (if n = ''key'' then None else gget (w_query w (u_query url)) n)" for n
    using on_query_read [of w "query_Del ''key''", OF assms(1) query_ok_changes(1)] by (simp add: url r2_def query_Del_def)
  show "gget (w_query w (u_query (rq_url req))) n =
      (if n = ''key'' then credential_param cn (u_path (rq_url req)) (KeyValue key)
       else gget (w_query w (u_query url)) n)"
    using ModifyRequest_query [OF assms(1), of r3 cn "KeyValue key" n, unfolded path] q2 by (auto simp: req)
qed

lemma BuildUpstreamURL_query:
  "BuildUpstreamURL u g c = (ch, Some url) \<Longrightarrow> u_query url = u_query u"
  by (auto simp: BuildUpstreamURL_def split: prod.splits option.splits)

lemma attempt_request:
  assumes "sent (result_of (attempt w ord c grp rules b s t i p)) = sent p @ [(key, req)]"
  shows "\<exists>url. req = upstream_request w ord i c grp rules b s url (cName (chan p)) key \<and>
    u_query url = u_query (cr_url c)"
proof -
  have ch: "cName ch = cName (chan p)" if "BuildUpstreamURL u g (chan p) = (ch, x)" for ch x u g
    using that by (auto simp: BuildUpstreamURL_def split: prod.splits option.splits)
  have "\<exists>url ch. BuildUpstreamURL (cr_url c) (gName grp) (chan p) = (ch, Some url) \<and>
      req = upstream_request w ord i c grp rules b s url (cName (chan p)) key"
    using assms
    by (auto simp: attempt_def Let_def ch split: prod.splits sum.splits option.splits do_result.splits
        if_splits)
  then show ?thesis using BuildUpstreamURL_query by blast
qed

lemma attempt_channel: "cName (chan (result_of (attempt w ord c grp rules b s t i p))) = cName (chan p)"
proof -
  have ch: "cName ch = cName (chan p)" if "BuildUpstreamURL u g (chan p) = (ch, x)" for ch x u g
    using that by (auto simp: BuildUpstreamURL_def split: prod.splits option.splits)
  show ?thesis
    by (auto simp: attempt_def Let_def ch split: prod.splits sum.splits option.splits do_result.splits)
qed

text \<open>C18: The client's credentials are never passed on. The proxy accepts a key in four places: the
  headers Authorization, X-Api-Key and X-Goog-Api-Key, and the query parameter key. In every request
  that is sent, each of the four holds exactly what the type of the channel puts there of the
  selected key, and nothing where it puts nothing, whatever the client sent; all other parameters
  are the client's. Two conditions: no header rule of the group names one of the three headers (a
  rule is applied after the cleaning and may set any header), and the query codec is that of
  net/url, which reads back what it encodes. The names of the client's headers are canonical, as
  the server library delivers them.\<close>

theorem client_credentials_replaced:
  assumes "query_codec w" "\<forall>r \<in> set rules. w_canonical w (hr_key r) \<notin> set credential_headers"
    and "p' = executeRequestWithRetry w ord c grp rules b s t 0 [] p"
  shows "\<exists>reqs. sent p' = sent p @ reqs \<and> (\<forall>(key, req) \<in> set reqs.
    (\<forall>h \<in> set credential_headers. gget (rq_headers req) h =
       credential_header (cName (chan p)) (u_path (rq_url req)) (KeyValue key) h) \<and>
    (\<forall>n. gget (w_query w (u_query (rq_url req))) n =
       (if n = ''key'' then credential_param (cName (chan p)) (u_path (rq_url req)) (KeyValue key)
        else gget (w_query w (u_query (cr_url c))) n)))"
proof -
  let ?Q = "\<lambda>x. (\<forall>h \<in> set credential_headers. gget (rq_headers (snd x)) h =
       credential_header (cName (chan p)) (u_path (rq_url (snd x))) (KeyValue (fst x)) h) \<and>
    (\<forall>n. gget (w_query w (u_query (rq_url (snd x)))) n =
       (if n = ''key'' then credential_param (cName (chan p)) (u_path (rq_url (snd x))) (KeyValue (fst x))
        else gget (w_query w (u_query (cr_url c))) n))"
  let ?I = "\<lambda>q. cName (chan q) = cName (chan p) \<and> sent_since (sent p) ?Q q"
  have "?I (result_of (attempt w ord c grp rules b s t i q))" if "?I q" for i q
  proof
    show "cName (chan (result_of (attempt w ord c grp rules b s t i q))) = cName (chan p)"
      using that by (simp add: attempt_channel)
    have "?Q (key, req)"
      if a: "sent (result_of (attempt w ord c grp rules b s t i q)) = sent q @ [(key, req)]" for key req
    proof -
      obtain url where u:
        "req = upstream_request w ord i c grp rules b s url (cName (chan p)) key"
        "u_query url = u_query (cr_url c)"
        using attempt_request [OF a] \<open>?I q\<close> by auto
      show ?thesis using request_credentials [OF assms(1,2) u(1)] u(2) by simp
    qed
    then show "sent_since (sent p) ?Q (result_of (attempt w ord c grp rules b s t i q))"
      using that by (intro sent_since_attempt) auto
  qed
  moreover have "?I p" by (simp add: sent_since_def)
  moreover have "?I (give_up w c grp b s t i es q)" if "?I q" for i es q
    using that by (simp add: give_up_def Let_def sent_since_def)
  ultimately have "?I p'"
    unfolding assms(3) by (intro loop_invariant [where I = ?I]) auto
  then show ?thesis by (auto simp: sent_since_def case_prod_beta)
qed

section \<open>An example\<close>

text \<open>A query codec: every name and value is written character by character, with a mark before each.\<close>

definition write_text :: "string \<Rightarrow> string" where
  "write_text s = concat (map (\<lambda>c. [CHR ''c'', c]) s) @ ''.''"

fun read_text :: "string \<Rightarrow> string \<times> string" where
  "read_text (x # y # r) =
    (if x = CHR ''c'' then (case read_text r of (s, r') \<Rightarrow> (y # s, r')) else ([], y # r))"
| "read_text r = ([], [])"

definition write_values :: "string list \<Rightarrow> string" where
  "write_values vs = concat (map (\<lambda>v. CHR ''v'' # write_text v) vs) @ '';''"

fun read_values :: "nat \<Rightarrow> string \<Rightarrow> string list \<times> string" where
  "read_values (Suc n) (x # r) =
    (if x = CHR ''v''
     then (case read_text r of (v, r1) \<Rightarrow> (case read_values n r1 of (vs, r2) \<Rightarrow> (v # vs, r2)))
     else ([], r))"
| "read_values n r = ([], r)"

definition write_query :: "(string, string list) gomap \<Rightarrow> string" where
  "write_query q = concat (map (\<lambda>(n, vs). CHR ''q'' # write_text n @ write_values vs) q)"

fun read_pairs :: "nat \<Rightarrow> string \<Rightarrow> (string, string list) gomap" where
  "read_pairs (Suc n) (x # r) =
    (case read_text r of (k, r1) \<Rightarrow> (case read_values (length r1) r1 of (vs, r2) \<Rightarrow> (k, vs) # read_pairs n r2))"
| "read_pairs n r = []"

definition read_query :: "string \<Rightarrow> (string, string list) gomap" where
  "read_query t = (let q = read_pairs (length t) t in if query_ok q then q else [])"

lemma read_write_text: "read_text (write_text s @ r) = (s, r)"
proof (induction s)
  case Nil
  then show ?case by (cases r) (simp_all add: write_text_def)
qed (simp add: write_text_def)

lemma read_write_values: "length vs \<le> n \<Longrightarrow> read_values (Suc n) (write_values vs @ r) = (vs, r)"
proof (induction vs arbitrary: n)
  case (Cons v vs)
  then obtain m where "n = Suc m" "length vs \<le> m" by (cases n) auto
  then show ?case
    using Cons.IH read_write_text [of v "write_values vs @ r"] by (simp add: write_values_def)
qed (simp add: write_values_def)

lemma length_write_values: "length vs < length (write_values vs)"
  by (induction vs) (simp_all add: write_values_def)

lemma read_write_pairs: "length q \<le> n \<Longrightarrow> read_pairs n (write_query q) = q"
proof (induction q arbitrary: n)
  case (Cons x q)
  obtain k vs where x: "x = (k, vs)" by fastforce
  obtain m where m: "n = Suc m" "length q \<le> m" using Cons.prems by (cases n) auto
  let ?r = "write_values vs @ write_query q"
  obtain l where l: "length ?r = Suc l" "length vs \<le> l"
    using length_write_values [of vs] by (cases "length ?r") auto
  then have "read_values (length ?r) ?r = (vs, write_query q)" using read_write_values by simp
  then show ?case
    using m Cons.IH read_write_text [of k ?r] by (simp add: x write_query_def)
qed (simp add: write_query_def)

lemma length_write_query: "length q \<le> length (write_query q)"
  by (induction q) (auto simp: write_query_def)

lemma read_write_query: "query_ok q \<Longrightarrow> read_query (write_query q) = q"
  using read_write_pairs [OF length_write_query] by (simp add: read_query_def Let_def)

text \<open>The first attempt fails with status 500, the second succeeds; the client's own key is in a
  header and in the query.\<close>

definition demo_world :: world where
  "demo_world = \<lparr>w_result = (\<lambda>i. Response \<lparr>up_status = (if i = 0 then 500 else 200), up_body = Some ''e'',
       up_encoding = [], up_retry_after = []\<rparr>),
     w_ends = (\<lambda>_. [0]), w_tx = (\<lambda>_ _. tx_ok), w_clock = (\<lambda>_. 0), w_until = (\<lambda>_. None),
     w_gunzip = (\<lambda>_. None), w_message = (\<lambda>_ _. None), w_is_json = (\<lambda>_. False),
     w_bad_url = (\<lambda>_. False), w_render = u_base, w_query = read_query, w_encode_query = write_query,
     w_canonical = id, w_replace = (\<lambda>s _ _. s), w_error_text = (\<lambda>_. ''error''),
     w_json_model = (\<lambda>_. None), w_json_stream = (\<lambda>_. None), w_encode_log = (\<lambda>_. None),
     w_log_env = demo_env False, w_log_minutes = 1, w_uuid = ''1''\<rparr>"

definition demo_request :: client_request where
  "demo_request = \<lparr>cr_method = ''POST'', cr_url = (the (demo_parse ''c''))\<lparr>u_query := write_query
       [(''key'', [''client'']), (''n'', [''1''])]\<rparr>,
     cr_headers = [(''Authorization'', ''Bearer client'')], cr_ip = [], cr_agent = [], cr_stream_param = []\<rparr>"

definition demo_proxy :: proxy where
  "demo_proxy = \<lparr>provider = demo_loaded, chan = demo_channel, logdb = demo_db, sent = [], started = [],
     running = [], events = [], answer = None\<rparr>"

definition demo_end :: proxy where
  "demo_end = executeRequestWithRetry demo_world id demo_request (demo_group\<lparr>gID := 1\<rparr>) [] ''b'' False 0 0 []
     demo_proxy"

theorem proxy_retries_witness:
  "\<exists>reqs. sent demo_end = reqs \<and> int (length reqs) \<le> 2 \<and> answered demo_world (demo_group\<lparr>gID := 1\<rparr>) 0 reqs demo_end"
  using proxy_retries [OF demo_end_def] by (auto simp: demo_proxy_def demo_group_def)

theorem proxy_uses_active_keys_witness:
  "ok (provider demo_end) \<and> list_all (\<lambda>(key, req). Status key = KeyStatusActive) (sent demo_end)"
  using proxy_uses_active_keys [OF _ _ _ demo_end_def] demo_loaded_ok(1)
  by (auto simp: demo_proxy_def demo_world_def commits_def list_all_iff)

lemma demo_query_codec: "query_codec demo_world"
  using read_write_query by (auto simp: query_codec_def demo_world_def read_query_def Let_def query_ok_def)

theorem client_credentials_replaced_witness:
  "list_all (\<lambda>(key, req). gget (rq_headers req) ''Authorization'' = Some (''Bearer '' @ KeyValue key) \<and>
      gget (read_query (u_query (rq_url req))) ''key'' = None \<and>
      gget (read_query (u_query (rq_url req))) ''n'' = Some [''1''])
    (sent demo_end)"
proof -
  have q: "read_query (u_query (cr_url demo_request)) = [(''key'', [''client'']), (''n'', [''1''])]"
    using read_write_query [of "[(''key'', [''client'']), (''n'', [''1''])]"]
    by (simp add: demo_request_def query_ok_def gomap_ok_def)
  have "w_query demo_world = read_query" by (simp add: demo_world_def)
  then show ?thesis
    using client_credentials_replaced [OF demo_query_codec _ demo_end_def] q
    by (fastforce simp: demo_proxy_def demo_channel_def credential_header_def credential_param_def
        credential_headers_def list_all_iff)
qed

end
