(* ===== verification/KeyService.thy ===== *)
theory KeyService
  imports GoText ProviderProps
begin

text \<open>The key service of src/internal/services/key_service.go: key values in a text are parsed,
  checked and added to, restored in or deleted from a group, in chunks, through the key provider. The
  branches of the code for an EnhancedKeyProvider call methods that no file declares; the model has
  the branch of the KeyProvider. Decoding a text as a JSON array of strings is the parameter
  \<^verbatim>\<open>json\<close>: whether it succeeds, and what it has stored in the slice when it ends. A
  text is a list of bytes.\<close>

section \<open>Parsing\<close>

definition maxRequestKeys :: nat where "maxRequestKeys = 5000"

definition chunkSize :: nat where "chunkSize = 1000"

definition key_char :: "char \<Rightarrow> bool" where
  "key_char c = (let n = (of_char c :: nat) in
     (97 \<le> n \<and> n \<le> 122) \<or> (65 \<le> n \<and> n \<le> 90) \<or> (48 \<le> n \<and> n \<le> 58) \<or>
     n = 95 \<or> n = 45 \<or> n = 46 \<or> n = 47 \<or> n = 43 \<or> n = 61)"

definition isValidKeyFormat :: "string \<Rightarrow> bool" where
  "isValidKeyFormat key =
    (if length key < 4 \<or> length key > 1000 then False
     else if key = [] \<or> TrimSpace key = [] then False
     else list_all key_char key)"

definition filterValidKeys :: "string list \<Rightarrow> string list" where
  "filterValidKeys keys = filter isValidKeyFormat (map TrimSpace keys)"

definition delimiter :: "char \<Rightarrow> bool" where
  "delimiter c \<longleftrightarrow> is_space c \<or> c = CHR '','' \<or> c = CHR '';'' \<or> c = CHR ''|''"

text \<open>Regexp.Split at maximal runs of delimiters.\<close>

function split_runs :: "string \<Rightarrow> string list" where
  "split_runs [] = [[]]"
| "split_runs (c # cs) =
    (if delimiter c then [] # split_runs (dropWhile delimiter cs)
     else (case split_runs cs of [] \<Rightarrow> [[c]] | w # ws \<Rightarrow> (c # w) # ws))"
  by pat_completeness auto
termination
  by (relation "measure length") (auto simp: less_Suc_eq_le length_dropWhile_le)

definition ParseKeysFromText :: "(string \<Rightarrow> bool \<times> string list) \<Rightarrow> string \<Rightarrow> string list" where
  "ParseKeysFromText json text =
    (let (good, keys) = json text in
     if good \<and> keys \<noteq> [] then filterValidKeys keys
     else filterValidKeys
       (keys @ filter (\<lambda>k. k \<noteq> []) (map TrimSpace (split_runs (TrimSpace text)))))"

section \<open>Adding keys\<close>

definition new_key :: "nat \<Rightarrow> string \<Rightarrow> APIKey" where
  "new_key gid v = \<lparr>ID = 0, KeyValue = v, GroupID = gid, Status = KeyStatusActive, FailureCount = 0,
     RateLimitCount = 0, Last429At = None, RateLimitResetAt = None, CreatedAt = 0\<rparr>"

text \<open>The values to create: trimmed, well-formed, not in the group and not seen before.\<close>

fun new_values :: "string list \<Rightarrow> string list \<Rightarrow> string list \<Rightarrow> string list" where
  "new_values existing seen [] = []"
| "new_values existing seen (v # vs) =
    (let t = TrimSpace v in
     if t = [] then new_values existing seen vs
     else if t \<in> set existing \<or> t \<in> set seen then new_values existing seen vs
     else if isValidKeyFormat t then t # new_values existing (t # seen) vs
     else new_values existing seen vs)"

text \<open>The loop over the chunks. Chunk \<^verbatim>\<open>j\<close> is added in the environment \<^verbatim>\<open>envs j\<close>;
  \<^verbatim>\<open>cb\<close> is the progress callback, the identity when there is none.\<close>

function create_chunks ::
  "(nat \<Rightarrow> tx_env) \<Rightarrow> (nat \<Rightarrow> kp \<Rightarrow> kp) \<Rightarrow> nat \<Rightarrow> nat \<Rightarrow> APIKey list \<Rightarrow> kp \<Rightarrow>
   kp \<times> nat \<times> kp_err option" where
  "create_chunks envs cb j addedCount keys p =
    (if keys = [] then (p, addedCount, None)
     else
     (let chunk = take chunkSize keys in
      case AddKeys (envs j) chunk p of
        (p1, Some e) \<Rightarrow> (p1, addedCount, Some e)
      | (p1, None) \<Rightarrow>
          let n = addedCount + length chunk in
          create_chunks envs cb (Suc j) n (drop chunkSize keys) (cb n p1)))"
  by pat_completeness auto
termination
  by (relation "measure (\<lambda>(envs, cb, j, n, keys, p). length keys)") (auto simp: chunkSize_def)

declare create_chunks.simps [simp del]

definition processAndCreateKeys ::
  "db_err option \<Rightarrow> (nat \<Rightarrow> tx_env) \<Rightarrow> (nat \<Rightarrow> kp \<Rightarrow> kp) \<Rightarrow> nat \<Rightarrow> string list \<Rightarrow> kp \<Rightarrow>
   kp \<times> nat \<times> nat \<times> kp_err option" where
  "processAndCreateKeys find_err envs cb groupID keys p =
    (case find_err of
       Some e \<Rightarrow> (p, 0, 0, Some (KDb e))
     | None \<Rightarrow>
         let existing = map KeyValue (filter (\<lambda>k. GroupID k = groupID) (kdb p));
             newKeysToCreate = map (new_key groupID) (new_values existing [] keys) in
         if newKeysToCreate = [] then (p, 0, length keys, None)
         else
         (case create_chunks envs cb 0 0 newKeysToCreate p of
            (p', addedCount, err) \<Rightarrow> (p', addedCount, length keys - addedCount, err)))"

datatype ks_err = TooManyKeys nat | NoValidKeys | ProviderFailed kp_err | CountFailed db_err

record AddKeysResult =
  AddedCount :: nat
  IgnoredCount :: nat
  TotalInGroup :: nat

definition total_in_group :: "nat \<Rightarrow> kp \<Rightarrow> nat" where
  "total_in_group groupID p = length (filter (\<lambda>k. GroupID k = groupID) (kdb p))"

definition AddMultipleKeys ::
  "(string \<Rightarrow> bool \<times> string list) \<Rightarrow> db_err option \<Rightarrow> db_err option \<Rightarrow> (nat \<Rightarrow> tx_env) \<Rightarrow> nat \<Rightarrow>
   string \<Rightarrow> kp \<Rightarrow> kp \<times> (ks_err + AddKeysResult)" where
  "AddMultipleKeys json find_err count_err envs groupID keysText p =
    (let keys = ParseKeysFromText json keysText in
     if length keys > maxRequestKeys then (p, Inl (TooManyKeys (length keys)))
     else if keys = [] then (p, Inl NoValidKeys)
     else
     (case processAndCreateKeys find_err envs (\<lambda>_ p. p) groupID keys p of
        (p1, _, _, Some e) \<Rightarrow> (p1, Inl (ProviderFailed e))
      | (p1, added, ignored, None) \<Rightarrow>
          (case count_err of
             Some e \<Rightarrow> (p1, Inl (CountFailed e))
           | None \<Rightarrow> (p1, Inr \<lparr>AddedCount = added, IgnoredCount = ignored,
               TotalInGroup = total_in_group groupID p1\<rparr>))))"

section \<open>Restoring and deleting keys\<close>

text \<open>The loop over chunks that both share; the first error ends it, without a result.\<close>

function total_over_chunks ::
  "(tx_env \<Rightarrow> nat \<Rightarrow> string list \<Rightarrow> kp \<Rightarrow> kp \<times> nat \<times> kp_err option) \<Rightarrow> (nat \<Rightarrow> tx_env) \<Rightarrow> nat \<Rightarrow>
   nat \<Rightarrow> nat \<Rightarrow> string list \<Rightarrow> kp \<Rightarrow> kp \<times> (kp_err + nat)" where
  "total_over_chunks op envs groupID j n keys p =
    (if keys = [] then (p, Inr n)
     else
     (case op (envs j) groupID (take chunkSize keys) p of
        (p1, _, Some e) \<Rightarrow> (p1, Inl e)
      | (p1, m, None) \<Rightarrow>
          total_over_chunks op envs groupID (Suc j) (n + m) (drop chunkSize keys) p1))"
  by pat_completeness auto
termination
  by (relation "measure (\<lambda>(op, envs, g, j, n, keys, p). length keys)") (auto simp: chunkSize_def)

declare total_over_chunks.simps [simp del]

definition in_bulk ::
  "(tx_env \<Rightarrow> nat \<Rightarrow> string list \<Rightarrow> kp \<Rightarrow> kp \<times> nat \<times> kp_err option) \<Rightarrow>
   (string \<Rightarrow> bool \<times> string list) \<Rightarrow> db_err option \<Rightarrow> (nat \<Rightarrow> tx_env) \<Rightarrow> nat \<Rightarrow> string \<Rightarrow> kp \<Rightarrow>
   kp \<times> (ks_err + nat \<times> nat \<times> nat)" where
  "in_bulk op json count_err envs groupID keysText p =
    (let keys = ParseKeysFromText json keysText in
     if length keys > maxRequestKeys then (p, Inl (TooManyKeys (length keys)))
     else if keys = [] then (p, Inl NoValidKeys)
     else
     (case total_over_chunks op envs groupID 0 0 keys p of
        (p1, Inl e) \<Rightarrow> (p1, Inl (ProviderFailed e))
      | (p1, Inr n) \<Rightarrow>
          (case count_err of
             Some e \<Rightarrow> (p1, Inl (CountFailed e))
           | None \<Rightarrow> (p1, Inr (n, length keys - n, total_in_group groupID p1)))))"

definition RestoreMultipleKeysFromText ::
  "(string \<Rightarrow> bool \<times> string list) \<Rightarrow> db_err option \<Rightarrow> (nat \<Rightarrow> tx_env) \<Rightarrow> nat \<Rightarrow> string \<Rightarrow> kp \<Rightarrow>
   kp \<times> (ks_err + nat \<times> nat \<times> nat)" where
  "RestoreMultipleKeysFromText = in_bulk RestoreMultipleKeys"

definition DeleteMultipleKeys ::
  "(string \<Rightarrow> bool \<times> string list) \<Rightarrow> db_err option \<Rightarrow> (nat \<Rightarrow> tx_env) \<Rightarrow> nat \<Rightarrow> string \<Rightarrow> kp \<Rightarrow>
   kp \<times> (ks_err + nat \<times> nat \<times> nat)" where
  "DeleteMultipleKeys = in_bulk RemoveKeys"

section \<open>Export\<close>

text \<open>StreamKeysToWriter: the values of the selected rows by id, one per line; None is an invalid
  filter. FindInBatches orders the rows by their primary key; the batches are invisible in the
  output.\<close>

definition StreamKeysToWriter :: "nat \<Rightarrow> string \<Rightarrow> kp \<Rightarrow> string option" where
  "StreamKeysToWriter groupID statusFilter p =
    (let out = (\<lambda>P. Some (concat (map (\<lambda>k. KeyValue k @ [CHR 0x0A])
           (sort_key ID (filter (\<lambda>k. GroupID k = groupID \<and> P k) (kdb p)))))) in
     if statusFilter = KeyStatusActive \<or> statusFilter = KeyStatusInvalid
     then out (\<lambda>k. Status k = statusFilter)
     else if statusFilter = ''all'' then out (\<lambda>k. True)
     else None)"

section \<open>Parsed keys\<close>

lemma TrimSpace_idem: "isValidKeyFormat t \<Longrightarrow> TrimSpace t = t"
proof -
  assume v: "isValidKeyFormat t"
  define ws where "ws = (\<lambda>c. is_space c \<or> (of_char c :: nat) = 11)"
  have k: "\<forall>c \<in> set t. \<not> ws c"
    using v by (auto simp: isValidKeyFormat_def list_all_iff key_char_def is_space_def ws_def Let_def
        split: if_splits)
  have d: "dropWhile ws xs = xs" if "\<forall>c \<in> set xs. \<not> ws c" for xs
    using that by (cases xs) auto
  show ?thesis using k by (simp add: TrimSpace_def Let_def ws_def [symmetric] d)
qed

text \<open>The elements of a list without later repetitions.\<close>

definition first_occurrences :: "'a list \<Rightarrow> 'a list" where
  "first_occurrences xs = rev (remdups (rev xs))"

lemma first_occurrences_Nil [simp]: "first_occurrences [] = []"
  by (simp add: first_occurrences_def)

lemma remdups_snoc: "remdups (xs @ [x]) = filter (\<lambda>y. y \<noteq> x) (remdups xs) @ [x]"
  by (induction xs) auto

lemma first_occurrences_Cons:
  "first_occurrences (x # xs) = x # filter (\<lambda>y. y \<noteq> x) (first_occurrences xs)"
  by (simp add: first_occurrences_def remdups_snoc rev_filter)

lemma distinct_first_occurrences [simp]: "distinct (first_occurrences xs)"
  by (simp add: first_occurrences_def)

lemma set_first_occurrences [simp]: "set (first_occurrences xs) = set xs"
  by (simp add: first_occurrences_def)

lemma empty_invalid [simp]: "\<not> isValidKeyFormat []"
  by (simp add: isValidKeyFormat_def)

lemma new_values_eq:
  "new_values existing seen vs =
     filter (\<lambda>t. t \<notin> set existing \<and> t \<notin> set seen) (first_occurrences (filterValidKeys vs))"
proof (induction vs arbitrary: seen)
  case Nil
  then show ?case by (simp add: filterValidKeys_def)
next
  case (Cons v vs)
  let ?t = "TrimSpace v"
  have f: "filterValidKeys (v # vs) =
      (if isValidKeyFormat ?t then ?t # filterValidKeys vs else filterValidKeys vs)"
    by (simp add: filterValidKeys_def)
  have e: "isValidKeyFormat ?t \<Longrightarrow> ?t \<noteq> []" by (metis empty_invalid)
  show ?case
    using e by (auto simp: f Cons.IH first_occurrences_Cons Let_def intro: filter_cong)
qed

section \<open>Adding keys changes the table as it reports\<close>

lemma number_from_append:
  "number_from n (xs @ ys) = number_from n xs @ number_from (n + length xs) ys"
  by (induction n xs rule: number_from.induct) simp_all

lemma number_from_Nil_iff [simp]: "number_from n ks = [] \<longleftrightarrow> ks = []"
  by (cases ks) simp_all

lemma number_from_values:
  "map (\<lambda>k. (GroupID k, KeyValue k)) (number_from n ks) = map (\<lambda>k. (GroupID k, KeyValue k)) ks"
  by (induction n ks rule: number_from.induct) simp_all

lemma unique_number_from [simp]:
  "unique_values (xs @ number_from n ks) = unique_values (xs @ ks)"
  "unique_values (xs @ number_from n ks @ ys) = unique_values (xs @ ks @ ys)"
  by (simp_all add: unique_values_def number_from_values flip: set_map)

lemma AddKeys_table:
  assumes "kp_ok p" "AddKeys env keys p = (p', r)"
  shows "kp_ok p' \<and>
    (if r = None
     then kdb p' = kdb p @ number_from (next_id p) keys \<and> next_id p' = next_id p + length keys
     else kdb p' = kdb p \<and> next_id p' = next_id p) \<and>
    (env = tx_ok \<and> unique_values (kdb p @ keys) \<longrightarrow> r = None) \<and>
    (commit_err env = None \<and> unique_values (kdb p @ keys) \<and> keys \<noteq> [] \<longrightarrow>
       r = map_option KDb (update_err env))"
proof (cases "keys = [] \<or> update_err env \<noteq> None \<or> \<not> unique_values (kdb p @ keys)")
  case True
  then show ?thesis
    using assms
    by (cases "keys = []"; cases "update_err env") (auto simp: AddKeys_def transaction_def Let_def)
next
  case False
  let ?new = "number_from (next_id p) keys"
  let ?p1 = "p\<lparr>kdb := kdb p @ ?new, next_id := next_id p + length ?new\<rparr>"
  have k1: "kp_ok ?p1" using assms(1) by simp
  obtain z where z: "run_all (map addKeyToStore ?new) ?p1 = (z, None)" "kp_ok z"
    "view z = fold add_effect ?new (view ?p1)"
    using does_add_all [of ?new] k1 unfolding does_def by blast
  have "vdb (fold add_effect ks v) = vdb v \<and> vnext (fold add_effect ks v) = vnext v" for ks v
    by (induction ks arbitrary: v) (simp_all add: add_effect_def Let_def)
  then have zv: "kdb z = kdb ?p1 \<and> next_id z = next_id ?p1" using view_eq_db [OF z(3)] by simp
  have "length ?new = length keys"
    using number_from_ids [of "next_id p" keys] by (metis length_map length_upt add_diff_cancel_left')
  then show ?thesis
    using assms False z zv
    by (auto simp: AddKeys_def transaction_def Let_def split: option.splits)
qed

text \<open>A progress callback that leaves the keys alone.\<close>

definition harmless :: "(nat \<Rightarrow> kp \<Rightarrow> kp) \<Rightarrow> bool" where
  "harmless cb \<longleftrightarrow> (\<forall>n q. kp_ok q \<longrightarrow> kp_ok (cb n q) \<and> view (cb n q) = view q)"

lemma harmless_id [simp]: "harmless (\<lambda>_ q. q)"
  by (simp add: harmless_def)

lemma harmlessD:
  assumes "harmless cb" "kp_ok q"
  shows "kp_ok (cb n q)" "view (cb n q) = view q" "kdb (cb n q) = kdb q" "next_id (cb n q) = next_id q"
  using assms view_sel by (auto simp: harmless_def) (metis view_sel)+

text \<open>Where a run over the chunks of \<^verbatim>\<open>len\<close> rows stops that begins with environment \<^verbatim>\<open>j\<close>: with
  no error at the end, when no chunk's insertion fails, and otherwise before the first chunk
  whose insertion fails, with its error.\<close>

definition stops_at :: "(nat \<Rightarrow> tx_env) \<Rightarrow> nat \<Rightarrow> nat \<Rightarrow> nat \<Rightarrow> kp_err option \<Rightarrow> bool" where
  "stops_at envs j len k err \<longleftrightarrow>
     (case err of
        None \<Rightarrow> k = len \<and> (\<forall>i. i * chunkSize < len \<longrightarrow> update_err (envs (j + i)) = None)
      | Some e \<Rightarrow> \<exists>i d. k = i * chunkSize \<and> k < len \<and> e = KDb d \<and>
          update_err (envs (j + i)) = Some d \<and> (\<forall>i' < i. update_err (envs (j + i')) = None))"

lemma stops_at_empty: "stops_at envs j 0 0 None"
  by (simp add: stops_at_def)

lemma stops_at_first: "0 < len \<Longrightarrow> update_err (envs j) = Some d \<Longrightarrow> stops_at envs j len 0 (Some (KDb d))"
  by (auto simp: stops_at_def)

lemma stops_at_next:
  assumes "update_err (envs j) = None" "stops_at envs (Suc j) (len - chunkSize) k err" "0 < len"
  shows "stops_at envs j len (min len chunkSize + k) err"
proof (cases err)
  case None
  have "update_err (envs (j + i)) = None" if "i * chunkSize < len" for i
  proof (cases i)
    case (Suc i')
    then have "i' * chunkSize < len - chunkSize" using that by (simp add: less_diff_conv)
    then show ?thesis using assms(2) None Suc by (simp add: stops_at_def)
  qed (use assms(1) in simp)
  then show ?thesis using assms(2) None by (auto simp: stops_at_def)
next
  case (Some e)
  then obtain i d where i: "k = i * chunkSize" "k < len - chunkSize" "e = KDb d"
    "update_err (envs (Suc j + i)) = Some d" "\<forall>i' < i. update_err (envs (Suc j + i')) = None"
    using assms(2) by (auto simp: stops_at_def)
  have "update_err (envs (j + i')) = None" if "i' < Suc i" for i'
    using that assms(1) i(5) by (cases i') auto
  then show ?thesis using i Some by (auto simp: stops_at_def intro!: exI [of _ "Suc i"])
qed

lemma create_chunks_table:
  assumes "harmless cb" "kp_ok p" "unique_values (kdb p @ keys)"
    and "create_chunks envs cb j n keys p = (p', m, err)"
  shows "\<exists>k \<le> length keys. m = n + k \<and> kp_ok p' \<and>
    kdb p' = kdb p @ number_from (next_id p) (take k keys) \<and>
    (err = None \<longleftrightarrow> k = length keys) \<and> ((\<forall>i. envs i = tx_ok) \<longrightarrow> err = None) \<and>
    (commits envs \<longrightarrow> stops_at envs j (length keys) k err)"
  using assms
proof (induction envs cb j n keys p arbitrary: p' m err rule: create_chunks.induct)
  case (1 envs cb j n keys p)
  show ?case
  proof (cases "keys = []")
    case True
    then show ?thesis using "1.prems" by (simp add: create_chunks.simps stops_at_empty)
  next
    case False
    let ?c = "take chunkSize keys"
    let ?d = "drop chunkSize keys"
    have kd: "kdb p @ keys = (kdb p @ ?c) @ ?d" by simp
    have u: "unique_values (kdb p @ ?c)"
      using "1.prems"(3) unfolding kd unique_values_def by (simp only: map_append distinct_append)
    obtain p1 r where a: "AddKeys (envs j) ?c p = (p1, r)" by fastforce
    note t = AddKeys_table [OF "1.prems"(2) a]
    have ur: "commits envs \<longrightarrow> r = map_option KDb (update_err (envs j))"
      using t u False by (auto simp: commits_def chunkSize_def)
    show ?thesis
    proof (cases r)
      case (Some e)
      have "stops_at envs j (length keys) 0 r" if c: "commits envs"
      proof -
        obtain d where "update_err (envs j) = Some d" "r = Some (KDb d)"
          using ur c Some by (cases "update_err (envs j)") auto
        then show ?thesis using stops_at_first False by simp
      qed
      moreover have "kp_ok p1" "kdb p1 = kdb p" "envs j \<noteq> tx_ok" using t u Some by auto
      ultimately show ?thesis
        using "1.prems"(4) False a Some by (auto simp: create_chunks.simps Let_def intro!: exI [of _ 0])
    next
      case None
      let ?n = "n + length ?c"
      let ?q = "cb ?n p1"
      have k1: "kp_ok p1" and d1: "kdb p1 = kdb p @ number_from (next_id p) ?c"
        "next_id p1 = next_id p + length ?c" using t None by auto
      note h = harmlessD [OF "1.prems"(1) k1, of ?n]
      have rec: "create_chunks envs cb (Suc j) ?n ?d ?q = (p', m, err)"
        using "1.prems"(4) False a None by (subst (asm) create_chunks.simps) (simp add: Let_def)
      have uq: "unique_values (kdb ?q @ ?d)" using "1.prems"(3)
        unfolding h(3) d1(1) by (simp add: append_assoc)
      obtain k where k: "k \<le> length ?d" "m = ?n + k" "kp_ok p'"
        "kdb p' = kdb ?q @ number_from (next_id ?q) (take k ?d)"
        "err = None \<longleftrightarrow> k = length ?d" "(\<forall>i. envs i = tx_ok) \<longrightarrow> err = None"
        "commits envs \<longrightarrow> stops_at envs (Suc j) (length ?d) k err"
        using "1.IH" [OF False refl a [symmetric] None refl "1.prems"(1) h(1) uq rec] by blast
      have "take (length ?c + k) keys = ?c @ take k ?d"
        by (metis append_take_drop_id take_add take_append length_take min.cobounded2 min_def
            add_diff_cancel_left' diff_is_0_eq le_add1 take_all append.right_neutral)
      then have "kdb p' = kdb p @ number_from (next_id p) (take (length ?c + k) keys)"
        using k(4) unfolding h(3,4) d1 by (simp add: number_from_append)
      moreover have "length ?c + k \<le> length keys \<and> (k = length ?d \<longleftrightarrow> length ?c + k = length keys)"
        using k(1) by auto
      moreover have "commits envs \<longrightarrow> stops_at envs j (length keys) (length ?c + k) err"
        using stops_at_next [of envs j "length keys" k err] k(7) ur None False by auto
      ultimately show ?thesis using k by (intro exI [of _ "length ?c + k"]) auto
    qed
  qed
qed

lemma create_chunks_ok:
  assumes "harmless cb" "ok p" "commits envs" "\<forall>k \<in> set keys. in_i64 (FailureCount k)"
    and "next_id p + length keys \<le> 18446744073709551616"
    and "create_chunks envs cb j n keys p = (p', m, err)"
  shows "ok p'"
  using assms
proof (induction envs cb j n keys p arbitrary: p' m err rule: create_chunks.induct)
  case (1 envs cb j n keys p)
  show ?case
  proof (cases "keys = []")
    case True
    then show ?thesis using "1.prems" by (simp add: create_chunks.simps)
  next
    case False
    let ?c = "take chunkSize keys"
    obtain p1 r where a: "AddKeys (envs j) ?c p = (p1, r)" by fastforce
    have ce: "commit_err (envs j) = None" using "1.prems"(3) by (simp add: commits_def)
    have fc: "\<forall>k \<in> set ?c. in_i64 (FailureCount k)" "\<forall>k \<in> set (drop chunkSize keys). in_i64 (FailureCount k)"
      using "1.prems"(4) in_set_takeD in_set_dropD by fast+
    have o1: "ok p1" using AddKeys_ok [OF "1.prems"(2) ce a fc(1)] "1.prems"(5) by simp
    show ?thesis
    proof (cases r)
      case (Some e)
      then show ?thesis using "1.prems"(6) False a o1 by (simp add: create_chunks.simps Let_def)
    next
      case None
      let ?q = "cb (n + length ?c) p1"
      have k1: "kp_ok p1" and nx: "next_id p1 = next_id p + length ?c"
        using AddKeys_table [OF _ a] "1.prems"(2) None by (auto simp: ok_def)
      note h = harmlessD [OF "1.prems"(1) k1, of "n + length ?c"]
      have oq: "ok ?q" using o1 h by (simp add: ok_def)
      have rec: "create_chunks envs cb (Suc j) (n + length ?c) (drop chunkSize keys) ?q = (p', m, err)"
        using "1.prems"(6) False a None by (subst (asm) create_chunks.simps) (simp add: Let_def)
      have "next_id ?q + length (drop chunkSize keys) \<le> 18446744073709551616"
        unfolding h(4) nx using "1.prems"(5) by simp
      from "1.IH" [OF False refl a [symmetric] None refl "1.prems"(1) oq "1.prems"(3) fc(2) this rec]
      show ?thesis .
    qed
  qed
qed

lemma unique_new_rows:
  assumes "unique_values rows" "distinct vs" "\<forall>k \<in> set rows. GroupID k = gid \<longrightarrow> KeyValue k \<notin> set vs"
  shows "unique_values (rows @ map (new_key gid) vs)"
  using assms by (auto simp: unique_values_def distinct_map inj_on_def new_key_def)

lemma length_first_occurrences: "length (first_occurrences xs) \<le> length xs"
  by (simp add: first_occurrences_def) (metis length_remdups_leq length_rev)

definition importable :: "nat \<Rightarrow> APIKey list \<Rightarrow> string list \<Rightarrow> string list" where
  "importable gid rows keys =
    filter (\<lambda>v. \<forall>k \<in> set rows. GroupID k = gid \<longrightarrow> KeyValue k \<noteq> v)
      (first_occurrences (filterValidKeys keys))"

lemma import_adds:
  assumes "ok p" "unique_values (kdb p)" "commits envs" "harmless cb"
    and "next_id p + length keys \<le> 18446744073709551616"
    and "processAndCreateKeys None envs cb gid keys p = (p', added, ignored, err)"
  shows "let new = importable gid (kdb p) keys in
    added \<le> length new \<and> added + ignored = length keys \<and>
    kdb p' = kdb p @ number_from (next_id p) (map (new_key gid) (take added new)) \<and>
    (err = None \<longleftrightarrow> added = length new) \<and> ((\<forall>i. envs i = tx_ok) \<longrightarrow> err = None) \<and>
    unique_values (kdb p') \<and> ok p' \<and> stops_at envs 0 (length new) added err"
proof -
  define new where "new = importable gid (kdb p)"
  let ?ex = "map KeyValue (filter (\<lambda>k. GroupID k = gid) (kdb p))"
  have ne: "new_values ?ex [] keys = new keys"
    by (auto simp: new_values_eq new_def importable_def intro!: filter_cong)
  have len: "length (new keys) \<le> length keys"
    unfolding new_def importable_def filterValidKeys_def
    by (meson le_trans length_filter_le length_first_occurrences length_map [THEN eq_imp_le])
  have kp: "kp_ok p" using assms(1) by (simp add: ok_def)
  have d: "distinct (new keys)" "\<forall>k \<in> set (kdb p). GroupID k = gid \<longrightarrow> KeyValue k \<notin> set (new keys)"
    by (auto simp: new_def importable_def)
  have u: "unique_values (kdb p @ map (new_key gid) (new keys))"
    by (rule unique_new_rows [OF assms(2) d])
  show ?thesis
  proof (cases "new keys = []")
    case True
    then show ?thesis using assms(1,2,6) ne
      by (auto simp: processAndCreateKeys_def Let_def new_def stops_at_empty)
  next
    case False
    obtain m where c: "create_chunks envs cb 0 0 (map (new_key gid) (new keys)) p = (p', m, err)"
      and m: "added = m" "ignored = length keys - m"
      using assms(6) False ne by (auto simp: processAndCreateKeys_def Let_def split: prod.splits)
    obtain k where k: "k \<le> length (new keys)" "m = k" "kp_ok p'"
      "kdb p' = kdb p @ number_from (next_id p) (take k (map (new_key gid) (new keys)))"
      "err = None \<longleftrightarrow> k = length (new keys)" "(\<forall>i. envs i = tx_ok) \<longrightarrow> err = None"
      "stops_at envs 0 (length (new keys)) k err"
      using create_chunks_table [OF assms(4) kp u c] assms(3) by auto
    have "ok p'"
      by (rule create_chunks_ok [OF assms(4,1,3) _ _ c])
        (use assms(5) len in \<open>auto simp: new_key_def in_i64_def\<close>)
    moreover have "unique_values (kdb p')"
      using unique_new_rows [OF assms(2), of "take k (new keys)" gid] d k(4)
      by (auto simp: take_map dest: in_set_takeD)
    ultimately show ?thesis using k m len by (simp add: take_map Let_def flip: new_def)
  qed
qed

text \<open>C20: When the two queries succeed and no commit fails, adding the keys of a text inserts the
  rows of its new values chunk by chunk, and a value is new when it is well formed and the group
  does not have it: one active row each, in the order of first occurrence, numbered consecutively.
  If no chunk's insertion fails, all of them are added, and the result counts them and everything
  else as ignored. Otherwise the rows are exactly those of the chunks before the first one that
  fails: they stay, and the answer is that chunk's error, without counts. Too many keys and no
  valid key are refused before anything changes. The values of a group stay unique, and the store
  stays in agreement with the table.\<close>

theorem add_multiple_keys_exact:
  assumes "ok p" "unique_values (kdb p)" "commits envs" "ParseKeysFromText json text = keys"
    and "next_id p + length keys \<le> 18446744073709551616"
    and "AddMultipleKeys json None None envs gid text p = (p', res)"
  shows "ok p' \<and> unique_values (kdb p') \<and>
    (let new = importable gid (kdb p) keys in \<exists>added \<le> length new.
     kdb p' = kdb p @ number_from (next_id p) (map (new_key gid) (take added new)) \<and>
     (case res of
        Inr r \<Rightarrow> keys \<noteq> [] \<and> length keys \<le> maxRequestKeys \<and> added = length new \<and>
          r = \<lparr>AddedCount = added, IgnoredCount = length keys - added,
               TotalInGroup = total_in_group gid p + added\<rparr> \<and>
          (\<forall>j. j * chunkSize < length new \<longrightarrow> update_err (envs j) = None)
      | Inl (ProviderFailed e) \<Rightarrow> added < length new \<and> (\<exists>i. envs i \<noteq> tx_ok) \<and>
          (\<exists>j d. added = j * chunkSize \<and> e = KDb d \<and> update_err (envs j) = Some d \<and>
             (\<forall>i < j. update_err (envs i) = None))
      | Inl e \<Rightarrow> added = 0 \<and> (keys = [] \<and> e = NoValidKeys \<or>
          maxRequestKeys < length keys \<and> e = TooManyKeys (length keys))))"
proof (cases "keys = [] \<or> length keys > maxRequestKeys")
  case True
  then show ?thesis
    using assms(1,2,4,6) by (auto simp: AddMultipleKeys_def Let_def maxRequestKeys_def)
next
  case False
  obtain q a g e where r: "processAndCreateKeys None envs (\<lambda>_ p. p) gid keys p = (q, a, g, e)"
    by (metis prod.exhaust)
  note i = import_adds [OF assms(1-3) harmless_id assms(5) r, unfolded Let_def]
  have rows: "length (filter (\<lambda>k. GroupID k = gid) (number_from n (map (new_key gid) vs))) = length vs" for n vs
    by (induction vs arbitrary: n) (simp_all add: new_key_def)
  show ?thesis
  proof (cases e)
    case None
    then have "p' = q" "res = Inr \<lparr>AddedCount = a, IgnoredCount = g, TotalInGroup = total_in_group gid q\<rparr>"
      using False assms(4,6) r by (auto simp: AddMultipleKeys_def Let_def)
    moreover have "total_in_group gid q = total_in_group gid p + a"
      using i None by (simp add: total_in_group_def rows)
    moreover have "a + g = length keys" using i by blast
    then have "g = length keys - a" by simp
    ultimately show ?thesis
      using i None False by (intro conjI) (auto simp: Let_def stops_at_def intro!: exI [of _ a])
  next
    case (Some x)
    then have "p' = q" "res = Inl (ProviderFailed x)"
      using False assms(4,6) r by (auto simp: AddMultipleKeys_def Let_def)
    moreover have "a < length (importable gid (kdb p) keys)" "\<exists>i. envs i \<noteq> tx_ok"
      using i Some by (metis le_neq_implies_less option.distinct(1))+
    moreover have "\<exists>j d. a = j * chunkSize \<and> x = KDb d \<and> update_err (envs j) = Some d \<and>
        (\<forall>i < j. update_err (envs i) = None)"
      using i Some by (auto simp: stops_at_def)
    ultimately show ?thesis
      unfolding Let_def by (intro conjI exI [of _ a]) (use i in auto)
  qed
qed

theorem add_multiple_keys_exact_witness:
  "kdb (fst (AddMultipleKeys (\<lambda>_. (False, [])) None None (\<lambda>_. tx_ok) 1 ''sk-2; sk-x, sk-x key'' demo_loaded)) =
    kdb demo_loaded @ [(new_key 1 ''sk-x'')\<lparr>ID := 3\<rparr>]"
proof -
  let ?text = "''sk-2; sk-x, sk-x key''"
  let ?keys = "[''sk-2'', ''sk-x'', ''sk-x'']"
  have k: "ParseKeysFromText (\<lambda>_. (False, [])) ?text = ?keys" by code_simp
  have nx: "next_id demo_loaded = 3" by code_simp
  have sn: "show_nat (Suc 0) = ''1''" "show_nat 2 = ''2''" by code_simp+
  have f: "filterValidKeys ?keys = ?keys" by code_simp
  have i: "importable 1 (kdb demo_loaded) ?keys = [''sk-x'']"
    unfolding importable_def f demo_loaded_ok(2)
    by (simp add: first_occurrences_def demo_def demo_key_def sn)
  have u: "unique_values (kdb demo_loaded)"
    by (simp add: demo_loaded_ok(2) demo_def demo_key_def unique_values_def sn)
  have c: "commits (\<lambda>_. tx_ok)" by (simp add: commits_def)
  obtain q r where r: "AddMultipleKeys (\<lambda>_. (False, [])) None None (\<lambda>_. tx_ok) 1 ?text demo_loaded = (q, r)"
    by fastforce
  note e = add_multiple_keys_exact [OF demo_loaded_ok(1) u c k _ r, unfolded i Let_def nx]
  show ?thesis
    unfolding r fst_conv
  proof (cases r)
    case (Inl x)
    then show "kdb q = kdb demo_loaded @ [(new_key 1 ''sk-x'')\<lparr>ID := 3\<rparr>]"
      using e by (cases x) (auto simp: maxRequestKeys_def)
  next
    case (Inr y)
    then show "kdb q = kdb demo_loaded @ [(new_key 1 ''sk-x'')\<lparr>ID := 3\<rparr>]"
      using e by (auto simp: new_key_def)
  qed
qed

section \<open>An export can be imported again\<close>

lemma valid_nonempty: "isValidKeyFormat k \<Longrightarrow> k \<noteq> []"
  by auto

lemma valid_chars: "isValidKeyFormat k \<Longrightarrow> \<forall>c \<in> set k. key_char c"
  by (auto simp: isValidKeyFormat_def list_all_iff split: if_splits)

lemma key_char_plain: "key_char c \<Longrightarrow> \<not> delimiter c \<and> \<not> is_space c \<and> (of_char c :: nat) \<noteq> 11"
  by (auto simp: key_char_def delimiter_def is_space_def Let_def)

lemma split_runs_word:
  assumes "\<forall>c \<in> set w. \<not> delimiter c"
  shows "split_runs w = [w]"
  using assms by (induction w) auto

lemma split_runs_step:
  assumes "\<forall>c \<in> set w. \<not> delimiter c" "delimiter d" "rest = [] \<or> \<not> delimiter (hd rest)"
  shows "split_runs (w @ d # rest) = w # split_runs rest"
  using assms(1)
proof (induction w)
  case Nil
  have "dropWhile delimiter rest = rest" using assms(3) by (auto simp: dropWhile_eq_self_iff)
  then show ?case using assms(2) by simp
next
  case (Cons c w)
  then show ?case by simp
qed

definition key_lines :: "string list \<Rightarrow> string" where
  "key_lines ks = concat (map (\<lambda>k. k @ [CHR 0x0A]) ks)"

lemma key_lines_snoc: "key_lines (ks @ [k]) = key_lines ks @ k @ [CHR 0x0A]"
  by (simp add: key_lines_def)

lemma newline_delimits: "delimiter CHR 0x0A"
  by (simp add: delimiter_def is_space_def)

lemma split_key_lines:
  assumes "\<forall>x \<in> set (ks @ [k]). isValidKeyFormat x"
  shows "split_runs (key_lines ks @ k) = ks @ [k]"
  using assms
proof (induction ks)
  case Nil
  then show ?case using valid_chars key_char_plain by (simp add: key_lines_def split_runs_word)
next
  case (Cons x ks)
  have h: "\<not> delimiter (hd (key_lines ks @ k))"
  proof -
    obtain y ys where y: "ks @ [k] = y # ys" by (cases "ks @ [k]") auto
    then have "y \<in> set (ks @ [k])" by simp
    then have "isValidKeyFormat y" using Cons.prems by auto
    moreover from this have "y \<noteq> []" by (rule valid_nonempty)
    ultimately have "hd (key_lines ks @ k) = hd y \<and> key_char (hd y)"
      using y valid_chars [of y] by (cases ks) (auto simp: key_lines_def)
    then show ?thesis using key_char_plain by simp
  qed
  have "\<forall>c \<in> set x. \<not> delimiter c" using Cons.prems valid_chars key_char_plain by auto
  from split_runs_step [OF this newline_delimits disjI2 [OF h]] show ?case
    using Cons by (simp add: key_lines_def)
qed

lemma TrimSpace_key_lines:
  assumes "\<forall>x \<in> set (ks @ [k]). isValidKeyFormat x"
  shows "TrimSpace (key_lines (ks @ [k])) = key_lines ks @ k"
proof -
  define ws where "ws = (\<lambda>c. is_space c \<or> (of_char c :: nat) = 11)"
  have nws: "\<not> ws c" if "isValidKeyFormat x" "c \<in> set x" for x c
    using valid_chars [OF that(1)] that(2) key_char_plain by (auto simp: ws_def)
  obtain y ys where y: "ks @ [k] = y # ys" by (cases "ks @ [k]") auto
  then have "y \<in> set (ks @ [k])" by simp
  then have v: "isValidKeyFormat y" "isValidKeyFormat k" using assms by auto
  note ne = v [THEN valid_nonempty]
  obtain c cs where "key_lines (ks @ [k]) = c # cs" "\<not> ws c"
    unfolding y using ne(1) v(1) nws [of y] by (cases y) (auto simp: key_lines_def)
  then have 1: "dropWhile ws (key_lines (ks @ [k])) = key_lines (ks @ [k])" by simp
  have "ws CHR 0x0A" by (simp add: ws_def is_space_def)
  moreover have "\<not> ws (last k)" using ne(2) v(2) nws by simp
  ultimately have "dropWhile ws (rev (key_lines (ks @ [k]))) = rev (key_lines ks @ k)"
    using ne(2) by (cases k rule: rev_cases) (simp_all add: key_lines_snoc)
  then show ?thesis by (simp add: TrimSpace_def Let_def 1 flip: ws_def)
qed

lemma filterValidKeys_valid: "\<forall>k \<in> set ks. isValidKeyFormat k \<Longrightarrow> filterValidKeys ks = ks"
  by (induction ks) (auto simp: filterValidKeys_def TrimSpace_idem)

lemma trimmed_valid:
  assumes "\<forall>k \<in> set ks. isValidKeyFormat k"
  shows "filter (\<lambda>k. k \<noteq> []) (map TrimSpace ks) = ks"
proof -
  have "map TrimSpace ks = ks" using assms by (simp add: TrimSpace_idem map_idI)
  moreover have "k \<noteq> []" if "k \<in> set ks" for k using assms that by (metis empty_invalid)
  ultimately show ?thesis by (simp add: filter_id_conv)
qed

lemma importable_fresh:
  assumes "\<forall>k \<in> set ks. isValidKeyFormat k" "distinct ks" "\<forall>k \<in> set rows. GroupID k \<noteq> gid"
  shows "importable gid rows ks = ks"
proof -
  have "first_occurrences ks = ks" using assms(2) by (simp add: first_occurrences_def distinct_remdups_id)
  then show ?thesis
    using assms(3) by (simp add: importable_def filterValidKeys_valid [OF assms(1)] filter_id_conv)
qed

text \<open>C21: The export of a group is read back by the import: parsing it gives the values of the
  group's keys in the order of their ids, and all of them are importable into a group that has no
  keys. The export is no JSON array, as it has no bracket.\<close>

theorem export_import_roundtrip:
  assumes "StreamKeysToWriter gid ''all'' p = Some text" "snd (json text) = []"
    and "ok p" "unique_values (kdb p)"
    and "\<forall>k \<in> set (kdb p). GroupID k = gid \<longrightarrow> isValidKeyFormat (KeyValue k)"
    and "\<forall>k \<in> set (kdb p). GroupID k \<noteq> gid'"
  shows "ParseKeysFromText json text =
      map KeyValue (sort_key ID (filter (\<lambda>k. GroupID k = gid) (kdb p))) \<and>
    importable gid' (kdb p) (ParseKeysFromText json text) = ParseKeysFromText json text"
proof -
  define ks where "ks = map KeyValue (sort_key ID (filter (\<lambda>k. GroupID k = gid) (kdb p)))"
  have t: "text = key_lines ks"
    using assms(1) by (auto simp: StreamKeysToWriter_def key_lines_def ks_def Let_def
        KeyStatusActive_def KeyStatusInvalid_def comp_def)
  have v: "\<forall>k \<in> set ks. isValidKeyFormat k" using assms(5) by (auto simp: ks_def)
  have "filter (\<lambda>k. k \<noteq> []) (map TrimSpace (split_runs (TrimSpace text))) = ks"
  proof (cases ks rule: rev_cases)
    case Nil
    then show ?thesis by (simp add: t key_lines_def TrimSpace_def)
  next
    case (snoc xs x)
    then have "split_runs (TrimSpace text) = ks"
      using v by (simp add: t TrimSpace_key_lines split_key_lines)
    then show ?thesis by (simp add: trimmed_valid [OF v])
  qed
  then have parse: "ParseKeysFromText json text = ks"
    using assms(2) v by (auto simp: ParseKeysFromText_def filterValidKeys_valid split: prod.splits)
  have "distinct (map KeyValue (filter (\<lambda>k. GroupID k = gid) (kdb p)))"
    using assms(4) by (auto simp: unique_values_def distinct_map inj_on_def)
  then have "distinct ks"
    unfolding ks_def by (auto simp: distinct_map)
  then show ?thesis using parse importable_fresh [OF v _ assms(6)] by (simp add: ks_def)
qed

section \<open>Deleting keys\<close>

lemma bulk_tx_ok:
  assumes "kp_ok p" "\<And>k. does (a k) (F k)" "filter P (kdb p) \<noteq> []"
    and "bulk tx_ok P change a p = (p', n, r)"
  shows "r = None \<and> n = length (filter P (kdb p)) \<and> view p' = fold F (filter P (kdb p))
    ((view p)\<lparr>vdb := change (pluckIDs (filter P (kdb p))) (kdb p)\<rparr>)"
proof -
  let ?found = "filter P (kdb p)"
  have "does (run_all (in_db None (change (pluckIDs ?found)) # map a ?found))
      (\<lambda>v. fold F ?found (v\<lparr>vdb := change (pluckIDs ?found) (vdb v)\<rparr>))"
    by (rule does_Cons [OF does_in_db does_run_all_map [OF assms(2)]])
  then obtain q where "run_all (in_db None (change (pluckIDs ?found)) # map a ?found) p = (q, None)"
    "view q = fold F ?found ((view p)\<lparr>vdb := change (pluckIDs ?found) (kdb p)\<rparr>)"
    using assms(1) unfolding does_def by (metis view_sel(1))
  then show ?thesis
    using assms(3,4) by (auto simp: bulk_def transaction_def Let_def)
qed

lemma RemoveKeys_table:
  assumes "ok p" "RemoveKeys tx_ok gid vals p = (p', n, r)"
  shows "r = None \<and> ok p' \<and> n = length (filter (\<lambda>k. GroupID k = gid \<and> KeyValue k \<in> set vals) (kdb p)) \<and>
    kdb p' = filter (\<lambda>k. \<not> (GroupID k = gid \<and> KeyValue k \<in> set vals)) (kdb p)"
proof (cases "filter (\<lambda>k. GroupID k = gid \<and> KeyValue k \<in> set vals) (kdb p) = []")
  case True
  then show ?thesis
    using assms by (auto simp: RemoveKeys_def bulk_def transaction_def Let_def filter_empty_conv
        filter_id_conv split: if_splits)
next
  case False
  let ?P = "\<lambda>k. GroupID k = gid \<and> KeyValue k \<in> set vals"
  have "vals \<noteq> []" using False by (auto simp: filter_empty_conv)
  then have b: "bulk tx_ok ?P delete_ids (\<lambda>k. removeKeyFromStore (ID k) (GroupID k)) p = (p', n, r)"
    using assms(2) by (simp add: RemoveKeys_def)
  have kp: "kp_ok p" using assms(1) by (simp add: ok_def)
  have d: "distinct (map ID (kdb p))" by (rule ok_distinct [OF assms(1)])
  have "r = None \<and> kdb p' = delete_ids (pluckIDs (filter ?P (kdb p))) (kdb p) \<and>
      n = length (filter ?P (kdb p))"
    using bulk_tx_ok [OF kp does_removeKeyFromStore False b] view_eq_db [of p'] by simp
  moreover have "delete_ids (pluckIDs (filter ?P (kdb p))) (kdb p) = filter (\<lambda>k. \<not> ?P k) (kdb p)"
    using same_id [OF d] by (auto simp: delete_ids_def pluckIDs_def intro!: filter_cong)
  ultimately show ?thesis
    using RemoveKeys_ok [OF assms(1) _ assms(2)] by simp
qed

lemma length_filter_disj:
  "length (filter (\<lambda>k. A k \<or> B k) xs) =
     length (filter A xs) + length (filter B (filter (\<lambda>k. \<not> A k) xs))"
  by (induction xs) auto

lemma total_over_chunks_delete:
  assumes "ok p" "total_over_chunks RemoveKeys (\<lambda>_. tx_ok) gid j n keys p = (p', r)"
  shows "ok p' \<and> kdb p' = filter (\<lambda>k. \<not> (GroupID k = gid \<and> KeyValue k \<in> set keys)) (kdb p) \<and>
    r = Inr (n + length (filter (\<lambda>k. GroupID k = gid \<and> KeyValue k \<in> set keys) (kdb p)))"
  using assms
proof (induction "RemoveKeys" "\<lambda>_ :: nat. tx_ok" gid j n keys p arbitrary: p' r rule: total_over_chunks.induct)
  case (1 gid j n keys p)
  show ?case
  proof (cases "keys = []")
    case True
    then show ?thesis using "1.prems" by (simp add: total_over_chunks.simps)
  next
    case False
    let ?c = "take chunkSize keys"
    let ?d = "drop chunkSize keys"
    let ?P = "\<lambda>vs k. GroupID k = gid \<and> KeyValue k \<in> set vs"
    obtain p1 m e where a: "RemoveKeys tx_ok gid ?c p = (p1, m, e)" by (metis prod.exhaust)
    note t = RemoveKeys_table [OF "1.prems"(1) a]
    have s: "set keys = set ?c \<union> set ?d" by (metis append_take_drop_id set_append)
    have rec: "total_over_chunks RemoveKeys (\<lambda>_. tx_ok) gid (Suc j) (n + m) ?d p1 = (p', r)"
      using "1.prems"(2) False a t by (subst (asm) total_over_chunks.simps) simp
    have u: "ok p' \<and> kdb p' = filter (\<lambda>k. \<not> ?P ?d k) (kdb p1) \<and>
        r = Inr (n + m + length (filter (?P ?d) (kdb p1)))"
      by (rule "1.hyps" [OF False a [symmetric] refl _ _ rec]) (use t in blast)+
    have "filter (?P keys) (kdb p) = filter (\<lambda>k. ?P ?c k \<or> ?P ?d k) (kdb p)"
      unfolding s by (rule filter_cong [OF refl]) blast
    then have l: "length (filter (?P keys) (kdb p)) = m + length (filter (?P ?d) (kdb p1))"
      using t length_filter_disj [of "?P ?c" "?P ?d"] by simp
    have "filter (\<lambda>k. \<not> ?P keys k) (kdb p) = filter (\<lambda>k. \<not> ?P ?d k) (filter (\<lambda>k. \<not> ?P ?c k) (kdb p))"
      unfolding s filter_filter by (rule filter_cong [OF refl]) blast
    then show ?thesis using t u l by simp
  qed
qed

text \<open>Deleting the keys named in a text removes from the table exactly the rows of the group
  with one of these values, counts them as deleted and everything else as ignored, and leaves the
  store in agreement with the table, over any number of chunks.\<close>

lemma delete_multiple_exact:
  assumes "ok p" "ParseKeysFromText json text = keys" "keys \<noteq> []" "length keys \<le> maxRequestKeys"
    and "DeleteMultipleKeys json None (\<lambda>_. tx_ok) gid text p = (p', res)"
  shows "ok p' \<and> kdb p' = filter (\<lambda>k. \<not> (GroupID k = gid \<and> KeyValue k \<in> set keys)) (kdb p) \<and>
    (\<exists>n. n + length (kdb p') = length (kdb p) \<and>
       res = Inr (n, length keys - n, length (filter (\<lambda>k. GroupID k = gid) (kdb p')))
       \<and> total_in_group gid p = n + total_in_group gid p')"
proof -
  obtain q r where c: "total_over_chunks RemoveKeys (\<lambda>_. tx_ok) gid 0 0 keys p = (q, r)" by fastforce
  let ?P = "\<lambda>k. GroupID k = gid \<and> KeyValue k \<in> set keys"
  note t = total_over_chunks_delete [OF assms(1) c]
  have pq: "p' = q" "res = Inr (length (filter ?P (kdb p)),
      length keys - length (filter ?P (kdb p)), total_in_group gid q)"
    using assms t c by (auto simp: DeleteMultipleKeys_def in_bulk_def Let_def)
  have split: "length (filter P xs) + length (filter (\<lambda>k. \<not> P k) xs) = length xs" for P and xs :: "APIKey list"
    by (simp add: sum_length_filter_compl)
  have "filter ?P (filter (\<lambda>k. GroupID k = gid) (kdb p)) = filter ?P (kdb p)"
    "filter (\<lambda>k. \<not> ?P k) (filter (\<lambda>k. GroupID k = gid) (kdb p)) =
      filter (\<lambda>k. GroupID k = gid) (filter (\<lambda>k. \<not> ?P k) (kdb p))"
    unfolding filter_filter by (auto intro: filter_cong)
  then show ?thesis
    using t pq split [of ?P "kdb p"] split [of ?P "filter (\<lambda>k. GroupID k = gid) (kdb p)"]
    by (simp add: total_in_group_def)
qed

lemma delete_multiple_exact_demo:
  "kdb (fst (DeleteMultipleKeys (\<lambda>_. (False, [])) None (\<lambda>_. tx_ok) 1 ''sk-2; sk-7'' demo_loaded)) =
    [demo_key 1 KeyStatusActive]"
proof -
  have sn: "show_nat (Suc 0) = ''1''" "show_nat 2 = ''2''" by code_simp+
  have k: "ParseKeysFromText (\<lambda>_. (False, [])) ''sk-2; sk-7'' = [''sk-2'', ''sk-7'']" by code_simp
  show ?thesis
    using delete_multiple_exact [OF demo_loaded_ok(1) k _ _ prod.collapse [symmetric], of 1]
    by (simp add: maxRequestKeys_def demo_loaded_ok(2) demo_def) (simp add: demo_key_def sn)
qed

theorem export_import_roundtrip_witness:
  "ParseKeysFromText (\<lambda>_. (False, [])) (the (StreamKeysToWriter 1 ''all'' demo_loaded)) = [''sk-1'', ''sk-2'']"
proof -
  have sn: "show_nat (Suc 0) = ''1''" "show_nat 2 = ''2''" by code_simp+
  have v: "isValidKeyFormat ''sk-1''" "isValidKeyFormat ''sk-2''" by code_simp+
  have e: "StreamKeysToWriter 1 ''all'' demo_loaded = Some (the (StreamKeysToWriter 1 ''all'' demo_loaded))"
    by (simp add: StreamKeysToWriter_def Let_def KeyStatusActive_def KeyStatusInvalid_def)
  have u: "unique_values (kdb demo_loaded)"
    by (simp add: demo_loaded_ok(2) demo_def demo_key_def unique_values_def sn)
  show ?thesis
    using export_import_roundtrip [OF e _ demo_loaded_ok(1) u, of "\<lambda>_. (False, [])" 2]
    by (simp add: demo_loaded_ok(2) demo_def demo_key_def sn v)
qed

end
