(* ===== verification/TaskService.thy ===== *)
theory TaskService
  imports MemStore
begin

text \<open>The task service of src/internal/services/task_service.go: the record of the one long-running
  task, under one key of the store. Its JSON text is written and read by the parameters
  \<^verbatim>\<open>enc\<close> and \<^verbatim>\<open>dec\<close>. A call reads the clock once (\<^verbatim>\<open>now\<close>, nanoseconds);
  the duration is kept in nanoseconds, the code converts it to seconds for display. The result of
  a task is its JSON text.\<close>

section \<open>The record and its operations\<close>

record TaskStatus =
  TaskType :: string
  IsRunning :: bool
  TaskGroup :: string
  Processed :: int
  Total :: int
  Result :: "string option"
  Error :: string
  StartedAt :: int
  FinishedAt :: "int option"
  TaskDuration :: int

definition globalTaskKey :: string where "globalTaskKey = ''global_task''"

definition ResultTTL :: int where "ResultTTL = 3600000000000"

definition no_task :: TaskStatus where
  "no_task = \<lparr>TaskType = [], IsRunning = False, TaskGroup = [], Processed = 0, Total = 0,
     Result = None, Error = [], StartedAt = 0, FinishedAt = None, TaskDuration = 0\<rparr>"

datatype task_err = TaskAlreadyRunning | TaskStore store_err | TaskUnreadable | TaskUnwritable

text \<open>The difference of two times saturates at the range of int64.\<close>

definition time_sub :: "int \<Rightarrow> int \<Rightarrow> int" where
  "time_sub t u = max (- 9223372036854775808) (min 9223372036854775807 (t - u))"

definition GetTaskStatus ::
  "(string \<Rightarrow> TaskStatus option) \<Rightarrow> int \<Rightarrow> mstore \<Rightarrow> mstore \<times> (task_err + TaskStatus)" where
  "GetTaskStatus dec now s =
    (case mem_Get now globalTaskKey s of
       (s1, Inl ErrNotFound) \<Rightarrow> (s1, Inr no_task)
     | (s1, Inl e) \<Rightarrow> (s1, Inl (TaskStore e))
     | (s1, Inr text) \<Rightarrow>
         (case dec text of
            None \<Rightarrow> (s1, Inl TaskUnreadable)
          | Some st \<Rightarrow>
              (s1, Inr (if IsRunning st then st
                        else (case FinishedAt st of
                                None \<Rightarrow> st
                              | Some t \<Rightarrow> st\<lparr>TaskDuration := time_sub t (StartedAt st)\<rparr>)))))"

definition store_status ::
  "(TaskStatus \<Rightarrow> string option) \<Rightarrow> int \<Rightarrow> int \<Rightarrow> TaskStatus \<Rightarrow> mstore \<Rightarrow> mstore \<times> (task_err + unit)" where
  "store_status enc now ttl st s =
    (case enc st of
       None \<Rightarrow> (s, Inl TaskUnwritable)
     | Some text \<Rightarrow> (case mem_Set now globalTaskKey text ttl s of
           (s1, Inl e) \<Rightarrow> (s1, Inl (TaskStore e)) | (s1, Inr _) \<Rightarrow> (s1, Inr ())))"

definition new_status :: "string \<Rightarrow> string \<Rightarrow> int \<Rightarrow> int \<Rightarrow> TaskStatus" where
  "new_status taskType groupName totalN now =
    no_task\<lparr>TaskType := taskType, IsRunning := True, TaskGroup := groupName, Total := totalN,
      StartedAt := now\<rparr>"

definition StartTask ::
  "(TaskStatus \<Rightarrow> string option) \<Rightarrow> (string \<Rightarrow> TaskStatus option) \<Rightarrow> int \<Rightarrow> string \<Rightarrow> string \<Rightarrow> int \<Rightarrow> int \<Rightarrow>
   mstore \<Rightarrow> mstore \<times> (task_err + TaskStatus)" where
  "StartTask enc dec now taskType groupName totalN timeout s =
    (case GetTaskStatus dec now s of
       (s1, Inl e) \<Rightarrow> (s1, Inl e)
     | (s1, Inr cur) \<Rightarrow>
         if IsRunning cur then (s1, Inl TaskAlreadyRunning)
         else
         (let status = new_status taskType groupName totalN now in
          case store_status enc now timeout status s1 of
            (s2, Inl e) \<Rightarrow> (s2, Inl e)
          | (s2, Inr _) \<Rightarrow> (s2, Inr status)))"

definition UpdateProgress ::
  "(TaskStatus \<Rightarrow> string option) \<Rightarrow> (string \<Rightarrow> TaskStatus option) \<Rightarrow> int \<Rightarrow> int \<Rightarrow> mstore \<Rightarrow>
   mstore \<times> (task_err + unit)" where
  "UpdateProgress enc dec now processed s =
    (case GetTaskStatus dec now s of
       (s1, Inl e) \<Rightarrow> (s1, Inl e)
     | (s1, Inr st) \<Rightarrow>
         if \<not> IsRunning st then (s1, Inr ())
         else store_status enc now ResultTTL (st\<lparr>Processed := processed\<rparr>) s1)"

text \<open>\<^verbatim>\<open>outcome\<close> is the error of the task, or its result.\<close>

definition ended :: "int \<Rightarrow> string + string option \<Rightarrow> TaskStatus \<Rightarrow> TaskStatus" where
  "ended now outcome st =
    (let st1 = st\<lparr>IsRunning := False, FinishedAt := Some now,
                  TaskDuration := time_sub now (StartedAt st)\<rparr>
     in case outcome of Inl e \<Rightarrow> st1\<lparr>Error := e\<rparr> | Inr r \<Rightarrow> st1\<lparr>Result := r\<rparr>)"

definition EndTask ::
  "(TaskStatus \<Rightarrow> string option) \<Rightarrow> (string \<Rightarrow> TaskStatus option) \<Rightarrow> int \<Rightarrow> string + string option \<Rightarrow>
   mstore \<Rightarrow> mstore \<times> (task_err + unit)" where
  "EndTask enc dec now outcome s =
    (case GetTaskStatus dec now s of
       (s1, Inl e) \<Rightarrow> (s1, Inl e)
     | (s1, Inr st) \<Rightarrow>
         if \<not> IsRunning st then (s1, Inr ())
         else store_status enc now ResultTTL (ended now outcome st) s1)"

section \<open>The entry of the task\<close>

text \<open>The store holds the status \<^verbatim>\<open>st\<close>, readable up to and including the instant
  \<^verbatim>\<open>until\<close>.\<close>

definition holds_task :: "(string \<Rightarrow> TaskStatus option) \<Rightarrow> TaskStatus \<Rightarrow> int \<Rightarrow> mstore \<Rightarrow> bool" where
  "holds_task dec st until s \<longleftrightarrow> 0 < until \<and>
     (\<exists>text. s globalTaskKey = Some (ItemV \<lparr>item_value = text, expiresAt = until\<rparr>) \<and> dec text = Some st)"

text \<open>The JSON codec reads back what it has written.\<close>

definition reads_back :: "(TaskStatus \<Rightarrow> string option) \<Rightarrow> (string \<Rightarrow> TaskStatus option) \<Rightarrow> TaskStatus \<Rightarrow> bool" where
  "reads_back enc dec st \<longleftrightarrow> (\<exists>text. enc st = Some text \<and> dec text = Some st)"

lemma get_running:
  assumes "holds_task dec st until s" "IsRunning st" "now \<le> until"
  shows "GetTaskStatus dec now s = (s, Inr st)"
  using assms by (auto simp: holds_task_def GetTaskStatus_def mem_Get_def expired_def)

lemma get_expired:
  assumes "holds_task dec st until s" "until < now"
  shows "GetTaskStatus dec now s = (s(globalTaskKey := None), Inr no_task)"
  using assms by (auto simp: holds_task_def GetTaskStatus_def mem_Get_def expired_def)

lemma get_none:
  assumes "s globalTaskKey = None"
  shows "GetTaskStatus dec now s = (s, Inr no_task)"
  using assms by (auto simp: GetTaskStatus_def mem_Get_def)

lemma no_task_idle [simp]: "\<not> IsRunning no_task"
  by (simp add: no_task_def)

lemma store_status_holds:
  assumes "reads_back enc dec st" "0 < ttl" "0 \<le> now" "in_i64 (now + ttl)"
  shows "\<exists>s1. store_status enc now ttl st s = (s1, Inr ()) \<and> holds_task dec st (now + ttl) s1 \<and>
    (\<forall>k. k \<noteq> globalTaskKey \<longrightarrow> s1 k = s k)"
  using assms
  by (auto simp: reads_back_def store_status_def mem_Set_def holds_task_def expiry_def)

lemma progress_running:
  assumes "holds_task dec st until s" "IsRunning st" "now \<le> until" "0 \<le> now"
    and "in_i64 (now + ResultTTL)" "reads_back enc dec (st\<lparr>Processed := n\<rparr>)"
  shows "\<exists>s1. UpdateProgress enc dec now n s = (s1, Inr ()) \<and>
    holds_task dec (st\<lparr>Processed := n\<rparr>) (now + ResultTTL) s1 \<and> (\<forall>k. k \<noteq> globalTaskKey \<longrightarrow> s1 k = s k)"
  using store_status_holds [OF assms(6) _ assms(4,5), of s]
  by (simp add: UpdateProgress_def get_running [OF assms(1-3)] assms(2) ResultTTL_def)

lemma end_running:
  assumes "holds_task dec st until s" "IsRunning st" "now \<le> until" "0 \<le> now"
    and "in_i64 (now + ResultTTL)" "reads_back enc dec (ended now outcome st)"
  shows "\<exists>s1. EndTask enc dec now outcome s = (s1, Inr ()) \<and>
    holds_task dec (ended now outcome st) (now + ResultTTL) s1 \<and> (\<forall>k. k \<noteq> globalTaskKey \<longrightarrow> s1 k = s k)"
  using store_status_holds [OF assms(6) _ assms(4,5), of s]
  by (simp add: EndTask_def get_running [OF assms(1-3)] assms(2) ResultTTL_def)

lemma ended_status [simp]:
  "\<not> IsRunning (ended now outcome st)" "FinishedAt (ended now outcome st) = Some now"
  by (cases outcome; simp add: ended_def Let_def)+

text \<open>C22: At most one task runs. After a successful start no other task can be started up to the
  expiry of the first one's record, which is its timeout after the start or, once it has reported progress,
  ResultTTL after its last report, whatever its timeout was; after that instant another
  task can be started although the first one has not ended.\<close>

theorem task_exclusive:
  assumes "StartTask enc dec t0 ty grp n timeout s = (s1, Inr st)"
    and "0 < timeout" "0 \<le> t0" "in_i64 (t0 + timeout)" "t0 \<le> t1" "t1 \<le> t0 + timeout" "in_i64 (t1 + ResultTTL)"
    and "reads_back enc dec (new_status ty grp n t0)"
    and "reads_back enc dec ((new_status ty grp n t0)\<lparr>Processed := m\<rparr>)"
    and "reads_back enc dec (new_status ty' grp' n' t)" "0 < timeout'" "in_i64 (t + timeout')" "t0 \<le> t"
  shows "(if t \<le> t0 + timeout then StartTask enc dec t ty' grp' n' timeout' s1 = (s1, Inl TaskAlreadyRunning)
      else snd (StartTask enc dec t ty' grp' n' timeout' s1) = Inr (new_status ty' grp' n' t)) \<and>
    (let s2 = fst (UpdateProgress enc dec t1 m s1) in
     if t \<le> t1 + ResultTTL
     then StartTask enc dec t ty' grp' n' timeout' s2 = (s2, Inl TaskAlreadyRunning)
     else snd (StartTask enc dec t ty' grp' n' timeout' s2) = Inr (new_status ty' grp' n' t))"
proof -
  have start: "(if t \<le> until then StartTask enc dec t ty' grp' n' timeout' u = (u, Inl TaskAlreadyRunning)
      else snd (StartTask enc dec t ty' grp' n' timeout' u) = Inr (new_status ty' grp' n' t))"
    if h: "holds_task dec cur until u" "IsRunning cur" for cur until u
  proof (cases "t \<le> until")
    case True
    then show ?thesis using h by (simp add: StartTask_def get_running)
  next
    case False
    have "0 \<le> t" using assms(3,13) by simp
    from store_status_holds [OF assms(10,11) this assms(12), of "u(globalTaskKey := None)"] show ?thesis
      using False get_expired [OF h(1), of t] by (auto simp: StartTask_def Let_def)
  qed
  have st: "st = new_status ty grp n t0" "IsRunning st"
    using assms(1) by (auto simp: StartTask_def new_status_def Let_def split: prod.splits sum.splits if_splits)
  obtain s0 where s0: "store_status enc t0 timeout st s0 = (s1, Inr ())"
    using assms(1) by (auto simp: StartTask_def Let_def split: prod.splits sum.splits if_splits)
  have h1: "holds_task dec st (t0 + timeout) s1"
    using store_status_holds [OF assms(8,2-4), of s0] s0 st(1) by auto
  obtain s2 where s2: "UpdateProgress enc dec t1 m s1 = (s2, Inr ())"
    "holds_task dec (st\<lparr>Processed := m\<rparr>) (t1 + ResultTTL) s2"
    using progress_running [OF h1 st(2) assms(6) _ assms(7), of enc m] assms(3,5,9) st(1) by auto
  show ?thesis
    using start [OF h1 st(2)] start [OF s2(2)] st(2) by (simp add: s2(1) Let_def)
qed

text \<open>An import with a timeout of a day that reports once and is then silent for over an hour.\<close>

definition demo_enc :: "TaskStatus \<Rightarrow> string option" where
  "demo_enc st = Some (if Processed st \<noteq> 0 then ''p'' else if StartedAt st = 0 then ''a'' else ''b'')"

definition demo_dec :: "int \<Rightarrow> string \<Rightarrow> TaskStatus option" where
  "demo_dec t text =
    (if text = ''p'' then Some ((new_status ''KEY_IMPORT'' ''g'' 5 0)\<lparr>Processed := 2\<rparr>)
     else if text = ''a'' then Some (new_status ''KEY_IMPORT'' ''g'' 5 0)
     else Some (new_status ''KEY_IMPORT'' ''g'' 5 t))"

theorem task_exclusive_witness:
  "snd (StartTask demo_enc (demo_dec 3660000000001) 3660000000001 ''KEY_IMPORT'' ''g'' 5 86400000000000
     (fst (UpdateProgress demo_enc (demo_dec 3660000000001) 60000000000 2
       (fst (StartTask demo_enc (demo_dec 3660000000001) 0 ''KEY_IMPORT'' ''g'' 5 86400000000000 NewMemoryStore))))) =
   Inr (new_status ''KEY_IMPORT'' ''g'' 5 3660000000001)"
proof -
  let ?dec = "demo_dec 3660000000001"
  let ?start = "StartTask demo_enc ?dec 0 ''KEY_IMPORT'' ''g'' 5 86400000000000 NewMemoryStore"
  have s: "?start = (fst ?start, Inr (new_status ''KEY_IMPORT'' ''g'' 5 0))"
    by (simp add: StartTask_def GetTaskStatus_def mem_Get_def NewMemoryStore_def store_status_def
        mem_Set_def demo_enc_def Let_def)
  have r: "reads_back demo_enc ?dec (new_status ''KEY_IMPORT'' ''g'' 5 0)"
    "reads_back demo_enc ?dec ((new_status ''KEY_IMPORT'' ''g'' 5 0)\<lparr>Processed := 2\<rparr>)"
    "reads_back demo_enc ?dec (new_status ''KEY_IMPORT'' ''g'' 5 3660000000001)"
    by (simp_all add: reads_back_def demo_enc_def demo_dec_def new_status_def no_task_def)
  show ?thesis
    using task_exclusive [OF s _ _ _ _ _ _ r, of 60000000000 86400000000000]
    by (simp add: in_i64_def ResultTTL_def Let_def)
qed

end
