(* ===== verification/KeyImport.thy ===== *)
theory KeyImport
  imports KeyService TaskService
begin

text \<open>The import of keys as a background task (src/internal/services/key_import_service.go): the task
  service and the key service over one store. StartImportTask starts the task and a goroutine;
  \<^verbatim>\<open>runImport\<close> is that goroutine run to its end, reading the clock \<^verbatim>\<open>clk n\<close> when it reports
  \<^verbatim>\<open>n\<close> keys and \<^verbatim>\<open>tend\<close> at its end.\<close>

section \<open>The operations\<close>

definition importTimeout :: int where "importTimeout = 86400000000000"

datatype import_err = NoKeysToImport | TaskFailed task_err

definition on_task :: "(mstore \<Rightarrow> mstore \<times> 'a) \<Rightarrow> kp \<Rightarrow> kp" where
  "on_task f p = p\<lparr>kstore := fst (f (kstore p))\<rparr>"

definition StartImportTask ::
  "(TaskStatus \<Rightarrow> string option) \<Rightarrow> (string \<Rightarrow> TaskStatus option) \<Rightarrow> (string \<Rightarrow> bool \<times> string list) \<Rightarrow>
   int \<Rightarrow> string \<Rightarrow> string \<Rightarrow> kp \<Rightarrow> kp \<times> (import_err + TaskStatus \<times> string list)" where
  "StartImportTask enc dec json now groupName keysText p =
    (let keys = ParseKeysFromText json keysText in
     if keys = [] then (p, Inl NoKeysToImport)
     else
     (case StartTask enc dec now ''KEY_IMPORT'' groupName (int (length keys)) importTimeout (kstore p) of
        (s, Inl e) \<Rightarrow> (p\<lparr>kstore := s\<rparr>, Inl (TaskFailed e))
      | (s, Inr st) \<Rightarrow> (p\<lparr>kstore := s\<rparr>, Inr (st, keys))))"

definition progressCallback ::
  "(TaskStatus \<Rightarrow> string option) \<Rightarrow> (string \<Rightarrow> TaskStatus option) \<Rightarrow> (nat \<Rightarrow> int) \<Rightarrow> nat \<Rightarrow> kp \<Rightarrow> kp" where
  "progressCallback enc dec clk n = on_task (UpdateProgress enc dec (clk n) (int n))"

definition runImport ::
  "(TaskStatus \<Rightarrow> string option) \<Rightarrow> (string \<Rightarrow> TaskStatus option) \<Rightarrow> (kp_err \<Rightarrow> string) \<Rightarrow>
   (nat \<Rightarrow> nat \<Rightarrow> string) \<Rightarrow> (nat \<Rightarrow> int) \<Rightarrow> int \<Rightarrow> db_err option \<Rightarrow> (nat \<Rightarrow> tx_env) \<Rightarrow> nat \<Rightarrow>
   string list \<Rightarrow> kp \<Rightarrow> kp" where
  "runImport enc dec err_text result_text clk tend find_err envs groupID keys p =
    (case processAndCreateKeys find_err envs (progressCallback enc dec clk) groupID keys p of
       (p1, _, _, Some e) \<Rightarrow> on_task (EndTask enc dec tend (Inl (err_text e))) p1
     | (p1, added, ignored, None) \<Rightarrow>
         on_task (EndTask enc dec tend (Inr (Some (result_text added ignored)))) p1)"

section \<open>The task and the keys do not disturb each other\<close>

lemma task_key_apart [simp]: "globalTaskKey \<noteq> active_list g" "globalTaskKey \<noteq> key_hash i"
  by (simp_all add: globalTaskKey_def active_list_def key_hash_def)

text \<open>A call that touches the entry of the task only.\<close>

definition on_task_only :: "(mstore \<Rightarrow> mstore \<times> 'a) \<Rightarrow> bool" where
  "on_task_only f \<longleftrightarrow> (\<forall>s. (mem_inv s \<longrightarrow> mem_inv (fst (f s))) \<and>
     (\<forall>k. k \<noteq> globalTaskKey \<longrightarrow> fst (f s) k = s k))"

lemma task_calls_local:
  "on_task_only (GetTaskStatus dec now)" "on_task_only (store_status enc now ttl st)"
  by (auto simp: on_task_only_def GetTaskStatus_def mem_Get_def store_status_def mem_Set_def
      split: option.splits store_val.splits prod.splits sum.splits store_err.splits)

lemma UpdateProgress_local: "on_task_only (UpdateProgress enc dec now n)"
  using task_calls_local(1) [of dec now] task_calls_local(2) [of enc now ResultTTL]
  by (auto simp: on_task_only_def UpdateProgress_def split: prod.splits sum.splits) (metis fst_conv)+

lemma EndTask_local: "on_task_only (EndTask enc dec now r)"
  using task_calls_local(1) [of dec now] task_calls_local(2) [of enc now ResultTTL]
  by (auto simp: on_task_only_def EndTask_def split: prod.splits sum.splits) (metis fst_conv)+

lemma StartTask_local: "on_task_only (StartTask enc dec now ty grp n timeout)"
  using task_calls_local(1) [of dec now] task_calls_local(2) [of enc now timeout]
  by (auto simp: on_task_only_def StartTask_def Let_def split: prod.splits sum.splits) (metis fst_conv)+

lemma on_task_keeps:
  assumes "on_task_only f" "kp_ok p"
  shows "kp_ok (on_task f p)" "view (on_task f p) = view p"
proof -
  have "mem_inv (fst (f (kstore p)))" using assms by (simp add: on_task_only_def kp_ok_def)
  moreover have "mem_abs (fst (f (kstore p))) k = mem_abs (kstore p) k" if "k \<noteq> globalTaskKey" for k
    using assms(1) that by (simp add: on_task_only_def mem_abs_def)
  ultimately show "kp_ok (on_task f p)" "view (on_task f p) = view p"
    unfolding on_task_def using kp_frame [OF assms(2)] by (metis task_key_apart)+
qed

lemma progress_harmless: "harmless (progressCallback enc dec clk)"
  unfolding harmless_def progressCallback_def
  using on_task_keeps [OF UpdateProgress_local] by blast

text \<open>An action of the provider that leaves the entry of the task alone.\<close>

definition spares_task :: "action \<Rightarrow> bool" where
  "spares_task a \<longleftrightarrow> (\<forall>p. kstore (fst (a p)) globalTaskKey = kstore p globalTaskKey)"

lemma spares_run_all: "list_all spares_task as \<Longrightarrow> spares_task (run_all as)"
proof (induction as)
  case Nil
  then show ?case by (simp add: spares_task_def)
next
  case (Cons a as)
  then show ?case
    by (auto simp: spares_task_def split: prod.splits option.splits) (metis fst_conv)+
qed

lemma spares_store:
  "spares_task (in_store (mem_HSet (key_hash i) vals))"
  "spares_task (in_store (mem_LRem (active_list g) 0 x))"
  "spares_task (in_store (mem_LPush (active_list g) xs))"
  by (auto simp: spares_task_def in_store_def mem_HSet_def mem_LRem_def mem_LPush_def Let_def
      split: option.splits store_val.splits prod.splits sum.splits)

lemma AddKeys_spares:
  assumes "AddKeys env keys p = (p', r)"
  shows "kstore p' globalTaskKey = kstore p globalTaskKey"
proof -
  have "spares_task (addKeyToStore k)" for k
    unfolding addKeyToStore_def by (rule spares_run_all) (simp add: spares_store)
  then have "spares_task (run_all (map addKeyToStore ks))" for ks
    by (intro spares_run_all) (simp add: list_all_iff)
  then have "kstore (fst (run_all (map addKeyToStore ks) q)) globalTaskKey = kstore q globalTaskKey" for ks q
    by (simp add: spares_task_def)
  from this [of "number_from (next_id p) keys" "p\<lparr>kdb := kdb p @ number_from (next_id p) keys,
      next_id := next_id p + length (number_from (next_id p) keys)\<rparr>"]
  show ?thesis
    using assms by (auto simp: AddKeys_def transaction_def Let_def
        split: if_splits option.splits prod.splits)
qed

section \<open>An import from its start to its end\<close>

text \<open>The record of a running import after \<^verbatim>\<open>n\<close> keys: readable at least until \<^verbatim>\<open>T\<close>.\<close>

definition importing :: "(string \<Rightarrow> TaskStatus option) \<Rightarrow> TaskStatus \<Rightarrow> int \<Rightarrow> nat \<Rightarrow> kp \<Rightarrow> bool" where
  "importing dec st T n p \<longleftrightarrow>
     (\<exists>until \<ge> T. holds_task dec (st\<lparr>Processed := int n\<rparr>) until (kstore p))"

lemma importing_cong:
  "kstore p' globalTaskKey = kstore p globalTaskKey \<Longrightarrow> importing dec st T n p' = importing dec st T n p"
  by (simp add: importing_def holds_task_def)

lemma importing_progress:
  assumes "importing dec st T n p" "IsRunning st" "0 \<le> clk m" "clk m \<le> T" "T \<le> clk m + ResultTTL"
    and "in_i64 (clk m + ResultTTL)" "reads_back enc dec (st\<lparr>Processed := int m\<rparr>)"
  shows "importing dec st T m (progressCallback enc dec clk m p)"
proof -
  obtain u where u: "holds_task dec (st\<lparr>Processed := int n\<rparr>) u (kstore p)" "T \<le> u"
    using assms(1) by (auto simp: importing_def)
  from progress_running [OF u(1) _ _ assms(3,6), of enc "int m"] assms(2,4,5,7) u(2)
  show ?thesis by (auto simp: importing_def progressCallback_def on_task_def)
qed

lemma create_chunks_importing:
  assumes "importing dec st T n p" "IsRunning st"
    and "\<forall>m \<le> n + length keys. 0 \<le> clk m \<and> clk m \<le> T \<and> T \<le> clk m + ResultTTL \<and>
      in_i64 (clk m + ResultTTL) \<and> reads_back enc dec (st\<lparr>Processed := int m\<rparr>)"
    and "create_chunks envs (progressCallback enc dec clk) j n keys p = (p', m, err)"
  shows "importing dec st T m p'"
  using assms
proof (induction envs "progressCallback enc dec clk" j n keys p arbitrary: p' m err rule: create_chunks.induct)
  case (1 envs j n keys p)
  show ?case
  proof (cases "keys = []")
    case True
    then show ?thesis using "1.prems" by (simp add: create_chunks.simps)
  next
    case False
    let ?c = "take chunkSize keys"
    let ?n = "n + length ?c"
    obtain p1 r where a: "AddKeys (envs j) ?c p = (p1, r)" by fastforce
    have i1: "importing dec st T n p1"
      using "1.prems"(1) importing_cong [OF AddKeys_spares [OF a]] by simp
    show ?thesis
    proof (cases r)
      case (Some e)
      then show ?thesis using "1.prems"(4) False a i1 by (simp add: create_chunks.simps Let_def)
    next
      case None
      have rec: "create_chunks envs (progressCallback enc dec clk) (Suc j) ?n (drop chunkSize keys)
          (progressCallback enc dec clk ?n p1) = (p', m, err)"
        using "1.prems"(4) False a None by (subst (asm) create_chunks.simps) (simp add: Let_def)
      have "?n \<le> n + length keys" by simp
      then have i2: "importing dec st T ?n (progressCallback enc dec clk ?n p1)"
        using "1.prems"(3) by (intro importing_progress [OF i1 "1.prems"(2)]) blast+
      have b: "\<forall>m \<le> ?n + length (drop chunkSize keys). 0 \<le> clk m \<and> clk m \<le> T \<and> T \<le> clk m + ResultTTL \<and>
          in_i64 (clk m + ResultTTL) \<and> reads_back enc dec (st\<lparr>Processed := int m\<rparr>)"
        using "1.prems"(3) by simp
      show ?thesis
        by (rule "1.hyps" [OF False refl a [symmetric] None refl i2 "1.prems"(2) b rec])
    qed
  qed
qed

lemma start_import:
  assumes "StartImportTask enc dec json t0 gname text p0 = (p, Inr (st, keys))" "ok p0"
    and "0 \<le> t0" "t0 + importTimeout \<le> 9223372036854775807" "reads_back enc dec st"
  shows "ok p \<and> kdb p = kdb p0 \<and> next_id p = next_id p0 \<and> IsRunning st \<and> Processed st = 0 \<and>
    StartedAt st = t0 \<and> importing dec st (t0 + ResultTTL) 0 p"
proof -
  let ?start = "StartTask enc dec t0 ''KEY_IMPORT'' gname (int (length keys)) importTimeout"
  obtain s where s: "?start (kstore p0) = (s, Inr st)" "p = p0\<lparr>kstore := s\<rparr>"
    using assms(1) by (auto simp: StartImportTask_def Let_def split: if_splits prod.splits sum.splits)
  have st: "st = new_status ''KEY_IMPORT'' gname (int (length keys)) t0"
    using s(1) by (auto simp: StartTask_def Let_def split: prod.splits sum.splits if_splits)
  obtain s0 where "store_status enc t0 importTimeout st s0 = (s, Inr ())"
    using s(1) st by (auto simp: StartTask_def Let_def split: prod.splits sum.splits if_splits)
  then have h: "holds_task dec st (t0 + importTimeout) s"
    using store_status_holds [OF assms(5), of importTimeout t0 s0] assms(3,4)
    by (simp add: importTimeout_def in_i64_def)
  have pt: "p = on_task ?start p0" using s by (simp add: on_task_def)
  have kp: "kp_ok p0" using assms(2) by (simp add: ok_def)
  note k = on_task_keeps [OF StartTask_local kp, of enc dec t0 "''KEY_IMPORT''" gname "int (length keys)" importTimeout,
      folded pt]
  have "st\<lparr>Processed := 0\<rparr> = st" by (simp add: st new_status_def no_task_def)
  then have "importing dec st (t0 + ResultTTL) 0 p"
    using h s(2) by (auto simp: importing_def importTimeout_def ResultTTL_def intro!: exI [of _ "t0 + importTimeout"])
  then show ?thesis
    using k assms(2) s(2) by (simp add: ok_def st new_status_def no_task_def)
qed

lemma ended_read:
  assumes "holds_task dec (ended tend out st) until s" "tend \<le> t" "t \<le> until"
  shows "GetTaskStatus dec t s = (s, Inr (ended tend out st))"
  using assms by (cases out)
    (auto simp: holds_task_def GetTaskStatus_def mem_Get_def expired_def ended_def Let_def)

text \<open>The record stays readable while keys are added.\<close>

lemma process_importing:
  assumes "importing dec st T 0 p" "IsRunning st"
    and "\<forall>m \<le> length keys. 0 \<le> clk m \<and> clk m \<le> T \<and> T \<le> clk m + ResultTTL \<and>
      in_i64 (clk m + ResultTTL) \<and> reads_back enc dec (st\<lparr>Processed := int m\<rparr>)"
    and "processAndCreateKeys None envs (progressCallback enc dec clk) gid keys p = (q, a, g, e)"
  shows "importing dec st T a q"
proof -
  let ?new = "map (new_key gid) (new_values (map KeyValue (filter (\<lambda>k. GroupID k = gid) (kdb p))) [] keys)"
  have "length ?new \<le> length keys"
    unfolding new_values_eq filterValidKeys_def
    by (simp, meson le_trans length_filter_le length_first_occurrences length_map [THEN eq_imp_le])
  then have c: "\<forall>m \<le> 0 + length ?new. 0 \<le> clk m \<and> clk m \<le> T \<and> T \<le> clk m + ResultTTL \<and>
      in_i64 (clk m + ResultTTL) \<and> reads_back enc dec (st\<lparr>Processed := int m\<rparr>)"
    using assms(3) by simp
  show ?thesis
  proof (cases "?new = []")
    case True
    then show ?thesis using assms(1,4) by (auto simp: processAndCreateKeys_def Let_def)
  next
    case False
    then have "create_chunks envs (progressCallback enc dec clk) 0 0 ?new p = (q, a, e)"
      using assms(4) by (auto simp: processAndCreateKeys_def Let_def split: prod.splits)
    then show ?thesis using create_chunks_importing [OF assms(1,2) c] by blast
  qed
qed

text \<open>C19: An import that is over within an hour of its start (the records of a task are kept for
  ResultTTL), with no failing query and no failing commit, and whose records the JSON codec reads back
  (the records that are written: the progress, the counts at the end, or the error of the chunk
  that failed), ends with a record that tells what happened, readable for ResultTTL: the task is
  finished, its progress is the number of rows added to the table, and its result is the count of
  added and ignored keys if no insertion failed; otherwise the error of the first chunk that failed,
  and the rows are those of the chunks before it. The rows are the importable values up to that
  count, and the store stays in agreement with the table.\<close>

theorem import_task_reports:
  assumes "StartImportTask enc dec json t0 gname text p0 = (p, Inr (st, keys))"
    and "runImport enc dec err_text result_text clk tend None envs gid keys p = p'"
    and "ok p0" "unique_values (kdb p0)" "commits envs" "next_id p0 + length keys \<le> 18446744073709551616"
    and "0 \<le> t0" "t0 + importTimeout \<le> 9223372036854775807"
    and "\<forall>m. t0 \<le> clk m \<and> clk m \<le> t0 + ResultTTL" "t0 \<le> tend" "tend \<le> t0 + ResultTTL"
    and "\<forall>m \<le> length keys. reads_back enc dec (st\<lparr>Processed := int m\<rparr>) \<and>
      reads_back enc dec (ended tend (Inr (Some (result_text m (length keys - m)))) (st\<lparr>Processed := int m\<rparr>)) \<and>
      (\<forall>j d. update_err (envs j) = Some d \<longrightarrow>
         reads_back enc dec (ended tend (Inl (err_text (KDb d))) (st\<lparr>Processed := int m\<rparr>)))"
    and "tend \<le> t" "t \<le> tend + ResultTTL"
  shows "let new = importable gid (kdb p0) keys in \<exists>added out.
    added \<le> length new \<and> ok p' \<and> unique_values (kdb p') \<and>
    kdb p' = kdb p0 @ number_from (next_id p0) (map (new_key gid) (take added new)) \<and>
    GetTaskStatus dec t (kstore p') = (kstore p', Inr (ended tend out (st\<lparr>Processed := int added\<rparr>))) \<and>
    (if added = length new then out = Inr (Some (result_text added (length keys - added)))
     else \<exists>j d. added = j * chunkSize \<and> update_err (envs j) = Some d \<and>
       (\<forall>i < j. update_err (envs i) = None) \<and> out = Inl (err_text (KDb d))) \<and>
    ((\<forall>i. envs i = tx_ok) \<longrightarrow> added = length new)"
proof -
  let ?cb = "progressCallback enc dec clk"
  have rb0: "reads_back enc dec st"
  proof -
    have "Processed st = 0"
      using assms(1) by (auto simp: StartImportTask_def StartTask_def new_status_def no_task_def Let_def
          split: if_splits prod.splits sum.splits)
    then have "st\<lparr>Processed := int 0\<rparr> = st" by simp
    then show ?thesis using assms(12) by (metis le0)
  qed
  note s = start_import [OF assms(1,3,7,8) rb0]
  obtain q a g e where r: "processAndCreateKeys None envs ?cb gid keys p = (q, a, g, e)"
    by (metis prod.exhaust)
  have i: "let new = importable gid (kdb p0) keys in
      a \<le> length new \<and> a + g = length keys \<and>
      kdb q = kdb p0 @ number_from (next_id p0) (map (new_key gid) (take a new)) \<and>
      (e = None \<longleftrightarrow> a = length new) \<and> ((\<forall>i. envs i = tx_ok) \<longrightarrow> e = None) \<and>
      unique_values (kdb q) \<and> ok q \<and> stops_at envs 0 (length new) a e"
    using import_adds [OF _ _ assms(5) progress_harmless _ r] s assms(4,6) by simp
  have ttl: "in_i64 (x + ResultTTL)" if "t0 \<le> x" "x \<le> t0 + ResultTTL" for x
    using that assms(7,8) by (simp add: in_i64_def ResultTTL_def importTimeout_def)
  define T where "T = t0 + ResultTTL"
  have c: "\<forall>m \<le> length keys. 0 \<le> clk m \<and> clk m \<le> T \<and> T \<le> clk m + ResultTTL \<and>
      in_i64 (clk m + ResultTTL) \<and> reads_back enc dec (st\<lparr>Processed := int m\<rparr>)"
  proof (intro allI impI)
    fix m assume m: "m \<le> length keys"
    have b: "t0 \<le> clk m" "clk m \<le> t0 + ResultTTL" using assms(9) by auto
    then show "0 \<le> clk m \<and> clk m \<le> T \<and> T \<le> clk m + ResultTTL \<and>
        in_i64 (clk m + ResultTTL) \<and> reads_back enc dec (st\<lparr>Processed := int m\<rparr>)"
      using assms(7,12) m ttl [OF b] by (simp add: T_def)
  qed
  have im: "importing dec st T a q"
    using process_importing [OF _ _ c r] s by (simp add: T_def)
  define out where "out = (case e of Some x \<Rightarrow> Inl (err_text x) | None \<Rightarrow> Inr (Some (result_text a g)))"
  have p': "p' = on_task (EndTask enc dec tend out) q"
    using assms(2) r by (auto simp: runImport_def out_def split: option.splits)
  obtain u where u: "holds_task dec (st\<lparr>Processed := int a\<rparr>) u (kstore q)" "T \<le> u"
    using im by (auto simp: importing_def)
  have al: "a \<le> length keys" using i by (auto simp: Let_def)
  have ag: "g = length keys - a" using i by (auto simp: Let_def)
  have why: "\<exists>j d. a = j * chunkSize \<and> update_err (envs j) = Some d \<and>
      (\<forall>i < j. update_err (envs i) = None) \<and> x = KDb d" if "e = Some x" for x
    using i that by (auto simp: stops_at_def Let_def)
  have rbo: "reads_back enc dec (ended tend out (st\<lparr>Processed := int a\<rparr>))"
    using assms(12) al ag why by (cases e) (auto simp: out_def)
  have "holds_task dec (ended tend out (st\<lparr>Processed := int a\<rparr>)) (tend + ResultTTL) (kstore p')"
    using end_running [OF u(1) _ _ _ ttl [OF assms(10,11)], of enc out] s u(2) rbo assms(7,10,11)
    by (auto simp: p' on_task_def T_def)
  note g = ended_read [OF this assms(13,14)]
  have "kp_ok q" using i by (simp add: Let_def ok_def)
  note k = on_task_keeps [OF EndTask_local this, of enc dec tend out, folded p']
  have "ok p' \<and> kdb p' = kdb q" using i k by (simp add: ok_def Let_def) (metis view_sel(1))
  then show ?thesis
    using i g ag why unfolding Let_def
    by (intro exI [of _ a] exI [of _ out]) (auto simp: out_def split: option.splits)
qed

definition demo_status :: TaskStatus where
  "demo_status = new_status ''KEY_IMPORT'' ''g'' 1 0"

definition demo_write :: "TaskStatus \<Rightarrow> string option" where
  "demo_write st = Some ((if IsRunning st then CHR ''r'' else if Result st = None then CHR ''x'' else CHR ''y'')
     # char_of (nat (Processed st)) # (case Result st of None \<Rightarrow> Error st | Some r \<Rightarrow> r))"

definition demo_read :: "string \<Rightarrow> TaskStatus option" where
  "demo_read text =
    (let st = demo_status\<lparr>Processed := int (of_char (text ! 1))\<rparr>; payload = drop 2 text in
     Some (if hd text = CHR ''r'' then st
           else if hd text = CHR ''x'' then ended 2 (Inl payload) st
           else ended 2 (Inr (Some payload)) st))"

lemma demo_fields [simp]:
  "IsRunning (demo_status\<lparr>Processed := m\<rparr>)" "Result (demo_status\<lparr>Processed := m\<rparr>) = None"
  "Error (demo_status\<lparr>Processed := m\<rparr>) = []"
  by (simp_all add: demo_status_def new_status_def no_task_def)

lemma demo_digit: "m \<le> 1 \<Longrightarrow> of_char (char_of m :: char) = m" for m :: nat
  by simp

lemma demo_reads_back:
  assumes "m \<le> 1"
  shows "reads_back demo_write demo_read (demo_status\<lparr>Processed := int m\<rparr>)"
    "reads_back demo_write demo_read (ended 2 out (demo_status\<lparr>Processed := int m\<rparr>))"
proof -
  define st where "st = demo_status\<lparr>Processed := int m\<rparr>"
  have st: "IsRunning st" "Result st = None" "Error st = []" "Processed st = int m"
    by (simp_all add: st_def)
  have rd: "demo_read (t # char_of m # payload) = Some (if t = CHR ''r'' then st
      else if t = CHR ''x'' then ended 2 (Inl payload) st else ended 2 (Inr (Some payload)) st)" for t payload
    using assms by (simp add: demo_read_def st_def Let_def)
  have "demo_write st = Some (CHR ''r'' # char_of m # [])" using st by (simp add: demo_write_def)
  then show "reads_back demo_write demo_read (demo_status\<lparr>Processed := int m\<rparr>)"
    using rd by (simp add: reads_back_def flip: st_def)
  have "\<exists>t payload. demo_write (ended 2 out st) = Some (t # char_of m # payload) \<and>
      demo_read (t # char_of m # payload) = Some (ended 2 out st)"
  proof (cases out)
    case (Inl e)
    then show ?thesis using st by (simp add: demo_write_def rd ended_def Let_def)
  next
    case (Inr r)
    then show ?thesis
      using st by (cases r) (simp_all add: demo_write_def rd ended_def Let_def)
  qed
  then show "reads_back demo_write demo_read (ended 2 out (demo_status\<lparr>Processed := int m\<rparr>))"
    by (auto simp: reads_back_def simp flip: st_def)
qed

theorem import_task_reports_witness:
  "\<exists>p st. StartImportTask demo_write demo_read (\<lambda>_. (False, [])) 0 ''g'' ''sk-x'' demo_loaded =
      (p, Inr (st, [''sk-x''])) \<and>
    GetTaskStatus demo_read 3 (kstore (runImport demo_write demo_read (\<lambda>_. []) (\<lambda>a i. show_nat a) (\<lambda>_. 1) 2
        None (\<lambda>_. tx_ok) 1 [''sk-x''] p)) =
      (kstore (runImport demo_write demo_read (\<lambda>_. []) (\<lambda>a i. show_nat a) (\<lambda>_. 1) 2
        None (\<lambda>_. tx_ok) 1 [''sk-x''] p),
       Inr (ended 2 (Inr (Some ''1'')) (st\<lparr>Processed := 1\<rparr>)))"
proof -
  have nt: "kstore demo_loaded globalTaskKey = None" by code_simp
  have k: "ParseKeysFromText (\<lambda>_. (False, [])) ''sk-x'' = [''sk-x'']" by code_simp
  obtain p where start: "StartImportTask demo_write demo_read (\<lambda>_. (False, [])) 0 ''g'' ''sk-x'' demo_loaded =
      (p, Inr (demo_status, [''sk-x'']))"
    by (simp add: StartImportTask_def k StartTask_def get_none [where s = "kstore demo_loaded", OF nt] store_status_def demo_write_def
        mem_Set_def demo_status_def Let_def)
  have nx: "next_id demo_loaded = 3" by code_simp
  have sn: "show_nat (Suc 0) = ''1''" "show_nat 2 = ''2''" by code_simp+
  have f: "filterValidKeys [''sk-x''] = [''sk-x'']" by code_simp
  have i: "importable 1 (kdb demo_loaded) [''sk-x''] = [''sk-x'']"
    unfolding importable_def f demo_loaded_ok(2)
    by (simp add: first_occurrences_def demo_def demo_key_def sn)
  have u: "unique_values (kdb demo_loaded)"
    by (simp add: demo_loaded_ok(2) demo_def demo_key_def unique_values_def sn)
  have c: "commits (\<lambda>_. tx_ok)" by (simp add: commits_def)
  have rb: "\<forall>m \<le> length [''sk-x'']. reads_back demo_write demo_read (demo_status\<lparr>Processed := int m\<rparr>) \<and>
      reads_back demo_write demo_read (ended 2 (Inr (Some (show_nat m))) (demo_status\<lparr>Processed := int m\<rparr>)) \<and>
      (\<forall>j d. update_err tx_ok = Some d \<longrightarrow>
         reads_back demo_write demo_read (ended 2 (Inl []) (demo_status\<lparr>Processed := int m\<rparr>)))"
    using demo_reads_back by simp
  note r = import_task_reports [where clk = "\<lambda>_. 1" and t = 3 and err_text = "\<lambda>_. []" and gid = 1 and
      result_text = "\<lambda>a i. show_nat a", OF start refl demo_loaded_ok(1) u c _ _ _ _ _ _ rb, unfolded i Let_def nx]
  show ?thesis
    using r start by (auto simp: ResultTTL_def importTimeout_def sn)
qed

end
