(* ===== verification/CacheSync.thy ===== *)
theory CacheSync
  imports Proxy
begin

text \<open>The caches of the settings and of the groups and their synchronisation over the running
  instances: src/internal/syncer/cache_syncer.go, src/internal/services/group_manager.go and the
  initialisation of src/internal/config/system_settings.go. Each instance subscribes to two
  channels and reloads a cache for each message; the messages waiting for it are counted, since
  their content is always the same. A write and the call of Invalidate after it are two steps, and the call may
  fail. A message that was sent waits for every instance, at any later time and in any order with the messages of
  the other channel, and may be lost: because no subscription exists at the moment, or because its channel is full
  for a second. A reload may fail; the message is gone then, as the listener does not try again.\<close>

section \<open>The caches of one instance\<close>

text \<open>The columns of the table groups the program reads beside those of Group, and the two fields
  that only the cache has.\<close>

record GroupRow = Group +
  gProxyKeys :: string
  gConfig :: "(string, jsonv) gomap option"
  gHeaderRules :: string
  LastValidatedAt :: "int option"
  gProxyKeysMap :: "string set"
  HeaderRuleList :: "HeaderRule list"

definition load_group ::
  "(string \<Rightarrow> HeaderRule list option) \<Rightarrow> SystemSettings \<Rightarrow> GroupRow \<Rightarrow> GroupRow" where
  "load_group decode_rules settings g =
    g\<lparr>EffectiveConfig := GetEffectiveConfig settings (gConfig g),
      gProxyKeysMap := StringToSet (gProxyKeys g) CHR '','',
      HeaderRuleList :=
        (if gHeaderRules g \<noteq> []
         then (case decode_rules (gHeaderRules g) of Some rules \<Rightarrow> rules | None \<Rightarrow> [])
         else [])\<rparr>"

definition groupLoader ::
  "(string \<Rightarrow> HeaderRule list option) \<Rightarrow> SystemSettings \<Rightarrow> GroupRow list \<Rightarrow> string \<Rightarrow> GroupRow option" where
  "groupLoader decode_rules settings groups =
    fold (\<lambda>g groupMap. groupMap(gName g \<mapsto> load_group decode_rules settings g)) groups Map.empty"

definition GetGroupByName :: "(string \<Rightarrow> GroupRow option) \<Rightarrow> string \<Rightarrow> GroupRow option" where
  "GetGroupByName groups name = groups name"

text \<open>The generic reload: a failed load leaves the cache; a successful one is followed by the
  hook.\<close>

definition reload :: "'a option \<Rightarrow> 'a \<Rightarrow> 'a \<times> bool" where
  "reload loaded cache = (case loaded of None \<Rightarrow> (cache, False) | Some newData \<Rightarrow> (newData, True))"

section \<open>The instances\<close>

record node =
  is_master :: bool
  settings_cache :: SystemSettings
  groups_cache :: "string \<Rightarrow> GroupRow option"
  settings_inbox :: nat
  groups_inbox :: nat

text \<open>The tables, the calls of Invalidate that are still to come for what has been written or reloaded, and
  the instances.\<close>

record cluster =
  settings_rows :: "(string, string) gomap"
  group_rows :: "GroupRow list"
  settings_unsent :: nat
  groups_unsent :: nat
  nodes :: "node list"

definition publish_settings :: "cluster \<Rightarrow> cluster" where
  "publish_settings c = c\<lparr>nodes := map (\<lambda>n. n\<lparr>settings_inbox := Suc (settings_inbox n)\<rparr>) (nodes c)\<rparr>"

definition publish_groups :: "cluster \<Rightarrow> cluster" where
  "publish_groups c = c\<lparr>nodes := map (\<lambda>n. n\<lparr>groups_inbox := Suc (groups_inbox n)\<rparr>) (nodes c)\<rparr>"

text \<open>An instance at start: the settings are loaded, then the groups. \<^verbatim>\<open>dec\<close> decodes the
  header rules of a group.\<close>

definition start_node ::
  "(string \<times> string) iter \<Rightarrow> (string \<Rightarrow> HeaderRule list option) \<Rightarrow> (string, string) gomap \<Rightarrow>
   GroupRow list \<Rightarrow> bool \<Rightarrow> node" where
  "start_node ord dec rows groups master =
    (let s = settingsLoader ord rows in
     \<lparr>is_master = master, settings_cache = s, groups_cache = groupLoader dec s groups,
      settings_inbox = 0, groups_inbox = 0\<rparr>)"

definition start ::
  "(string \<times> string) iter \<Rightarrow> (string \<Rightarrow> HeaderRule list option) \<Rightarrow> (string, string) gomap \<Rightarrow>
   GroupRow list \<Rightarrow> bool list \<Rightarrow> cluster" where
  "start ord dec rows groups masters =
    \<lparr>settings_rows = rows, group_rows = groups, settings_unsent = 0, groups_unsent = 0,
     nodes = map (start_node ord dec rows groups) masters\<rparr>"

text \<open>Instance \<^verbatim>\<open>i\<close> takes a message of the settings channel: it reloads the settings, and on
  the master the hook then calls Invalidate for the groups. \<^verbatim>\<open>loads\<close> says whether
  the database answers.\<close>

definition on_settings_message ::
  "(string \<times> string) iter \<Rightarrow> bool \<Rightarrow> nat \<Rightarrow> cluster \<Rightarrow> cluster" where
  "on_settings_message ord loads i c =
    (let n = nodes c ! i;
         (cache, reloaded) = reload (if loads then Some (settingsLoader ord (settings_rows c)) else None)
                               (settings_cache n);
         c1 = c\<lparr>nodes := (nodes c)[i := n\<lparr>settings_cache := cache, settings_inbox := settings_inbox n - 1\<rparr>]\<rparr>
     in if reloaded \<and> is_master n then c1\<lparr>groups_unsent := Suc (groups_unsent c1)\<rparr> else c1)"

definition on_groups_message ::
  "(string \<Rightarrow> HeaderRule list option) \<Rightarrow> bool \<Rightarrow> nat \<Rightarrow> cluster \<Rightarrow> cluster" where
  "on_groups_message dec loads i c =
    (let n = nodes c ! i;
         (cache, _) = reload (if loads then Some (groupLoader dec (settings_cache n) (group_rows c)) else None)
                        (groups_cache n)
     in c\<lparr>nodes := (nodes c)[i := n\<lparr>groups_cache := cache, groups_inbox := groups_inbox n - 1\<rparr>]\<rparr>)"

text \<open>The events of a run: a write of a table, a call of Invalidate that publishes or fails, a message that
  instance \<^verbatim>\<open>i\<close> takes, with the success of the reload, and a message for it that is lost.\<close>

datatype event =
    SettingsWritten | GroupsWritten
  | SettingsSent | SettingsNotSent | GroupsSent | GroupsNotSent
  | SettingsReload nat bool | GroupsReload nat bool
  | SettingsLost nat | GroupsLost nat

inductive cl_step :: "(string \<Rightarrow> HeaderRule list option) \<Rightarrow> cluster \<Rightarrow> event \<Rightarrow> cluster \<Rightarrow> bool" for dec where
  save_settings: "iter_order uo \<Longrightarrow> gomap_ok m \<Longrightarrow>
    UpdateSettings uo False m (settings_rows c) = (rows, None) \<Longrightarrow>
    cl_step dec c SettingsWritten (c\<lparr>settings_rows := rows, settings_unsent := Suc (settings_unsent c)\<rparr>)"
| save_groups: "cl_step dec c GroupsWritten (c\<lparr>group_rows := groups, groups_unsent := Suc (groups_unsent c)\<rparr>)"
| send_settings: "settings_unsent c = Suc k \<Longrightarrow>
    cl_step dec c SettingsSent (publish_settings (c\<lparr>settings_unsent := k\<rparr>))"
| fail_settings: "settings_unsent c = Suc k \<Longrightarrow> cl_step dec c SettingsNotSent (c\<lparr>settings_unsent := k\<rparr>)"
| send_groups: "groups_unsent c = Suc k \<Longrightarrow> cl_step dec c GroupsSent (publish_groups (c\<lparr>groups_unsent := k\<rparr>))"
| fail_groups: "groups_unsent c = Suc k \<Longrightarrow> cl_step dec c GroupsNotSent (c\<lparr>groups_unsent := k\<rparr>)"
| settings_message: "iter_order ord \<Longrightarrow> i < length (nodes c) \<Longrightarrow> 0 < settings_inbox (nodes c ! i) \<Longrightarrow>
    cl_step dec c (SettingsReload i loads) (on_settings_message ord loads i c)"
| groups_message: "i < length (nodes c) \<Longrightarrow> 0 < groups_inbox (nodes c ! i) \<Longrightarrow>
    cl_step dec c (GroupsReload i loads) (on_groups_message dec loads i c)"
| lose_settings: "i < length (nodes c) \<Longrightarrow> settings_inbox (nodes c ! i) = Suc k \<Longrightarrow>
    cl_step dec c (SettingsLost i) (c\<lparr>nodes := (nodes c)[i := (nodes c ! i)\<lparr>settings_inbox := k\<rparr>]\<rparr>)"
| lose_groups: "i < length (nodes c) \<Longrightarrow> groups_inbox (nodes c ! i) = Suc k \<Longrightarrow>
    cl_step dec c (GroupsLost i) (c\<lparr>nodes := (nodes c)[i := (nodes c ! i)\<lparr>groups_inbox := k\<rparr>]\<rparr>)"

inductive_cases cl_stepE: "cl_step dec c e c'"

text \<open>A run and its events, the last one first.\<close>

inductive cl_run :: "(string \<Rightarrow> HeaderRule list option) \<Rightarrow> cluster \<Rightarrow> event list \<Rightarrow> cluster \<Rightarrow> bool" for dec c where
  no_event: "cl_run dec c [] c"
| event: "cl_run dec c es c1 \<Longrightarrow> cl_step dec c1 e c2 \<Longrightarrow> cl_run dec c (e # es) c2"

text \<open>Whether instance \<^verbatim>\<open>i\<close> has missed a message since its last successful reload.\<close>

fun missed_settings :: "nat \<Rightarrow> event list \<Rightarrow> bool" where
  "missed_settings i [] = False"
| "missed_settings i (SettingsReload j loads # es) = (if j = i then \<not> loads else missed_settings i es)"
| "missed_settings i (SettingsLost j # es) = (j = i \<or> missed_settings i es)"
| "missed_settings i (SettingsNotSent # es) = True"
| "missed_settings i (_ # es) = missed_settings i es"

fun missed_groups :: "nat \<Rightarrow> event list \<Rightarrow> bool" where
  "missed_groups i [] = False"
| "missed_groups i (GroupsReload j loads # es) = (if j = i then \<not> loads else missed_groups i es)"
| "missed_groups i (GroupsLost j # es) = (j = i \<or> missed_groups i es)"
| "missed_groups i (GroupsNotSent # es) = True"
| "missed_groups i (_ # es) = missed_groups i es"

section \<open>The loaders\<close>

lemma settings_eqI:
  assumes "\<And>f. field_value f s = field_value f t" "ProxyKeysMap s = ProxyKeysMap t"
  shows "s = t"
  using assms(2) assms(1) [of F_AppUrl] assms(1) [of F_RequestLogRetentionDays]
    assms(1) [of F_RequestLogWriteIntervalMinutes] assms(1) [of F_ProxyKeys]
    assms(1) [of F_RequestTimeout] assms(1) [of F_ConnectTimeout] assms(1) [of F_IdleConnTimeout]
    assms(1) [of F_ResponseHeaderTimeout] assms(1) [of F_MaxIdleConns]
    assms(1) [of F_MaxIdleConnsPerHost] assms(1) [of F_ProxyURL] assms(1) [of F_MaxRetries]
    assms(1) [of F_BlacklistThreshold] assms(1) [of F_KeyValidationIntervalMinutes]
    assms(1) [of F_KeyValidationConcurrency] assms(1) [of F_KeyValidationTimeoutSeconds]
  by (simp add: field_value_def)

lemma ProxyKeys_value: "field_value F_ProxyKeys s = JStr (ProxyKeys s)"
  by (simp add: field_value_def)

lemma loader_keys [simp]:
  "ProxyKeysMap (settingsLoader ord rows) = StringToSet (ProxyKeys (settingsLoader ord rows)) CHR '',''"
  by (simp add: settingsLoader_def Let_def)

text \<open>The order in which the map of settings is ranged over does not matter.\<close>

lemma settingsLoader_order:
  assumes "iter_order o1" "iter_order o2" "gomap_ok rows"
  shows "settingsLoader o1 rows = settingsLoader o2 rows"
proof -
  have v: "field_value f (settingsLoader o1 rows) = field_value f (settingsLoader o2 rows)" for f
    by (simp add: loader_field [OF assms(1,3)] loader_field [OF assms(2,3)])
  moreover have "ProxyKeys (settingsLoader o1 rows) = ProxyKeys (settingsLoader o2 rows)"
    using v [of F_ProxyKeys] by (simp add: ProxyKeys_value)
  ultimately show ?thesis by (intro settings_eqI) simp_all
qed

lemma UpdateSettings_ok:
  "UpdateSettings ord b m rows = (rows', r) \<Longrightarrow> gomap_ok rows \<Longrightarrow> gomap_ok rows'"
  using gomap_ok_fold_gput_map [of rows sprint_v "ord m"]
  by (auto simp: UpdateSettings_def split: option.splits if_splits)

section \<open>What a drained instance knows\<close>

text \<open>The groups of an instance other than the master may come from older settings.\<close>

definition groups_current :: "(string \<Rightarrow> HeaderRule list option) \<Rightarrow> GroupRow list \<Rightarrow> node \<Rightarrow> bool" where
  "groups_current dec groups n \<longleftrightarrow>
     (if is_master n then groups_cache n = groupLoader dec (settings_cache n) groups
      else \<exists>s. groups_cache n = groupLoader dec s groups)"

definition in_sync :: "(string \<Rightarrow> HeaderRule list option) \<Rightarrow> event list \<Rightarrow> cluster \<Rightarrow> bool" where
  "in_sync dec es c \<longleftrightarrow> gomap_ok (settings_rows c) \<and>
     (\<forall>i < length (nodes c).
       (settings_unsent c = 0 \<longrightarrow> settings_inbox (nodes c ! i) = 0 \<longrightarrow> \<not> missed_settings i es \<longrightarrow>
          settings_cache (nodes c ! i) = settingsLoader id (settings_rows c)) \<and>
       (groups_unsent c = 0 \<longrightarrow> groups_inbox (nodes c ! i) = 0 \<longrightarrow> \<not> missed_groups i es \<longrightarrow>
          groups_current dec (group_rows c) (nodes c ! i)))"

lemma in_sync_start:
  assumes "gomap_ok rows" "iter_order ord"
  shows "in_sync dec [] (start ord dec rows groups masters)"
  using assms settingsLoader_order [OF assms(2) iter_order_id(1) assms(1)]
  by (auto simp: in_sync_def start_def start_node_def groups_current_def Let_def)

lemma in_sync_step:
  assumes "cl_step dec c e c'" "in_sync dec es c"
  shows "in_sync dec (e # es) c'"
  using assms
proof (induction rule: cl_step.induct)
  case (save_settings uo m c rows)
  then show ?case using UpdateSettings_ok [OF save_settings(3)] by (simp add: in_sync_def)
next
  case (settings_message ord i c loads)
  have "settingsLoader ord (settings_rows c) = settingsLoader id (settings_rows c)"
    using settings_message(4) by (intro settingsLoader_order [OF settings_message(1) iter_order_id(1)]) (simp add: in_sync_def)
  then show ?case
    using settings_message(2,4)
    by (cases loads) (auto simp: on_settings_message_def reload_def Let_def in_sync_def groups_current_def
        nth_list_update split: if_splits)
next
  case (groups_message i c loads)
  then show ?case
    by (cases loads) (auto simp: on_groups_message_def reload_def Let_def in_sync_def groups_current_def
        nth_list_update split: if_splits)
qed (auto simp: in_sync_def publish_settings_def publish_groups_def groups_current_def nth_list_update split: if_splits)

lemma in_sync_run: "cl_run dec c es c' \<Longrightarrow> in_sync dec [] c \<Longrightarrow> in_sync dec es c'"
  by (induction rule: cl_run.induct) (auto intro: in_sync_step)

text \<open>C24: In every run, with failed reloads, failed calls of Invalidate and lost messages: once every write has
  been announced and an instance has taken its messages, its settings are those of the database, unless it missed a
  message of this kind since its last successful reload of them. Under the same condition for the groups, the groups
  of the master are those of the database with the configuration its settings give them, and those of another
  instance are the rows of the database with a configuration from some settings.\<close>

theorem drained_caches_current:
  assumes "gomap_ok rows" "iter_order ord"
    and "cl_run dec (start ord dec rows groups masters) es c" "i < length (nodes c)" "nodes c ! i = n"
    and "settings_unsent c = 0" "groups_unsent c = 0" "settings_inbox n = 0" "groups_inbox n = 0"
  shows "(\<not> missed_settings i es \<longrightarrow> settings_cache n = settingsLoader id (settings_rows c)) \<and>
    (\<not> missed_groups i es \<longrightarrow>
      (is_master n \<longrightarrow> groups_cache n = groupLoader dec (settings_cache n) (group_rows c)) \<and>
      (\<exists>s. groups_cache n = groupLoader dec s (group_rows c)))"
  using in_sync_run [OF assms(3) in_sync_start [OF assms(1,2)]] assms(4-9)
  by (auto simp: in_sync_def groups_current_def split: if_splits)

section \<open>A stale instance\<close>

text \<open>A cluster of a master and a second instance, a group without overrides, and the update of
  max_retries from 2 to 7. The second instance takes the message of the groups channel first.\<close>

definition demo_row :: GroupRow where
  "demo_row = \<lparr>gID = 1, gName = ''g'', gChannelType = ''openai'', gUpstreams = [], gTestModel = [],
     gValidationEndpoint = [], EffectiveConfig = zero_settings, gProxyKeys = [], gConfig = None,
     gHeaderRules = [], LastValidatedAt = None, gProxyKeysMap = {}, HeaderRuleList = []\<rparr>"

definition demo_rows :: "int \<Rightarrow> (string, string) gomap" where
  "demo_rows n = [(''max_retries'', show_int n)]"

definition demo_node :: "bool \<Rightarrow> (string, string) gomap \<Rightarrow> (string, string) gomap \<Rightarrow> nat \<Rightarrow> nat \<Rightarrow> node" where
  "demo_node master rs rg m k = \<lparr>is_master = master, settings_cache = settingsLoader id rs,
     groups_cache = groupLoader (\<lambda>_. None) (settingsLoader id rg) [demo_row], settings_inbox = m, groups_inbox = k\<rparr>"

definition demo_cluster :: "(string, string) gomap \<Rightarrow> nat \<Rightarrow> nat \<Rightarrow> node list \<Rightarrow> cluster" where
  "demo_cluster rows u v ns =
    \<lparr>settings_rows = rows, group_rows = [demo_row], settings_unsent = u, groups_unsent = v, nodes = ns\<rparr>"

lemma demo_start: "start id (\<lambda>_. None) (demo_rows 2) [demo_row] [True, False] =
    demo_cluster (demo_rows 2) 0 0 [demo_node True (demo_rows 2) (demo_rows 2) 0 0, demo_node False (demo_rows 2) (demo_rows 2) 0 0]"
  by (simp add: start_def start_node_def demo_cluster_def demo_node_def Let_def)

lemma demo_update: "UpdateSettings id False [(''max_retries'', JNum 7)] (demo_rows 2) = (demo_rows 7, None)"
  by (simp add: demo_rows_def UpdateSettings_def ValidateSettings_def validate_setting_def
      max_retries_rule max_retries_field in_i64_def float_text_def show_int_def)

definition demo_events :: "event list" where
  "demo_events = [GroupsReload 0 True, SettingsReload 1 True, GroupsReload 1 True, GroupsSent, SettingsReload 0 True,
     SettingsSent, SettingsWritten]"

lemmas demo_defs = demo_cluster_def demo_node_def publish_settings_def publish_groups_def on_settings_message_def
  on_groups_message_def reload_def Let_def

lemma demo_write: "cl_step (\<lambda>_. None) (demo_cluster (demo_rows 2) 0 v ns) SettingsWritten (demo_cluster (demo_rows 7) 1 v ns)"
  using cl_step.save_settings [OF iter_order_id(1), of "[(''max_retries'', JNum 7)]" "demo_cluster (demo_rows 2) 0 v ns"
      "demo_rows 7"] demo_update
  by (simp add: demo_cluster_def gomap_ok_def)

lemma demo_send:
  "cl_step (\<lambda>_. None) (demo_cluster rows (Suc u) v ns) SettingsSent (publish_settings (demo_cluster rows u v ns))"
  "cl_step (\<lambda>_. None) (demo_cluster rows u (Suc v) ns) GroupsSent (publish_groups (demo_cluster rows u v ns))"
  using cl_step.send_settings [of "demo_cluster rows (Suc u) v ns" u] cl_step.send_groups [of "demo_cluster rows u (Suc v) ns" v]
  by (simp_all add: demo_cluster_def)

lemmas demo_take = cl_step.settings_message [OF iter_order_id(1)] cl_step.groups_message

lemma demo_run:
  "cl_run (\<lambda>_. None) (start id (\<lambda>_. None) (demo_rows 2) [demo_row] [True, False]) demo_events
    (demo_cluster (demo_rows 7) 0 0 [demo_node True (demo_rows 7) (demo_rows 7) 0 0, demo_node False (demo_rows 7) (demo_rows 2) 0 0])"
proof -
  let ?dec = "\<lambda>_. None :: HeaderRule list option"
  let ?c0 = "demo_cluster (demo_rows 2) 0 0 [demo_node True (demo_rows 2) (demo_rows 2) 0 0, demo_node False (demo_rows 2) (demo_rows 2) 0 0]"
  let ?c1 = "demo_cluster (demo_rows 7) 1 0 [demo_node True (demo_rows 2) (demo_rows 2) 0 0, demo_node False (demo_rows 2) (demo_rows 2) 0 0]"
  let ?c2 = "demo_cluster (demo_rows 7) 0 0 [demo_node True (demo_rows 2) (demo_rows 2) 1 0, demo_node False (demo_rows 2) (demo_rows 2) 1 0]"
  let ?c3 = "demo_cluster (demo_rows 7) 0 1 [demo_node True (demo_rows 7) (demo_rows 2) 0 0, demo_node False (demo_rows 2) (demo_rows 2) 1 0]"
  let ?c4 = "demo_cluster (demo_rows 7) 0 0 [demo_node True (demo_rows 7) (demo_rows 2) 0 1, demo_node False (demo_rows 2) (demo_rows 2) 1 1]"
  let ?c5 = "demo_cluster (demo_rows 7) 0 0 [demo_node True (demo_rows 7) (demo_rows 2) 0 1, demo_node False (demo_rows 2) (demo_rows 2) 1 0]"
  let ?c6 = "demo_cluster (demo_rows 7) 0 0 [demo_node True (demo_rows 7) (demo_rows 2) 0 1, demo_node False (demo_rows 7) (demo_rows 2) 0 0]"
  let ?c7 = "demo_cluster (demo_rows 7) 0 0 [demo_node True (demo_rows 7) (demo_rows 7) 0 0, demo_node False (demo_rows 7) (demo_rows 2) 0 0]"
  have s1: "cl_step ?dec ?c0 SettingsWritten ?c1" using demo_write by simp
  have s2: "cl_step ?dec ?c1 SettingsSent ?c2"
    using demo_send(1) [of "demo_rows 7" 0 0 "[demo_node True (demo_rows 2) (demo_rows 2) 0 0, demo_node False (demo_rows 2) (demo_rows 2) 0 0]"] by (simp add: demo_defs)
  have s3: "cl_step ?dec ?c2 (SettingsReload 0 True) ?c3"
    using demo_take(1) [of 0 ?c2 ?dec True] by (simp add: demo_defs)
  have s4: "cl_step ?dec ?c3 GroupsSent ?c4"
    using demo_send(2) [of "demo_rows 7" 0 0 "[demo_node True (demo_rows 7) (demo_rows 2) 0 0, demo_node False (demo_rows 2) (demo_rows 2) 1 0]"] by (simp add: demo_defs)
  have s5: "cl_step ?dec ?c4 (GroupsReload 1 True) ?c5"
    using demo_take(2) [of 1 ?c4 ?dec True] by (simp add: demo_defs)
  have s6: "cl_step ?dec ?c5 (SettingsReload 1 True) ?c6"
    using demo_take(1) [of 1 ?c5 ?dec True] by (simp add: demo_defs)
  have s7: "cl_step ?dec ?c6 (GroupsReload 0 True) ?c7"
    using demo_take(2) [of 0 ?c6 ?dec True] by (simp add: demo_defs)
  show ?thesis
    unfolding demo_events_def demo_start
    by (rule cl_run.event [OF cl_run.event [OF cl_run.event [OF cl_run.event [OF cl_run.event [OF cl_run.event [OF cl_run.event [OF cl_run.no_event s1] s2] s3] s4] s5] s6] s7])
qed

lemma demo_max_retries:
  assumes "in_i64 n"
  shows "MaxRetries (settingsLoader id (demo_rows n)) = n"
  using loader_field [OF iter_order_id(1), of "demo_rows n" F_MaxRetries] assms
  by (simp add: demo_rows_def gomap_ok_def text_value_def ParseInt_show field_value_def)

lemma demo_group_cache:
  "map_option (\<lambda>g. MaxRetries (EffectiveConfig g)) (groupLoader (\<lambda>_. None) s [demo_row] ''g'') = Some (MaxRetries s)"
  by (simp add: groupLoader_def load_group_def demo_row_def GetEffectiveConfig_def)

text \<open>An instance other than the master can stay stale for ever: there is a run in which every message has
  been taken, every reload has succeeded, and yet a second instance serves its group with the
  max_retries of before the update, while the master serves it with the new one.\<close>

lemma second_instance_stays_stale:
  "\<exists>c. cl_run (\<lambda>_. None) (start id (\<lambda>_. None) (demo_rows 2) [demo_row] [True, False]) demo_events c \<and>
     settings_unsent c = 0 \<and> groups_unsent c = 0 \<and>
     list_all (\<lambda>n. settings_inbox n = 0 \<and> groups_inbox n = 0 \<and> MaxRetries (settings_cache n) = 7) (nodes c) \<and>
     map (\<lambda>n. map_option (\<lambda>g. MaxRetries (EffectiveConfig g)) (GetGroupByName (groups_cache n) ''g'')) (nodes c) =
       [Some 7, Some 2]"
  by (rule exI, rule conjI, rule demo_run)
    (simp add: demo_cluster_def demo_node_def GetGroupByName_def demo_group_cache demo_max_retries in_i64_def)

text \<open>A reload that fails is not tried again: every message has been taken, the database has the new value, and
  the instance keeps the old one.\<close>

lemma failed_reload_stays:
  "\<exists>c. cl_run (\<lambda>_. None) (start id (\<lambda>_. None) (demo_rows 2) [demo_row] [True])
      [SettingsReload 0 False, SettingsSent, SettingsWritten] c \<and>
     settings_unsent c = 0 \<and> groups_unsent c = 0 \<and> settings_rows c = demo_rows 7 \<and>
     list_all (\<lambda>n. settings_inbox n = 0 \<and> groups_inbox n = 0 \<and> MaxRetries (settings_cache n) = 2) (nodes c)"
proof -
  let ?dec = "\<lambda>_. None :: HeaderRule list option"
  let ?n = "demo_node True (demo_rows 2) (demo_rows 2)"
  let ?c = "demo_cluster (demo_rows 7) 0 0 [?n 0 0]"
  have "cl_step ?dec (demo_cluster (demo_rows 2) 0 0 [?n 0 0]) SettingsWritten (demo_cluster (demo_rows 7) 1 0 [?n 0 0])"
    by (rule demo_write)
  moreover have "cl_step ?dec (demo_cluster (demo_rows 7) 1 0 [?n 0 0]) SettingsSent (demo_cluster (demo_rows 7) 0 0 [?n 1 0])"
    using demo_send(1) [of "demo_rows 7" 0 0 "[?n 0 0]"] by (simp add: demo_defs)
  moreover have "cl_step ?dec (demo_cluster (demo_rows 7) 0 0 [?n 1 0]) (SettingsReload 0 False) (demo_cluster (demo_rows 7) 0 0 [?n 0 0])"
    using demo_take(1) [of 0 "demo_cluster (demo_rows 7) 0 0 [?n 1 0]" ?dec False] by (simp add: demo_defs)
  moreover have "start id ?dec (demo_rows 2) [demo_row] [True] = demo_cluster (demo_rows 2) 0 0 [?n 0 0]"
    by (simp add: start_def start_node_def demo_cluster_def demo_node_def Let_def)
  ultimately have "cl_run ?dec (start id ?dec (demo_rows 2) [demo_row] [True])
      [SettingsReload 0 False, SettingsSent, SettingsWritten] (demo_cluster (demo_rows 7) 0 0 [?n 0 0])"
    by (auto intro: cl_run.intros)
  moreover have "settings_unsent ?c = 0 \<and> groups_unsent ?c = 0 \<and> settings_rows ?c = demo_rows 7 \<and>
      list_all (\<lambda>n. settings_inbox n = 0 \<and> groups_inbox n = 0 \<and> MaxRetries (settings_cache n) = 2) (nodes ?c)"
    by (simp add: demo_cluster_def demo_node_def demo_max_retries in_i64_def)
  ultimately show ?thesis by blast
qed

theorem drained_caches_current_witness:
  "\<exists>c n. cl_run (\<lambda>_. None) (start id (\<lambda>_. None) (demo_rows 2) [demo_row] [True, False]) demo_events c \<and> nodes c ! 0 = n \<and>
     settings_rows c = demo_rows 7 \<and> settings_cache n = settingsLoader id (demo_rows 7) \<and>
     groups_cache n = groupLoader (\<lambda>_. None) (settingsLoader id (demo_rows 7)) [demo_row]"
proof -
  let ?n = "demo_node True (demo_rows 7) (demo_rows 7) 0 0"
  let ?c = "demo_cluster (demo_rows 7) 0 0 [?n, demo_node False (demo_rows 7) (demo_rows 2) 0 0]"
  have f: "settings_rows ?c = demo_rows 7" "group_rows ?c = [demo_row]" "nodes ?c ! 0 = ?n" "settings_unsent ?c = 0"
    "groups_unsent ?c = 0" "0 < length (nodes ?c)" "settings_inbox ?n = 0" "groups_inbox ?n = 0" "is_master ?n"
    by (simp_all add: demo_cluster_def demo_node_def)
  have m: "\<not> missed_settings 0 demo_events" "\<not> missed_groups 0 demo_events" by (simp_all add: demo_events_def)
  have g: "gomap_ok (demo_rows 2)" by (simp add: gomap_ok_def demo_rows_def)
  show ?thesis
    using drained_caches_current [OF g iter_order_id(1) demo_run f(6,3,4,5,7,8)] demo_run m f by auto
qed

end
