(* ===== verification/Gateway.thy ===== *)
theory Gateway
  imports CacheSync ProxyProps
begin

text \<open>Access control in front of the proxy: src/internal/middleware/middleware.go and the route of the
  proxy in src/internal/router/router.go. The value of the query parameter key is the parameter
  \<^verbatim>\<open>qkey\<close>; header names are in their canonical form.\<close>

section \<open>The middleware\<close>

definition GetHeader :: "client_request \<Rightarrow> string \<Rightarrow> string" where
  "GetHeader c name = (case gget (cr_headers c) name of None \<Rightarrow> [] | Some v \<Rightarrow> v)"

definition extractAuthKey :: "(client_request \<Rightarrow> string) \<Rightarrow> client_request \<Rightarrow> string" where
  "extractAuthKey qkey c =
    (let authHeader = GetHeader c ''Authorization'' in
     if authHeader \<noteq> [] \<and> has_prefix ''Bearer '' authHeader
     then drop (length ''Bearer '') authHeader
     else if GetHeader c ''X-Api-Key'' \<noteq> [] then GetHeader c ''X-Api-Key''
     else if GetHeader c ''X-Goog-Api-Key'' \<noteq> [] then GetHeader c ''X-Goog-Api-Key''
     else qkey c)"

definition isMonitoringEndpoint :: "string \<Rightarrow> bool" where
  "isMonitoringEndpoint path \<longleftrightarrow> path \<in> set [''/health'']"

definition Unauthorized :: client_response where
  "Unauthorized = AnswerError 401 ''UNAUTHORIZED'' ''Unauthorized''"

text \<open>The middleware of the management interface: None lets the request pass.\<close>

definition Auth :: "(client_request \<Rightarrow> string) \<Rightarrow> string \<Rightarrow> client_request \<Rightarrow> client_response option" where
  "Auth qkey authKey c =
    (if isMonitoringEndpoint (u_path (cr_url c)) then None
     else
     (let key = extractAuthKey qkey c in
      if key \<noteq> [] \<and> key = authKey then None else Some Unauthorized))"

definition ProxyAuth ::
  "(client_request \<Rightarrow> string) \<Rightarrow> (string \<Rightarrow> GroupRow option) \<Rightarrow> string \<Rightarrow> client_request \<Rightarrow>
   client_response option" where
  "ProxyAuth qkey groups groupName c =
    (let key = extractAuthKey qkey c in
     if key = [] then Some Unauthorized
     else
     (case GetGroupByName groups groupName of
        None \<Rightarrow> Some (AnswerError 500 ''INTERNAL_SERVER_ERROR'' ''Failed to retrieve proxy group'')
      | Some g \<Rightarrow>
          if key \<in> ProxyKeysMap (EffectiveConfig g) \<or> key \<in> gProxyKeysMap g then None
          else Some Unauthorized))"

text \<open>The route of the proxy: the middleware, then the handler.\<close>

definition serve_proxy ::
  "(string \<Rightarrow> (string \<times> int) list option) \<Rightarrow> (string \<Rightarrow> url option) \<Rightarrow> (ch_err \<Rightarrow> string) \<Rightarrow>
   (Group \<Rightarrow> string \<Rightarrow> string option) \<Rightarrow> world \<Rightarrow> (string \<times> string) iter \<Rightarrow>
   (client_request \<Rightarrow> string) \<Rightarrow> (string \<Rightarrow> GroupRow option) \<Rightarrow> string \<Rightarrow> string option \<Rightarrow>
   client_request \<Rightarrow> int \<Rightarrow> factory \<times> proxy \<Rightarrow> factory \<times> proxy" where
  "serve_proxy decode parse ch_text override w ord qkey groups groupName read c startTime fp =
    (case ProxyAuth qkey groups groupName c of
       Some ans \<Rightarrow> (fst fp, respond ans (snd fp))
     | None \<Rightarrow>
         HandleProxy decode parse ch_text override
           (\<lambda>_. case groups groupName of Some g \<Rightarrow> HeaderRuleList g | None \<Rightarrow> []) w ord
           (\<lambda>n. map_option Group.truncate (groups n)) groupName read c startTime fp)"

section \<open>Who may pass\<close>

lemma override_keeps_keys [simp]: "ProxyKeysMap (put_int f i s) = ProxyKeysMap s"
  "ProxyKeysMap (put_str f t s) = ProxyKeysMap s"
  by (cases f; simp)+

text \<open>The overrides of a group cannot change who may use it.\<close>

lemma effective_keys [simp]: "ProxyKeysMap (GetEffectiveConfig s m) = ProxyKeysMap s"
proof -
  have "ProxyKeysMap (fold (apply_override c) fs s) = ProxyKeysMap s" for c fs
    by (induction fs arbitrary: s)
      (simp_all add: apply_override_def split: field_kind.splits option.splits)
  then show ?thesis by (simp add: GetEffectiveConfig_def split: option.splits)
qed

lemma fold_upd_map_of: "fold (\<lambda>g m. m(f g \<mapsto> h g)) rows m = m ++ map_of (rev (map (\<lambda>g. (f g, h g)) rows))"
  by (induction rows arbitrary: m) (auto simp: map_add_def fun_eq_iff split: option.splits)

lemma groupLoader_Some:
  assumes "groupLoader dec s rows name = Some g"
  shows "\<exists>row \<in> set rows. gName row = name \<and> g = load_group dec s row"
  using assms by (auto simp: groupLoader_def fold_upd_map_of dest!: map_of_SomeD)

text \<open>The values a list of proxy keys allows: its comma-separated parts, trimmed, without empty ones.\<close>

definition allowed_keys :: "SystemSettings \<Rightarrow> GroupRow \<Rightarrow> string set" where
  "allowed_keys s row = set (SplitAndTrim (ProxyKeys s) CHR '','') \<union> set (SplitAndTrim (gProxyKeys row) CHR '','')"

lemma no_empty_key [simp]: "[] \<notin> allowed_keys s row"
  by (auto simp: allowed_keys_def SplitAndTrim_def split: if_splits)

lemma groupLoader_row:
  assumes "distinct (map gName rows)" "row \<in> set rows"
  shows "groupLoader dec s rows (gName row) = Some (load_group dec s row)"
proof -
  have "distinct (map fst (rev (map (\<lambda>g. (gName g, load_group dec s g)) rows)))"
    using assms(1) by (simp add: comp_def flip: rev_map)
  then have "map_of (rev (map (\<lambda>g. (gName g, load_group dec s g)) rows)) (gName row) = Some (load_group dec s row)"
    using assms(2) by (intro map_of_is_SomeI) auto
  then show ?thesis by (simp add: groupLoader_def fold_upd_map_of)
qed

lemma ProxyAuth_iff:
  assumes "distinct (map gName groups)"
  shows "ProxyAuth qkey (groupLoader dec (settingsLoader ord rows) groups) groupName c = None \<longleftrightarrow>
    (\<exists>row \<in> set groups. gName row = groupName \<and>
       extractAuthKey qkey c \<in> allowed_keys (settingsLoader ord rows) row)"
    (is "?auth = None \<longleftrightarrow> ?listed")
proof
  let ?s = "settingsLoader ord rows"
  let ?key = "extractAuthKey qkey c"
  have maps: "?key \<in> ProxyKeysMap (EffectiveConfig (load_group dec ?s row)) \<or>
      ?key \<in> gProxyKeysMap (load_group dec ?s row) \<longleftrightarrow> ?key \<in> allowed_keys ?s row" for row
    by (simp add: load_group_def allowed_keys_def StringToSet_def)
  show ?listed if a: "?auth = None"
  proof -
    obtain g where g: "groupLoader dec ?s groups groupName = Some g"
      "?key \<in> ProxyKeysMap (EffectiveConfig g) \<or> ?key \<in> gProxyKeysMap g"
      using a by (auto simp: ProxyAuth_def GetGroupByName_def Let_def split: if_splits option.splits)
    then show ?thesis using groupLoader_Some [OF g(1)] maps by blast
  qed
  show "?auth = None" if l: ?listed
  proof -
    obtain row where row: "row \<in> set groups" "gName row = groupName" "?key \<in> allowed_keys ?s row"
      using l by blast
    then have "groupLoader dec ?s groups groupName = Some (load_group dec ?s row)"
      using groupLoader_row [OF assms row(1)] by simp
    moreover have "?key \<noteq> []" using row(3) by (metis no_empty_key)
    ultimately show ?thesis
      using maps [of row] row(3) by (simp add: ProxyAuth_def GetGroupByName_def Let_def)
  qed
qed

text \<open>C23: With the caches loaded from the database, a request is handled exactly if it brings, as a
  bearer token, in one of the two key headers or as the query parameter, a key that is listed in the
  proxy keys of the settings or of its group; the overrides of a group cannot widen this, and the
  empty key is never listed. Any other request changes nothing and is answered with an error.\<close>

theorem proxy_requires_listed_key:
  assumes "serve_proxy decode parse ch_text override w ord2 qkey (groupLoader dec (settingsLoader ord rows) groups)
      groupName read c t (cache, p) = (cache', p')"
    and "distinct (map gName groups)"
  shows "if \<exists>row \<in> set groups. gName row = groupName \<and>
        extractAuthKey qkey c \<in> allowed_keys (settingsLoader ord rows) row
    then (cache', p') = HandleProxy decode parse ch_text override
      (\<lambda>_. case groupLoader dec (settingsLoader ord rows) groups groupName of
             Some g \<Rightarrow> HeaderRuleList g | None \<Rightarrow> []) w ord2
      (\<lambda>n. map_option Group.truncate (groupLoader dec (settingsLoader ord rows) groups n)) groupName read c t (cache, p)
    else cache' = cache \<and>
      (\<exists>code kind msg. code \<in> {401, 500} \<and> p' = p\<lparr>answer := Some (AnswerError code kind msg)\<rparr>)"
proof (cases "ProxyAuth qkey (groupLoader dec (settingsLoader ord rows) groups) groupName c")
  case None
  then show ?thesis
    using assms(1) ProxyAuth_iff [OF assms(2), of qkey dec ord rows groupName c]
    by (simp add: serve_proxy_def None)
next
  case (Some ans)
  then have "\<exists>code kind msg. code \<in> {401, 500} \<and> ans = AnswerError code kind msg"
    by (auto simp: ProxyAuth_def Unauthorized_def Let_def split: if_splits option.splits)
  moreover have "\<not> (\<exists>row \<in> set groups. gName row = groupName \<and>
      extractAuthKey qkey c \<in> allowed_keys (settingsLoader ord rows) row)"
    using Some ProxyAuth_iff [OF assms(2)] by (metis option.distinct(1))
  ultimately show ?thesis
    using assms(1) Some by (auto simp: serve_proxy_def respond_def)
qed

text \<open>A client without a listed key.\<close>

definition demo_keyless :: client_request where
  "demo_keyless = \<lparr>cr_method = ''POST'', cr_url = cr_url demo_request,
     cr_headers = [(''Authorization'', ''Bearer sk-guess'')], cr_ip = [], cr_agent = [], cr_stream_param = []\<rparr>"

theorem proxy_requires_listed_key_witness:
  "sent (snd (serve_proxy (\<lambda>_. None) (\<lambda>_. None) (\<lambda>_. []) (\<lambda>_ b. Some b) demo_world id (\<lambda>_. [])
      (groupLoader (\<lambda>_. None) (settingsLoader id [(''proxy_keys'', ''sk-a, sk-b'')]) [demo_row])
      ''g'' (Some []) demo_keyless 0 (Map.empty, demo_proxy))) = sent demo_proxy"
proof -
  let ?rows = "[(''proxy_keys'', ''sk-a, sk-b'')] :: (string, string) gomap"
  let ?r = "serve_proxy (\<lambda>_. None) (\<lambda>_. None) (\<lambda>_. []) (\<lambda>_ b. Some b) demo_world id (\<lambda>_. [])
      (groupLoader (\<lambda>_. None) (settingsLoader id ?rows) [demo_row])
      ''g'' (Some []) demo_keyless 0 (Map.empty, demo_proxy)"
  have "json_tag F_ProxyKeys = ''proxy_keys''" by simp
  then have k: "ProxyKeys (settingsLoader id ?rows) = ''sk-a, sk-b''"
    using loader_field [OF iter_order_id(1), of ?rows F_ProxyKeys]
    by (simp add: gomap_ok_def text_value_def ProxyKeys_value)
  have "extractAuthKey (\<lambda>_. []) demo_keyless = ''sk-guess''"
    by (simp add: extractAuthKey_def GetHeader_def demo_keyless_def Let_def)
  moreover have "SplitAndTrim ''sk-a, sk-b'' CHR '','' = [''sk-a'', ''sk-b'']" by code_simp
  ultimately have "\<not> (\<exists>row \<in> set [demo_row]. gName row = ''g'' \<and>
      extractAuthKey (\<lambda>_. []) demo_keyless \<in> allowed_keys (settingsLoader id ?rows) row)"
    by (simp add: allowed_keys_def k demo_row_def SplitAndTrim_def)
  moreover obtain cache' p' where r: "?r = (cache', p')" by fastforce
  ultimately show ?thesis
    unfolding r using proxy_requires_listed_key [OF r] by auto
qed

end
