(* ===== verification/LocalCache.thy ===== *)
theory LocalCache
  imports StoreSpec Complex_Main
begin

text \<open>The key cache of src/internal/keypool/local_cache.go: a map of entries that are also linked
  in a doubly linked list, the most recently used first. Entries are cells of an explicit heap, so
  that the pointer updates are those of the code; a call that would follow a nil pointer is None.
  The goroutines that call cleanupExpired and adaptSize from a ticker, and the time of the last
  update, are left out. A float64 is a real number, its rounded division an argument.\<close>

section \<open>The list\<close>

record 'v CacheEntry =
  ceKey :: "'v option"
  ceExpiresAt :: int
  ceAccessAt :: int
  ceHitCount :: int
  cePrev :: "nat option"
  ceNext :: "nat option"

type_synonym 'v entries = "nat \<Rightarrow> 'v CacheEntry"

record LRUList =
  lhead :: nat
  ltail :: nat
  lsize :: int

definition upd :: "nat \<Rightarrow> ('v CacheEntry \<Rightarrow> 'v CacheEntry) \<Rightarrow> 'v entries \<Rightarrow> 'v entries" where
  "upd a f h = h(a := f (h a))"

definition zero_entry :: "'v CacheEntry" where
  "zero_entry = \<lparr>ceKey = None, ceExpiresAt = 0, ceAccessAt = 0, ceHitCount = 0, cePrev = None,
     ceNext = None\<rparr>"

text \<open>The two sentinels take the next two free cells.\<close>

definition NewLRUList :: "nat \<Rightarrow> 'v entries \<Rightarrow> LRUList \<times> nat \<times> 'v entries" where
  "NewLRUList fresh h =
    (let hd = fresh; tl = fresh + 1 in
     (\<lparr>lhead = hd, ltail = tl, lsize = 0\<rparr>, fresh + 2,
      h(hd := zero_entry\<lparr>ceNext := Some tl\<rparr>, tl := zero_entry\<lparr>cePrev := Some hd\<rparr>)))"

definition AddToFront :: "nat \<Rightarrow> LRUList \<times> 'v entries \<Rightarrow> (LRUList \<times> 'v entries) option" where
  "AddToFront e = (\<lambda>(l, h).
    let h1 = upd e (\<lambda>x. x\<lparr>cePrev := Some (lhead l), ceNext := ceNext (h (lhead l))\<rparr>) h in
    case ceNext (h1 (lhead l)) of
      None \<Rightarrow> None
    | Some n \<Rightarrow>
        let h2 = upd n (\<lambda>x. x\<lparr>cePrev := Some e\<rparr>) h1;
            h3 = upd (lhead l) (\<lambda>x. x\<lparr>ceNext := Some e\<rparr>) h2 in
        Some (l\<lparr>lsize := lsize l + 1\<rparr>, h3))"

definition LRU_Remove :: "nat \<Rightarrow> LRUList \<times> 'v entries \<Rightarrow> LRUList \<times> 'v entries" where
  "LRU_Remove e = (\<lambda>(l, h).
    let h1 = (case cePrev (h e) of None \<Rightarrow> h
              | Some p \<Rightarrow> upd p (\<lambda>x. x\<lparr>ceNext := ceNext (h e)\<rparr>) h);
        h2 = (case ceNext (h1 e) of None \<Rightarrow> h1
              | Some n \<Rightarrow> upd n (\<lambda>x. x\<lparr>cePrev := cePrev (h1 e)\<rparr>) h1);
        h3 = upd e (\<lambda>x. x\<lparr>cePrev := None, ceNext := None\<rparr>) h2 in
    (l\<lparr>lsize := lsize l - 1\<rparr>, h3))"

definition MoveToFront :: "nat \<Rightarrow> LRUList \<times> 'v entries \<Rightarrow> (LRUList \<times> 'v entries) option" where
  "MoveToFront e lh = AddToFront e (LRU_Remove e lh)"

section \<open>The cache\<close>

record CacheStats =
  csHits :: int
  csMisses :: int
  csEvictions :: int
  csSize :: int
  csHitRate :: real

record 'v LocalKeyCache =
  kheap :: "'v entries"
  kfresh :: nat
  kcache :: "(nat, nat) gomap"
  klru :: LRUList
  kmaxSize :: int
  kttl :: int
  kstats :: CacheStats

definition no_stats :: CacheStats where
  "no_stats = \<lparr>csHits = 0, csMisses = 0, csEvictions = 0, csSize = 0, csHitRate = 0\<rparr>"

definition NewLocalKeyCache :: "int \<Rightarrow> int \<Rightarrow> 'v LocalKeyCache" where
  "NewLocalKeyCache maxSize ttl = (case NewLRUList 0 (\<lambda>_. zero_entry) of (l, fresh, h) \<Rightarrow>
     \<lparr>kheap = h, kfresh = fresh, kcache = [], klru = l, kmaxSize = maxSize, kttl = ttl, kstats = no_stats\<rparr>)"

definition in_list :: "(LRUList \<times> 'v entries \<Rightarrow> LRUList \<times> 'v entries) \<Rightarrow> 'v LocalKeyCache \<Rightarrow> 'v LocalKeyCache" where
  "in_list f c = (case f (klru c, kheap c) of (l, h) \<Rightarrow> c\<lparr>klru := l, kheap := h\<rparr>)"

definition in_list_opt ::
  "(LRUList \<times> 'v entries \<Rightarrow> (LRUList \<times> 'v entries) option) \<Rightarrow> 'v LocalKeyCache \<Rightarrow> 'v LocalKeyCache option" where
  "in_list_opt f c = (case f (klru c, kheap c) of None \<Rightarrow> None | Some (l, h) \<Rightarrow> Some (c\<lparr>klru := l, kheap := h\<rparr>))"

definition updateStats :: "(int \<Rightarrow> int \<Rightarrow> real) \<Rightarrow> CacheStats \<Rightarrow> CacheStats" where
  "updateStats fdiv st =
    (let total = i64 (csHits st + csMisses st) in
     if total > 0 then st\<lparr>csHitRate := fdiv (csHits st) total\<rparr> else st)"

definition removeEntry :: "nat \<Rightarrow> 'v LocalKeyCache \<Rightarrow> 'v LocalKeyCache" where
  "removeEntry k c =
    (case gget (kcache c) k of
       None \<Rightarrow> c
     | Some e \<Rightarrow>
         let m = gdel k (kcache c) in
         in_list (LRU_Remove e) (c\<lparr>kcache := m, kstats := (kstats c)\<lparr>csSize := int (length m)\<rparr>\<rparr>))"

definition cache_miss :: "(int \<Rightarrow> int \<Rightarrow> real) \<Rightarrow> 'v LocalKeyCache \<Rightarrow> 'v LocalKeyCache" where
  "cache_miss fdiv c = c\<lparr>kstats := updateStats fdiv ((kstats c)\<lparr>csMisses := i64 (csMisses (kstats c) + 1)\<rparr>)\<rparr>"

definition kc_Get :: "(int \<Rightarrow> int \<Rightarrow> real) \<Rightarrow> int \<Rightarrow> nat \<Rightarrow> 'v LocalKeyCache \<Rightarrow>
    ('v LocalKeyCache \<times> 'v option) option" where
  "kc_Get fdiv now k c =
    (case gget (kcache c) k of
       None \<Rightarrow> Some (cache_miss fdiv c, None)
     | Some e \<Rightarrow>
         if now > ceExpiresAt (kheap c e) then Some (cache_miss fdiv (removeEntry k c), None)
         else
           let c1 = c\<lparr>kheap := upd e (\<lambda>x. x\<lparr>ceAccessAt := now, ceHitCount := i64 (ceHitCount x + 1)\<rparr>) (kheap c),
                      kstats := (kstats c)\<lparr>csHits := i64 (csHits (kstats c) + 1)\<rparr>\<rparr> in
           case in_list_opt (MoveToFront e) c1 of
             None \<Rightarrow> None
           | Some c2 \<Rightarrow> Some (c2\<lparr>kstats := updateStats fdiv (kstats c2)\<rparr>, ceKey (kheap c2 e)))"

text \<open>The first entry of the iteration that is the last one of the list; 0 stands for none.\<close>

definition evictLRU :: "(nat \<times> nat) iter \<Rightarrow> 'v LocalKeyCache \<Rightarrow> 'v LocalKeyCache" where
  "evictLRU ord c =
    (if lsize (klru c) = 0 then c
     else case cePrev (kheap c (ltail (klru c))) of
       None \<Rightarrow> c
     | Some lastEntry \<Rightarrow>
         if lastEntry = lhead (klru c) then c
         else
           let keyIDToRemove = (case find (\<lambda>(k, e). e = lastEntry) (ord (kcache c)) of
                                  None \<Rightarrow> 0 | Some (k, e) \<Rightarrow> k) in
           if keyIDToRemove \<noteq> 0
           then let c1 = removeEntry keyIDToRemove c in
                c1\<lparr>kstats := (kstats c1)\<lparr>csEvictions := i64 (csEvictions (kstats c1) + 1)\<rparr>\<rparr>
           else c)"

definition kc_Set :: "(nat \<times> nat) iter \<Rightarrow> int \<Rightarrow> nat \<Rightarrow> 'v option \<Rightarrow> 'v LocalKeyCache \<Rightarrow>
    'v LocalKeyCache option" where
  "kc_Set ord now k v c =
    (case gget (kcache c) k of
       Some e \<Rightarrow> in_list_opt (MoveToFront e)
         (c\<lparr>kheap := upd e (\<lambda>x. x\<lparr>ceKey := v, ceExpiresAt := now + kttl c, ceAccessAt := now\<rparr>) (kheap c)\<rparr>)
     | None \<Rightarrow>
         let c1 = (if int (length (kcache c)) \<ge> kmaxSize c then evictLRU ord c else c);
             e = kfresh c1;
             c2 = c1\<lparr>kfresh := e + 1, kcache := gput k e (kcache c1),
               kheap := (kheap c1)(e := \<lparr>ceKey = v, ceExpiresAt = now + kttl c, ceAccessAt = now,
                 ceHitCount = 0, cePrev = None, ceNext = None\<rparr>)\<rparr> in
         case in_list_opt (AddToFront e) c2 of
           None \<Rightarrow> None
         | Some c3 \<Rightarrow> Some (c3\<lparr>kstats := (kstats c3)\<lparr>csSize := int (length (kcache c3))\<rparr>\<rparr>))"

definition kc_Remove :: "nat \<Rightarrow> 'v LocalKeyCache \<Rightarrow> 'v LocalKeyCache" where
  "kc_Remove k c = removeEntry k c"

definition kc_cleanupExpired :: "(nat \<times> nat) iter \<Rightarrow> int \<Rightarrow> 'v LocalKeyCache \<Rightarrow> 'v LocalKeyCache" where
  "kc_cleanupExpired ord now c =
    fold removeEntry (map fst (filter (\<lambda>(k, e). now > ceExpiresAt (kheap c e)) (ord (kcache c)))) c"

definition kc_GetStats :: "'v LocalKeyCache \<Rightarrow> CacheStats" where
  "kc_GetStats c = kstats c"

definition kc_Clear :: "'v LocalKeyCache \<Rightarrow> 'v LocalKeyCache" where
  "kc_Clear c = (case NewLRUList (kfresh c) (kheap c) of (l, fresh, h) \<Rightarrow>
     c\<lparr>kheap := h, kfresh := fresh, kcache := [], klru := l, kstats := no_stats\<rparr>)"

section \<open>The adaptive cache\<close>

record AdaptiveCacheConfig =
  acMinSize :: int
  acMaxSize :: int
  acHitRateTarget :: real
  acSizeAdjustStep :: int

text \<open>The loop that evicts until the cache is small enough may never end.\<close>

partial_function (option) evict_loop :: "(nat \<times> nat) iter \<Rightarrow> 'v LocalKeyCache \<Rightarrow> 'v LocalKeyCache option" where
  "evict_loop ord c =
    (if int (length (kcache c)) > kmaxSize c then evict_loop ord (evictLRU ord c) else Some c)"

text \<open>The rounded sum of the target and 0.1 is an argument.\<close>

definition adaptSize :: "(real \<Rightarrow> real) \<Rightarrow> (nat \<times> nat) iter \<Rightarrow> AdaptiveCacheConfig \<Rightarrow> 'v LocalKeyCache \<Rightarrow>
    'v LocalKeyCache option" where
  "adaptSize plus_tenth ord ac c =
    (let rate = csHitRate (kc_GetStats c) in
     if rate < acHitRateTarget ac
     then let newSize = i64 (kmaxSize c + acSizeAdjustStep ac) in
          Some (if newSize \<le> acMaxSize ac then c\<lparr>kmaxSize := newSize\<rparr> else c)
     else if rate > plus_tenth (acHitRateTarget ac)
     then let newSize = i64 (kmaxSize c - acSizeAdjustStep ac) in
          if newSize \<ge> acMinSize ac then evict_loop ord (c\<lparr>kmaxSize := newSize\<rparr>) else Some c
     else Some c)"

section \<open>The list in the heap\<close>

text \<open>The cells of a list point to each other.\<close>

fun linked :: "'v entries \<Rightarrow> nat list \<Rightarrow> bool" where
  "linked h (x # y # zs) \<longleftrightarrow> ceNext (h x) = Some y \<and> cePrev (h y) = Some x \<and> linked h (y # zs)"
| "linked h xs \<longleftrightarrow> True"

lemma linked_append: "linked h (xs @ y # zs) \<longleftrightarrow> linked h (xs @ [y]) \<and> linked h (y # zs)"
proof (induction xs)
  case (Cons x xs)
  then show ?case by (cases xs) auto
qed simp

lemma linked_cong:
  assumes "\<And>x. x \<in> set (butlast xs) \<Longrightarrow> ceNext (h' x) = ceNext (h x)"
    and "\<And>x. x \<in> set (tl xs) \<Longrightarrow> cePrev (h' x) = cePrev (h x)"
  shows "linked h' xs \<longleftrightarrow> linked h xs"
  using assms by (induction h xs rule: linked.induct) auto

lemma linked_front:
  assumes "\<And>x. x \<in> set xs \<Longrightarrow> h' x = h x" "cePrev (h' p) = cePrev (h p)"
  shows "linked h' (xs @ [p]) \<longleftrightarrow> linked h (xs @ [p])"
proof (rule linked_cong)
  fix x assume "x \<in> set (tl (xs @ [p]))"
  then have "x \<in> set xs \<or> x = p" by (cases xs) auto
  then show "cePrev (h' x) = cePrev (h x)" using assms by auto
qed (simp add: assms(1))

lemma linked_back:
  assumes "\<And>y. y \<in> set ys \<Longrightarrow> h' y = h y" "ceNext (h' n) = ceNext (h n)"
  shows "linked h' (n # ys) \<longleftrightarrow> linked h (n # ys)"
proof (rule linked_cong)
  fix x assume "x \<in> set (butlast (n # ys))"
  then have "x = n \<or> x \<in> set ys" using in_set_butlastD by fastforce
  then show "ceNext (h' x) = ceNext (h x)" using assms by auto
qed (simp add: assms(1))

text \<open>What an update leaves of the data of the entries.\<close>

abbreviation same_data :: "'v entries \<Rightarrow> 'v entries \<Rightarrow> bool" where
  "same_data h h' \<equiv> (\<forall>a. ceKey (h' a) = ceKey (h a) \<and> ceExpiresAt (h' a) = ceExpiresAt (h a))"

lemma remove_linked:
  assumes "linked h (xs @ p # e # n # ys)" "distinct (xs @ p # e # n # ys)"
    and "LRU_Remove e (l, h) = (l', h')"
  shows "linked h' (xs @ p # n # ys)" "same_data h h'" "l' = l\<lparr>lsize := lsize l - 1\<rparr>"
proof -
  have parts: "linked h (xs @ [p])" "linked h (p # e # n # ys)" using assms(1) linked_append by blast+
  then have pn: "ceNext (h p) = Some e" "cePrev (h e) = Some p" "ceNext (h e) = Some n" "cePrev (h n) = Some e"
    by simp_all
  have d: "p \<noteq> e" "p \<noteq> n" "e \<noteq> n" using assms(2) by auto
  have h': "h' = h(p := (h p)\<lparr>ceNext := Some n\<rparr>, n := (h n)\<lparr>cePrev := Some p\<rparr>,
      e := (h e)\<lparr>cePrev := None, ceNext := None\<rparr>)" and l': "l' = l\<lparr>lsize := lsize l - 1\<rparr>"
    using assms(3) pn d by (auto simp: LRU_Remove_def upd_def Let_def fun_eq_iff)
  have "linked h' (xs @ [p]) \<longleftrightarrow> linked h (xs @ [p])"
    using assms(2) unfolding h' by (intro linked_front) auto
  moreover have "linked h' (n # ys) \<longleftrightarrow> linked h (n # ys)"
    using assms(2) unfolding h' by (intro linked_back) auto
  moreover have "ceNext (h' p) = Some n" "cePrev (h' n) = Some p" using d by (simp_all add: h')
  ultimately show "linked h' (xs @ p # n # ys)"
    using parts linked_append [of h' xs p "n # ys"] by simp
  show "same_data h h'" "l' = l\<lparr>lsize := lsize l - 1\<rparr>" using h' l' by simp_all
qed

lemma add_linked:
  assumes "linked h (lhead l # n # ys)" "distinct (lhead l # n # ys)" "e \<notin> set (lhead l # n # ys)"
  shows "\<exists>h'. AddToFront e (l, h) = Some (l\<lparr>lsize := lsize l + 1\<rparr>, h') \<and>
    linked h' (lhead l # e # n # ys) \<and> same_data h h'"
proof -
  have hn: "ceNext (h (lhead l)) = Some n" using assms(1) by simp
  have d: "lhead l \<noteq> n" "e \<noteq> n" "e \<noteq> lhead l" using assms(2,3) by auto
  let ?h = "h(e := (h e)\<lparr>cePrev := Some (lhead l), ceNext := Some n\<rparr>, n := (h n)\<lparr>cePrev := Some e\<rparr>,
      lhead l := (h (lhead l))\<lparr>ceNext := Some e\<rparr>)"
  have "linked ?h (n # ys) \<longleftrightarrow> linked h (n # ys)"
    using assms(2,3) by (intro linked_back) auto
  then have "linked ?h (lhead l # e # n # ys)" using assms(1) d by simp
  moreover have "AddToFront e (l, h) = Some (l\<lparr>lsize := lsize l + 1\<rparr>, ?h)"
    using hn d by (auto simp: AddToFront_def upd_def Let_def fun_upd_twist)
  ultimately show ?thesis by auto
qed

text \<open>The cells of a list, sentinels left out.\<close>

definition shape :: "'v entries \<Rightarrow> LRUList \<Rightarrow> nat list \<Rightarrow> bool" where
  "shape h l es \<longleftrightarrow> distinct (lhead l # es @ [ltail l]) \<and> linked h (lhead l # es @ [ltail l]) \<and>
     lsize l = int (length es)"

lemma shape_remove:
  assumes "shape h l (us @ e # vs)" "LRU_Remove e (l, h) = (l', h')"
  shows "shape h' l' (us @ vs)" "same_data h h'" "l' = l\<lparr>lsize := lsize l - 1\<rparr>"
proof -
  obtain xs p where xs: "lhead l # us = xs @ [p]" by (metis rev_exhaust list.distinct(1))
  obtain n ys where ys: "vs @ [ltail l] = n # ys" by (metis list.exhaust snoc_eq_iff_butlast)
  have e1: "lhead l # (us @ e # vs) @ [ltail l] = xs @ p # e # n # ys"
    using arg_cong2 [OF xs ys, of "\<lambda>a b. a @ e # b"] by simp
  have e2: "lhead l # (us @ vs) @ [ltail l] = xs @ p # n # ys"
    using arg_cong2 [OF xs ys, of append] by simp
  note r = remove_linked [of h xs p e n ys l l' h']
  have "distinct (xs @ p # n # ys)" using assms(1) unfolding shape_def e1 by auto
  then show "shape h' l' (us @ vs)" "same_data h h'" "l' = l\<lparr>lsize := lsize l - 1\<rparr>"
    using assms r e2 unfolding shape_def e1 by simp_all
qed

lemma shape_add:
  assumes "shape h l es" "e \<notin> set (lhead l # es @ [ltail l])"
  shows "\<exists>h'. AddToFront e (l, h) = Some (l\<lparr>lsize := lsize l + 1\<rparr>, h') \<and>
    shape h' (l\<lparr>lsize := lsize l + 1\<rparr>) (e # es) \<and> same_data h h'"
proof -
  obtain n ys where ys: "es @ [ltail l] = n # ys" by (metis list.exhaust snoc_eq_iff_butlast)
  have "linked h (lhead l # n # ys)" "distinct (lhead l # n # ys)" "e \<notin> set (lhead l # n # ys)"
    using assms unfolding shape_def ys by simp_all
  from add_linked [OF this] obtain h' where "AddToFront e (l, h) = Some (l\<lparr>lsize := lsize l + 1\<rparr>, h')"
      "linked h' (lhead l # e # n # ys)" "same_data h h'" by blast
  then show ?thesis using assms ys [symmetric] by (intro exI [of _ h']) (auto simp: shape_def)
qed

lemma shape_move:
  assumes "shape h l (us @ e # vs)"
  shows "\<exists>h'. MoveToFront e (l, h) = Some (l, h') \<and> shape h' l (e # us @ vs) \<and> same_data h h'"
proof -
  obtain l1 h1 where r: "LRU_Remove e (l, h) = (l1, h1)" by fastforce
  note s = shape_remove [OF assms r]
  have "e \<notin> set (lhead l1 # (us @ vs) @ [ltail l1])" using assms s(3) by (auto simp: shape_def)
  from shape_add [OF s(1) this] show ?thesis
    using s(2,3) r by (auto simp: MoveToFront_def)
qed

lemma shape_data:
  assumes "\<And>a. cePrev (h' a) = cePrev (h a)" "\<And>a. ceNext (h' a) = ceNext (h a)"
  shows "shape h' l es \<longleftrightarrow> shape h l es"
  using linked_cong [of "lhead l # es @ [ltail l]" h' h] assms by (simp add: shape_def)

lemma shape_outside:
  assumes "shape h l es" "e \<notin> set (lhead l # es @ [ltail l])"
  shows "shape (h(e := x)) l es"
proof -
  have "linked (h(e := x)) (lhead l # es @ [ltail l]) \<longleftrightarrow> linked h (lhead l # es @ [ltail l])"
    using assms(2) by (intro linked_cong) (auto dest: in_set_butlastD)
  then show ?thesis using assms(1) by (simp add: shape_def)
qed

lemma shape_new: "NewLRUList fresh h = (l, f, h') \<Longrightarrow>
    shape h' l [] \<and> f = fresh + 2 \<and> lhead l = fresh \<and> ltail l = fresh + 1"
  by (auto simp: NewLRUList_def shape_def Let_def)

lemma shape_last:
  assumes "shape h l es"
  shows "cePrev (h (ltail l)) = Some (last (lhead l # es))"
proof -
  have "lhead l # es @ [ltail l] = butlast (lhead l # es) @ last (lhead l # es) # [ltail l]"
    using append_butlast_last_id [of "lhead l # es"] by (metis append_Cons append_Nil append_assoc list.distinct(1))
  then have "linked h (butlast (lhead l # es) @ last (lhead l # es) # [ltail l])"
    using assms by (simp only: shape_def)
  from linked_append [THEN iffD1, OF this] show ?thesis by simp
qed

end
