(* ===== verification/LruSpec.thy ===== *)
theory LruSpec
  imports LocalCache
begin

text \<open>What the local cache promises: a list of entries, the most recently used first, as long as its
  capacity; and the proof that the linked cells of the code keep this promise.\<close>

section \<open>The abstract cache\<close>

record 'v lru =
  lentries :: "(nat \<times> 'v option \<times> int) list"
  lcap :: int
  lttl :: int
  lhits :: int
  lmisses :: int
  levictions :: int

definition lru_drop :: "nat \<Rightarrow> 'v lru \<Rightarrow> 'v lru" where
  "lru_drop k s = s\<lparr>lentries := gdel k (lentries s)\<rparr>"

definition lru_front :: "nat \<Rightarrow> 'v option \<Rightarrow> int \<Rightarrow> 'v lru \<Rightarrow> 'v lru" where
  "lru_front k v t s = s\<lparr>lentries := (k, v, t) # gdel k (lentries s)\<rparr>"

definition lru_evict :: "'v lru \<Rightarrow> 'v lru" where
  "lru_evict s = (if lentries s = [] then s
     else s\<lparr>lentries := butlast (lentries s), levictions := i64 (levictions s + 1)\<rparr>)"

definition lru_Get :: "int \<Rightarrow> nat \<Rightarrow> 'v lru \<Rightarrow> 'v lru \<times> 'v option" where
  "lru_Get now k s =
    (case gget (lentries s) k of
       None \<Rightarrow> (s\<lparr>lmisses := i64 (lmisses s + 1)\<rparr>, None)
     | Some (v, t) \<Rightarrow>
         if now > t then (lru_drop k (s\<lparr>lmisses := i64 (lmisses s + 1)\<rparr>), None)
         else (lru_front k v t (s\<lparr>lhits := i64 (lhits s + 1)\<rparr>), v))"

definition lru_Set :: "int \<Rightarrow> nat \<Rightarrow> 'v option \<Rightarrow> 'v lru \<Rightarrow> 'v lru" where
  "lru_Set now k v s = lru_front k v (now + lttl s)
     (if gget (lentries s) k = None \<and> int (length (lentries s)) \<ge> lcap s then lru_evict s else s)"

definition lru_cleanup :: "int \<Rightarrow> 'v lru \<Rightarrow> 'v lru" where
  "lru_cleanup now s = s\<lparr>lentries := filter (\<lambda>(k, v, t). \<not> now > t) (lentries s)\<rparr>"

definition lru_clear :: "'v lru \<Rightarrow> 'v lru" where
  "lru_clear s = s\<lparr>lentries := [], lhits := 0, lmisses := 0, levictions := 0\<rparr>"

section \<open>Calls\<close>

datatype 'v cache_call = CGet nat | CSet nat "'v option" | CRemove nat | CCleanup | CStats | CClear

datatype 'v cache_answer = ANone | AKey "'v option" | ACounts int int int int real

fun kc_call :: "(int \<Rightarrow> int \<Rightarrow> real) \<Rightarrow> (nat \<times> nat) iter \<Rightarrow> int \<times> 'v cache_call \<Rightarrow> 'v LocalKeyCache \<Rightarrow>
    ('v LocalKeyCache \<times> 'v cache_answer) option" where
  "kc_call fdiv ord (now, CGet k) c =
     (case kc_Get fdiv now k c of None \<Rightarrow> None | Some (c', v) \<Rightarrow> Some (c', AKey v))"
| "kc_call fdiv ord (now, CSet k v) c =
     (case kc_Set ord now k v c of None \<Rightarrow> None | Some c' \<Rightarrow> Some (c', ANone))"
| "kc_call fdiv ord (now, CRemove k) c = Some (kc_Remove k c, ANone)"
| "kc_call fdiv ord (now, CCleanup) c = Some (kc_cleanupExpired ord now c, ANone)"
| "kc_call fdiv ord (now, CStats) c =
     (let st = kc_GetStats c in Some (c, ACounts (csHits st) (csMisses st) (csEvictions st) (csSize st)
        (csHitRate st)))"
| "kc_call fdiv ord (now, CClear) c = Some (kc_Clear c, ANone)"

fun kc_calls :: "(int \<Rightarrow> int \<Rightarrow> real) \<Rightarrow> (nat \<times> nat) iter \<Rightarrow> (int \<times> 'v cache_call) list \<Rightarrow> 'v LocalKeyCache \<Rightarrow>
    ('v LocalKeyCache \<times> 'v cache_answer list) option" where
  "kc_calls fdiv ord [] c = Some (c, [])"
| "kc_calls fdiv ord (x # xs) c =
    (case kc_call fdiv ord x c of None \<Rightarrow> None
     | Some (c1, r) \<Rightarrow> (case kc_calls fdiv ord xs c1 of None \<Rightarrow> None | Some (c2, rs) \<Rightarrow> Some (c2, r # rs)))"

text \<open>The share of the lookups that hit, 0 before the first.\<close>

definition hit_rate :: "(int \<Rightarrow> int \<Rightarrow> real) \<Rightarrow> int \<Rightarrow> int \<Rightarrow> real" where
  "hit_rate fdiv hits misses = (if hits + misses = 0 then 0 else fdiv hits (hits + misses))"

fun lru_call :: "(int \<Rightarrow> int \<Rightarrow> real) \<Rightarrow> int \<times> 'v cache_call \<Rightarrow> 'v lru \<Rightarrow> 'v lru \<times> 'v cache_answer" where
  "lru_call fdiv (now, CGet k) s = (case lru_Get now k s of (s', v) \<Rightarrow> (s', AKey v))"
| "lru_call fdiv (now, CSet k v) s = (lru_Set now k v s, ANone)"
| "lru_call fdiv (now, CRemove k) s = (lru_drop k s, ANone)"
| "lru_call fdiv (now, CCleanup) s = (lru_cleanup now s, ANone)"
| "lru_call fdiv (now, CStats) s =
     (s, ACounts (lhits s) (lmisses s) (levictions s) (int (length (lentries s)))
       (hit_rate fdiv (lhits s) (lmisses s)))"
| "lru_call fdiv (now, CClear) s = (lru_clear s, ANone)"

text \<open>No call stores under the id 0, which a table never gives to a row.\<close>

definition no_zero :: "'v cache_call \<Rightarrow> bool" where
  "no_zero x \<longleftrightarrow> (case x of CSet k v \<Rightarrow> k \<noteq> 0 | _ \<Rightarrow> True)"

section \<open>The refinement\<close>

text \<open>The state of the code stands for the entries of ps, which pairs the ids with their cells in the
  order of the list.\<close>

definition entries_of :: "'v entries \<Rightarrow> (nat \<times> nat) list \<Rightarrow> (nat \<times> 'v option \<times> int) list" where
  "entries_of h ps = map (\<lambda>(k, e). (k, ceKey (h e), ceExpiresAt (h e))) ps"

definition cache_rel :: "'v LocalKeyCache \<Rightarrow> (nat \<times> nat) list \<Rightarrow> 'v lru \<Rightarrow> bool" where
  "cache_rel c ps s \<longleftrightarrow> gomap_ok (kcache c) \<and> map_of (kcache c) = map_of ps \<and> distinct (map fst ps) \<and>
     shape (kheap c) (klru c) (map snd ps) \<and>
     (\<forall>e \<in> set (lhead (klru c) # map snd ps @ [ltail (klru c)]). e < kfresh c) \<and>
     csSize (kstats c) = int (length ps) \<and> 0 \<notin> fst ` set ps \<and>
     s = \<lparr>lentries = entries_of (kheap c) ps, lcap = kmaxSize c, lttl = kttl c, lhits = csHits (kstats c),
          lmisses = csMisses (kstats c), levictions = csEvictions (kstats c)\<rparr>"

lemma cache_relD:
  assumes "cache_rel c ps s"
  shows "gomap_ok (kcache c)" "map_of (kcache c) = map_of ps" "distinct (map fst ps)"
    "shape (kheap c) (klru c) (map snd ps)" "csSize (kstats c) = int (length ps)"
    "lentries s = entries_of (kheap c) ps" "lcap s = kmaxSize c" "lttl s = kttl c"
    "lhits s = csHits (kstats c)" "lmisses s = csMisses (kstats c)" "levictions s = csEvictions (kstats c)"
  using assms by (simp_all add: cache_rel_def)

lemma gdel_filter: "gdel k m = filter (\<lambda>e. fst e \<noteq> k) m"
  by (induction m) auto

lemma gdel_absent: "gget m k = None \<Longrightarrow> gdel k m = m"
  by (simp add: delete_id map_of_eq_None_iff)

lemma gdel_entries: "gdel k (entries_of h ps) = entries_of h (gdel k ps)"
  by (induction ps) (auto simp: entries_of_def)

lemma gget_entries: "gget (entries_of h ps) k = map_option (\<lambda>e. (ceKey (h e), ceExpiresAt (h e))) (gget ps k)"
  by (induction ps) (auto simp: entries_of_def)

lemma entries_cong:
  assumes "\<And>e. e \<in> snd ` set ps \<Longrightarrow> ceKey (h' e) = ceKey (h e) \<and> ceExpiresAt (h' e) = ceExpiresAt (h e)"
  shows "entries_of h' ps = entries_of h ps"
  using assms by (force simp: entries_of_def)

lemma entries_same: "same_data h h' \<Longrightarrow> entries_of h' ps = entries_of h ps"
  by (auto simp: entries_of_def)

lemma length_entries [simp]: "length (entries_of h ps) = length ps"
  by (simp add: entries_of_def)

text \<open>An entry of the list and what is around it.\<close>

lemma split_entry:
  assumes "distinct (map fst ps)" "gget ps k = Some e"
  obtains us vs where "ps = us @ (k, e) # vs" "gdel k ps = us @ vs" "map snd ps = map snd us @ e # map snd vs"
proof -
  obtain us vs where ps: "ps = us @ (k, e) # vs" using map_of_SomeD [OF assms(2)] by (meson split_list)
  have "k \<notin> fst ` set us" "k \<notin> fst ` set vs" using assms(1) unfolding ps by auto
  then have "filter (\<lambda>e. fst e \<noteq> k) us = us" "filter (\<lambda>e. fst e \<noteq> k) vs = vs"
    by (intro filter_True; blast)+
  then have "gdel k ps = us @ vs" unfolding ps gdel_filter by simp
  then show ?thesis using that ps by simp
qed

lemma same_length:
  assumes "gomap_ok m" "map_of m = map_of ps" "distinct (map fst ps)"
  shows "length m = length ps"
  using assms by (metis gomap_ok_def distinct_card dom_map_of_conv_image_fst length_map set_map)

lemma removeEntry_rel:
  assumes "cache_rel c ps s"
  shows "cache_rel (removeEntry k c) (gdel k ps) (lru_drop k s)"
proof (cases "gget (kcache c) k")
  case None
  then have "gdel k ps = ps"
    using assms by (simp add: cache_rel_def gdel_absent)
  then show ?thesis using assms None by (auto simp: removeEntry_def cache_rel_def lru_drop_def gdel_entries)
next
  case (Some e)
  then have e: "gget ps k = Some e" using assms by (simp add: cache_rel_def)
  have d: "distinct (map fst ps)" using assms by (simp add: cache_rel_def)
  obtain us vs where ps: "ps = us @ (k, e) # vs" "gdel k ps = us @ vs"
      "map snd ps = map snd us @ e # map snd vs" using split_entry [OF d e] .
  obtain l' h' where r: "LRU_Remove e (klru c, kheap c) = (l', h')" by fastforce
  have "shape (kheap c) (klru c) (map snd us @ e # map snd vs)" using assms ps(3) by (simp add: cache_rel_def)
  note sh = shape_remove [OF this r]
  have m: "map_of (gdel k (kcache c)) = map_of (gdel k ps)" using assms by (auto simp: cache_rel_def fun_eq_iff)
  have dg: "distinct (map fst (gdel k ps))" using d by (simp add: distinct_delete)
  have len: "length (gdel k (kcache c)) = length (gdel k ps)"
    using same_length [OF _ m dg] assms by (simp add: cache_rel_def)
  have sub: "set (gdel k ps) \<subseteq> set ps" unfolding gdel_filter by auto
  have cells: "map snd (gdel k ps) = map snd us @ map snd vs" using ps(2) by simp
  show ?thesis
    using assms Some r sh m dg len entries_same [OF sh(2)] sub
    unfolding cache_rel_def removeEntry_def in_list_def lru_drop_def cells [symmetric]
    by (auto simp: gdel_entries dest!: subsetD [OF sub])
qed

lemma updateStats_simps [simp]:
  "csHits (updateStats fdiv st) = csHits st" "csMisses (updateStats fdiv st) = csMisses st"
  "csEvictions (updateStats fdiv st) = csEvictions st" "csSize (updateStats fdiv st) = csSize st"
  by (simp_all add: updateStats_def Let_def)

text \<open>The statistics only count.\<close>

lemma stats_rel:
  assumes "cache_rel c ps s" "csSize st = csSize (kstats c)"
  shows "cache_rel (c\<lparr>kstats := st\<rparr>) ps
    (s\<lparr>lhits := csHits st, lmisses := csMisses st, levictions := csEvictions st\<rparr>)"
  using assms by (simp add: cache_rel_def)

text \<open>An entry whose data may be changed on the way is moved to the front.\<close>

lemma move_rel:
  assumes "cache_rel c ps s" "gget ps k = Some e"
    and f: "cePrev (f (kheap c e)) = cePrev (kheap c e)" "ceNext (f (kheap c e)) = ceNext (kheap c e)"
  shows "\<exists>h'. MoveToFront e (klru c, upd e f (kheap c)) = Some (klru c, h') \<and>
    ceKey (h' e) = ceKey (f (kheap c e)) \<and>
    cache_rel (c\<lparr>kheap := h'\<rparr>) ((k, e) # gdel k ps)
      (lru_front k (ceKey (f (kheap c e))) (ceExpiresAt (f (kheap c e))) s)"
proof -
  let ?h = "upd e f (kheap c)"
  have d: "distinct (map fst ps)" using assms(1) by (simp add: cache_rel_def)
  obtain us vs where ps: "ps = us @ (k, e) # vs" "gdel k ps = us @ vs"
      "map snd ps = map snd us @ e # map snd vs" using split_entry [OF d assms(2)] .
  have "shape ?h (klru c) (map snd us @ e # map snd vs)"
    using assms(1) shape_data [of ?h "kheap c"] f unfolding ps(3) [symmetric]
    by (simp add: cache_rel_def upd_def)
  from shape_move [OF this] obtain h' where h': "MoveToFront e (klru c, ?h) = Some (klru c, h')"
      "shape h' (klru c) (e # map snd us @ map snd vs)" "same_data ?h h'" by blast
  have cells: "map snd (gdel k ps) = map snd us @ map snd vs" using ps(2) by simp
  have "e \<notin> snd ` set (gdel k ps)" using h'(2) unfolding cells [symmetric] by (simp add: shape_def)
  then have old: "entries_of h' (gdel k ps) = entries_of (kheap c) (gdel k ps)"
    using h'(3) by (intro entries_cong) (auto simp: upd_def)
  have e: "ceKey (h' e) = ceKey (f (kheap c e))" "ceExpiresAt (h' e) = ceExpiresAt (f (kheap c e))"
    using h'(3) by (simp_all add: upd_def)
  have sub: "set (gdel k ps) \<subseteq> set ps" unfolding gdel_filter by auto
  have m: "map_of ((k, e) # gdel k ps) = map_of ps" using assms(2) by (auto simp: fun_eq_iff)
  have dg: "distinct (map fst ((k, e) # gdel k ps))" using d by (auto simp: gdel_filter distinct_map_filter)
  have "length ps = length ((k, e) # gdel k ps)" using ps(1,2) by simp
  moreover have "shape h' (klru c) (map snd ((k, e) # gdel k ps))" using h'(2) cells by simp
  moreover have "k \<noteq> 0" "e < kfresh c" using assms(1) ps(1) by (auto simp: cache_rel_def)
  ultimately have "cache_rel (c\<lparr>kheap := h'\<rparr>) ((k, e) # gdel k ps)
      (lru_front k (ceKey (f (kheap c e))) (ceExpiresAt (f (kheap c e))) s)"
    using assms(1) m dg old e
    unfolding cache_rel_def lru_front_def
    by (auto simp: gdel_entries entries_of_def [of h' "_ # _"] entries_of_def [symmetric] dest!: subsetD [OF sub])
  then show ?thesis using h'(1) e by blast
qed

lemma get_rel:
  assumes "cache_rel c ps s"
  shows "\<exists>c' ps' s' v. kc_Get fdiv now k c = Some (c', v) \<and> lru_Get now k s = (s', v) \<and> cache_rel c' ps' s'"
proof -
  let ?miss = "\<lambda>s. s\<lparr>lmisses := i64 (lmisses s + 1)\<rparr>"
  have miss: "cache_rel (cache_miss fdiv c') ps' (?miss s')" if "cache_rel c' ps' s'" for c' ps' s'
    using stats_rel [OF that, of "updateStats fdiv ((kstats c')\<lparr>csMisses := i64 (csMisses (kstats c') + 1)\<rparr>)"] that
    by (simp add: cache_miss_def cache_rel_def)
  have m: "gget (kcache c) k = gget ps k" and s: "lentries s = entries_of (kheap c) ps"
    using assms by (simp_all add: cache_rel_def)
  show ?thesis
  proof (cases "gget ps k")
    case None
    then show ?thesis using miss [OF assms] m s by (auto simp: kc_Get_def lru_Get_def gget_entries)
  next
    case (Some e)
    show ?thesis
    proof (cases "now > ceExpiresAt (kheap c e)")
      case True
      have "lru_drop k (?miss s) = ?miss (lru_drop k s)" by (simp add: lru_drop_def)
      then show ?thesis
        using miss [OF removeEntry_rel [OF assms, of k]] m s Some True
        by (auto simp: kc_Get_def lru_Get_def gget_entries)
    next
      case False
      let ?f = "\<lambda>x. x\<lparr>ceAccessAt := now, ceHitCount := i64 (ceHitCount x + 1)\<rparr>"
      let ?st = "(kstats c)\<lparr>csHits := i64 (csHits (kstats c) + 1)\<rparr>"
      obtain h' where h': "MoveToFront e (klru c, upd e ?f (kheap c)) = Some (klru c, h')"
          "ceKey (h' e) = ceKey (kheap c e)" "cache_rel (c\<lparr>kheap := h'\<rparr>) ((k, e) # gdel k ps)
            (lru_front k (ceKey (kheap c e)) (ceExpiresAt (kheap c e)) s)"
        using move_rel [OF assms Some, of ?f] by auto
      from stats_rel [OF h'(3), of "updateStats fdiv ?st"]
      have "cache_rel (c\<lparr>kheap := h', kstats := updateStats fdiv ?st\<rparr>) ((k, e) # gdel k ps)
          (lru_front k (ceKey (kheap c e)) (ceExpiresAt (kheap c e)) (s\<lparr>lhits := i64 (lhits s + 1)\<rparr>))"
        using assms by (simp add: lru_front_def cache_rel_def)
      then show ?thesis
        using h'(1,2) m s Some False
        by (auto simp: kc_Get_def lru_Get_def gget_entries in_list_opt_def)
    qed
  qed
qed

lemma find_unique:
  assumes "x \<in> set xs" "P x" "\<And>y. y \<in> set xs \<Longrightarrow> P y \<Longrightarrow> y = x"
  shows "find P xs = Some x"
proof (cases "find P xs")
  case None
  then show ?thesis using assms(1,2) by (simp add: find_None_iff)
next
  case (Some y)
  then have "y \<in> set xs" "P y" by (auto simp: find_Some_iff)
  then show ?thesis using assms(3) Some by simp
qed

lemma evict_rel:
  assumes "cache_rel c ps s" "iter_order ord"
  shows "cache_rel (evictLRU ord c) (butlast ps) (lru_evict s)"
proof (cases ps rule: rev_cases)
  case Nil
  then show ?thesis using assms(1) by (simp add: cache_rel_def evictLRU_def lru_evict_def shape_def entries_of_def)
next
  case (snoc us x)
  obtain k e where x: "x = (k, e)" by fastforce
  have sh: "shape (kheap c) (klru c) (map snd ps)" and d: "distinct (map fst ps)"
    and ok: "gomap_ok (kcache c)" "map_of (kcache c) = map_of ps" and k: "k \<noteq> 0"
    using assms(1) snoc x by (auto simp: cache_rel_def)
  have prev: "cePrev (kheap c (ltail (klru c))) = Some e" using shape_last [OF sh] snoc x by simp
  have ne: "lsize (klru c) \<noteq> 0" "e \<noteq> lhead (klru c)" using sh snoc x by (auto simp: shape_def)
  have set_eq: "set (ord (kcache c)) = set ps"
    using map_of_inject_set [of "kcache c" ps] ok d iter_order_set [OF assms(2)] by (simp add: gomap_ok_def)
  have "distinct (map snd ps)" using sh by (simp add: shape_def)
  then have "find (\<lambda>(k, e'). e' = e) (ord (kcache c)) = Some (k, e)"
    using snoc x by (intro find_unique) (force simp: set_eq)+
  moreover have del: "gdel k ps = butlast ps"
    using d unfolding snoc x gdel_filter by (auto intro!: filter_True)
  ultimately have ev: "evictLRU ord c = (removeEntry k c)\<lparr>kstats := (kstats (removeEntry k c))
      \<lparr>csEvictions := i64 (csEvictions (kstats (removeEntry k c)) + 1)\<rparr>\<rparr>"
    using prev ne k by (simp add: evictLRU_def Let_def)
  have r: "cache_rel (removeEntry k c) (butlast ps) (lru_drop k s)" using removeEntry_rel [OF assms(1), of k] del by simp
  have s: "lentries s = entries_of (kheap c) ps" using assms(1) by (simp add: cache_rel_def)
  then have "gdel k (lentries s) = butlast (lentries s)"
    by (simp add: gdel_entries del) (simp add: entries_of_def map_butlast)
  then have "lru_evict s = (lru_drop k s)\<lparr>levictions := i64 (levictions s + 1)\<rparr>"
    using s snoc by (simp add: lru_evict_def lru_drop_def entries_of_def)
  moreover have "csEvictions (kstats (removeEntry k c)) = levictions s"
    using cache_relD(11) [OF r] by (simp add: lru_drop_def)
  ultimately show ?thesis
    using stats_rel [OF r, of "(kstats (removeEntry k c))
        \<lparr>csEvictions := i64 (csEvictions (kstats (removeEntry k c)) + 1)\<rparr>"] cache_relD(9-11) [OF r, symmetric]
    by (cases s) (simp add: ev lru_drop_def)
qed

lemma set_rel:
  assumes "cache_rel c ps s" "iter_order ord" "k \<noteq> 0"
  shows "\<exists>c' ps'. kc_Set ord now k v c = Some c' \<and> cache_rel c' ps' (lru_Set now k v s)"
proof (cases "gget ps k")
  case (Some e)
  let ?f = "\<lambda>x. x\<lparr>ceKey := v, ceExpiresAt := now + kttl c, ceAccessAt := now\<rparr>"
  have t: "lttl s = kttl c" and m: "gget (kcache c) k = Some e" "gget (lentries s) k \<noteq> None"
    using assms(1) Some by (simp_all add: cache_rel_def gget_entries)
  obtain h' where h': "MoveToFront e (klru c, upd e ?f (kheap c)) = Some (klru c, h')"
      "cache_rel (c\<lparr>kheap := h'\<rparr>) ((k, e) # gdel k ps) (lru_front k v (now + kttl c) s)"
    using move_rel [OF assms(1) Some, of ?f] by auto
  then show ?thesis using m t by (auto simp: kc_Set_def lru_Set_def in_list_opt_def)
next
  case None
  define c1 where "c1 = (if int (length (kcache c)) \<ge> kmaxSize c then evictLRU ord c else c)"
  define s1 where "s1 = (if int (length (lentries s)) \<ge> lcap s then lru_evict s else s)"
  have len: "length (kcache c) = length (lentries s)" "kmaxSize c = lcap s" "kttl c = lttl s"
    using assms(1) same_length [of "kcache c" ps] by (simp_all add: cache_rel_def)
  obtain qs where q: "cache_rel c1 qs s1" "gget qs k = None"
  proof (cases "int (length (kcache c)) \<ge> kmaxSize c")
    case True
    have "gget (butlast ps) k = None" using None by (auto simp: map_of_eq_None_iff dest!: in_set_butlastD)
    then show ?thesis using that True evict_rel [OF assms(1,2)] len by (simp add: c1_def s1_def)
  next
    case False
    then show ?thesis using that None assms(1) len by (simp add: c1_def s1_def)
  qed
  have "lttl s1 = lttl s" by (simp add: s1_def lru_evict_def)
  moreover have "kttl c1 = lttl s1" using cache_relD(8) [OF q(1)] by simp
  ultimately have ttl: "kttl c1 = kttl c" "lttl s1 = lttl s" using len(3) by simp_all
  let ?e = "kfresh c1"
  let ?x = "\<lparr>ceKey = v, ceExpiresAt = now + kttl c1, ceAccessAt = now, ceHitCount = 0, cePrev = None, ceNext = None\<rparr>"
  have out: "?e \<notin> set (lhead (klru c1) # map snd qs @ [ltail (klru c1)])" using q(1) by (auto simp: cache_rel_def)
  have "shape ((kheap c1)(?e := ?x)) (klru c1) (map snd qs)"
    using shape_outside [OF cache_relD(4) [OF q(1)] out] .
  from shape_add [OF this out] obtain h' l' where h': "l' = (klru c1)\<lparr>lsize := lsize (klru c1) + 1\<rparr>"
      "AddToFront ?e (klru c1, (kheap c1)(?e := ?x)) = Some (l', h')"
      "shape h' l' (?e # map snd qs)" "same_data ((kheap c1)(?e := ?x)) h'" by blast
  let ?c2 = "c1\<lparr>kfresh := ?e + 1, kcache := gput k ?e (kcache c1), kheap := h', klru := l',
      kstats := (kstats c1)\<lparr>csSize := int (length (gput k ?e (kcache c1)))\<rparr>\<rparr>"
  have run: "kc_Set ord now k v c = Some ?c2"
    using None cache_relD(2) [OF assms(1)] h'(2) ttl(1)
    by (simp add: kc_Set_def c1_def [symmetric] Let_def in_list_opt_def)
  have e: "entries_of h' qs = entries_of (kheap c1) qs"
  proof (rule entries_cong)
    fix a assume a: "a \<in> snd ` set qs"
    have "?e \<notin> snd ` set qs" using out by simp
    with a have "a \<noteq> ?e" by metis
    then show "ceKey (h' a) = ceKey (kheap c1 a) \<and> ceExpiresAt (h' a) = ceExpiresAt (kheap c1 a)"
      using h'(4) by simp
  qed
  have "ceKey (h' ?e) = v" "ceExpiresAt (h' ?e) = now + kttl c1" using h'(4) by simp_all
  then have new: "entries_of h' ((k, ?e) # qs) = (k, v, now + kttl c1) # entries_of (kheap c1) qs"
    unfolding e [symmetric] by (simp add: entries_of_def)
  have m: "map_of (gput k ?e (kcache c1)) = map_of ((k, ?e) # qs)" using q(1) by (auto simp: cache_rel_def fun_eq_iff)
  have d: "distinct (map fst ((k, ?e) # qs))" using q by (auto simp: cache_rel_def map_of_eq_None_iff)
  have g: "gomap_ok (gput k ?e (kcache c1))" using q(1) by (simp add: cache_rel_def)
  have es: "lentries s1 = entries_of (kheap c1) qs" using q(1) by (simp add: cache_rel_def)
  moreover have "gdel k (lentries s1) = lentries s1" unfolding es gdel_entries gdel_absent [OF q(2)] ..
  ultimately have "cache_rel ?c2 ((k, ?e) # qs) (lru_front k v (now + lttl s1) s1)"
    using q(1) h'(1,3) new m d g same_length [OF g m d] assms(3) cache_relD(8) [OF q(1)]
    unfolding cache_rel_def lru_front_def
    by (auto simp: less_Suc_eq)
  moreover have "lru_Set now k v s = lru_front k v (now + lttl s1) s1"
    using None assms(1) ttl by (simp add: lru_Set_def s1_def cache_rel_def gget_entries)
  ultimately show ?thesis using run by auto
qed

lemma filter_gdel: "filter (\<lambda>e. fst e \<notin> set ks) (gdel k m) = filter (\<lambda>e. fst e \<notin> set (k # ks)) m"
  by (auto simp: gdel_filter intro!: filter_cong)

lemma remove_all_rel:
  assumes "cache_rel c ps s"
  shows "cache_rel (fold removeEntry ks c) (filter (\<lambda>e. fst e \<notin> set ks) ps)
    (s\<lparr>lentries := filter (\<lambda>e. fst e \<notin> set ks) (lentries s)\<rparr>)"
  using assms
proof (induction ks arbitrary: c ps s)
  case Nil
  then show ?case by simp
next
  case (Cons k ks)
  show ?case using Cons.IH [OF removeEntry_rel [OF Cons.prems, of k]]
    by (simp add: lru_drop_def filter_gdel del: filter_filter)
qed

lemma cleanup_rel:
  assumes "cache_rel c ps s" "iter_order ord"
  shows "\<exists>qs. cache_rel (kc_cleanupExpired ord now c) qs (lru_cleanup now s)"
proof -
  define ks where "ks = map fst (filter (\<lambda>(k, e). now > ceExpiresAt (kheap c e)) (ord (kcache c)))"
  note r = cache_relD [OF assms(1)]
  have "set (ord (kcache c)) = set ps"
    using map_of_inject_set [of "kcache c" ps] r(1-3) iter_order_set [OF assms(2)] by (simp add: gomap_ok_def)
  then have ks: "k \<in> set ks \<longleftrightarrow> now > ceExpiresAt (kheap c e)" if "(k, e) \<in> set ps" for k e
    using that r(3) unfolding ks_def by (force dest: eq_key_imp_eq_value)
  have "filter (\<lambda>e. fst e \<notin> set ks) (lentries s) = filter (\<lambda>(k, v, t). \<not> now > t) (lentries s)"
    unfolding r(6) entries_of_def by (intro filter_cong) (auto simp: ks)
  then show ?thesis
    using remove_all_rel [OF assms(1), of ks] by (auto simp: kc_cleanupExpired_def lru_cleanup_def ks_def)
qed

lemma clear_rel: "cache_rel c ps s \<Longrightarrow> cache_rel (kc_Clear c) [] (lru_clear s)"
proof -
  assume r: "cache_rel c ps s"
  obtain l f h where n: "NewLRUList (kfresh c) (kheap c) = (l, f, h)" by (cases "NewLRUList (kfresh c) (kheap c)") auto
  show ?thesis using shape_new [OF n] n cache_relD(7,8) [OF r]
    by (cases s) (simp add: cache_rel_def kc_Clear_def lru_clear_def entries_of_def no_stats_def)
qed

definition new_lru :: "int \<Rightarrow> int \<Rightarrow> 'v lru" where
  "new_lru cap ttl = \<lparr>lentries = [], lcap = cap, lttl = ttl, lhits = 0, lmisses = 0, levictions = 0\<rparr>"

lemma new_rel: "cache_rel (NewLocalKeyCache cap ttl) [] (new_lru cap ttl)"
proof -
  obtain l f and h :: "'a entries" where n: "NewLRUList 0 (\<lambda>_. zero_entry) = (l, f, h)"
    by (cases "NewLRUList 0 (\<lambda>_. zero_entry :: 'a CacheEntry)") auto
  show ?thesis using shape_new [OF n] n
    by (simp add: cache_rel_def NewLocalKeyCache_def new_lru_def entries_of_def no_stats_def)
qed

text \<open>The hit rate is that of the counts, as long as these do not overflow.\<close>

definition rate_ok :: "(int \<Rightarrow> int \<Rightarrow> real) \<Rightarrow> int \<Rightarrow> CacheStats \<Rightarrow> bool" where
  "rate_ok fdiv n st \<longleftrightarrow> 0 \<le> csHits st \<and> 0 \<le> csMisses st \<and> csHits st + csMisses st \<le> n \<and>
     csHitRate st = hit_rate fdiv (csHits st) (csMisses st)"

lemma rate_ok_mono: "rate_ok fdiv n st \<Longrightarrow> n \<le> m \<Longrightarrow> rate_ok fdiv m st"
  by (auto simp: rate_ok_def)

lemma rate_ok_other:
  "rate_ok fdiv n (st\<lparr>csSize := z\<rparr>) = rate_ok fdiv n st"
  "rate_ok fdiv n (st\<lparr>csEvictions := z\<rparr>) = rate_ok fdiv n st"
  by (simp_all add: rate_ok_def)

lemma rate_ok_count:
  assumes "rate_ok fdiv n st" "n < 9223372036854775807"
  shows "rate_ok fdiv (n + 1) (updateStats fdiv (st\<lparr>csHits := i64 (csHits st + 1)\<rparr>))"
    "rate_ok fdiv (n + 1) (updateStats fdiv (st\<lparr>csMisses := i64 (csMisses st + 1)\<rparr>))"
proof -
  have b: "0 \<le> csHits st" "0 \<le> csMisses st" "csHits st + csMisses st \<le> n" using assms(1) by (simp_all add: rate_ok_def)
  have i: "i64 x = x" if "0 \<le> x" "x \<le> n + 1" for x using that assms(2) by (intro i64_id) (simp add: in_i64_def)
  have "i64 (csHits st + 1) = csHits st + 1" "i64 (csMisses st + 1) = csMisses st + 1"
    "i64 (csHits st + 1 + csMisses st) = csHits st + 1 + csMisses st"
    "i64 (csHits st + (csMisses st + 1)) = csHits st + (csMisses st + 1)" using b by (intro i; simp)+
  then show "rate_ok fdiv (n + 1) (updateStats fdiv (st\<lparr>csHits := i64 (csHits st + 1)\<rparr>))"
    "rate_ok fdiv (n + 1) (updateStats fdiv (st\<lparr>csMisses := i64 (csMisses st + 1)\<rparr>))"
    using b by (simp_all add: rate_ok_def updateStats_def hit_rate_def)
qed

lemma rate_ok_remove: "rate_ok fdiv n (kstats c) \<Longrightarrow> rate_ok fdiv n (kstats (removeEntry k c))"
  by (auto simp: removeEntry_def in_list_def rate_ok_other Let_def split: option.splits prod.splits)

lemma rate_ok_evict: "rate_ok fdiv n (kstats c) \<Longrightarrow> rate_ok fdiv n (kstats (evictLRU ord c))"
  by (auto simp: evictLRU_def Let_def rate_ok_other rate_ok_remove split: option.splits)

lemma kstats_in_list_opt: "in_list_opt f c = Some c' \<Longrightarrow> kstats c' = kstats c"
  by (auto simp: in_list_opt_def split: option.splits prod.splits)

lemma rate_ok_get:
  assumes "kc_Get fdiv now k c = Some (c', v)" "rate_ok fdiv n (kstats c)" "n < 9223372036854775807"
  shows "rate_ok fdiv (n + 1) (kstats c')"
  using assms(1) rate_ok_count [OF assms(2,3)] rate_ok_count(2) [OF rate_ok_remove [OF assms(2)] assms(3)]
  by (auto simp: kc_Get_def cache_miss_def Let_def split: option.splits if_splits dest!: kstats_in_list_opt)

lemma rate_ok_set:
  assumes "kc_Set ord now k v c = Some c'" "rate_ok fdiv n (kstats c)"
  shows "rate_ok fdiv n (kstats c')"
  using assms(1) rate_ok_evict [OF assms(2)] assms(2)
  by (auto simp: kc_Set_def Let_def rate_ok_other split: option.splits if_splits dest!: kstats_in_list_opt)

lemma rate_ok_call:
  assumes "kc_call fdiv ord x c = Some (c', r)" "rate_ok fdiv n (kstats c)" "n < 9223372036854775807"
  shows "rate_ok fdiv (n + 1) (kstats c')"
proof -
  obtain now y where x: "x = (now, y)" by fastforce
  have fold: "rate_ok fdiv n (kstats (fold removeEntry ks c))" for ks
    using assms(2) by (induction ks arbitrary: c) (simp_all add: rate_ok_remove)
  have "n \<le> n + 1" by simp
  note up = rate_ok_mono [OF _ this]
  have "rate_ok fdiv 0 no_stats" by (simp add: rate_ok_def no_stats_def hit_rate_def)
  moreover have "0 \<le> n" using assms(2) by (simp add: rate_ok_def)
  ultimately have "rate_ok fdiv n no_stats" by (rule rate_ok_mono)
  then show ?thesis
    using assms fold rate_ok_remove [OF assms(2)]
    by (cases y) (auto simp: x kc_Remove_def kc_cleanupExpired_def kc_Clear_def Let_def
        intro: up rate_ok_get up [OF rate_ok_set] split: option.splits prod.splits)
qed

lemma call_rel:
  assumes "cache_rel c ps s" "iter_order ord" "no_zero (snd x)" "rate_ok fdiv n (kstats c)"
  shows "\<exists>c' r ps'. kc_call fdiv ord x c = Some (c', r) \<and> r = snd (lru_call fdiv x s) \<and>
    cache_rel c' ps' (fst (lru_call fdiv x s))"
proof -
  obtain now y where x: "x = (now, y)" by fastforce
  show ?thesis
  proof (cases y)
    case (CGet k)
    obtain c' ps' s' v where "kc_Get fdiv now k c = Some (c', v)" "lru_Get now k s = (s', v)" "cache_rel c' ps' s'"
      using get_rel [OF assms(1)] by blast
    then show ?thesis by (auto simp: x CGet)
  next
    case (CSet k v)
    then have "k \<noteq> 0" using assms(3) by (simp add: x no_zero_def)
    then show ?thesis using set_rel [OF assms(1,2), of k now v] by (auto simp: x CSet)
  next
    case (CRemove k)
    then show ?thesis using removeEntry_rel [OF assms(1), of k] by (auto simp: x kc_Remove_def)
  next
    case CCleanup
    then show ?thesis using cleanup_rel [OF assms(1,2), of now] by (auto simp: x)
  next
    case CStats
    then show ?thesis using assms(1,4) cache_relD [OF assms(1)]
      by (auto simp: x kc_GetStats_def rate_ok_def Let_def)
  next
    case CClear
    then show ?thesis using clear_rel [OF assms(1)] by (auto simp: x)
  qed
qed

lemma calls_rel:
  assumes "iter_order ord"
  shows "cache_rel c ps s \<Longrightarrow> list_all (\<lambda>x. no_zero (snd x)) xs \<Longrightarrow> rate_ok fdiv n (kstats c) \<Longrightarrow>
    n + int (length xs) \<le> 9223372036854775807 \<Longrightarrow>
    \<exists>c' ps'. kc_calls fdiv ord xs c = Some (c', snd (run_ops (lru_call fdiv) xs s)) \<and>
      cache_rel c' ps' (fst (run_ops (lru_call fdiv) xs s))"
proof (induction xs arbitrary: c ps s n)
  case Nil
  then show ?case by auto
next
  case (Cons x xs)
  obtain c1 r ps1 where c1: "kc_call fdiv ord x c = Some (c1, r)" "r = snd (lru_call fdiv x s)"
      "cache_rel c1 ps1 (fst (lru_call fdiv x s))"
    using call_rel [OF Cons.prems(1) assms _ Cons.prems(3), of x] Cons.prems(2) by auto
  have "rate_ok fdiv (n + 1) (kstats c1)" using rate_ok_call [OF c1(1) Cons.prems(3)] Cons.prems(4) by simp
  from Cons.IH [OF c1(3) _ this] Cons.prems(2,4) obtain c2 ps2 where
    "kc_calls fdiv ord xs c1 = Some (c2, snd (run_ops (lru_call fdiv) xs (fst (lru_call fdiv x s))))"
    "cache_rel c2 ps2 (fst (run_ops (lru_call fdiv) xs (fst (lru_call fdiv x s))))" by auto
  then show ?case using c1(1,2) by (auto split: prod.splits)
qed

text \<open>C27: The linked list of the local cache is a least-recently-used cache. Take any sequence of calls
  on a new one, none of which stores a key with the id 0 (a table never gives it to a row; the code
  takes it for "no key found"), and fewer calls than an int64 can count. No call follows a nil
  pointer, and all answers are those of the list of entries with the most recently used first:
  the keys found, and in the statistics the hits, misses, evictions, the size and the hit rate. At
  the end, the cells from the head of the pointer list to its tail are that list: following the
  pointers one way or the other gives its entries in the order of their use, and the map of the
  cache finds exactly them.\<close>

theorem local_cache_refines_lru:
  assumes "iter_order ord" "list_all (\<lambda>x. no_zero (snd x)) xs" "length xs \<le> 9223372036854775807"
  shows "\<exists>c ps. kc_calls fdiv ord xs (NewLocalKeyCache cap ttl) =
      Some (c, snd (run_ops (lru_call fdiv) xs (new_lru cap ttl))) \<and>
    linked (kheap c) (lhead (klru c) # map snd ps @ [ltail (klru c)]) \<and>
    lentries (fst (run_ops (lru_call fdiv) xs (new_lru cap ttl))) = entries_of (kheap c) ps \<and>
    gomap_ok (kcache c) \<and> map_of (kcache c) = map_of ps \<and> distinct (map fst ps)"
proof -
  have "rate_ok fdiv 0 (kstats (NewLocalKeyCache cap ttl))"
    by (simp add: NewLocalKeyCache_def rate_ok_def no_stats_def hit_rate_def split: prod.splits)
  from calls_rel [OF assms(1) new_rel assms(2) this] assms(3) obtain c ps where
    "kc_calls fdiv ord xs (NewLocalKeyCache cap ttl) =
      Some (c, snd (run_ops (lru_call fdiv) xs (new_lru cap ttl)))"
    and r: "cache_rel c ps (fst (run_ops (lru_call fdiv) xs (new_lru cap ttl)))" by auto
  moreover have "linked (kheap c) (lhead (klru c) # map snd ps @ [ltail (klru c)])"
    using cache_relD(4) [OF r] by (simp add: shape_def)
  ultimately show ?thesis using cache_relD(1-3,6) [OF r] by blast
qed

theorem local_cache_refines_lru_witness:
  "\<exists>c. kc_calls (\<lambda>a b. of_int a / of_int b) rev [(0, CSet 7 (Some ''a'')), (1, CSet 8 (Some ''b'')), (2, CGet 7),
       (3, CSet 9 None), (4, CGet 8), (5, CGet 7), (6, CStats)] (NewLocalKeyCache 2 10) =
    Some (c, [ANone, ANone, AKey (Some ''a''), ANone, AKey None, AKey (Some ''a''), ACounts 2 1 1 2 (2 / 3)])"
  using local_cache_refines_lru [OF iter_order_id(3), of "[(0, CSet 7 (Some ''a'')), (1, CSet 8 (Some ''b'')),
      (2, CGet 7), (3, CSet 9 None), (4, CGet 8), (5, CGet 7), (6, CStats)]" "\<lambda>a b. of_int a / of_int b" 2 10]
  by (auto simp: no_zero_def new_lru_def lru_Set_def lru_front_def lru_Get_def lru_evict_def hit_rate_def i64_def)

end
