(* ===== verification/LruProps.thy ===== *)
theory LruProps
  imports LruSpec
begin

text \<open>What the refinement gives: how many entries the cache holds, which keys it still has, and that
  the adaptive cache ends its evictions.\<close>

section \<open>Size\<close>

lemma length_gdel_le: "length (gdel k m) \<le> length m"
  by (simp add: gdel_filter)

lemma lru_front_length:
  "length (lentries (lru_front k v t s)) = Suc (length (gdel k (lentries s)))"
  by (simp add: lru_front_def)

text \<open>A new entry makes room first, so the cache never has more than its capacity, or one entry.\<close>

lemma call_size:
  assumes "int (length (lentries s)) \<le> max 1 (lcap s)" "distinct (map fst (lentries s))"
  shows "int (length (lentries (fst (lru_call fdiv x s)))) \<le> max 1 (lcap s) \<and> lcap (fst (lru_call fdiv x s)) = lcap s \<and>
    lttl (fst (lru_call fdiv x s)) = lttl s \<and> distinct (map fst (lentries (fst (lru_call fdiv x s))))"
proof -
  obtain now y where x: "x = (now, y)" by fastforce
  note gdel = length_gdel_le [of _ "lentries s"]
  have shrink: "Suc (length (gdel k (lentries s))) \<le> length (lentries s)" if "gget (lentries s) k \<noteq> None" for k
    using split_entry [OF assms(2)] that by (metis add_Suc_right length_Cons length_append not_None_eq order_refl)
  have d: "distinct (map fst ((k, u) # gdel k m))" if "distinct (map fst m)" for k and u :: "'a option \<times> int" and m
    using that by (auto simp: gdel_filter distinct_map_filter)
  show ?thesis
  proof (cases y)
    case (CGet k)
    show ?thesis
    proof (cases "gget (lentries s) k")
      case None
      then show ?thesis using assms by (simp add: x CGet lru_Get_def)
    next
      case (Some u)
      then have "int (Suc (length (gdel k (lentries s)))) \<le> max 1 (lcap s)" using shrink [of k] assms(1) by simp
      then show ?thesis using assms Some d [OF assms(2), of k]
        by (cases u) (simp add: x CGet lru_Get_def lru_drop_def lru_front_def)
    qed
  next
    case (CSet k v)
    let ?m = "if gget (lentries s) k = None \<and> int (length (lentries s)) \<ge> lcap s then lru_evict s else s"
    have dm: "distinct (map fst (lentries ?m))"
      using assms(2) by (auto simp: lru_evict_def map_butlast distinct_butlast)
    have "int (Suc (length (gdel k (lentries ?m)))) \<le> max 1 (lcap s)"
    proof (cases "gget (lentries s) k")
      case None
      have "int (length (lentries ?m)) \<le> max 0 (lcap s - 1)"
        using None assms(1) by (cases "lentries s" rule: rev_cases) (auto simp: lru_evict_def)
      then show ?thesis using length_gdel_le [of k "lentries ?m"] by linarith
    next
      case (Some u)
      then show ?thesis using shrink [of k] assms(1) by simp
    qed
    then show ?thesis using d [OF dm, of k] by (simp add: x CSet lru_Set_def lru_front_def lru_evict_def)
  next
    case (CRemove k)
    then show ?thesis using assms gdel [of k] by (auto simp: x lru_drop_def distinct_delete)
  next
    case CCleanup
    have "length (filter P m) \<le> length m" for P and m :: "(nat \<times> 'a option \<times> int) list" by simp
    then have "int (length (filter P (lentries s))) \<le> max 1 (lcap s)" for P
      using assms(1) by (metis of_nat_mono order_trans)
    then show ?thesis using assms(2) CCleanup by (simp add: x lru_cleanup_def distinct_map_filter)
  next
    case CStats
    then show ?thesis using assms by (simp add: x)
  next
    case CClear
    then show ?thesis using assms by (simp add: x lru_clear_def)
  qed
qed

section \<open>The working set\<close>

text \<open>The key a call uses, and the calls that leave k with its value.\<close>

fun used_key :: "'v cache_call \<Rightarrow> nat set" where
  "used_key (CGet j) = {j}"
| "used_key (CSet j v) = {j}"
| "used_key _ = {}"

fun keeps :: "nat \<Rightarrow> 'v cache_call \<Rightarrow> bool" where
  "keeps k (CSet j v) \<longleftrightarrow> j \<noteq> k"
| "keeps k (CRemove j) \<longleftrightarrow> j \<noteq> k"
| "keeps k CClear \<longleftrightarrow> False"
| "keeps k _ \<longleftrightarrow> True"

definition ahead :: "nat set \<Rightarrow> nat \<Rightarrow> 'v option \<times> int \<Rightarrow> 'v lru \<Rightarrow> bool" where
  "ahead D k u s \<longleftrightarrow> distinct (map fst (lentries s)) \<and>
     (\<exists>us vs. lentries s = us @ (k, u) # vs \<and> fst ` set us \<subseteq> D)"

lemma aheadI:
  assumes "distinct (map fst (lentries s))" "lentries s = us @ (k, u) # vs" "fst ` set us \<subseteq> D"
  shows "ahead D k u s"
  using assms unfolding ahead_def by blast

lemma ahead_filter:
  assumes "ahead D k u s" "P (k, u)"
  shows "ahead D k u (s\<lparr>lentries := filter P (lentries s)\<rparr>)"
proof -
  obtain us vs where s: "distinct (map fst (lentries s))" "lentries s = us @ (k, u) # vs" "fst ` set us \<subseteq> D"
    using assms(1) by (auto simp: ahead_def)
  have "filter P (lentries s) = filter P us @ (k, u) # filter P vs" using s(2) assms(2) by simp
  moreover have "fst ` set (filter P us) \<subseteq> D" using s(3) by auto
  moreover have "distinct (map fst (filter P (lentries s)))" using s(1) by (rule distinct_map_filter)
  ultimately show ?thesis by (intro aheadI [where us = "filter P us" and vs = "filter P vs"]) simp_all
qed

lemma ahead_drop: "ahead D k u s \<Longrightarrow> j \<noteq> k \<Longrightarrow> ahead D k u (lru_drop j s)"
  using ahead_filter [of D k u s "\<lambda>e. fst e \<noteq> j"] by (simp add: lru_drop_def gdel_filter)

lemma ahead_front:
  assumes "ahead D k u s" "j \<in> D" "j \<noteq> k"
  shows "ahead D k u (lru_front j w t s)"
proof -
  obtain us vs where s: "distinct (map fst (gdel j (lentries s)))" "gdel j (lentries s) = us @ (k, u) # vs"
      "fst ` set us \<subseteq> D"
    using ahead_drop [OF assms(1,3)] by (auto simp: ahead_def lru_drop_def)
  have "(j, w, t) # gdel j (lentries s) = ((j, w, t) # us) @ (k, u) # vs" using s(2) by simp
  moreover have "distinct (map fst ((j, w, t) # gdel j (lentries s)))" using s(1) by (auto simp: gdel_filter)
  ultimately show ?thesis using s(3) assms(2)
    by (intro aheadI [where us = "(j, w, t) # us" and vs = vs]) (simp_all add: lru_front_def)
qed

lemma ahead_now: "distinct (map fst (lentries s)) \<Longrightarrow> ahead D k (v, t) (lru_front k v t s)"
  by (intro aheadI [where us = "[]"]) (auto simp: lru_front_def gdel_filter distinct_map_filter)

text \<open>A new entry pushes out another one than k as long as fewer keys than the capacity were used.\<close>

lemma ahead_evict:
  assumes "ahead D k u s" "gget (lentries s) j = None" "j \<in> D" "finite D" "int (card D) < lcap s"
    and "int (length (lentries s)) \<ge> lcap s"
  shows "ahead D k u (lru_evict s)"
proof -
  obtain us vs where s: "distinct (map fst (lentries s))" "lentries s = us @ (k, u) # vs" "fst ` set us \<subseteq> D"
    using assms(1) by (auto simp: ahead_def)
  have "j \<notin> fst ` set us" using assms(2) s(2) by (simp add: map_of_eq_None_iff)
  then have "card (insert j (fst ` set us)) = Suc (length us)"
    using s(1,2) distinct_card [of "map fst us"] by simp
  moreover have "card (insert j (fst ` set us)) \<le> card D" using s(3) assms(3,4) by (intro card_mono) auto
  ultimately have "vs \<noteq> []" using assms(5,6) s(2) by auto
  then have "butlast (lentries s) = us @ (k, u) # butlast vs" using s(2) by (simp add: butlast_append)
  moreover have "distinct (map fst (butlast (lentries s)))" using s(1) by (simp add: map_butlast distinct_butlast)
  ultimately show ?thesis using s(2,3)
    by (intro aheadI [where us = us and vs = "butlast vs"]) (simp_all add: lru_evict_def)
qed

lemma ahead_call:
  assumes "ahead D k (v, t) s" "keeps k y" "used_key y \<subseteq> insert k D" "finite D" "int (card D) < lcap s" "now \<le> t"
  shows "ahead D k (v, t) (fst (lru_call fdiv (now, y) s))"
proof -
  have d: "distinct (map fst (lentries s))" and k: "gget (lentries s) k = Some (v, t)"
    using assms(1) by (auto simp: ahead_def)
  have c: "ahead D k (v, t) (s\<lparr>lhits := n\<rparr>)" "ahead D k (v, t) (s\<lparr>lmisses := n\<rparr>)" for n
    using assms(1) by (simp_all add: ahead_def)
  show ?thesis
  proof (cases y)
    case (CGet j)
    show ?thesis
    proof (cases "j = k")
      case True
      then show ?thesis using k assms(6) d by (auto simp: CGet lru_Get_def intro: ahead_now)
    next
      case False
      then have "j \<in> D" using assms(3) CGet by auto
      then show ?thesis using False assms(1)
        by (auto simp: CGet lru_Get_def intro!: ahead_drop ahead_front c split: option.split)
    qed
  next
    case (CSet j w)
    then have j: "j \<noteq> k" "j \<in> D" using assms(2,3) by auto
    then have "ahead D k (v, t) (if gget (lentries s) j = None \<and> int (length (lentries s)) \<ge> lcap s
        then lru_evict s else s)"
      using ahead_evict [OF assms(1) _ j(2) assms(4,5)] assms(1) by auto
    then show ?thesis using j by (simp add: CSet lru_Set_def ahead_front)
  next
    case (CRemove j)
    then show ?thesis using assms(1,2) by (simp add: ahead_drop)
  next
    case CCleanup
    then show ?thesis using ahead_filter [OF assms(1)] assms(6) by (simp add: lru_cleanup_def)
  next
    case CStats
    then show ?thesis using assms(1) by simp
  next
    case CClear
    then show ?thesis using assms(2) by simp
  qed
qed

lemma call_const: "lcap (fst (lru_call fdiv x s)) = lcap s \<and> lttl (fst (lru_call fdiv x s)) = lttl s"
proof -
  obtain now y where x: "x = (now, y)" by fastforce
  show ?thesis
    by (cases y) (auto simp: x lru_Get_def lru_Set_def lru_drop_def lru_front_def lru_evict_def lru_cleanup_def
        lru_clear_def split: option.split)
qed

lemma fst_run: "fst (run_ops f (x # xs) s) = fst (run_ops f xs (fst (f x s)))"
  by (simp split: prod.splits)

lemma ahead_calls:
  assumes "finite D" "int (card D) < lcap s"
  shows "ahead D k (v, t) s \<Longrightarrow> list_all (\<lambda>(now, y). keeps k y \<and> used_key y \<subseteq> insert k D \<and> now \<le> t) ys \<Longrightarrow>
    ahead D k (v, t) (fst (run_ops (lru_call fdiv) ys s))"
  using assms(2)
proof (induction ys arbitrary: s)
  case Nil
  then show ?case by simp
next
  case (Cons y ys)
  then have "ahead D k (v, t) (fst (lru_call fdiv y s))"
    by (cases y) (auto intro: ahead_call [OF _ _ _ assms(1)])
  moreover have "int (card D) < lcap (fst (lru_call fdiv y s))" using Cons.prems(3) call_const [of fdiv y s] by simp
  ultimately show ?case using Cons.IH [of "fst (lru_call fdiv y s)"] Cons.prems(2) unfolding fst_run by simp
qed

lemma run_append: "run_ops f (xs @ ys) s =
    (fst (run_ops f ys (fst (run_ops f xs s))), snd (run_ops f xs s) @ snd (run_ops f ys (fst (run_ops f xs s))))"
  by (induction xs arbitrary: s) (auto split: prod.splits)

lemma calls_size:
  "int (length (lentries s)) \<le> max 1 (lcap s) \<Longrightarrow> distinct (map fst (lentries s)) \<Longrightarrow>
   int (length (lentries (fst (run_ops (lru_call fdiv) xs s)))) \<le> max 1 (lcap s) \<and>
   distinct (map fst (lentries (fst (run_ops (lru_call fdiv) xs s)))) \<and>
   lcap (fst (run_ops (lru_call fdiv) xs s)) = lcap s \<and> lttl (fst (run_ops (lru_call fdiv) xs s)) = lttl s"
proof (induction xs arbitrary: s)
  case (Cons x xs)
  from Cons.IH [of "fst (lru_call fdiv x s)"] call_size [OF Cons.prems, of fdiv x] show ?case by (auto split: prod.splits)
qed simp

lemma new_calls:
  assumes "iter_order ord" "list_all (\<lambda>x. no_zero (snd x)) xs" "length xs \<le> 9223372036854775807"
  obtains c ps where
    "kc_calls fdiv ord xs (NewLocalKeyCache cap ttl) = Some (c, snd (run_ops (lru_call fdiv) xs (new_lru cap ttl)))"
    "cache_rel c ps (fst (run_ops (lru_call fdiv) xs (new_lru cap ttl)))"
proof -
  have "rate_ok fdiv 0 (kstats (NewLocalKeyCache cap ttl))"
    by (simp add: NewLocalKeyCache_def rate_ok_def no_stats_def hit_rate_def split: prod.splits)
  from calls_rel [OF assms(1) new_rel assms(2) this] assms(3) show ?thesis using that by auto
qed

text \<open>A key stays a hit while it is in the working set: after any calls, a key that is set at a time t
  is found with its value until t plus the time to live, as long as the calls in between do not
  set or remove it or clear the cache and use fewer other keys than the cache has room for;
  the number of entries never exceeds the capacity, or one.\<close>

lemma local_cache_working_set:
  assumes "iter_order ord" "list_all (\<lambda>x. no_zero (snd x)) (xs @ ys)" "k \<noteq> 0"
    and "list_all (\<lambda>(now, y). keeps k y \<and> now \<le> t + ttl) ys" "later \<le> t + ttl"
    and "int (card ((\<Union>y \<in> set ys. used_key (snd y)) - {k})) < cap"
    and "length xs + length ys + 2 \<le> 9223372036854775807"
  shows "\<exists>c rs. kc_calls fdiv ord (xs @ (t, CSet k v) # ys @ [(later, CGet k)]) (NewLocalKeyCache cap ttl) =
      Some (c, rs @ [AKey v]) \<and> int (length (kcache c)) \<le> max 1 cap"
proof -
  let ?D = "(\<Union>y \<in> set ys. used_key (snd y)) - {k}"
  let ?xs = "xs @ (t, CSet k v) # ys"
  define s1 where "s1 = fst (run_ops (lru_call fdiv) xs (new_lru cap ttl))"
  define s2 where "s2 = lru_Set t k v s1"
  define s3 where "s3 = fst (run_ops (lru_call fdiv) ys s2)"
  have new: "int (length (lentries (new_lru cap ttl :: 'a lru))) \<le> max 1 (lcap (new_lru cap ttl :: 'a lru))"
      "distinct (map fst (lentries (new_lru cap ttl :: 'a lru)))" by (simp_all add: new_lru_def)
  have s1: "distinct (map fst (lentries s1))" "lcap s1 = cap" "lttl s1 = ttl"
    using calls_size [OF new, of fdiv xs] by (simp_all add: s1_def new_lru_def)
  have c2: "lcap s2 = cap" using call_const [of fdiv "(t, CSet k v)" s1] s1(2) by (simp add: s2_def)
  have "finite (used_key y)" for y :: "'a cache_call" by (cases y) auto
  then have fin: "finite ?D" by auto
  have a: "ahead ?D k (v, t + ttl) s2"
    unfolding s2_def lru_Set_def s1(3)
    by (intro ahead_now) (use s1(1) in \<open>auto simp: lru_evict_def map_butlast distinct_butlast\<close>)
  have l: "list_all (\<lambda>(now, y). keeps k y \<and> used_key y \<subseteq> insert k ?D \<and> now \<le> t + ttl) ys"
    using assms(4) by (fastforce simp: list_all_iff)
  have "ahead ?D k (v, t + ttl) s3"
    unfolding s3_def by (rule ahead_calls [OF fin _ a l]) (use assms(6) c2 in simp)
  then have "gget (lentries s3) k = Some (v, t + ttl)" by (auto simp: ahead_def)
  then have get: "snd (lru_call fdiv (later, CGet k) s3) = AKey v" using assms(5) by (simp add: lru_Get_def)
  let ?all = "?xs @ [(later, CGet k)]"
  have run: "fst (run_ops (lru_call fdiv) ?xs (new_lru cap ttl)) = s3"
    by (simp add: run_append s1_def [symmetric] s2_def [symmetric] s3_def split: prod.splits)
  have ans: "snd (run_ops (lru_call fdiv) ?all (new_lru cap ttl)) =
      snd (run_ops (lru_call fdiv) ?xs (new_lru cap ttl)) @ [AKey v]"
    unfolding run_append [of _ ?xs] run using get by (simp split: prod.splits)
  have "list_all (\<lambda>x. no_zero (snd x)) ?all" using assms(2,3) by (simp add: no_zero_def)
  from new_calls [OF assms(1) this, of fdiv cap ttl] assms(7) obtain c ps where c:
      "kc_calls fdiv ord ?all (NewLocalKeyCache cap ttl) = Some (c, snd (run_ops (lru_call fdiv) ?all (new_lru cap ttl)))"
      "cache_rel c ps (fst (run_ops (lru_call fdiv) ?all (new_lru cap ttl)))" by auto
  have "length (kcache c) = length (lentries (fst (run_ops (lru_call fdiv) ?all (new_lru cap ttl))))"
    using cache_relD [OF c(2)] same_length by simp
  then have "int (length (kcache c)) \<le> max 1 cap"
    using calls_size [OF new, of fdiv ?all] by (simp add: new_lru_def)
  then show ?thesis using c(1) unfolding ans by auto
qed

lemma local_cache_working_set_demo:
  "\<exists>c rs. kc_calls (\<lambda>_ _. 0) rev [(0, CSet 9 None), (1, CSet 7 (Some ''a'')), (2, CSet 8 None), (3, CGet 7)]
     (NewLocalKeyCache 2 10) = Some (c, rs @ [AKey (Some ''a'')]) \<and> int (length (kcache c)) \<le> 2"
  using local_cache_working_set [OF iter_order_id(3), of "[(0, CSet 9 None)]" "[(2, CSet 8 None)]" 7 1 10 3 2
      "\<lambda>_ _. 0" "Some ''a''"]
  by (simp add: no_zero_def)

section \<open>The adaptive cache\<close>

text \<open>Each eviction takes the least recently used entry, so the loop ends with the entries that fit.\<close>

lemma evict_loop_rel:
  assumes "iter_order ord" "0 \<le> kmaxSize c"
  shows "cache_rel c ps s \<Longrightarrow> \<exists>c' qs s'. evict_loop ord c = Some c' \<and> cache_rel c' qs s' \<and>
    lentries s' = take (nat (kmaxSize c)) (lentries s) \<and> kmaxSize c' = kmaxSize c"
  using assms(2)
proof (induction "length ps" arbitrary: c ps s rule: less_induct)
  case less
  note r = cache_relD [OF less.prems(1)]
  have len: "length (kcache c) = length ps" "length (lentries s) = length ps"
    using same_length r by simp_all
  show ?case
  proof (cases "int (length (kcache c)) > kmaxSize c")
    case False
    then show ?thesis using less.prems len by (subst evict_loop.simps) auto
  next
    case True
    then have ne: "ps \<noteq> []" using len less.prems(2) by auto
    have e: "cache_rel (evictLRU ord c) (butlast ps) (lru_evict s)" using evict_rel [OF less.prems(1) assms(1)] .
    have m: "kmaxSize (evictLRU ord c) = kmaxSize c"
      using cache_relD(7) [OF e] r(7) by (simp add: lru_evict_def split: if_splits)
    from less.hyps [OF _ e] ne m less.prems(2) obtain c' qs s' where
      "evict_loop ord (evictLRU ord c) = Some c'" "cache_rel c' qs s'"
      "lentries s' = take (nat (kmaxSize c)) (lentries (lru_evict s))" "kmaxSize c' = kmaxSize c" by auto
    moreover have "take (nat (kmaxSize c)) (lentries (lru_evict s)) = take (nat (kmaxSize c)) (lentries s)"
      using True len less.prems(2) by (auto simp: lru_evict_def take_butlast)
    ultimately show ?thesis using True by (subst evict_loop.simps) auto
  qed
qed

lemma calls_reached:
  assumes "iter_order ord" "list_all (\<lambda>x. no_zero (snd x)) xs" "length xs \<le> 9223372036854775807"
    and "kc_calls fdiv ord xs (NewLocalKeyCache cap ttl) = Some (c, rs)"
  shows "\<exists>ps. cache_rel c ps (fst (run_ops (lru_call fdiv) xs (new_lru cap ttl)))"
  using new_calls [OF assms(1-3)] assms(4) by (metis option.inject prod.inject)

lemma cache_length:
  assumes "cache_rel c ps s"
  shows "length (kcache c) = length (lentries s)"
  using same_length [OF cache_relD(1-3) [OF assms]] cache_relD(6) [OF assms] by simp

text \<open>Whatever calls were made on a new cache, none storing under the id 0 and fewer than an int64 counts, and if the least size is
  not negative, adapting its size ends. When the hit rate allows a smaller cache, it then holds
  the most recently used entries that fit the new size; otherwise its entries are as before.\<close>

lemma adapt_size_ends:
  fixes ac :: AdaptiveCacheConfig
  assumes "iter_order ord" "list_all (\<lambda>x. no_zero (snd x)) xs" "0 \<le> acMinSize ac"
    and "kc_calls fdiv ord xs (NewLocalKeyCache cap ttl) = Some (c, rs)" "length xs \<le> 9223372036854775807"
  defines "s \<equiv> fst (run_ops (lru_call fdiv) xs (new_lru cap ttl))" and "r \<equiv> csHitRate (kstats c)"
    and "n \<equiv> i64 (kmaxSize c - acSizeAdjustStep ac)"
  shows "\<exists>c' ps' s'. adaptSize plus_tenth ord ac c = Some c' \<and> cache_rel c' ps' s' \<and>
    lentries s' = (if acHitRateTarget ac \<le> r \<and> plus_tenth (acHitRateTarget ac) < r \<and> acMinSize ac \<le> n
                   then take (nat n) (lentries s) else lentries s)"
proof -
  obtain ps where c: "cache_rel c ps s" using calls_reached [OF assms(1,2,5,4)] unfolding s_def by blast
  have resize: "cache_rel (c\<lparr>kmaxSize := m\<rparr>) ps (s\<lparr>lcap := m\<rparr>)" for m
    using c by (simp add: cache_rel_def)
  show ?thesis
  proof (cases "acHitRateTarget ac \<le> r \<and> plus_tenth (acHitRateTarget ac) < r \<and> acMinSize ac \<le> n")
    case True
    then have "0 \<le> kmaxSize (c\<lparr>kmaxSize := n\<rparr>)" using assms(3) by simp
    from evict_loop_rel [OF assms(1) this resize] obtain c' qs s' where
      "evict_loop ord (c\<lparr>kmaxSize := n\<rparr>) = Some c'" "cache_rel c' qs s'"
      "lentries s' = take (nat n) (lentries s)" by auto
    then show ?thesis using True by (auto simp: adaptSize_def kc_GetStats_def r_def n_def Let_def)
  next
    case False
    have "adaptSize plus_tenth ord ac c = Some c \<or> (\<exists>m. adaptSize plus_tenth ord ac c = Some (c\<lparr>kmaxSize := m\<rparr>))"
      using False by (cases "r < acHitRateTarget ac") (auto simp: adaptSize_def kc_GetStats_def r_def n_def Let_def)
    then show ?thesis
    proof (elim disjE exE)
      assume "adaptSize plus_tenth ord ac c = Some c"
      then show ?thesis using False c by auto
    next
      fix m assume "adaptSize plus_tenth ord ac c = Some (c\<lparr>kmaxSize := m\<rparr>)"
      then show ?thesis using False resize [of m] by (auto intro!: exI [of _ "s\<lparr>lcap := m\<rparr>"])
    qed
  qed
qed

definition demo_calls :: "(int \<times> string cache_call) list" where
  "demo_calls = [(0, CSet 7 (Some ''a'')), (0, CSet 8 (Some ''b'')), (1, CGet 7)]"

lemma demo_cache: "\<exists>c. kc_calls (\<lambda>_ _. 1) id demo_calls (NewLocalKeyCache 2 10) =
    Some (c, [ANone, ANone, AKey (Some ''a'')]) \<and> kmaxSize c = 2 \<and> csHitRate (kstats c) = 1"
  by (simp add: demo_calls_def NewLocalKeyCache_def NewLRUList_def kc_Set_def in_list_opt_def AddToFront_def upd_def
      kc_Get_def MoveToFront_def LRU_Remove_def Let_def zero_entry_def no_stats_def updateStats_def i64_def)

definition demo_config :: AdaptiveCacheConfig where
  "demo_config = \<lparr>acMinSize = 1, acMaxSize = 9, acHitRateTarget = 0.5, acSizeAdjustStep = 1\<rparr>"

lemma adapt_size_ends_demo:
  "\<exists>c c'. kc_calls (\<lambda>_ _. 1) id demo_calls (NewLocalKeyCache 2 10) = Some (c, [ANone, ANone, AKey (Some ''a'')]) \<and>
     adaptSize (\<lambda>x. x + 0.1) id demo_config c = Some c' \<and> length (kcache c) = 2 \<and> map fst (kcache c') = [7]"
proof -
  obtain c where c: "kc_calls (\<lambda>_ _. 1) id demo_calls (NewLocalKeyCache 2 10) =
      Some (c, [ANone, ANone, AKey (Some ''a'')])" "kmaxSize c = 2" "csHitRate (kstats c) = 1"
    using demo_cache by blast
  let ?s = "fst (run_ops (lru_call (\<lambda>_ _. 1)) demo_calls (new_lru 2 10))"
  have s: "lentries ?s = [(7, Some ''a'', 10), (8, Some ''b'', 10)]"
    by (simp add: demo_calls_def new_lru_def lru_Set_def lru_front_def lru_Get_def lru_evict_def)
  have z: "list_all (\<lambda>x. no_zero (snd x)) demo_calls" by (simp add: demo_calls_def no_zero_def)
  have l: "length demo_calls \<le> 9223372036854775807" by (simp add: demo_calls_def)
  obtain c' ps' s' where r: "adaptSize (\<lambda>x. x + 0.1) id demo_config c = Some c'" "cache_rel c' ps' s'"
      "lentries s' = [(7, Some ''a'', 10)]"
    using adapt_size_ends [OF iter_order_id(1) z _ c(1) l, of demo_config "\<lambda>x. x + 0.1"] c(2,3) s
    by (auto simp: demo_config_def i64_def)
  have "length (kcache c) = 2" using calls_reached [OF iter_order_id(1) z l c(1)] cache_length s by fastforce
  moreover have "map fst (kcache c') = [7]"
  proof -
    have "map fst ps' = [7]" using cache_relD(6) [OF r(2)] r(3) by (cases ps') (auto simp: entries_of_def)
    moreover have "set (kcache c') = set ps'"
      using cache_relD(1-3) [OF r(2)] map_of_inject_set by (metis gomap_ok_def)
    moreover have "length (kcache c') = 1" using cache_length [OF r(2)] r(3) by simp
    ultimately show ?thesis by (cases "kcache c'"; cases ps') auto
  qed
  ultimately show ?thesis using c(1) r(1) by (intro exI [of _ c] exI [of _ c'] conjI)
qed

text \<open>With an entry under the id 0 at the end of the list the loop does not end.\<close>

lemma evict_loop_stuck:
  assumes "evictLRU ord c = c" "int (length (kcache c)) > kmaxSize c"
  shows "evict_loop ord c = None"
proof -
  have "\<not> (evictLRU ord c = c \<and> int (length (kcache c)) > kmaxSize c)" if "evict_loop ord c = Some c'" for c'
    by (rule evict_loop.raw_induct [where P = "\<lambda>ord c _. \<not> (evictLRU ord c = c \<and> int (length (kcache c)) > kmaxSize c)",
          OF _ that]) (auto split: if_splits)
  then show ?thesis using assms by (cases "evict_loop ord c") auto
qed

lemma evict_zero_id_demo:
  "\<exists>c. kc_calls (\<lambda>_ _. 0) id [(0, CSet 0 None)] (NewLocalKeyCache 1 10 :: unit LocalKeyCache) = Some (c, [ANone]) \<and>
     evict_loop id (c\<lparr>kmaxSize := 0\<rparr>) = None"
proof -
  obtain c where c: "kc_calls (\<lambda>_ _. 0) id [(0, CSet 0 None)] (NewLocalKeyCache 1 10 :: unit LocalKeyCache) = Some (c, [ANone])"
    "evictLRU id (c\<lparr>kmaxSize := 0\<rparr>) = c\<lparr>kmaxSize := 0\<rparr>" "length (kcache c) = 1"
    by (simp add: NewLocalKeyCache_def NewLRUList_def kc_Set_def in_list_opt_def AddToFront_def upd_def evictLRU_def
        Let_def zero_entry_def)
  then show ?thesis using evict_loop_stuck [of id "c\<lparr>kmaxSize := 0\<rparr>"] by auto
qed

end
