(* ===== verification/PoolManager.thy ===== *)
theory PoolManager
  imports RedisPool LayeredPool
begin

text \<open>The pool manager (src/internal/keypool/pool_manager.go), which creates the layered pool of a group
  on demand. Its methods take the lock of the manager, which is not reentrant: a call that waits for a
  lock nobody will release never returns, and its result is None. The store of the Redis pools is
  shared and stays outside; the recovery services of the pools and the optimiser are left out.\<close>

section \<open>State\<close>

datatype ManagerPoolType = ManagerPoolTypeRedis | ManagerPoolTypeMemory | ManagerPoolTypeOther string

datatype 's layered_pool = RedisImpl "'s RedisLayeredPool" | MemoryImpl lp

text \<open>A row of the groups: its id and the entry pool_type of its configuration, if there is one.\<close>

type_synonym pm_group = "nat \<times> string iface option"

record 's PoolManager =
  pmRows :: "PoolKey list"
  pmGroups :: "pm_group list"
  pmFaults :: "db_err option list"
  pmStore :: "('s Store \<times> 's) option"
  pmPools :: "(nat, 's layered_pool) gomap"
  pmLocked :: bool
  defaultPoolType :: ManagerPoolType

datatype pm_err =
    FindGroup nat lp_err
  | UnsupportedType nat
  | CreateFailed ManagerPoolType nat lp_err
  | QueryGroups lp_err
  | StopErrors "(nat \<times> lp_err) list"

type_synonym ('s, 'a) pm_act = "'s PoolManager \<Rightarrow> 's PoolManager \<times> 'a option"

definition NewPoolManager :: "PoolKey list \<Rightarrow> pm_group list \<Rightarrow> db_err option list \<Rightarrow> ('s Store \<times> 's) option \<Rightarrow>
    's PoolManager" where
  "NewPoolManager rows groups faults redisStore =
    \<lparr>pmRows = rows, pmGroups = groups, pmFaults = faults, pmStore = redisStore, pmPools = [], pmLocked = False,
     defaultPoolType = (if redisStore \<noteq> None then ManagerPoolTypeRedis else ManagerPoolTypeMemory)\<rparr>"

definition pm_db :: "('s PoolManager \<Rightarrow> lp_err + 'a) \<Rightarrow> 's PoolManager \<Rightarrow> 's PoolManager \<times> (lp_err + 'a)" where
  "pm_db q m = (case pmFaults m of
     [] \<Rightarrow> (m, q m)
   | None # fs \<Rightarrow> (m\<lparr>pmFaults := fs\<rparr>, q m)
   | Some e # fs \<Rightarrow> (m\<lparr>pmFaults := fs\<rparr>, Inl (DbErr e)))"

text \<open>A call that holds the lock while it runs.\<close>

definition locking :: "('s PoolManager \<Rightarrow> 's PoolManager \<times> 'a) \<Rightarrow> ('s, 'a) pm_act" where
  "locking f m = (if pmLocked m then (m, None) else case f m of (m', r) \<Rightarrow> (m', Some r))"

section \<open>Creation\<close>

definition createRedisPool :: "pm_group \<Rightarrow> 's PoolManager \<Rightarrow> lp_err + 's layered_pool" where
  "createRedisPool grp m =
    (case pmStore m of
       None \<Rightarrow> Inl (GoErr ''redis store not available'')
     | Some (S, s) \<Rightarrow>
         (case NewRedisLayeredPool
            \<lparr>fcRedisConfig = Some \<lparr>KeyPrefix = ''pool:'' @ show_nat (fst grp) @ '':''\<rparr>, fcMemoryConfig = None,
             fcStore = Dynamic S, fcDB = Dynamic (pmRows m, map fst (pmGroups m)), fcSettingsManager = NilValue\<rparr>
            s None (pmFaults m) of
            Inl e \<Rightarrow> Inl e
          | Inr (P, p) \<Rightarrow> Inr (RedisImpl P)))"

definition createMemoryPool :: "int \<Rightarrow> 's PoolManager \<Rightarrow> lp_err + 's layered_pool" where
  "createMemoryPool now m =
    (case NewMemoryLayeredPool now
       (\<lparr>fcRedisConfig = None,
         fcMemoryConfig = Some \<lparr>mpShardCount = 8, EnableSharding = True, mpLockTimeout = 1000000000,
           mpGCInterval = 600000000000, mpMaxMemoryUsage = 104857600\<rparr>,
         fcStore = NilValue, fcDB = Dynamic (pmRows m, map fst (pmGroups m)),
         fcSettingsManager = NilValue\<rparr> :: unit FactoryConfig) (pmFaults m) of
       Inl e \<Rightarrow> Inl e
     | Inr p \<Rightarrow> Inr (MemoryImpl p))"

definition determinePoolType :: "pm_group \<Rightarrow> 's PoolManager \<Rightarrow> ManagerPoolType" where
  "determinePoolType grp m =
    (case snd grp of
       Some (Dynamic t) \<Rightarrow>
         if t = ''redis'' \<and> pmStore m \<noteq> None then ManagerPoolTypeRedis
         else if t = ''memory'' then ManagerPoolTypeMemory
         else defaultPoolType m
     | _ \<Rightarrow> defaultPoolType m)"

definition createPool :: "int \<Rightarrow> nat \<Rightarrow> ('s, pm_err + 's layered_pool) pm_act" where
  "createPool now gid = locking (\<lambda>m.
    case gget (pmPools m) gid of
      Some pool \<Rightarrow> (m, Inr pool)
    | None \<Rightarrow>
        (case pm_db (\<lambda>m. case find (\<lambda>grp. fst grp = gid) (pmGroups m) of
                           None \<Rightarrow> Inl RecordNotFound | Some grp \<Rightarrow> Inr grp) m of
           (m, Inl e) \<Rightarrow> (m, Inl (FindGroup gid e))
         | (m, Inr grp) \<Rightarrow>
             let t = determinePoolType grp m in
             (case (case t of
                      ManagerPoolTypeRedis \<Rightarrow> Some (createRedisPool grp m)
                    | ManagerPoolTypeMemory \<Rightarrow> Some (createMemoryPool now m)
                    | ManagerPoolTypeOther _ \<Rightarrow> None) of
                None \<Rightarrow> (m, Inl (UnsupportedType gid))
              | Some (Inl e) \<Rightarrow> (m, Inl (CreateFailed t gid e))
              | Some (Inr pool) \<Rightarrow> (m\<lparr>pmPools := gput gid pool (pmPools m)\<rparr>, Inr pool))))"

definition GetPool :: "int \<Rightarrow> nat \<Rightarrow> ('s, pm_err + 's layered_pool) pm_act" where
  "GetPool now gid m =
    (if pmLocked m then (m, None)
     else case gget (pmPools m) gid of
       Some pool \<Rightarrow> (m, Some (Inr pool))
     | None \<Rightarrow> createPool now gid m)"

section \<open>The other methods\<close>

fun init_groups :: "int \<Rightarrow> nat list \<Rightarrow> ('s, unit) pm_act" where
  "init_groups now [] m = (m, Some ())"
| "init_groups now (gid # gids) m =
    (case GetPool now gid m of (m1, None) \<Rightarrow> (m1, None) | (m1, Some _) \<Rightarrow> init_groups now gids m1)"

definition InitializePools :: "int \<Rightarrow> ('s, pm_err + unit) pm_act" where
  "InitializePools now m =
    (case pm_db (\<lambda>m. Inr (map fst (pmGroups m))) m of
       (m1, Inl e) \<Rightarrow> (m1, Some (Inl (QueryGroups e)))
     | (m1, Inr gids) \<Rightarrow> (case init_groups now gids m1 of (m2, r) \<Rightarrow> (m2, map_option Inr r)))"

text \<open>It holds the lock while it calls createPool.\<close>

definition RefreshPool :: "int \<Rightarrow> nat \<Rightarrow> ('s, pm_err + unit) pm_act" where
  "RefreshPool now gid m =
    (if pmLocked m then (m, None)
     else case createPool now gid (m\<lparr>pmLocked := True, pmPools := gdel gid (pmPools m)\<rparr>) of
       (m1, None) \<Rightarrow> (m1, None)
     | (m1, Some (Inl e)) \<Rightarrow> (m1\<lparr>pmLocked := False\<rparr>, Some (Inl e))
     | (m1, Some (Inr _)) \<Rightarrow> (m1\<lparr>pmLocked := False\<rparr>, Some (Inr ())))"

definition GetPoolTypes :: "('s, (nat \<times> string) list) pm_act" where
  "GetPoolTypes = locking (\<lambda>m. (m, map (\<lambda>(gid, pool). (gid, case pool of RedisImpl _ \<Rightarrow> ''redis''
     | MemoryImpl _ \<Rightarrow> ''memory'')) (pmPools m)))"

text \<open>Stopping the recovery services of a pool may fail, which is an argument.\<close>

definition StopAllPools :: "(nat \<times> 's layered_pool) iter \<Rightarrow> (nat \<Rightarrow> 's layered_pool \<Rightarrow> lp_err option) \<Rightarrow>
    ('s, pm_err + unit) pm_act" where
  "StopAllPools ord stop = locking (\<lambda>m.
    let errs = concat (map (\<lambda>(gid, pool). case stop gid pool of None \<Rightarrow> [] | Some e \<Rightarrow> [(gid, e)])
                 (ord (pmPools m))) in
    (m\<lparr>pmPools := []\<rparr>, if errs = [] then Inr () else Inl (StopErrors errs)))"

definition GetPoolCount :: "('s, int) pm_act" where
  "GetPoolCount = locking (\<lambda>m. (m, int (length (pmPools m))))"

definition IsPoolActive :: "nat \<Rightarrow> ('s, bool) pm_act" where
  "IsPoolActive gid = locking (\<lambda>m. (m, gget (pmPools m) gid \<noteq> None))"

definition SetDefaultPoolType :: "ManagerPoolType \<Rightarrow> 's PoolManager \<Rightarrow> 's PoolManager" where
  "SetDefaultPoolType t m = m\<lparr>defaultPoolType := t\<rparr>"

definition GetAllGroups :: "'s PoolManager \<Rightarrow> 's PoolManager \<times> (lp_err + pm_group list)" where
  "GetAllGroups m = pm_db (\<lambda>m. Inr (pmGroups m)) m"

section \<open>No pool is ever created\<close>

text \<open>Both constructors demand the settings manager that the manager does not pass.\<close>

lemma no_redis_pool: "\<exists>e. createRedisPool grp m = Inl e"
  by (auto simp: createRedisPool_def NewRedisLayeredPool_def Let_def split: option.split)

lemma no_memory_pool: "\<exists>e. createMemoryPool now m = Inl e"
  by (simp add: createMemoryPool_def NewMemoryLayeredPool_def Let_def)

lemma pm_db_same: "pm_db q m = (m', r) \<Longrightarrow> m' = m\<lparr>pmFaults := pmFaults m'\<rparr>"
  by (auto simp: pm_db_def split: list.splits option.splits)

lemma create_nothing:
  assumes "pmPools m = []"
  shows "\<exists>m' r. createPool now gid m = (m', r) \<and> pmPools m' = [] \<and> pmLocked m' = pmLocked m \<and>
    (if pmLocked m then r = None else \<exists>e. r = Some (Inl e))"
proof (cases "pmLocked m")
  case True
  then show ?thesis using assms by (simp add: createPool_def locking_def)
next
  case False
  obtain m1 r1 where q: "pm_db (\<lambda>m. case find (\<lambda>grp. fst grp = gid) (pmGroups m) of
      None \<Rightarrow> Inl RecordNotFound | Some grp \<Rightarrow> Inr grp) m = (m1, r1)" by fastforce
  then have m1: "pmPools m1 = []" "pmLocked m1 = pmLocked m" using pm_db_same [OF q] assms by (metis PoolManager.select_convs PoolManager.surjective PoolManager.update_convs)+
  show ?thesis
  proof (cases r1)
    case (Inl e)
    then show ?thesis using q m1 False assms by (simp add: createPool_def locking_def)
  next
    case (Inr grp)
    then show ?thesis
      using q m1 False assms no_redis_pool [of grp m1] no_memory_pool [of now m1]
      by (cases "determinePoolType grp m1") (auto simp: createPool_def locking_def Let_def)
  qed
qed

lemma get_nothing:
  assumes "pmPools m = []"
  shows "\<exists>m' r. GetPool now gid m = (m', r) \<and> pmPools m' = [] \<and> pmLocked m' = pmLocked m \<and>
    (if pmLocked m then r = None else \<exists>e. r = Some (Inl e))"
proof (cases "pmLocked m")
  case True
  then show ?thesis using assms by (simp add: GetPool_def)
next
  case False
  then show ?thesis using create_nothing [OF assms, of now gid] assms by (simp add: GetPool_def)
qed

lemma init_nothing: "pmPools m = [] \<Longrightarrow> \<exists>m' r. init_groups now gids m = (m', r) \<and> pmPools m' = []"
proof (induction gids arbitrary: m)
  case (Cons gid gids)
  obtain m1 r1 where "GetPool now gid m = (m1, r1)" "pmPools m1 = []" using get_nothing [OF Cons.prems] by blast
  then show ?case using Cons.IH [of m1] by (cases r1) auto
qed simp

lemma refresh_nothing:
  assumes "pmPools m = []"
  shows "\<exists>m'. RefreshPool now gid m = (m', None) \<and> pmPools m' = [] \<and> pmLocked m'"
proof (cases "pmLocked m")
  case True
  then show ?thesis using assms by (simp add: RefreshPool_def)
next
  case False
  then show ?thesis
    using create_nothing [of "m\<lparr>pmLocked := True, pmPools := gdel gid (pmPools m)\<rparr>" now gid] assms
    by (auto simp: RefreshPool_def)
qed

section \<open>Runs of the manager\<close>

inductive pm_step :: "'s PoolManager \<Rightarrow> 's PoolManager \<Rightarrow> bool" where
  get: "GetPool now gid m = (m', r) \<Longrightarrow> pm_step m m'"
| initialize: "InitializePools now m = (m', r1) \<Longrightarrow> pm_step m m'"
| refresh: "RefreshPool now gid m = (m', r1) \<Longrightarrow> pm_step m m'"
| stop: "StopAllPools ord stopped m = (m', r1) \<Longrightarrow> pm_step m m'"
| set_default: "SetDefaultPoolType t m = m' \<Longrightarrow> pm_step m m'"
| groups: "GetAllGroups m = (m', r2) \<Longrightarrow> pm_step m m'"

inductive pm_reach :: "'s PoolManager \<Rightarrow> 's PoolManager \<Rightarrow> bool" for m0 where
  start: "pm_reach m0 m0"
| step: "pm_reach m0 m \<Longrightarrow> pm_step m m' \<Longrightarrow> pm_reach m0 m'"

lemma step_nothing: "pm_step m m' \<Longrightarrow> pmPools m = [] \<Longrightarrow> pmPools m' = []"
proof (induction rule: pm_step.induct)
  case (get now gid m m' r)
  then show ?case using get_nothing [of m now gid] by auto
next
  case (initialize now m m' r1)
  obtain m1 r where q: "pm_db (\<lambda>m. Inr (map fst (pmGroups m))) m = (m1, r)" by fastforce
  have "pmPools m1 = []" using arg_cong [OF pm_db_same [OF q], of pmPools] initialize.prems by simp
  show ?case
  proof (cases r)
    case (Inl e)
    then show ?thesis using initialize.hyps q \<open>pmPools m1 = []\<close> by (simp add: InitializePools_def)
  next
    case (Inr gids)
    obtain m2 r2 where i: "init_groups now gids m1 = (m2, r2)" "pmPools m2 = []"
      using init_nothing [OF \<open>pmPools m1 = []\<close>] by blast
    then show ?thesis using initialize.hyps q Inr by (simp add: InitializePools_def split: prod.splits)
  qed
next
  case (refresh now gid m m' r1)
  then show ?case using refresh_nothing [of m now gid] by auto
next
  case (stop ord stopped m m' r1)
  then show ?case by (auto simp: StopAllPools_def locking_def Let_def split: if_splits)
next
  case (set_default t m m')
  then show ?case by (auto simp: SetDefaultPoolType_def)
next
  case (groups m m' r2)
  then show ?case
    using arg_cong [OF pm_db_same, of "\<lambda>m. Inr (pmGroups m)" m m' r2 pmPools] by (simp add: GetAllGroups_def)
qed

text \<open>C29: The pool manager never has a pool: whatever methods were called on a new one, GetPool returns an
  error or does not return; RefreshPool never returns, since it waits for the lock it holds itself, and
  after it no call that needs the lock returns.\<close>

theorem manager_creates_no_pool:
  assumes "pm_reach (NewPoolManager rows groups faults redisStore) m"
  shows "pmPools m = [] \<and> (\<forall>pool. snd (GetPool now gid m) \<noteq> Some (Inr pool)) \<and>
    snd (RefreshPool now gid m) = None \<and>
    snd (GetPool later gid' (fst (RefreshPool now gid m))) = None \<and>
    snd (GetPoolCount (fst (RefreshPool now gid m))) = None"
proof -
  have m: "pmPools m = []"
    using assms by (induction rule: pm_reach.induct) (auto simp: NewPoolManager_def intro: step_nothing)
  obtain m1 r1 where g: "GetPool now gid m = (m1, r1)" "if pmLocked m then r1 = None else \<exists>e. r1 = Some (Inl e)"
    using get_nothing [OF m] by blast
  obtain m2 where r: "RefreshPool now gid m = (m2, None)" "pmLocked m2" using refresh_nothing [OF m] by blast
  then show ?thesis using m g by (auto simp: GetPool_def [of later] GetPoolCount_def locking_def split: if_splits)
qed

theorem manager_creates_no_pool_witness:
  "\<exists>m e. pm_reach (NewPoolManager [] [(1, None)] [] (None :: (unit Store \<times> unit) option)) m \<and>
     snd (GetPool 0 1 (NewPoolManager [] [(1, None)] [] (None :: (unit Store \<times> unit) option))) = Some (Inl e) \<and>
     pmPools m = [] \<and> snd (RefreshPool 0 1 m) = None"
proof -
  let ?m = "NewPoolManager [] [(1, None)] [] (None :: (unit Store \<times> unit) option)"
  obtain m e where g: "GetPool 0 1 ?m = (m, Some (Inl e))"
    using get_nothing [of ?m 0 1] by (auto simp: NewPoolManager_def)
  then have "pm_reach ?m m" by (intro pm_reach.step [OF pm_reach.start] pm_step.get)
  then show ?thesis using manager_creates_no_pool [of "[]" "[(1, None)]" "[]" None m 0 1 0 1] g by auto
qed

end
