(* ===== verification/GroupHandler.thy ===== *)
theory GroupHandler
  imports KeyImport CacheSync
begin

text \<open>The management of groups: src/internal/handler/group_handler.go over the table of groups, the
  key provider and the import of keys. A handler is a function from the state of the server and the decoded
  request to the new state and the answer. The argument \<^verbatim>\<open>fails\<close> says which statements fail in the
  database. What a handler reads and writes in the database it does in one step.\<close>

section \<open>State, requests and answers\<close>

text \<open>The columns of the table groups the handlers use beside those of GroupRow.\<close>

record DbGroup = GroupRow +
  gDisplayName :: string
  gDescription :: string
  gSort :: int
  gParamOverrides :: "(string, jsonv) gomap option"
  gCreatedAt :: int
  gUpdatedAt :: int

record server =
  svKeys :: kp
  svGroups :: "DbGroup list"
  svNextGroup :: nat
  svReloads :: nat

datatype stmt = FindGroup | FindKeys | BeginTx | WriteGroup | DeleteKeys | DeleteRow | CommitTx |
  ListNames | PublishReload

datatype up_err = UpRequired | UpFormat | UpNone | UpEmptyURL | UpBadURL string | UpWeight | UpMarshal

datatype invalid =
    InvalidName
  | InvalidChannel string
  | NoTestModel
  | InvalidUpstreams up_err
  | InvalidConfig cfg_err
  | InvalidEndpoint
  | DuplicateHeader string
  | InvalidCopyKeys

datatype api_error =
    ErrBadRequest
  | ErrInvalidJSON
  | ErrValidation invalid
  | ErrDuplicateResource
  | ErrResourceNotFound
  | ErrInternalServer
  | ErrDatabase

text \<open>The library functions the handlers call: coding of JSON, canonical names of headers, parsing and
  printing of a URL, the order in which a map is iterated.\<close>

record codec =
  up_decode :: "string \<Rightarrow> (string \<times> int) list option"
  up_encode :: "(string \<times> int) list \<Rightarrow> string option"
  hr_decode :: "string \<Rightarrow> HeaderRule list option"
  hr_encode :: "HeaderRule list \<Rightarrow> string option"
  canonical :: "string \<Rightarrow> string"
  config_order :: "(string \<times> jsonv) iter"
  parse_url :: "string \<Rightarrow> url option"
  print_url :: "url \<Rightarrow> string"

type_synonym 'a handler = "server \<Rightarrow> server \<times> (api_error + 'a)"

section \<open>Validation\<close>

definition isValidChannelType :: "string \<Rightarrow> bool" where
  "isValidChannelType ty \<longleftrightarrow> list_ex (\<lambda>t. t = ty) channelRegistry"

fun clean_upstreams :: "(string \<times> int) list \<Rightarrow> up_err + (string \<times> int) list" where
  "clean_upstreams [] = Inr []"
| "clean_upstreams ((u0, w) # defs) =
    (let u = TrimSpace u0 in
     if u = [] then Inl UpEmptyURL
     else if \<not> has_prefix ''http://'' u \<and> \<not> has_prefix ''https://'' u then Inl (UpBadURL u)
     else if w \<le> 0 then Inl UpWeight
     else (case clean_upstreams defs of Inl e \<Rightarrow> Inl e | Inr ds \<Rightarrow> Inr ((u, w) # ds)))"

definition validateAndCleanUpstreams :: "codec \<Rightarrow> string option \<Rightarrow> up_err + string" where
  "validateAndCleanUpstreams c upstreams =
    (case upstreams of
       None \<Rightarrow> Inl UpRequired
     | Some text \<Rightarrow>
         if text = [] then Inl UpRequired
         else (case up_decode c text of
           None \<Rightarrow> Inl UpFormat
         | Some defs \<Rightarrow>
             if defs = [] then Inl UpNone
             else (case clean_upstreams defs of
               Inl e \<Rightarrow> Inl e
             | Inr ds \<Rightarrow> (case up_encode c ds of None \<Rightarrow> Inl UpMarshal | Some t \<Rightarrow> Inr t))))"

text \<open>The pattern is [a-z0-9_-]{3,30}.\<close>

definition name_char :: "char \<Rightarrow> bool" where
  "name_char c \<longleftrightarrow> (let n = (of_char c :: nat) in
     97 \<le> n \<and> n \<le> 122 \<or> 48 \<le> n \<and> n \<le> 57 \<or> n = 95 \<or> n = 45)"

definition isValidGroupName :: "string \<Rightarrow> bool" where
  "isValidGroupName name \<longleftrightarrow> name \<noteq> [] \<and>
     3 \<le> length name \<and> length name \<le> 30 \<and> list_all name_char name"

definition isValidValidationEndpoint :: "string \<Rightarrow> bool" where
  "isValidValidationEndpoint endpoint =
    (if endpoint = [] then True
     else if \<not> has_prefix ''/'' endpoint then False
     else \<not> Contains endpoint ''://'')"

text \<open>The loop over the header rules, the same in both handlers.\<close>

fun normalize_rules :: "codec \<Rightarrow> HeaderRule list \<Rightarrow> string list \<Rightarrow> api_error + HeaderRule list" where
  "normalize_rules c [] seenKeys = Inr []"
| "normalize_rules c (rule # rules) seenKeys =
    (let key = TrimSpace (hr_key rule) in
     if key = [] then normalize_rules c rules seenKeys
     else
       let canonicalKey = canonical c key in
       if canonicalKey \<in> set seenKeys then Inl (ErrValidation (DuplicateHeader canonicalKey))
       else (case normalize_rules c rules (canonicalKey # seenKeys) of
           Inl e \<Rightarrow> Inl e
         | Inr rs \<Rightarrow> Inr (\<lparr>hr_key = canonicalKey, hr_value = hr_value rule, hr_action = hr_action rule\<rparr> # rs)))"

definition header_rules_json :: "codec \<Rightarrow> HeaderRule list \<Rightarrow> api_error + string" where
  "header_rules_json c rules =
    (case normalize_rules c rules [] of
       Inl e \<Rightarrow> Inl e
     | Inr [] \<Rightarrow> Inr ''[]''
     | Inr rs \<Rightarrow> (case hr_encode c rs of None \<Rightarrow> Inl ErrInternalServer | Some t \<Rightarrow> Inr t))"

section \<open>Answers\<close>

record GroupResponse =
  grRow :: DbGroup
  grEndpoint :: string
  grHeaderRules :: "HeaderRule list"

definition newGroupResponse :: "codec \<Rightarrow> string \<Rightarrow> DbGroup \<Rightarrow> GroupResponse" where
  "newGroupResponse c appURL g =
    \<lparr>grRow = g,
     grEndpoint =
       (if appURL = [] then []
        else (case parse_url c appURL of
          None \<Rightarrow> []
        | Some u \<Rightarrow> print_url c (u\<lparr>u_path := TrimRight (u_path u) CHR ''/'' @ ''/proxy/'' @ gName g\<rparr>))),
     grHeaderRules =
       (if gHeaderRules g = [] then []
        else (case hr_decode c (gHeaderRules g) of None \<Rightarrow> [] | Some rules \<Rightarrow> rules))\<rparr>"

section \<open>The table\<close>

text \<open>An id of the path, decoded by Atoi; a row has it if the numbers are equal.\<close>

definition path_id :: "string \<Rightarrow> int option" where
  "path_id text = (case ParseInt text of (v, None) \<Rightarrow> Some v | (_, Some _) \<Rightarrow> None)"

definition group_by_id :: "(stmt \<Rightarrow> bool) \<Rightarrow> int \<Rightarrow> server \<Rightarrow> api_error + DbGroup" where
  "group_by_id fails gid s =
    (if fails FindGroup then Inl ErrDatabase
     else case find (\<lambda>g. int (gID g) = gid) (svGroups s) of
       None \<Rightarrow> Inl ErrResourceNotFound
     | Some g \<Rightarrow> Inr g)"

text \<open>Create numbers the row and sets its times; the name is unique in the table.\<close>

definition insert_group :: "(stmt \<Rightarrow> bool) \<Rightarrow> int \<Rightarrow> DbGroup \<Rightarrow> server \<Rightarrow> server \<times> (api_error + DbGroup)" where
  "insert_group fails now g s =
    (if fails WriteGroup then (s, Inl ErrDatabase)
     else if gName g \<in> set (map gName (svGroups s)) then (s, Inl ErrDuplicateResource)
     else let row = g\<lparr>gID := svNextGroup s, gCreatedAt := now, gUpdatedAt := now\<rparr> in
       (s\<lparr>svGroups := svGroups s @ [row], svNextGroup := svNextGroup s + 1\<rparr>, Inr row))"

definition save_group :: "(stmt \<Rightarrow> bool) \<Rightarrow> int \<Rightarrow> DbGroup \<Rightarrow> server \<Rightarrow> server \<times> (api_error + DbGroup)" where
  "save_group fails now g s =
    (if fails WriteGroup then (s, Inl ErrDatabase)
     else if list_ex (\<lambda>h. gName h = gName g \<and> gID h \<noteq> gID g) (svGroups s) then (s, Inl ErrDuplicateResource)
     else let row = g\<lparr>gUpdatedAt := now\<rparr> in
       (s\<lparr>svGroups := map (\<lambda>h. if gID h = gID g then row else h) (svGroups s)\<rparr>, Inr row))"

text \<open>An error of Invalidate is only logged.\<close>

definition invalidate :: "(stmt \<Rightarrow> bool) \<Rightarrow> server \<Rightarrow> server" where
  "invalidate fails s = (if fails PublishReload then s else s\<lparr>svReloads := Suc (svReloads s)\<rparr>)"

section \<open>Creating and listing groups\<close>

record GroupCreateRequest =
  crName :: string
  crDisplayName :: string
  crDescription :: string
  crUpstreams :: "string option"
  crChannelType :: string
  crSort :: int
  crTestModel :: string
  crValidationEndpoint :: string
  crParamOverrides :: "(string, jsonv) gomap option"
  crConfig :: "(string, jsonv) gomap option"
  crHeaderRules :: "HeaderRule list"
  crProxyKeys :: string

definition new_group :: "codec \<Rightarrow> GroupCreateRequest \<Rightarrow> api_error + DbGroup" where
  "new_group c r =
    (let name = TrimSpace (crName r); ty = TrimSpace (crChannelType r); model = TrimSpace (crTestModel r) in
     if \<not> isValidGroupName name then Inl (ErrValidation InvalidName)
     else if \<not> isValidChannelType ty then Inl (ErrValidation (InvalidChannel ty))
     else if model = [] then Inl (ErrValidation NoTestModel)
     else (case validateAndCleanUpstreams c (crUpstreams r) of
       Inl e \<Rightarrow> Inl (ErrValidation (InvalidUpstreams e))
     | Inr ups \<Rightarrow>
         (case validateAndCleanConfig (config_order c) (crConfig r) of
           Inl e \<Rightarrow> Inl (ErrValidation (InvalidConfig e))
         | Inr config \<Rightarrow>
             let endpoint = TrimSpace (crValidationEndpoint r) in
             if \<not> isValidValidationEndpoint endpoint then Inl (ErrValidation InvalidEndpoint)
             else (case header_rules_json c (crHeaderRules r) of
               Inl e \<Rightarrow> Inl e
             | Inr rules \<Rightarrow> Inr
                 \<lparr>gID = 0, gName = name, gChannelType = ty, gUpstreams = ups, gTestModel = model,
                  gValidationEndpoint = endpoint, EffectiveConfig = zero_settings,
                  gProxyKeys = TrimSpace (crProxyKeys r), gConfig = config, gHeaderRules = rules,
                  LastValidatedAt = None, gProxyKeysMap = {}, HeaderRuleList = [],
                  gDisplayName = TrimSpace (crDisplayName r), gDescription = TrimSpace (crDescription r),
                  gSort = crSort r, gParamOverrides = crParamOverrides r, gCreatedAt = 0, gUpdatedAt = 0\<rparr>))))"

definition CreateGroup ::
  "codec \<Rightarrow> (stmt \<Rightarrow> bool) \<Rightarrow> int \<Rightarrow> string \<Rightarrow> GroupCreateRequest option \<Rightarrow> GroupResponse handler" where
  "CreateGroup c fails now appURL req s =
    (case req of
       None \<Rightarrow> (s, Inl ErrInvalidJSON)
     | Some r \<Rightarrow>
         (case new_group c r of
           Inl e \<Rightarrow> (s, Inl e)
         | Inr g \<Rightarrow>
             (case insert_group fails now g s of
               (s1, Inl e) \<Rightarrow> (s1, Inl e)
             | (s1, Inr row) \<Rightarrow> (invalidate fails s1, Inr (newGroupResponse c appURL row)))))"

text \<open>Ordered by the column sort, then the newest first.\<close>

definition ListGroups :: "codec \<Rightarrow> (stmt \<Rightarrow> bool) \<Rightarrow> string \<Rightarrow> GroupResponse list handler" where
  "ListGroups c fails appURL s =
    (if fails FindGroup then (s, Inl ErrDatabase)
     else (s, Inr (map (newGroupResponse c appURL)
       (sort_key gSort (rev (sort_key gID (svGroups s)))))))"

section \<open>Updating a group\<close>

record GroupUpdateRequest =
  uqName :: "string option"
  uqDisplayName :: "string option"
  uqDescription :: "string option"
  uqUpstreams :: "string option"
  uqChannelType :: "string option"
  uqSort :: "int option"
  uqTestModel :: string
  uqValidationEndpoint :: "string option"
  uqParamOverrides :: "(string, jsonv) gomap option"
  uqConfig :: "(string, jsonv) gomap option"
  uqHeaderRules :: "HeaderRule list option"
  uqProxyKeys :: "string option"

text \<open>The assignments of the handler in their order; each may reject the request.\<close>

fun run_steps :: "('a \<Rightarrow> 'e + 'a) list \<Rightarrow> 'a \<Rightarrow> 'e + 'a" where
  "run_steps [] x = Inr x"
| "run_steps (f # fs) x = (case f x of Inl e \<Rightarrow> Inl e | Inr y \<Rightarrow> run_steps fs y)"

text \<open>A field of the request that is absent leaves the row as it is.\<close>

definition given :: "'b option \<Rightarrow> ('b \<Rightarrow> 'a \<Rightarrow> 'e + 'a) \<Rightarrow> 'a \<Rightarrow> 'e + 'a" where
  "given v assign x = (case v of None \<Rightarrow> Inr x | Some b \<Rightarrow> assign b x)"

definition update_steps :: "codec \<Rightarrow> GroupUpdateRequest \<Rightarrow> (DbGroup \<Rightarrow> api_error + DbGroup) list" where
  "update_steps c r =
   [given (uqName r) (\<lambda>v g. if isValidGroupName (TrimSpace v) then Inr (g\<lparr>gName := TrimSpace v\<rparr>)
      else Inl (ErrValidation InvalidName)),
    given (uqDisplayName r) (\<lambda>v g. Inr (g\<lparr>gDisplayName := TrimSpace v\<rparr>)),
    given (uqDescription r) (\<lambda>v g. Inr (g\<lparr>gDescription := TrimSpace v\<rparr>)),
    given (uqUpstreams r) (\<lambda>v g. case validateAndCleanUpstreams c (Some v) of
        Inl e \<Rightarrow> Inl (ErrValidation (InvalidUpstreams e))
      | Inr ups \<Rightarrow> Inr (g\<lparr>gUpstreams := ups\<rparr>)),
    given (uqChannelType r) (\<lambda>v g. if isValidChannelType (TrimSpace v) then Inr (g\<lparr>gChannelType := TrimSpace v\<rparr>)
      else Inl (ErrValidation (InvalidChannel (TrimSpace v)))),
    given (uqSort r) (\<lambda>v g. Inr (g\<lparr>gSort := v\<rparr>)),
    (\<lambda>g. if uqTestModel r = [] then Inr g
         else if TrimSpace (uqTestModel r) = [] then Inl (ErrValidation NoTestModel)
         else Inr (g\<lparr>gTestModel := TrimSpace (uqTestModel r)\<rparr>)),
    given (uqParamOverrides r) (\<lambda>v g. Inr (g\<lparr>gParamOverrides := Some v\<rparr>)),
    given (uqValidationEndpoint r) (\<lambda>v g. if isValidValidationEndpoint (TrimSpace v)
      then Inr (g\<lparr>gValidationEndpoint := TrimSpace v\<rparr>) else Inl (ErrValidation InvalidEndpoint)),
    given (uqConfig r) (\<lambda>v g. case validateAndCleanConfig (config_order c) (Some v) of
        Inl e \<Rightarrow> Inl (ErrValidation (InvalidConfig e))
      | Inr config \<Rightarrow> Inr (g\<lparr>gConfig := config\<rparr>)),
    given (uqProxyKeys r) (\<lambda>v g. Inr (g\<lparr>gProxyKeys := TrimSpace v\<rparr>)),
    given (uqHeaderRules r) (\<lambda>v g. case header_rules_json c v of
        Inl e \<Rightarrow> Inl e
      | Inr rules \<Rightarrow> Inr (g\<lparr>gHeaderRules := rules\<rparr>))]"

definition UpdateGroup ::
  "codec \<Rightarrow> (stmt \<Rightarrow> bool) \<Rightarrow> int \<Rightarrow> string \<Rightarrow> string \<Rightarrow> GroupUpdateRequest option \<Rightarrow> GroupResponse handler" where
  "UpdateGroup c fails now appURL path req s =
    (case path_id path of
       None \<Rightarrow> (s, Inl ErrBadRequest)
     | Some gid \<Rightarrow>
         (case group_by_id fails gid s of
           Inl e \<Rightarrow> (s, Inl e)
         | Inr g \<Rightarrow>
             (case req of
               None \<Rightarrow> (s, Inl ErrInvalidJSON)
             | Some r \<Rightarrow>
                 if fails BeginTx then (s, Inl ErrDatabase)
                 else (case run_steps (update_steps c r) g of
                   Inl e \<Rightarrow> (s, Inl e)
                 | Inr g1 \<Rightarrow>
                     (case save_group fails now g1 s of
                       (_, Inl e) \<Rightarrow> (s, Inl e)
                     | (s1, Inr row) \<Rightarrow>
                         if fails CommitTx then (s, Inl ErrDatabase)
                         else (invalidate fails s1, Inr (newGroupResponse c appURL row)))))))"

section \<open>Deleting a group\<close>

text \<open>The store is cleaned before the commit; a rollback restores the tables only.\<close>

definition DeleteGroup :: "(stmt \<Rightarrow> bool) \<Rightarrow> string \<Rightarrow> unit handler" where
  "DeleteGroup fails path s =
    (case path_id path of
       None \<Rightarrow> (s, Inl ErrBadRequest)
     | Some gid \<Rightarrow>
         if fails FindKeys then (s, Inl ErrDatabase)
         else
         let p = svKeys s; keyIDs = map ID (filter (\<lambda>k. int (GroupID k) = gid) (kdb p)) in
         if fails BeginTx then (s, Inl ErrDatabase)
         else (case group_by_id fails gid s of
           Inl e \<Rightarrow> (s, Inl e)
         | Inr g \<Rightarrow>
             if fails DeleteKeys then (s, Inl ErrDatabase)
             else let p1 = p\<lparr>kdb := filter (\<lambda>k. int (GroupID k) \<noteq> gid) (kdb p)\<rparr> in
             if fails DeleteRow then (s, Inl ErrDatabase)
             else
             let groups = filter (\<lambda>h. int (gID h) \<noteq> gid) (svGroups s) in
             (case (if keyIDs = [] then (p1, None) else RemoveKeysFromStore (nat gid) keyIDs p1) of
               (p2, Some _) \<Rightarrow> (s\<lparr>svKeys := p2\<lparr>kdb := kdb p\<rparr>\<rparr>, Inl ErrDatabase)
             | (p2, None) \<Rightarrow>
                 if fails CommitTx then (s\<lparr>svKeys := p2\<lparr>kdb := kdb p\<rparr>\<rparr>, Inl ErrDatabase)
                 else (invalidate fails (s\<lparr>svKeys := p2, svGroups := groups\<rparr>), Inr ()))))"

section \<open>Copying a group\<close>

definition generateUniqueGroupName :: "(stmt \<Rightarrow> bool) \<Rightarrow> string \<Rightarrow> server \<Rightarrow> string" where
  "generateUniqueGroupName fails baseName s =
    (if fails ListNames then baseName @ ''_copy''
     else
     let existingNames = map gName (svGroups s); copyName = baseName @ ''_copy'' in
     if copyName \<notin> set existingNames then copyName
     else (case find (\<lambda>candidate. candidate \<notin> set existingNames)
             (map (\<lambda>i. baseName @ ''_copy_'' @ show_nat i) [2..<1001]) of
       Some candidate \<Rightarrow> candidate
     | None \<Rightarrow> copyName))"

definition join_lines :: "string list \<Rightarrow> string" where
  "join_lines vs = (case vs of [] \<Rightarrow> [] | v # rest \<Rightarrow> v @ concat (map (\<lambda>w. CHR 0x0A # w) rest))"

record task_codec =
  task_enc :: "TaskStatus \<Rightarrow> string option"
  task_dec :: "string \<Rightarrow> TaskStatus option"
  json_strings :: "string \<Rightarrow> bool \<times> string list"

text \<open>The keys to copy, and the import started for them after the commit.\<close>

definition copied_values :: "string \<Rightarrow> nat \<Rightarrow> APIKey list \<Rightarrow> string list" where
  "copied_values copyKeys gid rows =
    (if copyKeys = ''none'' then []
     else map KeyValue (filter (\<lambda>k. GroupID k = gid \<and>
       (copyKeys = ''valid_only'' \<longrightarrow> Status k = KeyStatusActive)) rows))"

definition start_copy ::
  "task_codec \<Rightarrow> int \<Rightarrow> string \<Rightarrow> string list \<Rightarrow> kp \<Rightarrow> kp \<times> (TaskStatus \<times> string list) option" where
  "start_copy tc now name vs p =
    (if vs = [] then (p, None)
     else case StartImportTask (task_enc tc) (task_dec tc) (json_strings tc) now name (join_lines vs) p of
       (q, Inl _) \<Rightarrow> (q, None)
     | (q, Inr task) \<Rightarrow> (q, Some task))"

text \<open>The answer comes with the import that was started, if any: its status and its keys.\<close>

definition CopyGroup ::
  "codec \<Rightarrow> task_codec \<Rightarrow> (stmt \<Rightarrow> bool) \<Rightarrow> int \<Rightarrow> string \<Rightarrow> string \<Rightarrow> string option \<Rightarrow>
   (GroupResponse \<times> (TaskStatus \<times> string list) option) handler" where
  "CopyGroup c tc fails now appURL path req s =
    (case path_id path of
       None \<Rightarrow> (s, Inl ErrBadRequest)
     | Some gid \<Rightarrow>
         (case req of
           None \<Rightarrow> (s, Inl ErrInvalidJSON)
         | Some copy0 \<Rightarrow>
             if copy0 \<notin> {[], ''none'', ''valid_only'', ''all''} then (s, Inl (ErrValidation InvalidCopyKeys))
             else
             let copyKeys = (if copy0 = [] then ''all'' else copy0) in
             (case group_by_id fails (gid mod 18446744073709551616) s of
               Inl e \<Rightarrow> (s, Inl e)
             | Inr src \<Rightarrow>
                 if fails BeginTx then (s, Inl ErrDatabase)
                 else
                 let copy = src\<lparr>gName := generateUniqueGroupName fails (gName src) s,
                       gDisplayName := (if gDisplayName src \<noteq> [] then gDisplayName src @ '' Copy'' else []),
                       LastValidatedAt := None\<rparr> in
                 (case insert_group fails now copy s of
                   (_, Inl e) \<Rightarrow> (s, Inl e)
                 | (s1, Inr row) \<Rightarrow>
                     if copyKeys \<noteq> ''none'' \<and> fails FindKeys then (s, Inl ErrDatabase)
                     else
                     let sourceKeyValues = copied_values copyKeys (gID src) (kdb (svKeys s)) in
                     if fails CommitTx then (s, Inl ErrDatabase)
                     else
                     let s2 = invalidate fails s1 in
                     (case start_copy tc now (gName row) sourceKeyValues (svKeys s2) of
                       (q, task) \<Rightarrow> (s2\<lparr>svKeys := q\<rparr>, Inr (newGroupResponse c appURL row, task)))))))"

end
