(* ===== verification/GroupProps.thy ===== *)
theory GroupProps
  imports GroupHandler
begin

text \<open>What the management of groups guarantees: the rows of the table are ones the channels accept, a
  failed request changes nothing, a deleted group leaves no key behind, and a copy has the keys of its source.\<close>

section \<open>Rows that passed the validation\<close>

definition http_url :: "string \<Rightarrow> bool" where
  "http_url u \<longleftrightarrow> has_prefix ''http://'' u \<or> has_prefix ''https://'' u"

definition upstreams_ok :: "(string \<times> int) list \<Rightarrow> bool" where
  "upstreams_ok ds \<longleftrightarrow> ds \<noteq> [] \<and> (\<forall>(u, w) \<in> set ds. http_url u \<and> 0 < w)"

text \<open>Encoding a list of upstreams is undone by decoding it.\<close>

definition codes_back :: "codec \<Rightarrow> bool" where
  "codes_back c \<longleftrightarrow> (\<forall>ds t. up_encode c ds = Some t \<longrightarrow> up_decode c t = Some ds)"

definition decodes_ok :: "codec \<Rightarrow> string \<Rightarrow> bool" where
  "decodes_ok c t \<longleftrightarrow> (\<exists>ds. up_decode c t = Some ds \<and> upstreams_ok ds)"

definition cleaned :: "codec \<Rightarrow> (string, jsonv) gomap option \<Rightarrow> bool" where
  "cleaned c config \<longleftrightarrow> (\<exists>m. validateAndCleanConfig (config_order c) m = Inr config)"

definition row_ok :: "codec \<Rightarrow> DbGroup \<Rightarrow> bool" where
  "row_ok c g \<longleftrightarrow> gChannelType g \<in> set channelRegistry \<and> gTestModel g \<noteq> [] \<and>
     isValidValidationEndpoint (gValidationEndpoint g) \<and> decodes_ok c (gUpstreams g) \<and> cleaned c (gConfig g)"

lemma cleanedI: "validateAndCleanConfig (config_order c) m = Inr config \<Longrightarrow> cleaned c config"
  by (auto simp: cleaned_def)

lemma clean_upstreams_ok:
  "clean_upstreams defs = Inr ds \<Longrightarrow> length ds = length defs \<and> (\<forall>(u, w) \<in> set ds. http_url u \<and> 0 < w)"
proof (induction defs arbitrary: ds)
  case (Cons d defs)
  obtain u0 w where d: "d = (u0, w)" by fastforce
  obtain ds' where "clean_upstreams defs = Inr ds'" "ds = (TrimSpace u0, w) # ds'"
      "http_url (TrimSpace u0)" "0 < w"
    using Cons.prems by (auto simp: d http_url_def Let_def split: if_splits sum.splits)
  then show ?case using Cons.IH by simp
qed simp

lemma validateAndCleanUpstreams_ok:
  assumes "codes_back c" "validateAndCleanUpstreams c x = Inr t"
  shows "decodes_ok c t"
proof -
  obtain defs ds where d: "defs \<noteq> []" "clean_upstreams defs = Inr ds" "up_encode c ds = Some t"
    using assms(2) by (auto simp: validateAndCleanUpstreams_def split: option.splits if_splits sum.splits)
  then have "up_decode c t = Some ds" using assms(1) by (simp add: codes_back_def)
  moreover have "upstreams_ok ds" using clean_upstreams_ok [OF d(2)] d(1) by (auto simp: upstreams_ok_def)
  ultimately show ?thesis by (auto simp: decodes_ok_def)
qed

lemma isValidChannelType_iff: "isValidChannelType ty \<longleftrightarrow> ty \<in> set channelRegistry"
  by (auto simp: isValidChannelType_def list_ex_iff)

lemma new_group_ok:
  assumes "codes_back c" "new_group c r = Inr g"
  shows "row_ok c g"
proof -
  obtain ups config rules where r: "validateAndCleanUpstreams c (crUpstreams r) = Inr ups"
      "validateAndCleanConfig (config_order c) (crConfig r) = Inr config"
      "header_rules_json c (crHeaderRules r) = Inr rules"
    and g: "isValidChannelType (gChannelType g)" "gTestModel g \<noteq> []"
      "isValidValidationEndpoint (gValidationEndpoint g)" "gUpstreams g = ups" "gConfig g = config"
    using assms(2) by (auto simp: new_group_def Let_def split: if_splits sum.splits)
  show ?thesis
    using g cleanedI [OF r(2)] validateAndCleanUpstreams_ok [OF assms(1) r(1)]
    by (simp add: row_ok_def isValidChannelType_iff)
qed

lemma run_steps_keep:
  assumes "run_steps fs x = Inr y" "P x"
    and "\<And>f x y. f \<in> set fs \<Longrightarrow> P x \<Longrightarrow> f x = Inr y \<Longrightarrow> P y"
  shows "P y"
  using assms
proof (induction fs arbitrary: x)
  case (Cons f fs)
  obtain z where z: "f x = Inr z" "run_steps fs z = Inr y" using Cons.prems(1) by (auto split: sum.splits)
  have "f \<in> set (f # fs)" by simp
  from Cons.prems(3) [OF this Cons.prems(2) z(1)] have "P z" .
  then show ?case using Cons.IH [OF z(2)] Cons.prems(3) by (meson list.set_intros(2))
qed simp

lemma given_Inr: "given v assign x = Inr y \<longleftrightarrow> v = None \<and> y = x \<or> (\<exists>b. v = Some b \<and> assign b x = Inr y)"
  by (auto simp: given_def split: option.splits)

lemma sum_case_Inr: "(case x of Inl e \<Rightarrow> Inl (F e) | Inr v \<Rightarrow> Inr (G v)) = Inr y \<longleftrightarrow> (\<exists>v. x = Inr v \<and> y = G v)"
  by (auto split: sum.splits)

lemma update_steps_ok:
  assumes "codes_back c" "run_steps (update_steps c r) g = Inr g'" "row_ok c g"
  shows "row_ok c g' \<and> gID g' = gID g"
proof -
  define P where "P = (\<lambda>x. row_ok c x \<and> gID x = gID g)"
  note up = validateAndCleanUpstreams_ok [OF assms(1)]
  show ?thesis
  proof (rule run_steps_keep [OF assms(2), of P, unfolded P_def])
    fix f x y
    assume f: "f \<in> set (update_steps c r)" and x: "row_ok c x \<and> gID x = gID g" and y: "f x = Inr y"
    show "row_ok c y \<and> gID y = gID g"
      using f x y up
      by (auto simp: update_steps_def given_Inr row_ok_def isValidChannelType_iff sum_case_Inr
          split: if_splits) (metis cleanedI)
  qed (use assms(3) in simp)
qed

section \<open>The table of groups\<close>

definition table_ok :: "codec \<Rightarrow> server \<Rightarrow> bool" where
  "table_ok c s \<longleftrightarrow> distinct (map gID (svGroups s)) \<and> distinct (map gName (svGroups s)) \<and>
     (\<forall>g \<in> set (svGroups s). gID g < svNextGroup s \<and> row_ok c g)"

lemma table_okI:
  "svGroups s' = svGroups s \<Longrightarrow> svNextGroup s' = svNextGroup s \<Longrightarrow> table_ok c s \<Longrightarrow> table_ok c s'"
  by (simp add: table_ok_def)

lemma invalidate_sel [simp]:
  "svGroups (invalidate fails s) = svGroups s" "svNextGroup (invalidate fails s) = svNextGroup s"
  "svKeys (invalidate fails s) = svKeys s"
  by (simp_all add: invalidate_def)

lemma insert_group_ok:
  assumes "table_ok c s" "row_ok c g" "insert_group fails now g s = (s', r)"
  shows "table_ok c s'"
  using assms by (fastforce simp: insert_group_def table_ok_def row_ok_def Let_def split: if_splits)

lemma find_group: "find P rows = Some g \<Longrightarrow> g \<in> set rows \<and> P g"
  by (induction rows) (auto split: if_splits)

lemma group_by_id_row: "group_by_id fails gid s = Inr g \<Longrightarrow> g \<in> set (svGroups s) \<and> int (gID g) = gid"
  using find_group [of "\<lambda>g. int (gID g) = gid"]
  by (auto simp: group_by_id_def split: if_splits option.splits)

lemma save_group_ok:
  assumes "table_ok c s" "row_ok c g" "g0 \<in> set (svGroups s)" "gID g0 = gID g"
    and "save_group fails now g s = (s', Inr row)"
  shows "table_ok c s'"
proof -
  let ?f = "\<lambda>h. if gID h = gID g then g\<lparr>gUpdatedAt := now\<rparr> else h"
  have s': "s' = s\<lparr>svGroups := map ?f (svGroups s)\<rparr>"
    and new: "\<forall>h \<in> set (svGroups s). gName h = gName g \<longrightarrow> gID h = gID g"
    using assms(5) by (auto simp: save_group_def Let_def list_ex_iff split: if_splits)
  have ids: "map gID (map ?f (svGroups s)) = map gID (svGroups s)" by simp
  have names: "map gName (map ?f (svGroups s)) =
      map (\<lambda>h. if gID h = gID g then gName g else gName h) (svGroups s)" by (simp cong: map_cong)
  have d: "distinct (map gID (svGroups s))" "distinct (map gName (svGroups s))"
    using assms(1) by (simp_all add: table_ok_def)
  have "inj_on (\<lambda>h. if gID h = gID g then gName g else gName h) (set (svGroups s))"
    using d new unfolding distinct_map inj_on_def by metis
  then have "distinct (map gName (map ?f (svGroups s)))"
    unfolding names using d(1) by (simp add: distinct_map)
  moreover have "distinct (map gID (map ?f (svGroups s)))" using d(1) unfolding ids .
  moreover have "\<forall>h \<in> set (map ?f (svGroups s)). gID h < svNextGroup s \<and> row_ok c h"
    using assms(1-4) by (auto simp: table_ok_def row_ok_def)
  ultimately show ?thesis unfolding table_ok_def s' by simp
qed

section \<open>The handlers\<close>

text \<open>A request that is answered with an error leaves the tables as they were.\<close>

lemma insert_group_Inl: "insert_group fails now g s = (s', Inl e) \<Longrightarrow> s' = s"
  by (auto simp: insert_group_def Let_def split: if_splits)

lemma CreateGroup_ok:
  assumes "codes_back c" "table_ok c s" "CreateGroup c fails now appURL req s = (s', r)"
  shows "table_ok c s' \<and> svKeys s' = svKeys s \<and> (\<forall>e. r = Inl e \<longrightarrow> s' = s)"
proof (cases req)
  case (Some q)
  show ?thesis
  proof (cases "new_group c q")
    case (Inr g)
    obtain s1 r1 where i: "insert_group fails now g s = (s1, r1)" by fastforce
    have "svKeys s1 = svKeys s" using i by (auto simp: insert_group_def Let_def split: if_splits)
    then show ?thesis
      using assms(2,3) Some Inr i insert_group_ok [OF assms(2) new_group_ok [OF assms(1) Inr] i] insert_group_Inl [of fails now g s]
      by (cases r1) (auto simp: CreateGroup_def intro: table_okI [of _ s1])
  qed (use assms Some in \<open>simp add: CreateGroup_def\<close>)
qed (use assms in \<open>simp add: CreateGroup_def\<close>)

lemma UpdateGroup_ok:
  assumes "codes_back c" "table_ok c s" "UpdateGroup c fails now appURL path req s = (s', r)"
  shows "table_ok c s' \<and> svKeys s' = svKeys s \<and> (\<forall>e. r = Inl e \<longrightarrow> s' = s)"
proof (cases "s' = s \<and> (\<exists>e. r = Inl e)")
  case False
  then obtain gid g q g1 s1 row where u: "group_by_id fails gid s = Inr g" "run_steps (update_steps c q) g = Inr g1"
      "save_group fails now g1 s = (s1, Inr row)" "s' = invalidate fails s1" "r = Inr (newGroupResponse c appURL row)"
    using assms(3) by (auto simp: UpdateGroup_def split: option.splits sum.splits if_splits prod.splits)
  note g = group_by_id_row [OF u(1)]
  then have "row_ok c g" using assms(2) by (simp add: table_ok_def)
  note k = update_steps_ok [OF assms(1) u(2) this]
  have "table_ok c s1" using save_group_ok [OF assms(2) _ _ _ u(3), of g] k g by simp
  moreover have "svKeys s1 = svKeys s" using u(3) by (auto simp: save_group_def Let_def split: if_splits)
  ultimately show ?thesis using u(4,5) by (auto intro: table_okI [of _ s1])
qed (use assms in auto)

section \<open>Deleting a group\<close>

lemma remove_from_store:
  assumes "kp_ok p" "kids \<noteq> []"
  shows "\<exists>z. RemoveKeysFromStore gid kids p = (z, None) \<and> kp_ok z \<and>
    vlists (view z) = (vlists (view p))(gid := []) \<and> kdb z = kdb p"
proof -
  let ?R = "\<lambda>v. fold (\<lambda>i. on_hash i (\<lambda>_. Map.empty)) kids (on_list gid (\<lambda>_. []) v)"
  have "does (run_all (in_store (mem_Delete (active_list gid)) #
      map (\<lambda>kid. in_store_logged (mem_Delete (key_hash kid))) kids)) ?R"
    by (rule does_Cons [OF does_Delete_list does_delete_hashes])
  then obtain z where z: "RemoveKeysFromStore gid kids p = (z, None)" "kp_ok z" "view z = ?R (view p)"
    using assms unfolding does_def RemoveKeysFromStore_def by fastforce
  have "vlists (view z) = (vlists (view p))(gid := [])"
    unfolding z(3) fold_clear_hashes(2) by (auto simp: fun_eq_iff)
  moreover have "kdb z = kdb p" using arg_cong [OF z(3), of vdb] by (simp add: fold_clear_hashes)
  ultimately show ?thesis using z by blast
qed

lemma select_empty_queue:
  assumes "kp_ok p" "vlists (view p) gid = []"
  shows "snd (SelectKey gid p) = Inl KNoActiveKeys"
proof -
  have "mem.is_queue (kstore p) (active_list gid)" "mem.items (kstore p) (active_list gid) = []"
    using assms kp_ok_parts(2) by (auto simp: view_def)
  then have "mem_Rotate (active_list gid) (kstore p) = (kstore p, Inl ErrNotFound)"
    by (auto simp: mem_Rotate_def mem.is_queue_def mem.items_def split: option.splits store_val.splits)
  then show ?thesis by (simp add: SelectKey_def)
qed

text \<open>What the handler does to the keys: the store first, the table with the commit.\<close>

definition keys_deleted :: "nat \<Rightarrow> kp \<Rightarrow> kp \<Rightarrow> bool" where
  "keys_deleted gid p q \<longleftrightarrow> kp_ok q \<and> vlists (view q) = (vlists (view p))(gid := [])"

lemma DeleteGroup_cases:
  assumes "DeleteGroup fails path s = (s', r)" "ok (svKeys s)"
  shows "(\<exists>e. r = Inl e \<and> s' = s) \<or>
    (\<exists>g q. path_id path = Some (int (gID g)) \<and> g \<in> set (svGroups s) \<and> keys_deleted (gID g) (svKeys s) q \<and>
      (if fails CommitTx then r = Inl ErrDatabase \<and> s' = s\<lparr>svKeys := q\<rparr> \<and> kdb q = kdb (svKeys s)
       else r = Inr () \<and> q = delete_group (gID g) (svKeys s) \<and>
         kdb q = filter (\<lambda>k. GroupID k \<noteq> gID g) (kdb (svKeys s)) \<and>
         s' = invalidate fails (s\<lparr>svKeys := q, svGroups := filter (\<lambda>h. gID h \<noteq> gID g) (svGroups s)\<rparr>)))"
proof (cases "\<exists>e. r = Inl e \<and> s' = s")
  case False
  let ?p = "svKeys s"
  obtain gid g where g: "path_id path = Some gid" "group_by_id fails gid s = Inr g"
      "\<not> fails FindKeys" "\<not> fails BeginTx" "\<not> fails DeleteKeys" "\<not> fails DeleteRow"
    using assms(1) False by (auto simp: DeleteGroup_def Let_def split: option.splits if_splits sum.splits)
  note gid = group_by_id_row [OF g(2)]
  let ?kids = "pluckIDs (filter (\<lambda>k. GroupID k = gID g) (kdb ?p))"
  let ?p1 = "?p\<lparr>kdb := filter (\<lambda>k. GroupID k \<noteq> gID g) (kdb ?p)\<rparr>"
  have kp: "kp_ok ?p1" and sy: "synced (view ?p)" using assms(2) by (auto simp: ok_def)
  obtain z where z: "RemoveKeysFromStore (gID g) ?kids ?p1 = (z, None)" "kp_ok z"
      "vlists (view z) = (vlists (view ?p))(gID g := [])" "kdb z = kdb ?p1"
  proof (cases "?kids = []")
    case True
    then have "active_ids (kdb ?p) (gID g) = {}"
      by (auto simp: active_ids_def pluckIDs_def filter_empty_conv)
    then have "vlists (view ?p) (gID g) = []" using synced_parts(5) [OF sy, of "gID g"] by simp
    then have "(vlists (view ?p))(gID g := []) = vlists (view ?p)" by (rule fun_upd_idem)
    then show ?thesis using that [of ?p1] True kp by (simp add: RemoveKeysFromStore_def)
  next
    case False
    show ?thesis using that remove_from_store [OF kp False, of "gID g"] by auto
  qed
  have same: "filter (\<lambda>k. int (GroupID k) = gid) = filter (\<lambda>k. GroupID k = gID g)"
      "filter (\<lambda>k. int (GroupID k) \<noteq> gid) = filter (\<lambda>k. GroupID k \<noteq> gID g)"
      "filter (\<lambda>h. int (gID h) \<noteq> gid) = filter (\<lambda>h. gID h \<noteq> gID g)" "nat gid = gID g"
    using gid by auto
  have call: "(if map ID (filter (\<lambda>k. GroupID k = gID g) (kdb ?p)) = [] then (?p1, None)
      else RemoveKeysFromStore (gID g) (map ID (filter (\<lambda>k. GroupID k = gID g) (kdb ?p))) ?p1) = (z, None)"
    using z(1) by (auto simp: pluckIDs_def RemoveKeysFromStore_def)
  have d: "delete_group (gID g) ?p = z" using z(1) by (simp add: delete_group_def)
  have r: "DeleteGroup fails path s =
      (if fails CommitTx then (s\<lparr>svKeys := z\<lparr>kdb := kdb ?p\<rparr>\<rparr>, Inl ErrDatabase)
       else (invalidate fails (s\<lparr>svKeys := z, svGroups := filter (\<lambda>h. gID h \<noteq> gID g) (svGroups s)\<rparr>), Inr ()))"
    using call by (simp only: DeleteGroup_def Let_def same g option.case sum.case prod.case if_False)
  have k: "keys_deleted (gID g) ?p z" "keys_deleted (gID g) ?p (z\<lparr>kdb := kdb ?p\<rparr>)"
    using z(2,3) by (simp_all add: keys_deleted_def)
  have p: "path_id path = Some (int (gID g))" using g(1) gid by simp
  show ?thesis
  proof (cases "fails CommitTx")
    case True
    then have "s' = s\<lparr>svKeys := z\<lparr>kdb := kdb ?p\<rparr>\<rparr>" "r = Inl ErrDatabase" using r assms(1) by simp_all
    then show ?thesis using True k(2) p gid by (intro disjI2 exI [of _ g] exI [of _ "z\<lparr>kdb := kdb ?p\<rparr>"]) simp
  next
    case False
    then show ?thesis using r assms(1) k(1) p gid d z(4)
      by (intro disjI2 exI [of _ g] exI [of _ z]) simp
  qed
qed simp

text \<open>C31: Deleting a group removes its row and all its keys from the tables and leaves none of its keys
  selectable, without touching the active keys of any other group; the store still agrees with the table.
  A request that is answered with an error changes nothing, unless the commit is what failed: then
  the tables keep the group and its keys, but the store has lost them, and no key of the group is
  selected any more.\<close>

theorem delete_group_clears:
  assumes "ok (svKeys s)" "DeleteGroup fails path s = (s', r)" "s' \<noteq> s \<or> r = Inr ()"
  shows "\<exists>g \<in> set (svGroups s). path_id path = Some (int (gID g)) \<and>
    snd (SelectKey (gID g) (svKeys s')) = Inl KNoActiveKeys \<and>
    (\<forall>other. other \<noteq> gID g \<longrightarrow> vlists (view (svKeys s')) other = vlists (view (svKeys s)) other) \<and>
    (if fails CommitTx
     then r = Inl ErrDatabase \<and> svGroups s' = svGroups s \<and> kdb (svKeys s') = kdb (svKeys s)
     else r = Inr () \<and> svGroups s' = filter (\<lambda>h. gID h \<noteq> gID g) (svGroups s) \<and>
       kdb (svKeys s') = filter (\<lambda>k. GroupID k \<noteq> gID g) (kdb (svKeys s)) \<and> ok (svKeys s'))"
proof -
  obtain g q where g: "path_id path = Some (int (gID g))" "g \<in> set (svGroups s)"
      "keys_deleted (gID g) (svKeys s) q" "svKeys s' = q"
    and c: "if fails CommitTx then r = Inl ErrDatabase \<and> s' = s\<lparr>svKeys := q\<rparr> \<and> kdb q = kdb (svKeys s)
       else r = Inr () \<and> q = delete_group (gID g) (svKeys s) \<and>
         kdb q = filter (\<lambda>k. GroupID k \<noteq> gID g) (kdb (svKeys s)) \<and>
         s' = invalidate fails (s\<lparr>svKeys := q, svGroups := filter (\<lambda>h. gID h \<noteq> gID g) (svGroups s)\<rparr>)"
    using DeleteGroup_cases [OF assms(2,1)] assms(3) by (auto split: if_splits)
  have "vlists (view q) (gID g) = []" "kp_ok q" using g(3) by (simp_all add: keys_deleted_def)
  then have "snd (SelectKey (gID g) q) = Inl KNoActiveKeys" by (intro select_empty_queue)
  moreover have "vlists (view q) other = vlists (view (svKeys s)) other" if "other \<noteq> gID g" for other
    using g(3) that by (simp add: keys_deleted_def)
  ultimately show ?thesis
    using g c delete_group_ok [OF assms(1), of "gID g"] by (intro bexI [of _ g]) (auto split: if_splits)
qed

section \<open>Copying a group\<close>

lemma CopyGroup_cases:
  assumes "CopyGroup c tc fails now appURL path req s = (s', r)"
  shows "(\<exists>e. r = Inl e \<and> s' = s) \<or>
    (\<exists>copy0 gid src s1 row q task. req = Some copy0 \<and> path_id path = Some gid \<and>
      group_by_id fails (gid mod 18446744073709551616) s = Inr src \<and>
      insert_group fails now (src\<lparr>gName := generateUniqueGroupName fails (gName src) s,
         gDisplayName := (if gDisplayName src \<noteq> [] then gDisplayName src @ '' Copy'' else []),
         LastValidatedAt := None\<rparr>) s = (s1, Inr row) \<and>
      start_copy tc now (gName row)
        (copied_values (if copy0 = [] then ''all'' else copy0) (gID src) (kdb (svKeys s))) (svKeys s) = (q, task) \<and>
      s' = invalidate fails s1\<lparr>svKeys := q\<rparr> \<and> r = Inr (newGroupResponse c appURL row, task))"
proof (cases "path_id path")
  case None
  then show ?thesis using assms by (auto simp: CopyGroup_def)
next
  case (Some gid)
  show ?thesis
  proof (cases req)
    case None
    then show ?thesis using assms Some by (auto simp: CopyGroup_def)
  next
    case copy: (Some copy0)
    show ?thesis
    proof (cases "group_by_id fails (gid mod 18446744073709551616) s")
      case (Inl e)
      then show ?thesis using assms Some copy by (auto simp: CopyGroup_def Let_def split: if_splits)
    next
      case src: (Inr src)
      let ?g = "src\<lparr>gName := generateUniqueGroupName fails (gName src) s,
         gDisplayName := (if gDisplayName src \<noteq> [] then gDisplayName src @ '' Copy'' else []),
         LastValidatedAt := None\<rparr>"
      let ?vs = "copied_values (if copy0 = [] then ''all'' else copy0) (gID src) (kdb (svKeys s))"
      obtain s1 x where x: "insert_group fails now ?g s = (s1, x)" by fastforce
      have keys: "svKeys s1 = svKeys s" using x by (auto simp: insert_group_def Let_def split: if_splits)
      show ?thesis
      proof (cases x)
        case (Inl e)
        then show ?thesis using assms Some copy src x by (auto simp: CopyGroup_def Let_def split: if_splits)
      next
        case row: (Inr row)
        obtain q task where t: "start_copy tc now (gName row) ?vs (svKeys s) = (q, task)" by fastforce
        have "CopyGroup c tc fails now appURL path req s =
          (if copy0 \<notin> {[], ''none'', ''valid_only'', ''all''} then (s, Inl (ErrValidation InvalidCopyKeys))
           else if fails BeginTx then (s, Inl ErrDatabase)
           else if (if copy0 = [] then ''all'' else copy0) \<noteq> ''none'' \<and> fails FindKeys then (s, Inl ErrDatabase)
           else if fails CommitTx then (s, Inl ErrDatabase)
           else (invalidate fails s1\<lparr>svKeys := q\<rparr>, Inr (newGroupResponse c appURL row, task)))"
          by (simp only: CopyGroup_def Let_def Some copy src x row option.case sum.case prod.case
              invalidate_sel keys t)
        then show ?thesis using assms Some copy src x row t by (auto simp: Let_def split: if_splits)
      qed
    qed
  qed
qed

lemma CopyGroup_ok:
  assumes "table_ok c s" "CopyGroup c tc fails now appURL path req s = (s', r)"
  shows "table_ok c s'"
proof (cases "\<exists>e. r = Inl e \<and> s' = s")
  case True
  then show ?thesis using assms(1) by blast
next
  case False
  then obtain gid src s1 row g where u: "group_by_id fails gid s = Inr src"
      "insert_group fails now g s = (s1, Inr row)" "svGroups s' = svGroups s1" "svNextGroup s' = svNextGroup s1"
      "g = src\<lparr>gName := gName g, gDisplayName := gDisplayName g, LastValidatedAt := None\<rparr>"
    using CopyGroup_cases [OF assms(2)] by auto
  have "row_ok c src" using group_by_id_row [OF u(1)] assms(1) by (simp add: table_ok_def)
  then have "row_ok c g" by (subst u(5)) (simp add: row_ok_def)
  then have "table_ok c s1" using insert_group_ok [OF assms(1) _ u(2)] by blast
  then show ?thesis using u(3,4) table_okI by metis
qed

section \<open>The reachable tables\<close>

text \<open>Any requests in any order, whatever statement fails; in between, anything may happen to the keys.\<close>

inductive gh_step :: "codec \<Rightarrow> server \<Rightarrow> server \<Rightarrow> bool" for c where
  create: "CreateGroup c fails now appURL req1 s = (s', r1) \<Longrightarrow> gh_step c s s'"
| update: "UpdateGroup c fails now appURL path req2 s = (s', r1) \<Longrightarrow> gh_step c s s'"
| delete: "DeleteGroup fails path s = (s', r2) \<Longrightarrow> gh_step c s s'"
| copy: "CopyGroup c tc fails now appURL path req3 s = (s', r3) \<Longrightarrow> gh_step c s s'"
| keys: "gh_step c s (s\<lparr>svKeys := p\<rparr>)"

inductive_cases gh_stepE: "gh_step c s s'"

inductive gh_reach :: "codec \<Rightarrow> server \<Rightarrow> bool" for c where
  start: "gh_reach c \<lparr>svKeys = p, svGroups = [], svNextGroup = n, svReloads = m\<rparr>"
| step: "gh_reach c s \<Longrightarrow> gh_step c s s' \<Longrightarrow> gh_reach c s'"

lemma DeleteGroup_groups:
  assumes "DeleteGroup fails path s = (s', r)"
  shows "svNextGroup s' = svNextGroup s \<and>
    (svGroups s' = svGroups s \<or> (\<exists>P. svGroups s' = filter P (svGroups s)))"
  using assms by (auto simp: DeleteGroup_def Let_def split: option.splits if_splits sum.splits prod.splits)

lemma gh_step_ok:
  assumes "codes_back c" "gh_step c s s'" "table_ok c s"
  shows "table_ok c s'"
  using assms(2)
proof (cases rule: gh_step.cases)
  case (delete fails path r2)
  from DeleteGroup_groups [OF this] assms(3) show ?thesis
    by (auto simp: table_ok_def distinct_map_filter)
next
  case (create fails now appURL req1 r1)
  with CreateGroup_ok [OF assms(1,3)] show ?thesis by blast
next
  case (update fails now appURL path req2 r1)
  with UpdateGroup_ok [OF assms(1,3)] show ?thesis by blast
next
  case (copy tc fails now appURL path req3 r3)
  with CopyGroup_ok [OF assms(3)] show ?thesis by blast
next
  case (keys p)
  then show ?thesis using table_okI [of s' s c] assms(3) by simp
qed

lemma upstream_infos_ok:
  "\<forall>(u, w) \<in> set ds. 0 < w \<Longrightarrow>
   case find (\<lambda>(u, w). parse u = None) ds of
     None \<Rightarrow> \<exists>ups. upstream_infos parse ds = Inr ups \<and> map Weight ups = map snd ds
   | Some (u, w) \<Rightarrow> upstream_infos parse ds = Inl (BadURL u)"
  by (induction parse ds rule: upstream_infos.induct) (auto split: option.splits)

text \<open>C30: Whatever requests the handlers answered since the table was empty, the names and the ids of the
  groups are distinct, and every row has decoded upstreams with a web address prefix and
  positive weights, and cleaned overrides. A factory that holds no channel of the group yet builds
  one with exactly these weights if every address parses as a URL. The handlers check the prefix
  of an address only, so a row may hold one that does not parse: then the factory answers with
  an error that names the first such address, and the group cannot be served.\<close>

theorem group_rows_serve:
  assumes "codes_back c" "gh_reach c s" "g \<in> set (svGroups s)"
  shows "distinct (map gName (svGroups s)) \<and> distinct (map gID (svGroups s)) \<and> cleaned c (gConfig g) \<and>
    (\<exists>ds. up_decode c (gUpstreams g) = Some ds \<and> upstreams_ok ds \<and>
      (case find (\<lambda>(u, w). parse u = None) ds of
         None \<Rightarrow> \<exists>ch. snd (GetChannel (up_decode c) parse (Group.truncate g) Map.empty) = Inr ch \<and>
           map Weight (Upstreams ch) = map snd ds \<and> TestModel ch \<noteq> []
       | Some (u, w) \<Rightarrow>
           GetChannel (up_decode c) parse (Group.truncate g) Map.empty = (Map.empty, Inl (BadURL u))))"
proof -
  have t: "table_ok c s"
    using assms(2) by (induction rule: gh_reach.induct) (use assms(1) gh_step_ok in \<open>auto simp: table_ok_def\<close>)
  then have row: "row_ok c g" using assms(3) by (simp add: table_ok_def)
  then obtain ds where ds: "up_decode c (gUpstreams g) = Some ds" "upstreams_ok ds"
    by (auto simp: row_ok_def decodes_ok_def)
  have "\<forall>(u, w) \<in> set ds. 0 < w" using ds(2) by (auto simp: upstreams_ok_def)
  from upstream_infos_ok [OF this, of parse] have
    "case find (\<lambda>(u, w). parse u = None) ds of
         None \<Rightarrow> \<exists>ch. snd (GetChannel (up_decode c) parse (Group.truncate g) Map.empty) = Inr ch \<and>
           map Weight (Upstreams ch) = map snd ds \<and> TestModel ch \<noteq> []
       | Some (u, w) \<Rightarrow>
           GetChannel (up_decode c) parse (Group.truncate g) Map.empty = (Map.empty, Inl (BadURL u))"
    using ds row
    by (auto simp: GetChannel_def newBaseChannel_def row_ok_def upstreams_ok_def Group.truncate_def
        split: option.splits)
  then show ?thesis using t row ds by (auto simp: table_ok_def row_ok_def)
qed

section \<open>The keys of a copy\<close>

lemma dropWhile_twice: "dropWhile P (dropWhile P xs) = dropWhile P xs"
  by (induction xs) auto

lemma TrimSpace_twice: "TrimSpace (TrimSpace s) = TrimSpace s"
proof -
  define ws where "ws = (\<lambda>c. is_space c \<or> (of_char c :: nat) = 11)"
  define a where "a = dropWhile ws s"
  define b where "b = rev (dropWhile ws (rev a))"
  have t: "TrimSpace x = rev (dropWhile ws (rev (dropWhile ws x)))" for x by (simp add: TrimSpace_def ws_def Let_def)
  obtain z where z: "a = b @ z" unfolding b_def
    by (metis rev_append rev_rev_ident takeWhile_dropWhile_id)
  have "dropWhile ws b = b"
  proof (cases b)
    case (Cons x xs)
    then have "a = x # xs @ z" using z by simp
    then have "\<not> ws x" using hd_dropWhile [of ws s] unfolding a_def by (metis list.distinct(1) list.sel(1))
    then show ?thesis using Cons by simp
  qed simp
  moreover have "rev (dropWhile ws (rev b)) = b"
    by (simp add: b_def dropWhile_twice)
  ultimately show ?thesis by (simp add: t flip: a_def b_def)
qed

lemma separators_shift: "concat (map (\<lambda>w. c # w) (ks @ [k])) = c # concat (map (\<lambda>w. w @ [c]) ks) @ k"
  by (induction ks) auto

lemma join_lines_snoc: "join_lines (ks @ [k]) = key_lines ks @ k"
proof (cases ks)
  case (Cons x xs)
  then show ?thesis using separators_shift [of "CHR 0x0A" xs k] by (simp add: join_lines_def key_lines_def)
qed (simp add: join_lines_def key_lines_def)

lemma parse_joined:
  assumes "\<forall>v \<in> set vs. isValidKeyFormat v" "snd (json (join_lines vs)) = []"
  shows "ParseKeysFromText json (join_lines vs) = vs"
proof -
  have "filter (\<lambda>k. k \<noteq> []) (map TrimSpace (split_runs (TrimSpace (join_lines vs)))) = vs"
  proof (cases vs rule: rev_cases)
    case Nil
    then show ?thesis by (simp add: join_lines_def TrimSpace_def)
  next
    case (snoc ks k)
    have t: "TrimSpace (key_lines ks @ k) = key_lines ks @ k"
      using TrimSpace_key_lines [of ks k] TrimSpace_twice [of "key_lines (ks @ [k])"] assms(1) snoc by simp
    then have "split_runs (TrimSpace (join_lines vs)) = vs"
      using split_key_lines [of ks k] assms(1) snoc by (simp add: join_lines_snoc)
    then show ?thesis by (simp add: trimmed_valid [OF assms(1)])
  qed
  then show ?thesis
    using assms by (auto simp: ParseKeysFromText_def filterValidKeys_valid split: prod.splits)
qed

lemma start_copy_task:
  assumes "start_copy tc now name vs p = (q, Some (st, keys))" "ok p"
  shows "ok q \<and> kdb q = kdb p \<and> next_id q = next_id p \<and>
    keys = ParseKeysFromText (json_strings tc) (join_lines vs)"
proof -
  let ?keys = "ParseKeysFromText (json_strings tc) (join_lines vs)"
  let ?start = "StartTask (task_enc tc) (task_dec tc) now ''KEY_IMPORT'' name (int (length ?keys)) importTimeout"
  have q: "q = on_task ?start p" "keys = ?keys"
    using assms(1) by (auto simp: start_copy_def StartImportTask_def on_task_def Let_def
        split: if_splits prod.splits sum.splits)
  have "kp_ok p" using assms(2) by (simp add: ok_def)
  note k = on_task_keeps [OF StartTask_local this, folded q(1)]
  then show ?thesis using assms(2) q k by (simp add: ok_def on_task_def)
qed

text \<open>What an import of new, well-formed values into an empty group does.\<close>

lemma import_into_new_group:
  assumes "ok q" "unique_values (kdb q)" "\<forall>v \<in> set vs. isValidKeyFormat v" "distinct vs"
    and "\<forall>k \<in> set (kdb q). GroupID k \<noteq> gid" "next_id q + length vs \<le> 18446744073709551616"
    and "runImport enc dec err_text result_text clk tend None (\<lambda>_. tx_ok) gid vs q = p'"
  shows "kdb p' = kdb q @ number_from (next_id q) (map (new_key gid) vs) \<and> ok p'"
proof -
  obtain p1 a b e where r: "processAndCreateKeys None (\<lambda>_. tx_ok) (progressCallback enc dec clk)
      gid vs q = (p1, a, b, e)" by (metis prod.exhaust)
  have ct: "commits (\<lambda>_. tx_ok)" by (simp add: commits_def tx_ok_def)
  have imp: "importable gid (kdb q) vs = vs" by (rule importable_fresh [OF assms(3-5)])
  from import_adds [OF assms(1,2) ct progress_harmless assms(6) r] imp
  have i: "ok p1" "kdb p1 = kdb q @ number_from (next_id q) (map (new_key gid) vs)" "e = None"
    by (auto simp: Let_def)
  obtain out where p': "p' = on_task (EndTask enc dec tend out) p1"
    using assms(7) r i(3) by (auto simp: runImport_def)
  have "kp_ok p1" using i(1) by (simp add: ok_def)
  note k = on_task_keeps [OF EndTask_local this, of enc dec tend out, folded p']
  show ?thesis using k i(1,2) by (auto simp: ok_def p' on_task_def)
qed

lemma number_from_new:
  "map KeyValue (number_from n (map (new_key gid) vs)) = vs"
  "x \<in> set (number_from n (map (new_key gid) vs)) \<Longrightarrow> GroupID x = gid \<and> Status x = KeyStatusActive"
  by (induction vs arbitrary: n) (auto simp: new_key_def)

lemma copied_values_new:
  assumes "unique_values rows" "\<forall>k \<in> set rows. isValidKeyFormat (KeyValue k)"
  shows "\<forall>v \<in> set (copied_values mode gid rows). isValidKeyFormat v" "distinct (copied_values mode gid rows)"
    "length (copied_values mode gid rows) \<le> length rows"
  using assms by (auto simp: copied_values_def unique_values_def distinct_map inj_on_def)

text \<open>C32: A copy of a group under one of the modes all and valid_only is a new row with the columns of
  its source, except a name no group had, and the import it starts, once it has run, gives it
  exactly the keys of the source in their order (the active ones only, under valid_only), all of them active; no
  other key changes and the store stays in agreement with the table.\<close>

theorem copy_group_copies_keys:
  assumes "CopyGroup c tc fails now appURL path (Some mode) s = (s', Inr (resp, Some (st, keys)))"
    and "ok (svKeys s)" "unique_values (kdb (svKeys s))"
    and "\<forall>k \<in> set (kdb (svKeys s)). isValidKeyFormat (KeyValue k) \<and> GroupID k < svNextGroup s"
    and "snd (json_strings tc (join_lines (copied_values (if mode = [] then ''all'' else mode) gid (kdb (svKeys s))))) = []"
    and "path_id path = Some (int gid)" "gid < 18446744073709551616"
    and "runImport (task_enc tc) (task_dec tc) err_text result_text clk tend None (\<lambda>_. tx_ok) (gID (grRow resp))
      keys (svKeys s') = p'"
    and "next_id (svKeys s) + length (kdb (svKeys s)) \<le> 18446744073709551616"
  shows "let new = grRow resp in
    gName new \<notin> gName ` set (svGroups s) \<and> new \<in> set (svGroups s') \<and>
    (\<exists>src \<in> set (svGroups s). gID src = gid \<and> gUpstreams new = gUpstreams src \<and>
      gConfig new = gConfig src \<and> gHeaderRules new = gHeaderRules src) \<and>
    map KeyValue (filter (\<lambda>k. GroupID k = gID new) (kdb p')) =
      copied_values (if mode = [] then ''all'' else mode) gid (kdb (svKeys s)) \<and>
    (\<forall>k \<in> set (kdb p'). GroupID k = gID new \<longrightarrow> Status k = KeyStatusActive) \<and>
    filter (\<lambda>k. GroupID k \<noteq> gID new) (kdb p') = kdb (svKeys s) \<and> ok p'"
proof -
  let ?vs = "copied_values (if mode = [] then ''all'' else mode) gid (kdb (svKeys s))"
  have m: "int gid mod 18446744073709551616 = int gid" using assms(7) by simp
  obtain src s1 row q where c: "group_by_id fails (int gid) s = Inr src"
      "insert_group fails now (src\<lparr>gName := generateUniqueGroupName fails (gName src) s,
         gDisplayName := (if gDisplayName src \<noteq> [] then gDisplayName src @ '' Copy'' else []),
         LastValidatedAt := None\<rparr>) s = (s1, Inr row)" "s' = invalidate fails s1\<lparr>svKeys := q\<rparr>"
      "resp = newGroupResponse c appURL row"
      "start_copy tc now (gName row) (copied_values (if mode = [] then ''all'' else mode) (gID src)
         (kdb (svKeys s))) (svKeys s) = (q, Some (st, keys))"
    using CopyGroup_cases [OF assms(1)] assms(6) m by auto
  have src: "src \<in> set (svGroups s)" "gID src = gid" using group_by_id_row [OF c(1)] by auto
  define g where "g = src\<lparr>gName := generateUniqueGroupName fails (gName src) s,
         gDisplayName := (if gDisplayName src \<noteq> [] then gDisplayName src @ '' Copy'' else []),
         LastValidatedAt := None\<rparr>"
  note u = c(1) c(2) [folded g_def] c(3) c(5) [unfolded src(2)]
  have resp: "grRow resp = row" by (simp add: c(4) newGroupResponse_def)
  have row: "row = g\<lparr>gID := svNextGroup s, gCreatedAt := now, gUpdatedAt := now\<rparr>"
      "gName g \<notin> gName ` set (svGroups s)" "svGroups s1 = svGroups s @ [row]"
    using u(2) by (auto simp: insert_group_def Let_def split: if_splits)
  have q: "ok q" "kdb q = kdb (svKeys s)" "next_id q = next_id (svKeys s)"
      "keys = ParseKeysFromText (json_strings tc) (join_lines ?vs)"
    using start_copy_task [OF u(4) assms(2)] by auto
  have "\<forall>k \<in> set (kdb (svKeys s)). isValidKeyFormat (KeyValue k)" using assms(4) by blast
  note v = copied_values_new [OF assms(3) this, of "if mode = [] then ''all'' else mode" gid]
  have keys: "keys = ?vs" using parse_joined [of ?vs "json_strings tc", OF v(1) assms(5)] q(4) by simp
  have rid: "gID row = svNextGroup s" by (simp add: row(1))
  then have fresh: "\<forall>k \<in> set (kdb q). GroupID k \<noteq> gID row" using assms(4) q(2) by auto
  have i: "kdb p' = kdb q @ number_from (next_id q) (map (new_key (gID row)) ?vs)" "ok p'"
    using import_into_new_group [OF q(1) _ v(1,2) fresh] assms(3,8,9) v(3) q(2,3) keys resp u(3) by auto
  have new: "filter (\<lambda>k. GroupID k = gID row) (kdb p') = number_from (next_id q) (map (new_key (gID row)) ?vs)"
      "filter (\<lambda>k. GroupID k \<noteq> gID row) (kdb p') = kdb q"
    using fresh number_from_new(2) by (auto simp: i(1) filter_empty_conv filter_id_conv)
  have "\<exists>src \<in> set (svGroups s). gID src = gid \<and> gUpstreams row = gUpstreams src \<and>
      gConfig row = gConfig src \<and> gHeaderRules row = gHeaderRules src"
    using src row(1) by (intro bexI [of _ src]) (simp_all add: g_def)
  moreover have "gName row \<notin> gName ` set (svGroups s)" "row \<in> set (svGroups s')"
    using row u(3) by simp_all
  moreover have "\<forall>k \<in> set (kdb p'). GroupID k = gID row \<longrightarrow> Status k = KeyStatusActive"
  proof (intro ballI impI)
    fix k assume "k \<in> set (kdb p')" "GroupID k = gID row"
    then have "k \<in> set (filter (\<lambda>k. GroupID k = gID row) (kdb p'))" by simp
    then show "Status k = KeyStatusActive" using number_from_new(2) unfolding new(1) by blast
  qed
  ultimately show ?thesis using new number_from_new(1) i(2) q(2) by (simp add: Let_def resp)
qed

section \<open>A server with one group\<close>

definition demo_codec :: codec where
  "demo_codec = \<lparr>up_decode = (\<lambda>_. Some [(''http://a'', 2)]),
     up_encode = (\<lambda>ds. if ds = [(''http://a'', 2)] then Some ''u'' else None),
     hr_decode = (\<lambda>_. Some []), hr_encode = (\<lambda>_. None), canonical = id, config_order = id,
     parse_url = (\<lambda>_. None), print_url = (\<lambda>_. [])\<rparr>"

definition demo_create :: GroupCreateRequest where
  "demo_create = \<lparr>crName = '' one'', crDisplayName = [], crDescription = [], crUpstreams = Some ''u'',
     crChannelType = ''openai'', crSort = 0, crTestModel = ''m'', crValidationEndpoint = [],
     crParamOverrides = None, crConfig = None, crHeaderRules = [], crProxyKeys = []\<rparr>"

definition demo_empty :: server where
  "demo_empty = \<lparr>svKeys = demo_loaded, svGroups = [], svNextGroup = 1, svReloads = 0\<rparr>"

definition demo_db_row :: DbGroup where
  "demo_db_row = \<lparr>gID = 1, gName = ''one'', gChannelType = ''openai'', gUpstreams = ''u'', gTestModel = ''m'',
     gValidationEndpoint = [], EffectiveConfig = zero_settings, gProxyKeys = [], gConfig = None,
     gHeaderRules = ''[]'', LastValidatedAt = None, gProxyKeysMap = {}, HeaderRuleList = [],
     gDisplayName = [], gDescription = [], gSort = 0, gParamOverrides = None, gCreatedAt = 5, gUpdatedAt = 5\<rparr>"

definition demo_server :: server where
  "demo_server = \<lparr>svKeys = demo_loaded, svGroups = [demo_db_row], svNextGroup = 2, svReloads = 1\<rparr>"

lemma demo_codec_back: "codes_back demo_codec"
  by (auto simp: codes_back_def demo_codec_def)

lemma demo_trimmed: "TrimSpace '' one'' = ''one''" "TrimSpace [] = []" "TrimSpace ''openai'' = ''openai''"
  "TrimSpace ''m'' = ''m''" "TrimSpace ''http://a'' = ''http://a''"
  by (simp_all add: TrimSpace_def is_space_def)

lemma demo_checks: "isValidGroupName ''one''" "isValidChannelType ''openai''" "path_id ''1'' = Some 1"
proof -
  show "isValidGroupName ''one''" by (simp add: isValidGroupName_def name_char_def)
  show "isValidChannelType ''openai''" by (simp add: isValidChannelType_def channelRegistry_def)
  have "show_nat 1 = ''1''" by code_simp
  then have "''1'' = show_int 1" by (simp add: show_int_def)
  then show "path_id ''1'' = Some 1" by (simp add: path_id_def)
qed

lemma demo_created: "\<exists>r. CreateGroup demo_codec (\<lambda>_. False) 5 [] (Some demo_create) demo_empty = (demo_server, r)"
proof -
  have u: "validateAndCleanUpstreams demo_codec (Some ''u'') = Inr ''u''"
    using demo_trimmed(5) by (simp add: validateAndCleanUpstreams_def demo_codec_def Let_def)
  show ?thesis
    by (simp add: CreateGroup_def new_group_def demo_create_def demo_trimmed demo_checks u validateAndCleanConfig_def
        isValidValidationEndpoint_def header_rules_json_def insert_group_def invalidate_def
        demo_empty_def demo_server_def demo_db_row_def Let_def)
qed

theorem group_rows_serve_witness:
  "(\<exists>ch. snd (GetChannel (up_decode demo_codec) demo_parse (Group.truncate demo_db_row) Map.empty) = Inr ch \<and>
     map Weight (Upstreams ch) = [2]) \<and>
   (\<exists>e. snd (GetChannel (up_decode demo_codec) (\<lambda>_. None) (Group.truncate demo_db_row) Map.empty) = Inl e)"
proof -
  have "gh_reach demo_codec demo_empty" unfolding demo_empty_def by (rule gh_reach.start)
  then have r: "gh_reach demo_codec demo_server" using demo_created gh_reach.step gh_step.create by blast
  have "demo_db_row \<in> set (svGroups demo_server)" by (simp add: demo_server_def)
  note g = group_rows_serve [OF demo_codec_back r this]
  show ?thesis using g [of demo_parse] g [of "\<lambda>_. None"]
    by (auto simp: demo_codec_def demo_parse_def split: if_splits)
qed

theorem delete_group_clears_witness:
  "\<exists>s'. DeleteGroup (\<lambda>_. False) ''1'' demo_server = (s', Inr ()) \<and>
     snd (SelectKey 1 (svKeys s')) = Inl KNoActiveKeys \<and> svGroups s' = [] \<and> kdb (svKeys s') = []"
proof -
  obtain s' r where d: "DeleteGroup (\<lambda>_. False) ''1'' demo_server = (s', r)" by fastforce
  have ok: "ok (svKeys demo_server)" by (simp add: demo_server_def demo_loaded_ok)
  have "kp_ok (demo_loaded\<lparr>kdb := []\<rparr>)" using demo_loaded_ok(1) by (simp add: ok_def)
  from remove_from_store [OF this, of "[1, 2]" 1] obtain z where
    z: "RemoveKeysFromStore 1 [1, 2] (demo_loaded\<lparr>kdb := []\<rparr>) = (z, None)" by auto
  have e: "r = Inr ()"
    using d z by (auto simp: DeleteGroup_def demo_checks group_by_id_def demo_server_def demo_db_row_def Let_def
        demo_loaded_ok(2) demo_def demo_key_def)
  from delete_group_clears [OF ok d] e show ?thesis
    using d by (auto simp: demo_server_def demo_db_row_def demo_loaded_ok(2) demo_def demo_key_def)
qed

definition demo_tasks :: task_codec where
  "demo_tasks = \<lparr>task_enc = demo_write, task_dec = demo_read, json_strings = (\<lambda>_. (False, []))\<rparr>"

lemma demo_values: "copied_values ''all'' 1 (kdb demo_loaded) = [''sk-1'', ''sk-2'']"
  "isValidKeyFormat ''sk-1''" "isValidKeyFormat ''sk-2''"
proof -
  have "show_nat (Suc 0) = ''1''" "show_nat 2 = ''2''" by code_simp+
  then show "copied_values ''all'' 1 (kdb demo_loaded) = [''sk-1'', ''sk-2'']"
    by (simp add: copied_values_def demo_loaded_ok(2) demo_def demo_key_def)
qed code_simp+

lemma demo_copied: "\<exists>s' resp st. CopyGroup demo_codec demo_tasks (\<lambda>_. False) 7 [] ''1'' (Some ''all'') demo_server =
    (s', Inr (resp, Some (st, [''sk-1'', ''sk-2'']))) \<and> gID (grRow resp) = 2"
proof -
  have nt: "kstore demo_loaded globalTaskKey = None" by code_simp
  have k: "ParseKeysFromText (\<lambda>_. (False, [])) (join_lines [''sk-1'', ''sk-2'']) = [''sk-1'', ''sk-2'']"
    using parse_joined [of "[''sk-1'', ''sk-2'']" "\<lambda>_. (False, [])"] demo_values by simp
  have "\<exists>q st. start_copy demo_tasks 7 name [''sk-1'', ''sk-2''] demo_loaded =
      (q, Some (st, [''sk-1'', ''sk-2'']))" for name
    using k by (simp add: start_copy_def StartImportTask_def demo_tasks_def StartTask_def
        get_none [where s = "kstore demo_loaded", OF nt] store_status_def demo_write_def mem_Set_def
        new_status_def no_task_def Let_def)
  then obtain q st where "start_copy demo_tasks 7 ''one_copy'' [''sk-1'', ''sk-2''] demo_loaded =
      (q, Some (st, [''sk-1'', ''sk-2'']))" by blast
  then show ?thesis
    using demo_values(1)
    by (simp add: CopyGroup_def demo_checks group_by_id_def generateUniqueGroupName_def insert_group_def
        invalidate_def newGroupResponse_def demo_codec_def demo_server_def demo_db_row_def Let_def)
qed

theorem copy_group_copies_keys_witness:
  "\<exists>s' resp st. CopyGroup demo_codec demo_tasks (\<lambda>_. False) 7 [] ''1'' (Some ''all'') demo_server =
      (s', Inr (resp, Some (st, [''sk-1'', ''sk-2'']))) \<and>
    map KeyValue (filter (\<lambda>k. GroupID k = 2) (kdb (runImport demo_write demo_read (\<lambda>_. []) (\<lambda>a i. show_nat a)
      (\<lambda>_. 8) 9 None (\<lambda>_. tx_ok) 2 [''sk-1'', ''sk-2''] (svKeys s')))) = [''sk-1'', ''sk-2'']"
proof -
  obtain s' resp st where c: "CopyGroup demo_codec demo_tasks (\<lambda>_. False) 7 [] ''1'' (Some ''all'') demo_server =
    (s', Inr (resp, Some (st, [''sk-1'', ''sk-2''])))" "gID (grRow resp) = 2" using demo_copied by blast
  have p: "path_id ''1'' = Some (int 1)" using demo_checks(3) by simp
  have sn: "show_nat (Suc 0) = ''1''" "show_nat 2 = ''2''" "next_id demo_loaded = 3" by code_simp+
  have d: "ok (svKeys demo_server)" "unique_values (kdb (svKeys demo_server))"
    "\<forall>k \<in> set (kdb (svKeys demo_server)). isValidKeyFormat (KeyValue k) \<and> GroupID k < svNextGroup demo_server"
    using demo_values(2,3) sn demo_loaded_ok(1)
    by (simp_all add: demo_server_def demo_loaded_ok(2) demo_def demo_key_def unique_values_def)
  have n: "next_id (svKeys demo_server) + length (kdb (svKeys demo_server)) \<le> 18446744073709551616"
    by (simp add: demo_server_def sn demo_loaded_ok(2) demo_def)
  have g: "(1 :: nat) < 18446744073709551616"
    "snd (json_strings demo_tasks (join_lines (copied_values (if ''all'' = [] then ''all'' else ''all'') 1
      (kdb (svKeys demo_server))))) = []" by (simp_all add: demo_tasks_def)
  note r = copy_group_copies_keys [OF c(1) d g(2) p g(1) refl n, where err_text = "\<lambda>_. []" and
      result_text = "\<lambda>a i. show_nat a" and clk = "\<lambda>_. 8" and tend = 9, unfolded Let_def c(2)]
  show ?thesis using r c(1) demo_values(1) by (auto simp: demo_tasks_def demo_server_def)
qed

end
