(* ===== verification/RecoveryTime.thy ===== *)
theory RecoveryTime
  imports PoolBase TaskService Settings Complex_Main
begin

text \<open>When a rate-limited key is to be recovered: src/internal/keypool/recovery_strategy.go and
  src/internal/keypool/dynamic_recovery_calculator.go. Times and durations are nanoseconds. A float64 is a real number;
  the rounding of its operations, the conversion to a duration and the square root are arguments, and
  the theorems hold for all of them.\<close>

section \<open>Records and priorities\<close>

datatype RateLimitSeverity = SeverityLow | SeverityMedium | SeverityHigh | SeverityCritical

record RateLimitRecord =
  rrKeyID :: nat
  rrGroupID :: nat
  OccurredAt :: int
  ResetAt :: int
  RetryAfter :: int
  RequestPath :: string
  ErrorCode :: string
  Severity :: RateLimitSeverity

datatype RecoveryPriority = PriorityLow | PriorityNormal | PriorityHigh | PriorityCritical

text \<open>The priorities are numbered in this order.\<close>

fun priority_number :: "RecoveryPriority \<Rightarrow> nat" where
  "priority_number PriorityLow = 0"
| "priority_number PriorityNormal = 1"
| "priority_number PriorityHigh = 2"
| "priority_number PriorityCritical = 3"

lemma priority_number_inj: "priority_number a = priority_number b \<longleftrightarrow> a = b"
  by (cases a; cases b) simp_all

instantiation RecoveryPriority :: linorder
begin

definition less_eq_RecoveryPriority :: "RecoveryPriority \<Rightarrow> RecoveryPriority \<Rightarrow> bool" where
  "a \<le> b \<longleftrightarrow> priority_number a \<le> priority_number b"

definition less_RecoveryPriority :: "RecoveryPriority \<Rightarrow> RecoveryPriority \<Rightarrow> bool" where
  "a < b \<longleftrightarrow> priority_number a < priority_number b"

instance
  by standard (auto simp: less_eq_RecoveryPriority_def less_RecoveryPriority_def priority_number_inj)

end

section \<open>The strategy\<close>

record RecoveryConfig =
  MinRecoveryInterval :: int
  MaxRecoveryInterval :: int
  DefaultRecoveryDelay :: int
  BackoffMultiplier :: real
  MaxBackoffAttempts :: int
  MaxRecoveryAttempts :: int
  HighPriorityThreshold :: int
  CriticalPriorityThreshold :: int
  EnableSafeMode :: bool
  SafeModeRecoveryDelay :: int

definition minutes :: "int \<Rightarrow> int" where "minutes n = n * 60000000000"

definition hours :: "int \<Rightarrow> int" where "hours n = n * 3600000000000"

definition DefaultRecoveryConfig :: RecoveryConfig where
  "DefaultRecoveryConfig =
    \<lparr>MinRecoveryInterval = minutes 5, MaxRecoveryInterval = hours 24, DefaultRecoveryDelay = minutes 15,
     BackoffMultiplier = 3/2, MaxBackoffAttempts = 5, MaxRecoveryAttempts = 10,
     HighPriorityThreshold = 5, CriticalPriorityThreshold = 10,
     EnableSafeMode = True, SafeModeRecoveryDelay = minutes 30\<rparr>"

text \<open>\<^verbatim>\<open>scale d x\<close> is time.Duration(float64(d) * x), \<^verbatim>\<open>power x n\<close> is math.Pow.\<close>

record float_ops =
  scale :: "int \<Rightarrow> real \<Rightarrow> int"
  float_power :: "real \<Rightarrow> int \<Rightarrow> real"

definition getRecentHistory :: "int \<Rightarrow> int \<Rightarrow> RateLimitRecord list \<Rightarrow> RateLimitRecord list" where
  "getRecentHistory now duration history =
    (let cutoff = now - duration in filter (\<lambda>r. OccurredAt r > cutoff) history)"

definition calculateFrequencyMultiplier :: "int \<Rightarrow> RateLimitRecord list \<Rightarrow> real" where
  "calculateFrequencyMultiplier now history =
    (if length history \<le> 1 then 1
     else
     let frequency = length (getRecentHistory now (hours 24) history) in
     if frequency \<le> 2 then 1
     else if frequency \<le> 5 then 3/2
     else if frequency \<le> 10 then 2
     else 3)"

definition calculateBackoffDelay :: "float_ops \<Rightarrow> RecoveryConfig \<Rightarrow> PoolKey \<Rightarrow> int" where
  "calculateBackoffDelay fo c key =
    (let failureCount = RateLimitCount key in
     if failureCount \<le> 1 then 0
     else
     let attempts = min failureCount (MaxBackoffAttempts c) in
     scale fo (DefaultRecoveryDelay c) (float_power fo (BackoffMultiplier c) (i64 (attempts - 1))))"

text \<open>The sum of the intervals between consecutive records.\<close>

fun total_interval :: "RateLimitRecord list \<Rightarrow> int" where
  "total_interval (a # b # rs) = i64 (time_sub (OccurredAt b) (OccurredAt a) + total_interval (b # rs))"
| "total_interval rs = 0"

definition calculateAverageInterval :: "RecoveryConfig \<Rightarrow> RateLimitRecord list \<Rightarrow> int" where
  "calculateAverageInterval c history =
    (if length history \<le> 1 then DefaultRecoveryDelay c
     else tdiv (total_interval history) (int (length history) - 1))"

definition calculateSeverity :: "RateLimitRecord list \<Rightarrow> RateLimitSeverity" where
  "calculateSeverity history =
    (let frequency = length history in
     if history = [] then SeverityLow
     else if frequency \<ge> 20 then SeverityCritical
     else if frequency \<ge> 10 then SeverityHigh
     else if frequency \<ge> 5 then SeverityMedium
     else SeverityLow)"

fun severity_multiplier :: "RateLimitSeverity \<Rightarrow> real" where
  "severity_multiplier SeverityLow = 1/2"
| "severity_multiplier SeverityMedium = 1"
| "severity_multiplier SeverityHigh = 2"
| "severity_multiplier SeverityCritical = 4"

definition calculateDynamicDelay :: "float_ops \<Rightarrow> RecoveryConfig \<Rightarrow> int \<Rightarrow> RateLimitRecord list \<Rightarrow> int" where
  "calculateDynamicDelay fo c now history =
    (if history = [] then 0
     else
     let recentHistory = getRecentHistory now (hours 24) history in
     if recentHistory = [] then 0
     else min (scale fo (calculateAverageInterval c recentHistory)
                 (severity_multiplier (calculateSeverity recentHistory)))
              (MaxRecoveryInterval c))"

definition default_delay :: "float_ops \<Rightarrow> RecoveryConfig \<Rightarrow> int \<Rightarrow> PoolKey \<Rightarrow> RateLimitRecord list \<Rightarrow> int" where
  "default_delay fo c now key history =
    (let baseDelay = (if history = [] then DefaultRecoveryDelay c
                      else scale fo (DefaultRecoveryDelay c) (calculateFrequencyMultiplier now history));
         totalDelay = i64 (baseDelay + calculateBackoffDelay fo c key);
         atLeast = (if totalDelay < MinRecoveryInterval c then MinRecoveryInterval c else totalDelay)
     in if atLeast > MaxRecoveryInterval c then MaxRecoveryInterval c else atLeast)"

text \<open>The clock is read at the start, and again when the recent history is selected.\<close>

definition CalculateRecoveryTime ::
  "float_ops \<Rightarrow> RecoveryConfig \<Rightarrow> int \<Rightarrow> int \<Rightarrow> PoolKey \<Rightarrow> RateLimitRecord list \<Rightarrow> int" where
  "CalculateRecoveryTime fo c now later key history =
    (case RateLimitResetAt key of
       Some t \<Rightarrow> if t > now then t + calculateDynamicDelay fo c later history
                 else now + default_delay fo c later key history
     | None \<Rightarrow> now + default_delay fo c later key history)"

definition ShouldAttemptRecovery :: "RecoveryConfig \<Rightarrow> PoolKey \<Rightarrow> int \<Rightarrow> bool" where
  "ShouldAttemptRecovery c key now =
    (if Status key \<noteq> KeyStatusRateLimited then False
     else if (case RateLimitResetAt key of None \<Rightarrow> False | Some t \<Rightarrow> now < t) then False
     else if RateLimitCount key \<ge> MaxRecoveryAttempts c then False
     else if EnableSafeMode c \<and>
       (case Last429At key of None \<Rightarrow> False | Some t \<Rightarrow> time_sub now t < SafeModeRecoveryDelay c) then False
     else True)"

definition GetRecoveryPriority :: "RecoveryConfig \<Rightarrow> PoolKey \<Rightarrow> RecoveryPriority" where
  "GetRecoveryPriority c key =
    (if RequestCount key \<ge> i64 (CriticalPriorityThreshold c * 1000) then PriorityCritical
     else if RequestCount key \<ge> i64 (HighPriorityThreshold c * 1000) then PriorityHigh
     else if RateLimitCount key \<le> 2 then PriorityHigh
     else if RateLimitCount key \<le> 5 then PriorityNormal
     else PriorityLow)"

datatype plan_err = NotRateLimited | GroupNotFound | AutoRecoveryDisabled

text \<open>A group is given by its column config.\<close>

definition ValidateRecoveryConditions ::
  "PoolKey \<Rightarrow> (string, jsonv) gomap option option \<Rightarrow> plan_err option" where
  "ValidateRecoveryConditions key grp =
    (if Status key \<noteq> KeyStatusRateLimited then Some NotRateLimited
     else (case grp of
       None \<Rightarrow> Some GroupNotFound
     | Some None \<Rightarrow> None
     | Some (Some config) \<Rightarrow>
         (case gget config ''enable_auto_recovery'' of
            Some (JBool enabled) \<Rightarrow> if \<not> enabled then Some AutoRecoveryDisabled else None
          | _ \<Rightarrow> None)))"

record RecoveryPlan =
  plKeyID :: nat
  plGroupID :: nat
  plPriority :: RecoveryPriority
  plScheduledAt :: int
  plEstimatedDelay :: int
  plStrategy :: string
  plConditions :: "string list"
  plRateLimitCount :: int
  plLast429At :: "int option"
  plHistoryCount :: nat
  plSeverity :: "RateLimitSeverity option"

text \<open>The clock is read three times.\<close>

definition CreateRecoveryPlan ::
  "float_ops \<Rightarrow> RecoveryConfig \<Rightarrow> int \<Rightarrow> int \<Rightarrow> int \<Rightarrow> PoolKey \<Rightarrow> (string, jsonv) gomap option option \<Rightarrow>
   RateLimitRecord list \<Rightarrow> plan_err + RecoveryPlan" where
  "CreateRecoveryPlan fo c t1 t2 t3 key grp history =
    (case ValidateRecoveryConditions key grp of
       Some e \<Rightarrow> Inl e
     | None \<Rightarrow>
         let recoveryTime = CalculateRecoveryTime fo c t1 t2 key history in
         Inr \<lparr>plKeyID = ID key, plGroupID = GroupID key, plPriority = GetRecoveryPriority c key,
              plScheduledAt = recoveryTime, plEstimatedDelay = time_sub recoveryTime t3,
              plStrategy = ''smart_recovery'', plConditions = [''rate_limit_reset_time_passed''],
              plRateLimitCount = RateLimitCount key, plLast429At = Last429At key,
              plHistoryCount = length history,
              plSeverity = (if history = [] then None else Some (calculateSeverity history))\<rparr>)"

section \<open>The calculator\<close>

record CalculatorConfig =
  BaseRecoveryTime :: int
  MinRecoveryTime :: int
  MaxRecoveryTime :: int
  HistoryWindowHours :: int
  MinHistoryCount :: int
  FrequencyWeight :: real
  PatternWeight :: real
  TrendWeight :: real
  PeakHourMultiplier :: real
  OffPeakMultiplier :: real
  WeekendMultiplier :: real
  SafetyMargin :: real
  ConservativeMode :: bool

definition DefaultCalculatorConfig :: CalculatorConfig where
  "DefaultCalculatorConfig =
    \<lparr>BaseRecoveryTime = minutes 15, MinRecoveryTime = minutes 5, MaxRecoveryTime = hours 4,
     HistoryWindowHours = 72, MinHistoryCount = 3, FrequencyWeight = 4/10, PatternWeight = 3/10,
     TrendWeight = 3/10, PeakHourMultiplier = 3/2, OffPeakMultiplier = 8/10, WeekendMultiplier = 9/10,
     SafetyMargin = 12/10, ConservativeMode = True\<rparr>"

text \<open>The further operations of floating point: rounding after an operation, the square root of a variance as a
  duration, the hour and the weekend of a time, the order of sort.Slice, which is not stable, and the quotient
  1 / (1 + d / a). A decimal literal stands for its nearest float64.\<close>

record calc_ops = float_ops +
  rounded :: "real \<Rightarrow> real"
  sqrt_duration :: "int \<Rightarrow> int"
  hour_of :: "int \<Rightarrow> int"
  isWeekend :: "int \<Rightarrow> bool"
  sort_records :: "RateLimitRecord iter"
  confidence_of :: "int \<Rightarrow> int \<Rightarrow> real"

definition isPeakHour :: "int \<Rightarrow> bool" where
  "isPeakHour hour \<longleftrightarrow> hour \<ge> 9 \<and> hour \<le> 11 \<or> hour \<ge> 14 \<and> hour \<le> 16 \<or> hour \<ge> 19 \<and> hour \<le> 21"

definition applyTimeModifiers :: "calc_ops \<Rightarrow> CalculatorConfig \<Rightarrow> int \<Rightarrow> int \<Rightarrow> int" where
  "applyTimeModifiers co c baseTime currentTime =
    (let m1 = (if isPeakHour (hour_of co currentTime) then rounded co (1 * PeakHourMultiplier c)
               else rounded co (1 * OffPeakMultiplier c));
         m2 = (if isWeekend co currentTime then rounded co (m1 * WeekendMultiplier c) else m1)
     in scale co baseTime m2)"

definition filterRelevantHistory ::
  "calc_ops \<Rightarrow> CalculatorConfig \<Rightarrow> RateLimitRecord list \<Rightarrow> int \<Rightarrow> RateLimitRecord list" where
  "filterRelevantHistory co c history currentTime =
    (let cutoff = currentTime + i64 (i64 (- HistoryWindowHours c) * hours 1) in
     sort_records co (filter (\<lambda>r. OccurredAt r > cutoff) history))"

definition countInWindow :: "RateLimitRecord list \<Rightarrow> int \<Rightarrow> int \<Rightarrow> nat" where
  "countInWindow history currentTime width =
    (let cutoff = currentTime - width in length (filter (\<lambda>r. OccurredAt r > cutoff) history))"

definition calculateFrequencyFactor :: "RateLimitRecord list \<Rightarrow> int \<Rightarrow> real" where
  "calculateFrequencyFactor history currentTime =
    (if history = [] then 1
     else
     let hour1 = countInWindow history currentTime (hours 1);
         hour6 = countInWindow history currentTime (hours 6);
         hour24 = countInWindow history currentTime (hours 24)
     in if hour1 \<ge> 3 then 3
        else if hour6 \<ge> 5 then 5/2
        else if hour24 \<ge> 10 then 2
        else if hour24 \<ge> 5 then 3/2
        else if hour24 \<le> 1 then 8/10
        else 1)"

fun intervals_of :: "RateLimitRecord list \<Rightarrow> int list" where
  "intervals_of (a # b # rs) = time_sub (OccurredAt b) (OccurredAt a) # intervals_of (b # rs)"
| "intervals_of rs = []"

definition average_of :: "int list \<Rightarrow> int" where
  "average_of intervals =
    (if intervals = [] then 0
     else tdiv (fold (\<lambda>d total. i64 (total + d)) intervals 0) (int (length intervals)))"

definition calculateVariance :: "int list \<Rightarrow> int \<Rightarrow> int" where
  "calculateVariance intervals avg =
    (if intervals = [] then 0
     else tdiv (fold (\<lambda>d s. let diff = i64 (d - avg) in i64 (s + i64 (diff * diff))) intervals 0)
            (int (length intervals)))"

definition calculatePatternFactor :: "calc_ops \<Rightarrow> RateLimitRecord list \<Rightarrow> real" where
  "calculatePatternFactor co history =
    (if length history < 3 then 1
     else
     let intervals = intervals_of history; avgInterval = average_of intervals;
         stdDev = sqrt_duration co (calculateVariance intervals avgInterval)
     in if stdDev < tdiv avgInterval 4 then 18/10
        else if stdDev < tdiv avgInterval 2 then 14/10
        else 1)"

text \<open>The sums of x, y, xy and xx over the points from index \<^verbatim>\<open>i\<close> on.\<close>

fun regression_sums :: "(real \<Rightarrow> real) \<Rightarrow> nat \<Rightarrow> real list \<Rightarrow> real \<times> real \<times> real \<times> real \<Rightarrow>
    real \<times> real \<times> real \<times> real" where
  "regression_sums rd i [] acc = acc"
| "regression_sums rd i (y # ys) (sumX, sumY, sumXY, sumX2) =
    (let x = real i in
     regression_sums rd (Suc i) ys
       (rd (sumX + x), rd (sumY + y), rd (sumXY + rd (x * y)), rd (sumX2 + rd (x * x))))"

definition calculateLinearTrend :: "(real \<Rightarrow> real) \<Rightarrow> real list \<Rightarrow> real" where
  "calculateLinearTrend rd values =
    (let n = length values in
     if n < 2 then 0
     else
     let (sumX, sumY, sumXY, sumX2) = regression_sums rd 0 values (0, 0, 0, 0);
         denominator = rd (rd (real n * sumX2) - rd (sumX * sumX))
     in if denominator = 0 then 0
        else
        let slope = rd (rd (rd (real n * sumXY) - rd (sumX * sumY)) / denominator) in
        if sumY \<noteq> 0 then rd (slope / rd (sumY / real n)) else 0)"

definition calculateTrendFactor :: "calc_ops \<Rightarrow> RateLimitRecord list \<Rightarrow> real" where
  "calculateTrendFactor co history =
    (if length history < 4 then 1
     else
     let recentCount = min (length history) 10;
         recent = drop (length history - recentCount) history;
         trend = calculateLinearTrend (rounded co) (map (\<lambda>d. rounded co (real_of_int d)) (intervals_of recent))
     in if trend < - (1/2) then 16/10
        else if trend < - (2/10) then 13/10
        else if trend > 2/10 then 8/10
        else 1)"

definition adjustmentFactor :: "calc_ops \<Rightarrow> CalculatorConfig \<Rightarrow> RateLimitRecord list \<Rightarrow> int \<Rightarrow> real" where
  "adjustmentFactor co c relevant currentTime =
    (let rd = rounded co in
     rd (rd (rd (FrequencyWeight c * calculateFrequencyFactor relevant currentTime) +
             rd (PatternWeight c * calculatePatternFactor co relevant)) +
         rd (TrendWeight c * calculateTrendFactor co relevant)))"

definition CalculateOptimalRecoveryTime ::
  "calc_ops \<Rightarrow> CalculatorConfig \<Rightarrow> RateLimitRecord list \<Rightarrow> int \<Rightarrow> int" where
  "CalculateOptimalRecoveryTime co c history currentTime =
    (if int (length history) < MinHistoryCount c then applyTimeModifiers co c (BaseRecoveryTime c) currentTime
     else
     let relevantHistory = filterRelevantHistory co c history currentTime in
     if int (length relevantHistory) < MinHistoryCount c
     then applyTimeModifiers co c (BaseRecoveryTime c) currentTime
     else
     let adjusted = scale co (BaseRecoveryTime c) (adjustmentFactor co c relevantHistory currentTime);
         safe = (if ConservativeMode c then scale co adjusted (SafetyMargin c) else adjusted);
         finalTime = applyTimeModifiers co c safe currentTime;
         atLeast = (if finalTime < MinRecoveryTime c then MinRecoveryTime c else finalTime)
     in if atLeast > MaxRecoveryTime c then MaxRecoveryTime c else atLeast)"

text \<open>No prediction is the zero time with confidence 0.\<close>

definition PredictNextRateLimit ::
  "calc_ops \<Rightarrow> CalculatorConfig \<Rightarrow> RateLimitRecord list \<Rightarrow> int \<Rightarrow> int \<times> real" where
  "PredictNextRateLimit co c history currentTime =
    (if length history < 3 then (zero_time, 0)
     else
     let relevantHistory = filterRelevantHistory co c history currentTime in
     if length relevantHistory < 3 then (zero_time, 0)
     else
     let intervals = intervals_of relevantHistory; avgInterval = average_of intervals;
         stdDev = sqrt_duration co (calculateVariance intervals avgInterval)
     in (OccurredAt (last relevantHistory) + avgInterval, confidence_of co stdDev avgInterval))"

definition assessRiskLevel :: "RateLimitRecord list \<Rightarrow> int \<Rightarrow> string" where
  "assessRiskLevel history currentTime =
    (let hour1Count = countInWindow history currentTime (hours 1);
         hour24Count = countInWindow history currentTime (hours 24)
     in if hour1Count \<ge> 3 then ''HIGH''
        else if hour24Count \<ge> 10 then ''MEDIUM''
        else if hour24Count \<ge> 3 then ''LOW''
        else ''MINIMAL'')"

text \<open>The sentences of the explanation.\<close>

datatype reason = HistoryTooShort | BasedOnRecords nat | LongerThanBase | ShorterThanBase | SafetyMarginApplied

definition generateReasoning :: "CalculatorConfig \<Rightarrow> RateLimitRecord list \<Rightarrow> int \<Rightarrow> reason list" where
  "generateReasoning c history optimalTime =
    (if int (length history) < MinHistoryCount c then [HistoryTooShort] else [BasedOnRecords (length history)]) @
    (if optimalTime > BaseRecoveryTime c then [LongerThanBase]
     else if optimalTime < BaseRecoveryTime c then [ShorterThanBase] else []) @
    (if ConservativeMode c then [SafetyMarginApplied] else [])"

record RecoveryRecommendation =
  rcKeyID :: nat
  OptimalRecoveryTime :: int
  RecommendedAt :: int
  Confidence :: real
  RiskLevel :: string
  Reasoning :: "reason list"
  NextPredictedRateLimit :: "int option"

definition GetRecoveryRecommendation ::
  "calc_ops \<Rightarrow> CalculatorConfig \<Rightarrow> PoolKey \<Rightarrow> RateLimitRecord list \<Rightarrow> int \<Rightarrow> RecoveryRecommendation" where
  "GetRecoveryRecommendation co c key history currentTime =
    (let optimalTime = CalculateOptimalRecoveryTime co c history currentTime;
         (nextPrediction, confidence) = PredictNextRateLimit co c history currentTime
     in \<lparr>rcKeyID = ID key, OptimalRecoveryTime = optimalTime, RecommendedAt = currentTime + optimalTime,
         Confidence = confidence, RiskLevel = assessRiskLevel history currentTime,
         Reasoning = generateReasoning c history optimalTime,
         NextPredictedRateLimit = (if nextPrediction = zero_time then None else Some nextPrediction)\<rparr>)"

section \<open>Bounds\<close>

lemma default_delay_bounds:
  "min (MinRecoveryInterval c) (MaxRecoveryInterval c) \<le> default_delay fo c now key history"
  "default_delay fo c now key history \<le> MaxRecoveryInterval c"
  by (auto simp: default_delay_def Let_def)

text \<open>A key that passes the check is due only later than any clock that is read afterwards.\<close>

lemma recovery_time_is_later:
  assumes "ShouldAttemptRecovery c key now" "now \<le> t1"
    and "0 < MinRecoveryInterval c" "0 < MaxRecoveryInterval c"
  shows "t1 < CalculateRecoveryTime fo c t1 t2 key history"
proof -
  have "0 < default_delay fo c t2 key history" using default_delay_bounds(1) [of c fo t2 key history] assms(3,4) by simp
  moreover have "\<not> t > t1" if "RateLimitResetAt key = Some t" for t
    using assms(1,2) that by (auto simp: ShouldAttemptRecovery_def split: if_splits)
  ultimately show ?thesis by (auto simp: CalculateRecoveryTime_def split: option.split)
qed

lemma countInWindow_mono: "a \<le> b \<Longrightarrow> countInWindow history now a \<le> countInWindow history now b"
  unfolding countInWindow_def Let_def by (induction history) auto

text \<open>The levels of risk follow the factors of the frequency.\<close>

lemma risk_follows_frequency:
  "assessRiskLevel history now = ''HIGH'' \<longleftrightarrow> calculateFrequencyFactor history now = 3"
  "assessRiskLevel history now = ''MEDIUM'' \<Longrightarrow> calculateFrequencyFactor history now \<in> {2, 5/2}"
  by (auto simp: assessRiskLevel_def calculateFrequencyFactor_def countInWindow_def Let_def split: if_splits)

lemma fold_squares:
  assumes "\<forall>d \<in> set ds. in_i64 (d - a)" "0 \<le> s" "s + (\<Sum>d\<leftarrow>ds. (d - a) * (d - a)) < 9223372036854775808"
  shows "fold (\<lambda>d s. let diff = i64 (d - a) in i64 (s + i64 (diff * diff))) ds s = s + (\<Sum>d\<leftarrow>ds. (d - a) * (d - a))"
  using assms
proof (induction ds arbitrary: s)
  case (Cons d ds)
  have nn: "0 \<le> (\<Sum>d\<leftarrow>ds. (d - a) * (d - a))" by (intro sum_list_nonneg) auto
  have sq: "0 \<le> (d - a) * (d - a)" by simp
  have "s + ((d - a) * (d - a) + (\<Sum>d\<leftarrow>ds. (d - a) * (d - a))) < 9223372036854775808" using Cons.prems(3) by simp
  then have "in_i64 ((d - a) * (d - a))" "in_i64 (s + (d - a) * (d - a))"
    using Cons.prems(2) nn sq unfolding in_i64_def by linarith+
  then have "i64 (s + i64 (i64 (d - a) * i64 (d - a))) = s + (d - a) * (d - a)"
    using Cons.prems(1) by simp
  then show ?case using Cons.IH [of "s + (d - a) * (d - a)"] Cons.prems sq by (simp add: Let_def)
qed simp

text \<open>The variance of the intervals is the mean of their squared distances from the average, as long as
  these squares add up to less than 2^63, which is for distances of about three seconds; two
  intervals of one and three hours, whose variance is an hour squared, give a wrong value.\<close>

lemma variance_exact_below_overflow:
  assumes "ds \<noteq> []" "\<forall>d \<in> set ds. in_i64 (d - avg)" "(\<Sum>d\<leftarrow>ds. (d - avg) * (d - avg)) < 9223372036854775808"
  shows "calculateVariance ds avg = (\<Sum>d\<leftarrow>ds. (d - avg) * (d - avg)) div int (length ds) \<and>
    calculateVariance [hours 1, hours 3] (hours 2) \<noteq> hours 1 * hours 1"
proof -
  have "0 \<le> (\<Sum>d\<leftarrow>ds. (d - avg) * (d - avg))" by (intro sum_list_nonneg) auto
  then have "calculateVariance ds avg = (\<Sum>d\<leftarrow>ds. (d - avg) * (d - avg)) div int (length ds)"
    using fold_squares [OF assms(2), of 0] assms(1,3) by (simp add: calculateVariance_def tdiv_def)
  moreover have "calculateVariance [hours 1, hours 3] (hours 2) \<noteq> hours 1 * hours 1"
    by (simp add: calculateVariance_def hours_def i64_def tdiv_def Let_def)
  ultimately show ?thesis ..
qed

lemma variance_exact_below_overflow_demo: "calculateVariance [4, 6] 5 = 1"
  using variance_exact_below_overflow [of "[4, 6]" 5] by (simp add: in_i64_def)

end
