(* ===== verification/RecoveryService.thy ===== *)
theory RecoveryService
  imports RecoveryTime
begin

text \<open>The recovery service: src/internal/keypool/recovery_service.go over the table of a layered pool. The ticker that
  starts a check and the worker goroutines that take plans from the queue are steps; the channel is a
  list of bounded length. The move of a key between the pools is an argument, as the service has it from
  the interface LayeredKeyPool. Logs and the performance monitor are left out.\<close>

section \<open>State\<close>

record RecoveryServiceConfig =
  rsBatchSize :: int
  rsQueueSize :: nat
  rsEnableDryRun :: bool

definition DefaultRecoveryServiceConfig :: RecoveryServiceConfig where
  "DefaultRecoveryServiceConfig = \<lparr>rsBatchSize = 50, rsQueueSize = 1000, rsEnableDryRun = False\<rparr>"

datatype rec_err = MoveFailed lp_err | UpdateFailed lp_err

record CompletedRecoveryPlan =
  cpPlan :: RecoveryPlan
  cpSuccess :: bool
  cpError :: "rec_err option"
  cpStartTime :: int
  cpEndTime :: int
  cpDuration :: int

record PriorityMetrics =
  prAttempts :: int
  prSuccesses :: int
  prFailures :: int
  prAvgTime :: int

record RecoveryMetrics =
  TotalAttempts :: int
  SuccessfulRecoveries :: int
  FailedRecoveries :: int
  AvgRecoveryTime :: int
  LastRecoveryAt :: int
  PriorityStats :: "RecoveryPriority \<Rightarrow> PriorityMetrics"

record RecoveryService =
  recoveryQueue :: "RecoveryPlan list"
  completedPlans :: "CompletedRecoveryPlan list"
  rsMetrics :: RecoveryMetrics
  historyCache :: "(nat, RateLimitRecord list) gomap"
  lastCacheUpdate :: int

definition NewRecoveryService :: RecoveryService where
  "NewRecoveryService =
    \<lparr>recoveryQueue = [], completedPlans = [],
     rsMetrics = \<lparr>TotalAttempts = 0, SuccessfulRecoveries = 0, FailedRecoveries = 0, AvgRecoveryTime = 0,
       LastRecoveryAt = zero_time,
       PriorityStats = (\<lambda>_. \<lparr>prAttempts = 0, prSuccesses = 0, prFailures = 0, prAvgTime = 0\<rparr>)\<rparr>,
     historyCache = [], lastCacheUpdate = zero_time\<rparr>"

section \<open>Sorting the plans\<close>

text \<open>The two nested loops over the indices of the slice.\<close>

definition swap_if_lower :: "nat \<Rightarrow> RecoveryPlan list \<Rightarrow> RecoveryPlan list" where
  "swap_if_lower j plans =
    (if plPriority (plans ! j) < plPriority (plans ! (j + 1))
     then plans[j := plans ! (j + 1), j + 1 := plans ! j] else plans)"

definition sortPlansByPriority :: "RecoveryPlan list \<Rightarrow> RecoveryPlan list" where
  "sortPlansByPriority plans =
    fold (\<lambda>i ps. fold swap_if_lower [0..<length plans - i - 1] ps) [0..<length plans - 1] plans"

section \<open>The check\<close>

definition getRateLimitHistory :: "RecoveryService \<Rightarrow> nat \<Rightarrow> RateLimitRecord list" where
  "getRateLimitHistory s keyID = (case gget (historyCache s) keyID of Some history \<Rightarrow> history | None \<Rightarrow> [])"

definition updateHistoryCache :: "int \<Rightarrow> RecoveryService \<Rightarrow> RecoveryService" where
  "updateHistoryCache now s = s\<lparr>lastCacheUpdate := now\<rparr>"

text \<open>The configurations of the groups are an argument. For the j-th key the clock is read as
  \<^verbatim>\<open>clk j 0\<close>, \<^verbatim>\<open>clk j 1\<close> and \<^verbatim>\<open>clk j 2\<close>.\<close>

definition load_group_config ::
  "(nat \<Rightarrow> (string, jsonv) gomap option) \<Rightarrow> nat \<Rightarrow> ('z pool_db_scheme, (string, jsonv) gomap option) act" where
  "load_group_config configs gid =
    on_db (\<lambda>p. if gid \<in> set (lgroups p) then Inr (configs gid) else Inl RecordNotFound)"

fun collect_plans ::
  "float_ops \<Rightarrow> RecoveryConfig \<Rightarrow> (nat \<Rightarrow> (string, jsonv) gomap option) \<Rightarrow> (nat \<Rightarrow> nat \<Rightarrow> int) \<Rightarrow> int \<Rightarrow>
   RecoveryService \<Rightarrow> nat \<Rightarrow> PoolKey list \<Rightarrow> 'z pool_db_scheme \<Rightarrow> 'z pool_db_scheme \<times> RecoveryPlan list" where
  "collect_plans fo c configs clk now s j [] p = (p, [])"
| "collect_plans fo c configs clk now s j (key # keys) p =
    (if \<not> ShouldAttemptRecovery c key now then collect_plans fo c configs clk now s (Suc j) keys p
     else (case load_group_config configs (GroupID key) p of
       (p1, Inl _) \<Rightarrow> collect_plans fo c configs clk now s (Suc j) keys p1
     | (p1, Inr config) \<Rightarrow>
         (case CreateRecoveryPlan fo c (clk j 0) (clk j 1) (clk j 2) key (Some config)
                 (getRateLimitHistory s (ID key)) of
           Inl _ \<Rightarrow> collect_plans fo c configs clk now s (Suc j) keys p1
         | Inr plan \<Rightarrow>
             (case collect_plans fo c configs clk now s (Suc j) keys p1 of
               (p2, plans) \<Rightarrow> (p2, if now < plScheduledAt plan then plans else plan # plans)))))"

text \<open>A plan for which the queue has no room is dropped.\<close>

definition submit :: "nat \<Rightarrow> RecoveryPlan \<Rightarrow> RecoveryPlan list \<Rightarrow> RecoveryPlan list" where
  "submit queueSize plan queue = (if length queue < queueSize then queue @ [plan] else queue)"

text \<open>A negative limit of a query is no limit.\<close>

definition limited :: "int \<Rightarrow> 'a list \<Rightarrow> 'a list" where
  "limited n xs = (if n < 0 then xs else take (nat n) xs)"

definition performRecoveryCheck ::
  "float_ops \<Rightarrow> RecoveryConfig \<Rightarrow> RecoveryServiceConfig \<Rightarrow> (nat \<Rightarrow> (string, jsonv) gomap option) \<Rightarrow>
   (nat \<Rightarrow> nat \<Rightarrow> int) \<Rightarrow> int \<Rightarrow> RecoveryService \<times> 'z pool_db_scheme \<Rightarrow>
   (RecoveryService \<times> 'z pool_db_scheme) \<times> lp_err option" where
  "performRecoveryCheck fo c cfg configs clk now = (\<lambda>(s, p).
    case on_db (\<lambda>p. Inr (limited (rsBatchSize cfg) (filter (\<lambda>k. Status k = KeyStatusRateLimited) (ldb p)))) p of
      (p1, Inl e) \<Rightarrow> ((s, p1), Some e)
    | (p1, Inr rateLimitedKeys) \<Rightarrow>
        if rateLimitedKeys = [] then ((s, p1), None)
        else (case collect_plans fo c configs clk now s 0 rateLimitedKeys p1 of
          (p2, plans) \<Rightarrow>
            ((s\<lparr>recoveryQueue := fold (submit (rsQueueSize cfg)) (sortPlansByPriority plans) (recoveryQueue s)\<rparr>, p2),
             None)))"

section \<open>The workers\<close>

definition update_row :: "nat \<Rightarrow> (PoolKey \<Rightarrow> PoolKey) \<Rightarrow> ('z pool_db_scheme, unit) act" where
  "update_row kid f p =
    (case on_db (\<lambda>_. Inr ()) p of
       (p1, Inl e) \<Rightarrow> (p1, Inl e)
     | (p1, Inr _) \<Rightarrow> (p1\<lparr>ldb := map (\<lambda>k. if ID k = kid then f k else k) (ldb p1)\<rparr>, Inr ()))"

definition recovered_row :: "PoolKey \<Rightarrow> PoolKey" where
  "recovered_row k = k\<lparr>Status := KeyStatusActive, RateLimitResetAt := None\<rparr>"

definition recoverKey ::
  "(nat \<Rightarrow> ('z pool_db_scheme, unit) act) \<Rightarrow> RecoveryPlan \<Rightarrow> 'z pool_db_scheme \<Rightarrow>
   'z pool_db_scheme \<times> rec_err option" where
  "recoverKey move plan p =
    (case move (plKeyID plan) p of
       (p1, Inl e) \<Rightarrow> (p1, Some (MoveFailed e))
     | (p1, Inr _) \<Rightarrow>
         (case update_row (plKeyID plan) recovered_row p1 of
           (p2, Inl e) \<Rightarrow> (p2, Some (UpdateFailed e))
         | (p2, Inr _) \<Rightarrow> (p2, None)))"

definition average_with :: "int \<Rightarrow> int \<Rightarrow> int \<Rightarrow> int" where
  "average_with avg n duration = tdiv (i64 (i64 (avg * (n - 1)) + duration)) n"

definition updatePriorityMetrics :: "CompletedRecoveryPlan \<Rightarrow> PriorityMetrics \<Rightarrow> PriorityMetrics" where
  "updatePriorityMetrics done m =
    (let n = i64 (prAttempts m + 1) in
     \<lparr>prAttempts = n,
      prSuccesses = (if cpSuccess done then i64 (prSuccesses m + 1) else prSuccesses m),
      prFailures = (if cpSuccess done then prFailures m else i64 (prFailures m + 1)),
      prAvgTime = (if n > 0 then average_with (prAvgTime m) n (cpDuration done) else prAvgTime m)\<rparr>)"

definition updateRecoveryMetrics :: "CompletedRecoveryPlan \<Rightarrow> RecoveryMetrics \<Rightarrow> RecoveryMetrics" where
  "updateRecoveryMetrics done m =
    (let n = i64 (TotalAttempts m + 1); pr = plPriority (cpPlan done) in
     \<lparr>TotalAttempts = n,
      SuccessfulRecoveries = (if cpSuccess done then i64 (SuccessfulRecoveries m + 1) else SuccessfulRecoveries m),
      FailedRecoveries = (if cpSuccess done then FailedRecoveries m else i64 (FailedRecoveries m + 1)),
      AvgRecoveryTime = (if n > 0 then average_with (AvgRecoveryTime m) n (cpDuration done) else AvgRecoveryTime m),
      LastRecoveryAt = cpEndTime done,
      PriorityStats = (PriorityStats m)(pr := updatePriorityMetrics done (PriorityStats m pr))\<rparr>)"

definition executeRecoveryPlan ::
  "(nat \<Rightarrow> ('z pool_db_scheme, unit) act) \<Rightarrow> RecoveryServiceConfig \<Rightarrow> int \<Rightarrow> int \<Rightarrow> RecoveryPlan \<Rightarrow>
   RecoveryService \<times> 'z pool_db_scheme \<Rightarrow> RecoveryService \<times> 'z pool_db_scheme" where
  "executeRecoveryPlan move cfg startTime endTime plan = (\<lambda>(s, p).
    let (p1, err) = (if rsEnableDryRun cfg then (p, None) else recoverKey move plan p);
        completed = \<lparr>cpPlan = plan, cpSuccess = (err = None), cpError = err, cpStartTime = startTime,
                     cpEndTime = endTime, cpDuration = time_sub endTime startTime\<rparr>;
        plans = completedPlans s @ [completed]
    in (s\<lparr>rsMetrics := updateRecoveryMetrics completed (rsMetrics s),
          completedPlans := drop (length plans - 1000) plans\<rparr>, p1))"

text \<open>A worker takes the first plan of the queue.\<close>

definition worker ::
  "(nat \<Rightarrow> ('z pool_db_scheme, unit) act) \<Rightarrow> RecoveryServiceConfig \<Rightarrow> int \<Rightarrow> int \<Rightarrow>
   RecoveryService \<times> 'z pool_db_scheme \<Rightarrow> RecoveryService \<times> 'z pool_db_scheme" where
  "worker move cfg startTime endTime = (\<lambda>(s, p).
    case recoveryQueue s of
      [] \<Rightarrow> (s, p)
    | plan # plans \<Rightarrow> executeRecoveryPlan move cfg startTime endTime plan (s\<lparr>recoveryQueue := plans\<rparr>, p))"

definition GetCompletedPlans :: "int \<Rightarrow> RecoveryService \<Rightarrow> CompletedRecoveryPlan list" where
  "GetCompletedPlans limit s =
    (let n = int (length (completedPlans s)); limit' = (if limit \<le> 0 \<or> limit > n then n else limit)
     in drop (nat (n - limit')) (completedPlans s))"

section \<open>The sort is stable and descending\<close>

definition same_order :: "RecoveryPlan list \<Rightarrow> RecoveryPlan list \<Rightarrow> bool" where
  "same_order xs ys \<longleftrightarrow> length ys = length xs \<and> mset ys = mset xs \<and>
     (\<forall>k. filter (\<lambda>x. plPriority x = k) ys = filter (\<lambda>x. plPriority x = k) xs)"

text \<open>The last \<^verbatim>\<open>m\<close> positions hold what belongs there; the element at \<^verbatim>\<open>j\<close> is the lowest so far.\<close>

definition settled :: "nat \<Rightarrow> RecoveryPlan list \<Rightarrow> bool" where
  "settled m xs \<longleftrightarrow> (\<forall>a b. a < b \<and> b < length xs \<and> length xs \<le> b + m \<longrightarrow>
     plPriority (xs ! b) \<le> plPriority (xs ! a))"

definition lowest_at :: "nat \<Rightarrow> RecoveryPlan list \<Rightarrow> bool" where
  "lowest_at j xs \<longleftrightarrow> (\<forall>a < j. plPriority (xs ! j) \<le> plPriority (xs ! a))"

lemma same_order_trans: "same_order xs ys \<Longrightarrow> same_order ys zs \<Longrightarrow> same_order xs zs"
  by (simp add: same_order_def)

lemma same_order_refl [simp]: "same_order xs xs"
  by (simp add: same_order_def)

lemma swap_same_order:
  assumes "Suc j < length xs"
  shows "same_order xs (swap_if_lower j xs)"
proof (cases "plPriority (xs ! j) < plPriority (xs ! Suc j)")
  case True
  define as a b bs where "as = take j xs" and "a = xs ! j" and "b = xs ! Suc j" and "bs = drop (Suc (Suc j)) xs"
  have xs: "xs = as @ a # b # bs"
    using assms by (simp add: as_def a_def b_def bs_def Cons_nth_drop_Suc id_take_nth_drop)
  have "length as = j" using assms by (simp add: as_def)
  then have "xs[j := b, Suc j := a] = as @ b # a # bs" by (simp add: xs list_update_append nth_append)
  then have sw: "swap_if_lower j xs = as @ b # a # bs" using True by (simp add: swap_if_lower_def a_def b_def)
  have "plPriority a \<noteq> plPriority b" using True by (auto simp: a_def b_def)
  then show ?thesis unfolding same_order_def sw by (subst (1 2 3) xs) auto
qed (simp add: swap_if_lower_def)

lemma swap_length [simp]: "length (swap_if_lower j xs) = length xs"
  by (simp add: swap_if_lower_def)

lemma swap_nth:
  assumes "Suc j < length xs"
  shows "a < length xs \<Longrightarrow> a \<noteq> j \<Longrightarrow> a \<noteq> Suc j \<Longrightarrow> swap_if_lower j xs ! a = xs ! a"
    "plPriority (swap_if_lower j xs ! j) = max (plPriority (xs ! j)) (plPriority (xs ! Suc j))"
    "plPriority (swap_if_lower j xs ! Suc j) = min (plPriority (xs ! j)) (plPriority (xs ! Suc j))"
  using assms by (auto simp: swap_if_lower_def nth_list_update max_def min_def)

lemma swap_settled:
  assumes "settled m xs" "Suc j + m < length xs"
  shows "settled m (swap_if_lower j xs)"
  unfolding settled_def
proof (intro allI impI)
  fix a b assume ab: "a < b \<and> b < length (swap_if_lower j xs) \<and> length (swap_if_lower j xs) \<le> b + m"
  have j: "Suc j < length xs" using assms(2) by simp
  have old: "plPriority (xs ! b) \<le> plPriority (xs ! c)" if "c < b" for c
    using assms(1) ab that by (simp add: settled_def)
  have "swap_if_lower j xs ! b = xs ! b" using ab assms(2) by (intro swap_nth(1) [OF j]) auto
  moreover have "plPriority (xs ! b) \<le> plPriority (swap_if_lower j xs ! a)"
  proof (cases "a = j \<or> a = Suc j")
    case True
    have "Suc j < b" using ab assms(2) by simp
    then show ?thesis using True old [of j] old [of "Suc j"] swap_nth(2,3) [OF j] by (auto simp: max_def min_def)
  next
    case False
    then show ?thesis using ab old [of a] swap_nth(1) [OF j, of a] by simp
  qed
  ultimately show "plPriority (swap_if_lower j xs ! b) \<le> plPriority (swap_if_lower j xs ! a)" by simp
qed

lemma swap_lowest:
  assumes "lowest_at j xs" "Suc j < length xs"
  shows "lowest_at (Suc j) (swap_if_lower j xs)"
  unfolding lowest_at_def
proof (intro allI impI)
  fix a assume a: "a < Suc j"
  show "plPriority (swap_if_lower j xs ! Suc j) \<le> plPriority (swap_if_lower j xs ! a)"
  proof (cases "a = j")
    case True
    then show ?thesis using swap_nth(2,3) [OF assms(2)] by (auto simp: max_def min_def)
  next
    case False
    then have "plPriority (xs ! j) \<le> plPriority (xs ! a)" using a assms(1) by (simp add: lowest_at_def)
    then show ?thesis using swap_nth(1) [OF assms(2), of a] swap_nth(3) [OF assms(2)] a False assms(2)
      by (simp add: min.coboundedI1)
  qed
qed

lemma pass:
  assumes "settled m xs" "n + m < length xs"
  shows "settled m (fold swap_if_lower [0..<n] xs) \<and> lowest_at n (fold swap_if_lower [0..<n] xs) \<and>
    same_order xs (fold swap_if_lower [0..<n] xs)"
  using assms(2)
proof (induction n)
  case 0
  then show ?case using assms(1) by (simp add: lowest_at_def)
next
  case (Suc n)
  let ?ys = "fold swap_if_lower [0..<n] xs"
  have y: "settled m ?ys" "lowest_at n ?ys" "same_order xs ?ys" using Suc by simp_all
  then have len: "Suc n + m < length ?ys" using Suc.prems by (simp add: same_order_def)
  then show ?case
    using swap_settled [OF y(1) len] swap_lowest [OF y(2)] swap_same_order [of n ?ys] same_order_trans [OF y(3)]
    by simp
qed

lemma settled_Suc:
  assumes "settled m xs" "lowest_at n xs" "Suc (n + m) = length xs"
  shows "settled (Suc m) xs"
  unfolding settled_def
proof (intro allI impI)
  fix a b assume "a < b \<and> b < length xs \<and> length xs \<le> b + Suc m"
  then show "plPriority (xs ! b) \<le> plPriority (xs ! a)"
    using assms by (cases "b = n") (auto simp: settled_def lowest_at_def)
qed

lemma passes:
  "m \<le> length xs - 1 \<Longrightarrow>
   (let ys = fold (\<lambda>i ps. fold swap_if_lower [0..<length xs - i - 1] ps) [0..<m] xs in settled m ys \<and> same_order xs ys)"
proof (induction m)
  case 0
  then show ?case by (auto simp: settled_def dest: leD)
next
  case (Suc m)
  let ?ys = "fold (\<lambda>i ps. fold swap_if_lower [0..<length xs - i - 1] ps) [0..<m] xs"
  have y: "settled m ?ys" "same_order xs ?ys" using Suc by (simp_all add: Let_def)
  then have len: "length ?ys = length xs" by (simp add: same_order_def)
  have "length xs - m - 1 + m < length ?ys" using Suc.prems len by simp
  note p = pass [OF y(1) this]
  let ?zs = "fold swap_if_lower [0..<length xs - m - 1] ?ys"
  have "Suc (length xs - m - 1 + m) = length ?zs"
    using p len Suc.prems by (simp add: same_order_def)
  then have "settled (Suc m) ?zs" using settled_Suc p by blast
  moreover have "same_order xs ?zs" using same_order_trans [OF y(2)] p by blast
  ultimately show ?case by (simp add: Let_def)
qed

text \<open>The sort by priority is the stable sort: higher priorities come first, and plans of equal priority keep the
  order in which they were created.\<close>

lemma sort_plans_is_stable_sort:
  "sortPlansByPriority plans = sort_key (\<lambda>p. - int (priority_number (plPriority p))) plans"
proof -
  let ?ys = "sortPlansByPriority plans"
  have y: "settled (length plans - 1) ?ys" "same_order plans ?ys"
    using passes [of "length plans - 1" plans] by (simp_all add: sortPlansByPriority_def Let_def)
  have "sorted (map (\<lambda>p. - int (priority_number (plPriority p))) ?ys)"
    using y unfolding sorted_iff_nth_mono_less
    by (auto simp: settled_def same_order_def less_eq_RecoveryPriority_def)
  moreover have "filter (\<lambda>x. - int (priority_number (plPriority k)) = - int (priority_number (plPriority x))) ?ys =
      filter (\<lambda>x. - int (priority_number (plPriority k)) = - int (priority_number (plPriority x))) plans" for k
    using y(2) by (simp add: same_order_def priority_number_inj eq_commute)
  moreover have "mset ?ys = mset plans" using y(2) by (simp add: same_order_def)
  ultimately show ?thesis by (intro properties_for_sort_key [symmetric]) auto
qed

section \<open>No plan is ever submitted\<close>

lemma on_db_cases:
  "\<exists>p1 r. on_db q p = (p1, r) \<and> ((\<exists>e. r = Inl (DbErr e)) \<or> r = q p)"
  by (auto simp: on_db_def split: list.split option.split)

lemma collect_nothing:
  assumes "\<And>j n. now \<le> clk j n" "0 < MinRecoveryInterval c" "0 < MaxRecoveryInterval c"
  shows "snd (collect_plans fo c configs clk now s j keys p) = []"
proof (induction keys arbitrary: j p)
  case (Cons key keys)
  have later: "now < plScheduledAt plan"
    if "ShouldAttemptRecovery c key now"
      "CreateRecoveryPlan fo c (clk j 0) (clk j 1) (clk j 2) key g h = Inr plan" for plan g h
  proof -
    have "plScheduledAt plan = CalculateRecoveryTime fo c (clk j 0) (clk j 1) key h"
      using that(2) by (auto simp: CreateRecoveryPlan_def Let_def split: option.splits)
    then show ?thesis
      using recovery_time_is_later [OF that(1) assms(1) assms(2,3), of j 0 fo "clk j 1" h] assms(1) [of j 0] by simp
  qed
  show ?case
  proof (cases "ShouldAttemptRecovery c key now")
    case True
    obtain p1 r where r: "load_group_config configs (GroupID key) p = (p1, r)" by fastforce
    show ?thesis
    proof (cases r)
      case (Inr config)
      show ?thesis
      proof (cases "CreateRecoveryPlan fo c (clk j 0) (clk j 1) (clk j 2) key (Some config)
          (getRateLimitHistory s (ID key))")
        case plan: (Inr plan)
        then show ?thesis
          using True r Inr later [OF True plan] Cons.IH [of "Suc j" p1] by (auto split: prod.splits)
      qed (use True r Inr Cons.IH in simp)
    qed (use True r Cons.IH in simp)
  qed (use Cons.IH in simp)
qed simp

lemma sort_no_plans [simp]: "sortPlansByPriority [] = []"
  by (simp add: sortPlansByPriority_def)

lemma check_submits_nothing:
  assumes "\<And>j n. now \<le> clk j n" "0 < MinRecoveryInterval c" "0 < MaxRecoveryInterval c"
    and "performRecoveryCheck fo c cfg configs clk now (s, p) = ((s', p'), err)"
  shows "s' = s"
proof -
  have n: "\<exists>p2. collect_plans fo c configs clk now s 0 keys p1 = (p2, [])" for keys p1
    using collect_nothing [OF assms(1-3), where fo = fo and configs = configs and s = s and j = 0 and keys = keys and p = p1]
    by (intro exI [of _ "fst (collect_plans fo c configs clk now s 0 keys p1)"]) (simp add: prod_eq_iff)
  obtain p1 r where r: "on_db (\<lambda>p. Inr (limited (rsBatchSize cfg)
      (filter (\<lambda>k. Status k = KeyStatusRateLimited) (ldb p)))) p = (p1, r)" by fastforce
  show ?thesis
  proof (cases r)
    case (Inr keys)
    obtain p2 where "collect_plans fo c configs clk now s 0 keys p1 = (p2, [])" using n by blast
    then show ?thesis using assms(4) r Inr by (auto simp: performRecoveryCheck_def split: if_splits)
  qed (use assms(4) r in \<open>simp add: performRecoveryCheck_def\<close>)
qed

text \<open>A run of the service: checks, workers, updates of the cache, and anything the rest of the program does to
  the pool and the table. The clock does not go backwards during a check.\<close>

inductive rs_run :: "float_ops \<Rightarrow> RecoveryConfig \<Rightarrow> RecoveryServiceConfig \<Rightarrow>
    (nat \<Rightarrow> ('z pool_db_scheme, unit) act) \<Rightarrow> RecoveryService \<times> 'z pool_db_scheme \<Rightarrow> bool"
  for fo c cfg move where
  start: "rs_run fo c cfg move (NewRecoveryService, p)"
| check: "rs_run fo c cfg move (s, p) \<Longrightarrow> \<forall>j n. now \<le> clk j n \<Longrightarrow>
    performRecoveryCheck fo c cfg configs clk now (s, p) = ((s', p'), err) \<Longrightarrow> rs_run fo c cfg move (s', p')"
| work: "rs_run fo c cfg move (s, p) \<Longrightarrow> worker move cfg t0 t1 (s, p) = (s', p') \<Longrightarrow> rs_run fo c cfg move (s', p')"
| cache: "rs_run fo c cfg move (s, p) \<Longrightarrow> rs_run fo c cfg move (updateHistoryCache now s, p)"
| others: "rs_run fo c cfg move (s, p) \<Longrightarrow> rs_run fo c cfg move (s, p')"

lemma run_idle:
  assumes "rs_run fo c cfg move x" "0 < MinRecoveryInterval c" "0 < MaxRecoveryInterval c"
  shows "recoveryQueue (fst x) = [] \<and> completedPlans (fst x) = [] \<and> rsMetrics (fst x) = rsMetrics NewRecoveryService"
  using assms(1)
proof (induction rule: rs_run.induct)
  case (check s p now clk configs s' p' err)
  then show ?case using check_submits_nothing [OF _ assms(2,3) check.hyps(3)] by simp
qed (auto simp: NewRecoveryService_def worker_def updateHistoryCache_def)

text \<open>C33: The recovery service never recovers a key: in every run, whatever happens to the pool and the
  table, with the default delays or any positive ones, no plan is ever submitted or executed, and
  a further check changes nothing and submits nothing. A key passes the check only after its reset time, when the
  time of its plan is a delay after the time of the check.\<close>

theorem recovery_service_idle:
  assumes "rs_run fo c cfg move (s, p)" "0 < MinRecoveryInterval c" "0 < MaxRecoveryInterval c"
    and "\<forall>j n. now \<le> clk j n"
    and "performRecoveryCheck fo c cfg configs clk now (s, p) = ((s', p'), err)"
  shows "recoveryQueue s = [] \<and> completedPlans s = [] \<and> TotalAttempts (rsMetrics s) = 0 \<and> s' = s"
  using run_idle [OF assms(1-3)] check_submits_nothing [OF _ assms(2,3,5)] assms(4)
  by (simp add: NewRecoveryService_def)

text \<open>A key whose reset time was long ago, in the default configuration.\<close>

definition demo_limited :: PoolKey where
  "demo_limited = \<lparr>ID = 7, KeyValue = ''k'', GroupID = 2, Status = KeyStatusRateLimited, FailureCount = 0,
     RateLimitCount = 1, Last429At = Some 0, RateLimitResetAt = Some 5, CreatedAt = 0, RequestCount = 0,
     LastUsedAt = None, UpdatedAt = 0\<rparr>"

definition demo_pool_db :: pool_db where
  "demo_pool_db = \<lparr>ldb = [demo_limited], lgroups = [2], lfaults = [], groupConfigs = []\<rparr>"

theorem recovery_service_idle_witness:
  "ShouldAttemptRecovery DefaultRecoveryConfig demo_limited (hours 5) \<and>
   recoveryQueue (fst (fst (performRecoveryCheck \<lparr>scale = (\<lambda>d x. d), float_power = (\<lambda>x n. x)\<rparr> DefaultRecoveryConfig
     DefaultRecoveryServiceConfig (\<lambda>_. None) (\<lambda>_ _. hours 5) (hours 5) (NewRecoveryService, demo_pool_db)))) = []"
proof -
  let ?fo = "\<lparr>scale = (\<lambda>d x. d), float_power = (\<lambda>x n. x)\<rparr>"
  obtain s' p' err where r: "performRecoveryCheck ?fo DefaultRecoveryConfig DefaultRecoveryServiceConfig
      (\<lambda>_. None) (\<lambda>_ _. hours 5) (hours 5) (NewRecoveryService, demo_pool_db) = ((s', p'), err)" by (metis surj_pair)
  have c: "0 < MinRecoveryInterval DefaultRecoveryConfig" "0 < MaxRecoveryInterval DefaultRecoveryConfig"
    by (simp_all add: DefaultRecoveryConfig_def minutes_def hours_def)
  have "s' = NewRecoveryService"
    using recovery_service_idle [OF rs_run.start c _ r] by simp
  moreover have "ShouldAttemptRecovery DefaultRecoveryConfig demo_limited (hours 5)"
    by (simp add: ShouldAttemptRecovery_def DefaultRecoveryConfig_def demo_limited_def hours_def minutes_def time_sub_def)
  ultimately show ?thesis using r by (simp add: NewRecoveryService_def)
qed

end
