(* ===== verification/BatchRecovery.thy ===== *)
theory BatchRecovery
  imports RecoveryService
begin

text \<open>Recovery in batches: src/internal/keypool/batch_recovery.go. The two channels are lists of bounded
  length, the worker and result goroutines are steps, and the goroutines of one batch recover the keys in some order,
  each key in one piece. The order of a map and that of sort.Slice are arguments, as is the
  rounding of floating point. A panic and a call that never returns are None.\<close>

section \<open>State\<close>

record BatchRecoveryConfig =
  brMaxBatchSize :: int
  WorkerCount :: int
  PriorityBatchSizes :: "(RecoveryPriority, int) gomap"
  EnableRollback :: bool
  MaxFailureRate :: real
  PipelineDepth :: int

definition DefaultBatchRecoveryConfig :: BatchRecoveryConfig where
  "DefaultBatchRecoveryConfig =
    \<lparr>brMaxBatchSize = 50, WorkerCount = 2,
     PriorityBatchSizes = [(PriorityCritical, 20), (PriorityHigh, 30), (PriorityNormal, 50), (PriorityLow, 100)],
     EnableRollback = True, MaxFailureRate = 3/10, PipelineDepth = 3\<rparr>"

text \<open>A key that could not be loaded is None.\<close>

record RecoveryBatch =
  rbID :: string
  rbPriority :: RecoveryPriority
  rbKeys :: "PoolKey option list"
  rbPlans :: "RecoveryPlan list"
  rbCreatedAt :: int
  rbScheduledAt :: int
  rbGroupID :: nat

record KeyRecoveryResult =
  krKeyID :: nat
  krSuccess :: bool
  krError :: "rec_err option"
  krDuration :: int
  krFromPool :: PoolType
  krToPool :: PoolType

record BatchRecoveryResult =
  brBatchID :: string
  brTotalKeys :: nat
  SuccessfulKeys :: nat
  FailedKeys :: nat
  brStartTime :: int
  brEndTime :: int
  brDuration :: int
  brSuccessRate :: real
  KeyResults :: "KeyRecoveryResult list"
  brError :: string

text \<open>The success rate is None for the quotient 0 / 0.\<close>

record BatchRecoveryMetrics =
  TotalBatches :: int
  SuccessfulBatches :: int
  FailedBatches :: int
  TotalKeysProcessed :: int
  TotalKeysRecovered :: int
  AvgBatchSize :: real
  AvgProcessingTime :: int
  OverallSuccessRate :: "real option"
  LastProcessedAt :: int

record BatchRecoveryProcessor =
  brRunning :: bool
  brCancelled :: bool
  brClosed :: bool
  recoveryBatches :: "RecoveryBatch list"
  brResults :: "BatchRecoveryResult list"
  brMetrics :: BatchRecoveryMetrics

definition NewBatchRecoveryProcessor :: BatchRecoveryProcessor where
  "NewBatchRecoveryProcessor =
    \<lparr>brRunning = False, brCancelled = False, brClosed = False, recoveryBatches = [], brResults = [],
     brMetrics = \<lparr>TotalBatches = 0, SuccessfulBatches = 0, FailedBatches = 0, TotalKeysProcessed = 0,
       TotalKeysRecovered = 0, AvgBatchSize = 0, AvgProcessingTime = 0, OverallSuccessRate = Some 0,
       LastProcessedAt = zero_time\<rparr>\<rparr>"

datatype br_err = AlreadyRunning | ProcessorStopped | BatchQueueFull

definition br_Start :: "BatchRecoveryProcessor \<Rightarrow> BatchRecoveryProcessor \<times> br_err option" where
  "br_Start s = (if brRunning s then (s, Some AlreadyRunning) else (s\<lparr>brRunning := True\<rparr>, None))"

text \<open>The channels can be closed only once.\<close>

definition br_Stop :: "BatchRecoveryProcessor \<Rightarrow> BatchRecoveryProcessor option" where
  "br_Stop s =
    (if \<not> brRunning s then Some s
     else if brClosed s then None
     else Some (s\<lparr>brCancelled := True, brClosed := True, brRunning := False\<rparr>))"

text \<open>When several cases of the select are ready, \<^verbatim>\<open>pick\<close> tells whether the first is taken. A send on a closed
  channel panics.\<close>

definition SubmitBatch ::
  "bool \<Rightarrow> RecoveryBatch \<Rightarrow> BatchRecoveryProcessor \<Rightarrow> (BatchRecoveryProcessor \<times> br_err option) option" where
  "SubmitBatch pick batch s =
    (if (brClosed s \<or> length (recoveryBatches s) < 100) \<and> (brCancelled s \<longrightarrow> pick)
     then if brClosed s then None else Some (s\<lparr>recoveryBatches := recoveryBatches s @ [batch]\<rparr>, None)
     else if brCancelled s then Some (s, Some ProcessorStopped)
     else Some (s, Some BatchQueueFull))"

section \<open>Making the batches\<close>

definition groupPlansByPriorityAndGroup ::
  "RecoveryPlan list \<Rightarrow> (RecoveryPriority \<times> nat, RecoveryPlan list) gomap" where
  "groupPlansByPriorityAndGroup plans =
    fold (\<lambda>plan grouped. let key = (plPriority plan, plGroupID plan) in
      gput key ((case gget grouped key of None \<Rightarrow> [] | Some ps \<Rightarrow> ps) @ [plan]) grouped) plans []"

definition calculateBatchScheduleTime :: "int \<Rightarrow> RecoveryPlan list \<Rightarrow> int" where
  "calculateBatchScheduleTime now plans =
    (case plans of
       [] \<Rightarrow> now
     | plan # rest \<Rightarrow>
         fold (\<lambda>pl latest. if plScheduledAt pl > latest then plScheduledAt pl else latest) rest (plScheduledAt plan))"

definition batch_size :: "BatchRecoveryConfig \<Rightarrow> RecoveryPriority \<Rightarrow> int" where
  "batch_size cfg priority =
    (case gget (PriorityBatchSizes cfg) priority of Some prioritySize \<Rightarrow> prioritySize | None \<Rightarrow> brMaxBatchSize cfg)"

text \<open>The loop over a group from index \<^verbatim>\<open>i\<close>. A negative size is out of the range of the slice, and with size 0
  the index never moves.\<close>

partial_function (option) split_batches :: "int \<Rightarrow> nat \<Rightarrow> 'a list \<Rightarrow> 'a list list option" where
  "split_batches batchSize i plans =
    (if i \<ge> length plans then Some []
     else if batchSize < 0 then None
     else
     let stop = min (i + nat batchSize) (length plans) in
     Option.bind (split_batches batchSize (i + nat batchSize) plans)
       (\<lambda>rest. Some (take (stop - i) (drop i plans) # rest)))"

fun split_groups ::
  "BatchRecoveryConfig \<Rightarrow> (RecoveryPriority \<times> nat, RecoveryPlan list) gomap \<Rightarrow>
   ((RecoveryPriority \<times> nat) \<times> RecoveryPlan list) list option" where
  "split_groups cfg [] = Some []"
| "split_groups cfg ((groupKey, groupPlans) # groups) =
    (case split_batches (batch_size cfg (fst groupKey)) 0 groupPlans of
       None \<Rightarrow> None
     | Some pieces \<Rightarrow>
         (case split_groups cfg groups of
            None \<Rightarrow> None
          | Some rest \<Rightarrow> Some (map (Pair groupKey) pieces @ rest)))"

fun load_keys :: "RecoveryPlan list \<Rightarrow> 'z pool_db_scheme \<Rightarrow> 'z pool_db_scheme \<times> PoolKey option list" where
  "load_keys [] p = (p, [])"
| "load_keys (plan # plans) p =
    (case first_key (plKeyID plan) p of
       (p1, r) \<Rightarrow>
         (case load_keys plans p1 of
            (p2, keys) \<Rightarrow> (p2, (case r of Inl _ \<Rightarrow> None | Inr key \<Rightarrow> Some key) # keys)))"

text \<open>The clock is read three times for a batch. The type of the priority has no String method, so that
  the verb \<^verbatim>\<open>%s\<close> prints it as a mismatch.\<close>

definition batch_id :: "nat \<Rightarrow> RecoveryPriority \<Rightarrow> int \<Rightarrow> string" where
  "batch_id groupID priority t =
    ''batch_'' @ show_nat groupID @ ''_%!s(keypool.RecoveryPriority='' @
    show_nat (priority_number priority) @ '')_'' @ show_int t"

fun make_batches ::
  "(nat \<Rightarrow> nat \<Rightarrow> int) \<Rightarrow> nat \<Rightarrow> ((RecoveryPriority \<times> nat) \<times> RecoveryPlan list) list \<Rightarrow> 'z pool_db_scheme \<Rightarrow>
   'z pool_db_scheme \<times> RecoveryBatch list" where
  "make_batches clk j [] p = (p, [])"
| "make_batches clk j (((priority, groupID), batchPlans) # pieces) p =
    (case load_keys batchPlans p of
       (p1, keys) \<Rightarrow>
         (case make_batches clk (Suc j) pieces p1 of
            (p2, batches) \<Rightarrow>
              (p2, \<lparr>rbID = batch_id groupID priority (clk j 0), rbPriority = priority, rbKeys = keys,
                    rbPlans = batchPlans, rbCreatedAt = clk j 1,
                    rbScheduledAt = calculateBatchScheduleTime (clk j 2) batchPlans,
                    rbGroupID = groupID\<rparr> # batches)))"

definition CreateRecoveryBatches ::
  "BatchRecoveryConfig \<Rightarrow> ((RecoveryPriority \<times> nat) \<times> RecoveryPlan list) iter \<Rightarrow> RecoveryBatch iter \<Rightarrow>
   (nat \<Rightarrow> nat \<Rightarrow> int) \<Rightarrow> RecoveryPlan list \<Rightarrow> 'z pool_db_scheme \<Rightarrow>
   ('z pool_db_scheme \<times> RecoveryBatch list) option" where
  "CreateRecoveryBatches cfg ord srt clk plans p =
    (if plans = [] then Some (p, [])
     else (case split_groups cfg (ord (groupPlansByPriorityAndGroup plans)) of
       None \<Rightarrow> None
     | Some pieces \<Rightarrow>
         (case make_batches clk 0 pieces p of (p1, batches) \<Rightarrow> Some (p1, srt batches))))"

section \<open>Processing a batch\<close>

definition br_recoverSingleKey ::
  "(nat \<Rightarrow> PoolType \<Rightarrow> PoolType \<Rightarrow> ('z pool_db_scheme, unit) act) \<Rightarrow> int \<Rightarrow> int \<Rightarrow> PoolKey \<Rightarrow> 'z pool_db_scheme \<Rightarrow>
   'z pool_db_scheme \<times> KeyRecoveryResult" where
  "br_recoverSingleKey move startTime endTime key p =
    (case move (ID key) PoolTypeCooling PoolTypeReady p of
       (p1, r) \<Rightarrow>
         let (p2, err) = (case r of
               Inl e \<Rightarrow> (p1, Some (MoveFailed e))
             | Inr _ \<Rightarrow> (case update_row (ID key) recovered_row p1 of
                   (p2, Inl e) \<Rightarrow> (p2, Some (UpdateFailed e))
                 | (p2, Inr _) \<Rightarrow> (p2, None)))
         in (p2, \<lparr>krKeyID = ID key, krSuccess = (err = None), krError = err,
                  krDuration = time_sub endTime startTime,
                  krFromPool = PoolTypeCooling, krToPool = PoolTypeReady\<rparr>))"

fun recover_keys ::
  "(nat \<Rightarrow> PoolType \<Rightarrow> PoolType \<Rightarrow> ('z pool_db_scheme, unit) act) \<Rightarrow> (nat \<Rightarrow> nat \<Rightarrow> int) \<Rightarrow> nat \<Rightarrow> PoolKey list \<Rightarrow>
   'z pool_db_scheme \<Rightarrow> 'z pool_db_scheme \<times> KeyRecoveryResult list" where
  "recover_keys move clk j [] p = (p, [])"
| "recover_keys move clk j (key # keys) p =
    (case br_recoverSingleKey move (clk j 0) (clk j 1) key p of
       (p1, result) \<Rightarrow>
         (case recover_keys move clk (Suc j) keys p1 of (p2, results) \<Rightarrow> (p2, result # results)))"

text \<open>With a negative depth the channel cannot be made; with depth 0 no goroutine passes the semaphore.
  \<^verbatim>\<open>ord\<close> is the order in which the goroutines run.\<close>

definition br_processBatch ::
  "(nat \<Rightarrow> PoolType \<Rightarrow> PoolType \<Rightarrow> ('z pool_db_scheme, unit) act) \<Rightarrow> (real \<Rightarrow> real) \<Rightarrow> BatchRecoveryConfig \<Rightarrow>
   PoolKey iter \<Rightarrow> (nat \<Rightarrow> nat \<Rightarrow> int) \<Rightarrow> int \<Rightarrow> int \<Rightarrow> RecoveryBatch \<Rightarrow> 'z pool_db_scheme \<Rightarrow>
   ('z pool_db_scheme \<times> BatchRecoveryResult) option" where
  "br_processBatch move rd cfg ord clk startTime endTime batch p =
    (let keys = List.map_filter id (rbKeys batch) in
     if PipelineDepth cfg < 0 \<or> PipelineDepth cfg = 0 \<and> keys \<noteq> [] then None
     else (case recover_keys move clk 0 (ord keys) p of
       (p1, results) \<Rightarrow>
         let total = length (rbKeys batch);
             ok = length (filter krSuccess results);
             rate = (if total > 0 then rd (real ok / real total) else 0)
         in Some (p1, \<lparr>brBatchID = rbID batch, brTotalKeys = total, SuccessfulKeys = ok,
                       FailedKeys = length (filter (\<lambda>r. \<not> krSuccess r) results),
                       brStartTime = startTime, brEndTime = endTime, brDuration = time_sub endTime startTime,
                       brSuccessRate = rate, KeyResults = results,
                       brError = (if EnableRollback cfg \<and> rate < rd (1 - MaxFailureRate cfg)
                                  then ''Batch success rate below threshold'' else [])\<rparr>)))"

definition updateBatchMetrics :: "(real \<Rightarrow> real) \<Rightarrow> BatchRecoveryResult \<Rightarrow> BatchRecoveryMetrics \<Rightarrow> BatchRecoveryMetrics" where
  "updateBatchMetrics rd result m =
    (let n = i64 (TotalBatches m + 1);
         processed = i64 (TotalKeysProcessed m + int (brTotalKeys result));
         recovered = i64 (TotalKeysRecovered m + int (SuccessfulKeys result));
         good = brSuccessRate result \<ge> 1/2
     in \<lparr>TotalBatches = n,
         SuccessfulBatches = (if good then i64 (SuccessfulBatches m + 1) else SuccessfulBatches m),
         FailedBatches = (if good then FailedBatches m else i64 (FailedBatches m + 1)),
         TotalKeysProcessed = processed, TotalKeysRecovered = recovered,
         AvgBatchSize = (if n > 0 then rd (rd (of_int processed) / rd (of_int n)) else AvgBatchSize m),
         AvgProcessingTime = (if n > 0 then average_with (AvgProcessingTime m) n (brDuration result)
                              else AvgProcessingTime m),
         OverallSuccessRate = (if n > 0
           then if processed = 0 then None else Some (rd (rd (of_int recovered) / rd (of_int processed)))
           else OverallSuccessRate m),
         LastProcessedAt = brEndTime result\<rparr>)"

text \<open>One step of a worker and one of the result goroutine.\<close>

definition br_worker ::
  "(nat \<Rightarrow> PoolType \<Rightarrow> PoolType \<Rightarrow> ('z pool_db_scheme, unit) act) \<Rightarrow> (real \<Rightarrow> real) \<Rightarrow> BatchRecoveryConfig \<Rightarrow>
   PoolKey iter \<Rightarrow> (nat \<Rightarrow> nat \<Rightarrow> int) \<Rightarrow> int \<Rightarrow> int \<Rightarrow>
   BatchRecoveryProcessor \<times> 'z pool_db_scheme \<Rightarrow> (BatchRecoveryProcessor \<times> 'z pool_db_scheme) option" where
  "br_worker move rd cfg ord clk startTime endTime = (\<lambda>(s, p).
    case recoveryBatches s of
      [] \<Rightarrow> Some (s, p)
    | batch # batches \<Rightarrow>
        (case br_processBatch move rd cfg ord clk startTime endTime batch p of
           None \<Rightarrow> None
         | Some (p1, result) \<Rightarrow>
             Some (s\<lparr>recoveryBatches := batches, brResults := brResults s @ [result]\<rparr>, p1)))"

definition resultProcessor :: "(real \<Rightarrow> real) \<Rightarrow> BatchRecoveryProcessor \<Rightarrow> BatchRecoveryProcessor" where
  "resultProcessor rd s =
    (case brResults s of
       [] \<Rightarrow> s
     | result # rest \<Rightarrow> s\<lparr>brResults := rest, brMetrics := updateBatchMetrics rd result (brMetrics s)\<rparr>)"

section \<open>The batches hold the plans\<close>

lemma split_batches_correct:
  assumes "0 < n"
  shows "\<exists>pieces. split_batches n i xs = Some pieces \<and> concat pieces = drop i xs \<and>
    (\<forall>ys \<in> set pieces. ys \<noteq> [] \<and> int (length ys) \<le> n)"
proof (induction "length xs - i" arbitrary: i rule: less_induct)
  case less
  show ?case
  proof (cases "i \<ge> length xs")
    case True
    then show ?thesis by (simp add: split_batches.simps)
  next
    case False
    have shorter: "length xs - (i + nat n) < length xs - i" using False assms by simp
    obtain pieces where p: "split_batches n (i + nat n) xs = Some pieces"
        "concat pieces = drop (i + nat n) xs" "\<forall>ys \<in> set pieces. ys \<noteq> [] \<and> int (length ys) \<le> n"
      using less [OF shorter] by blast
    let ?piece = "take (min (i + nat n) (length xs) - i) (drop i xs)"
    have c: "?piece = take (nat n) (drop i xs)"
      by (cases "i + nat n \<le> length xs") (simp_all add: min_def)
    have "split_batches n i xs = Some (?piece # pieces)"
      using False assms p(1) by (subst split_batches.simps) (simp add: Let_def)
    moreover have "concat (?piece # pieces) = drop i xs"
      unfolding c using p(2) append_take_drop_id [of "nat n" "drop i xs"]
      by (simp add: add.commute del: append_take_drop_id)
    moreover have "?piece \<noteq> []" "int (length ?piece) \<le> n" using False assms unfolding c by auto
    ultimately show ?thesis using p(3) by auto
  qed
qed

lemma mset_concat_map: "mset (concat (map f xs)) = \<Sum>\<^sub># (image_mset (\<lambda>x. mset (f x)) (mset xs))"
  by (induction xs) auto

definition plan_key :: "RecoveryPlan \<Rightarrow> RecoveryPriority \<times> nat" where
  "plan_key pl = (plPriority pl, plGroupID pl)"

definition homogeneous :: "(RecoveryPriority \<times> nat, RecoveryPlan list) gomap \<Rightarrow> bool" where
  "homogeneous m \<longleftrightarrow> (\<forall>e \<in> set m. \<forall>pl \<in> set (snd e). plan_key pl = fst e)"

definition add_plan ::
  "RecoveryPlan \<Rightarrow> (RecoveryPriority \<times> nat, RecoveryPlan list) gomap \<Rightarrow>
   (RecoveryPriority \<times> nat, RecoveryPlan list) gomap" where
  "add_plan plan m = gput (plan_key plan)
     ((case gget m (plan_key plan) of None \<Rightarrow> [] | Some ps \<Rightarrow> ps) @ [plan]) m"

lemma grouped_fold: "groupPlansByPriorityAndGroup plans = fold add_plan plans []"
  unfolding groupPlansByPriorityAndGroup_def
  by (intro arg_cong [where f = "\<lambda>f. fold f plans []"] ext) (simp add: add_plan_def plan_key_def Let_def)

lemma add_plan_mset: "mset (concat (map snd (add_plan plan m))) = add_mset plan (mset (concat (map snd m)))"
proof -
  have "mset (concat (map snd (gput k ((case gget m k of None \<Rightarrow> [] | Some ps \<Rightarrow> ps) @ [plan]) m))) =
      add_mset plan (mset (concat (map snd m)))" for k
    by (induction m) auto
  then show ?thesis by (simp add: add_plan_def)
qed

lemma homogeneous_Nil: "homogeneous []"
  by (simp add: homogeneous_def)

lemma homogeneous_add: "homogeneous m \<Longrightarrow> homogeneous (add_plan plan m)"
proof (cases "gget m (plan_key plan)")
  case (Some ps)
  assume m: "homogeneous m"
  then have "plan_key pl = plan_key plan" if "pl \<in> set ps" for pl
    using map_of_SomeD [OF Some] that by (fastforce simp: homogeneous_def)
  then show ?thesis using m Some by (auto simp: homogeneous_def add_plan_def dest!: in_set_gput)
qed (auto simp: homogeneous_def add_plan_def dest!: in_set_gput)

lemma grouped_plans:
  "mset (concat (map snd (groupPlansByPriorityAndGroup plans))) = mset plans"
  "homogeneous (groupPlansByPriorityAndGroup plans)"
proof -
  have "mset (concat (map snd (fold add_plan plans m))) = mset plans + mset (concat (map snd m))" for m
    by (induction plans arbitrary: m) (simp_all add: add_plan_mset)
  then show "mset (concat (map snd (groupPlansByPriorityAndGroup plans))) = mset plans"
    by (simp add: grouped_fold)
  have "homogeneous m \<Longrightarrow> homogeneous (fold add_plan plans m)" for m
    by (induction plans arbitrary: m) (simp_all add: homogeneous_add)
  then show "homogeneous (groupPlansByPriorityAndGroup plans)"
    by (simp add: grouped_fold homogeneous_Nil)
qed

definition piece_ok :: "BatchRecoveryConfig \<Rightarrow> (RecoveryPriority \<times> nat) \<times> RecoveryPlan list \<Rightarrow> bool" where
  "piece_ok cfg = (\<lambda>(k, ps). ps \<noteq> [] \<and> int (length ps) \<le> batch_size cfg (fst k) \<and>
     (\<forall>pl \<in> set ps. plan_key pl = k))"

lemma split_groups_correct:
  assumes "\<And>pr. 0 < batch_size cfg pr"
    and "homogeneous m"
  shows "\<exists>pieces. split_groups cfg m = Some pieces \<and> concat (map snd pieces) = concat (map snd m) \<and>
    list_all (piece_ok cfg) pieces"
  using assms(2)
proof (induction m)
  case (Cons e m)
  obtain pr g ps where e: "e = ((pr, g), ps)" by (metis surj_pair)
  obtain ys where ys: "split_batches (batch_size cfg pr) 0 ps = Some ys" "concat ys = ps"
      "\<forall>zs \<in> set ys. zs \<noteq> [] \<and> int (length zs) \<le> batch_size cfg pr"
    using split_batches_correct [OF assms(1) [of pr], of 0 ps] by auto
  obtain rest where rest: "split_groups cfg m = Some rest" "concat (map snd rest) = concat (map snd m)"
      "list_all (piece_ok cfg) rest" using Cons by (auto simp: homogeneous_def)
  have "plan_key pl = (pr, g)" if "zs \<in> set ys" "pl \<in> set zs" for zs pl
    using Cons.prems that ys(2) e by (auto simp: homogeneous_def)
  then have "list_all (piece_ok cfg) (map (Pair (pr, g)) ys)"
    using ys(3) by (auto simp: list_all_iff piece_ok_def)
  then show ?case using ys rest e by (simp add: comp_def)
qed simp

lemma load_keys_length: "load_keys plans p = (p', keys) \<Longrightarrow> length keys = length plans"
  by (induction plans arbitrary: p p' keys) (auto split: prod.splits)

lemma latest_fold:
  "(\<forall>pl \<in> set ps. plScheduledAt pl \<le> fold (\<lambda>pl latest. if plScheduledAt pl > latest then plScheduledAt pl else latest) ps t) \<and>
   t \<le> fold (\<lambda>pl latest. if plScheduledAt pl > latest then plScheduledAt pl else latest) ps t \<and>
   fold (\<lambda>pl latest. if plScheduledAt pl > latest then plScheduledAt pl else latest) ps t \<in> insert t (plScheduledAt ` set ps)"
proof (induction ps arbitrary: t)
  case (Cons p ps)
  show ?case using Cons.IH [of t] Cons.IH [of "plScheduledAt p"] by (auto intro: order_trans)
qed simp

lemma batch_time:
  "plans \<noteq> [] \<Longrightarrow> calculateBatchScheduleTime now plans = Max (plScheduledAt ` set plans)"
proof (cases plans)
  case (Cons p ps)
  then show ?thesis
    using latest_fold [of ps "plScheduledAt p"]
    by (intro Max_eqI [symmetric]) (auto simp: calculateBatchScheduleTime_def)
qed simp

text \<open>What a batch is made of.\<close>

definition batch_ok :: "BatchRecoveryConfig \<Rightarrow> RecoveryBatch \<Rightarrow> bool" where
  "batch_ok cfg b \<longleftrightarrow> rbPlans b \<noteq> [] \<and> int (length (rbPlans b)) \<le> batch_size cfg (rbPriority b) \<and>
     length (rbKeys b) = length (rbPlans b) \<and>
     (\<forall>pl \<in> set (rbPlans b). plPriority pl = rbPriority b \<and> plGroupID pl = rbGroupID b) \<and>
     rbScheduledAt b = Max (plScheduledAt ` set (rbPlans b))"

lemma make_batches_correct:
  assumes "make_batches clk j pieces p = (p', bs)" "list_all (piece_ok cfg) pieces"
  shows "map rbPlans bs = map snd pieces \<and> list_all (batch_ok cfg) bs"
  using assms
proof (induction pieces arbitrary: j p bs)
  case (Cons e pieces)
  obtain pr g ps where e: "e = ((pr, g), ps)" by (metis surj_pair)
  obtain p1 keys where k: "load_keys ps p = (p1, keys)" by fastforce
  obtain p2 rest where r: "make_batches clk (Suc j) pieces p1 = (p2, rest)" by fastforce
  have "ps \<noteq> []" using Cons.prems(2) e by (simp add: piece_ok_def)
  then show ?case
    using Cons.prems Cons.IH [of "Suc j" p1 rest] r k e load_keys_length [OF k] batch_time [of ps]
    by (auto simp: batch_ok_def piece_ok_def plan_key_def)
qed simp

text \<open>sort.Slice orders the batches by falling priority; it is not stable.\<close>

definition sorts_desc :: "RecoveryBatch iter \<Rightarrow> bool" where
  "sorts_desc srt \<longleftrightarrow> (\<forall>bs. mset (srt bs) = mset bs \<and>
     sorted_wrt (\<lambda>a b. rbPriority b \<le> rbPriority a) (srt bs))"

text \<open>C34: When every batch size is positive, the creation of the batches returns, whatever the database answers, and
  every plan is in exactly one batch. A batch is not empty and not longer than its priority allows, its
  plans have its priority and group, it has one place per plan for a key, it is scheduled at the latest time of its
  plans, and batches of a higher priority come first.\<close>

theorem batches_partition:
  assumes "\<And>pr. 0 < batch_size cfg pr" "iter_order ord" "sorts_desc srt"
  shows "\<exists>p' bs. CreateRecoveryBatches cfg ord srt clk plans p = Some (p', bs) \<and>
    mset (concat (map rbPlans bs)) = mset plans \<and> (\<forall>b \<in> set bs. batch_ok cfg b) \<and>
    sorted_wrt (\<lambda>a b. rbPriority b \<le> rbPriority a) bs"
proof (cases "plans = []")
  case False
  let ?m = "groupPlansByPriorityAndGroup plans"
  have perm: "mset (ord ?m) = mset ?m" using assms(2) by (simp add: iter_order_def)
  have set_m: "set (ord ?m) = set ?m" using mset_eq_setD [OF perm] .
  obtain pieces where pieces: "split_groups cfg (ord ?m) = Some pieces"
      "concat (map snd pieces) = concat (map snd (ord ?m))" "list_all (piece_ok cfg) pieces"
    using split_groups_correct [OF assms(1), of "ord ?m"] grouped_plans(2) [of plans] unfolding homogeneous_def set_m by blast
  obtain p' bs where m: "make_batches clk 0 pieces p = (p', bs)" by fastforce
  have bs: "map rbPlans bs = map snd pieces" "list_all (batch_ok cfg) bs"
    using make_batches_correct [OF m pieces(3)] by simp_all
  have srt: "mset (srt bs) = mset bs" "sorted_wrt (\<lambda>a b. rbPriority b \<le> rbPriority a) (srt bs)"
    using assms(3) by (simp_all add: sorts_desc_def)
  have "mset (concat (map rbPlans (srt bs))) = mset (concat (map rbPlans bs))"
    by (simp only: mset_concat_map srt(1))
  also have "\<dots> = mset plans"
    using grouped_plans(1) [of plans] by (simp only: bs(1) pieces(2) mset_concat_map perm)
  finally show ?thesis
    using False pieces(1) m srt bs(2) mset_eq_setD [OF srt(1)]
    by (simp add: CreateRecoveryBatches_def list_all_iff)
qed (simp add: CreateRecoveryBatches_def)

text \<open>Every key that was loaded is counted once.\<close>

lemma recover_keys_ids:
  "recover_keys move clk j keys p = (p', rs) \<Longrightarrow> map krKeyID rs = map ID keys"
proof (induction keys arbitrary: j p rs)
  case (Cons key keys)
  then show ?case by (auto simp: br_recoverSingleKey_def Let_def split: prod.splits)
qed simp

lemma batch_result_counts:
  assumes "br_processBatch move rd cfg ord clk t0 t1 batch p = Some (p', r)" "iter_order ord"
  shows "SuccessfulKeys r + FailedKeys r = length (List.map_filter id (rbKeys batch))"
    and "mset (map krKeyID (KeyResults r)) = mset (map ID (List.map_filter id (rbKeys batch)))"
proof -
  let ?keys = "List.map_filter id (rbKeys batch)"
  obtain p1 rs where rs: "recover_keys move clk 0 (ord ?keys) p = (p1, rs)" by fastforce
  have ids: "map krKeyID rs = map ID (ord ?keys)" by (rule recover_keys_ids [OF rs])
  have r: "KeyResults r = rs" "SuccessfulKeys r = length (filter krSuccess rs)"
      "FailedKeys r = length (filter (\<lambda>r. \<not> krSuccess r) rs)"
    using assms(1) rs by (auto simp: br_processBatch_def Let_def split: if_splits)
  have "length rs = length ?keys"
    using arg_cong [OF ids, of length] iter_order_length [OF assms(2)] by simp
  then show "SuccessfulKeys r + FailedKeys r = length ?keys"
    using r sum_length_filter_compl [of krSuccess rs] by simp
  show "mset (map krKeyID (KeyResults r)) = mset (map ID ?keys)"
    using assms(2) by (simp only: r(1) ids mset_map iter_order_def)
qed

text \<open>A batch below the threshold is only marked: what was moved stays moved.\<close>

lemma no_rollback:
  "map_option fst (br_processBatch move rd (cfg\<lparr>EnableRollback := a, MaxFailureRate := f\<rparr>) ord clk t0 t1 batch p) =
   map_option fst (br_processBatch move rd (cfg\<lparr>EnableRollback := b, MaxFailureRate := f'\<rparr>) ord clk t0 t1 batch p)"
  by (simp add: br_processBatch_def Let_def split: prod.splits)

text \<open>The default sizes are positive, but that of the low priority is above the maximum.\<close>

lemma default_batch_sizes:
  "0 < batch_size DefaultBatchRecoveryConfig pr"
  "batch_size DefaultBatchRecoveryConfig PriorityLow > brMaxBatchSize DefaultBatchRecoveryConfig"
  by (cases pr) (simp_all add: batch_size_def DefaultBatchRecoveryConfig_def)

text \<open>A batch submitted after a stop can panic, and so can a second stop.\<close>

lemma submit_after_stop:
  assumes "brRunning s" "\<not> brClosed s" "br_Stop s = Some s'"
  shows "SubmitBatch True batch s' = None" "br_Stop (fst (br_Start s')) = None"
  using assms by (auto simp: br_Stop_def br_Start_def SubmitBatch_def)

definition demo_plan :: "nat \<Rightarrow> RecoveryPriority \<Rightarrow> int \<Rightarrow> RecoveryPlan" where
  "demo_plan k pr t = \<lparr>plKeyID = k, plGroupID = 2, plPriority = pr, plScheduledAt = t, plEstimatedDelay = 0,
     plStrategy = ''smart_recovery'', plConditions = [], plRateLimitCount = 1, plLast429At = None,
     plHistoryCount = 0, plSeverity = None\<rparr>"

theorem batches_partition_witness:
  "\<exists>p' bs. CreateRecoveryBatches DefaultBatchRecoveryConfig id (sort_key (\<lambda>b. - int (priority_number (rbPriority b))))
     (\<lambda>_ _. 0) [demo_plan 7 PriorityLow 3, demo_plan 9 PriorityHigh 5] demo_pool_db = Some (p', bs) \<and>
     mset (concat (map rbPlans bs)) = {#demo_plan 7 PriorityLow 3, demo_plan 9 PriorityHigh 5#}"
proof -
  let ?srt = "sort_key (\<lambda>b :: RecoveryBatch. - int (priority_number (rbPriority b)))"
  have "sorted_wrt (\<lambda>a b. rbPriority b \<le> rbPriority a) (?srt bs)" for bs :: "RecoveryBatch list"
    using sorted_sort_key [of "\<lambda>b. - int (priority_number (rbPriority b))" bs]
    by (simp add: sorted_wrt_map less_eq_RecoveryPriority_def)
  then have "sorts_desc ?srt" by (simp add: sorts_desc_def)
  from batches_partition [OF default_batch_sizes(1) iter_order_id(1) this, of "\<lambda>_ _. 0"
      "[demo_plan 7 PriorityLow 3, demo_plan 9 PriorityHigh 5]" demo_pool_db]
  show ?thesis by auto
qed

end
