(* ===== verification/KeyValidation.thy ===== *)
theory KeyValidation
  imports KeyImport CacheSync
begin

text \<open>The validation of keys: src/internal/keypool/validator.go and the test of a text of keys in
  src/internal/services/key_service.go, the validation task of
  src/internal/services/key_manual_validation_service.go, and the periodic check of
  src/internal/keypool/cron_checker.go with the validator of src/internal/keypool/metrics.go. What the upstream answers
  to the i-th test and whether a channel can be made are arguments. A test starts a goroutine that updates the key; the
  tests return the list of these goroutines, which run in any order.\<close>

section \<open>Testing keys\<close>

datatype val_err = NoChannel string | KeyRejected string | NotInGroup | NilError

record KeyTestResult =
  ktKeyValue :: string
  ktIsValid :: bool
  ktError :: "val_err option"

definition fill_config :: "SystemSettings \<Rightarrow> GroupRow \<Rightarrow> GroupRow" where
  "fill_config settings grp =
    (if AppUrl (EffectiveConfig grp) = [] then grp\<lparr>EffectiveConfig := GetEffectiveConfig settings (gConfig grp)\<rparr>
     else grp)"

definition ValidateSingleKey ::
  "SystemSettings \<Rightarrow> (GroupRow \<Rightarrow> string option) \<Rightarrow> (APIKey \<Rightarrow> bool \<times> val_err option) \<Rightarrow> APIKey \<Rightarrow> GroupRow \<Rightarrow>
   GroupRow \<times> status_update list \<times> bool \<times> val_err option" where
  "ValidateSingleKey settings getChannel check key grp0 =
    (let grp = fill_config settings grp0 in
     case getChannel grp of
       Some e \<Rightarrow> (grp, [], False, Some (NoChannel e))
     | None \<Rightarrow>
         let (isValid, validationErr) = check key;
             update = (if isValid then Succeeded (ID key) (gID grp)
                       else Failed (BlacklistThreshold (EffectiveConfig grp)) (ID key) (gID grp))
         in (grp, [update], isValid, if isValid then None else validationErr))"

text \<open>The rows found, by their values; a later row replaces an earlier one.\<close>

definition existing_key :: "APIKey list \<Rightarrow> string \<Rightarrow> APIKey option" where
  "existing_key rows kv = find (\<lambda>k. KeyValue k = kv) (rev rows)"

fun test_each ::
  "SystemSettings \<Rightarrow> (GroupRow \<Rightarrow> string option) \<Rightarrow> (nat \<Rightarrow> APIKey \<Rightarrow> bool \<times> val_err option) \<Rightarrow> APIKey list \<Rightarrow>
   nat \<Rightarrow> string list \<Rightarrow> GroupRow \<Rightarrow> GroupRow \<times> status_update list \<times> KeyTestResult list" where
  "test_each settings getChannel check rows i [] grp = (grp, [], [])"
| "test_each settings getChannel check rows i (kv # kvs) grp =
    (let (grp1, us, r) = (case existing_key rows kv of
           None \<Rightarrow> (grp, [], \<lparr>ktKeyValue = kv, ktIsValid = False, ktError = Some NotInGroup\<rparr>)
         | Some apiKey \<Rightarrow>
             (case ValidateSingleKey settings getChannel (check i) apiKey grp of
                (grp1, us, isValid, err) \<Rightarrow>
                  (grp1, us, \<lparr>ktKeyValue = kv, ktIsValid = isValid, ktError = err\<rparr>)));
         (grp2, us', rs) = test_each settings getChannel check rows (Suc i) kvs grp1
     in (grp2, us @ us', r # rs))"

definition TestMultipleKeys ::
  "SystemSettings \<Rightarrow> (GroupRow \<Rightarrow> string option) \<Rightarrow> (nat \<Rightarrow> APIKey \<Rightarrow> bool \<times> val_err option) \<Rightarrow> db_err option \<Rightarrow>
   nat \<Rightarrow> GroupRow \<Rightarrow> string list \<Rightarrow> kp \<Rightarrow> GroupRow \<times> status_update list \<times> (db_err + KeyTestResult list)" where
  "TestMultipleKeys settings getChannel check find_err i grp keyValues p =
    (case find_err of
       Some e \<Rightarrow> (grp, [], Inl e)
     | None \<Rightarrow>
         let existingKeys = filter (\<lambda>k. GroupID k = gID grp \<and> KeyValue k \<in> set keyValues) (kdb p);
             (grp1, us, results) = test_each settings getChannel check existingKeys i keyValues grp
         in (grp1, us, Inr results))"

text \<open>The loop over the chunks of a text; \<^verbatim>\<open>find_errs j\<close> is the failure of the j-th query.\<close>

function test_chunks ::
  "SystemSettings \<Rightarrow> (GroupRow \<Rightarrow> string option) \<Rightarrow> (nat \<Rightarrow> APIKey \<Rightarrow> bool \<times> val_err option) \<Rightarrow>
   (nat \<Rightarrow> db_err option) \<Rightarrow> nat \<Rightarrow> nat \<Rightarrow> GroupRow \<Rightarrow> string list \<Rightarrow> kp \<Rightarrow>
   GroupRow \<times> status_update list \<times> (db_err + KeyTestResult list)" where
  "test_chunks settings getChannel check find_errs j i grp keys p =
    (if keys = [] then (grp, [], Inr [])
     else
     (case TestMultipleKeys settings getChannel check (find_errs j) i grp (take chunkSize keys) p of
        (grp1, us, Inl e) \<Rightarrow> (grp1, us, Inl e)
      | (grp1, us, Inr results) \<Rightarrow>
          (case test_chunks settings getChannel check find_errs (Suc j) (i + chunkSize) grp1 (drop chunkSize keys) p of
             (grp2, us', Inl e) \<Rightarrow> (grp2, us @ us', Inl e)
           | (grp2, us', Inr results') \<Rightarrow> (grp2, us @ us', Inr (results @ results')))))"
  by pat_completeness auto
termination
  by (relation "measure (\<lambda>(settings, getChannel, check, fe, j, i, grp, keys, p). length keys)") (auto simp: chunkSize_def)

declare test_chunks.simps [simp del]

definition TestMultipleKeysFromText ::
  "(string \<Rightarrow> bool \<times> string list) \<Rightarrow> SystemSettings \<Rightarrow> (GroupRow \<Rightarrow> string option) \<Rightarrow>
   (nat \<Rightarrow> APIKey \<Rightarrow> bool \<times> val_err option) \<Rightarrow> (nat \<Rightarrow> db_err option) \<Rightarrow> GroupRow \<Rightarrow> string \<Rightarrow> kp \<Rightarrow>
   GroupRow \<times> status_update list \<times> (ks_err + KeyTestResult list)" where
  "TestMultipleKeysFromText json settings getChannel check find_errs grp keysText p =
    (let keysToTest = ParseKeysFromText json keysText in
     if length keysToTest > maxRequestKeys then (grp, [], Inl (TooManyKeys (length keysToTest)))
     else if keysToTest = [] then (grp, [], Inl NoValidKeys)
     else
     (case test_chunks settings getChannel check find_errs 0 0 grp keysToTest p of
        (grp1, us, Inl e) \<Rightarrow> (grp1, us, Inl (ProviderFailed (KDb e)))
      | (grp1, us, Inr results) \<Rightarrow> (grp1, us, Inr results)))"

section \<open>The validation task\<close>

definition validationTimeout :: int where "validationTimeout = 1800000000000"

datatype validation_err = QueryFailed db_err | NoKeysToValidate | ValidationTaskFailed task_err

definition StartValidationTask ::
  "(TaskStatus \<Rightarrow> string option) \<Rightarrow> (string \<Rightarrow> TaskStatus option) \<Rightarrow> db_err option \<Rightarrow> int \<Rightarrow> GroupRow \<Rightarrow> string \<Rightarrow> kp \<Rightarrow>
   kp \<times> (validation_err + TaskStatus \<times> APIKey list)" where
  "StartValidationTask enc dec find_err now grp status p =
    (case find_err of
       Some e \<Rightarrow> (p, Inl (QueryFailed e))
     | None \<Rightarrow>
         let keys = filter (\<lambda>k. GroupID k = gID grp \<and> (status = [] \<or> Status k = status)) (kdb p) in
         if keys = [] then (p, Inl NoKeysToValidate)
         else
         (case StartTask enc dec now ''KEY_VALIDATION'' (gName grp) (int (length keys)) validationTimeout (kstore p) of
            (s, Inl e) \<Rightarrow> (p\<lparr>kstore := s\<rparr>, Inl (ValidationTaskFailed e))
          | (s, Inr st) \<Rightarrow> (p\<lparr>kstore := s\<rparr>, Inr (st, keys))))"

text \<open>The loop over the results as they arrive. For the n-th the clock is read as \<^verbatim>\<open>clk n 0\<close>,
  by the report as \<^verbatim>\<open>clk n 1\<close> and after it as \<^verbatim>\<open>clk n 2\<close>.\<close>

fun collect_results ::
  "(TaskStatus \<Rightarrow> string option) \<Rightarrow> (string \<Rightarrow> TaskStatus option) \<Rightarrow> (nat \<Rightarrow> nat \<Rightarrow> int) \<Rightarrow> nat \<Rightarrow> nat \<Rightarrow> int \<Rightarrow>
   bool list \<Rightarrow> mstore \<Rightarrow> mstore \<times> nat \<times> nat" where
  "collect_results enc dec clk processed valid lastUpdate [] s = (s, processed, valid)"
| "collect_results enc dec clk processed valid lastUpdate (isValid # results) s =
    (let n = Suc processed; v = (if isValid then Suc valid else valid) in
     if time_sub (clk n 0) lastUpdate > 1000000000
     then collect_results enc dec clk n v (clk n 2) results (fst (UpdateProgress enc dec (clk n 1) (int n) s))
     else collect_results enc dec clk n v lastUpdate results s)"

text \<open>The workers test every key once, if there is any worker; the results arrive in the order \<^verbatim>\<open>ord\<close>.\<close>

definition validation_results ::
  "int \<Rightarrow> (APIKey \<Rightarrow> bool) \<Rightarrow> bool iter \<Rightarrow> APIKey list \<Rightarrow> bool list" where
  "validation_results concurrency validate ord keys = (if concurrency \<le> 0 then [] else ord (map validate keys))"

definition runValidation ::
  "(TaskStatus \<Rightarrow> string option) \<Rightarrow> (string \<Rightarrow> TaskStatus option) \<Rightarrow> (nat \<Rightarrow> nat \<Rightarrow> nat \<Rightarrow> string) \<Rightarrow>
   (nat \<Rightarrow> nat \<Rightarrow> int) \<Rightarrow> int \<Rightarrow> int \<Rightarrow> int \<Rightarrow> (APIKey \<Rightarrow> bool) \<Rightarrow> bool iter \<Rightarrow> GroupRow \<Rightarrow> APIKey list \<Rightarrow>
   mstore \<Rightarrow> mstore" where
  "runValidation enc dec result_text clk tstart tfinal tend validate ord grp keys s =
    (let results = validation_results (KeyValidationConcurrency (EffectiveConfig grp)) validate ord keys;
         (s1, processedCount, validCount) = collect_results enc dec clk 0 0 tstart results s;
         s2 = fst (UpdateProgress enc dec tfinal (int processedCount) s1);
         outcome = result_text (length keys) validCount (length keys - validCount)
     in fst (EndTask enc dec tend (Inr (Some outcome)) s2))"

section \<open>The periodic check\<close>

definition DefaultValidateKey :: "int \<Rightarrow> APIKey \<Rightarrow> string option" where
  "DefaultValidateKey now key =
    (if KeyValue key = [] then Some ''EMPTY_KEY_VALUE''
     else if Status key = KeyStatusInvalid then Some ''INVALID_KEY_STATUS''
     else if Status key = KeyStatusRateLimited \<and> (case RateLimitResetAt key of None \<Rightarrow> False | Some t \<Rightarrow> now < t)
     then Some ''KEY_RATE_LIMITED''
     else None)"

definition DefaultValidateSingleKey :: "int \<Rightarrow> APIKey \<Rightarrow> bool \<times> string option" where
  "DefaultValidateSingleKey now key = (let err = DefaultValidateKey now key in (err = None, err))"

text \<open>The failures of the two statements are arguments. The result is the group and the number of keys that
  became valid; the workers test every key, if there is any worker and the checker is not stopped.\<close>

definition validateGroupKeys ::
  "db_err option \<Rightarrow> db_err option \<Rightarrow> (APIKey \<Rightarrow> bool \<times> string option) \<Rightarrow> int \<Rightarrow> APIKey list \<Rightarrow> GroupRow \<Rightarrow>
   GroupRow \<times> nat" where
  "validateGroupKeys find_err stamp_err validate now rows grp =
    (case find_err of
       Some e \<Rightarrow> (grp, 0)
     | None \<Rightarrow>
         let invalidKeys = filter (\<lambda>k. GroupID k = gID grp \<and> Status k = KeyStatusInvalid) rows;
             grp1 = (if stamp_err = None then grp\<lparr>LastValidatedAt := Some now\<rparr> else grp)
         in if invalidKeys = [] then (grp1, 0)
            else if KeyValidationConcurrency (EffectiveConfig grp) \<le> 0 then (grp1, 0)
            else (grp1, length (filter (\<lambda>k. fst (validate k)) invalidKeys)))"

definition validation_due :: "int \<Rightarrow> GroupRow \<Rightarrow> bool" where
  "validation_due startTime grp =
    (let interval = i64 (KeyValidationIntervalMinutes (EffectiveConfig grp) * 60000000000) in
     case LastValidatedAt grp of None \<Rightarrow> True | Some t \<Rightarrow> time_sub startTime t > interval)"

definition check_group ::
  "SystemSettings \<Rightarrow> (nat \<Rightarrow> db_err option) \<Rightarrow> (nat \<Rightarrow> db_err option) \<Rightarrow> (APIKey \<Rightarrow> bool \<times> string option) \<Rightarrow>
   int \<Rightarrow> (nat \<Rightarrow> int) \<Rightarrow> APIKey list \<Rightarrow> GroupRow \<Rightarrow> GroupRow \<times> nat" where
  "check_group settings find_errs stamp_errs validate startTime ends rows grp0 =
    (let grp = grp0\<lparr>EffectiveConfig := GetEffectiveConfig settings (gConfig grp0)\<rparr> in
     if validation_due startTime grp
     then validateGroupKeys (find_errs (gID grp)) (stamp_errs (gID grp)) validate (ends (gID grp)) rows grp
     else (grp, 0))"

definition submitValidationJobs ::
  "SystemSettings \<Rightarrow> db_err option \<Rightarrow> (nat \<Rightarrow> db_err option) \<Rightarrow> (nat \<Rightarrow> db_err option) \<Rightarrow>
   (APIKey \<Rightarrow> bool \<times> string option) \<Rightarrow> int \<Rightarrow> (nat \<Rightarrow> int) \<Rightarrow> APIKey list \<Rightarrow> GroupRow list \<Rightarrow>
   (GroupRow \<times> nat) list" where
  "submitValidationJobs settings find_err find_errs stamp_errs validate startTime ends rows groups =
    (if find_err \<noteq> None then []
     else map (check_group settings find_errs stamp_errs validate startTime ends rows) groups)"

section \<open>What the goroutines do to the table\<close>

text \<open>The row after a success or a failure.\<close>

fun row_after :: "status_update \<Rightarrow> APIKey \<Rightarrow> APIKey" where
  "row_after (Succeeded kid gid) k = k\<lparr>FailureCount := 0, Status := KeyStatusActive\<rparr>"
| "row_after (Failed th kid gid) k =
    (if Status k = KeyStatusInvalid then k
     else let n = i64 (FailureCount k + 1) in
       k\<lparr>FailureCount := n, Status := (if 0 < th \<and> th \<le> n then KeyStatusInvalid else Status k)\<rparr>)"
| "row_after (RateLimited now rst kid gid) k = k"

lemma row_after_ids [simp]: "ID (row_after u k) = ID k" "GroupID (row_after u k) = GroupID k"
  by (cases u; simp add: Let_def)+

lemma db_update_id:
  assumes "distinct (map ID rows)" "k \<in> set rows" "f k = k"
  shows "db_update (ID k) f rows = rows"
proof -
  have "(if ID x = ID k then f x else x) = x" if "x \<in> set rows" for x
    using same_id [OF assms(1) that assms(2)] assms(3) by (cases "ID x = ID k") auto
  then show ?thesis by (simp add: db_update_def map_idI)
qed

lemma db_update_cong_row:
  assumes "distinct (map ID rows)" "k \<in> set rows" "f k = g k"
  shows "db_update (ID k) f rows = db_update (ID k) g rows"
  using same_id [OF assms(1) _ assms(2)] assms(3) by (auto simp: db_update_def)

lemma success_table:
  assumes "ok p" "k \<in> set (kdb p)" "handleSuccess (\<lambda>_. tx_ok) (ID k) (GroupID k) p = (p', r)"
  shows "ok p' \<and> kdb p' = db_update (ID k) (row_after (Succeeded (ID k) (GroupID k))) (kdb p)"
proof -
  have kp: "kp_ok p" and sy: "synced (view p)" using assms(1) by (auto simp: ok_def)
  have kv: "k \<in> set (vdb (view p))" using assms(2) by simp
  have rg: "right_group (ID k) (GroupID k) p"
    using same_id [OF ok_distinct [OF assms(1)] _ assms(2)] by (auto simp: right_group_def)
  have okp: "ok p'" by (rule handleSuccess_ok [OF assms(1) _ rg assms(3)]) (simp add: commits_def)
  obtain h where h: "mem_HGetAll (key_hash (ID k)) (kstore p) = (kstore p, Inr h)"
    "\<And>f. field_text h f = text_of (vhashes (view p) (ID k)) f" using read_hash [OF kp] by blast
  define act where "act = (Status k = KeyStatusActive)"
  have ht: "(field_text h ''status'' = KeyStatusActive) = act" "fst (ParseInt (field_text h ''failure_count'')) = FailureCount k"
    using synced_text [OF sy kv] h(2) synced_parts(3) [OF sy kv] by (simp_all add: act_def)
  show ?thesis
  proof (cases "FailureCount k = 0 \<and> act")
    case True
    then have "p' = p" using assms(3) h(1) ht by (simp add: handleSuccess_def Let_def)
    moreover have "row_after (Succeeded (ID k) (GroupID k)) k = k" using True by (cases k) (simp add: act_def)
    ultimately show ?thesis
      using okp db_update_id [OF ok_distinct [OF assms(1)] assms(2)] by (simp del: row_after.simps)
  next
    case False
    have d: "does (run_all (success_store act (ID k) (GroupID k)))
        (if act then (\<lambda>v. on_hash (ID k) (hash_upd [(''failure_count'', AInt 0)]) v)
         else (\<lambda>v. on_list (GroupID k) (\<lambda>l. show_nat (ID k) # l) (on_list (GroupID k) (removeAll (show_nat (ID k)))
           (on_hash (ID k) (hash_upd [(''failure_count'', AInt 0), (''status'', AStr KeyStatusActive)]) v))))" for key :: APIKey
      unfolding success_store_def using does_success_active does_success_inactive by simp
    have e: "executeTransactionWithRetry (\<lambda>_. tx_ok) (\<lambda>env. lock_row env (ID k) (\<lambda>key. run_all
        (in_db (update_err env) (db_update (ID k) (success_row act)) # success_store act (ID k) (GroupID k)))) p = (p', r)"
      using assms(3) h(1) ht False by (auto simp: handleSuccess_def Let_def)
    note res = locked_tx_ok [OF kp db_find_row [OF ok_distinct [OF assms(1)] assms(2)] d e]
    have "kdb p' = db_update (ID k) (success_row act) (kdb p)"
      using view_eq_db [of p'] res by (auto split: if_splits)
    also have "\<dots> = db_update (ID k) (row_after (Succeeded (ID k) (GroupID k))) (kdb p)"
      by (rule db_update_cong_row [OF ok_distinct [OF assms(1)] assms(2)]) (simp add: success_row_def act_def)
    finally show ?thesis using okp by simp
  qed
qed

lemma failure_table:
  assumes "ok p" "k \<in> set (kdb p)" "handleFailure (\<lambda>_. tx_ok) th (ID k) (GroupID k) p = (p', r)"
  shows "ok p' \<and> kdb p' = db_update (ID k) (row_after (Failed th (ID k) (GroupID k))) (kdb p)"
proof -
  have kp: "kp_ok p" and sy: "synced (view p)" using assms(1) by (auto simp: ok_def)
  have kv: "k \<in> set (vdb (view p))" using assms(2) by simp
  have rg: "right_group (ID k) (GroupID k) p"
    using same_id [OF ok_distinct [OF assms(1)] _ assms(2)] by (auto simp: right_group_def)
  have okp: "ok p'" by (rule handleFailure_ok [OF assms(1) _ rg assms(3)]) (simp add: commits_def)
  obtain h where h: "mem_HGetAll (key_hash (ID k)) (kstore p) = (kstore p, Inr h)"
    "\<And>f. field_text h f = text_of (vhashes (view p) (ID k)) f" using read_hash [OF kp] by blast
  define n where "n = i64 (FailureCount k + 1)"
  define bl where "bl = (0 < th \<and> th \<le> n)"
  have ht: "field_text h ''status'' = Status k" "i64 (fst (ParseInt (field_text h ''failure_count'')) + 1) = n"
    using synced_text [OF sy kv] h(2) by (simp_all add: n_def)
  show ?thesis
  proof (cases "Status k = KeyStatusInvalid")
    case True
    then have "p' = p" using assms(3) h(1) ht by (simp add: handleFailure_def)
    then show ?thesis
      using okp True db_update_id [OF ok_distinct [OF assms(1)] assms(2), of "row_after (Failed th (ID k) (GroupID k))"]
      by simp
  next
    case False
    have d: "does (run_all (failure_store bl (ID k) (GroupID k))) (\<lambda>v. if bl
        then on_hash (ID k) (hash_upd [(''status'', AStr KeyStatusInvalid)])
          (on_list (GroupID k) (removeAll (show_nat (ID k))) (on_hash (ID k) (\<lambda>h. h(''failure_count'' \<mapsto>
            show_int (i64 (fst (ParseInt (text_of h ''failure_count'')) + 1)))) v))
        else on_hash (ID k) (\<lambda>h. h(''failure_count'' \<mapsto>
            show_int (i64 (fst (ParseInt (text_of h ''failure_count'')) + 1)))) v)" for key :: APIKey
      unfolding failure_store_def using does_failure_keep does_failure_blacklist by simp
    have e: "executeTransactionWithRetry (\<lambda>_. tx_ok) (\<lambda>env. lock_row env (ID k) (\<lambda>key. run_all
        (in_db (update_err env) (db_update (ID k) (failure_row n bl)) # failure_store bl (ID k) (GroupID k)))) p = (p', r)"
      using assms(3) False h(1) ht by (simp add: handleFailure_def Let_def bl_def)
    note res = locked_tx_ok [OF kp db_find_row [OF ok_distinct [OF assms(1)] assms(2)] d e]
    have "kdb p' = db_update (ID k) (failure_row n bl) (kdb p)"
      using view_eq_db [of p'] res by (auto split: if_splits)
    also have "\<dots> = db_update (ID k) (row_after (Failed th (ID k) (GroupID k))) (kdb p)"
      by (rule db_update_cong_row [OF ok_distinct [OF assms(1)] assms(2)])
        (use False in \<open>simp add: failure_row_def n_def bl_def Let_def\<close>)
    finally show ?thesis using okp by simp
  qed
qed

text \<open>The goroutines of a test, one after another.\<close>

definition run_updates :: "status_update list \<Rightarrow> kp \<Rightarrow> kp" where
  "run_updates us p = fold (\<lambda>u p. fst (run_update (\<lambda>_. tx_ok) u p)) us p"

definition update_of :: "status_update \<Rightarrow> APIKey \<Rightarrow> bool" where
  "update_of u k \<longleftrightarrow> u = Succeeded (ID k) (GroupID k) \<or> (\<exists>th. u = Failed th (ID k) (GroupID k))"

lemma update_table:
  assumes "ok p" "k \<in> set (kdb p)" "update_of u k"
  shows "ok (fst (run_update (\<lambda>_. tx_ok) u p)) \<and>
    kdb (fst (run_update (\<lambda>_. tx_ok) u p)) = db_update (ID k) (row_after u) (kdb p)"
  using assms(3) success_table [OF assms(1,2)] failure_table [OF assms(1,2)]
  unfolding update_of_def by (auto simp del: row_after.simps) (metis prod.collapse)+

lemma db_update_other: "k \<in> set rows \<Longrightarrow> ID k \<noteq> i \<Longrightarrow> k \<in> set (db_update i f rows)"
  by (force simp: db_update_def)

text \<open>Every tested key is updated once, every other row is left alone.\<close>

lemma run_updates_table:
  assumes "ok p" "\<forall>u \<in> set us. \<exists>k \<in> set (kdb p). update_of u k" "distinct (map updated_key us)"
  shows "ok (run_updates us p) \<and>
    (\<forall>k \<in> set (kdb p). (\<forall>u \<in> set us. updated_key u \<noteq> ID k) \<longrightarrow> k \<in> set (kdb (run_updates us p))) \<and>
    (\<forall>u \<in> set us. \<forall>k \<in> set (kdb p). update_of u k \<longrightarrow> row_after u k \<in> set (kdb (run_updates us p)))"
  using assms
proof (induction us arbitrary: p)
  case (Cons u us)
  obtain k0 where k0: "k0 \<in> set (kdb p)" "update_of u k0" using Cons.prems(2) by auto
  let ?p = "fst (run_update (\<lambda>_. tx_ok) u p)"
  note t = update_table [OF Cons.prems(1) k0]
  have id0: "updated_key u = ID k0" using k0(2) by (auto simp: update_of_def)
  have keep: "k \<in> set (kdb ?p)" if "k \<in> set (kdb p)" "ID k \<noteq> updated_key u" for k
    using t db_update_other [OF that(1)] that(2) id0 by simp
  have upd: "updated_key v = ID k" if "update_of v k" for v k using that by (auto simp: update_of_def)
  have apart: "updated_key v \<noteq> updated_key u" if "v \<in> set us" for v
    using Cons.prems(3) imageI [OF that, of updated_key] by auto
  have next_key: "\<forall>v \<in> set us. \<exists>k \<in> set (kdb ?p). update_of v k"
    using Cons.prems(2) keep upd apart by (metis list.set_intros(2))
  have d: "distinct (map updated_key us)" using Cons.prems(3) by simp
  have r: "run_updates (u # us) p = run_updates us ?p" by (simp add: run_updates_def)
  note IH = Cons.IH [OF conjunct1 [OF t] next_key d]
  have first: "row_after u k \<in> set (kdb (run_updates us ?p))" if "k \<in> set (kdb p)" "update_of u k" for k
  proof -
    have "row_after u k \<in> set (kdb ?p)"
      using t in_db_update [OF that(1), of "row_after u"] upd [OF that(2)] id0 by simp
    then show ?thesis using IH apart upd [OF that(2)] by auto
  qed
  have rest: "row_after v k \<in> set (kdb (run_updates us ?p))"
    if "v \<in> set us" "k \<in> set (kdb p)" "update_of v k" for v k
    using IH keep [OF that(2)] apart [OF that(1)] upd [OF that(3)] that by simp
  have others: "k \<in> set (kdb (run_updates us ?p))"
    if "k \<in> set (kdb p)" "\<forall>v \<in> set (u # us). updated_key v \<noteq> ID k" for k
    using IH keep [OF that(1)] that(2) by simp
  show ?case unfolding r
    using IH first rest others by (simp del: row_after.simps)
qed (simp add: run_updates_def)

section \<open>A test of several keys\<close>

lemma fill_config_idem [simp]: "fill_config settings (fill_config settings grp) = fill_config settings grp"
  by (simp add: fill_config_def)

lemma fill_config_id [simp]: "gID (fill_config settings grp) = gID grp"
  by (simp add: fill_config_def)

definition one_result :: "(nat \<Rightarrow> APIKey \<Rightarrow> bool \<times> val_err option) \<Rightarrow> APIKey list \<Rightarrow> nat \<times> string \<Rightarrow> KeyTestResult" where
  "one_result check rows = (\<lambda>(j, kv). case existing_key rows kv of
     None \<Rightarrow> \<lparr>ktKeyValue = kv, ktIsValid = False, ktError = Some NotInGroup\<rparr>
   | Some k \<Rightarrow> \<lparr>ktKeyValue = kv, ktIsValid = fst (check j k),
       ktError = (if fst (check j k) then None else snd (check j k))\<rparr>)"

definition the_update :: "int \<Rightarrow> bool \<Rightarrow> APIKey \<Rightarrow> status_update" where
  "the_update th isValid k = (if isValid then Succeeded (ID k) (GroupID k) else Failed th (ID k) (GroupID k))"

definition one_update :: "int \<Rightarrow> (nat \<Rightarrow> APIKey \<Rightarrow> bool \<times> val_err option) \<Rightarrow> APIKey list \<Rightarrow> nat \<times> string \<Rightarrow>
    status_update list" where
  "one_update th check rows = (\<lambda>(j, kv). case existing_key rows kv of
     None \<Rightarrow> [] | Some k \<Rightarrow> [the_update th (fst (check j k)) k])"

lemma found: "find P xs = Some x \<Longrightarrow> x \<in> set xs \<and> P x"
  by (induction xs) (auto split: if_splits)

lemma existing_key_row: "existing_key rows kv = Some k \<Longrightarrow> k \<in> set rows \<and> KeyValue k = kv"
  using found [of "\<lambda>k. KeyValue k = kv" "rev rows"] by (simp add: existing_key_def)

lemma test_each_spec:
  assumes "getChannel (fill_config settings grp) = None" "\<forall>k \<in> set rows. GroupID k = gID grp"
    and "th = BlacklistThreshold (EffectiveConfig (fill_config settings grp))"
    and "test_each settings getChannel check rows i kvs grp = (grp', us, rs)"
  shows "rs = map (one_result check rows) (enumerate i kvs) \<and>
    us = concat (map (one_update th check rows) (enumerate i kvs))"
  using assms
proof (induction kvs arbitrary: i grp grp' us rs)
  case (Cons kv kvs)
  let ?fill = "fill_config settings grp"
  define g1 where "g1 = (if existing_key rows kv = None then grp else ?fill)"
  obtain grp2 us2 rs2 where t: "test_each settings getChannel check rows (Suc i) kvs g1 = (grp2, us2, rs2)"
    by (metis surj_pair)
  have IH: "rs2 = map (one_result check rows) (enumerate (Suc i) kvs) \<and>
      us2 = concat (map (one_update th check rows) (enumerate (Suc i) kvs))"
    by (rule Cons.IH [OF _ _ _ t]) (use Cons.prems(1-3) in \<open>simp_all add: g1_def\<close>)
  show ?case
  proof (cases "existing_key rows kv")
    case None
    then have "rs = one_result check rows (i, kv) # rs2" "us = us2"
      using Cons.prems(4) t by (simp_all add: g1_def one_result_def)
    then show ?thesis using IH None by (simp add: one_update_def)
  next
    case (Some k)
    have "GroupID k = gID grp" using existing_key_row [OF Some] Cons.prems(2) by simp
    then have "rs = one_result check rows (i, kv) # rs2" "us = the_update th (fst (check i k)) k # us2"
      using Cons.prems(1,3,4) t Some
      by (auto simp: g1_def one_result_def the_update_def ValidateSingleKey_def Let_def case_prod_beta)
    then show ?thesis using IH Some by (simp add: one_update_def)
  qed
qed simp

lemma find_filter_cong: "(\<And>x. P x \<Longrightarrow> Q x = R x) \<Longrightarrow> find P (filter Q xs) = find P (filter R xs)"
  by (induction xs) auto

lemma existing_in_group:
  "kv \<in> set values \<Longrightarrow> existing_key (filter (\<lambda>k. GroupID k = g \<and> KeyValue k \<in> set values) rows) kv =
     existing_key (filter (\<lambda>k. GroupID k = g) rows) kv"
  unfolding existing_key_def rev_filter by (rule find_filter_cong) auto

lemma the_update_key [simp]: "updated_key (the_update th b k) = ID k" "update_of (the_update th b k) k"
  by (simp_all add: the_update_def update_of_def)

lemma updates_of_rows:
  "u \<in> set (concat (map (one_update th check rows) (enumerate i kvs))) \<Longrightarrow>
   \<exists>k \<in> set rows. KeyValue k \<in> set kvs \<and> update_of u k \<and> updated_key u = ID k"
proof (induction kvs arbitrary: i)
  case (Cons kv kvs)
  show ?case
  proof (cases "u \<in> set (one_update th check rows (i, kv))")
    case True
    then obtain k where "existing_key rows kv = Some k" "u = the_update th (fst (check i k)) k"
      by (cases "existing_key rows kv") (auto simp: one_update_def)
    then show ?thesis using existing_key_row [of rows kv k] by auto
  next
    case False
    then show ?thesis using Cons.IH [of "Suc i"] Cons.prems by auto
  qed
qed simp

lemma updates_distinct:
  "distinct kvs \<Longrightarrow> distinct (map ID rows) \<Longrightarrow>
   distinct (map updated_key (concat (map (one_update th check rows) (enumerate i kvs))))"
proof (induction kvs arbitrary: i)
  case (Cons kv kvs)
  define us where "us = concat (map (one_update th check rows) (enumerate (Suc i) kvs))"
  have apart: "updated_key u \<noteq> ID k" if k: "existing_key rows kv = Some k" and u: "u \<in> set us" for k u
  proof
    assume same: "updated_key u = ID k"
    obtain k' where k': "k' \<in> set rows" "KeyValue k' \<in> set kvs" "updated_key u = ID k'"
      using updates_of_rows [OF u [unfolded us_def]] by blast
    have "k' = k" using same_id [OF Cons.prems(2) k'(1)] existing_key_row [OF k] k'(3) same by simp
    then show False using existing_key_row [OF k] k'(2) Cons.prems(1) by simp
  qed
  have d: "distinct (map updated_key us)" using Cons by (simp add: us_def)
  have "concat (map (one_update th check rows) (enumerate i (kv # kvs))) = one_update th check rows (i, kv) @ us"
    by (simp add: us_def)
  moreover have "distinct (map updated_key (one_update th check rows (i, kv) @ us))"
  proof (cases "existing_key rows kv")
    case (Some k)
    have "ID k \<notin> updated_key ` set us" using apart [OF Some] by force
    then show ?thesis using d Some by (simp add: one_update_def)
  qed (use d in \<open>simp add: one_update_def\<close>)
  ultimately show ?case by simp
qed simp

lemma test_updates:
  assumes "ok p" "distinct values" "getChannel (fill_config settings grp) = None"
    and "TestMultipleKeys settings getChannel check None 0 grp values p = (grp', us, Inr results)"
    and "mset us' = mset us"
  defines "rows \<equiv> filter (\<lambda>k. GroupID k = gID grp) (kdb p)"
    and "th \<equiv> BlacklistThreshold (EffectiveConfig (fill_config settings grp))"
  shows "results = map (one_result check rows) (enumerate 0 values)"
    and "distinct (map updated_key us')"
    and "v \<in> set us' \<Longrightarrow> \<exists>k \<in> set rows. KeyValue k \<in> set values \<and> update_of v k \<and> updated_key v = ID k"
    and "j < length values \<Longrightarrow> existing_key rows (values ! j) = Some k \<Longrightarrow>
      the_update th (fst (check j k)) k \<in> set us'"
proof -
  define found where "found = filter (\<lambda>k. GroupID k = gID grp \<and> KeyValue k \<in> set values) (kdb p)"
  have same: "existing_key found kv = existing_key rows kv" if "kv \<in> set values" for kv
    using existing_in_group [OF that] by (simp add: found_def rows_def)
  have ids: "distinct (map ID found)"
    using ok_distinct [OF assms(1)] by (simp add: found_def distinct_filter_ids)
  have t: "test_each settings getChannel check found 0 values grp = (grp', us, results)"
    using assms(4) by (auto simp: TestMultipleKeys_def found_def split: prod.splits)
  have "\<forall>k \<in> set found. GroupID k = gID grp" by (simp add: found_def)
  note spec = test_each_spec [OF assms(3) this th_def [THEN meta_eq_to_obj_eq] t]
  have in_values: "kv \<in> set values" if "(j, kv) \<in> set (enumerate 0 values)" for j kv
    using that by (auto simp: in_set_enumerate_eq)
  show "results = map (one_result check rows) (enumerate 0 values)"
    using spec same in_values by (auto simp: one_result_def)
  have us: "set us' = set us" using mset_eq_setD [OF assms(5)] .
  show "distinct (map updated_key us')"
    using updates_distinct [OF assms(2) ids, of th check 0]
      mset_eq_imp_distinct_iff [of "map updated_key us'" "map updated_key us"] assms(5) spec by simp
  show "\<exists>k \<in> set rows. KeyValue k \<in> set values \<and> update_of v k \<and> updated_key v = ID k" if "v \<in> set us'"
    using updates_of_rows [of v th check found 0 "values"] that us spec by (auto simp: found_def rows_def)
  show "the_update th (fst (check j k)) k \<in> set us'"
    if "j < length values" "existing_key rows (values ! j) = Some k"
    using that same [of "values ! j"] spec us
    by (auto simp: one_update_def in_set_enumerate_eq intro!: bexI [of _ "(j, values ! j)"])
qed

text \<open>C37: Testing a list of keys answers for every value: a value that is not in the group is reported as
  such and not tested, any other gets the verdict of the upstream. Once the goroutines it started
  have run, in any order, a key that passed has no failures, is active and among the keys that are selected, whatever
  its status was; one that failed has counted a failure, up to the blacklist threshold of the group; no other
  key has changed, and the store agrees with the table.\<close>

theorem validation_restores_keys:
  assumes "ok p" "distinct values" "getChannel (fill_config settings grp) = None"
    and "TestMultipleKeys settings getChannel check None 0 grp values p = (grp', us, Inr results)"
    and "mset us' = mset us" and "p' = run_updates us' p"
  shows "ok p' \<and> length results = length values \<and>
    (\<forall>j < length values.
       case existing_key (filter (\<lambda>k. GroupID k = gID grp) (kdb p)) (values ! j) of
         None \<Rightarrow> \<not> ktIsValid (results ! j) \<and> ktError (results ! j) = Some NotInGroup
       | Some k \<Rightarrow> ktIsValid (results ! j) = fst (check j k) \<and>
           (if fst (check j k)
            then k\<lparr>FailureCount := 0, Status := KeyStatusActive\<rparr> \<in> set (kdb p') \<and>
              show_nat (ID k) \<in> set (vlists (view p') (gID grp))
            else row_after (Failed (BlacklistThreshold (EffectiveConfig (fill_config settings grp))) (ID k) (gID grp)) k
              \<in> set (kdb p'))) \<and>
    (\<forall>k \<in> set (kdb p). GroupID k \<noteq> gID grp \<or> KeyValue k \<notin> set values \<longrightarrow> k \<in> set (kdb p'))"
proof -
  define rows where "rows = filter (\<lambda>k. GroupID k = gID grp) (kdb p)"
  define th where "th = BlacklistThreshold (EffectiveConfig (fill_config settings grp))"
  note t = test_updates [OF assms(1-5), folded rows_def th_def]
  have in_rows: "k \<in> set (kdb p) \<and> GroupID k = gID grp" if "k \<in> set rows" for k
    using that by (simp add: rows_def)
  have "\<forall>v \<in> set us'. \<exists>k \<in> set (kdb p). update_of v k" using t(3) in_rows by blast
  note run = run_updates_table [OF assms(1) this t(2), folded assms(6)]
  have listed: "show_nat (ID k) \<in> set (vlists (view p') (gID grp))"
    if "k\<lparr>FailureCount := 0, Status := KeyStatusActive\<rparr> \<in> set (kdb p')" "GroupID k = gID grp" for k
    using in_list_iff [of "view p'" "k\<lparr>FailureCount := 0, Status := KeyStatusActive\<rparr>"] run that
    by (simp add: ok_def)
  have one: "case existing_key rows (values ! j) of
         None \<Rightarrow> \<not> ktIsValid (results ! j) \<and> ktError (results ! j) = Some NotInGroup
       | Some k \<Rightarrow> ktIsValid (results ! j) = fst (check j k) \<and>
           (if fst (check j k)
            then k\<lparr>FailureCount := 0, Status := KeyStatusActive\<rparr> \<in> set (kdb p') \<and>
              show_nat (ID k) \<in> set (vlists (view p') (gID grp))
            else row_after (Failed th (ID k) (gID grp)) k \<in> set (kdb p'))" if j: "j < length values" for j
  proof (cases "existing_key rows (values ! j)")
    case None
    then show ?thesis using j by (simp add: t(1) nth_enumerate_eq one_result_def)
  next
    case (Some k)
    have k: "k \<in> set (kdb p) \<and> GroupID k = gID grp" using existing_key_row [OF Some] in_rows by blast
    have "row_after (the_update th (fst (check j k)) k) k \<in> set (kdb p')"
      using run t(4) [OF j Some] k by simp
    then show ?thesis
      using listed [of k] k j
      by (cases "fst (check j k)") (simp_all add: Some t(1) nth_enumerate_eq one_result_def the_update_def)
  qed
  have other: "k \<in> set (kdb p')"
    if k: "k \<in> set (kdb p)" "GroupID k \<noteq> gID grp \<or> KeyValue k \<notin> set values" for k
  proof -
    have "updated_key v \<noteq> ID k" if "v \<in> set us'" for v
      using t(3) [OF that] in_rows same_id [OF ok_distinct [OF assms(1)] _ k(1)] k(2) by metis
    then show ?thesis using run k(1) by blast
  qed
  have "length results = length values" by (simp add: t(1))
  then show ?thesis using run one other unfolding rows_def th_def by blast
qed

text \<open>A rate-limited key that passes, and a value the group does not have.\<close>

theorem validation_restores_keys_witness:
  "\<exists>us results. TestMultipleKeys zero_settings (\<lambda>_. None) (\<lambda>_ _. (True, None)) None 0 demo_row [''sk-2'', ''sk-9''] demo_loaded =
      (demo_row, us, Inr results) \<and> map ktIsValid results = [True, False] \<and>
    ok (run_updates us demo_loaded) \<and> show_nat 2 \<in> set (vlists (view (run_updates us demo_loaded)) 1)"
proof -
  have sn: "show_nat (Suc 0) = ''1''" "show_nat 2 = ''2''" by code_simp+
  have d: "kdb demo_loaded = [demo_key 1 KeyStatusActive, demo_key 2 KeyStatusRateLimited]"
    by (simp add: demo_loaded_ok(2) demo_def)
  have fill: "fill_config zero_settings demo_row = demo_row"
    by (simp add: fill_config_def demo_row_def GetEffectiveConfig_def)
  have g: "gID demo_row = 1" by (simp add: demo_row_def)
  let ?results = "[\<lparr>ktKeyValue = ''sk-2'', ktIsValid = True, ktError = None\<rparr>,
    \<lparr>ktKeyValue = ''sk-9'', ktIsValid = False, ktError = Some NotInGroup\<rparr>]"
  have t: "TestMultipleKeys zero_settings (\<lambda>_. None) (\<lambda>_ _. (True, None)) None 0 demo_row [''sk-2'', ''sk-9''] demo_loaded =
      (demo_row, [Succeeded 2 1], Inr ?results)"
    by (simp add: TestMultipleKeys_def d ValidateSingleKey_def existing_key_def fill g demo_key_def sn Let_def)
  have ke: "existing_key (filter (\<lambda>k. GroupID k = gID demo_row) (kdb demo_loaded)) ''sk-2'' =
      Some (demo_key 2 KeyStatusRateLimited)"
    by (simp add: d existing_key_def g demo_key_def sn)
  have i: "ID (demo_key 2 KeyStatusRateLimited) = 2" by (simp add: demo_key_def)
  from validation_restores_keys [OF demo_loaded_ok(1) _ _ t refl refl] ke i g
  have "ok (run_updates [Succeeded 2 1] demo_loaded)"
      "show_nat 2 \<in> set (vlists (view (run_updates [Succeeded 2 1] demo_loaded)) 1)"
    by (auto dest!: spec [of _ 0])
  then show ?thesis using t by auto
qed

section \<open>The record of the task\<close>

lemma collect_running:
  assumes "holds_task dec (st\<lparr>Processed := m\<rparr>) until s" "IsRunning st" "T \<le> until" "0 \<le> t0"
    and "\<forall>n i. t0 \<le> clk n i \<and> clk n i \<le> T" "T \<le> t0 + ResultTTL" "in_i64 (T + ResultTTL)"
    and "\<forall>n \<le> processed + length rs. reads_back enc dec (st\<lparr>Processed := int n\<rparr>)"
    and "collect_results enc dec clk processed valid lastUpdate rs s = (s', p', v')"
  shows "p' = processed + length rs \<and> v' = valid + length (filter id rs) \<and>
    (\<exists>m until. T \<le> until \<and> holds_task dec (st\<lparr>Processed := m\<rparr>) until s')"
  using assms(1,3,8,9)
proof (induction rs arbitrary: m until s processed valid lastUpdate)
  case Nil
  then show ?case by auto
next
  case (Cons r rs)
  let ?n = "Suc processed" and ?v = "if r then Suc valid else valid"
  have rb: "\<forall>n \<le> ?n + length rs. reads_back enc dec (st\<lparr>Processed := int n\<rparr>)" using Cons.prems(3) by simp
  show ?case
  proof (cases "time_sub (clk ?n 0) lastUpdate > 1000000000")
    case True
    have c: "t0 \<le> clk ?n 1" "clk ?n 1 \<le> T" using assms(5) by simp_all
    have i: "in_i64 (clk ?n 1 + ResultTTL)"
      using c assms(4,7) by (simp add: in_i64_def ResultTTL_def)
    have r0: "reads_back enc dec (st\<lparr>Processed := m, Processed := int ?n\<rparr>)"
      using rb [rule_format, of ?n] by simp
    obtain s1 where s1: "UpdateProgress enc dec (clk ?n 1) (int ?n) s = (s1, Inr ())"
        "holds_task dec (st\<lparr>Processed := int ?n\<rparr>) (clk ?n 1 + ResultTTL) s1"
      using progress_running [OF Cons.prems(1) _ _ _ i r0] assms(2,4) c Cons.prems(2) by auto
    have later: "T \<le> clk ?n 1 + ResultTTL" using c assms(6) by simp
    have rest: "collect_results enc dec clk ?n ?v (clk ?n 2) rs s1 = (s', p', v')"
      using Cons.prems(4) True s1(1) by (simp add: Let_def)
    show ?thesis using Cons.IH [OF s1(2) later rb rest] by auto
  next
    case False
    then have rest: "collect_results enc dec clk ?n ?v lastUpdate rs s = (s', p', v')"
      using Cons.prems(4) by (simp add: Let_def)
    show ?thesis using Cons.IH [OF Cons.prems(1,2) rb rest] by auto
  qed
qed

text \<open>What the record of a validation says at its end.\<close>

definition validation_report ::
  "(nat \<Rightarrow> nat \<Rightarrow> nat \<Rightarrow> string) \<Rightarrow> int \<Rightarrow> (APIKey \<Rightarrow> bool) \<Rightarrow> GroupRow \<Rightarrow> APIKey list \<Rightarrow> TaskStatus \<Rightarrow> TaskStatus" where
  "validation_report result_text tend validate grp keys st =
    (let tested = 0 < KeyValidationConcurrency (EffectiveConfig grp);
         good = (if tested then length (filter validate keys) else 0)
     in ended tend (Inr (Some (result_text (length keys) good (length keys - good))))
          (st\<lparr>Processed := (if tested then int (length keys) else 0)\<rparr>))"

lemma start_validation:
  assumes "StartValidationTask enc dec None t0 grp status p0 = (p, Inr (st, keys))"
    and "0 \<le> t0" "t0 + validationTimeout \<le> 9223372036854775807" "reads_back enc dec (st\<lparr>Processed := 0\<rparr>)"
  shows "keys = filter (\<lambda>k. GroupID k = gID grp \<and> (status = [] \<or> Status k = status)) (kdb p0) \<and>
    IsRunning st \<and> holds_task dec (st\<lparr>Processed := 0\<rparr>) (t0 + validationTimeout) (kstore p)"
proof -
  have keys: "keys = filter (\<lambda>k. GroupID k = gID grp \<and> (status = [] \<or> Status k = status)) (kdb p0)"
    and started: "StartTask enc dec t0 ''KEY_VALIDATION'' (gName grp) (int (length keys)) validationTimeout (kstore p0) =
      (kstore p, Inr st)"
    using assms(1) by (auto simp: StartValidationTask_def Let_def split: if_splits prod.splits sum.splits)
  have st: "st = new_status ''KEY_VALIDATION'' (gName grp) (int (length keys)) t0"
    using started by (auto simp: StartTask_def Let_def split: prod.splits sum.splits if_splits)
  have st0: "st\<lparr>Processed := 0\<rparr> = st" by (simp add: st new_status_def no_task_def)
  obtain s0 where "store_status enc t0 validationTimeout st s0 = (kstore p, Inr ())"
    using started st by (auto simp: StartTask_def Let_def split: prod.splits sum.splits if_splits)
  then have "holds_task dec st (t0 + validationTimeout) (kstore p)"
    using store_status_holds [OF assms(4) [unfolded st0], of validationTimeout t0 s0] assms(2,3)
    by (simp add: validationTimeout_def in_i64_def)
  then show ?thesis using keys st0 by (simp add: st new_status_def no_task_def)
qed

lemma results_counted:
  assumes "iter_order ord"
  shows "length (validation_results c validate ord keys) = (if 0 < c then length keys else 0)"
    "length (filter id (validation_results c validate ord keys)) = (if 0 < c then length (filter validate keys) else 0)"
proof -
  have "mset (filter id (ord (map validate keys))) = mset (filter id (map validate keys))"
    using assms by (simp add: iter_order_def mset_filter)
  then have "length (filter id (ord (map validate keys))) = length (filter validate keys)"
    using mset_eq_length by (fastforce simp: filter_map comp_def)
  then show "length (filter id (validation_results c validate ord keys)) = (if 0 < c then length (filter validate keys) else 0)"
    by (simp add: validation_results_def)
  show "length (validation_results c validate ord keys) = (if 0 < c then length keys else 0)"
    using iter_order_length [OF assms] by (simp add: validation_results_def)
qed

text \<open>C38: A validation task that is over within its timeout of half an hour tests the keys of the group with the
  status asked for, and ends with a record, readable for ResultTTL, that counts the keys that passed and those that
  did not, in whatever order the workers finish; without any worker it reports every key as
  invalid although none was tested.\<close>

theorem validation_task_reports:
  assumes "StartValidationTask enc dec None t0 grp status p0 = (p, Inr (st, keys))" "iter_order ord"
    and "0 \<le> t0" "t0 + validationTimeout + ResultTTL \<le> 9223372036854775807"
    and "\<forall>n i. t0 \<le> clk n i \<and> clk n i \<le> t0 + validationTimeout"
    and "t0 \<le> tfinal" "tfinal \<le> t0 + validationTimeout" "t0 \<le> tend" "tend \<le> t0 + validationTimeout"
    and "tend \<le> t" "t \<le> tend + ResultTTL"
    and "\<forall>n \<le> length keys. reads_back enc dec (st\<lparr>Processed := int n\<rparr>)"
    and "reads_back enc dec (validation_report result_text tend validate grp keys st)"
    and "runValidation enc dec result_text clk tstart tfinal tend validate ord grp keys (kstore p) = s'"
  shows "keys = filter (\<lambda>k. GroupID k = gID grp \<and> (status = [] \<or> Status k = status)) (kdb p0) \<and>
    GetTaskStatus dec t s' = (s', Inr (validation_report result_text tend validate grp keys st))"
proof -
  define T where "T = t0 + validationTimeout"
  have T: "T \<le> t0 + ResultTTL" "in_i64 (T + ResultTTL)" "0 \<le> T"
    using assms(3,4) by (simp_all add: T_def in_i64_def validationTimeout_def ResultTTL_def)
  have ttl: "in_i64 (x + ResultTTL)" if "t0 \<le> x" "x \<le> T" for x
    using that assms(3) T(2) by (simp add: in_i64_def ResultTTL_def)
  have rb0: "reads_back enc dec (st\<lparr>Processed := 0\<rparr>)" using assms(12) [rule_format, of 0] by simp
  have small: "t0 + validationTimeout \<le> 9223372036854775807" using assms(4) by (simp add: ResultTTL_def)
  note begun = start_validation [OF assms(1,3) small rb0, folded T_def]
  then have run: "IsRunning st" and h: "holds_task dec (st\<lparr>Processed := 0\<rparr>) T (kstore p)" by simp_all
  define results where "results = validation_results (KeyValidationConcurrency (EffectiveConfig grp)) validate ord keys"
  obtain s1 n v where c: "collect_results enc dec clk 0 0 tstart results (kstore p) = (s1, n, v)"
    by (metis surj_pair)
  have len: "length results \<le> length keys" by (simp add: results_def results_counted [OF assms(2)])
  obtain m u where s1: "n = length results" "v = length (filter id results)" "T \<le> u"
      "holds_task dec (st\<lparr>Processed := m\<rparr>) u s1"
    using collect_running [OF h run order_refl assms(3) assms(5) [folded T_def] T(1,2) _ c] assms(12) len by auto
  have rb1: "reads_back enc dec (st\<lparr>Processed := m, Processed := int n\<rparr>)" using assms(12) len s1(1) by simp
  obtain s2 where s2: "UpdateProgress enc dec tfinal (int n) s1 = (s2, Inr ())"
      "holds_task dec (st\<lparr>Processed := int n\<rparr>) (tfinal + ResultTTL) s2"
    using progress_running [OF s1(4) _ _ _ ttl rb1] run s1(3) assms(3,6,7) by (auto simp: T_def)
  have report: "ended tend (Inr (Some (result_text (length keys) v (length keys - v)))) (st\<lparr>Processed := int n\<rparr>) =
      validation_report result_text tend validate grp keys st"
    by (simp add: validation_report_def s1(1,2) results_def results_counted [OF assms(2)] Let_def)
  have late: "tend \<le> tfinal + ResultTTL" using assms(6,9) T(1) by (simp add: T_def)
  obtain s3 where s3: "EndTask enc dec tend (Inr (Some (result_text (length keys) v (length keys - v)))) s2 = (s3, Inr ())"
      "holds_task dec (validation_report result_text tend validate grp keys st) (tend + ResultTTL) s3"
    using end_running [OF s2(2) _ late _ ttl, of enc "Inr (Some (result_text (length keys) v (length keys - v)))"]
      run assms(3,8,9,13) by (auto simp: T_def report)
  have "s' = s3"
    using assms(14) c s2(1) s3(1) by (simp add: runValidation_def results_def [symmetric] Let_def)
  then show ?thesis
    using begun ended_read [OF s3(2) [folded report] assms(10,11)] report by simp
qed

text \<open>Two keys, of which the upstream accepts the first.\<close>

definition validating_row :: GroupRow where
  "validating_row = demo_row\<lparr>EffectiveConfig := zero_settings\<lparr>KeyValidationConcurrency := 2\<rparr>\<rparr>"

definition validating :: TaskStatus where
  "validating = new_status ''KEY_VALIDATION'' ''g'' 2 0"

definition validated :: TaskStatus where
  "validated = ended 0 (Inr (Some ''1/1'')) (validating\<lparr>Processed := 2\<rparr>)"

definition val_write :: "TaskStatus \<Rightarrow> string option" where
  "val_write st = Some (if IsRunning st then show_int (Processed st) else ''end'')"

definition val_read :: "string \<Rightarrow> TaskStatus option" where
  "val_read text = Some (if text = ''0'' then validating else if text = ''1'' then validating\<lparr>Processed := 1\<rparr>
     else if text = ''2'' then validating\<lparr>Processed := 2\<rparr> else validated)"

theorem validation_task_reports_witness:
  "\<exists>p. snd (StartValidationTask val_write val_read None 0 validating_row [] demo_loaded) = Inr (validating, kdb demo) \<and>
    GetTaskStatus val_read 0 p = (p, Inr validated)"
proof -
  let ?val = "\<lambda>k. ID k = 1" and ?text = "\<lambda>(total::nat) v i. show_nat v @ ''/'' @ show_nat i"
  have sn: "show_int 0 = ''0''" "show_int 1 = ''1''" "show_int 2 = ''2''" "show_nat (Suc 0) = ''1''" by code_simp+
  have d: "kdb demo_loaded = kdb demo" "kdb demo = [demo_key 1 KeyStatusActive, demo_key 2 KeyStatusRateLimited]"
    by (simp_all add: demo_loaded_ok(2) demo_def)
  have nt: "kstore demo_loaded globalTaskKey = None" by code_simp
  have g: "gID validating_row = 1" "gName validating_row = ''g''" "EffectiveConfig validating_row = zero_settings\<lparr>KeyValidationConcurrency := 2\<rparr>"
    by (simp_all add: validating_row_def demo_row_def)
  have v: "IsRunning validating" "Processed validating = 0" by (simp_all add: validating_def new_status_def no_task_def)
  have keys: "filter (\<lambda>k. GroupID k = 1 \<and> ([] = [] \<or> Status k = [])) (kdb demo) = kdb demo" by (simp add: d demo_key_def)
  obtain p where start: "StartValidationTask val_write val_read None 0 validating_row [] demo_loaded = (p, Inr (validating, kdb demo))"
    using keys
    by (simp add: StartValidationTask_def d g demo_key_def StartTask_def get_none [where s = "kstore demo_loaded", OF nt]
        store_status_def val_write_def mem_Set_def validating_def Let_def)
  have rep: "validation_report ?text 0 ?val validating_row (kdb demo) validating = validated"
    by (simp add: validation_report_def validated_def g d demo_key_def sn)
  have rb: "\<forall>n \<le> length (kdb demo). reads_back val_write val_read (validating\<lparr>Processed := int n\<rparr>)"
    using v by (auto simp: d reads_back_def val_write_def val_read_def sn le_Suc_eq numeral_2_eq_2)
  have re: "reads_back val_write val_read (validation_report ?text 0 ?val validating_row (kdb demo) validating)"
    unfolding rep by (simp add: reads_back_def val_write_def val_read_def validated_def)
  from validation_task_reports [OF start iter_order_id(1) _ _ _ _ _ _ _ _ _ rb re refl, of "\<lambda>_ _. 0" 0 0 0, unfolded rep]
  have "\<exists>p. GetTaskStatus val_read 0 p = (p, Inr validated)"
    by (auto simp: validationTimeout_def ResultTTL_def)
  then show ?thesis using start by auto
qed

section \<open>The periodic check restores no key\<close>

text \<open>The checker asks only for keys whose status is invalid, which its validator rejects for that.\<close>

lemma cron_restores_nothing:
  "\<forall>(grp, n) \<in> set (submitValidationJobs settings fe fes ues (DefaultValidateSingleKey now) t0 ends rows groups). n = 0"
proof -
  have none: "snd (validateGroupKeys e1 e2 (DefaultValidateSingleKey now) t rows grp) = 0" for e1 e2 t grp
  proof -
    have "filter (\<lambda>k. fst (DefaultValidateSingleKey now k))
        (filter (\<lambda>k. GroupID k = gID grp \<and> Status k = KeyStatusInvalid) rows) = []"
      by (auto simp: filter_empty_conv DefaultValidateSingleKey_def DefaultValidateKey_def)
    then show ?thesis by (simp add: validateGroupKeys_def Let_def del: filter_filter split: option.split)
  qed
  have "snd (check_group settings fes ues (DefaultValidateSingleKey now) t0 ends rows g) = 0" for g
    using none by (simp add: check_group_def Let_def)
  then have "snd x = 0" if "x \<in> set (submitValidationJobs settings fe fes ues (DefaultValidateSingleKey now) t0 ends rows groups)"
    for x using that by (auto simp: submitValidationJobs_def split: if_splits)
  then show ?thesis by (metis (mono_tags, lifting) case_prodI2 snd_conv)
qed

end
