(* ===== verification/KeyHandler.thy ===== *)
theory KeyHandler
  imports GroupHandler KeyValidation "HOL-Library.Product_Lexorder"
begin

text \<open>The requests that manage the keys of a group: src/internal/handler/key_handler.go over the key service, the
  import, the test and the validation of keys, with the pages of src/internal/response/pagination.go. A handler is a
  function from the state of the server and the decoded request to the new state and the answer. Which statements
  fail in the database, the groups the group manager has cached and what the upstream answers are arguments.\<close>

section \<open>Requests and answers\<close>

record KeyTextRequest =
  ktGroupID :: nat
  ktKeysText :: string

type_synonym GroupIDRequest = nat

record ValidateGroupKeysRequest =
  vkGroupID :: nat
  vkStatus :: string

text \<open>The error of a handler: one of the predefined errors as it is, or a code with the text of another error.\<close>

datatype key_error =
    Plain api_error
  | BadGroupID string
  | NoKeysText
  | KeysTextRejected ks_err
  | BadStatus
  | GroupNotCached string
  | TaskInProgress "import_err + validation_err"

type_synonym 'a key_handler = "server \<Rightarrow> server \<times> (key_error + 'a)"

text \<open>ShouldBindJSON: None is a raw that is no such object; a required field may not have its zero value.\<close>

definition bind_keys_text :: "KeyTextRequest option \<Rightarrow> KeyTextRequest option" where
  "bind_keys_text raw =
    (case raw of
       None \<Rightarrow> None
     | Some r \<Rightarrow> if ktGroupID r = 0 \<or> ktKeysText r = [] then None else Some r)"

definition bind_group_id :: "GroupIDRequest option \<Rightarrow> GroupIDRequest option" where
  "bind_group_id raw = (case raw of None \<Rightarrow> None | Some gid \<Rightarrow> if gid = 0 then None else Some gid)"

definition bind_validate :: "ValidateGroupKeysRequest option \<Rightarrow> ValidateGroupKeysRequest option" where
  "bind_validate raw = (case raw of None \<Rightarrow> None | Some r \<Rightarrow> if vkGroupID r = 0 then None else Some r)"

definition ParseDBError :: "kp_err \<Rightarrow> api_error" where
  "ParseDBError e =
    (case e of KRecordNotFound \<Rightarrow> ErrResourceNotFound | KDuplicate \<Rightarrow> ErrDuplicateResource | _ \<Rightarrow> ErrDatabase)"

text \<open>The errors of the key service; the first two are recognised by their texts.\<close>

definition service_error :: "ks_err \<Rightarrow> key_error" where
  "service_error e =
    (case e of
       TooManyKeys n \<Rightarrow> KeysTextRejected e
     | NoValidKeys \<Rightarrow> KeysTextRejected e
     | ProviderFailed k \<Rightarrow> Plain (ParseDBError k)
     | CountFailed d \<Rightarrow> Plain (ParseDBError (KDb d)))"

definition validateGroupIDFromQuery :: "string \<Rightarrow> string + nat" where
  "validateGroupIDFromQuery groupIDStr =
    (if groupIDStr = [] then Inl ''group_id query parameter is required''
     else (case path_id groupIDStr of
       None \<Rightarrow> Inl ''invalid group_id format''
     | Some groupID \<Rightarrow> if groupID \<le> 0 then Inl ''invalid group_id format'' else Inr (nat groupID)))"

definition validateKeysText :: "string \<Rightarrow> bool" where
  "validateKeysText keysText \<longleftrightarrow> TrimSpace keysText \<noteq> []"

definition findGroupByID :: "(stmt \<Rightarrow> bool) \<Rightarrow> nat \<Rightarrow> server \<Rightarrow> api_error + DbGroup" where
  "findGroupByID fails groupID s =
    (if fails FindGroup then Inl (ParseDBError (KDb DbOther))
     else case find (\<lambda>g. gID g = groupID) (svGroups s) of
       None \<Rightarrow> Inl ErrResourceNotFound
     | Some g \<Rightarrow> Inr g)"

section \<open>Requests with a text of keys\<close>

text \<open>The steps the handlers with a text share: binding, the group, the text, then the service.\<close>

definition with_keys_text ::
  "(stmt \<Rightarrow> bool) \<Rightarrow> (nat \<Rightarrow> string \<Rightarrow> kp \<Rightarrow> kp \<times> (ks_err + 'a)) \<Rightarrow> KeyTextRequest option \<Rightarrow> 'a key_handler" where
  "with_keys_text fails service raw s =
    (case bind_keys_text raw of
       None \<Rightarrow> (s, Inl (Plain ErrInvalidJSON))
     | Some req \<Rightarrow>
         (case findGroupByID fails (ktGroupID req) s of
           Inl e \<Rightarrow> (s, Inl (Plain e))
         | Inr _ \<Rightarrow>
             if \<not> validateKeysText (ktKeysText req) then (s, Inl NoKeysText)
             else (case service (ktGroupID req) (ktKeysText req) (svKeys s) of
               (p, Inl e) \<Rightarrow> (s\<lparr>svKeys := p\<rparr>, Inl (service_error e))
             | (p, Inr result) \<Rightarrow> (s\<lparr>svKeys := p\<rparr>, Inr result))))"

definition AddMultipleKeysRequest ::
  "(string \<Rightarrow> bool \<times> string list) \<Rightarrow> (stmt \<Rightarrow> bool) \<Rightarrow> db_err option \<Rightarrow> db_err option \<Rightarrow> (nat \<Rightarrow> tx_env) \<Rightarrow>
   KeyTextRequest option \<Rightarrow> AddKeysResult key_handler" where
  "AddMultipleKeysRequest json fails find_err count_err envs =
    with_keys_text fails (AddMultipleKeys json find_err count_err envs)"

definition DeleteMultipleKeysRequest ::
  "(string \<Rightarrow> bool \<times> string list) \<Rightarrow> (stmt \<Rightarrow> bool) \<Rightarrow> db_err option \<Rightarrow> (nat \<Rightarrow> tx_env) \<Rightarrow>
   KeyTextRequest option \<Rightarrow> (nat \<times> nat \<times> nat) key_handler" where
  "DeleteMultipleKeysRequest json fails count_err envs =
    with_keys_text fails (DeleteMultipleKeys json count_err envs)"

definition RestoreMultipleKeysRequest ::
  "(string \<Rightarrow> bool \<times> string list) \<Rightarrow> (stmt \<Rightarrow> bool) \<Rightarrow> db_err option \<Rightarrow> (nat \<Rightarrow> tx_env) \<Rightarrow>
   KeyTextRequest option \<Rightarrow> (nat \<times> nat \<times> nat) key_handler" where
  "RestoreMultipleKeysRequest json fails count_err envs =
    with_keys_text fails (RestoreMultipleKeysFromText json count_err envs)"

text \<open>The import is started for the name of the group; its keys come with the answer.\<close>

definition AddMultipleKeysAsync ::
  "task_codec \<Rightarrow> (stmt \<Rightarrow> bool) \<Rightarrow> int \<Rightarrow> KeyTextRequest option \<Rightarrow> (TaskStatus \<times> string list) key_handler" where
  "AddMultipleKeysAsync tc fails now raw s =
    (case bind_keys_text raw of
       None \<Rightarrow> (s, Inl (Plain ErrInvalidJSON))
     | Some req \<Rightarrow>
         (case findGroupByID fails (ktGroupID req) s of
           Inl e \<Rightarrow> (s, Inl (Plain e))
         | Inr g \<Rightarrow>
             if \<not> validateKeysText (ktKeysText req) then (s, Inl NoKeysText)
             else (case StartImportTask (task_enc tc) (task_dec tc) (json_strings tc) now (gName g)
                 (ktKeysText req) (svKeys s) of
               (p, Inl e) \<Rightarrow> (s\<lparr>svKeys := p\<rparr>, Inl (TaskInProgress (Inl e)))
             | (p, Inr task) \<Rightarrow> (s\<lparr>svKeys := p\<rparr>, Inr task))))"

text \<open>The test of keys answers with the results and the goroutines it started. The cached group is the one the
  service fills in, so the cache is part of the result.\<close>

definition TestMultipleKeysRequest ::
  "(string \<Rightarrow> bool \<times> string list) \<Rightarrow> SystemSettings \<Rightarrow> (GroupRow \<Rightarrow> string option) \<Rightarrow>
   (nat \<Rightarrow> APIKey \<Rightarrow> bool \<times> val_err option) \<Rightarrow> (nat \<Rightarrow> db_err option) \<Rightarrow> (stmt \<Rightarrow> bool) \<Rightarrow> KeyTextRequest option \<Rightarrow>
   (string \<Rightarrow> GroupRow option) \<Rightarrow> server \<Rightarrow>
   (string \<Rightarrow> GroupRow option) \<times> status_update list \<times> (key_error + KeyTestResult list)" where
  "TestMultipleKeysRequest json settings getChannel check find_errs fails raw cache s =
    (case bind_keys_text raw of
       None \<Rightarrow> (cache, [], Inl (Plain ErrInvalidJSON))
     | Some req \<Rightarrow>
         (case findGroupByID fails (ktGroupID req) s of
           Inl e \<Rightarrow> (cache, [], Inl (Plain e))
         | Inr groupDB \<Rightarrow>
             (case GetGroupByName cache (gName groupDB) of
               None \<Rightarrow> (cache, [], Inl (GroupNotCached (gName groupDB)))
             | Some grp \<Rightarrow>
                 if \<not> validateKeysText (ktKeysText req) then (cache, [], Inl NoKeysText)
                 else (case TestMultipleKeysFromText json settings getChannel check find_errs grp
                     (ktKeysText req) (svKeys s) of
                   (grp1, us, Inl e) \<Rightarrow> (cache(gName groupDB \<mapsto> grp1), us, Inl (service_error e))
                 | (grp1, us, Inr results) \<Rightarrow> (cache(gName groupDB \<mapsto> grp1), us, Inr results)))))"

section \<open>Requests for all keys of a group\<close>

definition ValidateGroupKeys ::
  "task_codec \<Rightarrow> (stmt \<Rightarrow> bool) \<Rightarrow> db_err option \<Rightarrow> int \<Rightarrow> (string \<Rightarrow> GroupRow option) \<Rightarrow>
   ValidateGroupKeysRequest option \<Rightarrow> (TaskStatus \<times> APIKey list) key_handler" where
  "ValidateGroupKeys tc fails find_err now cache raw s =
    (case bind_validate raw of
       None \<Rightarrow> (s, Inl (Plain ErrInvalidJSON))
     | Some req \<Rightarrow>
         if vkStatus req \<noteq> [] \<and> vkStatus req \<noteq> KeyStatusActive \<and> vkStatus req \<noteq> KeyStatusInvalid
         then (s, Inl BadStatus)
         else (case findGroupByID fails (vkGroupID req) s of
           Inl e \<Rightarrow> (s, Inl (Plain e))
         | Inr groupDB \<Rightarrow>
             (case GetGroupByName cache (gName groupDB) of
               None \<Rightarrow> (s, Inl (GroupNotCached (gName groupDB)))
             | Some grp \<Rightarrow>
                 (case StartValidationTask (task_enc tc) (task_dec tc) find_err now grp (vkStatus req) (svKeys s) of
                   (p, Inl e) \<Rightarrow> (s\<lparr>svKeys := p\<rparr>, Inl (TaskInProgress (Inr e)))
                 | (p, Inr task) \<Rightarrow> (s\<lparr>svKeys := p\<rparr>, Inr task)))))"

text \<open>The methods of the key service behind the next three, with the KeyProvider as the active provider.\<close>

definition ks_RestoreAllInvalidKeys :: "tx_env \<Rightarrow> nat \<Rightarrow> kp \<Rightarrow> kp \<times> nat \<times> kp_err option" where
  "ks_RestoreAllInvalidKeys env groupID = RestoreKeys env groupID"

definition ks_ClearAllInvalidKeys :: "tx_env \<Rightarrow> nat \<Rightarrow> kp \<Rightarrow> kp \<times> nat \<times> kp_err option" where
  "ks_ClearAllInvalidKeys env groupID = RemoveInvalidKeys env groupID"

definition ks_ClearAllKeys :: "tx_env \<Rightarrow> nat \<Rightarrow> kp \<Rightarrow> kp \<times> nat \<times> kp_err option" where
  "ks_ClearAllKeys env groupID = RemoveAllKeys env groupID"

definition with_group_id ::
  "(stmt \<Rightarrow> bool) \<Rightarrow> (nat \<Rightarrow> kp \<Rightarrow> kp \<times> nat \<times> kp_err option) \<Rightarrow> string \<Rightarrow> GroupIDRequest option \<Rightarrow>
   string key_handler" where
  "with_group_id fails service message raw s =
    (case bind_group_id raw of
       None \<Rightarrow> (s, Inl (Plain ErrInvalidJSON))
     | Some gid \<Rightarrow>
         (case findGroupByID fails gid s of
           Inl e \<Rightarrow> (s, Inl (Plain e))
         | Inr _ \<Rightarrow>
             (case service gid (svKeys s) of
               (p, _, Some e) \<Rightarrow> (s\<lparr>svKeys := p\<rparr>, Inl (Plain (ParseDBError e)))
             | (p, rowsAffected, None) \<Rightarrow> (s\<lparr>svKeys := p\<rparr>, Inr (show_nat rowsAffected @ message)))))"

definition RestoreAllInvalidKeys :: "(stmt \<Rightarrow> bool) \<Rightarrow> tx_env \<Rightarrow> GroupIDRequest option \<Rightarrow> string key_handler" where
  "RestoreAllInvalidKeys fails env = with_group_id fails (ks_RestoreAllInvalidKeys env) '' keys restored.''"

definition ClearAllInvalidKeys :: "(stmt \<Rightarrow> bool) \<Rightarrow> tx_env \<Rightarrow> GroupIDRequest option \<Rightarrow> string key_handler" where
  "ClearAllInvalidKeys fails env = with_group_id fails (ks_ClearAllInvalidKeys env) '' invalid keys cleared.''"

definition ClearAllKeys :: "(stmt \<Rightarrow> bool) \<Rightarrow> tx_env \<Rightarrow> GroupIDRequest option \<Rightarrow> string key_handler" where
  "ClearAllKeys fails env = with_group_id fails (ks_ClearAllKeys env) '' keys cleared.''"

section \<open>Lists and pages\<close>

definition DefaultPageSize :: int where "DefaultPageSize = 15"

definition MaxPageSize :: int where "MaxPageSize = 1000"

record 'a PaginatedResponse =
  Items :: "'a list"
  Page :: int
  PageSize :: int
  TotalItems :: int
  TotalPages :: int

definition requested_page :: "string option \<Rightarrow> int" where
  "requested_page text =
    (case path_id (case text of None \<Rightarrow> ''1'' | Some t \<Rightarrow> t) of
       Some page \<Rightarrow> if page < 1 then 1 else page
     | None \<Rightarrow> 1)"

definition requested_size :: "string option \<Rightarrow> int" where
  "requested_size text =
    (let pageSize = (case path_id (case text of None \<Rightarrow> show_int DefaultPageSize | Some t \<Rightarrow> t) of
           Some sz \<Rightarrow> if sz \<le> 0 then DefaultPageSize else sz
         | None \<Rightarrow> DefaultPageSize)
     in if pageSize > MaxPageSize then MaxPageSize else pageSize)"

text \<open>The rows of a query in its order; the flag is a failure of one of the two statements. An offset that is not
  positive is no offset. The quotient the code takes in floating point and rounds up is exact below 2^42 items.\<close>

definition Paginate :: "bool \<Rightarrow> string option \<Rightarrow> string option \<Rightarrow> 'a list \<Rightarrow> 'a PaginatedResponse option" where
  "Paginate failing page_text size_text rows =
    (if failing then None
     else
     let page = requested_page page_text; pageSize = requested_size size_text;
         totalItems = int (length rows);
         offset = i64 ((page - 1) * pageSize);
         totalPages = (totalItems + pageSize - 1) div pageSize
     in Some \<lparr>Items = take (nat pageSize) (drop (nat offset) rows), Page = page, PageSize = pageSize,
          TotalItems = totalItems, TotalPages = totalPages\<rparr>)"

text \<open>How the database matches a LIKE pattern and in which order it returns the rows are arguments. The
  query asks for the rows by the columns last_used_at and updated_at, both descending, and says
  nothing on rows that agree in both: each execution of the query may put them in another order.
  Whether a row that was never used counts as the latest or the earliest is up to the database.
  The record of a key does not keep the two columns: \<^verbatim>\<open>cols\<close> gives them by its id.\<close>

definition list_rank :: "bool \<Rightarrow> (nat \<Rightarrow> int option \<times> int) \<Rightarrow> APIKey \<Rightarrow> (int \<times> int) \<times> int" where
  "list_rank nulls_high cols k =
    ((case fst (cols (ID k)) of None \<Rightarrow> (if nulls_high then 1 else - 1, 0) | Some t \<Rightarrow> (0, t)), snd (cols (ID k)))"

definition list_order :: "bool \<Rightarrow> (nat \<Rightarrow> int option \<times> int) \<Rightarrow> APIKey iter \<Rightarrow> bool" where
  "list_order nulls_high cols ord \<longleftrightarrow>
    (\<forall>rows. mset (ord rows) = mset rows \<and> sorted (rev (map (list_rank nulls_high cols) (ord rows))))"

definition ListKeysInGroupQuery ::
  "(string \<Rightarrow> string \<Rightarrow> bool) \<Rightarrow> APIKey iter \<Rightarrow> nat \<Rightarrow> string \<Rightarrow> string \<Rightarrow> kp \<Rightarrow> APIKey list" where
  "ListKeysInGroupQuery like ord groupID statusFilter searchKeyword p =
    ord (filter (\<lambda>k. GroupID k = groupID \<and> (statusFilter \<noteq> [] \<longrightarrow> Status k = statusFilter) \<and>
      (searchKeyword \<noteq> [] \<longrightarrow> like (''%'' @ searchKeyword @ ''%'') (KeyValue k))) (kdb p))"

definition ListKeysInGroup ::
  "(string \<Rightarrow> string \<Rightarrow> bool) \<Rightarrow> APIKey iter \<Rightarrow> (stmt \<Rightarrow> bool) \<Rightarrow> string \<Rightarrow> string \<Rightarrow> string \<Rightarrow> string option \<Rightarrow>
   string option \<Rightarrow> APIKey PaginatedResponse key_handler" where
  "ListKeysInGroup like ord fails group_id statusFilter searchKeyword page page_size s =
    (case validateGroupIDFromQuery group_id of
       Inl e \<Rightarrow> (s, Inl (BadGroupID e))
     | Inr groupID \<Rightarrow>
         (case findGroupByID fails groupID s of
           Inl e \<Rightarrow> (s, Inl (Plain e))
         | Inr _ \<Rightarrow>
             if statusFilter \<noteq> [] \<and> statusFilter \<noteq> KeyStatusActive \<and> statusFilter \<noteq> KeyStatusInvalid
             then (s, Inl BadStatus)
             else (case Paginate (fails FindKeys) page page_size
                 (ListKeysInGroupQuery like ord groupID statusFilter searchKeyword (svKeys s)) of
               None \<Rightarrow> (s, Inl (Plain ErrDatabase))
             | Some response \<Rightarrow> (s, Inr response))))"

text \<open>The export: the name of the file and its text. An error of the stream is only logged; \<^verbatim>\<open>partial\<close> is what
  has been written by then.\<close>

definition ExportKeys ::
  "(string \<Rightarrow> string) \<Rightarrow> (stmt \<Rightarrow> bool) \<Rightarrow> string \<Rightarrow> string \<Rightarrow> (string \<times> string) key_handler" where
  "ExportKeys partial fails group_id status s =
    (case validateGroupIDFromQuery group_id of
       Inl e \<Rightarrow> (s, Inl (BadGroupID e))
     | Inr groupID \<Rightarrow>
         let statusFilter = (if status = [] then ''all'' else status) in
         if statusFilter \<noteq> ''all'' \<and> statusFilter \<noteq> KeyStatusActive \<and> statusFilter \<noteq> KeyStatusInvalid
         then (s, Inl BadStatus)
         else (case findGroupByID fails groupID s of
           Inl e \<Rightarrow> (s, Inl (Plain e))
         | Inr g \<Rightarrow>
             let filename = ''keys-'' @ gName g @ ''-'' @ statusFilter @ ''.txt'' in
             (case StreamKeysToWriter groupID statusFilter (svKeys s) of
               None \<Rightarrow> (s, Inr (filename, []))
             | Some text \<Rightarrow> (s, Inr (filename, if fails FindKeys then partial text else text)))))"

end
