(* ===== verification/KeyHandlerProps.thy ===== *)
theory KeyHandlerProps
  imports KeyHandler GroupProps
begin

text \<open>What the requests for the keys of a group guarantee: they touch the keys of that group only, a rejected
  request changes nothing, and the pages of a list are the list.\<close>

section \<open>Changes within a group\<close>

definition keys_ok :: "kp \<Rightarrow> bool" where
  "keys_ok p \<longleftrightarrow> ok p \<and> unique_values (kdb p)"

definition other_keys :: "nat \<Rightarrow> kp \<Rightarrow> APIKey list" where
  "other_keys gid p = filter (\<lambda>k. GroupID k \<noteq> gid) (kdb p)"

definition confined :: "nat \<Rightarrow> kp \<Rightarrow> kp \<Rightarrow> bool" where
  "confined gid p p' \<longleftrightarrow> keys_ok p' \<and> other_keys gid p' = other_keys gid p"

lemma confined_refl [intro]: "keys_ok p \<Longrightarrow> confined gid p p"
  by (simp add: confined_def)

lemma confined_trans: "confined gid p q \<Longrightarrow> confined gid q r \<Longrightarrow> confined gid p r"
  by (simp add: confined_def)

lemma confined_ok: "confined gid p q \<Longrightarrow> keys_ok q"
  by (simp add: confined_def)

lemma keys_ok_parts: "keys_ok p \<Longrightarrow> ok p" "keys_ok p \<Longrightarrow> kp_ok p" "keys_ok p \<Longrightarrow> unique_values (kdb p)"
  by (simp_all add: keys_ok_def ok_def)

lemma unique_filter: "unique_values rows \<Longrightarrow> unique_values (filter P rows)"
  by (simp add: unique_values_def distinct_map_filter)

lemma unique_restore_ids [simp]: "unique_values (restore_ids ids rows) = unique_values rows"
proof -
  have "map (\<lambda>k. (GroupID k, KeyValue k)) (restore_ids ids rows) = map (\<lambda>k. (GroupID k, KeyValue k)) rows"
    by (simp add: restore_ids_def)
  then show ?thesis by (simp add: unique_values_def)
qed

lemma other_rows_delete:
  assumes "distinct (map ID rows)" "\<forall>k. P k \<longrightarrow> GroupID k = gid"
  shows "filter (\<lambda>k. GroupID k \<noteq> gid) (delete_ids (pluckIDs (filter P rows)) rows) =
    filter (\<lambda>k. GroupID k \<noteq> gid) rows"
  using same_id [OF assms(1)] assms(2) by (auto simp: delete_ids_def pluckIDs_def intro!: filter_cong)

lemma other_rows_restore:
  assumes "distinct (map ID rows)" "\<forall>k. P k \<longrightarrow> GroupID k = gid"
  shows "filter (\<lambda>k. GroupID k \<noteq> gid) (restore_ids (pluckIDs (filter P rows)) rows) =
    filter (\<lambda>k. GroupID k \<noteq> gid) rows"
proof -
  define f where "f = (\<lambda>k. if ID k \<in> set (pluckIDs (filter P rows)) then restored k else k)"
  have g: "filter (\<lambda>k. GroupID (f k) \<noteq> gid) rows = filter (\<lambda>k. GroupID k \<noteq> gid) rows"
    by (rule filter_cong) (auto simp: f_def)
  have "f k = k" if "k \<in> set (filter (\<lambda>k. GroupID k \<noteq> gid) rows)" for k
    using that same_id [OF assms(1)] assms(2) by (auto simp: f_def pluckIDs_def)
  then have "map f (filter (\<lambda>k. GroupID k \<noteq> gid) rows) = filter (\<lambda>k. GroupID k \<noteq> gid) rows"
    by (rule map_idI)
  then have "filter (\<lambda>k. GroupID k \<noteq> gid) (map f rows) = filter (\<lambda>k. GroupID k \<noteq> gid) rows"
    by (simp add: filter_map comp_def g)
  then show ?thesis by (simp add: restore_ids_def f_def)
qed

lemma bulk_delete_confined:
  assumes "keys_ok p" "commit_err env = None" "\<forall>k. P k \<longrightarrow> GroupID k = gid"
    and "bulk env P delete_ids (\<lambda>k. removeKeyFromStore (ID k) (GroupID k)) p = (p', n, r)"
  shows "confined gid p p'"
proof -
  have "p' = p \<or> kdb p' = delete_ids (pluckIDs (filter P (kdb p))) (kdb p)"
    using bulk_spec [OF keys_ok_parts(2) [OF assms(1)] assms(2) does_removeKeyFromStore assms(4)]
    by (auto dest!: view_eq_db)
  then show ?thesis
    using bulk_remove_ok [OF keys_ok_parts(1) [OF assms(1)] assms(2,4)] assms(1)
      other_rows_delete [OF ok_distinct [OF keys_ok_parts(1) [OF assms(1)]] assms(3)]
    by (auto simp: confined_def keys_ok_def other_keys_def delete_ids_def unique_filter)
qed

lemma bulk_restore_confined:
  assumes "keys_ok p" "commit_err env = None" "\<forall>k. P k \<longrightarrow> GroupID k = gid"
    and "bulk env P restore_ids (\<lambda>k. addKeyToStore (restored k)) p = (p', n, r)"
  shows "confined gid p p'"
proof -
  have "p' = p \<or> kdb p' = restore_ids (pluckIDs (filter P (kdb p))) (kdb p)"
    using bulk_spec [OF keys_ok_parts(2) [OF assms(1)] assms(2) does_addKeyToStore assms(4)]
    by (auto dest!: view_eq_db simp: fold_map_restored)
  then show ?thesis
    using bulk_restore_ok [OF keys_ok_parts(1) [OF assms(1)] assms(2,4)] assms(1)
      other_rows_restore [OF ok_distinct [OF keys_ok_parts(1) [OF assms(1)]] assms(3)]
    by (auto simp: confined_def keys_ok_def other_keys_def)
qed

lemma provider_calls_confined:
  assumes "keys_ok p" "commit_err env = None"
  shows "RemoveKeys env gid vals p = (p', n, r) \<Longrightarrow> confined gid p p'"
    and "RestoreMultipleKeys env gid vals p = (p', n, r) \<Longrightarrow> confined gid p p'"
    and "RestoreKeys env gid p = (p', n, r) \<Longrightarrow> confined gid p p'"
    and "removeKeysByStatus env gid sts p = (p', n, r) \<Longrightarrow> confined gid p p'"
  using assms(1)
  by (auto simp: RemoveKeys_def RestoreMultipleKeys_def RestoreKeys_def removeKeysByStatus_def
      split: if_splits intro: bulk_delete_confined [OF assms, rotated] bulk_restore_confined [OF assms, rotated])

section \<open>The key service\<close>

definition confined_op :: "(tx_env \<Rightarrow> nat \<Rightarrow> string list \<Rightarrow> kp \<Rightarrow> kp \<times> nat \<times> kp_err option) \<Rightarrow> bool" where
  "confined_op op \<longleftrightarrow> (\<forall>env gid vals p p' n r. keys_ok p \<longrightarrow> commit_err env = None \<longrightarrow>
     op env gid vals p = (p', n, r) \<longrightarrow> confined gid p p')"

lemma confined_ops: "confined_op RemoveKeys" "confined_op RestoreMultipleKeys"
  by (auto simp: confined_op_def intro: provider_calls_confined)

lemma total_over_chunks_confined:
  assumes "confined_op op" "commits envs" "keys_ok p" "total_over_chunks op envs gid j n keys p = (p', r)"
  shows "confined gid p p'"
  using assms
proof (induction op envs gid j n keys p arbitrary: p' r rule: total_over_chunks.induct)
  case (1 op envs gid j n keys p)
  show ?case
  proof (cases "keys = []")
    case True
    then show ?thesis using "1.prems" by (auto simp: total_over_chunks.simps)
  next
    case False
    obtain q m e where a: "op (envs j) gid (take chunkSize keys) p = (q, m, e)" by (metis prod.exhaust)
    have q: "confined gid p q" using "1.prems"(1-3) a unfolding confined_op_def commits_def by blast
    show ?thesis
    proof (cases e)
      case None
      have "total_over_chunks op envs gid (Suc j) (n + m) (drop chunkSize keys) q = (p', r)"
        using "1.prems"(4) False a None by (subst (asm) total_over_chunks.simps) simp
      from "1.IH" [OF False a [symmetric] refl None "1.prems"(1,2) confined_ok [OF q] this]
      show ?thesis by (rule confined_trans [OF q])
    next
      case (Some err)
      then show ?thesis using "1.prems"(4) False a q by (subst (asm) total_over_chunks.simps) simp
    qed
  qed
qed

lemma in_bulk_confined:
  assumes "confined_op op" "commits envs" "keys_ok p" "in_bulk op json ce envs gid text p = (p', r)"
  shows "confined gid p p'"
  using assms(4) total_over_chunks_confined [OF assms(1-3)] confined_refl [OF assms(3)]
  by (auto simp: in_bulk_def Let_def split: if_splits prod.splits sum.splits option.splits)

lemma new_rows_own: "filter (\<lambda>k. GroupID k \<noteq> gid) (number_from n (map (new_key gid) vs)) = []"
  by (induction vs arbitrary: n) (auto simp: new_key_def)

lemma process_confined:
  assumes "keys_ok p" "commits envs" "harmless cb" "next_id p + length keys \<le> 18446744073709551616"
    and "processAndCreateKeys fe envs cb gid keys p = (p', a, i, err)"
  shows "confined gid p p'"
proof (cases fe)
  case None
  show ?thesis
    using import_adds [OF keys_ok_parts(1,3) [OF assms(1)] assms(2-4) assms(5) [unfolded None]]
    by (auto simp: Let_def confined_def keys_ok_def other_keys_def new_rows_own)
next
  case (Some e)
  then show ?thesis using assms(1,5) by (auto simp: processAndCreateKeys_def)
qed

lemma AddMultipleKeys_confined:
  assumes "keys_ok p" "commits envs" "next_id p + maxRequestKeys \<le> 18446744073709551616"
    and "AddMultipleKeys json fe ce envs gid text p = (p', r)"
  shows "confined gid p p'"
proof (cases "length (ParseKeysFromText json text) \<le> maxRequestKeys")
  case True
  then have "next_id p + length (ParseKeysFromText json text) \<le> 18446744073709551616" using assms(3) by simp
  from process_confined [OF assms(1,2) harmless_id this]
  show ?thesis using assms(4) True confined_refl [OF assms(1)]
    by (auto simp: AddMultipleKeys_def Let_def split: if_splits prod.splits option.splits)
next
  case False
  then show ?thesis using assms(1,4) by (auto simp: AddMultipleKeys_def Let_def)
qed

lemma on_task_confined: "on_task_only f \<Longrightarrow> keys_ok p \<Longrightarrow> confined gid p (on_task f p)"
  using on_task_keeps [of f p] by (auto simp: confined_def keys_ok_def ok_def other_keys_def on_task_def)

lemma runImport_confined:
  assumes "keys_ok p" "commits envs" "next_id p + length keys \<le> 18446744073709551616"
    and "runImport enc dec et rt clk tend fe envs gid keys p = p'"
  shows "confined gid p p'"
proof -
  obtain q a i err where c: "processAndCreateKeys fe envs (progressCallback enc dec clk) gid keys p = (q, a, i, err)"
    by (metis prod.exhaust)
  note q = process_confined [OF assms(1,2) progress_harmless assms(3) c]
  have "\<exists>out. p' = on_task (EndTask enc dec tend out) q"
    using assms(4) c by (cases err) (auto simp: runImport_def)
  then show ?thesis using on_task_confined [OF EndTask_local confined_ok [OF q]] confined_trans [OF q] by blast
qed

lemma StartImportTask_confined:
  assumes "keys_ok p" "StartImportTask enc dec json now name text p = (p', r)"
  shows "confined gid p p'"
proof -
  have "p' = p \<or> p' = on_task (StartTask enc dec now ''KEY_IMPORT'' name
      (int (length (ParseKeysFromText json text))) importTimeout) p"
    using assms(2) by (auto simp: StartImportTask_def on_task_def Let_def split: if_splits prod.splits sum.splits)
  then show ?thesis using on_task_confined [OF StartTask_local assms(1)] assms(1) by blast
qed

lemma StartValidationTask_confined:
  assumes "keys_ok p" "StartValidationTask enc dec fe now grp status p = (p', r)"
  shows "confined gid p p'"
proof -
  let ?keys = "filter (\<lambda>k. GroupID k = gID grp \<and> (status = [] \<or> Status k = status)) (kdb p)"
  have "p' = p \<or> p' = on_task (StartTask enc dec now ''KEY_VALIDATION'' (gName grp) (int (length ?keys)) validationTimeout) p"
    using assms(2)
    by (auto simp: StartValidationTask_def on_task_def Let_def split: if_splits option.splits prod.splits sum.splits)
  then show ?thesis using on_task_confined [OF StartTask_local assms(1)] assms(1) by blast
qed

section \<open>Runs of requests\<close>

definition names :: "KeyTextRequest option \<Rightarrow> nat \<Rightarrow> bool" where
  "names raw gid \<longleftrightarrow> (\<forall>req. raw = Some req \<longrightarrow> ktGroupID req = gid)"

definition answer :: "key_error + 'a \<Rightarrow> key_error option" where
  "answer r = (case r of Inl e \<Rightarrow> Some e | Inr _ \<Rightarrow> None)"

definition ids_left :: "nat \<Rightarrow> kp \<Rightarrow> bool" where
  "ids_left n p \<longleftrightarrow> next_id p + n \<le> 18446744073709551616"

text \<open>The goroutines that a request leaves running: the import of keys into a group, the update of a key
  that was tested, and the validation of a list of keys.\<close>

datatype job = ImportJob nat "string list" | UpdateJob status_update | ValidationJob GroupRow "APIKey list"

fun import_job :: "KeyTextRequest option \<Rightarrow> key_error + TaskStatus \<times> string list \<Rightarrow> job list" where
  "import_job (Some req) (Inr (st, keys)) = [ImportJob (ktGroupID req) keys]"
| "import_job raw r = []"

text \<open>The validation runs with the group that the handler found in the cache.\<close>

definition validation_job :: "(stmt \<Rightarrow> bool) \<Rightarrow> (string \<Rightarrow> GroupRow option) \<Rightarrow> ValidateGroupKeysRequest option \<Rightarrow>
    server \<Rightarrow> key_error + TaskStatus \<times> APIKey list \<Rightarrow> job list" where
  "validation_job fails cache raw s r =
    (case (raw, r) of
       (Some req, Inr (st, keys)) \<Rightarrow>
         (case findGroupByID fails (vkGroupID req) s of
            Inl e \<Rightarrow> []
          | Inr g \<Rightarrow> (case GetGroupByName cache (gName g) of None \<Rightarrow> [] | Some grp \<Rightarrow> [ValidationJob grp keys]))
     | _ \<Rightarrow> [])"

text \<open>A request for the group \<^verbatim>\<open>gid\<close>: the error it is answered with, if any, the state after it, the jobs it
  starts and the group cache after it. Any statement may fail except a commit, and an id fits 64 bits.\<close>

inductive kh_request :: "(string \<Rightarrow> GroupRow option) \<Rightarrow> nat \<Rightarrow> server \<Rightarrow> key_error option \<Rightarrow> server \<Rightarrow> job list \<Rightarrow>
    (string \<Rightarrow> GroupRow option) \<Rightarrow> bool" for cache gid where
  add: "commits envs \<Longrightarrow> ids_left maxRequestKeys (svKeys s) \<Longrightarrow> names raw gid \<Longrightarrow>
    AddMultipleKeysRequest json fails fe ce envs raw s = (s', r1) \<Longrightarrow> kh_request cache gid s (answer r1) s' [] cache"
| delete: "commits envs \<Longrightarrow> names raw gid \<Longrightarrow> DeleteMultipleKeysRequest json fails ce envs raw s = (s', r2) \<Longrightarrow>
    kh_request cache gid s (answer r2) s' [] cache"
| restore: "commits envs \<Longrightarrow> names raw gid \<Longrightarrow> RestoreMultipleKeysRequest json fails ce envs raw s = (s', r3) \<Longrightarrow>
    kh_request cache gid s (answer r3) s' [] cache"
| async: "names raw gid \<Longrightarrow> AddMultipleKeysAsync tc fails now raw s = (s', r4) \<Longrightarrow>
    kh_request cache gid s (answer r4) s' (import_job raw r4) cache"
| test: "names raw gid \<Longrightarrow>
    TestMultipleKeysRequest json settings getChannel check fes fails raw cache s = (cache', us, r5) \<Longrightarrow>
    kh_request cache gid s (answer r5) s (map UpdateJob us) cache'"
| validate: "\<forall>req. vraw = Some req \<longrightarrow> vkGroupID req = gid \<Longrightarrow>
    ValidateGroupKeys tc fails fe now cache vraw s = (s', r6) \<Longrightarrow>
    kh_request cache gid s (answer r6) s' (validation_job fails cache vraw s r6) cache"
| restore_all: "commit_err env = None \<Longrightarrow> graw \<in> {None, Some gid} \<Longrightarrow>
    RestoreAllInvalidKeys fails env graw s = (s', r7) \<Longrightarrow> kh_request cache gid s (answer r7) s' [] cache"
| clear_invalid: "commit_err env = None \<Longrightarrow> graw \<in> {None, Some gid} \<Longrightarrow>
    ClearAllInvalidKeys fails env graw s = (s', r7) \<Longrightarrow> kh_request cache gid s (answer r7) s' [] cache"
| clear_all: "commit_err env = None \<Longrightarrow> graw \<in> {None, Some gid} \<Longrightarrow>
    ClearAllKeys fails env graw s = (s', r7) \<Longrightarrow> kh_request cache gid s (answer r7) s' [] cache"
| listing: "\<forall>v. validateGroupIDFromQuery group_id = Inr v \<longrightarrow> v = gid \<Longrightarrow>
    ListKeysInGroup like ord fails group_id status keyword page page_size s = (s', r8) \<Longrightarrow>
    kh_request cache gid s (answer r8) s' [] cache"
| export: "\<forall>v. validateGroupIDFromQuery group_id = Inr v \<longrightarrow> v = gid \<Longrightarrow>
    ExportKeys partial fails group_id status s = (s', r9) \<Longrightarrow> kh_request cache gid s (answer r9) s' [] cache"

text \<open>The errors that reject a request before it reaches the provider or a task.\<close>

fun refused :: "key_error \<Rightarrow> bool" where
  "refused (Plain e) \<longleftrightarrow> e = ErrInvalidJSON"
| "refused (TaskInProgress e) \<longleftrightarrow> False"
| "refused _ \<longleftrightarrow> True"

definition known :: "nat \<Rightarrow> server \<Rightarrow> bool" where
  "known gid s \<longleftrightarrow> (\<exists>g \<in> set (svGroups s). gID g = gid)"

definition effect :: "nat \<Rightarrow> server \<Rightarrow> key_error option \<Rightarrow> server \<Rightarrow> bool" where
  "effect gid s e s' \<longleftrightarrow> (s' = s \<and> (known gid s \<or> e \<noteq> None)) \<or>
    (known gid s \<and> (\<exists>p. s' = s\<lparr>svKeys := p\<rparr> \<and> (keys_ok (svKeys s) \<longrightarrow> confined gid (svKeys s) p) \<and>
      (\<forall>err. e = Some err \<longrightarrow> refused err \<longrightarrow> p = svKeys s)))"

lemma found_known: "findGroupByID fails gid s = Inr g \<Longrightarrow> known gid s"
  by (auto simp: findGroupByID_def known_def find_Some_iff split: if_splits option.splits)

lemma effect_same: "known gid s \<or> e \<noteq> None \<Longrightarrow> effect gid s e s"
  by (simp add: effect_def)

lemma effect_keys:
  assumes "known gid s" "keys_ok (svKeys s) \<Longrightarrow> confined gid (svKeys s) p"
    and "\<And>err. e = Some err \<Longrightarrow> refused err \<Longrightarrow> p = svKeys s"
  shows "effect gid s e (s\<lparr>svKeys := p\<rparr>)"
  using assms by (auto simp: effect_def)

lemma answer_simps [simp]: "answer (Inl e) = Some e" "answer (Inr x) = None"
  by (simp_all add: answer_def)

lemma ParseDBError_code [simp]: "ParseDBError k \<noteq> ErrInvalidJSON"
  by (simp add: ParseDBError_def split: kp_err.splits)

lemma refused_service [simp]: "refused (service_error e) \<longleftrightarrow> (\<exists>n. e = TooManyKeys n) \<or> e = NoValidKeys"
  "\<not> refused (Plain (ParseDBError k))"
  by (auto simp: service_error_def ParseDBError_def split: ks_err.splits kp_err.splits)

lemma bind_keys_names: "bind_keys_text raw = Some req \<Longrightarrow> names raw gid \<Longrightarrow> ktGroupID req = gid"
  by (auto simp: bind_keys_text_def names_def split: option.splits if_splits)

lemma with_keys_text_effect:
  assumes "names raw gid" "with_keys_text fails service raw s = (s', r)"
    and "\<And>text p q. keys_ok (svKeys s) \<Longrightarrow> service gid text (svKeys s) = (p, q) \<Longrightarrow> confined gid (svKeys s) p"
    and "\<And>text p n. service gid text (svKeys s) = (p, Inl (TooManyKeys n)) \<Longrightarrow> p = svKeys s"
    and "\<And>text p. service gid text (svKeys s) = (p, Inl NoValidKeys) \<Longrightarrow> p = svKeys s"
  shows "effect gid s (answer r) s'"
proof (cases "bind_keys_text raw")
  case (Some req)
  note gid = bind_keys_names [OF Some assms(1)]
  show ?thesis
  proof (cases "findGroupByID fails gid s")
    case (Inr g)
    obtain p q where q: "service gid (ktKeysText req) (svKeys s) = (p, q)" by fastforce
    show ?thesis
    proof (cases "validateKeysText (ktKeysText req)")
      case True
      then have r: "s' = s\<lparr>svKeys := p\<rparr>" "r = (case q of Inl e \<Rightarrow> Inl (service_error e) | Inr x \<Rightarrow> Inr x)"
        using assms(2) Some Inr q gid by (auto simp: with_keys_text_def split: sum.splits)
      have "answer r = Some err \<Longrightarrow> refused err \<Longrightarrow> p = svKeys s" for err
        using q r(2) assms(4,5) by (cases q) auto
      then show ?thesis unfolding r(1) using found_known [OF Inr] assms(3) q by (intro effect_keys)
    next
      case False
      then show ?thesis using assms(2) Some Inr gid by (auto simp: with_keys_text_def effect_same)
    qed
  next
    case (Inl e)
    then show ?thesis using assms(2) Some gid by (auto simp: with_keys_text_def effect_same)
  qed
next
  case None
  then show ?thesis using assms(2) by (auto simp: with_keys_text_def effect_same)
qed

lemma in_bulk_refused:
  "in_bulk op json ce envs gid text p = (p', Inl (TooManyKeys n)) \<Longrightarrow> p' = p"
  "in_bulk op json ce envs gid text p = (p', Inl NoValidKeys) \<Longrightarrow> p' = p"
  by (auto simp: in_bulk_def Let_def split: if_splits prod.splits sum.splits option.splits)

lemma add_refused:
  "AddMultipleKeys json fe ce envs gid text p = (p', Inl (TooManyKeys n)) \<Longrightarrow> p' = p"
  "AddMultipleKeys json fe ce envs gid text p = (p', Inl NoValidKeys) \<Longrightarrow> p' = p"
  by (auto simp: AddMultipleKeys_def Let_def split: if_splits prod.splits option.splits)

lemma with_group_id_effect:
  assumes "graw \<in> {None, Some gid}" "with_group_id fails service message graw s = (s', r)"
    and "\<And>p n q. keys_ok (svKeys s) \<Longrightarrow> service gid (svKeys s) = (p, n, q) \<Longrightarrow> confined gid (svKeys s) p"
  shows "effect gid s (answer r) s'"
proof (cases "bind_group_id graw = None \<or> (\<exists>e. findGroupByID fails gid s = Inl e)")
  case True
  then show ?thesis
    using assms(1,2) by (auto simp: with_group_id_def bind_group_id_def effect_same split: if_splits)
next
  case False
  then obtain g where g: "bind_group_id graw = Some gid" "findGroupByID fails gid s = Inr g"
    using assms(1) by (cases "findGroupByID fails gid s") (auto simp: bind_group_id_def split: if_splits)
  obtain p n q where q: "service gid (svKeys s) = (p, n, q)" by (metis prod.exhaust)
  then have r: "s' = s\<lparr>svKeys := p\<rparr>"
      "r = (case q of Some e \<Rightarrow> Inl (Plain (ParseDBError e)) | None \<Rightarrow> Inr (show_nat n @ message))"
    using assms(2) g by (auto simp: with_group_id_def split: option.splits)
  have "answer r = Some err \<Longrightarrow> refused err \<Longrightarrow> p = svKeys s" for err
    using r(2) by (cases q) auto
  then show ?thesis unfolding r(1) using found_known [OF g(2)] assms(3) q by (intro effect_keys)
qed

lemma task_effect:
  assumes "known gid s" "keys_ok (svKeys s) \<Longrightarrow> confined gid (svKeys s) p"
    and "s' = s\<lparr>svKeys := p\<rparr>" "r = (case q of Inl e \<Rightarrow> Inl (TaskInProgress e) | Inr x \<Rightarrow> Inr x)"
  shows "effect gid s (answer r) s'"
  unfolding assms(3) using assms(1,2,4) by (intro effect_keys) (auto split: sum.splits)

lemma async_effect:
  assumes "names raw gid" "AddMultipleKeysAsync tc fails now raw s = (s', r)"
  shows "effect gid s (answer r) s'"
proof (cases "bind_keys_text raw")
  case (Some req)
  note gid = bind_keys_names [OF Some assms(1)]
  show ?thesis
  proof (cases "findGroupByID fails gid s")
    case (Inr g)
    obtain p q where q: "StartImportTask (task_enc tc) (task_dec tc) (json_strings tc) now (gName g)
        (ktKeysText req) (svKeys s) = (p, q)" by fastforce
    show ?thesis
    proof (cases "validateKeysText (ktKeysText req)")
      case True
      then have "s' = s\<lparr>svKeys := p\<rparr> \<and>
          r = (case (case q of Inl e \<Rightarrow> Inl (Inl e) | Inr x \<Rightarrow> Inr x) of Inl e \<Rightarrow> Inl (TaskInProgress e) | Inr x \<Rightarrow> Inr x)"
        using assms(2) Some Inr q gid by (auto simp: AddMultipleKeysAsync_def split: sum.splits)
      then show ?thesis using task_effect [OF found_known [OF Inr] StartImportTask_confined [OF _ q]] by blast
    next
      case False
      then show ?thesis using assms(2) Some Inr gid by (auto simp: AddMultipleKeysAsync_def effect_same)
    qed
  next
    case (Inl e)
    then show ?thesis using assms(2) Some gid by (auto simp: AddMultipleKeysAsync_def effect_same)
  qed
next
  case None
  then show ?thesis using assms(2) by (auto simp: AddMultipleKeysAsync_def effect_same)
qed

lemma validate_effect:
  assumes "\<forall>req. vraw = Some req \<longrightarrow> vkGroupID req = gid" "ValidateGroupKeys tc fails fe now cache vraw s = (s', r)"
  shows "effect gid s (answer r) s'"
proof (cases "\<exists>req g grp. bind_validate vraw = Some req \<and> vkStatus req \<in> {[], KeyStatusActive, KeyStatusInvalid} \<and>
    findGroupByID fails gid s = Inr g \<and> GetGroupByName cache (gName g) = Some grp")
  case True
  then obtain req g grp where q: "bind_validate vraw = Some req" "vkStatus req \<in> {[], KeyStatusActive, KeyStatusInvalid}"
    "findGroupByID fails gid s = Inr g" "GetGroupByName cache (gName g) = Some grp" by blast
  have gid: "vkGroupID req = gid" using q(1) assms(1) by (auto simp: bind_validate_def split: option.splits if_splits)
  obtain p t where t: "StartValidationTask (task_enc tc) (task_dec tc) fe now grp (vkStatus req) (svKeys s) = (p, t)"
    by fastforce
  have "s' = s\<lparr>svKeys := p\<rparr> \<and>
      r = (case (case t of Inl e \<Rightarrow> Inl (Inr e) | Inr x \<Rightarrow> Inr x) of Inl e \<Rightarrow> Inl (TaskInProgress e) | Inr x \<Rightarrow> Inr x)"
    using assms(2) q t gid by (auto simp: ValidateGroupKeys_def split: sum.splits)
  then show ?thesis using task_effect [OF found_known [OF q(3)] StartValidationTask_confined [OF _ t]] by blast
next
  case False
  have gid: "bind_validate vraw = Some req \<Longrightarrow> vkGroupID req = gid" for req
    using assms(1) by (auto simp: bind_validate_def split: option.splits if_splits)
  show ?thesis
    using False assms(2) gid
    by (cases "bind_validate vraw"; cases "findGroupByID fails gid s")
      (auto simp: ValidateGroupKeys_def effect_same split: option.splits if_splits)
qed

lemma test_effect:
  assumes "names raw gid"
    and "TestMultipleKeysRequest json settings getChannel check fes fails raw cache s = (cache', us, r)"
  shows "effect gid s (answer r) s"
proof (cases "answer r = None")
  case True
  then obtain req g where "bind_keys_text raw = Some req" "findGroupByID fails (ktGroupID req) s = Inr g"
    using assms(2) by (auto simp: TestMultipleKeysRequest_def answer_def split: option.splits sum.splits)
  then have "known gid s" using found_known bind_keys_names [OF _ assms(1)] by metis
  then show ?thesis by (simp add: effect_same)
qed (simp add: effect_same)

lemma query_effect:
  assumes "\<forall>v. validateGroupIDFromQuery group_id = Inr v \<longrightarrow> v = gid"
  shows "ListKeysInGroup like ord fails group_id status keyword page page_size s = (s', r) \<Longrightarrow>
      effect gid s (answer r) s'"
    and "ExportKeys partial fails group_id status s = (s', r9) \<Longrightarrow> effect gid s (answer r9) s'"
  using assms
  by (auto simp: ListKeysInGroup_def ExportKeys_def Let_def intro!: effect_same dest: found_known
      split: sum.splits if_splits option.splits)

lemma kh_request_effect: "kh_request cache gid s e s' js cache' \<Longrightarrow> effect gid s e s'"
proof (induction rule: kh_request.induct)
  case (add envs s raw json fails fe ce s' r1)
  have "AddMultipleKeys json fe ce envs gid t (svKeys s) = (p, q) \<Longrightarrow> keys_ok (svKeys s) \<Longrightarrow>
      confined gid (svKeys s) p" for t p q
    using AddMultipleKeys_confined add(1,2) by (simp add: ids_left_def)
  then show ?case
    using with_keys_text_effect [OF add(3) add(4) [unfolded AddMultipleKeysRequest_def]] add_refused by blast
next
  case (delete envs raw json fails ce s s' r2)
  show ?case
    by (rule with_keys_text_effect [OF delete(2) delete(3) [unfolded DeleteMultipleKeysRequest_def]])
      (auto simp: DeleteMultipleKeys_def intro: in_bulk_confined [OF confined_ops(1) delete(1)] dest: in_bulk_refused)
next
  case (restore envs raw json fails ce s s' r3)
  show ?case
    by (rule with_keys_text_effect [OF restore(2) restore(3) [unfolded RestoreMultipleKeysRequest_def]])
      (auto simp: RestoreMultipleKeysFromText_def intro: in_bulk_confined [OF confined_ops(2) restore(1)]
        dest: in_bulk_refused)
next
  case (restore_all env graw fails s s' r7)
  show ?case
    by (rule with_group_id_effect [OF restore_all(2) restore_all(3) [unfolded RestoreAllInvalidKeys_def]])
      (auto simp: ks_RestoreAllInvalidKeys_def intro: provider_calls_confined(3) [OF _ restore_all(1)])
next
  case (clear_invalid env graw fails s s' r7)
  show ?case
    by (rule with_group_id_effect [OF clear_invalid(2) clear_invalid(3) [unfolded ClearAllInvalidKeys_def]])
      (auto simp: ks_ClearAllInvalidKeys_def RemoveInvalidKeys_def intro: provider_calls_confined(4) [OF _ clear_invalid(1)])
next
  case (clear_all env graw fails s s' r7)
  show ?case
    by (rule with_group_id_effect [OF clear_all(2) clear_all(3) [unfolded ClearAllKeys_def]])
      (auto simp: ks_ClearAllKeys_def RemoveAllKeys_def intro: provider_calls_confined(4) [OF _ clear_all(1)])
qed (blast intro: async_effect test_effect validate_effect query_effect)+

section \<open>The jobs of a request concern its group\<close>

text \<open>Every cached group that stands under the name of a row has the id of the row. This is so when the
  cache was loaded after the last change of the groups; it may fail while the cache is behind.\<close>

definition cache_current :: "(string \<Rightarrow> GroupRow option) \<Rightarrow> DbGroup list \<Rightarrow> bool" where
  "cache_current cache rows \<longleftrightarrow>
    (\<forall>g \<in> set rows. \<forall>grp. GetGroupByName cache (gName g) = Some grp \<longrightarrow> gID grp = gID g)"

lemma test_each_updates:
  assumes "\<forall>k \<in> set rows. GroupID k = gID grp" "test_each settings getChannel check rows i kvs grp = (grp', us, rs)"
  shows "gID grp' = gID grp \<and> (\<forall>u \<in> set us. \<exists>k \<in> set rows. update_of u k)"
  using assms
proof (induction kvs arbitrary: i grp grp' us rs)
  case (Cons kv kvs)
  obtain g1 us1 r1 where h: "(case existing_key rows kv of
      None \<Rightarrow> (grp, [], \<lparr>ktKeyValue = kv, ktIsValid = False, ktError = Some NotInGroup\<rparr>)
    | Some apiKey \<Rightarrow> (case ValidateSingleKey settings getChannel (check i) apiKey grp of
        (grp1, us, isValid, err) \<Rightarrow> (grp1, us, \<lparr>ktKeyValue = kv, ktIsValid = isValid, ktError = err\<rparr>))) = (g1, us1, r1)"
    by (metis prod.exhaust)
  obtain g2 us2 rs2 where t: "test_each settings getChannel check rows (Suc i) kvs g1 = (g2, us2, rs2)"
    by (metis prod.exhaust)
  have r: "grp' = g2" "us = us1 @ us2" using Cons.prems(2) h t by simp_all
  have g1: "gID g1 = gID grp" "\<forall>u \<in> set us1. \<exists>k \<in> set rows. update_of u k"
    using h existing_key_row [of rows kv] Cons.prems(1)
    by (auto simp: ValidateSingleKey_def update_of_def Let_def split: option.splits prod.splits if_splits)
  then show ?case using Cons.IH [OF _ t] Cons.prems(1) r by auto
qed simp

lemma TestMultipleKeys_updates:
  assumes "TestMultipleKeys settings getChannel check fe i grp kvs p = (grp', us, r)"
  shows "gID grp' = gID grp \<and> (\<forall>u \<in> set us. \<exists>k \<in> set (kdb p). GroupID k = gID grp \<and> update_of u k)"
proof (cases fe)
  case None
  let ?rows = "filter (\<lambda>k. GroupID k = gID grp \<and> KeyValue k \<in> set kvs) (kdb p)"
  obtain g1 us1 rs where t: "test_each settings getChannel check ?rows i kvs grp = (g1, us1, rs)" by (metis prod.exhaust)
  have "grp' = g1 \<and> us = us1" using assms None t by (simp add: TestMultipleKeys_def)
  moreover have "\<forall>k \<in> set ?rows. GroupID k = gID grp" by simp
  note test_each_updates [OF this t]
  ultimately show ?thesis by auto
next
  case (Some e)
  then show ?thesis using assms by (simp add: TestMultipleKeys_def)
qed

lemma test_chunks_updates:
  "test_chunks settings getChannel check fes j i grp keys p = (grp', us, r) \<Longrightarrow>
   gID grp' = gID grp \<and> (\<forall>u \<in> set us. \<exists>k \<in> set (kdb p). GroupID k = gID grp \<and> update_of u k)"
proof (induction settings getChannel check fes j i grp keys p arbitrary: grp' us r rule: test_chunks.induct)
  case (1 settings getChannel check fes j i grp keys p)
  show ?case
  proof (cases "keys = []")
    case True
    then show ?thesis using "1.prems" by (simp add: test_chunks.simps)
  next
    case False
    obtain g1 us1 r1 where t: "TestMultipleKeys settings getChannel check (fes j) i grp (take chunkSize keys) p = (g1, us1, r1)"
      by (metis prod.exhaust)
    have one: "gID g1 = gID grp \<and> (\<forall>u \<in> set us1. \<exists>k \<in> set (kdb p). GroupID k = gID grp \<and> update_of u k)"
      using TestMultipleKeys_updates [OF t] .
    show ?thesis
    proof (cases r1)
      case (Inl e)
      then show ?thesis using "1.prems" False t one by (subst (asm) test_chunks.simps) simp
    next
      case (Inr rs)
      obtain g2 us2 r2 where c: "test_chunks settings getChannel check fes (Suc j) (i + chunkSize) g1 (drop chunkSize keys) p =
          (g2, us2, r2)" by (metis prod.exhaust)
      have "grp' = g2 \<and> us = us1 @ us2"
        using "1.prems" False t Inr c by (subst (asm) test_chunks.simps) (simp split: sum.splits)
      moreover have "gID g2 = gID g1 \<and> (\<forall>u \<in> set us2. \<exists>k \<in> set (kdb p). GroupID k = gID g1 \<and> update_of u k)"
        by (rule "1.IH" [OF False t [symmetric] refl Inr c])
      ultimately show ?thesis using one by auto
    qed
  qed
qed

lemma TestMultipleKeysFromText_updates:
  assumes "TestMultipleKeysFromText json settings getChannel check fes grp text p = (grp', us, r)"
  shows "gID grp' = gID grp \<and> (\<forall>u \<in> set us. \<exists>k \<in> set (kdb p). GroupID k = gID grp \<and> update_of u k)"
  using assms test_chunks_updates
  by (fastforce simp: TestMultipleKeysFromText_def Let_def split: if_splits prod.splits sum.splits)

text \<open>A job that concerns the group only. The key of an update may have been deleted in the meantime.\<close>

definition own_update :: "nat \<Rightarrow> kp \<Rightarrow> status_update \<Rightarrow> bool" where
  "own_update gid p u \<longleftrightarrow> right_group (updated_key u) gid p \<and>
     (u = Succeeded (updated_key u) gid \<or> (\<exists>th. u = Failed th (updated_key u) gid))"

fun job_ok :: "nat \<Rightarrow> kp \<Rightarrow> job \<Rightarrow> bool" where
  "job_ok gid p (ImportJob g keys) \<longleftrightarrow> g = gid"
| "job_ok gid p (UpdateJob u) \<longleftrightarrow> own_update gid p u"
| "job_ok gid p (ValidationJob grp keys) \<longleftrightarrow> gID grp = gid \<and> (\<forall>k \<in> set keys. right_group (ID k) gid p)"

lemma right_group_other: "right_group kid gid p \<longleftrightarrow> kid \<notin> ID ` set (other_keys gid p)"
  by (auto simp: right_group_def other_keys_def)

lemma job_ok_confined: "confined gid p q \<Longrightarrow> job_ok gid q j = job_ok gid p j"
  by (cases j) (auto simp: own_update_def right_group_other confined_def)

lemma row_right_group: "ok p \<Longrightarrow> k \<in> set (kdb p) \<Longrightarrow> right_group (ID k) (GroupID k) p"
  using same_id [OF ok_distinct] by (auto simp: right_group_def)

lemma update_own:
  assumes "ok p" "k \<in> set (kdb p)" "GroupID k = gid" "update_of u k"
  shows "own_update gid p u"
  using row_right_group [OF assms(1,2)] assms(3,4) by (auto simp: own_update_def update_of_def)

lemma test_jobs:
  assumes "names raw gid" "ok (svKeys s)" "cache_current cache (svGroups s)"
    and "TestMultipleKeysRequest json settings getChannel check fes fails raw cache s = (cache', us, r)"
  shows "(\<forall>u \<in> set us. own_update gid (svKeys s) u) \<and> cache_current cache' (svGroups s)"
proof (cases "\<exists>req g grp. bind_keys_text raw = Some req \<and> findGroupByID fails (ktGroupID req) s = Inr g \<and>
    GetGroupByName cache (gName g) = Some grp \<and> validateKeysText (ktKeysText req)")
  case True
  then obtain req g grp where q: "bind_keys_text raw = Some req" "findGroupByID fails (ktGroupID req) s = Inr g"
    "GetGroupByName cache (gName g) = Some grp" "validateKeysText (ktKeysText req)" by blast
  have g: "g \<in> set (svGroups s)" "gID g = gid"
    using q(2) bind_keys_names [OF q(1) assms(1)] by (auto simp: findGroupByID_def find_Some_iff split: if_splits option.splits)
  have grp: "gID grp = gid" using assms(3) g q(3) by (auto simp: cache_current_def)
  obtain g1 us1 r1 where t: "TestMultipleKeysFromText json settings getChannel check fes grp (ktKeysText req) (svKeys s) =
      (g1, us1, r1)" by (metis prod.exhaust)
  have r: "cache' = cache(gName g \<mapsto> g1)" "us = us1"
    using assms(4) q t by (auto simp: TestMultipleKeysRequest_def split: sum.splits)
  note u = TestMultipleKeysFromText_updates [OF t]
  have "gID x = gID g" if "x \<in> set (svGroups s)" "gName x = gName g" for x
    using assms(3) that q(3) g grp unfolding cache_current_def by metis
  then have "cache_current cache' (svGroups s)"
    using assms(3) u grp g by (simp add: cache_current_def GetGroupByName_def r(1))
  moreover have "\<forall>u \<in> set us. own_update gid (svKeys s) u"
    using u update_own [OF assms(2)] grp unfolding r(2) by blast
  ultimately show ?thesis by blast
next
  case False
  then have "cache' = cache \<and> us = []"
    using assms(4) by (auto simp: TestMultipleKeysRequest_def split: option.splits sum.splits if_splits)
  then show ?thesis using assms(3) by simp
qed

lemma validation_jobs:
  assumes "\<forall>req. vraw = Some req \<longrightarrow> vkGroupID req = gid" "ok (svKeys s)" "cache_current cache (svGroups s)"
    and "ValidateGroupKeys tc fails fe now cache vraw s = (s', r)" "j \<in> set (validation_job fails cache vraw s r)"
  shows "job_ok gid (svKeys s) j"
proof -
  obtain req st keys where v: "vraw = Some req" "r = Inr (st, keys)"
    using assms(5) by (auto simp: validation_job_def split: option.splits sum.splits)
  have "vkGroupID req = gid" using v(1) assms(1) by simp
  then obtain g where f: "findGroupByID fails gid s = Inr g"
    using assms(5) v by (cases "findGroupByID fails gid s") (auto simp: validation_job_def)
  then obtain grp where q: "vraw = Some req" "r = Inr (st, keys)" "findGroupByID fails gid s = Inr g"
    "GetGroupByName cache (gName g) = Some grp" "j = ValidationJob grp keys"
    using assms(5) v \<open>vkGroupID req = gid\<close>
    by (cases "GetGroupByName cache (gName g)") (auto simp: validation_job_def)
  have g: "g \<in> set (svGroups s)" "gID g = gid"
    using q(3) by (auto simp: findGroupByID_def find_Some_iff split: if_splits option.splits)
  then have grp: "gID grp = gid" using assms(3) q(4) by (auto simp: cache_current_def)
  have "set keys \<subseteq> set (kdb (svKeys s)) \<and> (\<forall>k \<in> set keys. GroupID k = gid)"
    using assms(1,4) q grp
    by (auto simp: ValidateGroupKeys_def bind_validate_def StartValidationTask_def Let_def
        split: if_splits prod.splits sum.splits option.splits)
  moreover have "right_group (ID k) gid (svKeys s)" if "k \<in> set (kdb (svKeys s))" "GroupID k = gid" for k
    using row_right_group [OF assms(2) that(1)] that(2) by simp
  ultimately show ?thesis using grp unfolding q(5) job_ok.simps by blast
qed

lemma kh_request_jobs:
  assumes "kh_request cache gid s e s' js cache'" "ok (svKeys s)" "cache_current cache (svGroups s)"
  shows "(\<forall>j \<in> set js. job_ok gid (svKeys s) j) \<and> cache_current cache' (svGroups s)"
  using assms(1)
proof (cases rule: kh_request.cases)
  case (async raw tc fails now r4)
  then show ?thesis
    using assms(3) by (cases "(raw, r4)" rule: import_job.cases) (auto simp: names_def)
next
  case (test raw json settings getChannel check fes fails us r5)
  then show ?thesis using test_jobs [OF test(4) assms(2,3) test(5)] by auto
next
  case (validate vraw tc fails fe now r6)
  then show ?thesis using validation_jobs [OF validate(4) assms(2,3) validate(5)] assms(3) by blast
qed (use assms(3) in simp_all)

section \<open>Runs of requests and jobs\<close>

record key_server =
  srv :: server
  cached :: "string \<Rightarrow> GroupRow option"
  jobs :: "job list"

definition set_keys :: "kp \<Rightarrow> key_server \<Rightarrow> key_server" where
  "set_keys p x = x\<lparr>srv := (srv x)\<lparr>svKeys := p\<rparr>\<rparr>"

text \<open>A run of requests for one group. At any time between two requests a job they started may go on: an
  import runs as a whole, an update of a tested key runs, a validation tests its next key, which starts
  the update of that key, or reports its progress or its end; and the group cache may be loaded again.\<close>

inductive kh_run :: "nat \<Rightarrow> key_server \<Rightarrow> key_server \<Rightarrow> bool" for gid x where
  begin_run: "kh_run gid x x"
| request: "kh_run gid x y \<Longrightarrow> kh_request (cached y) gid (srv y) e s' js cache' \<Longrightarrow>
    kh_run gid x \<lparr>srv = s', cached = cache', jobs = jobs y @ js\<rparr>"
| imported: "kh_run gid x y \<Longrightarrow> ImportJob g keys \<in> set (jobs y) \<Longrightarrow> commits envs \<Longrightarrow>
    ids_left (length keys) (svKeys (srv y)) \<Longrightarrow>
    kh_run gid x (set_keys (runImport enc dec et rt clk tend fe envs g keys (svKeys (srv y)))
      (y\<lparr>jobs := remove1 (ImportJob g keys) (jobs y)\<rparr>))"
| updated: "kh_run gid x y \<Longrightarrow> UpdateJob u \<in> set (jobs y) \<Longrightarrow> commits envs \<Longrightarrow>
    kh_run gid x (set_keys (fst (run_update envs u (svKeys (srv y)))) (y\<lparr>jobs := remove1 (UpdateJob u) (jobs y)\<rparr>))"
| validated: "kh_run gid x y \<Longrightarrow> ValidationJob grp (key # keys) \<in> set (jobs y) \<Longrightarrow>
    ValidateSingleKey settings getChannel check key grp = (grp', us, isValid, err) \<Longrightarrow>
    kh_run gid x (y\<lparr>jobs := remove1 (ValidationJob grp (key # keys)) (jobs y) @
      ValidationJob grp' keys # map UpdateJob us\<rparr>)"
| reported: "kh_run gid x y \<Longrightarrow> ValidationJob grp keys \<in> set (jobs y) \<Longrightarrow>
    f \<in> {UpdateProgress enc dec now n, EndTask enc dec now out} \<Longrightarrow>
    kh_run gid x (set_keys (on_task f (svKeys (srv y))) y)"
| loaded: "kh_run gid x y \<Longrightarrow> cache_current cache' (svGroups (srv y)) \<Longrightarrow> kh_run gid x (y\<lparr>cached := cache'\<rparr>)"

lemma update_confined:
  assumes "keys_ok p" "commits envs" "own_update gid p u"
  shows "confined gid p (fst (run_update envs u p))"
proof -
  let ?q = "fst (run_update envs u p)" and ?kid = "updated_key u"
  have rg: "right_group ?kid gid p" using assms(3) by (simp add: own_update_def)
  have "names_group (idents p) u"
    using assms(3) rg unfolding own_update_def right_group_idents by (metis names_group.simps(1,2))
  note k = run_update_ok [OF keys_ok_parts(1) [OF assms(1)] assms(2) this]
  have vals: "map (\<lambda>k. (GroupID k, KeyValue k)) (kdb q) = map snd (idents q)" for q
    by (simp add: idents_def comp_def)
  have own: "filter (\<lambda>k. GroupID k \<noteq> gid) (kdb q) = filter (\<lambda>k. GroupID k \<noteq> gid) (filter (\<lambda>k. ID k \<noteq> ?kid) (kdb q))"
    if "right_group ?kid gid q" for q
    using that by (auto simp: right_group_def intro!: filter_cong)
  have "right_group ?kid gid ?q" using rg k(2) by (simp add: right_group_idents)
  then have "other_keys gid ?q = other_keys gid p"
    unfolding other_keys_def own [OF rg] by (subst own) (simp_all only: update_other_rows)
  moreover have "unique_values (kdb ?q)"
    using keys_ok_parts(3) [OF assms(1)] k(2) unfolding unique_values_def vals by simp
  ultimately show ?thesis using k(1) by (simp add: confined_def keys_ok_def)
qed

definition run_inv :: "nat \<Rightarrow> key_server \<Rightarrow> key_server \<Rightarrow> bool" where
  "run_inv gid x y \<longleftrightarrow> svGroups (srv y) = svGroups (srv x) \<and> confined gid (svKeys (srv x)) (svKeys (srv y)) \<and>
     cache_current (cached y) (svGroups (srv y)) \<and> (\<forall>j \<in> set (jobs y). job_ok gid (svKeys (srv y)) j)"

lemma run_inv_keys:
  assumes "run_inv gid x y" "confined gid (svKeys (srv y)) p" "set js \<subseteq> set (jobs y)"
  shows "run_inv gid x (set_keys p (y\<lparr>jobs := js\<rparr>))"
  using assms confined_trans [of gid "svKeys (srv x)"] job_ok_confined [OF assms(2)]
  by (auto simp: run_inv_def set_keys_def)

lemma kh_run_inv:
  assumes "kh_run gid x y" "run_inv gid x x"
  shows "run_inv gid x y"
  using assms
proof (induction rule: kh_run.induct)
  case (request y e s' js cache')
  then have y: "run_inv gid x y" by simp
  have "keys_ok (svKeys (srv y))" using y confined_ok by (auto simp: run_inv_def)
  then have ok: "ok (svKeys (srv y))" "keys_ok (svKeys (srv y))" by (simp_all add: keys_ok_def)
  have cc: "cache_current (cached y) (svGroups (srv y))" using y unfolding run_inv_def by blast
  have s': "svGroups s' = svGroups (srv y)" "confined gid (svKeys (srv y)) (svKeys s')"
    using kh_request_effect [OF request(2)] ok(2) by (auto simp: effect_def)
  show ?case
    using y kh_request_jobs [OF request(2) ok(1) cc] s' confined_trans [OF _ s'(2)] job_ok_confined [OF s'(2)]
    by (auto simp: run_inv_def)
next
  case (imported y g keys envs enc dec et rt clk tend fe)
  then have y: "run_inv gid x y" "g = gid" by (auto simp: run_inv_def)
  have "keys_ok (svKeys (srv y))" using y confined_ok by (auto simp: run_inv_def)
  then show ?case
    using imported(3,4) y(2) by (intro run_inv_keys [OF y(1)] runImport_confined)
      (auto simp: ids_left_def dest: subsetD [OF set_remove1_subset])
next
  case (updated y u envs)
  then have y: "run_inv gid x y" "own_update gid (svKeys (srv y)) u" by (auto simp: run_inv_def)
  have "keys_ok (svKeys (srv y))" using y confined_ok by (auto simp: run_inv_def)
  then show ?case
    using updated(3) y(2) by (intro run_inv_keys [OF y(1)] update_confined) (auto dest: subsetD [OF set_remove1_subset])
next
  case (validated y grp key keys settings getChannel check grp' us isValid err)
  then have y: "run_inv gid x y" by simp
  have j: "gID grp = gid" "\<forall>k \<in> set (key # keys). right_group (ID k) gid (svKeys (srv y))"
    using y validated(2) unfolding run_inv_def by (metis job_ok.simps(3))+
  have g: "gID grp' = gID grp" "\<forall>u \<in> set us. own_update gid (svKeys (srv y)) u"
    using validated(3) j
    by (auto simp: ValidateSingleKey_def own_update_def Let_def split: option.splits prod.splits if_splits)
  show ?case using y j g by (auto simp: run_inv_def dest: subsetD [OF set_remove1_subset])
next
  case (reported y grp keys f enc dec now n out)
  then have y: "run_inv gid x y" by simp
  have "keys_ok (svKeys (srv y))" using y confined_ok by (auto simp: run_inv_def)
  moreover have "on_task_only f" using reported(3) UpdateProgress_local EndTask_local by blast
  ultimately have "confined gid (svKeys (srv y)) (on_task f (svKeys (srv y)))" using on_task_confined by blast
  then show ?case using run_inv_keys [OF y, of "on_task f (svKeys (srv y))" "jobs y"] by simp
next
  case (loaded y cache')
  then show ?case by (simp add: run_inv_def)
qed

lemma active_ids_others:
  "g \<noteq> gid \<Longrightarrow> active_ids (filter (\<lambda>k. GroupID k \<noteq> gid) rows) g = active_ids rows g"
  by (auto simp: active_ids_def)

lemma other_active_ids:
  assumes "filter (\<lambda>k. GroupID k \<noteq> gid) rows' = filter (\<lambda>k. GroupID k \<noteq> gid) rows" "g \<noteq> gid"
  shows "active_ids rows' g = active_ids rows g"
  using active_ids_others [OF assms(2), of rows', unfolded assms(1) active_ids_others [OF assms(2)]] ..

text \<open>C35: Whatever requests for the keys of one group are answered, with any failures of statements except
  commits, and whenever the imports, tests and validations they start go on: the rows of the keys of
  every other group stay as they are, so the keys that can be selected there are the same, no group
  is changed, the values of a group stay unique, and the store agrees with the table. An import runs
  as a whole. One condition on the start, besides this agreement: the group cache is not behind the
  table, which means that a group cached under the name of a row has the row's id. A test and a
  validation take the group from this cache, by name, so with a cache that is behind they would
  update the keys of the group the cache still has.\<close>

theorem key_requests_stay_in_group:
  assumes "kh_run gid x y" "ok (svKeys (srv x))" "unique_values (kdb (svKeys (srv x)))"
    and "cache_current (cached x) (svGroups (srv x))" "jobs x = []"
  shows "filter (\<lambda>k. GroupID k \<noteq> gid) (kdb (svKeys (srv y))) = filter (\<lambda>k. GroupID k \<noteq> gid) (kdb (svKeys (srv x))) \<and>
    (\<forall>g. g \<noteq> gid \<longrightarrow> active_ids (kdb (svKeys (srv y))) g = active_ids (kdb (svKeys (srv x))) g) \<and>
    svGroups (srv y) = svGroups (srv x) \<and> unique_values (kdb (svKeys (srv y))) \<and> ok (svKeys (srv y))"
proof -
  have "run_inv gid x x" using assms(2-5) by (auto simp: run_inv_def keys_ok_def confined_def)
  then have "svGroups (srv y) = svGroups (srv x) \<and> confined gid (svKeys (srv x)) (svKeys (srv y))"
    using kh_run_inv [OF assms(1)] by (simp add: run_inv_def)
  then show ?thesis
    using other_active_ids [of gid "kdb (svKeys (srv y))" "kdb (svKeys (srv x))"]
    unfolding confined_def keys_ok_def other_keys_def by blast
qed

text \<open>A request for a group that does not exist, and a request whose body, text, status or id is
  rejected, is answered with an error and changes nothing.\<close>

lemma rejected_key_requests:
  assumes "kh_request cache gid s e s' js cache'"
    and "(\<forall>g \<in> set (svGroups s). gID g \<noteq> gid) \<or> (\<exists>err. e = Some err \<and> refused err)"
  shows "s' = s \<and> e \<noteq> None"
  using kh_request_effect [OF assms(1)] assms(2) by (auto simp: effect_def known_def)

section \<open>Pages\<close>

lemma concat_pages:
  assumes "0 < n"
  shows "concat (map (\<lambda>i. take n (drop (i * n) xs)) [0..<m]) = take (m * n) xs"
proof (induction m)
  case (Suc m)
  have "take (m * n) xs @ take n (drop (m * n) xs) = take (m * n + n) xs" by (simp add: take_add)
  then show ?case using Suc by (simp add: add.commute)
qed simp

lemma path_id_show: "in_i64 i \<Longrightarrow> path_id (show_int i) = Some i"
  by (simp add: path_id_def)

lemma requested_size_bounds: "0 < requested_size t \<and> requested_size t \<le> MaxPageSize"
  by (auto simp: requested_size_def Let_def DefaultPageSize_def MaxPageSize_def split: option.splits)

lemma requested_page_show: "in_i64 i \<Longrightarrow> 1 \<le> i \<Longrightarrow> requested_page (Some (show_int i)) = i"
  by (simp add: requested_page_def path_id_show)

lemma page_items:
  assumes "0 \<le> i" "i * requested_size sz \<le> 4398046511104"
  shows "Paginate False (Some (show_int (i + 1))) sz rows =
    Some \<lparr>Items = take (nat (requested_size sz)) (drop (nat i * nat (requested_size sz)) rows), Page = i + 1,
      PageSize = requested_size sz, TotalItems = int (length rows),
      TotalPages = (int (length rows) + requested_size sz - 1) div requested_size sz\<rparr>"
proof -
  have b: "0 < requested_size sz" using requested_size_bounds by blast
  have "i \<le> i * requested_size sz" using assms(1) b by (simp add: mult_le_cancel_left1)
  then have i: "in_i64 (i + 1)" using assms by (simp add: in_i64_def)
  have "0 \<le> i * requested_size sz" using assms(1) b by simp
  then have "i64 (i * requested_size sz) = i * requested_size sz" using assms(2) by (intro i64_id) (simp add: in_i64_def)
  then show ?thesis
    using requested_page_show [OF i] assms(1) b by (simp add: Paginate_def nat_mult_distrib Let_def)
qed

lemma upto_from_one: "[1..int n] = map (\<lambda>i. int i + 1) [0..<n]"
  by (induction n) (simp_all add: upto_rec2)

lemma page_count:
  fixes n m b i :: int
  assumes "0 < b" "0 \<le> n" "m = (n + b - 1) div b"
  shows "n \<le> m * b" "0 \<le> m" "i < m \<Longrightarrow> i * b < n"
proof -
  have e: "n + b - 1 = m * b + (n + b - 1) mod b" using assms(3) div_mult_mod_eq [of "n + b - 1" b] by simp
  have d: "m * b \<le> n + b - 1" "n + b - 1 < m * b + b"
    using e pos_mod_sign [OF assms(1), of "n + b - 1"] pos_mod_bound [OF assms(1), of "n + b - 1"] by linarith+
  show "n \<le> m * b" using d(2) by simp
  show "0 \<le> m" using assms by (simp add: div_int_pos_iff)
  show "i * b < n" if "i < m"
  proof -
    have "(i + 1) * b \<le> m * b" using that assms(1) by (intro mult_right_mono) auto
    then show ?thesis using d(1) by (simp add: algebra_simps)
  qed
qed

text \<open>The pages from the first to the last, for any size that was asked for, when page \<^verbatim>\<open>i\<close> is cut from
  the list \<^verbatim>\<open>rs i\<close>.\<close>

lemma pages_of_lists:
  fixes rs :: "int \<Rightarrow> 'a list"
  assumes "\<And>i. length (rs i) = n" "int n \<le> 4398046511104"
    and "m = (int n + requested_size sz - 1) div requested_size sz"
  shows "\<exists>pages. map (\<lambda>i. Paginate False (Some (show_int i)) sz (rs i)) [1..m] = map Some pages \<and>
    (\<forall>p \<in> set pages. Items p \<noteq> [] \<and> int (length (Items p)) \<le> MaxPageSize \<and> (\<exists>i. set (Items p) \<subseteq> set (rs i))) \<and>
    length (concat (map Items pages)) = n \<and>
    (\<forall>rows. (\<forall>i. rs i = rows) \<longrightarrow> concat (map Items pages) = rows)"
proof -
  define b where "b = requested_size sz"
  define cut_page where "cut_page = (\<lambda>i. take (nat b) (drop (i * nat b) (rs (int i + 1))))"
  define pg where "pg = (\<lambda>i. \<lparr>Items = cut_page i, Page = int i + 1,
    PageSize = b, TotalItems = int n, TotalPages = (int n + b - 1) div b\<rparr>)"
  have b: "0 < b" "b \<le> MaxPageSize" using requested_size_bounds by (simp_all add: b_def)
  have m: "m = (int n + b - 1) div b" using assms(3) by (simp add: b_def)
  note c = page_count [OF b(1) _ m]
  have lt: "i * nat b < n" if "i < nat m" for i
  proof -
    have "int i * b < int n" using c(3) [of "int i"] that by simp
    then show ?thesis using b(1) by (metis int_nat_eq nat_int of_nat_less_iff of_nat_mult order_less_imp_le)
  qed
  have page: "Paginate False (Some (show_int (int i + 1))) sz (rs (int i + 1)) = Some (pg i)" if "i < nat m" for i
  proof -
    have "int i < m" using that by simp
    then have "int i * requested_size sz \<le> 4398046511104" using c(3) [of "int i"] assms(2) by (simp add: b_def)
    then show ?thesis using page_items [of "int i" sz "rs (int i + 1)"] assms(1) by (simp add: pg_def b_def cut_page_def)
  qed
  let ?pages = "map pg [0..<nat m]"
  have "[1..m] = map (\<lambda>i. int i + 1) [0..<nat m]" using upto_from_one [of "nat m"] c(2) by simp
  then have "map (\<lambda>i. Paginate False (Some (show_int i)) sz (rs i)) [1..m] = map Some ?pages"
    using page by simp
  moreover have "n \<le> nat m * nat b" using c(1,2) b(1) by (simp add: nat_mult_distrib [symmetric] nat_le_iff)
  note all = concat_pages [of "nat b" _ "nat m"]
  have "length (concat (map Items ?pages)) = length (concat (map (\<lambda>i. take (nat b) (drop (i * nat b) (rs 0))) [0..<nat m]))"
    using assms(1) by (simp add: length_concat comp_def pg_def cut_page_def)
  then have "length (concat (map Items ?pages)) = n"
    using all [of "rs 0"] b(1) \<open>n \<le> nat m * nat b\<close> assms(1) by simp
  moreover have "concat (map Items ?pages) = rows" if "\<forall>i. rs i = rows" for rows
    using all [of rows] that b(1) \<open>n \<le> nat m * nat b\<close> assms(1) [of 0] by (simp add: pg_def cut_page_def comp_def)
  moreover have "\<forall>p \<in> set ?pages. Items p \<noteq> [] \<and> int (length (Items p)) \<le> MaxPageSize \<and> (\<exists>i. set (Items p) \<subseteq> set (rs i))"
    using lt b assms(1) set_take_subset set_drop_subset by (fastforce simp: pg_def cut_page_def)
  ultimately show ?thesis by (intro exI [of _ ?pages]) simp
qed

lemma list_order_unique:
  assumes "list_order nh cols ord" "list_order nh cols ord'" "inj_on (list_rank nh cols) (set rows)"
  shows "ord rows = ord' rows"
proof -
  have m: "mset (ord rows) = mset rows" "mset (ord' rows) = mset rows"
    and s: "sorted (rev (map (list_rank nh cols) (ord rows)))" "sorted (rev (map (list_rank nh cols) (ord' rows)))"
    using assms(1,2) by (simp_all add: list_order_def)
  have "mset (rev (map (list_rank nh cols) (ord rows))) = mset (rev (map (list_rank nh cols) (ord' rows)))"
    using m by simp
  then have "rev (map (list_rank nh cols) (ord rows)) = rev (map (list_rank nh cols) (ord' rows))"
    using s properties_for_sort by metis
  then have "map (list_rank nh cols) (ord rows) = map (list_rank nh cols) (ord' rows)" by simp
  moreover have "set (ord rows) = set rows" "set (ord' rows) = set rows" using m mset_eq_setD by blast+
  ultimately show ?thesis using map_inj_on assms(3) by (metis Un_absorb)
qed

lemma query_order: "ListKeysInGroupQuery like ord gid status keyword p = ord (ListKeysInGroupQuery like id gid status keyword p)"
  by (simp add: ListKeysInGroupQuery_def)

text \<open>C36: Take the pages of a list of keys, asked for one after another from the first to the last that any
  answer announces, on a table that does not change in between, for up to 2^42 selected keys, with no
  failing statement. None is empty, none is longer than the greatest size, every entry is a
  selected key, and together they have as many entries as there are selected keys. If no two of
  the selected keys agree in both columns the query sorts by, last_used_at and updated_at, then
  the pages hold every selected key exactly once, in that order. The condition is needed: the
  database orders keys that agree in both as it likes, for every page anew.\<close>

theorem listed_pages_are_the_keys:
  assumes "ListKeysInGroup like ord (\<lambda>_. False) group_id status keyword page page_size s = (s', Inr resp)"
    and "validateGroupIDFromQuery group_id = Inr gid"
    and "ListKeysInGroupQuery like id gid status keyword (svKeys s) = rows" "int (length rows) \<le> 4398046511104"
    and "list_order nh cols ord" "\<forall>i. list_order nh cols (ords i)"
  shows "\<exists>pages. map (\<lambda>i. snd (ListKeysInGroup like (ords i) (\<lambda>_. False) group_id status keyword
        (Some (show_int i)) page_size s)) [1..TotalPages resp] = map Inr pages \<and>
    (\<forall>p \<in> set pages. Items p \<noteq> [] \<and> int (length (Items p)) \<le> MaxPageSize \<and> set (Items p) \<subseteq> set rows) \<and>
    length (concat (map Items pages)) = length rows \<and>
    (inj_on (list_rank nh cols) (set rows) \<longrightarrow> mset (concat (map Items pages)) = mset rows \<and>
       sorted (rev (map (list_rank nh cols) (concat (map Items pages)))))"
proof -
  have ms: "mset (ords i rows) = mset rows" "mset (ord rows) = mset rows" for i
    using assms(5,6) by (simp_all add: list_order_def)
  have pg: "ListKeysInGroup like o1 (\<lambda>_. False) group_id status keyword pt page_size s =
      (s, Inr (the (Paginate False pt page_size (o1 rows))))" for pt o1
    using assms(1-3) query_order [of like o1 gid]
    by (auto simp: ListKeysInGroup_def Paginate_def Let_def split: sum.splits if_splits)
  have tp: "TotalPages resp = (int (length rows) + requested_size page_size - 1) div requested_size page_size"
    using assms(1) pg [of ord page] mset_eq_length [OF ms(2)] by (auto simp: Paginate_def Let_def)
  have "length (ords i rows) = length rows" for i using mset_eq_length [OF ms(1)] .
  from pages_of_lists [of "\<lambda>i. ords i rows", OF this assms(4) tp] obtain pages where p:
      "map (\<lambda>i. Paginate False (Some (show_int i)) page_size (ords i rows)) [1..TotalPages resp] = map Some pages"
      "\<forall>p \<in> set pages. Items p \<noteq> [] \<and> int (length (Items p)) \<le> MaxPageSize \<and> (\<exists>i. set (Items p) \<subseteq> set (ords i rows))"
      "length (concat (map Items pages)) = length rows"
      "\<And>r. (\<forall>i. ords i rows = r) \<Longrightarrow> concat (map Items pages) = r" by blast
  have q: "pages = map (\<lambda>i. the (Paginate False (Some (show_int i)) page_size (ords i rows))) [1..TotalPages resp]"
    using arg_cong [OF p(1), of "map the"] by (simp add: comp_def)
  have "map (\<lambda>i. snd (ListKeysInGroup like (ords i) (\<lambda>_. False) group_id status keyword (Some (show_int i))
      page_size s)) [1..TotalPages resp] = map Inr pages"
    unfolding q by (simp add: pg)
  moreover have "concat (map Items pages) = ord rows" if "inj_on (list_rank nh cols) (set rows)"
    using p(4) list_order_unique [OF _ assms(5) that] assms(6) by blast
  then have "inj_on (list_rank nh cols) (set rows) \<longrightarrow> mset (concat (map Items pages)) = mset rows \<and>
       sorted (rev (map (list_rank nh cols) (concat (map Items pages))))"
    using assms(5) by (simp add: list_order_def)
  moreover have "set (ords i rows) = set rows" for i using ms(1) mset_eq_setD by blast
  ultimately show ?thesis using p(2,3) by (intro exI [of _ pages]) simp
qed

text \<open>Two keys that agree in both columns, as the keys of one import do: with pages of one key each, one of
  them may be shown twice and the other never, by orders that the query allows.\<close>

lemma list_order_of:
  assumes "\<And>rows. mset (f rows) = mset rows"
  shows "list_order nh cols (\<lambda>rows. rev (sort_key (list_rank nh cols) (f rows)))"
  by (simp add: list_order_def assms rev_map)

lemma tied_keys_on_pages:
  assumes "list_rank nh cols a = list_rank nh cols b"
  shows "\<exists>ords. (\<forall>i. list_order nh cols (ords i)) \<and>
    map (\<lambda>i. map_option Items (Paginate False (Some (show_int i)) (Some (show_int 1)) (ords i [a, b]))) [1, 2] =
      [Some [b], Some [b]]"
proof -
  let ?ords = "\<lambda>i rows. if i = (1 :: int) then rev (sort_key (list_rank nh cols) rows)
    else rev (sort_key (list_rank nh cols) (rev rows))"
  have "list_order nh cols (?ords i)" for i
    using list_order_of [of "\<lambda>r. r" nh cols] list_order_of [of rev nh cols] by (cases "i = 1") simp_all
  moreover have "requested_size (Some (show_int 1)) = 1"
    by (simp add: requested_size_def path_id_show MaxPageSize_def in_i64_def)
  moreover have "requested_page (Some (show_int 1)) = 1" "requested_page (Some (show_int 2)) = 2"
    by (rule requested_page_show; simp add: in_i64_def)+
  moreover have "i64 1 = 1" by simp
  ultimately show ?thesis
    using assms by (intro exI [of _ ?ords]) (simp add: Paginate_def Let_def)
qed

text \<open>The product of page and size is not checked: a page number far beyond the last gives the rows of the
  first page again.\<close>

lemma page_number_wraps:
  "map_option Items (Paginate False (Some (show_int 1000000000000000001)) None [a, b, c]) = Some [a, b, c]"
proof -
  have "requested_page (Some (show_int 1000000000000000001)) = 1000000000000000001"
    by (rule requested_page_show) (simp_all add: in_i64_def)
  moreover have "requested_size None = 15"
    by (simp add: requested_size_def path_id_show DefaultPageSize_def MaxPageSize_def in_i64_def)
  ultimately show ?thesis by (simp add: Paginate_def i64_def)
qed

section \<open>Witnesses\<close>

lemma demo_server_keys: "ok (svKeys demo_server)" "unique_values (kdb (svKeys demo_server))"
  "svKeys demo_server = demo_loaded" "svGroups demo_server = [demo_db_row]" "gID demo_db_row = 1"
proof -
  have sn: "show_nat (Suc 0) = ''1''" "show_nat 2 = ''2''" by code_simp+
  show "ok (svKeys demo_server)" "svKeys demo_server = demo_loaded" "svGroups demo_server = [demo_db_row]"
      "gID demo_db_row = 1"
    by (simp_all add: demo_server_def demo_loaded_ok demo_db_row_def)
  show "unique_values (kdb (svKeys demo_server))"
    by (simp add: demo_server_def demo_loaded_ok(2) demo_def demo_key_def unique_values_def sn)
qed

text \<open>A test of a key of group 1 starts an update, which runs after the other key was deleted.\<close>

definition demo_key_server :: key_server where
  "demo_key_server = \<lparr>srv = demo_server, cached = (\<lambda>_. Some validating_row), jobs = []\<rparr>"

lemma demo_test_request:
  "\<exists>cache' rs. TestMultipleKeysRequest (\<lambda>_. (False, [])) DefaultSettings (\<lambda>_. None) (\<lambda>_ _. (True, None)) (\<lambda>_. None)
    (\<lambda>_. False) (Some \<lparr>ktGroupID = 1, ktKeysText = ''sk-1''\<rparr>) (\<lambda>_. Some validating_row) demo_server =
    (cache', [Succeeded 1 1], Inr rs)"
proof -
  have k: "ParseKeysFromText (\<lambda>_. (False, [])) ''sk-1'' = [''sk-1'']" by code_simp
  have t: "validateKeysText ''sk-1''" by (simp add: validateKeysText_def TrimSpace_def is_space_def)
  have d: "kdb demo_loaded = [demo_key 1 KeyStatusActive, demo_key 2 KeyStatusRateLimited]"
    by (simp add: demo_loaded_ok(2) demo_def)
  have sn: "show_nat (Suc 0) = ''1''" "show_nat 2 = ''2''" by code_simp+
  have g: "gID validating_row = 1" by (simp add: validating_row_def demo_row_def)
  show ?thesis
    by (simp add: TestMultipleKeysRequest_def bind_keys_text_def findGroupByID_def demo_server_keys(3-5)
        GetGroupByName_def t TestMultipleKeysFromText_def k maxRequestKeys_def test_chunks.simps chunkSize_def
        TestMultipleKeys_def d demo_key_def sn g existing_key_def ValidateSingleKey_def Let_def)
qed

theorem key_requests_stay_in_group_witness:
  "\<exists>z y. kh_run 1 demo_key_server z \<and> jobs z = [UpdateJob (Succeeded 1 1)] \<and>
    kh_run 1 demo_key_server y \<and> jobs y = [] \<and> unique_values (kdb (svKeys (srv y))) \<and>
    svGroups (srv y) = [demo_db_row] \<and> ok (svKeys (srv y))"
proof -
  let ?c = "\<lambda>_. Some validating_row"
  obtain c1 rs where t: "TestMultipleKeysRequest (\<lambda>_. (False, [])) DefaultSettings (\<lambda>_. None) (\<lambda>_ _. (True, None)) (\<lambda>_. None)
    (\<lambda>_. False) (Some \<lparr>ktGroupID = 1, ktKeysText = ''sk-1''\<rparr>) ?c demo_server = (c1, [Succeeded 1 1], Inr rs)"
    using demo_test_request by blast
  have "kh_request ?c 1 demo_server (answer (Inr rs :: key_error + KeyTestResult list)) demo_server
      (map UpdateJob [Succeeded 1 1]) c1"
    by (rule kh_request.test [OF _ t]) (simp add: names_def)
  then have r1: "kh_run 1 demo_key_server \<lparr>srv = demo_server, cached = c1, jobs = [UpdateJob (Succeeded 1 1)]\<rparr>"
    using kh_run.request [OF kh_run.begin_run, of demo_key_server 1 None demo_server "[UpdateJob (Succeeded 1 1)]" c1]
    by (simp add: demo_key_server_def)
  obtain s' r where d: "ClearAllInvalidKeys (\<lambda>_. False) tx_ok (Some 1) demo_server = (s', r)" by fastforce
  have "kh_request c1 1 demo_server (answer r) s' [] c1"
    by (rule kh_request.clear_invalid [OF _ _ d]) (simp_all add: tx_ok_def)
  with kh_run.request [OF r1] have r2:
    "kh_run 1 demo_key_server \<lparr>srv = s', cached = c1, jobs = [UpdateJob (Succeeded 1 1)]\<rparr>" by fastforce
  obtain y where y: "kh_run 1 demo_key_server y" "jobs y = []"
    using kh_run.updated [OF r2, of "Succeeded 1 1" "\<lambda>_. tx_ok"] by (fastforce simp: set_keys_def commits_def tx_ok_def)
  have "cache_current ?c (svGroups demo_server)"
    by (simp add: cache_current_def GetGroupByName_def demo_server_keys(4,5) validating_row_def demo_row_def)
  with key_requests_stay_in_group [OF y(1)] have
    "unique_values (kdb (svKeys (srv y))) \<and> svGroups (srv y) = [demo_db_row] \<and> ok (svKeys (srv y))"
    using demo_server_keys by (auto simp: demo_key_server_def)
  then show ?thesis using r1 y by fastforce
qed

lemma rejected_key_requests_demo:
  "\<exists>e s'. kh_request (\<lambda>_. None) 9 demo_server e s' [] (\<lambda>_. None) \<and> e \<noteq> None \<and> s' = demo_server"
proof -
  obtain s' r where d: "ClearAllKeys (\<lambda>_. False) tx_ok (Some 9) demo_server = (s', r)" by fastforce
  have q: "kh_request (\<lambda>_. None) 9 demo_server (answer r) s' [] (\<lambda>_. None)"
    by (rule kh_request.clear_all [OF _ _ d]) (simp_all add: tx_ok_def)
  have "\<forall>g \<in> set (svGroups demo_server). gID g \<noteq> 9" by (simp add: demo_server_keys)
  then show ?thesis using rejected_key_requests [OF q] q by blast
qed

definition demo_cols :: "nat \<Rightarrow> int option \<times> int" where
  "demo_cols i = (if i = 1 then (None, 3) else (Some 4, 5))"

theorem listed_pages_are_the_keys_witness:
  "\<exists>ord pages. map (\<lambda>i. snd (ListKeysInGroup (\<lambda>_ _. True) ord (\<lambda>_. False) ''1'' [] [] (Some (show_int i))
      (Some (show_int 1)) demo_server)) [1..2] = map Inr pages \<and>
    mset (map ID (concat (map Items pages))) = {#1, 2#}"
proof -
  let ?ord = "\<lambda>rows. rev (sort_key (list_rank False demo_cols) rows)"
  let ?rows = "[demo_key 1 KeyStatusActive, demo_key 2 KeyStatusRateLimited]"
  have o: "list_order False demo_cols ?ord" using list_order_of [of "\<lambda>r. r"] by simp
  have z: "requested_size (Some (show_int 1)) = 1"
    by (simp add: requested_size_def path_id_show MaxPageSize_def in_i64_def)
  have g: "validateGroupIDFromQuery ''1'' = Inr 1" by (simp add: validateGroupIDFromQuery_def demo_checks)
  have q: "ListKeysInGroupQuery (\<lambda>_ _. True) id 1 [] [] (svKeys demo_server) = ?rows"
    by (simp add: ListKeysInGroupQuery_def demo_server_keys(3) demo_loaded_ok(2) demo_def demo_key_def)
  have q': "ListKeysInGroupQuery (\<lambda>_ _. True) ?ord 1 [] [] (svKeys demo_server) = ?ord ?rows"
    unfolding query_order [of _ ?ord] q ..
  have i: "inj_on (list_rank False demo_cols) (set ?rows)" by (simp add: list_rank_def demo_cols_def demo_key_def)
  obtain resp where r: "ListKeysInGroup (\<lambda>_ _. True) ?ord (\<lambda>_. False) ''1'' [] [] None (Some (show_int 1)) demo_server =
      (demo_server, Inr resp)" "TotalPages resp = 2"
    by (simp add: ListKeysInGroup_def g q' [unfolded One_nat_def] findGroupByID_def 
        demo_server_keys(4,5) Paginate_def z Let_def)
  obtain pages where p: "map (\<lambda>i. snd (ListKeysInGroup (\<lambda>_ _. True) ?ord (\<lambda>_. False) ''1'' [] [] (Some (show_int i))
      (Some (show_int 1)) demo_server)) [1..2] = map Inr pages" "mset (concat (map Items pages)) = mset ?rows"
    using listed_pages_are_the_keys [OF r(1) g q _ o, of "\<lambda>_. ?ord"] o i r(2) by auto
  have "mset (map ID (concat (map Items pages))) = image_mset ID (mset ?rows)"
    using p(2) by (metis mset_map)
  then have "mset (map ID (concat (map Items pages))) = {#1, 2#}" by (simp add: demo_key_def)
  then show ?thesis using p(1) by blast
qed

end
