(* ===== verification/ConfigApplier.thy ===== *)
theory ConfigApplier
  imports LayeredReach LayeredWitness ShardedAdmin
begin

text \<open>The application of optimised configurations to the pools of the groups:
  src/internal/keypool/config_applier.go. The pools the pool manager knows are a map; of a configuration of a pool
  the columns are kept that the pools read. The clock is read once for an entry of the history.\<close>

section \<open>State\<close>

record OptimizerOptimalConfig =
  optShardCount :: int
  optCacheSize :: int
  optBatchSize :: int
  optMaxConcurrency :: int
  optSelectTimeout :: int
  optRecoveryTimeout :: int
  optAvailableMemory :: int

text \<open>The part of the settings of a Redis pool that the applier replaces.\<close>

record redis_settings =
  rsKeyPrefix :: string
  rsBatchKeys :: int
  rsPipelineSize :: int
  rsConnectionPool :: int
  rsCommandTimeout :: int

datatype applied_pool = MemPool lp | RedPool pool_db redis_settings

text \<open>The errors, and the note that a rollback leaves in the place of one.\<close>

datatype apply_err = PoolUnavailable | UpdateRejected lp_err | MemoryRejected string | NoPreviousConfig | RolledBack

record ConfigApplication =
  caGroupID :: nat
  caConfig :: OptimizerOptimalConfig
  caAppliedAt :: int
  caSuccess :: bool
  caError :: "apply_err option"
  caRollback :: bool

record ConfigApplier =
  appliedConfigs :: "(nat, OptimizerOptimalConfig) gomap"
  applicationHistory :: "ConfigApplication list"

definition NewConfigApplier :: ConfigApplier where
  "NewConfigApplier = \<lparr>appliedConfigs = [], applicationHistory = []\<rparr>"

type_synonym pool_map = "(nat, applied_pool) gomap"

section \<open>Operations\<close>

definition recordApplication ::
  "int \<Rightarrow> nat \<Rightarrow> OptimizerOptimalConfig \<Rightarrow> bool \<Rightarrow> apply_err option \<Rightarrow> bool \<Rightarrow> ConfigApplier \<Rightarrow> ConfigApplier" where
  "recordApplication now groupID config success err rollback ca =
    (let history = applicationHistory ca @
       [\<lparr>caGroupID = groupID, caConfig = config, caAppliedAt = now, caSuccess = success, caError = err,
         caRollback = rollback\<rparr>]
     in ca\<lparr>applicationHistory := drop (length history - 1000) history\<rparr>)"

definition convertToPoolConfig :: "OptimizerOptimalConfig \<Rightarrow> PoolConfig" where
  "convertToPoolConfig optimal =
    \<lparr>cfgGroupID = 0,
     MinActiveKeys = tdiv (optCacheSize optimal) 4, MaxActiveKeys = tdiv (optCacheSize optimal) 2,
     MinReadyKeys = tdiv (optCacheSize optimal) 8, MaxReadyKeys = tdiv (optCacheSize optimal) 4,
     RefillBatchSize = optBatchSize optimal,
     DefaultCoolingTime = optRecoveryTimeout optimal,
     MaxCoolingTime = i64 (optRecoveryTimeout optimal * 2)\<rparr>"

text \<open>\<^verbatim>\<open>eo\<close>, \<^verbatim>\<open>ko\<close> and \<^verbatim>\<open>ord\<close> are the orders in which the maps of the cache and of the shards are iterated.\<close>

definition applyMemoryPoolConfig ::
  "(nat \<times> PoolKey \<times> int) iter \<Rightarrow> nat iter \<Rightarrow> entry iter \<Rightarrow> int \<Rightarrow> OptimizerOptimalConfig \<Rightarrow> lp \<Rightarrow> lp \<times> string option" where
  "applyMemoryPoolConfig eo ko ord now config p =
    (case Reconfigure ord now
       (Some \<lparr>ShardCount = optShardCount config, LockTimeout = 1000000000, GCInterval = 600000000000,
              MaxMemoryUsage = i64 (i64 (optAvailableMemory config * 1024) * 1024), EnableMetrics = True,
              CacheSize = optCacheSize config\<rparr>) (lstore p) of
       (s, Some e) \<Rightarrow> (p\<lparr>lstore := s\<rparr>, Some e)
     | (s, None) \<Rightarrow>
         let p1 = p\<lparr>lstore := s\<rparr> in
         (case localCache p1 of
            None \<Rightarrow> (p1, None)
          | Some c \<Rightarrow>
              (case cache_UpdateConfig eo ko now (Some (optCacheSize config, 1800000000000)) c of
                 Inl e \<Rightarrow> (p1, Some e)
               | Inr c' \<Rightarrow> (p1\<lparr>localCache := Some c'\<rparr>, None))))"

definition applyRedisPoolConfig :: "OptimizerOptimalConfig \<Rightarrow> redis_settings \<Rightarrow> redis_settings" where
  "applyRedisPoolConfig config r =
    \<lparr>rsKeyPrefix = rsKeyPrefix r, rsBatchKeys = optBatchSize config, rsPipelineSize = optBatchSize config,
     rsConnectionPool = optMaxConcurrency config, rsCommandTimeout = optSelectTimeout config\<rparr>"

fun pool_GetConfig :: "nat \<Rightarrow> applied_pool \<Rightarrow> applied_pool \<times> PoolConfig" where
  "pool_GetConfig gid (MemPool p) = (case lp_getGroupConfig gid p of (p', c) \<Rightarrow> (MemPool p', c))"
| "pool_GetConfig gid (RedPool p r) = (case lp_getGroupConfig gid p of (p', c) \<Rightarrow> (RedPool p' r, c))"

fun pool_UpdateConfig :: "nat \<Rightarrow> PoolConfig \<Rightarrow> applied_pool \<Rightarrow> applied_pool \<times> (lp_err + unit)" where
  "pool_UpdateConfig gid c (MemPool p) = (case lp_UpdateConfig gid (Some c) p of (p', r) \<Rightarrow> (MemPool p', r))"
| "pool_UpdateConfig gid c (RedPool p s) = (case lp_UpdateConfig gid (Some c) p of (p', r) \<Rightarrow> (RedPool p' s, r))"

definition ApplyOptimalConfig ::
  "(nat \<times> PoolKey \<times> int) iter \<Rightarrow> nat iter \<Rightarrow> entry iter \<Rightarrow> int \<Rightarrow> nat \<Rightarrow> OptimizerOptimalConfig \<Rightarrow>
   ConfigApplier \<times> pool_map \<Rightarrow> (ConfigApplier \<times> pool_map) \<times> apply_err option" where
  "ApplyOptimalConfig eo ko ord now groupID config = (\<lambda>(ca, pools).
    case gget pools groupID of
      None \<Rightarrow>
        ((recordApplication now groupID config False (Some PoolUnavailable) False ca, pools), Some PoolUnavailable)
    | Some pool \<Rightarrow>
        let (pool1, previousConfig) = pool_GetConfig groupID pool in
        (case pool_UpdateConfig groupID (convertToPoolConfig config) pool1 of
           (pool2, Inl e) \<Rightarrow>
             ((recordApplication now groupID config False (Some (UpdateRejected e)) False ca,
               gput groupID pool2 pools), Some (UpdateRejected e))
         | (pool2, Inr _) \<Rightarrow>
             let succeed = (\<lambda>pool3.
               ((recordApplication now groupID config True None False
                   (ca\<lparr>appliedConfigs := gput groupID config (appliedConfigs ca)\<rparr>), gput groupID pool3 pools), None))
             in case pool2 of
               RedPool p r \<Rightarrow> succeed (RedPool p (applyRedisPoolConfig config r))
             | MemPool p \<Rightarrow>
                 (case applyMemoryPoolConfig eo ko ord now config p of
                    (p1, None) \<Rightarrow> succeed (MemPool p1)
                  | (p1, Some e) \<Rightarrow>
                      ((recordApplication now groupID config False (Some (MemoryRejected e)) True ca,
                        gput groupID (fst (pool_UpdateConfig groupID previousConfig (MemPool p1))) pools),
                       Some (MemoryRejected e)))))"

text \<open>Applying to all groups goes on after a failure; the result is the list of failures.\<close>

fun ApplyToAllGroups ::
  "(nat \<times> PoolKey \<times> int) iter \<Rightarrow> nat iter \<Rightarrow> entry iter \<Rightarrow> int \<Rightarrow> nat list \<Rightarrow> OptimizerOptimalConfig \<Rightarrow>
   ConfigApplier \<times> pool_map \<Rightarrow> (ConfigApplier \<times> pool_map) \<times> (nat \<times> apply_err) list" where
  "ApplyToAllGroups eo ko ord now [] config s = (s, [])"
| "ApplyToAllGroups eo ko ord now (gid # gids) config s =
    (let (s1, err) = ApplyOptimalConfig eo ko ord now gid config s;
         (s2, errs) = ApplyToAllGroups eo ko ord now gids config s1
     in (s2, (case err of None \<Rightarrow> errs | Some e \<Rightarrow> (gid, e) # errs)))"

definition RollbackConfig ::
  "int \<Rightarrow> nat \<Rightarrow> ConfigApplier \<times> pool_map \<Rightarrow> (ConfigApplier \<times> pool_map) \<times> apply_err option" where
  "RollbackConfig now groupID = (\<lambda>(ca, pools).
    case find (\<lambda>a. caGroupID a = groupID \<and> caSuccess a \<and> \<not> caRollback a) (rev (applicationHistory ca)) of
      None \<Rightarrow> ((ca, pools), Some NoPreviousConfig)
    | Some app \<Rightarrow>
        (case gget pools groupID of
           None \<Rightarrow> ((ca, pools), Some PoolUnavailable)
         | Some pool \<Rightarrow>
             (case pool_UpdateConfig groupID (convertToPoolConfig (caConfig app)) pool of
                (pool1, Inl e) \<Rightarrow>
                  ((recordApplication now groupID (caConfig app) False (Some (UpdateRejected e)) True ca,
                    gput groupID pool1 pools), Some (UpdateRejected e))
              | (pool1, Inr _) \<Rightarrow>
                  ((recordApplication now groupID (caConfig app) True (Some RolledBack) True ca, gput groupID pool1 pools), None))))"

definition GetAppliedConfig :: "nat \<Rightarrow> ConfigApplier \<Rightarrow> OptimizerOptimalConfig option" where
  "GetAppliedConfig groupID ca = gget (appliedConfigs ca) groupID"

definition GetApplicationHistory :: "nat \<Rightarrow> ConfigApplier \<Rightarrow> ConfigApplication list" where
  "GetApplicationHistory groupID ca = filter (\<lambda>a. groupID = 0 \<or> caGroupID a = groupID) (applicationHistory ca)"

datatype config_fault = BadShardCount | BadCacheSize | BadBatchSize | BadConcurrency | BadSelectTimeout

definition ValidateOptimalConfig :: "OptimizerOptimalConfig \<Rightarrow> config_fault option" where
  "ValidateOptimalConfig c =
    (if optShardCount c \<le> 0 \<or> optShardCount c > 1024 then Some BadShardCount
     else if optCacheSize c \<le> 0 \<or> optCacheSize c > 1000000 then Some BadCacheSize
     else if optBatchSize c \<le> 0 \<or> optBatchSize c > 10000 then Some BadBatchSize
     else if optMaxConcurrency c \<le> 0 \<or> optMaxConcurrency c > 10000 then Some BadConcurrency
     else if optSelectTimeout c \<le> 0 \<or> optSelectTimeout c > 300000000000 then Some BadSelectTimeout
     else None)"

text \<open>The successes, failures and rollbacks of the history.\<close>

definition applier_stats :: "ConfigApplier \<Rightarrow> nat \<times> nat \<times> nat" where
  "applier_stats ca =
    (let h = applicationHistory ca in
     (length (filter (\<lambda>a. \<not> caRollback a \<and> caSuccess a) h),
      length (filter (\<lambda>a. \<not> caRollback a \<and> \<not> caSuccess a) h),
      length (filter caRollback h)))"

section \<open>A memory pool keeps its keys\<close>

text \<open>The shards the memory pool gets.\<close>

definition shards_of :: "OptimizerOptimalConfig \<Rightarrow> ShardedStoreConfig" where
  "shards_of config =
    \<lparr>ShardCount = optShardCount config, LockTimeout = 1000000000, GCInterval = 600000000000,
     MaxMemoryUsage = i64 (i64 (optAvailableMemory config * 1024) * 1024), EnableMetrics = True,
     CacheSize = optCacheSize config\<rparr>"

lemma memory_config_applied:
  assumes "iter_order ord" "lp_ok p" "applyMemoryPoolConfig eo ko ord now config p = (p', err)"
  shows "lp_ok p' \<and> view p' = view p \<and> groupConfigs p' = groupConfigs p \<and> ldb p' = ldb p \<and>
    (err = None \<longleftrightarrow> validateConfig (shards_of config) = None) \<and> (err \<noteq> None \<longrightarrow> p' = p)"
proof -
  obtain s e where r: "Reconfigure ord now (Some (shards_of config)) (lstore p) = (s, e)" by fastforce
  have i: "sh_inv (lstore p)" using assms(2) by (simp add: store_ok_def)
  note k = reconfigure_keeps_contents [OF assms(1) i r]
  have ok: "store_ok s" "sview s = sview (lstore p)"
    using k assms(2) by (simp_all add: store_ok_def sview_def sh_abs_def)
  have v: "e = None \<longleftrightarrow> validateConfig (shards_of config) = None"
    using r by (auto simp: Reconfigure_def Let_def split: option.splits)
  have same: "p\<lparr>lstore := lstore p\<rparr> = p" by simp
  have cache: "\<exists>c'. cache_UpdateConfig eo ko now (Some x) c = Inr c'" for x c
    by (cases x) (simp add: cache_UpdateConfig_def Let_def)
  show ?thesis
  proof (cases e)
    case (Some x)
    then have "p' = p \<and> err = Some x"
      using assms(3) r k same by (simp add: applyMemoryPoolConfig_def shards_of_def)
    then show ?thesis using assms(2) v Some by simp
  next
    case None
    have "\<exists>c. p' = p\<lparr>lstore := s, localCache := c\<rparr> \<and> err = None"
    proof (cases "localCache p")
      case None
      then have "p' = p\<lparr>lstore := s\<rparr> \<and> err = None"
        using assms(3) r \<open>e = None\<close> by (simp add: applyMemoryPoolConfig_def shards_of_def)
      then show ?thesis using None by (intro exI [of _ None]) simp
    next
      case (Some c)
      obtain c' where "cache_UpdateConfig eo ko now (Some (optCacheSize config, 1800000000000)) c = Inr c'"
        using cache by blast
      then show ?thesis
        using assms(3) r \<open>e = None\<close> Some by (auto simp: applyMemoryPoolConfig_def shards_of_def Let_def)
    qed
    then show ?thesis using ok v None by auto
  qed
qed

lemma cfg_after_get [simp]: "cfg (fst (lp_getGroupConfig g p)) = cfg p" "snd (lp_getGroupConfig g p) = cfg p g"
  by (auto simp: lp_getGroupConfig_def cfg_def fun_eq_iff split: option.splits)

lemma get_keeps [simp]: "lstore (fst (lp_getGroupConfig g p)) = lstore p" "ldb (fst (lp_getGroupConfig g p)) = ldb p"
  by (auto simp: lp_getGroupConfig_def split: option.splits)

definition configured :: "nat \<Rightarrow> OptimizerOptimalConfig \<Rightarrow> PoolConfig" where
  "configured gid config = (convertToPoolConfig config)\<lparr>cfgGroupID := gid\<rparr>"

lemma cfg_put: "groupConfigs p' = gput gid c (groupConfigs p) \<Longrightarrow> cfg p' = (cfg p)(gid := c)"
  by (auto simp: cfg_def fun_eq_iff)

lemma history_last [simp]:
  "applicationHistory (recordApplication now g c ok e rb ca) \<noteq> []"
  "last (applicationHistory (recordApplication now g c ok e rb ca)) =
     \<lparr>caGroupID = g, caConfig = c, caAppliedAt = now, caSuccess = ok, caError = e, caRollback = rb\<rparr>"
  "appliedConfigs (recordApplication now g c ok e rb ca) = appliedConfigs ca"
  by (simp_all add: recordApplication_def Let_def)

lemma apply_outcome:
  assumes "gget pools gid = Some (MemPool p)" "lp_ok p" "cfgGroupID (cfg p gid) = gid" "iter_order ord"
    and "ApplyOptimalConfig eo ko ord now gid config (ca, pools) = ((ca', pools'), err)"
  shows "\<exists>p'. gget pools' gid = Some (MemPool p') \<and> lp_ok p' \<and> view p' = view p \<and> ldb p' = ldb p \<and>
    (err = None \<longleftrightarrow> validateConfig (shards_of config) = None) \<and>
    (if err = None
     then cfg p' = (cfg p)(gid := configured gid config) \<and> appliedConfigs ca' = gput gid config (appliedConfigs ca)
     else cfg p' = cfg p \<and> lstore p' = lstore p \<and> localCache p' = localCache p \<and>
       appliedConfigs ca' = appliedConfigs ca) \<and>
    last (applicationHistory ca') = \<lparr>caGroupID = gid, caConfig = config, caAppliedAt = now,
      caSuccess = (err = None), caError = err, caRollback = (err \<noteq> None)\<rparr> \<and>
    (\<forall>g. g \<noteq> gid \<longrightarrow> gget pools' g = gget pools g)"
proof -
  define p1 where "p1 = fst (lp_getGroupConfig gid p)"
  define p2 where "p2 = p1\<lparr>groupConfigs := gput gid (configured gid config) (groupConfigs p1)\<rparr>"
  have g: "lp_getGroupConfig gid p = (p1, cfg p gid)" by (simp add: p1_def prod_eq_iff)
  have p1: "lstore p1 = lstore p" "localCache p1 = localCache p" "ldb p1 = ldb p" "cfg p1 = cfg p"
    by (auto simp: p1_def lp_getGroupConfig_def cfg_def fun_eq_iff split: option.splits)
  have u: "lp_UpdateConfig gid (Some (convertToPoolConfig config)) p1 = (p2, Inr ())"
    by (simp add: lp_UpdateConfig_def p2_def configured_def)
  have cfg2: "cfg p2 = (cfg p)(gid := configured gid config)"
    using cfg_put [of p2 gid _ p1] p1(4) by (simp add: p2_def)
  obtain p3 e where a: "applyMemoryPoolConfig eo ko ord now config p2 = (p3, e)" by fastforce
  have "lp_ok p2" using assms(2) p1(1) by (simp add: p2_def)
  note m = memory_config_applied [OF assms(4) this a]
  have cfg3: "cfg p3 = cfg p2" using m by (simp add: cfg_def fun_eq_iff)
  have s3: "view p3 = view p" "ldb p3 = ldb p" "lp_ok p3" using m p1 by (simp_all add: p2_def)
  show ?thesis
  proof (cases e)
    case None
    then have r: "ca' = recordApplication now gid config True None False
          (ca\<lparr>appliedConfigs := gput gid config (appliedConfigs ca)\<rparr>)" "pools' = gput gid (MemPool p3) pools" "err = None"
      using assms(1,5) g u a by (auto simp: ApplyOptimalConfig_def Let_def)
    then show ?thesis using m s3 cfg2 cfg3 None by simp
  next
    case (Some x)
    define p4 where "p4 = p3\<lparr>groupConfigs := gput gid ((cfg p gid)\<lparr>cfgGroupID := gid\<rparr>) (groupConfigs p3)\<rparr>"
    have r: "ca' = recordApplication now gid config False (Some (MemoryRejected x)) True ca"
        "pools' = gput gid (MemPool p4) pools" "err = Some (MemoryRejected x)"
      using assms(1,5) g u a Some
      by (auto simp: ApplyOptimalConfig_def Let_def lp_UpdateConfig_def p4_def)
    have "(cfg p gid)\<lparr>cfgGroupID := gid\<rparr> = cfg p gid" using assms(3) by simp
    then have "cfg p4 = cfg p"
      using cfg_put [of p4 gid "cfg p gid" p3] cfg2 cfg3 by (simp add: p4_def)
    moreover have "lstore p4 = lstore p" "localCache p4 = localCache p" "ldb p4 = ldb p"
      using m Some p1 by (simp_all add: p4_def p2_def)
    ultimately show ?thesis using r m assms(2) Some by simp
  qed
qed

text \<open>The rollback of a configuration that was applied applies it once more.\<close>

lemma rollback_reapplies:
  assumes "gget pools gid = Some (MemPool p)" "lp_ok p" "cfgGroupID (cfg p gid) = gid" "iter_order ord"
    and "ApplyOptimalConfig eo ko ord now gid config (ca, pools) = ((ca1, pools1), None)"
    and "RollbackConfig later gid (ca1, pools1) = ((ca2, pools2), err)"
  shows "err = None \<and> appliedConfigs ca2 = appliedConfigs ca1 \<and>
    (\<exists>p2. gget pools2 gid = Some (MemPool p2) \<and> cfg p2 = (cfg p)(gid := configured gid config))"
proof -
  obtain p1 where p1: "gget pools1 gid = Some (MemPool p1)" "cfg p1 = (cfg p)(gid := configured gid config)"
    using apply_outcome [OF assms(1-5)] by auto
  have l: "last (applicationHistory ca1) = \<lparr>caGroupID = gid, caConfig = config, caAppliedAt = now,
      caSuccess = True, caError = None, caRollback = False\<rparr>" "applicationHistory ca1 \<noteq> []"
    using assms(1,5) by (auto simp: ApplyOptimalConfig_def Let_def split: prod.splits applied_pool.splits option.splits sum.splits)
  then obtain h where "rev (applicationHistory ca1) = last (applicationHistory ca1) # h"
    by (metis append_butlast_last_id rev_eq_Cons_iff rev_rev_ident)
  then have f: "find (\<lambda>a. caGroupID a = gid \<and> caSuccess a \<and> \<not> caRollback a) (rev (applicationHistory ca1)) =
      Some \<lparr>caGroupID = gid, caConfig = config, caAppliedAt = now, caSuccess = True, caError = None, caRollback = False\<rparr>"
    using l(1) by simp
  define p2 where "p2 = p1\<lparr>groupConfigs := gput gid (configured gid config) (groupConfigs p1)\<rparr>"
  have "err = None \<and> ca2 = recordApplication later gid config True (Some RolledBack) True ca1 \<and> pools2 = gput gid (MemPool p2) pools1"
    using assms(6) f p1(1) by (auto simp: RollbackConfig_def lp_UpdateConfig_def configured_def p2_def)
  moreover have "cfg p2 = cfg p1" using cfg_put [of p2 gid _ p1] p1(2) by (simp add: p2_def)
  ultimately show ?thesis using p1(2) by auto
qed

text \<open>C39: Applying a configuration to the memory pool of a group is all or nothing, and never touches its
  keys. It succeeds exactly when the shards it asks for are valid (their number a power of two up to 1024); then
  the pool has the new configuration, and the applier remembers it. Otherwise the pool and its configuration are
  as before, and so is what the applier remembers. The history ends with an entry that tells which, and no
  other pool has changed. A rollback after a success brings nothing back: it applies the same configuration once
  more.\<close>

theorem apply_config_all_or_nothing:
  assumes "gget pools gid = Some (MemPool p)" "lp_ok p" "cfgGroupID (cfg p gid) = gid" "iter_order ord"
    and "ApplyOptimalConfig eo ko ord now gid config (ca, pools) = ((ca', pools'), err)"
    and "RollbackConfig later gid (ca', pools') = ((ca2, pools2), err2)"
  shows "(\<exists>p'. gget pools' gid = Some (MemPool p') \<and> lp_ok p' \<and> view p' = view p \<and> ldb p' = ldb p \<and>
      (err = None \<longleftrightarrow> validateConfig (shards_of config) = None) \<and>
      (if err = None
       then cfg p' = (cfg p)(gid := configured gid config) \<and> appliedConfigs ca' = gput gid config (appliedConfigs ca)
       else cfg p' = cfg p \<and> lstore p' = lstore p \<and> localCache p' = localCache p \<and>
         appliedConfigs ca' = appliedConfigs ca) \<and>
      last (applicationHistory ca') = \<lparr>caGroupID = gid, caConfig = config, caAppliedAt = now,
        caSuccess = (err = None), caError = err, caRollback = (err \<noteq> None)\<rparr> \<and>
      (\<forall>g. g \<noteq> gid \<longrightarrow> gget pools' g = gget pools g)) \<and>
    (err = None \<longrightarrow> err2 = None \<and>
      (\<exists>p2. gget pools2 gid = Some (MemPool p2) \<and> cfg p2 = (cfg p)(gid := configured gid config)))"
proof (rule conjI [OF apply_outcome [OF assms(1-5)]], rule impI)
  assume "err = None"
  then have "ApplyOptimalConfig eo ko ord now gid config (ca, pools) = ((ca', pools'), None)" using assms(5) by simp
  from rollback_reapplies [OF assms(1-4) this assms(6)]
  show "err2 = None \<and> (\<exists>p2. gget pools2 gid = Some (MemPool p2) \<and> cfg p2 = (cfg p)(gid := configured gid config))"
    by blast
qed

text \<open>The applier's own check accepts numbers of shards that can never be applied.\<close>

lemma accepted_but_not_applicable:
  assumes "optShardCount c = 3" "0 < optCacheSize c" "optCacheSize c \<le> 1000000" "0 < optBatchSize c"
    "optBatchSize c \<le> 10000" "0 < optMaxConcurrency c" "optMaxConcurrency c \<le> 10000"
    "0 < optSelectTimeout c" "optSelectTimeout c \<le> 300000000000"
  shows "ValidateOptimalConfig c = None" "validateConfig (shards_of c) \<noteq> None"
  using assms by (simp_all add: ValidateOptimalConfig_def validateConfig_def shards_of_def pow2_test_def)

definition demo_config :: OptimizerOptimalConfig where
  "demo_config = \<lparr>optShardCount = 8, optCacheSize = 100, optBatchSize = 10, optMaxConcurrency = 4,
     optSelectTimeout = 1000000000, optRecoveryTimeout = 60000000000, optAvailableMemory = 64\<rparr>"

theorem apply_config_all_or_nothing_witness:
  "\<exists>p ca' pools' p'. demo_ok p \<and>
     ApplyOptimalConfig id id id 5 2 demo_config (NewConfigApplier, [(2, MemPool p)]) = ((ca', pools'), None) \<and>
     gget pools' 2 = Some (MemPool p') \<and> view p' = view p \<and> MinActiveKeys (cfg p' 2) = 25"
proof -
  obtain p where p: "demo_ok p" using demo_exists by blast
  have ok: "lp_ok p" "cfgGroupID (cfg p 2) = 2" using p by (simp_all add: demo_ok_def DefaultPoolConfig_def)
  obtain ca' pools' err where a: "ApplyOptimalConfig id id id 5 2 demo_config (NewConfigApplier, [(2, MemPool p)]) =
      ((ca', pools'), err)" by (metis surj_pair)
  obtain ca2 pools2 err2 where r: "RollbackConfig 6 2 (ca', pools') = ((ca2, pools2), err2)" by (metis surj_pair)
  have v: "validateConfig (shards_of demo_config) = None"
    by (simp add: validateConfig_def shards_of_def demo_config_def pow2_test_def i64_def)
  have m: "MinActiveKeys (configured 2 demo_config) = 25"
    by (simp add: configured_def convertToPoolConfig_def demo_config_def tdiv_def)
  from apply_config_all_or_nothing [OF _ ok iter_order_id(1) a r] v m p a show ?thesis by auto
qed

end
