(* ===== verification/ProviderManager.thy ===== *)
theory ProviderManager
  imports PoolManager
begin

text \<open>The choice of the key provider: src/internal/keypool/config.go. A configuration is a value: the manager and
  its callers are taken not to share one. The two providers are what the manager knows of them; the parts of a
  configuration that are only passed on are opaque.\<close>

section \<open>State\<close>

datatype ProviderType = ProviderTypeLegacy | ProviderTypeEnhanced

text \<open>The components handed to an enhanced provider: the implementation, the configurations of the
  pool, and the switches for metrics, validation and events.\<close>

record provider_parts =
  PoolImplementation :: string
  ppPoolConfig :: PoolConfig
  ppRedisConfig :: RedisPoolConfig
  ppMemoryConfig :: MemoryPoolConfig
  ppEnableMetrics :: bool
  ppEnableValidation :: bool
  ppEnableEvents :: bool

record GlobalConfig =
  gcProviderType :: ProviderType
  gcUseLayeredPool :: bool
  gcParts :: provider_parts

record EnhancedProviderConfig =
  ecUseLayeredPool :: bool
  ecParts :: provider_parts

record EnhancedKeyProvider =
  epConfig :: EnhancedProviderConfig
  epLayeredPool :: bool
  usingLayeredPool :: bool

definition NewEnhancedKeyProvider :: "EnhancedProviderConfig \<Rightarrow> EnhancedKeyProvider" where
  "NewEnhancedKeyProvider c = \<lparr>epConfig = c, epLayeredPool = False, usingLayeredPool = ecUseLayeredPool c\<rparr>"

definition SwitchToLayeredPool :: "EnhancedProviderConfig option \<Rightarrow> EnhancedKeyProvider \<Rightarrow> EnhancedKeyProvider" where
  "SwitchToLayeredPool c e =
    (let e1 = e\<lparr>usingLayeredPool := True, epConfig := (epConfig e)\<lparr>ecUseLayeredPool := True\<rparr>\<rparr> in
     case c of None \<Rightarrow> e1 | Some c \<Rightarrow> e1\<lparr>epConfig := c\<rparr>)"

definition SwitchToLegacyMode :: "EnhancedKeyProvider \<Rightarrow> EnhancedKeyProvider" where
  "SwitchToLegacyMode e = e\<lparr>usingLayeredPool := False, epConfig := (epConfig e)\<lparr>ecUseLayeredPool := False\<rparr>\<rparr>"

definition DefaultGlobalConfig :: GlobalConfig where
  "DefaultGlobalConfig =
    \<lparr>gcProviderType = ProviderTypeLegacy, gcUseLayeredPool = False,
     gcParts = \<lparr>PoolImplementation = ''redis'', ppPoolConfig = DefaultPoolConfig 0,
       ppRedisConfig = DefaultRedisPoolConfig, ppMemoryConfig = DefaultMemoryPoolConfig,
       ppEnableMetrics = True, ppEnableValidation = True, ppEnableEvents = True\<rparr>\<rparr>"

text \<open>The legacy provider always exists; the current one is the legacy or the enhanced provider.\<close>

datatype current_provider = UseLegacy | UseEnhanced

record ProviderManager =
  mConfig :: GlobalConfig
  enhancedProvider :: "EnhancedKeyProvider option"
  currentProvider :: current_provider

section \<open>Operations\<close>

definition enhanced_config :: "bool \<Rightarrow> GlobalConfig \<Rightarrow> EnhancedProviderConfig" where
  "enhanced_config layered c = \<lparr>ecUseLayeredPool = layered, ecParts = gcParts c\<rparr>"

definition wants_enhanced :: "GlobalConfig \<Rightarrow> bool" where
  "wants_enhanced c \<longleftrightarrow> gcProviderType c = ProviderTypeEnhanced \<or> gcUseLayeredPool c"

definition NewProviderManager :: "GlobalConfig option \<Rightarrow> ProviderManager" where
  "NewProviderManager config =
    (let c = (case config of None \<Rightarrow> DefaultGlobalConfig | Some c \<Rightarrow> c) in
     if wants_enhanced c
     then \<lparr>mConfig = c, enhancedProvider = Some (NewEnhancedKeyProvider (enhanced_config (gcUseLayeredPool c) c)),
           currentProvider = UseEnhanced\<rparr>
     else \<lparr>mConfig = c, enhancedProvider = None, currentProvider = UseLegacy\<rparr>)"

definition SwitchToEnhanced :: "ProviderManager \<Rightarrow> ProviderManager" where
  "SwitchToEnhanced m =
    (let e = (case enhancedProvider m of
           None \<Rightarrow> NewEnhancedKeyProvider (enhanced_config True (mConfig m))
         | Some e \<Rightarrow> if \<not> usingLayeredPool e then SwitchToLayeredPool (Some (enhanced_config True (mConfig m))) e else e)
     in m\<lparr>enhancedProvider := Some e, currentProvider := UseEnhanced,
          mConfig := (mConfig m)\<lparr>gcProviderType := ProviderTypeEnhanced, gcUseLayeredPool := True\<rparr>\<rparr>)"

definition SwitchToLegacy :: "ProviderManager \<Rightarrow> ProviderManager" where
  "SwitchToLegacy m =
    m\<lparr>enhancedProvider := map_option (\<lambda>e. if usingLayeredPool e then SwitchToLegacyMode e else e) (enhancedProvider m),
      currentProvider := UseLegacy,
      mConfig := (mConfig m)\<lparr>gcProviderType := ProviderTypeLegacy, gcUseLayeredPool := False\<rparr>\<rparr>"

definition pm_UpdateConfig :: "GlobalConfig option \<Rightarrow> ProviderManager \<Rightarrow> ProviderManager \<times> string option" where
  "pm_UpdateConfig newConfig m =
    (case newConfig of
       None \<Rightarrow> (m, Some ''config cannot be nil'')
     | Some c \<Rightarrow>
         let old = mConfig m; m1 = m\<lparr>mConfig := c\<rparr> in
         if gcProviderType old \<noteq> gcProviderType c \<or> gcUseLayeredPool old \<noteq> gcUseLayeredPool c
         then if wants_enhanced c then (SwitchToEnhanced m1, None) else (SwitchToLegacy m1, None)
         else (m1, None))"

definition GetStatus :: "ProviderManager \<Rightarrow> ProviderType \<times> bool \<times> bool \<times> bool option" where
  "GetStatus m = (gcProviderType (mConfig m), gcUseLayeredPool (mConfig m), enhancedProvider m \<noteq> None,
     map_option usingLayeredPool (enhancedProvider m))"

text \<open>The health check asks the layered pool of the provider in use, if it has one, then the store and the
  database; their answers are arguments.\<close>

definition pm_HealthCheck :: "string option \<Rightarrow> string option \<Rightarrow> string option \<Rightarrow> ProviderManager \<Rightarrow> string option" where
  "pm_HealthCheck pool_health store_health db_health m =
    (if currentProvider m = UseEnhanced \<and> (\<exists>e. enhancedProvider m = Some e \<and> epLayeredPool e) \<and> pool_health \<noteq> None
     then pool_health
     else if store_health \<noteq> None then store_health
     else db_health)"

section \<open>The provider in use\<close>

datatype pm_call = CallEnhanced | CallLegacy | CallUpdate "GlobalConfig option"

fun pm_run :: "pm_call \<Rightarrow> ProviderManager \<Rightarrow> ProviderManager" where
  "pm_run CallEnhanced m = SwitchToEnhanced m"
| "pm_run CallLegacy m = SwitchToLegacy m"
| "pm_run (CallUpdate c) m = fst (pm_UpdateConfig c m)"

text \<open>The provider in use is the one the configuration asks for, it exists, and it has no pool of its own.\<close>

definition enhanced_ok :: "ProviderManager \<Rightarrow> bool" where
  "enhanced_ok m \<longleftrightarrow> (\<forall>e. enhancedProvider m = Some e \<longrightarrow>
     \<not> epLayeredPool e \<and> ecUseLayeredPool (epConfig e) = usingLayeredPool e)"

definition pm_inv :: "ProviderManager \<Rightarrow> bool" where
  "pm_inv m \<longleftrightarrow> (currentProvider m = UseEnhanced \<longleftrightarrow> wants_enhanced (mConfig m)) \<and>
     (currentProvider m = UseEnhanced \<longrightarrow> enhancedProvider m \<noteq> None) \<and> enhanced_ok m"

lemma enhanced_ok_config [simp]: "enhanced_ok (m\<lparr>mConfig := g\<rparr>) = enhanced_ok m"
  by (simp add: enhanced_ok_def)

lemma pm_inv_new: "pm_inv (NewProviderManager c)"
  by (auto simp: pm_inv_def enhanced_ok_def NewProviderManager_def NewEnhancedKeyProvider_def enhanced_config_def Let_def)

lemma pm_inv_enhanced: "enhanced_ok m \<Longrightarrow> pm_inv (SwitchToEnhanced m)"
  by (auto simp: pm_inv_def enhanced_ok_def SwitchToEnhanced_def NewEnhancedKeyProvider_def enhanced_config_def
      SwitchToLayeredPool_def wants_enhanced_def Let_def split: option.splits)

lemma pm_inv_legacy: "enhanced_ok m \<Longrightarrow> pm_inv (SwitchToLegacy m)"
  by (auto simp: pm_inv_def enhanced_ok_def SwitchToLegacy_def SwitchToLegacyMode_def wants_enhanced_def split: if_splits)

lemma pm_inv_update: "pm_inv m \<Longrightarrow> pm_inv (fst (pm_UpdateConfig c m))"
proof (cases c)
  case (Some g)
  assume m: "pm_inv m"
  then have e: "enhanced_ok m" by (simp add: pm_inv_def)
  have "pm_inv (m\<lparr>mConfig := g\<rparr>)"
    if "gcProviderType (mConfig m) = gcProviderType g" "gcUseLayeredPool (mConfig m) = gcUseLayeredPool g"
    using m that by (simp add: pm_inv_def wants_enhanced_def)
  then show ?thesis
    using e Some pm_inv_enhanced [of "m\<lparr>mConfig := g\<rparr>"] pm_inv_legacy [of "m\<lparr>mConfig := g\<rparr>"]
    by (simp add: pm_UpdateConfig_def Let_def)
qed (simp add: pm_UpdateConfig_def)

lemma pm_inv_run: "pm_inv m \<Longrightarrow> pm_inv (pm_run c m)"
  by (cases c) (simp_all add: pm_inv_enhanced pm_inv_legacy pm_inv_update, simp_all add: pm_inv_def pm_inv_enhanced [unfolded pm_inv_def] pm_inv_legacy [unfolded pm_inv_def])

text \<open>C40: After any calls the provider in use is the one the configuration asks for and exists, and a
  successful update with a configuration that changes the provider or the use of the layered pool puts the asked
  provider in use. The update does not keep what was asked: an enhanced provider without the layered pool becomes one with
  it, and a change of the pool alone does not reach the provider. No provider ever has a layered pool, so
  that the health check never asks one.\<close>

theorem provider_matches_config:
  assumes "m = fold pm_run calls (NewProviderManager c0)"
  shows "(currentProvider m = UseEnhanced \<longleftrightarrow> wants_enhanced (mConfig m)) \<and>
    (currentProvider m = UseEnhanced \<longrightarrow> enhancedProvider m \<noteq> None) \<and>
    pm_HealthCheck pool sto db m = (if sto \<noteq> None then sto else db) \<and>
    (let (m', err) = pm_UpdateConfig (Some c) m;
         changed = (gcProviderType (mConfig m) \<noteq> gcProviderType c \<or> gcUseLayeredPool (mConfig m) \<noteq> gcUseLayeredPool c) in
     err = None \<and> (currentProvider m' = UseEnhanced \<longleftrightarrow> wants_enhanced c) \<and>
     gcParts (mConfig m') = gcParts c \<and>
     (changed \<longrightarrow> gcUseLayeredPool (mConfig m') = wants_enhanced c) \<and>
     (\<not> changed \<longrightarrow> mConfig m' = c \<and> enhancedProvider m' = enhancedProvider m))"
proof -
  have "pm_inv (fold pm_run calls m0)" if "pm_inv m0" for m0
    using that by (induction calls arbitrary: m0) (simp_all add: pm_inv_run)
  then have i: "pm_inv m" using assms pm_inv_new by blast
  then have "pm_HealthCheck pool sto db m = (if sto \<noteq> None then sto else db)"
    by (auto simp: pm_HealthCheck_def pm_inv_def enhanced_ok_def)
  moreover have "wants_enhanced c = wants_enhanced (mConfig m)"
    if "gcProviderType (mConfig m) = gcProviderType c" "gcUseLayeredPool (mConfig m) = gcUseLayeredPool c"
    using that by (simp add: wants_enhanced_def)
  ultimately show ?thesis
    using i by (auto simp: pm_inv_def pm_UpdateConfig_def SwitchToEnhanced_def SwitchToLegacy_def Let_def)
qed

theorem provider_matches_config_witness:
  "let m = fold pm_run [CallEnhanced] (NewProviderManager None);
       m' = fst (pm_UpdateConfig (Some (DefaultGlobalConfig\<lparr>gcProviderType := ProviderTypeEnhanced\<rparr>)) m) in
   currentProvider m = UseEnhanced \<and> currentProvider m' = UseEnhanced \<and> gcUseLayeredPool (mConfig m')"
  using provider_matches_config [OF refl, of "[CallEnhanced]" None None None None
      "DefaultGlobalConfig\<lparr>gcProviderType := ProviderTypeEnhanced\<rparr>"]
  by (simp add: Let_def wants_enhanced_def SwitchToEnhanced_def pm_UpdateConfig_def DefaultGlobalConfig_def
      NewProviderManager_def)

end
