(* ===== verification/Spec2Isabelle.thy ===== *)
theory Spec2Isabelle
  imports ShardedAdmin BatchWitness RedisBatch ProxyProps KeyImport CacheSync Gateway
    LruProps PoolManager GroupProps BatchRecovery KeyHandlerProps
    ConfigApplier ProviderManager
begin

text \<open>A verification library for GPT-Load, a proxy that answers requests to AI services with a pool
  of API keys.

  The program. A request arrives at ProxyServer.HandleProxy (src/internal/proxy/server.go) for a
  group: a set of keys, a list of upstream addresses and a configuration. The channel of the group
  (src/internal/channel) prepares the upstream request, the key provider
  (src/internal/keypool/provider.go) selects a key by rotating the group's list of active keys in a
  store (src/internal/store), and the request is sent; while the upstream fails, it is sent again
  with another key. The outcome updates the state of the key (success, failure up to the
  blacklist threshold, rate limit until a reset time recognised by
  src/internal/errors/rate_limit.go) in the database table api_keys and in the store, and is recorded
  by the request log service (src/internal/services/request_log_service.go), which writes its records to the
  database in batches. The settings manager (src/internal/config) supplies the effective configuration of
  a group. Beside the provider, src/internal/keypool holds a second design, the layered pool, that keeps
  the keys of a group in a validation, a ready, an active and a cooling pool over a sharded store.

  The theories, in the order of their imports.

  Prelude: Go's int64, the decimal conversions of strconv and fmt, Go maps as association lists with
  distinct keys (\<^verbatim>\<open>gomap\<close>), list lemmas, the named collections \<^verbatim>\<open>store_defs\<close> and
  \<^verbatim>\<open>pool_simps\<close>. GoText: the functions of the package strings and of
  src/internal/utils/string_utils.go.

  StoreSpec: the contract of the interface Store (src/internal/store/store.go) as an abstract store and
  the locale \<^verbatim>\<open>store_impl\<close>, with the lemmas every implementation inherits.
  MemStore: MemoryStore of src/internal/store/memory.go, one definition \<^verbatim>\<open>mem_Op\<close> for each
  method Op; it interprets the locale. ShardedStore and ShardedAdmin: ShardedMemoryStore of
  src/internal/keypool/sharded_memory.go, \<^verbatim>\<open>sh_Op\<close> for each method Op, with reconfiguration, garbage
  collection and metrics; the second interpretation, from which the equivalence of the two stores
  follows.

  KeyProvider: KeyProvider of src/internal/keypool/provider.go as functions on the record \<^verbatim>\<open>kp\<close>
  (table and store). ProviderInv: its effect on an abstract view and the invariant that store and
  table agree. ProviderProps: selection, loading, blacklist, rate limit, recovery, retries, and
  the step relation \<^verbatim>\<open>kp_step\<close> of the reachable states. Updates: what the status
  updates that the proxy and the validations start leave alone, the keys of every other group.

  PoolBase: what the two layered pools share (src/internal/keypool/layered_pool.go): pool types,
  configurations, errors, the table, and actions of type \<^verbatim>\<open>act\<close> with their sequencing and error handling.
  PoolLogic: a program logic \<^verbatim>\<open>sat m p Q\<close> for such actions, as the locales \<^verbatim>\<open>pool_logic\<close> and
  \<^verbatim>\<open>pool_db_logic\<close>. LayeredPool: MemoryLayeredPool of src/internal/keypool/memory_pool.go on the
  record \<^verbatim>\<open>lp\<close> (store, local cache, table, configurations, failing database calls). LayeredView: its
  pools as mathematical values. LayeredRules: the logic for its actions.
  LayeredProps, LayeredReach, LayeredListing: the effect of every operation, the invariant of the reachable
  states, the listings. LayeredWitness: the concrete pool of the witnesses. MemoryBatch and
  BatchWitness: the batch processor of src/internal/keypool/memory_batch_ops.go; its goroutines are
  lists of calls, interleaved by a schedule.

  RedisPool: RedisLayeredPool of src/internal/keypool/redis_pool.go and redis_pool_helpers.go, \<^verbatim>\<open>rp_op\<close>
  for each method op, over a record \<^verbatim>\<open>Store\<close> of the functions of the store's interface.
  PoolStore: the contract of that record as a locale, interpreted on both stores of the repository.
  RedisRules, RedisProps, RedisServe: the logic, the effect of the operations and the calls that cannot bring
  back a key, selection and refill. RedisWitness: a pool over the in-memory store. RedisBatch: the batches of
  src/internal/keypool/redis_batch_ops.go, whose commands are collected in a pipeline.

  LocalCache: LocalKeyCache of src/internal/keypool/local_cache.go, \<^verbatim>\<open>kc_Op\<close> for each method Op, with
  its doubly linked list as pointers in a heap, and the eviction loop of the adaptive cache as a partial
  function. LruSpec: the abstract cache, a list in the order of use, and the simulation. LruProps: what
  follows from it. PoolManager: src/internal/keypool/pool_manager.go over the constructors of both pools; a call
  that waits for a lock its own goroutine holds has the result None.

  RecoveryTime: when a rate-limited key is to be recovered, src/internal/keypool/recovery_strategy.go and
  dynamic_recovery_calculator.go; the rounding of floating point is an argument. RecoveryService:
  src/internal/keypool/recovery_service.go, its checks and workers as steps of the relation \<^verbatim>\<open>rs_run\<close>.
  BatchRecovery: src/internal/keypool/batch_recovery.go; a panic and a call that never returns are None.

  ConfigApplier: src/internal/keypool/config_applier.go on the memory pool, its sharded store and its cache.
  ProviderManager: the switch between the legacy and the enhanced provider, src/internal/keypool/config.go.

  RateLimit: src/internal/errors/rate_limit.go. Settings: the settings and their tags
  (src/internal/types/types.go), their manager (src/internal/config/system_settings.go,
  src/internal/utils/config_utils.go) and the cleaning of group overrides
  (validateAndCleanConfig of src/internal/handler/group_handler.go). Channel: src/internal/channel/base_channel.go and
  factory.go. RequestLog: the request log service over the in-memory store. Proxy: HandleProxy,
  executeRequestWithRetry and logRequest of src/internal/proxy/server.go with the three
  channel types, over the models of the provider, the channels, rate-limit recognition and the request log
  sharing one store. ProxyProps: the properties of this composition.

  KeyService: adding, restoring, deleting and exporting keys (src/internal/services/key_service.go).
  TaskService: the record of the running task (src/internal/services/task_service.go). KeyImport: the
  background import of src/internal/services/key_import_service.go over both. KeyValidation: testing keys
  (src/internal/keypool/validator.go), the validation task
  (src/internal/services/key_manual_validation_service.go) and the periodic check
  (src/internal/keypool/cron_checker.go); the upstream's verdict is an argument. CacheSync: the instances of a
  cluster, each with the caches of src/internal/syncer/cache_syncer.go that the settings manager and
  src/internal/services/group_manager.go keep, and the messages between them, in runs labelled with
  events: writes, announcements that may fail, messages taken or lost, and reloads that succeed or fail. Gateway: the
  authentication of src/internal/middleware/middleware.go in front of the proxy. GroupHandler: the
  requests that create, update, list, delete and copy groups (src/internal/handler/group_handler.go) on the record
  \<^verbatim>\<open>server\<close>; GroupProps: what holds after any of them. KeyHandler: the requests for the keys of a
  group (src/internal/handler/key_handler.go) on the same record, over the key service, the import, the test and the
  validation, with the pages of src/internal/response/pagination.go; KeyHandlerProps: runs of these
  requests and of the jobs they start. An import is one step of such a run; the updates of a test and of a
  validation are steps of their own, in any order.

  What the lemmas show. Stores: the in-memory store refines the abstract one, both stores answer
  alike, resharding and garbage collection are invisible, SetNX is a lease, Rotate is round robin.
  Provider: table and store agree in every reachable state, selection is fair and returns
  active keys, the blacklist threshold is exact, a rate-limited key is selected by no sequence of
  selections and again after a recovery pass exactly when its reset time has come; the
  one way the agreement breaks is a commit that fails with a locked database after the store was changed.
  Layered pool: the invariant of its states, what each operation does, and
  the deviations from its comments (keys are copied, not moved, into the active pool); the
  outcome of a batch under every interleaving. Redis pool: recovery never brings a rate-limited key
  back, only a copy of it that is left in another pool does, a
  refill does not see the size of the active pool, selection is round robin, a stored key
  is served with all its columns, a pipelined batch does what its operations do. Local cache: it refines the
  abstract one, hit rates included, with the pointer list in the order of use, for ids other than 0; a key in the working set stays, shrinking ends. Pool manager: it creates no pool. A configuration is applied to a
  pool completely or not at all; the provider in use is the one asked for.
  Recovery: the delays stay within their bounds, the sort of the plans is the stable sort, the recovery service never
  submits a plan, a batch holds plans of one priority and group and every plan is in one batch. Services: which rows a text of keys adds or removes, also when a chunk fails, what an import or a validation reports,
  which keys a test makes active again, and that only one task runs. Cluster: an instance that has taken its
  messages is up to date if it missed none since its last successful reload; a failed reload is not
  retried. Settings and log: accepted settings are read back as they were, except that a number from a
  million on, stored with an exponent, gives way to its default; accepted overrides take effect; no log
  is lost, whatever database statement fails. Groups: a channel can be built from a row exactly if its
  addresses parse as URLs, which the handlers do not check; what a deletion removes and a copy gets. Requests for
  the keys of a group, with the jobs they start, leave the other groups alone if the group cache is not behind the
  table; a rejected one changes nothing; the pages of a list hold each key exactly once if no two keys
  tie in the columns it is sorted by (for up to 2^42 keys, where the quotient in floating point is exact).
  Proxy: the number and the causes of retries, only active keys are used, and the client's
  credentials are replaced in the three headers and the query parameter in which the proxy accepts them.

  Bounds. Integers of Go are HOL ints wrapped to 64 bits by \<^verbatim>\<open>i64\<close> where the code's
  arithmetic can overflow; hashes of shards are 32-bit words. A transaction is attempted three times, as the code
  says. executeRequestWithRetry recurses with the measure MaxRetries + 1 - i. A flush of the log is given as
  fuel one more than the number of waiting keys; each iteration that goes on takes a key, so the
  fuel never runs out (\<^verbatim>\<open>flush_conserves\<close> states that a result is returned). Everything
  else is structural recursion.

  Parameters. What is not code of the repository is an argument: the order in which a Go map is
  iterated, the current time, which database statement fails, the decoding of JSON and of dates, the
  parsing and printing of a URL and of its query, the order the database gives to rows that tie,
  compression, what an upstream answers, and when a goroutine gets to
  run. The theorems hold for every value of these, or name the assumption on them.

  Not modelled. Publish and Subscribe of the stores, the Redis client, performance monitors and tuners with
  floating-point heuristics, the tickers that start recovery checks and their monitor, the requests to the upstream that validate
  a key, the statistics and options of groups, the handlers of logs, settings, pools and the dashboard, routing,
  logging and start-up. Operations are atomic, as the code's locks make
  those of one store; the effect of interleaving is modelled where goroutines update keys (the
  argument \<^verbatim>\<open>w_ends\<close> of the proxy), where batches are spread over goroutines, and
  between the instances of a cluster.\<close>

end
